(* ===== verification/Prelude.thy ===== *)
theory Prelude
  imports Main "HOL-Library.Char_ord" "HOL-Library.List_Lexorder"
    "HOL-Library.Product_Lexorder" "HOL-Library.Multiset"
begin

text \<open>
  The shared base of the development: the collections the component theories add
  their facts to, identifiers, the results of fallible operations, and the generic
  lemmas about lists, association lists and sorting.

  Go values are modelled as follows. A Go string is a byte sequence, here
  \<open>string\<close> (a list of 8-bit characters), and Go's \<open><\<close> on strings is the
  lexicographic order on bytes, which is the order \<open>List_Lexorder\<close> and
  \<open>Char_ord\<close> give. A pointer that may be nil is an \<open>option\<close>. A Go
  \<open>map\<close> is an association list with distinct keys. An operation that
  returns an error is a function into \<open>'e + 'a\<close>, the error on the left; an operation
  that may panic returns an \<open>option\<close> (or has an error constructor of its own for
  the panic), so that a dereferenced nil pointer is a branch of the model.
\<close>

section \<open>Collections\<close>

named_theorems model_defs \<open>definitions unfolded when a model function is evaluated\<close>
named_theorems validator_simps \<open>characterisations of the validators\<close>

section \<open>Identifiers\<close>

text \<open>
  A \<open>uuid.UUID\<close> is identified with its canonical text (\<open>UUID.String()\<close>), which
  determines the sixteen bytes. \<open>uuid.Nil\<close> is the all-zero identifier.
\<close>

datatype uuid = UUID (uuid_string: string)

definition uuid_nil :: uuid where
  "uuid_nil = UUID ''00000000-0000-0000-0000-000000000000''"

instantiation uuid :: linorder
begin

definition less_eq_uuid :: "uuid \<Rightarrow> uuid \<Rightarrow> bool" where
  "less_eq_uuid a b \<longleftrightarrow> uuid_string a \<le> uuid_string b"

definition less_uuid :: "uuid \<Rightarrow> uuid \<Rightarrow> bool" where
  "less_uuid a b \<longleftrightarrow> uuid_string a < uuid_string b"

instance
  by standard (auto simp: less_eq_uuid_def less_uuid_def uuid.expand)

end

lemma uuid_less_string [simp]: "uuid_string a < uuid_string b \<longleftrightarrow> a < b"
  by (simp add: less_uuid_def)

lemma uuid_string_eq [simp]: "uuid_string a = uuid_string b \<longleftrightarrow> a = b"
  by (auto intro: uuid.expand)

section \<open>Fallible results\<close>

text \<open>
  Checks run in sequence and stop at the first failure, as a chain of
  \<open>if bad { return err }\<close> does. \<open>check b e\<close> is one such guard and \<open>andthen\<close>
  continues after a success.
\<close>

definition check :: "bool \<Rightarrow> 'e \<Rightarrow> 'e + unit" where
  "check ok e = (if ok then Inr () else Inl e)"

definition andthen :: "'e + 'a \<Rightarrow> ('a \<Rightarrow> 'e + 'b) \<Rightarrow> 'e + 'b" where
  "andthen r f = (case r of Inl e \<Rightarrow> Inl e | Inr x \<Rightarrow> f x)"

fun first_error :: "('a \<Rightarrow> 'e + unit) \<Rightarrow> 'a list \<Rightarrow> 'e + unit" where
  "first_error f [] = Inr ()"
| "first_error f (x # xs) = andthen (f x) (\<lambda>_. first_error f xs)"

lemma check_Inr [simp]: "check ok e = Inr u \<longleftrightarrow> ok"
  by (simp add: check_def)

lemma check_Inl [simp]: "check ok e = Inl e' \<longleftrightarrow> \<not> ok \<and> e' = e"
  by (auto simp: check_def)

lemma check_True [simp]: "check True e = Inr ()"
  by (simp add: check_def)

lemma check_False [simp]: "check False e = Inl e"
  by (simp add: check_def)

lemma andthen_Inr [simp]: "andthen r f = Inr y \<longleftrightarrow> (\<exists>x. r = Inr x \<and> f x = Inr y)"
  by (auto simp: andthen_def split: sum.splits)

lemma andthen_Inl [simp]:
  "andthen r f = Inl e \<longleftrightarrow> r = Inl e \<or> (\<exists>x. r = Inr x \<and> f x = Inl e)"
  by (auto simp: andthen_def split: sum.splits)

lemma andthen_simps [simp]:
  "andthen (Inr x) f = f x" "andthen (Inl e) f = Inl e"
  by (simp_all add: andthen_def)

lemma first_error_Inr [simp]:
  "first_error f xs = Inr u \<longleftrightarrow> (\<forall>x\<in>set xs. f x = Inr ())"
  by (induction xs) auto

lemma first_error_Inl:
  "first_error f xs = Inl e \<Longrightarrow> \<exists>x\<in>set xs. f x = Inl e"
  by (induction xs) auto

section \<open>Integer division\<close>

lemma int_le_div_iff:
  fixes k t n :: int
  assumes "0 < n"
  shows "k \<le> t div n \<longleftrightarrow> k * n \<le> t"
proof
  assume "k \<le> t div n"
  then have "k * n \<le> t div n * n" using assms by (simp add: mult_right_mono)
  also have "\<dots> \<le> t" using assms div_mult_mod_eq [of t n] pos_mod_sign [of n t] by linarith
  finally show "k * n \<le> t" .
next
  assume "k * n \<le> t"
  then have "k * n div n \<le> t div n" using assms by (rule zdiv_mono1)
  then show "k \<le> t div n" using assms by simp
qed

lemma int_div_less_iff:
  fixes k t n :: int
  shows "0 < n \<Longrightarrow> t div n < k \<longleftrightarrow> t < k * n"
  using int_le_div_iff [of n k t] by linarith

section \<open>Lists\<close>

text \<open>The scans for duplicates that Go writes with a \<open>seen\<close> map.\<close>

lemma distinct_map_conv_nth:
  "distinct (map f xs) \<longleftrightarrow> (\<forall>i j. i < j \<longrightarrow> j < length xs \<longrightarrow> f (xs ! i) \<noteq> f (xs ! j))"
  unfolding distinct_conv_nth by (auto simp: nat_neq_iff) (metis less_trans nat_neq_iff)

lemma map_of_Some_distinct:
  "distinct (map fst xs) \<Longrightarrow> map_of xs k = Some v \<longleftrightarrow> (k, v) \<in> set xs"
  by (rule map_of_eq_Some_iff)

section \<open>Sorting by a comparator\<close>

text \<open>
  \<open>sort.Slice(xs, lt)\<close> is modelled by insertion sort on the comparator (what Go runs
  on short slices, and stable). Where \<open>lt\<close> compares a key that no two elements
  share, every correct sorting algorithm gives the same list (\<open>sort_unique\<close> below), so
  that nothing depends on the choice.
\<close>

fun insert_by :: "('a \<Rightarrow> 'a \<Rightarrow> bool) \<Rightarrow> 'a \<Rightarrow> 'a list \<Rightarrow> 'a list" where
  "insert_by lt x [] = [x]"
| "insert_by lt x (y # ys) = (if lt x y then x # y # ys else y # insert_by lt x ys)"

definition sort_by :: "('a \<Rightarrow> 'a \<Rightarrow> bool) \<Rightarrow> 'a list \<Rightarrow> 'a list" where
  "sort_by lt xs = fold (insert_by lt) xs []"

lemma mset_insert_by [simp]: "mset (insert_by lt x xs) = add_mset x (mset xs)"
  by (induction xs) auto

lemma set_insert_by [simp]: "set (insert_by lt x xs) = insert x (set xs)"
  by (induction xs) auto

lemma mset_fold_insert_by: "mset (fold (insert_by lt) xs acc) = mset xs + mset acc"
  by (induction xs arbitrary: acc) auto

lemma mset_sort_by [simp]: "mset (sort_by lt xs) = mset xs"
  by (simp add: sort_by_def mset_fold_insert_by)

lemma set_sort_by [simp]: "set (sort_by lt xs) = set xs"
  by (metis mset_sort_by set_mset_mset)

lemma length_sort_by [simp]: "length (sort_by lt xs) = length xs"
  by (metis mset_sort_by size_mset)

lemma sort_by_Nil [simp]: "sort_by lt [] = []"
  by (simp add: sort_by_def)

lemma sort_by_eq_Nil [simp]: "sort_by lt xs = [] \<longleftrightarrow> xs = []"
  by (metis length_0_conv length_sort_by)

lemma distinct_map_sort_by [simp]:
  "distinct (map f (sort_by lt xs)) \<longleftrightarrow> distinct (map f xs)"
  by (metis mset_map mset_sort_by mset_eq_imp_distinct_iff)

locale ranking =
  fixes lt :: "'a \<Rightarrow> 'a \<Rightarrow> bool"
    and key :: "'a \<Rightarrow> 'k::linorder"
  assumes less_key: "lt x y \<longleftrightarrow> key x < key y"
begin

lemma insert_by_sorted:
  "sorted (map key xs) \<Longrightarrow> sorted (map key (insert_by lt x xs))"
proof (induction xs)
  case Nil
  then show ?case by simp
next
  case (Cons y ys)
  then show ?case by (auto simp: less_key not_less)
qed

lemma fold_insert_by_sorted:
  "sorted (map key acc) \<Longrightarrow> sorted (map key (fold (insert_by lt) xs acc))"
  by (induction xs arbitrary: acc) (auto simp: insert_by_sorted)

lemma sort_sorted: "sorted (map key (sort_by lt xs))"
  by (simp add: sort_by_def fold_insert_by_sorted)

lemma sort_head_least:
  assumes "xs \<noteq> []" and "y \<in> set xs"
  shows "\<not> lt y (hd (sort_by lt xs))"
proof -
  from assms obtain z zs where s: "sort_by lt xs = z # zs"
    by (metis neq_Nil_conv sort_by_eq_Nil)
  have "y \<in> set (z # zs)" using assms(2) s by (metis set_sort_by)
  moreover have "sorted (map key (z # zs))" using sort_sorted [of xs] s by simp
  ultimately show ?thesis using s by (auto simp: less_key not_less)
qed

lemma sort_head_mem: "xs \<noteq> [] \<Longrightarrow> hd (sort_by lt xs) \<in> set xs"
  by (metis hd_in_set set_sort_by sort_by_eq_Nil)

text \<open>
  The contract a client needs: with distinct keys, any list that is a permutation of the
  input and ascending in the comparator is the sorted list.
\<close>

lemma sort_unique:
  assumes "distinct (map key xs)" and "mset ys = mset xs" and "sorted (map key ys)"
  shows "ys = sort_by lt xs"
proof -
  have "distinct (map key ys)"
    using assms(1,2) by (metis mset_eq_imp_distinct_iff mset_map)
  then have inj: "inj_on key (set ys)" by (simp add: distinct_map)
  have "map key ys = map key (sort_by lt xs)"
    using assms(2,3) sort_sorted [of xs]
    by (metis mset_map mset_sort_by properties_for_sort sorted_sort_id)
  moreover have "set ys = set (sort_by lt xs)"
    using assms(2) by (metis mset_sort_by set_mset_mset)
  ultimately show ?thesis using inj
    by (metis inj_on_map_eq_map Un_absorb)
qed

lemma sort_permutation_invariant:
  assumes "distinct (map key xs)" and "mset ys = mset xs"
  shows "sort_by lt ys = sort_by lt xs"
proof (rule sort_unique [OF assms(1)])
  show "mset (sort_by lt ys) = mset xs" using assms(2) by simp
  show "sorted (map key (sort_by lt ys))" by (rule sort_sorted)
qed

end

end
