(* ===== verification/GoValues.thy ===== *)
theory GoValues
  imports Prelude
begin

text \<open>
  Go values other than times: the string functions of package \<open>strings\<close>, floating
  point numbers, and the dynamic values (\<open>any\<close>) that decoding JSON produces.
\<close>

section \<open>Strings\<close>

definition has_prefix :: "string \<Rightarrow> string \<Rightarrow> bool" where
  "has_prefix s p \<longleftrightarrow> take (length p) s = p"

definition has_suffix :: "string \<Rightarrow> string \<Rightarrow> bool" where
  "has_suffix s p \<longleftrightarrow> length p \<le> length s \<and> drop (length s - length p) s = p"

fun contains :: "string \<Rightarrow> string \<Rightarrow> bool" where
  "contains [] p \<longleftrightarrow> p = []"
| "contains (c # cs) p \<longleftrightarrow> has_prefix (c # cs) p \<or> contains cs p"

text \<open>
  \<open>strings.TrimSpace\<close>: Unicode white space, in UTF-8, is cut off both ends. The list
  holds the encodings of the code points for which \<open>unicode.IsSpace\<close> is true.
\<close>

definition space_encodings :: "string list" where
  "space_encodings =
     map (map char_of) ([[9], [10], [11], [12], [13], [32], [194, 133], [194, 160],
       [225, 154, 128], [226, 128, 168], [226, 128, 169], [226, 128, 175], [226, 129, 159],
       [227, 128, 128]] @ map (\<lambda>b. [226, 128, b]) [128..<139 :: nat])"

definition leading_space :: "string list \<Rightarrow> string \<Rightarrow> nat" where
  "leading_space encs s =
     (case find (has_prefix s) encs of None \<Rightarrow> 0 | Some e \<Rightarrow> length e)"

function trim_left :: "string list \<Rightarrow> string \<Rightarrow> string" where
  "trim_left encs s =
     (let n = leading_space encs s in if n = 0 \<or> s = [] then s else trim_left encs (drop n s))"
  by pat_completeness auto
termination
  by (relation "measure (\<lambda>(encs, s). length s)") auto

declare trim_left.simps [simp del]

definition trim_space :: "string \<Rightarrow> string" where
  "trim_space s = rev (trim_left (map rev space_encodings) (rev (trim_left space_encodings s)))"

text \<open>Text of graphic ASCII characters has nothing to trim.\<close>

definition graphic :: "char \<Rightarrow> bool" where
  "graphic c \<longleftrightarrow> 33 \<le> (of_char c :: nat) \<and> (of_char c :: nat) < 128"

lemma space_ends_not_graphic:
  "e \<in> set space_encodings \<Longrightarrow> e \<noteq> [] \<and> \<not> graphic (hd e) \<and> \<not> graphic (last e)"
  by (auto simp: space_encodings_def graphic_def)

lemma trim_left_id:
  assumes "\<forall>e\<in>set encs. e \<noteq> [] \<and> \<not> P (hd e)" and "list_all P s"
  shows "trim_left encs s = s"
proof -
  have "find (has_prefix s) encs = None"
    using assms by (cases s) (auto simp: find_None_iff has_prefix_def neq_Nil_conv)
  then show ?thesis by (simp add: trim_left.simps [of encs s] leading_space_def)
qed

lemma trim_space_graphic:
  assumes "list_all graphic s"
  shows "trim_space s = s"
proof -
  have "trim_left space_encodings s = s"
    by (rule trim_left_id [OF _ assms]) (use space_ends_not_graphic in auto)
  moreover have "trim_left (map rev space_encodings) (rev s) = rev s"
    by (rule trim_left_id [where P = graphic]) (use assms space_ends_not_graphic in \<open>auto simp: hd_rev\<close>)
  ultimately show ?thesis by (simp add: trim_space_def)
qed

text \<open>Cut before and after the first occurrence of a separator character.\<close>

definition cut_before :: "char \<Rightarrow> string \<Rightarrow> string" where
  "cut_before c s = takeWhile (\<lambda>x. x \<noteq> c) s"

definition cut_after :: "char \<Rightarrow> string \<Rightarrow> string option" where
  "cut_after c s = (case dropWhile (\<lambda>x. x \<noteq> c) s of [] \<Rightarrow> None | _ # rest \<Rightarrow> Some rest)"

definition alpha_lower :: "char \<Rightarrow> bool" where
  "alpha_lower c \<longleftrightarrow> c \<in> set ''abcdefghijklmnopqrstuvwxyz''"

definition alpha_upper :: "char \<Rightarrow> bool" where
  "alpha_upper c \<longleftrightarrow> c \<in> set ''ABCDEFGHIJKLMNOPQRSTUVWXYZ''"

definition numeric :: "char \<Rightarrow> bool" where
  "numeric c \<longleftrightarrow> c \<in> set ''0123456789''"

text \<open>
  \<open>strings.ToLower\<close>: ASCII text is written out; a text with other bytes is lowered by the function \<open>lw\<close> (Go's
  Unicode tables).
\<close>

definition lower_ascii :: "char \<Rightarrow> char" where
  "lower_ascii c = (if CHR ''A'' \<le> c \<and> c \<le> CHR ''Z'' then char_of (of_char c + 32 :: nat) else c)"

definition to_lower :: "(string \<Rightarrow> string) \<Rightarrow> string \<Rightarrow> string" where
  "to_lower lw s = (if list_all (\<lambda>c. (of_char c :: nat) < 128) s then map lower_ascii s else lw s)"

text \<open>PostgreSQL text is valid UTF-8 without NUL.\<close>

definition continuation :: "nat \<Rightarrow> bool" where "continuation b \<longleftrightarrow> 128 \<le> b \<and> b < 192"

fun utf8_valid :: "nat list \<Rightarrow> bool" where
  "utf8_valid [] \<longleftrightarrow> True"
| "utf8_valid (a # bs) \<longleftrightarrow>
     (if a < 128 then utf8_valid bs
      else if 194 \<le> a \<and> a < 224 then (case bs of b # cs \<Rightarrow> continuation b \<and> utf8_valid cs | _ \<Rightarrow> False)
      else if 224 \<le> a \<and> a < 240 then
        (case bs of b # c # cs \<Rightarrow> continuation b \<and> continuation c \<and> (a = 224 \<longrightarrow> 160 \<le> b) \<and> (a = 237 \<longrightarrow> b < 160) \<and> utf8_valid cs
         | _ \<Rightarrow> False)
      else if 240 \<le> a \<and> a < 245 then
        (case bs of b # c # d # cs \<Rightarrow> continuation b \<and> continuation c \<and> continuation d
            \<and> (a = 240 \<longrightarrow> 144 \<le> b) \<and> (a = 244 \<longrightarrow> b < 144) \<and> utf8_valid cs
         | _ \<Rightarrow> False)
      else False)"

definition text_ok :: "string \<Rightarrow> bool" where
  "text_ok s \<longleftrightarrow> char_of (0 :: nat) \<notin> set s \<and> utf8_valid (map of_char s)"

text \<open>A byte as two hexadecimal digits.\<close>

definition hex_byte :: "nat \<Rightarrow> string" where
  "hex_byte b = [''0123456789abcdef'' ! (b div 16 mod 16), ''0123456789abcdef'' ! (b mod 16)]"

section \<open>Floating point numbers\<close>

text \<open>
  A \<open>float64\<close> is a finite dyadic value \<open>m * 2 ^ e\<close>, an infinity or NaN. The test
  \<open>number == float64(int(number))\<close> holds exactly for the integers inside the range of
  \<open>int\<close> (64 bits); outside that range Go leaves the conversion to the implementation, so
  the parameter \<open>oor\<close> says for such a value whether the comparison succeeds there and what
  the converted integer is.
\<close>

datatype gofloat = Finite int int | Infinite bool | NotANumber

definition float_integer :: "gofloat \<Rightarrow> int option" where
  "float_integer f =
     (case f of
        Finite m e \<Rightarrow>
          (if 0 \<le> e then Some (m * 2 ^ nat e)
           else if m mod 2 ^ nat (- e) = 0 then Some (m div 2 ^ nat (- e)) else None)
      | _ \<Rightarrow> None)"

definition int64_range :: "int \<Rightarrow> bool" where
  "int64_range n \<longleftrightarrow> - (2 ^ 63) \<le> n \<and> n < 2 ^ 63"

type_synonym float_conversion = "gofloat \<Rightarrow> int option"

definition exact_int :: "float_conversion \<Rightarrow> gofloat \<Rightarrow> int option" where
  "exact_int oor f =
     (case float_integer f of None \<Rightarrow> None
      | Some n \<Rightarrow> if int64_range n then Some n else oor f)"

section \<open>Machine integers\<close>

text \<open>
  Go's \<open>int\<close> has 64 bits; arithmetic wraps around. \<open>wrap64\<close> is the value of a
  result that may leave the range.
\<close>

definition wrap64 :: "int \<Rightarrow> int" where
  "wrap64 n = (n + 2 ^ 63) mod 2 ^ 64 - 2 ^ 63"

lemma wrap64_in_range: "int64_range n \<Longrightarrow> wrap64 n = n"
  by (simp add: wrap64_def int64_range_def)

text \<open>Integer division truncates toward zero.\<close>

definition go_div :: "int \<Rightarrow> int \<Rightarrow> int" where
  "go_div a b = sgn a * sgn b * (\<bar>a\<bar> div \<bar>b\<bar>)"

lemma go_div_nonneg: "0 \<le> a \<Longrightarrow> 0 < b \<Longrightarrow> go_div a b = a div b"
  by (cases "a = 0") (simp_all add: go_div_def)

section \<open>Decoded JSON\<close>

text \<open>
  The dynamic types an \<open>any\<close> can hold. \<open>encoding/json\<close> produces all of them but
  \<open>JInt\<close>, a Go \<open>int\<close> stored by the program itself.
\<close>

datatype json =
    JNull
  | JBool bool
  | JNum gofloat
  | JInt int
  | JStr string
  | JArr "json list"
  | JObj "(string \<times> json) list"

type_synonym 'v gomap = "(string \<times> 'v) list"

definition well_formed_map :: "('k \<times> 'v) list \<Rightarrow> bool" where
  "well_formed_map m \<longleftrightarrow> distinct (map fst m)"

definition map_has :: "('k \<times> 'v) list \<Rightarrow> 'k \<Rightarrow> bool" where
  "map_has m k \<longleftrightarrow> k \<in> fst ` set m"

lemma map_has_iff: "map_has m k \<longleftrightarrow> map_of m k \<noteq> None"
  by (auto simp: map_has_def map_of_eq_None_iff)

lemma singleton_map:
  "well_formed_map m \<Longrightarrow> map_of m k = Some v \<Longrightarrow> length m = 1 \<Longrightarrow> m = [(k, v)]"
  by (cases m) (auto split: if_splits)

lemma exact_int_in_range:
  "exact_int oor (Finite n 0) = (if int64_range n then Some n else oor (Finite n 0))"
  by (simp add: exact_int_def float_integer_def)

end
