(* ===== verification/DisplayControl.thy ===== *)
theory DisplayControl
  imports GoValues
begin

text \<open>
  The protocol-neutral display control contract of
  \<open>apps/server/internal/displaycontrol/types.go\<close>: the closed vocabularies of
  providers, capabilities, commands and power states, the schedule-safe \<open>Action\<close> and the
  validation of command payloads and capability reports. Player capabilities and the
  scheduler use it.
\<close>

section \<open>Vocabularies\<close>

definition allowed_providers :: "string list" where
  "allowed_providers = [''unsupported'', ''hdmi_cec'', ''ddc_ci'', ''network'', ''rs232'']"

definition allowed_capabilities :: "string list" where
  "allowed_capabilities = [''power'', ''input'', ''volume'', ''mute'', ''brightness'', ''probe'']"

definition allowed_commands :: "string list" where
  "allowed_commands =
     [''display_power_on'', ''display_power_off'', ''display_set_input'', ''display_set_volume'',
      ''display_mute'', ''display_unmute'', ''display_set_brightness'', ''display_probe'']"

definition allowed_power_states :: "string list" where
  "allowed_power_states = [''unknown'', ''on'', ''off'', ''transitioning'', ''unsupported'']"

definition is_command :: "string \<Rightarrow> bool" where
  "is_command v \<longleftrightarrow> v \<in> set allowed_commands"

definition is_provider :: "string \<Rightarrow> bool" where
  "is_provider v \<longleftrightarrow> v \<in> set allowed_providers"

definition is_capability :: "string \<Rightarrow> bool" where
  "is_capability v \<longleftrightarrow> v \<in> set allowed_capabilities"

definition is_power_state :: "string \<Rightarrow> bool" where
  "is_power_state v \<longleftrightarrow> v \<in> set allowed_power_states"

section \<open>Actions\<close>

text \<open>An empty \<open>Input\<close> is the omitted field; volume and brightness are pointers.\<close>

record action =
  act_type :: string
  act_input :: string
  act_volume :: "int option"
  act_brightness :: "int option"

datatype display_error =
    ActionTypeUnsupported
  | InputInvalid
  | VolumeInvalid
  | BrightnessInvalid
  | FieldsDoNotApply
  | CommandUnsupported
  | UnsupportedField string
  | InputNotString
  | VolumeNotInteger
  | BrightnessNotInteger
  | CapabilitiesTooMany
  | CapabilitiesInvalid

definition input_char :: "char \<Rightarrow> bool" where
  "input_char c \<longleftrightarrow> alpha_upper c \<or> alpha_lower c \<or> numeric c \<or> c \<in> set ''._:-''"

definition input_pattern :: "string \<Rightarrow> bool" where
  "input_pattern s \<longleftrightarrow> 1 \<le> length s \<and> length s \<le> 32 \<and> list_all input_char s"

definition percent :: "int option \<Rightarrow> bool" where
  "percent v = (case v of None \<Rightarrow> False | Some n \<Rightarrow> \<not> (n < 0 \<or> 100 < n))"

definition validate_action :: "action \<Rightarrow> display_error + unit" where
  "validate_action a =
     (if \<not> is_command (act_type a) \<or> act_type a = ''display_probe'' then Inl ActionTypeUnsupported
      else if act_type a = ''display_set_input'' then
        check (act_volume a = None \<and> act_brightness a = None
            \<and> act_input a = trim_space (act_input a) \<and> input_pattern (act_input a)) InputInvalid
      else if act_type a = ''display_set_volume'' then
        check (act_input a = [] \<and> act_brightness a = None \<and> percent (act_volume a)) VolumeInvalid
      else if act_type a = ''display_set_brightness'' then
        check (act_input a = [] \<and> act_volume a = None \<and> percent (act_brightness a)) BrightnessInvalid
      else if act_type a \<in> set [''display_power_on'', ''display_power_off'', ''display_mute'',
          ''display_unmute''] then
        check (act_input a = [] \<and> act_volume a = None \<and> act_brightness a = None) FieldsDoNotApply
      else Inr ())"

section \<open>Command payloads\<close>

text \<open>
  The payload is a decoded JSON object. Go visits its keys in an unspecified order; only
  the field named in the error depends on it. \<open>integer_value\<close> accepts the float64 that
  JSON decoding gives, and nothing else.
\<close>

definition integer_value :: "float_conversion \<Rightarrow> json \<Rightarrow> int option" where
  "integer_value oor v = (case v of JNum f \<Rightarrow> exact_int oor f | _ \<Rightarrow> None)"

definition payload_field :: "string \<Rightarrow> bool" where
  "payload_field k \<longleftrightarrow> k \<in> set [''input'', ''volume'', ''brightness'']"

definition payload_input :: "json gomap \<Rightarrow> display_error + string" where
  "payload_input p =
     (case map_of p ''input'' of None \<Rightarrow> Inr []
      | Some (JStr s) \<Rightarrow> Inr s
      | Some _ \<Rightarrow> Inl InputNotString)"

definition payload_integer ::
    "float_conversion \<Rightarrow> json gomap \<Rightarrow> string \<Rightarrow> display_error \<Rightarrow> display_error + int option" where
  "payload_integer oor p k e =
     (case map_of p k of None \<Rightarrow> Inr None
      | Some v \<Rightarrow> (case integer_value oor v of None \<Rightarrow> Inl e | Some n \<Rightarrow> Inr (Some n)))"

definition validate_command_payload ::
    "float_conversion \<Rightarrow> string \<Rightarrow> json gomap \<Rightarrow> display_error + unit" where
  "validate_command_payload oor command p =
     (if \<not> is_command command then Inl CommandUnsupported
      else andthen (first_error (\<lambda>(k, _). check (payload_field k) (UnsupportedField k)) p)
        (\<lambda>_. andthen (payload_input p)
          (\<lambda>i. andthen (payload_integer oor p ''volume'' VolumeNotInteger)
            (\<lambda>v. andthen (payload_integer oor p ''brightness'' BrightnessNotInteger)
              (\<lambda>b. validate_action
                \<lparr>act_type = command, act_input = i, act_volume = v, act_brightness = b\<rparr>)))))"

section \<open>Capability reports\<close>

definition validate_capabilities :: "string gomap \<Rightarrow> display_error + unit" where
  "validate_capabilities caps =
     (if 16 < length caps then Inl CapabilitiesTooMany
      else first_error (\<lambda>(c, p). check (is_capability c \<and> is_provider p) CapabilitiesInvalid) caps)"

section \<open>Lemmas\<close>

text \<open>What a valid action of each command is.\<close>

definition action_ok :: "action \<Rightarrow> bool" where
  "action_ok a \<longleftrightarrow>
     (act_type a = ''display_set_input'' \<and> act_volume a = None \<and> act_brightness a = None
        \<and> input_pattern (act_input a)) \<or>
     (act_type a = ''display_set_volume'' \<and> act_input a = [] \<and> act_brightness a = None
        \<and> (\<exists>n. act_volume a = Some n \<and> 0 \<le> n \<and> n \<le> 100)) \<or>
     (act_type a = ''display_set_brightness'' \<and> act_input a = [] \<and> act_volume a = None
        \<and> (\<exists>n. act_brightness a = Some n \<and> 0 \<le> n \<and> n \<le> 100)) \<or>
     (act_type a \<in> set [''display_power_on'', ''display_power_off'', ''display_mute'', ''display_unmute'']
        \<and> act_input a = [] \<and> act_volume a = None \<and> act_brightness a = None)"

lemma percent_iff [simp]: "percent v \<longleftrightarrow> (\<exists>n. v = Some n \<and> 0 \<le> n \<and> n \<le> 100)"
  by (auto simp: percent_def split: option.splits)

text \<open>White space is no input character, so the \<open>TrimSpace\<close> test adds nothing.\<close>

lemma input_char_range: "input_char c \<Longrightarrow> 45 \<le> (of_char c :: nat) \<and> (of_char c :: nat) < 128"
  by (auto simp: input_char_def alpha_upper_def alpha_lower_def numeric_def)

lemma trim_space_input_pattern: "input_pattern s \<Longrightarrow> trim_space s = s"
  by (rule trim_space_graphic)
    (auto simp: input_pattern_def list_all_iff graphic_def dest!: bspec dest: input_char_range)

lemma validate_action_iff [validator_simps]: "validate_action a = Inr () \<longleftrightarrow> action_ok a"
  using trim_space_input_pattern [of "act_input a"]
  by (auto simp: validate_action_def action_ok_def is_command_def allowed_commands_def)

end
