(* ===== verification/PlayerCaps.thy ===== *)
theory PlayerCaps
  imports DisplayControl
begin

text \<open>
  The Player Capability registry of \<open>apps/server/internal/playercaps/playercaps.go\<close>: the
  capability IDs, their operations and providers, the sanitising of a player's report and
  \<open>Resolve\<close>, which maps an operation and its JSON input to one Player command. The
  payload \<open>Resolve\<close> returns has passed \<open>displaycontrol.ValidateCommandPayload\<close>.
\<close>

section \<open>The registry\<close>

record reported =
  rep_version :: int
  rep_provider :: string

record operation =
  op_operation :: string
  op_title :: string
  op_description :: string
  op_capability :: string
  op_version :: int

definition version1 :: int where "version1 = 1"

definition max_reported_capabilities :: nat where "max_reported_capabilities = 32"

definition registry_operation :: "string \<Rightarrow> string \<Rightarrow> string \<Rightarrow> operation" where
  "registry_operation i t d =
     \<lparr>op_operation = i, op_title = t, op_description = d, op_capability = i, op_version = version1\<rparr>"

definition registry :: "(string \<times> (int \<times> operation list) list) list" where
  "registry =
     [(''display.power'', [(version1, [registry_operation ''display.power'' ''Set display power''
         ''Turn the attached display on or off through the reporting provider.''])]),
      (''display.input'', [(version1, [registry_operation ''display.input'' ''Set display input''
         ''Select the active input on the attached display.''])]),
      (''display.volume'', [(version1, [registry_operation ''display.volume'' ''Set display volume''
         ''Set the attached display volume from 0 to 100.''])]),
      (''display.mute'', [(version1, [registry_operation ''display.mute'' ''Set display mute''
         ''Mute or unmute the attached display.''])]),
      (''display.brightness'', [(version1, [registry_operation ''display.brightness''
         ''Set display brightness'' ''Set the attached display brightness from 0 to 100.''])])]"

definition known_providers :: "string list" where
  "known_providers = [''hdmi_cec'', ''ddc_ci'', ''network'', ''rs232'']"

text \<open>An absent key or an empty slice would panic, hence the option.\<close>

definition registry_first :: "string \<Rightarrow> operation option" where
  "registry_first i =
     (case map_of registry i of None \<Rightarrow> None
      | Some vs \<Rightarrow> (case map_of vs version1 of Some (p # _) \<Rightarrow> Some p | _ \<Rightarrow> None))"

definition operations :: "operation option list" where
  "operations = map registry_first
     [''display.power'', ''display.input'', ''display.volume'', ''display.mute'', ''display.brightness'']"

definition known :: "string \<Rightarrow> int \<Rightarrow> bool" where
  "known i v = (case map_of registry i of None \<Rightarrow> False | Some vs \<Rightarrow> map_of vs v \<noteq> None)"

definition known_provider :: "string \<Rightarrow> bool" where
  "known_provider p \<longleftrightarrow> p \<in> set known_providers"

section \<open>Reports\<close>

definition sanitize_report :: "reported gomap \<Rightarrow> (reported gomap) option" where
  "sanitize_report r =
     (if max_reported_capabilities < length r then None
      else Some (filter (\<lambda>(i, e). \<not> (\<not> known i (rep_version e) \<or> \<not> known_provider (rep_provider e))) r))"

section \<open>Operations\<close>

datatype resolve_error =
    NotNonEmptyString
  | NotBoolean
  | FieldRequired
  | NotInteger
  | TakesNoOtherFields
  | PowerStateUnknown
  | UnknownOperation
  | PayloadInvalid display_error

record resolved =
  res_command :: string
  res_payload :: "json gomap"

definition string_field :: "json gomap \<Rightarrow> string \<Rightarrow> resolve_error + string" where
  "string_field m k =
     (case map_of m k of
        Some (JStr v) \<Rightarrow>
          (if v = [] then Inl NotNonEmptyString
           else if length m \<noteq> 1 then Inl TakesNoOtherFields else Inr v)
      | _ \<Rightarrow> Inl NotNonEmptyString)"

definition bool_field :: "json gomap \<Rightarrow> string \<Rightarrow> resolve_error + bool" where
  "bool_field m k =
     (case map_of m k of
        Some (JBool v) \<Rightarrow> (if length m \<noteq> 1 then Inl TakesNoOtherFields else Inr v)
      | _ \<Rightarrow> Inl NotBoolean)"

definition int_field :: "float_conversion \<Rightarrow> json gomap \<Rightarrow> string \<Rightarrow> resolve_error + int" where
  "int_field oor m k =
     (case map_of m k of
        None \<Rightarrow> Inl FieldRequired
      | Some raw \<Rightarrow>
          andthen
            (case raw of
               JNum f \<Rightarrow> (case exact_int oor f of None \<Rightarrow> Inl NotInteger | Some n \<Rightarrow> Inr n)
             | JInt n \<Rightarrow> Inr n
             | _ \<Rightarrow> Inl NotInteger)
            (\<lambda>n. if length m \<noteq> 1 then Inl TakesNoOtherFields else Inr n))"

definition without_keys :: "json gomap \<Rightarrow> string list \<Rightarrow> json gomap" where
  "without_keys m drops = filter (\<lambda>(k, _). k \<notin> set drops) m"

definition resolve_command :: "float_conversion \<Rightarrow> string \<Rightarrow> json gomap \<Rightarrow> resolve_error + resolved" where
  "resolve_command oor oper m =
     (if oper = ''display.power'' then
        andthen (string_field m ''state'') (\<lambda>st.
          if st = ''on'' then Inr \<lparr>res_command = ''display_power_on'', res_payload = without_keys m [''state'']\<rparr>
          else if st = ''off'' then
            Inr \<lparr>res_command = ''display_power_off'', res_payload = without_keys m [''state'']\<rparr>
          else Inl PowerStateUnknown)
      else if oper = ''display.input'' then
        andthen (string_field m ''input'') (\<lambda>_.
          Inr \<lparr>res_command = ''display_set_input'', res_payload = without_keys m []\<rparr>)
      else if oper = ''display.volume'' then
        andthen (int_field oor m ''volume'') (\<lambda>_.
          Inr \<lparr>res_command = ''display_set_volume'', res_payload = without_keys m []\<rparr>)
      else if oper = ''display.mute'' then
        andthen (bool_field m ''muted'') (\<lambda>muted.
          Inr \<lparr>res_command = (if muted then ''display_mute'' else ''display_unmute''),
               res_payload = without_keys m [''muted'']\<rparr>)
      else if oper = ''display.brightness'' then
        andthen (int_field oor m ''brightness'') (\<lambda>_.
          Inr \<lparr>res_command = ''display_set_brightness'', res_payload = without_keys m []\<rparr>)
      else Inl UnknownOperation)"

definition resolve_operation :: "float_conversion \<Rightarrow> string \<Rightarrow> json gomap \<Rightarrow> resolve_error + resolved" where
  "resolve_operation oor oper m =
     andthen (resolve_command oor oper m) (\<lambda>r.
       case validate_command_payload oor (res_command r) (res_payload r) of
         Inl e \<Rightarrow> Inl (PayloadInvalid e)
       | Inr _ \<Rightarrow> Inr r)"

section \<open>Legacy names\<close>

definition display_control_name :: "string \<Rightarrow> string option" where
  "display_control_name i =
     (if i = ''display.power'' then Some ''power''
      else if i = ''display.input'' then Some ''input''
      else if i = ''display.volume'' then Some ''volume''
      else if i = ''display.mute'' then Some ''mute''
      else if i = ''display.brightness'' then Some ''brightness''
      else None)"

definition capability_for :: "string \<Rightarrow> string option" where
  "capability_for legacy =
     (if legacy = ''power'' then Some ''display.power''
      else if legacy = ''input'' then Some ''display.input''
      else if legacy = ''volume'' then Some ''display.volume''
      else if legacy = ''mute'' then Some ''display.mute''
      else if legacy = ''brightness'' then Some ''display.brightness''
      else None)"

section \<open>Lemmas\<close>

text \<open>
  The table of the registry: the inputs each operation accepts, with the command and the
  payload they become.
\<close>

inductive resolves :: "float_conversion \<Rightarrow> string \<Rightarrow> json gomap \<Rightarrow> string \<Rightarrow> json gomap \<Rightarrow> bool"
  for oor :: float_conversion where
  power_on: "resolves oor ''display.power'' [(''state'', JStr ''on'')] ''display_power_on'' []"
| power_off: "resolves oor ''display.power'' [(''state'', JStr ''off'')] ''display_power_off'' []"
| input: "input_pattern s \<Longrightarrow>
    resolves oor ''display.input'' [(''input'', JStr s)] ''display_set_input'' [(''input'', JStr s)]"
| volume: "exact_int oor f = Some n \<Longrightarrow> 0 \<le> n \<Longrightarrow> n \<le> 100 \<Longrightarrow>
    resolves oor ''display.volume'' [(''volume'', JNum f)] ''display_set_volume'' [(''volume'', JNum f)]"
| mute: "resolves oor ''display.mute'' [(''muted'', JBool True)] ''display_mute'' []"
| unmute: "resolves oor ''display.mute'' [(''muted'', JBool False)] ''display_unmute'' []"
| brightness: "exact_int oor f = Some n \<Longrightarrow> 0 \<le> n \<Longrightarrow> n \<le> 100 \<Longrightarrow>
    resolves oor ''display.brightness'' [(''brightness'', JNum f)] ''display_set_brightness''
      [(''brightness'', JNum f)]"

inductive_simps resolves_simps: "resolves oor oper m c p"

text \<open>A map whose only entry is a given one.\<close>

lemma only_entry:
  "well_formed_map m \<Longrightarrow> map_of m k = Some v \<and> length m = 1 \<longleftrightarrow> m = [(k, v)]"
  using singleton_map [of m k v] by auto

lemma string_field_Inr:
  assumes "well_formed_map m"
  shows "string_field m k = Inr v \<longleftrightarrow> m = [(k, JStr v)] \<and> v \<noteq> []"
proof -
  have "string_field m k = Inr v \<longleftrightarrow> (map_of m k = Some (JStr v) \<and> length m = 1) \<and> v \<noteq> []"
    by (cases "map_of m k") (auto simp: string_field_def split: json.splits)
  then show ?thesis by (simp only: only_entry [OF assms])
qed

lemma bool_field_Inr:
  assumes "well_formed_map m"
  shows "bool_field m k = Inr v \<longleftrightarrow> m = [(k, JBool v)]"
proof -
  have "bool_field m k = Inr v \<longleftrightarrow> map_of m k = Some (JBool v) \<and> length m = 1"
    by (cases "map_of m k") (auto simp: bool_field_def split: json.splits)
  then show ?thesis by (simp only: only_entry [OF assms])
qed

lemma int_field_Inr:
  assumes "well_formed_map m"
  shows "int_field oor m k = Inr n \<longleftrightarrow>
    m = [(k, JInt n)] \<or> (\<exists>f. m = [(k, JNum f)] \<and> exact_int oor f = Some n)"
proof -
  have "int_field oor m k = Inr n \<longleftrightarrow> (map_of m k = Some (JInt n) \<and> length m = 1) \<or>
      (\<exists>f. (map_of m k = Some (JNum f) \<and> length m = 1) \<and> exact_int oor f = Some n)"
    by (cases "map_of m k") (auto simp: int_field_def split: json.splits option.splits)
  then show ?thesis by (simp only: only_entry [OF assms])
qed

text \<open>The payload validation of each command a resolved operation can have.\<close>

lemma payload_eval:
  "validate_command_payload oor ''display_power_on'' [] = Inr ()"
  "validate_command_payload oor ''display_power_off'' [] = Inr ()"
  "validate_command_payload oor ''display_mute'' [] = Inr ()"
  "validate_command_payload oor ''display_unmute'' [] = Inr ()"
  by (simp_all add: validate_command_payload_def is_command_def allowed_commands_def
      payload_input_def payload_integer_def validate_action_def)

lemma payload_eval_input:
  "validate_command_payload oor ''display_set_input'' [(''input'', JStr s)] = Inr () \<longleftrightarrow> input_pattern s"
  by (simp add: validate_command_payload_def is_command_def allowed_commands_def payload_field_def
      payload_input_def payload_integer_def validate_action_iff action_ok_def)

lemma payload_eval_volume:
  "validate_command_payload oor ''display_set_volume'' [(''volume'', v)] = Inr () \<longleftrightarrow>
     (\<exists>n. integer_value oor v = Some n \<and> 0 \<le> n \<and> n \<le> 100)"
  by (cases "integer_value oor v"; simp add: validate_command_payload_def is_command_def
      allowed_commands_def payload_field_def payload_input_def payload_integer_def
      validate_action_iff action_ok_def)

lemma payload_eval_brightness:
  "validate_command_payload oor ''display_set_brightness'' [(''brightness'', v)] = Inr () \<longleftrightarrow>
     (\<exists>n. integer_value oor v = Some n \<and> 0 \<le> n \<and> n \<le> 100)"
  by (cases "integer_value oor v"; simp add: validate_command_payload_def is_command_def
      allowed_commands_def payload_field_def payload_input_def payload_integer_def
      validate_action_iff action_ok_def)

lemmas payload_evals = payload_eval payload_eval_input payload_eval_volume payload_eval_brightness

lemma resolve_operation_Inr:
  "resolve_operation oor oper m = Inr r \<longleftrightarrow>
     resolve_command oor oper m = Inr r \<and>
     validate_command_payload oor (res_command r) (res_payload r) = Inr ()"
  unfolding resolve_operation_def
  by (cases "resolve_command oor oper m")
    (auto split: sum.split_asm sum.split)

lemma without_none [simp]: "without_keys m [] = m"
  by (simp add: without_keys_def)

lemma without_only [simp]: "without_keys [(k, v)] [k] = []"
  by (simp add: without_keys_def)

lemma resolve_power:
  assumes "well_formed_map m"
  shows "resolve_operation oor ''display.power'' m = Inr \<lparr>res_command = c, res_payload = p\<rparr> \<longleftrightarrow>
    m = [(''state'', JStr ''on'')] \<and> c = ''display_power_on'' \<and> p = [] \<or>
    m = [(''state'', JStr ''off'')] \<and> c = ''display_power_off'' \<and> p = []"
proof -
  have "resolve_command oor ''display.power'' m = Inr \<lparr>res_command = c, res_payload = p\<rparr> \<longleftrightarrow>
      string_field m ''state'' = Inr ''on'' \<and> c = ''display_power_on'' \<and> p = without_keys m [''state''] \<or>
      string_field m ''state'' = Inr ''off'' \<and> c = ''display_power_off'' \<and> p = without_keys m [''state'']"
    by (cases "string_field m ''state''"; simp add: resolve_command_def; blast)
  then show ?thesis
    unfolding resolve_operation_Inr string_field_Inr [OF assms]
    by simp (rule iffI; elim conjE disjE; simp add: payload_eval)
qed

lemma resolve_mute:
  assumes "well_formed_map m"
  shows "resolve_operation oor ''display.mute'' m = Inr \<lparr>res_command = c, res_payload = p\<rparr> \<longleftrightarrow>
    m = [(''muted'', JBool True)] \<and> c = ''display_mute'' \<and> p = [] \<or>
    m = [(''muted'', JBool False)] \<and> c = ''display_unmute'' \<and> p = []"
proof -
  have "resolve_command oor ''display.mute'' m = Inr \<lparr>res_command = c, res_payload = p\<rparr> \<longleftrightarrow>
      bool_field m ''muted'' = Inr True \<and> c = ''display_mute'' \<and> p = without_keys m [''muted''] \<or>
      bool_field m ''muted'' = Inr False \<and> c = ''display_unmute'' \<and> p = without_keys m [''muted'']"
    by (cases "bool_field m ''muted''"; simp add: resolve_command_def; blast)
  then show ?thesis
    unfolding resolve_operation_Inr bool_field_Inr [OF assms]
    by simp (rule iffI; elim conjE disjE; simp add: payload_eval)
qed

lemma resolve_input:
  assumes "well_formed_map m"
  shows "resolve_operation oor ''display.input'' m = Inr \<lparr>res_command = c, res_payload = p\<rparr> \<longleftrightarrow>
    (\<exists>s. m = [(''input'', JStr s)] \<and> input_pattern s) \<and> c = ''display_set_input'' \<and> p = m"
proof -
  have ne: "s \<noteq> []" if "input_pattern s" for s using that by (auto simp: input_pattern_def)
  show ?thesis
    unfolding resolve_operation_Inr
    by (auto simp: resolve_command_def string_field_Inr [OF assms] payload_eval_input dest: ne)
qed

lemma resolve_volume:
  assumes "well_formed_map m"
  shows "resolve_operation oor ''display.volume'' m = Inr \<lparr>res_command = c, res_payload = p\<rparr> \<longleftrightarrow>
    (\<exists>f n. m = [(''volume'', JNum f)] \<and> exact_int oor f = Some n \<and> 0 \<le> n \<and> n \<le> 100)
      \<and> c = ''display_set_volume'' \<and> p = m"
proof -
  have "resolve_command oor ''display.volume'' m = Inr \<lparr>res_command = c, res_payload = p\<rparr> \<longleftrightarrow>
      (\<exists>n. int_field oor m ''volume'' = Inr n) \<and> c = ''display_set_volume'' \<and> p = m"
    by (cases "int_field oor m ''volume''"; simp add: resolve_command_def; blast)
  then show ?thesis
    unfolding resolve_operation_Inr int_field_Inr [OF assms]
    by (simp add: ex_disj_distrib)
      (rule iffI; elim conjE disjE exE; simp add: payload_eval_volume integer_value_def)
qed

lemma resolve_brightness:
  assumes "well_formed_map m"
  shows "resolve_operation oor ''display.brightness'' m = Inr \<lparr>res_command = c, res_payload = p\<rparr> \<longleftrightarrow>
    (\<exists>f n. m = [(''brightness'', JNum f)] \<and> exact_int oor f = Some n \<and> 0 \<le> n \<and> n \<le> 100)
      \<and> c = ''display_set_brightness'' \<and> p = m"
proof -
  have "resolve_command oor ''display.brightness'' m = Inr \<lparr>res_command = c, res_payload = p\<rparr> \<longleftrightarrow>
      (\<exists>n. int_field oor m ''brightness'' = Inr n) \<and> c = ''display_set_brightness'' \<and> p = m"
    by (cases "int_field oor m ''brightness''"; simp add: resolve_command_def; blast)
  then show ?thesis
    unfolding resolve_operation_Inr int_field_Inr [OF assms]
    by (simp add: ex_disj_distrib)
      (rule iffI; elim conjE disjE exE; simp add: payload_eval_brightness integer_value_def)
qed

lemma resolve_other:
  "oper \<notin> set [''display.power'', ''display.input'', ''display.volume'', ''display.mute'',
     ''display.brightness''] \<Longrightarrow> resolve_operation oor oper m = Inl UnknownOperation"
  by (simp add: resolve_operation_def resolve_command_def)

lemmas resolve_cases = resolve_power resolve_mute resolve_input resolve_volume resolve_brightness

lemma known_iff: "known i v \<longleftrightarrow> v = 1 \<and> display_control_name i \<noteq> None"
  by (simp add: known_def registry_def version1_def display_control_name_def)

lemma resolves_iff:
  "resolves oor oper m c p \<longleftrightarrow>
     (oper = ''display.power'' \<and> m = [(''state'', JStr ''on'')] \<and> c = ''display_power_on'' \<and> p = [] \<or>
      oper = ''display.power'' \<and> m = [(''state'', JStr ''off'')] \<and> c = ''display_power_off'' \<and> p = []) \<or>
     oper = ''display.input'' \<and> (\<exists>s. m = [(''input'', JStr s)] \<and> input_pattern s)
       \<and> c = ''display_set_input'' \<and> p = m \<or>
     oper = ''display.volume'' \<and> (\<exists>f n. m = [(''volume'', JNum f)] \<and> exact_int oor f = Some n
       \<and> 0 \<le> n \<and> n \<le> 100) \<and> c = ''display_set_volume'' \<and> p = m \<or>
     (oper = ''display.mute'' \<and> m = [(''muted'', JBool True)] \<and> c = ''display_mute'' \<and> p = [] \<or>
      oper = ''display.mute'' \<and> m = [(''muted'', JBool False)] \<and> c = ''display_unmute'' \<and> p = []) \<or>
     oper = ''display.brightness'' \<and> (\<exists>f n. m = [(''brightness'', JNum f)]
       \<and> exact_int oor f = Some n \<and> 0 \<le> n \<and> n \<le> 100) \<and> c = ''display_set_brightness'' \<and> p = m"
  (is "_ \<longleftrightarrow> ?table")
proof
  show "resolves oor oper m c p \<Longrightarrow> ?table"
    by (erule resolves.cases; simp)
  show "?table \<Longrightarrow> resolves oor oper m c p"
    by (elim disjE conjE exE; simp; rule resolves.intros; assumption)
qed

lemma sanitize_lookup:
  "well_formed_map r \<Longrightarrow> map_of (filter (\<lambda>(i, e). P i e) r) k =
     (case map_of r k of Some e \<Rightarrow> if P k e then Some e else None | None \<Rightarrow> None)"
  unfolding well_formed_map_def
  by (induction r) (auto simp: map_of_eq_None_iff split: option.splits)

section \<open>Properties\<close>

text \<open>
  C40. Resolve accepts exactly the inputs of the registry's table, and gives exactly the
  command and payload listed there: one field of the right type, the discriminator removed
  from the payload, volume and brightness integers from 0 to 100 that arrive as JSON numbers,
  an input name matching the display-control pattern. Everything else is refused, among it
  extra fields and a volume held as a Go int, which intField accepts and the payload
  validation then rejects.
\<close>

theorem resolve_operation_exact:
  assumes "well_formed_map m"
  shows "resolve_operation oor oper m = Inr \<lparr>res_command = c, res_payload = p\<rparr> \<longleftrightarrow> resolves oor oper m c p"
proof (cases "oper \<in> set [''display.power'', ''display.input'', ''display.volume'', ''display.mute'',
    ''display.brightness'']")
  case True
  then show ?thesis
    by (simp only: list.set insert_iff empty_iff simp_thms)
      (elim disjE; simp only: resolve_cases [OF assms] resolves_iff list.inject char.inject simp_thms)
next
  case False
  then show ?thesis by (simp add: resolve_other resolves_iff)
qed

theorem resolve_operation_exact_witness:
  "resolve_operation (\<lambda>_. None) ''display.volume'' [(''volume'', JNum (Finite 5 1))] =
     Inr \<lparr>res_command = ''display_set_volume'', res_payload = [(''volume'', JNum (Finite 5 1))]\<rparr>"
  by (subst resolve_operation_exact)
    (auto simp: well_formed_map_def exact_int_def float_integer_def int64_range_def
      intro!: resolves.volume [where n = 10])

text \<open>
  SanitizeReport refuses a report of more than 32 entries whole. From any other it keeps an
  entry, unchanged, exactly if the registry knows the capability, the version is 1 and the
  provider is one of the four of the registry; sanitising again changes nothing.
\<close>

theorem sanitize_report_exact:
  assumes "well_formed_map r"
  shows "case sanitize_report r of
      None \<Rightarrow> 32 < length r
    | Some clean \<Rightarrow> length r \<le> 32 \<and> sanitize_report clean = Some clean \<and>
        map_of clean = (\<lambda>i. case map_of r i of
            Some e \<Rightarrow>
              if display_control_name i \<noteq> None \<and> rep_version e = 1
                \<and> rep_provider e \<in> set [''hdmi_cec'', ''ddc_ci'', ''network'', ''rs232''] then Some e else None
          | None \<Rightarrow> None)"
proof -
  define P where "P = (\<lambda>i (e :: reported). known i (rep_version e) \<and> known_provider (rep_provider e))"
  have s: "sanitize_report m = (if 32 < length m then None else Some (filter (\<lambda>(i, e). P i e) m))" for m
    by (simp add: sanitize_report_def max_reported_capabilities_def P_def)
  define clean where "clean = filter (\<lambda>(i, e). P i e) r"
  have lookup: "map_of clean = (\<lambda>i. case map_of r i of
            Some e \<Rightarrow>
              if display_control_name i \<noteq> None \<and> rep_version e = 1
                \<and> rep_provider e \<in> set [''hdmi_cec'', ''ddc_ci'', ''network'', ''rs232''] then Some e else None
          | None \<Rightarrow> None)" (is "_ = ?spec")
  proof
    show "map_of clean i = ?spec i" for i
      unfolding clean_def sanitize_lookup [OF assms]
      by (cases "map_of r i") (auto simp: P_def known_iff known_provider_def known_providers_def)
  qed
  have l: "length clean \<le> length r" unfolding clean_def by (rule length_filter_le)
  have f: "filter (\<lambda>(i, e). P i e) clean = clean" by (simp add: clean_def)
  show ?thesis
  proof (cases "32 < length r")
    case True
    then show ?thesis by (simp add: s)
  next
    case False
    then have "sanitize_report r = Some clean" "sanitize_report clean = Some clean"
      unfolding s f clean_def [symmetric] using l by auto
    with False lookup show ?thesis by simp
  qed
qed

theorem sanitize_report_exact_witness:
  "sanitize_report [(''display.power'', \<lparr>rep_version = 1, rep_provider = ''ddc_ci''\<rparr>),
     (''display.audio'', \<lparr>rep_version = 1, rep_provider = ''ddc_ci''\<rparr>)] \<noteq> None"
  using sanitize_report_exact [of "[(''display.power'', \<lparr>rep_version = 1, rep_provider = ''ddc_ci''\<rparr>),
     (''display.audio'', \<lparr>rep_version = 1, rep_provider = ''ddc_ci''\<rparr>)]"]
  by (auto simp: well_formed_map_def split: option.splits)

end
