(* ===== verification/GoTime.thy ===== *)
theory GoTime
  imports Prelude
begin

text \<open>
  The part of Go's \<open>time\<close> package that the server uses. An instant
  (\<open>time.Time\<close>) is its number of nanoseconds since the Unix epoch; \<open>t.UTC()\<close> changes
  only how an instant is displayed and is the identity here. A \<open>*time.Location\<close> is a
  name and a function from Unix seconds to the offset east of UTC, in seconds, that is in
  force then: what \<open>Location.lookup\<close> returns. The time zone database itself is a
  parameter of \<open>load_location\<close>. Calendar arithmetic is on the proleptic Gregorian
  calendar, as in Go, with days counted from 1970-01-01.
\<close>

type_synonym instant = int
type_synonym duration = int

definition second :: duration where "second = 1000000000"
definition minute :: duration where "minute = 60 * second"
definition hour :: duration where "hour = 60 * minute"

lemmas duration_defs [model_defs] = second_def minute_def hour_def

text \<open>\<open>t.Sub(u)\<close> saturates at the bounds of a 64-bit duration.\<close>

definition time_sub :: "instant \<Rightarrow> instant \<Rightarrow> duration" where
  "time_sub t u = max (- (2 ^ 63)) (min (2 ^ 63 - 1) (t - u))"

text \<open>The zero \<open>time.Time\<close> is midnight UTC on January 1 of year 1.\<close>

definition zero_time :: instant where
  "zero_time = - 62135596800 * second"

section \<open>Civil dates\<close>

type_synonym civil = "int \<times> int \<times> int"

definition days_from_civil :: "int \<Rightarrow> int \<Rightarrow> int \<Rightarrow> int" where
  "days_from_civil y m d =
     (let y' = (if m \<le> 2 then y - 1 else y);
          era = y' div 400;
          yoe = y' mod 400;
          mp = (if m > 2 then m - 3 else m + 9);
          doy = (153 * mp + 2) div 5 + d - 1
      in era * 146097 + (yoe * 365 + yoe div 4 - yoe div 100 + doy) - 719468)"

definition civil_from_days :: "int \<Rightarrow> civil" where
  "civil_from_days n =
     (let z = n + 719468;
          era = z div 146097;
          doe = z mod 146097;
          c = min 3 (doe div 36524);
          r = doe - 36524 * c;
          q = r div 1461;
          r' = r - 1461 * q;
          y1 = min 3 (r' div 365);
          doy = r' - 365 * y1;
          mp = (5 * doy + 2) div 153;
          d = doy - (153 * mp + 2) div 5 + 1;
          m = (if mp < 10 then mp + 3 else mp - 9);
          y = era * 400 + 100 * c + 4 * q + y1
      in (if m \<le> 2 then y + 1 else y, m, d))"

definition leap_year :: "int \<Rightarrow> bool" where
  "leap_year y \<longleftrightarrow> y mod 4 = 0 \<and> (y mod 100 \<noteq> 0 \<or> y mod 400 = 0)"

definition days_in :: "int \<Rightarrow> int \<Rightarrow> int" where
  "days_in m y =
     (if m = 2 then (if leap_year y then 29 else 28)
      else if m = 4 \<or> m = 6 \<or> m = 9 \<or> m = 11 then 30 else 31)"

definition valid_date :: "int \<Rightarrow> int \<Rightarrow> int \<Rightarrow> bool" where
  "valid_date y m d \<longleftrightarrow> 1 \<le> m \<and> m \<le> 12 \<and> 1 \<le> d \<and> d \<le> days_in m y"

text \<open>
  The cycle of 400 years splits into centuries, four-year groups and years, each last one
  possibly a day longer than the others; the two lemmas below are the whole of the
  arithmetic.
\<close>

lemma year_split:
  fixes doe :: int
  assumes "0 \<le> doe" "doe < 146097"
  defines "c \<equiv> min 3 (doe div 36524)"
  defines "r \<equiv> doe - 36524 * c"
  defines "q \<equiv> r div 1461"
  defines "r' \<equiv> r - 1461 * q"
  defines "y1 \<equiv> min 3 (r' div 365)"
  shows "0 \<le> c" "c \<le> 3" "0 \<le> q" "q \<le> 24" "0 \<le> y1" "y1 \<le> 3"
    "0 \<le> r' - 365 * y1" "r' - 365 * y1 \<le> 365"
    "r' - 365 * y1 = 365 \<Longrightarrow> y1 = 3 \<and> (q = 24 \<longrightarrow> c = 3)"
proof -
  show c: "0 \<le> c" "c \<le> 3" using assms(1) by (auto simp: c_def)
  have r: "0 \<le> r" "r \<le> 36524" using assms(1,2) unfolding r_def c_def by (auto simp: min_def)
  then show q: "0 \<le> q" "q \<le> 24" by (auto simp: q_def)
  have r': "0 \<le> r'" "r' \<le> 1460"
    unfolding r'_def q_def using pos_mod_bound [of 1461 r] pos_mod_sign [of 1461 r]
    by (simp_all add: minus_mult_div_eq_mod)
  then show "0 \<le> y1" "y1 \<le> 3" by (auto simp: y1_def)
  show "0 \<le> r' - 365 * y1" "r' - 365 * y1 \<le> 365"
    using r' unfolding y1_def by (auto simp: min_def)
  assume *: "r' - 365 * y1 = 365"
  then have y1: "y1 = 3" using r' unfolding y1_def by (auto simp: min_def split: if_splits)
  have "c = 3" if "q = 24"
  proof (rule ccontr)
    assume "c \<noteq> 3"
    then have "c = doe div 36524" by (simp add: c_def min_def split: if_splits)
    then have "r < 36524" using pos_mod_bound [of 36524 doe]
      by (simp add: r_def minus_mult_div_eq_mod)
    with that * y1 show False by (simp add: r'_def)
  qed
  with y1 show "y1 = 3 \<and> (q = 24 \<longrightarrow> c = 3)" by blast
qed

lemma year_join:
  fixes c q y1 :: int
  assumes "0 \<le> c" "c \<le> 3" "0 \<le> q" "q \<le> 24" "0 \<le> y1" "y1 \<le> 3"
  defines "yoe \<equiv> 100 * c + 4 * q + y1"
  shows "0 \<le> yoe" "yoe < 400"
    "yoe * 365 + yoe div 4 - yoe div 100 = 36524 * c + 1461 * q + 365 * y1"
proof -
  show "0 \<le> yoe" "yoe < 400" using assms by auto
  have "yoe div 4 = 25 * c + q" "yoe div 100 = c" using assms by auto
  then show "yoe * 365 + yoe div 4 - yoe div 100 = 36524 * c + 1461 * q + 365 * y1"
    by (simp add: yoe_def)
qed

lemma civil_month_day:
  assumes "civil_from_days n = (y, m, d)"
  shows "valid_date y m d" and "days_from_civil y m d = n"
proof -
  define z where "z = n + 719468"
  define era where "era = z div 146097"
  define doe where "doe = z mod 146097"
  define c where "c = min 3 (doe div 36524)"
  define r where "r = doe - 36524 * c"
  define q where "q = r div 1461"
  define r' where "r' = r - 1461 * q"
  define y1 where "y1 = min 3 (r' div 365)"
  define doy where "doy = r' - 365 * y1"
  define mp where "mp = (5 * doy + 2) div 153"
  have doe: "0 \<le> doe" "doe < 146097" by (simp_all add: doe_def)
  note b = year_split [OF doe, folded c_def, folded r_def, folded q_def, folded r'_def,
      folded y1_def, folded doy_def]
  note j = year_join [OF b(1-6)]
  have mp: "0 \<le> mp" "mp \<le> 11" using b(7,8) by (auto simp: mp_def)
  have res: "d = doy - (153 * mp + 2) div 5 + 1" "m = (if mp < 10 then mp + 3 else mp - 9)"
    "y = (if m \<le> 2 then 1 else 0) + era * 400 + (100 * c + 4 * q + y1)"
    using assms [unfolded civil_from_days_def Let_def, folded z_def, folded era_def doe_def,
        folded c_def, folded r_def, folded q_def, folded r'_def, folded y1_def,
        folded doy_def, folded mp_def]
    by (auto simp only: prod.inject split: if_splits)
  have m: "1 \<le> m" "m \<le> 12" using mp res(2) by (auto split: if_splits)
  have k: "153 * mp \<le> 5 * doy + 2" "5 * doy + 2 < 153 * mp + 153"
    using pos_mod_bound [of 153 "5 * doy + 2"] pos_mod_sign [of 153 "5 * doy + 2"]
      mult_div_mod_eq [of 153 "5 * doy + 2"] unfolding mp_def by linarith+
  then have "(153 * mp + 2) div 5 \<le> doy" by linarith
  then have d1: "1 \<le> d" using res(1) by simp
  have "d \<le> days_in m y"
  proof (cases "mp = 11")
    case True
    then have m2: "m = 2" and d2: "d = doy - 336" using res(1,2) by auto
    have "leap_year y" if "doy = 365"
    proof -
      have y: "y = 4 * (100 * era + 25 * c + q + 1)" "q = 24 \<longrightarrow> c = 3"
        using b(9) that m2 res(3) by (auto simp: doy_def)
      then have "y mod 4 = 0" by simp
      moreover have "y mod 400 = 0" if "y mod 100 = 0"
      proof -
        have "y = 4 * (q + 1) + 100 * (4 * era + c)" using y(1) by simp
        then have "y mod 100 = 4 * (q + 1) mod 100" by (simp only: mod_mult_self2)
        then have "4 * (q + 1) mod 100 = 0" using that by simp
        then have "q = 24" using b(3,4) by presburger
        then have "y = 400 * (era + 1)" using y by simp
        then show ?thesis by simp
      qed
      ultimately show ?thesis by (auto simp: leap_year_def)
    qed
    moreover have "doy = 365 \<or> doy \<le> 364" using b(8) by linarith
    ultimately show ?thesis using m2 d2 by (auto simp: days_in_def)
  next
    case False
    then have "mp = 0 \<or> mp = 1 \<or> mp = 2 \<or> mp = 3 \<or> mp = 4 \<or> mp = 5 \<or> mp = 6 \<or> mp = 7
        \<or> mp = 8 \<or> mp = 9 \<or> mp = 10" using mp by presburger
    then show ?thesis using k res(1,2) by (elim disjE) (simp_all add: days_in_def)
  qed
  with m d1 show "valid_date y m d" by (simp add: valid_date_def)
  have y': "(if m \<le> 2 then y - 1 else y) = era * 400 + (100 * c + 4 * q + y1)"
    using res(3) by auto
  have mp': "(if m > 2 then m - 3 else m + 9) = mp" using res(2) mp by auto
  have "days_from_civil y m d = era * 146097 + doe - 719468"
    unfolding days_from_civil_def Let_def y' mp'
    using j res(1) by (simp add: doy_def r'_def r_def)
  also have "\<dots> = n" by (simp add: era_def doe_def z_def)
  finally show "days_from_civil y m d = n" .
qed

lemma days_from_civil_inverse:
  "(case civil_from_days n of (y, m, d) \<Rightarrow> days_from_civil y m d) = n"
proof -
  obtain y m d where e: "civil_from_days n = (y, m, d)" by (cases "civil_from_days n")
  from civil_month_day(2) [OF e] show ?thesis by (simp add: e)
qed

lemma civil_from_days_inj: "civil_from_days a = civil_from_days b \<Longrightarrow> a = b"
  by (metis days_from_civil_inverse)

lemma days_from_civil_add_day: "days_from_civil y m (d + k) = days_from_civil y m d + k"
  by (simp add: days_from_civil_def Let_def)

text \<open>
  The date read off an instant is a date of the calendar, and the day count is strictly
  monotone in the date: the calendar is an order isomorphism between dates and days.
\<close>

definition year_start :: "int \<Rightarrow> int" where
  "year_start y = 365 * y + y div 4 - y div 100 + y div 400"

definition march_year :: "int \<Rightarrow> int \<Rightarrow> int" where
  "march_year y m = (if m \<le> 2 then y - 1 else y)"

definition march_month :: "int \<Rightarrow> int" where
  "march_month m = (if m > 2 then m - 3 else m + 9)"

definition month_start :: "int \<Rightarrow> int" where
  "month_start mp = (153 * mp + 2) div 5"

lemma days_from_civil_eq:
  "days_from_civil y m d =
     year_start (march_year y m) + month_start (march_month m) + d - 719469"
proof -
  have split: "e * 146097 + (o' * 365 + o' div 4 - o' div 100)
      = year_start (400 * e + o')" if "0 \<le> o'" "o' < 400" for e o' :: int
  proof -
    have "400 * e + o' = o' + 4 * (100 * e)" "400 * e + o' = o' + 100 * (4 * e)"
      "400 * e + o' = o' + 400 * e" by simp_all
    then have "(400 * e + o') div 4 = 100 * e + o' div 4"
      "(400 * e + o') div 100 = 4 * e + o' div 100" "(400 * e + o') div 400 = e + o' div 400"
      by (metis div_mult_self2 zero_neq_numeral)+
    moreover have "o' div 400 = 0" using that by simp
    moreover have lin: "A = 100 * e + a \<Longrightarrow> B = 4 * e + b \<Longrightarrow> C = e + 0 \<Longrightarrow>
        e * 146097 + (o' * 365 + a - b) = 365 * (400 * e + o') + A - B + C" for A B C a b
      by simp
    ultimately show ?thesis unfolding year_start_def by metis
  qed
  let ?y = "march_year y m"
  have "?y div 400 * 146097 + (?y mod 400 * 365 + ?y mod 400 div 4 - ?y mod 400 div 100)
      = year_start ?y"
    using split [of "?y mod 400" "?y div 400"] by simp
  then show ?thesis
    unfolding days_from_civil_def Let_def march_year_def [symmetric]
      march_month_def [symmetric] month_start_def [symmetric]
    by linarith
qed

lemma year_start_step:
  "year_start (y + 1) = year_start y + (if leap_year (y + 1) then 366 else 365)"
proof -
  have d: "(y + 1) div k = y div k + (if (y + 1) mod k = 0 then 1 else 0)"
    if k: "k > 0" for k :: int
  proof -
    define a b where "a = y div k" and "b = y mod k"
    have y: "y = k * a + b" "0 \<le> b" "b < k" using k by (simp_all add: a_def b_def)
    have "(y + 1) div k = a + (b + 1) div k" "(y + 1) mod k = (b + 1) mod k"
      using k by (simp_all add: y(1) add.assoc)
    moreover have "(b + 1) div k = (if (b + 1) mod k = 0 then 1 else 0)"
    proof (cases "b + 1 = k")
      case True
      then show ?thesis using k by simp
    next
      case False
      then have "0 < b + 1" "b + 1 < k" using y by auto
      then show ?thesis by simp
    qed
    ultimately show ?thesis by (simp add: a_def)
  qed
  have d': "(y + 1) div 4 = y div 4 + (if (y + 1) mod 4 = 0 then 1 else 0)"
    "(y + 1) div 100 = y div 100 + (if (y + 1) mod 100 = 0 then 1 else 0)"
    "(y + 1) div 400 = y div 400 + (if (y + 1) mod 400 = 0 then 1 else 0)"
    by (rule d, simp)+
  have imp: "(y + 1) mod 400 = 0 \<Longrightarrow> (y + 1) mod 100 = 0"
    "(y + 1) mod 100 = 0 \<Longrightarrow> (y + 1) mod 4 = 0"
    unfolding mod_eq_0_iff_dvd by (rule dvd_trans [rotated], assumption, simp)+
  have ys: "year_start (y + 1) = 365 * (y + 1) + (y + 1) div 4 - (y + 1) div 100
      + (y + 1) div 400" by (simp only: year_start_def)
  have lin: "365 * (y + 1) + (a + p) - (b + q) + (c + r) = 365 * y + a - b + c + (365 + p - q + r)"
    for a b c p q r :: int by simp
  have cnt: "(P \<Longrightarrow> Q) \<Longrightarrow> (Q \<Longrightarrow> R) \<Longrightarrow>
      365 + (if R then 1 else 0) - (if Q then 1 else 0) + (if P then 1 else 0)
        = (if R \<and> (\<not> Q \<or> P) then 366 else (365::int))" for P Q R
    by (cases P; cases Q; cases R; simp)
  have "year_start (y + 1) = year_start y + (365 + (if (y + 1) mod 4 = 0 then 1 else 0)
      - (if (y + 1) mod 100 = 0 then 1 else 0) + (if (y + 1) mod 400 = 0 then 1 else 0))"
    using lin [of "y div 4" "if (y + 1) mod 4 = 0 then 1 else 0" "y div 100"
        "if (y + 1) mod 100 = 0 then 1 else 0" "y div 400" "if (y + 1) mod 400 = 0 then 1 else 0"]
    by (simp only: ys d' year_start_def [of y])
  also have "365 + (if (y + 1) mod 4 = 0 then 1 else 0) - (if (y + 1) mod 100 = 0 then 1 else 0)
      + (if (y + 1) mod 400 = 0 then 1 else 0) = (if leap_year (y + 1) then 366 else (365::int))"
    unfolding leap_year_def by (rule cnt [OF imp])
  finally show ?thesis .
qed

lemma year_start_mono: "a \<le> b \<Longrightarrow> year_start a \<le> year_start b"
proof (induction b rule: int_ge_induct)
  case base
  then show ?case by simp
next
  case (step b)
  then show ?case using year_start_step [of b] by (simp split: if_splits)
qed

text \<open>Within a March-based year the months follow each other without gaps.\<close>

lemma month_fits:
  assumes "valid_date y m d"
  shows "0 \<le> march_month m" "march_month m \<le> 11"
    and "march_month m < 11 \<Longrightarrow> month_start (march_month m) + d \<le> month_start (march_month m + 1)"
    and "month_start (march_month m) + d \<le> (if leap_year (march_year y m + 1) then 366 else 365)"
proof -
  have m: "1 \<le> m" "m \<le> 12" and d: "1 \<le> d" "d \<le> days_in m y"
    using assms by (auto simp: valid_date_def)
  show mm: "0 \<le> march_month m" "march_month m \<le> 11"
    using m by (auto simp: march_month_def)
  have c: "m = 1 \<or> m = 2 \<or> m = 3 \<or> m = 4 \<or> m = 5 \<or> m = 6 \<or> m = 7 \<or> m = 8 \<or> m = 9
      \<or> m = 10 \<or> m = 11 \<or> m = 12" using m by presburger
  show "march_month m < 11 \<Longrightarrow> month_start (march_month m) + d \<le> month_start (march_month m + 1)"
    using c d by (elim disjE) (simp_all add: march_month_def month_start_def days_in_def)
  show "month_start (march_month m) + d \<le> (if leap_year (march_year y m + 1) then 366 else 365)"
    using c d
    by (elim disjE)
      (simp_all add: march_month_def month_start_def days_in_def march_year_def split: if_splits)
qed

lemma month_start_mono: "a \<le> b \<Longrightarrow> month_start a \<le> month_start b"
  by (auto simp: month_start_def intro: zdiv_mono1)

lemma days_from_civil_mono:
  assumes v: "valid_date y m d" and v': "valid_date y' m' d'"
    and lt: "(y, m, d) < (y', m', d')"
  shows "days_from_civil y m d < days_from_civil y' m' d'"
proof -
  let ?Y = "march_year y m" and ?Y' = "march_year y' m'"
  let ?M = "march_month m" and ?M' = "march_month m'"
  have d': "1 \<le> d'" and m: "1 \<le> m" "m \<le> 12" and m': "1 \<le> m'" "m' \<le> 12"
    using v v' by (auto simp: valid_date_def)
  note f = month_fits [OF v] and f' = month_fits [OF v']
  have pos: "0 \<le> month_start ?M'" using month_start_mono [OF f'(1)]
    by (simp add: month_start_def)
  have "y < y' \<or> y = y' \<and> (m < m' \<or> m = m' \<and> d < d')" using lt by auto
  then have "?Y < ?Y' \<or> ?Y = ?Y' \<and> (?M < ?M' \<or> ?M = ?M' \<and> d < d')"
    unfolding march_year_def march_month_def using m m'
    by (cases "m \<le> 2"; cases "m' \<le> 2") (simp; linarith)+
  then consider "?Y < ?Y'" | "?Y = ?Y'" "?M < ?M'" | "?Y = ?Y'" "?M = ?M'" "d < d'" by blast
  then show ?thesis
  proof cases
    case 1
    then have "year_start (?Y + 1) \<le> year_start ?Y'" by (intro year_start_mono) simp
    with f(4) pos d' year_start_step [of ?Y] show ?thesis
      by (simp add: days_from_civil_eq split: if_splits)
  next
    case 2
    then have "?M < 11" using f'(2) by simp
    then have "month_start ?M + d \<le> month_start ?M'"
      using f(3) month_start_mono [of "?M + 1" ?M'] 2(2) by force
    with 2(1) d' show ?thesis by (simp add: days_from_civil_eq)
  next
    case 3
    then show ?thesis by (simp add: days_from_civil_eq)
  qed
qed

lemma civil_from_days_mono:
  assumes "a < b"
  shows "civil_from_days a < civil_from_days b"
proof (rule ccontr)
  assume "\<not> civil_from_days a < civil_from_days b"
  moreover have "civil_from_days a \<noteq> civil_from_days b"
    using assms civil_from_days_inj by blast
  ultimately have gt: "civil_from_days b < civil_from_days a" by auto
  obtain y m d y' m' d' where e: "civil_from_days a = (y, m, d)" "civil_from_days b = (y', m', d')"
    by (metis prod_cases3)
  have "days_from_civil y' m' d' < days_from_civil y m d"
    using days_from_civil_mono [OF civil_month_day(1) [OF e(2)] civil_month_day(1) [OF e(1)]] gt e
    by simp
  then show False using civil_month_day(2) [OF e(1)] civil_month_day(2) [OF e(2)] assms by simp
qed

lemma civil_from_days_less_iff: "civil_from_days a < civil_from_days b \<longleftrightarrow> a < b"
  by (metis civil_from_days_mono less_asym linorder_less_linear order_less_irrefl)

lemma civil_of_valid:
  assumes "valid_date y m d"
  shows "civil_from_days (days_from_civil y m d) = (y, m, d)"
proof -
  obtain y' m' d' where e: "civil_from_days (days_from_civil y m d) = (y', m', d')"
    by (metis prod_cases3)
  from civil_month_day [OF e] have v: "valid_date y' m' d'"
    and eq: "days_from_civil y' m' d' = days_from_civil y m d" by auto
  have "\<not> (y', m', d') < (y, m, d)" "\<not> (y, m, d) < (y', m', d')"
    using days_from_civil_mono [OF v assms] days_from_civil_mono [OF assms v] eq by force+
  then show ?thesis using e by force
qed

section \<open>Formatting and parsing\<close>

definition digit_char :: "nat \<Rightarrow> char" where
  "digit_char n = ''0123456789'' ! n"

definition is_digit :: "char \<Rightarrow> bool" where
  "is_digit c \<longleftrightarrow> c \<in> set ''0123456789''"

definition digit_val :: "char \<Rightarrow> int" where
  "digit_val c = int (of_char c) - 48"

text \<open>\<open>appendInt(b, x, width)\<close>: a decimal, zero-padded to the width.\<close>

fun digits_fixed :: "nat \<Rightarrow> nat \<Rightarrow> string" where
  "digits_fixed 0 n = []"
| "digits_fixed (Suc w) n = digits_fixed w (n div 10) @ [digit_char (n mod 10)]"

fun nat_str :: "nat \<Rightarrow> string" where
  "nat_str n = (if n < 10 then [digit_char n] else nat_str (n div 10) @ [digit_char (n mod 10)])"

declare nat_str.simps [simp del]

definition append_int :: "nat \<Rightarrow> int \<Rightarrow> string" where
  "append_int w x = (if x < 0 then ''-'' else []) @
     (let n = nat \<bar>x\<bar> in if n < 10 ^ w then digits_fixed w n else nat_str n)"

text \<open>\<open>t.Format("2006-01-02")\<close> of a date.\<close>

definition format_date :: "civil \<Rightarrow> string" where
  "format_date c = (case c of (y, m, d) \<Rightarrow>
     append_int 4 y @ ''-'' @ append_int 2 m @ ''-'' @ append_int 2 d)"

text \<open>
  \<open>getnum(value, fixed)\<close>: one or two leading digits, exactly two when \<open>fixed\<close>; the
  number and the rest, or an error.
\<close>

fun getnum :: "bool \<Rightarrow> string \<Rightarrow> (int \<times> string) option" where
  "getnum fixed [] = None"
| "getnum fixed [c] = (if is_digit c \<and> \<not> fixed then Some (digit_val c, []) else None)"
| "getnum fixed (c # c' # cs) =
     (if \<not> is_digit c then None
      else if is_digit c' then Some (10 * digit_val c + digit_val c', cs)
      else if fixed then None
      else Some (digit_val c, c' # cs))"

fun skip_char :: "char \<Rightarrow> string \<Rightarrow> string option" where
  "skip_char k [] = None"
| "skip_char k (c # cs) = (if c = k then Some cs else None)"

text \<open>\<open>time.Parse("15:04", v)\<close>: the hour and the minute. The hour field accepts one digit.\<close>

definition parse_hhmm :: "string \<Rightarrow> (int \<times> int) option" where
  "parse_hhmm v =
     (case getnum False v of None \<Rightarrow> None
      | Some (h, rest) \<Rightarrow>
        (if h < 0 \<or> 24 \<le> h then None
         else case skip_char (CHR '':'') rest of None \<Rightarrow> None
         | Some rest' \<Rightarrow>
           (case getnum True rest' of None \<Rightarrow> None
            | Some (mi, rest'') \<Rightarrow>
              (if mi < 0 \<or> 60 \<le> mi \<or> rest'' \<noteq> [] then None else Some (h, mi)))))"

text \<open>\<open>time.Parse("2006-01-02", v)\<close>.\<close>

definition parse_date :: "string \<Rightarrow> civil option" where
  "parse_date v =
     (case v of
        a # b # c # e # rest \<Rightarrow>
          (if \<not> (is_digit a \<and> is_digit b \<and> is_digit c \<and> is_digit e) then None
           else let y = 1000 * digit_val a + 100 * digit_val b + 10 * digit_val c + digit_val e in
           case skip_char (CHR ''-'') rest of None \<Rightarrow> None
           | Some rest1 \<Rightarrow>
             (case getnum True rest1 of None \<Rightarrow> None
              | Some (m, rest2) \<Rightarrow>
                (if m \<le> 0 \<or> 12 < m then None
                 else case skip_char (CHR ''-'') rest2 of None \<Rightarrow> None
                 | Some rest3 \<Rightarrow>
                   (case getnum True rest3 of None \<Rightarrow> None
                    | Some (d, rest4) \<Rightarrow>
                      (if rest4 \<noteq> [] \<or> d < 1 \<or> days_in m y < d then None
                       else Some (y, m, d))))))
      | _ \<Rightarrow> None)"

lemma digit_less_10:
  "n < 10 \<Longrightarrow> n = 0 \<or> n = 1 \<or> n = 2 \<or> n = 3 \<or> n = 4 \<or> n = 5 \<or> n = 6 \<or> n = 7 \<or> n = 8 \<or> n = (9::nat)"
  by presburger

lemma digit_char_props:
  assumes "n < 10"
  shows "is_digit (digit_char n)" "digit_val (digit_char n) = int n"
  using digit_less_10 [OF assms] by (elim disjE; simp add: digit_char_def is_digit_def digit_val_def)+

lemma digit_char_less_iff:
  assumes "m < 10" "n < 10"
  shows "digit_char m < digit_char n \<longleftrightarrow> m < n"
proof -
  have v: "of_char (digit_char k) = 48 + k" if "k < 10" for k :: nat
    using digit_less_10 [OF that] by (elim disjE) (simp_all add: digit_char_def)
  show ?thesis by (simp add: less_char_def v assms)
qed

lemma append_less_iff:
  fixes xs ys us vs :: "'a::linorder list"
  assumes "length xs = length ys"
  shows "xs @ us < ys @ vs \<longleftrightarrow> xs < ys \<or> xs = ys \<and> us < vs"
  using assms by (induction xs ys rule: list_induct2) auto

lemma length_digits_fixed [simp]: "length (digits_fixed w n) = w"
  by (induction w arbitrary: n) auto

lemma digits_fixed_inj:
  "m < 10 ^ w \<Longrightarrow> n < 10 ^ w \<Longrightarrow> digits_fixed w m = digits_fixed w n \<longleftrightarrow> m = n"
proof (induction w arbitrary: m n)
  case 0
  then show ?case by simp
next
  case (Suc w)
  have d: "digit_char (m mod 10) = digit_char (n mod 10) \<longleftrightarrow> m mod 10 = n mod 10"
    using digit_char_less_iff [of "m mod 10" "n mod 10"] digit_char_less_iff [of "n mod 10" "m mod 10"]
    by (metis less_irrefl mod_less_divisor nat_neq_iff zero_less_numeral)
  have "m div 10 < 10 ^ w" "n div 10 < 10 ^ w" using Suc.prems by auto
  from Suc.IH [OF this] d show ?case
    by simp (metis div_mult_mod_eq)
qed

lemma digits_fixed_less_iff:
  "m < 10 ^ w \<Longrightarrow> n < 10 ^ w \<Longrightarrow> digits_fixed w m < digits_fixed w n \<longleftrightarrow> m < n"
proof (induction w arbitrary: m n)
  case 0
  then show ?case by simp
next
  case (Suc w)
  have b: "m div 10 < 10 ^ w" "n div 10 < 10 ^ w" using Suc.prems by auto
  have "m < n \<longleftrightarrow> m div 10 < n div 10 \<or> m div 10 = n div 10 \<and> m mod 10 < n mod 10"
  proof -
    have lin: "10 * a + b < 10 * c + e \<longleftrightarrow> a < c \<or> a = c \<and> b < e" if "b < 10" "e < 10"
      for a b c e :: nat using that by auto
    show ?thesis using lin [of "m mod 10" "n mod 10" "m div 10" "n div 10"] by simp
  qed
  then show ?case
    by (simp add: append_less_iff Suc.IH [OF b] digits_fixed_inj [OF b] digit_char_less_iff)
qed

lemma append_int_fixed: "0 \<le> x \<Longrightarrow> x < 10 ^ w \<Longrightarrow> append_int w x = digits_fixed w (nat x)"
  by (simp add: append_int_def nat_less_iff)

lemma append_int_less_iff:
  assumes "0 \<le> x" "x < 10 ^ w" "0 \<le> y" "y < 10 ^ w"
  shows "append_int w x < append_int w y \<longleftrightarrow> x < y" "append_int w x = append_int w y \<longleftrightarrow> x = y"
  using assms by (auto simp: append_int_fixed digits_fixed_less_iff digits_fixed_inj
      nat_less_iff eq_nat_nat_iff)

text \<open>
  On years of four digits, comparing formatted dates as strings compares the dates. The
  scheduling code relies on it whenever it compares a day with a schedule's date bounds.
\<close>

definition four_digit_year :: "int \<Rightarrow> bool" where
  "four_digit_year y \<longleftrightarrow> 0 \<le> y \<and> y \<le> 9999"

lemma format_date_less_iff:
  assumes "valid_date y m d" "valid_date y' m' d'" "four_digit_year y" "four_digit_year y'"
  shows "format_date (y, m, d) < format_date (y', m', d') \<longleftrightarrow> (y, m, d) < (y', m', d')"
proof -
  have r: "days_in a b \<le> 31" for a b by (simp add: days_in_def)
  have b: "0 \<le> y" "y < 10 ^ 4" "0 \<le> y'" "y' < 10 ^ 4" "0 \<le> m" "m < 10 ^ 2" "0 \<le> m'" "m' < 10 ^ 2"
    "0 \<le> d" "d < 10 ^ 2" "0 \<le> d'" "d' < 10 ^ 2"
    using assms r [of m y] r [of m' y'] by (auto simp: valid_date_def four_digit_year_def)
  have len: "length (append_int 4 y) = length (append_int 4 y')"
    "length (append_int 2 m) = length (append_int 2 m')"
    using b by (simp_all only: append_int_fixed length_digits_fixed)
  note cmp = append_int_less_iff [OF b(1-4)] append_int_less_iff [OF b(5-8)]
    append_int_less_iff [OF b(9-12)]
  show ?thesis
    unfolding format_date_def prod.case append_less_iff [OF len(1)]
      append_less_iff [of "''-''" "''-''", OF refl] append_less_iff [OF len(2)] cmp
    by auto
qed

lemma format_day_less_iff:
  assumes "four_digit_year (fst (civil_from_days a))" "four_digit_year (fst (civil_from_days b))"
  shows "format_date (civil_from_days a) < format_date (civil_from_days b) \<longleftrightarrow> a < b"
proof -
  obtain y m d y' m' d' where e: "civil_from_days a = (y, m, d)" "civil_from_days b = (y', m', d')"
    by (metis prod_cases3)
  show ?thesis
    using format_date_less_iff [OF civil_month_day(1) [OF e(1)] civil_month_day(1) [OF e(2)]]
      assms civil_from_days_less_iff [of a b] by (simp add: e)
qed

lemma digits_fixed_2: "digits_fixed 2 n = [digit_char (n div 10 mod 10), digit_char (n mod 10)]"
  unfolding numeral_2_eq_2 digits_fixed.simps by simp

lemma digits_fixed_4:
  "digits_fixed 4 n = [digit_char (n div 10 div 10 div 10 mod 10), digit_char (n div 10 div 10 mod 10),
     digit_char (n div 10 mod 10), digit_char (n mod 10)]"
proof -
  have "(4::nat) = Suc (Suc (Suc (Suc 0)))" by simp
  then show ?thesis by (simp only: digits_fixed.simps append.simps append_assoc)
qed

lemma digit_join_2: "n < 100 \<Longrightarrow> 10 * (n div 10 mod 10) + n mod 10 = (n::nat)"
  by simp

lemma digit_join_4:
  assumes "n < 10000"
  shows "1000 * (n div 10 div 10 div 10 mod 10) + 100 * (n div 10 div 10 mod 10)
     + 10 * (n div 10 mod 10) + n mod 10 = (n::nat)"
proof -
  have "n div 10 div 10 div 10 < 10" using assms by simp
  then have "n div 10 div 10 div 10 mod 10 = n div 10 div 10 div 10" by simp
  then show ?thesis
    using div_mult_mod_eq [of n 10] div_mult_mod_eq [of "n div 10" 10]
      div_mult_mod_eq [of "n div 10 div 10" 10] by linarith
qed

lemma getnum_two_digits:
  "m < 10 \<Longrightarrow> n < 10 \<Longrightarrow>
     getnum fixed (digit_char m # digit_char n # rest) = Some (10 * int m + int n, rest)"
  by (simp add: digit_char_props)

lemma parse_format_date:
  assumes "valid_date y m d" "four_digit_year y"
  shows "parse_date (format_date (y, m, d)) = Some (y, m, d)"
proof -
  have r: "days_in m y \<le> 31" by (simp add: days_in_def)
  have b: "0 \<le> y" "y < 10 ^ 4" "0 \<le> m" "m < 10 ^ 2" "0 \<le> d" "d < 10 ^ 2"
    using assms r by (auto simp: valid_date_def four_digit_year_def)
  obtain Y M D where n: "y = int Y" "m = int M" "d = int D"
    using b by (metis nonneg_int_cases)
  then have lt: "Y < 10000" "M < 100" "D < 100" using b by auto
  have fmt: "format_date (y, m, d) = digits_fixed 4 Y @ ''-'' @ digits_fixed 2 M @ ''-''
      @ digits_fixed 2 D"
    using b n by (simp add: format_date_def append_int_fixed)
  have Y: "1000 * int (Y div 10 div 10 div 10 mod 10) + 100 * int (Y div 10 div 10 mod 10)
      + 10 * int (Y div 10 mod 10) + int (Y mod 10) = y"
    using arg_cong [OF digit_join_4 [OF lt(1)], of int] n(1) by (simp only: of_nat_add of_nat_mult
        of_nat_numeral)
  have g: "getnum True (digits_fixed 2 k @ rest) = Some (int k, rest)" if "k < 100" for k rest
    using arg_cong [OF digit_join_2 [OF that], of int]
    by (simp only: digits_fixed_2 append.simps getnum_two_digits of_nat_add of_nat_mult
        of_nat_numeral mod_less_divisor zero_less_numeral)
  note gs = g [of M, OF lt(2)] g [of D "[]", OF lt(3), unfolded append_Nil2]
  have v: "1 \<le> m" "m \<le> 12" "1 \<le> d" "d \<le> days_in m y"
    using assms(1) by (auto simp: valid_date_def)
  show ?thesis
    unfolding fmt parse_date_def digits_fixed_4 using v n
    by (simp add: digit_char_props Y gs Let_def not_le not_less)
qed

section \<open>Locations and wall clocks\<close>

record location =
  loc_name :: string
  loc_offset :: "int \<Rightarrow> int"

definition utc :: location where
  "utc = \<lparr>loc_name = ''UTC'', loc_offset = (\<lambda>_. 0)\<rparr>"

text \<open>
  \<open>time.LoadLocation\<close>: the database \<open>tzdb\<close> and the machine's local zone are the
  environment. Names with two consecutive dots, and absolute names, are refused.
\<close>

type_synonym tz_database = "string \<Rightarrow> location option"

fun has_dot_dot :: "string \<Rightarrow> bool" where
  "has_dot_dot (a # b # cs) \<longleftrightarrow> a = CHR ''.'' \<and> b = CHR ''.'' \<or> has_dot_dot (b # cs)"
| "has_dot_dot _ \<longleftrightarrow> False"

definition load_location :: "tz_database \<Rightarrow> location \<Rightarrow> string \<Rightarrow> location option" where
  "load_location tzdb local name =
     (if name = [] \<or> name = ''UTC'' then Some utc
      else if name = ''Local'' then Some local
      else if has_dot_dot name \<or> hd name = CHR ''/'' \<or> of_char (hd name) = (92::nat) then None
      else tzdb name)"

definition unix :: "instant \<Rightarrow> int" where
  "unix t = t div second"

definition local_seconds :: "location \<Rightarrow> instant \<Rightarrow> int" where
  "local_seconds loc t = unix t + loc_offset loc (unix t)"

definition local_day :: "location \<Rightarrow> instant \<Rightarrow> int" where
  "local_day loc t = local_seconds loc t div 86400"

text \<open>\<open>t.In(loc).Date()\<close>, \<open>Hour()\<close>, \<open>Minute()\<close> and \<open>Weekday()\<close> (Sunday is 0).\<close>

definition date_in :: "location \<Rightarrow> instant \<Rightarrow> civil" where
  "date_in loc t = civil_from_days (local_day loc t)"

definition hour_in :: "location \<Rightarrow> instant \<Rightarrow> int" where
  "hour_in loc t = local_seconds loc t mod 86400 div 3600"

definition minute_in :: "location \<Rightarrow> instant \<Rightarrow> int" where
  "minute_in loc t = local_seconds loc t mod 3600 div 60"

definition weekday_of_day :: "int \<Rightarrow> int" where
  "weekday_of_day n = (n + 4) mod 7"

definition weekday_in :: "location \<Rightarrow> instant \<Rightarrow> int" where
  "weekday_in loc t = weekday_of_day (local_day loc t)"

text \<open>
  \<open>time.Date(y, m, d, h, mi, s, ns, loc)\<close> with the time of day in seconds: the wall clock is
  first read as if it were UTC; the offset found there is corrected by one more look-up. A
  day outside the month is normalised.
\<close>

definition go_time :: "location \<Rightarrow> civil \<Rightarrow> int \<Rightarrow> int \<Rightarrow> instant" where
  "go_time loc c secs ns =
     (case c of (y, m, d) \<Rightarrow>
        let u = days_from_civil y m d * 86400 + secs
        in (u - loc_offset loc (u - loc_offset loc u)) * second + ns)"

definition go_date :: "location \<Rightarrow> civil \<Rightarrow> int \<Rightarrow> int \<Rightarrow> instant" where
  "go_date loc c h mi = go_time loc c (h * 3600 + mi * 60) 0"

text \<open>\<open>t.AddDate(0, 0, k)\<close>: the same time of day, \<open>k\<close> days later.\<close>

definition add_date :: "location \<Rightarrow> instant \<Rightarrow> int \<Rightarrow> instant" where
  "add_date loc t k =
     (case date_in loc t of (y, m, d) \<Rightarrow>
        go_time loc (y, m, d + k) (local_seconds loc t mod 86400) (t mod second))"

lemmas wall_clock_defs [model_defs] =
  unix_def local_seconds_def local_day_def date_in_def hour_in_def minute_in_def
  weekday_of_day_def weekday_in_def

section \<open>Zones with a fixed offset\<close>

text \<open>
  UTC and every zone without transitions: a constant offset of whole minutes, at most 14
  hours. There the wall clock is linear in the instant.
\<close>

definition fixed_offset :: "location \<Rightarrow> int \<Rightarrow> bool" where
  "fixed_offset loc off \<longleftrightarrow> loc_offset loc = (\<lambda>_. off) \<and> off mod 60 = 0 \<and> \<bar>off\<bar> \<le> 50400"

lemma fixed_offset_utc [simp]: "fixed_offset utc 0"
  by (simp add: fixed_offset_def utc_def)

lemma unix_second [simp]: "unix (k * second) = k"
  by (simp add: unix_def second_def)

lemma unix_second_add: "0 \<le> ns \<Longrightarrow> ns < second \<Longrightarrow> unix (k * second + ns) = k"
  by (simp add: unix_def second_def)

lemma go_time_fixed:
  "loc_offset loc = (\<lambda>_. off) \<Longrightarrow>
     go_time loc (y, m, d) secs ns = (days_from_civil y m d * 86400 + secs - off) * second + ns"
  by (simp add: go_time_def Let_def)

lemma local_day_go_time_fixed:
  assumes "loc_offset loc = (\<lambda>_. off)" "0 \<le> secs" "secs < 86400" "0 \<le> ns" "ns < second"
  shows "local_day loc (go_time loc (y, m, d) secs ns) = days_from_civil y m d"
proof -
  have "local_seconds loc (go_time loc (y, m, d) secs ns) = secs + days_from_civil y m d * 86400"
    by (simp add: go_time_fixed [OF assms(1)] local_seconds_def unix_second_add [OF assms(4,5)] assms(1))
  then show ?thesis using assms(2,3) by (simp add: local_day_def)
qed

lemma local_day_add_date_fixed:
  assumes "loc_offset loc = (\<lambda>_. off)"
  shows "local_day loc (add_date loc t k) = local_day loc t + k"
proof -
  obtain y m d where e: "civil_from_days (local_day loc t) = (y, m, d)"
    by (cases "civil_from_days (local_day loc t)")
  have "0 \<le> t mod second" "t mod second < second" by (simp_all add: second_def)
  then show ?thesis
    using civil_month_day(2) [OF e]
    by (simp add: add_date_def date_in_def e local_day_go_time_fixed [OF assms] days_from_civil_add_day)
qed

lemma local_day_noon_fixed:
  assumes "loc_offset loc = (\<lambda>_. off)"
  shows "local_day loc (go_date loc (date_in loc t) 12 0) = local_day loc t"
proof -
  obtain y m d where e: "civil_from_days (local_day loc t) = (y, m, d)"
    by (cases "civil_from_days (local_day loc t)")
  have "0 < second" by (simp add: second_def)
  then show ?thesis
    using civil_month_day(2) [OF e]
    by (simp add: go_date_def date_in_def e local_day_go_time_fixed [OF assms])
qed

text \<open>A date read off a day count determines the day.\<close>

lemma days_of_date_in:
  "date_in loc t = (y, m, d) \<Longrightarrow> days_from_civil y m d = local_day loc t"
  by (simp add: date_in_def civil_month_day(2))

lemma date_in_eq_iff: "date_in loc t = date_in loc' t' \<longleftrightarrow> local_day loc t = local_day loc' t'"
  by (auto simp: date_in_def dest: civil_from_days_inj)

lemma minute_split:
  fixes L :: int
  assumes "0 \<le> h" "h < 24" "0 \<le> mi" "mi < 60"
  shows "L div 86400 = dd \<and> L mod 86400 div 3600 = h \<and> L mod 3600 div 60 = mi \<longleftrightarrow>
    L div 60 = dd * 1440 + h * 60 + mi"
proof
  assume a: "L div 86400 = dd \<and> L mod 86400 div 3600 = h \<and> L mod 3600 div 60 = mi"
  have gen: "86400 * A + 3600 * B + 60 * C + D = D + 60 * (A * 1440 + B * 60 + C)" for A B C D :: int
    by simp
  have "L mod 86400 mod 3600 = L mod 3600" by (simp add: mod_mod_cancel)
  moreover have "X = 86400 * A + 3600 * C + 60 * E + F"
    if "86400 * A + B = X" "3600 * C + D = B" "60 * E + F = D" for X A B C D E F :: int
    using that by simp
  ultimately have "L = 86400 * dd + 3600 * h + 60 * mi + L mod 3600 mod 60"
    using a mult_div_mod_eq [of 86400 L] mult_div_mod_eq [of 3600 "L mod 86400"]
      mult_div_mod_eq [of 60 "L mod 3600"] by metis
  then obtain r where L: "L = r + 60 * (dd * 1440 + h * 60 + mi)" and r: "0 \<le> r" "r < 60"
    by (metis (no_types, lifting) gen pos_mod_bound pos_mod_sign zero_less_numeral)
  show "L div 60 = dd * 1440 + h * 60 + mi"
    unfolding L using r by simp
next
  assume d: "L div 60 = dd * 1440 + h * 60 + mi"
  define r where "r = L mod 60"
  have r: "0 \<le> r" "r < 60" by (simp_all add: r_def)
  have "L = 60 * (dd * 1440 + h * 60 + mi) + r"
    using mult_div_mod_eq [of 60 L] unfolding d r_def by (rule sym)
  then have L: "L = 86400 * dd + (3600 * h + (60 * mi + r))" by simp
  have q: "0 \<le> 60 * mi + r" "60 * mi + r < 3600" using r assms by linarith+
  have p: "0 \<le> 3600 * h + (60 * mi + r)" "3600 * h + (60 * mi + r) < 86400" using q assms by linarith+
  have "L div 86400 = dd" "L mod 86400 = 3600 * h + (60 * mi + r)" using L p by simp_all
  moreover have "(3600 * h + (60 * mi + r)) div 3600 = h" using q by simp
  moreover have "L mod 3600 = 60 * mi + r"
  proof -
    have "L = 60 * mi + r + 3600 * (24 * dd + h)" using L by simp
    then show ?thesis using q by (simp only: mod_mult_self2) simp
  qed
  ultimately show "L div 86400 = dd \<and> L mod 86400 div 3600 = h \<and> L mod 3600 div 60 = mi"
    using r by simp
qed

end
