(* ===== verification/Scheduling.thy ===== *)
theory Scheduling
  imports GoTime DisplayControl
begin

text \<open>
  Schedule activation and precedence: \<open>apps/server/internal/scheduling/engine.go\<close> and
  \<open>explain.go\<close>. A schedule is a fixed window (\<open>one_time\<close>) or recurs on weekdays between
  two local times; among the schedules that are active at an instant the one that comes
  first in the precedence order wins. Where the code would dereference a nil pointer or a
  nil location, the model's value is \<open>None\<close>.
\<close>

section \<open>Schedules\<close>

type_synonym kind = string

definition one_time :: kind where "one_time = ''one_time''"
definition weekly :: kind where "weekly = ''weekly''"

record schedule =
  sch_id :: uuid
  sch_playlist :: uuid
  sch_layout :: "uuid option"
  sch_display_action :: "action option"
  sch_type :: kind
  sch_timezone :: string
  sch_priority :: int
  sch_specificity :: int
  sch_enabled :: bool
  sch_start_date :: "string option"
  sch_end_date :: "string option"
  sch_one_time_start :: "instant option"
  sch_one_time_end :: "instant option"
  sch_daily_start :: "string option"
  sch_daily_end :: "string option"
  sch_days :: "int list"

record active =
  a_schedule :: schedule
  a_start :: instant
  a_end :: instant

record result =
  r_winner :: "active option"
  r_applicable :: "active list"
  r_next :: "instant option"

section \<open>Validation\<close>

datatype schedule_error =
    PriorityOutOfRange
  | TimezoneInvalid
  | OneTimeEndNotAfterStart
  | WeeklyIncomplete
  | ClockMalformed
  | WeekdayOutOfRange
  | StartDateMalformed
  | EndDateMalformed
  | EndDatePrecedesStart

definition parse_clock :: "string \<Rightarrow> schedule_error + int \<times> int" where
  "parse_clock v = (case parse_hhmm v of None \<Rightarrow> Inl ClockMalformed | Some t \<Rightarrow> Inr t)"

text \<open>A failed parse leaves the zero time, at midnight.\<close>

definition clock_or_zero :: "string \<Rightarrow> int \<times> int" where
  "clock_or_zero v = (case parse_clock v of Inl _ \<Rightarrow> (0, 0) | Inr t \<Rightarrow> t)"

definition valid_optional_date :: "string option \<Rightarrow> bool" where
  "valid_optional_date v = (case v of None \<Rightarrow> True | Some d \<Rightarrow> parse_date d \<noteq> None)"

definition validate_weekly :: "schedule \<Rightarrow> schedule_error + unit" where
  "validate_weekly s =
     (case (sch_daily_start s, sch_daily_end s) of
        (Some ds, Some de) \<Rightarrow>
          if sch_type s \<noteq> weekly \<or> sch_days s = [] then Inl WeeklyIncomplete
          else andthen (parse_clock ds) (\<lambda>_. andthen (parse_clock de) (\<lambda>_.
            if \<exists>d\<in>set (sch_days s). d < 0 \<or> 6 < d then Inl WeekdayOutOfRange
            else if \<not> valid_optional_date (sch_start_date s) then Inl StartDateMalformed
            else if \<not> valid_optional_date (sch_end_date s) then Inl EndDateMalformed
            else (case (sch_start_date s, sch_end_date s) of
                    (Some a, Some b) \<Rightarrow> check (\<not> b < a) EndDatePrecedesStart
                  | _ \<Rightarrow> Inr ())))
      | _ \<Rightarrow> Inl WeeklyIncomplete)"

definition validate_schedule :: "tz_database \<Rightarrow> location \<Rightarrow> schedule \<Rightarrow> schedule_error + unit" where
  "validate_schedule tzdb local s =
     (if sch_priority s < -999 \<or> 999 < sch_priority s then Inl PriorityOutOfRange
      else if sch_timezone s \<noteq> ''UTC'' \<and> \<not> contains (sch_timezone s) ''/'' then Inl TimezoneInvalid
      else case load_location tzdb local (sch_timezone s) of
        None \<Rightarrow> Inl TimezoneInvalid
      | Some loc \<Rightarrow>
          if loc_name loc = ''Local'' then Inl TimezoneInvalid
          else if sch_type s = one_time then
            (case (sch_one_time_start s, sch_one_time_end s) of
               (Some a, Some b) \<Rightarrow> check (a < b) OneTimeEndNotAfterStart
             | _ \<Rightarrow> Inl OneTimeEndNotAfterStart)
          else validate_weekly s)"

section \<open>Date bounds\<close>

text \<open>A day as \<open>Format("2006-01-02")\<close> writes it; bounds are compared as strings.\<close>

definition day_string :: "location \<Rightarrow> instant \<Rightarrow> string" where
  "day_string loc t = format_date (date_in loc t)"

definition not_before_bound :: "string option \<Rightarrow> string \<Rightarrow> bool" where
  "not_before_bound b v = (case b of None \<Rightarrow> True | Some d \<Rightarrow> d \<le> v)"

definition not_after_bound :: "string option \<Rightarrow> string \<Rightarrow> bool" where
  "not_after_bound b v = (case b of None \<Rightarrow> True | Some d \<Rightarrow> v \<le> d)"

definition one_time_allowed :: "tz_database \<Rightarrow> location \<Rightarrow> schedule \<Rightarrow> instant \<Rightarrow> instant \<Rightarrow> bool" where
  "one_time_allowed tzdb local s a b =
     (if sch_start_date s = None \<and> sch_end_date s = None then True
      else case load_location tzdb local (sch_timezone s) of
        None \<Rightarrow> False
      | Some loc \<Rightarrow> not_before_bound (sch_start_date s) (day_string loc a)
          \<and> not_after_bound (sch_end_date s) (day_string loc (b - 1)))"

definition date_allowed :: "location \<Rightarrow> schedule \<Rightarrow> instant \<Rightarrow> bool" where
  "date_allowed loc s d \<longleftrightarrow> not_before_bound (sch_start_date s) (day_string loc d)
     \<and> not_after_bound (sch_end_date s) (day_string loc d)"

definition contains_day :: "int list \<Rightarrow> int \<Rightarrow> bool" where
  "contains_day days d \<longleftrightarrow> d \<in> set days"

section \<open>Local times\<close>

text \<open>The instants the code tries: every minute within 14 hours of the wanted wall clock.\<close>

definition scan_offsets :: "duration list" where
  "scan_offsets = map (\<lambda>i. i * minute) [-840..840]"

definition shows_clock :: "location \<Rightarrow> civil \<Rightarrow> int \<Rightarrow> int \<Rightarrow> instant \<Rightarrow> bool" where
  "shows_clock loc c h mi x \<longleftrightarrow> date_in loc x = c \<and> hour_in loc x = h \<and> minute_in loc x = mi"

fun first_some :: "('a \<Rightarrow> 'b option) \<Rightarrow> 'a list \<Rightarrow> 'b option" where
  "first_some f [] = None"
| "first_some f (x # xs) = (case f x of Some y \<Rightarrow> Some y | None \<Rightarrow> first_some f xs)"

definition advance_minute :: "location \<Rightarrow> instant \<Rightarrow> int \<Rightarrow> instant option" where
  "advance_minute loc wanted k =
     (let w = wanted + k * minute
      in find (shows_clock loc (date_in utc w) (hour_in utc w) (minute_in utc w))
           (map (\<lambda>delta. w + delta) scan_offsets))"

definition resolve_local :: "location \<Rightarrow> instant \<Rightarrow> string \<Rightarrow> bool \<Rightarrow> instant" where
  "resolve_local loc date clock last_match =
     (let (h, mi) = clock_or_zero clock;
          c = date_in loc date;
          wanted = go_date utc c h mi;
          matches = filter (shows_clock loc c h mi) (map (\<lambda>delta. wanted + delta) scan_offsets)
      in if matches \<noteq> [] then (if last_match then last matches else hd matches)
         else case first_some (advance_minute loc wanted) [1..180] of
                Some x \<Rightarrow> x
              | None \<Rightarrow> go_date loc c h mi)"

section \<open>Intervals\<close>

text \<open>The days on which a recurring schedule occurs, and the occurrence of such a day.\<close>

definition occurs_on :: "location \<Rightarrow> schedule \<Rightarrow> instant \<Rightarrow> bool" where
  "occurs_on loc s day \<longleftrightarrow> contains_day (sch_days s) (weekday_in loc day) \<and> date_allowed loc s day"

definition occurrence :: "location \<Rightarrow> string \<Rightarrow> string \<Rightarrow> instant \<Rightarrow> instant \<times> instant" where
  "occurrence loc ds de day =
     (resolve_local loc day ds False,
      resolve_local loc (if de \<le> ds then add_date loc day 1 else day) de True)"

definition covers :: "instant \<Rightarrow> instant \<times> instant \<Rightarrow> bool" where
  "covers t w \<longleftrightarrow> fst w \<le> t \<and> t < snd w"

definition recurring_days :: "location \<Rightarrow> schedule \<Rightarrow> instant \<Rightarrow> instant list" where
  "recurring_days loc s t =
     filter (occurs_on loc s) (map (add_date loc (go_date loc (date_in loc t) 12 0)) [-1..7])"

definition as_active :: "schedule \<Rightarrow> instant \<times> instant \<Rightarrow> active" where
  "as_active s w = \<lparr>a_schedule = s, a_start = fst w, a_end = snd w\<rparr>"

definition interval_at ::
    "tz_database \<Rightarrow> location \<Rightarrow> schedule \<Rightarrow> instant \<Rightarrow> (active option \<times> instant list) option" where
  "interval_at tzdb local s t =
     (if sch_type s = one_time then
        (case (sch_one_time_start s, sch_one_time_end s) of
           (Some a, Some b) \<Rightarrow>
             Some (if covers t (a, b) \<and> one_time_allowed tzdb local s a b then Some (as_active s (a, b)) else None,
                   [a, b])
         | _ \<Rightarrow> None)
      else case load_location tzdb local (sch_timezone s) of
        None \<Rightarrow> None
      | Some loc \<Rightarrow>
          (let days = recurring_days loc s t
           in if days = [] then Some (None, [])
              else case (sch_daily_start s, sch_daily_end s) of
                (Some ds, Some de) \<Rightarrow>
                  (let ws = map (occurrence loc ds de) days
                   in Some (map_option (as_active s) (find (covers t) (rev ws)),
                        concat (map (\<lambda>w. [fst w, snd w]) ws)))
              | _ \<Rightarrow> None))"

definition active_at :: "tz_database \<Rightarrow> location \<Rightarrow> schedule \<Rightarrow> instant \<Rightarrow> active option option" where
  "active_at tzdb local s t = map_option fst (interval_at tzdb local s t)"

definition can_activate :: "tz_database \<Rightarrow> location \<Rightarrow> schedule \<Rightarrow> bool" where
  "can_activate tzdb local s =
     (if sch_type s \<noteq> one_time then True
      else case (sch_one_time_start s, sch_one_time_end s) of
        (Some a, Some b) \<Rightarrow> one_time_allowed tzdb local s a b
      | _ \<Rightarrow> False)"

section \<open>The next interval\<close>

definition next_interval_horizon_days :: int where "next_interval_horizon_days = 400"

definition search_start :: "location \<Rightarrow> schedule \<Rightarrow> instant \<Rightarrow> instant" where
  "search_start loc s since =
     (let date = (case date_in loc since of (y, m, d) \<Rightarrow> go_date loc (y, m, d - 1) 12 0)
      in case sch_start_date s of
           None \<Rightarrow> date
         | Some v \<Rightarrow>
             (case parse_date v of
                None \<Rightarrow> date
              | Some c \<Rightarrow> if date < go_date loc c 12 0 then go_date loc c 12 0 else date))"

definition next_interval ::
    "tz_database \<Rightarrow> location \<Rightarrow> schedule \<Rightarrow> instant \<Rightarrow> active option" where
  "next_interval tzdb local s since =
     (if sch_type s = one_time then
        (case (sch_one_time_start s, sch_one_time_end s) of
           (Some a, Some b) \<Rightarrow>
             if \<not> since < b then None
             else if \<not> one_time_allowed tzdb local s a b then None
             else Some (as_active s (a, b))
         | _ \<Rightarrow> None)
      else case (sch_daily_start s, sch_daily_end s) of
        (Some ds, Some de) \<Rightarrow>
          (case load_location tzdb local (sch_timezone s) of
             None \<Rightarrow> None
           | Some loc \<Rightarrow>
               (let days = takeWhile (\<lambda>day. not_after_bound (sch_end_date s) (day_string loc day))
                      (map (add_date loc (search_start loc s since)) [0..next_interval_horizon_days - 1])
                in map_option (as_active s)
                     (find (\<lambda>w. since < snd w)
                       (map (occurrence loc ds de) (filter (occurs_on loc s) days)))))
      | _ \<Rightarrow> None)"

section \<open>Precedence\<close>

datatype selection_reason =
    ReasonSelected
  | ReasonDisabled
  | ReasonNotActive
  | ReasonLowerPriority
  | ReasonLessSpecific
  | ReasonEarlierStart
  | ReasonStableID

definition precedes :: "active \<Rightarrow> active \<Rightarrow> bool \<times> selection_reason" where
  "precedes a b =
     (if sch_priority (a_schedule a) \<noteq> sch_priority (a_schedule b) then
        (sch_priority (a_schedule b) < sch_priority (a_schedule a), ReasonLowerPriority)
      else if sch_specificity (a_schedule a) \<noteq> sch_specificity (a_schedule b) then
        (sch_specificity (a_schedule b) < sch_specificity (a_schedule a), ReasonLessSpecific)
      else if a_start a \<noteq> a_start b then (a_start b < a_start a, ReasonEarlierStart)
      else (uuid_string (sch_id (a_schedule a)) < uuid_string (sch_id (a_schedule b)), ReasonStableID))"

definition before :: "active \<Rightarrow> active \<Rightarrow> bool" where
  "before a b = fst (precedes a b)"

definition rank :: "active list \<Rightarrow> active list" where
  "rank xs = sort_by before xs"

definition earliest_after :: "instant \<Rightarrow> instant \<Rightarrow> instant option \<Rightarrow> instant option" where
  "earliest_after t x nxt =
     (if t < x \<and> (case nxt of None \<Rightarrow> True | Some n \<Rightarrow> x < n) then Some x else nxt)"

definition resolve :: "tz_database \<Rightarrow> location \<Rightarrow> instant \<Rightarrow> schedule list \<Rightarrow> result option" where
  "resolve tzdb local t schedules =
     (case those (map (\<lambda>s. interval_at tzdb local s t) (filter sch_enabled schedules)) of
        None \<Rightarrow> None
      | Some rs \<Rightarrow>
          (let applicable = rank (List.map_filter fst rs)
           in Some \<lparr>r_winner = (case applicable of [] \<Rightarrow> None | w # _ \<Rightarrow> Some w),
                    r_applicable = applicable,
                    r_next = fold (earliest_after t) (concat (map snd rs)) None\<rparr>))"

section \<open>Explanations\<close>

datatype candidate_status = CandidateSelected | CandidateSuperseded | CandidateInactive

record candidate =
  c_schedule_id :: uuid
  c_status :: candidate_status
  c_reason :: selection_reason
  c_priority :: int
  c_specificity :: int
  c_start :: "instant option"
  c_end :: "instant option"

record explanation =
  e_resolution :: result
  e_candidates :: "candidate list"

text \<open>
  One trace entry. \<open>activeByID\<close> is filled in order, so of two entries with one identifier
  the later one stays. Reading \<open>result.Winner\<close> when it is nil would panic.
\<close>

definition explain_candidate :: "result \<Rightarrow> schedule \<Rightarrow> candidate option" where
  "explain_candidate res s =
     (let c = \<lparr>c_schedule_id = sch_id s, c_status = CandidateInactive, c_reason = ReasonNotActive,
                c_priority = sch_priority s, c_specificity = sch_specificity s,
                c_start = None, c_end = None\<rparr>
      in if \<not> sch_enabled s then Some (c\<lparr>c_reason := ReasonDisabled\<rparr>)
         else case map_of (rev (map (\<lambda>a. (sch_id (a_schedule a), a)) (r_applicable res))) (sch_id s) of
           None \<Rightarrow> Some c
         | Some a \<Rightarrow>
             (case r_winner res of
                None \<Rightarrow> None
              | Some w \<Rightarrow>
                  (let c' = c\<lparr>c_start := Some (a_start a), c_end := Some (a_end a)\<rparr>
                   in Some (if sch_id (a_schedule w) = sch_id s
                            then c'\<lparr>c_status := CandidateSelected, c_reason := ReasonSelected\<rparr>
                            else c'\<lparr>c_status := CandidateSuperseded,
                                     c_reason := snd (precedes w a)\<rparr>))))"

definition trace_before :: "candidate \<Rightarrow> candidate \<Rightarrow> bool" where
  "trace_before a b \<longleftrightarrow> uuid_string (c_schedule_id a) < uuid_string (c_schedule_id b)"

definition explain :: "tz_database \<Rightarrow> location \<Rightarrow> instant \<Rightarrow> schedule list \<Rightarrow> explanation option" where
  "explain tzdb local t schedules =
     (case resolve tzdb local t schedules of
        None \<Rightarrow> None
      | Some res \<Rightarrow>
          (case those (map (explain_candidate res) schedules) of
             None \<Rightarrow> None
           | Some trace \<Rightarrow>
               Some \<lparr>e_resolution = res, e_candidates = sort_by trace_before trace\<rparr>))"

section \<open>The precedence order\<close>

text \<open>Higher priority, then higher specificity, then later start, then smaller identifier.\<close>

definition precedence_key :: "active \<Rightarrow> int \<times> int \<times> int \<times> uuid" where
  "precedence_key a =
     (- sch_priority (a_schedule a), - sch_specificity (a_schedule a), - a_start a, sch_id (a_schedule a))"

lemma before_iff: "before a b \<longleftrightarrow> precedence_key a < precedence_key b"
  by (auto simp: before_def precedes_def precedence_key_def)

interpretation precedence: ranking before precedence_key
  by unfold_locales (rule before_iff)

interpretation trace: ranking trace_before c_schedule_id
  by unfold_locales (simp add: trace_before_def)

lemma precedence_key_inj: "precedence_key a = precedence_key b \<Longrightarrow> sch_id (a_schedule a) = sch_id (a_schedule b)"
  by (simp add: precedence_key_def)

section \<open>Lemmas on resolution\<close>

lemma those_map:
  "those (map f xs) = (if \<forall>x\<in>set xs. f x \<noteq> None then Some (map (the \<circ> f) xs) else None)"
  by (induction xs) (auto split: option.splits)

text \<open>The fold over the transitions keeps the earliest one after the instant.\<close>

definition is_earliest :: "instant set \<Rightarrow> instant option \<Rightarrow> bool" where
  "is_earliest S r \<longleftrightarrow> (case r of None \<Rightarrow> S = {} | Some m \<Rightarrow> m \<in> S \<and> (\<forall>x\<in>S. m \<le> x))"

lemma is_earliest_unique: "is_earliest S r \<Longrightarrow> is_earliest S r' \<Longrightarrow> r = r'"
  by (auto simp: is_earliest_def split: option.splits intro: antisym)

lemma earliest_after_step:
  "is_earliest S r \<Longrightarrow> is_earliest ({x} \<inter> {x. t < x} \<union> S) (earliest_after t x r)"
  by (auto simp: is_earliest_def earliest_after_def split: option.splits)

lemma earliest_after_fold:
  "is_earliest S r \<Longrightarrow>
     is_earliest (set xs \<inter> {x. t < x} \<union> S) (fold (earliest_after t) xs r)"
proof (induction xs arbitrary: S r)
  case Nil
  then show ?case by simp
next
  case (Cons x xs)
  have "set (x # xs) \<inter> {x. t < x} \<union> S = set xs \<inter> {x. t < x} \<union> ({x} \<inter> {x. t < x} \<union> S)" by auto
  then show ?case using Cons.IH [OF earliest_after_step [OF Cons.prems]] by simp
qed

lemma earliest_after_spec:
  "is_earliest (set xs \<inter> {x. t < x}) (fold (earliest_after t) xs None)"
  using earliest_after_fold [of "{}" None xs t] by (simp add: is_earliest_def)

lemma set_map_filter_fst: "set (List.map_filter f xs) = {y. \<exists>x\<in>set xs. f x = Some y}"
  by (induction xs) (auto simp: List.map_filter_simps split: option.splits)

text \<open>The result in closed form, when no enabled schedule makes the code panic.\<close>

definition enabled_ok :: "tz_database \<Rightarrow> location \<Rightarrow> instant \<Rightarrow> schedule list \<Rightarrow> bool" where
  "enabled_ok tzdb local t ss \<longleftrightarrow>
     (\<forall>s\<in>set ss. sch_enabled s \<longrightarrow> interval_at tzdb local s t \<noteq> None)"

definition actives :: "tz_database \<Rightarrow> location \<Rightarrow> instant \<Rightarrow> schedule list \<Rightarrow> active list" where
  "actives tzdb local t ss =
     List.map_filter (\<lambda>s. fst (the (interval_at tzdb local s t))) (filter sch_enabled ss)"

definition transitions :: "tz_database \<Rightarrow> location \<Rightarrow> instant \<Rightarrow> schedule list \<Rightarrow> instant list" where
  "transitions tzdb local t ss =
     concat (map (\<lambda>s. snd (the (interval_at tzdb local s t))) (filter sch_enabled ss))"

lemma resolve_closed:
  "resolve tzdb local t ss =
     (if enabled_ok tzdb local t ss then
        Some \<lparr>r_winner = (case rank (actives tzdb local t ss) of [] \<Rightarrow> None | w # _ \<Rightarrow> Some w),
              r_applicable = rank (actives tzdb local t ss),
              r_next = fold (earliest_after t) (transitions tzdb local t ss) None\<rparr>
      else None)"
  by (auto simp: resolve_def those_map enabled_ok_def actives_def transitions_def Let_def
      List.map_filter_def filter_map comp_def)

lemma in_actives_iff:
  "enabled_ok tzdb local t ss \<Longrightarrow>
     a \<in> set (actives tzdb local t ss) \<longleftrightarrow>
     (\<exists>s\<in>set ss. sch_enabled s \<and> active_at tzdb local s t = Some (Some a))"
  by (force simp: actives_def set_map_filter_fst enabled_ok_def active_at_def)

lemma find_mem: "find P xs = Some x \<Longrightarrow> x \<in> set xs \<and> P x"
  by (induction xs) (auto split: if_splits)

text \<open>An active interval belongs to its schedule, contains the instant and ends in transitions.\<close>

lemma interval_at_active:
  assumes "interval_at tzdb local s t = Some (Some a, ts)"
  shows "a_schedule a = s \<and> a_start a \<le> t \<and> t < a_end a \<and> a_start a \<in> set ts \<and> a_end a \<in> set ts"
proof (cases "sch_type s = one_time")
  case True
  then show ?thesis using assms
    by (auto simp: interval_at_def as_active_def covers_def split: option.splits if_splits)
next
  case False
  then obtain w ws where "find (covers t) (rev ws) = Some w" "a = as_active s w"
    "ts = concat (map (\<lambda>w. [fst w, snd w]) ws)"
    using assms by (auto simp: interval_at_def Let_def split: option.splits if_splits)
  then show ?thesis by (auto simp: find_Some_iff2 covers_def as_active_def in_set_conv_nth
      dest: find_Some_iff [THEN iffD1])
      (metis find_Some_iff length_rev nth_mem set_rev)+
qed

lemma actives_schedule:
  "enabled_ok tzdb local t ss \<Longrightarrow> a \<in> set (actives tzdb local t ss) \<Longrightarrow>
     a_schedule a \<in> set ss \<and> sch_enabled (a_schedule a) \<and> a_start a \<le> t \<and> t < a_end a
       \<and> a_start a \<in> set (transitions tzdb local t ss) \<and> a_end a \<in> set (transitions tzdb local t ss)"
proof -
  assume ok: "enabled_ok tzdb local t ss" and "a \<in> set (actives tzdb local t ss)"
  then obtain s ts where s: "s \<in> set ss" "sch_enabled s"
    and i: "interval_at tzdb local s t = Some (Some a, ts)"
    by (auto simp: in_actives_iff [OF ok] active_at_def)
  have "set ts \<subseteq> set (transitions tzdb local t ss)" using s i by (force simp: transitions_def)
  then show ?thesis using interval_at_active [OF i] s by auto
qed

lemma actives_distinct:
  assumes ok: "enabled_ok tzdb local t ss" and d: "distinct (map sch_id ss)"
  shows "distinct (map precedence_key (actives tzdb local t ss))"
proof -
  define f where "f = (\<lambda>s. fst (the (interval_at tzdb local s t)))"
  have id: "f s = Some a \<Longrightarrow> a_schedule a = s" if "s \<in> set ss" "sch_enabled s" for s a
    using that ok interval_at_active [of tzdb local s t a]
    by (fastforce simp: f_def enabled_ok_def)
  have D: "distinct (map (\<lambda>a. sch_id (a_schedule a)) (List.map_filter f xs))"
    if "distinct (map sch_id xs)" "\<And>s a. s \<in> set xs \<Longrightarrow> f s = Some a \<Longrightarrow> a_schedule a = s" for xs
    using that
  proof (induction xs)
    case Nil
    then show ?case by (simp add: List.map_filter_simps)
  next
    case (Cons x xs)
    have ids: "sch_id (a_schedule a) \<in> sch_id ` set xs" if "a \<in> set (List.map_filter f xs)" for a
      using that Cons.prems(2) by (fastforce simp: set_map_filter_fst)
    have IH: "distinct (map (\<lambda>a. sch_id (a_schedule a)) (List.map_filter f xs))"
      by (rule Cons.IH) (use Cons.prems in auto)
    show ?case
    proof (cases "f x")
      case None
      then show ?thesis using IH by (simp add: List.map_filter_simps)
    next
      case (Some a)
      then have "a_schedule a = x" using Cons.prems(2) by simp
      then show ?thesis using IH ids Cons.prems(1) Some
        by (auto simp: List.map_filter_simps)
    qed
  qed
  have "distinct (map (\<lambda>a. sch_id (a_schedule a)) (actives tzdb local t ss))"
    unfolding actives_def f_def [symmetric]
    by (rule D) (use d id in \<open>auto simp: distinct_map_filter\<close>)
  then show ?thesis
    by (auto simp: distinct_map inj_on_def dest: precedence_key_inj)
qed

section \<open>Clocks and occurrences in a zone with a fixed offset\<close>

lemma parse_hhmm_range:
  "parse_hhmm v = Some (h, mi) \<Longrightarrow> 0 \<le> h \<and> h < 24 \<and> 0 \<le> mi \<and> mi < 60"
  by (auto simp: parse_hhmm_def split: option.splits if_splits)

lemma clock_or_zero_range:
  "clock_or_zero v = (h, mi) \<Longrightarrow> 0 \<le> h \<and> h < 24 \<and> 0 \<le> mi \<and> mi < 60"
  using parse_hhmm_range [of v h mi]
  by (auto simp: clock_or_zero_def parse_clock_def split: option.splits sum.splits)

lemma shows_clock_fixed:
  assumes "0 \<le> h" "h < 24" "0 \<le> mi" "mi < 60"
  shows "shows_clock loc (date_in loc d) h mi x \<longleftrightarrow>
    local_seconds loc x div 60 = local_day loc d * 1440 + h * 60 + mi"
  using minute_split [OF assms, of "local_seconds loc x" "local_day loc d"]
  unfolding shows_clock_def date_in_eq_iff hour_in_def minute_in_def
  by (simp add: local_day_def)

lemma filter_unique:
  "distinct xs \<Longrightarrow> a \<in> set xs \<Longrightarrow> \<forall>x\<in>set xs. P x \<longleftrightarrow> x = a \<Longrightarrow> filter P xs = [a]"
proof (induction xs)
  case Nil
  then show ?case by simp
next
  case (Cons x xs)
  show ?case
  proof (cases "x = a")
    case True
    then have "filter P xs = []" using Cons.prems by (auto simp: filter_empty_conv)
    then show ?thesis using Cons.prems True by simp
  next
    case False
    then show ?thesis using Cons by auto
  qed
qed

definition clock_minutes :: "string \<Rightarrow> int" where
  "clock_minutes v = (case clock_or_zero v of (h, mi) \<Rightarrow> h * 60 + mi)"

lemma clock_minutes_range: "0 \<le> clock_minutes v" "clock_minutes v < 1440"
  using clock_or_zero_range [of v] by (auto simp: clock_minutes_def split: prod.splits)

text \<open>The instant at which a zone with offset \<open>off\<close> shows a minute of a day.\<close>

definition wall_instant :: "int \<Rightarrow> int \<Rightarrow> int \<Rightarrow> instant" where
  "wall_instant off day mins = (day * 86400 + mins * 60 - off) * second"

lemma resolve_local_fixed:
  assumes "fixed_offset loc off"
  shows "resolve_local loc date clock b = wall_instant off (local_day loc date) (clock_minutes clock)"
proof -
  obtain h mi where hm: "clock_or_zero clock = (h, mi)" by (cases "clock_or_zero clock")
  note r = clock_or_zero_range [OF hm]
  obtain o' where o': "off = 60 * o'" using assms by (auto simp: fixed_offset_def)
  then have o'_range: "-840 \<le> o'" "o' \<le> 840" using assms by (auto simp: fixed_offset_def)
  obtain y m d where ymd: "date_in loc date = (y, m, d)" by (cases "date_in loc date")
  define D where "D = local_day loc date"
  define wanted where "wanted = go_date utc (date_in loc date) h mi"
  have w: "wanted = (D * 86400 + h * 3600 + mi * 60) * second"
    using days_of_date_in [OF ymd]
    by (simp add: wanted_def ymd go_date_def go_time_def utc_def Let_def D_def)
  define pick where "pick = (\<lambda>i. wanted + i * minute)"
  have "local_seconds loc (pick i) div 60 = D * 1440 + h * 60 + mi \<longleftrightarrow> i = - o'" for i
  proof -
    have p: "pick i = (D * 86400 + h * 3600 + mi * 60 + i * 60) * second"
      by (simp add: pick_def w minute_def algebra_simps)
    have "local_seconds loc (pick i) = 60 * (D * 1440 + h * 60 + mi + i + o')"
      unfolding p local_seconds_def unix_second using assms o'
      by (simp add: fixed_offset_def)
    then have "local_seconds loc (pick i) div 60 = D * 1440 + h * 60 + mi + i + o'" by simp
    then show ?thesis by auto
  qed
  then have sc: "shows_clock loc (date_in loc date) h mi (pick i) \<longleftrightarrow> i = - o'" for i
    using r by (simp add: shows_clock_fixed D_def)
  define R where "R = [-840..840::int]"
  have R: "distinct R" "set R = {-840..840}"
    unfolding R_def by (rule distinct_upto, rule set_upto)
  have "filter (shows_clock loc (date_in loc date) h mi \<circ> pick) R = [- o']"
    by (rule filter_unique) (use R o'_range sc in \<open>auto simp: o_def\<close>)
  then have f: "filter (shows_clock loc (date_in loc date) h mi)
      (map (\<lambda>delta. wanted + delta) scan_offsets) = [pick (- o')]"
    unfolding scan_offsets_def R_def [symmetric] by (simp add: comp_def filter_map pick_def)
  have "pick (- o') = wall_instant off D (clock_minutes clock)"
    by (simp add: pick_def w wall_instant_def clock_minutes_def hm o' minute_def algebra_simps)
  then show ?thesis
    unfolding resolve_local_def Let_def hm prod.case wanted_def [symmetric] f D_def by simp
qed

text \<open>
  The days of a recurring schedule, and its window on a day, in a zone with offset \<open>off\<close>.
\<close>

definition occurs_day :: "schedule \<Rightarrow> int \<Rightarrow> bool" where
  "occurs_day s D \<longleftrightarrow> weekday_of_day D \<in> set (sch_days s)
     \<and> not_before_bound (sch_start_date s) (format_date (civil_from_days D))
     \<and> not_after_bound (sch_end_date s) (format_date (civil_from_days D))"

definition day_window :: "int \<Rightarrow> string \<Rightarrow> string \<Rightarrow> int \<Rightarrow> instant \<times> instant" where
  "day_window off ds de D =
     (wall_instant off D (clock_minutes ds),
      wall_instant off (if de \<le> ds then D + 1 else D) (clock_minutes de))"

lemma occurs_on_day: "occurs_on loc s t \<longleftrightarrow> occurs_day s (local_day loc t)"
  by (simp add: occurs_on_def occurs_day_def contains_day_def date_allowed_def day_string_def
      weekday_in_def date_in_def)

lemma occurrence_fixed:
  "fixed_offset loc off \<Longrightarrow> occurrence loc ds de day = day_window off ds de (local_day loc day)"
  using local_day_add_date_fixed [of loc off day 1]
  by (simp add: occurrence_def day_window_def resolve_local_fixed) (simp add: fixed_offset_def)

lemma local_days_fixed:
  assumes "fixed_offset loc off"
  shows "map (local_day loc) (filter (occurs_on loc s) (map (add_date loc t) ks)) =
    filter (occurs_day s) (map (\<lambda>k. local_day loc t + k) ks)"
proof -
  have "loc_offset loc = (\<lambda>_. off)" using assms by (simp add: fixed_offset_def)
  then show ?thesis
    by (induction ks) (auto simp: occurs_on_day local_day_add_date_fixed)
qed

definition recurring_in :: "tz_database \<Rightarrow> location \<Rightarrow> schedule \<Rightarrow> location \<Rightarrow> string \<Rightarrow> string \<Rightarrow> bool" where
  "recurring_in tzdb local s loc ds de \<longleftrightarrow> sch_type s \<noteq> one_time
     \<and> load_location tzdb local (sch_timezone s) = Some loc
     \<and> sch_daily_start s = Some ds \<and> sch_daily_end s = Some de"

lemma interval_recurring_fixed:
  assumes "recurring_in tzdb local s loc ds de" and fx: "fixed_offset loc off"
  shows "interval_at tzdb local s t =
    (let ws = map (day_window off ds de) (filter (occurs_day s) (map (\<lambda>k. local_day loc t + k) [-1..7]))
     in Some (map_option (as_active s) (find (covers t) (rev ws)), concat (map (\<lambda>w. [fst w, snd w]) ws)))"
proof -
  define ks where "ks = [-1..7::int]"
  have off: "loc_offset loc = (\<lambda>_. off)" using fx by (simp add: fixed_offset_def)
  have oc: "occurrence loc ds de = day_window off ds de \<circ> local_day loc"
    by (rule ext) (simp add: occurrence_fixed [OF fx])
  have r: "map (occurrence loc ds de) (recurring_days loc s t) =
      map (day_window off ds de) (filter (occurs_day s) (map (\<lambda>k. local_day loc t + k) ks))"
    unfolding oc map_map [symmetric] recurring_days_def ks_def [symmetric]
      local_days_fixed [OF fx] local_day_noon_fixed [OF off] by (rule refl)
  show ?thesis
    using assms(1) unfolding r [symmetric] ks_def [symmetric]
    by (simp add: interval_at_def recurring_in_def Let_def)
qed

lemma second_le_iff: "k * second \<le> t \<longleftrightarrow> k \<le> unix t" "t < k * second \<longleftrightarrow> unix t < k"
  by (simp_all add: unix_def second_def int_le_div_iff int_div_less_iff)

text \<open>The two clock strings compare as their times do, which holds for zero-padded clocks.\<close>

definition clocks_ordered :: "string \<Rightarrow> string \<Rightarrow> bool" where
  "clocks_ordered ds de \<longleftrightarrow> (de \<le> ds \<longleftrightarrow> clock_minutes de \<le> clock_minutes ds)"

lemma covers_window_iff:
  assumes "fixed_offset loc off"
  shows "covers t (day_window off ds de D) \<longleftrightarrow>
    D * 86400 + clock_minutes ds * 60 \<le> local_seconds loc t \<and>
    local_seconds loc t < (if de \<le> ds then D + 1 else D) * 86400 + clock_minutes de * 60"
  using assms
  by (auto simp: covers_def day_window_def wall_instant_def second_le_iff local_seconds_def fixed_offset_def)

lemma covers_window_days:
  assumes "fixed_offset loc off" "covers t (day_window off ds de D)"
  shows "D = local_day loc t \<or> D = local_day loc t - 1"
proof -
  have "D * 86400 \<le> local_seconds loc t" "local_seconds loc t < (D + 2) * 86400"
    using assms(2) clock_minutes_range [of ds] clock_minutes_range [of de]
    unfolding covers_window_iff [OF assms(1)] by (auto split: if_splits)
  then have "D \<le> local_day loc t" "local_day loc t < D + 2"
    unfolding local_day_def by (simp_all add: int_le_div_iff int_div_less_iff)
  then show ?thesis by linarith
qed

lemma windows_disjoint:
  assumes "fixed_offset loc off" "clocks_ordered ds de"
    and "covers t (day_window off ds de D)" "covers t (day_window off ds de D')"
  shows "D = D'"
proof (rule ccontr)
  assume "D \<noteq> D'"
  then have "D + 1 \<le> D' \<or> D' + 1 \<le> D" by linarith
  then show False
    using assms(2-) clock_minutes_range [of ds] clock_minutes_range [of de]
    unfolding covers_window_iff [OF assms(1)] clocks_ordered_def
    by (cases "de \<le> ds") auto
qed

section \<open>Zero-padded clocks\<close>

lemma is_digit_cases:
  assumes "is_digit c"
  obtains n where "n < 10" "c = digit_char n" "digit_val c = int n"
proof -
  have "\<exists>n<10. c = digit_char n"
  proof -
    from assms obtain i where "i < length ''0123456789''" "c = ''0123456789'' ! i"
      unfolding is_digit_def in_set_conv_nth by metis
    then show ?thesis by (intro exI [of _ i]) (simp add: digit_char_def)
  qed
  then show thesis using that digit_char_props(2) by auto
qed

lemma list_of_length_5:
  assumes "length v = 5" obtains a b c d e where "v = [a, b, c, d, e]"
  using assms by (auto simp: length_Suc_conv numeral_eq_Suc)

lemma parse_hhmm_padded:
  assumes "length v = 5" "parse_hhmm v = Some (h, mi)"
  obtains H M where "H < 100" "M < 100" "v = digits_fixed 2 H @ '':'' @ digits_fixed 2 M"
    "h = int H" "mi = int M"
proof -
  obtain a b c d e where v: "v = [a, b, c, d, e]" using list_of_length_5 [OF assms(1)] .
  have dg: "is_digit a" "is_digit b" "c = CHR '':''" "is_digit d" "is_digit e"
    using assms(2) unfolding v parse_hhmm_def
    by (cases "is_digit a"; cases "is_digit b"; cases "is_digit d"; cases "is_digit e";
        simp split: if_split_asm)+
  obtain A where A: "A < 10" "a = digit_char A" "digit_val a = int A" by (rule is_digit_cases [OF dg(1)])
  obtain B where B: "B < 10" "b = digit_char B" "digit_val b = int B" by (rule is_digit_cases [OF dg(2)])
  obtain D where D: "D < 10" "d = digit_char D" "digit_val d = int D" by (rule is_digit_cases [OF dg(4)])
  obtain E where E: "E < 10" "e = digit_char E" "digit_val e = int E" by (rule is_digit_cases [OF dg(5)])
  have "h = int (10 * A + B)" "mi = int (10 * D + E)"
    using assms(2) dg A(3) B(3) D(3) E(3) unfolding v parse_hhmm_def
    by (simp_all split: if_splits)
  moreover have "v = digits_fixed 2 (10 * A + B) @ '':'' @ digits_fixed 2 (10 * D + E)"
    using A B D E dg by (simp add: v digits_fixed_2)
  ultimately show thesis using that [of "10 * A + B" "10 * D + E"] A B D E by simp
qed

lemma padded_clocks_ordered:
  assumes "length ds = 5" "length de = 5" "parse_hhmm ds \<noteq> None" "parse_hhmm de \<noteq> None"
  shows "clocks_ordered ds de"
proof -
  obtain h mi h' mi' where p: "parse_hhmm ds = Some (h, mi)" "parse_hhmm de = Some (h', mi')"
    using assms(3,4) by auto
  obtain H M where 1: "H < 100" "M < 100" "ds = digits_fixed 2 H @ '':'' @ digits_fixed 2 M"
    "h = int H" "mi = int M" by (rule parse_hhmm_padded [OF assms(1) p(1)])
  obtain H' M' where 2: "H' < 100" "M' < 100" "de = digits_fixed 2 H' @ '':'' @ digits_fixed 2 M'"
    "h' = int H'" "mi' = int M'" by (rule parse_hhmm_padded [OF assms(2) p(2)])
  have m: "clock_minutes ds = int (H * 60 + M)" "clock_minutes de = int (H' * 60 + M')"
    using p 1 2 by (simp_all add: clock_minutes_def clock_or_zero_def parse_clock_def)
  have lim: "M < 60" "M' < 60" using parse_hhmm_range [OF p(1)] parse_hhmm_range [OF p(2)] 1 2 by auto
  have len: "length (digits_fixed 2 a) = length (digits_fixed 2 b)" for a b by simp
  have "ds < de \<longleftrightarrow> H < H' \<or> H = H' \<and> M < M'"
    unfolding 1 2 append_less_iff [OF len] append_less_iff [of "'':''" "'':''", OF refl]
    using 1 2 by (simp add: digits_fixed_less_iff digits_fixed_inj)
  also have "\<dots> \<longleftrightarrow> H * 60 + M < H' * 60 + M'" using lim by auto
  finally show ?thesis unfolding clocks_ordered_def m by (auto simp: not_less [symmetric])
qed

section \<open>Activity in a zone with a fixed offset\<close>

lemma find_only:
  assumes "x \<in> set xs" "P x" "\<And>y. y \<in> set xs \<Longrightarrow> P y \<Longrightarrow> y = x"
  shows "find P xs = Some x"
proof (cases "find P xs")
  case None
  then show ?thesis using assms(1,2) by (simp add: find_None_iff)
next
  case (Some y)
  then show ?thesis using assms(3) find_mem [OF Some] by simp
qed

definition padded_recurring :: "tz_database \<Rightarrow> location \<Rightarrow> schedule \<Rightarrow> location \<Rightarrow> string \<Rightarrow> string \<Rightarrow> bool" where
  "padded_recurring tzdb local s loc ds de \<longleftrightarrow> recurring_in tzdb local s loc ds de
     \<and> length ds = 5 \<and> length de = 5 \<and> parse_hhmm ds \<noteq> None \<and> parse_hhmm de \<noteq> None"

lemma active_recurring_iff:
  assumes "padded_recurring tzdb local s loc ds de" and fx: "fixed_offset loc off"
  shows "active_at tzdb local s t = Some (Some a) \<longleftrightarrow>
    (\<exists>D. occurs_day s D \<and> covers t (day_window off ds de D) \<and> a = as_active s (day_window off ds de D))"
proof -
  let ?win = "day_window off ds de"
  have r: "recurring_in tzdb local s loc ds de" and co: "clocks_ordered ds de"
    using assms(1) by (simp_all add: padded_recurring_def padded_clocks_ordered)
  define ks where "ks = [-1..7::int]"
  have ks: "set ks = {-1..7}" unfolding ks_def by (rule set_upto)
  define ws where "ws = map ?win (filter (occurs_day s) (map (\<lambda>k. local_day loc t + k) ks))"
  have ws: "set ws = {?win D |D. occurs_day s D \<and> local_day loc t - 1 \<le> D \<and> D \<le> local_day loc t + 7}"
  proof -
    have "set (map (\<lambda>k. local_day loc t + k) ks) = {local_day loc t - 1..local_day loc t + 7}"
      by (simp add: ks image_add_atLeastAtMost [of "local_day loc t"] add.commute)
    then show ?thesis unfolding ws_def set_map set_filter by auto
  qed
  have act: "active_at tzdb local s t = Some (map_option (as_active s) (find (covers t) (rev ws)))"
    unfolding active_at_def interval_recurring_fixed [OF r fx] Let_def
    by (simp only: ws_def ks_def option.map fst_conv)
  show ?thesis
  proof
    assume "active_at tzdb local s t = Some (Some a)"
    then obtain w where w: "find (covers t) (rev ws) = Some w" "a = as_active s w"
      by (auto simp: act)
    then have "w \<in> set ws" "covers t w" using find_mem [OF w(1)] by simp_all
    then show "\<exists>D. occurs_day s D \<and> covers t (?win D) \<and> a = as_active s (?win D)" using w by (auto simp: ws)
  next
    assume "\<exists>D. occurs_day s D \<and> covers t (?win D) \<and> a = as_active s (?win D)"
    then obtain D where D: "occurs_day s D" "covers t (?win D)" "a = as_active s (?win D)" by blast
    have "find (covers t) (rev ws) = Some (?win D)"
    proof (rule find_only)
      show "?win D \<in> set (rev ws)" using D covers_window_days [OF fx D(2)] by (auto simp: ws)
      show "covers t (?win D)" by (rule D)
      show "y = ?win D" if "y \<in> set (rev ws)" "covers t y" for y
        using that windows_disjoint [OF fx co] D(2) by (auto simp: ws)
    qed
    then show "active_at tzdb local s t = Some (Some a)" using D by (simp add: act)
  qed
qed

lemma active_at_defined:
  assumes "padded_recurring tzdb local s loc ds de" and fx: "fixed_offset loc off"
  shows "active_at tzdb local s t \<noteq> None"
  using assms interval_recurring_fixed [OF _ fx, of tzdb local s ds de t]
  by (simp add: padded_recurring_def active_at_def Let_def)

text \<open>Its transitions are the ends of its windows from yesterday to a week ahead.\<close>

lemma transitions_recurring:
  assumes "recurring_in tzdb local s loc ds de" and fx: "fixed_offset loc off"
    and "occurs_day s D" "local_day loc t - 1 \<le> D" "D \<le> local_day loc t + 7"
  shows "{fst (day_window off ds de D), snd (day_window off ds de D)}
    \<subseteq> set (snd (the (interval_at tzdb local s t)))"
proof -
  define ks where "ks = [-1..7::int]"
  have ks: "set ks = {-1..7}" unfolding ks_def by (rule set_upto)
  have "D \<in> set (map (\<lambda>k. local_day loc t + k) ks)"
    using assms(4,5) unfolding set_map ks by (intro image_eqI [where x = "D - local_day loc t"]) auto
  then have "day_window off ds de D
      \<in> set (map (day_window off ds de) (filter (occurs_day s) (map (\<lambda>k. local_day loc t + k) ks)))"
    using assms(3) by simp
  then show ?thesis
    unfolding interval_recurring_fixed [OF assms(1) fx] ks_def [symmetric] Let_def
    by (simp only: option.sel snd_conv) force
qed

end
