(* ===== verification/Preflight.thy ===== *)
theory Preflight
  imports Scheduling
begin

text \<open>
  The pure core of the schedule preflight, \<open>evaluatePreflight\<close> of
  \<open>apps/server/internal/scheduling/preflight.go\<close>: for every screen that a draft would
  reach, whether the draft wins at its next occurrence. The database reads around it are not
  modelled. \<open>None\<close> is the panic of \<open>ActiveAt\<close> on an incomplete competitor.
\<close>

section \<open>Results\<close>

definition preflight_screen_detail_limit :: nat where "preflight_screen_detail_limit = 50"
definition preflight_competitor_limit :: nat where "preflight_competitor_limit = 25"

datatype issue_code = IssueDisplayControlUnsupported | IssueNoUpcomingRun
datatype issue_severity = SeverityBlocking | SeverityWarning

record preflight_issue =
  pi_code :: issue_code
  pi_severity :: issue_severity
  pi_screen_count :: nat

datatype preflight_outcome = OutcomeSuperseded | OutcomeUnsupported

record preflight_screen_entry =
  pe_screen_id :: uuid
  pe_name :: string
  pe_outcome :: preflight_outcome
  pe_reason :: "selection_reason option"
  pe_winner_id :: "uuid option"
  pe_winner_name :: string

record preflight_competitor_entry =
  pc_schedule_id :: uuid
  pc_name :: string
  pc_priority :: int
  pc_presentation :: string
  pc_affected :: nat
  pc_outranks :: nat
  pc_reason :: "selection_reason option"

record preflight_result =
  pr_draft_enabled :: bool
  pr_checked_at :: "instant option"
  pr_running :: bool
  pr_target_count :: nat
  pr_winning :: nat
  pr_losing :: nat
  pr_unsupported :: nat
  pr_competitors :: "preflight_competitor_entry list"
  pr_competitors_truncated :: bool
  pr_screens :: "preflight_screen_entry list"
  pr_screens_truncated :: bool
  pr_issues :: "preflight_issue list"

section \<open>Inputs\<close>

record preflight_screen =
  ps_id :: uuid
  ps_name :: string
  ps_platform :: string
  ps_direct :: bool

record preflight_competitor =
  co_schedule :: schedule
  co_name :: string
  co_presentation :: string
  co_screens :: "(uuid \<times> bool) list"

section \<open>Evaluation\<close>

definition specificity_of :: "bool \<Rightarrow> int" where
  "specificity_of direct = (if direct then 1 else 0)"

definition with_specificity :: "active \<Rightarrow> bool \<Rightarrow> active" where
  "with_specificity a direct =
     a\<lparr>a_schedule := (a_schedule a)\<lparr>sch_specificity := specificity_of direct\<rparr>\<rparr>"

text \<open>A reason is the empty string until it is set, hence the options.\<close>

record tally =
  t_affected :: nat
  t_outranks :: nat
  t_outranks_reason :: "selection_reason option"
  t_wins_reason :: "selection_reason option"

definition empty_tally :: tally where
  "empty_tally = \<lparr>t_affected = 0, t_outranks = 0, t_outranks_reason = None, t_wins_reason = None\<rparr>"

definition append_screen :: "preflight_screen_entry \<Rightarrow> preflight_result \<Rightarrow> preflight_result" where
  "append_screen e r =
     (if preflight_screen_detail_limit \<le> length (pr_screens r) then r\<lparr>pr_screens_truncated := True\<rparr>
      else r\<lparr>pr_screens := pr_screens r @ [e]\<rparr>)"

type_synonym running = "preflight_competitor \<times> active"

definition unsupported_ids :: "schedule \<Rightarrow> preflight_screen list \<Rightarrow> uuid list" where
  "unsupported_ids draft screens =
     (if sch_display_action draft = None then []
      else remdups (map ps_id (filter (\<lambda>s. ps_platform s \<noteq> ''linux'') screens)))"

text \<open>The competitors that are running, in order; \<open>ActiveAt\<close> may panic.\<close>

definition running_competitors ::
    "tz_database \<Rightarrow> location \<Rightarrow> instant \<Rightarrow> preflight_competitor list \<Rightarrow> running list option" where
  "running_competitors tzdb local t cs =
     map_option (List.map_filter (\<lambda>(c, a). map_option (Pair c) a))
       (those (map (\<lambda>c. map_option (Pair c) (active_at tzdb local (co_schedule c) t)) cs))"

definition present_on :: "uuid \<Rightarrow> running list \<Rightarrow> running list" where
  "present_on screen runs =
     List.map_filter (\<lambda>(c, a). map_option (\<lambda>direct. (c, with_specificity a direct)) (map_of (co_screens c) screen)) runs"

definition tally_run :: "active \<Rightarrow> running \<Rightarrow> (uuid \<Rightarrow> tally) \<Rightarrow> uuid \<Rightarrow> tally" where
  "tally_run mine run ts =
     (let i = sch_id (co_schedule (fst run)); t = (ts i)\<lparr>t_affected := Suc (t_affected (ts i))\<rparr>
      in ts(i := (if before (snd run) mine
                  then t\<lparr>t_outranks := Suc (t_outranks t),
                         t_outranks_reason := Some (snd (precedes (snd run) mine))\<rparr>
                  else t\<lparr>t_wins_reason := Some (snd (precedes mine (snd run)))\<rparr>)))"

definition inspect_screen ::
    "active \<Rightarrow> uuid list \<Rightarrow> running list \<Rightarrow> preflight_screen \<Rightarrow>
     preflight_result \<times> (uuid \<Rightarrow> tally) \<Rightarrow> preflight_result \<times> (uuid \<Rightarrow> tally)" where
  "inspect_screen nxt unsupported runs screen st =
     (let (r, ts) = st in
      if ps_id screen \<in> set unsupported then
        (append_screen \<lparr>pe_screen_id = ps_id screen, pe_name = ps_name screen, pe_outcome = OutcomeUnsupported,
           pe_reason = None, pe_winner_id = None, pe_winner_name = []\<rparr> r, ts)
      else
        (let mine = with_specificity nxt (ps_direct screen);
             present = present_on (ps_id screen) runs;
             ts' = fold (tally_run mine) present ts;
             winner = hd (rank (mine # map snd present));
             winner_id = sch_id (a_schedule winner)
         in if winner_id = sch_id (a_schedule mine) then (r\<lparr>pr_winning := Suc (pr_winning r)\<rparr>, ts')
            else (append_screen
                   \<lparr>pe_screen_id = ps_id screen, pe_name = ps_name screen, pe_outcome = OutcomeSuperseded,
                    pe_reason = Some (snd (precedes winner mine)), pe_winner_id = Some winner_id,
                    pe_winner_name = (case find (\<lambda>(c, _). sch_id (co_schedule c) = winner_id) present of
                       Some (c, _) \<Rightarrow> co_name c | None \<Rightarrow> [])\<rparr>
                   (r\<lparr>pr_losing := Suc (pr_losing r)\<rparr>), ts')))"

definition competitor_entry :: "(uuid \<Rightarrow> tally) \<Rightarrow> running \<Rightarrow> preflight_competitor_entry option" where
  "competitor_entry ts run =
     (let c = fst run; t = ts (sch_id (co_schedule c)) in
      if t_affected t = 0 then None
      else Some \<lparr>pc_schedule_id = sch_id (co_schedule c), pc_name = co_name c,
                 pc_priority = sch_priority (co_schedule c), pc_presentation = co_presentation c,
                 pc_affected = t_affected t, pc_outranks = t_outranks t,
                 pc_reason = (if t_affected t \<le> t_outranks t * 2 then t_outranks_reason t
                              else t_wins_reason t)\<rparr>)"

definition competitor_before :: "preflight_competitor_entry \<Rightarrow> preflight_competitor_entry \<Rightarrow> bool" where
  "competitor_before a b =
     (if pc_affected a \<noteq> pc_affected b then pc_affected b < pc_affected a
      else uuid_string (pc_schedule_id a) < uuid_string (pc_schedule_id b))"

definition evaluate_preflight ::
    "tz_database \<Rightarrow> location \<Rightarrow> instant \<Rightarrow> schedule \<Rightarrow> bool \<Rightarrow> preflight_screen list \<Rightarrow>
     preflight_competitor list \<Rightarrow> preflight_result option" where
  "evaluate_preflight tzdb local now draft draft_enabled screens competitors =
     (let unsupported = unsupported_ids draft screens;
          issues = (if unsupported = [] then []
                    else [\<lparr>pi_code = IssueDisplayControlUnsupported, pi_severity = SeverityBlocking,
                           pi_screen_count = length unsupported\<rparr>]);
          r = \<lparr>pr_draft_enabled = draft_enabled, pr_checked_at = None, pr_running = False,
               pr_target_count = length screens, pr_winning = 0, pr_losing = 0,
               pr_unsupported = length unsupported, pr_competitors = [],
               pr_competitors_truncated = False, pr_screens = [], pr_screens_truncated = False,
               pr_issues = issues\<rparr>
      in case next_interval tzdb local draft now of
           None \<Rightarrow> Some (r\<lparr>pr_issues := issues @ [\<lparr>pi_code = IssueNoUpcomingRun, pi_severity = SeverityWarning,
                      pi_screen_count = 0\<rparr>]\<rparr>)
         | Some nxt \<Rightarrow>
             (let running = \<not> now < a_start nxt;
                  t = (if running then now else a_start nxt)
              in case running_competitors tzdb local t competitors of
                   None \<Rightarrow> None
                 | Some runs \<Rightarrow>
                     (let (r', ts) = fold (inspect_screen nxt unsupported runs) screens
                            (r\<lparr>pr_running := running, pr_checked_at := Some t\<rparr>, \<lambda>_. empty_tally);
                          all = sort_by competitor_before (List.map_filter (competitor_entry ts) runs)
                      in Some (r'\<lparr>pr_competitors := take preflight_competitor_limit all,
                                   pr_competitors_truncated := (preflight_competitor_limit < length all)\<rparr>))))"

section \<open>Lemmas\<close>

lemma as_active_schedule [simp]: "a_schedule (as_active s w) = s"
  by (simp add: as_active_def)

lemma next_interval_schedule: "next_interval tzdb local s now = Some a \<Longrightarrow> a_schedule a = s"
  by (auto simp: next_interval_def Let_def split: option.splits if_splits)

lemma id_with_specificity [simp]: "sch_id (a_schedule (with_specificity a d)) = sch_id (a_schedule a)"
  by (simp add: with_specificity_def)

lemma running_competitor:
  assumes "running_competitors tzdb local t cs = Some runs" "(c, a) \<in> set runs"
  shows "c \<in> set cs \<and> a_schedule a = co_schedule c"
proof -
  have "active_at tzdb local (co_schedule c) t = Some (Some a) \<and> c \<in> set cs"
    using assms by (fastforce simp: running_competitors_def those_map set_map_filter_fst split: if_splits)
  then show ?thesis by (auto simp: active_at_def dest: interval_at_active)
qed

lemma present_on_competitor:
  "(c, a) \<in> set (present_on i runs) \<Longrightarrow> \<exists>a'. (c, a') \<in> set runs \<and> sch_id (a_schedule a) = sch_id (a_schedule a')"
  by (auto simp: present_on_def set_map_filter_fst)

text \<open>
  The draft wins on a screen where no running competitor that reaches it comes before the draft.
\<close>

definition draft_wins :: "active \<Rightarrow> running list \<Rightarrow> preflight_screen \<Rightarrow> bool" where
  "draft_wins nxt runs screen \<longleftrightarrow>
     (\<forall>run\<in>set (present_on (ps_id screen) runs). \<not> before (snd run) (with_specificity nxt (ps_direct screen)))"

lemma winner_is_draft:
  assumes "\<forall>run\<in>set (present_on (ps_id screen) runs). sch_id (a_schedule (snd run)) \<noteq> sch_id (a_schedule nxt)"
  shows "sch_id (a_schedule (hd (rank (with_specificity nxt (ps_direct screen)
      # map snd (present_on (ps_id screen) runs))))) = sch_id (a_schedule nxt)
    \<longleftrightarrow> draft_wins nxt runs screen"
proof -
  define mine where "mine = with_specificity nxt (ps_direct screen)"
  define cs where "cs = mine # map snd (present_on (ps_id screen) runs)"
  define w where "w = hd (rank cs)"
  have id: "sch_id (a_schedule mine) = sch_id (a_schedule nxt)" by (simp add: mine_def)
  have w: "w \<in> set cs" "\<forall>y\<in>set cs. \<not> before y w"
    unfolding w_def rank_def
    by (rule precedence.sort_head_mem, simp add: cs_def)
      (rule ballI, rule precedence.sort_head_least, auto simp: cs_def)
  have weq: "w = mine \<longleftrightarrow> sch_id (a_schedule w) = sch_id (a_schedule nxt)"
    using w(1) assms id by (auto simp: cs_def)
  have "w = mine \<longleftrightarrow> (\<forall>y\<in>set cs. \<not> before y mine)"
  proof
    show "w = mine \<Longrightarrow> \<forall>y\<in>set cs. \<not> before y mine" using w(2) by simp
    assume "\<forall>y\<in>set cs. \<not> before y mine"
    then have "\<not> before w mine" "\<not> before mine w" using w by (auto simp: cs_def)
    then have "precedence_key w = precedence_key mine" by (simp add: before_iff)
    then show "w = mine" using precedence_key_inj weq id by metis
  qed
  moreover have "(\<forall>y\<in>set cs. \<not> before y mine) \<longleftrightarrow> draft_wins nxt runs screen"
    by (simp add: draft_wins_def cs_def mine_def before_iff)
  ultimately have "sch_id (a_schedule w) = sch_id (a_schedule nxt) \<longleftrightarrow> draft_wins nxt runs screen"
    using weq by blast
  then show ?thesis by (simp only: w_def cs_def mine_def)
qed

text \<open>What one screen adds to the counts, and to the bounded list.\<close>

definition listed :: "preflight_result \<Rightarrow> nat \<Rightarrow> bool" where
  "listed r n \<longleftrightarrow> length (pr_screens r) = min preflight_screen_detail_limit n
     \<and> (pr_screens_truncated r \<longleftrightarrow> preflight_screen_detail_limit < n)"

lemma listed_append: "listed r n \<Longrightarrow> listed (append_screen e r) (Suc n)"
  by (auto simp: listed_def append_screen_def)

lemma append_screen_counts [simp]:
  "pr_winning (append_screen e r) = pr_winning r" "pr_losing (append_screen e r) = pr_losing r"
  "pr_unsupported (append_screen e r) = pr_unsupported r"
  "pr_target_count (append_screen e r) = pr_target_count r"
  "pr_checked_at (append_screen e r) = pr_checked_at r"
  by (simp_all add: append_screen_def)

lemma listed_counts [simp]:
  "listed (r\<lparr>pr_winning := w\<rparr>) n = listed r n" "listed (r\<lparr>pr_losing := l\<rparr>) n = listed r n"
  by (simp_all add: listed_def)

definition inspected ::
    "preflight_result \<Rightarrow> active \<Rightarrow> uuid list \<Rightarrow> running list \<Rightarrow> preflight_screen list \<Rightarrow> bool" where
  "inspected r nxt unsupported runs screens \<longleftrightarrow>
     pr_winning r = length (filter (\<lambda>s. ps_id s \<notin> set unsupported \<and> draft_wins nxt runs s) screens) \<and>
     pr_losing r = length (filter (\<lambda>s. ps_id s \<notin> set unsupported \<and> \<not> draft_wins nxt runs s) screens) \<and>
     listed r (length (filter (\<lambda>s. ps_id s \<in> set unsupported \<or> \<not> draft_wins nxt runs s) screens))"

lemma inspect_screen_step:
  assumes "\<forall>run\<in>set runs. sch_id (a_schedule (snd run)) \<noteq> sch_id (a_schedule nxt)"
    and "inspected (fst st) nxt unsupported runs seen"
  shows "inspected (fst (inspect_screen nxt unsupported runs screen st)) nxt unsupported runs (seen @ [screen])"
proof -
  have "\<forall>run\<in>set (present_on (ps_id screen) runs). sch_id (a_schedule (snd run)) \<noteq> sch_id (a_schedule nxt)"
    using assms(1) present_on_competitor by fastforce
  note w = winner_is_draft [OF this]
  show ?thesis
    using assms(2) w
    by (cases st; cases "ps_id screen \<in> set unsupported"; cases "draft_wins nxt runs screen")
      (simp_all add: inspected_def inspect_screen_def Let_def listed_append)
qed

lemma inspect_screens:
  assumes "\<forall>run\<in>set runs. sch_id (a_schedule (snd run)) \<noteq> sch_id (a_schedule nxt)"
    and "inspected (fst st) nxt unsupported runs seen"
  shows "inspected (fst (fold (inspect_screen nxt unsupported runs) screens st)) nxt unsupported runs (seen @ screens)"
  using assms(2)
proof (induction screens arbitrary: st seen)
  case Nil
  then show ?case by simp
next
  case (Cons x xs)
  from Cons.IH [OF inspect_screen_step [OF assms(1) Cons.prems]] show ?case by simp
qed

section \<open>Properties\<close>

text \<open>
  The preflight verdict of a screen is the engine's own: the draft wins exactly on the
  supported screens where no schedule that is running at the checked instant and reaches the screen
  precedes the draft. Wins, losses and unsupported screens add up to the target, the screen list
  holds at most 50 entries and the competitor list at most 25, and the truncation flag of the
  screens is set exactly when entries were left out.
\<close>

theorem preflight_verdicts:
  assumes "evaluate_preflight tzdb local now draft en screens competitors = Some r"
    and "next_interval tzdb local draft now = Some nxt"
    and "\<forall>c\<in>set competitors. sch_id (co_schedule c) \<noteq> sch_id draft"
  shows "\<exists>runs. running_competitors tzdb local (max now (a_start nxt)) competitors = Some runs
    \<and> pr_checked_at r = Some (max now (a_start nxt))
    \<and> inspected r nxt (unsupported_ids draft screens) runs screens
    \<and> pr_winning r + pr_losing r
        + length (filter (\<lambda>s. ps_id s \<in> set (unsupported_ids draft screens)) screens) = pr_target_count r
    \<and> length (pr_screens r) \<le> 50 \<and> length (pr_competitors r) \<le> 25"
proof -
  define u where "u = unsupported_ids draft screens"
  have t: "(if \<not> now < a_start nxt then now else a_start nxt) = max now (a_start nxt)" by simp
  obtain runs where runs: "running_competitors tzdb local (max now (a_start nxt)) competitors = Some runs"
    using assms(1,2) t by (auto simp: evaluate_preflight_def Let_def split: option.splits if_splits)
  define r0 where "r0 = \<lparr>pr_draft_enabled = en, pr_checked_at = Some (max now (a_start nxt)),
      pr_running = \<not> now < a_start nxt, pr_target_count = length screens, pr_winning = 0, pr_losing = 0,
      pr_unsupported = length u, pr_competitors = [], pr_competitors_truncated = False,
      pr_screens = [], pr_screens_truncated = False,
      pr_issues = (if u = [] then [] else [\<lparr>pi_code = IssueDisplayControlUnsupported,
        pi_severity = SeverityBlocking, pi_screen_count = length u\<rparr>])\<rparr>"
  define st where "st = fold (inspect_screen nxt u runs) screens (r0, \<lambda>_. empty_tally)"
  have ids: "\<forall>run\<in>set runs. sch_id (a_schedule (snd run)) \<noteq> sch_id (a_schedule nxt)"
    using running_competitor [OF runs] assms(3) next_interval_schedule [OF assms(2)] by force
  have ins: "inspected (fst st) nxt u runs screens"
    using inspect_screens [OF ids, of "(r0, \<lambda>_. empty_tally)" u "[]" screens]
    by (simp add: st_def inspected_def r0_def listed_def)
  have keep: "pr_target_count (fst (fold (inspect_screen nxt u runs) xs s)) = pr_target_count (fst s)
      \<and> pr_checked_at (fst (fold (inspect_screen nxt u runs) xs s)) = pr_checked_at (fst s)" for xs s
  proof (induction xs arbitrary: s)
    case (Cons x xs)
    then show ?case by (simp add: inspect_screen_def Let_def split: prod.split)
  qed simp
  have r: "\<exists>cs tr. r = (fst st)\<lparr>pr_competitors := take preflight_competitor_limit cs, pr_competitors_truncated := tr\<rparr>"
    using assms(1,2) runs t
    by (cases st) (auto simp: evaluate_preflight_def Let_def u_def [symmetric] r0_def st_def split: if_splits)
  have "inspected r nxt u runs screens"
    using ins r by (auto simp: inspected_def listed_def)
  moreover have "pr_checked_at r = Some (max now (a_start nxt))" "pr_target_count r = length screens"
  proof -
    have "pr_checked_at (fst st) = pr_checked_at r0" "pr_target_count (fst st) = pr_target_count r0"
      using keep [of screens "(r0, \<lambda>_. empty_tally)"] by (simp_all add: st_def)
    then show "pr_checked_at r = Some (max now (a_start nxt))" "pr_target_count r = length screens"
      using r by (auto simp: r0_def)
  qed
  moreover have "length (pr_competitors r) \<le> 25" using r by (auto simp: preflight_competitor_limit_def)
  moreover have "length (filter (\<lambda>s. ps_id s \<notin> set u \<and> Q s) xs)
      + length (filter (\<lambda>s. ps_id s \<notin> set u \<and> \<not> Q s) xs)
      + length (filter (\<lambda>s. ps_id s \<in> set u) xs) = length xs" for Q and xs :: "preflight_screen list"
    by (induction xs) auto
  ultimately show ?thesis
    using runs unfolding u_def [symmetric]
    by (auto simp: inspected_def listed_def preflight_screen_detail_limit_def)
qed

definition draft_example :: schedule where
  "draft_example = \<lparr>sch_id = UUID ''d'', sch_playlist = UUID ''p'', sch_layout = None,
     sch_display_action = None, sch_type = ''one_time'', sch_timezone = ''UTC'', sch_priority = 5,
     sch_specificity = 0, sch_enabled = True, sch_start_date = None, sch_end_date = None,
     sch_one_time_start = Some 10, sch_one_time_end = Some 20, sch_daily_start = None,
     sch_daily_end = None, sch_days = []\<rparr>"

theorem preflight_verdicts_witness:
  "\<exists>r. evaluate_preflight (\<lambda>_. None) utc 0 draft_example True
      [\<lparr>ps_id = UUID ''s'', ps_name = ''lobby'', ps_platform = ''linux'', ps_direct = True\<rparr>] [] = Some r
    \<and> pr_checked_at r = Some 10 \<and> pr_winning r + pr_losing r = 1"
proof -
  let ?scr = "[\<lparr>ps_id = UUID ''s'', ps_name = ''lobby'', ps_platform = ''linux'', ps_direct = True\<rparr>]"
  have n: "next_interval (\<lambda>_. None) utc draft_example 0 = Some (as_active draft_example (10, 20))"
    by (simp add: next_interval_def draft_example_def one_time_def one_time_allowed_def)
  have "evaluate_preflight (\<lambda>_. None) utc 0 draft_example True ?scr [] \<noteq> None"
    by (simp add: evaluate_preflight_def n running_competitors_def as_active_def Let_def
        List.map_filter_simps split: prod.split)
  then obtain r where r: "evaluate_preflight (\<lambda>_. None) utc 0 draft_example True ?scr [] = Some r" by blast
  have u: "unsupported_ids draft_example ?scr = []" by (simp add: unsupported_ids_def draft_example_def)
  show ?thesis
    using preflight_verdicts [OF r n] r u
    by (auto simp: as_active_def inspected_def split: if_splits)
qed

end
