(* ===== verification/SchedulingProperties.thy ===== *)
theory SchedulingProperties
  imports Scheduling
begin

text \<open>
  The properties of schedule activation and precedence: validated schedules never make
  the evaluation panic, the winner is the head of the precedence order and does not depend
  on the order of the rows, the next transition is a bound up to which nothing changes, and
  the explanation names the first decisive rule.
\<close>

section \<open>Lemmas\<close>

lemma validated_interval:
  assumes "validate_schedule tzdb local s = Inr ()"
  shows "interval_at tzdb local s t \<noteq> None"
proof (cases "sch_type s = one_time")
  case True
  then show ?thesis using assms
    by (auto simp: validate_schedule_def interval_at_def split: option.splits if_splits)
next
  case False
  obtain loc where "load_location tzdb local (sch_timezone s) = Some loc"
    and "validate_weekly s = Inr ()"
    using assms False by (auto simp: validate_schedule_def split: option.splits if_splits)
  then show ?thesis using False
    by (auto simp: validate_weekly_def interval_at_def Let_def split: option.splits)
qed

lemma validated_enabled_ok:
  "\<forall>s\<in>set ss. sch_enabled s \<longrightarrow> validate_schedule tzdb local s = Inr () \<Longrightarrow> enabled_ok tzdb local t ss"
  by (simp add: enabled_ok_def validated_interval)

lemma resolve_Some:
  assumes "resolve tzdb local t ss = Some r"
  shows "enabled_ok tzdb local t ss" "r_applicable r = rank (actives tzdb local t ss)"
    "r_winner r = (case r_applicable r of [] \<Rightarrow> None | w # _ \<Rightarrow> Some w)"
    "r_next r = fold (earliest_after t) (transitions tzdb local t ss) None"
  using assms by (auto simp: resolve_closed split: if_splits)

lemma explain_candidate_defined:
  assumes "resolve tzdb local t ss = Some r"
  shows "explain_candidate r s \<noteq> None"
proof (cases "map_of (rev (map (\<lambda>a. (sch_id (a_schedule a), a)) (r_applicable r))) (sch_id s)")
  case None
  then show ?thesis by (simp add: explain_candidate_def Let_def)
next
  case (Some a)
  then have "r_applicable r \<noteq> []" by auto
  then show ?thesis using resolve_Some(3) [OF assms] Some
    by (auto simp: explain_candidate_def Let_def neq_Nil_conv)
qed

lemma explain_defined:
  "resolve tzdb local t ss = Some r \<Longrightarrow>
     explain tzdb local t ss = Some \<lparr>e_resolution = r,
       e_candidates = sort_by trace_before (map (the \<circ> explain_candidate r) ss)\<rparr>"
  by (simp add: explain_def those_map explain_candidate_defined)

lemma applicable_iff:
  assumes "resolve tzdb local t ss = Some r"
  shows "a \<in> set (r_applicable r) \<longleftrightarrow>
    (\<exists>s\<in>set ss. sch_enabled s \<and> active_at tzdb local s t = Some (Some a))"
  using in_actives_iff [OF resolve_Some(1) [OF assms], of a] resolve_Some(2) [OF assms]
  by (simp add: rank_def)

lemma map_filter_cong:
  "(\<And>x. x \<in> set xs \<Longrightarrow> f x = g x) \<Longrightarrow> List.map_filter f xs = List.map_filter g xs"
  by (induction xs) (simp_all add: List.map_filter_simps split: option.split)

lemma resolve_winner_fact:
  assumes "resolve tzdb local t ss = Some r"
  shows "case r_winner r of None \<Rightarrow> r_applicable r = []
    | Some w \<Rightarrow> w \<in> set (r_applicable r) \<and> (\<forall>a\<in>set (r_applicable r). \<not> before a w)"
proof -
  note R = resolve_Some [OF assms]
  have "sorted (map precedence_key (r_applicable r))"
    unfolding R(2) rank_def by (rule precedence.sort_sorted)
  then show ?thesis unfolding R(3) by (cases "r_applicable r") (auto simp: before_iff)
qed

section \<open>Properties\<close>

text \<open>
  C35. Resolve and Explain never dereference a nil pointer or a nil location when every
  enabled schedule has passed Validate; the disabled ones are never evaluated.
\<close>

theorem validated_never_panics:
  assumes "\<forall>s\<in>set ss. sch_enabled s \<longrightarrow> validate_schedule tzdb local s = Inr ()"
  shows "\<exists>r e. resolve tzdb local t ss = Some r \<and> explain tzdb local t ss = Some e \<and> e_resolution e = r"
  using validated_enabled_ok [OF assms] explain_defined [of tzdb local t ss]
  by (simp add: resolve_closed)

definition office_hours :: schedule where
  "office_hours = \<lparr>sch_id = UUID ''a'', sch_playlist = UUID ''p'', sch_layout = None,
     sch_display_action = None, sch_type = ''weekly'', sch_timezone = ''UTC'', sch_priority = 5,
     sch_specificity = 0, sch_enabled = True, sch_start_date = None, sch_end_date = None,
     sch_one_time_start = None, sch_one_time_end = None, sch_daily_start = Some ''09:00'',
     sch_daily_end = Some ''17:00'', sch_days = [1, 2, 3, 4, 5]\<rparr>"

definition night_window :: schedule where
  "night_window = office_hours\<lparr>sch_id := UUID ''b'', sch_type := ''one_time'',
     sch_one_time_start := Some 0, sch_one_time_end := Some (40 * hour), sch_priority := 7\<rparr>"

lemma office_hours_valid: "validate_schedule tzdb local office_hours = Inr ()"
  by (simp add: office_hours_def validate_schedule_def validate_weekly_def load_location_def
      utc_def one_time_def weekly_def parse_clock_def parse_hhmm_def is_digit_def digit_val_def
      valid_optional_date_def)

lemma night_window_valid: "validate_schedule tzdb local night_window = Inr ()"
  by (simp add: night_window_def office_hours_def validate_schedule_def load_location_def
      utc_def one_time_def hour_def minute_def second_def)

theorem validated_never_panics_witness:
  "\<exists>r. resolve (\<lambda>_. None) utc 0 [office_hours, night_window] = Some r"
  using validated_never_panics [of "[office_hours, night_window]" "\<lambda>_. None" utc 0]
  by (auto simp: office_hours_valid night_window_valid)

text \<open>
  C5. The applicable schedules of Resolve are exactly the enabled ones whose interval contains
  the instant, in precedence order; the winner is the first of them, no other precedes it, and
  there is a winner whenever one applies.
\<close>

theorem resolve_winner:
  assumes "resolve tzdb local t ss = Some r"
  shows "set (r_applicable r) = {a. \<exists>s\<in>set ss. sch_enabled s \<and> active_at tzdb local s t = Some (Some a)}
    \<and> sorted (map precedence_key (r_applicable r))
    \<and> (\<forall>a\<in>set (r_applicable r). a_start a \<le> t \<and> t < a_end a)
    \<and> (case r_winner r of
        None \<Rightarrow> r_applicable r = []
      | Some w \<Rightarrow> w \<in> set (r_applicable r) \<and> (\<forall>a\<in>set (r_applicable r). \<not> before a w))"
proof -
  note R = resolve_Some [OF assms]
  have s: "sorted (map precedence_key (r_applicable r))"
    unfolding R(2) rank_def by (rule precedence.sort_sorted)
  have "\<forall>a\<in>set (r_applicable r). a_start a \<le> t \<and> t < a_end a"
    using actives_schedule [OF R(1)] by (auto simp: R(2) rank_def)
  then show ?thesis using s applicable_iff [OF assms] resolve_winner_fact [OF assms] by auto
qed

theorem resolve_winner_witness:
  "\<exists>r. resolve (\<lambda>_. None) utc 0 [night_window] = Some r \<and>
     map_option (sch_id \<circ> a_schedule) (r_winner r) = Some (UUID ''b'')"
proof -
  define a where "a = as_active night_window (0, 40 * hour)"
  have i: "interval_at (\<lambda>_. None) utc night_window 0 = Some (Some a, [0, 40 * hour])"
    by (simp add: a_def interval_at_def night_window_def office_hours_def one_time_def covers_def
        one_time_allowed_def hour_def minute_def second_def)
  then have ok: "enabled_ok (\<lambda>_. None) utc 0 [night_window]" by (simp add: enabled_ok_def)
  then obtain r where r: "resolve (\<lambda>_. None) utc 0 [night_window] = Some r" by (simp add: resolve_closed)
  have "active_at (\<lambda>_. None) utc night_window 0 = Some (Some a)" "sch_enabled night_window"
    by (simp_all add: active_at_def i) (simp add: night_window_def office_hours_def)
  then have "r_winner r = Some a" using resolve_winner [OF r] by (auto split: option.splits)
  then show ?thesis using r by (simp add: a_def as_active_def night_window_def)
qed

text \<open>
  The order in which the database returns the rows does not matter: with distinct
  identifiers, Resolve gives the same winner, the same ordered list of applicable schedules and
  the same next transition for every permutation of the schedules.
\<close>

theorem resolve_order_independent:
  assumes "mset ss' = mset ss" "distinct (map sch_id ss)"
  shows "resolve tzdb local t ss' = resolve tzdb local t ss"
proof (cases "enabled_ok tzdb local t ss")
  case True
  have set_eq: "set ss' = set ss" using assms(1) by (metis set_mset_mset)
  have ok': "enabled_ok tzdb local t ss'" using True by (simp add: enabled_ok_def set_eq)
  have "mset (actives tzdb local t ss') = mset (actives tzdb local t ss)"
    using assms(1) by (simp add: actives_def List.map_filter_def mset_filter)
  then have "rank (actives tzdb local t ss') = rank (actives tzdb local t ss)"
    unfolding rank_def
    by (rule precedence.sort_permutation_invariant [OF actives_distinct [OF True assms(2)]])
  moreover have "set (transitions tzdb local t ss') = set (transitions tzdb local t ss)"
    by (simp add: transitions_def set_eq)
  then have "fold (earliest_after t) (transitions tzdb local t ss') None
      = fold (earliest_after t) (transitions tzdb local t ss) None"
    using earliest_after_spec [of "transitions tzdb local t ss'" t]
      earliest_after_spec [of "transitions tzdb local t ss" t] by (metis is_earliest_unique)
  ultimately show ?thesis using True ok' by (simp add: resolve_closed)
next
  case False
  moreover have "set ss' = set ss" using assms(1) by (metis set_mset_mset)
  then have "enabled_ok tzdb local t ss' = enabled_ok tzdb local t ss" by (simp add: enabled_ok_def)
  ultimately show ?thesis by (simp add: resolve_closed)
qed

theorem resolve_order_independent_witness:
  "resolve (\<lambda>_. None) utc 0 [night_window, office_hours]
     = resolve (\<lambda>_. None) utc 0 [office_hours, night_window]"
  by (rule resolve_order_independent) (simp_all add: night_window_def office_hours_def)

section \<open>Recurring schedules\<close>

text \<open>
  C34. In a zone with a constant offset, a weekly schedule with zero-padded clocks is active
  exactly inside the window of an allowed day, over all days of the calendar: from the day's
  start time to its end time, the end inclusive of neither, on the next day when the end time is
  not after the start time. The reported interval is that window.
\<close>

theorem weekly_active_exactly:
  assumes "padded_recurring tzdb local s loc ds de" and "fixed_offset loc off"
  shows "active_at tzdb local s t = Some (Some a) \<longleftrightarrow>
    (\<exists>D. occurs_day s D \<and> a = as_active s (day_window off ds de D) \<and>
       D * 86400 + clock_minutes ds * 60 \<le> local_seconds loc t \<and>
       local_seconds loc t < (if de \<le> ds then D + 1 else D) * 86400 + clock_minutes de * 60)"
  unfolding active_recurring_iff [OF assms] covers_window_iff [OF assms(2)] by blast

lemma office_hours_padded: "padded_recurring tzdb local office_hours utc ''09:00'' ''17:00''"
  by (simp add: padded_recurring_def recurring_in_def office_hours_def one_time_def
      load_location_def parse_hhmm_def is_digit_def digit_val_def)

theorem weekly_active_exactly_witness:
  "active_at (\<lambda>_. None) utc office_hours (10 * hour)
     = Some (Some (as_active office_hours (9 * hour, 17 * hour)))"
proof -
  have "occurs_day office_hours 0"
    by (simp add: occurs_day_def office_hours_def weekday_of_day_def not_before_bound_def
        not_after_bound_def)
  moreover have "(9 * hour, 17 * hour) = day_window 0 ''09:00'' ''17:00'' 0"
    "clock_minutes ''09:00'' = 540" "clock_minutes ''17:00'' = 1020"
    by (simp_all add: day_window_def wall_instant_def clock_minutes_def clock_or_zero_def
        parse_clock_def parse_hhmm_def is_digit_def digit_val_def hour_def minute_def)
  ultimately show ?thesis
    unfolding weekly_active_exactly [OF office_hours_padded fixed_offset_utc]
    by (intro exI [of _ 0]) (simp add: local_seconds_def utc_def unix_def hour_def minute_def second_def)
qed

text \<open>
  The interval of one schedule does not change before its next transition. The search looks a
  week ahead, so the instants compared are at most seven days apart.
\<close>

definition simple_schedule :: "tz_database \<Rightarrow> location \<Rightarrow> schedule \<Rightarrow> bool" where
  "simple_schedule tzdb local s \<longleftrightarrow>
     (sch_type s = one_time \<and> sch_one_time_start s \<noteq> None \<and> sch_one_time_end s \<noteq> None) \<or>
     (\<exists>loc ds de off. padded_recurring tzdb local s loc ds de \<and> fixed_offset loc off)"

definition week :: duration where "week = 7 * 24 * hour"

text \<open>The instants at which a window of the schedule starts or ends, over the whole calendar.\<close>

definition window_boundary :: "tz_database \<Rightarrow> location \<Rightarrow> schedule \<Rightarrow> instant \<Rightarrow> bool" where
  "window_boundary tzdb local s x \<longleftrightarrow>
     (sch_type s = one_time \<and> (sch_one_time_start s = Some x \<or> sch_one_time_end s = Some x)) \<or>
     (\<exists>loc ds de off D. padded_recurring tzdb local s loc ds de \<and> fixed_offset loc off \<and> occurs_day s D
        \<and> (x = fst (day_window off ds de D) \<or> x = snd (day_window off ds de D)))"

lemma local_day_week:
  assumes "fixed_offset loc off" "t \<le> u" "u \<le> t + week"
  shows "local_day loc t \<le> local_day loc u" "local_day loc u \<le> local_day loc t + 7"
proof -
  have "unix u \<le> unix (t + week)" using assms(3) by (simp add: unix_def second_def zdiv_mono1)
  also have "unix (t + week) = unix t + 604800" by (simp add: unix_def week_def hour_def minute_def second_def)
  finally have "local_seconds loc u \<le> local_seconds loc t + 7 * 86400"
    using assms(1) by (simp add: local_seconds_def fixed_offset_def)
  then have "local_seconds loc u div 86400 \<le> (local_seconds loc t + 7 * 86400) div 86400" by (rule zdiv_mono1) simp
  then show "local_day loc u \<le> local_day loc t + 7" by (simp add: local_day_def)
  have "unix t \<le> unix u" using assms(2) by (simp add: unix_def second_def zdiv_mono1)
  then show "local_day loc t \<le> local_day loc u"
    using assms(1) by (simp add: local_day_def local_seconds_def fixed_offset_def zdiv_mono1)
qed

lemma recurring_stable:
  assumes p: "padded_recurring tzdb local s loc ds de" and fx: "fixed_offset loc off"
    and tu: "t \<le> u" "u \<le> t + week"
    and n: "\<forall>x\<in>set (snd (the (interval_at tzdb local s t))). \<not> (t < x \<and> x \<le> u)"
  shows "active_at tzdb local s u = active_at tzdb local s t"
proof -
  let ?win = "day_window off ds de"
  have r: "recurring_in tzdb local s loc ds de" using p by (simp add: padded_recurring_def)
  note days = local_day_week [OF fx tu]
  have eq: "covers t (?win D) \<longleftrightarrow> covers u (?win D)" if "occurs_day s D" for D
  proof
    assume c: "covers t (?win D)"
    have "{fst (?win D), snd (?win D)} \<subseteq> set (snd (the (interval_at tzdb local s t)))"
      by (rule transitions_recurring [OF r fx that]) (use covers_window_days [OF fx c] in auto)
    then show "covers u (?win D)" using c n tu by (fastforce simp: covers_def)
  next
    assume c: "covers u (?win D)"
    have "{fst (?win D), snd (?win D)} \<subseteq> set (snd (the (interval_at tzdb local s t)))"
      by (rule transitions_recurring [OF r fx that]) (use covers_window_days [OF fx c] days in auto)
    then show "covers t (?win D)" using c n tu by (fastforce simp: covers_def)
  qed
  have "active_at tzdb local s u = Some (Some a) \<longleftrightarrow> active_at tzdb local s t = Some (Some a)" for a
    unfolding active_recurring_iff [OF p fx] using eq by blast
  then show ?thesis
    using active_at_defined [OF p fx, of u] active_at_defined [OF p fx, of t]
    by (metis option.exhaust)
qed

lemma one_time_stable:
  assumes "sch_type s = one_time" "sch_one_time_start s = Some a" "sch_one_time_end s = Some b"
    and "t \<le> u" and "\<forall>x\<in>set (snd (the (interval_at tzdb local s t))). \<not> (t < x \<and> x \<le> u)"
  shows "active_at tzdb local s u = active_at tzdb local s t"
  using assms by (auto simp: active_at_def interval_at_def covers_def)

lemma simple_stable:
  assumes "simple_schedule tzdb local s" "t \<le> u" "u \<le> t + week"
    and "\<forall>x\<in>set (snd (the (interval_at tzdb local s t))). \<not> (t < x \<and> x \<le> u)"
  shows "active_at tzdb local s u = active_at tzdb local s t"
  using assms(1) unfolding simple_schedule_def
proof (elim disjE conjE exE)
  fix loc ds de off
  assume "padded_recurring tzdb local s loc ds de" "fixed_offset loc off"
  then show ?thesis using assms by (blast intro: recurring_stable)
next
  assume "sch_type s = one_time" "sch_one_time_start s \<noteq> None" "sch_one_time_end s \<noteq> None"
  then show ?thesis using one_time_stable assms(2,4) by auto
qed

lemma simple_defined: "simple_schedule tzdb local s \<Longrightarrow> interval_at tzdb local s t \<noteq> None"
  using active_at_defined [of tzdb local s]
  by (auto simp: simple_schedule_def active_at_def interval_at_def)

text \<open>Every transition is a boundary, and no boundary of the next week is missing from the transitions.\<close>

lemma transition_is_boundary:
  assumes "simple_schedule tzdb local s" "x \<in> set (snd (the (interval_at tzdb local s t)))"
  shows "window_boundary tzdb local s x"
  using assms(1) unfolding simple_schedule_def
proof (elim disjE conjE exE)
  fix loc ds de off
  assume p: "padded_recurring tzdb local s loc ds de" and fx: "fixed_offset loc off"
  then have r: "recurring_in tzdb local s loc ds de" by (simp add: padded_recurring_def)
  from assms(2) obtain D where "occurs_day s D" "x = fst (day_window off ds de D) \<or> x = snd (day_window off ds de D)"
    unfolding interval_recurring_fixed [OF r fx] Let_def by auto
  with p fx show ?thesis unfolding window_boundary_def by blast
next
  assume "sch_type s = one_time" "sch_one_time_start s \<noteq> None" "sch_one_time_end s \<noteq> None"
  then show ?thesis using assms(2) by (auto simp: window_boundary_def interval_at_def)
qed

lemma boundary_is_transition:
  assumes "window_boundary tzdb local s x" "simple_schedule tzdb local s" "t < x" "x \<le> t + week"
  shows "x \<in> set (snd (the (interval_at tzdb local s t)))"
  using assms(1) unfolding window_boundary_def
proof (elim disjE [of "sch_type s = one_time \<and> _"] conjE exE)
  assume "sch_type s = one_time" "sch_one_time_start s = Some x \<or> sch_one_time_end s = Some x"
  then show ?thesis using assms(2) by (auto simp: simple_schedule_def interval_at_def padded_recurring_def recurring_in_def)
next
  fix loc ds de off D
  assume p: "padded_recurring tzdb local s loc ds de" and fx: "fixed_offset loc off" and D: "occurs_day s D"
    and x: "x = fst (day_window off ds de D) \<or> x = snd (day_window off ds de D)"
  have r: "recurring_in tzdb local s loc ds de" using p by (simp add: padded_recurring_def)
  have wall: "local_day loc (wall_instant off d m) = d" if "0 \<le> m" "m < 1440" for d m
  proof -
    have "local_seconds loc (wall_instant off d m) = d * 86400 + m * 60"
      using fx by (simp add: wall_instant_def local_seconds_def fixed_offset_def unix_def second_def)
    moreover have "(d * 86400 + m * 60) div 86400 = d" using that by linarith
    ultimately show ?thesis by (simp add: local_day_def)
  qed
  have "local_day loc x = D \<or> local_day loc x = D + 1"
    using x wall clock_minutes_range [of ds] clock_minutes_range [of de] by (auto simp: day_window_def split: if_splits)
  then have "local_day loc t - 1 \<le> D" "D \<le> local_day loc t + 7"
    using local_day_week [OF fx, of t x] assms(3,4) by auto
  from transitions_recurring [OF r fx D this] x show ?thesis by auto
qed

lemma resolve_stable:
  assumes "resolve tzdb local t ss = Some r" "\<forall>s\<in>set ss. sch_enabled s \<longrightarrow> simple_schedule tzdb local s"
    and "t \<le> u" "u \<le> t + week" and "\<forall>n. r_next r = Some n \<longrightarrow> u < n"
  shows "\<exists>r'. resolve tzdb local u ss = Some r' \<and> r_winner r' = r_winner r \<and> r_applicable r' = r_applicable r"
proof -
  note R = resolve_Some [OF assms(1)]
  have e: "is_earliest (set (transitions tzdb local t ss) \<inter> {x. t < x}) (r_next r)"
    unfolding R(4) by (rule earliest_after_spec)
  have quiet: "\<not> (t < x \<and> x \<le> u)" if "x \<in> set (transitions tzdb local t ss)" for x
    using e assms(5) that by (cases "r_next r") (force simp: is_earliest_def)+
  have "active_at tzdb local s u = active_at tzdb local s t" if "s \<in> set ss" "sch_enabled s" for s
    by (rule simple_stable) (use that assms(2-4) quiet in \<open>force simp: transitions_def\<close>)+
  then have "actives tzdb local u ss = actives tzdb local t ss"
    using assms(2) simple_defined unfolding actives_def active_at_def
    by (intro map_filter_cong) (metis (mono_tags, lifting) mem_Collect_eq option.map_sel set_filter)
  moreover have "enabled_ok tzdb local u ss"
    using assms(2) simple_defined by (auto simp: enabled_ok_def)
  ultimately show ?thesis using R by (simp add: resolve_closed)
qed


text \<open>At ten o'clock the office hours end next at five in the afternoon, and hold until then.\<close>

lemma office_boundary:
  assumes "window_boundary (\<lambda>_. None) utc office_hours n"
  shows "\<exists>D. n = (D * 86400 + 32400) * second \<or> n = (D * 86400 + 61200) * second"
proof -
  have "sch_type office_hours \<noteq> one_time" by (simp add: office_hours_def one_time_def)
  with assms obtain loc ds de off D where p: "padded_recurring (\<lambda>_. None) utc office_hours loc ds de" "fixed_offset loc off"
    and n: "n = fst (day_window off ds de D) \<or> n = snd (day_window off ds de D)"
    unfolding window_boundary_def by blast
  have "loc = utc" "ds = ''09:00''" "de = ''17:00''"
    using p(1) by (auto simp: padded_recurring_def recurring_in_def office_hours_def load_location_def)
  moreover from this have "off = 0" using p(2) by (simp add: fixed_offset_def utc_def fun_eq_iff)
  ultimately show ?thesis
    using n by (auto simp: day_window_def wall_instant_def clock_minutes_def clock_or_zero_def parse_clock_def
        parse_hhmm_def is_digit_def digit_val_def)
qed


section \<open>Explanations\<close>

text \<open>Why the winner comes before another active interval: the first rule that tells them apart.\<close>

definition decisive :: "active \<Rightarrow> active \<Rightarrow> selection_reason \<Rightarrow> bool" where
  "decisive w a reason \<longleftrightarrow>
     (let p = sch_priority \<circ> a_schedule; sp = sch_specificity \<circ> a_schedule; i = sch_id \<circ> a_schedule in
      (reason = ReasonLowerPriority \<and> p a < p w) \<or>
      (reason = ReasonLessSpecific \<and> p a = p w \<and> sp a < sp w) \<or>
      (reason = ReasonEarlierStart \<and> p a = p w \<and> sp a = sp w \<and> a_start a < a_start w) \<or>
      (reason = ReasonStableID \<and> p a = p w \<and> sp a = sp w \<and> a_start a = a_start w \<and> i w < i a))"

lemma precedes_decisive:
  "before w a \<Longrightarrow> decisive w a (snd (precedes w a))"
  by (auto simp: before_def precedes_def decisive_def)

text \<open>What the trace must say of one schedule.\<close>

definition explains :: "result \<Rightarrow> active option \<Rightarrow> schedule \<Rightarrow> candidate \<Rightarrow> bool" where
  "explains r act s c \<longleftrightarrow> c_schedule_id c = sch_id s \<and> c_priority c = sch_priority s
     \<and> c_specificity c = sch_specificity s \<and>
     (if \<not> sch_enabled s then c_status c = CandidateInactive \<and> c_reason c = ReasonDisabled \<and> c_start c = None
      else case act of
        None \<Rightarrow> c_status c = CandidateInactive \<and> c_reason c = ReasonNotActive \<and> c_start c = None
      | Some a \<Rightarrow> c_start c = Some (a_start a) \<and> c_end c = Some (a_end a) \<and>
          (\<exists>w. r_winner r = Some w \<and>
             (if w = a then c_status c = CandidateSelected \<and> c_reason c = ReasonSelected
              else c_status c = CandidateSuperseded \<and> decisive w a (c_reason c))))"

lemma active_by_id:
  assumes r: "resolve tzdb local t ss = Some r" and d: "distinct (map sch_id ss)"
    and s: "s \<in> set ss" "sch_enabled s"
  shows "map_of (rev (map (\<lambda>a. (sch_id (a_schedule a), a)) (r_applicable r))) (sch_id s)
    = (case active_at tzdb local s t of Some x \<Rightarrow> x | None \<Rightarrow> None)"
proof -
  note R = resolve_Some [OF r]
  let ?m = "map (\<lambda>a. (sch_id (a_schedule a), a)) (r_applicable r)"
  have sch: "active_at tzdb local s' t = Some (Some a) \<Longrightarrow> a_schedule a = s'" for s' a
    by (auto simp: active_at_def dest: interval_at_active)
  have inj: "s' = s" if "s' \<in> set ss" "sch_id s' = sch_id s" for s'
    using d s(1) that by (metis distinct_map inj_onD)
  have dm: "distinct (map fst (rev ?m))"
  proof -
    have "x = y" if xy: "x \<in> set (r_applicable r)" "y \<in> set (r_applicable r)"
        "sch_id (a_schedule x) = sch_id (a_schedule y)" for x y
    proof -
      obtain s1 s2 where 1: "s1 \<in> set ss" "active_at tzdb local s1 t = Some (Some x)"
        and 2: "s2 \<in> set ss" "active_at tzdb local s2 t = Some (Some y)"
        using xy applicable_iff [OF r] by blast
      then have "s1 = s2" using sch xy(3) d by (metis distinct_map inj_onD)
      then show ?thesis using 1 2 by simp
    qed
    moreover have "distinct (r_applicable r)"
      using actives_distinct [OF R(1) d] unfolding R(2) rank_def
      by (metis distinct_map distinct_map_sort_by)
    ultimately show ?thesis by (auto simp: distinct_map inj_on_def comp_def)
  qed
  have "map_of (rev ?m) (sch_id s) = Some a \<longleftrightarrow> active_at tzdb local s t = Some (Some a)" for a
  proof -
    have "map_of (rev ?m) (sch_id s) = Some a \<longleftrightarrow> (sch_id s, a) \<in> set (rev ?m)"
      using dm by (rule map_of_eq_Some_iff)
    also have "\<dots> \<longleftrightarrow> a \<in> set (r_applicable r) \<and> sch_id (a_schedule a) = sch_id s"
      by (auto simp: image_iff)
    also have "\<dots> \<longleftrightarrow> active_at tzdb local s t = Some (Some a)"
      unfolding applicable_iff [OF r] using sch inj s by blast
    finally show ?thesis .
  qed
  moreover have "(case active_at tzdb local s t of Some x \<Rightarrow> x | None \<Rightarrow> None) = Some a
      \<longleftrightarrow> active_at tzdb local s t = Some (Some a)" for a by (auto split: option.splits)
  ultimately show ?thesis by (metis (no_types, lifting) not_Some_eq)
qed

lemma explain_candidate_explains:
  assumes r: "resolve tzdb local t ss = Some r" and d: "distinct (map sch_id ss)" and s: "s \<in> set ss"
  shows "explains r (case active_at tzdb local s t of Some x \<Rightarrow> x | None \<Rightarrow> None) s (the (explain_candidate r s))"
proof (cases "sch_enabled s")
  case False
  then show ?thesis by (simp add: explains_def explain_candidate_def Let_def)
next
  case True
  note m = active_by_id [OF r d s True]
  show ?thesis
  proof (cases "case active_at tzdb local s t of Some x \<Rightarrow> x | None \<Rightarrow> None")
    case None
    then show ?thesis using True m by (simp add: explains_def explain_candidate_def Let_def)
  next
    case (Some a)
    then have act: "active_at tzdb local s t = Some (Some a)" by (simp split: option.splits)
    then have a: "a \<in> set (r_applicable r)" "a_schedule a = s"
      using s True by (auto simp: applicable_iff [OF r] active_at_def dest: interval_at_active)
    then obtain w where w: "r_winner r = Some w" "w \<in> set (r_applicable r)"
      using resolve_Some(3) [OF r] by (cases "r_applicable r") auto
    have wa: "w = a" if "sch_id (a_schedule w) = sch_id s"
    proof -
      obtain s' where s': "s' \<in> set ss" "active_at tzdb local s' t = Some (Some w)"
        using w(2) by (auto simp: applicable_iff [OF r])
      then have "a_schedule w = s'" by (auto simp: active_at_def dest: interval_at_active)
      then have "s' = s" using d s s'(1) that by (metis distinct_map inj_onD)
      then show ?thesis using s'(2) act by simp
    qed
    have "\<not> before a w"
      using resolve_winner_fact [OF r] w a(1) by simp
    moreover have "precedence_key a \<noteq> precedence_key w" if "sch_id (a_schedule w) \<noteq> sch_id s"
      using that a(2) precedence_key_inj by metis
    ultimately have dec: "decisive w a (snd (precedes w a))" if "sch_id (a_schedule w) \<noteq> sch_id s"
      using that precedes_decisive [of w a] by (auto simp: before_iff)
    show ?thesis
    proof (cases "sch_id (a_schedule w) = sch_id s")
      case same: True
      show ?thesis unfolding explains_def Some explain_candidate_def Let_def m
        using True same wa [OF same] by (simp add: w(1))
    next
      case False
      then have "w \<noteq> a" using a(2) by auto
      then show ?thesis unfolding explains_def Some explain_candidate_def Let_def m
        using True False dec [OF False] by (simp add: w(1))
    qed
  qed
qed

lemma trace_ids: "map c_schedule_id (map (the \<circ> explain_candidate r) ss) = map sch_id ss"
  if "\<forall>s\<in>set ss. explain_candidate r s \<noteq> None"
  using that by (auto simp: explain_candidate_def Let_def split: option.splits if_splits)

text \<open>
  Explain returns one trace entry per schedule, in ascending order of identifiers, and
  each entry says the truth: a disabled schedule is inactive because it is disabled, an enabled one
  outside its interval because it is not active, the winner is selected, and every other active one
  is superseded for the first rule by which the winner comes before it.
\<close>

theorem explain_exact:
  assumes "resolve tzdb local t ss = Some r" "distinct (map sch_id ss)"
  shows "\<exists>cs. explain tzdb local t ss = Some \<lparr>e_resolution = r, e_candidates = cs\<rparr>
    \<and> sorted (map c_schedule_id cs) \<and> mset (map c_schedule_id cs) = mset (map sch_id ss)
    \<and> (\<forall>c\<in>set cs. \<exists>s\<in>set ss.
         explains r (case active_at tzdb local s t of Some x \<Rightarrow> x | None \<Rightarrow> None) s c)"
proof (intro exI conjI)
  let ?cs = "map (the \<circ> explain_candidate r) ss"
  show "explain tzdb local t ss = Some \<lparr>e_resolution = r, e_candidates = sort_by trace_before ?cs\<rparr>"
    by (rule explain_defined [OF assms(1)])
  show "sorted (map c_schedule_id (sort_by trace_before ?cs))" by (rule trace.sort_sorted)
  show "mset (map c_schedule_id (sort_by trace_before ?cs)) = mset (map sch_id ss)"
  proof -
    have "mset (map c_schedule_id (sort_by trace_before ?cs)) = mset (map c_schedule_id ?cs)"
      by (simp only: mset_map mset_sort_by)
    then show ?thesis using trace_ids [of ss r] explain_candidate_defined [OF assms(1)] by metis
  qed
  show "\<forall>c\<in>set (sort_by trace_before ?cs). \<exists>s\<in>set ss.
      explains r (case active_at tzdb local s t of Some x \<Rightarrow> x | None \<Rightarrow> None) s c"
    using explain_candidate_explains [OF assms] by auto
qed

theorem explain_exact_witness:
  "\<exists>r cs. explain (\<lambda>_. None) utc 0 [office_hours, night_window]
     = Some \<lparr>e_resolution = r, e_candidates = cs\<rparr> \<and> length cs = 2"
proof -
  have "\<forall>s\<in>set [office_hours, night_window]. sch_enabled s \<longrightarrow> validate_schedule (\<lambda>_. None) utc s = Inr ()"
    by (simp add: office_hours_valid night_window_valid)
  then obtain r where r: "resolve (\<lambda>_. None) utc 0 [office_hours, night_window] = Some r"
    using validated_enabled_ok resolve_closed by metis
  have "distinct (map sch_id [office_hours, night_window])"
    by (simp add: office_hours_def night_window_def)
  from explain_exact [OF r this] show ?thesis
    by (metis length_map list.size(3) list.size(4) mset_eq_length numeral_2_eq_2 One_nat_def add_Suc add_0)
qed

end
