(* ===== verification/Capabilities.thy ===== *)
theory Capabilities
  imports GoValues
begin

text \<open>
  Presentation capabilities of a Player against the Widgets a screen would show:
  \<open>apps/server/internal/playlists/capabilities.go\<close>, \<open>capability_evidence.go\<close>,
  \<open>layout_zone_capabilities.go\<close> and \<open>presentationSupported\<close> of \<open>component.go\<close>. The queries
  that collect the requirements are not modelled; a requirement is given with its compiled
  presentations, and the Player row is read by a function.
\<close>

section \<open>Data\<close>

text \<open>
  Of a compiled presentation only the schema version and the required capabilities are
  compared. A nil map and an empty map read alike.
\<close>

record widget_presentation =
  wp_schema :: int
  wp_required :: "int gomap"

record widget_requirement =
  rq_asset :: uuid
  rq_name :: string
  rq_presentation :: "widget_presentation option"
  rq_component :: "widget_presentation option"
  rq_component_v2 :: "widget_presentation option"
  rq_layout_playlist :: bool

record player_capabilities =
  pl_schemas :: "int list"
  pl_native :: "int gomap"
  pl_web_runtime :: int
  pl_version :: int
  pl_reported :: bool

record requirement_evidence =
  re_schema :: int
  re_capabilities :: "int gomap"
  re_supported :: "bool option"

record widget_evidence =
  we_asset :: uuid
  we_name :: string
  we_status :: string
  we_reason :: string
  we_renderer :: string
  we_component :: "requirement_evidence option"
  we_compatibility :: "requirement_evidence option"

record capability_evidence =
  ev_screen :: uuid
  ev_status :: string
  ev_reason :: string
  ev_reported :: bool
  ev_schemas :: "int list"
  ev_native :: "int gomap"
  ev_web_runtime :: int
  ev_requires_v13 :: bool
  ev_widgets :: "widget_evidence list"

section \<open>Support\<close>

definition native_level :: "player_capabilities \<Rightarrow> string \<Rightarrow> int" where
  "native_level pl c = (case map_of (pl_native pl) c of Some n \<Rightarrow> n | None \<Rightarrow> 0)"

definition required_level :: "widget_presentation \<Rightarrow> string \<Rightarrow> int" where
  "required_level p c = (case map_of (wp_required p) c of Some n \<Rightarrow> n | None \<Rightarrow> 0)"

definition reported_level :: "player_capabilities \<Rightarrow> string \<Rightarrow> int" where
  "reported_level pl c = (if c = ''web.remote'' then pl_web_runtime pl else native_level pl c)"

definition presentation_supported :: "widget_presentation \<Rightarrow> player_capabilities \<Rightarrow> bool \<times> string list" where
  "presentation_supported p pl =
     (let capabilities = sort (map fst (wp_required p)) in
      if \<not> pl_reported pl then (False, capabilities)
      else if wp_schema p \<notin> set (pl_schemas pl) then (False, capabilities)
      else (list_all (\<lambda>c. \<not> reported_level pl c < required_level p c) capabilities, capabilities))"

definition layout_playlist_widgets_capability :: string where
  "layout_playlist_widgets_capability = ''layout.playlist_widgets''"

text \<open>\<open>requireLayoutPlaylistWidgets\<close> sets the capability in place; a nil presentation stays nil.\<close>

definition require_layout_playlist_widgets :: "widget_presentation option \<Rightarrow> widget_presentation option" where
  "require_layout_playlist_widgets p =
     map_option (\<lambda>w. w\<lparr>wp_required := (layout_playlist_widgets_capability, 1)
       # filter (\<lambda>(k, _). k \<noteq> layout_playlist_widgets_capability) (wp_required w)\<rparr>) p"

definition component_requirement :: "widget_requirement \<Rightarrow> widget_presentation option" where
  "component_requirement r = (if rq_component r \<noteq> None then rq_component r else rq_component_v2 r)"

definition widget_compatibility_target ::
    "widget_requirement \<Rightarrow> player_capabilities \<Rightarrow> widget_presentation option \<times> string" where
  "widget_compatibility_target r pl =
     (case find (\<lambda>c. case c of None \<Rightarrow> False | Some p \<Rightarrow> fst (presentation_supported p pl))
        [rq_component r, rq_component_v2 r] of
        Some c \<Rightarrow> (c, ''component'')
      | None \<Rightarrow>
          if rq_presentation r = None then (component_requirement r, ''component'')
          else (rq_presentation r, ''compatibility''))"

section \<open>Validation of assignments\<close>

datatype capability_error =
    LayoutPlaylistUnsupported uuid string
  | ManifestV13NotReported uuid string
  | PresentationIncompatible uuid string
  | CapabilityReadFailed string

definition check_presentation_compatibility ::
    "uuid \<Rightarrow> string \<Rightarrow> widget_presentation option \<Rightarrow> player_capabilities \<Rightarrow> capability_error + unit" where
  "check_presentation_compatibility screen name p pl =
     (case p of None \<Rightarrow> Inr ()
      | Some w \<Rightarrow> check (fst (presentation_supported w pl)) (PresentationIncompatible screen name))"

definition check_widget_compatibility ::
    "uuid \<Rightarrow> player_capabilities \<Rightarrow> widget_requirement \<Rightarrow> capability_error + unit" where
  "check_widget_compatibility screen pl r =
     check_presentation_compatibility screen (rq_name r) (fst (widget_compatibility_target r pl)) pl"

text \<open>
  One screen. An unreported Player fails on a Widget without a compatibility presentation
  whatever the component check says: the error is wrapped even when it is nil.
\<close>

definition validate_screen ::
    "widget_requirement list \<Rightarrow> string \<Rightarrow> uuid \<Rightarrow> player_capabilities \<Rightarrow> capability_error + unit" where
  "validate_screen reqs blocker screen pl =
     andthen (first_error (\<lambda>r. check (\<not> (rq_layout_playlist r
                 \<and> native_level pl layout_playlist_widgets_capability < 1))
               (LayoutPlaylistUnsupported screen (rq_name r))) reqs)
       (\<lambda>_. if \<not> pl_reported pl then
               (if blocker \<noteq> [] then Inl (ManifestV13NotReported screen blocker)
                else first_error (\<lambda>r. check (rq_presentation r \<noteq> None)
                       (PresentationIncompatible screen (rq_name r))) reqs)
             else first_error (check_widget_compatibility screen pl) reqs)"

definition validate_presentation_for_screens ::
    "(uuid \<Rightarrow> capability_error + player_capabilities) \<Rightarrow> widget_requirement list \<Rightarrow> string \<Rightarrow> uuid list \<Rightarrow>
     capability_error + unit" where
  "validate_presentation_for_screens read reqs blocker screens =
     first_error (\<lambda>screen. andthen (read screen) (validate_screen reqs blocker screen)) screens"

section \<open>Evidence\<close>

definition requirement_evidence_of ::
    "widget_presentation option \<Rightarrow> player_capabilities \<Rightarrow> requirement_evidence option" where
  "requirement_evidence_of p pl =
     map_option (\<lambda>w. \<lparr>re_schema = wp_schema w, re_capabilities = wp_required w,
       re_supported = (if pl_reported pl then Some (fst (presentation_supported w pl)) else None)\<rparr>) p"

definition widget_capability_evidence :: "widget_requirement \<Rightarrow> player_capabilities \<Rightarrow> widget_evidence" where
  "widget_capability_evidence r pl =
     (let e = \<lparr>we_asset = rq_asset r, we_name = rq_name r, we_status = [], we_reason = [], we_renderer = [],
                we_component = requirement_evidence_of (rq_component r) pl,
                we_compatibility = requirement_evidence_of (rq_presentation r) pl\<rparr>;
          (target, renderer) = widget_compatibility_target r pl
      in if \<not> pl_reported pl then
           (if rq_presentation r = None \<and> rq_component r \<noteq> None
            then e\<lparr>we_status := ''blocked'', we_reason := ''component_capabilities_not_reported''\<rparr>
            else e\<lparr>we_status := ''unknown'', we_reason := ''player_capabilities_not_reported''\<rparr>)
         else case target of
           None \<Rightarrow> e\<lparr>we_status := ''supported'', we_reason := ''no_presentation_requirements''\<rparr>
         | Some p \<Rightarrow>
             if \<not> fst (presentation_supported p pl)
             then e\<lparr>we_status := ''blocked'', we_reason := ''presentation_requirements_unsupported''\<rparr>
             else e\<lparr>we_status := ''supported'', we_reason := ''reported_requirements_supported'',
                    we_renderer := renderer\<rparr>)"

definition add_widget_evidence ::
    "player_capabilities \<Rightarrow> widget_requirement \<Rightarrow> capability_evidence \<Rightarrow> capability_evidence" where
  "add_widget_evidence pl r ev =
     (let w = widget_capability_evidence r pl;
          zone = rq_layout_playlist r \<and> native_level pl layout_playlist_widgets_capability < 1;
          w' = (if zone then w\<lparr>we_status := ''blocked'', we_reason := ''layout_playlist_widgets_unsupported''\<rparr> else w);
          ev' = (if zone then ev\<lparr>ev_status := ''blocked'', ev_reason := ''layout_playlist_widgets_unsupported''\<rparr>
                 else ev);
          ev'' = ev'\<lparr>ev_widgets := ev_widgets ev' @ [w']\<rparr>
      in if we_status w' = ''blocked'' \<and> ev_status ev'' \<noteq> ''blocked''
         then ev''\<lparr>ev_status := ''blocked'', ev_reason := ''widget_requirements_unsupported''\<rparr>
         else ev'')"

definition initial_evidence ::
    "uuid \<Rightarrow> widget_requirement list \<Rightarrow> bool \<Rightarrow> player_capabilities \<Rightarrow> capability_evidence" where
  "initial_evidence screen reqs v13 pl =
     (let e0 = \<lparr>ev_screen = screen, ev_status = ''supported'', ev_reason = ''reported_requirements_supported'',
                 ev_reported = pl_reported pl, ev_schemas = sort (pl_schemas pl), ev_native = pl_native pl,
                 ev_web_runtime = pl_web_runtime pl, ev_requires_v13 = v13, ev_widgets = []\<rparr>;
          e1 = (if \<not> pl_reported pl
                then e0\<lparr>ev_status := ''unknown'', ev_reason := ''player_capabilities_not_reported''\<rparr> else e0);
          e2 = (if reqs = [] \<and> \<not> v13
                then e1\<lparr>ev_status := ''not_applicable'', ev_reason := ''no_widget_presentation_requirements''\<rparr>
                else e1)
      in if v13 \<and> \<not> pl_reported pl
         then e2\<lparr>ev_status := ''blocked'', ev_reason := ''manifest_v13_capabilities_not_reported''\<rparr> else e2)"

definition capability_evidence_of ::
    "uuid \<Rightarrow> widget_requirement list \<Rightarrow> bool \<Rightarrow> player_capabilities \<Rightarrow> capability_evidence" where
  "capability_evidence_of screen reqs v13 pl =
     fold (add_widget_evidence pl) reqs (initial_evidence screen reqs v13 pl)"

section \<open>Lemmas\<close>

definition zone_blocked :: "player_capabilities \<Rightarrow> widget_requirement \<Rightarrow> bool" where
  "zone_blocked pl r \<longleftrightarrow> rq_layout_playlist r \<and> native_level pl layout_playlist_widgets_capability < 1"

definition widget_blocked :: "player_capabilities \<Rightarrow> widget_requirement \<Rightarrow> bool" where
  "widget_blocked pl r \<longleftrightarrow> zone_blocked pl r \<or> we_status (widget_capability_evidence r pl) = ''blocked''"

lemma add_widget_status:
  "ev_status (add_widget_evidence pl r ev) = ''blocked'' \<longleftrightarrow> ev_status ev = ''blocked'' \<or> widget_blocked pl r"
  by (auto simp: add_widget_evidence_def Let_def widget_blocked_def zone_blocked_def)

lemma fold_widget_status:
  "ev_status (fold (add_widget_evidence pl) reqs ev) = ''blocked'' \<longleftrightarrow>
     ev_status ev = ''blocked'' \<or> (\<exists>r\<in>set reqs. widget_blocked pl r)"
  by (induction reqs arbitrary: ev) (auto simp: add_widget_status)

lemma initial_status:
  "ev_status (initial_evidence screen reqs v13 pl) = ''blocked'' \<longleftrightarrow> v13 \<and> \<not> pl_reported pl"
  by (simp add: initial_evidence_def Let_def)

lemma widget_status_reported:
  "pl_reported pl \<Longrightarrow> we_status (widget_capability_evidence r pl) \<noteq> ''blocked'' \<longleftrightarrow>
     check_widget_compatibility screen pl r = Inr ()"
  by (cases "widget_compatibility_target r pl"; cases "fst (widget_compatibility_target r pl)")
    (simp_all add: widget_capability_evidence_def Let_def check_widget_compatibility_def
      check_presentation_compatibility_def)

lemma widget_status_unreported:
  "\<not> pl_reported pl \<Longrightarrow> we_status (widget_capability_evidence r pl) = ''blocked'' \<longleftrightarrow>
     rq_presentation r = None \<and> rq_component r \<noteq> None"
  by (simp add: widget_capability_evidence_def Let_def split: prod.split)

section \<open>Properties\<close>

text \<open>
  C38. Assignment validation and the capability evidence agree: a screen passes validation
  exactly if the evidence for it is not blocked, whether or not its Player has reported. The
  hypothesis is what compilation gives: a Widget has a current component or a compatibility
  presentation (one with the released component only is refused and yet reported as unknown).
\<close>

theorem evidence_agrees_with_validation:
  assumes "\<forall>r\<in>set reqs. rq_presentation r = None \<longrightarrow> rq_component r \<noteq> None"
  shows "validate_screen reqs blocker screen pl = Inr () \<longleftrightarrow>
    ev_status (capability_evidence_of screen reqs (blocker \<noteq> []) pl) \<noteq> ''blocked''"
proof (cases "pl_reported pl")
  case True
  then show ?thesis
    using widget_status_reported [of pl _ screen]
    by (auto simp: validate_screen_def capability_evidence_of_def fold_widget_status initial_status
        widget_blocked_def zone_blocked_def)
next
  case False
  have "we_status (widget_capability_evidence r pl) = ''blocked'' \<longleftrightarrow> rq_presentation r = None"
    if "r \<in> set reqs" for r
    using widget_status_unreported [OF False] assms that by blast
  with False show ?thesis
    by (auto simp: validate_screen_def capability_evidence_of_def fold_widget_status initial_status
        widget_blocked_def zone_blocked_def)
qed

theorem evidence_agrees_with_validation_witness:
  "validate_screen [\<lparr>rq_asset = UUID ''w'', rq_name = ''clock'', rq_presentation = None,
       rq_component = Some \<lparr>wp_schema = 3, wp_required = [(''web.remote'', 2)]\<rparr>,
       rq_component_v2 = None, rq_layout_playlist = False\<rparr>] [] (UUID ''s'')
     \<lparr>pl_schemas = [1, 3], pl_native = [], pl_web_runtime = 2, pl_version = 9, pl_reported = True\<rparr> = Inr ()"
  by (subst evidence_agrees_with_validation)
    (simp_all add: capability_evidence_of_def initial_evidence_def add_widget_evidence_def
      widget_capability_evidence_def widget_compatibility_target_def presentation_supported_def
      reported_level_def required_level_def Let_def)

text \<open>
  The case the hypothesis leaves out: with the released component only and no report, the
  assignment is refused while the evidence says that the status is unknown.
\<close>

lemma released_component_diverges:
  "validate_screen [\<lparr>rq_asset = UUID ''w'', rq_name = ''clock'', rq_presentation = None, rq_component = None,
       rq_component_v2 = Some \<lparr>wp_schema = 2, wp_required = []\<rparr>, rq_layout_playlist = False\<rparr>] [] screen
     \<lparr>pl_schemas = [], pl_native = [], pl_web_runtime = 0, pl_version = 0, pl_reported = False\<rparr> \<noteq> Inr ()"
  "ev_status (capability_evidence_of screen [\<lparr>rq_asset = UUID ''w'', rq_name = ''clock'',
       rq_presentation = None, rq_component = None,
       rq_component_v2 = Some \<lparr>wp_schema = 2, wp_required = []\<rparr>, rq_layout_playlist = False\<rparr>] False
     \<lparr>pl_schemas = [], pl_native = [], pl_web_runtime = 0, pl_version = 0, pl_reported = False\<rparr>) = ''unknown''"
  by (simp_all add: validate_screen_def capability_evidence_of_def initial_evidence_def
      add_widget_evidence_def widget_capability_evidence_def Let_def split: prod.split)

end
