(* ===== verification/PlaybackPlan.thy ===== *)
theory PlaybackPlan
  imports SchedulingProperties Capabilities
begin

text \<open>
  What a screen is expected to play: \<open>apps/server/internal/playbackplan\<close>. The current
  selection (\<open>current.go\<close>) takes the first of takeover, quick present, winning schedule and
  assignment; the history reads recorded windows (\<open>history.go\<close>); the inspector picks one of
  the two (\<open>inspection.go\<close>) and the response exposes it (\<open>response.go\<close>). The readers
  behind the interfaces \<open>AssignmentReader\<close>, \<open>ScheduleReader\<close> and \<open>OverrideReader\<close>
  are functions of a record, given to the model.
\<close>

section \<open>Data\<close>

datatype plan_error =
    InvalidCurrentInspection
  | InvalidInspection
  | PlanScreenNotFound
  | AmbiguousExpectation
  | InvalidAgendaRange
  | AgendaTooManyChanges
  | ReadFailed string
  | NilDereference

record assignment =
  asg_playlist :: "uuid option"
  asg_playlist_revision :: "int option"
  asg_layout :: "uuid option"
  asg_layout_revision :: "int option"
  asg_manifest_version :: int
  asg_player_active :: "int option"
  asg_player_pending :: "int option"

record manifest_takeover =
  mt_id :: uuid
  mt_playlist :: uuid
  mt_activated_at :: instant
  mt_expires_at :: instant

record presentation_override =
  po_id :: uuid
  po_content_type :: string
  po_content_id :: uuid
  po_expires_at :: "instant option"

record schedule_record =
  rec_schedule :: schedule
  rec_name :: string

record selection =
  sel_source :: string
  sel_content_type :: string
  sel_content_id :: uuid
  sel_name :: string
  sel_schedule_name :: string
  sel_selection_id :: "uuid option"
  sel_revision :: "int option"
  sel_reason :: string

record selection_candidate =
  sc_source :: string
  sc_id :: "uuid option"
  sc_status :: string
  sc_reason :: string
  sc_schedule_reason :: "selection_reason option"
  sc_name :: string

record synchronization =
  sy_status :: string
  sy_manifest_version :: int
  sy_active :: "int option"
  sy_pending :: "int option"

record capability_assessment =
  ca_status :: string
  ca_reason :: string
  ca_evidence :: "capability_evidence option"

record current_plan =
  cp_screen :: uuid
  cp_at :: instant
  cp_basis :: string
  cp_selected :: "selection option"
  cp_candidates :: "selection_candidate list"
  cp_next :: "instant option"
  cp_explanation :: explanation
  cp_synchronization :: "synchronization option"
  cp_capabilities :: "capability_assessment option"

record readers =
  rd_assignment :: "uuid \<Rightarrow> plan_error + assignment"
  rd_takeover :: "uuid \<Rightarrow> instant \<Rightarrow> plan_error + manifest_takeover option"
  rd_schedules :: "uuid \<Rightarrow> plan_error + schedule_record list"
  rd_override :: "uuid \<Rightarrow> instant \<Rightarrow> plan_error + presentation_override option"

record selection_inputs =
  in_assignment :: assignment
  in_schedules :: "schedule list"
  in_names :: "uuid \<Rightarrow> string"

fun reason_string :: "selection_reason \<Rightarrow> string" where
  "reason_string ReasonSelected = ''schedule_highest_precedence''"
| "reason_string ReasonDisabled = ''schedule_disabled''"
| "reason_string ReasonNotActive = ''schedule_not_active''"
| "reason_string ReasonLowerPriority = ''schedule_lower_priority''"
| "reason_string ReasonLessSpecific = ''schedule_less_specific''"
| "reason_string ReasonEarlierStart = ''schedule_earlier_start''"
| "reason_string ReasonStableID = ''schedule_stable_id_tiebreak''"

fun status_string :: "candidate_status \<Rightarrow> string" where
  "status_string CandidateSelected = ''selected''"
| "status_string CandidateSuperseded = ''superseded''"
| "status_string CandidateInactive = ''inactive''"

section \<open>Current selection\<close>

text \<open>Display-control schedules are left out; a missing name reads as the empty string.\<close>

definition load_selection_inputs :: "readers \<Rightarrow> uuid \<Rightarrow> plan_error + selection_inputs" where
  "load_selection_inputs rd screen =
     andthen (rd_assignment rd screen) (\<lambda>a.
       andthen (rd_schedules rd screen) (\<lambda>records.
         let used = filter (\<lambda>r. sch_playlist (rec_schedule r) \<noteq> uuid_nil
                                 \<or> sch_layout (rec_schedule r) \<noteq> None) records
         in Inr \<lparr>in_assignment = a, in_schedules = map rec_schedule used,
                 in_names = fold (\<lambda>r m. m(sch_id (rec_schedule r) := rec_name r)) used (\<lambda>_. [])\<rparr>))"

definition boundary :: "instant \<Rightarrow> instant option \<Rightarrow> instant option \<Rightarrow> instant option" where
  "boundary t b nxt = (case b of None \<Rightarrow> nxt | Some x \<Rightarrow> earliest_after t x nxt)"

definition choose_selection ::
    "manifest_takeover option \<Rightarrow> presentation_override option \<Rightarrow> active option \<Rightarrow> selection_inputs \<Rightarrow>
     selection option" where
  "choose_selection takeover quick winner inputs =
     (case takeover of
        Some k \<Rightarrow> Some \<lparr>sel_source = ''takeover'', sel_content_type = ''playlist'',
          sel_content_id = mt_playlist k, sel_name = [], sel_schedule_name = [],
          sel_selection_id = Some (mt_id k), sel_revision = None, sel_reason = ''active_takeover''\<rparr>
      | None \<Rightarrow>
     (case quick of
        Some q \<Rightarrow> Some \<lparr>sel_source = ''quick_present'', sel_content_type = po_content_type q,
          sel_content_id = po_content_id q, sel_name = [], sel_schedule_name = [],
          sel_selection_id = Some (po_id q), sel_revision = None, sel_reason = ''active_quick_present''\<rparr>
      | None \<Rightarrow>
     (case winner of
        Some w \<Rightarrow> (let s = a_schedule w in
          Some \<lparr>sel_source = ''schedule'',
            sel_content_type = (case sch_layout s of None \<Rightarrow> ''playlist'' | Some _ \<Rightarrow> ''layout''),
            sel_content_id = (case sch_layout s of None \<Rightarrow> sch_playlist s | Some l \<Rightarrow> l),
            sel_name = [], sel_schedule_name = in_names inputs (sch_id s),
            sel_selection_id = Some (sch_id s), sel_revision = None,
            sel_reason = reason_string ReasonSelected\<rparr>)
      | None \<Rightarrow>
     (let a = in_assignment inputs in
      case asg_layout a of
        Some l \<Rightarrow> Some \<lparr>sel_source = ''assignment'', sel_content_type = ''layout'',
          sel_content_id = l, sel_name = [], sel_schedule_name = [], sel_selection_id = None,
          sel_revision = asg_layout_revision a, sel_reason = ''assigned_fallback''\<rparr>
      | None \<Rightarrow>
     (case asg_playlist a of
        Some p \<Rightarrow> Some \<lparr>sel_source = ''assignment'', sel_content_type = ''playlist'',
          sel_content_id = p, sel_name = [], sel_schedule_name = [], sel_selection_id = None,
          sel_revision = asg_playlist_revision a, sel_reason = ''assigned_fallback''\<rparr>
      | None \<Rightarrow> None)))))"

text \<open>The closure \<open>add\<close>; it reads \<open>plan.Selected\<close> whenever the source is active.\<close>

definition add_candidate ::
    "selection option \<Rightarrow> string \<Rightarrow> uuid option \<Rightarrow> bool \<Rightarrow> string \<Rightarrow> selection_candidate option" where
  "add_candidate selected source i act inactive_reason =
     (let c = \<lparr>sc_source = source, sc_id = i, sc_status = ''inactive'', sc_reason = inactive_reason,
                sc_schedule_reason = None, sc_name = []\<rparr>
      in if \<not> act then Some c
         else case selected of
           None \<Rightarrow> None
         | Some s \<Rightarrow> Some (c\<lparr>sc_status := (if sel_source s = source then ''selected'' else ''superseded''),
                                sc_reason := sel_reason s\<rparr>))"

definition schedule_candidate ::
    "selection option \<Rightarrow> (uuid \<Rightarrow> string) \<Rightarrow> candidate \<Rightarrow> selection_candidate" where
  "schedule_candidate selected names c =
     (let overridden = (case selected of
            Some s \<Rightarrow> c_status c \<noteq> CandidateInactive
              \<and> (sel_source s = ''takeover'' \<or> sel_source s = ''quick_present'')
          | None \<Rightarrow> False)
      in \<lparr>sc_source = ''schedule'', sc_id = Some (c_schedule_id c),
          sc_status = (if overridden then ''superseded'' else status_string (c_status c)),
          sc_reason = (if overridden then sel_reason (the selected) else reason_string (c_reason c)),
          sc_schedule_reason = Some (c_reason c), sc_name = names (c_schedule_id c)\<rparr>)"

definition select_at ::
    "tz_database \<Rightarrow> location \<Rightarrow> readers \<Rightarrow> uuid \<Rightarrow> instant \<Rightarrow> selection_inputs \<Rightarrow> plan_error + current_plan" where
  "select_at tzdb local rd screen t inputs =
     (case explain tzdb local t (in_schedules inputs) of
        None \<Rightarrow> Inl NilDereference
      | Some trace \<Rightarrow>
          andthen (rd_override rd screen t) (\<lambda>quick.
          andthen (rd_takeover rd screen t) (\<lambda>takeover.
            let nxt = boundary t (map_option mt_expires_at takeover)
                  (boundary t (Option.bind quick po_expires_at) (r_next (e_resolution trace)));
                a = in_assignment inputs;
                selected = choose_selection takeover quick (r_winner (e_resolution trace)) inputs
            in case (add_candidate selected ''takeover'' (map_option mt_id takeover) (takeover \<noteq> None) ''no_active_takeover'',
                     add_candidate selected ''quick_present'' (map_option po_id quick) (quick \<noteq> None) ''no_active_quick_present'',
                     add_candidate selected ''assignment'' None (asg_playlist a \<noteq> None \<or> asg_layout a \<noteq> None) ''no_assignment'') of
                 (Some k, Some q, Some g) \<Rightarrow>
                   Inr \<lparr>cp_screen = screen, cp_at = t, cp_basis = ''current_configuration'',
                        cp_selected = selected,
                        cp_candidates = [k, q] @ map (schedule_candidate selected (in_names inputs)) (e_candidates trace) @ [g],
                        cp_next = nxt, cp_explanation = trace, cp_synchronization = None, cp_capabilities = None\<rparr>
               | _ \<Rightarrow> Inl NilDereference)))"

definition current_at ::
    "tz_database \<Rightarrow> location \<Rightarrow> readers \<Rightarrow> uuid \<Rightarrow> instant \<Rightarrow> plan_error + current_plan" where
  "current_at tzdb local rd screen t =
     (if screen = uuid_nil \<or> t = zero_time then Inl InvalidCurrentInspection
      else andthen (load_selection_inputs rd screen) (\<lambda>inputs. select_at tzdb local rd screen t inputs))"

section \<open>Recorded history\<close>

text \<open>A row of \<open>expected_playback_windows\<close>, with the columns that the query returns.\<close>

record recorded_window =
  rw_screen :: uuid
  rw_id :: uuid
  rw_presentation_type :: string
  rw_presentation_id :: string
  rw_presentation_revision :: string
  rw_manifest_version :: "int option"
  rw_schedule_id :: string
  rw_source :: string
  rw_timezone :: string
  rw_start :: instant
  rw_end :: "instant option"
  rw_superseded_at :: "instant option"
  rw_superseded_reason :: "string option"
  rw_content_type :: string
  rw_content_id :: string

datatype evidence_basis = BasisRecorded | BasisUnavailable | BasisCurrent

record historical_plan =
  hp_screen :: uuid
  hp_at :: instant
  hp_basis :: evidence_basis
  hp_expectation :: "recorded_window option"

record history_db =
  hd_screens :: "uuid list"
  hd_windows :: "recorded_window list"

definition window_contains :: "uuid \<Rightarrow> instant \<Rightarrow> recorded_window \<Rightarrow> bool" where
  "window_contains screen t w \<longleftrightarrow> rw_screen w = screen \<and> rw_start w \<le> t
     \<and> (case rw_end w of None \<Rightarrow> True | Some e \<Rightarrow> t < e)
     \<and> (case rw_superseded_at w of None \<Rightarrow> True | Some e \<Rightarrow> t < e)"

definition window_before :: "recorded_window \<Rightarrow> recorded_window \<Rightarrow> bool" where
  "window_before a b \<longleftrightarrow> rw_start b < rw_start a \<or> rw_start a = rw_start b \<and> rw_id a < rw_id b"

fun scan_rows :: "recorded_window list \<Rightarrow> recorded_window option \<Rightarrow> plan_error + recorded_window option" where
  "scan_rows [] acc = Inr acc"
| "scan_rows (w # ws) acc = (if acc \<noteq> None then Inl AmbiguousExpectation else scan_rows ws (Some w))"

definition recorded_at :: "history_db \<Rightarrow> uuid \<Rightarrow> instant \<Rightarrow> plan_error + historical_plan" where
  "recorded_at db screen t =
     (if screen = uuid_nil \<or> t = zero_time then Inl InvalidInspection
      else if screen \<notin> set (hd_screens db) then Inl PlanScreenNotFound
      else andthen (scan_rows (take 2 (sort_by window_before (filter (window_contains screen t) (hd_windows db)))) None)
        (\<lambda>e. Inr \<lparr>hp_screen = screen, hp_at = t,
                   hp_basis = (if e = None then BasisUnavailable else BasisRecorded), hp_expectation = e\<rparr>))"

section \<open>The inspector\<close>

record inspection =
  ins_screen :: uuid
  ins_at :: instant
  ins_evaluated_at :: instant
  ins_basis :: evidence_basis
  ins_current :: "current_plan option"
  ins_historical :: "historical_plan option"

definition inspect ::
    "(uuid \<Rightarrow> instant \<Rightarrow> plan_error + current_plan) \<Rightarrow> (uuid \<Rightarrow> instant \<Rightarrow> plan_error + historical_plan) \<Rightarrow>
     instant \<Rightarrow> uuid \<Rightarrow> instant option \<Rightarrow> plan_error + inspection" where
  "inspect current history now screen requested =
     (if screen = uuid_nil \<or> requested = Some zero_time then Inl InvalidInspection
      else let t = (case requested of None \<Rightarrow> now | Some r \<Rightarrow> r);
               i = \<lparr>ins_screen = screen, ins_at = t, ins_evaluated_at = now, ins_basis = BasisUnavailable,
                    ins_current = None, ins_historical = None\<rparr>
           in if t < now then
                andthen (history screen t) (\<lambda>h.
                  Inr (i\<lparr>ins_basis := hp_basis h, ins_historical := Some h\<rparr>))
              else
                andthen (current screen t) (\<lambda>c.
                  Inr (i\<lparr>ins_basis := BasisCurrent, ins_current := Some c\<rparr>)))"

section \<open>The response\<close>

record candidate_evidence =
  ce_candidate :: selection_candidate
  ce_schedule :: "candidate option"

record current_evidence =
  cv_selected :: "selection option"
  cv_candidates :: "candidate_evidence list"
  cv_next :: "instant option"
  cv_synchronization :: "synchronization option"
  cv_capabilities :: "capability_assessment option"

record plan_response =
  rp_screen :: uuid
  rp_at :: instant
  rp_evaluated_at :: instant
  rp_basis :: evidence_basis
  rp_current :: "current_evidence option"
  rp_historical :: "recorded_window option option"

definition current_evidence_of :: "current_plan \<Rightarrow> current_evidence" where
  "current_evidence_of plan =
     (let schedules = map_of (rev (map (\<lambda>c. (c_schedule_id c, c)) (e_candidates (cp_explanation plan))))
      in \<lparr>cv_selected = cp_selected plan,
          cv_candidates = map (\<lambda>c. \<lparr>ce_candidate = c,
             ce_schedule = (if sc_source c = ''schedule'' then Option.bind (sc_id c) schedules else None)\<rparr>)
             (cp_candidates plan),
          cv_next = cp_next plan, cv_synchronization = cp_synchronization plan,
          cv_capabilities = cp_capabilities plan\<rparr>)"

definition response :: "inspection \<Rightarrow> plan_response" where
  "response i =
     \<lparr>rp_screen = ins_screen i, rp_at = ins_at i, rp_evaluated_at = ins_evaluated_at i,
      rp_basis = ins_basis i, rp_current = map_option current_evidence_of (ins_current i),
      rp_historical = map_option hp_expectation (ins_historical i)\<rparr>"

section \<open>Lemmas\<close>

lemma choose_selection_source:
  "choose_selection takeover quick winner inputs = Some s \<Longrightarrow>
     sel_source s = (if takeover \<noteq> None then ''takeover'' else if quick \<noteq> None then ''quick_present''
       else if winner \<noteq> None then ''schedule'' else ''assignment'')"
  by (auto simp: choose_selection_def Let_def split: option.splits)

lemma choose_selection_None:
  "choose_selection takeover quick winner inputs = None \<longleftrightarrow> takeover = None \<and> quick = None \<and> winner = None
     \<and> asg_layout (in_assignment inputs) = None \<and> asg_playlist (in_assignment inputs) = None"
  by (auto simp: choose_selection_def Let_def split: option.splits)

lemma add_candidate_defined:
  "\<not> act \<or> selected \<noteq> None \<Longrightarrow>
     \<exists>c. add_candidate selected source i act why = Some c \<and> sc_source c = source \<and>
       (sc_status c = ''selected'' \<longleftrightarrow> act \<and> (\<exists>s. selected = Some s \<and> sel_source s = source))"
  by (auto simp: add_candidate_def Let_def)

lemma add_candidate_Some:
  "act \<longrightarrow> selected \<noteq> None \<Longrightarrow> \<exists>c. add_candidate selected source i act why = Some c"
  by (auto simp: add_candidate_def Let_def)

lemma add_candidate_status:
  "add_candidate selected source i act why = Some c \<Longrightarrow> sc_source c = source \<and>
     sc_id c = i \<and> (sc_status c = ''selected'' \<longleftrightarrow> act \<and> (\<exists>s. selected = Some s \<and> sel_source s = source))"
  by (cases selected) (auto simp: add_candidate_def Let_def split: if_splits)

text \<open>A successful selection in terms of what was read.\<close>

lemma select_at_Inr:
  assumes "select_at tzdb local rd screen t inputs = Inr plan"
  obtains trace quick takeover k q g where
    "explain tzdb local t (in_schedules inputs) = Some trace"
    "rd_override rd screen t = Inr quick" "rd_takeover rd screen t = Inr takeover"
    "cp_selected plan = choose_selection takeover quick (r_winner (e_resolution trace)) inputs"
    "cp_candidates plan = [k, q] @ map (schedule_candidate (cp_selected plan) (in_names inputs)) (e_candidates trace) @ [g]"
    "add_candidate (cp_selected plan) ''takeover'' (map_option mt_id takeover) (takeover \<noteq> None) ''no_active_takeover'' = Some k"
    "add_candidate (cp_selected plan) ''quick_present'' (map_option po_id quick) (quick \<noteq> None) ''no_active_quick_present'' = Some q"
    "add_candidate (cp_selected plan) ''assignment'' None
       (asg_playlist (in_assignment inputs) \<noteq> None \<or> asg_layout (in_assignment inputs) \<noteq> None) ''no_assignment'' = Some g"
    "cp_next plan = boundary t (map_option mt_expires_at takeover)
       (boundary t (Option.bind quick po_expires_at) (r_next (e_resolution trace)))"
    "cp_explanation plan = trace" "cp_at plan = t" "cp_screen plan = screen"
proof -
  obtain trace where e: "explain tzdb local t (in_schedules inputs) = Some trace"
    using assms by (cases "explain tzdb local t (in_schedules inputs)") (auto simp: select_at_def)
  obtain quick takeover where q: "rd_override rd screen t = Inr quick" "rd_takeover rd screen t = Inr takeover"
    using assms by (cases "rd_override rd screen t"; cases "rd_takeover rd screen t")
      (auto simp: select_at_def e)
  define sel where "sel = choose_selection takeover quick (r_winner (e_resolution trace)) inputs"
  define K where "K = add_candidate sel ''takeover'' (map_option mt_id takeover) (takeover \<noteq> None) ''no_active_takeover''"
  define Q where "Q = add_candidate sel ''quick_present'' (map_option po_id quick) (quick \<noteq> None) ''no_active_quick_present''"
  define G where "G = add_candidate sel ''assignment'' None
     (asg_playlist (in_assignment inputs) \<noteq> None \<or> asg_layout (in_assignment inputs) \<noteq> None) ''no_assignment''"
  note r = assms [unfolded select_at_def Let_def e q option.case andthen_simps, folded sel_def, folded K_def Q_def G_def]
  obtain k q' g where kqg: "K = Some k" "Q = Some q'" "G = Some g"
    using r by (cases K; cases Q; cases G) simp_all
  have "plan = \<lparr>cp_screen = screen, cp_at = t, cp_basis = ''current_configuration'', cp_selected = sel,
      cp_candidates = [k, q'] @ map (schedule_candidate sel (in_names inputs)) (e_candidates trace) @ [g],
      cp_next = boundary t (map_option mt_expires_at takeover)
        (boundary t (Option.bind quick po_expires_at) (r_next (e_resolution trace))),
      cp_explanation = trace, cp_synchronization = None, cp_capabilities = None\<rparr>"
    using r by (simp add: kqg)
  then show thesis
    using that [OF e q, of k q' g] kqg unfolding K_def Q_def G_def by (simp add: sel_def)
qed

lemma select_at_total:
  assumes "explain tzdb local t (in_schedules inputs) = Some trace"
    and "rd_override rd screen t = Inr quick" and "rd_takeover rd screen t = Inr takeover"
  shows "\<exists>plan. select_at tzdb local rd screen t inputs = Inr plan"
proof -
  define sel where "sel = choose_selection takeover quick (r_winner (e_resolution trace)) inputs"
  have "sel \<noteq> None" if "takeover \<noteq> None \<or> quick \<noteq> None
      \<or> asg_playlist (in_assignment inputs) \<noteq> None \<or> asg_layout (in_assignment inputs) \<noteq> None"
    using that by (auto simp: sel_def choose_selection_None)
  then have d: "(takeover \<noteq> None \<longrightarrow> sel \<noteq> None) \<and> (quick \<noteq> None \<longrightarrow> sel \<noteq> None)
      \<and> (asg_playlist (in_assignment inputs) \<noteq> None \<or> asg_layout (in_assignment inputs) \<noteq> None \<longrightarrow> sel \<noteq> None)"
    by blast
  have "\<exists>k. add_candidate sel ''takeover'' (map_option mt_id takeover) (takeover \<noteq> None)
      ''no_active_takeover'' = Some k"
    by (rule add_candidate_Some) (use d in blast)
  then obtain k where k: "add_candidate sel ''takeover'' (map_option mt_id takeover) (takeover \<noteq> None)
      ''no_active_takeover'' = Some k" ..
  have "\<exists>q. add_candidate sel ''quick_present'' (map_option po_id quick) (quick \<noteq> None)
      ''no_active_quick_present'' = Some q"
    by (rule add_candidate_Some) (use d in blast)
  then obtain q where q: "add_candidate sel ''quick_present'' (map_option po_id quick) (quick \<noteq> None)
      ''no_active_quick_present'' = Some q" ..
  have "\<exists>g. add_candidate sel ''assignment'' None
      (asg_playlist (in_assignment inputs) \<noteq> None \<or> asg_layout (in_assignment inputs) \<noteq> None)
      ''no_assignment'' = Some g"
    by (rule add_candidate_Some) (use d in blast)
  then obtain g where g: "add_candidate sel ''assignment'' None
      (asg_playlist (in_assignment inputs) \<noteq> None \<or> asg_layout (in_assignment inputs) \<noteq> None)
      ''no_assignment'' = Some g" ..
  show ?thesis
    unfolding select_at_def Let_def assms option.case andthen_simps sel_def [symmetric] k q g prod.case
    by blast
qed

text \<open>The trace marks one candidate as selected exactly if there is a winner.\<close>

lemma explain_candidate_selected:
  assumes r: "resolve tzdb local t ss = Some r" and d: "distinct (map sch_id ss)" and s: "s \<in> set ss"
  shows "c_status (the (explain_candidate r s)) = CandidateSelected \<longleftrightarrow>
    (\<exists>w. r_winner r = Some w \<and> a_schedule w = s)"
proof
  assume c: "c_status (the (explain_candidate r s)) = CandidateSelected"
  have "explains r (case active_at tzdb local s t of Some x \<Rightarrow> x | None \<Rightarrow> None) s (the (explain_candidate r s))"
    by (rule explain_candidate_explains [OF r d s])
  with c obtain a where a: "active_at tzdb local s t = Some (Some a)" "r_winner r = Some a"
    by (auto simp: explains_def split: if_splits option.splits)
  then have "a_schedule a = s" by (auto simp: active_at_def dest: interval_at_active)
  with a show "\<exists>w. r_winner r = Some w \<and> a_schedule w = s" by blast
next
  assume "\<exists>w. r_winner r = Some w \<and> a_schedule w = s"
  then obtain w where w: "r_winner r = Some w" "a_schedule w = s" by blast
  have mem: "w \<in> set (r_applicable r)" using resolve_winner_fact [OF r] w by simp
  then obtain s' where s': "s' \<in> set ss" "sch_enabled s'" "active_at tzdb local s' t = Some (Some w)"
    by (auto simp: applicable_iff [OF r])
  then have "s' = s" using w by (auto simp: active_at_def dest: interval_at_active)
  with s' have "explains r (Some w) s (the (explain_candidate r s))" and "sch_enabled s"
    using explain_candidate_explains [OF r d s] by simp_all
  then show "c_status (the (explain_candidate r s)) = CandidateSelected"
    using w by (simp add: explains_def)
qed

lemma selected_candidates:
  assumes r: "resolve tzdb local t ss = Some r" and d: "distinct (map sch_id ss)"
    and e: "explain tzdb local t ss = Some trace"
  shows "filter (\<lambda>c. c_status c = CandidateSelected) (e_candidates trace) =
    (case r_winner r of None \<Rightarrow> [] | Some w \<Rightarrow> [the (explain_candidate r (a_schedule w))])"
proof -
  let ?P = "\<lambda>c. c_status c = CandidateSelected"
  let ?cs = "map (the \<circ> explain_candidate r) ss"
  have "e_candidates trace = sort_by trace_before ?cs" using e explain_defined [OF r] by auto
  then have "mset (filter ?P (e_candidates trace)) = mset (filter ?P ?cs)" by (metis mset_filter mset_sort_by)
  also have "filter ?P ?cs = map (the \<circ> explain_candidate r) (filter (\<lambda>s. ?P (the (explain_candidate r s))) ss)"
    by (simp add: filter_map comp_def)
  also have "filter (\<lambda>s. ?P (the (explain_candidate r s))) ss = filter (\<lambda>s. \<exists>w. r_winner r = Some w \<and> a_schedule w = s) ss"
    by (rule filter_cong [OF refl]) (rule explain_candidate_selected [OF r d])
  also have "\<dots> = (case r_winner r of None \<Rightarrow> [] | Some w \<Rightarrow> [a_schedule w])"
  proof (cases "r_winner r")
    case None
    then show ?thesis by simp
  next
    case (Some w)
    have "w \<in> set (r_applicable r)" using resolve_winner_fact [OF r] Some by simp
    then have "a_schedule w \<in> set ss"
      by (auto simp: applicable_iff [OF r] active_at_def dest: interval_at_active)
    moreover have "distinct ss" using d by (simp add: distinct_map)
    ultimately have "filter (\<lambda>s. a_schedule w = s) ss = [a_schedule w]"
      by (intro filter_unique) auto
    then show ?thesis using Some by simp
  qed
  finally show ?thesis by (cases "r_winner r") (simp_all del: mset_filter)
qed

lemma winner_candidate_id:
  assumes r: "resolve tzdb local t ss = Some r" and d: "distinct (map sch_id ss)" and w: "r_winner r = Some w"
  shows "c_schedule_id (the (explain_candidate r (a_schedule w))) = sch_id (a_schedule w)"
proof -
  have "w \<in> set (r_applicable r)" using resolve_winner_fact [OF r] w by simp
  then have "a_schedule w \<in> set ss"
    by (auto simp: applicable_iff [OF r] active_at_def dest: interval_at_active)
  from explain_candidate_explains [OF r d this] show ?thesis by (simp add: explains_def)
qed

lemma explain_resolution:
  "explain tzdb local t ss = Some trace \<Longrightarrow> resolve tzdb local t ss = Some (e_resolution trace)"
  by (auto simp: explain_def split: option.splits)

lemma schedule_candidate_selected:
  "sc_status (schedule_candidate selected names c) = ''selected'' \<longleftrightarrow> c_status c = CandidateSelected
     \<and> \<not> (\<exists>s. selected = Some s \<and> (sel_source s = ''takeover'' \<or> sel_source s = ''quick_present''))"
  by (cases "c_status c") (auto simp: schedule_candidate_def Let_def split: option.splits)

lemma schedule_candidate_source [simp]: "sc_source (schedule_candidate selected names c) = ''schedule''"
  by (simp add: schedule_candidate_def Let_def)

lemma schedule_candidate_id: "sc_id (schedule_candidate selected names c) = Some (c_schedule_id c)"
  by (simp add: schedule_candidate_def Let_def)

lemma boundary_earliest:
  "is_earliest S r \<Longrightarrow> is_earliest ({x. b = Some x \<and> t < x} \<union> S) (boundary t b r)"
proof (cases b)
  case None
  then show "is_earliest S r \<Longrightarrow> ?thesis" by (simp add: boundary_def)
next
  case (Some a)
  have "{x. Some a = Some x \<and> t < x} = {a} \<inter> {x. t < x}" by auto
  then show "is_earliest S r \<Longrightarrow> ?thesis"
    using earliest_after_step [of S r a t] Some by (simp add: boundary_def)
qed

text \<open>Which source a selection names, and which schedule candidates are marked.\<close>

lemma choose_selection_origin:
  fixes takeover quick winner inputs
  defines "sel \<equiv> choose_selection takeover quick winner inputs"
  shows "case sel of None \<Rightarrow> takeover = None \<and> quick = None \<and> winner = None
         \<and> asg_layout (in_assignment inputs) = None \<and> asg_playlist (in_assignment inputs) = None
      | Some s \<Rightarrow> sel_source s = (if takeover \<noteq> None then ''takeover'' else if quick \<noteq> None then ''quick_present''
          else if winner \<noteq> None then ''schedule'' else ''assignment'')"
    and "(\<exists>s. sel = Some s \<and> sel_source s = ''takeover'') \<longleftrightarrow> takeover \<noteq> None"
    and "(\<exists>s. sel = Some s \<and> sel_source s = ''quick_present'') \<longleftrightarrow> takeover = None \<and> quick \<noteq> None"
    and "(\<exists>s. sel = Some s \<and> sel_source s = ''assignment'') \<longleftrightarrow> takeover = None \<and> quick = None \<and> winner = None \<and> sel \<noteq> None"
proof -
  show src: "case sel of None \<Rightarrow> takeover = None \<and> quick = None \<and> winner = None
         \<and> asg_layout (in_assignment inputs) = None \<and> asg_playlist (in_assignment inputs) = None
      | Some s \<Rightarrow> sel_source s = (if takeover \<noteq> None then ''takeover'' else if quick \<noteq> None then ''quick_present''
          else if winner \<noteq> None then ''schedule'' else ''assignment'')"
    using choose_selection_source [of takeover quick winner inputs] choose_selection_None [of takeover quick winner inputs]
    by (auto simp: sel_def [symmetric] split: option.split)
  note nn = choose_selection_None [of takeover quick winner inputs, folded sel_def]
  show "(\<exists>s. sel = Some s \<and> sel_source s = ''takeover'') \<longleftrightarrow> takeover \<noteq> None"
    "(\<exists>s. sel = Some s \<and> sel_source s = ''quick_present'') \<longleftrightarrow> takeover = None \<and> quick \<noteq> None"
    "(\<exists>s. sel = Some s \<and> sel_source s = ''assignment'') \<longleftrightarrow> takeover = None \<and> quick = None \<and> winner = None \<and> sel \<noteq> None"
    using src nn by (cases sel; auto split: if_splits)+
qed

lemma selected_schedules:
  assumes e: "explain tzdb local t ss = Some trace" and d: "distinct (map sch_id ss)"
    and sel: "sel = choose_selection takeover quick (r_winner (e_resolution trace)) inputs"
  shows "map (\<lambda>c. (sc_source c, sc_id c)) (filter (\<lambda>c. sc_status c = ''selected'') (map (schedule_candidate sel names) (e_candidates trace)))
    = (if takeover = None \<and> quick = None
       then (case r_winner (e_resolution trace) of None \<Rightarrow> [] | Some w \<Rightarrow> [(''schedule'', Some (sch_id (a_schedule w)))]) else [])"
proof -
  note r = explain_resolution [OF e]
  have "filter (\<lambda>c. sc_status c = ''selected'') (map (schedule_candidate sel names) (e_candidates trace)) =
      map (schedule_candidate sel names)
        (if takeover = None \<and> quick = None then filter (\<lambda>c. c_status c = CandidateSelected) (e_candidates trace) else [])"
    using choose_selection_origin(1) [of takeover quick "r_winner (e_resolution trace)" inputs, folded sel]
    by (auto simp: filter_map comp_def schedule_candidate_selected filter_empty_conv
        split: option.splits if_splits intro!: arg_cong [where f = "map _"] filter_cong)
  then show ?thesis
    by (simp add: selected_candidates [OF r d e] schedule_candidate_id winner_candidate_id [OF r d] split: option.split)
qed

definition maybe :: "'a option \<Rightarrow> 'a list" where
  "maybe x = (case x of None \<Rightarrow> [] | Some y \<Rightarrow> [y])"

text \<open>
  What the records ask for, in the order of precedence: the source, the type and the identifier of the content, the record
  that asks for it and the revision.
\<close>

definition available_presentations ::
    "manifest_takeover option \<Rightarrow> presentation_override option \<Rightarrow> active option \<Rightarrow> assignment \<Rightarrow>
     (string \<times> string \<times> uuid \<times> uuid option \<times> int option) list" where
  "available_presentations takeover quick winner a =
     [(''takeover'', ''playlist'', mt_playlist k, Some (mt_id k), None). k \<leftarrow> maybe takeover] @
     [(''quick_present'', po_content_type q, po_content_id q, Some (po_id q), None). q \<leftarrow> maybe quick] @
     [(''schedule'', ''layout'', l, Some (sch_id (a_schedule w)), None). w \<leftarrow> maybe winner, l \<leftarrow> maybe (sch_layout (a_schedule w))] @
     [(''schedule'', ''playlist'', sch_playlist (a_schedule w), Some (sch_id (a_schedule w)), None). w \<leftarrow> maybe winner] @
     [(''assignment'', ''layout'', l, None, asg_layout_revision a). l \<leftarrow> maybe (asg_layout a)] @
     [(''assignment'', ''playlist'', p, None, asg_playlist_revision a). p \<leftarrow> maybe (asg_playlist a)]"

definition selection_summary :: "selection \<Rightarrow> string \<times> string \<times> uuid \<times> uuid option \<times> int option" where
  "selection_summary s = (sel_source s, sel_content_type s, sel_content_id s, sel_selection_id s, sel_revision s)"

lemma choose_selection_first:
  "map_option selection_summary (choose_selection takeover quick winner inputs)
     = (case available_presentations takeover quick winner (in_assignment inputs) of [] \<Rightarrow> None | x # _ \<Rightarrow> Some x)"
  by (cases takeover; cases quick; cases winner; cases "asg_layout (in_assignment inputs)"; cases "asg_playlist (in_assignment inputs)")
    (simp_all add: choose_selection_def available_presentations_def selection_summary_def maybe_def Let_def split: option.split)

lemma selection_ids:
  "choose_selection takeover quick winner inputs = Some s \<Longrightarrow> sel_selection_id s =
     (case takeover of Some k \<Rightarrow> Some (mt_id k) | None \<Rightarrow> case quick of Some q \<Rightarrow> Some (po_id q)
      | None \<Rightarrow> map_option (\<lambda>w. sch_id (a_schedule w)) winner)"
  by (auto simp: choose_selection_def Let_def split: option.splits)

lemma marked_candidate:
  assumes "select_at tzdb local rd screen t inputs = Inr plan" and "distinct (map sch_id (in_schedules inputs))"
  shows "map (\<lambda>c. (sc_source c, sc_id c)) (filter (\<lambda>c. sc_status c = ''selected'') (cp_candidates plan))
      = (case cp_selected plan of None \<Rightarrow> [] | Some s \<Rightarrow> [(sel_source s, sel_selection_id s)])"
proof -
  let ?sel = "cp_selected plan"
  let ?P = "\<lambda>c. sc_status c = ''selected''"
  obtain trace quick takeover k q g where
    e: "explain tzdb local t (in_schedules inputs) = Some trace"
    and sel: "?sel = choose_selection takeover quick (r_winner (e_resolution trace)) inputs"
    and cs: "cp_candidates plan = [k, q] @ map (schedule_candidate ?sel (in_names inputs)) (e_candidates trace) @ [g]"
    and k: "add_candidate ?sel ''takeover'' (map_option mt_id takeover) (takeover \<noteq> None) ''no_active_takeover'' = Some k"
    and q: "add_candidate ?sel ''quick_present'' (map_option po_id quick) (quick \<noteq> None) ''no_active_quick_present'' = Some q"
    and g: "add_candidate ?sel ''assignment'' None
       (asg_playlist (in_assignment inputs) \<noteq> None \<or> asg_layout (in_assignment inputs) \<noteq> None) ''no_assignment'' = Some g"
    by (rule select_at_Inr [OF assms(1)]) blast
  let ?w = "r_winner (e_resolution trace)"
  note src = choose_selection_origin(1) [of takeover quick ?w inputs, folded sel]
  note origin = choose_selection_origin(2-4) [of takeover quick ?w inputs, folded sel]
  have asg: "takeover = None \<and> quick = None \<and> ?w = None \<and> ?sel \<noteq> None \<Longrightarrow>
      asg_playlist (in_assignment inputs) \<noteq> None \<or> asg_layout (in_assignment inputs) \<noteq> None"
    using choose_selection_None [of takeover quick ?w inputs, folded sel]
    by (cases "asg_playlist (in_assignment inputs)"; cases "asg_layout (in_assignment inputs)"; auto)
  have pk: "sc_source k = ''takeover''" "sc_id k = map_option mt_id takeover" "?P k \<longleftrightarrow> takeover \<noteq> None"
    using add_candidate_status [OF k] unfolding origin by blast+
  have pq: "sc_source q = ''quick_present''" "sc_id q = map_option po_id quick" "?P q \<longleftrightarrow> takeover = None \<and> quick \<noteq> None"
    using add_candidate_status [OF q] unfolding origin by blast+
  have pg: "sc_source g = ''assignment''" "sc_id g = None" "?P g \<longleftrightarrow> takeover = None \<and> quick = None \<and> ?w = None \<and> ?sel \<noteq> None"
    using add_candidate_status [OF g] asg unfolding origin by blast+
  have ids: "sel_selection_id s = (case takeover of Some k \<Rightarrow> Some (mt_id k) | None \<Rightarrow> case quick of Some q \<Rightarrow> Some (po_id q)
      | None \<Rightarrow> map_option (\<lambda>w. sch_id (a_schedule w)) ?w)" if "?sel = Some s" for s
    using that unfolding sel by (rule selection_ids)
  show ?thesis
    unfolding cs filter_append map_append selected_schedules [OF e assms(2) sel] using pk pq pg src ids
    by (cases ?sel; cases takeover; cases quick; cases ?w; simp)
qed

section \<open>Properties\<close>

text \<open>
  C14. The presentation a screen should show now: the playlist of an active takeover, else the content of a quick present,
  else the Layout or the playlist of the winning schedule, else the assigned Layout, else the assigned playlist, with the
  record that asks for it and the revision; nothing is selected only if there is none of them. The winner is taken among the
  schedules that have a playlist or a Layout. With distinct schedule identifiers exactly one candidate of the trace is marked
  as selected when something is selected: the one with the source and the record of the selection; otherwise none is.
\<close>

theorem current_selection_exact:
  assumes "current_at tzdb local rd screen t = Inr plan"
    and "rd_assignment rd screen = Inr a" "rd_schedules rd screen = Inr records"
    and "rd_override rd screen t = Inr quick" "rd_takeover rd screen t = Inr takeover"
    and "distinct (map (sch_id \<circ> rec_schedule) records)"
  shows "\<exists>r. resolve tzdb local t (map rec_schedule
         (filter (\<lambda>r. sch_playlist (rec_schedule r) \<noteq> uuid_nil \<or> sch_layout (rec_schedule r) \<noteq> None) records)) = Some r
    \<and> map_option selection_summary (cp_selected plan)
      = (case available_presentations takeover quick (r_winner r) a of [] \<Rightarrow> None | x # _ \<Rightarrow> Some x)
    \<and> map (\<lambda>c. (sc_source c, sc_id c)) (filter (\<lambda>c. sc_status c = ''selected'') (cp_candidates plan))
      = (case cp_selected plan of None \<Rightarrow> [] | Some s \<Rightarrow> [(sel_source s, sel_selection_id s)])"
proof -
  let ?used = "filter (\<lambda>r. sch_playlist (rec_schedule r) \<noteq> uuid_nil \<or> sch_layout (rec_schedule r) \<noteq> None) records"
  define inputs where "inputs = \<lparr>in_assignment = a, in_schedules = map rec_schedule ?used,
    in_names = fold (\<lambda>r m. m(sch_id (rec_schedule r) := rec_name r)) ?used (\<lambda>_. [])\<rparr>"
  have inp: "in_assignment inputs = a" "in_schedules inputs = map rec_schedule ?used" by (simp_all add: inputs_def)
  have "load_selection_inputs rd screen = Inr inputs"
    by (simp only: load_selection_inputs_def assms(2,3) andthen_simps Let_def inputs_def)
  then have s: "select_at tzdb local rd screen t inputs = Inr plan"
    using assms(1) by (simp add: current_at_def split: if_splits)
  have "distinct (map (sch_id \<circ> rec_schedule) ?used)" using assms(6) by (rule distinct_map_filter)
  then have d: "distinct (map sch_id (in_schedules inputs))" by (simp add: inp)
  obtain trace where e: "explain tzdb local t (in_schedules inputs) = Some trace"
    and sel: "cp_selected plan = choose_selection takeover quick (r_winner (e_resolution trace)) inputs"
    using select_at_Inr [OF s] assms(4,5) by (metis sum.inject(2))
  have "map_option selection_summary (cp_selected plan)
      = (case available_presentations takeover quick (r_winner (e_resolution trace)) a of [] \<Rightarrow> None | x # _ \<Rightarrow> Some x)"
    unfolding sel choose_selection_first inp(1) ..
  moreover note marked_candidate [OF s d]
  moreover note explain_resolution [OF e, unfolded inp(2)]
  ultimately show ?thesis by blast
qed

text \<open>
  The selection never dereferences a nil pointer: with validated schedules and readers
  that answer, the plan is produced. In particular the trace reads the reason of the selection only when
  there is one.
\<close>

theorem current_selection_total:
  assumes "\<forall>s\<in>set (in_schedules inputs). sch_enabled s \<longrightarrow> validate_schedule tzdb local s = Inr ()"
    and "rd_override rd screen t = Inr quick" and "rd_takeover rd screen t = Inr takeover"
  shows "\<exists>plan. select_at tzdb local rd screen t inputs = Inr plan \<and> cp_at plan = t \<and> cp_screen plan = screen"
proof -
  obtain r where "resolve tzdb local t (in_schedules inputs) = Some r"
    using validated_enabled_ok [OF assms(1)] by (simp add: resolve_closed)
  then obtain trace where "explain tzdb local t (in_schedules inputs) = Some trace"
    using explain_defined by blast
  from select_at_total [OF this assms(2,3)] obtain plan where
    p: "select_at tzdb local rd screen t inputs = Inr plan" ..
  then have "cp_at plan = t \<and> cp_screen plan = screen"
    using select_at_Inr [OF p] by metis
  with p show ?thesis by blast
qed

text \<open>
  NextEvaluationAt is the earliest instant after the evaluation at which an input changes:
  the earliest of the schedule transitions, the expiry of the quick present and the expiry of the takeover,
  each counted only if it is still to come.
\<close>

theorem next_evaluation_earliest:
  assumes "select_at tzdb local rd screen t inputs = Inr plan"
    and "rd_override rd screen t = Inr quick" and "rd_takeover rd screen t = Inr takeover"
  shows "is_earliest
    ({x. t < x \<and> (takeover \<noteq> None \<and> x = mt_expires_at (the takeover) \<or>
                  quick \<noteq> None \<and> po_expires_at (the quick) = Some x \<or>
                  x \<in> set (transitions tzdb local t (in_schedules inputs)))})
    (cp_next plan)"
proof -
  obtain trace where e: "explain tzdb local t (in_schedules inputs) = Some trace"
    and n: "cp_next plan = boundary t (map_option mt_expires_at takeover)
       (boundary t (Option.bind quick po_expires_at) (r_next (e_resolution trace)))"
    by (rule select_at_Inr [OF assms(1)]) (use assms(2,3) in auto)
  have "is_earliest (set (transitions tzdb local t (in_schedules inputs)) \<inter> {x. t < x}) (r_next (e_resolution trace))"
    unfolding resolve_Some(4) [OF explain_resolution [OF e]] by (rule earliest_after_spec)
  from boundary_earliest [OF boundary_earliest [OF this], of "map_option mt_expires_at takeover" t
      "Option.bind quick po_expires_at" t]
  show ?thesis unfolding n
    by (rule back_subst [where P = "\<lambda>S. is_earliest S _"])
      (auto simp: bind_eq_Some_conv)
qed

definition example_readers :: readers where
  "example_readers =
     \<lparr>rd_assignment = (\<lambda>_. Inl PlanScreenNotFound),
      rd_takeover = (\<lambda>_ _. Inr (Some \<lparr>mt_id = UUID ''k'', mt_playlist = UUID ''p'', mt_activated_at = 0,
        mt_expires_at = 90\<rparr>)),
      rd_schedules = (\<lambda>_. Inr []), rd_override = (\<lambda>_ _. Inr None)\<rparr>"

definition example_inputs :: selection_inputs where
  "example_inputs =
     \<lparr>in_assignment = \<lparr>asg_playlist = Some (UUID ''p''), asg_playlist_revision = None, asg_layout = None,
        asg_layout_revision = None, asg_manifest_version = 4, asg_player_active = None,
        asg_player_pending = None\<rparr>,
      in_schedules = [night_window], in_names = (\<lambda>_. [])\<rparr>"

lemma example_plan: "\<exists>plan. select_at (\<lambda>_. None) utc example_readers (UUID ''s'') 0 example_inputs = Inr plan"
proof -
  have "resolve (\<lambda>_. None) utc 0 [night_window] \<noteq> None"
    using validated_enabled_ok [of "[night_window]"] by (simp add: resolve_closed night_window_valid)
  then obtain trace where "explain (\<lambda>_. None) utc 0 (in_schedules example_inputs) = Some trace"
    using explain_defined by (fastforce simp: example_inputs_def)
  then show ?thesis by (rule select_at_total) (simp_all add: example_readers_def)
qed

text \<open>A winning schedule with a Layout is shown before the assigned playlist.\<close>

definition layout_schedule :: schedule where
  "layout_schedule = night_window\<lparr>sch_layout := Some (UUID ''l'')\<rparr>"

definition layout_readers :: readers where
  "layout_readers =
     \<lparr>rd_assignment = (\<lambda>_. Inr (in_assignment example_inputs)), rd_takeover = (\<lambda>_ _. Inr None),
      rd_schedules = (\<lambda>_. Inr [\<lparr>rec_schedule = layout_schedule, rec_name = ''Night''\<rparr>]), rd_override = (\<lambda>_ _. Inr None)\<rparr>"

lemma layout_winner:
  assumes "resolve (\<lambda>_. None) utc 0 [layout_schedule] = Some r"
  shows "\<exists>w. r_winner r = Some w \<and> a_schedule w = layout_schedule"
proof -
  have "interval_at (\<lambda>_. None) utc layout_schedule 0 = Some (Some (as_active layout_schedule (0, 40 * hour)), [0, 40 * hour])"
    by (simp add: interval_at_def layout_schedule_def night_window_def office_hours_def one_time_def covers_def
        one_time_allowed_def hour_def minute_def second_def)
  then have "active_at (\<lambda>_. None) utc layout_schedule 0 = Some (Some (as_active layout_schedule (0, 40 * hour)))"
    "sch_enabled layout_schedule"
    by (simp_all add: active_at_def) (simp add: layout_schedule_def night_window_def office_hours_def)
  then have "r_applicable r \<noteq> []" using applicable_iff [OF assms] by force
  then obtain w where w: "r_winner r = Some w" "w \<in> set (r_applicable r)"
    using resolve_winner_fact [OF assms] by (cases "r_winner r") auto
  then have "a_schedule w = layout_schedule"
    by (auto simp: applicable_iff [OF assms] active_at_def dest: interval_at_active)
  with w show ?thesis by blast
qed

theorem current_selection_exact_witness:
  "\<exists>plan. current_at (\<lambda>_. None) utc layout_readers (UUID ''s'') 0 = Inr plan
    \<and> map_option selection_summary (cp_selected plan) = Some (''schedule'', ''layout'', UUID ''l'', Some (UUID ''b''), None)
    \<and> map (\<lambda>c. (sc_source c, sc_id c)) (filter (\<lambda>c. sc_status c = ''selected'') (cp_candidates plan))
      = [(''schedule'', Some (UUID ''b''))]"
proof -
  have v: "validate_schedule (\<lambda>_. None) utc layout_schedule = Inr ()"
    by (simp add: layout_schedule_def night_window_def office_hours_def validate_schedule_def load_location_def
        utc_def one_time_def hour_def minute_def second_def)
  obtain r0 where "resolve (\<lambda>_. None) utc 0 [layout_schedule] = Some r0"
    using validated_enabled_ok [of "[layout_schedule]" "\<lambda>_. None" utc 0] v by (auto simp: resolve_closed)
  then obtain trace where "explain (\<lambda>_. None) utc 0 [layout_schedule] = Some trace" using explain_defined by blast
  moreover have load: "load_selection_inputs layout_readers (UUID ''s'')
      = Inr \<lparr>in_assignment = in_assignment example_inputs, in_schedules = [layout_schedule],
          in_names = (\<lambda>_. [])(UUID ''b'' := ''Night'')\<rparr>"
    by (simp add: load_selection_inputs_def layout_readers_def layout_schedule_def night_window_def)
  ultimately obtain plan where "select_at (\<lambda>_. None) utc layout_readers (UUID ''s'') 0
      \<lparr>in_assignment = in_assignment example_inputs, in_schedules = [layout_schedule],
          in_names = (\<lambda>_. [])(UUID ''b'' := ''Night'')\<rparr> = Inr plan"
    using select_at_total [where inputs = "\<lparr>in_assignment = in_assignment example_inputs, in_schedules = [layout_schedule],
          in_names = (\<lambda>_. [])(UUID ''b'' := ''Night'')\<rparr>" and rd = layout_readers and tzdb = "\<lambda>_. None" and local = utc
          and t = 0 and screen = "UUID ''s''" and trace = trace and quick = None and takeover = None]
    by (fastforce simp: layout_readers_def)
  with load have p: "current_at (\<lambda>_. None) utc layout_readers (UUID ''s'') 0 = Inr plan"
    by (simp add: current_at_def uuid_nil_def zero_time_def second_def)
  have "\<exists>r. resolve (\<lambda>_. None) utc 0 (map rec_schedule (filter (\<lambda>r. sch_playlist (rec_schedule r) \<noteq> uuid_nil
         \<or> sch_layout (rec_schedule r) \<noteq> None) [\<lparr>rec_schedule = layout_schedule, rec_name = ''Night''\<rparr>])) = Some r
    \<and> map_option selection_summary (cp_selected plan)
      = (case available_presentations None None (r_winner r) (in_assignment example_inputs) of [] \<Rightarrow> None | x # _ \<Rightarrow> Some x)
    \<and> map (\<lambda>c. (sc_source c, sc_id c)) (filter (\<lambda>c. sc_status c = ''selected'') (cp_candidates plan))
      = (case cp_selected plan of None \<Rightarrow> [] | Some s \<Rightarrow> [(sel_source s, sel_selection_id s)])"
    by (rule current_selection_exact [OF p]) (simp_all add: layout_readers_def)
  then obtain r where r: "resolve (\<lambda>_. None) utc 0 [layout_schedule] = Some r"
    and sel: "map_option selection_summary (cp_selected plan)
      = (case available_presentations None None (r_winner r) (in_assignment example_inputs) of [] \<Rightarrow> None | x # _ \<Rightarrow> Some x)"
    and cand: "map (\<lambda>c. (sc_source c, sc_id c)) (filter (\<lambda>c. sc_status c = ''selected'') (cp_candidates plan))
      = (case cp_selected plan of None \<Rightarrow> [] | Some s \<Rightarrow> [(sel_source s, sel_selection_id s)])"
    by (auto simp: layout_schedule_def)
  from layout_winner [OF r] sel have "map_option selection_summary (cp_selected plan)
      = Some (''schedule'', ''layout'', UUID ''l'', Some (UUID ''b''), None)"
    by (auto simp: available_presentations_def maybe_def layout_schedule_def night_window_def)
  with p cand show ?thesis by (auto simp: selection_summary_def)
qed

theorem current_selection_total_witness:
  "\<exists>plan. select_at (\<lambda>_. None) utc example_readers (UUID ''s'') 0 example_inputs = Inr plan"
  using current_selection_total [of example_inputs "\<lambda>_. None" utc example_readers "UUID ''s''" 0]
  by (auto simp: example_inputs_def night_window_valid example_readers_def)

theorem next_evaluation_earliest_witness:
  "\<exists>plan. select_at (\<lambda>_. None) utc example_readers (UUID ''s'') 0 example_inputs = Inr plan
    \<and> cp_next plan \<noteq> None"
proof -
  obtain plan where p: "select_at (\<lambda>_. None) utc example_readers (UUID ''s'') 0 example_inputs = Inr plan"
    using example_plan by blast
  have "rd_override example_readers (UUID ''s'') 0 = Inr None"
    "rd_takeover example_readers (UUID ''s'') 0 = Inr (Some \<lparr>mt_id = UUID ''k'', mt_playlist = UUID ''p'',
       mt_activated_at = 0, mt_expires_at = 90\<rparr>)"
    by (simp_all add: example_readers_def)
  from next_evaluation_earliest [OF p this] p show ?thesis
    by (force simp: is_earliest_def split: option.splits)
qed

section \<open>History and inspection\<close>

interpretation windows: ranking window_before "\<lambda>w. (- rw_start w, rw_id w)"
  by unfold_locales (auto simp: window_before_def)

text \<open>
  Recorded history answers from the recorded windows alone. An expectation is returned exactly if one
  window contains the instant, and it is that window; overlapping windows are an error, never a guess; and
  when none contains the instant the plan says that the evidence is unavailable.
\<close>

theorem recorded_history_exact:
  assumes "screen \<noteq> uuid_nil" "t \<noteq> zero_time" "screen \<in> set (hd_screens db)"
  shows "recorded_at db screen t = (case filter (window_contains screen t) (hd_windows db) of
      [] \<Rightarrow> Inr \<lparr>hp_screen = screen, hp_at = t, hp_basis = BasisUnavailable, hp_expectation = None\<rparr>
    | [w] \<Rightarrow> Inr \<lparr>hp_screen = screen, hp_at = t, hp_basis = BasisRecorded, hp_expectation = Some w\<rparr>
    | _ \<Rightarrow> Inl AmbiguousExpectation)"
proof -
  define ws where "ws = filter (window_contains screen t) (hd_windows db)"
  have l: "length (sort_by window_before ws) = length ws" by simp
  consider "ws = []" | w where "ws = [w]" | a b cs where "ws = a # b # cs"
    by (cases ws rule: remdups_adj.cases) auto
  then show ?thesis
  proof cases
    case 1
    then show ?thesis using assms by (simp add: recorded_at_def ws_def [symmetric])
  next
    case (2 w)
    then show ?thesis using assms by (simp add: recorded_at_def ws_def [symmetric] sort_by_def)
  next
    case (3 a b cs)
    then obtain a' b' cs' where "sort_by window_before ws = a' # b' # cs'"
      using l by (metis length_Suc_conv)
    then show ?thesis using 3 assms by (simp add: recorded_at_def ws_def [symmetric])
  qed
qed

theorem recorded_history_exact_witness:
  "recorded_at \<lparr>hd_screens = [UUID ''s''], hd_windows = []\<rparr> (UUID ''s'') 5
    = Inr \<lparr>hp_screen = UUID ''s'', hp_at = 5, hp_basis = BasisUnavailable, hp_expectation = None\<rparr>"
  by (subst recorded_history_exact) (simp_all add: uuid_nil_def zero_time_def second_def)

text \<open>
  An inspection has exactly one branch of evidence. A past instant is answered from the recorded
  history only, whatever the current configuration says, and an error or a gap there is passed on; the
  present and the future are answered from the current configuration only.
\<close>

theorem inspection_exclusive:
  assumes "inspect current history now screen requested = Inr i"
  shows "(ins_historical i \<noteq> None) = (ins_at i < now) \<and> (ins_current i \<noteq> None) = (\<not> ins_at i < now)
    \<and> ins_at i = (case requested of None \<Rightarrow> now | Some r \<Rightarrow> r)
    \<and> (case ins_historical i of None \<Rightarrow> ins_basis i = BasisCurrent
         | Some h \<Rightarrow> history screen (ins_at i) = Inr h \<and> ins_basis i = hp_basis h)
    \<and> (case ins_current i of None \<Rightarrow> True | Some c \<Rightarrow> current screen (ins_at i) = Inr c)
    \<and> (ins_at i < now \<longrightarrow> (\<forall>current'. inspect current' history now screen requested = Inr i))"
  using assms by (auto simp: inspect_def Let_def split: if_splits)

theorem inspection_exclusive_witness:
  "\<exists>i. inspect (\<lambda>_ _. Inl NilDereference)
      (\<lambda>s t. Inr \<lparr>hp_screen = s, hp_at = t, hp_basis = BasisUnavailable, hp_expectation = None\<rparr>)
      10 (UUID ''s'') (Some 5) = Inr i \<and> ins_basis i = BasisUnavailable \<and> ins_current i = None"
proof -
  let ?h = "\<lambda>s t. Inr \<lparr>hp_screen = s, hp_at = t, hp_basis = BasisUnavailable, hp_expectation = None\<rparr>"
  obtain i where i: "inspect (\<lambda>_ _. Inl NilDereference) ?h 10 (UUID ''s'') (Some 5) = Inr i"
    by (simp add: inspect_def uuid_nil_def zero_time_def second_def)
  from inspection_exclusive [OF i] i show ?thesis by (auto split: option.splits)
qed

end
