(* ===== verification/ActivityContract.thy ===== *)
theory ActivityContract
  imports GoTime GoValues
begin

text \<open>
  The activity event contract (\<open>apps/server/internal/httpapi/activity_contract.go\<close>), the clean-up of what players
  report (\<open>activity_common.go\<close>) and the normalisation of a reported event (\<open>activity_ingest.go\<close>). Unicode lowering
  of text that is not ASCII is the parameter \<open>lw\<close>.
\<close>

section \<open>Events\<close>

record activity_event =
  ae_id :: uuid
  ae_sequence :: int
  ae_type :: string
  ae_category :: string
  ae_severity :: string
  ae_occurred :: instant
  ae_elapsed :: "int option"
  ae_timezone :: string
  ae_manifest :: "int option"
  ae_presentation_type :: string
  ae_presentation :: string
  ae_presentation_revision :: string
  ae_content_type :: string
  ae_content :: string
  ae_playlist_item :: string
  ae_placement :: string
  ae_session :: string
  ae_parent :: string
  ae_session_type :: string
  ae_terminal :: string
  ae_result :: string
  ae_duration :: "int option"
  ae_expected :: "int option"
  ae_failure :: string
  ae_message :: string
  ae_trigger :: string
  ae_schedule :: string
  ae_takeover :: string
  ae_source :: string
  ae_record :: string
  ae_selection_date :: string
  ae_cached_at :: "instant option"
  ae_source_revision :: string
  ae_snapshot :: string
  ae_metadata :: "json gomap"
  ae_priority :: int

section \<open>Vocabulary\<close>

definition minimum_session_ms :: int where "minimum_session_ms = 1000"

definition terminal_reasons :: "string list" where
  "terminal_reasons =
     [''expected_item_boundary'', ''completed_duration'', ''schedule_transition'', ''manifest_replacement'',
      ''direct_assignment_change'', ''takeover'', ''player_restart'', ''process_exit'', ''heartbeat_gap'',
      ''renderer_failure'', ''decoder_failure'', ''manual_skip'', ''empty_content'', ''recovery_action'',
      ''bounded_timeout'', ''unknown'']"

definition expected_reasons :: "string list" where
  "expected_reasons =
     [''expected_item_boundary'', ''completed_duration'', ''schedule_transition'', ''manifest_replacement'',
      ''direct_assignment_change'', ''takeover'', ''manual_skip'', ''empty_content'']"

definition interrupted_reasons :: "string list" where
  "interrupted_reasons = filter (\<lambda>r. \<not> (r = ''unknown'' \<or> r \<in> set expected_reasons)) terminal_reasons"

definition canonical_terminal :: "string \<Rightarrow> string" where
  "canonical_terminal v = (if v = ''emergency_takeover'' then ''takeover'' else v)"

definition is_terminal :: "string \<Rightarrow> bool" where
  "is_terminal v \<longleftrightarrow> list_ex (\<lambda>r. canonical_terminal v = r) terminal_reasons"

definition is_session_type :: "string \<Rightarrow> bool" where
  "is_session_type v \<longleftrightarrow> v \<in> set [''presentation'', ''content'', ''layout_placement'', ''playlist_item'']"

definition event_aliases :: "(string \<times> string) list" where
  "event_aliases =
     [(''connection.recovered'', ''connection.restored''), (''reliability.safe_mode'', ''safe_mode.entered''),
      (''reliability.self_heal'', ''self_heal.attempted''), (''content.started'', ''content.started''),
      (''content.completed'', ''content.completed''), (''content.failed'', ''content.failed''),
      (''playlist_item.started'', ''content.started''), (''playlist_item.completed'', ''content.completed''),
      (''playlist_item.failed'', ''content.failed''), (''playlist_item.skipped'', ''content.skipped''),
      (''media.started'', ''content.started''), (''media.completed'', ''content.completed''),
      (''media.failed'', ''content.failed''), (''widget.started'', ''content.started''),
      (''widget.completed'', ''content.completed''), (''widget.failed'', ''content.failed''),
      (''layout_zone_item.started'', ''content.started''), (''data_widget.activated'', ''content.started''),
      (''presentation.activated'', ''presentation.started''), (''playlist.started'', ''presentation.started''),
      (''layout.activated'', ''presentation.started''), (''presentation.completed'', ''presentation.stopped'')]"

definition canonical_type :: "string \<Rightarrow> string" where
  "canonical_type t = (case map_of event_aliases t of Some c \<Rightarrow> c | None \<Rightarrow> t)"

definition session_type_of :: "activity_event \<Rightarrow> string" where
  "session_type_of e =
     (if is_session_type (ae_session_type e) then ae_session_type e
      else if canonical_type (ae_type e)
        \<in> set [''presentation.started'', ''presentation.stopped'', ''presentation.failed'', ''presentation.recovered'']
      then ''presentation''
      else if ae_placement e \<noteq> [] then ''layout_placement''
      else if ae_playlist_item e \<noteq> [] then ''playlist_item''
      else if ae_content e \<noteq> [] \<or> has_prefix (canonical_type (ae_type e)) ''content.'' then ''content''
      else ''presentation'')"

definition terminal_of :: "activity_event \<Rightarrow> string" where
  "terminal_of e =
     (let t = canonical_type (ae_type e) in
      if is_terminal (ae_terminal e) then canonical_terminal (ae_terminal e)
      else if t = ''content.completed'' then ''completed_duration''
      else if t = ''content.skipped'' then ''manual_skip''
      else if t = ''renderer.failure'' then ''renderer_failure''
      else if t = ''decoder.failure'' then ''decoder_failure''
      else if t = ''presentation.recovered'' then ''recovery_action''
      else if ae_failure e \<in> set [''renderer_failure'', ''playback_error''] then ''renderer_failure''
      else if ae_failure e = ''decoder_failure'' then ''decoder_failure''
      else if ae_failure e = ''heartbeat_gap'' then ''heartbeat_gap''
      else ''unknown'')"

definition type_prefix :: "string \<Rightarrow> string" where
  "type_prefix t = cut_before CHR ''.'' (canonical_type t)"

definition category_of :: "string \<Rightarrow> string" where
  "category_of t =
     (let p = type_prefix t in
      if p \<in> set [''player'', ''connection'', ''heartbeat''] then ''connectivity''
      else if p \<in> set [''manifest'', ''dependencies'', ''presentation''] then ''manifest''
      else if p \<in> set [''playlist'', ''playlist_item'', ''widget'', ''layout'', ''layout_zone_item'', ''media'', ''renderer'',
          ''decoder'', ''fallback'', ''playback'', ''data_widget'', ''content''] then ''playback''
      else if p \<in> set [''schedule'', ''assignment''] then ''scheduling''
      else if p = ''command'' then ''commands''
      else if p \<in> set [''safe_mode'', ''watchdog'', ''boot'', ''storage'', ''sleep'', ''wake'', ''foreground'', ''self_heal'']
        then ''reliability''
      else if p = ''update'' then ''updates''
      else if p = ''takeover'' then ''takeovers''
      else ''system'')"

definition severity_of :: "string \<Rightarrow> string" where
  "severity_of t0 =
     (let t = canonical_type t0 in
      if contains t ''failed'' \<or> contains t ''failure'' then ''error''
      else if contains t ''gap'' \<or> contains t ''pressure'' \<or> contains t ''safe_mode'' \<or> contains t ''recovery'' then ''warning''
      else ''info'')"

definition result_of :: "string \<Rightarrow> string" where
  "result_of t0 =
     (let t = canonical_type t0 in
      if has_suffix t ''.started'' \<or> has_suffix t ''.activated'' then ''playing''
      else if has_suffix t ''.completed'' \<or> has_suffix t ''.succeeded'' \<or> has_suffix t ''.verified'' then ''completed''
      else if has_suffix t ''.failed'' \<or> has_suffix t ''.failure'' then ''failed''
      else if has_suffix t ''.skipped'' then ''skipped''
      else if has_suffix t ''.recovered'' \<or> contains t ''restored'' then ''recovered''
      else ''unknown'')"

section \<open>Sanitising\<close>

definition sensitive_fragments :: "string list" where
  "sensitive_fragments =
     [''password'', ''token'', ''secret'', ''credential'', ''authorization'', ''cookie'', ''csrf'',
      ''privatecsv'', ''csvpayload'', ''configurationdocument'', ''fullconfig'', ''accesskey'']"

definition sensitive_key :: "string \<Rightarrow> bool" where
  "sensitive_key k \<longleftrightarrow> list_ex (contains k) sensitive_fragments"

definition drops_key :: "(string \<Rightarrow> string) \<Rightarrow> bool \<Rightarrow> string \<Rightarrow> bool" where
  "drops_key lw privileged k =
     (let l = to_lower lw k in
      sensitive_key l
      \<or> (\<not> privileged \<and> (contains l ''diagnostic'' \<or> contains l ''failurepayload'' \<or> contains l ''ipaddress'')))"

text \<open>Objects inside objects and inside arrays are sanitised; an array inside an array is kept as it is.\<close>

fun sanitize_map :: "(string \<Rightarrow> string) \<Rightarrow> bool \<Rightarrow> json gomap \<Rightarrow> json gomap"
  and sanitize_value :: "(string \<Rightarrow> string) \<Rightarrow> bool \<Rightarrow> json \<Rightarrow> json"
  and sanitize_entries :: "(string \<Rightarrow> string) \<Rightarrow> bool \<Rightarrow> json list \<Rightarrow> json list" where
  "sanitize_map lw p [] = []"
| "sanitize_map lw p ((k, v) # m) =
     (if drops_key lw p k then sanitize_map lw p m else (k, sanitize_value lw p v) # sanitize_map lw p m)"
| "sanitize_value lw p (JObj m) = JObj (sanitize_map lw p m)"
| "sanitize_value lw p (JArr vs) = JArr (sanitize_entries lw p vs)"
| "sanitize_value lw p v = v"
| "sanitize_entries lw p [] = []"
| "sanitize_entries lw p (JObj m # vs) = JObj (sanitize_map lw p m) # sanitize_entries lw p vs"
| "sanitize_entries lw p (v # vs) = v # sanitize_entries lw p vs"

definition safe_text :: "string \<Rightarrow> nat \<Rightarrow> string" where
  "safe_text v maximum = take maximum (filter (\<lambda>c. c \<noteq> char_of (0 :: nat)) (trim_space v))"

section \<open>Normalisation\<close>

datatype activity_error =
    IdRequired | SequenceNotPositive | EventTypeInvalid | OutsideWindow | SeverityInvalid | ResultInvalid
  | DurationNegative | ElapsedNegative | TimezoneTooLong | SessionTypeInvalid | TerminalReasonInvalid | PriorityInvalid

definition event_char :: "char \<Rightarrow> bool" where
  "event_char c \<longleftrightarrow> alpha_lower c \<or> numeric c \<or> c \<in> set ''_.-''"

definition event_type_ok :: "string \<Rightarrow> bool" where
  "event_type_ok t = (case t of [] \<Rightarrow> False
     | c # cs \<Rightarrow> alpha_lower c \<and> list_all event_char cs \<and> 2 \<le> length cs \<and> length cs \<le> 95)"

definition severities :: "string list" where
  "severities = [''debug'', ''info'', ''warning'', ''error'', ''critical'']"

definition results :: "string list" where
  "results = [''playing'', ''completed'', ''partial'', ''skipped'', ''failed'', ''unknown'', ''recovered'', ''success'']"

definition window_past :: duration where "window_past = 370 * 24 * hour"
definition window_future :: duration where "window_future = 15 * minute"

definition negative :: "int option \<Rightarrow> bool" where
  "negative d = (case d of Some n \<Rightarrow> n < 0 | None \<Rightarrow> False)"

definition identify_event :: "(string \<Rightarrow> string) \<Rightarrow> instant \<Rightarrow> activity_event \<Rightarrow> activity_error + activity_event" where
  "identify_event lw now e =
     (let t = to_lower lw (trim_space (ae_type e)) in
      andthen (check (ae_id e \<noteq> uuid_nil) IdRequired) (\<lambda>_.
      andthen (check (\<not> ae_sequence e \<le> 0) SequenceNotPositive) (\<lambda>_.
      andthen (check (event_type_ok t) EventTypeInvalid) (\<lambda>_.
      andthen (check (\<not> (ae_occurred e = zero_time \<or> ae_occurred e < now - window_past
          \<or> now + window_future < ae_occurred e)) OutsideWindow) (\<lambda>_.
        Inr (e\<lparr>ae_type := t\<rparr>))))))"

definition classify_event :: "(string \<Rightarrow> string) \<Rightarrow> activity_event \<Rightarrow> activity_error + activity_event" where
  "classify_event lw e =
     (let category = (if ae_category e = [] then category_of (ae_type e) else ae_category e);
          severity = (if ae_severity e = [] then severity_of (ae_type e) else ae_severity e);
          result = (if ae_result e = [] then result_of (ae_type e) else ae_result e)
      in andthen (check (severity \<in> set severities) SeverityInvalid) (\<lambda>_.
         andthen (check (result \<in> set results) ResultInvalid) (\<lambda>_.
           Inr (e\<lparr>ae_category := safe_text (to_lower lw category) 48, ae_severity := severity, ae_result := result\<rparr>))))"

definition check_amounts :: "activity_event \<Rightarrow> activity_error + activity_event" where
  "check_amounts e =
     andthen (check (\<not> (negative (ae_duration e) \<or> negative (ae_expected e))) DurationNegative) (\<lambda>_.
     andthen (check (\<not> negative (ae_elapsed e)) ElapsedNegative) (\<lambda>_.
       (let tz = (if ae_timezone e = [] then ''UTC'' else ae_timezone e) in
        andthen (check (\<not> 80 < length tz) TimezoneTooLong) (\<lambda>_.
          Inr (e\<lparr>ae_expected := (if ae_expected e = Some 0 then None else ae_expected e), ae_timezone := tz\<rparr>)))))"

definition bound_texts :: "activity_event \<Rightarrow> activity_event" where
  "bound_texts e = e\<lparr>
     ae_presentation_type := safe_text (ae_presentation_type e) 48,
     ae_presentation := safe_text (ae_presentation e) 128,
     ae_presentation_revision := safe_text (ae_presentation_revision e) 128,
     ae_content_type := safe_text (ae_content_type e) 48,
     ae_content := safe_text (ae_content e) 128,
     ae_playlist_item := safe_text (ae_playlist_item e) 128,
     ae_placement := safe_text (ae_placement e) 128,
     ae_session := safe_text (ae_session e) 160,
     ae_parent := safe_text (ae_parent e) 160\<rparr>"

definition bound_context :: "(string \<Rightarrow> string) \<Rightarrow> activity_event \<Rightarrow> activity_event" where
  "bound_context lw e = e\<lparr>
     ae_failure := safe_text (ae_failure e) 96,
     ae_message := safe_text (ae_message e) 240,
     ae_trigger := safe_text (ae_trigger e) 96,
     ae_schedule := safe_text (ae_schedule e) 128,
     ae_takeover := safe_text (ae_takeover e) 128,
     ae_source := safe_text (ae_source e) 128,
     ae_record := safe_text (ae_record e) 160,
     ae_source_revision := safe_text (ae_source_revision e) 128,
     ae_snapshot := safe_text (to_lower lw (ae_snapshot e)) 128\<rparr>"

definition check_session_words :: "(string \<Rightarrow> string) \<Rightarrow> activity_event \<Rightarrow> activity_error + activity_event" where
  "check_session_words lw e =
     (let st = to_lower lw (trim_space (ae_session_type e));
          tr = canonical_terminal (to_lower lw (trim_space (ae_terminal e)))
      in andthen (check (\<not> (st \<noteq> [] \<and> \<not> is_session_type st)) SessionTypeInvalid) (\<lambda>_.
         andthen (check (\<not> (tr \<noteq> [] \<and> \<not> is_terminal tr)) TerminalReasonInvalid) (\<lambda>_.
           Inr (e\<lparr>ae_session_type := st, ae_terminal := tr\<rparr>))))"

definition normalize_activity :: "(string \<Rightarrow> string) \<Rightarrow> instant \<Rightarrow> activity_event \<Rightarrow> activity_error + activity_event" where
  "normalize_activity lw now e0 =
     andthen (identify_event lw now e0) (\<lambda>e1.
     andthen (classify_event lw e1) (\<lambda>e2.
     andthen (check_amounts e2) (\<lambda>e3.
     andthen (check_session_words lw (bound_texts e3)) (\<lambda>e4.
       (let e = bound_context lw e4 in
        andthen (check (\<not> (ae_priority e < 0 \<or> 9 < ae_priority e)) PriorityInvalid) (\<lambda>_.
          Inr (e\<lparr>ae_metadata := sanitize_map lw True (ae_metadata e)\<rparr>)))))))"

section \<open>What sanitising hides\<close>

text \<open>A place in a JSON value, and what is there.\<close>

datatype json_step = Field string | Item nat

fun json_at :: "json \<Rightarrow> json_step list \<Rightarrow> json option" where
  "json_at v [] = Some v"
| "json_at (JObj m) (Field k # ps) = (case map_of m k of Some v \<Rightarrow> json_at v ps | None \<Rightarrow> None)"
| "json_at (JArr vs) (Item i # ps) = (if i < length vs then json_at (vs ! i) ps else None)"
| "json_at v (p # ps) = None"

fun scalar :: "json \<Rightarrow> bool" where
  "scalar (JObj m) \<longleftrightarrow> False"
| "scalar (JArr vs) \<longleftrightarrow> False"
| "scalar v \<longleftrightarrow> True"

text \<open>A place is hidden if a key on the way to it is dropped, before the way goes from an array directly into another.\<close>

fun hidden :: "(string \<Rightarrow> string) \<Rightarrow> bool \<Rightarrow> json_step list \<Rightarrow> bool" where
  "hidden lw p [] \<longleftrightarrow> False"
| "hidden lw p (Field k # ps) \<longleftrightarrow> drops_key lw p k \<or> hidden lw p ps"
| "hidden lw p (Item i # Item j # ps) \<longleftrightarrow> False"
| "hidden lw p (Item i # ps) \<longleftrightarrow> hidden lw p ps"

lemma map_of_sanitize:
  "map_of (sanitize_map lw p m) k = (if drops_key lw p k then None else map_option (sanitize_value lw p) (map_of m k))"
  by (induction m) auto

definition clean_entry :: "(string \<Rightarrow> string) \<Rightarrow> bool \<Rightarrow> json \<Rightarrow> json" where
  "clean_entry lw p v = (case v of JObj m \<Rightarrow> JObj (sanitize_map lw p m) | _ \<Rightarrow> v)"

lemma sanitize_entries_map: "sanitize_entries lw p vs = map (clean_entry lw p) vs"
proof (induction vs)
  case (Cons v vs)
  then show ?case by (cases v) (simp_all add: clean_entry_def)
qed simp

lemma json_at_scalar: "scalar v \<Longrightarrow> json_at v ps = (if ps = [] then Some v else None)"
  by (cases v; cases ps) simp_all

lemma sanitize_scalar: "scalar v \<Longrightarrow> sanitize_value lw p v = v"
  by (cases v) simp_all

lemma sanitize_at:
  "scalar s \<Longrightarrow> json_at (sanitize_value lw p v) ps = Some s \<longleftrightarrow> json_at v ps = Some s \<and> \<not> hidden lw p ps"
proof (induction ps arbitrary: v rule: length_induct)
  case (1 ps)
  note IH = 1(1) [rule_format, OF _ 1(2)]
  show ?case
  proof (cases "scalar v")
    case True
    then show ?thesis by (cases ps) (simp_all add: sanitize_scalar json_at_scalar)
  next
    case False
    then consider (obj) m where "v = JObj m" | (arr) vs where "v = JArr vs" by (cases v) simp_all
    then show ?thesis
    proof cases
      case obj
      show ?thesis
      proof (cases ps)
        case Nil
        then show ?thesis using obj \<open>scalar s\<close> by auto
      next
        case (Cons q qs)
        then show ?thesis
          using obj IH [of qs] by (cases q) (auto simp: map_of_sanitize split: option.splits)
      qed
    next
      case arr
      show ?thesis
      proof (cases ps)
        case Nil
        then show ?thesis using arr \<open>scalar s\<close> by auto
      next
        case (Cons q qs)
        have entry: "json_at (clean_entry lw p u) qs = Some s \<longleftrightarrow> json_at u qs = Some s \<and> \<not> hidden lw p (Item i # qs)" for u i
        proof (cases u)
          case (JObj m)
          have "json_at (JObj (sanitize_map lw p m)) qs = Some s \<longleftrightarrow> json_at (JObj m) qs = Some s \<and> \<not> hidden lw p qs"
            using IH [of qs "JObj m"] Cons by simp
          moreover have "hidden lw p (Item i # qs) = hidden lw p qs" if "json_at (JObj m) qs = Some s"
            using that \<open>scalar s\<close> by (cases qs; cases "hd qs") auto
          ultimately show ?thesis by (auto simp: clean_entry_def JObj)
        next
          case (JArr us)
          have "\<not> hidden lw p (Item i # qs)" if "json_at u qs = Some s"
            using that \<open>scalar s\<close> JArr by (cases qs; cases "hd qs") auto
          then show ?thesis by (auto simp: clean_entry_def JArr)
        qed (cases qs; auto simp: clean_entry_def)+
        show ?thesis using arr Cons entry by (cases q) (auto simp: sanitize_entries_map)
      qed
    qed
  qed
qed

section \<open>Properties\<close>

text \<open>
  Sanitising keeps every value at its place and hides exactly what lies under a sensitive key (under a diagnostic one,
  too, for readers without privilege): a scalar is found at a place of the sanitised metadata if and only if it was there
  and the place is not hidden. Keys inside an array that is itself an element of an array are the exception.
\<close>

theorem sanitize_exact:
  assumes "scalar s"
  shows "json_at (JObj (sanitize_map lw privileged m)) place = Some s
    \<longleftrightarrow> json_at (JObj m) place = Some s \<and> \<not> hidden lw privileged place"
  using sanitize_at [OF assms, of lw privileged "JObj m" place] by simp

theorem sanitize_exact_witness:
  "json_at (JObj (sanitize_map id True
      [(''a'', JArr [JObj [(''apiToken'', JStr ''x''), (''n'', JStr ''y'')]])])) [Field ''a'', Item 0, Field ''n''] = Some (JStr ''y'')
   \<and> json_at (JObj (sanitize_map id True
      [(''a'', JArr [JObj [(''apiToken'', JStr ''x''), (''n'', JStr ''y'')]])])) [Field ''a'', Item 0, Field ''apiToken''] \<noteq> Some (JStr ''x'')"
  by (subst (1 2) sanitize_exact)
    (simp_all add: drops_key_def sensitive_key_def sensitive_fragments_def to_lower_def lower_ascii_def has_prefix_def
      less_eq_char_def char_of_eq_iff)

text \<open>The exception: a password in nested arrays survives.\<close>

lemma nested_array_leaks:
  "json_at (JObj (sanitize_map id True [(''rows'', JArr [JArr [JObj [(''password'', JStr ''x'')]]])]))
     [Field ''rows'', Item 0, Item 0, Field ''password''] = Some (JStr ''x'')"
  by (simp add: drops_key_def sensitive_key_def sensitive_fragments_def to_lower_def lower_ascii_def has_prefix_def less_eq_char_def)

text \<open>Cutting a text at a number of bytes can split a character: valid UTF-8 becomes text the database refuses.\<close>

lemma safe_text_splits_characters:
  "utf8_valid [97, 195, 169] \<and> \<not> text_ok (safe_text (map char_of [97 :: nat, 195, 169]) 2)"
proof -
  have "trim_space (map char_of [97 :: nat, 195, 169]) = map char_of [97, 195, 169 :: nat]"
    by (simp add: trim_space_def trim_left.simps leading_space_def space_encodings_def has_prefix_def)
  then show ?thesis by (simp add: safe_text_def text_ok_def continuation_def)
qed

end
