(* ===== verification/ActivitySessions.thy ===== *)
theory ActivitySessions
  imports ActivityContract
begin

text \<open>
  What the server derives from activity events about playback (\<open>activity_ingest.go\<close>): the intervals of a screen's
  state and the playback sessions behind Proof of Play, with the triggers of their tables (migrations 00031, 00033, 00053,
  00058, 00091, 00112). New identifiers are arguments. PostgreSQL keeps instants to the microsecond.
\<close>

section \<open>Tables\<close>

record stored_event =
  se_event :: activity_event
  se_screen :: uuid
  se_sequence :: "int option"
  se_origin :: string

text \<open>\<open>ps_source\<close> are the columns copied from the event that started the session.\<close>

record playback_session =
  ps_id :: uuid
  ps_screen :: uuid
  ps_group :: "uuid option"
  ps_parent :: "uuid option"
  ps_key :: string
  ps_start_event :: "uuid option"
  ps_end_event :: "uuid option"
  ps_started :: instant
  ps_ended :: "instant option"
  ps_source :: activity_event
  ps_presentation_name :: string
  ps_content_name :: string
  ps_duration :: "int option"
  ps_result :: string
  ps_failure :: string
  ps_metadata :: "json gomap"
  ps_type :: string
  ps_terminal :: "string option"

record state_interval =
  si_id :: uuid
  si_screen :: uuid
  si_state :: string
  si_started :: instant
  si_ended :: "instant option"
  si_start_event :: "uuid option"
  si_end_event :: "uuid option"
  si_reason :: string
  si_metadata :: "json gomap"

record activity_db =
  ad_events :: "stored_event list"
  ad_sessions :: "playback_session list"
  ad_intervals :: "state_interval list"
  ad_memberships :: "(uuid \<times> uuid) list"

datatype db_error = TextRejected | TerminalReasonRejected | DateRejected | MetadataRejected

definition micros :: "instant \<Rightarrow> instant" where "micros t = t div 1000 * 1000"

text \<open>\<open>GREATEST(0,EXTRACT(EPOCH FROM (b-a))*1000)::bigint\<close>, rounding to the nearest millisecond.\<close>

definition elapsed_ms :: "instant \<Rightarrow> instant \<Rightarrow> int" where
  "elapsed_ms a b = (max 0 (b - a) div 1000 + 500) div 1000"

text \<open>\<open>jsonb || jsonb\<close> with an object of one key.\<close>

definition set_key :: "string \<Rightarrow> json \<Rightarrow> json gomap \<Rightarrow> json gomap" where
  "set_key k v m = filter (\<lambda>(k', _). k' \<noteq> k) m @ [(k, v)]"

definition merge_json :: "json gomap \<Rightarrow> json gomap \<Rightarrow> json gomap" where
  "merge_json m n = fold (\<lambda>(k, v). set_key k v) n m"

text \<open>\<open>jsonb\<close> has no NUL character.\<close>

fun json_storable :: "json \<Rightarrow> bool" and fields_storable :: "json gomap \<Rightarrow> bool" and items_storable :: "json list \<Rightarrow> bool" where
  "json_storable (JStr s) \<longleftrightarrow> char_of (0 :: nat) \<notin> set s"
| "json_storable (JObj m) \<longleftrightarrow> fields_storable m"
| "json_storable (JArr vs) \<longleftrightarrow> items_storable vs"
| "json_storable v \<longleftrightarrow> True"
| "fields_storable [] \<longleftrightarrow> True"
| "fields_storable ((k, v) # m) \<longleftrightarrow> char_of (0 :: nat) \<notin> set k \<and> json_storable v \<and> fields_storable m"
| "items_storable [] \<longleftrightarrow> True"
| "items_storable (v # vs) \<longleftrightarrow> json_storable v \<and> items_storable vs"

section \<open>The event table\<close>

text \<open>The \<open>CHECK\<close> constraints on the words of an event; the list of terminal reasons is the one of migration 00058.\<close>

definition table_reasons :: "string list" where
  "table_reasons =
     [''expected_item_boundary'', ''completed_duration'', ''schedule_transition'', ''manifest_replacement'',
      ''direct_assignment_change'', ''takeover'', ''player_restart'', ''process_exit'', ''heartbeat_gap'',
      ''renderer_failure'', ''decoder_failure'', ''manual_skip'', ''recovery_action'', ''bounded_timeout'', ''unknown'']"

definition reason_storable :: "string \<Rightarrow> bool" where
  "reason_storable r \<longleftrightarrow> r = [] \<or> r \<in> set table_reasons"

definition event_texts :: "activity_event \<Rightarrow> string list" where
  "event_texts e =
     [ae_type e, ae_category e, ae_severity e, ae_timezone e, ae_presentation_type e, ae_presentation e,
      ae_presentation_revision e, ae_content_type e, ae_content e, ae_playlist_item e, ae_placement e, ae_session e,
      ae_result e, ae_failure e, ae_message e, ae_trigger e, ae_schedule e, ae_takeover e, ae_source e, ae_record e,
      ae_source_revision e, ae_snapshot e, ae_session_type e]"

definition event_row_ok :: "activity_event \<Rightarrow> db_error + unit" where
  "event_row_ok e =
     andthen (check (list_all text_ok (event_texts e)) TextRejected) (\<lambda>_.
     andthen (check (fields_storable (ae_metadata e)) MetadataRejected) (\<lambda>_.
       check (reason_storable (ae_terminal e)) TerminalReasonRejected))"

definition close_session :: "instant \<Rightarrow> string \<Rightarrow> string \<Rightarrow> playback_session \<Rightarrow> playback_session" where
  "close_session t result reason s = s\<lparr>ps_ended := Some (micros t), ps_result := result,
     ps_duration := Some (elapsed_ms (ps_started s) (micros t)),
     ps_metadata := set_key ''closedReason'' (JStr reason) (ps_metadata s)\<rparr>"

definition update_where :: "('a \<Rightarrow> bool) \<Rightarrow> ('a \<Rightarrow> 'a) \<Rightarrow> 'a list \<Rightarrow> 'a list" where
  "update_where P f rows = map (\<lambda>r. if P r then f r else r) rows"

text \<open>The trigger \<open>player_activity_close_restart_sessions\<close>, by the reported name of the event.\<close>

definition restart_types :: "string list" where
  "restart_types = [''player.connected'', ''playback.session_restarted'', ''boot.recovery'']"

definition close_restarted :: "uuid \<Rightarrow> activity_event \<Rightarrow> playback_session list \<Rightarrow> playback_session list" where
  "close_restarted screen e sessions =
     (if ae_type e \<in> set restart_types
      then update_where (\<lambda>s. ps_screen s = screen \<and> ps_ended s = None \<and> ps_started s \<le> micros (ae_occurred e))
        (close_session (ae_occurred e) ''unknown'' (ae_type e)) sessions
      else sessions)"

definition append_event :: "uuid \<Rightarrow> activity_event \<Rightarrow> int option \<Rightarrow> string \<Rightarrow> activity_db \<Rightarrow> activity_db" where
  "append_event screen e sequence origin db = db\<lparr>
     ad_events := ad_events db @ [\<lparr>se_event = e\<lparr>ae_occurred := micros (ae_occurred e)\<rparr>, se_screen = screen,
       se_sequence = sequence, se_origin = origin\<rparr>],
     ad_sessions := close_restarted screen e (ad_sessions db)\<rparr>"

section \<open>State intervals\<close>

definition screen_state_for :: "activity_event \<Rightarrow> string option" where
  "screen_state_for e =
     (let t = canonical_type (ae_type e) in
      if t \<in> set [''player.connected'', ''connection.restored''] then Some ''online''
      else if t \<in> set [''player.disconnected'', ''connection.lost''] then Some ''offline''
      else if t \<in> set [''heartbeat.gap_detected'', ''renderer.failure'', ''decoder.failure'', ''storage.pressure''] then Some ''degraded''
      else if t = ''safe_mode.entered'' then Some ''safe_mode''
      else if t \<in> set [''safe_mode.exited'', ''manifest.activated'', ''presentation.started''] then Some ''healthy''
      else None)"

text \<open>\<open>ON CONFLICT DO NOTHING\<close> over the two unique indexes of the table.\<close>

definition interval_conflict :: "state_interval list \<Rightarrow> state_interval \<Rightarrow> bool" where
  "interval_conflict rows i \<longleftrightarrow>
     list_ex (\<lambda>r. si_screen r = si_screen i \<and> (si_ended r = None
       \<or> si_started r = si_started i \<and> si_state r = si_state i)) rows"

definition insert_interval :: "state_interval \<Rightarrow> state_interval list \<Rightarrow> state_interval list" where
  "insert_interval i rows = (if interval_conflict rows i then rows else rows @ [i])"

definition update_state_interval ::
    "uuid \<Rightarrow> uuid \<Rightarrow> activity_event \<Rightarrow> string \<Rightarrow> state_interval list \<Rightarrow> state_interval list" where
  "update_state_interval fresh screen e state rows =
     (let t = micros (ae_occurred e);
          closed = update_where (\<lambda>i. si_screen i = screen \<and> si_ended i = None \<and> si_state i \<noteq> state)
            (\<lambda>i. i\<lparr>si_ended := Some t, si_end_event := Some (ae_id e)\<rparr>) rows
      in if list_ex (\<lambda>i. si_screen i = screen \<and> si_state i = state \<and> si_ended i = None) closed then closed
         else insert_interval \<lparr>si_id = fresh, si_screen = screen, si_state = state, si_started = t, si_ended = None,
           si_start_event = Some (ae_id e), si_end_event = None, si_reason = ae_failure e, si_metadata = ae_metadata e\<rparr> closed)"

section \<open>Playback sessions\<close>

definition is_playback_start :: "string \<Rightarrow> bool" where
  "is_playback_start t \<longleftrightarrow> canonical_type t \<in> set [''presentation.started'', ''content.started'']"

definition is_playback_end :: "string \<Rightarrow> bool" where
  "is_playback_end t0 \<longleftrightarrow>
     (let t = canonical_type t0 in
      has_suffix t ''.completed'' \<or> has_suffix t ''.stopped'' \<or> has_suffix t ''.failed'' \<or> has_suffix t ''.skipped''
      \<or> t = ''presentation.recovered'')"

definition replacement_reason :: "activity_event \<Rightarrow> string" where
  "replacement_reason e =
     (if ae_takeover e \<noteq> [] then ''takeover''
      else if ae_trigger e = ''schedule'' \<or> ae_schedule e \<noteq> [] then ''schedule_transition''
      else if ae_trigger e = ''direct'' \<or> ae_trigger e = ''direct_assignment'' then ''direct_assignment_change''
      else if ae_manifest e \<noteq> None then ''manifest_replacement''
      else ''unknown'')"

text \<open>
  The trigger \<open>playback_sessions_close_replaced\<close>: a \<open>BEFORE INSERT\<close> trigger, so it also runs for a row that
  \<open>ON CONFLICT DO NOTHING\<close> then leaves out.
\<close>

definition replaced_by :: "playback_session \<Rightarrow> playback_session \<Rightarrow> bool" where
  "replaced_by new s \<longleftrightarrow> ps_screen s = ps_screen new \<and> ps_ended s = None \<and> ps_key s \<noteq> ps_key new
     \<and> (ps_parent new \<noteq> None \<longrightarrow>
          ps_parent s = ps_parent new \<and> ae_placement (ps_source s) = ae_placement (ps_source new))"

definition insert_session :: "playback_session \<Rightarrow> playback_session list \<Rightarrow> playback_session list" where
  "insert_session new sessions =
     (let closed = update_where (replaced_by new)
            (close_session (ps_started new) ''partial''
              (if ps_parent new = None then ''replacement_presentation'' else ''replacement_in_slot'')) sessions
      in if list_ex (\<lambda>s. ps_screen s = ps_screen new \<and> ps_key s = ps_key new) closed then closed else closed @ [new])"

definition string_at :: "json gomap \<Rightarrow> string \<Rightarrow> string" where
  "string_at m k = (case map_of m k of Some (JStr s) \<Rightarrow> s | _ \<Rightarrow> [])"

definition first_group :: "(uuid \<times> uuid) list \<Rightarrow> uuid \<Rightarrow> uuid option" where
  "first_group ms screen =
     (case sort_by (<) (map snd (filter (\<lambda>(s, _). s = screen) ms)) of [] \<Rightarrow> None | g # _ \<Rightarrow> Some g)"

definition session_at :: "playback_session list \<Rightarrow> uuid \<Rightarrow> string \<Rightarrow> playback_session option" where
  "session_at rows screen k = find (\<lambda>s. ps_screen s = screen \<and> ps_key s = k) rows"

definition open_root :: "playback_session list \<Rightarrow> uuid \<Rightarrow> playback_session option" where
  "open_root rows screen =
     (case sort_by (\<lambda>a b. ps_started b < ps_started a)
         (filter (\<lambda>s. ps_screen s = screen \<and> ps_type s = ''presentation'' \<and> ps_ended s = None) rows) of
        [] \<Rightarrow> None | s # _ \<Rightarrow> Some s)"

definition parent_of :: "playback_session list \<Rightarrow> uuid \<Rightarrow> activity_event \<Rightarrow> uuid option" where
  "parent_of rows screen e =
     (let key = (if ae_parent e = [] then string_at (ae_metadata e) ''parentActivitySessionId'' else ae_parent e);
          named = (if key = [] then None else map_option ps_id (session_at rows screen key))
      in if named = None \<and> session_type_of e \<noteq> ''presentation'' then map_option ps_id (open_root rows screen) else named)"

definition date_castable :: "string \<Rightarrow> bool" where
  "date_castable s \<longleftrightarrow> s = [] \<or> (case parse_date s of Some (y, _, _) \<Rightarrow> 1 \<le> y | None \<Rightarrow> False)"

definition session_key :: "activity_event \<Rightarrow> string" where
  "session_key e = (if ae_session e = [] then uuid_string (ae_id e) else ae_session e)"

definition close_incompatible :: "uuid \<Rightarrow> activity_event \<Rightarrow> playback_session list \<Rightarrow> playback_session list" where
  "close_incompatible screen e rows =
     (if canonical_type (ae_type e) = ''presentation.started''
      then update_where (\<lambda>s. ps_screen s = screen \<and> ps_ended s = None \<and> ps_key s \<noteq> session_key e)
        (\<lambda>s. (close_session (ae_occurred e) ''partial'' ''incompatible_start'' s)\<lparr>ps_terminal := Some (replacement_reason e)\<rparr>) rows
      else rows)"

definition start_session ::
    "uuid \<Rightarrow> uuid \<Rightarrow> (uuid \<times> uuid) list \<Rightarrow> activity_event \<Rightarrow> playback_session list \<Rightarrow> db_error + playback_session list" where
  "start_session fresh screen memberships e rows =
     (let closed = close_incompatible screen e rows;
          presentation_name = safe_text (string_at (ae_metadata e) ''presentationName'') 240;
          content_name = safe_text (string_at (ae_metadata e) ''contentName'') 240;
          key = (if ae_parent e = [] then string_at (ae_metadata e) ''parentActivitySessionId'' else ae_parent e)
      in andthen (check (text_ok key) TextRejected) (\<lambda>_.
         andthen (check (text_ok presentation_name \<and> text_ok content_name) TextRejected) (\<lambda>_.
         andthen (check (date_castable (ae_selection_date e)) DateRejected) (\<lambda>_.
           Inr (insert_session
             \<lparr>ps_id = fresh, ps_screen = screen, ps_group = first_group memberships screen, ps_parent = parent_of closed screen e,
               ps_key = session_key e, ps_start_event = Some (ae_id e), ps_end_event = None,
               ps_started = micros (ae_occurred e), ps_ended = None, ps_source = e,
               ps_presentation_name = presentation_name, ps_content_name = content_name,
               ps_duration = None, ps_result = ''playing'', ps_failure = [], ps_metadata = ae_metadata e,
               ps_type = session_type_of e, ps_terminal = None\<rparr> closed)))))"

definition final_result :: "string \<Rightarrow> string" where
  "final_result r = (if r = ''success'' then ''completed'' else if r = ''playing'' then ''unknown'' else r)"

definition is_micro_play :: "activity_event \<Rightarrow> bool" where
  "is_micro_play e =
     (if (case ae_duration e of None \<Rightarrow> True | Some d \<Rightarrow> minimum_session_ms \<le> d) then False
      else if canonical_type (ae_type e) \<noteq> ''content.completed'' then False
      else if session_type_of e = ''presentation'' then False
      else if ae_result e \<noteq> ''completed'' \<and> ae_result e \<noteq> ''success'' then False
      else terminal_of e \<in> set [''expected_item_boundary'', ''completed_duration''])"

definition synthesizes_start :: "activity_event \<Rightarrow> bool" where
  "synthesizes_start e =
     (let t = canonical_type (ae_type e) in
      if t \<in> set [''presentation.failed'', ''content.failed''] then True
      else if t \<in> set [''content.completed'', ''content.skipped'']
      then (case ae_duration e of Some d \<Rightarrow> 0 < d | None \<Rightarrow> False)
      else False)"

text \<open>A deleted session is forgotten as a parent: \<open>ON DELETE SET NULL\<close> of migration 00031.\<close>

definition micro_session :: "uuid \<Rightarrow> string \<Rightarrow> playback_session \<Rightarrow> bool" where
  "micro_session screen key s \<longleftrightarrow> ps_screen s = screen \<and> ps_key s = key \<and> ps_type s \<noteq> ''presentation''
     \<and> (case ps_duration s of Some d \<Rightarrow> d | None \<Rightarrow> 0) < minimum_session_ms"

definition discard_micro :: "uuid \<Rightarrow> string \<Rightarrow> playback_session list \<Rightarrow> playback_session list" where
  "discard_micro screen key rows =
     (let gone = map ps_id (filter (micro_session screen key) rows) in
      update_where (\<lambda>s. case ps_parent s of Some p \<Rightarrow> p \<in> set gone | None \<Rightarrow> False) (\<lambda>s. s\<lparr>ps_parent := None\<rparr>)
        (filter (\<lambda>s. \<not> micro_session screen key s) rows))"

definition open_session :: "uuid \<Rightarrow> string \<Rightarrow> playback_session \<Rightarrow> bool" where
  "open_session screen key s \<longleftrightarrow> ps_screen s = screen \<and> ps_key s = key \<and> ps_ended s = None"

definition finish_session :: "activity_event \<Rightarrow> playback_session \<Rightarrow> playback_session" where
  "finish_session e s = s\<lparr>ps_end_event := Some (ae_id e), ps_ended := Some (micros (ae_occurred e)),
     ps_duration := Some (case ae_duration e of Some d \<Rightarrow> d | None \<Rightarrow> elapsed_ms (ps_started s) (micros (ae_occurred e))),
     ps_result := final_result (ae_result e), ps_failure := ae_failure e, ps_terminal := Some (terminal_of e),
     ps_metadata := merge_json (ps_metadata s) (ae_metadata e)\<rparr>"

definition synthesized_start :: "activity_event \<Rightarrow> instant" where
  "synthesized_start e =
     (case ae_duration e of Some d \<Rightarrow> if 0 < d then ae_occurred e + wrap64 (- wrap64 (d * 1000000)) else ae_occurred e | None \<Rightarrow> ae_occurred e)"

definition synthesize_session :: "activity_event \<Rightarrow> playback_session \<Rightarrow> playback_session" where
  "synthesize_session e s = s\<lparr>ps_end_event := Some (ae_id e), ps_started := min (ps_started s) (micros (synthesized_start e)),
     ps_ended := Some (micros (ae_occurred e)), ps_duration := Some (case ae_duration e of Some d \<Rightarrow> d | None \<Rightarrow> 0),
     ps_result := final_result (ae_result e), ps_failure := ae_failure e, ps_terminal := Some (terminal_of e),
     ps_metadata := set_key ''synthesizedStart'' (JBool True) (ps_metadata s)\<rparr>"

definition end_session ::
    "uuid \<Rightarrow> uuid \<Rightarrow> (uuid \<times> uuid) list \<Rightarrow> activity_event \<Rightarrow> playback_session list \<Rightarrow> db_error + playback_session list" where
  "end_session fresh screen memberships e rows =
     (if ae_session e = [] then Inr rows
      else
        (let running = open_session screen (ae_session e); micro = is_micro_play e in
         andthen (check (list_ex running rows \<longrightarrow> reason_storable (terminal_of e)) TerminalReasonRejected) (\<lambda>_.
         andthen
           (if \<not> list_ex running rows \<and> \<not> micro \<and> synthesizes_start e
            then andthen (start_session fresh screen memberships (e\<lparr>ae_result := final_result (ae_result e)\<rparr>) rows)
              (\<lambda>started. andthen (check (list_ex running started \<longrightarrow> reason_storable (terminal_of e)) TerminalReasonRejected)
                (\<lambda>_. Inr (update_where running (synthesize_session e) started)))
            else Inr (update_where running (finish_session e) rows))
           (\<lambda>rows'. Inr (if micro then discard_micro screen (ae_session e) rows' else rows')))))"

definition close_gap :: "uuid \<Rightarrow> activity_event \<Rightarrow> playback_session list \<Rightarrow> playback_session list" where
  "close_gap screen e rows =
     (if canonical_type (ae_type e) = ''heartbeat.gap_detected''
      then update_where (\<lambda>s. ps_screen s = screen \<and> ps_ended s = None \<and> ps_started s \<le> micros (ae_occurred e))
        (\<lambda>s. (close_session (ae_occurred e) ''unknown'' ''heartbeat_gap'' s)\<lparr>ps_terminal := Some ''heartbeat_gap''\<rparr>) rows
      else rows)"

definition six_hours :: duration where "six_hours = 6 * hour"

definition close_expired :: "uuid \<Rightarrow> instant \<Rightarrow> playback_session list \<Rightarrow> playback_session list" where
  "close_expired screen now rows =
     update_where (\<lambda>s. ps_screen s = screen \<and> ps_ended s = None \<and> ps_started s < micros now - six_hours)
       (\<lambda>s. (close_session (min (micros now) (ps_started s + six_hours)) ''unknown'' ''bounded_timeout'' s)
          \<lparr>ps_terminal := Some ''bounded_timeout''\<rparr>) rows"

definition derive_sessions ::
    "uuid \<Rightarrow> uuid \<Rightarrow> (uuid \<times> uuid) list \<Rightarrow> activity_event \<Rightarrow> playback_session list \<Rightarrow> db_error + playback_session list" where
  "derive_sessions fresh screen memberships e rows0 =
     (let rows = close_gap screen e rows0 in
      if is_playback_start (ae_type e) then start_session fresh screen memberships e rows
      else if is_playback_end (ae_type e) then end_session fresh screen memberships e rows
      else Inr rows)"

end
