(* ===== verification/SelectionReaders.thy ===== *)
theory SelectionReaders
  imports PlaybackPlan ActivitySessions
begin

text \<open>
  The two readers of the current selection that decide by the clock: the active Takeover of a screen
  (\<open>playlists/takeover_selection.go\<close>) and its active Quick Present (\<open>presentations/service.go\<close>), over their tables.
  The section at the end shows that what they and the schedules select holds up to the next evaluation of a plan.
\<close>

section \<open>The tables\<close>

record takeover_row =
  tkr_id :: uuid
  tkr_playlist :: uuid
  tkr_status :: string
  tkr_activated :: "instant option"
  tkr_expires :: instant

record takeover_state =
  tks_takeover :: uuid
  tks_screen :: uuid
  tks_state :: string

record override_row =
  ovr_id :: uuid
  ovr_target_type :: string
  ovr_target :: uuid
  ovr_content_type :: string
  ovr_content :: uuid
  ovr_started :: instant
  ovr_expires :: "instant option"
  ovr_stopped :: "instant option"

text \<open>Memberships relate screens to groups; the groups are those that are not deleted.\<close>

record override_db =
  odb_takeovers :: "takeover_row list"
  odb_states :: "takeover_state list"
  odb_overrides :: "override_row list"
  odb_memberships :: "(uuid \<times> uuid) list"
  odb_groups :: "uuid list"
  odb_playlists :: "(uuid \<times> string) list"
  odb_layouts :: "(uuid \<times> string) list"
  odb_assets :: "(uuid \<times> string) list"

section \<open>The readers\<close>

text \<open>\<open>ORDER BY key DESC LIMIT 1\<close>.\<close>

fun last_by :: "('a \<Rightarrow> 'k::linorder) \<Rightarrow> 'a list \<Rightarrow> 'a option" where
  "last_by key [] = None"
| "last_by key (x # xs) =
     (case last_by key xs of None \<Rightarrow> Some x | Some y \<Rightarrow> Some (if key x < key y then y else x))"

text \<open>The Takeovers of a screen that the query can find, and those of them that run at an instant.\<close>

definition screen_takeovers :: "override_db \<Rightarrow> uuid \<Rightarrow> manifest_takeover list" where
  "screen_takeovers db screen =
     [\<lparr>mt_id = tkr_id e, mt_playlist = tkr_playlist e, mt_activated_at = the (tkr_activated e), mt_expires_at = tkr_expires e\<rparr>.
        e \<leftarrow> odb_takeovers db, es \<leftarrow> odb_states db,
        tks_takeover es = tkr_id e \<and> tks_screen es = screen \<and> tkr_status e = ''active'' \<and> tkr_activated e \<noteq> None
          \<and> tks_state es \<notin> set [''restored'', ''cancelled'', ''expired'']]"

definition takeover_runs :: "instant \<Rightarrow> manifest_takeover \<Rightarrow> bool" where
  "takeover_runs t k \<longleftrightarrow> mt_activated_at k \<le> micros t \<and> micros t < mt_expires_at k"

definition active_takeover_at :: "override_db \<Rightarrow> uuid \<Rightarrow> instant \<Rightarrow> plan_error + manifest_takeover option" where
  "active_takeover_at db screen t =
     Inr (last_by (\<lambda>k. (mt_activated_at k, mt_id k)) (filter (takeover_runs t) (screen_takeovers db screen)))"

definition content_name :: "override_db \<Rightarrow> override_row \<Rightarrow> string option" where
  "content_name db o' =
     (if ovr_content_type o' = ''playlist'' then map_of (odb_playlists db) (ovr_content o')
      else if ovr_content_type o' = ''layout'' then map_of (odb_layouts db) (ovr_content o')
      else if ovr_content_type o' = ''asset'' then map_of (odb_assets db) (ovr_content o')
      else None)"

definition override_targets :: "override_db \<Rightarrow> uuid \<Rightarrow> override_row \<Rightarrow> bool" where
  "override_targets db screen o' \<longleftrightarrow> ovr_stopped o' = None \<and>
     (ovr_target_type o' = ''screen'' \<and> ovr_target o' = screen \<or>
      ovr_target_type o' = ''group'' \<and> (screen, ovr_target o') \<in> set (odb_memberships db)
        \<and> ovr_target o' \<in> set (odb_groups db))"

definition override_runs :: "instant \<Rightarrow> override_row \<Rightarrow> bool" where
  "override_runs t o' \<longleftrightarrow> ovr_started o' \<le> micros t \<and> (case ovr_expires o' of None \<Rightarrow> True | Some e \<Rightarrow> micros t < e)"

text \<open>A name that is NULL does not scan into the string of the code.\<close>

definition active_for_screen_at :: "override_db \<Rightarrow> uuid \<Rightarrow> instant \<Rightarrow> plan_error + presentation_override option" where
  "active_for_screen_at db screen t =
     (case last_by (\<lambda>o'. (ovr_started o', ovr_id o'))
             (filter (override_runs t) (filter (override_targets db screen) (odb_overrides db))) of
        None \<Rightarrow> Inr None
      | Some o' \<Rightarrow>
          (case content_name db o' of
             None \<Rightarrow> Inl (ReadFailed ''load active presentation override'')
           | Some _ \<Rightarrow> Inr (Some \<lparr>po_id = ovr_id o', po_content_type = ovr_content_type o',
               po_content_id = ovr_content o', po_expires_at = ovr_expires o'\<rparr>)))"

section \<open>What holds up to the next evaluation\<close>

text \<open>
  No record starts later than \<open>now\<close> (the code stores its own clock when it activates a Takeover or starts a Quick
  Present), and the columns hold whole microseconds.
\<close>

definition started_by :: "instant \<Rightarrow> override_db \<Rightarrow> bool" where
  "started_by now db \<longleftrightarrow>
     (\<forall>e\<in>set (odb_takeovers db). (\<forall>a. tkr_activated e = Some a \<longrightarrow> a \<le> now \<and> a mod 1000 = 0) \<and> tkr_expires e mod 1000 = 0) \<and>
     (\<forall>o'\<in>set (odb_overrides db). ovr_started o' \<le> now \<and> ovr_started o' mod 1000 = 0
        \<and> (\<forall>x. ovr_expires o' = Some x \<longrightarrow> x mod 1000 = 0))"

lemma micros_stored:
  assumes "x mod 1000 = 0"
  shows "x \<le> micros t \<longleftrightarrow> x \<le> t" "micros t < x \<longleftrightarrow> t < x"
proof -
  have "x = x div 1000 * 1000" using assms by auto
  then obtain k where k: "x = k * 1000" by blast
  show "x \<le> micros t \<longleftrightarrow> x \<le> t" unfolding k micros_def by auto
  then show "micros t < x \<longleftrightarrow> t < x" by auto
qed

lemma last_by_max:
  "last_by key xs = Some k \<Longrightarrow> k \<in> set xs \<and> (\<forall>y\<in>set xs. key y \<le> key k)"
proof (induction xs arbitrary: k)
  case (Cons x xs)
  show ?case
  proof (cases "last_by key xs")
    case None
    then show ?thesis using Cons.prems by (cases xs) (auto split: option.splits)
  next
    case (Some y)
    then show ?thesis using Cons.prems Cons.IH [OF Some] by (force split: if_splits)
  qed
qed simp

lemma last_by_None [simp]: "last_by key xs = None \<longleftrightarrow> xs = []"
  by (cases xs) (auto split: option.splits)

text \<open>What was last stays last when others drop out.\<close>

lemma last_by_filter:
  assumes "last_by key (filter P xs) = Some k" "Q k" "\<forall>x\<in>set xs. Q x \<longrightarrow> P x"
  shows "last_by key (filter Q xs) = Some k"
  using assms
proof (induction xs arbitrary: k)
  case Nil
  then show ?case by simp
next
  case (Cons x xs)
  show ?case
  proof (cases "P x")
    case False
    then show ?thesis using Cons by auto
  next
    case P: True
    show ?thesis
    proof (cases "last_by key (filter P xs)")
      case None
      then have none: "filter P xs = []" by simp
      then have "filter Q xs = []" using Cons.prems(3) by (auto simp: filter_empty_conv)
      moreover have "k = x" using Cons.prems(1) P none by simp
      ultimately show ?thesis using Cons.prems(2) by simp
    next
      case (Some y)
      note ymax = last_by_max [OF Some]
      show ?thesis
      proof (cases "key x < key y")
        case True
        then have "k = y" using Cons.prems(1) P Some by simp
        then have "last_by key (filter Q xs) = Some y" using Cons.IH [OF Some] Cons.prems(2,3) by simp
        then show ?thesis using True \<open>k = y\<close> by simp
      next
        case False
        then have k: "k = x" using Cons.prems(1) P Some by simp
        have "\<not> key x < key z" if "last_by key (filter Q xs) = Some z" for z
        proof -
          have "z \<in> set (filter P xs)" using last_by_max [OF that] Cons.prems(3) by auto
          then have "key z \<le> key y" using ymax by blast
          then show ?thesis using False by auto
        qed
        then show ?thesis using Cons.prems(2) k by (cases "last_by key (filter Q xs)") (auto simp del: last_by_None)
      qed
    qed
  qed
qed

lemma last_by_same:
  assumes "\<forall>x\<in>set xs. Q x \<longrightarrow> P x" "\<forall>k. last_by key (filter P xs) = Some k \<longrightarrow> Q k"
  shows "last_by key (filter Q xs) = last_by key (filter P xs)"
proof (cases "last_by key (filter P xs)")
  case None
  then have "filter P xs = []" by simp
  then have "filter Q xs = []" using assms(1) by (auto simp: filter_empty_conv)
  with None show ?thesis by simp
next
  case (Some k)
  then show ?thesis using last_by_filter assms by fastforce
qed

lemma takeover_lasts:
  assumes "started_by now db" "now \<le> t" "t \<le> u"
    and "active_takeover_at db screen t = Inr k" "\<forall>x. k = Some x \<longrightarrow> u < mt_expires_at x"
  shows "active_takeover_at db screen u = Inr k"
proof -
  have st: "mt_activated_at x \<le> now \<and> mt_activated_at x mod 1000 = 0 \<and> mt_expires_at x mod 1000 = 0"
    if "x \<in> set (screen_takeovers db screen)" for x
    using that assms(1) by (auto simp: screen_takeovers_def started_by_def split: if_splits)
  have runs: "takeover_runs v x \<longleftrightarrow> v < mt_expires_at x" if "x \<in> set (screen_takeovers db screen)" "now \<le> v" for x v
    using st [OF that(1)] that(2) by (simp add: takeover_runs_def micros_stored)
  have "last_by (\<lambda>k. (mt_activated_at k, mt_id k)) (filter (takeover_runs u) (screen_takeovers db screen))
      = last_by (\<lambda>k. (mt_activated_at k, mt_id k)) (filter (takeover_runs t) (screen_takeovers db screen))"
  proof (rule last_by_same)
    show "\<forall>x\<in>set (screen_takeovers db screen). takeover_runs u x \<longrightarrow> takeover_runs t x"
      using runs assms(2,3) by auto
    show "\<forall>x. last_by (\<lambda>k. (mt_activated_at k, mt_id k)) (filter (takeover_runs t) (screen_takeovers db screen)) = Some x
        \<longrightarrow> takeover_runs u x"
      using runs assms(2-5) last_by_max by (fastforce simp: active_takeover_at_def)
  qed
  then show ?thesis using assms(4) by (simp add: active_takeover_at_def)
qed

lemma override_lasts:
  assumes "started_by now db" "now \<le> t" "t \<le> u"
    and "active_for_screen_at db screen t = Inr q" "\<forall>x. q = Some x \<longrightarrow> (\<forall>e. po_expires_at x = Some e \<longrightarrow> u < e)"
  shows "active_for_screen_at db screen u = Inr q"
proof -
  let ?rows = "filter (override_targets db screen) (odb_overrides db)"
  let ?at = "\<lambda>v. last_by (\<lambda>o'. (ovr_started o', ovr_id o')) (filter (override_runs v) ?rows)"
  have runs: "override_runs v x \<longleftrightarrow> (\<forall>e. ovr_expires x = Some e \<longrightarrow> v < e)" if "x \<in> set ?rows" "now \<le> v" for x v
  proof -
    have "ovr_started x \<le> now" "ovr_started x mod 1000 = 0" "\<forall>e. ovr_expires x = Some e \<longrightarrow> e mod 1000 = 0"
      using that(1) assms(1) by (auto simp: started_by_def)
    then show ?thesis using that(2) by (auto simp: override_runs_def micros_stored split: option.splits)
  qed
  have "?at u = ?at t"
  proof (rule last_by_same)
    show "\<forall>x\<in>set ?rows. override_runs u x \<longrightarrow> override_runs t x"
      using runs assms(2,3) by (metis order.trans order.strict_trans1)
    show "\<forall>x. ?at t = Some x \<longrightarrow> override_runs u x"
    proof (intro allI impI)
      fix x assume x: "?at t = Some x"
      then have "x \<in> set ?rows" using last_by_max by fastforce
      moreover have "\<forall>e. ovr_expires x = Some e \<longrightarrow> u < e"
        using assms(4,5) x by (auto simp: active_for_screen_at_def split: option.splits)
      ultimately show "override_runs u x" using runs assms(2,3) by auto
    qed
  qed
  then show ?thesis using assms(4) by (simp only: active_for_screen_at_def)
qed

lemma schedules_last:
  assumes "explain tzdb local t ss = Some trace" "\<forall>s\<in>set ss. sch_enabled s \<longrightarrow> simple_schedule tzdb local s"
    and "t \<le> u" "u \<le> t + week" "\<forall>n. r_next (e_resolution trace) = Some n \<longrightarrow> u < n"
  shows "\<exists>trace'. explain tzdb local u ss = Some trace' \<and> r_winner (e_resolution trace') = r_winner (e_resolution trace)
    \<and> e_candidates trace' = e_candidates trace"
proof -
  note r = explain_resolution [OF assms(1)]
  obtain r' where r': "resolve tzdb local u ss = Some r'" "r_winner r' = r_winner (e_resolution trace)"
      "r_applicable r' = r_applicable (e_resolution trace)"
    using resolve_stable [OF r assms(2-5)] by blast
  have "explain_candidate r' = explain_candidate (e_resolution trace)"
    by (rule ext) (simp only: explain_candidate_def r'(2,3))
  then have "explain tzdb local u ss = Some \<lparr>e_resolution = r', e_candidates = e_candidates trace\<rparr>"
    using explain_defined [OF r'(1)] explain_defined [OF r] assms(1) by (metis explanation.select_convs(2) option.inject)
  then show ?thesis using r'(2) by auto
qed

text \<open>A selection holds up to the next evaluation, a week at most.\<close>

lemma selection_lasts:
  assumes "select_at tzdb local rd screen t inputs = Inr plan"
    and "rd_takeover rd screen = active_takeover_at db screen" "rd_override rd screen = active_for_screen_at db screen"
    and "started_by now db" "now \<le> t" "t \<le> u" "u \<le> t + week"
    and "\<forall>s\<in>set (in_schedules inputs). sch_enabled s \<longrightarrow> simple_schedule tzdb local s"
    and "\<forall>n. cp_next plan = Some n \<and> t < n \<longrightarrow> u < n"
  shows "\<exists>plan'. select_at tzdb local rd screen u inputs = Inr plan' \<and> cp_selected plan' = cp_selected plan
    \<and> cp_candidates plan' = cp_candidates plan"
proof -
  obtain trace quick takeover k q g where
    e: "explain tzdb local t (in_schedules inputs) = Some trace"
    and rd: "rd_override rd screen t = Inr quick" "rd_takeover rd screen t = Inr takeover"
    and sel: "cp_selected plan = choose_selection takeover quick (r_winner (e_resolution trace)) inputs"
    and cs: "cp_candidates plan = [k, q] @ map (schedule_candidate (cp_selected plan) (in_names inputs)) (e_candidates trace) @ [g]"
    and kqg: "add_candidate (cp_selected plan) ''takeover'' (map_option mt_id takeover) (takeover \<noteq> None) ''no_active_takeover'' = Some k"
    "add_candidate (cp_selected plan) ''quick_present'' (map_option po_id quick) (quick \<noteq> None) ''no_active_quick_present'' = Some q"
    "add_candidate (cp_selected plan) ''assignment'' None
       (asg_playlist (in_assignment inputs) \<noteq> None \<or> asg_layout (in_assignment inputs) \<noteq> None) ''no_assignment'' = Some g"
    and nxt: "cp_next plan = boundary t (map_option mt_expires_at takeover)
       (boundary t (Option.bind quick po_expires_at) (r_next (e_resolution trace)))"
    by (rule select_at_Inr [OF assms(1)]) blast
  have "is_earliest (set (transitions tzdb local t (in_schedules inputs)) \<inter> {x. t < x}) (r_next (e_resolution trace))"
    unfolding resolve_Some(4) [OF explain_resolution [OF e]] by (rule earliest_after_spec)
  then have after: "t < n" if "r_next (e_resolution trace) = Some n" for n using that by (auto simp: is_earliest_def)
  have bound: "(\<forall>n. b = Some n \<and> t < n \<longrightarrow> u < n) \<and> (\<forall>n. r = Some n \<longrightarrow> u < n) \<and> (\<forall>n. boundary t b r = Some n \<longrightarrow> t < n)"
    if "\<forall>n. boundary t b r = Some n \<longrightarrow> u < n" "\<forall>n. r = Some n \<longrightarrow> t < n" for b r
    using that by (fastforce simp: boundary_def earliest_after_def split: option.splits if_splits)
  have after_b: "t < n" if "boundary t b r = Some n" "\<forall>n. r = Some n \<longrightarrow> t < n" for b r n
    using that by (auto simp: boundary_def earliest_after_def split: option.splits if_splits)
  let ?inner = "boundary t (Option.bind quick po_expires_at) (r_next (e_resolution trace))"
  have inner: "\<forall>n. ?inner = Some n \<longrightarrow> t < n" using after_b after by blast
  have "\<forall>n. boundary t (map_option mt_expires_at takeover) ?inner = Some n \<longrightarrow> u < n"
    using assms(9) after_b inner unfolding nxt by blast
  note b1 = bound [OF this inner]
  have "\<forall>n. r_next (e_resolution trace) = Some n \<longrightarrow> t < n" using after by blast
  from bound [OF b1 [THEN conjunct2, THEN conjunct1] this]
  have b2: "\<forall>n. Option.bind quick po_expires_at = Some n \<and> t < n \<longrightarrow> u < n"
    "\<forall>n. r_next (e_resolution trace) = Some n \<longrightarrow> u < n" by blast+
  have tk: "active_takeover_at db screen t = Inr takeover" and qk: "active_for_screen_at db screen t = Inr quick"
    using rd assms(2,3) by simp_all
  have "\<forall>x. takeover = Some x \<longrightarrow> u < mt_expires_at x"
  proof (intro allI impI)
    fix x assume x: "takeover = Some x"
    have "takeover_runs t x" "x \<in> set (screen_takeovers db screen)"
      using tk x last_by_max by (fastforce simp: active_takeover_at_def)+
    then have "t < mt_expires_at x"
      using assms(4) by (auto simp: takeover_runs_def screen_takeovers_def started_by_def micros_stored split: if_splits)
    then show "u < mt_expires_at x" using b1 x by auto
  qed
  from takeover_lasts [OF assms(4-6) tk this] have tk': "rd_takeover rd screen u = Inr takeover" using assms(2) by simp
  have "\<forall>x. quick = Some x \<longrightarrow> (\<forall>e. po_expires_at x = Some e \<longrightarrow> u < e)"
  proof (intro allI impI)
    fix x y assume x: "quick = Some x" "po_expires_at x = Some y"
    obtain o' where o': "last_by (\<lambda>o'. (ovr_started o', ovr_id o'))
        (filter (override_runs t) (filter (override_targets db screen) (odb_overrides db))) = Some o'" "ovr_expires o' = Some y"
      using qk x by (auto simp: active_for_screen_at_def split: option.splits)
    then have "override_runs t o'" "o' \<in> set (odb_overrides db)" using last_by_max by fastforce+
    then have "t < y" using assms(4) o'(2) by (auto simp: override_runs_def started_by_def micros_stored)
    then show "u < y" using b2 x by auto
  qed
  from override_lasts [OF assms(4-6) qk this] have qk': "rd_override rd screen u = Inr quick" using assms(3) by simp
  from schedules_last [OF e assms(8,6,7) b2(2)] obtain trace' where e': "explain tzdb local u (in_schedules inputs) = Some trace'"
    "r_winner (e_resolution trace') = r_winner (e_resolution trace)" "e_candidates trace' = e_candidates trace" by blast
  from select_at_total [OF e'(1) qk' tk'] obtain plan' where p': "select_at tzdb local rd screen u inputs = Inr plan'" by blast
  show ?thesis
  proof (intro exI conjI)
    show "select_at tzdb local rd screen u inputs = Inr plan'" by (rule p')
    obtain k' q' g' where sel': "cp_selected plan' = cp_selected plan"
      and cs': "cp_candidates plan' = [k', q'] @ map (schedule_candidate (cp_selected plan') (in_names inputs)) (e_candidates trace) @ [g']"
      and kqg': "add_candidate (cp_selected plan') ''takeover'' (map_option mt_id takeover) (takeover \<noteq> None) ''no_active_takeover'' = Some k'"
      "add_candidate (cp_selected plan') ''quick_present'' (map_option po_id quick) (quick \<noteq> None) ''no_active_quick_present'' = Some q'"
      "add_candidate (cp_selected plan') ''assignment'' None
         (asg_playlist (in_assignment inputs) \<noteq> None \<or> asg_layout (in_assignment inputs) \<noteq> None) ''no_assignment'' = Some g'"
      by (rule select_at_Inr [OF p']) (use e' tk' qk' sel in auto)
    show "cp_selected plan' = cp_selected plan" by (rule sel')
    show "cp_candidates plan' = cp_candidates plan" using kqg kqg' cs cs' unfolding sel' by simp
  qed
qed

end
