(* ===== verification/Agenda.thy ===== *)
theory Agenda
  imports SelectionReaders
begin

text \<open>
  Inspection inside one database snapshot (\<open>snapshot.go\<close>) and the forecast of a range
  (\<open>agenda.go\<close>) of \<open>apps/server/internal/playbackplan\<close>. The transaction and the
  services read inside it are a record of functions; Go's pairs of a value and an error are
  kept as pairs where the code uses the value despite the error.
\<close>

section \<open>The snapshot\<close>

datatype read_error = ErrNotFound | ErrUnpublishedPresentation | ErrConflict | ErrOther string

record presentation_identity =
  pid_name :: string
  pid_revision :: "int option"

record snapshot_service =
  sv_begin :: "string option"
  sv_commit :: "string option"
  sv_assignment :: "uuid \<Rightarrow> assignment \<times> read_error option"
  sv_takeover :: "uuid \<Rightarrow> instant \<Rightarrow> plan_error + manifest_takeover option"
  sv_schedules :: "uuid \<Rightarrow> plan_error + schedule_record list"
  sv_override :: "uuid \<Rightarrow> instant \<Rightarrow> plan_error + presentation_override option"
  sv_identity :: "string \<Rightarrow> uuid \<Rightarrow> presentation_identity \<times> read_error option"
  sv_evidence :: "uuid \<Rightarrow> string \<Rightarrow> uuid \<Rightarrow> capability_evidence \<times> read_error option"

definition assignment_synchronization_status :: "assignment \<Rightarrow> string" where
  "assignment_synchronization_status a =
     (case asg_player_active a of
        None \<Rightarrow> ''not_reported''
      | Some v \<Rightarrow>
          if v = asg_manifest_version a then ''current''
          else if asg_player_pending a = Some (asg_manifest_version a) then ''preparing''
          else ''out_of_date'')"

fun read_failure :: "read_error \<Rightarrow> plan_error" where
  "read_failure (ErrOther e) = ReadFailed e"
| "read_failure ErrNotFound = ReadFailed ''not found''"
| "read_failure ErrUnpublishedPresentation = ReadFailed ''unpublished''"
| "read_failure ErrConflict = ReadFailed ''conflict''"

definition snapshot_readers :: "snapshot_service \<Rightarrow> readers" where
  "snapshot_readers sv =
     \<lparr>rd_assignment = (\<lambda>screen. case sv_assignment sv screen of
          (a, None) \<Rightarrow> Inr a
        | (_, Some ErrNotFound) \<Rightarrow> Inl PlanScreenNotFound
        | (_, Some e) \<Rightarrow> Inl (read_failure e)),
      rd_takeover = sv_takeover sv, rd_schedules = sv_schedules sv, rd_override = sv_override sv\<rparr>"

definition assess_capabilities ::
    "snapshot_service \<Rightarrow> uuid \<Rightarrow> selection \<Rightarrow> plan_error + capability_assessment" where
  "assess_capabilities sv screen s =
     (case sv_evidence sv screen (sel_content_type s) (sel_content_id s) of
        (_, Some ErrNotFound) \<Rightarrow>
          Inr \<lparr>ca_status = ''unavailable'', ca_reason = ''selected_content_not_found'', ca_evidence = None\<rparr>
      | (_, Some ErrUnpublishedPresentation) \<Rightarrow>
          Inr \<lparr>ca_status = ''unavailable'', ca_reason = ''selected_content_not_published'', ca_evidence = None\<rparr>
      | (_, Some ErrConflict) \<Rightarrow>
          Inr \<lparr>ca_status = ''unavailable'', ca_reason = ''presentation_requirements_invalid'', ca_evidence = None\<rparr>
      | (_, Some (ErrOther e)) \<Rightarrow> Inl (ReadFailed e)
      | (ev, None) \<Rightarrow> Inr \<lparr>ca_status = ev_status ev, ca_reason = ev_reason ev, ca_evidence = Some ev\<rparr>)"

text \<open>A missing identity leaves the empty name and no revision; any other error is returned.\<close>

definition read_identity ::
    "snapshot_service \<Rightarrow> string \<Rightarrow> uuid \<Rightarrow> plan_error + presentation_identity" where
  "read_identity sv kind i =
     (case sv_identity sv kind i of
        (ident, None) \<Rightarrow> Inr ident
      | (ident, Some ErrNotFound) \<Rightarrow> Inr ident
      | (_, Some e) \<Rightarrow> Inl (read_failure e))"

definition with_identity :: "presentation_identity \<Rightarrow> selection \<Rightarrow> selection" where
  "with_identity ident s = s\<lparr>sel_name := pid_name ident, sel_revision := pid_revision ident\<rparr>"

definition snapshot_at ::
    "tz_database \<Rightarrow> location \<Rightarrow> snapshot_service \<Rightarrow> uuid \<Rightarrow> instant \<Rightarrow> plan_error + current_plan" where
  "snapshot_at tzdb local sv screen t =
     (if screen = uuid_nil \<or> t = zero_time then Inl InvalidCurrentInspection
      else case sv_begin sv of
        Some e \<Rightarrow> Inl (ReadFailed e)
      | None \<Rightarrow>
          andthen (current_at tzdb local (snapshot_readers sv) screen t) (\<lambda>plan.
            let a = fst (sv_assignment sv screen);
                plan1 = plan\<lparr>cp_synchronization := Some \<lparr>sy_status = assignment_synchronization_status a,
                               sy_manifest_version = asg_manifest_version a, sy_active = asg_player_active a,
                               sy_pending = asg_player_pending a\<rparr>,
                             cp_capabilities := Some \<lparr>ca_status = ''not_applicable'',
                               ca_reason = ''no_selected_content'', ca_evidence = None\<rparr>\<rparr>
            in andthen
                 (case cp_selected plan1 of
                    None \<Rightarrow> Inr plan1
                  | Some s \<Rightarrow>
                      andthen (read_identity sv (sel_content_type s) (sel_content_id s)) (\<lambda>ident.
                      andthen (assess_capabilities sv screen s) (\<lambda>ca.
                        Inr (plan1\<lparr>cp_selected := Some (with_identity ident s), cp_capabilities := Some ca\<rparr>))))
                 (\<lambda>plan2. case sv_commit sv of Some e \<Rightarrow> Inl (ReadFailed e) | None \<Rightarrow> Inr plan2)))"

section \<open>The agenda\<close>

definition max_agenda_duration :: duration where "max_agenda_duration = 8 * 24 * hour"
definition max_agenda_boundaries :: nat where "max_agenda_boundaries = 512"

record agenda_segment =
  ag_start :: instant
  ag_end :: instant
  ag_selected :: "selection option"
  ag_superseded :: "selection_candidate list"

record agenda =
  agd_evaluated_at :: instant
  agd_segments :: "agenda_segment list"

definition superseded_of :: "current_plan \<Rightarrow> selection_candidate list" where
  "superseded_of plan = filter (\<lambda>c. sc_source c = ''schedule'' \<and> sc_status c = ''superseded'') (cp_candidates plan)"

definition segment_end :: "instant \<Rightarrow> instant \<Rightarrow> current_plan \<Rightarrow> instant" where
  "segment_end to' t plan =
     (let e = min (t + 24 * hour) to'
      in case cp_next plan of Some n \<Rightarrow> if t < n \<and> n < e then n else e | None \<Rightarrow> e)"

definition add_segment :: "instant \<Rightarrow> instant \<Rightarrow> current_plan \<Rightarrow> agenda_segment list \<Rightarrow> agenda_segment list" where
  "add_segment t e plan segs =
     (if segs \<noteq> [] \<and> ag_selected (last segs) = cp_selected plan \<and> ag_superseded (last segs) = superseded_of plan
      then butlast segs @ [(last segs)\<lparr>ag_end := e\<rparr>]
      else segs @ [\<lparr>ag_start = t, ag_end = e, ag_selected = cp_selected plan,
                    ag_superseded = superseded_of plan\<rparr>])"

text \<open>
  The loop of \<open>agendaSegments\<close>; the number counts the evaluations that are left. The
  selection may carry a state, the cache of identities.
\<close>

fun agenda_loop ::
    "('s \<Rightarrow> instant \<Rightarrow> plan_error + current_plan \<times> 's) \<Rightarrow> instant \<Rightarrow> nat \<Rightarrow> instant \<Rightarrow> 's \<Rightarrow>
     agenda_segment list \<Rightarrow> plan_error + agenda_segment list" where
  "agenda_loop sel to' 0 t st segs = (if t < to' then Inl AgendaTooManyChanges else Inr segs)"
| "agenda_loop sel to' (Suc n) t st segs =
     (if \<not> t < to' then Inr segs
      else case sel st t of
        Inl e \<Rightarrow> Inl e
      | Inr (plan, st') \<Rightarrow>
          agenda_loop sel to' n (segment_end to' t plan) st' (add_segment t (segment_end to' t plan) plan segs))"

definition agenda_segments ::
    "('s \<Rightarrow> instant \<Rightarrow> plan_error + current_plan \<times> 's) \<Rightarrow> 's \<Rightarrow> instant \<Rightarrow> instant \<Rightarrow>
     plan_error + agenda_segment list" where
  "agenda_segments sel st a b = agenda_loop sel b max_agenda_boundaries a st []"

type_synonym identity_cache = "((string \<times> uuid) \<times> presentation_identity) list"

text \<open>The selection of an agenda: the identity is read once per content.\<close>

definition agenda_select ::
    "tz_database \<Rightarrow> location \<Rightarrow> snapshot_service \<Rightarrow> uuid \<Rightarrow> selection_inputs \<Rightarrow> identity_cache \<Rightarrow> instant \<Rightarrow>
     plan_error + current_plan \<times> identity_cache" where
  "agenda_select tzdb local sv screen inputs cache t =
     andthen (select_at tzdb local (snapshot_readers sv) screen t inputs) (\<lambda>plan.
       case cp_selected plan of
         None \<Rightarrow> Inr (plan, cache)
       | Some s \<Rightarrow>
           (let k = (sel_content_type s, sel_content_id s) in
            case map_of cache k of
              Some ident \<Rightarrow> Inr (plan\<lparr>cp_selected := Some (with_identity ident s)\<rparr>, cache)
            | None \<Rightarrow>
                andthen (read_identity sv (fst k) (snd k)) (\<lambda>ident.
                  Inr (plan\<lparr>cp_selected := Some (with_identity ident s)\<rparr>, (k, ident) # cache))))"

definition agenda_of ::
    "tz_database \<Rightarrow> location \<Rightarrow> snapshot_service \<Rightarrow> instant \<Rightarrow> uuid \<Rightarrow> instant \<Rightarrow> instant \<Rightarrow> plan_error + agenda" where
  "agenda_of tzdb local sv now screen a b =
     (if screen = uuid_nil \<or> a = zero_time \<or> \<not> a < b \<or> max_agenda_duration < time_sub b a
      then Inl InvalidAgendaRange
      else case sv_begin sv of
        Some e \<Rightarrow> Inl (ReadFailed e)
      | None \<Rightarrow>
          andthen (load_selection_inputs (snapshot_readers sv) screen) (\<lambda>inputs.
          andthen (agenda_segments (agenda_select tzdb local sv screen inputs) [] (if a < now then now else a) b)
            (\<lambda>segs. case sv_commit sv of
               Some e \<Rightarrow> Inl (ReadFailed e)
             | None \<Rightarrow> Inr \<lparr>agd_evaluated_at = now, agd_segments = segs\<rparr>)))"

section \<open>Lemmas\<close>

fun tiles :: "instant \<Rightarrow> agenda_segment list \<Rightarrow> instant \<Rightarrow> bool" where
  "tiles a [] b \<longleftrightarrow> a = b"
| "tiles a (s # ss) b \<longleftrightarrow> ag_start s = a \<and> a < ag_end s \<and> tiles (ag_end s) ss b"

type_synonym content = "selection option \<times> selection_candidate list"

definition segment_content :: "agenda_segment \<Rightarrow> content" where
  "segment_content s = (ag_selected s, ag_superseded s)"

definition plan_content :: "current_plan \<Rightarrow> content" where
  "plan_content p = (cp_selected p, superseded_of p)"

lemma tiles_append: "tiles a (xs @ ys) b \<longleftrightarrow> (\<exists>m. tiles a xs m \<and> tiles m ys b)"
  by (induction xs arbitrary: a) auto

lemma segment_end_bounds:
  assumes "t < b" shows "t < segment_end b t plan" "segment_end b t plan \<le> b"
  using assms by (auto simp: segment_end_def Let_def hour_def minute_def second_def min_def split: option.splits)

lemma add_segment_tiles:
  assumes "tiles a segs t" "t < e"
  shows "tiles a (add_segment t e plan segs) e"
proof (cases "segs = [] \<or> ag_selected (last segs) \<noteq> cp_selected plan \<or> ag_superseded (last segs) \<noteq> superseded_of plan")
  case True
  then show ?thesis using assms by (auto simp: add_segment_def tiles_append)
next
  case False
  then obtain init s where s: "segs = init @ [s]" by (metis rev_exhaust)
  then show ?thesis using assms False by (auto simp: add_segment_def tiles_append)
qed

lemma distinct_adj_snoc: "distinct_adj (xs @ [x]) \<longleftrightarrow> distinct_adj xs \<and> (xs \<noteq> [] \<longrightarrow> last xs \<noteq> x)"
  by (auto simp: distinct_adj_append_iff)

lemma add_segment_changes:
  assumes "distinct_adj (map segment_content segs)"
  shows "distinct_adj (map segment_content (add_segment t e plan segs))"
proof (cases "segs = [] \<or> ag_selected (last segs) \<noteq> cp_selected plan \<or> ag_superseded (last segs) \<noteq> superseded_of plan")
  case True
  then show ?thesis using assms
    by (auto simp: add_segment_def distinct_adj_snoc last_map segment_content_def)
next
  case False
  then obtain init s where s: "segs = init @ [s]" by (metis rev_exhaust)
  then show ?thesis using assms False by (auto simp: add_segment_def segment_content_def)
qed

lemma add_segment_length: "length (add_segment t e plan segs) \<le> Suc (length segs)"
  by (auto simp: add_segment_def)

text \<open>What the loop has built so far.\<close>

definition agenda_inv :: "instant \<Rightarrow> nat \<Rightarrow> instant \<Rightarrow> agenda_segment list \<Rightarrow> bool" where
  "agenda_inv a n t segs \<longleftrightarrow> tiles a segs t \<and> distinct_adj (map segment_content segs)
     \<and> length segs + n \<le> max_agenda_boundaries"

lemma agenda_loop_inv:
  assumes "agenda_loop sel b n t st segs = Inr res" "agenda_inv a n t segs" "t \<le> b"
  shows "agenda_inv a 0 b res"
  using assms
proof (induction n arbitrary: t st segs)
  case 0
  then show ?case by (auto split: if_splits)
next
  case (Suc n)
  show ?case
  proof (cases "t < b")
    case False
    then show ?thesis using Suc.prems by (auto simp: agenda_inv_def)
  next
    case True
    then obtain plan st' where p: "sel st t = Inr (plan, st')"
      using Suc.prems(1) by (auto split: sum.splits)
    define e where "e = segment_end b t plan"
    have e: "t < e" "e \<le> b" using segment_end_bounds [OF True] by (simp_all add: e_def)
    have "agenda_inv a n e (add_segment t e plan segs)"
      using Suc.prems(2) add_segment_length [of t e plan segs]
      by (auto simp: agenda_inv_def add_segment_tiles e add_segment_changes)
    moreover have "agenda_loop sel b n e st' (add_segment t e plan segs) = Inr res"
      using Suc.prems(1) True by (simp add: p e_def)
    ultimately show ?thesis using Suc.IH e(2) by blast
  qed
qed

section \<open>Properties\<close>

text \<open>
  C13. The segments of an agenda tile the requested range: the first starts at its start, each next one
  starts where the one before ends, every one has positive length and the last ends at its end. Neighbours
  differ in what is selected or superseded, and there are at most 512. This holds for every selection function,
  and the agenda starts no earlier than now.
\<close>

theorem agenda_tiles_range:
  assumes "agenda_segments sel st a b = Inr segs" "a \<le> b"
  shows "tiles a segs b \<and> distinct_adj (map segment_content segs) \<and> length segs \<le> 512"
proof -
  have "agenda_inv a max_agenda_boundaries a []" by (simp add: agenda_inv_def)
  from agenda_loop_inv [OF assms(1) [unfolded agenda_segments_def] this assms(2)]
  show ?thesis by (simp add: agenda_inv_def max_agenda_boundaries_def)
qed


definition steady_plan :: "selection option \<Rightarrow> current_plan" where
  "steady_plan sel = \<lparr>cp_screen = UUID ''s'', cp_at = 0, cp_basis = [], cp_selected = sel, cp_candidates = [],
     cp_next = None,
     cp_explanation = \<lparr>e_resolution = \<lparr>r_winner = None, r_applicable = [], r_next = None\<rparr>, e_candidates = []\<rparr>,
     cp_synchronization = None, cp_capabilities = None\<rparr>"

lemma steady_agenda:
  "\<exists>segs. agenda_segments (\<lambda>u t. Inr (steady_plan None, u)) () 0 (30 * hour) = Inr segs"
proof -
  have e: "segment_end (30 * hour) 0 (steady_plan None) = 24 * hour"
    "segment_end (30 * hour) (24 * hour) (steady_plan None) = 30 * hour"
    by (simp_all add: segment_end_def steady_plan_def hour_def minute_def second_def)
  have n: "max_agenda_boundaries = Suc (Suc (Suc 509))" by (simp add: max_agenda_boundaries_def)
  have l: "(0::int) < 30 * hour" "24 * hour < 30 * hour" by (simp_all add: hour_def minute_def second_def)
  have "\<exists>segs. agenda_loop (\<lambda>u t. Inr (steady_plan None, u)) (30 * hour) (Suc (Suc (Suc k))) 0 () [] = Inr segs" for k
    by (simp add: e l)
  from this [of 509] show ?thesis unfolding agenda_segments_def n .
qed

theorem agenda_tiles_range_witness:
  "\<exists>segs. agenda_segments (\<lambda>u t. Inr (steady_plan None, u)) () 0 (30 * hour) = Inr segs
     \<and> tiles 0 segs (30 * hour)"
proof -
  obtain segs where s: "agenda_segments (\<lambda>u t. Inr (steady_plan None, u)) () 0 (30 * hour) = Inr segs"
    using steady_agenda by blast
  have "(0::int) \<le> 30 * hour" by (simp add: hour_def minute_def second_def)
  from agenda_tiles_range [OF s this] s show ?thesis by blast
qed

definition covers_content :: "agenda_segment list \<Rightarrow> instant \<Rightarrow> content \<Rightarrow> bool" where
  "covers_content segs u c \<longleftrightarrow> (\<exists>s\<in>set segs. ag_start s \<le> u \<and> u < ag_end s \<and> segment_content s = c)"

lemma add_segment_keeps:
  assumes "tiles a segs t" "t < e" "covers_content segs u c"
  shows "covers_content (add_segment t e plan segs) u c"
proof (cases "segs = [] \<or> ag_selected (last segs) \<noteq> cp_selected plan \<or> ag_superseded (last segs) \<noteq> superseded_of plan")
  case True
  then show ?thesis using assms(3) by (auto simp: add_segment_def covers_content_def)
next
  case False
  then obtain init s where s: "segs = init @ [s]" by (metis rev_exhaust)
  then have "ag_end s = t" using assms(1) by (auto simp: tiles_append)
  then show ?thesis using assms s False
    by (auto simp: add_segment_def covers_content_def segment_content_def)
qed

lemma add_segment_covers:
  assumes "tiles a segs t" "t \<le> u" "u < e"
  shows "covers_content (add_segment t e plan segs) u (plan_content plan)"
proof (cases "segs = [] \<or> ag_selected (last segs) \<noteq> cp_selected plan \<or> ag_superseded (last segs) \<noteq> superseded_of plan")
  case True
  then show ?thesis using assms(2,3)
    by (auto simp: add_segment_def covers_content_def segment_content_def plan_content_def)
next
  case False
  then obtain init s where s: "segs = init @ [s]" by (metis rev_exhaust)
  then have "ag_start s < ag_end s" "ag_end s = t" using assms(1) by (auto simp: tiles_append)
  then show ?thesis using assms(2,3) s False
    by (auto simp: add_segment_def covers_content_def segment_content_def plan_content_def)
qed

text \<open>
  The loop over any selection with a state: if every answer is right (by a predicate \<open>ok\<close>) at each instant up to its next
  evaluation, a day at most, then so is the list of segments at each instant of the range.
\<close>

lemma segment_end_limits:
  assumes "t < b" "u < segment_end b t plan"
  shows "u < t + 24 * hour" "\<forall>n. cp_next plan = Some n \<and> t < n \<longrightarrow> u < n"
  using assms by (auto simp: segment_end_def Let_def split: option.splits if_splits)

lemma agenda_loop_covers:
  assumes "agenda_loop sel b n t st segs = Inr res" "t \<le> b" "a \<le> t" "I st" "tiles a segs t"
    and right: "\<And>st t plan st'. sel st t = Inr (plan, st') \<Longrightarrow> I st \<Longrightarrow> a \<le> t \<Longrightarrow> I st' \<and>
      (\<forall>u. t \<le> u \<and> u < t + 24 * hour \<and> (\<forall>n. cp_next plan = Some n \<and> t < n \<longrightarrow> u < n) \<longrightarrow> ok u (plan_content plan))"
    and "\<forall>u. a \<le> u \<and> u < t \<longrightarrow> (\<exists>c. ok u c \<and> covers_content segs u c)"
  shows "\<forall>u. a \<le> u \<and> u < b \<longrightarrow> (\<exists>c. ok u c \<and> covers_content res u c)"
  using assms(1-5,7)
proof (induction n arbitrary: t st segs)
  case 0
  then show ?case by (auto split: if_splits)
next
  case (Suc n)
  show ?case
  proof (cases "t < b")
    case False
    then show ?thesis using Suc.prems by auto
  next
    case True
    then obtain plan st' where p: "sel st t = Inr (plan, st')" using Suc.prems(1) by (auto split: sum.splits)
    define e where "e = segment_end b t plan"
    have e: "t < e" "e \<le> b" using segment_end_bounds [OF True] by (simp_all add: e_def)
    note r = right [OF p Suc.prems(4,3)]
    have cov: "\<exists>c. ok u c \<and> covers_content (add_segment t e plan segs) u c" if u: "a \<le> u" "u < e" for u
    proof (cases "u < t")
      case True
      then show ?thesis using Suc.prems(6) u add_segment_keeps [OF Suc.prems(5) e(1)] by blast
    next
      case False
      then have "ok u (plan_content plan)"
        using r u segment_end_limits [OF \<open>t < b\<close>, of u plan] by (simp add: e_def)
      moreover have "covers_content (add_segment t e plan segs) u (plan_content plan)"
        by (rule add_segment_covers [OF Suc.prems(5)]) (use False u in auto)
      ultimately show ?thesis by blast
    qed
    have "agenda_loop sel b n e st' (add_segment t e plan segs) = Inr res"
      using Suc.prems(1) True by (simp add: p e_def)
    from Suc.IH [OF this e(2)] show ?thesis
      using Suc.prems(3) e(1) r cov add_segment_tiles [OF Suc.prems(5) e(1), of plan] by auto
  qed
qed

text \<open>The cache of an agenda holds what would be read.\<close>

definition cache_right :: "snapshot_service \<Rightarrow> identity_cache \<Rightarrow> bool" where
  "cache_right sv cache \<longleftrightarrow> (\<forall>k ident. map_of cache k = Some ident \<longrightarrow> read_identity sv (fst k) (snd k) = Inr ident)"

text \<open>What the selection of a plan reads like in a segment.\<close>

definition labelled :: "snapshot_service \<Rightarrow> selection option \<Rightarrow> selection option \<Rightarrow> bool" where
  "labelled sv x y \<longleftrightarrow> (case x of None \<Rightarrow> y = None
     | Some s \<Rightarrow> \<exists>ident. read_identity sv (sel_content_type s) (sel_content_id s) = Inr ident \<and> y = Some (with_identity ident s))"

lemma agenda_select_Inr:
  assumes "agenda_select tzdb local sv screen inputs cache t = Inr (plan', cache')" "cache_right sv cache"
  shows "cache_right sv cache' \<and> (\<exists>plan. select_at tzdb local (snapshot_readers sv) screen t inputs = Inr plan
    \<and> labelled sv (cp_selected plan) (cp_selected plan') \<and> cp_candidates plan' = cp_candidates plan \<and> cp_next plan' = cp_next plan)"
proof -
  obtain plan where p: "select_at tzdb local (snapshot_readers sv) screen t inputs = Inr plan"
    using assms(1) by (cases "select_at tzdb local (snapshot_readers sv) screen t inputs") (auto simp: agenda_select_def)
  show ?thesis
  proof (cases "cp_selected plan")
    case None
    then show ?thesis using assms by (auto simp: agenda_select_def p labelled_def)
  next
    case (Some s)
    let ?k = "(sel_content_type s, sel_content_id s)"
    show ?thesis
    proof (cases "map_of cache ?k")
      case None
      then obtain ident where "read_identity sv (sel_content_type s) (sel_content_id s) = Inr ident"
          "plan' = plan\<lparr>cp_selected := Some (with_identity ident s)\<rparr>" "cache' = (?k, ident) # cache"
        using assms(1) Some p by (cases "read_identity sv (sel_content_type s) (sel_content_id s)") (auto simp: agenda_select_def)
      then show ?thesis using assms(2) Some p by (auto simp: cache_right_def labelled_def)
    next
      case (Some ident)
      then have "read_identity sv (sel_content_type s) (sel_content_id s) = Inr ident"
        using assms(2) by (fastforce simp: cache_right_def)
      then show ?thesis using assms Some \<open>cp_selected plan = Some s\<close> p by (auto simp: agenda_select_def labelled_def)
    qed
  qed
qed


text \<open>A Quick Present runs for the next hour; then a schedule takes over.\<close>

definition forecast_db :: override_db where
  "forecast_db = \<lparr>odb_takeovers = [], odb_states = [],
     odb_overrides = [\<lparr>ovr_id = UUID ''q'', ovr_target_type = ''screen'', ovr_target = UUID ''s'', ovr_content_type = ''playlist'',
       ovr_content = UUID ''m'', ovr_started = 0, ovr_expires = Some hour, ovr_stopped = None\<rparr>],
     odb_memberships = [], odb_groups = [], odb_playlists = [(UUID ''m'', ''Menu'')], odb_layouts = [], odb_assets = []\<rparr>"

definition forecast_service :: snapshot_service where
  "forecast_service = \<lparr>sv_begin = None, sv_commit = None, sv_assignment = (\<lambda>_. (in_assignment example_inputs, None)),
     sv_takeover = active_takeover_at forecast_db,
     sv_schedules = (\<lambda>_. Inr [\<lparr>rec_schedule = night_window, rec_name = ''Night''\<rparr>]),
     sv_override = active_for_screen_at forecast_db,
     sv_identity = (\<lambda>_ _. (\<lparr>pid_name = ''Menu'', pid_revision = Some 3\<rparr>, None)),
     sv_evidence = (\<lambda>_ _ _. (\<lparr>ev_screen = UUID ''s'', ev_status = ''compatible'', ev_reason = [],
       ev_reported = False, ev_schemas = [], ev_native = [], ev_web_runtime = 0, ev_requires_v13 = False, ev_widgets = []\<rparr>, None))\<rparr>"

abbreviation forecast_inputs :: selection_inputs where
  "forecast_inputs \<equiv> \<lparr>in_assignment = in_assignment example_inputs, in_schedules = [night_window],
     in_names = (\<lambda>_. [])(UUID ''b'' := ''Night'')\<rparr>"

lemma forecast_readers:
  "load_selection_inputs (snapshot_readers forecast_service) (UUID ''s'') = Inr forecast_inputs"
  by (simp add: load_selection_inputs_def snapshot_readers_def forecast_service_def night_window_def office_hours_def uuid_nil_def)

lemma forecast_plan:
  assumes "0 \<le> t" "t < 2 * hour"
  shows "\<exists>plan. select_at (\<lambda>_. None) utc (snapshot_readers forecast_service) (UUID ''s'') t forecast_inputs = Inr plan
    \<and> cp_next plan = Some (if t < hour then hour else 40 * hour)
    \<and> map_option selection_summary (cp_selected plan) = Some (if t < hour then (''quick_present'', ''playlist'', UUID ''m'', Some (UUID ''q''), None)
        else (''schedule'', ''playlist'', UUID ''p'', Some (UUID ''b''), None))"
proof -
  have i: "interval_at (\<lambda>_. None) utc night_window t = Some (Some (as_active night_window (0, 40 * hour)), [0, 40 * hour])"
    using assms by (simp add: interval_at_def night_window_def office_hours_def one_time_def covers_def one_time_allowed_def
        hour_def minute_def second_def)
  obtain r where r: "resolve (\<lambda>_. None) utc t [night_window] = Some r"
    by (simp add: resolve_closed enabled_ok_def i)
  have "transitions (\<lambda>_. None) utc t [night_window] = [0, 40 * hour]"
    by (simp add: transitions_def i) (simp add: night_window_def office_hours_def)
  then have n: "r_next r = Some (40 * hour)"
    using resolve_Some(4) [OF r] assms by (simp add: earliest_after_def hour_def minute_def second_def)
  have "as_active night_window (0, 40 * hour) \<in> set (r_applicable r)"
    unfolding applicable_iff [OF r] by (simp add: active_at_def i) (simp add: night_window_def office_hours_def)
  then obtain w where w: "r_winner r = Some w" "w \<in> set (r_applicable r)"
    using resolve_winner_fact [OF r] by (cases "r_winner r") auto
  have ws: "a_schedule w = night_window"
    using w(2) by (auto simp: applicable_iff [OF r] active_at_def dest: interval_at_active)
  let ?quick = "if t < hour then Some \<lparr>po_id = UUID ''q'', po_content_type = ''playlist'', po_content_id = UUID ''m'',
    po_expires_at = Some hour\<rparr> else None"
  have "hour mod 1000 = 0" by (simp add: hour_def minute_def second_def)
  note m = micros_stored [OF this, of t] micros_stored [of 0 t]
  have q: "rd_override (snapshot_readers forecast_service) (UUID ''s'') t = Inr ?quick"
    using assms by (simp add: snapshot_readers_def forecast_service_def active_for_screen_at_def forecast_db_def
        override_targets_def override_runs_def content_name_def m)
  have k: "rd_takeover (snapshot_readers forecast_service) (UUID ''s'') t = Inr None"
    by (simp add: snapshot_readers_def forecast_service_def active_takeover_at_def forecast_db_def screen_takeovers_def)
  note e = explain_defined [OF r]
  have "in_schedules forecast_inputs = [night_window]" by simp
  from select_at_total [OF _ q k, of "\<lambda>_. None" utc forecast_inputs, unfolded this, OF e] obtain plan where
    p: "select_at (\<lambda>_. None) utc (snapshot_readers forecast_service) (UUID ''s'') t forecast_inputs = Inr plan" by blast
  have nxt: "cp_next plan = boundary t None (boundary t (Option.bind ?quick po_expires_at) (Some (40 * hour)))"
    and sel: "cp_selected plan = choose_selection None ?quick (Some w) forecast_inputs"
  proof -
    obtain trace quick takeover where x: "explain (\<lambda>_. None) utc t (in_schedules forecast_inputs) = Some trace"
      "rd_override (snapshot_readers forecast_service) (UUID ''s'') t = Inr quick"
      "rd_takeover (snapshot_readers forecast_service) (UUID ''s'') t = Inr takeover"
      "cp_selected plan = choose_selection takeover quick (r_winner (e_resolution trace)) forecast_inputs"
      "cp_next plan = boundary t (map_option mt_expires_at takeover)
       (boundary t (Option.bind quick po_expires_at) (r_next (e_resolution trace)))"
      by (rule select_at_Inr [OF p]) blast
    have "quick = ?quick" "takeover = None" using q k x(2,3) by (simp_all only: sum.inject)
    moreover have "e_resolution trace = r"
      using x(1) e by (metis \<open>in_schedules forecast_inputs = [night_window]\<close> explanation.select_convs(1) option.inject)
    ultimately show "cp_next plan = boundary t None (boundary t (Option.bind ?quick po_expires_at) (Some (40 * hour)))"
      "cp_selected plan = choose_selection None ?quick (Some w) forecast_inputs"
      using x(4,5) n w(1) by (simp_all only: option.map)
  qed
  have "cp_next plan = Some (if t < hour then hour else 40 * hour)"
    unfolding nxt by (simp add: boundary_def earliest_after_def hour_def minute_def second_def)
  moreover have "map_option selection_summary (cp_selected plan) = Some (if t < hour then (''quick_present'', ''playlist'', UUID ''m'', Some (UUID ''q''), None)
        else (''schedule'', ''playlist'', UUID ''p'', Some (UUID ''b''), None))"
    unfolding sel choose_selection_first by (simp add: available_presentations_def maybe_def ws) (simp add: night_window_def office_hours_def)
  ultimately show ?thesis using p by blast
qed

lemma forecast_agenda:
  "\<exists>agd. agenda_of (\<lambda>_. None) utc forecast_service 0 (UUID ''s'') 0 (2 * hour) = Inr agd"
proof -
  let ?sel = "agenda_select (\<lambda>_. None) utc forecast_service (UUID ''s'') forecast_inputs"
  have sel: "\<exists>plan cache'. ?sel cache t = Inr (plan, cache') \<and> cp_next plan = Some (if t < hour then hour else 40 * hour)"
    if t: "0 \<le> t" "t < 2 * hour" for t cache
  proof -
    obtain plan where p: "select_at (\<lambda>_. None) utc (snapshot_readers forecast_service) (UUID ''s'') t forecast_inputs = Inr plan"
        "cp_next plan = Some (if t < hour then hour else 40 * hour)"
      using forecast_plan [OF t] by blast
    have "read_identity forecast_service k i = Inr \<lparr>pid_name = ''Menu'', pid_revision = Some 3\<rparr>" for k i
      by (simp add: read_identity_def forecast_service_def)
    then show ?thesis using p by (auto simp: agenda_select_def Let_def split: option.split)
  qed
  have l: "(0::int) < 2 * hour" "hour < 2 * hour" "0 \<le> hour" "0 < hour" by (simp_all add: hour_def minute_def second_def)
  obtain plan0 cache0 where p0: "?sel [] 0 = Inr (plan0, cache0)" "cp_next plan0 = Some hour" using sel [of 0 "[]"] l by auto
  obtain plan1 cache1 where p1: "?sel cache0 hour = Inr (plan1, cache1)" "cp_next plan1 = Some (40 * hour)"
    using sel [of hour cache0] l by auto
  have e: "segment_end (2 * hour) 0 plan0 = hour" "segment_end (2 * hour) hour plan1 = 2 * hour"
    by (simp_all add: segment_end_def p0 p1 hour_def minute_def second_def)
  have n: "max_agenda_boundaries = Suc (Suc (Suc 509))" by (simp add: max_agenda_boundaries_def)
  have "\<exists>segs. agenda_loop ?sel (2 * hour) (Suc (Suc (Suc k))) 0 [] [] = Inr segs" for k
    by (simp add: p0 p1 e l)
  from this [of 509] obtain segs where "agenda_segments ?sel [] 0 (2 * hour) = Inr segs" unfolding agenda_segments_def n by blast
  moreover have "sv_begin forecast_service = None" "sv_commit forecast_service = None" "UUID ''s'' \<noteq> uuid_nil" "0 \<noteq> zero_time"
      "0 < 2 * hour" "\<not> max_agenda_duration < time_sub (2 * hour) 0" "\<not> (0::int) < 0"
    by (simp_all add: forecast_service_def uuid_nil_def zero_time_def max_agenda_duration_def time_sub_def hour_def minute_def second_def)
  ultimately show ?thesis
    by (simp only: agenda_of_def forecast_readers if_False option.case andthen_simps HOL.simp_thms) blast
qed


end
