(* ===== verification/SpanWall.thy ===== *)
theory SpanWall
  imports GoValues
begin

text \<open>
  The geometry of a Span wall, one canvas shown across several screens:
  \<open>apps/server/internal/span/types.go\<close>. The hash of a geometry is not modelled (JSON and
  SHA-256). Coordinates are Go's 64-bit integers, so the sums of the bounds checks wrap around.
\<close>

section \<open>Geometry\<close>

record canvas =
  cv_width :: int
  cv_height :: int

record panel =
  pn_screen :: uuid
  pn_order :: int
  pn_x :: int
  pn_y :: int
  pn_width :: int
  pn_height :: int
  pn_rotation :: int
  pn_bezel_left :: int
  pn_bezel_top :: int
  pn_bezel_right :: int
  pn_bezel_bottom :: int
  pn_screen_name :: string

record geometry =
  gm_canvas :: canvas
  gm_panels :: "panel list"

definition min_canvas :: int where "min_canvas = 320"
definition max_canvas :: int where "max_canvas = 16384"
definition max_panels :: nat where "max_panels = 64"

definition valid_rotations :: "int list" where
  "valid_rotations = [0, 90, 180, 270]"

datatype span_error =
    ModeInvalid
  | CanvasOutOfRange
  | PanelCountOutOfRange
  | PanelWithoutScreen
  | ScreenRepeated
  | OrderInvalid
  | PanelOutsideCanvas
  | RotationInvalid
  | BezelOutOfRange
  | PanelsOverlap

definition validate_mode :: "string \<Rightarrow> span_error + unit" where
  "validate_mode m = check (m = ''mirror'' \<or> m = ''span'') ModeInvalid"

definition rectangles_overlap :: "panel \<Rightarrow> panel \<Rightarrow> bool" where
  "rectangles_overlap a b \<longleftrightarrow>
     pn_x a < wrap64 (pn_x b + pn_width b) \<and> pn_x b < wrap64 (pn_x a + pn_width a) \<and>
     pn_y a < wrap64 (pn_y b + pn_height b) \<and> pn_y b < wrap64 (pn_y a + pn_height a)"

definition validate_panel :: "canvas \<Rightarrow> uuid list \<Rightarrow> int list \<Rightarrow> panel \<Rightarrow> span_error + unit" where
  "validate_panel c screens orders p =
     (if pn_screen p = uuid_nil then Inl PanelWithoutScreen
      else if pn_screen p \<in> set screens then Inl ScreenRepeated
      else if pn_order p < 0 \<or> int max_panels \<le> pn_order p \<or> pn_order p \<in> set orders then Inl OrderInvalid
      else if pn_x p < 0 \<or> pn_y p < 0 \<or> pn_width p < 1 \<or> pn_height p < 1
          \<or> cv_width c < wrap64 (pn_x p + pn_width p) \<or> cv_height c < wrap64 (pn_y p + pn_height p)
        then Inl PanelOutsideCanvas
      else if pn_rotation p \<notin> set valid_rotations then Inl RotationInvalid
      else if pn_bezel_left p < 0 \<or> pn_bezel_top p < 0 \<or> pn_bezel_right p < 0 \<or> pn_bezel_bottom p < 0
          \<or> 500 < pn_bezel_left p \<or> 500 < pn_bezel_top p \<or> 500 < pn_bezel_right p \<or> 500 < pn_bezel_bottom p
        then Inl BezelOutOfRange
      else Inr ())"

fun validate_panels :: "canvas \<Rightarrow> uuid list \<Rightarrow> int list \<Rightarrow> panel list \<Rightarrow> span_error + unit" where
  "validate_panels c screens orders [] = Inr ()"
| "validate_panels c screens orders (p # ps) =
     andthen (validate_panel c screens orders p)
       (\<lambda>_. validate_panels c (pn_screen p # screens) (pn_order p # orders) ps)"

fun any_overlap :: "panel list \<Rightarrow> bool" where
  "any_overlap [] \<longleftrightarrow> False"
| "any_overlap (p # ps) \<longleftrightarrow> list_ex (rectangles_overlap p) ps \<or> any_overlap ps"

definition order_before :: "panel \<Rightarrow> panel \<Rightarrow> bool" where
  "order_before a b \<longleftrightarrow> pn_order a < pn_order b"

definition validate_geometry :: "canvas \<Rightarrow> panel list \<Rightarrow> span_error + unit" where
  "validate_geometry c ps =
     (if cv_width c < min_canvas \<or> max_canvas < cv_width c \<or> cv_height c < min_canvas \<or> max_canvas < cv_height c
      then Inl CanvasOutOfRange
      else if length ps < 1 \<or> max_panels < length ps then Inl PanelCountOutOfRange
      else andthen (validate_panels c [] [] ps)
        (\<lambda>_. check (\<not> any_overlap (sort_by order_before ps)) PanelsOverlap))"

section \<open>Presets\<close>

text \<open>The smallest number of columns, from \<open>c\<close> on, whose square holds all the screens.\<close>

function compact_columns :: "nat \<Rightarrow> nat \<Rightarrow> nat" where
  "compact_columns n c = (if c * c < n then compact_columns n (Suc c) else c)"
  by pat_completeness auto
termination
proof (relation "measure (\<lambda>(n, c). n - c)")
  show "wf (measure (\<lambda>(n, c). n - c))" by simp
  fix n c :: nat
  assume "c * c < n"
  moreover have "c \<le> c * c" by (cases c) auto
  ultimately have "c < n" by linarith
  then show "((n, Suc c), n, c) \<in> measure (\<lambda>(n, c). n - c)" by simp
qed

declare compact_columns.simps [simp del]

definition preset_columns :: "nat \<Rightarrow> int \<Rightarrow> nat" where
  "preset_columns n columns =
     (let c = (if columns \<le> 0 then compact_columns n 1 else nat columns)
      in max 1 (min c n))"

definition preset_panel :: "canvas \<Rightarrow> nat \<Rightarrow> nat \<Rightarrow> nat \<times> uuid \<Rightarrow> panel" where
  "preset_panel cv columns rows x =
     (let (index, screen) = x;
          row = int (index div columns); column = int (index mod columns);
          left = go_div (wrap64 (column * cv_width cv)) (int columns);
          right = go_div (wrap64 ((column + 1) * cv_width cv)) (int columns);
          top = go_div (wrap64 (row * cv_height cv)) (int rows);
          bottom = go_div (wrap64 ((row + 1) * cv_height cv)) (int rows)
      in \<lparr>pn_screen = screen, pn_order = int index, pn_x = left, pn_y = top,
          pn_width = wrap64 (right - left), pn_height = wrap64 (bottom - top), pn_rotation = 0,
          pn_bezel_left = 0, pn_bezel_top = 0, pn_bezel_right = 0, pn_bezel_bottom = 0, pn_screen_name = []\<rparr>)"

definition preset :: "canvas \<Rightarrow> uuid list \<Rightarrow> int \<Rightarrow> panel list" where
  "preset cv screens columns =
     (let c = preset_columns (length screens) columns;
          rows = (length screens + c - 1) div c
      in map (preset_panel cv c rows) (enumerate 0 screens))"

section \<open>Lemmas\<close>

interpretation order: ranking order_before pn_order
  by unfold_locales (simp add: order_before_def)

text \<open>An edge of the panel lies beyond the 64-bit integers, so that the sum of the check wraps around.\<close>

definition edge_overflows :: "panel \<Rightarrow> bool" where
  "edge_overflows p \<longleftrightarrow> 2 ^ 63 \<le> pn_x p + pn_width p \<or> 2 ^ 63 \<le> pn_y p + pn_height p"

definition panel_fits :: "canvas \<Rightarrow> panel \<Rightarrow> bool" where
  "panel_fits c p \<longleftrightarrow> pn_screen p \<noteq> uuid_nil \<and> 0 \<le> pn_order p \<and> pn_order p < 64
     \<and> 0 \<le> pn_x p \<and> 0 \<le> pn_y p \<and> 1 \<le> pn_width p \<and> 1 \<le> pn_height p
     \<and> pn_x p + pn_width p \<le> cv_width c \<and> pn_y p + pn_height p \<le> cv_height c
     \<and> pn_rotation p \<in> {0, 90, 180, 270}
     \<and> pn_bezel_left p \<in> {0..500} \<and> pn_bezel_top p \<in> {0..500}
     \<and> pn_bezel_right p \<in> {0..500} \<and> pn_bezel_bottom p \<in> {0..500}"

definition shows_pixel :: "panel \<Rightarrow> int \<Rightarrow> int \<Rightarrow> bool" where
  "shows_pixel p x y \<longleftrightarrow> pn_x p \<le> x \<and> x < pn_x p + pn_width p \<and> pn_y p \<le> y \<and> y < pn_y p + pn_height p"

lemma sum_in_range: "0 \<le> a \<Longrightarrow> 0 \<le> b \<Longrightarrow> a + b < 2 ^ 63 \<Longrightarrow> wrap64 (a + b) = (a + b :: int)"
  by (rule wrap64_in_range) (simp add: int64_range_def)

lemma validate_panel_Inr:
  "\<not> edge_overflows p \<Longrightarrow> validate_panel c screens orders p = Inr () \<longleftrightarrow>
     panel_fits c p \<and> pn_screen p \<notin> set screens \<and> pn_order p \<notin> set orders"
  using sum_in_range [of "pn_x p" "pn_width p"] sum_in_range [of "pn_y p" "pn_height p"]
  by (auto simp: validate_panel_def panel_fits_def edge_overflows_def max_panels_def valid_rotations_def)

lemma validate_panels_Inr:
  "\<forall>p\<in>set ps. \<not> edge_overflows p \<Longrightarrow> validate_panels c screens orders ps = Inr () \<longleftrightarrow>
     (\<forall>p\<in>set ps. panel_fits c p) \<and> distinct (map pn_screen ps) \<and> distinct (map pn_order ps)
     \<and> (\<forall>p\<in>set ps. pn_screen p \<notin> set screens \<and> pn_order p \<notin> set orders)"
proof (induction ps arbitrary: screens orders)
  case Nil
  then show ?case by simp
next
  case (Cons q qs)
  have "validate_panels c screens orders (q # qs) = Inr () \<longleftrightarrow>
      (panel_fits c q \<and> pn_screen q \<notin> set screens \<and> pn_order q \<notin> set orders) \<and>
      validate_panels c (pn_screen q # screens) (pn_order q # orders) qs = Inr ()"
    using Cons.prems by (simp add: validate_panel_Inr)
  also have "validate_panels c (pn_screen q # screens) (pn_order q # orders) qs = Inr () \<longleftrightarrow>
      (\<forall>p\<in>set qs. panel_fits c p) \<and> distinct (map pn_screen qs) \<and> distinct (map pn_order qs)
      \<and> (\<forall>p\<in>set qs. pn_screen p \<notin> set (pn_screen q # screens) \<and> pn_order p \<notin> set (pn_order q # orders))"
    by (rule Cons.IH) (use Cons.prems in simp)
  finally show ?case
    by (rule trans) (auto simp: image_iff; metis)
qed

lemma overlap_sym: "rectangles_overlap a b = rectangles_overlap b a"
  by (auto simp: rectangles_overlap_def)

lemma any_overlap_iff:
  "distinct ps \<Longrightarrow> any_overlap ps \<longleftrightarrow> (\<exists>a\<in>set ps. \<exists>b\<in>set ps. a \<noteq> b \<and> rectangles_overlap a b)"
  by (induction ps) (auto simp: list_ex_iff overlap_sym)

lemma edges_in_range:
  assumes "\<not> edge_overflows p" "panel_fits c p"
  shows "wrap64 (pn_x p + pn_width p) = pn_x p + pn_width p" "wrap64 (pn_y p + pn_height p) = pn_y p + pn_height p"
  using assms by (auto simp: edge_overflows_def panel_fits_def intro: sum_in_range)

lemma overlap_pixel:
  assumes "\<not> edge_overflows a" "\<not> edge_overflows b" "panel_fits c a" "panel_fits c b"
  shows "rectangles_overlap a b \<longleftrightarrow> (\<exists>x y. shows_pixel a x y \<and> shows_pixel b x y)"
proof -
  have pos: "1 \<le> pn_width a" "1 \<le> pn_height a" "1 \<le> pn_width b" "1 \<le> pn_height b"
    using assms(3,4) by (simp_all add: panel_fits_def)
  have o: "rectangles_overlap a b \<longleftrightarrow> pn_x a < pn_x b + pn_width b \<and> pn_x b < pn_x a + pn_width a \<and>
      pn_y a < pn_y b + pn_height b \<and> pn_y b < pn_y a + pn_height a"
    by (simp add: rectangles_overlap_def edges_in_range [OF assms(1,3)] edges_in_range [OF assms(2,4)])
  have "shows_pixel a (max (pn_x a) (pn_x b)) (max (pn_y a) (pn_y b))
      \<and> shows_pixel b (max (pn_x a) (pn_x b)) (max (pn_y a) (pn_y b))" if "rectangles_overlap a b"
    using that pos unfolding o shows_pixel_def by linarith
  moreover have "rectangles_overlap a b" if "shows_pixel a x y" "shows_pixel b x y" for x y
    using that unfolding o shows_pixel_def by linarith
  ultimately show ?thesis by blast
qed

definition geometry_ok :: "canvas \<Rightarrow> panel list \<Rightarrow> bool" where
  "geometry_ok c ps \<longleftrightarrow> cv_width c \<in> {320..16384} \<and> cv_height c \<in> {320..16384}
     \<and> length ps \<in> {1..64} \<and> (\<forall>p\<in>set ps. panel_fits c p)
     \<and> distinct (map pn_screen ps) \<and> distinct (map pn_order ps)
     \<and> (\<forall>a\<in>set ps. \<forall>b\<in>set ps. \<forall>x y. shows_pixel a x y \<and> shows_pixel b x y \<longrightarrow> a = b)"

lemma validate_geometry_iff:
  assumes m: "\<forall>p\<in>set ps. \<not> edge_overflows p"
  shows "validate_geometry c ps = Inr () \<longleftrightarrow> geometry_ok c ps"
proof (cases "(\<forall>p\<in>set ps. panel_fits c p) \<and> distinct (map pn_screen ps) \<and> distinct (map pn_order ps)")
  case True
  have "distinct (sort_by order_before ps)"
    using True by (metis distinct_map distinct_map_sort_by)
  then have "any_overlap (sort_by order_before ps) \<longleftrightarrow>
      (\<exists>a\<in>set ps. \<exists>b\<in>set ps. a \<noteq> b \<and> rectangles_overlap a b)"
    by (simp add: any_overlap_iff)
  also have "\<dots> \<longleftrightarrow> \<not> (\<forall>a\<in>set ps. \<forall>b\<in>set ps. \<forall>x y. shows_pixel a x y \<and> shows_pixel b x y \<longrightarrow> a = b)"
    using overlap_pixel m True by blast
  finally have o: "\<not> any_overlap (sort_by order_before ps) \<longleftrightarrow>
      (\<forall>a\<in>set ps. \<forall>b\<in>set ps. \<forall>x y. shows_pixel a x y \<and> shows_pixel b x y \<longrightarrow> a = b)" by blast
  have v: "validate_panels c [] [] ps = Inr ()" using True validate_panels_Inr [OF m, of c "[]" "[]"] by simp
  show ?thesis
    unfolding geometry_ok_def o [symmetric] validate_geometry_def v andthen_simps
    using True by (auto simp: min_canvas_def max_canvas_def max_panels_def Suc_le_eq)
next
  case False
  then show ?thesis using validate_panels_Inr [OF m, of c "[]" "[]"]
    by (auto simp: validate_geometry_def geometry_ok_def)
qed

text \<open>The edges of a grid: \<open>k\<close> of \<open>m\<close> equal parts of a length, rounded down.\<close>

definition grid_edge :: "int \<Rightarrow> nat \<Rightarrow> nat \<Rightarrow> int" where
  "grid_edge len m k = int k * len div int m"

lemma grid_edge_mono: "0 \<le> len \<Longrightarrow> j \<le> k \<Longrightarrow> grid_edge len m j \<le> grid_edge len m k"
  unfolding grid_edge_def by (cases "m = 0") (simp_all add: zdiv_mono1 mult_right_mono)

lemma grid_edge_step:
  assumes "0 < m" "int m \<le> len"
  shows "grid_edge len m k + 1 \<le> grid_edge len m (Suc k)"
proof -
  have "(int k * len + 1 * int m) div int m \<le> int (Suc k) * len div int m"
    using assms by (intro zdiv_mono1) (simp_all add: algebra_simps)
  moreover have "(int k * len + int m) div int m = int k * len div int m + 1"
    using assms(1) by (intro div_add_self2) simp
  ultimately show ?thesis by (simp add: grid_edge_def)
qed

lemma grid_edge_bounds:
  assumes "0 < m" "0 \<le> len" "k \<le> m"
  shows "0 \<le> grid_edge len m k" "grid_edge len m k \<le> len"
  using grid_edge_mono [OF assms(2), of 0 k m] grid_edge_mono [OF assms(2,3), of m] assms(1)
  by (simp_all add: grid_edge_def)

lemma preset_columns_range: "1 \<le> n \<Longrightarrow> 1 \<le> preset_columns n columns \<and> preset_columns n columns \<le> n"
  by (simp add: preset_columns_def Let_def)

lemma preset_rows:
  fixes i c n :: nat
  assumes "1 \<le> c" "i < n"
  shows "i div c < (n + c - 1) div c"
proof -
  have "(i + c) div c = i div c + 1" using assms(1) by (intro div_add_self2) simp
  then have "Suc (i div c) = (i + c) div c" by simp
  also have "\<dots> \<le> (n + c - 1) div c" using assms by (intro div_le_mono) simp
  finally show ?thesis by simp
qed

lemma small_product: "0 \<le> k \<Longrightarrow> k \<le> 64 \<Longrightarrow> 0 \<le> len \<Longrightarrow> len \<le> 16384 \<Longrightarrow> wrap64 (k * len) = (k * len :: int)"
proof (rule wrap64_in_range)
  assume "0 \<le> k" "k \<le> 64" "0 \<le> len" "len \<le> 16384"
  then have "0 \<le> k * len" "k * len \<le> 64 * 16384" by (simp, intro mult_mono) simp_all
  then show "int64_range (k * len)" by (simp add: int64_range_def)
qed

lemma preset_panel_grid:
  assumes "cv_width cv \<in> {320..16384}" "cv_height cv \<in> {320..16384}"
    and "1 \<le> c" "c \<le> 64" "1 \<le> rows" "rows \<le> 64" "i div c < rows"
  shows "preset_panel cv c rows (i, screen) =
    \<lparr>pn_screen = screen, pn_order = int i,
     pn_x = grid_edge (cv_width cv) c (i mod c), pn_y = grid_edge (cv_height cv) rows (i div c),
     pn_width = grid_edge (cv_width cv) c (Suc (i mod c)) - grid_edge (cv_width cv) c (i mod c),
     pn_height = grid_edge (cv_height cv) rows (Suc (i div c)) - grid_edge (cv_height cv) rows (i div c),
     pn_rotation = 0, pn_bezel_left = 0, pn_bezel_top = 0, pn_bezel_right = 0, pn_bezel_bottom = 0,
     pn_screen_name = []\<rparr>"
proof -
  have m: "i mod c < c" using assms(3) by simp
  then have m': "i mod c \<le> 63" "i mod c \<le> 64" "Suc (i mod c) \<le> c" using assms(4) by simp_all
  have e: "go_div (wrap64 (int k * len)) (int m) = grid_edge len m k"
    if "k \<le> 64" "1 \<le> m" "len \<in> {320..16384}" for k m len
    using that by (simp add: small_product go_div_nonneg grid_edge_def)
  have d: "wrap64 (grid_edge len m (Suc k) - grid_edge len m k) = grid_edge len m (Suc k) - grid_edge len m k"
    if "Suc k \<le> m" "1 \<le> m" "len \<in> {320..16384}" for k m len
    using that grid_edge_bounds [of m len k] grid_edge_bounds [of m len "Suc k"]
    by (intro wrap64_in_range) (simp add: int64_range_def)
  show ?thesis
    using m m' assms e [of "i mod c" c] e [of "Suc (i mod c)" c] e [of "i div c" rows] e [of "Suc (i div c)" rows]
      d [of "i mod c" c] d [of "i div c" rows]
    by (simp add: preset_panel_def Let_def add.commute)
qed

lemma preset_nth:
  fixes columns :: int
  assumes "cv_width cv \<in> {320..16384}" "cv_height cv \<in> {320..16384}" "length screens \<in> {1..64}" "i < length screens"
  defines "c \<equiv> preset_columns (length screens) columns"
  defines "rows \<equiv> (length screens + c - 1) div c"
  shows "1 \<le> c \<and> c \<le> 64 \<and> 1 \<le> rows \<and> rows \<le> 64 \<and> i div c < rows
    \<and> preset cv screens columns ! i = preset_panel cv c rows (i, screens ! i)"
proof -
  have c: "1 \<le> c" "c \<le> length screens" using preset_columns_range assms(3) by (simp_all add: c_def)
  have r: "i div c < rows" unfolding rows_def by (rule preset_rows [OF c(1) assms(4)])
  have "rows \<le> (length screens * c) div c"
    unfolding rows_def using c assms(3) by (intro div_le_mono) (cases c; simp)
  then have "rows \<le> length screens" using c by simp
  moreover have "preset cv screens columns ! i = preset_panel cv c rows (i, screens ! i)"
    unfolding preset_def Let_def c_def [symmetric] rows_def [symmetric]
    using assms(4) by (simp add: nth_enumerate_eq)
  ultimately show ?thesis using c r assms(3) by auto
qed

section \<open>Properties\<close>


definition two_panels :: "panel list" where
  "two_panels = [\<lparr>pn_screen = UUID ''a'', pn_order = 0, pn_x = 0, pn_y = 0, pn_width = 960, pn_height = 540,
       pn_rotation = 0, pn_bezel_left = 0, pn_bezel_top = 0, pn_bezel_right = 0, pn_bezel_bottom = 0,
       pn_screen_name = []\<rparr>,
     \<lparr>pn_screen = UUID ''b'', pn_order = 1, pn_x = 960, pn_y = 0, pn_width = 960, pn_height = 540,
       pn_rotation = 90, pn_bezel_left = 9, pn_bezel_top = 0, pn_bezel_right = 0, pn_bezel_bottom = 0,
       pn_screen_name = []\<rparr>]"


text \<open>
  A preset wall is always accepted by the validation: for every canvas in range and between 1 and 64
  distinct screens, whatever number of columns is asked for.
\<close>

theorem preset_is_valid:
  assumes "cv_width cv \<in> {320..16384}" "cv_height cv \<in> {320..16384}" "length screens \<in> {1..64}"
    and "distinct screens" "uuid_nil \<notin> set screens"
  shows "validate_geometry cv (preset cv screens columns) = Inr ()"
proof -
  define c where "c = preset_columns (length screens) columns"
  define rows where "rows = (length screens + c - 1) div c"
  let ?ps = "preset cv screens columns"
  have len: "length ?ps = length screens" by (simp add: preset_def Let_def)
  have grid: "1 \<le> c \<and> c \<le> 64 \<and> 1 \<le> rows \<and> rows \<le> 64 \<and> i div c < rows
      \<and> ?ps ! i = preset_panel cv c rows (i, screens ! i)" if "i < length screens" for i
    using preset_nth [OF assms(1-3) that] by (simp add: c_def rows_def)
  have nth: "?ps ! i =
    \<lparr>pn_screen = screens ! i, pn_order = int i,
     pn_x = grid_edge (cv_width cv) c (i mod c), pn_y = grid_edge (cv_height cv) rows (i div c),
     pn_width = grid_edge (cv_width cv) c (Suc (i mod c)) - grid_edge (cv_width cv) c (i mod c),
     pn_height = grid_edge (cv_height cv) rows (Suc (i div c)) - grid_edge (cv_height cv) rows (i div c),
     pn_rotation = 0, pn_bezel_left = 0, pn_bezel_top = 0, pn_bezel_right = 0, pn_bezel_bottom = 0,
     pn_screen_name = []\<rparr>" if "i < length screens" for i
    using grid [OF that] preset_panel_grid [OF assms(1,2)] by metis
  have fit: "panel_fits cv (?ps ! i) \<and> \<not> edge_overflows (?ps ! i)" if i: "i < length screens" for i
  proof -
    note g = grid [OF i]
    have b: "i mod c < c" "i mod c \<le> c" "Suc (i mod c) \<le> c" "i div c \<le> rows" "Suc (i div c) \<le> rows"
      "0 < c" "0 < rows" "int c \<le> cv_width cv" "int rows \<le> cv_height cv"
      "0 \<le> cv_width cv" "0 \<le> cv_height cv" "screens ! i \<noteq> uuid_nil"
      using g i assms by (auto simp: in_set_conv_nth Suc_le_eq)
    then show ?thesis
      unfolding nth [OF i] panel_fits_def edge_overflows_def
      using i assms(1-3) grid_edge_bounds [of c "cv_width cv" "i mod c"] grid_edge_bounds [of c "cv_width cv" "Suc (i mod c)"]
        grid_edge_bounds [of rows "cv_height cv" "i div c"] grid_edge_bounds [of rows "cv_height cv" "Suc (i div c)"]
        grid_edge_step [of c "cv_width cv" "i mod c"] grid_edge_step [of rows "cv_height cv" "i div c"]
      by simp
  qed
  have screens: "map pn_screen ?ps = screens"
    using nth len by (intro nth_equalityI) simp_all
  have orders: "map pn_order ?ps = map int [0..<length screens]"
    using nth len by (intro nth_equalityI) simp_all
  have sep: "i = j" if i: "i < length screens" and j: "j < length screens"
      and px: "shows_pixel (?ps ! i) x y" "shows_pixel (?ps ! j) x y" for i j x y
  proof -
    have apart: "a = b" if "grid_edge l m a \<le> z" "z < grid_edge l m (Suc a)" "grid_edge l m b \<le> z"
        "z < grid_edge l m (Suc b)" "0 \<le> l" for a b m z l
      using that grid_edge_mono [of l "Suc a" b m] grid_edge_mono [of l "Suc b" a m]
      by (metis linorder_not_le not_less_eq_eq order.strict_trans1 order.strict_trans2 nat_neq_iff Suc_leI)
    have "i mod c = j mod c"
      by (rule apart [of "cv_width cv" c _ x]) (use px assms(1) in \<open>simp_all add: nth [OF i] nth [OF j] shows_pixel_def\<close>)
    moreover have "i div c = j div c"
      by (rule apart [of "cv_height cv" rows _ y]) (use px assms(2) in \<open>simp_all add: nth [OF i] nth [OF j] shows_pixel_def\<close>)
    ultimately show ?thesis by (metis div_mult_mod_eq)
  qed
  have "\<forall>a\<in>set ?ps. \<forall>b\<in>set ?ps. \<forall>x y. shows_pixel a x y \<and> shows_pixel b x y \<longrightarrow> a = b"
    using sep by (metis in_set_conv_nth len)
  moreover have "\<forall>p\<in>set ?ps. panel_fits cv p" using fit by (metis in_set_conv_nth len)
  ultimately have "geometry_ok cv ?ps"
    unfolding geometry_ok_def screens orders len
    using assms by (simp add: distinct_map)
  moreover have "\<forall>p\<in>set ?ps. \<not> edge_overflows p" using fit by (auto simp: in_set_conv_nth len)
  ultimately show ?thesis by (simp add: validate_geometry_iff)
qed

theorem preset_is_valid_witness:
  "validate_geometry \<lparr>cv_width = 1920, cv_height = 1080\<rparr>
     (preset \<lparr>cv_width = 1920, cv_height = 1080\<rparr> [UUID ''a'', UUID ''b'', UUID ''c''] 0) = Inr ()"
  by (rule preset_is_valid) (simp_all add: uuid_nil_def)

text \<open>
  Outside that range the check is wrong: a panel at the largest coordinate passes, although it
  lies far outside the canvas, because the sum of the check wraps around.
\<close>

lemma overflow_accepted:
  "validate_geometry \<lparr>cv_width = 1920, cv_height = 1080\<rparr>
     [\<lparr>pn_screen = UUID ''a'', pn_order = 0, pn_x = 2 ^ 63 - 1, pn_y = 0, pn_width = 1, pn_height = 1,
       pn_rotation = 0, pn_bezel_left = 0, pn_bezel_top = 0, pn_bezel_right = 0, pn_bezel_bottom = 0,
       pn_screen_name = []\<rparr>] = Inr ()"
  by (simp add: validate_geometry_def min_canvas_def max_canvas_def max_panels_def validate_panel_def
      uuid_nil_def wrap64_def valid_rotations_def sort_by_def)

end
