(* ===== verification/Targeting.thy ===== *)
theory Targeting
  imports Prelude
begin

text \<open>
  Display targets: \<open>apps/server/internal/targeting/targets.go\<close>. A definition names all
  screens or a selection of screens, groups and locations; it is validated when it is saved and
  resolved against the current rows. The tables that the queries read are lists of rows, in a record;
  a query that fails is not modelled.
\<close>

section \<open>Definitions and tables\<close>

record target_definition =
  td_mode :: string
  td_screens :: "uuid list"
  td_groups :: "uuid list"
  td_locations :: "uuid list"

record screen_row =
  srow_id :: uuid
  srow_org :: uuid
  srow_deleted :: bool
  srow_archived :: bool
  srow_location :: "uuid option"

record group_row =
  grow_id :: uuid
  grow_org :: uuid
  grow_deleted :: bool

record location_row =
  lrow_id :: uuid
  lrow_org :: uuid

record target_db =
  tdb_org :: uuid
  tdb_screens :: "screen_row list"
  tdb_groups :: "group_row list"
  tdb_locations :: "location_row list"
  tdb_memberships :: "(uuid \<times> uuid) list"

datatype target_error = ModeUnknown | SelectionSize | TooManyTargets | EmptyOrDuplicate | TargetsMissing

section \<open>Validation\<close>

definition uuid_before :: "uuid \<Rightarrow> uuid \<Rightarrow> bool" where
  "uuid_before a b \<longleftrightarrow> uuid_string a < uuid_string b"

definition canonical :: "target_definition \<Rightarrow> target_definition" where
  "canonical d = d\<lparr>td_screens := sort_by uuid_before (td_screens d),
                  td_groups := sort_by uuid_before (td_groups d),
                  td_locations := sort_by uuid_before (td_locations d)\<rparr>"

definition target_count :: "target_definition \<Rightarrow> nat" where
  "target_count d = length (td_screens d) + length (td_groups d) + length (td_locations d)"

fun check_ids :: "uuid list \<Rightarrow> uuid list \<Rightarrow> target_error + unit" where
  "check_ids seen [] = Inr ()"
| "check_ids seen (i # is) =
     (if i = uuid_nil \<or> i \<in> set seen then Inl EmptyOrDuplicate else check_ids (i # seen) is)"

definition validate_ids :: "target_definition \<Rightarrow> target_error + unit" where
  "validate_ids d =
     (if 1000 < target_count d then Inl TooManyTargets
      else first_error (check_ids []) [td_screens d, td_groups d, td_locations d])"

definition validate_definition :: "target_definition \<Rightarrow> target_error + unit" where
  "validate_definition d =
     (if td_mode d \<noteq> ''all'' \<and> td_mode d \<noteq> ''selected'' then Inl ModeUnknown
      else if 1000 < target_count d \<or> (td_mode d = ''all'' \<and> target_count d \<noteq> 0)
          \<or> (td_mode d = ''selected'' \<and> target_count d = 0) then Inl SelectionSize
      else validate_ids d)"

text \<open>\<open>SELECT count(*) ... WHERE id=ANY($1) AND condition\<close>, compared with the number of identifiers.\<close>

definition live_screen :: "target_db \<Rightarrow> screen_row \<Rightarrow> bool" where
  "live_screen db r \<longleftrightarrow> srow_org r = tdb_org db \<and> \<not> srow_deleted r \<and> \<not> srow_archived r"

definition live_group :: "target_db \<Rightarrow> group_row \<Rightarrow> bool" where
  "live_group db r \<longleftrightarrow> grow_org r = tdb_org db \<and> \<not> grow_deleted r"

definition check_existing :: "uuid list \<Rightarrow> uuid list \<Rightarrow> target_error + unit" where
  "check_existing ids rows =
     (if ids = [] then Inr ()
      else check (length (filter (\<lambda>r. r \<in> set ids) rows) = length ids) TargetsMissing)"

definition validate_existing :: "target_db \<Rightarrow> target_definition \<Rightarrow> target_error + unit" where
  "validate_existing db d =
     andthen (check_existing (td_screens d) (map srow_id (filter (live_screen db) (tdb_screens db))))
     (\<lambda>_. andthen (check_existing (td_groups d) (map grow_id (filter (live_group db) (tdb_groups db))))
     (\<lambda>_. check_existing (td_locations d)
            (map lrow_id (filter (\<lambda>l. lrow_org l = tdb_org db) (tdb_locations db)))))"

definition validate_targets :: "target_db \<Rightarrow> target_definition \<Rightarrow> target_error + unit" where
  "validate_targets db d = andthen (validate_definition d) (\<lambda>_. validate_existing db d)"

definition validate_screen_groups :: "target_db \<Rightarrow> uuid list \<Rightarrow> uuid list \<Rightarrow> target_error + unit" where
  "validate_screen_groups db screens groups =
     (let d = \<lparr>td_mode = ''selected'', td_screens = screens, td_groups = groups, td_locations = []\<rparr>
      in andthen (validate_ids d) (\<lambda>_. validate_existing db d))"

section \<open>Resolution\<close>

definition member_of_group :: "target_db \<Rightarrow> uuid list \<Rightarrow> uuid \<Rightarrow> bool" where
  "member_of_group db groups screen \<longleftrightarrow>
     (\<exists>m\<in>set (tdb_memberships db). fst m = screen \<and> snd m \<in> set groups
        \<and> (\<exists>g\<in>set (tdb_groups db). grow_id g = snd m \<and> \<not> grow_deleted g))"

definition membership :: "target_db \<Rightarrow> target_definition \<Rightarrow> screen_row \<Rightarrow> bool" where
  "membership db d r \<longleftrightarrow> td_mode d = ''all'' \<or> srow_id r \<in> set (td_screens d)
     \<or> (case srow_location r of None \<Rightarrow> False | Some l \<Rightarrow> l \<in> set (td_locations d))
     \<or> member_of_group db (td_groups d) (srow_id r)"

definition resolve_targets :: "target_db \<Rightarrow> target_definition \<Rightarrow> uuid list" where
  "resolve_targets db d =
     sort (map srow_id (filter (\<lambda>r. live_screen db r \<and> membership db d r) (tdb_screens db)))"

definition applies :: "target_db \<Rightarrow> target_definition \<Rightarrow> uuid \<Rightarrow> bool" where
  "applies db d screen \<longleftrightarrow>
     (\<exists>r\<in>set (tdb_screens db). live_screen db r \<and> srow_id r = screen \<and> membership db d r)"

section \<open>Lemmas\<close>

interpretation uuids: ranking uuid_before "\<lambda>i. i"
  by unfold_locales (simp add: uuid_before_def)

lemma check_ids_Inr: "check_ids seen is = Inr () \<longleftrightarrow>
    distinct is \<and> uuid_nil \<notin> set is \<and> set is \<inter> set seen = {}"
  by (induction "is" arbitrary: seen) auto

lemma validate_definition_Inr:
  "validate_definition d = Inr () \<longleftrightarrow>
     (td_mode d = ''all'' \<and> target_count d = 0 \<or> td_mode d = ''selected'' \<and> target_count d \<in> {1..1000})
     \<and> (\<forall>ids\<in>{td_screens d, td_groups d, td_locations d}. distinct ids \<and> uuid_nil \<notin> set ids)"
  by (auto simp: validate_definition_def validate_ids_def check_ids_Inr target_count_def Suc_le_eq)

lemma canonical_fields [simp]:
  "td_mode (canonical d) = td_mode d" "set (td_screens (canonical d)) = set (td_screens d)"
  "set (td_groups (canonical d)) = set (td_groups d)" "set (td_locations (canonical d)) = set (td_locations d)"
  "target_count (canonical d) = target_count d"
  by (simp_all add: canonical_def target_count_def)

lemma canonical_distinct [simp]:
  "distinct (sort_by uuid_before is) = distinct is"
  using distinct_map_sort_by [of "\<lambda>i. i" uuid_before "is"] by simp

lemma membership_canonical: "membership db (canonical d) = membership db d"
  by (rule ext) (simp add: membership_def member_of_group_def split: option.split)

lemma check_existing_Inr:
  assumes "distinct ids" "distinct rows"
  shows "check_existing ids rows = Inr () \<longleftrightarrow> set ids \<subseteq> set rows"
proof (cases "ids = []")
  case True
  then show ?thesis by (simp add: check_existing_def)
next
  case False
  have "length (filter (\<lambda>r. r \<in> set ids) rows) = card (set rows \<inter> set ids)"
    using assms(2) by (metis distinct_card distinct_filter set_filter Int_def)
  moreover have "length ids = card (set ids)" using assms(1) by (simp add: distinct_card)
  moreover have "card (set rows \<inter> set ids) = card (set ids) \<longleftrightarrow> set ids \<subseteq> set rows"
    by (metis card_subset_eq finite_set inf.absorb_iff2 inf_le2)
  ultimately show ?thesis using False by (simp add: check_existing_def)
qed

text \<open>The identifiers are primary keys.\<close>

definition keys_ok :: "target_db \<Rightarrow> bool" where
  "keys_ok db \<longleftrightarrow> distinct (map srow_id (tdb_screens db)) \<and> distinct (map grow_id (tdb_groups db))
     \<and> distinct (map lrow_id (tdb_locations db))"

section \<open>Properties\<close>

text \<open>
  The two queries that evaluate targets agree: Resolve returns, in ascending order and without repetition,
  exactly the screens for which Applies holds; never one that is deleted, archived or of another organization; and
  neither depends on the order of the identifiers in the definition.
\<close>

theorem resolve_targets_exact:
  assumes "keys_ok db"
  shows "set (resolve_targets db d) = {screen. applies db d screen}
    \<and> sorted (resolve_targets db d) \<and> distinct (resolve_targets db d)
    \<and> (\<forall>i\<in>set (resolve_targets db d). \<exists>r\<in>set (tdb_screens db). srow_id r = i \<and> live_screen db r)
    \<and> resolve_targets db (canonical d) = resolve_targets db d"
  using assms
  by (auto simp: resolve_targets_def applies_def membership_canonical keys_ok_def distinct_map_filter)

definition example_targets :: target_db where
  "example_targets = \<lparr>tdb_org = UUID ''o'',
     tdb_screens = [\<lparr>srow_id = UUID ''t'', srow_org = UUID ''o'', srow_deleted = False, srow_archived = False,
         srow_location = None\<rparr>,
       \<lparr>srow_id = UUID ''s'', srow_org = UUID ''o'', srow_deleted = False, srow_archived = False,
         srow_location = Some (UUID ''l'')\<rparr>],
     tdb_groups = [], tdb_locations = [\<lparr>lrow_id = UUID ''l'', lrow_org = UUID ''o''\<rparr>], tdb_memberships = []\<rparr>"

definition example_definition :: target_definition where
  "example_definition = \<lparr>td_mode = ''selected'', td_screens = [UUID ''t''], td_groups = [],
     td_locations = [UUID ''l'']\<rparr>"

lemma example_targets_keys: "keys_ok example_targets"
  by (simp add: keys_ok_def example_targets_def)

theorem resolve_targets_exact_witness:
  "UUID ''s'' \<in> set (resolve_targets example_targets example_definition)"
proof -
  have "applies example_targets example_definition (UUID ''s'')"
    by (simp add: applies_def example_targets_def example_definition_def live_screen_def membership_def)
  then show ?thesis using resolve_targets_exact [OF example_targets_keys] by blast
qed

text \<open>
  A definition that Validate accepts targets what it names: it is explicit all or names 1 to 1000
  different targets, every named screen is live and in the resolved set, every named group and location exists,
  and every screen of a named group or location is in the set.
\<close>

theorem validated_targets_resolve:
  assumes "keys_ok db" "validate_targets db d = Inr ()"
  shows "(td_mode d = ''all'' \<and> target_count d = 0 \<or> td_mode d = ''selected'' \<and> target_count d \<in> {1..1000})
    \<and> set (td_screens d) \<subseteq> set (resolve_targets db d)
    \<and> set (td_groups d) \<subseteq> grow_id ` {g \<in> set (tdb_groups db). live_group db g}
    \<and> set (td_locations d) \<subseteq> lrow_id ` set (tdb_locations db)
    \<and> (\<forall>r\<in>set (tdb_screens db). live_screen db r \<and>
         ((\<exists>g\<in>set (td_groups d). (srow_id r, g) \<in> set (tdb_memberships db)) \<or>
          (\<exists>l\<in>set (td_locations d). srow_location r = Some l)) \<longrightarrow> srow_id r \<in> set (resolve_targets db d))"
proof -
  have v: "validate_definition d = Inr ()" and e: "validate_existing db d = Inr ()"
    using assms(2) by (simp_all add: validate_targets_def)
  have dist: "distinct (td_screens d)" "distinct (td_groups d)" "distinct (td_locations d)"
    using v by (simp_all add: validate_definition_Inr)
  have rows: "distinct (map srow_id (filter (live_screen db) (tdb_screens db)))"
    "distinct (map grow_id (filter (live_group db) (tdb_groups db)))"
    "distinct (map lrow_id (filter (\<lambda>l. lrow_org l = tdb_org db) (tdb_locations db)))"
    using assms(1) by (simp_all add: keys_ok_def distinct_map_filter)
  have s: "set (td_screens d) \<subseteq> srow_id ` {r \<in> set (tdb_screens db). live_screen db r}"
    and g: "set (td_groups d) \<subseteq> grow_id ` {g \<in> set (tdb_groups db). live_group db g}"
    and l: "set (td_locations d) \<subseteq> lrow_id ` {l \<in> set (tdb_locations db). lrow_org l = tdb_org db}"
    using e check_existing_Inr [OF dist(1) rows(1)] check_existing_Inr [OF dist(2) rows(2)]
      check_existing_Inr [OF dist(3) rows(3)]
    by (simp_all add: validate_existing_def)
  have "set (td_screens d) \<subseteq> set (resolve_targets db d)"
    using s by (auto simp: resolve_targets_def membership_def)
  moreover have "srow_id r \<in> set (resolve_targets db d)"
    if "r \<in> set (tdb_screens db)" "live_screen db r" "g' \<in> set (td_groups d)" "(srow_id r, g') \<in> set (tdb_memberships db)"
    for r g'
  proof -
    have "\<exists>x\<in>set (tdb_groups db). grow_id x = g' \<and> \<not> grow_deleted x"
      using g that(3) by (auto simp: live_group_def)
    then have "membership db d r" using that(3,4) by (force simp: membership_def member_of_group_def)
    then show ?thesis using that(1,2) by (auto simp: resolve_targets_def)
  qed
  moreover have "srow_id r \<in> set (resolve_targets db d)"
    if "r \<in> set (tdb_screens db)" "live_screen db r" "l' \<in> set (td_locations d)" "srow_location r = Some l'" for r l'
    using that by (auto simp: resolve_targets_def membership_def)
  ultimately show ?thesis using v g l by (auto simp: validate_definition_Inr)
qed

theorem validated_targets_resolve_witness:
  "UUID ''t'' \<in> set (resolve_targets example_targets example_definition)"
proof -
  have "validate_targets example_targets example_definition = Inr ()"
    by (simp add: validate_targets_def validate_definition_def validate_ids_def validate_existing_def
        check_existing_def example_targets_def example_definition_def target_count_def live_screen_def
        uuid_nil_def)
  from validated_targets_resolve [OF example_targets_keys this] show ?thesis
    by (auto simp: example_definition_def)
qed

end
