(* ===== verification/LiveStream.thy ===== *)
theory LiveStream
  imports GoTime GoValues
begin

text \<open>
  Watch Live sessions: \<open>apps/server/internal/livestream/service.go\<close>. A screen has at most one
  session, held by a lease; frames go to the subscribers of the session through channels that hold one frame.
  Each operation runs under the service's lock and is one function here. Readings of the clock and new identifiers
  are arguments, in the order in which the code takes them. Closing a closed channel panics in Go; \<open>None\<close> is
  that panic.
\<close>

section \<open>State\<close>

definition lease_duration :: duration where "lease_duration = 15 * second"
definition frame_interval_millis :: int where "frame_interval_millis = 125"
definition edge_frame_interval_millis :: int where "edge_frame_interval_millis = 100"
definition max_frame_bytes :: int where "max_frame_bytes = 100 * 1024"
definition max_width :: int where "max_width = 640"
definition max_height :: int where "max_height = 360"
definition edge_max_width :: int where "edge_max_width = 960"
definition edge_max_height :: int where "edge_max_height = 540"
definition frame_header :: nat where "frame_header = 33"
definition frame_stale_after :: duration where "frame_stale_after = 5 * second"
definition frame_nudge_cooldown :: duration where "frame_nudge_cooldown = 3 * second"

lemmas frame_limits = max_frame_bytes_def max_width_def max_height_def edge_max_width_def edge_max_height_def

type_synonym bytes = "nat list"
type_synonym channel = nat

record session =
  se_id :: uuid
  se_screen :: uuid
  se_active :: bool
  se_expires_at :: instant
  se_interval_millis :: int
  se_max_width :: int
  se_max_height :: int
  se_max_bytes :: int
  se_last_frame_at :: "instant option"
  se_sequence :: int

record frame =
  fr_captured_at :: instant
  fr_width :: int
  fr_height :: int
  fr_jpeg :: bytes

record active_session =
  as_session :: session
  as_started_at :: instant
  as_last_nudge :: instant
  as_done :: channel
  as_subscribers :: "channel list"

record live_state =
  lv_sessions :: "uuid \<Rightarrow> active_session option"
  lv_buffers :: "channel \<Rightarrow> frame option"
  lv_closed :: "channel list"
  lv_fresh :: channel
  lv_notified :: "uuid list"

datatype live_error = LiveNotFound | LiveReplaced | LiveInvalidFrame

definition live_init :: live_state where
  "live_init = \<lparr>lv_sessions = (\<lambda>_. None), lv_buffers = (\<lambda>_. None), lv_closed = [], lv_fresh = 0,
     lv_notified = []\<rparr>"

section \<open>Operations\<close>

definition close_channel :: "channel \<Rightarrow> live_state \<Rightarrow> live_state option" where
  "close_channel c st = (if c \<in> set (lv_closed st) then None else Some (st\<lparr>lv_closed := c # lv_closed st\<rparr>))"

definition put_session :: "uuid \<Rightarrow> active_session option \<Rightarrow> live_state \<Rightarrow> live_state" where
  "put_session screen a st = st\<lparr>lv_sessions := (lv_sessions st)(screen := a)\<rparr>"

definition live_notify :: "uuid \<Rightarrow> live_state \<Rightarrow> live_state" where
  "live_notify screen st = st\<lparr>lv_notified := screen # lv_notified st\<rparr>"

text \<open>\<open>activeLocked\<close> removes a session whose lease has run out.\<close>

definition active_locked ::
    "uuid \<Rightarrow> instant \<Rightarrow> live_state \<Rightarrow> (live_state \<times> active_session option) option" where
  "active_locked screen now st =
     (case lv_sessions st screen of
        None \<Rightarrow> Some (st, None)
      | Some a \<Rightarrow>
          if \<not> now < se_expires_at (as_session a)
          then map_option (\<lambda>st'. (st', None)) (close_channel (as_done a) (put_session screen None st))
          else Some (st, Some a))"

definition idle_session :: "uuid \<Rightarrow> session" where
  "idle_session screen = \<lparr>se_id = uuid_nil, se_screen = screen, se_active = False, se_expires_at = zero_time,
     se_interval_millis = frame_interval_millis, se_max_width = max_width, se_max_height = max_height,
     se_max_bytes = max_frame_bytes, se_last_frame_at = None, se_sequence = 0\<rparr>"

definition new_session :: "uuid \<Rightarrow> uuid \<Rightarrow> instant \<Rightarrow> channel \<Rightarrow> active_session" where
  "new_session screen i now done_ch =
     \<lparr>as_session = \<lparr>se_id = i, se_screen = screen, se_active = True, se_expires_at = now + lease_duration,
        se_interval_millis = frame_interval_millis, se_max_width = max_width, se_max_height = max_height,
        se_max_bytes = max_frame_bytes, se_last_frame_at = None, se_sequence = 0\<rparr>,
      as_started_at = now, as_last_nudge = zero_time, as_done = done_ch, as_subscribers = []\<rparr>"

definition live_start :: "uuid \<Rightarrow> uuid \<Rightarrow> instant \<Rightarrow> live_state \<Rightarrow> (live_state \<times> session) option" where
  "live_start screen i now st =
     (case (case lv_sessions st screen of None \<Rightarrow> Some st | Some p \<Rightarrow> close_channel (as_done p) st) of
        None \<Rightarrow> None
      | Some st1 \<Rightarrow>
          (let a = new_session screen i now (lv_fresh st1)
           in Some (live_notify screen (put_session screen (Some a) (st1\<lparr>lv_fresh := Suc (lv_fresh st1)\<rparr>)),
                    as_session a)))"

definition live_select_profile ::
    "uuid \<Rightarrow> bool \<Rightarrow> instant \<Rightarrow> live_state \<Rightarrow> (live_state \<times> session) option" where
  "live_select_profile screen high now st =
     (case active_locked screen now st of
        None \<Rightarrow> None
      | Some (st1, None) \<Rightarrow> Some (st1, idle_session screen)
      | Some (st1, Some a) \<Rightarrow>
          (let s = as_session a;
               s' = (if high \<and> se_max_width s = max_width
                     then s\<lparr>se_interval_millis := edge_frame_interval_millis, se_max_width := edge_max_width,
                            se_max_height := edge_max_height\<rparr>
                     else s)
           in Some (put_session screen (Some (a\<lparr>as_session := s'\<rparr>)) st1, s')))"

definition should_nudge :: "active_session \<Rightarrow> instant \<Rightarrow> bool" where
  "should_nudge a now \<longleftrightarrow>
     (let since = (case se_last_frame_at (as_session a) of None \<Rightarrow> as_started_at a | Some t \<Rightarrow> t)
      in frame_stale_after \<le> time_sub now since
         \<and> (as_last_nudge a = zero_time \<or> frame_nudge_cooldown \<le> time_sub now (as_last_nudge a)))"

definition live_renew ::
    "uuid \<Rightarrow> uuid \<Rightarrow> instant \<Rightarrow> instant \<Rightarrow> live_state \<Rightarrow> (live_state \<times> (live_error + session)) option" where
  "live_renew screen i now now' st =
     (case active_locked screen now' st of
        None \<Rightarrow> None
      | Some (st1, None) \<Rightarrow> Some (st1, Inl LiveNotFound)
      | Some (st1, Some a) \<Rightarrow>
          if se_id (as_session a) \<noteq> i then Some (st1, Inl LiveReplaced)
          else
            (let s = (as_session a)\<lparr>se_expires_at := now + lease_duration\<rparr>;
                 nudge = should_nudge a now;
                 a' = a\<lparr>as_session := s, as_last_nudge := (if nudge then now else as_last_nudge a)\<rparr>;
                 st2 = put_session screen (Some a') st1
             in Some (if nudge then live_notify screen st2 else st2, Inr s)))"

definition live_end ::
    "uuid \<Rightarrow> uuid \<Rightarrow> instant \<Rightarrow> live_state \<Rightarrow> (live_state \<times> (live_error + unit)) option" where
  "live_end screen i now st =
     (case active_locked screen now st of
        None \<Rightarrow> None
      | Some (st1, None) \<Rightarrow> Some (st1, Inl LiveNotFound)
      | Some (st1, Some a) \<Rightarrow>
          if se_id (as_session a) \<noteq> i then Some (st1, Inl LiveReplaced)
          else map_option (\<lambda>st2. (live_notify screen st2, Inr ()))
                 (close_channel (as_done a) (put_session screen None st1)))"

definition live_current :: "uuid \<Rightarrow> instant \<Rightarrow> live_state \<Rightarrow> (live_state \<times> session) option" where
  "live_current screen now st =
     map_option (\<lambda>(st1, a). (st1, case a of None \<Rightarrow> idle_session screen | Some x \<Rightarrow> as_session x))
       (active_locked screen now st)"

definition validate_frame :: "frame \<Rightarrow> live_error + unit" where
  "validate_frame f =
     (let j = fr_jpeg f; n = length j in
      if fr_captured_at f = zero_time then Inl LiveInvalidFrame
      else if fr_width f < 1 \<or> edge_max_width < fr_width f \<or> fr_height f < 1 \<or> edge_max_height < fr_height f
        then Inl LiveInvalidFrame
      else if n < 4 \<or> max_frame_bytes < int n then Inl LiveInvalidFrame
      else if j ! 0 \<noteq> 255 \<or> j ! 1 \<noteq> 216 \<or> j ! (n - 2) \<noteq> 255 \<or> j ! (n - 1) \<noteq> 217 then Inl LiveInvalidFrame
      else Inr ())"

text \<open>A send on a channel of capacity one that does not block; a full one is drained and tried again.\<close>

definition try_send :: "frame \<Rightarrow> frame option \<Rightarrow> frame option option" where
  "try_send f b = (case b of None \<Rightarrow> Some (Some f) | Some _ \<Rightarrow> None)"

definition deliver :: "frame \<Rightarrow> frame option \<Rightarrow> frame option" where
  "deliver f b =
     (case try_send f b of
        Some b' \<Rightarrow> b'
      | None \<Rightarrow> (let drained = None in case try_send f drained of Some b' \<Rightarrow> b' | None \<Rightarrow> drained))"

definition live_publish ::
    "uuid \<Rightarrow> uuid \<Rightarrow> frame \<Rightarrow> instant \<Rightarrow> instant \<Rightarrow> live_state \<Rightarrow> (live_state \<times> (live_error + unit)) option" where
  "live_publish screen i f now now' st =
     (case validate_frame f of
        Inl e \<Rightarrow> Some (st, Inl e)
      | Inr _ \<Rightarrow>
     (case active_locked screen now st of
        None \<Rightarrow> None
      | Some (st1, None) \<Rightarrow> Some (st1, Inl LiveNotFound)
      | Some (st1, Some a) \<Rightarrow>
          (let s = as_session a in
           if se_id s \<noteq> i then Some (st1, Inl LiveNotFound)
           else if se_max_width s < fr_width f \<or> se_max_height s < fr_height f
               \<or> se_max_bytes s < int (length (fr_jpeg f)) then Some (st1, Inl LiveInvalidFrame)
           else
             (let s' = s\<lparr>se_last_frame_at := Some now', se_sequence := (se_sequence s + 1) mod 2 ^ 64\<rparr>;
                  a' = a\<lparr>as_session := s', as_last_nudge := zero_time\<rparr>
              in Some (put_session screen (Some a') st1
                         \<lparr>lv_buffers := fold (\<lambda>c b. b(c := deliver f (b c))) (as_subscribers a) (lv_buffers st1)\<rparr>,
                       Inr ())))))"

definition live_subscribe ::
    "uuid \<Rightarrow> uuid \<Rightarrow> instant \<Rightarrow> live_state \<Rightarrow> (live_state \<times> (live_error + channel \<times> channel)) option" where
  "live_subscribe screen i now st =
     (case active_locked screen now st of
        None \<Rightarrow> None
      | Some (st1, None) \<Rightarrow> Some (st1, Inl LiveNotFound)
      | Some (st1, Some a) \<Rightarrow>
          if se_id (as_session a) \<noteq> i then Some (st1, Inl LiveNotFound)
          else
            (let c = lv_fresh st1
             in Some (put_session screen (Some (a\<lparr>as_subscribers := c # as_subscribers a\<rparr>))
                        (st1\<lparr>lv_fresh := Suc c\<rparr>), Inr (c, as_done a))))"

definition live_cancel :: "uuid \<Rightarrow> uuid \<Rightarrow> channel \<Rightarrow> live_state \<Rightarrow> live_state" where
  "live_cancel screen i c st =
     (case lv_sessions st screen of
        None \<Rightarrow> st
      | Some a \<Rightarrow>
          if se_id (as_session a) = i
          then put_session screen (Some (a\<lparr>as_subscribers := removeAll c (as_subscribers a)\<rparr>)) st
          else st)"

section \<open>Binary frames\<close>

definition frame_magic :: bytes where "frame_magic = [84, 67, 76, 83]"

definition big_endian :: "bytes \<Rightarrow> nat" where
  "big_endian bs = foldl (\<lambda>n b. 256 * n + b) 0 bs"

definition slice :: "nat \<Rightarrow> nat \<Rightarrow> 'a list \<Rightarrow> 'a list" where
  "slice i j xs = drop i (take j xs)"

text \<open>\<open>uuid.FromBytes\<close> of sixteen bytes, as canonical text.\<close>

definition uuid_from_bytes :: "bytes \<Rightarrow> uuid option" where
  "uuid_from_bytes bs =
     (if length bs \<noteq> 16 then None
      else Some (UUID (concat (map hex_byte (slice 0 4 bs)) @ ''-'' @ concat (map hex_byte (slice 4 6 bs)) @ ''-''
        @ concat (map hex_byte (slice 6 8 bs)) @ ''-'' @ concat (map hex_byte (slice 8 10 bs)) @ ''-''
        @ concat (map hex_byte (slice 10 16 bs)))))"

definition parse_binary_frame :: "bytes \<Rightarrow> live_error + uuid \<times> frame" where
  "parse_binary_frame p =
     (if length p < frame_header + 4 then Inl LiveInvalidFrame
      else if slice 0 4 p \<noteq> frame_magic \<or> p ! 4 \<noteq> 1 then Inl LiveInvalidFrame
      else case uuid_from_bytes (slice 5 21 p) of
        None \<Rightarrow> Inl LiveInvalidFrame
      | Some i \<Rightarrow>
          (let f = \<lparr>fr_captured_at = wrap64 (int (big_endian (slice 21 29 p))) * 1000000,
                     fr_width = int (big_endian (slice 29 31 p)), fr_height = int (big_endian (slice 31 33 p)),
                     fr_jpeg = drop 33 p\<rparr>
           in andthen (validate_frame f) (\<lambda>_. Inr (i, f))))"

section \<open>The transition system\<close>

datatype live_op =
    Start uuid uuid instant
  | SelectProfile uuid bool instant
  | Renew uuid uuid instant instant
  | End uuid uuid instant
  | Current uuid instant
  | Publish uuid uuid frame instant instant
  | Subscribe uuid uuid instant
  | Cancel uuid uuid channel
  | Receive channel

fun live_exec :: "live_op \<Rightarrow> live_state \<Rightarrow> live_state option" where
  "live_exec (Start screen i now) st = map_option fst (live_start screen i now st)"
| "live_exec (SelectProfile screen high now) st = map_option fst (live_select_profile screen high now st)"
| "live_exec (Renew screen i now now') st = map_option fst (live_renew screen i now now' st)"
| "live_exec (End screen i now) st = map_option fst (live_end screen i now st)"
| "live_exec (Current screen now) st = map_option fst (live_current screen now st)"
| "live_exec (Publish screen i f now now') st = map_option fst (live_publish screen i f now now' st)"
| "live_exec (Subscribe screen i now) st = map_option fst (live_subscribe screen i now st)"
| "live_exec (Cancel screen i c) st = Some (live_cancel screen i c st)"
| "live_exec (Receive c) st = Some (st\<lparr>lv_buffers := (lv_buffers st)(c := None)\<rparr>)"

inductive live_reachable :: "live_state \<Rightarrow> bool" where
  init: "live_reachable live_init"
| step: "live_reachable st \<Longrightarrow> live_exec oper st = Some st' \<Longrightarrow> live_reachable st'"

text \<open>The profile of a session is the standard one or the edge one.\<close>

definition profile_ok :: "session \<Rightarrow> bool" where
  "profile_ok s \<longleftrightarrow> se_max_bytes s = max_frame_bytes \<and>
     ((se_max_width s, se_max_height s, se_interval_millis s) = (max_width, max_height, frame_interval_millis) \<or>
      (se_max_width s, se_max_height s, se_interval_millis s) = (edge_max_width, edge_max_height, edge_frame_interval_millis))"

definition session_ok :: "live_state \<Rightarrow> uuid \<Rightarrow> active_session \<Rightarrow> bool" where
  "session_ok st screen a \<longleftrightarrow> se_screen (as_session a) = screen \<and> se_active (as_session a)
     \<and> profile_ok (as_session a) \<and> as_done a < lv_fresh st \<and> as_done a \<notin> set (lv_closed st)
     \<and> (\<forall>screen' b. lv_sessions st screen' = Some b \<and> screen' \<noteq> screen \<longrightarrow> as_done b \<noteq> as_done a)"

definition live_inv :: "live_state \<Rightarrow> bool" where
  "live_inv st \<longleftrightarrow> (\<forall>c\<in>set (lv_closed st). c < lv_fresh st)
     \<and> (\<forall>screen a. lv_sessions st screen = Some a \<longrightarrow> session_ok st screen a)"

lemma live_inv_init: "live_inv live_init"
  by (simp add: live_inv_def live_init_def)

lemma live_inv_drop: "live_inv st \<Longrightarrow> live_inv (put_session screen None st)"
  by (auto simp: live_inv_def put_session_def session_ok_def)

lemma live_inv_put: "live_inv st \<Longrightarrow> session_ok st screen a \<Longrightarrow> live_inv (put_session screen (Some a) st)"
  by (auto simp: live_inv_def put_session_def session_ok_def) (metis option.inject)

lemma live_inv_close:
  assumes "live_inv st" "c < lv_fresh st" "c \<notin> set (lv_closed st)"
    and "\<forall>screen a. lv_sessions st screen = Some a \<longrightarrow> as_done a \<noteq> c"
  shows "\<exists>st'. close_channel c st = Some st' \<and> live_inv st' \<and> lv_sessions st' = lv_sessions st
    \<and> lv_fresh st' = lv_fresh st \<and> lv_closed st' = c # lv_closed st"
  using assms by (auto simp: close_channel_def live_inv_def session_ok_def)

lemma live_inv_close_dropped:
  assumes "live_inv st" "lv_sessions st screen = Some a"
  shows "\<exists>st'. close_channel (as_done a) (put_session screen None st) = Some st' \<and> live_inv st'
    \<and> lv_sessions st' = (lv_sessions st)(screen := None) \<and> lv_fresh st' = lv_fresh st
    \<and> lv_closed st' = as_done a # lv_closed st"
proof -
  have ok: "session_ok st screen a" using assms by (simp add: live_inv_def)
  have "\<exists>st'. close_channel (as_done a) (put_session screen None st) = Some st' \<and> live_inv st'
    \<and> lv_sessions st' = lv_sessions (put_session screen None st)
    \<and> lv_fresh st' = lv_fresh (put_session screen None st)
    \<and> lv_closed st' = as_done a # lv_closed (put_session screen None st)"
    by (rule live_inv_close [OF live_inv_drop [OF assms(1)]])
      (use ok in \<open>auto simp: put_session_def session_ok_def\<close>)
  then show ?thesis by (simp add: put_session_def)
qed

text \<open>The look-up of an operation, in a state of the invariant.\<close>

lemma active_locked_inv:
  assumes "live_inv st"
  obtains (expired) st' a where "active_locked screen now st = Some (st', None)" "live_inv st'"
      "lv_sessions st screen = Some a" "\<not> now < se_expires_at (as_session a)"
      "lv_sessions st' = (lv_sessions st)(screen := None)" "lv_closed st' = as_done a # lv_closed st"
  | (none) "active_locked screen now st = Some (st, None)" "lv_sessions st screen = None"
  | (live) a where "active_locked screen now st = Some (st, Some a)" "lv_sessions st screen = Some a"
      "now < se_expires_at (as_session a)" "session_ok st screen a"
proof (cases "lv_sessions st screen")
  case None
  then show thesis using none by (simp add: active_locked_def)
next
  case (Some a)
  show thesis
  proof (cases "now < se_expires_at (as_session a)")
    case True
    then show thesis using live Some assms by (simp add: active_locked_def live_inv_def)
  next
    case False
    obtain st' where "close_channel (as_done a) (put_session screen None st) = Some st'" "live_inv st'"
      "lv_sessions st' = (lv_sessions st)(screen := None)" "lv_closed st' = as_done a # lv_closed st"
      using live_inv_close_dropped [OF assms Some] by blast
    then show thesis using expired [of st' a] Some False by (simp add: active_locked_def)
  qed
qed

lemma session_ok_update:
  "session_ok st screen a \<Longrightarrow> as_done a' = as_done a \<Longrightarrow> se_screen (as_session a') = se_screen (as_session a) \<Longrightarrow>
     se_active (as_session a') = se_active (as_session a) \<Longrightarrow> profile_ok (as_session a') \<Longrightarrow> session_ok st screen a'"
  by (simp add: session_ok_def)

lemma live_inv_notify [simp]: "live_inv (live_notify screen st) = live_inv st"
  by (simp add: live_inv_def session_ok_def live_notify_def)

lemma live_inv_buffers [simp]: "live_inv (st\<lparr>lv_buffers := b\<rparr>) = live_inv st"
  by (simp add: live_inv_def session_ok_def)

lemma live_inv_fresh: "live_inv st \<Longrightarrow> lv_fresh st \<le> n \<Longrightarrow> live_inv (st\<lparr>lv_fresh := n\<rparr>)"
  by (fastforce simp: live_inv_def session_ok_def intro: less_le_trans)

definition preserves :: "live_state option \<Rightarrow> bool" where
  "preserves r \<longleftrightarrow> (\<exists>st'. r = Some st' \<and> live_inv st')"

lemma start_inv:
  assumes "live_inv st"
  shows "preserves (map_option fst (live_start screen i now st))"
proof -
  obtain st1 where st1: "(case lv_sessions st screen of None \<Rightarrow> Some st | Some p \<Rightarrow> close_channel (as_done p) st) = Some st1"
    and closed: "\<forall>c\<in>set (lv_closed st1). c < lv_fresh st1" and ses: "lv_sessions st1 = lv_sessions st"
    and fresh: "lv_fresh st1 = lv_fresh st"
    and others: "\<forall>s b. s \<noteq> screen \<and> lv_sessions st s = Some b \<longrightarrow> as_done b \<notin> set (lv_closed st1)"
  proof (cases "lv_sessions st screen")
    case None
    then show thesis using that [of st] assms by (auto simp: live_inv_def session_ok_def)
  next
    case (Some p)
    then have p: "session_ok st screen p" using assms by (simp add: live_inv_def)
    have others: "as_done b \<noteq> as_done p \<and> as_done b \<notin> set (lv_closed st)"
      if "s \<noteq> screen \<and> lv_sessions st s = Some b" for s b
    proof -
      have "session_ok st s b" using that assms by (simp add: live_inv_def)
      then show ?thesis using p that by (auto simp: session_ok_def)
    qed
    have closed: "\<forall>c\<in>set (lv_closed st). c < lv_fresh st" using assms by (simp add: live_inv_def)
    have pnew: "as_done p \<notin> set (lv_closed st)" "as_done p < lv_fresh st"
      using p by (unfold session_ok_def) (elim conjE, assumption)+
    show thesis
    proof (rule that [of "st\<lparr>lv_closed := as_done p # lv_closed st\<rparr>"])
      show "(case lv_sessions st screen of None \<Rightarrow> Some st | Some p \<Rightarrow> close_channel (as_done p) st)
          = Some (st\<lparr>lv_closed := as_done p # lv_closed st\<rparr>)"
        using pnew Some by (simp add: close_channel_def)
      show "\<forall>s b. s \<noteq> screen \<and> lv_sessions st s = Some b
          \<longrightarrow> as_done b \<notin> set (lv_closed (st\<lparr>lv_closed := as_done p # lv_closed st\<rparr>))"
        using others by simp
    qed (use closed pnew in simp_all)
  qed
  define a where "a = new_session screen i now (lv_fresh st1)"
  let ?st2 = "put_session screen (Some a) (st1\<lparr>lv_fresh := Suc (lv_fresh st1)\<rparr>)"
  have old: "as_done b < lv_fresh st1" if "lv_sessions st s = Some b" for s b
    using that assms fresh by (simp add: live_inv_def session_ok_def)
  have "session_ok ?st2 screen a"
    using old closed ses
    by (auto simp: session_ok_def put_session_def a_def new_session_def profile_ok_def)
      (metis less_irrefl)
  moreover have "session_ok ?st2 s b" if "s \<noteq> screen" "lv_sessions st s = Some b" for s b
  proof -
    have ok: "session_ok st s b" using that assms by (simp add: live_inv_def)
    have "as_done b \<noteq> as_done a" using old [OF that(2)] by (simp add: a_def new_session_def)
    moreover have "as_done b \<notin> set (lv_closed st1)" using others that by blast
    ultimately show ?thesis using ok old [OF that(2)] that(1)
      by (auto simp: session_ok_def put_session_def ses)
  qed
  moreover have "\<forall>c\<in>set (lv_closed ?st2). c < lv_fresh ?st2"
    using closed by (auto simp: put_session_def)
  ultimately have "live_inv ?st2" unfolding live_inv_def by (auto simp: put_session_def ses split: if_splits)
  then show ?thesis by (simp add: preserves_def live_start_def st1 Let_def a_def)
qed

lemma select_profile_inv:
  assumes "live_inv st"
  shows "preserves (map_option fst (live_select_profile screen high now st))"
proof (cases rule: active_locked_inv [OF assms, of screen now])
  case (3 a)
  have "profile_ok (as_session a)" using 3(4) by (simp add: session_ok_def)
  then show ?thesis using 3
    by (auto simp: preserves_def live_select_profile_def Let_def profile_ok_def
        intro!: live_inv_put [OF assms] session_ok_update [OF 3(4)])
qed (simp_all add: preserves_def live_select_profile_def assms)

lemma renew_inv:
  assumes "live_inv st"
  shows "preserves (map_option fst (live_renew screen i now now' st))"
proof (cases rule: active_locked_inv [OF assms, of screen now'])
  case (3 a)
  have "profile_ok (as_session a)" using 3(4) by (simp add: session_ok_def)
  then show ?thesis using 3
    by (auto simp: preserves_def live_renew_def Let_def profile_ok_def assms
        intro!: live_inv_put [OF assms] session_ok_update [OF 3(4)])
qed (simp_all add: preserves_def live_renew_def assms)

lemma end_inv:
  assumes "live_inv st"
  shows "preserves (map_option fst (live_end screen i now st))"
proof (cases rule: active_locked_inv [OF assms, of screen now])
  case (3 a)
  then show ?thesis using live_inv_close_dropped [OF assms 3(2)]
    by (auto simp: preserves_def live_end_def assms)
qed (simp_all add: preserves_def live_end_def assms)

lemma current_inv:
  assumes "live_inv st"
  shows "preserves (map_option fst (live_current screen now st))"
  by (cases rule: active_locked_inv [OF assms, of screen now]) (simp_all add: preserves_def live_current_def assms)

lemma publish_inv:
  assumes "live_inv st"
  shows "preserves (map_option fst (live_publish screen i f now now' st))"
proof (cases "validate_frame f")
  case (Inr u)
  show ?thesis
  proof (cases rule: active_locked_inv [OF assms, of screen now])
    case (3 a)
    have "profile_ok (as_session a)" using 3(4) by (simp add: session_ok_def)
    then show ?thesis using 3 Inr
      by (auto simp: preserves_def live_publish_def Let_def profile_ok_def assms
          intro!: live_inv_put [OF assms] session_ok_update [OF 3(4)])
  qed (simp_all add: preserves_def live_publish_def Inr assms)
qed (simp add: preserves_def live_publish_def assms)

lemma subscribe_inv:
  assumes "live_inv st"
  shows "preserves (map_option fst (live_subscribe screen i now st))"
proof (cases rule: active_locked_inv [OF assms, of screen now])
  case (3 a)
  have "session_ok (st\<lparr>lv_fresh := Suc (lv_fresh st)\<rparr>) screen (a\<lparr>as_subscribers := cs\<rparr>)" for cs
    using 3(4) by (auto simp: session_ok_def)
  then show ?thesis using 3
    by (auto simp: preserves_def live_subscribe_def Let_def assms
        intro!: live_inv_put live_inv_fresh [OF assms])
qed (simp_all add: preserves_def live_subscribe_def assms)

lemma cancel_inv:
  assumes "live_inv st" shows "live_inv (live_cancel screen i c st)"
proof (cases "lv_sessions st screen")
  case None
  then show ?thesis using assms by (simp add: live_cancel_def)
next
  case (Some a)
  then have "session_ok st screen a" using assms by (simp add: live_inv_def)
  then have "session_ok st screen (a\<lparr>as_subscribers := removeAll c (as_subscribers a)\<rparr>)"
    by (simp add: session_ok_def)
  then show ?thesis using Some assms by (simp add: live_cancel_def live_inv_put)
qed

lemma live_exec_inv: "live_inv st \<Longrightarrow> preserves (live_exec oper st)"
  by (cases oper) (simp_all add: start_inv select_profile_inv renew_inv end_inv current_inv publish_inv
      subscribe_inv, simp_all add: preserves_def cancel_inv)

lemma live_reachable_inv: "live_reachable st \<Longrightarrow> live_inv st"
proof (induction rule: live_reachable.induct)
  case (step st oper st')
  then show ?case using live_exec_inv [of st oper] by (simp add: preserves_def)
qed (rule live_inv_init)

section \<open>Properties\<close>

lemma fold_deliver:
  "fold (\<lambda>c b. b(c := deliver f (b c))) cs buf c = (if c \<in> set cs then Some f else buf c)"
proof (induction cs arbitrary: buf)
  case (Cons x xs)
  have "deliver f b = Some f" for b by (simp add: deliver_def try_send_def split: option.splits)
  then show ?case using Cons by simp
qed simp

text \<open>What a publisher may send to a session.\<close>

definition acceptable :: "session \<Rightarrow> frame \<Rightarrow> bool" where
  "acceptable s f \<longleftrightarrow> validate_frame f = Inr () \<and> fr_width f \<le> se_max_width s \<and> fr_height f \<le> se_max_height s
     \<and> int (length (fr_jpeg f)) \<le> se_max_bytes s"

text \<open>C23. No sequence of operations closes a channel twice: in a state that the service can reach, every operation
  returns (the code's \<open>close\<close> does not panic), and the state it leaves has at most one session for a
  screen, with a standard or an edge profile, and an open channel of its own.\<close>

theorem live_never_panics:
  assumes "live_reachable st"
  shows "\<exists>st'. live_exec oper st = Some st' \<and> (\<forall>screen a. lv_sessions st' screen = Some a \<longrightarrow> session_ok st' screen a)"
  using live_exec_inv [OF live_reachable_inv [OF assms], of oper] by (auto simp: preserves_def live_inv_def)

definition id_a :: uuid where "id_a = UUID ''aaaaaaaa-0000-0000-0000-000000000001''"
definition id_b :: uuid where "id_b = UUID ''bbbbbbbb-0000-0000-0000-000000000002''"
definition screen_a :: uuid where "screen_a = UUID ''cccccccc-0000-0000-0000-000000000003''"

definition started :: live_state where
  "started = live_init\<lparr>lv_sessions := (\<lambda>_. None)(screen_a := Some (new_session screen_a id_a 0 0)), lv_fresh := 1,
     lv_notified := [screen_a]\<rparr>"

lemma live_start_started: "live_start screen_a id_a 0 live_init = Some (started, as_session (new_session screen_a id_a 0 0))"
  by (simp add: live_start_def live_init_def started_def live_notify_def put_session_def Let_def)

lemma started_reachable: "live_reachable started"
  using live_reachable.step [OF live_reachable.init, of "Start screen_a id_a 0"] live_start_started by simp

theorem live_never_panics_witness:
  "\<exists>st'. live_exec (End screen_a id_a 1) started = Some st'
     \<and> (\<forall>screen a. lv_sessions st' screen = Some a \<longrightarrow> session_ok st' screen a)"
  by (rule live_never_panics [OF started_reachable])

text \<open>Publishing a frame succeeds exactly when the screen has a session whose lease has not run out, with the
  publisher's identifier, and the frame is a complete JPEG within the limits of the session's profile. Then every
  subscriber holds this frame (an older one it did not read is dropped), no other channel changes, and the session
  counts one more frame; a refused frame reaches nobody.\<close>

theorem publish_exact:
  assumes "live_reachable st"
  shows "\<exists>st' r. live_publish screen i f now now' st = Some (st', r)
    \<and> (r = Inr () \<longleftrightarrow> (\<exists>a. lv_sessions st screen = Some a \<and> now < se_expires_at (as_session a)
          \<and> se_id (as_session a) = i \<and> acceptable (as_session a) f))
    \<and> (r = Inr () \<longrightarrow> (\<exists>a a'. lv_sessions st screen = Some a \<and> lv_sessions st' = (lv_sessions st)(screen := Some a')
          \<and> lv_buffers st' = (\<lambda>c. if c \<in> set (as_subscribers a) then Some f else lv_buffers st c)
          \<and> se_sequence (as_session a') = (se_sequence (as_session a) + 1) mod 2 ^ 64
          \<and> se_last_frame_at (as_session a') = Some now' \<and> se_expires_at (as_session a') = se_expires_at (as_session a)))
    \<and> (r \<noteq> Inr () \<longrightarrow> lv_buffers st' = lv_buffers st)"
proof (cases "validate_frame f")
  case (Inl e)
  then show ?thesis by (simp add: live_publish_def acceptable_def)
next
  case (Inr u)
  have inv: "live_inv st" by (rule live_reachable_inv [OF assms])
  show ?thesis
  proof (cases rule: active_locked_inv [OF inv, of screen now])
    case (1 st' a)
    have "lv_buffers st' = lv_buffers st"
      using 1(1,3,4) by (auto simp: active_locked_def close_channel_def put_session_def split: if_splits)
    then show ?thesis using 1 Inr by (simp add: live_publish_def)
  next
    case 2
    then show ?thesis using Inr by (simp add: live_publish_def)
  next
    case (3 a)
    show ?thesis
    proof (cases "se_id (as_session a) = i \<and> acceptable (as_session a) f")
      case True
      then show ?thesis using 3 Inr
        by (simp add: live_publish_def acceptable_def Let_def put_session_def fold_deliver fun_eq_iff not_less)
    next
      case False
      then show ?thesis using 3 Inr by (auto simp: live_publish_def acceptable_def Let_def)
    qed
  qed
qed

definition small_frame :: frame where
  "small_frame = \<lparr>fr_captured_at = 1, fr_width = 640, fr_height = 360, fr_jpeg = [255, 216, 255, 217]\<rparr>"

theorem publish_exact_witness:
  "\<exists>st'. live_publish screen_a id_a small_frame 1 1 started = Some (st', Inr ())"
proof -
  have "lv_sessions started screen_a = Some (new_session screen_a id_a 0 0)" by (simp add: started_def)
  moreover have "acceptable (as_session (new_session screen_a id_a 0 0)) small_frame"
    by (simp add: acceptable_def small_frame_def validate_frame_def new_session_def frame_limits zero_time_def
        second_def Let_def)
  ultimately show ?thesis
    using publish_exact [OF started_reachable, of screen_a id_a small_frame 1 1]
    by (auto simp: new_session_def lease_duration_def second_def)
qed

text \<open>Starting a session for a screen closes the channel that tells the old session's viewers it is over, and from
  then on the old identifier is refused: as replaced by a renewal or an end, as not found by a publication or a
  subscription. None of these refusals changes the new session.\<close>

theorem replaced_session_refused:
  assumes "live_reachable st" and "live_start screen i now st = Some (st1, s)" and "j \<noteq> i"
    and "n < now + lease_duration"
  shows "(\<forall>a. lv_sessions st screen = Some a \<longrightarrow> as_done a \<in> set (lv_closed st1))
    \<and> live_renew screen j n' n st1 = Some (st1, Inl LiveReplaced)
    \<and> live_end screen j n st1 = Some (st1, Inl LiveReplaced)
    \<and> live_subscribe screen j n st1 = Some (st1, Inl LiveNotFound)
    \<and> (validate_frame f = Inr () \<longrightarrow> live_publish screen j f n n' st1 = Some (st1, Inl LiveNotFound))
    \<and> live_current screen n st1 = Some (st1, s)"
proof -
  obtain d where ses: "lv_sessions st1 screen = Some (new_session screen i now d)"
    and s: "s = as_session (new_session screen i now d)"
    and dn: "\<forall>a. lv_sessions st screen = Some a \<longrightarrow> as_done a \<in> set (lv_closed st1)"
    using assms(2)
    by (auto simp: live_start_def Let_def put_session_def live_notify_def close_channel_def
        split: option.splits if_splits)
  have "active_locked screen n st1 = Some (st1, Some (new_session screen i now d))"
    using ses assms(4) by (simp add: active_locked_def new_session_def)
  moreover have "se_id (as_session (new_session screen i now d)) \<noteq> j" using assms(3) by (simp add: new_session_def)
  ultimately show ?thesis using dn s
    by (simp add: live_renew_def live_end_def live_subscribe_def live_publish_def live_current_def Let_def)
qed

theorem replaced_session_refused_witness:
  "\<exists>st1 s. live_start screen_a id_b 5 started = Some (st1, s)
     \<and> live_renew screen_a id_a 6 6 st1 = Some (st1, Inl LiveReplaced) \<and> 0 \<in> set (lv_closed st1)"
proof -
  have "lv_sessions started screen_a = Some (new_session screen_a id_a 0 0)" by (simp add: started_def)
  moreover obtain st1 s where r: "live_start screen_a id_b 5 started = Some (st1, s)"
    using start_inv [OF live_reachable_inv [OF started_reachable], of screen_a id_b 5]
    by (auto simp: preserves_def)
  moreover have "id_a \<noteq> id_b" by (simp add: id_a_def id_b_def)
  ultimately show ?thesis
    using replaced_session_refused [OF started_reachable r \<open>id_a \<noteq> id_b\<close>, of 6 6 small_frame]
    by (auto simp: lease_duration_def second_def new_session_def)
qed

text \<open>A session whose lease has run out is over for every operation: the look-up removes it and closes its
  channel, the screen reads as idle, and a renewal, an end, a subscription and a valid publication under its
  identifier find no session.\<close>

theorem expired_session_gone:
  assumes "live_reachable st" and "lv_sessions st screen = Some a" and "se_expires_at (as_session a) \<le> n"
  shows "\<exists>st1. lv_sessions st1 = (lv_sessions st)(screen := None) \<and> lv_closed st1 = as_done a # lv_closed st
    \<and> live_current screen n st = Some (st1, idle_session screen)
    \<and> live_renew screen i n' n st = Some (st1, Inl LiveNotFound)
    \<and> live_end screen i n st = Some (st1, Inl LiveNotFound)
    \<and> live_subscribe screen i n st = Some (st1, Inl LiveNotFound)
    \<and> (validate_frame f = Inr () \<longrightarrow> live_publish screen i f n n' st = Some (st1, Inl LiveNotFound))"
proof (cases rule: active_locked_inv [OF live_reachable_inv [OF assms(1)], of screen n])
  case (1 st1 b)
  then show ?thesis using assms(2)
    by (intro exI [of _ st1]) (simp add: live_current_def live_renew_def live_end_def live_subscribe_def live_publish_def)
qed (use assms in simp_all)

theorem expired_session_gone_witness:
  "\<exists>st1. live_current screen_a (16 * second) started = Some (st1, idle_session screen_a)"
proof -
  have "lv_sessions started screen_a = Some (new_session screen_a id_a 0 0)" by (simp add: started_def)
  then show ?thesis
    using expired_session_gone [OF started_reachable, of screen_a "new_session screen_a id_a 0 0" "16 * second" id_a 0 small_frame]
    by (auto simp: new_session_def lease_duration_def second_def)
qed

text \<open>Wake-ups are rate limited: after a renewal that nudged the player, a renewal within the cool-down does not
  notify it again, whatever the state of the stream.\<close>

theorem nudges_rate_limited:
  assumes "live_renew screen i n1 m1 st = Some (st1, Inr s1)" and "lv_notified st1 = screen # lv_notified st"
    and "live_renew screen i n2 m2 st1 = Some (st2, r)"
    and "n1 \<le> n2" and "n2 < n1 + frame_nudge_cooldown" and "n1 \<noteq> zero_time"
  shows "lv_notified st2 = lv_notified st1"
proof -
  have nudged: "\<exists>a. lv_sessions st1 screen = Some a \<and> as_last_nudge a = n1"
    using assms(1,2)
    by (auto simp: live_renew_def active_locked_def close_channel_def put_session_def live_notify_def Let_def
        split: option.splits if_splits)
  then obtain a where a: "lv_sessions st1 screen = Some a" "as_last_nudge a = n1" by blast
  have "\<not> should_nudge a n2"
    using assms(4-6) a(2) by (auto simp: should_nudge_def time_sub_def Let_def frame_nudge_cooldown_def second_def)
  then show ?thesis using assms(3) a(1)
    by (auto simp: live_renew_def active_locked_def close_channel_def put_session_def live_notify_def Let_def
        split: option.splits if_splits)
qed

theorem nudges_rate_limited_witness:
  "\<exists>st1 s st2 r. live_renew screen_a id_a (6 * second) (6 * second) started = Some (st1, Inr s)
     \<and> lv_notified st1 = [screen_a, screen_a]
     \<and> live_renew screen_a id_a (8 * second) (8 * second) st1 = Some (st2, r)
     \<and> lv_notified st2 = lv_notified st1"
proof -
  have r1: "\<exists>st1 s. live_renew screen_a id_a (6 * second) (6 * second) started = Some (st1, Inr s)
      \<and> lv_notified st1 = screen_a # lv_notified started"
    by (simp add: started_def live_renew_def active_locked_def new_session_def lease_duration_def second_def
        should_nudge_def Let_def time_sub_def frame_stale_after_def zero_time_def put_session_def live_notify_def)
  then obtain st1 s where 1: "live_renew screen_a id_a (6 * second) (6 * second) started = Some (st1, Inr s)"
    "lv_notified st1 = screen_a # lv_notified started" by blast
  have "live_inv st1"
    using renew_inv [OF live_reachable_inv [OF started_reachable], of screen_a id_a "6 * second" "6 * second"] 1
    by (auto simp: preserves_def)
  then obtain st2 r where 2: "live_renew screen_a id_a (8 * second) (8 * second) st1 = Some (st2, r)"
    using renew_inv [of st1 screen_a id_a "8 * second" "8 * second"] by (auto simp: preserves_def)
  have "lv_notified st2 = lv_notified st1"
    by (rule nudges_rate_limited [OF 1 2]) (simp_all add: frame_nudge_cooldown_def second_def zero_time_def)
  then show ?thesis using 1 2 by (auto simp: started_def)
qed

subsection \<open>Binary frames\<close>

text \<open>The layout that \<open>ParseBinaryFrame\<close> documents: magic, version, session, capture time, size, JPEG.\<close>

fun big_endian_bytes :: "nat \<Rightarrow> nat \<Rightarrow> bytes" where
  "big_endian_bytes 0 n = []"
| "big_endian_bytes (Suc k) n = big_endian_bytes k (n div 256) @ [n mod 256]"

definition frame_bytes :: "bytes \<Rightarrow> nat \<Rightarrow> nat \<Rightarrow> nat \<Rightarrow> bytes \<Rightarrow> bytes" where
  "frame_bytes i ms w h j =
     frame_magic @ [1] @ i @ big_endian_bytes 8 ms @ big_endian_bytes 2 w @ big_endian_bytes 2 h @ j"

lemma length_big_endian_bytes [simp]: "length (big_endian_bytes k n) = k"
  by (induction k arbitrary: n) auto

lemma big_endian_append: "big_endian (xs @ [b]) = 256 * big_endian xs + b"
  by (simp add: big_endian_def)

lemma big_endian_bytes_inverse [simp]: "n < 256 ^ k \<Longrightarrow> big_endian (big_endian_bytes k n) = n"
proof (induction k arbitrary: n)
  case 0
  then show ?case by (simp add: big_endian_def)
next
  case (Suc k)
  then have "n div 256 < 256 ^ k" by (simp add: less_mult_imp_div_less mult.commute)
  then show ?case using Suc.IH by (simp add: big_endian_append mult.commute)
qed

lemma slice_append:
  "length xs = i \<Longrightarrow> length ys = n \<Longrightarrow> j = i + n \<Longrightarrow> slice i j (xs @ ys @ zs) = ys"
  by (simp add: slice_def)

lemma frame_bytes_fields:
  assumes "length i = 16"
  shows "slice 0 4 (frame_bytes i ms w h j) = frame_magic"
    and "frame_bytes i ms w h j ! 4 = 1"
    and "slice 5 21 (frame_bytes i ms w h j) = i"
    and "slice 21 29 (frame_bytes i ms w h j) = big_endian_bytes 8 ms"
    and "slice 29 31 (frame_bytes i ms w h j) = big_endian_bytes 2 w"
    and "slice 31 33 (frame_bytes i ms w h j) = big_endian_bytes 2 h"
    and "drop 33 (frame_bytes i ms w h j) = j"
    and "length (frame_bytes i ms w h j) = 33 + length j"
  using assms slice_append [of "[]" 0 frame_magic 4 4 "[1] @ i @ big_endian_bytes 8 ms @ big_endian_bytes 2 w @ big_endian_bytes 2 h @ j"]
    slice_append [of "frame_magic @ [1]" 5 i 16 21 "big_endian_bytes 8 ms @ big_endian_bytes 2 w @ big_endian_bytes 2 h @ j"]
    slice_append [of "frame_magic @ [1] @ i" 21 "big_endian_bytes 8 ms" 8 29 "big_endian_bytes 2 w @ big_endian_bytes 2 h @ j"]
    slice_append [of "frame_magic @ [1] @ i @ big_endian_bytes 8 ms" 29 "big_endian_bytes 2 w" 2 31 "big_endian_bytes 2 h @ j"]
    slice_append [of "frame_magic @ [1] @ i @ big_endian_bytes 8 ms @ big_endian_bytes 2 w" 31 "big_endian_bytes 2 h" 2 33 j]
  by (simp_all add: frame_bytes_def frame_magic_def del: big_endian_bytes.simps)

text \<open>Round trip of the binary frame format: a message laid out with a 16-byte session identifier, a capture time in
  the signed 64-bit range, a size in 16 bits and a JPEG parses to exactly this session and frame when the frame is
  valid, and is refused when it is not.\<close>

theorem parse_binary_frame_roundtrip:
  assumes "length i = 16" and "uuid_from_bytes i = Some s" and "ms < 2 ^ 63" and "w < 65536" and "h < 65536"
    and "f = \<lparr>fr_captured_at = int ms * 1000000, fr_width = int w, fr_height = int h, fr_jpeg = j\<rparr>"
  shows "parse_binary_frame (frame_bytes i ms w h j) =
    (if validate_frame f = Inr () then Inr (s, f) else Inl LiveInvalidFrame)"
proof -
  have n: "big_endian (big_endian_bytes 8 ms) = ms" "big_endian (big_endian_bytes 2 w) = w"
    "big_endian (big_endian_bytes 2 h) = h"
    using assms(3-5) by (simp_all del: big_endian_bytes.simps)
  have ms: "wrap64 (int ms) = int ms" using assms(3) by (simp add: wrap64_in_range int64_range_def)
  have e: "validate_frame f = Inl e \<Longrightarrow> e = LiveInvalidFrame" for e
    by (simp add: validate_frame_def Let_def split: if_splits)
  show ?thesis
  proof (cases "length j < 4")
    case True
    then have "validate_frame f = Inl LiveInvalidFrame" by (simp add: validate_frame_def Let_def assms(6))
    then show ?thesis using True
      by (simp add: parse_binary_frame_def frame_bytes_fields [OF assms(1)] frame_header_def)
  next
    case False
    then have "parse_binary_frame (frame_bytes i ms w h j) = andthen (validate_frame f) (\<lambda>_. Inr (s, f))"
      using assms(2) n ms
      by (simp add: parse_binary_frame_def frame_bytes_fields [OF assms(1)] frame_header_def assms(6) Let_def)
    then show ?thesis using e by (cases "validate_frame f") auto
  qed
qed

theorem parse_binary_frame_roundtrip_witness:
  "parse_binary_frame (frame_bytes (replicate 16 0) 7 320 180 [255, 216, 255, 217]) =
     Inr (uuid_nil, \<lparr>fr_captured_at = 7000000, fr_width = 320, fr_height = 180, fr_jpeg = [255, 216, 255, 217]\<rparr>)"
proof -
  have s: "uuid_from_bytes (replicate 16 0) = Some uuid_nil" by code_simp
  have "validate_frame \<lparr>fr_captured_at = int 7 * 1000000, fr_width = int 320, fr_height = int 180,
      fr_jpeg = [255, 216, 255, 217]\<rparr> = Inr ()"
    by code_simp
  then show ?thesis
    using parse_binary_frame_roundtrip [OF _ s, of 7 320 180 _ "[255, 216, 255, 217]"] by simp
qed

end
