(* ===== verification/JobScheduler.thy ===== *)
theory JobScheduler
  imports GoTime GoValues
begin

text \<open>
  Background jobs of packages: \<open>apps/server/internal/extensions/wasm/scheduler.go\<close>. The table
  \<open>external_plugin_jobs\<close> is a list of rows with the key (package, job); the installation has one organization.
  \<open>now()\<close>, the claim tokens, the rows that another transaction has locked and what a guest run returns are
  arguments. A statement that violates a constraint of the table (migrations 00122 and 00128) is an error and its
  transaction changes nothing. Interval arithmetic on seconds is exact. Texts are lists of runes.
\<close>

section \<open>The table\<close>

type_synonym runes = "nat list"

record job_row =
  jr_package :: string
  jr_job :: string
  jr_minutes :: "int option"
  jr_seconds :: "int option"
  jr_kind :: string
  jr_next_run :: instant
  jr_last_run :: "instant option"
  jr_last_status :: string
  jr_last_error :: runes
  jr_failures :: int
  jr_epoch :: "uuid option"
  jr_token :: "uuid option"

type_synonym job_key = "string \<times> string"

definition job_key :: "job_row \<Rightarrow> job_key" where
  "job_key r = (jr_package r, jr_job r)"

definition ordinary :: string where "ordinary = ''ordinary''"
definition realtime :: string where "realtime = ''realtime''"

definition job_id_ok :: "string \<Rightarrow> bool" where
  "job_id_ok s \<longleftrightarrow> (case s of [] \<Rightarrow> False
     | c # cs \<Rightarrow> CHR ''a'' \<le> c \<and> c \<le> CHR ''z'' \<and> length cs \<le> 79
         \<and> list_all (\<lambda>d. CHR ''a'' \<le> d \<and> d \<le> CHR ''z'' \<or> CHR ''0'' \<le> d \<and> d \<le> CHR ''9'' \<or> d = CHR ''_'' \<or> d = CHR ''-'') cs)"

definition row_ok :: "job_row \<Rightarrow> bool" where
  "row_ok r \<longleftrightarrow> job_id_ok (jr_job r)
     \<and> (case jr_minutes r of None \<Rightarrow> True | Some n \<Rightarrow> 5 \<le> n \<and> n \<le> 1440)
     \<and> (jr_kind r = ordinary \<and> jr_minutes r \<noteq> None \<and> jr_seconds r = None
        \<or> jr_kind r = realtime \<and> jr_minutes r = None
          \<and> (case jr_seconds r of None \<Rightarrow> False | Some n \<Rightarrow> 5 \<le> n \<and> n \<le> 60) \<and> jr_epoch r \<noteq> None)
     \<and> jr_last_status r \<in> {''never'', ''ok'', ''error''} \<and> length (jr_last_error r) \<le> 512 \<and> 0 \<le> jr_failures r"

definition table_ok :: "job_row list \<Rightarrow> bool" where
  "table_ok rows \<longleftrightarrow> list_all row_ok rows \<and> distinct (map job_key rows)
     \<and> distinct (map jr_package (filter (\<lambda>r. jr_kind r = realtime) rows))"

text \<open>\<open>COALESCE(interval_seconds, interval_minutes*60)\<close>; the constraint makes it defined.\<close>

definition job_interval :: "job_row \<Rightarrow> duration" where
  "job_interval r = (case jr_seconds r of Some n \<Rightarrow> n * second
     | None \<Rightarrow> (case jr_minutes r of Some n \<Rightarrow> n * 60 * second | None \<Rightarrow> 0))"

section \<open>Claims\<close>

definition scheduler_batch :: nat where "scheduler_batch = 4"
definition claim_lease :: duration where "claim_lease = 5 * minute"
definition realtime_lease :: duration where "realtime_lease = 15 * second"
definition job_timeout :: duration where "job_timeout = 30 * second"
definition realtime_job_timeout :: duration where "realtime_job_timeout = 4 * second"

definition lease_of :: "string \<Rightarrow> duration" where
  "lease_of kd = (if kd = realtime then realtime_lease else claim_lease)"

record claimed_job =
  cj_package :: string
  cj_job :: string
  cj_epoch :: "uuid option"
  cj_token :: uuid
  cj_at :: instant

definition claim_key :: "claimed_job \<Rightarrow> job_key" where
  "claim_key j = (cj_package j, cj_job j)"

definition due_before :: "job_row \<Rightarrow> job_row \<Rightarrow> bool" where
  "due_before r q \<longleftrightarrow> jr_next_run r < jr_next_run q"

text \<open>The subselect: \<open>ORDER BY next_run_at LIMIT\<close>, under \<open>SKIP LOCKED\<close>.\<close>

definition claimable :: "job_row list \<Rightarrow> (job_key \<Rightarrow> bool) \<Rightarrow> nat \<Rightarrow> string \<Rightarrow> instant \<Rightarrow> job_row list" where
  "claimable rows locked limit kd now =
     take limit (sort_by due_before (filter (\<lambda>r. jr_next_run r \<le> now \<and> jr_kind r = kd \<and> \<not> locked (job_key r)) rows))"

definition claim_jobs ::
    "job_row list \<Rightarrow> (job_key \<Rightarrow> bool) \<Rightarrow> uuid \<Rightarrow> instant \<Rightarrow> nat \<Rightarrow> string \<Rightarrow> job_row list \<times> claimed_job list" where
  "claim_jobs rows locked token now limit kd =
     (let picked = claimable rows locked limit kd now
      in (map (\<lambda>r. if job_key r \<in> set (map job_key picked)
                   then r\<lparr>jr_next_run := now + lease_of kd, jr_token := Some token\<rparr> else r) rows,
          map (\<lambda>r. \<lparr>cj_package = jr_package r, cj_job = jr_job r, cj_epoch = jr_epoch r, cj_token = token, cj_at = now\<rparr>)
            picked))"

section \<open>Outcomes\<close>

record job_outcome =
  jo_status :: int
  jo_error :: "runes option"

definition runes_of :: "string \<Rightarrow> runes" where "runes_of s = map of_char s"

fun digits_of :: "nat \<Rightarrow> string" where
  "digits_of n = (if n < 10 then [char_of (48 + n)] else digits_of (n div 10) @ [char_of (48 + n mod 10)])"

definition decimal :: "int \<Rightarrow> string" where
  "decimal n = (if n < 0 then ''-'' @ digits_of (nat (- n)) else digits_of (nat n))"

definition truncate_error :: "runes option \<Rightarrow> int \<Rightarrow> runes" where
  "truncate_error err status =
     (let message = (case err of None \<Rightarrow> runes_of (''guest exited with status '' @ decimal status) | Some m \<Rightarrow> m)
      in if 512 < length message then take 512 message else message)"

definition next_run_after :: "job_row \<Rightarrow> instant \<Rightarrow> instant \<Rightarrow> instant" where
  "next_run_after r claimed_at now =
     (if jr_kind r = realtime
      then claimed_at + job_interval r * (max 0 (now - claimed_at) div job_interval r + 1)
      else now + job_interval r)"

definition outcome_failed :: "job_outcome \<Rightarrow> bool" where
  "outcome_failed res \<longleftrightarrow> jo_error res \<noteq> None \<or> jo_status res \<noteq> 0"

definition outcome_row :: "claimed_job \<Rightarrow> job_outcome \<Rightarrow> instant \<Rightarrow> job_row \<Rightarrow> job_row" where
  "outcome_row j res now r =
     r\<lparr>jr_last_run := Some now, jr_next_run := next_run_after r (cj_at j) now, jr_token := None,
       jr_last_status := (if outcome_failed res then ''error'' else ''ok''),
       jr_last_error := (if outcome_failed res then truncate_error (jo_error res) (jo_status res) else []),
       jr_failures := (if outcome_failed res then jr_failures r + 1 else 0)\<rparr>"

definition fenced_row :: "claimed_job \<Rightarrow> job_row \<Rightarrow> bool" where
  "fenced_row j r \<longleftrightarrow> job_key r = claim_key j \<and> jr_token r = Some (cj_token j) \<and> jr_epoch r = cj_epoch j"

definition record_job_outcome :: "job_row list \<Rightarrow> claimed_job \<Rightarrow> job_outcome \<Rightarrow> instant \<Rightarrow> job_row list" where
  "record_job_outcome rows j res now = map (\<lambda>r. if fenced_row j r then outcome_row j res now r else r) rows"

text \<open>
  One pass. A run of a claimed job ends with the outcome and at the time that \<open>res\<close> gives; \<open>db\<close> says whether the
  statement that records it reaches the database. Ordinary jobs run one after another and a database failure ends the
  pass; the goroutines of realtime jobs end in the order \<open>perm\<close> gives and all of them run.
\<close>

datatype run_result = RunCount nat bool

fun run_sequence ::
    "(claimed_job \<Rightarrow> job_outcome \<times> instant) \<Rightarrow> (claimed_job \<Rightarrow> bool) \<Rightarrow> claimed_job list \<Rightarrow> job_row list \<Rightarrow> job_row list \<times> bool" where
  "run_sequence res db [] rows = (rows, True)"
| "run_sequence res db (j # js) rows =
     (if db j then run_sequence res db js (record_job_outcome rows j (fst (res j)) (snd (res j))) else (rows, False))"

fun run_all ::
    "(claimed_job \<Rightarrow> job_outcome \<times> instant) \<Rightarrow> (claimed_job \<Rightarrow> bool) \<Rightarrow> claimed_job list \<Rightarrow> job_row list \<Rightarrow> job_row list" where
  "run_all res db [] rows = rows"
| "run_all res db (j # js) rows =
     run_all res db js (if db j then record_job_outcome rows j (fst (res j)) (snd (res j)) else rows)"

definition run_once ::
    "string \<Rightarrow> (claimed_job list \<Rightarrow> claimed_job list) \<Rightarrow> (claimed_job \<Rightarrow> job_outcome \<times> instant) \<Rightarrow> (claimed_job \<Rightarrow> bool) \<Rightarrow>
     job_row list \<Rightarrow> (job_key \<Rightarrow> bool) \<Rightarrow> uuid \<Rightarrow> instant \<Rightarrow> job_row list \<times> run_result" where
  "run_once kd perm res db rows locked token now =
     (let (rows1, claimed) = claim_jobs rows locked token now scheduler_batch kd
      in if kd = realtime
         then (run_all res db (perm claimed) rows1, RunCount (length claimed) (list_all db claimed))
         else (let (rows2, ok) = run_sequence res db claimed rows1
               in (rows2, RunCount (if ok then length claimed else 0) ok)))"

section \<open>Reconciliation\<close>

record background_job =
  bj_id :: string
  bj_minutes :: int

record realtime_job =
  rj_id :: string
  rj_seconds :: int

text \<open>The manifest's checks of declared jobs (\<open>packages/package-sdk/go/package/manifest.go\<close>, \<open>validateCapabilities\<close>).\<close>

datatype job_error =
    BackgroundCount | BackgroundId | BackgroundInterval | BackgroundDuplicate
  | RealtimeVersion | RealtimeCount | RealtimeInvalid | RealtimeClash

fun validate_background_jobs :: "string list \<Rightarrow> background_job list \<Rightarrow> job_error + unit" where
  "validate_background_jobs seen [] = Inr ()"
| "validate_background_jobs seen (j # js) =
     andthen (check (job_id_ok (bj_id j)) BackgroundId) (\<lambda>_.
     andthen (check (5 \<le> bj_minutes j \<and> bj_minutes j \<le> 1440) BackgroundInterval) (\<lambda>_.
     andthen (check (bj_id j \<notin> set seen) BackgroundDuplicate) (\<lambda>_. validate_background_jobs (bj_id j # seen) js)))"

definition validate_jobs :: "int \<Rightarrow> background_job list option \<Rightarrow> realtime_job list option \<Rightarrow> job_error + unit" where
  "validate_jobs api background rts =
     andthen (case background of None \<Rightarrow> Inr ()
       | Some js \<Rightarrow> andthen (check (1 \<le> length js \<and> length js \<le> 4) BackgroundCount) (\<lambda>_. validate_background_jobs [] js)) (\<lambda>_.
     (case rts of None \<Rightarrow> Inr ()
      | Some rt \<Rightarrow>
          andthen (check (api = 4) RealtimeVersion) (\<lambda>_.
          (case rt of
             [job] \<Rightarrow>
               andthen (check (job_id_ok (rj_id job) \<and> 5 \<le> rj_seconds job \<and> rj_seconds job \<le> 60) RealtimeInvalid) (\<lambda>_.
               (case background of None \<Rightarrow> Inr ()
                | Some js \<Rightarrow> check (rj_id job \<notin> bj_id ` set js) RealtimeClash))
           | _ \<Rightarrow> Inl RealtimeCount))))"

text \<open>An installed package: its parsed manifest, or \<open>None\<close> when the parser refuses it, and its activation epoch.\<close>

record installed_package =
  ip_package :: string
  ip_jobs :: "(background_job list option \<times> realtime_job list option) option"
  ip_epoch :: "uuid option"

datatype sync_error = ManifestRefused | ConstraintViolated

text \<open>\<open>ON CONFLICT DO UPDATE\<close>: a surviving row takes the new declaration; its cursor and its claim survive within one
  activation.\<close>

definition merged_row :: "uuid option \<Rightarrow> job_row \<Rightarrow> job_row \<Rightarrow> job_row" where
  "merged_row ep new r =
     r\<lparr>jr_minutes := jr_minutes new, jr_seconds := jr_seconds new, jr_kind := jr_kind new, jr_epoch := ep,
       jr_token := (if jr_epoch r = ep then jr_token r else None),
       jr_next_run := (if jr_epoch r = ep then jr_next_run r else jr_next_run new)\<rparr>"

definition upsert_row :: "uuid option \<Rightarrow> job_row \<Rightarrow> job_row list \<Rightarrow> job_row list" where
  "upsert_row ep new rows =
     (if job_key new \<in> set (map job_key rows)
      then map (\<lambda>r. if job_key r = job_key new then merged_row ep new r else r) rows
      else rows @ [new])"

definition new_ordinary :: "string \<Rightarrow> uuid option \<Rightarrow> instant \<Rightarrow> background_job \<Rightarrow> job_row" where
  "new_ordinary p ep now j = \<lparr>jr_package = p, jr_job = bj_id j, jr_minutes = Some (bj_minutes j), jr_seconds = None,
     jr_kind = ordinary, jr_next_run = now + bj_minutes j * minute, jr_last_run = None, jr_last_status = ''never'',
     jr_last_error = [], jr_failures = 0, jr_epoch = ep, jr_token = None\<rparr>"

definition new_realtime :: "string \<Rightarrow> uuid option \<Rightarrow> instant \<Rightarrow> realtime_job \<Rightarrow> job_row" where
  "new_realtime p ep now j = \<lparr>jr_package = p, jr_job = rj_id j, jr_minutes = None, jr_seconds = Some (rj_seconds j),
     jr_kind = realtime, jr_next_run = now + rj_seconds j * second, jr_last_run = None, jr_last_status = ''never'',
     jr_last_error = [], jr_failures = 0, jr_epoch = ep, jr_token = None\<rparr>"

definition delete_undeclared :: "string \<Rightarrow> string \<Rightarrow> string list \<Rightarrow> job_row list \<Rightarrow> job_row list" where
  "delete_undeclared p kd ids rows = filter (\<lambda>r. \<not> (jr_package r = p \<and> jr_kind r = kd \<and> jr_job r \<notin> set ids)) rows"

fun upsert_all :: "uuid option \<Rightarrow> job_row list \<Rightarrow> job_row list \<Rightarrow> sync_error + job_row list" where
  "upsert_all ep [] rows = Inr rows"
| "upsert_all ep (n # ns) rows =
     (let rows' = upsert_row ep n rows in andthen (check (table_ok rows') ConstraintViolated) (\<lambda>_. upsert_all ep ns rows'))"

definition declared :: "'a list option \<Rightarrow> 'a list" where
  "declared js = (case js of None \<Rightarrow> [] | Some xs \<Rightarrow> xs)"

definition sync_jobs ::
    "installed_package list \<Rightarrow> string \<Rightarrow> background_job list \<Rightarrow> bool \<Rightarrow> instant \<Rightarrow> job_row list \<Rightarrow> sync_error + job_row list" where
  "sync_jobs installed p jobs0 allow_uninstalled now rows =
     andthen
       (case filter (\<lambda>i. ip_package i = p) installed of
          [] \<Rightarrow> Inr (if allow_uninstalled then jobs0 else [], [], None)
        | i # _ \<Rightarrow> (case ip_jobs i of None \<Rightarrow> Inl ManifestRefused | Some (js, rt) \<Rightarrow> Inr (declared js, declared rt, ip_epoch i)))
       (\<lambda>(jobs, rt, ep).
          andthen (upsert_all ep (map (new_ordinary p ep now) jobs) rows)
            (\<lambda>rows1. upsert_all ep (map (new_realtime p ep now) rt)
               (delete_undeclared p realtime (map rj_id rt) (delete_undeclared p ordinary (map bj_id jobs) rows1))))"

text \<open>A failed transaction leaves the table as it was; the pass goes on with the next package.\<close>

definition sync_installed :: "installed_package list \<Rightarrow> instant \<Rightarrow> string \<Rightarrow> job_row list \<Rightarrow> job_row list" where
  "sync_installed installed now p rows = (case sync_jobs installed p [] False now rows of Inl _ \<Rightarrow> rows | Inr rows' \<Rightarrow> rows')"

definition reconcile :: "installed_package list \<Rightarrow> instant \<Rightarrow> job_row list \<Rightarrow> job_row list" where
  "reconcile installed now rows =
     fold (sync_installed installed now) (remdups (map ip_package installed @ map jr_package rows)) rows"

definition by_job_id :: "job_row \<Rightarrow> job_row \<Rightarrow> bool" where
  "by_job_id r q \<longleftrightarrow> jr_job r < jr_job q"

record job_view =
  jv_job :: string
  jv_minutes :: int
  jv_seconds :: int
  jv_kind :: string
  jv_next_run :: instant
  jv_last_run :: "instant option"
  jv_last_status :: string
  jv_last_error :: runes
  jv_failures :: int

definition coalesce :: "int option \<Rightarrow> int" where "coalesce x = (case x of None \<Rightarrow> 0 | Some n \<Rightarrow> n)"

definition list_jobs :: "job_row list \<Rightarrow> string \<Rightarrow> job_view list" where
  "list_jobs rows p =
     map (\<lambda>r. \<lparr>jv_job = jr_job r, jv_minutes = coalesce (jr_minutes r), jv_seconds = coalesce (jr_seconds r),
            jv_kind = jr_kind r, jv_next_run = jr_next_run r, jv_last_run = jr_last_run r,
            jv_last_status = jr_last_status r, jv_last_error = jr_last_error r, jv_failures = jr_failures r\<rparr>)
       (sort_by by_job_id (filter (\<lambda>r. jr_package r = p) rows))"

section \<open>Lemmas\<close>

interpretation due: ranking due_before jr_next_run
  by unfold_locales (simp add: due_before_def)

text \<open>The table as a map from keys to rows.\<close>

definition job_at :: "job_row list \<Rightarrow> job_key \<Rightarrow> job_row option" where
  "job_at rows k = map_of (map (\<lambda>r. (job_key r, r)) rows) k"

lemma job_at_Nil [simp]: "job_at [] k = None"
  by (simp add: job_at_def)

lemma job_at_Cons [simp]: "job_at (r # rows) k = (if job_key r = k then Some r else job_at rows k)"
  by (simp add: job_at_def)

lemma job_at_append: "job_at (xs @ ys) k = (case job_at xs k of None \<Rightarrow> job_at ys k | Some r \<Rightarrow> Some r)"
  by (induction xs) auto

lemma job_at_None: "job_at rows k = None \<longleftrightarrow> k \<notin> set (map job_key rows)"
  by (induction rows) auto

lemma job_at_SomeD: "job_at rows k = Some r \<Longrightarrow> r \<in> set rows \<and> job_key r = k"
  by (induction rows) (auto split: if_splits)

lemma job_at_mem: "distinct (map job_key rows) \<Longrightarrow> r \<in> set rows \<longleftrightarrow> job_at rows (job_key r) = Some r"
  by (induction rows) (auto dest: job_at_SomeD)

lemma job_at_map:
  "(\<And>r. job_key (f r) = job_key r) \<Longrightarrow> job_at (map f rows) k = map_option f (job_at rows k)"
  by (induction rows) auto

lemma map_job_key_map: "(\<And>r. job_key (f r) = job_key r) \<Longrightarrow> map job_key (map f rows) = map job_key rows"
  by simp

lemma job_at_filter:
  "distinct (map job_key rows) \<Longrightarrow>
     job_at (filter P rows) k = (case job_at rows k of None \<Rightarrow> None | Some r \<Rightarrow> if P r then Some r else None)"
proof (induction rows)
  case (Cons r rows)
  have "job_key r \<notin> set (map job_key rows)" using Cons.prems by simp
  then have "job_at rows (job_key r) = None" by (simp add: job_at_None)
  then show ?case using Cons by auto
qed simp

definition one_realtime :: "(job_key \<Rightarrow> job_row option) \<Rightarrow> bool" where
  "one_realtime at \<longleftrightarrow> (\<forall>p j j' r r'. at (p, j) = Some r \<and> at (p, j') = Some r' \<and> jr_kind r = realtime
     \<and> jr_kind r' = realtime \<longrightarrow> j = j')"

lemma table_ok_at:
  assumes "distinct (map job_key rows)"
  shows "table_ok rows \<longleftrightarrow> (\<forall>k r. job_at rows k = Some r \<longrightarrow> row_ok r) \<and> one_realtime (job_at rows)"
proof -
  have rows: "list_all row_ok rows \<longleftrightarrow> (\<forall>k r. job_at rows k = Some r \<longrightarrow> row_ok r)"
    using job_at_mem [OF assms] job_at_SomeD [of rows] unfolding list_all_iff by blast
  let ?rt = "filter (\<lambda>r. jr_kind r = realtime) rows"
  have "distinct rows" using assms by (simp add: distinct_map)
  then have "distinct (map jr_package ?rt) \<longleftrightarrow> inj_on jr_package {r \<in> set rows. jr_kind r = realtime}"
    by (simp add: distinct_map)
  also have "\<dots> \<longleftrightarrow> one_realtime (job_at rows)"
  proof
    assume inj: "inj_on jr_package {r \<in> set rows. jr_kind r = realtime}"
    show "one_realtime (job_at rows)" unfolding one_realtime_def
    proof (intro allI impI)
      fix p j j' r r'
      assume a: "job_at rows (p, j) = Some r \<and> job_at rows (p, j') = Some r' \<and> jr_kind r = realtime \<and> jr_kind r' = realtime"
      then have k: "job_key r = (p, j)" "job_key r' = (p, j')" "r \<in> set rows" "r' \<in> set rows"
        by (auto dest: job_at_SomeD)
      then have "r = r'" using a inj by (auto simp: job_key_def inj_on_def)
      then show "j = j'" using k by simp
    qed
  next
    assume one: "one_realtime (job_at rows)"
    show "inj_on jr_package {r \<in> set rows. jr_kind r = realtime}"
    proof (rule inj_onI)
      fix r r' assume m: "r \<in> {r \<in> set rows. jr_kind r = realtime}" "r' \<in> {r \<in> set rows. jr_kind r = realtime}"
        and eq: "jr_package r = jr_package r'"
      have at: "job_at rows (jr_package r, jr_job r) = Some r" "job_at rows (jr_package r, jr_job r') = Some r'"
        using m eq job_at_mem [OF assms, of r] job_at_mem [OF assms, of r'] by (auto simp: job_key_def)
      then have "jr_job r = jr_job r'" using one m unfolding one_realtime_def by blast
      then show "r = r'" using at by (metis option.inject)
    qed
  qed
  finally show ?thesis using rows assms by (simp add: table_ok_def)
qed

section \<open>Claims\<close>

lemma claim_jobs_rows:
  "fst (claim_jobs rows locked token now limit kd) =
     map (\<lambda>r. if job_key r \<in> set (map job_key (claimable rows locked limit kd now))
          then r\<lparr>jr_next_run := now + lease_of kd, jr_token := Some token\<rparr> else r) rows"
  by (simp add: claim_jobs_def Let_def)

lemma claim_jobs_keys:
  "map claim_key (snd (claim_jobs rows locked token now limit kd)) = map job_key (claimable rows locked limit kd now)"
  by (simp add: claim_jobs_def Let_def claim_key_def job_key_def comp_def)

lemma claimable_due:
  assumes "r \<in> set (claimable rows locked limit kd now)"
  shows "r \<in> set rows \<and> jr_next_run r \<le> now \<and> jr_kind r = kd \<and> \<not> locked (job_key r)"
  using in_set_takeD [OF assms [unfolded claimable_def]] by simp

lemma claimable_earliest:
  assumes "q \<in> set rows" "jr_next_run q \<le> now" "jr_kind q = kd" "\<not> locked (job_key q)"
    and "q \<notin> set (claimable rows locked limit kd now)"
  shows "length (claimable rows locked limit kd now) = limit
    \<and> (\<forall>r\<in>set (claimable rows locked limit kd now). jr_next_run r \<le> jr_next_run q)"
proof -
  define due where "due = sort_by due_before (filter (\<lambda>r. jr_next_run r \<le> now \<and> jr_kind r = kd \<and> \<not> locked (job_key r)) rows)"
  have q: "q \<in> set due" using assms(1-4) by (simp add: due_def)
  have sorted: "sorted (map jr_next_run (take limit due @ drop limit due))"
    using due.sort_sorted by (simp add: due_def)
  have c: "claimable rows locked limit kd now = take limit due" by (simp add: claimable_def due_def)
  have "q \<in> set (take limit due) \<union> set (drop limit due)" using q by (metis append_take_drop_id set_append)
  then have dq: "q \<in> set (drop limit due)" using assms(5) c by simp
  then have "limit < length due" by (metis drop_eq_Nil empty_iff empty_set not_le)
  then have "length (take limit due) = limit" by simp
  moreover have "\<forall>r\<in>set (take limit due). jr_next_run r \<le> jr_next_run q"
    using sorted dq unfolding map_append sorted_append by auto
  ultimately show ?thesis using c by simp
qed

lemma claimable_distinct: "distinct (map job_key rows) \<Longrightarrow> distinct (map job_key (claimable rows locked limit kd now))"
  by (simp add: claimable_def take_map [symmetric] distinct_map_filter)

lemma claim_jobs_key_set:
  "claim_key ` set (snd (claim_jobs rows locked token now limit kd)) = job_key ` set (claimable rows locked limit kd now)"
  using arg_cong [OF claim_jobs_keys, of set] by simp

lemma claim_jobs_taken:
  assumes "distinct (map job_key rows)" "j \<in> set (snd (claim_jobs rows locked token now limit kd))"
  shows "\<exists>r. job_at rows (claim_key j) = Some r \<and> jr_next_run r \<le> now \<and> jr_kind r = kd
    \<and> \<not> locked (claim_key j) \<and> cj_epoch j = jr_epoch r \<and> cj_token j = token \<and> cj_at j = now"
proof -
  obtain r where r: "r \<in> set (claimable rows locked limit kd now)"
    and j: "j = \<lparr>cj_package = jr_package r, cj_job = jr_job r, cj_epoch = jr_epoch r, cj_token = token, cj_at = now\<rparr>"
    using assms(2) by (auto simp: claim_jobs_def Let_def)
  have "claim_key j = job_key r" by (simp add: j claim_key_def job_key_def)
  moreover have "job_at rows (job_key r) = Some r"
    using claimable_due [OF r] job_at_mem [OF assms(1)] by blast
  ultimately show ?thesis using claimable_due [OF r] by (intro exI [of _ r]) (simp add: j)
qed

lemma claim_jobs_left:
  assumes d: "distinct (map job_key rows)" and "job_at rows k = Some r" "jr_next_run r \<le> now" "jr_kind r = kd" "\<not> locked k"
    and "k \<notin> claim_key ` set (snd (claim_jobs rows locked token now limit kd))"
  shows "length (snd (claim_jobs rows locked token now limit kd)) = limit
    \<and> (\<forall>j\<in>set (snd (claim_jobs rows locked token now limit kd)).
          \<exists>q. job_at rows (claim_key j) = Some q \<and> jr_next_run q \<le> jr_next_run r)"
proof -
  let ?c = "claimable rows locked limit kd now" and ?cl = "snd (claim_jobs rows locked token now limit kd)"
  have r: "r \<in> set rows" "job_key r = k" using job_at_SomeD [OF assms(2)] by auto
  have "r \<notin> set ?c" using assms(6) r by (auto simp: claim_jobs_key_set)
  then have e: "length ?c = limit" "\<forall>q\<in>set ?c. jr_next_run q \<le> jr_next_run r"
    using claimable_earliest [of r rows now kd locked limit] r assms(2-5) by auto
  have "\<exists>q. job_at rows (claim_key j) = Some q \<and> jr_next_run q \<le> jr_next_run r" if j: "j \<in> set ?cl" for j
  proof -
    have "claim_key j \<in> job_key ` set ?c" using imageI [OF j, of claim_key] unfolding claim_jobs_key_set .
    then obtain q where q: "q \<in> set ?c" "claim_key j = job_key q" by blast
    then have "job_at rows (job_key q) = Some q" using claimable_due [OF q(1)] job_at_mem [OF d] by blast
    then show ?thesis using q e(2) by (intro exI [of _ q]) simp
  qed
  moreover have "length ?cl = limit" using e(1) by (simp add: claim_jobs_def Let_def)
  ultimately show ?thesis by blast
qed

lemma claim_jobs_at:
  "job_at (fst (claim_jobs rows locked token now limit kd)) k =
     (if k \<in> claim_key ` set (snd (claim_jobs rows locked token now limit kd))
      then map_option (\<lambda>r. r\<lparr>jr_next_run := now + lease_of kd, jr_token := Some token\<rparr>) (job_at rows k)
      else job_at rows k)"
  unfolding claim_jobs_rows claim_jobs_key_set
  by (cases "job_at rows k") (auto simp: job_at_map job_key_def dest!: job_at_SomeD)

text \<open>A claim takes at most the batch, each job once: jobs of its kind that are due and that no other transaction
  holds, the longest overdue first (a due job is left out only when the batch is full of jobs due no later). A claimed
  row carries the token and is not due before the lease ends; no other row changes.\<close>

theorem claim_jobs_exact:
  assumes "distinct (map job_key rows)" and "claim_jobs rows locked token now limit kd = (rows', claimed)"
  shows "length claimed \<le> limit \<and> distinct (map claim_key claimed)
    \<and> (\<forall>j\<in>set claimed. \<exists>r. job_at rows (claim_key j) = Some r \<and> jr_next_run r \<le> now \<and> jr_kind r = kd
          \<and> \<not> locked (claim_key j) \<and> cj_epoch j = jr_epoch r \<and> cj_token j = token \<and> cj_at j = now)
    \<and> (\<forall>k r. job_at rows k = Some r \<and> jr_next_run r \<le> now \<and> jr_kind r = kd \<and> \<not> locked k \<and> k \<notin> claim_key ` set claimed
          \<longrightarrow> length claimed = limit \<and> (\<forall>j\<in>set claimed. \<exists>q. job_at rows (claim_key j) = Some q \<and> jr_next_run q \<le> jr_next_run r))
    \<and> (\<forall>k. job_at rows' k = (if k \<in> claim_key ` set claimed
          then map_option (\<lambda>r. r\<lparr>jr_next_run := now + lease_of kd, jr_token := Some token\<rparr>) (job_at rows k)
          else job_at rows k))"
proof -
  have r: "rows' = fst (claim_jobs rows locked token now limit kd)" "claimed = snd (claim_jobs rows locked token now limit kd)"
    using assms(2) by simp_all
  have "length claimed \<le> limit" by (simp add: r(2) claim_jobs_def Let_def claimable_def)
  moreover have "distinct (map claim_key claimed)"
    unfolding r(2) claim_jobs_keys by (rule claimable_distinct [OF assms(1)])
  moreover have "\<forall>j\<in>set claimed. \<exists>r. job_at rows (claim_key j) = Some r \<and> jr_next_run r \<le> now \<and> jr_kind r = kd
          \<and> \<not> locked (claim_key j) \<and> cj_epoch j = jr_epoch r \<and> cj_token j = token \<and> cj_at j = now"
    unfolding r(2) by (intro ballI claim_jobs_taken [OF assms(1)])
  moreover have "\<forall>k r. job_at rows k = Some r \<and> jr_next_run r \<le> now \<and> jr_kind r = kd \<and> \<not> locked k \<and> k \<notin> claim_key ` set claimed
      \<longrightarrow> length claimed = limit \<and> (\<forall>j\<in>set claimed. \<exists>q. job_at rows (claim_key j) = Some q \<and> jr_next_run q \<le> jr_next_run r)"
    unfolding r(2) by (intro allI impI, elim conjE) (rule claim_jobs_left [OF assms(1)])
  moreover have "\<forall>k. job_at rows' k = (if k \<in> claim_key ` set claimed
      then map_option (\<lambda>r. r\<lparr>jr_next_run := now + lease_of kd, jr_token := Some token\<rparr>) (job_at rows k) else job_at rows k)"
    unfolding r by (intro allI claim_jobs_at)
  ultimately show ?thesis by (intro conjI)
qed

definition epoch_1 :: uuid where "epoch_1 = UUID ''eeeeeeee-0000-0000-0000-000000000001''"
definition token_1 :: uuid where "token_1 = UUID ''11111111-0000-0000-0000-000000000001''"
definition token_2 :: uuid where "token_2 = UUID ''22222222-0000-0000-0000-000000000002''"

text \<open>A package with an ordinary job that is due and a realtime job that is not.\<close>

definition example_jobs :: "job_row list" where
  "example_jobs =
     [new_ordinary ''weather'' (Some epoch_1) (- 5 * minute) \<lparr>bj_id = ''refresh'', bj_minutes = 5\<rparr>,
      new_realtime ''weather'' (Some epoch_1) 0 \<lparr>rj_id = ''tick'', rj_seconds = 10\<rparr>]"

definition example_claim :: claimed_job where
  "example_claim = \<lparr>cj_package = ''weather'', cj_job = ''refresh'', cj_epoch = Some epoch_1, cj_token = token_1, cj_at = 0\<rparr>"

lemma example_jobs_distinct: "distinct (map job_key example_jobs)"
  by (simp add: example_jobs_def job_key_def new_ordinary_def new_realtime_def)

lemma example_claimed: "snd (claim_jobs example_jobs (\<lambda>_. False) token_1 0 scheduler_batch ordinary) = [example_claim]"
  by (simp add: claim_jobs_def Let_def claimable_def example_jobs_def new_ordinary_def new_realtime_def sort_by_def
      ordinary_def realtime_def minute_def second_def example_claim_def scheduler_batch_def)

theorem claim_jobs_exact_witness:
  "\<exists>rows'. claim_jobs example_jobs (\<lambda>_. False) token_1 0 scheduler_batch ordinary = (rows', [example_claim])
     \<and> job_at rows' (''weather'', ''tick'') = job_at example_jobs (''weather'', ''tick'')"
proof -
  obtain rows' where r: "claim_jobs example_jobs (\<lambda>_. False) token_1 0 scheduler_batch ordinary = (rows', [example_claim])"
    using example_claimed by (metis prod.collapse)
  have "(''weather'', ''tick'') \<notin> claim_key ` set [example_claim]" by (simp add: claim_key_def example_claim_def)
  then show ?thesis using claim_jobs_exact [OF example_jobs_distinct r] r by auto
qed

subsection \<open>Concurrent schedulers\<close>

text \<open>The statements that other schedulers run between a claim and the end of its job.\<close>

datatype sched_op =
    ClaimOp "job_key \<Rightarrow> bool" uuid instant nat string
  | OutcomeOp claimed_job job_outcome instant

fun sched_run :: "sched_op list \<Rightarrow> job_row list \<Rightarrow> job_row list \<times> claimed_job list" where
  "sched_run [] rows = (rows, [])"
| "sched_run (ClaimOp locked token now limit kd # ops) rows =
     (let (rows1, cs) = claim_jobs rows locked token now limit kd; (rows2, ds) = sched_run ops rows1 in (rows2, cs @ ds))"
| "sched_run (OutcomeOp j res now # ops) rows = sched_run ops (record_job_outcome rows j res now)"

text \<open>Another scheduler's statement, before the lease ends.\<close>

fun interferes :: "claimed_job \<Rightarrow> instant \<Rightarrow> sched_op \<Rightarrow> bool" where
  "interferes j until (ClaimOp locked token now limit kd) \<longleftrightarrow> until \<le> now"
| "interferes j until (OutcomeOp j' res now) \<longleftrightarrow> claim_key j' = claim_key j \<and> cj_token j' = cj_token j"

definition holds_claim :: "job_row list \<Rightarrow> claimed_job \<Rightarrow> instant \<Rightarrow> bool" where
  "holds_claim rows j until \<longleftrightarrow> (\<exists>r. job_at rows (claim_key j) = Some r \<and> jr_token r = Some (cj_token j)
     \<and> jr_epoch r = cj_epoch j \<and> until \<le> jr_next_run r)"

lemma job_key_outcome_row [simp]: "job_key (outcome_row j res now r) = job_key r"
  by (simp add: outcome_row_def job_key_def)

lemma record_job_outcome_at:
  "job_at (record_job_outcome rows j res now) k =
     map_option (\<lambda>r. if fenced_row j r then outcome_row j res now r else r) (job_at rows k)"
  unfolding record_job_outcome_def by (rule job_at_map) simp

lemma record_job_outcome_stale:
  "job_at rows k = Some r \<Longrightarrow> \<not> fenced_row j r \<Longrightarrow> job_at (record_job_outcome rows j res now) k = Some r"
  by (simp add: record_job_outcome_at)

lemma record_job_outcome_fenced:
  "job_at rows k = Some r \<Longrightarrow> fenced_row j r \<Longrightarrow>
     job_at (record_job_outcome rows j res now) k = Some (outcome_row j res now r)"
  by (simp add: record_job_outcome_at)

lemma record_job_outcome_other:
  "k \<noteq> claim_key j \<Longrightarrow> job_at (record_job_outcome rows j res now) k = job_at rows k"
  by (cases "job_at rows k") (auto simp: record_job_outcome_at fenced_row_def dest: job_at_SomeD)

lemma map_key_record [simp]: "map job_key (record_job_outcome rows j res now) = map job_key rows"
  by (simp add: record_job_outcome_def comp_def if_distrib cong: if_cong)

lemma map_key_claim [simp]: "map job_key (fst (claim_jobs rows locked token now limit kd)) = map job_key rows"
  by (simp add: claim_jobs_rows job_key_def comp_def)

lemma holds_claim_claim:
  assumes "distinct (map job_key rows)" "holds_claim rows j until" "now < until"
  shows "claim_key j \<notin> claim_key ` set (snd (claim_jobs rows locked token now limit kd))
    \<and> holds_claim (fst (claim_jobs rows locked token now limit kd)) j until"
proof -
  obtain r where r: "job_at rows (claim_key j) = Some r" "until \<le> jr_next_run r" using assms(2) by (auto simp: holds_claim_def)
  have "claim_key j \<notin> claim_key ` set (snd (claim_jobs rows locked token now limit kd))"
  proof
    assume "claim_key j \<in> claim_key ` set (snd (claim_jobs rows locked token now limit kd))"
    then obtain i where "i \<in> set (snd (claim_jobs rows locked token now limit kd))" "claim_key i = claim_key j" by force
    then have "jr_next_run r \<le> now" using claim_jobs_taken [OF assms(1)] r(1) by fastforce
    then show False using r(2) assms(3) by linarith
  qed
  then show ?thesis using assms(2) by (simp add: holds_claim_def claim_jobs_at)
qed

lemma holds_claim_run:
  "distinct (map job_key rows) \<Longrightarrow> holds_claim rows j until \<Longrightarrow> \<forall>oper\<in>set ops. \<not> interferes j until oper \<Longrightarrow>
     claim_key j \<notin> claim_key ` set (snd (sched_run ops rows)) \<and> holds_claim (fst (sched_run ops rows)) j until"
proof (induction ops rows rule: sched_run.induct)
  case (1 rows)
  then show ?case by simp
next
  case (2 locked token now limit kd ops rows)
  have nx: "now < until" using 2(4) by auto
  have d: "distinct (map job_key (fst (claim_jobs rows locked token now limit kd)))" using 2(2) by simp
  note c = holds_claim_claim [OF 2(2,3) nx, of locked token limit kd]
  have "claim_key j \<notin> claim_key ` set (snd (sched_run ops (fst (claim_jobs rows locked token now limit kd))))
      \<and> holds_claim (fst (sched_run ops (fst (claim_jobs rows locked token now limit kd)))) j until"
    using 2(1) [OF refl prod.collapse d] c 2(4) by simp
  then show ?case using c by (simp add: case_prod_unfold Let_def image_Un)
next
  case (3 j' res now ops rows)
  obtain r where r: "job_at rows (claim_key j) = Some r" "jr_token r = Some (cj_token j)" "jr_epoch r = cj_epoch j"
      "until \<le> jr_next_run r"
    using 3(3) by (auto simp: holds_claim_def)
  have "job_at (record_job_outcome rows j' res now) (claim_key j) = Some r"
  proof (rule record_job_outcome_stale [OF r(1)])
    show "\<not> fenced_row j' r" using r 3(4) job_at_SomeD [OF r(1)] by (auto simp: fenced_row_def)
  qed
  then have "holds_claim (record_job_outcome rows j' res now) j until" using r by (simp add: holds_claim_def)
  then show ?case using 3 by simp
qed



subsection \<open>Outcomes\<close>

lemma job_interval_pos: "row_ok r \<Longrightarrow> 0 < job_interval r"
  by (auto simp: row_ok_def job_interval_def second_def split: option.splits)

lemma next_run_after_ordinary: "row_ok r \<Longrightarrow> jr_kind r \<noteq> realtime \<Longrightarrow> now < next_run_after r c now"
  using job_interval_pos by (simp add: next_run_after_def)

lemma next_run_after_realtime:
  assumes "0 < n" "c \<le> (now :: int)"
  shows "now < c + n * (max 0 (now - c) div n + 1)" "c + n * (max 0 (now - c) div n + 1) - n \<le> now"
proof -
  have e: "max 0 (now - c) = now - c" using assms(2) by simp
  have "(now - c) mod n < n" "0 \<le> (now - c) mod n" using assms(1) by simp_all
  moreover have "n * ((now - c) div n) = now - c - (now - c) mod n" by (simp add: minus_mod_eq_mult_div)
  ultimately show "now < c + n * (max 0 (now - c) div n + 1)" "c + n * (max 0 (now - c) div n + 1) - n \<le> now"
    unfolding e by (simp_all add: distrib_left)
qed

lemma length_truncate_error: "length (truncate_error e n) \<le> 512"
  by (simp add: truncate_error_def Let_def)

lemma record_table_ok:
  assumes "table_ok rows"
  shows "table_ok (record_job_outcome rows j res now)"
proof -
  have d: "distinct (map job_key rows)" "distinct (map job_key (record_job_outcome rows j res now))"
    using assms by (simp_all add: table_ok_def)
  have a: "\<And>k r. job_at rows k = Some r \<Longrightarrow> row_ok r" and one: "one_realtime (job_at rows)"
    using assms table_ok_at [OF d(1)] by blast+
  have upd: "\<exists>r. job_at rows k = Some r \<and> jr_kind r' = jr_kind r \<and> (row_ok r \<longrightarrow> row_ok r')"
    if at: "job_at (record_job_outcome rows j res now) k = Some r'" for k r'
  proof -
    obtain r where r: "job_at rows k = Some r" "r' = (if fenced_row j r then outcome_row j res now r else r)"
      using at unfolding record_job_outcome_at by (cases "job_at rows k") auto
    have "row_ok r \<Longrightarrow> row_ok (outcome_row j res now r)"
      by (simp add: row_ok_def outcome_row_def length_truncate_error)
    moreover have "jr_kind (outcome_row j res now r) = jr_kind r" by (simp add: outcome_row_def)
    ultimately show ?thesis using r by simp
  qed
  then have "row_ok r'" if "job_at (record_job_outcome rows j res now) k = Some r'" for k r'
    using a that by blast
  moreover have "one_realtime (job_at (record_job_outcome rows j res now))"
    unfolding one_realtime_def
  proof (intro allI impI, elim conjE)
    fix p i i' r r'
    assume "job_at (record_job_outcome rows j res now) (p, i) = Some r" "jr_kind r = realtime"
      "job_at (record_job_outcome rows j res now) (p, i') = Some r'" "jr_kind r' = realtime"
    then obtain q q' where "job_at rows (p, i) = Some q" "jr_kind q = realtime" "job_at rows (p, i') = Some q'"
      "jr_kind q' = realtime"
      using upd by metis
    then show "i = i'" using one unfolding one_realtime_def by blast
  qed
  ultimately show ?thesis using table_ok_at [OF d(2)] by blast
qed

text \<open>Recording the outcome of a run touches only the row of its claim, and only while the row still has the claim's
  token and activation: a lease that another server took over, or a package that was activated again, loses nothing to a
  late outcome. The claim is released, the failure count grows or restarts with the result, and the next run is in the
  future: an interval from now for an ordinary job, the first tick after now of the grid that starts at the claim for a
  realtime job. The row satisfies the table's constraints whatever text the guest's error has.\<close>

theorem outcome_exact:
  assumes "table_ok rows" and "cj_at j \<le> now" and "rows' = record_job_outcome rows j res now"
  shows "table_ok rows' \<and> (\<forall>k. k \<noteq> claim_key j \<longrightarrow> job_at rows' k = job_at rows k)
    \<and> (\<forall>r. job_at rows (claim_key j) = Some r \<and> (jr_token r \<noteq> Some (cj_token j) \<or> jr_epoch r \<noteq> cj_epoch j)
          \<longrightarrow> job_at rows' (claim_key j) = Some r)
    \<and> (\<forall>r. job_at rows (claim_key j) = Some r \<and> jr_token r = Some (cj_token j) \<and> jr_epoch r = cj_epoch j
          \<longrightarrow> (\<exists>r'. job_at rows' (claim_key j) = Some r' \<and> jr_token r' = None \<and> jr_last_run r' = Some now
                \<and> now < jr_next_run r'
                \<and> (jr_kind r \<noteq> realtime \<longrightarrow> jr_next_run r' = now + job_interval r)
                \<and> (jr_kind r = realtime \<longrightarrow> jr_next_run r' - job_interval r \<le> now
                     \<and> (\<exists>m. jr_next_run r' = cj_at j + job_interval r * m))
                \<and> jr_failures r' = (if jo_error res = None \<and> jo_status res = 0 then 0 else jr_failures r + 1)))"
proof -
  have d: "distinct (map job_key rows)" using assms(1) by (simp add: table_ok_def)
  have "\<exists>r'. job_at rows' (claim_key j) = Some r' \<and> jr_token r' = None \<and> jr_last_run r' = Some now
      \<and> now < jr_next_run r' \<and> (jr_kind r \<noteq> realtime \<longrightarrow> jr_next_run r' = now + job_interval r)
      \<and> (jr_kind r = realtime \<longrightarrow> jr_next_run r' - job_interval r \<le> now \<and> (\<exists>m. jr_next_run r' = cj_at j + job_interval r * m))
      \<and> jr_failures r' = (if jo_error res = None \<and> jo_status res = 0 then 0 else jr_failures r + 1)"
    if r: "job_at rows (claim_key j) = Some r" "jr_token r = Some (cj_token j)" "jr_epoch r = cj_epoch j" for r
  proof (intro exI conjI)
    have ok: "row_ok r" using assms(1) r(1) table_ok_at [OF d] by blast
    have "fenced_row j r" using r job_at_SomeD [OF r(1)] by (simp add: fenced_row_def)
    then show "job_at rows' (claim_key j) = Some (outcome_row j res now r)"
      unfolding assms(3) by (rule record_job_outcome_fenced [OF r(1)])
    show "now < jr_next_run (outcome_row j res now r)"
      using next_run_after_ordinary [OF ok] next_run_after_realtime(1) [OF job_interval_pos [OF ok] assms(2)]
      by (cases "jr_kind r = realtime") (simp_all add: outcome_row_def next_run_after_def)
    show "jr_kind r = realtime \<longrightarrow> jr_next_run (outcome_row j res now r) - job_interval r \<le> now
        \<and> (\<exists>m. jr_next_run (outcome_row j res now r) = cj_at j + job_interval r * m)"
      using next_run_after_realtime(2) [OF job_interval_pos [OF ok] assms(2)]
      by (auto simp: outcome_row_def next_run_after_def)
  qed (simp_all add: outcome_row_def outcome_failed_def next_run_after_def)
  moreover have "job_at rows' (claim_key j) = Some r"
    if "job_at rows (claim_key j) = Some r \<and> (jr_token r \<noteq> Some (cj_token j) \<or> jr_epoch r \<noteq> cj_epoch j)" for r
    unfolding assms(3) using that by (intro record_job_outcome_stale) (auto simp: fenced_row_def)
  moreover have "table_ok rows'" unfolding assms(3) by (rule record_table_ok [OF assms(1)])
  ultimately show ?thesis by (auto simp: assms(3) record_job_outcome_other)
qed

theorem outcome_exact_witness:
  "\<exists>rows1 r. claim_jobs example_jobs (\<lambda>_. False) token_1 0 scheduler_batch ordinary = (rows1, [example_claim])
     \<and> job_at (record_job_outcome rows1 example_claim \<lparr>jo_status = 1, jo_error = None\<rparr> second) (claim_key example_claim) = Some r
     \<and> jr_failures r = 1 \<and> second < jr_next_run r"
proof -
  obtain rows1 where r: "claim_jobs example_jobs (\<lambda>_. False) token_1 0 scheduler_batch ordinary = (rows1, [example_claim])"
    using example_claimed by (metis prod.collapse)
  have rows1: "rows1 = [(new_ordinary ''weather'' (Some epoch_1) (- 5 * minute) \<lparr>bj_id = ''refresh'', bj_minutes = 5\<rparr>)
      \<lparr>jr_next_run := claim_lease, jr_token := Some token_1\<rparr>,
      new_realtime ''weather'' (Some epoch_1) 0 \<lparr>rj_id = ''tick'', rj_seconds = 10\<rparr>]"
    using r by (simp add: claim_jobs_def Let_def claimable_def example_jobs_def new_ordinary_def new_realtime_def sort_by_def
      ordinary_def realtime_def minute_def second_def lease_of_def scheduler_batch_def job_key_def)
  have "table_ok rows1"
    by (simp add: rows1 table_ok_def row_ok_def job_id_ok_def new_ordinary_def new_realtime_def ordinary_def realtime_def job_key_def)
  moreover have "\<exists>q. job_at rows1 (claim_key example_claim) = Some q \<and> jr_token q = Some (cj_token example_claim)
      \<and> jr_epoch q = cj_epoch example_claim \<and> jr_failures q = 0"
    by (simp add: rows1 example_claim_def claim_key_def new_ordinary_def job_key_def)
  moreover have "cj_at example_claim \<le> second" by (simp add: example_claim_def second_def)
  ultimately obtain r' where "job_at (record_job_outcome rows1 example_claim \<lparr>jo_status = 1, jo_error = None\<rparr> second) (claim_key example_claim) = Some r'"
      "jr_failures r' = 1" "second < jr_next_run r'"
    using outcome_exact [of rows1 example_claim second _ "\<lparr>jo_status = 1, jo_error = None\<rparr>"] by fastforce
  then show ?thesis using r by blast
qed

subsection \<open>Reconciliation\<close>

definition merged :: "uuid option \<Rightarrow> job_row \<Rightarrow> job_row option \<Rightarrow> job_row" where
  "merged ep new old = (case old of None \<Rightarrow> new | Some r \<Rightarrow> merged_row ep new r)"

lemma job_key_merged_row [simp]: "job_key (merged_row ep n r) = job_key r"
  by (simp add: merged_row_def job_key_def)

lemma job_at_upsert:
  "job_at (upsert_row ep n rows) k = (if k = job_key n then Some (merged ep n (job_at rows k)) else job_at rows k)"
proof (cases "job_key n \<in> set (map job_key rows)")
  case True
  have "job_at (upsert_row ep n rows) k =
      map_option (\<lambda>r. if job_key r = job_key n then merged_row ep n r else r) (job_at rows k)"
    using True by (simp add: upsert_row_def job_at_map)
  then show ?thesis
    using True job_at_None [of rows k] by (cases "job_at rows k") (auto simp: merged_def dest: job_at_SomeD)
next
  case False
  then have "job_at rows (job_key n) = None" by (simp add: job_at_None)
  moreover have "job_at (upsert_row ep n rows) k = (case job_at rows k of None \<Rightarrow> job_at [n] k | Some r \<Rightarrow> Some r)"
    using False by (simp add: upsert_row_def job_at_append del: job_at_Cons)
  ultimately show ?thesis by (cases "job_at rows k") (auto simp: merged_def)
qed

lemma distinct_upsert:
  assumes "distinct (map job_key rows)"
  shows "distinct (map job_key (upsert_row ep n rows))"
proof (cases "job_key n \<in> set (map job_key rows)")
  case True
  have "map job_key (map (\<lambda>r. if job_key r = job_key n then merged_row ep n r else r) rows) = map job_key rows"
    by (rule map_job_key_map) simp
  then show ?thesis using True assms by (simp add: upsert_row_def del: map_map)
next
  case False
  then show ?thesis using assms by (auto simp: upsert_row_def)
qed

lemma merged_ok:
  "row_ok n \<Longrightarrow> jr_epoch n = ep \<Longrightarrow> (\<And>r. old = Some r \<Longrightarrow> row_ok r \<and> job_key r = job_key n) \<Longrightarrow> row_ok (merged ep n old)"
  by (cases old) (auto simp: merged_def merged_row_def row_ok_def job_key_def)

lemma jr_kind_merged [simp]: "jr_kind (merged ep n old) = jr_kind n"
  by (cases old) (simp_all add: merged_def merged_row_def)

lemma table_ok_row: "table_ok rows \<Longrightarrow> job_at rows k = Some r \<Longrightarrow> row_ok r"
  using job_at_SomeD [of rows k r] by (simp add: table_ok_def list_all_iff)

text \<open>An upsert keeps the constraints when a realtime row has no rival in its package.\<close>

lemma upsert_table_ok:
  assumes "table_ok rows" "row_ok n" "jr_epoch n = ep"
    and rival: "\<And>j r. jr_kind n = realtime \<Longrightarrow> job_at rows (jr_package n, j) = Some r \<Longrightarrow> jr_kind r = realtime \<Longrightarrow> j = jr_job n"
  shows "table_ok (upsert_row ep n rows)"
proof -
  have d: "distinct (map job_key rows)" using assms(1) by (simp add: table_ok_def)
  have ok: "row_ok r" if "job_at rows k = Some r" for k r using that assms(1) table_ok_at [OF d] by blast
  have one: "one_realtime (job_at rows)" using assms(1) table_ok_at [OF d] by blast
  have m: "row_ok (merged ep n (job_at rows (job_key n)))"
    using merged_ok [OF assms(2,3)] ok job_at_SomeD by metis
  have "row_ok r" if "job_at (upsert_row ep n rows) k = Some r" for k r
    using that m ok by (auto simp: job_at_upsert split: if_splits)
  moreover have "one_realtime (job_at (upsert_row ep n rows))"
    unfolding one_realtime_def
  proof (intro allI impI, elim conjE)
    fix p i i' r r'
    assume a: "job_at (upsert_row ep n rows) (p, i) = Some r" "jr_kind r = realtime"
      "job_at (upsert_row ep n rows) (p, i') = Some r'" "jr_kind r' = realtime"
    have i: "(p, i) = job_key n \<and> jr_kind n = realtime \<or> job_at rows (p, i) = Some r"
      using a(1,2) by (auto simp: job_at_upsert split: if_splits)
    have i': "(p, i') = job_key n \<and> jr_kind n = realtime \<or> job_at rows (p, i') = Some r'"
      using a(3,4) by (auto simp: job_at_upsert split: if_splits)
    from i show "i = i'"
    proof
      assume n: "(p, i) = job_key n \<and> jr_kind n = realtime"
      from i' show ?thesis using n rival [of i' r'] a(4) by (auto simp: job_key_def)
    next
      assume n: "job_at rows (p, i) = Some r"
      from i' show ?thesis
      proof
        assume "(p, i') = job_key n \<and> jr_kind n = realtime"
        then show ?thesis using n rival [of i r] a(2) by (auto simp: job_key_def)
      next
        assume "job_at rows (p, i') = Some r'"
        then show ?thesis using one n a(2,4) unfolding one_realtime_def by blast
      qed
    qed
  qed
  ultimately show ?thesis using table_ok_at [OF distinct_upsert [OF d, of ep n]] by blast
qed

lemma upsert_all_ordinary:
  "table_ok rows \<Longrightarrow> \<forall>n\<in>set ns. row_ok n \<and> jr_epoch n = ep \<and> jr_kind n = ordinary \<Longrightarrow> distinct (map job_key ns) \<Longrightarrow>
     \<exists>rows'. upsert_all ep ns rows = Inr rows' \<and> table_ok rows'
       \<and> (\<forall>k. job_at rows' k = (case job_at ns k of None \<Rightarrow> job_at rows k | Some n \<Rightarrow> Some (merged ep n (job_at rows k))))"
proof (induction ns arbitrary: rows)
  case Nil
  then show ?case by simp
next
  case (Cons n ns)
  have "ordinary \<noteq> realtime" by (simp add: ordinary_def realtime_def)
  then have t: "table_ok (upsert_row ep n rows)" using Cons.prems by (intro upsert_table_ok) auto
  obtain rows' where r: "upsert_all ep ns (upsert_row ep n rows) = Inr rows'" "table_ok rows'"
    "\<forall>k. job_at rows' k = (case job_at ns k of None \<Rightarrow> job_at (upsert_row ep n rows) k
       | Some m \<Rightarrow> Some (merged ep m (job_at (upsert_row ep n rows) k)))"
    using Cons.IH [OF t] Cons.prems(2,3) by auto
  have "job_at ns (job_key n) = None" using Cons.prems(3) by (simp add: job_at_None)
  then have "job_at rows' k = (case job_at (n # ns) k of None \<Rightarrow> job_at rows k | Some m \<Rightarrow> Some (merged ep m (job_at rows k)))" for k
    using spec [OF r(3), of k] by (cases "k = job_key n") (auto simp: job_at_upsert split: option.splits)
  then show ?case using r(1,2) t by (simp add: Let_def)
qed

lemma table_ok_filter:
  assumes "table_ok rows" shows "table_ok (filter P rows)"
proof -
  have rt: "filter (\<lambda>r. jr_kind r = realtime) (filter P rows) = filter P (filter (\<lambda>r. jr_kind r = realtime) rows)"
    by (simp add: conj_commute)
  have "distinct (map jr_package (filter P (filter (\<lambda>r. jr_kind r = realtime) rows)))"
    by (rule distinct_map_filter) (use assms in \<open>simp add: table_ok_def\<close>)
  then show ?thesis using assms unfolding table_ok_def rt by (simp add: list_all_iff distinct_map_filter)
qed

lemma job_at_delete:
  assumes "distinct (map job_key rows)"
  shows "job_at (delete_undeclared p kd ids rows) (q, j) = (case job_at rows (q, j) of None \<Rightarrow> None
    | Some r \<Rightarrow> if q = p \<and> jr_kind r = kd \<and> j \<notin> set ids then None else Some r)"
proof (cases "job_at rows (q, j)")
  case None
  then show ?thesis by (simp add: delete_undeclared_def job_at_filter [OF assms])
next
  case (Some r)
  then have "jr_package r = q" "jr_job r = j" using job_at_SomeD [OF Some] by (auto simp: job_key_def)
  then show ?thesis using Some by (auto simp: delete_undeclared_def job_at_filter [OF assms])
qed

lemma table_ok_delete: "table_ok rows \<Longrightarrow> table_ok (delete_undeclared p kd ids rows)"
  by (simp add: delete_undeclared_def table_ok_filter)

lemma job_key_new [simp]:
  "job_key (new_ordinary p ep now b) = (p, bj_id b)" "job_key (new_realtime p ep now x) = (p, rj_id x)"
  by (simp_all add: new_ordinary_def new_realtime_def job_key_def)

lemma job_at_declared:
  "job_at (map (new_ordinary p ep now) js) (q, j) =
     (if q = p then map_option (new_ordinary p ep now) (find (\<lambda>b. bj_id b = j) js) else None)"
  by (induction js) auto

lemma validate_background_jobs_ok:
  "validate_background_jobs seen js = Inr () \<longleftrightarrow> (\<forall>b\<in>set js. job_id_ok (bj_id b) \<and> 5 \<le> bj_minutes b \<and> bj_minutes b \<le> 1440)
     \<and> distinct (map bj_id js) \<and> bj_id ` set js \<inter> set seen = {}"
  by (induction js arbitrary: seen) auto

lemma validate_jobs_ok:
  assumes "validate_jobs api background rts = Inr ()"
  shows "(\<forall>b\<in>set (declared background). job_id_ok (bj_id b) \<and> 5 \<le> bj_minutes b \<and> bj_minutes b \<le> 1440)
    \<and> distinct (map bj_id (declared background))
    \<and> (declared rts = [] \<or> (\<exists>x. declared rts = [x] \<and> job_id_ok (rj_id x) \<and> 5 \<le> rj_seconds x \<and> rj_seconds x \<le> 60
         \<and> rj_id x \<notin> bj_id ` set (declared background)))"
proof -
  have "(\<forall>b\<in>set (declared background). job_id_ok (bj_id b) \<and> 5 \<le> bj_minutes b \<and> bj_minutes b \<le> 1440)
      \<and> distinct (map bj_id (declared background))"
    using assms by (cases background) (auto simp: validate_jobs_def declared_def validate_background_jobs_ok)
  moreover have "declared rts = [] \<or> (\<exists>x. declared rts = [x] \<and> job_id_ok (rj_id x) \<and> 5 \<le> rj_seconds x \<and> rj_seconds x \<le> 60
         \<and> rj_id x \<notin> bj_id ` set (declared background))"
    using assms by (cases rts; cases background) (auto simp: validate_jobs_def declared_def split: list.splits)
  ultimately show ?thesis by blast
qed

definition synced_row ::
    "string \<Rightarrow> uuid option \<Rightarrow> instant \<Rightarrow> background_job list \<Rightarrow> realtime_job list \<Rightarrow> string \<Rightarrow> job_row option \<Rightarrow> job_row option" where
  "synced_row p ep now js rt j old =
     (case find (\<lambda>b. bj_id b = j) js of
        Some b \<Rightarrow> Some (merged ep (new_ordinary p ep now b) old)
      | None \<Rightarrow> (case find (\<lambda>x. rj_id x = j) rt of
          None \<Rightarrow> None
        | Some x \<Rightarrow> Some (merged ep (new_realtime p ep now x)
            (case old of None \<Rightarrow> None | Some r \<Rightarrow> if jr_kind r = realtime then old else None))))"

lemma find_Some: "find P xs = Some x \<Longrightarrow> x \<in> set xs \<and> P x"
  by (induction xs) (auto split: if_splits)

lemma find_None_image: "find (\<lambda>x. f x = j) xs = None \<longleftrightarrow> j \<notin> f ` set xs"
  by (induction xs) auto

lemma sync_rows:
  assumes "table_ok rows"
    and bg: "\<forall>b\<in>set js. job_id_ok (bj_id b) \<and> 5 \<le> bj_minutes b \<and> bj_minutes b \<le> 1440" "distinct (map bj_id js)"
    and rt: "rt = [] \<or> (\<exists>x. rt = [x] \<and> job_id_ok (rj_id x) \<and> 5 \<le> rj_seconds x \<and> rj_seconds x \<le> 60 \<and> rj_id x \<notin> bj_id ` set js)"
  shows "\<exists>rows1 rows'. upsert_all (Some e) (map (new_ordinary p (Some e) now) js) rows = Inr rows1
    \<and> upsert_all (Some e) (map (new_realtime p (Some e) now) rt)
        (delete_undeclared p realtime (map rj_id rt) (delete_undeclared p ordinary (map bj_id js) rows1)) = Inr rows'
    \<and> table_ok rows'
    \<and> (\<forall>q j. job_at rows' (q, j) = (if q = p then synced_row p (Some e) now js rt j (job_at rows (p, j)) else job_at rows (q, j)))"
proof -
  have kd: "ordinary \<noteq> realtime" by (simp add: ordinary_def realtime_def)
  have ok: "\<forall>n\<in>set (map (new_ordinary p (Some e) now) js). row_ok n \<and> jr_epoch n = Some e \<and> jr_kind n = ordinary"
    using bg(1) by (auto simp: new_ordinary_def row_ok_def)
  have "distinct (map job_key (map (new_ordinary p (Some e) now) js))"
    using bg(2) by (simp add: comp_def distinct_map inj_on_def)
  then obtain rows1 where r1: "upsert_all (Some e) (map (new_ordinary p (Some e) now) js) rows = Inr rows1" "table_ok rows1"
    "\<forall>k. job_at rows1 k = (case job_at (map (new_ordinary p (Some e) now) js) k of None \<Rightarrow> job_at rows k
       | Some n \<Rightarrow> Some (merged (Some e) n (job_at rows k)))"
    using upsert_all_ordinary [OF assms(1) ok] by blast
  define rows2 where "rows2 = delete_undeclared p realtime (map rj_id rt) (delete_undeclared p ordinary (map bj_id js) rows1)"
  have t2: "table_ok rows2" by (simp add: rows2_def table_ok_delete r1(2))
  have d: "distinct (map job_key rows1)" "distinct (map job_key (delete_undeclared p ordinary (map bj_id js) rows1))"
    using r1(2) table_ok_delete [OF r1(2)] by (simp_all add: table_ok_def)
  have kinds: "jr_kind r = ordinary \<or> jr_kind r = realtime" if "job_at rows k = Some r" for k r
    using table_ok_row [OF assms(1) that] by (simp add: row_ok_def) blast
  have at2: "job_at rows2 (q, j) = (if q \<noteq> p then job_at rows (q, j) else case find (\<lambda>b. bj_id b = j) js of
      Some b \<Rightarrow> Some (merged (Some e) (new_ordinary p (Some e) now b) (job_at rows (p, j)))
    | None \<Rightarrow> (case job_at rows (p, j) of None \<Rightarrow> None
        | Some r \<Rightarrow> if jr_kind r = realtime \<and> j \<in> set (map rj_id rt) then Some r else None))" for q j
  proof (cases "q = p")
    case False
    then show ?thesis
      using spec [OF r1(3), of "(q, j)"]
      by (cases "job_at rows (q, j)") (simp_all add: rows2_def job_at_delete [OF d(2)] job_at_delete [OF d(1)] job_at_declared)
  next
    case True
    show ?thesis
    proof (cases "find (\<lambda>b. bj_id b = j) js")
      case None
      then have "j \<notin> set (map bj_id js)" by (auto simp: find_None_iff)
      then show ?thesis
        using True None spec [OF r1(3), of "(p, j)"] kinds [of "(p, j)"] kd
        by (cases "job_at rows (p, j)") (auto simp: rows2_def job_at_delete [OF d(2)] job_at_delete [OF d(1)] job_at_declared)
    next
      case (Some b)
      have "j \<in> set (map bj_id js)" using find_Some [OF Some] by auto
      then show ?thesis
        using True Some spec [OF r1(3), of "(p, j)"] kd
        by (simp add: rows2_def job_at_delete [OF d(2)] job_at_delete [OF d(1)] job_at_declared new_ordinary_def)
    qed
  qed
  have at_nil: "job_at rows2 (q, j) = (if q = p then synced_row p (Some e) now js rt j (job_at rows (p, j)) else job_at rows (q, j))"
    if "rt = []" for q j
    using that at2 [of q j] by (auto simp: synced_row_def split: option.splits)
  show ?thesis
  proof (cases "rt = []")
    case True
    then show ?thesis using r1(1) t2 at_nil by (intro exI [of _ rows1] exI [of _ rows2]) (simp add: rows2_def)
  next
    case False
    then obtain x where x: "rt = [x]" "job_id_ok (rj_id x)" "5 \<le> rj_seconds x" "rj_seconds x \<le> 60" "rj_id x \<notin> bj_id ` set js"
      using rt by blast
    define n where "n = new_realtime p (Some e) now x"
    have nx: "find (\<lambda>b. bj_id b = rj_id x) js = None" using x(5) by (force simp: find_None_iff)
    have "row_ok n" using x by (simp add: n_def new_realtime_def row_ok_def)
    moreover have "j = jr_job n" if "job_at rows2 (jr_package n, j) = Some r" "jr_kind r = realtime" for j r
      using that at2 [of p j] kd x(1)
      by (auto simp: n_def new_realtime_def new_ordinary_def split: option.splits if_splits)
    ultimately have t3: "table_ok (upsert_row (Some e) n rows2)"
      using t2 by (intro upsert_table_ok) (auto simp: n_def new_realtime_def)
    have "job_at (upsert_row (Some e) n rows2) (q, j) =
        (if q = p then synced_row p (Some e) now js rt j (job_at rows (p, j)) else job_at rows (q, j))" for q j
      using at2 [of q j] nx x(1)
      by (cases "job_at rows (p, j)"; cases "find (\<lambda>b. bj_id b = j) js") (auto simp: job_at_upsert n_def synced_row_def)
    then show ?thesis using r1(1) t3 x(1)
      by (intro exI [of _ rows1] exI [of _ "upsert_row (Some e) n rows2"]) (simp add: rows2_def n_def Let_def)
  qed
qed

lemma synced_row_Some:
  assumes "synced_row p (Some e) now js rt j old = Some r'"
  shows "jr_epoch r' = Some e
    \<and> ((\<exists>b\<in>set js. bj_id b = j \<and> jr_kind r' = ordinary \<and> jr_minutes r' = Some (bj_minutes b) \<and> jr_seconds r' = None)
       \<or> (\<exists>x\<in>set rt. rj_id x = j \<and> jr_kind r' = realtime \<and> jr_seconds r' = Some (rj_seconds x) \<and> jr_minutes r' = None))"
  using assms
  by (auto simp: synced_row_def merged_def merged_row_def new_ordinary_def new_realtime_def dest!: find_Some split: option.splits)

lemma synced_row_None: "synced_row p ep now js rt j old = None \<longleftrightarrow> j \<notin> bj_id ` set js \<and> j \<notin> rj_id ` set rt"
  by (cases "find (\<lambda>b. bj_id b = j) js"; cases "find (\<lambda>x. rj_id x = j) rt")
    (use find_None_image [of bj_id j js] find_None_image [of rj_id j rt] in \<open>simp_all add: synced_row_def\<close>)

lemma synced_row_survivor:
  "synced_row p (Some e) now js rt j (Some r) = Some r' \<Longrightarrow> jr_epoch r = Some e \<Longrightarrow> jr_kind r' = jr_kind r \<Longrightarrow>
     jr_next_run r' = jr_next_run r \<and> jr_token r' = jr_token r \<and> jr_last_run r' = jr_last_run r"
  by (auto simp: synced_row_def merged_def merged_row_def new_realtime_def ordinary_def realtime_def split: option.splits if_splits)

lemma synced_row_fresh:
  assumes "synced_row p (Some e) now js rt j old = Some r'" and "\<forall>r. old = Some r \<longrightarrow> jr_epoch r \<noteq> Some e"
  shows "jr_next_run r' = now + job_interval r' \<and> jr_token r' = None"
  using assms
  by (auto simp: synced_row_def merged_def merged_row_def new_ordinary_def new_realtime_def job_interval_def minute_def
      split: option.splits if_splits)

text \<open>Reconciling an installed package always succeeds when its manifest passed the job checks, and afterwards the
  package's rows are exactly its declared jobs, in the current activation; other packages' rows are untouched and the
  table's constraints hold. A job that stays in the same activation keeps its cursor, its claim and its history; a job that
  is new, or belongs to another activation, is unclaimed and due an interval from now.\<close>

theorem sync_installed_exact:
  assumes "table_ok rows" and "filter (\<lambda>i. ip_package i = p) installed = [inst]"
    and "ip_jobs inst = Some (background, rts)" and "validate_jobs api background rts = Inr ()" and "ip_epoch inst = Some e"
  shows "\<exists>rows'. sync_jobs installed p given allow now rows = Inr rows' \<and> table_ok rows'
    \<and> (\<forall>q j. q \<noteq> p \<longrightarrow> job_at rows' (q, j) = job_at rows (q, j))
    \<and> (\<forall>j. job_at rows' (p, j) \<noteq> None \<longleftrightarrow> j \<in> bj_id ` set (declared background) \<union> rj_id ` set (declared rts))
    \<and> (\<forall>j r'. job_at rows' (p, j) = Some r' \<longrightarrow> jr_epoch r' = Some e
        \<and> ((\<exists>b\<in>set (declared background). bj_id b = j \<and> jr_kind r' = ordinary \<and> jr_minutes r' = Some (bj_minutes b) \<and> jr_seconds r' = None)
         \<or> (\<exists>x\<in>set (declared rts). rj_id x = j \<and> jr_kind r' = realtime \<and> jr_seconds r' = Some (rj_seconds x) \<and> jr_minutes r' = None)))
    \<and> (\<forall>j r r'. job_at rows (p, j) = Some r \<and> job_at rows' (p, j) = Some r' \<and> jr_epoch r = Some e \<and> jr_kind r' = jr_kind r
        \<longrightarrow> jr_next_run r' = jr_next_run r \<and> jr_token r' = jr_token r \<and> jr_last_run r' = jr_last_run r)
    \<and> (\<forall>j r'. job_at rows' (p, j) = Some r' \<and> (\<forall>r. job_at rows (p, j) = Some r \<longrightarrow> jr_epoch r \<noteq> Some e)
        \<longrightarrow> jr_next_run r' = now + job_interval r' \<and> jr_token r' = None)"
proof -
  note v = validate_jobs_ok [OF assms(4)]
  obtain rows' where s: "sync_jobs installed p given allow now rows = Inr rows'" "table_ok rows'"
    and at: "\<forall>q j. job_at rows' (q, j) = (if q = p
      then synced_row p (Some e) now (declared background) (declared rts) j (job_at rows (p, j)) else job_at rows (q, j))"
    using sync_rows [OF assms(1) conjunct1 [OF v] conjunct1 [OF conjunct2 [OF v]] conjunct2 [OF conjunct2 [OF v]], of e p now]
    by (auto simp: sync_jobs_def assms(2,3,5))
  have p: "job_at rows' (p, j) = synced_row p (Some e) now (declared background) (declared rts) j (job_at rows (p, j))" for j
    using at by simp
  have "\<forall>j. job_at rows' (p, j) \<noteq> None \<longleftrightarrow> j \<in> bj_id ` set (declared background) \<union> rj_id ` set (declared rts)"
    unfolding p synced_row_None by simp
  moreover have "\<forall>q j. q \<noteq> p \<longrightarrow> job_at rows' (q, j) = job_at rows (q, j)" using at by simp
  ultimately show ?thesis
    using s p synced_row_survivor synced_row_fresh synced_row_Some
    by (intro exI [of _ rows'] conjI) (simp_all, metis+)
qed

text \<open>The package drops its realtime job and slows the other one down, within one activation.\<close>

definition slower_package :: installed_package where
  "slower_package = \<lparr>ip_package = ''weather'', ip_jobs = Some (Some [\<lparr>bj_id = ''refresh'', bj_minutes = 10\<rparr>], None),
     ip_epoch = Some epoch_1\<rparr>"

lemma example_jobs_ok: "table_ok example_jobs"
  by (simp add: example_jobs_def table_ok_def row_ok_def job_id_ok_def new_ordinary_def new_realtime_def ordinary_def
      realtime_def job_key_def)

theorem sync_installed_exact_witness:
  "\<exists>rows'. sync_jobs [slower_package] ''weather'' [] False 0 example_jobs = Inr rows'
     \<and> job_at rows' (''weather'', ''tick'') = None \<and> job_at rows' (''weather'', ''refresh'') \<noteq> None"
proof -
  have "validate_jobs 4 (Some [\<lparr>bj_id = ''refresh'', bj_minutes = 10\<rparr>]) None = Inr ()" by code_simp
  note v = this
  have one: "filter (\<lambda>i. ip_package i = ''weather'') [slower_package] = [slower_package]" by (simp add: slower_package_def)
  have jobs: "ip_jobs slower_package = Some (Some [\<lparr>bj_id = ''refresh'', bj_minutes = 10\<rparr>], None)"
    and e: "ip_epoch slower_package = Some epoch_1"
    by (simp_all add: slower_package_def)
  obtain rows' where r: "sync_jobs [slower_package] ''weather'' [] False 0 example_jobs = Inr rows'"
    and ids: "\<forall>j. job_at rows' (''weather'', j) \<noteq> None \<longleftrightarrow> j \<in> bj_id ` set (declared (Some [\<lparr>bj_id = ''refresh'', bj_minutes = 10\<rparr>]))
      \<union> rj_id ` set (declared (None :: realtime_job list option))"
    using sync_installed_exact [OF example_jobs_ok one jobs v e, of "[]" False 0]
    by (elim exE conjE) (rule that; assumption)
  have "job_at rows' (''weather'', ''tick'') = None" using ids [rule_format, of "''tick''"] by (simp add: declared_def)
  moreover have "job_at rows' (''weather'', ''refresh'') \<noteq> None"
    using ids [rule_format, of "''refresh''"] by (simp add: declared_def)
  ultimately show ?thesis using r by blast
qed

end
