(* ===== verification/Notify.thy ===== *)
theory Notify
  imports GoTime GoValues
begin

text \<open>
  Notification policy: \<open>apps/server/internal/notify/notify.go\<close>. Severity floors, the parsed settings, quiet hours, the
  daily digest, when a delivery is due, the delay before a retry and the bound on stored bodies. Sending, the webhook
  and SMTP clients and the delivery tables are not here.
\<close>

section \<open>Library functions\<close>

text \<open>\<open>strings.SplitN\<close> by one character, and \<open>strconv.Atoi\<close>.\<close>

fun split_n :: "nat \<Rightarrow> char \<Rightarrow> string \<Rightarrow> string list" where
  "split_n 0 c s = []"
| "split_n (Suc 0) c s = [s]"
| "split_n (Suc (Suc n)) c s =
     (case cut_after c s of None \<Rightarrow> [s] | Some rest \<Rightarrow> cut_before c s # split_n (Suc n) c rest)"

definition digits_value :: "string \<Rightarrow> int" where
  "digits_value s = foldl (\<lambda>n c. 10 * n + digit_val c) 0 s"

definition atoi :: "string \<Rightarrow> int option" where
  "atoi s =
     (let neg = has_prefix s ''-''; ds = (if neg \<or> has_prefix s ''+'' then tl s else s);
          n = (if neg then - digits_value ds else digits_value ds)
      in if ds = [] \<or> \<not> list_all is_digit ds \<or> \<not> int64_range n then None else Some n)"

text \<open>\<open>int(v)\<close> of a \<open>float64\<close> truncates; outside the range of \<open>int\<close> the result is the implementation's (\<open>oor\<close>).\<close>

definition int_of_float :: "(gofloat \<Rightarrow> int) \<Rightarrow> gofloat \<Rightarrow> int" where
  "int_of_float oor f =
     (case f of
        Finite m e \<Rightarrow>
          (let n = (if 0 \<le> e then m * 2 ^ nat e else go_div m (2 ^ nat (- e))) in if int64_range n then n else oor f)
      | _ \<Rightarrow> oor f)"

section \<open>Severities\<close>

definition category_incident :: string where "category_incident = ''incident''"
definition category_content_health :: string where "category_content_health = ''content_health''"
definition category_backup :: string where "category_backup = ''backup''"
definition category_update :: string where "category_update = ''update''"

definition severity_ranks :: "(string \<times> nat) list" where
  "severity_ranks = [(''info'', 0), (''warning'', 1), (''error'', 2), (''critical'', 3)]"

text \<open>Reading a missing key of a Go map gives zero.\<close>

definition severity_rank :: "string \<Rightarrow> nat" where
  "severity_rank s = (case map_of severity_ranks s of None \<Rightarrow> 0 | Some n \<Rightarrow> n)"

definition severity_at_least :: "string \<Rightarrow> string \<Rightarrow> bool" where
  "severity_at_least severity minimum \<longleftrightarrow> severity_rank minimum \<le> severity_rank severity"

section \<open>Settings\<close>

record config =
  cf_smtp_host :: string
  cf_smtp_port :: int
  cf_smtp_username :: string
  cf_smtp_password :: string
  cf_smtp_tls :: string
  cf_smtp_timeout :: duration
  cf_smtp_allow_insecure :: bool
  cf_smtp_allow_plaintext_auth :: bool
  cf_public_url :: string
  cf_max_attempts :: int
  cf_webhook_timeout :: duration
  cf_max_webhooks :: int
  cf_max_body :: int

definition email_configured :: "config \<Rightarrow> bool" where
  "email_configured c \<longleftrightarrow> trim_space (cf_smtp_host c) \<noteq> []"

definition default_config :: config where
  "default_config = \<lparr>cf_smtp_host = [], cf_smtp_port = 587, cf_smtp_username = [], cf_smtp_password = [],
     cf_smtp_tls = ''starttls'', cf_smtp_timeout = 20 * second, cf_smtp_allow_insecure = False,
     cf_smtp_allow_plaintext_auth = False, cf_public_url = [], cf_max_attempts = 6, cf_webhook_timeout = 15 * second,
     cf_max_webhooks = 20, cf_max_body = 16384\<rparr>"

record settings =
  st_enabled :: bool
  st_from_address :: string
  st_from_name :: string
  st_minimum :: string
  st_digest_hour :: int
  st_digest_minute :: int
  st_location :: location
  st_quiet_enabled :: bool
  st_quiet_start :: int
  st_quiet_end :: int
  st_retention_days :: int

datatype settings_error = DigestClock | QuietStartClock | QuietEndClock

definition bool_setting :: "json gomap \<Rightarrow> string \<Rightarrow> bool \<Rightarrow> bool" where
  "bool_setting vs k fallback = (case map_of vs k of Some (JBool b) \<Rightarrow> b | _ \<Rightarrow> fallback)"

definition string_setting :: "json gomap \<Rightarrow> string \<Rightarrow> string \<Rightarrow> string" where
  "string_setting vs k fallback = (case map_of vs k of Some (JStr s) \<Rightarrow> if s \<noteq> [] then s else fallback | _ \<Rightarrow> fallback)"

definition int_setting :: "(gofloat \<Rightarrow> int) \<Rightarrow> json gomap \<Rightarrow> string \<Rightarrow> int \<Rightarrow> int" where
  "int_setting oor vs k fallback =
     (case map_of vs k of Some (JNum f) \<Rightarrow> int_of_float oor f | Some (JInt n) \<Rightarrow> n | _ \<Rightarrow> fallback)"

definition parse_minutes :: "string \<Rightarrow> int option" where
  "parse_minutes value =
     (case split_n 3 (CHR '':'') (trim_space value) of
        h # m # _ \<Rightarrow>
          (case atoi h of None \<Rightarrow> None
           | Some hr \<Rightarrow> if hr < 0 \<or> 23 < hr then None
             else (case atoi m of None \<Rightarrow> None
                   | Some mi \<Rightarrow> if mi < 0 \<or> 59 < mi then None else Some (hr * 60 + mi)))
      | _ \<Rightarrow> None)"

definition clock_setting :: "json gomap \<Rightarrow> string \<Rightarrow> string \<Rightarrow> settings_error \<Rightarrow> settings_error + int" where
  "clock_setting vs k fallback e = (case parse_minutes (string_setting vs k fallback) of None \<Rightarrow> Inl e | Some n \<Rightarrow> Inr n)"

definition parse_settings ::
    "tz_database \<Rightarrow> location \<Rightarrow> (gofloat \<Rightarrow> int) \<Rightarrow> json gomap \<Rightarrow> settings_error + settings" where
  "parse_settings tzdb local oor vs =
     (let minimum0 = string_setting vs ''notifications.minimum_severity'' ''warning'';
          minimum = (if map_has severity_ranks minimum0 then minimum0 else ''warning'');
          loc = (case load_location tzdb local (string_setting vs ''notifications.timezone'' ''UTC'') of
                   None \<Rightarrow> utc | Some l \<Rightarrow> l)
      in andthen (clock_setting vs ''notifications.digest_time'' ''07:30'' DigestClock) (\<lambda>digest.
         andthen (clock_setting vs ''notifications.quiet_hours_start'' ''20:00'' QuietStartClock) (\<lambda>start.
         andthen (clock_setting vs ''notifications.quiet_hours_end'' ''06:30'' QuietEndClock) (\<lambda>finish.
           Inr \<lparr>st_enabled = bool_setting vs ''notifications.enabled'' False,
                st_from_address = trim_space (string_setting vs ''notifications.from_address'' []),
                st_from_name = string_setting vs ''notifications.from_name'' ''Tilecast'',
                st_minimum = minimum, st_digest_hour = digest div 60, st_digest_minute = digest mod 60,
                st_location = loc, st_quiet_enabled = bool_setting vs ''notifications.quiet_hours_enabled'' False,
                st_quiet_start = start, st_quiet_end = finish,
                st_retention_days = int_setting oor vs ''notifications.retention_days'' 90\<rparr>))))"

section \<open>When a delivery is due\<close>

definition in_quiet_hours :: "settings \<Rightarrow> instant \<Rightarrow> bool" where
  "in_quiet_hours s t \<longleftrightarrow>
     (if \<not> st_quiet_enabled s \<or> st_quiet_start s = st_quiet_end s then False
      else (let minutes = hour_in (st_location s) t * 60 + minute_in (st_location s) t
            in if st_quiet_start s < st_quiet_end s
               then st_quiet_start s \<le> minutes \<and> minutes < st_quiet_end s
               else st_quiet_start s \<le> minutes \<or> minutes < st_quiet_end s))"

definition quiet_hours_end :: "settings \<Rightarrow> instant \<Rightarrow> instant" where
  "quiet_hours_end s t =
     (let loc = st_location s; e = go_date loc (date_in loc t) (st_quiet_end s div 60) (st_quiet_end s mod 60)
      in if \<not> t < e then add_date loc e 1 else e)"

definition next_digest :: "settings \<Rightarrow> instant \<Rightarrow> instant" where
  "next_digest s t =
     (let loc = st_location s; n = go_date loc (date_in loc t) (st_digest_hour s) (st_digest_minute s)
      in if \<not> t < n then add_date loc n 1 else n)"

definition schedule_for :: "settings \<Rightarrow> string \<Rightarrow> string \<Rightarrow> instant \<Rightarrow> instant" where
  "schedule_for s mode severity now =
     (if severity = ''critical'' then now
      else if mode = ''digest'' then next_digest s now
      else if in_quiet_hours s now then quiet_hours_end s now
      else now)"

definition backoff :: "int \<Rightarrow> duration" where
  "backoff attempts =
     (let a = (if attempts < 1 then 1 else attempts); a' = (if 6 < a then 6 else a) in 2 ^ nat (a' - 1) * minute)"

section \<open>Bounded bodies\<close>

definition rune_start :: "char \<Rightarrow> bool" where
  "rune_start c \<longleftrightarrow> of_char c div 64 \<noteq> (2 :: nat)"

fun cut_point :: "string \<Rightarrow> nat \<Rightarrow> nat" where
  "cut_point value 0 = 0"
| "cut_point value (Suc n) = (if \<not> rune_start (value ! Suc n) then cut_point value n else Suc n)"

definition truncate_body :: "string \<Rightarrow> int \<Rightarrow> string" where
  "truncate_body value limit =
     (if limit \<le> 0 \<or> int (length value) \<le> limit then value
      else take (cut_point value (nat limit)) value @ char_of (10 :: nat) # ''[truncated]'')"

section \<open>Lemmas\<close>

text \<open>In a zone with a constant offset, the time of day in nanoseconds.\<close>

definition day_length :: duration where "day_length = 86400 * second"

definition wall :: "int \<Rightarrow> instant \<Rightarrow> duration" where
  "wall off t = (t + off * second) mod day_length"

lemma wall_range: "0 \<le> wall off t" "wall off t < day_length"
  by (simp_all add: wall_def day_length_def second_def)

lemma wall_later:
  assumes "0 \<le> d" "d < day_length"
  shows "wall off (t + d) = (if wall off t + d < day_length then wall off t + d else wall off t + d - day_length)"
proof -
  have "wall off (t + d) = (wall off t + d) mod day_length"
    unfolding wall_def by (simp add: mod_simps ac_simps)
  moreover have "(wall off t + d) mod day_length = wall off t + d - day_length" if "day_length \<le> wall off t + d"
  proof -
    have "(wall off t + d - day_length) mod day_length = wall off t + d - day_length"
      by (rule mod_pos_pos_trivial) (use that wall_range [of off t] assms in linarith)+
    then show ?thesis by simp
  qed
  ultimately show ?thesis using wall_range [of off t] assms by simp
qed

lemma local_seconds_fixed:
  assumes "loc_offset loc = (\<lambda>_. off)"
  shows "local_seconds loc t = (t + off * second) div second"
  by (simp add: local_seconds_def unix_def assms second_def)

lemma local_day_fixed:
  assumes "loc_offset loc = (\<lambda>_. off)"
  shows "local_day loc t = (t + off * second) div day_length"
proof -
  have "(t + off * second) div second div 86400 = (t + off * second) div (second * 86400)"
    by (rule zdiv_zmult2_eq [symmetric]) simp
  then show ?thesis by (simp add: local_day_def local_seconds_fixed [OF assms] day_length_def mult.commute)
qed

lemma local_day_wall:
  assumes "loc_offset loc = (\<lambda>_. off)"
  shows "local_day loc t * day_length = t + off * second - wall off t"
  by (simp add: local_day_fixed [OF assms] wall_def minus_mod_eq_div_mult)

lemma go_date_wall:
  assumes "loc_offset loc = (\<lambda>_. off)"
  shows "go_date loc (date_in loc t) h mi = t - wall off t + (h * 60 + mi) * minute"
proof -
  obtain y m d where e: "date_in loc t = (y, m, d)" by (cases "date_in loc t")
  have "go_date loc (date_in loc t) h mi = local_day loc t * day_length + (h * 60 + mi) * minute - off * second"
    by (simp add: go_date_def e go_time_fixed [OF assms] days_of_date_in [OF e] day_length_def minute_def
        left_diff_distrib distrib_right)
  then show ?thesis by (simp add: local_day_wall [OF assms])
qed

lemma add_date_fixed:
  assumes "loc_offset loc = (\<lambda>_. off)"
  shows "add_date loc t k = t + k * day_length"
proof -
  obtain y m d where e: "date_in loc t = (y, m, d)" by (cases "date_in loc t")
  have s: "local_seconds loc t = local_day loc t * 86400 + local_seconds loc t mod 86400"
    by (simp add: local_day_def)
  have "add_date loc t k = (local_day loc t * 86400 + local_seconds loc t mod 86400 + k * 86400 - off) * second + t mod second"
    by (simp add: add_date_def e go_time_fixed [OF assms] days_from_civil_add_day days_of_date_in [OF e] algebra_simps)
  also have "\<dots> = (local_seconds loc t + k * 86400 - off) * second + t mod second"
    by (subst (2) s) simp
  also have "\<dots> = t + k * day_length"
    by (simp add: local_seconds_def unix_def assms day_length_def algebra_simps)
  finally show ?thesis .
qed

text \<open>The next instant at a time of day.\<close>

lemma next_wall:
  assumes "loc_offset loc = (\<lambda>_. off)" "0 \<le> c" "c < 1440"
  shows "(let e = go_date loc (date_in loc t) (c div 60) (c mod 60) in if \<not> t < e then add_date loc e 1 else e)
    = t + (if wall off t < c * minute then c * minute - wall off t else c * minute - wall off t + day_length)"
proof -
  have "c div 60 * 60 + c mod 60 = c" by simp
  then have "go_date loc (date_in loc t) (c div 60) (c mod 60) = t - wall off t + c * minute"
    using go_date_wall [OF assms(1), of t "c div 60" "c mod 60"] by metis
  then show ?thesis by (simp add: Let_def add_date_fixed [OF assms(1)])
qed

lemma minutes_wall:
  assumes "loc_offset loc = (\<lambda>_. off)"
  shows "hour_in loc t * 60 + minute_in loc t = wall off t div minute"
proof -
  define L where "L = local_seconds loc t"
  have ranges: "0 \<le> L mod 86400 div 3600" "L mod 86400 div 3600 < 24" "0 \<le> L mod 3600 div 60" "L mod 3600 div 60 < 60"
    by (simp_all add: int_div_less_iff)
  have "L div 60 = L div 86400 * 1440 + L mod 86400 div 3600 * 60 + L mod 3600 div 60"
    using minute_split [OF ranges, of L "L div 86400"] by (simp only: simp_thms)
  then have m: "hour_in loc t * 60 + minute_in loc t = L div 60 - L div 86400 * 1440"
    by (simp add: hour_in_def minute_in_def L_def)
  let ?x = "t + off * second"
  have "L div 60 = ?x div minute"
    using zdiv_zmult2_eq [of 60 ?x second] by (simp add: L_def local_seconds_fixed [OF assms] minute_def mult.commute)
  moreover have "L div 86400 = ?x div day_length"
    using local_day_fixed [OF assms, of t] by (simp add: local_day_def L_def)
  moreover have "?x div minute = ?x div day_length * 1440 + wall off t div minute"
  proof -
    have "q * day_length = (q * 1440) * minute" for q by (simp add: day_length_def minute_def)
    moreover have "?x div day_length * day_length + wall off t = ?x"
      unfolding wall_def by (rule div_mult_mod_eq)
    ultimately have "?x = wall off t + (?x div day_length * 1440) * minute" by (metis add.commute)
    then have "?x div minute = (wall off t + (?x div day_length * 1440) * minute) div minute" by simp
    also have "\<dots> = ?x div day_length * 1440 + wall off t div minute"
      by (rule div_mult_self1) (simp add: minute_def second_def)
    finally show ?thesis .
  qed
  ultimately show ?thesis using m by simp
qed

definition settings_ok :: "settings \<Rightarrow> bool" where
  "settings_ok s \<longleftrightarrow> 0 \<le> st_quiet_start s \<and> st_quiet_start s < 1440 \<and> 0 \<le> st_quiet_end s \<and> st_quiet_end s < 1440
     \<and> 0 \<le> st_digest_hour s \<and> st_digest_hour s < 24 \<and> 0 \<le> st_digest_minute s \<and> st_digest_minute s < 60
     \<and> map_has severity_ranks (st_minimum s)"

lemma minute_pos: "0 < minute"
  by (simp add: minute_def second_def)

lemma in_quiet_hours_wall:
  assumes "loc_offset (st_location s) = (\<lambda>_. off)"
  shows "in_quiet_hours s t \<longleftrightarrow> st_quiet_enabled s \<and> st_quiet_start s \<noteq> st_quiet_end s \<and>
    (if st_quiet_start s < st_quiet_end s
     then st_quiet_start s * minute \<le> wall off t \<and> wall off t < st_quiet_end s * minute
     else st_quiet_start s * minute \<le> wall off t \<or> wall off t < st_quiet_end s * minute)"
  by (simp add: in_quiet_hours_def Let_def minutes_wall [OF assms] int_le_div_iff [OF minute_pos]
      int_div_less_iff [OF minute_pos])

lemma minutes_bound: "n < 1440 \<Longrightarrow> n * minute < day_length"
  by (simp add: day_length_def minute_def second_def)

lemma quiet_hours_end_exact:
  assumes loc: "loc_offset (st_location s) = (\<lambda>_. off)" and ok: "settings_ok s" and q: "in_quiet_hours s now"
  shows "now < quiet_hours_end s now \<and> \<not> in_quiet_hours s (quiet_hours_end s now)
    \<and> (\<forall>t. now \<le> t \<and> t < quiet_hours_end s now \<longrightarrow> in_quiet_hours s t)"
proof -
  define a where "a = st_quiet_start s * minute"
  define e where "e = st_quiet_end s * minute"
  define w where "w = wall off now"
  have r: "0 \<le> a" "a < day_length" "0 \<le> e" "e < day_length" "0 \<le> w" "w < day_length"
    using ok minutes_bound minute_pos wall_range by (simp_all add: settings_ok_def a_def e_def w_def)
  have lt: "st_quiet_start s < st_quiet_end s \<longleftrightarrow> a < e" "st_quiet_start s = st_quiet_end s \<longleftrightarrow> a = e"
    using minute_pos by (simp_all add: a_def e_def)
  have on: "st_quiet_enabled s" "a \<noteq> e" and w: "if a < e then a \<le> w \<and> w < e else a \<le> w \<or> w < e"
    using q unfolding in_quiet_hours_wall [OF loc] lt a_def [symmetric] e_def [symmetric] w_def [symmetric] by simp_all
  have quiet: "in_quiet_hours s t \<longleftrightarrow> (if a < e then a \<le> wall off t \<and> wall off t < e else a \<le> wall off t \<or> wall off t < e)" for t
    using on unfolding in_quiet_hours_wall [OF loc] lt a_def [symmetric] e_def [symmetric] by simp
  define d where "d = (if w < e then e - w else e - w + day_length)"
  have fin: "quiet_hours_end s now = now + d"
    using next_wall [OF loc, of "st_quiet_end s" now] ok
    by (simp add: quiet_hours_end_def settings_ok_def d_def e_def w_def Let_def)
  have d: "0 < d" "d < day_length" using r w on(2) by (auto simp: d_def split: if_splits)
  have later: "wall off (now + x) = (if w + x < day_length then w + x else w + x - day_length)" if "0 \<le> x" "x < day_length" for x
    using wall_later [OF that] by (simp add: w_def)
  have "wall off (now + d) = e" using later [of d] d r by (auto simp: d_def split: if_splits)
  then have "\<not> in_quiet_hours s (now + d)" using quiet [of "now + d"] on(2) by auto
  moreover have "in_quiet_hours s (now + x)" if "0 \<le> x" "x < d" for x
    using later [of x] that d w r unfolding quiet by (auto simp: d_def split: if_splits)
  then have "in_quiet_hours s t" if "now \<le> t" "t < now + d" for t
    using that \<open>\<And>x. 0 \<le> x \<Longrightarrow> x < d \<Longrightarrow> in_quiet_hours s (now + x)\<close> [of "t - now"] by simp
  ultimately show ?thesis using d(1) by (simp add: fin)
qed

text \<open>The time of day at which the digest goes out.\<close>

definition digest_time :: "settings \<Rightarrow> duration" where
  "digest_time s = (st_digest_hour s * 60 + st_digest_minute s) * minute"

lemma next_digest_exact:
  assumes loc: "loc_offset (st_location s) = (\<lambda>_. off)" and ok: "settings_ok s"
  shows "now < next_digest s now \<and> wall off (next_digest s now) = digest_time s
    \<and> (\<forall>t. now < t \<and> t < next_digest s now \<longrightarrow> wall off t \<noteq> digest_time s)"
proof -
  define c where "c = st_digest_hour s * 60 + st_digest_minute s"
  define e where "e = c * minute"
  define w where "w = wall off now"
  have c: "0 \<le> c" "c < 1440" "c div 60 = st_digest_hour s" "c mod 60 = st_digest_minute s"
    using ok by (auto simp: settings_ok_def c_def)
  have r: "0 \<le> e" "e < day_length" "0 \<le> w" "w < day_length"
    using c(1) minutes_bound [OF c(2)] minute_pos wall_range by (simp_all add: e_def w_def)
  define d where "d = (if w < e then e - w else e - w + day_length)"
  have fin: "next_digest s now = now + d"
    using next_wall [OF loc c(1,2), of now] by (simp add: next_digest_def c(3,4) d_def e_def w_def Let_def)
  have d: "0 < d" "d \<le> day_length" using r by (auto simp: d_def split: if_splits)
  have later: "wall off (now + x) = (if w + x < day_length then w + x else w + x - day_length)" if "0 \<le> x" "x < day_length" for x
    using wall_later [OF that] by (simp add: w_def)
  have "wall off (now + d) = e"
  proof (cases "d = day_length")
    case True
    then have "wall off (now + d) = w" by (simp add: wall_def w_def add.assoc add.left_commute [of now])
    then show ?thesis using True r by (auto simp: d_def split: if_splits)
  next
    case False
    then show ?thesis using later [of d] d r by (auto simp: d_def split: if_splits)
  qed
  moreover have "wall off t \<noteq> e" if "now < t" "t < now + d" for t
    using later [of "t - now"] that d r by (auto simp: d_def split: if_splits)
  ultimately show ?thesis using d(1) by (simp add: fin digest_time_def e_def c_def)
qed

text \<open>When a delivery is due, in a zone with a constant offset: a critical condition is never delayed; a digest
  subscriber gets it at the first digest time after now; anyone else gets it at once outside quiet hours, and inside
  them at the very end of the quiet window, so that every instant before it is quiet and it is not. Quiet hours may wrap
  around midnight.\<close>

theorem schedule_for_exact:
  assumes "fixed_offset (st_location s) off" and "settings_ok s"
  shows "(severity = ''critical'' \<longrightarrow> schedule_for s mode severity now = now)
    \<and> (severity \<noteq> ''critical'' \<and> mode = ''digest'' \<longrightarrow>
         now < schedule_for s mode severity now \<and> wall off (schedule_for s mode severity now) = digest_time s
         \<and> (\<forall>t. now < t \<and> t < schedule_for s mode severity now \<longrightarrow> wall off t \<noteq> digest_time s))
    \<and> (severity \<noteq> ''critical'' \<and> mode \<noteq> ''digest'' \<longrightarrow>
         now \<le> schedule_for s mode severity now \<and> \<not> in_quiet_hours s (schedule_for s mode severity now)
         \<and> (\<forall>t. now \<le> t \<and> t < schedule_for s mode severity now \<longrightarrow> in_quiet_hours s t))"
proof -
  have loc: "loc_offset (st_location s) = (\<lambda>_. off)" using assms(1) by (simp add: fixed_offset_def)
  note e = quiet_hours_end_exact [OF loc assms(2), of now] and d = next_digest_exact [OF loc assms(2), of now]
  show ?thesis
  proof (cases "severity = ''critical'' \<or> mode = ''digest'' \<or> \<not> in_quiet_hours s now")
    case True
    then show ?thesis using d by (auto simp: schedule_for_def)
  next
    case False
    then show ?thesis using e by (auto simp: schedule_for_def)
  qed
qed

definition school_nights :: settings where
  "school_nights = \<lparr>st_enabled = True, st_from_address = [], st_from_name = ''Tilecast'', st_minimum = ''warning'',
     st_digest_hour = 7, st_digest_minute = 30, st_location = utc, st_quiet_enabled = True,
     st_quiet_start = 1200, st_quiet_end = 390, st_retention_days = 90\<rparr>"

theorem schedule_for_exact_witness:
  "in_quiet_hours school_nights (21 * hour) \<and> \<not> in_quiet_hours school_nights (schedule_for school_nights ''immediate'' ''error'' (21 * hour))
     \<and> 21 * hour < schedule_for school_nights ''digest'' ''error'' (21 * hour)"
proof -
  have "fixed_offset (st_location school_nights) 0" "settings_ok school_nights"
    by (simp_all add: school_nights_def settings_ok_def map_has_def severity_ranks_def)
  note e = schedule_for_exact [OF this]
  have "in_quiet_hours school_nights (21 * hour)" by code_simp
  then show ?thesis
    using e [of "''error''" "''immediate''" "21 * hour"] e [of "''error''" "''digest''" "21 * hour"] by simp
qed

section \<open>Settings and bounds\<close>

lemma parse_minutes_range: "parse_minutes v = Some n \<Longrightarrow> 0 \<le> n \<and> n < 1440"
  by (auto simp: parse_minutes_def split: list.splits option.splits if_splits)

lemma clock_setting_range: "clock_setting vs k d e = Inr n \<Longrightarrow> 0 \<le> n \<and> n < 1440"
  by (auto simp: clock_setting_def parse_minutes_range split: option.splits)

lemma parse_settings_ok:
  assumes "parse_settings tzdb local oor vs = Inr s"
  shows "settings_ok s \<and> (st_location s = utc
    \<or> load_location tzdb local (string_setting vs ''notifications.timezone'' ''UTC'') = Some (st_location s))"
proof -
  define floor where "floor = string_setting vs ''notifications.minimum_severity'' ''warning''"
  have floor: "map_has severity_ranks (if map_has severity_ranks floor then floor else ''warning'')"
    by (simp add: map_has_def severity_ranks_def)
  obtain digest start finish where
      c: "clock_setting vs ''notifications.digest_time'' ''07:30'' DigestClock = Inr digest"
        "clock_setting vs ''notifications.quiet_hours_start'' ''20:00'' QuietStartClock = Inr start"
        "clock_setting vs ''notifications.quiet_hours_end'' ''06:30'' QuietEndClock = Inr finish"
    using assms by (auto simp: parse_settings_def Let_def)
  have "0 \<le> digest div 60" "digest div 60 < 24" "0 \<le> digest mod 60" "digest mod 60 < 60"
    using clock_setting_range [OF c(1)] by (simp_all add: int_div_less_iff int_le_div_iff)
  then show ?thesis
    using assms clock_setting_range [OF c(2)] clock_setting_range [OF c(3)] floor
    by (auto simp: parse_settings_def Let_def c settings_ok_def floor_def split: option.splits)
qed

lemma clock_setting_error: "clock_setting vs k d e = Inl e' \<longleftrightarrow> e' = e \<and> parse_minutes (string_setting vs k d) = None"
  by (auto simp: clock_setting_def split: option.splits)

lemma parse_settings_error:
  assumes "parse_settings tzdb local oor vs = Inl e"
  shows "e = DigestClock \<and> parse_minutes (string_setting vs ''notifications.digest_time'' ''07:30'') = None
    \<or> e = QuietStartClock \<and> parse_minutes (string_setting vs ''notifications.quiet_hours_start'' ''20:00'') = None
    \<or> e = QuietEndClock \<and> parse_minutes (string_setting vs ''notifications.quiet_hours_end'' ''06:30'') = None"
  using assms by (auto simp: parse_settings_def Let_def clock_setting_error)

text \<open>Whatever the stored values are, parsing them either names the clock that is not of the form HH:MM or gives
  settings with clocks in range and a known severity floor; an unknown zone falls back to UTC and an unknown floor to
  warning. The empty map gives the documented defaults.\<close>

theorem parse_settings_total:
  "(case parse_settings tzdb local oor vs of
      Inl e \<Rightarrow> parse_minutes (string_setting vs
        (case e of DigestClock \<Rightarrow> ''notifications.digest_time'' | QuietStartClock \<Rightarrow> ''notifications.quiet_hours_start''
         | QuietEndClock \<Rightarrow> ''notifications.quiet_hours_end'')
        (case e of DigestClock \<Rightarrow> ''07:30'' | QuietStartClock \<Rightarrow> ''20:00'' | QuietEndClock \<Rightarrow> ''06:30'')) = None
    | Inr s \<Rightarrow> settings_ok s \<and> (st_location s = utc
        \<or> load_location tzdb local (string_setting vs ''notifications.timezone'' ''UTC'') = Some (st_location s)))
   \<and> (\<exists>s. parse_settings tzdb local oor [] = Inr s \<and> \<not> st_enabled s \<and> st_minimum s = ''warning'' \<and> st_location s = utc
        \<and> (st_digest_hour s, st_digest_minute s) = (7, 30) \<and> (st_quiet_start s, st_quiet_end s) = (1200, 390))"
proof
  show "case parse_settings tzdb local oor vs of
      Inl e \<Rightarrow> parse_minutes (string_setting vs
        (case e of DigestClock \<Rightarrow> ''notifications.digest_time'' | QuietStartClock \<Rightarrow> ''notifications.quiet_hours_start''
         | QuietEndClock \<Rightarrow> ''notifications.quiet_hours_end'')
        (case e of DigestClock \<Rightarrow> ''07:30'' | QuietStartClock \<Rightarrow> ''20:00'' | QuietEndClock \<Rightarrow> ''06:30'')) = None
    | Inr s \<Rightarrow> settings_ok s \<and> (st_location s = utc
        \<or> load_location tzdb local (string_setting vs ''notifications.timezone'' ''UTC'') = Some (st_location s))"
  proof (cases "parse_settings tzdb local oor vs")
    case (Inl e)
    show ?thesis using parse_settings_error [OF Inl] unfolding Inl sum.case by auto
  next
    case (Inr s)
    show ?thesis using parse_settings_ok [OF Inr] unfolding Inr sum.case .
  qed
  have t: "trim_space ''07:30'' = ''07:30''" "trim_space ''20:00'' = ''20:00''" "trim_space ''06:30'' = ''06:30''"
    by (simp_all add: trim_space_graphic graphic_def)
  have s: "split_n 3 (CHR '':'') ''07:30'' = [''07'', ''30'']" "split_n 3 (CHR '':'') ''20:00'' = [''20'', ''00'']"
      "split_n 3 (CHR '':'') ''06:30'' = [''06'', ''30'']" "atoi ''07'' = Some 7" "atoi ''30'' = Some 30"
      "atoi ''20'' = Some 20" "atoi ''00'' = Some 0" "atoi ''06'' = Some 6"
    by code_simp+
  have "parse_minutes ''07:30'' = Some 450" "parse_minutes ''20:00'' = Some 1200" "parse_minutes ''06:30'' = Some 390"
    unfolding parse_minutes_def t by (simp_all add: s)
  then have c: "clock_setting [] ''notifications.digest_time'' ''07:30'' DigestClock = Inr 450"
      "clock_setting [] ''notifications.quiet_hours_start'' ''20:00'' QuietStartClock = Inr 1200"
      "clock_setting [] ''notifications.quiet_hours_end'' ''06:30'' QuietEndClock = Inr 390"
    by (simp_all add: clock_setting_def string_setting_def)
  have d: "string_setting [] k v = v" "bool_setting [] k b = b" for k v b
    by (simp_all add: string_setting_def bool_setting_def)
  show "\<exists>s. parse_settings tzdb local oor [] = Inr s \<and> \<not> st_enabled s \<and> st_minimum s = ''warning'' \<and> st_location s = utc
        \<and> (st_digest_hour s, st_digest_minute s) = (7, 30) \<and> (st_quiet_start s, st_quiet_end s) = (1200, 390)"
    unfolding parse_settings_def Let_def c d andthen_simps by (simp add: load_location_def)
qed

text \<open>A stored body is cut at the last rune boundary within the limit.\<close>

lemma cut_point_le: "cut_point value n \<le> n"
  by (induction n) auto

lemma cut_point_boundary: "cut_point value n = 0 \<or> rune_start (value ! cut_point value n)"
  by (induction n) auto

lemma cut_point_greatest: "cut_point value n < k \<Longrightarrow> k \<le> n \<Longrightarrow> \<not> rune_start (value ! k)"
proof (induction n)
  case (Suc n)
  then show ?case by (cases "k = Suc n") (auto split: if_splits)
qed simp

lemma truncate_body_exact:
  assumes "0 < limit" "limit < int (length value)"
  obtains k where "truncate_body value limit = take k value @ char_of (10 :: nat) # ''[truncated]''" "int k \<le> limit"
    "k = 0 \<or> rune_start (value ! k)" "\<forall>i. k < i \<and> int i \<le> limit \<longrightarrow> \<not> rune_start (value ! i)"
proof (rule that)
  show "truncate_body value limit = take (cut_point value (nat limit)) value @ char_of (10 :: nat) # ''[truncated]''"
    using assms by (simp add: truncate_body_def)
  show "int (cut_point value (nat limit)) \<le> limit" using cut_point_le [of "value" "nat limit"] assms by simp
  show "cut_point value (nat limit) = 0 \<or> rune_start (value ! cut_point value (nat limit))" by (rule cut_point_boundary)
  show "\<forall>i. cut_point value (nat limit) < i \<and> int i \<le> limit \<longrightarrow> \<not> rune_start (value ! i)"
    using cut_point_greatest [of "value" "nat limit"] by (auto simp: nat_le_iff le_nat_iff)
qed

lemma backoff_bounds: "minute \<le> backoff n \<and> backoff n \<le> 32 * minute \<and> (1 \<le> n \<and> n < 6 \<longrightarrow> backoff (n + 1) = 2 * backoff n)"
proof -
  have "n < 1 \<or> n = 1 \<or> n = 2 \<or> n = 3 \<or> n = 4 \<or> n = 5 \<or> 6 \<le> n" by presburger
  then show ?thesis using minute_pos by (elim disjE) (auto simp: backoff_def Let_def numeral_eq_Suc)
qed

text \<open>The comment at \<open>SeverityAtLeast\<close> says that an unknown severity meets every floor; the code ranks it with info.\<close>

lemma unknown_severity_is_muted: "\<not> severity_at_least ''fatal'' ''warning''"
  by (simp add: severity_at_least_def severity_rank_def severity_ranks_def)

end
