(* ===== verification/GoNet.thy ===== *)
theory GoNet
  imports GoTime GoValues
begin

text \<open>
  Go's textual IP addresses: \<open>net.ParseIP\<close>, which is \<open>netip.ParseAddr\<close> without a zone, and the predicates of
  \<open>net.IP\<close> on IPv4 addresses. An address is its sixteen bytes; an IPv4 address has the prefix of the mapped range.
\<close>

type_synonym ip_bytes = "nat list"

definition v4_prefix :: ip_bytes where
  "v4_prefix = replicate 10 0 @ [255, 255]"

text \<open>\<open>parseIPv4Fields\<close>: the fields so far, the value and the number of digits of the current one.\<close>

fun ipv4_fields :: "nat list \<Rightarrow> nat \<Rightarrow> nat \<Rightarrow> string \<Rightarrow> nat list option" where
  "ipv4_fields fs v n [] = (if length fs < 3 then None else Some (fs @ [v]))"
| "ipv4_fields fs v n (c # cs) =
     (if is_digit c then
        (if n = 1 \<and> v = 0 then None
         else (let v' = 10 * v + nat (digit_val c) in if 255 < v' then None else ipv4_fields fs v' (Suc n) cs))
      else if c = CHR ''.'' then
        (if n = 0 \<or> cs = [] \<or> length fs = 3 then None else ipv4_fields (fs @ [v]) 0 0 cs)
      else None)"

definition parse_ipv4 :: "string \<Rightarrow> nat list option" where
  "parse_ipv4 s = ipv4_fields [] 0 0 s"

definition hex_val :: "char \<Rightarrow> nat option" where
  "hex_val c =
     (if is_digit c then Some (of_char c - 48)
      else if CHR ''a'' \<le> c \<and> c \<le> CHR ''f'' then Some (of_char c - 87)
      else if CHR ''A'' \<le> c \<and> c \<le> CHR ''F'' then Some (of_char c - 55)
      else None)"

text \<open>A group of an IPv6 address: its value, the number of its digits and the rest; more than four digits are an error.\<close>

fun hex_group :: "nat \<Rightarrow> nat \<Rightarrow> string \<Rightarrow> (nat \<times> nat \<times> string) option" where
  "hex_group acc off [] = Some (acc, off, [])"
| "hex_group acc off (c # cs) =
     (case hex_val c of None \<Rightarrow> Some (acc, off, c # cs)
      | Some d \<Rightarrow> if 3 < off then None else hex_group (16 * acc + d) (Suc off) cs)"

text \<open>The loop of \<open>parseIPv6\<close>: the bytes so far, where the ellipsis stands and the rest; the result at the loop's end.\<close>

function ipv6_loop :: "ip_bytes \<Rightarrow> nat option \<Rightarrow> string \<Rightarrow> (ip_bytes \<times> nat option \<times> string) option" where
  "ipv6_loop ip ell s =
     (if 16 \<le> length ip then Some (ip, ell, s)
      else case hex_group 0 0 s of
        None \<Rightarrow> None
      | Some (acc, off, rest) \<Rightarrow>
          if off = 0 then None
          else if rest \<noteq> [] \<and> hd rest = CHR ''.'' then
            (if ell = None \<and> length ip \<noteq> 12 \<or> 16 < length ip + 4 then None
             else (case parse_ipv4 s of None \<Rightarrow> None | Some q \<Rightarrow> Some (ip @ q, ell, [])))
          else
            (let ip' = ip @ [acc div 256, acc mod 256]
             in case rest of
               [] \<Rightarrow> Some (ip', ell, [])
             | c # s1 \<Rightarrow>
                 if c \<noteq> CHR '':'' \<or> s1 = [] then None
                 else if hd s1 = CHR '':'' then
                   (if ell \<noteq> None then None
                    else if tl s1 = [] then Some (ip', Some (length ip'), [])
                    else ipv6_loop ip' (Some (length ip')) (tl s1))
                 else ipv6_loop ip' ell s1))"
  by pat_completeness auto
termination
  by (relation "measure (\<lambda>(ip, ell, s). 16 - length ip)") auto

declare ipv6_loop.simps [simp del]

definition expand_ellipsis :: "ip_bytes \<times> nat option \<times> string \<Rightarrow> ip_bytes option" where
  "expand_ellipsis r = (case r of (ip, ell, s) \<Rightarrow>
     if s \<noteq> [] then None
     else if length ip < 16 then
       (case ell of None \<Rightarrow> None | Some e \<Rightarrow> Some (take e ip @ replicate (16 - length ip) 0 @ drop e ip))
     else if ell \<noteq> None then None else Some ip)"

definition parse_ipv6 :: "string \<Rightarrow> ip_bytes option" where
  "parse_ipv6 s =
     (if CHR ''%'' \<in> set s then None
      else if has_prefix s ''::'' then
        (if drop 2 s = [] then Some (replicate 16 0)
         else Option.bind (ipv6_loop [] (Some 0) (drop 2 s)) expand_ellipsis)
      else Option.bind (ipv6_loop [] None s) expand_ellipsis)"

text \<open>The first separator decides; a zone makes \<open>net.ParseIP\<close> return nil.\<close>

definition parse_ip :: "string \<Rightarrow> ip_bytes option" where
  "parse_ip s =
     (case find (\<lambda>c. c = CHR ''.'' \<or> c = CHR '':'' \<or> c = CHR ''%'') s of
        None \<Rightarrow> None
      | Some c \<Rightarrow>
          if c = CHR ''.'' then map_option (\<lambda>q. v4_prefix @ q) (parse_ipv4 s)
          else if c = CHR '':'' then parse_ipv6 s
          else None)"

definition ip_to4 :: "ip_bytes \<Rightarrow> nat list option" where
  "ip_to4 ip = (if take 12 ip = v4_prefix then Some (drop 12 ip) else None)"

definition v4_unspecified :: "nat list \<Rightarrow> bool" where "v4_unspecified q \<longleftrightarrow> q = [0, 0, 0, 0]"
definition v4_loopback :: "nat list \<Rightarrow> bool" where "v4_loopback q \<longleftrightarrow> q ! 0 = 127"
definition v4_multicast :: "nat list \<Rightarrow> bool" where "v4_multicast q \<longleftrightarrow> q ! 0 div 16 = 14"
definition v4_link_local :: "nat list \<Rightarrow> bool" where "v4_link_local q \<longleftrightarrow> q ! 0 = 169 \<and> q ! 1 = 254"

section \<open>Dotted decimals\<close>

definition dotted :: "nat list \<Rightarrow> string" where
  "dotted q = (case q of [a, b, c, d] \<Rightarrow> nat_str a @ ''.'' @ nat_str b @ ''.'' @ nat_str c @ ''.'' @ nat_str d | _ \<Rightarrow> [])"

lemma nat_str_digits: "list_all is_digit (nat_str n)"
proof (induction n rule: nat_str.induct)
  case (1 n)
  then show ?case by (simp add: nat_str.simps [of n] digit_char_props)
qed

lemma nat_str_byte:
  "n < 10 \<Longrightarrow> nat_str n = [digit_char n]"
  "10 \<le> n \<Longrightarrow> n < 100 \<Longrightarrow> nat_str n = [digit_char (n div 10), digit_char (n mod 10)]"
  "100 \<le> n \<Longrightarrow> n < 1000 \<Longrightarrow> nat_str n = [digit_char (n div 100), digit_char (n div 10 mod 10), digit_char (n mod 10)]"
proof -
  show "n < 10 \<Longrightarrow> nat_str n = [digit_char n]" by (simp add: nat_str.simps [of n])
  show "nat_str n = [digit_char (n div 10), digit_char (n mod 10)]" if "10 \<le> n" "n < 100"
  proof -
    have "n div 10 < 10" using that by linarith
    then show ?thesis using that by (simp add: nat_str.simps [of n] nat_str.simps [of "n div 10"])
  qed
  show "nat_str n = [digit_char (n div 100), digit_char (n div 10 mod 10), digit_char (n mod 10)]" if "100 \<le> n" "n < 1000"
  proof -
    have q: "n div 10 div 10 = n div 100" using div_mult2_eq [of n 10 10] by simp
    have "\<not> n div 10 < 10" "n div 100 < 10" using that by linarith+
    then show ?thesis using that q
      by (simp add: nat_str.simps [of n] nat_str.simps [of "n div 10"] nat_str.simps [of "n div 100"])
  qed
qed

lemma digit_nat: "d < 10 \<Longrightarrow> nat (digit_val (digit_char d)) = d"
  by (simp add: digit_char_props)

text \<open>Reading a printed byte.\<close>

lemma ipv4_fields_byte:
  assumes "n < 256"
  shows "\<exists>k>0. ipv4_fields fs 0 0 (nat_str n @ rest) = ipv4_fields fs n k rest"
proof -
  consider "n < 10" | "10 \<le> n" "n < 100" | "100 \<le> n" by linarith
  then show ?thesis
  proof cases
    case 1
    then show ?thesis by (intro exI [of _ 1]) (simp add: nat_str_byte(1) digit_char_props)
  next
    case 2
    have d: "n div 10 < 10" "n mod 10 < 10" "n div 10 \<noteq> 0" "10 * (n div 10) + n mod 10 = n" using 2 by auto
    have "\<not> 255 < n div 10" using d(1) by linarith
    then show ?thesis
      unfolding nat_str_byte(2) [OF 2] using assms
      by (intro exI [of _ 2]) (simp add: digit_char_props [OF d(1)] digit_char_props [OF d(2)] d(3,4) Let_def numeral_2_eq_2)
  next
    case 3
    have n: "n < 1000" using assms by simp
    have d: "n div 100 < 10" "n div 10 mod 10 < 10" "n mod 10 < 10" "n div 100 \<noteq> 0" using 3 assms by auto
    have q: "10 * (n div 100) + n div 10 mod 10 = n div 10"
      using mult_div_mod_eq [of 10 "n div 10"] div_mult2_eq [of n 10 10] by simp
    have r: "10 * (n div 10) + n mod 10 = n" by simp
    have b: "n div 10 < 256" "n div 100 < 256" using assms by linarith+
    show ?thesis
      unfolding nat_str_byte(3) [OF 3 n] using assms b
      by (intro exI [of _ 3]) (simp add: digit_char_props [OF d(1)] digit_char_props [OF d(2)] digit_char_props [OF d(3)]
          d(4) Let_def q r numeral_3_eq_3)
  qed
qed

lemma parse_ipv4_dotted:
  assumes "a < 256" "b < 256" "c < 256" "d < 256"
  shows "parse_ipv4 (dotted [a, b, c, d]) = Some [a, b, c, d]"
proof -
  have ne: "nat_str n \<noteq> []" for n by (simp add: nat_str.simps [of n])
  have dot: "\<not> is_digit (CHR ''.'')" by (simp add: is_digit_def)
  obtain k1 where k1: "0 < k1" "ipv4_fields [] 0 0 (nat_str a @ ''.'' @ nat_str b @ ''.'' @ nat_str c @ ''.'' @ nat_str d) =
      ipv4_fields [] a k1 (''.'' @ nat_str b @ ''.'' @ nat_str c @ ''.'' @ nat_str d)"
    using ipv4_fields_byte [OF assms(1)] by blast
  obtain k2 where k2: "0 < k2" "ipv4_fields [a] 0 0 (nat_str b @ ''.'' @ nat_str c @ ''.'' @ nat_str d) =
      ipv4_fields [a] b k2 (''.'' @ nat_str c @ ''.'' @ nat_str d)"
    using ipv4_fields_byte [OF assms(2)] by blast
  obtain k3 where k3: "0 < k3" "ipv4_fields [a, b] 0 0 (nat_str c @ ''.'' @ nat_str d) =
      ipv4_fields [a, b] c k3 (''.'' @ nat_str d)"
    using ipv4_fields_byte [OF assms(3)] by blast
  obtain k4 where k4: "ipv4_fields [a, b, c] 0 0 (nat_str d @ []) = ipv4_fields [a, b, c] d k4 []"
    using ipv4_fields_byte [OF assms(4)] by blast
  show ?thesis using k1 k2 k3 k4 ne dot by (simp add: parse_ipv4_def dotted_def)
qed

lemma digit_not_separator: "is_digit c \<Longrightarrow> c \<noteq> CHR ''.'' \<and> c \<noteq> CHR '':'' \<and> c \<noteq> CHR ''%''"
  by (auto simp: is_digit_def)

lemma parse_ip_dotted:
  assumes "a < 256" "b < 256" "c < 256" "d < 256"
  shows "parse_ip (dotted [a, b, c, d]) = Some (v4_prefix @ [a, b, c, d])"
proof -
  have "find (\<lambda>c. c = CHR ''.'' \<or> c = CHR '':'' \<or> c = CHR ''%'') (xs @ CHR ''.'' # ys) = Some (CHR ''.'')"
    if "list_all is_digit xs" for xs ys
    using that by (induction xs) (auto dest: digit_not_separator)
  then have "find (\<lambda>c. c = CHR ''.'' \<or> c = CHR '':'' \<or> c = CHR ''%'') (dotted [a, b, c, d]) = Some (CHR ''.'')"
    using nat_str_digits by (simp add: dotted_def)
  then show ?thesis using parse_ipv4_dotted [OF assms] by (simp add: parse_ip_def)
qed

text \<open>What parses as an IPv4 text is the dotted decimal of its four bytes.\<close>

lemma ipv4_fields_bytes:
  "ipv4_fields fs v n s = Some q \<Longrightarrow> length fs \<le> 3 \<Longrightarrow> v < 256 \<Longrightarrow> \<forall>b\<in>set fs. b < 256 \<Longrightarrow>
     length q = 4 \<and> (\<forall>b\<in>set q. b < 256)"
proof (induction fs v n s rule: ipv4_fields.induct)
  case (1 fs v n)
  then have q: "q = fs @ [v]" "length fs = 3" by (simp_all split: if_splits)
  then show ?case using 1 by auto
next
  case (2 fs v n c cs)
  show ?case
  proof (cases "is_digit c")
    case True
    define v' where "v' = 10 * v + nat (digit_val c)"
    have r: "ipv4_fields fs v' (Suc n) cs = Some q" "v' \<le> 255" "\<not> (n = 1 \<and> v = 0)"
      using 2(3) True by (auto simp: Let_def v'_def split: if_splits)
    show ?thesis by (rule 2(1) [OF True r(3) v'_def]) (use r 2 in simp_all)
  next
    case False
    then have r: "c = CHR ''.''" "length fs \<noteq> 3" "ipv4_fields (fs @ [v]) 0 0 cs = Some q" "\<not> (n = 0 \<or> cs = [] \<or> length fs = 3)"
      using 2(3) by (simp_all split: if_splits)
    show ?thesis by (rule 2(2) [OF False r(1,4,3)]) (use 2 r(2) in auto)
  qed
qed

lemma parse_ipv4_bytes: "parse_ipv4 s = Some q \<Longrightarrow> length q = 4 \<and> (\<forall>b\<in>set q. b < 256)"
  using ipv4_fields_bytes [of "[]" 0 0 s q] by (simp add: parse_ipv4_def)

end
