(* ===== verification/AirPlay.thy ===== *)
theory AirPlay
  imports GoNet
begin

text \<open>
  AirPlay session policy: \<open>apps/server/internal/airplay/policy.go\<close>. Which display of a room becomes the gateway and
  why others cannot, which addresses group video may be sent to, the common video profile, the transport, and the
  generated PIN, device identifier and multicast address. Random bytes are arguments. \<open>strings.ToLower\<close> is written
  out for ASCII; a name with other bytes is lowered by the function \<open>lw\<close> (Go's Unicode tables).
\<close>

section \<open>Preparation\<close>

definition video_port :: int where "video_port = 42000"
definition audio_port :: int where "audio_port = 42002"
definition max_screens :: int where "max_screens = 64"
definition preparation_wait :: duration where "preparation_wait = 45 * second"
definition presentation_network_wait :: duration where "presentation_network_wait = 150 * second"

definition preparation_deadline :: "instant \<Rightarrow> bool \<Rightarrow> instant" where
  "preparation_deadline t presentation_network =
     (if presentation_network then t + presentation_network_wait else t + preparation_wait)"

section \<open>The gateway\<close>

record gateway_candidate =
  gc_id :: string
  gc_name :: string
  gc_online :: bool
  gc_platform :: string
  gc_airplay_supported :: bool
  gc_hardware_decode :: bool
  gc_wired :: bool
  gc_network_assigned :: bool
  gc_network_ready :: bool
  gc_wifi_adapter :: bool
  gc_wired_ipv4 :: string

record gateway_ineligibility =
  gi_id :: string
  gi_name :: string
  gi_reason :: string

record gateway_requirement =
  gr_presentation_network :: bool
  gr_wired_ipv4 :: bool

definition reason_offline :: string where "reason_offline = ''offline''"
definition reason_not_linux :: string where "reason_not_linux = ''not_linux''"
definition reason_airplay :: string where "reason_airplay = ''airplay_unsupported''"
definition reason_unassigned :: string where "reason_unassigned = ''presentation_network_unassigned''"
definition reason_network :: string where "reason_network = ''presentation_network_unsupported''"
definition reason_wifi :: string where "reason_wifi = ''wifi_adapter_unavailable''"
definition reason_wired :: string where "reason_wired = ''wired_address_unavailable''"

lemmas reason_defs = reason_offline_def reason_not_linux_def reason_airplay_def reason_unassigned_def reason_network_def
  reason_wifi_def reason_wired_def

definition valid_wired_ipv4 :: "string \<Rightarrow> bool" where
  "valid_wired_ipv4 s =
     (let v = trim_space s in
      if v = [] then False
      else case parse_ip v of
        None \<Rightarrow> False
      | Some ip \<Rightarrow> (case ip_to4 ip of
          None \<Rightarrow> False
        | Some q \<Rightarrow> \<not> v4_unspecified q \<and> \<not> v4_loopback q \<and> \<not> v4_multicast q \<and> \<not> v4_link_local q))"

definition gateway_rejection :: "gateway_candidate \<Rightarrow> gateway_requirement \<Rightarrow> string" where
  "gateway_rejection c r =
     (if \<not> gc_online c then reason_offline
      else if gc_platform c \<noteq> ''linux'' then reason_not_linux
      else if \<not> gc_airplay_supported c then reason_airplay
      else if gr_presentation_network r \<and> \<not> gc_network_assigned c then reason_unassigned
      else if gr_presentation_network r \<and> \<not> gc_wifi_adapter c then reason_wifi
      else if gr_presentation_network r \<and> \<not> gc_network_ready c then reason_network
      else if gr_wired_ipv4 r \<and> \<not> valid_wired_ipv4 (gc_wired_ipv4 c) then reason_wired
      else [])"

definition score :: "gateway_candidate \<Rightarrow> int" where
  "score c = (if gc_hardware_decode c then 8 else 0) + (if gc_wired c then 4 else 0)
     + (if gc_platform c = ''linux'' then 2 else 0) + (if gc_airplay_supported c then 1 else 0)"

definition name_key :: "(string \<Rightarrow> string) \<Rightarrow> gateway_candidate \<Rightarrow> string" where
  "name_key lw c = to_lower lw (gc_name c) @ char_of (0 :: nat) # gc_id c"

definition gateway_before :: "(string \<Rightarrow> string) \<Rightarrow> gateway_candidate \<Rightarrow> gateway_candidate \<Rightarrow> bool" where
  "gateway_before lw a b = (if score a \<noteq> score b then score b < score a else name_key lw a < name_key lw b)"

definition gateway_eligible :: "gateway_requirement \<Rightarrow> gateway_candidate list \<Rightarrow> gateway_candidate list" where
  "gateway_eligible r cs = filter (\<lambda>c. gateway_rejection c r = []) cs"

definition gateway_rejected :: "gateway_requirement \<Rightarrow> gateway_candidate list \<Rightarrow> gateway_ineligibility list" where
  "gateway_rejected r cs =
     map (\<lambda>c. \<lparr>gi_id = gc_id c, gi_name = gc_name c, gi_reason = gateway_rejection c r\<rparr>)
       (filter (\<lambda>c. gateway_rejection c r \<noteq> []) cs)"

definition choose_gateway ::
    "(string \<Rightarrow> string) \<Rightarrow> gateway_candidate list \<Rightarrow> string \<Rightarrow> gateway_requirement \<Rightarrow>
     gateway_candidate option \<times> gateway_ineligibility list" where
  "choose_gateway lw cs preferred r =
     (let eligible = gateway_eligible r cs; rejected = gateway_rejected r cs in
      case find (\<lambda>c. preferred \<noteq> [] \<and> gc_id c = preferred) eligible of
        Some c \<Rightarrow> (Some c, rejected)
      | None \<Rightarrow> (case sort_by (gateway_before lw) eligible of [] \<Rightarrow> (None, rejected) | c # _ \<Rightarrow> (Some c, rejected)))"

section \<open>The limitation sentence\<close>

fun join :: "string \<Rightarrow> string list \<Rightarrow> string" where
  "join sep [] = []"
| "join sep [s] = s"
| "join sep (s # t # ss) = s @ sep @ join sep (t # ss)"

definition reason_priority :: "string list" where
  "reason_priority = [reason_unassigned, reason_wifi, reason_network, reason_wired, reason_airplay, reason_not_linux,
     reason_offline]"

definition right_arrow :: string where "right_arrow = map char_of [226, 134, 146 :: nat]"

definition no_gateway_text :: string where
  "no_gateway_text = ''No online Linux AirPlay-capable gateway is available.''"

definition limitation_text :: "string \<Rightarrow> string \<Rightarrow> string" where
  "limitation_text reason subject =
     (if reason = reason_unassigned then
        ''No display in this room can act as the AirPlay gateway: a Presentation Network is required, and '' @
        subject @ '' has no Presentation Network assigned. Assign one in Settings '' @ right_arrow @ '' Presentation Networks.''
      else if reason = reason_wifi then
        ''No display in this room can act as the AirPlay gateway: joining the Presentation Network needs a Wi-Fi adapter, and '' @
        subject @ '' has none. Only the gateway needs Wi-Fi; the other displays stay on Ethernet.''
      else if reason = reason_network then
        ''No display in this room can act as the AirPlay gateway: '' @ subject @
        '' cannot manage a temporary Wi-Fi connection. NetworkManager and the Tilecast presentation-network helper are both required.''
      else if reason = reason_wired then
        ''No display in this room can act as the AirPlay gateway: '' @ subject @
        '' has not reported a usable Ethernet IPv4 address for group video fan-out.''
      else if reason = reason_airplay then
        subject @ '' is not AirPlay-ready, so no display in this room can act as the gateway.''
      else if reason = reason_not_linux then
        subject @ '' is not a Linux AirPlay player, so no display in this room can act as the gateway.''
      else subject @ '' is not online, so no display in this room can act as the gateway.'')"

definition names_of :: "gateway_ineligibility list \<Rightarrow> string \<Rightarrow> string list" where
  "names_of rejected reason = map gi_name (filter (\<lambda>i. gi_reason i = reason) rejected)"

definition gateway_limitation :: "gateway_ineligibility list \<Rightarrow> string" where
  "gateway_limitation rejected =
     (if rejected = [] then no_gateway_text
      else case find (\<lambda>reason. names_of rejected reason \<noteq> []) reason_priority of
        None \<Rightarrow> no_gateway_text
      | Some reason \<Rightarrow> limitation_text reason (join '', '' (names_of rejected reason)))"

section \<open>Profiles, transport and identifiers\<close>

record capability =
  cp_airplay_supported :: bool
  cp_hardware_decode :: bool
  cp_max_profile :: string
  cp_multicast_support :: "bool option"
  cp_decoder :: string
  cp_platform :: string
  cp_online :: bool
  cp_wired :: bool
  cp_screen_id :: string
  cp_screen_name :: string
  cp_last_known_ip :: string

definition profile_1080 :: string where "profile_1080 = ''1080p30''"
definition profile_720 :: string where "profile_720 = ''720p30''"

datatype profile_error = NoScreens | ScreenUnsupported string | NoProfile string

definition common_profile :: "capability list \<Rightarrow> profile_error + string" where
  "common_profile cs =
     (if cs = [] then Inl NoScreens
      else case find (\<lambda>c. \<not> cp_airplay_supported c) cs of
        Some c \<Rightarrow> Inl (ScreenUnsupported (cp_screen_name c))
      | None \<Rightarrow>
          if \<not> list_ex (\<lambda>c. \<not> cp_hardware_decode c \<or> cp_max_profile c \<noteq> profile_1080) cs then Inr profile_1080
          else (case find (\<lambda>c. cp_max_profile c \<noteq> profile_1080 \<and> cp_max_profile c \<noteq> profile_720) cs of
            Some c \<Rightarrow> Inl (NoProfile (cp_screen_name c))
          | None \<Rightarrow> Inr profile_720))"

text \<open>\<open>rand.Int\<close> gives a number below 10000 or an error; \<open>rand.Read\<close> six bytes or an error.\<close>

definition random_pin :: "'e + nat \<Rightarrow> 'e + string" where
  "random_pin value = andthen value (\<lambda>n. Inr (append_int 4 (int n)))"

definition random_device_id :: "'e + nat list \<Rightarrow> 'e + string" where
  "random_device_id random =
     andthen random (\<lambda>bs. Inr (join '':'' (map hex_byte (bs[0 := and (or (bs ! 0) 2) 254]))))"

definition multicast_address :: "nat \<Rightarrow> string" where
  "multicast_address b = ''239.255.42.'' @ nat_str (if b = 0 then 1 else b)"

definition select_transport :: "(string \<Rightarrow> string) \<Rightarrow> string \<Rightarrow> int \<Rightarrow> bool \<Rightarrow> string" where
  "select_transport lw requested0 screen_count multicast_ready =
     (let requested = to_lower lw (trim_space requested0) in
      if requested = ''unicast'' then ''unicast''
      else if requested = ''multicast'' \<and> multicast_ready then ''multicast''
      else if (requested = ''auto'' \<or> requested = []) \<and> 4 < screen_count \<and> multicast_ready then ''multicast''
      else ''unicast'')"

section \<open>Properties\<close>

text \<open>The comparator ranks by score, then by name and identifier.\<close>

definition gateway_key :: "(string \<Rightarrow> string) \<Rightarrow> gateway_candidate \<Rightarrow> int \<times> string" where
  "gateway_key lw c = (- score c, name_key lw c)"

interpretation gateway: ranking "gateway_before lw" "gateway_key lw" for lw
  by unfold_locales (auto simp: gateway_before_def gateway_key_def)

lemma find_Some_iff_filter: "find P xs = (case filter P xs of [] \<Rightarrow> None | x # _ \<Rightarrow> Some x)"
  by (induction xs) auto

text \<open>Identifiers without a NUL keep the keys of different candidates apart.\<close>

lemma nul_split:
  assumes "xs @ n # ys = xs' @ n # ys'" "n \<notin> set ys" "n \<notin> set ys'"
  shows "ys = ys'"
proof -
  have t: "takeWhile (\<lambda>c. c \<noteq> n) (rev us @ n # rev zs) = rev us" if "n \<notin> set us" for zs us
    by (subst takeWhile_append2) (use that in auto)
  have "rev ys @ n # rev xs = rev ys' @ n # rev xs'" using arg_cong [OF assms(1), of rev] by simp
  then have "rev ys = rev ys'" using t [OF assms(2), of xs] t [OF assms(3), of xs'] by metis
  then show ?thesis by simp
qed

definition plain_ids :: "gateway_candidate list \<Rightarrow> bool" where
  "plain_ids cs \<longleftrightarrow> distinct (map gc_id cs) \<and> (\<forall>c\<in>set cs. char_of (0 :: nat) \<notin> set (gc_id c))"

lemma distinct_gateway_keys:
  assumes "plain_ids cs"
  shows "distinct (map (gateway_key lw) (gateway_eligible r cs))"
proof -
  have "inj_on (gateway_key lw) (set cs)"
  proof (rule inj_onI)
    fix a b assume m: "a \<in> set cs" "b \<in> set cs" "gateway_key lw a = gateway_key lw b"
    have "to_lower lw (gc_name a) @ char_of (0 :: nat) # gc_id a = to_lower lw (gc_name b) @ char_of (0 :: nat) # gc_id b"
      using m(3) unfolding gateway_key_def name_key_def prod.inject by (rule conjunct2)
    then have "gc_id a = gc_id b"
      by (rule nul_split) (use assms m(1,2) in \<open>simp_all add: plain_ids_def\<close>)
    moreover have "inj_on gc_id (set cs)" using assms by (simp add: plain_ids_def distinct_map)
    ultimately show "a = b" using m(1,2) by (simp add: inj_on_def)
  qed
  moreover have "distinct cs" using assms by (simp add: plain_ids_def distinct_map)
  ultimately show ?thesis unfolding gateway_eligible_def by (simp add: distinct_map inj_on_subset)
qed

lemma choose_gateway_cases:
  obtains (none) "gateway_eligible r cs = []" "fst (choose_gateway lw cs p r) = None"
  | (preferred) g where "fst (choose_gateway lw cs p r) = Some g" "g \<in> set (gateway_eligible r cs)" "p \<noteq> []" "gc_id g = p"
  | (best) g where "fst (choose_gateway lw cs p r) = Some g" "g \<in> set (gateway_eligible r cs)"
      "\<forall>c\<in>set (gateway_eligible r cs). p \<noteq> [] \<longrightarrow> gc_id c \<noteq> p"
      "g = hd (sort_by (gateway_before lw) (gateway_eligible r cs))"
      "\<forall>c\<in>set (gateway_eligible r cs). \<not> gateway_before lw c g"
proof (cases "find (\<lambda>c. p \<noteq> [] \<and> gc_id c = p) (gateway_eligible r cs)")
  case (Some g)
  then have "g \<in> set (gateway_eligible r cs)" "p \<noteq> []" "gc_id g = p"
    by (auto simp: find_Some_iff in_set_conv_nth)
  then show thesis using preferred Some by (simp add: choose_gateway_def Let_def)
next
  case None
  then have np: "\<forall>c\<in>set (gateway_eligible r cs). p \<noteq> [] \<longrightarrow> gc_id c \<noteq> p" by (auto simp: find_None_iff)
  show thesis
  proof (cases "sort_by (gateway_before lw) (gateway_eligible r cs)")
    case Nil
    then show thesis using none None by (simp add: choose_gateway_def Let_def)
  next
    case (Cons g gs)
    then have ne: "gateway_eligible r cs \<noteq> []" by auto
    have g: "g = hd (sort_by (gateway_before lw) (gateway_eligible r cs))" by (simp add: Cons)
    then have "g \<in> set (gateway_eligible r cs)" using gateway.sort_head_mem [OF ne, of lw] by simp
    moreover have "fst (choose_gateway lw cs p r) = Some g" using None Cons by (simp add: choose_gateway_def Let_def)
    moreover have "\<forall>c\<in>set (gateway_eligible r cs). \<not> gateway_before lw c g"
      unfolding g by (intro ballI gateway.sort_head_least [OF ne])
    ultimately show thesis using best np g by blast
  qed
qed

lemma choose_gateway_choice:
  "(fst (choose_gateway lw cs p r) = None \<longleftrightarrow> (\<forall>c\<in>set cs. gateway_rejection c r \<noteq> []))
    \<and> (\<forall>g. fst (choose_gateway lw cs p r) = Some g \<longrightarrow> g \<in> set cs \<and> gateway_rejection g r = []
          \<and> (if p \<noteq> [] \<and> (\<exists>c\<in>set cs. gateway_rejection c r = [] \<and> gc_id c = p) then gc_id g = p
             else \<forall>c\<in>set cs. gateway_rejection c r = [] \<longrightarrow>
               score c < score g \<or> score c = score g \<and> name_key lw g \<le> name_key lw c))"
proof -
  have E: "c \<in> set (gateway_eligible r cs) \<longleftrightarrow> c \<in> set cs \<and> gateway_rejection c r = []" for c
    by (auto simp: gateway_eligible_def)
  show ?thesis
  proof (cases rule: choose_gateway_cases [of r cs lw p])
    case none
    then show ?thesis by (auto simp: gateway_eligible_def filter_empty_conv)
  next
    case (preferred g)
    then show ?thesis using E by auto
  next
    case (best g)
    have "score c < score g \<or> score c = score g \<and> name_key lw g \<le> name_key lw c" if "c \<in> set (gateway_eligible r cs)" for c
      using bspec [OF best(5) that] by (auto simp: gateway_before_def not_less split: if_splits)
    then show ?thesis using best(1-3) E by auto
  qed
qed

lemma choose_gateway_permutation:
  assumes "plain_ids cs" "mset cs' = mset cs"
  shows "fst (choose_gateway lw cs' p r) = fst (choose_gateway lw cs p r)"
proof -
  have m: "mset (gateway_eligible r cs') = mset (gateway_eligible r cs)"
    using assms(2) by (simp add: gateway_eligible_def)
  then have set: "set (gateway_eligible r cs') = set (gateway_eligible r cs)" by (rule mset_eq_setD)
  have sort: "sort_by (gateway_before lw) (gateway_eligible r cs') = sort_by (gateway_before lw) (gateway_eligible r cs)"
    by (rule gateway.sort_permutation_invariant [OF distinct_gateway_keys [OF assms(1)] m])
  have "inj_on gc_id (set (gateway_eligible r cs))"
    using assms(1) by (auto simp: plain_ids_def gateway_eligible_def distinct_map inj_on_def)
  then have uniq: "a = b" if "a \<in> set (gateway_eligible r cs)" "b \<in> set (gateway_eligible r cs)" "gc_id a = gc_id b" for a b
    using that by (simp add: inj_on_def)
  show ?thesis
  proof (cases rule: choose_gateway_cases [of r cs lw p])
    case none
    then have "gateway_eligible r cs' = []" using set by simp
    then show ?thesis using none by (simp add: choose_gateway_def Let_def)
  next
    case (preferred g)
    show ?thesis
      by (cases rule: choose_gateway_cases [of r cs' lw p]) (use preferred set uniq in auto)
  next
    case (best g)
    show ?thesis
      by (cases rule: choose_gateway_cases [of r cs' lw p]) (use best set sort in auto)
  qed
qed

text \<open>The gateway is chosen from the displays that meet the requirement, and there is none only when no display does.
  The configured preference wins when it is eligible; otherwise the choice has the highest score and, among equals, the
  first name and identifier. Every other display is reported with the first reason that excludes it. With distinct
  identifiers the choice does not depend on the order of the candidates.\<close>

theorem choose_gateway_exact:
  assumes "plain_ids cs" and "choose_gateway lw cs p r = (choice, rejected)"
  shows "(choice = None \<longleftrightarrow> (\<forall>c\<in>set cs. gateway_rejection c r \<noteq> []))
    \<and> (\<forall>g. choice = Some g \<longrightarrow> g \<in> set cs \<and> gateway_rejection g r = []
          \<and> (if p \<noteq> [] \<and> (\<exists>c\<in>set cs. gateway_rejection c r = [] \<and> gc_id c = p) then gc_id g = p
             else \<forall>c\<in>set cs. gateway_rejection c r = [] \<longrightarrow>
               score c < score g \<or> score c = score g \<and> name_key lw g \<le> name_key lw c))
    \<and> rejected = map (\<lambda>c. \<lparr>gi_id = gc_id c, gi_name = gc_name c, gi_reason = gateway_rejection c r\<rparr>)
         (filter (\<lambda>c. gateway_rejection c r \<noteq> []) cs)
    \<and> (\<forall>cs'. mset cs' = mset cs \<longrightarrow> fst (choose_gateway lw cs' p r) = choice)"
proof -
  have choice: "choice = fst (choose_gateway lw cs p r)" using assms(2) by simp
  have rejected: "rejected = gateway_rejected r cs"
    using assms(2) by (auto simp: choose_gateway_def Let_def split: option.splits list.splits)
  note c = choose_gateway_choice [of lw cs p r]
  show ?thesis
    unfolding choice rejected gateway_rejected_def
    by (rule conjI [OF conjunct1 [OF c] conjI [OF conjunct2 [OF c] conjI [OF refl]]])
      (intro allI impI choose_gateway_permutation [OF assms(1)])
qed

definition lobby :: gateway_candidate where
  "lobby = \<lparr>gc_id = ''a1'', gc_name = ''Lobby'', gc_online = True, gc_platform = ''linux'', gc_airplay_supported = True,
     gc_hardware_decode = False, gc_wired = True, gc_network_assigned = False, gc_network_ready = False,
     gc_wifi_adapter = False, gc_wired_ipv4 = ''10.0.0.7''\<rparr>"

definition stage :: gateway_candidate where
  "stage = lobby\<lparr>gc_id := ''b2'', gc_name := ''Stage'', gc_hardware_decode := True\<rparr>"

definition ordinary_room :: gateway_requirement where
  "ordinary_room = \<lparr>gr_presentation_network = False, gr_wired_ipv4 = False\<rparr>"

theorem choose_gateway_exact_witness:
  "fst (choose_gateway id [lobby, stage] [] ordinary_room) = Some stage
     \<and> fst (choose_gateway id [stage, lobby] [] ordinary_room) = Some stage"
proof -
  have ids: "plain_ids [lobby, stage]" by code_simp
  have ok: "gateway_rejection lobby ordinary_room = []" "gateway_rejection stage ordinary_room = []" "score lobby < score stage"
    by (simp_all add: gateway_rejection_def ordinary_room_def lobby_def stage_def score_def)
  note e = choose_gateway_exact [OF ids surjective_pairing, of id "[]" ordinary_room]
  have "\<not> (\<forall>c\<in>set [lobby, stage]. gateway_rejection c ordinary_room \<noteq> [])" using ok(1) by simp
  then have "fst (choose_gateway id [lobby, stage] [] ordinary_room) \<noteq> None" using conjunct1 [OF e] by blast
  then obtain g where g: "fst (choose_gateway id [lobby, stage] [] ordinary_room) = Some g" by blast
  have "g \<in> set [lobby, stage]" "\<forall>c\<in>set [lobby, stage]. gateway_rejection c ordinary_room = [] \<longrightarrow>
      score c < score g \<or> score c = score g \<and> name_key id g \<le> name_key id c"
    using spec [OF conjunct1 [OF conjunct2 [OF e]], of g] g by simp_all
  then have "g = stage" using ok by auto
  moreover have "fst (choose_gateway id [stage, lobby] [] ordinary_room) = fst (choose_gateway id [lobby, stage] [] ordinary_room)"
    using spec [OF conjunct2 [OF conjunct2 [OF conjunct2 [OF e]]], of "[stage, lobby]"] by simp
  ultimately show ?thesis using g by simp
qed

section \<open>Wired addresses\<close>

lemma nat_str_graphic: "list_all graphic (nat_str n)"
proof -
  have "is_digit c \<Longrightarrow> graphic c" for c by (auto simp: is_digit_def graphic_def)
  then show ?thesis using nat_str_digits [of n] by (auto simp: list_all_iff)
qed

lemma dotted_graphic: "list_all graphic (dotted [a, b, c, d])"
  using nat_str_graphic by (simp add: dotted_def graphic_def)

text \<open>An IPv4 address in dotted decimal is a destination for group video exactly when it is not the unspecified
  address, a loopback, multicast or link-local one; nothing else about it matters. A text that parses as no address, or
  as an IPv6 address outside the mapped range, is refused.\<close>

theorem valid_wired_ipv4_exact:
  assumes "a < 256" "b < 256" "c < 256" "d < 256"
  shows "(valid_wired_ipv4 (dotted [a, b, c, d]) \<longleftrightarrow>
      \<not> (a = 0 \<and> b = 0 \<and> c = 0 \<and> d = 0) \<and> a \<noteq> 127 \<and> \<not> (224 \<le> a \<and> a < 240) \<and> \<not> (a = 169 \<and> b = 254))
    \<and> (parse_ip (trim_space s) = None \<longrightarrow> \<not> valid_wired_ipv4 s)
    \<and> (\<forall>ip. parse_ip (trim_space s) = Some ip \<and> take 12 ip \<noteq> v4_prefix \<longrightarrow> \<not> valid_wired_ipv4 s)"
proof -
  have ne: "dotted [a, b, c, d] \<noteq> []" by (simp add: dotted_def)
  have "a div 16 = 14 \<Longrightarrow> 224 \<le> a \<and> a < 240"
    using div_mult_mod_eq [of a 16] mod_less_divisor [of 16 a] by linarith
  then have m: "a div 16 = 14 \<longleftrightarrow> 224 \<le> a \<and> a < 240" by (auto intro: div_nat_eqI)
  have v4: "ip_to4 (v4_prefix @ [a, b, c, d]) = Some [a, b, c, d]" by (simp add: ip_to4_def v4_prefix_def)
  have t: "trim_space (dotted [a, b, c, d]) = dotted [a, b, c, d]" by (rule trim_space_graphic [OF dotted_graphic])
  have quad: "valid_wired_ipv4 (dotted [a, b, c, d]) \<longleftrightarrow>
      \<not> (a = 0 \<and> b = 0 \<and> c = 0 \<and> d = 0) \<and> a \<noteq> 127 \<and> \<not> (224 \<le> a \<and> a < 240) \<and> \<not> (a = 169 \<and> b = 254)"
    using ne by (simp add: valid_wired_ipv4_def t parse_ip_dotted [OF assms] v4 v4_unspecified_def v4_loopback_def
        v4_multicast_def v4_link_local_def m)
  have none: "\<not> valid_wired_ipv4 s" if "parse_ip (trim_space s) = None"
    using that by (simp add: valid_wired_ipv4_def)
  have other: "\<not> valid_wired_ipv4 s" if "parse_ip (trim_space s) = Some ip \<and> take 12 ip \<noteq> v4_prefix" for ip
    using that by (simp add: valid_wired_ipv4_def ip_to4_def)
  show ?thesis by (rule conjI [OF quad conjI]) (use none other in blast)+
qed

theorem valid_wired_ipv4_exact_witness:
  "valid_wired_ipv4 (dotted [10, 0, 0, 7]) \<and> \<not> valid_wired_ipv4 (dotted [169, 254, 3, 1])"
  using valid_wired_ipv4_exact [of 10 0 0 7 "[]"] valid_wired_ipv4_exact [of 169 254 3 1 "[]"] by simp

text \<open>A mapped IPv6 text passes as well.\<close>

lemma mapped_address_accepted: "parse_ip ''::ffff:10.0.0.7'' = Some (v4_prefix @ [10, 0, 0, 7])"
  by (simp add: parse_ip_def parse_ipv6_def has_prefix_def ipv6_loop.simps hex_val_def is_digit_def less_eq_char_def
      parse_ipv4_def digit_val_def expand_ellipsis_def v4_prefix_def Let_def)

section \<open>The common profile\<close>

text \<open>The profile of a session: 1080p30 exactly when every display supports AirPlay, decodes in hardware and reports
  that profile; 720p30 when all support AirPlay and report one of the two but not all can do the better one; otherwise an
  error that names the first display without AirPlay or, if there is none, the first without a profile.\<close>

theorem common_profile_exact:
  "(common_profile cs = Inr profile_1080 \<longleftrightarrow> cs \<noteq> [] \<and>
      list_all (\<lambda>c. cp_airplay_supported c \<and> cp_hardware_decode c \<and> cp_max_profile c = profile_1080) cs)
   \<and> (common_profile cs = Inr profile_720 \<longleftrightarrow> list_all (\<lambda>c. cp_airplay_supported c \<and> cp_max_profile c \<in> {profile_1080, profile_720}) cs
      \<and> (\<exists>c\<in>set cs. \<not> (cp_hardware_decode c \<and> cp_max_profile c = profile_1080)))
   \<and> (common_profile cs = Inl NoScreens \<longleftrightarrow> cs = [])
   \<and> (common_profile cs = Inl (ScreenUnsupported n) \<longleftrightarrow>
        (\<exists>c. find (\<lambda>c. \<not> cp_airplay_supported c) cs = Some c \<and> n = cp_screen_name c))
   \<and> (common_profile cs = Inl (NoProfile n) \<longleftrightarrow> list_all cp_airplay_supported cs
        \<and> (\<exists>c. find (\<lambda>c. cp_max_profile c \<notin> {profile_1080, profile_720}) cs = Some c \<and> n = cp_screen_name c))"
proof -
  have ne: "profile_1080 \<noteq> profile_720" by (simp add: profile_1080_def profile_720_def)
  have f: "find P xs = None \<longleftrightarrow> (\<forall>x\<in>set xs. \<not> P x)" for P and xs :: "capability list" by (auto simp: find_None_iff)
  show ?thesis
  proof (cases "find (\<lambda>c. \<not> cp_airplay_supported c) cs")
    case (Some c)
    then have "\<exists>c\<in>set cs. \<not> cp_airplay_supported c" "cs \<noteq> []" by (auto simp: find_Some_iff)
    then show ?thesis using Some by (auto simp: common_profile_def list_all_iff)
  next
    case None
    then have s: "\<forall>c\<in>set cs. cp_airplay_supported c" by (simp add: f)
    define hd_ok where "hd_ok = (\<lambda>c :: capability. cp_hardware_decode c \<and> cp_max_profile c = profile_1080)"
    have e: "list_ex (\<lambda>c. \<not> cp_hardware_decode c \<or> cp_max_profile c \<noteq> profile_1080) cs \<longleftrightarrow> (\<exists>c\<in>set cs. \<not> hd_ok c)"
      by (auto simp: list_ex_iff hd_ok_def)
    define bad where "bad = find (\<lambda>c. cp_max_profile c \<noteq> profile_1080 \<and> cp_max_profile c \<noteq> profile_720) cs"
    have bad: "bad = None \<longleftrightarrow> (\<forall>c\<in>set cs. cp_max_profile c \<in> {profile_1080, profile_720})"
      "find (\<lambda>c. cp_max_profile c \<notin> {profile_1080, profile_720}) cs = bad"
      by (auto simp: bad_def f)
    have cp: "common_profile cs = (if cs = [] then Inl NoScreens else if \<not> (\<exists>c\<in>set cs. \<not> hd_ok c) then Inr profile_1080
        else (case bad of Some c \<Rightarrow> Inl (NoProfile (cp_screen_name c)) | None \<Rightarrow> Inr profile_720))"
      unfolding common_profile_def None e bad_def by simp
    show ?thesis unfolding cp bad(2) using s ne bad(1) by (cases bad) (auto simp: hd_ok_def None list_all_iff)
  qed
qed

end
