(* ===== verification/GuestStorage.thy ===== *)
theory GuestStorage
  imports GoValues "HOL-Library.AList" "HOL-Library.Word"
begin

text \<open>
  Storage of packages (\<open>apps/server/internal/extensions/wasm/kv.go\<close>) and the host functions through which a guest uses
  it (\<open>host.go\<close>). The in-memory store is a map of maps, the database store the rows of \<open>external_plugin_kv\<close> with the
  installed packages beside them; both meet the contract \<open>package_store\<close>, under which the host functions are
  verified once. A database failure other than a refused text or constraint is not modelled.
\<close>

section \<open>Bounds and errors\<close>

type_synonym bytes = "nat list"

definition max_kv_key_bytes :: nat where "max_kv_key_bytes = 128"
definition max_kv_value_bytes :: nat where "max_kv_value_bytes = 64 * 1024"
definition max_kv_package_bytes :: nat where "max_kv_package_bytes = 1024 * 1024"

lemmas kv_bounds = max_kv_key_bytes_def max_kv_value_bytes_def max_kv_package_bytes_def

datatype kv_error =
    KvNotFound | KeyLength | ValueTooLarge | QuotaExceeded | ActivationChanged | OrganizationMissing | TextInvalid
  | PackageLength

definition key_length_ok :: "string \<Rightarrow> bool" where
  "key_length_ok k \<longleftrightarrow> \<not> (length k = 0 \<or> max_kv_key_bytes < length k)"

section \<open>The store in memory\<close>

type_synonym memory_kv = "(string \<times> (string \<times> bytes) list) list"

definition stored :: "memory_kv \<Rightarrow> string \<Rightarrow> (string \<times> bytes) list" where
  "stored m p = (case map_of m p of None \<Rightarrow> [] | Some vs \<Rightarrow> vs)"

definition mem_get :: "memory_kv \<Rightarrow> string \<Rightarrow> string \<Rightarrow> kv_error + bytes" where
  "mem_get m p k =
     (if \<not> key_length_ok k then Inl KeyLength
      else case map_of m p of
        None \<Rightarrow> Inl KvNotFound
      | Some vs \<Rightarrow> (case map_of vs k of None \<Rightarrow> Inl KvNotFound | Some v \<Rightarrow> Inr v))"

definition total_bytes :: "(string \<times> bytes) list \<Rightarrow> nat" where
  "total_bytes vs = sum_list (map (\<lambda>(k, v). length v) vs)"

text \<open>The package's map is created before the quota is checked.\<close>

definition mem_set :: "memory_kv \<Rightarrow> string \<Rightarrow> string \<Rightarrow> bytes \<Rightarrow> memory_kv \<times> (kv_error + unit)" where
  "mem_set m p k v =
     (if \<not> key_length_ok k then (m, Inl KeyLength)
      else if max_kv_value_bytes < length v then (m, Inl ValueTooLarge)
      else
        (let vs = stored m p; m1 = AList.update p vs m;
             total = length v + total_bytes (filter (\<lambda>(k', _). k' \<noteq> k) vs)
         in if max_kv_package_bytes < total then (m1, Inl QuotaExceeded)
            else (AList.update p (AList.update k v vs) m1, Inr ())))"

definition mem_remove :: "memory_kv \<Rightarrow> string \<Rightarrow> memory_kv" where
  "mem_remove m p = AList.delete p m"

section \<open>The store in the database\<close>

record kv_row =
  kr_package :: string
  kr_key :: string
  kr_value :: bytes
  kr_epoch :: "uuid option"

record activation =
  ac_package :: string
  ac_digest :: string
  ac_execution :: uuid
  ac_storage :: uuid

record kv_db =
  kd_rows :: "kv_row list"
  kd_installed :: "activation list"
  kd_organization :: bool

text \<open>What an invocation carries: the digest and the execution epoch; a nil epoch does not fence.\<close>

type_synonym fence = "(string \<times> uuid) option"

definition fence_of :: "fence \<Rightarrow> fence" where
  "fence_of f = (case f of Some (d, e) \<Rightarrow> if e \<noteq> uuid_nil then Some (d, e) else None | None \<Rightarrow> None)"

definition package_length_ok :: "string \<Rightarrow> bool" where
  "package_length_ok p \<longleftrightarrow> (let n = length (filter (\<lambda>c. \<not> continuation (of_char c)) p) in 1 \<le> n \<and> n \<le> 128)"

definition check_activation :: "activation list \<Rightarrow> string \<Rightarrow> string \<Rightarrow> uuid \<Rightarrow> kv_error + uuid" where
  "check_activation installed p digest e =
     (case find (\<lambda>a. ac_package a = p \<and> ac_digest a = digest \<and> ac_execution a = e) installed of
        None \<Rightarrow> Inl ActivationChanged | Some a \<Rightarrow> Inr (ac_storage a))"

definition row_value :: "(kv_row \<Rightarrow> bool) \<Rightarrow> kv_row list \<Rightarrow> kv_error + bytes" where
  "row_value P rows = (case find P rows of None \<Rightarrow> Inl KvNotFound | Some r \<Rightarrow> Inr (kr_value r))"

definition pg_get :: "fence \<Rightarrow> kv_db \<Rightarrow> string \<Rightarrow> string \<Rightarrow> kv_error + bytes" where
  "pg_get f db p k =
     (if \<not> key_length_ok k then Inl KeyLength
      else case fence_of f of
        Some (digest, e) \<Rightarrow>
          andthen (check (text_ok p) TextInvalid) (\<lambda>_.
          andthen (check_activation (kd_installed db) p digest e) (\<lambda>storage.
          andthen (check (text_ok k) TextInvalid) (\<lambda>_.
            row_value (\<lambda>r. kr_package r = p \<and> kr_key r = k \<and> kr_epoch r = Some storage) (kd_rows db))))
      | None \<Rightarrow>
          andthen (check (text_ok p \<and> text_ok k) TextInvalid) (\<lambda>_.
            row_value (\<lambda>r. kr_package r = p \<and> kr_key r = k) (kd_rows db)))"

definition storage_epoch :: "fence \<Rightarrow> kv_db \<Rightarrow> string \<Rightarrow> kv_error + uuid option" where
  "storage_epoch f db p =
     (case fence_of f of None \<Rightarrow> Inr None
      | Some (digest, e) \<Rightarrow> andthen (check_activation (kd_installed db) p digest e) (\<lambda>s. Inr (Some s)))"

definition other_bytes :: "kv_row list \<Rightarrow> string \<Rightarrow> string \<Rightarrow> uuid option \<Rightarrow> nat" where
  "other_bytes rows p k ep =
     sum_list (map (\<lambda>r. length (kr_value r)) (filter (\<lambda>r. kr_package r = p \<and> kr_key r \<noteq> k \<and> kr_epoch r = ep) rows))"

definition upsert_value :: "string \<Rightarrow> string \<Rightarrow> bytes \<Rightarrow> uuid option \<Rightarrow> kv_row list \<Rightarrow> kv_row list" where
  "upsert_value p k v ep rows =
     (if list_ex (\<lambda>r. kr_package r = p \<and> kr_key r = k) rows
      then map (\<lambda>r. if kr_package r = p \<and> kr_key r = k then r\<lparr>kr_value := v, kr_epoch := ep\<rparr> else r) rows
      else rows @ [\<lparr>kr_package = p, kr_key = k, kr_value = v, kr_epoch = ep\<rparr>])"

definition pg_set_result :: "fence \<Rightarrow> kv_db \<Rightarrow> string \<Rightarrow> string \<Rightarrow> bytes \<Rightarrow> kv_error + kv_row list" where
  "pg_set_result f db p k v =
     (if \<not> key_length_ok k then Inl KeyLength
      else if max_kv_value_bytes < length v then Inl ValueTooLarge
      else
        andthen (check (text_ok p) TextInvalid) (\<lambda>_.
        andthen (storage_epoch f db p) (\<lambda>ep.
        andthen (check (text_ok k) TextInvalid) (\<lambda>_.
        andthen (check (other_bytes (kd_rows db) p k ep + length v \<le> max_kv_package_bytes) QuotaExceeded) (\<lambda>_.
        andthen (check (kd_organization db) OrganizationMissing) (\<lambda>_.
        andthen (check (package_length_ok p) PackageLength) (\<lambda>_.
          Inr (upsert_value p k v ep (kd_rows db)))))))))"

text \<open>The transaction commits or leaves the table as it was.\<close>

definition pg_set :: "fence \<Rightarrow> kv_db \<Rightarrow> string \<Rightarrow> string \<Rightarrow> bytes \<Rightarrow> kv_db \<times> (kv_error + unit)" where
  "pg_set f db p k v =
     (case pg_set_result f db p k v of Inl e \<Rightarrow> (db, Inl e) | Inr rows \<Rightarrow> (db\<lparr>kd_rows := rows\<rparr>, Inr ()))"

definition pg_remove :: "kv_db \<Rightarrow> string \<Rightarrow> kv_db \<times> (kv_error + unit)" where
  "pg_remove db p =
     (if \<not> text_ok p then (db, Inl TextInvalid)
      else (db\<lparr>kd_rows := filter (\<lambda>r. \<not> (kr_package r = p
        \<and> \<not> list_ex (\<lambda>a. ac_package a = p \<and> kr_epoch r = Some (ac_storage a)) (kd_installed db))) (kd_rows db)\<rparr>, Inr ()))"

section \<open>Host functions\<close>

text \<open>A guest's memory and the status codes it gets. \<open>Memory().Read\<close> and \<open>Write\<close> fail outside the memory.\<close>

type_synonym memory = bytes

definition err_no_grant :: int where "err_no_grant = - 1"
definition err_kv_missing :: int where "err_kv_missing = - 2"
definition err_too_large :: int where "err_too_large = - 3"
definition err_host_failure :: int where "err_host_failure = - 4"
definition err_not_allowlisted :: int where "err_not_allowlisted = - 5"
definition err_fetch_failed :: int where "err_fetch_failed = - 6"
definition err_no_operation :: int where "err_no_operation = - 7"

lemmas err_defs = err_no_grant_def err_kv_missing_def err_too_large_def err_host_failure_def err_not_allowlisted_def
  err_fetch_failed_def err_no_operation_def

definition read_memory :: "memory \<Rightarrow> 32 word \<Rightarrow> 32 word \<Rightarrow> bytes option" where
  "read_memory mem ptr n =
     (if unat ptr + unat n \<le> length mem then Some (take (unat n) (drop (unat ptr) mem)) else None)"

definition write_memory :: "memory \<Rightarrow> 32 word \<Rightarrow> bytes \<Rightarrow> memory option" where
  "write_memory mem ptr bs =
     (if unat ptr + length bs \<le> length mem
      then Some (take (unat ptr) mem @ bs @ drop (unat ptr + length bs) mem) else None)"

definition read_guest_string :: "memory \<Rightarrow> 32 word \<Rightarrow> 32 word \<Rightarrow> nat \<Rightarrow> string option" where
  "read_guest_string mem ptr n cap =
     (if cap < unat n then None else map_option (map char_of) (read_memory mem ptr n))"

text \<open>\<open>int32(len(value))\<close>.\<close>

definition length_i32 :: "'a list \<Rightarrow> int" where
  "length_i32 xs = sint (word_of_nat (length xs) :: 32 word)"

record invocation =
  iv_fence :: fence
  iv_package :: string
  iv_storage :: bool
  iv_hosts :: "string list"

text \<open>The store is the interface: \<open>get\<close> and \<open>put\<close> are its operations.\<close>

type_synonym 's get_fn = "'s \<Rightarrow> string \<Rightarrow> string \<Rightarrow> kv_error + bytes"
type_synonym 's put_fn = "'s \<Rightarrow> string \<Rightarrow> string \<Rightarrow> bytes \<Rightarrow> 's \<times> (kv_error + unit)"

definition write_result :: "memory \<Rightarrow> 32 word \<Rightarrow> 32 word \<Rightarrow> bytes \<Rightarrow> memory \<times> int" where
  "write_result mem out_ptr out_cap value =
     (if unat out_cap < length value then (mem, err_too_large)
      else case write_memory mem out_ptr value of
        None \<Rightarrow> (mem, err_too_large) | Some mem' \<Rightarrow> (mem', length_i32 value))"

definition host_kv_get ::
    "'s get_fn \<Rightarrow> invocation option \<Rightarrow> 's \<Rightarrow> memory \<Rightarrow> 32 word \<Rightarrow> 32 word \<Rightarrow> 32 word \<Rightarrow> 32 word \<Rightarrow> memory \<times> int" where
  "host_kv_get get call s mem key_ptr key_len out_ptr out_cap =
     (case call of None \<Rightarrow> (mem, err_no_grant)
      | Some c \<Rightarrow>
          if \<not> iv_storage c then (mem, err_no_grant)
          else case read_guest_string mem key_ptr key_len max_kv_key_bytes of
            None \<Rightarrow> (mem, err_too_large)
          | Some k \<Rightarrow> (case get s (iv_package c) k of
              Inl KvNotFound \<Rightarrow> (mem, err_kv_missing)
            | Inl _ \<Rightarrow> (mem, err_host_failure)
            | Inr v \<Rightarrow> write_result mem out_ptr out_cap v))"

definition host_kv_set ::
    "'s put_fn \<Rightarrow> invocation option \<Rightarrow> 's \<Rightarrow> memory \<Rightarrow> 32 word \<Rightarrow> 32 word \<Rightarrow> 32 word \<Rightarrow> 32 word \<Rightarrow> 's \<times> int" where
  "host_kv_set put call s mem key_ptr key_len val_ptr val_len =
     (case call of None \<Rightarrow> (s, err_no_grant)
      | Some c \<Rightarrow>
          if \<not> iv_storage c then (s, err_no_grant)
          else case read_guest_string mem key_ptr key_len max_kv_key_bytes of
            None \<Rightarrow> (s, err_too_large)
          | Some k \<Rightarrow>
              if max_kv_value_bytes < unat val_len then (s, err_too_large)
              else case read_memory mem val_ptr val_len of
                None \<Rightarrow> (s, err_too_large)
              | Some v \<Rightarrow> (case put s (iv_package c) k v of
                  (s', Inl _) \<Rightarrow> (s', err_host_failure) | (s', Inr _) \<Rightarrow> (s', 0)))"

text \<open>The outbound fetch and the service dispatcher are arguments.\<close>

datatype fetch_error = NotAllowlisted | FetchFailed

definition host_http_fetch ::
    "(string \<Rightarrow> string list \<Rightarrow> fetch_error + bytes) \<Rightarrow> invocation option \<Rightarrow> memory \<Rightarrow> 32 word \<Rightarrow> 32 word \<Rightarrow> 32 word \<Rightarrow> 32 word \<Rightarrow>
     memory \<times> int" where
  "host_http_fetch fetch call mem url_ptr url_len out_ptr out_cap =
     (case call of None \<Rightarrow> (mem, err_no_grant)
      | Some c \<Rightarrow>
          if iv_hosts c = [] then (mem, err_no_grant)
          else case read_guest_string mem url_ptr url_len 2048 of
            None \<Rightarrow> (mem, err_too_large)
          | Some url \<Rightarrow> (case fetch url (iv_hosts c) of
              Inl NotAllowlisted \<Rightarrow> (mem, err_not_allowlisted)
            | Inl FetchFailed \<Rightarrow> (mem, err_fetch_failed)
            | Inr body \<Rightarrow> write_result mem out_ptr out_cap body))"

definition max_operation_bytes :: nat where "max_operation_bytes = 128"
definition max_input_bytes :: nat where "max_input_bytes = 32 * 1024"
definition max_output_bytes :: nat where "max_output_bytes = 64 * 1024"

text \<open>The dispatcher denies, or executes and gives an envelope; marshalling can fail.\<close>

datatype service_reply = DeniedUnknown | Denied | Envelope bytes | MarshalError

definition host_service_call ::
    "(string \<Rightarrow> bytes \<Rightarrow> service_reply) option \<Rightarrow> memory \<Rightarrow> 32 word \<Rightarrow> 32 word \<Rightarrow> 32 word \<Rightarrow> 32 word \<Rightarrow> 32 word \<Rightarrow> 32 word \<Rightarrow>
     memory \<times> int" where
  "host_service_call caller mem op_ptr op_len in_ptr in_len out_ptr out_cap =
     (case caller of None \<Rightarrow> (mem, err_no_grant)
      | Some run \<Rightarrow>
          (case read_guest_string mem op_ptr op_len max_operation_bytes of
             None \<Rightarrow> (mem, err_too_large)
           | Some operation \<Rightarrow>
               if max_input_bytes < unat in_len then (mem, err_too_large)
               else case read_memory mem in_ptr in_len of
                 None \<Rightarrow> (mem, err_too_large)
               | Some input \<Rightarrow> (case run operation input of
                   DeniedUnknown \<Rightarrow> (mem, err_no_operation)
                 | Denied \<Rightarrow> (mem, err_no_grant)
                 | MarshalError \<Rightarrow> (mem, err_host_failure)
                 | Envelope env \<Rightarrow>
                     if max_output_bytes < length env then (mem, err_too_large)
                     else write_result mem out_ptr out_cap env)))"

lemma length_i32_of_small: "length xs < 2 ^ 31 \<Longrightarrow> length_i32 xs = int (length xs)"
  by (simp add: length_i32_def sint_uint signed_take_bit_int_eq_self unsigned_of_nat take_bit_nat_eq_self)

section \<open>The contract of a store\<close>

locale package_store =
  fixes get :: "'s \<Rightarrow> string \<Rightarrow> string \<Rightarrow> kv_error + (nat list)"
    and put :: "'s \<Rightarrow> string \<Rightarrow> string \<Rightarrow> nat list \<Rightarrow> 's \<times> (kv_error + unit)"
    and invar :: "'s \<Rightarrow> bool"
    and usage :: "'s \<Rightarrow> string \<Rightarrow> nat"
  assumes put_get: "invar s \<Longrightarrow> put s p k v = (s', Inr ()) \<Longrightarrow> get s' p k = Inr v"
    and put_other: "invar s \<Longrightarrow> put s p k v = (s', r) \<Longrightarrow> (q, j) \<noteq> (p, k) \<Longrightarrow> get s' q j = get s q j"
    and put_failed: "invar s \<Longrightarrow> put s p k v = (s', Inl e) \<Longrightarrow> get s' q j = get s q j"
    and put_invar: "invar s \<Longrightarrow> invar (fst (put s p k v))"
    and put_bounds: "put s p k v = (s', Inr ()) \<Longrightarrow> key_length_ok k \<and> length v \<le> max_kv_value_bytes"
    and get_bound: "invar s \<Longrightarrow> get s p k = Inr v \<Longrightarrow> length v \<le> max_kv_value_bytes"
    and usage_bound: "invar s \<Longrightarrow> usage s p \<le> max_kv_package_bytes"
begin

text \<open>A sequence of writes: afterwards a key holds the last value that was accepted for it.\<close>

fun writes :: "(string \<times> string \<times> nat list) list \<Rightarrow> 's \<Rightarrow> 's" where
  "writes [] s = s"
| "writes ((p, k, v) # ws) s = writes ws (fst (put s p k v))"

lemma writes_fold: "writes ws s = fold (\<lambda>(p, k, v) s. fst (put s p k v)) ws s"
  by (induction ws s rule: writes.induct) simp_all

lemma writes_invar: "invar s \<Longrightarrow> invar (writes ws s)"
  by (induction ws s rule: writes.induct) (simp_all add: put_invar)

lemma writes_usage: "invar s \<Longrightarrow> usage (writes ws s) p \<le> max_kv_package_bytes"
  by (rule usage_bound) (rule writes_invar)

lemma writes_untouched:
  "invar s \<Longrightarrow> \<forall>(p, k, v)\<in>set ws. (p, k) \<noteq> (q, j) \<Longrightarrow> get (writes ws s) q j = get s q j"
proof (induction ws s rule: writes.induct)
  case (2 p k v ws s)
  have "get (fst (put s p k v)) q j = get s q j" using put_other [OF 2(2) surjective_pairing] 2(3) by auto
  then show ?case using 2 put_invar by simp
qed simp

lemma writes_last:
  "invar s \<Longrightarrow> put (writes us s) p k v = (s', Inr ()) \<Longrightarrow> \<forall>(q, j, u)\<in>set ws. (q, j) \<noteq> (p, k) \<Longrightarrow>
     get (writes ws s') p k = Inr v"
  using writes_untouched [of s' ws p k] put_get [OF writes_invar, of s us p k v s']
    put_invar [OF writes_invar, of s us p k v] by simp

text \<open>What a guest stored, it reads back, wherever its memory has the key and the room.\<close>

lemma guest_reads_back:
  assumes "invar s" and "host_kv_set put (Some c) s mem kp kl vp vl = (s', 0)"
    and "read_guest_string mem kp kl max_kv_key_bytes = Some k" and "read_memory mem vp vl = Some v"
    and "\<forall>(q, j, u)\<in>set ws. (q, j) \<noteq> (iv_package c, k)"
    and "read_guest_string mem2 kp2 kl2 max_kv_key_bytes = Some k"
    and "length v \<le> unat oc" and "unat op + length v \<le> length mem2"
  shows "\<exists>mem'. host_kv_get get (Some c) (writes ws s') mem2 kp2 kl2 op oc = (mem', int (length v))
    \<and> length mem' = length mem2 \<and> take (length v) (drop (unat op) mem') = v
    \<and> (\<forall>i. i < unat op \<or> unat op + length v \<le> i \<longrightarrow> i < length mem2 \<longrightarrow> mem' ! i = mem2 ! i)"
proof -
  have st: "iv_storage c" "put s (iv_package c) k v = (s', Inr ())"
    using assms(2-4) by (auto simp: host_kv_set_def err_defs split: if_splits prod.splits sum.splits)
  have got: "get (writes ws s') (iv_package c) k = Inr v"
    using writes_last [of s "[]"] assms(1,5) st(2) by simp
  have len: "length v \<le> max_kv_value_bytes" using put_bounds [OF st(2)] by simp
  then have "length v < 2 ^ 31" by (simp add: max_kv_value_bytes_def)
  then have i32: "length_i32 v = int (length v)" by (simp add: length_i32_of_small)
  define mem' where "mem' = take (unat op) mem2 @ v @ drop (unat op + length v) mem2"
  have "host_kv_get get (Some c) (writes ws s') mem2 kp2 kl2 op oc = (mem', int (length v))"
    using st assms(6-8) got i32
    by (simp add: host_kv_get_def write_result_def write_memory_def mem'_def not_less)
  moreover have "mem' ! i = mem2 ! i" if "i < unat op \<or> unat op + length v \<le> i" "i < length mem2" for i
    using that assms(8) by (auto simp: mem'_def nth_append)
  moreover have "length mem' = length mem2" "take (length v) (drop (unat op) mem') = v"
    using assms(8) by (simp_all add: mem'_def)
  ultimately show ?thesis by blast
qed

end

section \<open>Both stores meet the contract\<close>

definition mem_invar :: "memory_kv \<Rightarrow> bool" where
  "mem_invar m \<longleftrightarrow> (\<forall>p. distinct (map fst (stored m p)) \<and> total_bytes (stored m p) \<le> max_kv_package_bytes
     \<and> (\<forall>(k, v)\<in>set (stored m p). length v \<le> max_kv_value_bytes))"

lemma stored_update: "stored (AList.update p vs m) q = (if q = p then vs else stored m q)"
  by (simp add: stored_def update_conv)

lemma mem_get_stored: "mem_get m p k = (if \<not> key_length_ok k then Inl KeyLength
    else case map_of (stored m p) k of None \<Rightarrow> Inl KvNotFound | Some v \<Rightarrow> Inr v)"
  by (simp add: mem_get_def stored_def split: option.splits)

lemma total_update:
  "distinct (map fst vs) \<Longrightarrow> total_bytes (AList.update k v vs) = length v + total_bytes (filter (\<lambda>(k', _). k' \<noteq> k) vs)"
proof (induction vs)
  case (Cons x vs)
  have "filter (\<lambda>(k', _). k' \<noteq> fst x) vs = vs"
    using Cons.prems by (auto simp: filter_id_conv image_iff)
  then show ?case using Cons by (cases x) (auto simp: total_bytes_def)
qed (simp add: total_bytes_def)

lemma mem_set_cases:
  obtains (failed) m' e where "mem_set m p k v = (m', Inl e)" "\<forall>q. stored m' q = stored m q"
  | (accepted) m' where "mem_set m p k v = (m', Inr ())" "key_length_ok k" "length v \<le> max_kv_value_bytes"
      "length v + total_bytes (filter (\<lambda>(k', _). k' \<noteq> k) (stored m p)) \<le> max_kv_package_bytes"
      "\<forall>q. stored m' q = (if q = p then AList.update k v (stored m p) else stored m q)"
proof (cases "key_length_ok k \<and> length v \<le> max_kv_value_bytes
    \<and> length v + total_bytes (filter (\<lambda>(k', _). k' \<noteq> k) (stored m p)) \<le> max_kv_package_bytes")
  case True
  let ?m = "AList.update p (AList.update k v (stored m p)) (AList.update p (stored m p) m)"
  have "mem_set m p k v = (?m, Inr ())" using True by (simp add: mem_set_def Let_def)
  moreover have "\<forall>q. stored ?m q = (if q = p then AList.update k v (stored m p) else stored m q)"
    by (simp add: stored_update)
  ultimately show thesis using accepted True by blast
next
  case False
  then have "mem_set m p k v \<in> {(m, Inl KeyLength), (m, Inl ValueTooLarge), (AList.update p (stored m p) m, Inl QuotaExceeded)}"
    by (auto simp: mem_set_def Let_def)
  then show thesis using failed by (auto simp: stored_update)
qed

lemma mem_set_invar: "mem_invar m \<Longrightarrow> mem_invar (fst (mem_set m p k v))"
proof (cases rule: mem_set_cases [of m p k v])
  case (accepted m')
  assume i: "mem_invar m"
  have "distinct (map fst (AList.update k v (stored m p)))"
    by (rule distinct_update) (use i in \<open>simp add: mem_invar_def\<close>)
  moreover have "total_bytes (AList.update k v (stored m p)) \<le> max_kv_package_bytes"
    using i accepted(4) by (simp add: mem_invar_def total_update)
  moreover have "length u \<le> max_kv_value_bytes" if "(j, u) \<in> set (AList.update k v (stored m p))" for j u
  proof -
    have "map_of (AList.update k v (stored m p)) j = Some u"
      using that \<open>distinct (map fst (AList.update k v (stored m p)))\<close> by simp
    then have "j = k \<and> u = v \<or> (j, u) \<in> set (stored m p)"
      by (auto simp: update_conv split: if_splits dest: map_of_SomeD)
    then show ?thesis using i accepted(3) by (auto simp: mem_invar_def)
  qed
  ultimately show ?thesis using i accepted(1,5) by (auto simp: mem_invar_def)
qed (simp_all add: mem_invar_def)

interpretation memory: package_store mem_get mem_set mem_invar "\<lambda>m p. total_bytes (stored m p)"
proof
  show "mem_set m p k v = (m', Inr ()) \<Longrightarrow> mem_get m' p k = Inr v" for m p k v m'
    by (cases rule: mem_set_cases [of m p k v]) (simp_all add: mem_get_stored update_conv)
  show "mem_set m p k v = (m', r) \<Longrightarrow> (q, j) \<noteq> (p, k) \<Longrightarrow> mem_get m' q j = mem_get m q j" for m p k v m' r q j
    by (cases rule: mem_set_cases [of m p k v]) (auto simp: mem_get_stored update_conv)
  show "mem_set m p k v = (m', Inl e) \<Longrightarrow> mem_get m' q j = mem_get m q j" for m p k v m' e q j
    by (cases rule: mem_set_cases [of m p k v]) (simp_all add: mem_get_stored)
  show "mem_invar m \<Longrightarrow> mem_invar (fst (mem_set m p k v))" for m p k v by (rule mem_set_invar)
  show "mem_set m p k v = (m', Inr ()) \<Longrightarrow> key_length_ok k \<and> length v \<le> max_kv_value_bytes" for m p k v m'
    by (cases rule: mem_set_cases [of m p k v]) simp_all
  show "mem_invar m \<Longrightarrow> mem_get m p k = Inr v \<Longrightarrow> length v \<le> max_kv_value_bytes" for m p k v
    by (auto simp: mem_get_stored mem_invar_def split: if_splits option.splits dest!: map_of_SomeD)
  show "mem_invar m \<Longrightarrow> total_bytes (stored m p) \<le> max_kv_package_bytes" for m p
    by (simp add: mem_invar_def)
qed

subsection \<open>The database store\<close>

definition row_key :: "kv_row \<Rightarrow> string \<times> string" where "row_key r = (kr_package r, kr_key r)"

definition epoch_bytes :: "kv_row list \<Rightarrow> string \<Rightarrow> uuid option \<Rightarrow> nat" where
  "epoch_bytes rows p ep = sum_list (map (\<lambda>r. length (kr_value r)) (filter (\<lambda>r. kr_package r = p \<and> kr_epoch r = ep) rows))"

definition rows_ok :: "kv_row list \<Rightarrow> bool" where
  "rows_ok rows \<longleftrightarrow> distinct (map row_key rows) \<and> (\<forall>r\<in>set rows. length (kr_value r) \<le> max_kv_value_bytes)
     \<and> (\<forall>p ep. epoch_bytes rows p ep \<le> max_kv_package_bytes)"

lemma row_key_tail: "distinct (map row_key (r # rows)) \<Longrightarrow> x \<in> set rows \<Longrightarrow> row_key x \<noteq> row_key r"
  by (auto simp: rev_image_eqI)

lemma upsert_value_key:
  "upsert_value p k v ep rows =
     (if list_ex (\<lambda>r. row_key r = (p, k)) rows
      then map (\<lambda>r. if row_key r = (p, k) then r\<lparr>kr_value := v, kr_epoch := ep\<rparr> else r) rows
      else rows @ [\<lparr>kr_package = p, kr_key = k, kr_value = v, kr_epoch = ep\<rparr>])"
  by (simp add: upsert_value_def row_key_def)

lemma upsert_value_Cons:
  assumes "distinct (map row_key (r # rows))"
  shows "upsert_value p k v ep (r # rows) =
    (if row_key r = (p, k) then r\<lparr>kr_value := v, kr_epoch := ep\<rparr> # rows else r # upsert_value p k v ep rows)"
proof (cases "row_key r = (p, k)")
  case True
  have "map (\<lambda>r. if row_key r = (p, k) then r\<lparr>kr_value := v, kr_epoch := ep\<rparr> else r) rows = rows"
    using row_key_tail [OF assms] True by (intro map_idI) auto
  then show ?thesis using True by (simp add: upsert_value_key)
next
  case False
  then show ?thesis by (simp add: upsert_value_key)
qed

lemma upsert_value_Nil: "upsert_value p k v ep [] = [\<lparr>kr_package = p, kr_key = k, kr_value = v, kr_epoch = ep\<rparr>]"
  by (simp add: upsert_value_def)

lemma row_key_record [simp]:
  "row_key (r\<lparr>kr_value := v, kr_epoch := ep\<rparr>) = row_key r"
  "row_key \<lparr>kr_package = p, kr_key = k, kr_value = v, kr_epoch = ep\<rparr> = (p, k)"
  by (simp_all add: row_key_def)

lemma distinct_upsert_value: "distinct (map row_key rows) \<Longrightarrow> distinct (map row_key (upsert_value p k v ep rows))"
proof -
  have "map row_key (map (\<lambda>r. if row_key r = (p, k) then r\<lparr>kr_value := v, kr_epoch := ep\<rparr> else r) rows) = map row_key rows"
    by simp
  then show "distinct (map row_key rows) \<Longrightarrow> distinct (map row_key (upsert_value p k v ep rows))"
    by (auto simp: upsert_value_key list_ex_iff simp del: map_map)
qed

lemma upsert_value_lengths:
  "\<forall>r\<in>set rows. length (kr_value r) \<le> n \<Longrightarrow> length v \<le> n \<Longrightarrow> \<forall>r\<in>set (upsert_value p k v ep rows). length (kr_value r) \<le> n"
  by (auto simp: upsert_value_key)

lemma find_upsert_other:
  assumes "distinct (map row_key rows)" "\<And>r. P r \<Longrightarrow> row_key r \<noteq> (p, k)"
  shows "find P (upsert_value p k v ep rows) = find P rows"
  using assms(1)
proof (induction rows)
  case Nil
  have "\<not> P \<lparr>kr_package = p, kr_key = k, kr_value = v, kr_epoch = ep\<rparr>" using assms(2) by force
  then show ?case by (simp add: upsert_value_Nil)
next
  case (Cons r rows)
  have "\<not> P r" "\<not> P (r\<lparr>kr_value := v, kr_epoch := ep\<rparr>)" if "row_key r = (p, k)" using assms(2) that by force+
  then show ?case using Cons by (simp add: upsert_value_Cons [OF Cons.prems] del: map_append list.map distinct.simps)
      (simp add: Cons)
qed

lemma find_upsert_same:
  assumes "distinct (map row_key rows)" "\<And>r. P r \<Longrightarrow> row_key r = (p, k)" "\<And>r. row_key r = (p, k) \<Longrightarrow> kr_epoch r = ep \<Longrightarrow> P r"
  shows "row_value P (upsert_value p k v ep rows) = Inr v"
  using assms(1)
proof (induction rows)
  case Nil
  have "P \<lparr>kr_package = p, kr_key = k, kr_value = v, kr_epoch = ep\<rparr>" by (rule assms(3)) simp_all
  then show ?case by (simp add: upsert_value_Nil row_value_def)
next
  case (Cons r rows)
  have d: "distinct (map row_key rows)" using Cons.prems by simp
  show ?case
  proof (cases "row_key r = (p, k)")
    case True
    then have "P (r\<lparr>kr_value := v, kr_epoch := ep\<rparr>)" by (intro assms(3)) simp_all
    then show ?thesis unfolding upsert_value_Cons [OF Cons.prems] using True by (simp add: row_value_def)
  next
    case False
    then have "\<not> P r" using assms(2) by blast
    then show ?thesis unfolding upsert_value_Cons [OF Cons.prems] using False Cons.IH [OF d] by (simp add: row_value_def)
  qed
qed

lemma other_bytes_key:
  "other_bytes rows p k ep =
     sum_list (map (\<lambda>r. length (kr_value r)) (filter (\<lambda>r. kr_package r = p \<and> row_key r \<noteq> (p, k) \<and> kr_epoch r = ep) rows))"
  by (auto simp: other_bytes_def row_key_def intro!: arg_cong [where f = "\<lambda>xs. sum_list (map (\<lambda>r. length (kr_value r)) xs)"] filter_cong)

lemma epoch_bytes_upsert:
  "distinct (map row_key rows) \<Longrightarrow> epoch_bytes (upsert_value p k v ep rows) q e =
     (if q = p then (if e = ep then length v else 0) + other_bytes rows p k e else epoch_bytes rows q e)"
proof (induction rows)
  case Nil
  then show ?case by (simp add: upsert_value_Nil epoch_bytes_def other_bytes_def)
next
  case (Cons r rows)
  have d: "distinct (map row_key rows)" using Cons.prems by simp
  show ?case
  proof (cases "row_key r = (p, k)")
    case True
    have "filter (\<lambda>r. kr_package r = p \<and> row_key r \<noteq> (p, k) \<and> kr_epoch r = e) rows = filter (\<lambda>r. kr_package r = p \<and> kr_epoch r = e) rows"
      using row_key_tail [OF Cons.prems] True by (intro filter_cong) auto
    then have "other_bytes rows p k e = epoch_bytes rows p e" by (simp add: other_bytes_key epoch_bytes_def)
    moreover have "kr_package r = p" using True by (simp add: row_key_def)
    ultimately show ?thesis
      unfolding upsert_value_Cons [OF Cons.prems] using True by (auto simp: epoch_bytes_def other_bytes_key)
  next
    case False
    then show ?thesis
      unfolding upsert_value_Cons [OF Cons.prems] using Cons.IH [OF d] by (auto simp: epoch_bytes_def other_bytes_key)
  qed
qed

lemma other_bytes_le: "other_bytes rows p k ep \<le> epoch_bytes rows p ep"
  by (induction rows) (auto simp: other_bytes_def epoch_bytes_def)

lemma rows_ok_upsert:
  assumes "rows_ok rows" "length v \<le> max_kv_value_bytes" "other_bytes rows p k ep + length v \<le> max_kv_package_bytes"
  shows "rows_ok (upsert_value p k v ep rows)"
proof -
  have d: "distinct (map row_key rows)" using assms(1) by (simp add: rows_ok_def)
  have "epoch_bytes (upsert_value p k v ep rows) q e \<le> max_kv_package_bytes" for q e
  proof -
    have "epoch_bytes rows q e \<le> max_kv_package_bytes" using assms(1) by (simp add: rows_ok_def)
    then show ?thesis
      using assms(3) other_bytes_le [of rows p k e] by (auto simp: epoch_bytes_upsert [OF d])
  qed
  then show ?thesis
    using assms(1,2) upsert_value_lengths [of rows max_kv_value_bytes v p k ep] distinct_upsert_value [OF d, of p k v ep]
    by (simp add: rows_ok_def)
qed

lemma pg_set_ok:
  "pg_set_result f db p k v = Inr rows \<longleftrightarrow> (\<exists>ep. key_length_ok k \<and> length v \<le> max_kv_value_bytes \<and> text_ok p \<and> text_ok k
     \<and> storage_epoch f db p = Inr ep \<and> other_bytes (kd_rows db) p k ep + length v \<le> max_kv_package_bytes
     \<and> kd_organization db \<and> package_length_ok p \<and> rows = upsert_value p k v ep (kd_rows db))"
  by (auto simp: pg_set_result_def not_le)

lemma pg_set_cases:
  obtains (failed) e where "pg_set f db p k v = (db, Inl e)"
  | (accepted) ep where "pg_set f db p k v = (db\<lparr>kd_rows := upsert_value p k v ep (kd_rows db)\<rparr>, Inr ())"
      "key_length_ok k" "length v \<le> max_kv_value_bytes" "text_ok p" "text_ok k" "storage_epoch f db p = Inr ep"
      "other_bytes (kd_rows db) p k ep + length v \<le> max_kv_package_bytes"
proof (cases "pg_set_result f db p k v")
  case (Inl e)
  then show thesis using failed by (simp add: pg_set_def)
next
  case (Inr rows)
  then obtain ep where "key_length_ok k" "length v \<le> max_kv_value_bytes" "text_ok p" "text_ok k"
    "storage_epoch f db p = Inr ep" "other_bytes (kd_rows db) p k ep + length v \<le> max_kv_package_bytes"
    "rows = upsert_value p k v ep (kd_rows db)"
    by (auto simp: pg_set_ok)
  then show thesis using accepted Inr by (simp add: pg_set_def)
qed

text \<open>A read is the value of a row that the key and, under a fence, the storage epoch select.\<close>

definition selects :: "string \<Rightarrow> string \<Rightarrow> uuid option \<Rightarrow> kv_row \<Rightarrow> bool" where
  "selects p k ep r \<longleftrightarrow> row_key r = (p, k) \<and> (ep \<noteq> None \<longrightarrow> kr_epoch r = ep)"

lemma pg_get_selects:
  "pg_get f db p k =
     (if \<not> key_length_ok k then Inl KeyLength
      else andthen (check (text_ok p) TextInvalid) (\<lambda>_.
           andthen (storage_epoch f db p) (\<lambda>ep.
           andthen (check (text_ok k) TextInvalid) (\<lambda>_. row_value (selects p k ep) (kd_rows db)))))"
proof -
  have "(\<lambda>r. kr_package r = p \<and> kr_key r = k) = selects p k None"
    "(\<lambda>r. kr_package r = p \<and> kr_key r = k \<and> kr_epoch r = Some e) = selects p k (Some e)" for e
    by (auto simp: selects_def row_key_def fun_eq_iff)
  then show ?thesis
    by (cases "text_ok p"; cases "text_ok k")
      (auto simp: pg_get_def storage_epoch_def andthen_def check_def split: option.splits sum.splits)
qed

lemma storage_epoch_rows [simp]: "storage_epoch f (db\<lparr>kd_rows := rows\<rparr>) p = storage_epoch f db p"
  by (simp add: storage_epoch_def split: option.splits)

definition db_ok :: "kv_db \<Rightarrow> bool" where "db_ok db \<longleftrightarrow> rows_ok (kd_rows db)"

definition epoch_usage :: "fence \<Rightarrow> kv_db \<Rightarrow> string \<Rightarrow> nat" where
  "epoch_usage f db p = (case storage_epoch f db p of Inl _ \<Rightarrow> 0 | Inr ep \<Rightarrow> epoch_bytes (kd_rows db) p ep)"

lemma pg_put_get:
  assumes "db_ok db" "pg_set f db p k v = (db', Inr ())"
  shows "pg_get f db' p k = Inr v"
proof (cases rule: pg_set_cases [of f db p k v])
  case (accepted ep)
  have "row_value (selects p k ep) (upsert_value p k v ep (kd_rows db)) = Inr v"
    by (rule find_upsert_same) (use assms(1) in \<open>auto simp: db_ok_def rows_ok_def selects_def\<close>)
  then show ?thesis using accepted assms(2) by (auto simp: pg_get_selects)
qed (use assms in simp)

lemma pg_put_other:
  assumes "db_ok db" "pg_set f db p k v = (db', r)" "(q, j) \<noteq> (p, k)"
  shows "pg_get f db' q j = pg_get f db q j"
proof (cases rule: pg_set_cases [of f db p k v])
  case (accepted ep)
  have "row_value (selects q j e) (upsert_value p k v ep (kd_rows db)) = row_value (selects q j e) (kd_rows db)" for e
    unfolding row_value_def
    by (subst find_upsert_other) (use assms in \<open>auto simp: db_ok_def rows_ok_def selects_def\<close>)
  then show ?thesis using accepted(1) assms(2) by (auto simp: pg_get_selects)
qed (use assms in simp)

lemma row_value_in: "row_value P rows = Inr v \<Longrightarrow> \<exists>r\<in>set rows. P r \<and> kr_value r = v"
  by (induction rows) (auto simp: row_value_def split: if_splits)

lemma pg_get_in: "pg_get f db p k = Inr v \<Longrightarrow> \<exists>r\<in>set (kd_rows db). row_key r = (p, k) \<and> kr_value r = v"
  by (auto simp: pg_get_selects selects_def dest!: row_value_in split: if_splits)

interpretation database: package_store "pg_get f" "pg_set f" db_ok "epoch_usage f" for f
proof
  show "db_ok db \<Longrightarrow> pg_set f db p k v = (db', Inr ()) \<Longrightarrow> pg_get f db' p k = Inr v" for db p k v db'
    by (rule pg_put_get)
  show "db_ok db \<Longrightarrow> pg_set f db p k v = (db', r) \<Longrightarrow> (q, j) \<noteq> (p, k) \<Longrightarrow> pg_get f db' q j = pg_get f db q j"
    for db p k v db' r q j by (rule pg_put_other)
  show "pg_set f db p k v = (db', Inl e) \<Longrightarrow> pg_get f db' q j = pg_get f db q j" for db p k v db' e q j
    by (cases rule: pg_set_cases [of f db p k v]) simp_all
  show "db_ok db \<Longrightarrow> db_ok (fst (pg_set f db p k v))" for db p k v
    by (cases rule: pg_set_cases [of f db p k v]) (simp_all add: db_ok_def rows_ok_upsert)
  show "pg_set f db p k v = (db', Inr ()) \<Longrightarrow> key_length_ok k \<and> length v \<le> max_kv_value_bytes" for db p k v db'
    by (cases rule: pg_set_cases [of f db p k v]) simp_all
  show "db_ok db \<Longrightarrow> pg_get f db p k = Inr v \<Longrightarrow> length v \<le> max_kv_value_bytes" for db p k v
    by (auto simp: db_ok_def rows_ok_def dest!: pg_get_in)
  show "db_ok db \<Longrightarrow> epoch_usage f db p \<le> max_kv_package_bytes" for db p
    by (simp add: epoch_usage_def db_ok_def rows_ok_def split: sum.splits)
qed

section \<open>Properties\<close>

text \<open>
  C7. What a guest stores through the host is what it reads back, in this or a later invocation, from whatever
  memory, after any number of accepted or refused writes to other keys and packages: the call gives the length of the
  value and puts its bytes at the output pointer, and no other byte of the guest's memory changes.
\<close>

theorem guest_storage_round_trip:
  assumes "db_ok db" and "host_kv_set (pg_set f) (Some c) db mem kp kl vp vl = (db', 0)"
    and "read_guest_string mem kp kl max_kv_key_bytes = Some k" and "read_memory mem vp vl = Some v"
    and "\<forall>(q, j, u)\<in>set ws. (q, j) \<noteq> (iv_package c, k)"
    and "read_guest_string mem2 kp2 kl2 max_kv_key_bytes = Some k"
    and "length v \<le> unat oc" and "unat op + length v \<le> length mem2"
  shows "\<exists>mem'. host_kv_get (pg_get f) (Some c) (fold (\<lambda>(p, k, v) db. fst (pg_set f db p k v)) ws db')
      mem2 kp2 kl2 op oc = (mem', int (length v))
    \<and> length mem' = length mem2 \<and> take (length v) (drop (unat op) mem') = v
    \<and> (\<forall>i. i < unat op \<or> unat op + length v \<le> i \<longrightarrow> i < length mem2 \<longrightarrow> mem' ! i = mem2 ! i)"
  unfolding database.writes_fold [symmetric]
  by (rule database.guest_reads_back) (use assms in auto)

definition example_db :: kv_db where
  "example_db = \<lparr>kd_rows = [], kd_installed = [\<lparr>ac_package = ''p'', ac_digest = ''d'', ac_execution = UUID ''e'', ac_storage = UUID ''s''\<rparr>],
     kd_organization = True\<rparr>"

definition example_call :: invocation where
  "example_call = \<lparr>iv_fence = Some (''d'', UUID ''e''), iv_package = ''p'', iv_storage = True, iv_hosts = []\<rparr>"

lemma example_db_ok: "db_ok example_db"
  by (simp add: db_ok_def rows_ok_def example_db_def epoch_bytes_def)

lemmas example_eval = example_call_def example_db_def host_kv_set_def pg_set_def pg_set_result_def storage_epoch_def
  check_activation_def fence_of_def text_ok_def package_length_ok_def key_length_ok_def kv_bounds read_memory_def
  read_guest_string_def other_bytes_def upsert_value_def continuation_def andthen_def check_def uuid_nil_def
  char_of_eq_iff

theorem guest_storage_round_trip_witness:
  "\<exists>db' mem'. host_kv_set (pg_set (Some (''d'', UUID ''e''))) (Some example_call) example_db [107, 7, 9] 0 1 1 2 = (db', 0)
    \<and> host_kv_get (pg_get (Some (''d'', UUID ''e''))) (Some example_call)
        (fst (pg_set (Some (''d'', UUID ''e'')) db' ''p'' ''j'' [1])) [0, 107, 0, 0] 1 1 2 2 = (mem', 2)
    \<and> take 2 (drop 2 mem') = [7, 9]"
proof -
  let ?db = "example_db\<lparr>kd_rows := [\<lparr>kr_package = ''p'', kr_key = ''k'', kr_value = [7, 9], kr_epoch = Some (UUID ''s'')\<rparr>]\<rparr>"
  have s: "host_kv_set (pg_set (Some (''d'', UUID ''e''))) (Some example_call) example_db [107, 7, 9] 0 1 1 2 = (?db, 0)"
    by (simp add: example_eval)
  have "iv_package example_call = ''p''" by (simp add: example_call_def)
  then show ?thesis
    using guest_storage_round_trip [OF example_db_ok s, where k = "''k''" and v = "[7, 9]" and ws = "[(''p'', ''j'', [1])]"
        and ?mem2.0 = "[0, 107, 0, 0]" and ?kp2.0 = 1 and ?kl2.0 = 1 and op = 2 and oc = 2] s
    by (auto simp: read_guest_string_def read_memory_def kv_bounds char_of_eq_iff)
qed

text \<open>Everything that happens to the table: writes under any fence, removals, changes of the installed packages.\<close>

datatype storage_step = Write fence string string bytes | Remove string | Install "activation list"

fun after_step :: "storage_step \<Rightarrow> kv_db \<Rightarrow> kv_db" where
  "after_step (Write f p k v) db = fst (pg_set f db p k v)"
| "after_step (Remove p) db = fst (pg_remove db p)"
| "after_step (Install as) db = db\<lparr>kd_installed := as\<rparr>"

lemma epoch_bytes_filter: "epoch_bytes (filter P rows) p ep \<le> epoch_bytes rows p ep"
  by (induction rows) (auto simp: epoch_bytes_def)

lemma rows_ok_filter: "rows_ok rows \<Longrightarrow> rows_ok (filter P rows)"
  using epoch_bytes_filter [of P rows] order_trans unfolding rows_ok_def by (fastforce simp: distinct_map_filter)

lemma after_step_ok: "db_ok db \<Longrightarrow> db_ok (after_step st db)"
proof (cases st)
  case (Write f p k v)
  then show "db_ok db \<Longrightarrow> db_ok (after_step st db)" by (simp add: database.put_invar)
qed (simp_all add: db_ok_def pg_remove_def rows_ok_filter)

lemma storage_steps_ok: "db_ok db \<Longrightarrow> db_ok (fold after_step sts db)"
  by (induction sts arbitrary: db) (simp_all add: after_step_ok)

text \<open>
  C24. Whatever is written, removed and installed, from the empty table on: no package holds more than the package quota
  in one storage lifetime, no value exceeds the value bound, and no package has two rows for a key.
\<close>

theorem storage_quota_kept:
  fixes db :: kv_db
  defines "rows sts \<equiv> kd_rows (fold after_step sts (db\<lparr>kd_rows := []\<rparr>))"
  shows "epoch_bytes (rows sts) p ep \<le> 1024 * 1024
    \<and> list_all (\<lambda>r. length (kr_value r) \<le> 64 * 1024) (rows sts)
    \<and> distinct (map row_key (rows sts))"
proof -
  have "db_ok (fold after_step sts (db\<lparr>kd_rows := []\<rparr>))"
    by (rule storage_steps_ok) (simp add: db_ok_def rows_ok_def epoch_bytes_def)
  then show ?thesis by (simp add: assms db_ok_def rows_ok_def kv_bounds list_all_iff)
qed

lemma find_found: "find P xs = Some x \<Longrightarrow> x \<in> set xs \<and> P x"
  by (induction xs) (auto split: if_splits)

lemma find_filter_kept: "(\<And>x. P x \<Longrightarrow> Q x) \<Longrightarrow> find P (filter Q xs) = find P xs"
  by (induction xs) auto

text \<open>
  C25. Removing a package's storage never takes anything from a running activation: every fenced read gives what it
  gave before, for every package and key. If no activation of the package is installed, nothing of it remains, and the
  rows of other packages are always untouched.
\<close>

theorem removal_exact:
  fixes db :: kv_db
  assumes "text_ok p"
  defines "db' \<equiv> fst (pg_remove db p)"
  shows "(fence_of f \<noteq> None \<longrightarrow> pg_get f db' q k = pg_get f db q k)
    \<and> (p \<notin> ac_package ` set (kd_installed db) \<longrightarrow> p \<notin> kr_package ` set (kd_rows db'))
    \<and> filter (\<lambda>r. kr_package r \<noteq> p) (kd_rows db') = filter (\<lambda>r. kr_package r \<noteq> p) (kd_rows db)"
proof (intro conjI impI)
  have rows: "kd_rows db' = filter (\<lambda>r. \<not> (kr_package r = p
      \<and> \<not> list_ex (\<lambda>a. ac_package a = p \<and> kr_epoch r = Some (ac_storage a)) (kd_installed db))) (kd_rows db)"
    and installed: "storage_epoch f db' q = storage_epoch f db q"
    using assms by (simp_all add: pg_remove_def)
  show "pg_get f db' q k = pg_get f db q k" if fenced: "fence_of f \<noteq> None"
  proof (cases "storage_epoch f db q")
    case (Inr ep)
    then obtain a where a: "a \<in> set (kd_installed db)" "ac_package a = q" "ep = Some (ac_storage a)"
      using fenced by (auto simp: storage_epoch_def check_activation_def dest!: find_found split: option.splits)
    have "find (selects q k ep) (kd_rows db') = find (selects q k ep) (kd_rows db)"
      unfolding rows by (rule find_filter_kept) (use a in \<open>auto simp: selects_def row_key_def list_ex_iff\<close>)
    then show ?thesis by (simp add: pg_get_selects installed Inr row_value_def)
  qed (simp add: pg_get_selects installed)
  show "p \<notin> kr_package ` set (kd_rows db')" if "p \<notin> ac_package ` set (kd_installed db)"
    using that by (force simp: rows list_ex_iff)
  show "filter (\<lambda>r. kr_package r \<noteq> p) (kd_rows db') = filter (\<lambda>r. kr_package r \<noteq> p) (kd_rows db)"
    unfolding rows filter_filter by (rule filter_cong) auto
qed

theorem removal_exact_witness:
  "pg_get (Some (''d'', UUID ''e'')) (fst (pg_remove (example_db\<lparr>kd_rows :=
      [\<lparr>kr_package = ''p'', kr_key = ''k'', kr_value = [7], kr_epoch = Some (UUID ''s'')\<rparr>,
       \<lparr>kr_package = ''p'', kr_key = ''j'', kr_value = [8], kr_epoch = Some (UUID ''old'')\<rparr>]\<rparr>) ''p'')) ''p'' ''k'' = Inr [7]"
  (is "pg_get ?f (fst (pg_remove ?db _)) _ _ = _")
proof -
  have t: "text_ok ''p''" "text_ok ''k''" by (simp_all add: example_eval)
  have "fence_of ?f \<noteq> None" by (simp add: example_eval)
  then have "pg_get ?f (fst (pg_remove ?db ''p'')) ''p'' ''k'' = pg_get ?f ?db ''p'' ''k''"
    using removal_exact [OF t(1), of ?f ?db "''p''" "''k''"] by blast
  moreover have "pg_get ?f ?db ''p'' ''k'' = Inr [7]" by (simp add: pg_get_def row_value_def example_eval)
  ultimately show ?thesis by (rule trans)
qed

end
