(* ===== verification/Incidents.thy ===== *)
theory Incidents
  imports ActivitySessions
begin

text \<open>
  Incidents: \<open>httpapi/incident_derivation.go\<close> (what an activity event opens, repeats and ends, and the sweep for
  screens that stopped reporting) and the operator actions of \<open>incident_api.go\<close>, over the tables of migration 00054
  that the content sweeps (\<open>ContentHealth\<close>) share. The partial unique index allows one active incident
  per deduplication key. New identifiers, clock readings and \<open>uuid.Parse\<close> are arguments; the columns that only report
  times of change are left out.
\<close>

section \<open>Tables\<close>

record incident =
  inc_id :: uuid
  inc_type :: string
  inc_severity :: string
  inc_status :: string
  inc_title :: string
  inc_description :: string
  inc_opened :: instant
  inc_seen :: instant
  inc_recovered :: "instant option"
  inc_resolved :: "instant option"
  inc_acked :: "instant option"
  inc_acked_by :: "uuid option"
  inc_assigned :: "uuid option"
  inc_screen :: "uuid option"
  inc_location :: "uuid option"
  inc_group :: "uuid option"
  inc_model :: string
  inc_version :: string
  inc_failure :: string
  inc_cause :: string
  inc_recovery_event :: "uuid option"
  inc_mode :: "string option"
  inc_reason :: string
  inc_notes :: string
  inc_related_type :: string
  inc_related :: string
  inc_key :: string
  inc_count :: int
  inc_metadata :: "json gomap"

record evidence =
  ie_id :: uuid
  ie_incident :: uuid
  ie_event :: "uuid option"
  ie_role :: string
  ie_at :: instant
  ie_actor :: "uuid option"
  ie_summary :: string

record audit_entry =
  au_id :: uuid
  au_user :: uuid
  au_action :: string
  au_incident :: uuid
  au_summary :: string

record incident_db =
  id_incidents :: "incident list"
  id_evidence :: "evidence list"
  id_audit :: "audit_entry list"

record screen_row =
  sr_id :: uuid
  sr_heartbeat :: "instant option"
  sr_enabled :: bool
  sr_deleted :: bool
  sr_archived :: bool
  sr_credential :: bool
  sr_location :: "uuid option"
  sr_model :: string
  sr_version :: string

definition is_active :: "incident \<Rightarrow> bool" where
  "is_active i \<longleftrightarrow> inc_status i = ''open'' \<or> inc_status i = ''acknowledged''"

definition active_for :: "string \<Rightarrow> incident \<Rightarrow> bool" where
  "active_for key i \<longleftrightarrow> inc_key i = key \<and> is_active i"

text \<open>\<open>INSERT ... ON CONFLICT DO NOTHING\<close> under the partial unique index.\<close>

definition open_incident :: "incident \<Rightarrow> incident list \<Rightarrow> incident list" where
  "open_incident i rows = (if is_active i \<and> list_ex (active_for (inc_key i)) rows then rows else rows @ [i])"

text \<open>\<open>COALESCE(NULLIF(a,''),b)\<close>.\<close>

definition or_else :: "string \<Rightarrow> string \<Rightarrow> string" where
  "or_else a b = (if a = [] then b else a)"

section \<open>Signals\<close>

record incident_signal =
  sg_type :: string
  sg_opens :: bool
  sg_severity :: string
  sg_title :: string
  sg_description :: string
  sg_cause :: string
  sg_hint :: string

definition opens :: "string \<Rightarrow> string \<Rightarrow> string \<Rightarrow> string \<Rightarrow> string \<Rightarrow> incident_signal" where
  "opens kd severity title description cause = \<lparr>sg_type = kd, sg_opens = True, sg_severity = severity, sg_title = title,
     sg_description = description, sg_cause = cause, sg_hint = []\<rparr>"

definition ends :: "string \<Rightarrow> string \<Rightarrow> incident_signal" where
  "ends kd hint = \<lparr>sg_type = kd, sg_opens = False, sg_severity = [], sg_title = [], sg_description = [], sg_cause = [],
     sg_hint = hint\<rparr>"

definition incident_signal_for :: "activity_event \<Rightarrow> incident_signal option" where
  "incident_signal_for e =
     (let t = canonical_type (ae_type e) in
      if t \<in> set [''heartbeat.gap_detected'', ''connection.lost'', ''player.disconnected''] then
        Some (opens ''connectivity'' ''error'' ''Screen stopped reporting''
          ''The Player stopped reporting within the expected heartbeat window.'' [])
      else if t \<in> set [''connection.restored'', ''player.connected''] then Some (ends ''connectivity'' ''Connection restored.'')
      else if t = ''renderer.failure'' then
        Some (opens ''playback'' ''error'' ''Playback is failing'' ''The renderer reported a failure.''
          ''Renderer failure reported by the Player.'')
      else if t = ''decoder.failure'' then
        Some (opens ''playback'' ''error'' ''Playback is failing'' ''Media decoding failed.''
          ''Decoder failure reported by the Player.'')
      else if t = ''foreground_playback.lost'' then
        Some (opens ''playback'' ''warning'' ''Playback is not on screen'' ''The Player is running in the background.''
          ''Another application took the foreground.'')
      else if t \<in> set [''renderer.recovered'', ''presentation.recovered'', ''presentation.started''] then
        Some (ends ''playback'' ''Playback resumed.'')
      else if t = ''storage.pressure'' then
        Some (opens ''storage'' ''warning'' ''Storage is nearly full'' ''Cache use crossed the configured pressure threshold.''
          ''Cached media exceeds the configured cache limit.'')
      else if t = ''storage.recovered'' then Some (ends ''storage'' ''Storage use fell below the recovery threshold.'')
      else if t = ''safe_mode.entered'' then
        Some (opens ''safe_mode'' ''critical'' ''Player is in safe mode''
          ''The Player entered safe mode and is not playing assigned content.''
          ''Repeated playback failures escalated to safe mode.'')
      else if t = ''safe_mode.exited'' then Some (ends ''safe_mode'' ''Safe mode exited.'')
      else if t = ''update.installation_failed'' then
        Some (opens ''update'' ''error'' ''Player update failed'' ''An update did not install.'' [])
      else if t = ''update.installation_completed'' then Some (ends ''update'' ''The expected Player version reconnected.'')
      else None)"

definition plays_successfully :: "activity_event \<Rightarrow> bool" where
  "plays_successfully e =
     (if canonical_type (ae_type e) \<noteq> ''content.completed'' then False
      else if ae_content e = [] \<or> ae_failure e \<noteq> [] then False
      else if (case ae_duration e of None \<Rightarrow> True | Some d \<Rightarrow> d < minimum_session_ms) then False
      else if ae_result e \<noteq> ''completed'' \<and> ae_result e \<noteq> ''success'' then False
      else terminal_of e \<in> set [''expected_item_boundary'', ''completed_duration''])"

definition dedupe_key :: "uuid \<Rightarrow> string \<Rightarrow> string" where
  "dedupe_key screen kd = kd @ '':screen:'' @ uuid_string screen"

section \<open>Derivation\<close>

definition escalate :: "string \<Rightarrow> string \<Rightarrow> string" where
  "escalate old new = (if new = ''critical'' \<or> (old \<noteq> ''critical'' \<and> new = ''error'') then new else old)"

definition latest_incident :: "string \<Rightarrow> incident list \<Rightarrow> incident option" where
  "latest_incident key rows =
     (case sort_by (\<lambda>a b. inc_opened b < inc_opened a) (filter (\<lambda>i. inc_key i = key) rows) of
        [] \<Rightarrow> None | i # _ \<Rightarrow> Some i)"

definition append_evidence :: "uuid \<Rightarrow> string \<Rightarrow> activity_event \<Rightarrow> string \<Rightarrow> string \<Rightarrow> incident_db \<Rightarrow> incident_db" where
  "append_evidence fresh key e role summary db =
     (case latest_incident key (id_incidents db) of
        None \<Rightarrow> db
      | Some i \<Rightarrow> db\<lparr>id_evidence := id_evidence db @ [\<lparr>ie_id = fresh, ie_incident = inc_id i, ie_event = Some (ae_id e),
          ie_role = role, ie_at = micros (ae_occurred e), ie_actor = None, ie_summary = safe_text summary 240\<rparr>]\<rparr>)"

definition repeat_incident :: "activity_event \<Rightarrow> incident_signal \<Rightarrow> incident \<Rightarrow> incident" where
  "repeat_incident e sg i = i\<lparr>inc_seen := max (inc_seen i) (micros (ae_occurred e)), inc_count := inc_count i + 1,
     inc_severity := escalate (inc_severity i) (sg_severity sg), inc_failure := or_else (ae_failure e) (inc_failure i)\<rparr>"

definition new_incident ::
    "(string \<Rightarrow> string) \<Rightarrow> uuid \<Rightarrow> (uuid \<times> uuid) list \<Rightarrow> screen_row \<Rightarrow> string \<Rightarrow> activity_event \<Rightarrow> incident_signal \<Rightarrow> incident" where
  "new_incident lw fresh memberships s key e sg =
     \<lparr>inc_id = fresh, inc_type = sg_type sg, inc_severity = sg_severity sg, inc_status = ''open'', inc_title = sg_title sg,
       inc_description = (if ae_message e \<noteq> [] then ae_message e else sg_description sg),
       inc_opened = micros (ae_occurred e), inc_seen = micros (ae_occurred e), inc_recovered = None, inc_resolved = None,
       inc_acked = None, inc_acked_by = None, inc_assigned = None, inc_screen = Some (sr_id s), inc_location = sr_location s,
       inc_group = first_group memberships (sr_id s), inc_model = sr_model s, inc_version = sr_version s,
       inc_failure = ae_failure e, inc_cause = sg_cause sg, inc_recovery_event = None, inc_mode = None, inc_reason = [],
       inc_notes = [], inc_related_type = ae_content_type e, inc_related = ae_content e, inc_key = key, inc_count = 1,
       inc_metadata = sanitize_map lw True (ae_metadata e)\<rparr>"

definition open_or_repeat ::
    "(string \<Rightarrow> string) \<Rightarrow> uuid \<Rightarrow> uuid \<Rightarrow> screen_row list \<Rightarrow> (uuid \<times> uuid) list \<Rightarrow> uuid \<Rightarrow> string \<Rightarrow> activity_event \<Rightarrow>
     incident_signal \<Rightarrow> incident_db \<Rightarrow> incident_db" where
  "open_or_repeat lw fresh fresh' screens memberships screen key e sg db =
     (if list_ex (active_for key) (id_incidents db)
      then append_evidence fresh' key e ''recurrence'' ''Condition reported again.''
        (db\<lparr>id_incidents := update_where (active_for key) (repeat_incident e sg) (id_incidents db)\<rparr>)
      else append_evidence fresh' key e ''opened'' (sg_title sg)
        (case find (\<lambda>s. sr_id s = screen) screens of
           None \<Rightarrow> db
         | Some s \<Rightarrow> db\<lparr>id_incidents := open_incident (new_incident lw fresh memberships s key e sg) (id_incidents db)\<rparr>))"

definition recovered :: "activity_event \<Rightarrow> string \<Rightarrow> incident \<Rightarrow> incident" where
  "recovered e hint i = i\<lparr>inc_status := ''recovered'', inc_recovered := Some (micros (ae_occurred e)),
     inc_recovery_event := Some (ae_id e), inc_mode := Some ''automatic'', inc_reason := or_else (inc_reason i) hint\<rparr>"

definition recover_where ::
    "uuid \<Rightarrow> string \<Rightarrow> (incident \<Rightarrow> bool) \<Rightarrow> activity_event \<Rightarrow> string \<Rightarrow> incident_db \<Rightarrow> incident_db" where
  "recover_where fresh key P e hint db =
     (if list_ex P (id_incidents db)
      then append_evidence fresh key e ''recovered'' hint
        (db\<lparr>id_incidents := update_where P (recovered e hint) (id_incidents db)\<rparr>)
      else db)"

definition recover_incident :: "uuid \<Rightarrow> string \<Rightarrow> activity_event \<Rightarrow> string \<Rightarrow> incident_db \<Rightarrow> incident_db" where
  "recover_incident fresh key = recover_where fresh key (active_for key)"

definition recover_for_content :: "uuid \<Rightarrow> uuid \<Rightarrow> activity_event \<Rightarrow> incident_db \<Rightarrow> incident_db" where
  "recover_for_content fresh screen e =
     (let key = dedupe_key screen ''playback'' in
      recover_where fresh key (\<lambda>i. active_for key i \<and> inc_related i = ae_content e) e
        ''The content played to a normal end again.'')"

definition derive_incident ::
    "(string \<Rightarrow> string) \<Rightarrow> uuid \<Rightarrow> uuid \<Rightarrow> screen_row list \<Rightarrow> (uuid \<times> uuid) list \<Rightarrow> uuid \<Rightarrow> activity_event \<Rightarrow>
     incident_db \<Rightarrow> incident_db" where
  "derive_incident lw fresh fresh' screens memberships screen e db =
     (if plays_successfully e then recover_for_content fresh' screen e db
      else case incident_signal_for e of
        None \<Rightarrow> db
      | Some sg \<Rightarrow>
          (let key = dedupe_key screen (sg_type sg) in
           if \<not> sg_opens sg then recover_incident fresh' key e (sg_hint sg) db
           else open_or_repeat lw fresh fresh' screens memberships screen key e sg db))"

section \<open>Operator actions\<close>

datatype action_error =
    AssigneeInvalid | AssigneeRequired | NoteRequired | ActionUnknown | NotApplicable | DatabaseFailed

record action_input =
  ai_action :: string
  ai_assigned :: string
  ai_reason :: string
  ai_notes :: string

text \<open>The statement of an action: where it applies and what it changes.\<close>

definition action_applies :: "string \<Rightarrow> incident \<Rightarrow> bool" where
  "action_applies a i =
     (if a = ''acknowledge'' then is_active i
      else if a = ''assign'' \<or> a = ''resolve'' then inc_status i \<noteq> ''resolved''
      else if a = ''ignore'' then inc_status i \<noteq> ''ignored''
      else if a = ''reopen'' then inc_status i \<in> set [''recovered'', ''resolved'', ''ignored'']
      else a = ''note'')"

definition apply_action :: "instant \<Rightarrow> uuid \<Rightarrow> uuid option \<Rightarrow> action_input \<Rightarrow> incident \<Rightarrow> incident" where
  "apply_action now actor assignee input i =
     (let a = ai_action input in
      if a = ''acknowledge'' then
        i\<lparr>inc_status := (if inc_status i = ''open'' then ''acknowledged'' else inc_status i),
          inc_acked := (case inc_acked i of None \<Rightarrow> Some (micros now) | Some t \<Rightarrow> Some t),
          inc_acked_by := (case inc_acked_by i of None \<Rightarrow> Some actor | Some u \<Rightarrow> Some u)\<rparr>
      else if a = ''assign'' then i\<lparr>inc_assigned := assignee\<rparr>
      else if a = ''resolve'' then
        i\<lparr>inc_status := ''resolved'', inc_resolved := Some (micros now),
          inc_mode := (case inc_mode i of None \<Rightarrow> Some ''manual'' | Some m \<Rightarrow> Some m),
          inc_reason := or_else (ai_reason input) (inc_reason i), inc_notes := or_else (ai_notes input) (inc_notes i)\<rparr>
      else if a = ''ignore'' then
        i\<lparr>inc_status := ''ignored'', inc_reason := or_else (ai_reason input) (inc_reason i)\<rparr>
      else if a = ''reopen'' then
        i\<lparr>inc_status := ''open'', inc_resolved := None, inc_recovered := None, inc_mode := None,
          inc_recovery_event := None, inc_seen := micros now\<rparr>
      else i)"

definition action_summary :: "action_input \<Rightarrow> string" where
  "action_summary input =
     (let a = ai_action input;
          base = (if a = ''acknowledge'' then ''Acknowledged'' else if a = ''assign'' then ''Assigned''
            else if a = ''note'' then ai_notes input else if a = ''resolve'' then ''Resolved''
            else if a = ''ignore'' then ''Ignored'' else ''Reopened'')
      in if ai_reason input \<noteq> [] \<and> a \<noteq> ''note'' then base @ '': '' @ ai_reason input else base)"

text \<open>The unique index refuses a statement that leaves two active incidents under one key.\<close>

definition index_ok :: "incident list \<Rightarrow> bool" where
  "index_ok rows \<longleftrightarrow> distinct (map inc_key (filter is_active rows))"

definition action_rows :: "instant \<Rightarrow> uuid \<Rightarrow> uuid option \<Rightarrow> uuid \<Rightarrow> action_input \<Rightarrow> incident list \<Rightarrow> incident list" where
  "action_rows now actor assignee target input =
     update_where (\<lambda>i. inc_id i = target \<and> action_applies (ai_action input) i) (apply_action now actor assignee input)"

text \<open>The checks of the request, then the errors of the statements in their order.\<close>

definition check_action :: "action_input \<Rightarrow> uuid option \<Rightarrow> action_error + unit" where
  "check_action input assignee =
     (let a = ai_action input in
      if ai_assigned input \<noteq> [] \<and> assignee = None then Inl AssigneeInvalid
      else if a \<notin> set [''acknowledge'', ''assign'', ''note'', ''resolve'', ''ignore'', ''reopen''] then Inl ActionUnknown
      else if a = ''assign'' \<and> assignee = None then Inl AssigneeRequired
      else if a = ''note'' \<and> ai_notes input = [] then Inl NoteRequired
      else Inr ())"

definition run_action :: "(uuid \<Rightarrow> bool) \<Rightarrow> action_input \<Rightarrow> uuid option \<Rightarrow> uuid \<Rightarrow> incident list \<Rightarrow> incident list \<Rightarrow> action_error + unit" where
  "run_action known_user input assignee target rows rows' =
     (let a = ai_action input in
      if a \<in> set [''resolve'', ''ignore''] \<and> \<not> text_ok (ai_reason input) then Inl DatabaseFailed
      else if a = ''resolve'' \<and> \<not> text_ok (ai_notes input) then Inl DatabaseFailed
      else if \<not> list_ex (\<lambda>i. inc_id i = target \<and> action_applies a i) rows then Inl NotApplicable
      else if a = ''assign'' \<and> (case assignee of Some u \<Rightarrow> \<not> known_user u | None \<Rightarrow> False) then Inl DatabaseFailed
      else if \<not> index_ok rows' then Inl DatabaseFailed
      else Inr ())"

definition incident_action ::
    "(string \<Rightarrow> uuid option) \<Rightarrow> (uuid \<Rightarrow> bool) \<Rightarrow> uuid \<Rightarrow> uuid \<Rightarrow> uuid \<Rightarrow> instant \<Rightarrow> uuid \<Rightarrow> action_input \<Rightarrow> incident_db \<Rightarrow>
     action_error + incident_db" where
  "incident_action parse known_user fresh fresh' actor now target input0 db =
     (let input = input0\<lparr>ai_reason := safe_text (ai_reason input0) 240, ai_notes := safe_text (ai_notes input0) 2000\<rparr>;
          assignee = (if ai_assigned input = [] then None else parse (ai_assigned input));
          summary = safe_text (action_summary input) 240;
          rows = action_rows now actor assignee target input (id_incidents db)
      in andthen (check_action input assignee) (\<lambda>_.
         andthen (run_action known_user input assignee target (id_incidents db) rows) (\<lambda>_.
         andthen (check (text_ok summary) DatabaseFailed) (\<lambda>_.
           Inr (db\<lparr>id_incidents := rows,
             id_evidence := id_evidence db @ [\<lparr>ie_id = fresh, ie_incident = target, ie_event = None, ie_role = ''action'',
               ie_at = micros now, ie_actor = Some actor, ie_summary = summary\<rparr>],
             id_audit := id_audit db @ [\<lparr>au_id = fresh', au_user = actor, au_action = ''incident.'' @ ai_action input,
               au_incident = target, au_summary = summary\<rparr>]\<rparr>)))))"

section \<open>Sweeps\<close>

text \<open>A sweep inserts one row per failing subject, then recovers the active rows whose condition ended.\<close>

definition open_all :: "('x \<Rightarrow> incident) \<Rightarrow> 'x list \<Rightarrow> incident list \<Rightarrow> incident list" where
  "open_all row xs rows = fold (\<lambda>x. open_incident (row x)) xs rows"

definition swept :: "instant \<Rightarrow> string \<Rightarrow> incident \<Rightarrow> incident" where
  "swept t hint i = i\<lparr>inc_status := ''recovered'', inc_recovered := Some t, inc_mode := Some ''automatic'',
     inc_reason := or_else (inc_reason i) hint\<rparr>"

definition heartbeat_grace :: duration where "heartbeat_grace = 15 * minute"

definition incident_title :: "string \<Rightarrow> string" where
  "incident_title kd =
     (if kd = ''connectivity'' then ''Screen stopped reporting''
      else if kd = ''playback'' then ''Playback is failing''
      else if kd = ''storage'' then ''Storage is nearly full''
      else if kd = ''safe_mode'' then ''Player is in safe mode''
      else if kd = ''update'' then ''Player update failed''
      else map (\<lambda>c. if c = CHR ''_'' then CHR '' '' else c) kd)"

definition blank_incident :: "uuid \<Rightarrow> string \<Rightarrow> string \<Rightarrow> string \<Rightarrow> string \<Rightarrow> incident" where
  "blank_incident fresh kd severity title key =
     \<lparr>inc_id = fresh, inc_type = kd, inc_severity = severity, inc_status = ''open'', inc_title = title, inc_description = [],
       inc_opened = 0, inc_seen = 0, inc_recovered = None, inc_resolved = None, inc_acked = None, inc_acked_by = None,
       inc_assigned = None, inc_screen = None, inc_location = None, inc_group = None, inc_model = [], inc_version = [],
       inc_failure = [], inc_cause = [], inc_recovery_event = None, inc_mode = None, inc_reason = [], inc_notes = [],
       inc_related_type = [], inc_related = [], inc_key = key, inc_count = 1, inc_metadata = []\<rparr>"

definition unreachable :: "instant \<Rightarrow> screen_row \<Rightarrow> bool" where
  "unreachable now s \<longleftrightarrow> sr_enabled s \<and> \<not> sr_deleted s \<and> \<not> sr_archived s
     \<and> (case sr_heartbeat s of None \<Rightarrow> False | Some h \<Rightarrow> h < now - heartbeat_grace) \<and> sr_credential s"

definition heartbeat_of :: "screen_row \<Rightarrow> instant" where
  "heartbeat_of s = (case sr_heartbeat s of Some h \<Rightarrow> h | None \<Rightarrow> 0)"

definition offline_incident :: "(uuid \<Rightarrow> uuid) \<Rightarrow> (uuid \<times> uuid) list \<Rightarrow> instant \<Rightarrow> screen_row \<Rightarrow> incident" where
  "offline_incident fresh memberships now s =
     (blank_incident (fresh (sr_id s)) ''connectivity'' ''error'' (incident_title ''connectivity'') (dedupe_key (sr_id s) ''connectivity''))
       \<lparr>inc_description := ''The Player has not reported within the heartbeat grace period.'',
        inc_opened := heartbeat_of s + heartbeat_grace, inc_seen := now, inc_screen := Some (sr_id s),
        inc_location := sr_location s, inc_group := first_group memberships (sr_id s), inc_model := sr_model s,
        inc_version := sr_version s, inc_metadata := [(''source'', JStr ''offline_sweep'')]\<rparr>"

definition reporting :: "instant \<Rightarrow> screen_row \<Rightarrow> bool" where
  "reporting now s \<longleftrightarrow> (case sr_heartbeat s of None \<Rightarrow> False | Some h \<Rightarrow> now - heartbeat_grace \<le> h)"

definition back_online :: "screen_row list \<Rightarrow> instant \<Rightarrow> incident \<Rightarrow> screen_row option" where
  "back_online screens now i =
     (if inc_type i = ''connectivity'' \<and> is_active i
      then find (\<lambda>s. inc_screen i = Some (sr_id s) \<and> reporting now s) screens else None)"

definition sync_offline ::
    "(uuid \<Rightarrow> uuid) \<Rightarrow> screen_row list \<Rightarrow> (uuid \<times> uuid) list \<Rightarrow> instant \<Rightarrow> instant \<Rightarrow> incident list \<Rightarrow> incident list" where
  "sync_offline fresh screens memberships now now' rows =
     map (\<lambda>i. case back_online screens now' i of
            None \<Rightarrow> i | Some s \<Rightarrow> swept (heartbeat_of s) ''Screen is reporting again.'' i)
       (open_all (offline_incident fresh memberships now) (filter (unreachable now) screens) rows)"

section \<open>Lifecycle\<close>

text \<open>What the columns of an incident say about each other in every state of its life.\<close>

definition lifecycle_ok :: "incident \<Rightarrow> bool" where
  "lifecycle_ok i \<longleftrightarrow>
     inc_status i \<in> set [''open'', ''acknowledged'', ''recovered'', ''resolved'', ''ignored'']
     \<and> inc_severity i \<in> set [''warning'', ''error'', ''critical''] \<and> 1 \<le> inc_count i
     \<and> (is_active i \<longrightarrow> inc_recovered i = None \<and> inc_resolved i = None \<and> inc_mode i = None \<and> inc_recovery_event i = None)
     \<and> (inc_status i = ''acknowledged'' \<longrightarrow> inc_acked i \<noteq> None)
     \<and> (inc_status i = ''recovered'' \<longrightarrow> inc_recovered i \<noteq> None \<and> inc_resolved i = None \<and> inc_mode i = Some ''automatic'')
     \<and> (inc_status i = ''resolved'' \<longrightarrow> inc_resolved i \<noteq> None \<and> inc_mode i \<noteq> None)"

definition incidents_ok :: "incident list \<Rightarrow> bool" where
  "incidents_ok rows \<longleftrightarrow> index_ok rows \<and> list_all lifecycle_ok rows"

lemma update_where_Nil [simp]: "update_where P f [] = []"
  by (simp add: update_where_def)

lemma update_where_Cons [simp]: "update_where P f (r # rows) = (if P r then f r else r) # update_where P f rows"
  by (simp add: update_where_def)

lemma index_ok_Nil [simp]: "index_ok []"
  by (simp add: index_ok_def)

lemma active_for_keys: "list_ex (active_for k) rows \<longleftrightarrow> k \<in> set (map inc_key (filter is_active rows))"
  by (auto simp: list_ex_iff active_for_def)

lemma index_ok_Cons: "index_ok (i # rows) \<longleftrightarrow> index_ok rows \<and> (is_active i \<longrightarrow> \<not> list_ex (active_for (inc_key i)) rows)"
  unfolding active_for_keys by (auto simp: index_ok_def)

lemma active_update:
  assumes "\<And>i. P i \<Longrightarrow> inc_key (f i) = inc_key i" "\<And>i. P i \<Longrightarrow> is_active (f i) \<Longrightarrow> is_active i"
  shows "list_ex (active_for k) (update_where P f rows) \<Longrightarrow> list_ex (active_for k) rows"
proof (induction rows)
  case (Cons i rows)
  then show ?case using assms by (cases "P i") (auto simp: active_for_def)
qed simp

lemma index_ok_update:
  assumes "\<And>i. P i \<Longrightarrow> inc_key (f i) = inc_key i" "\<And>i. P i \<Longrightarrow> is_active (f i) \<Longrightarrow> is_active i"
  shows "index_ok rows \<Longrightarrow> index_ok (update_where P f rows)"
proof (induction rows)
  case (Cons i rows)
  have u: "list_ex (active_for k) (update_where P f rows) \<Longrightarrow> list_ex (active_for k) rows" for k
    by (rule active_update [where P = P and f = f]) (rule assms; assumption)+
  show ?case using Cons assms u by (cases "P i") (auto simp: index_ok_Cons)
qed simp

lemma lifecycle_update:
  "(\<And>i. P i \<Longrightarrow> lifecycle_ok i \<Longrightarrow> lifecycle_ok (f i)) \<Longrightarrow> list_all lifecycle_ok rows \<Longrightarrow>
     list_all lifecycle_ok (update_where P f rows)"
  by (induction rows) auto

lemma incidents_ok_update:
  assumes "\<And>i. P i \<Longrightarrow> inc_key (f i) = inc_key i" "\<And>i. P i \<Longrightarrow> is_active (f i) \<Longrightarrow> is_active i"
    "\<And>i. P i \<Longrightarrow> lifecycle_ok i \<Longrightarrow> lifecycle_ok (f i)"
  shows "incidents_ok rows \<Longrightarrow> incidents_ok (update_where P f rows)"
  using index_ok_update [where P = P and f = f, OF assms(1,2)] lifecycle_update [where P = P and f = f, OF assms(3)]
  by (simp add: incidents_ok_def)

lemma index_ok_snoc: "index_ok (rows @ [i]) \<longleftrightarrow> index_ok rows \<and> (is_active i \<longrightarrow> \<not> list_ex (active_for (inc_key i)) rows)"
  unfolding active_for_keys by (auto simp: index_ok_def)

lemma incidents_ok_open: "incidents_ok rows \<Longrightarrow> lifecycle_ok i \<Longrightarrow> incidents_ok (open_incident i rows)"
  by (auto simp: incidents_ok_def open_incident_def index_ok_snoc)

lemma escalate_severity:
  "new \<in> set [''warning'', ''error'', ''critical''] \<Longrightarrow> old \<in> set [''warning'', ''error'', ''critical''] \<Longrightarrow>
     escalate old new \<in> set [''warning'', ''error'', ''critical'']"
  by (auto simp: escalate_def)

lemma opening_severity: "incident_signal_for e = Some sg \<Longrightarrow> sg_opens sg \<Longrightarrow> sg_severity sg \<in> set [''warning'', ''error'', ''critical'']"
  by (auto simp: incident_signal_for_def opens_def ends_def Let_def split: if_splits)

lemma append_evidence_incidents [simp]: "id_incidents (append_evidence fresh key e role summary db) = id_incidents db"
  by (simp add: append_evidence_def split: option.split)

lemma repeat_key [simp]: "inc_key (repeat_incident e sg i) = inc_key i" "is_active (repeat_incident e sg i) = is_active i"
  by (simp_all add: repeat_incident_def is_active_def)

lemma repeat_lifecycle:
  "sg_severity sg \<in> set [''warning'', ''error'', ''critical''] \<Longrightarrow> lifecycle_ok i \<Longrightarrow> lifecycle_ok (repeat_incident e sg i)"
  using escalate_severity [of "sg_severity sg" "inc_severity i"]
  by (auto simp: lifecycle_ok_def repeat_incident_def is_active_def)

lemma new_incident_ok:
  "sg_severity sg \<in> set [''warning'', ''error'', ''critical''] \<Longrightarrow> lifecycle_ok (new_incident lw fresh ms s key e sg)"
  "inc_key (new_incident lw fresh ms s key e sg) = key" "is_active (new_incident lw fresh ms s key e sg)"
  by (simp_all add: lifecycle_ok_def new_incident_def is_active_def)

lemma recovered_ok [simp]:
  "inc_key (recovered e hint i) = inc_key i" "\<not> is_active (recovered e hint i)"
  by (simp_all add: recovered_def is_active_def)

lemma recovered_lifecycle: "is_active i \<Longrightarrow> lifecycle_ok i \<Longrightarrow> lifecycle_ok (recovered e hint i)"
  by (auto simp: lifecycle_ok_def recovered_def is_active_def)

lemma recover_where_ok:
  assumes "\<And>i. P i \<Longrightarrow> is_active i" "incidents_ok (id_incidents db)"
  shows "incidents_ok (id_incidents (recover_where fresh key P e hint db))"
  using incidents_ok_update [of P "recovered e hint", OF _ _ recovered_lifecycle [OF assms(1)]] assms(2)
  by (simp add: recover_where_def)

lemma derive_incident_ok:
  assumes "incidents_ok (id_incidents db)"
  shows "incidents_ok (id_incidents (derive_incident lw f f' screens ms screen e db))"
proof (cases "plays_successfully e")
  case True
  then show ?thesis
    by (auto simp: derive_incident_def recover_for_content_def Let_def active_for_def intro!: recover_where_ok assms)
next
  case False
  show ?thesis
  proof (cases "incident_signal_for e")
    case (Some sg)
    show ?thesis
    proof (cases "sg_opens sg")
      case True
      have sev: "sg_severity sg \<in> set [''warning'', ''error'', ''critical'']" by (rule opening_severity [OF Some True])
      have "incidents_ok (update_where (active_for key) (repeat_incident e sg) (id_incidents db))" for key
        by (rule incidents_ok_update) (use assms repeat_lifecycle [OF sev] in \<open>simp_all\<close>)
      then show ?thesis
        using False Some True assms new_incident_ok(1) [OF sev] incidents_ok_open
        by (simp add: derive_incident_def open_or_repeat_def Let_def split: option.split)
    next
      case o: False
      then show ?thesis
        using False Some
        by (auto simp: derive_incident_def recover_incident_def Let_def active_for_def intro!: recover_where_ok assms)
    qed
  qed (use False assms in \<open>simp add: derive_incident_def\<close>)
qed

lemma apply_action_key: "inc_key (apply_action now actor assignee input i) = inc_key i"
  by (simp add: apply_action_def Let_def)

lemma lifecycle_acknowledged:
  "is_active i \<Longrightarrow> lifecycle_ok i \<Longrightarrow> lifecycle_ok (i\<lparr>inc_status := (if inc_status i = ''open'' then ''acknowledged'' else inc_status i),
     inc_acked := Some t, inc_acked_by := u\<rparr>)"
  by (auto simp: lifecycle_ok_def is_active_def)

lemma lifecycle_resolved:
  "lifecycle_ok i \<Longrightarrow> lifecycle_ok (i\<lparr>inc_status := ''resolved'', inc_resolved := Some t, inc_mode := Some m, inc_reason := r, inc_notes := n\<rparr>)"
  by (simp add: lifecycle_ok_def is_active_def)

lemma lifecycle_ignored: "lifecycle_ok i \<Longrightarrow> lifecycle_ok (i\<lparr>inc_status := ''ignored'', inc_reason := r\<rparr>)"
  by (simp add: lifecycle_ok_def is_active_def)

lemma lifecycle_reopened:
  "lifecycle_ok i \<Longrightarrow> lifecycle_ok (i\<lparr>inc_status := ''open'', inc_resolved := None, inc_recovered := None, inc_mode := None,
     inc_recovery_event := None, inc_seen := t\<rparr>)"
  by (simp add: lifecycle_ok_def is_active_def)

lemma lifecycle_assigned: "lifecycle_ok (i\<lparr>inc_assigned := a\<rparr>) = lifecycle_ok i"
  by (simp add: lifecycle_ok_def is_active_def)

lemma apply_action_lifecycle:
  assumes "action_applies (ai_action input) i" "lifecycle_ok i"
  shows "lifecycle_ok (apply_action now actor assignee input i)"
proof (cases "ai_action input = ''acknowledge''")
  case True
  then have "is_active i" using assms(1) by (simp add: action_applies_def)
  from lifecycle_acknowledged [OF this assms(2)] show ?thesis
    using True by (cases "inc_acked i") (simp_all add: apply_action_def)
next
  case False
  then show ?thesis
    using lifecycle_resolved [OF assms(2)] lifecycle_ignored [OF assms(2)] lifecycle_reopened [OF assms(2)]
    by (cases "inc_mode i") (simp_all add: apply_action_def Let_def lifecycle_assigned assms(2))
qed

lemma run_action_index: "run_action known input assignee target rows rows' = Inr u \<Longrightarrow> index_ok rows'"
  by (simp add: run_action_def Let_def split: if_splits)

lemma incident_action_rows:
  assumes "incident_action parse known f f' actor now target input db = Inr db'"
  shows "\<exists>assignee input'. id_incidents db' = action_rows now actor assignee target input' (id_incidents db)
    \<and> ai_action input' = ai_action input \<and> index_ok (id_incidents db')"
proof -
  define input' where "input' = input\<lparr>ai_reason := safe_text (ai_reason input) 240, ai_notes := safe_text (ai_notes input) 2000\<rparr>"
  define assignee where "assignee = (if ai_assigned input' = [] then None else parse (ai_assigned input'))"
  have "run_action known input' assignee target (id_incidents db)
      (action_rows now actor assignee target input' (id_incidents db)) = Inr ()
    \<and> id_incidents db' = action_rows now actor assignee target input' (id_incidents db)"
    using assms unfolding incident_action_def Let_def input'_def [symmetric] assignee_def [symmetric] by auto
  moreover have "ai_action input' = ai_action input" by (simp add: input'_def)
  ultimately show ?thesis using run_action_index by metis
qed

lemma incident_action_ok:
  assumes "incidents_ok (id_incidents db)" "incident_action parse known f f' actor now target input db = Inr db'"
  shows "incidents_ok (id_incidents db')"
proof -
  obtain assignee input' where rows: "id_incidents db' = action_rows now actor assignee target input' (id_incidents db)"
      "index_ok (id_incidents db')"
    using incident_action_rows [OF assms(2)] by blast
  have "list_all lifecycle_ok (id_incidents db')"
    unfolding rows(1) action_rows_def
    by (rule lifecycle_update) (use assms(1) apply_action_lifecycle in \<open>auto simp: incidents_ok_def\<close>)
  then show ?thesis using rows(2) by (simp add: incidents_ok_def)
qed

section \<open>Keys\<close>

definition screen_types :: "string list" where
  "screen_types = [''connectivity'', ''playback'', ''storage'', ''safe_mode'', ''update'']"

definition keyed :: "incident \<Rightarrow> bool" where
  "keyed i \<longleftrightarrow> (case inc_screen i of
     Some s \<Rightarrow> inc_type i \<in> set screen_types \<and> inc_key i = dedupe_key s (inc_type i)
   | None \<Rightarrow> inc_type i = ''data_source'' \<and> has_prefix (inc_key i) ''data_source:source:''
       \<or> inc_type i = ''content'' \<and> has_prefix (inc_key i) ''content:playlist:'')"

lemma takeWhile_type: "kd \<in> set screen_types \<Longrightarrow> cut_before CHR '':'' (kd @ CHR '':'' # rest) = kd"
  by (auto simp: screen_types_def cut_before_def)

lemma dedupe_key_inj:
  assumes "kd \<in> set screen_types" "kd' \<in> set screen_types" "dedupe_key s kd = dedupe_key s' kd'"
  shows "s = s' \<and> kd = kd'"
proof -
  have "kd = kd'"
    using arg_cong [OF assms(3), of "cut_before CHR '':''"] takeWhile_type [OF assms(1)] takeWhile_type [OF assms(2)]
    by (simp add: dedupe_key_def)
  then show ?thesis using assms(3) by (simp add: dedupe_key_def)
qed

lemma signal_type: "incident_signal_for e = Some sg \<Longrightarrow> sg_type sg \<in> set screen_types"
  by (auto simp: incident_signal_for_def opens_def ends_def screen_types_def Let_def split: if_splits)

lemma keyed_update:
  assumes "\<And>i. P i \<Longrightarrow> inc_key (f i) = inc_key i \<and> inc_screen (f i) = inc_screen i \<and> inc_type (f i) = inc_type i"
  shows "list_all keyed rows \<Longrightarrow> list_all keyed (update_where P f rows)"
proof -
  have "keyed (f i) = keyed i" if "P i" for i
    unfolding keyed_def using assms [OF that] by (cases "inc_screen i") simp_all
  then show "list_all keyed rows \<Longrightarrow> list_all keyed (update_where P f rows)" by (induction rows) auto
qed

lemma list_all_open: "list_all Q rows \<Longrightarrow> Q i \<Longrightarrow> list_all Q (open_incident i rows)"
  by (simp add: open_incident_def)

lemma recover_where_keyed: "list_all keyed (id_incidents db) \<Longrightarrow> list_all keyed (id_incidents (recover_where fresh key P e hint db))"
  using keyed_update [of P "recovered e hint" "id_incidents db"] by (simp add: recover_where_def recovered_def)

lemma derive_incident_keyed:
  assumes "list_all keyed (id_incidents db)"
  shows "list_all keyed (id_incidents (derive_incident lw f f' screens ms screen e db))"
proof (cases "\<exists>sg. \<not> plays_successfully e \<and> incident_signal_for e = Some sg \<and> sg_opens sg")
  case True
  then obtain sg where sg: "\<not> plays_successfully e" "incident_signal_for e = Some sg" "sg_opens sg" by blast
  have "keyed (new_incident lw f ms s (dedupe_key screen (sg_type sg)) e sg)" if "find (\<lambda>s. sr_id s = screen) screens = Some s" for s
    using that signal_type [OF sg(2)] by (auto simp: find_Some_iff keyed_def new_incident_def)
  moreover have "list_all keyed (update_where P (repeat_incident e sg) (id_incidents db))" for P
    by (rule keyed_update [OF _ assms]) (simp add: repeat_incident_def)
  ultimately show ?thesis
    using sg assms by (simp add: derive_incident_def open_or_repeat_def Let_def list_all_open split: option.split)
next
  case False
  then show ?thesis
    using recover_where_keyed [OF assms] assms
    by (auto simp: derive_incident_def recover_for_content_def recover_incident_def Let_def split: option.split)
qed

lemma incident_action_keyed:
  assumes "list_all keyed (id_incidents db)" "incident_action parse known f f' actor now target input db = Inr db'"
  shows "list_all keyed (id_incidents db')"
proof -
  obtain assignee input' where rows: "id_incidents db' = action_rows now actor assignee target input' (id_incidents db)"
    using incident_action_rows [OF assms(2)] by blast
  show ?thesis
    unfolding rows action_rows_def by (rule keyed_update [OF _ assms(1)]) (simp add: apply_action_def Let_def)
qed

section \<open>Sweeping conditions\<close>

text \<open>
  What a sweep promises, whatever condition it watches: a row of a failing subject is active, a row that ends is active
  until then, and the row under the key of a subject does not end while the subject fails.
\<close>

locale condition_sweep =
  fixes row :: "'x \<Rightarrow> incident" and failing :: "'x \<Rightarrow> bool"
    and ended :: "incident \<Rightarrow> bool" and finish :: "incident \<Rightarrow> incident"
  assumes row_active: "failing x \<Longrightarrow> is_active (row x)"
    and row_kept: "failing x \<Longrightarrow> lifecycle_ok (row x) \<and> keyed (row x)"
    and ended_active: "ended i \<Longrightarrow> is_active i"
    and finish_ends: "ended i \<Longrightarrow> \<not> is_active (finish i)"
    and finish_key: "inc_key (finish i) = inc_key i \<and> inc_screen (finish i) = inc_screen i \<and> inc_type (finish i) = inc_type i"
    and finish_kept: "ended i \<Longrightarrow> lifecycle_ok i \<Longrightarrow> lifecycle_ok (finish i)"
    and failing_lasts: "failing x \<Longrightarrow> keyed i \<Longrightarrow> inc_key i = inc_key (row x) \<Longrightarrow> \<not> ended i"
begin

definition sweep :: "'x list \<Rightarrow> incident list \<Rightarrow> incident list" where
  "sweep xs rows = update_where ended finish (open_all row (filter failing xs) rows)"

lemma open_all_kept:
  "incidents_ok rows \<and> list_all keyed rows \<Longrightarrow>
     incidents_ok (open_all row (filter failing xs) rows) \<and> list_all keyed (open_all row (filter failing xs) rows)"
  by (induction xs arbitrary: rows) (auto simp: open_all_def incidents_ok_open list_all_open row_kept)

lemma sweep_kept: "incidents_ok rows \<and> list_all keyed rows \<Longrightarrow> incidents_ok (sweep xs rows) \<and> list_all keyed (sweep xs rows)"
proof -
  assume "incidents_ok rows \<and> list_all keyed rows"
  then have o: "incidents_ok (open_all row (filter failing xs) rows)" "list_all keyed (open_all row (filter failing xs) rows)"
    using open_all_kept by blast+
  show ?thesis
    unfolding sweep_def
    by (rule conjI [OF incidents_ok_update [OF _ _ _ o(1)] keyed_update [OF _ o(2)]])
      (auto simp: finish_key finish_kept dest: finish_ends)
qed

lemma open_incident_active: "list_ex (active_for k) rows \<Longrightarrow> list_ex (active_for k) (open_incident i rows)"
  by (auto simp: open_incident_def)

lemma open_all_active: "list_ex (active_for k) rows \<Longrightarrow> list_ex (active_for k) (open_all row ys rows)"
  by (induction ys arbitrary: rows) (simp_all add: open_all_def open_incident_active)

lemma open_all_opens: "x \<in> set xs \<Longrightarrow> failing x \<Longrightarrow> list_ex (active_for (inc_key (row x))) (open_all row (filter failing xs) rows)"
proof (induction xs arbitrary: rows)
  case (Cons y ys)
  have "list_ex (active_for (inc_key (row x))) (open_incident (row x) rows)" if "failing x"
    using row_active [OF that] by (auto simp: open_incident_def active_for_def)
  then show ?case using Cons open_all_active [of "inc_key (row x)" "open_incident (row x) rows" "filter failing ys"]
    by (auto simp: open_all_def)
qed simp

text \<open>After a sweep every failing subject has its active row and no condition that ended is active.\<close>

lemma sweep_opens:
  assumes "incidents_ok rows \<and> list_all keyed rows" "x \<in> set xs" "failing x"
  shows "list_ex (active_for (inc_key (row x))) (sweep xs rows)"
proof -
  obtain i where i: "i \<in> set (open_all row (filter failing xs) rows)" "active_for (inc_key (row x)) i"
    using open_all_opens [OF assms(2,3)] by (auto simp: list_ex_iff)
  have "keyed i" using open_all_kept [OF assms(1), of xs] i(1) by (auto simp: list_all_iff)
  then have "\<not> ended i" using failing_lasts [OF assms(3)] i(2) by (auto simp: active_for_def)
  then have "i \<in> set (sweep xs rows)" using i(1) by (force simp: sweep_def update_where_def)
  then show ?thesis using i(2) by (auto simp: list_ex_iff)
qed

lemma sweep_ends: "i \<in> set (sweep xs rows) \<Longrightarrow> \<not> ended i"
  using ended_active finish_ends by (force simp: sweep_def update_where_def)

lemma open_all_nothing:
  "\<forall>x\<in>set xs. failing x \<longrightarrow> list_ex (active_for (inc_key (row x))) rows \<Longrightarrow> open_all row (filter failing xs) rows = rows"
  by (induction xs) (auto simp: open_all_def open_incident_def row_active)

lemma sweep_idempotent:
  assumes "incidents_ok rows \<and> list_all keyed rows"
  shows "sweep xs (sweep xs rows) = sweep xs rows"
proof -
  have "open_all row (filter failing xs) (sweep xs rows) = sweep xs rows"
    by (rule open_all_nothing) (use sweep_opens [OF assms] in blast)
  moreover have "update_where ended finish (sweep xs rows) = sweep xs rows"
    using sweep_ends [of _ xs rows] by (auto simp: update_where_def intro: map_idI)
  ultimately show ?thesis by (simp add: sweep_def [of xs "sweep xs rows"])
qed

lemma sweep_keeps: "i \<in> set rows \<Longrightarrow> \<not> ended i \<Longrightarrow> i \<in> set (sweep xs rows)"
proof -
  have "i \<in> set rows \<Longrightarrow> i \<in> set (open_all row ys rows)" for ys
    by (induction ys arbitrary: rows) (auto simp: open_all_def open_incident_def)
  then show "i \<in> set rows \<Longrightarrow> \<not> ended i \<Longrightarrow> i \<in> set (sweep xs rows)"
    by (force simp: sweep_def update_where_def)
qed

end

lemma swept_ok [simp]:
  "inc_key (swept t hint i) = inc_key i" "inc_screen (swept t hint i) = inc_screen i" "inc_type (swept t hint i) = inc_type i"
  "\<not> is_active (swept t hint i)"
  by (simp_all add: swept_def is_active_def)

lemma swept_lifecycle: "is_active i \<Longrightarrow> lifecycle_ok i \<Longrightarrow> lifecycle_ok (swept t hint i)"
  by (auto simp: lifecycle_ok_def swept_def is_active_def)

definition online_again :: "screen_row list \<Rightarrow> instant \<Rightarrow> incident \<Rightarrow> incident" where
  "online_again screens now i =
     (case back_online screens now i of None \<Rightarrow> i | Some s \<Rightarrow> swept (heartbeat_of s) ''Screen is reporting again.'' i)"

definition missing :: "screen_row list \<Rightarrow> instant \<Rightarrow> screen_row \<Rightarrow> bool" where
  "missing screens now s \<longleftrightarrow> s \<in> set screens \<and> distinct (map sr_id screens) \<and> unreachable now s"

lemma offline_incident_fields [simp]:
  "inc_key (offline_incident fresh ms now s) = dedupe_key (sr_id s) ''connectivity''"
  "is_active (offline_incident fresh ms now s)" "lifecycle_ok (offline_incident fresh ms now s)"
  "keyed (offline_incident fresh ms now s)"
  by (simp_all add: offline_incident_def blank_incident_def is_active_def lifecycle_ok_def keyed_def screen_types_def)

lemma missing_not_back:
  assumes "missing screens now s" "keyed i" "inc_key i = dedupe_key (sr_id s) ''connectivity''" "now \<le> now'"
  shows "back_online screens now' i = None"
proof (rule ccontr)
  assume "back_online screens now' i \<noteq> None"
  then obtain s' where s': "inc_type i = ''connectivity''" "s' \<in> set screens" "inc_screen i = Some (sr_id s')" "reporting now' s'"
    by (auto simp: back_online_def find_Some_iff split: if_splits) (metis nth_mem)
  have "sr_id s' = sr_id s"
    using assms(2,3) s'(1,3) dedupe_key_inj [of "''connectivity''" "''connectivity''"]
    by (auto simp: keyed_def screen_types_def)
  then have "s' = s" using assms(1) s'(2) by (auto simp: missing_def distinct_map inj_on_def)
  then show False
    using assms(1,4) s'(4) by (auto simp: missing_def unreachable_def reporting_def split: option.splits)
qed

interpretation offline: condition_sweep "offline_incident fresh ms now" "missing screens now"
    "\<lambda>i. back_online screens (max now now') i \<noteq> None" "online_again screens (max now now')"
  for fresh :: "uuid \<Rightarrow> uuid" and ms screens now now'
proof
  show "missing screens now s \<Longrightarrow> keyed i \<Longrightarrow> inc_key i = inc_key (offline_incident fresh ms now s) \<Longrightarrow>
      \<not> back_online screens (max now now') i \<noteq> None" for s i
    by (simp add: missing_not_back)
qed (auto simp: back_online_def online_again_def swept_lifecycle split: option.splits if_splits)

lemma sync_offline_sweep:
  assumes "distinct (map sr_id screens)" "now \<le> now'"
  shows "sync_offline fresh screens ms now now' rows = offline.sweep fresh ms now screens now' screens rows"
proof -
  have "filter (missing screens now) screens = filter (unreachable now) screens"
    using assms(1) by (intro filter_cong) (auto simp: missing_def)
  then show ?thesis
    using assms(2) unfolding sync_offline_def offline.sweep_def update_where_def
    by (intro map_cong) (auto simp: online_again_def max_absorb2 split: option.split)
qed

end
