(* ===== verification/ContentHealth.thy ===== *)
theory ContentHealth
  imports Incidents
begin

text \<open>
  The content sweeps of \<open>contenthealth/service.go\<close>: incidents for Data Sources that a widget uses and that stopped
  refreshing, and for assigned playlists with nothing to play. Which sources a widget's configuration names is decided
  by the release catalog, a parameter.
\<close>

section \<open>Thresholds\<close>

record thresholds =
  th_stale_hours :: int
  th_expiring_days :: int

text \<open>A setting is taken if it is a positive \<open>float64\<close>; \<open>int(v)\<close> truncates (\<open>oor\<close> outside the range of \<open>int\<close>).\<close>

definition positive_setting :: "(gofloat \<Rightarrow> int) \<Rightarrow> json gomap \<Rightarrow> string \<Rightarrow> int \<Rightarrow> int" where
  "positive_setting oor m k dflt =
     (case map_of m k of
        Some (JNum (Finite n e)) \<Rightarrow>
          (if n \<le> 0 then dflt
           else (let v = (if 0 \<le> e then n * 2 ^ nat e else n div 2 ^ nat (- e))
                 in if int64_range v then v else oor (Finite n e)))
      | _ \<Rightarrow> dflt)"

definition content_thresholds :: "(gofloat \<Rightarrow> int) \<Rightarrow> json gomap \<Rightarrow> thresholds" where
  "content_thresholds oor values =
     \<lparr>th_stale_hours = positive_setting oor values ''content_health.stale_source_hours'' 12,
      th_expiring_days = positive_setting oor values ''content_health.expiring_media_days'' 14\<rparr>"

section \<open>Data Sources\<close>

record widget_row =
  wr_provider :: string
  wr_configuration :: string
  wr_managed :: "uuid option"

definition widget_sources :: "(string \<Rightarrow> string \<Rightarrow> uuid list) \<Rightarrow> widget_row \<Rightarrow> uuid list" where
  "widget_sources catalog w = catalog (wr_provider w) (wr_configuration w)
     @ (case wr_managed w of None \<Rightarrow> [] | Some i \<Rightarrow> [i])"

definition used_sources :: "(string \<Rightarrow> string \<Rightarrow> uuid list) \<Rightarrow> widget_row list \<Rightarrow> uuid list" where
  "used_sources catalog ws =
     fold (\<lambda>i used. if i \<noteq> uuid_nil \<and> i \<notin> set used then used @ [i] else used) (concat (map (widget_sources catalog) ws)) []"

text \<open>A source with its refresh state.\<close>

record source_row =
  so_id :: uuid
  so_name :: string
  so_provider :: string
  so_created :: instant
  so_deleted :: bool
  so_success :: "instant option"
  so_error :: string

definition last_update :: "source_row \<Rightarrow> instant" where
  "last_update s = (case so_success s of Some t \<Rightarrow> t | None \<Rightarrow> so_created s)"

definition utc_minute_text :: "instant \<Rightarrow> string" where
  "utc_minute_text t = format_date (date_in utc t) @ '' '' @ append_int 2 (hour_in utc t) @ '':'' @ append_int 2 (minute_in utc t)"

definition source_key :: "source_row \<Rightarrow> string" where
  "source_key s = ''data_source:source:'' @ uuid_string (so_id s)"

definition stale_source :: "duration \<Rightarrow> uuid list \<Rightarrow> instant \<Rightarrow> source_row \<Rightarrow> bool" where
  "stale_source stale_after used now s \<longleftrightarrow> \<not> so_deleted s \<and> last_update s < now - stale_after \<and> so_id s \<in> set used"

definition source_incident :: "(uuid \<Rightarrow> uuid) \<Rightarrow> duration \<Rightarrow> instant \<Rightarrow> source_row \<Rightarrow> incident" where
  "source_incident fresh stale_after now s =
     (blank_incident (fresh (so_id s)) ''data_source'' ''warning'' ''Data Source is not refreshing'' (source_key s))
       \<lparr>inc_description := so_name s @ '' last updated ''
          @ (case so_success s of Some t \<Rightarrow> utc_minute_text t @ '' UTC'' | None \<Rightarrow> ''never'') @ ''. Screens are showing cached data.'',
        inc_opened := last_update s + stale_after, inc_seen := now, inc_failure := so_error s,
        inc_cause := (if so_error s = [] then [] else ''The last refresh failed with '' @ so_error s @ ''.''),
        inc_related_type := ''data_source'', inc_related := uuid_string (so_id s),
        inc_metadata := [(''source'', JStr ''content_health''), (''dataSourceId'', JStr (uuid_string (so_id s))),
          (''dataSourceName'', JStr (so_name s)), (''provider'', JStr (so_provider s))]\<rparr>"

definition refreshed_source :: "duration \<Rightarrow> instant \<Rightarrow> source_row \<Rightarrow> bool" where
  "refreshed_source stale_after now s \<longleftrightarrow>
     so_deleted s \<or> (case so_success s of Some t \<Rightarrow> now - stale_after \<le> t | None \<Rightarrow> False)"

definition source_recovery :: "source_row list \<Rightarrow> duration \<Rightarrow> instant \<Rightarrow> incident \<Rightarrow> source_row option" where
  "source_recovery sources stale_after now i =
     (if inc_type i = ''data_source'' \<and> is_active i
      then find (\<lambda>s. inc_key i = source_key s \<and> refreshed_source stale_after now s) sources else None)"

definition refresh_seen :: "source_row list \<Rightarrow> duration \<Rightarrow> instant \<Rightarrow> incident \<Rightarrow> incident" where
  "refresh_seen sources stale_after now i =
     (case source_recovery sources stale_after now i of
        None \<Rightarrow> i
      | Some s \<Rightarrow> swept (case so_success s of Some t \<Rightarrow> t | None \<Rightarrow> now) ''The Data Source refreshed successfully.'' i)"

definition sweep_data_sources ::
    "(uuid \<Rightarrow> uuid) \<Rightarrow> uuid list \<Rightarrow> source_row list \<Rightarrow> duration \<Rightarrow> instant \<Rightarrow> incident list \<Rightarrow> incident list" where
  "sweep_data_sources fresh used sources stale_after now rows =
     map (refresh_seen sources stale_after now)
       (open_all (source_incident fresh stale_after now) (filter (stale_source stale_after used now) sources) rows)"

section \<open>Empty playlists\<close>

record playlist_row =
  pl_id :: uuid
  pl_name :: string
  pl_tagged :: bool
  pl_match_all :: bool
  pl_deleted :: bool

record asset_row =
  as_id :: uuid
  as_deleted :: bool
  as_library :: bool
  as_ready :: bool
  as_from :: "instant option"
  as_until :: "instant option"

record item_row =
  it_playlist :: uuid
  it_asset :: "uuid option"
  it_layout :: "uuid option"

record content_db =
  cd_playlists :: "playlist_row list"
  cd_assigned :: "uuid list"
  cd_group_assigned :: "uuid list"
  cd_assets :: "asset_row list"
  cd_published_layouts :: "uuid list"
  cd_items :: "item_row list"
  cd_playlist_tags :: "(uuid \<times> uuid) list"
  cd_asset_tags :: "(uuid \<times> uuid) list"

definition assigned_playlist :: "content_db \<Rightarrow> playlist_row \<Rightarrow> bool" where
  "assigned_playlist db p \<longleftrightarrow> \<not> pl_deleted p \<and> (pl_id p \<in> set (cd_assigned db) \<or> pl_id p \<in> set (cd_group_assigned db))"

definition available_at :: "instant \<Rightarrow> asset_row \<Rightarrow> bool" where
  "available_at now a \<longleftrightarrow> \<not> as_deleted a
     \<and> (case as_from a of None \<Rightarrow> True | Some t \<Rightarrow> t \<le> now) \<and> (case as_until a of None \<Rightarrow> True | Some t \<Rightarrow> now < t)"

definition tags_of :: "content_db \<Rightarrow> playlist_row \<Rightarrow> uuid list" where
  "tags_of db p = map snd (filter (\<lambda>(q, _). q = pl_id p) (cd_playlist_tags db))"

definition tag_matches :: "content_db \<Rightarrow> playlist_row \<Rightarrow> asset_row \<Rightarrow> bool" where
  "tag_matches db p a =
     (if pl_match_all p
      then list_all (\<lambda>t. (as_id a, t) \<in> set (cd_asset_tags db)) (tags_of db p) \<and> tags_of db p \<noteq> []
      else list_ex (\<lambda>t. (as_id a, t) \<in> set (cd_asset_tags db)) (tags_of db p))"

definition item_playable :: "content_db \<Rightarrow> instant \<Rightarrow> item_row \<Rightarrow> bool" where
  "item_playable db now i \<longleftrightarrow>
     (case it_layout i of None \<Rightarrow> False | Some l \<Rightarrow> l \<in> set (cd_published_layouts db))
     \<or> (case it_asset i of None \<Rightarrow> False | Some a \<Rightarrow>
          (case find (\<lambda>r. as_id r = a) (cd_assets db) of None \<Rightarrow> True | Some r \<Rightarrow> available_at now r))"

definition playable_count :: "content_db \<Rightarrow> instant \<Rightarrow> playlist_row \<Rightarrow> nat" where
  "playable_count db now p =
     (if pl_tagged p
      then length (filter (\<lambda>a. as_library a \<and> as_ready a \<and> available_at now a \<and> tag_matches db p a) (cd_assets db))
      else length (filter (\<lambda>i. it_playlist i = pl_id p \<and> item_playable db now i) (cd_items db)))"

definition playlist_key :: "playlist_row \<Rightarrow> string" where
  "playlist_key p = ''content:playlist:'' @ uuid_string (pl_id p)"

definition empty_playlist :: "content_db \<Rightarrow> instant \<Rightarrow> playlist_row \<Rightarrow> bool" where
  "empty_playlist db now p \<longleftrightarrow> assigned_playlist db p \<and> playable_count db now p = 0"

definition playlist_incident :: "(uuid \<Rightarrow> uuid) \<Rightarrow> instant \<Rightarrow> playlist_row \<Rightarrow> incident" where
  "playlist_incident fresh now p =
     (blank_incident (fresh (pl_id p)) ''content'' ''error'' ''Playlist has nothing to play'' (playlist_key p))
       \<lparr>inc_description := pl_name p @ '' is assigned to a screen but has no content available right now. ''
          @ ''Everything in it has expired, is not available yet, or was removed.'',
        inc_opened := now, inc_seen := now, inc_related_type := ''playlist'', inc_related := uuid_string (pl_id p),
        inc_metadata := [(''source'', JStr ''content_health''), (''playlistId'', JStr (uuid_string (pl_id p))),
          (''playlistName'', JStr (pl_name p))]\<rparr>"

definition playlist_filled :: "content_db \<Rightarrow> instant \<Rightarrow> incident \<Rightarrow> bool" where
  "playlist_filled db now i \<longleftrightarrow> inc_type i = ''content'' \<and> is_active i
     \<and> \<not> list_ex (\<lambda>p. playlist_key p = inc_key i \<and> empty_playlist db now p) (cd_playlists db)"

definition filled_again :: "instant \<Rightarrow> incident \<Rightarrow> incident" where
  "filled_again now i = swept now ''The playlist has content available again.'' i"

definition sweep_empty_playlists ::
    "(uuid \<Rightarrow> uuid) \<Rightarrow> content_db \<Rightarrow> instant \<Rightarrow> instant \<Rightarrow> incident list \<Rightarrow> incident list" where
  "sweep_empty_playlists fresh db now now' rows =
     update_where (playlist_filled db now') (filled_again now')
       (open_all (playlist_incident fresh now) (filter (empty_playlist db now) (cd_playlists db)) rows)"

definition content_sweep ::
    "(gofloat \<Rightarrow> int) \<Rightarrow> json gomap \<Rightarrow> (string \<Rightarrow> string \<Rightarrow> uuid list) \<Rightarrow> widget_row list \<Rightarrow> (uuid \<Rightarrow> uuid) \<Rightarrow> (uuid \<Rightarrow> uuid) \<Rightarrow>
     source_row list \<Rightarrow> content_db \<Rightarrow> instant \<Rightarrow> instant \<Rightarrow> instant \<Rightarrow> incident list \<Rightarrow> incident list" where
  "content_sweep oor values catalog ws fresh fresh' sources db now now1 now2 rows =
     sweep_empty_playlists fresh' db now1 now2
       (sweep_data_sources fresh (used_sources catalog ws) sources
         (wrap64 (th_stale_hours (content_thresholds oor values) * hour)) now rows)"

section \<open>Both are sweeps of a condition\<close>

definition stale_here :: "source_row list \<Rightarrow> duration \<Rightarrow> uuid list \<Rightarrow> instant \<Rightarrow> source_row \<Rightarrow> bool" where
  "stale_here sources stale_after used now s \<longleftrightarrow>
     s \<in> set sources \<and> distinct (map so_id sources) \<and> stale_source stale_after used now s"

lemma source_incident_fields [simp]:
  "inc_key (source_incident fresh stale_after now s) = source_key s" "is_active (source_incident fresh stale_after now s)"
  "lifecycle_ok (source_incident fresh stale_after now s)" "keyed (source_incident fresh stale_after now s)"
  by (simp_all add: source_incident_def blank_incident_def is_active_def lifecycle_ok_def keyed_def source_key_def has_prefix_def)

lemma source_key_inj: "source_key s = source_key s' \<Longrightarrow> so_id s = so_id s'"
  by (simp add: source_key_def)

lemma stale_not_refreshed:
  assumes "stale_here sources stale_after used now s" "inc_key i = source_key s"
  shows "source_recovery sources stale_after now i = None"
proof (rule ccontr)
  assume "source_recovery sources stale_after now i \<noteq> None"
  then obtain s' where s': "s' \<in> set sources" "inc_key i = source_key s'" "refreshed_source stale_after now s'"
    by (auto simp: source_recovery_def find_Some_iff split: if_splits) (metis nth_mem)
  then have "so_id s' = so_id s" using assms(2) source_key_inj by metis
  then have "s' = s" using assms(1) s'(1) by (auto simp: stale_here_def distinct_map inj_on_def)
  then show False
    using assms(1) s'(3) by (auto simp: stale_here_def stale_source_def refreshed_source_def last_update_def split: option.splits)
qed

interpretation sources: condition_sweep "source_incident fresh stale_after now" "stale_here srcs stale_after used now"
    "\<lambda>i. source_recovery srcs stale_after now i \<noteq> None" "refresh_seen srcs stale_after now"
  for fresh :: "uuid \<Rightarrow> uuid" and stale_after now srcs used
proof
  show "stale_here srcs stale_after used now s \<Longrightarrow> keyed i \<Longrightarrow> inc_key i = inc_key (source_incident fresh stale_after now s) \<Longrightarrow>
      \<not> source_recovery srcs stale_after now i \<noteq> None" for s i
    by (simp add: stale_not_refreshed)
qed (auto simp: source_recovery_def refresh_seen_def swept_lifecycle split: option.splits if_splits)

lemma sweep_data_sources_sweep:
  assumes "distinct (map so_id srcs)"
  shows "sweep_data_sources fresh used srcs stale_after now rows = sources.sweep fresh stale_after now srcs used srcs rows"
proof -
  have "filter (stale_here srcs stale_after used now) srcs = filter (stale_source stale_after used now) srcs"
    using assms by (intro filter_cong) (auto simp: stale_here_def)
  then show ?thesis
    unfolding sweep_data_sources_def sources.sweep_def update_where_def
    by (intro map_cong) (auto simp: refresh_seen_def split: option.split)
qed

lemma playlist_incident_fields [simp]:
  "inc_key (playlist_incident fresh now p) = playlist_key p" "is_active (playlist_incident fresh now p)"
  "lifecycle_ok (playlist_incident fresh now p)" "keyed (playlist_incident fresh now p)"
  by (simp_all add: playlist_incident_def blank_incident_def is_active_def lifecycle_ok_def keyed_def playlist_key_def has_prefix_def)

definition empty_here :: "content_db \<Rightarrow> instant \<Rightarrow> playlist_row \<Rightarrow> bool" where
  "empty_here db now p \<longleftrightarrow> p \<in> set (cd_playlists db) \<and> empty_playlist db now p"

interpretation playlists: condition_sweep "playlist_incident fresh now" "empty_here db now" "playlist_filled db now" "filled_again now"
  for fresh :: "uuid \<Rightarrow> uuid" and now db
  by standard (auto simp: playlist_filled_def filled_again_def swept_lifecycle empty_here_def list_ex_iff)

lemma sweep_empty_playlists_sweep:
  "sweep_empty_playlists fresh db now now rows = playlists.sweep fresh now db (cd_playlists db) rows"
proof -
  have "filter (empty_here db now) (cd_playlists db) = filter (empty_playlist db now) (cd_playlists db)"
    by (intro filter_cong) (auto simp: empty_here_def)
  then show ?thesis by (simp add: sweep_empty_playlists_def playlists.sweep_def)
qed

end
