(* ===== verification/IncidentHistory.thy ===== *)
theory IncidentHistory
  imports ContentHealth
begin

text \<open>
  The incident table over time: every sequence of activity events, operator actions and sweeps. The invariants of the
  table by rule induction, what a storm of failures leaves, and what the three sweeps achieve.
\<close>

section \<open>Histories\<close>

inductive incident_history :: "incident_db \<Rightarrow> bool" where
  installed: "incident_history \<lparr>id_incidents = [], id_evidence = [], id_audit = []\<rparr>"
| derived: "incident_history db \<Longrightarrow> incident_history (derive_incident lw f f' screens ms screen e db)"
| acted: "incident_history db \<Longrightarrow> incident_action parse known f f' actor now target input db = Inr db' \<Longrightarrow> incident_history db'"
| offline_swept: "incident_history db \<Longrightarrow> distinct (map sr_id screens) \<Longrightarrow> now \<le> now' \<Longrightarrow>
    incident_history (db\<lparr>id_incidents := sync_offline fresh screens ms now now' (id_incidents db)\<rparr>)"
| content_swept: "incident_history db \<Longrightarrow> distinct (map so_id sources) \<Longrightarrow>
    incident_history (db\<lparr>id_incidents := content_sweep oor values catalog ws fresh fresh' sources content now now1 now2 (id_incidents db)\<rparr>)"

inductive_cases history_empty: "incident_history \<lparr>id_incidents = [], id_evidence = [], id_audit = []\<rparr>"

definition table_kept :: "incident list \<Rightarrow> bool" where
  "table_kept rows \<longleftrightarrow> incidents_ok rows \<and> list_all keyed rows"

lemma sync_offline_kept:
  "table_kept rows \<Longrightarrow> distinct (map sr_id screens) \<Longrightarrow> now \<le> now' \<Longrightarrow> table_kept (sync_offline fresh screens ms now now' rows)"
  unfolding table_kept_def sync_offline_sweep by (rule offline.sweep_kept)

lemma sweep_empty_playlists_kept: "table_kept rows \<Longrightarrow> table_kept (sweep_empty_playlists fresh db now now' rows)"
proof -
  assume "table_kept rows"
  moreover have "filter (empty_here db now) (cd_playlists db) = filter (empty_playlist db now) (cd_playlists db)"
    by (intro filter_cong) (auto simp: empty_here_def)
  ultimately have o: "incidents_ok (open_all (playlist_incident fresh now) (filter (empty_playlist db now) (cd_playlists db)) rows)"
    "list_all keyed (open_all (playlist_incident fresh now) (filter (empty_playlist db now) (cd_playlists db)) rows)"
    using playlists.open_all_kept [of rows fresh now db "cd_playlists db"] by (simp_all add: table_kept_def)
  show ?thesis
    unfolding sweep_empty_playlists_def table_kept_def
    by (rule conjI [OF incidents_ok_update [OF _ _ _ o(1)] keyed_update [OF _ o(2)]])
      (auto simp: filled_again_def swept_lifecycle playlist_filled_def)
qed

lemma content_sweep_kept:
  assumes "table_kept rows" "distinct (map so_id sources)"
  shows "table_kept (content_sweep oor values catalog ws fresh fresh' sources content now now1 now2 rows)"
proof -
  have "table_kept (sweep_data_sources fresh used sources stale_after now rows)" for used stale_after
    using assms(1) unfolding sweep_data_sources_sweep [OF assms(2)] table_kept_def by (rule sources.sweep_kept)
  then show ?thesis unfolding content_sweep_def by (rule sweep_empty_playlists_kept)
qed

lemma history_kept: "incident_history db \<Longrightarrow> table_kept (id_incidents db)"
proof (induction rule: incident_history.induct)
  case installed
  show ?case by (simp add: table_kept_def incidents_ok_def)
next
  case (derived db lw f f' screens ms screen e)
  then show ?case by (simp add: table_kept_def derive_incident_ok derive_incident_keyed)
next
  case (acted db parse known f f' actor now target input db')
  then show ?case
    using incident_action_ok [OF _ acted.hyps(2)] incident_action_keyed [OF _ acted.hyps(2)] by (simp add: table_kept_def)
qed (simp_all add: sync_offline_kept content_sweep_kept)

lemma index_ok_count: "index_ok rows \<Longrightarrow> length (filter (active_for key) rows) \<le> 1"
proof (induction rows)
  case (Cons i rows)
  have "filter (active_for key) rows = []" if "active_for key i"
    using Cons.prems that by (auto simp: index_ok_Cons filter_empty_conv list_ex_iff active_for_def)
  then show ?case using Cons by (auto simp: index_ok_Cons)
qed simp

lemma screen_condition_count:
  "list_all keyed rows \<Longrightarrow> length (filter (\<lambda>i. is_active i \<and> inc_screen i = Some screen \<and> inc_type i = kd) rows)
     \<le> length (filter (active_for (dedupe_key screen kd)) rows)"
  by (induction rows) (auto simp: active_for_def keyed_def)

section \<open>Properties\<close>

text \<open>
  C17. Whatever players report, operators do and the sweeps find, from the empty table on: a screen has at most one active
  incident per condition (and a Data Source or playlist at most one at all), and every incident is consistent: its
  status, severity and count are in range, an active one carries no trace of an end, an acknowledged one its time, a
  recovered one the time of an automatic recovery, a resolved one the time and mode of its end.
\<close>

theorem incident_table_invariant:
  assumes "incident_history db"
  shows "length (filter (\<lambda>i. inc_key i = key \<and> inc_status i \<in> set [''open'', ''acknowledged'']) (id_incidents db)) \<le> 1
    \<and> length (filter (\<lambda>i. is_active i \<and> inc_screen i = Some screen \<and> inc_type i = kd) (id_incidents db)) \<le> 1
    \<and> list_all lifecycle_ok (id_incidents db)"
proof -
  have k: "index_ok (id_incidents db)" "list_all lifecycle_ok (id_incidents db)" "list_all keyed (id_incidents db)"
    using history_kept [OF assms] by (simp_all add: table_kept_def incidents_ok_def)
  have "filter (\<lambda>i. inc_key i = key \<and> inc_status i \<in> set [''open'', ''acknowledged'']) (id_incidents db)
      = filter (active_for key) (id_incidents db)"
    by (intro filter_cong) (auto simp: active_for_def is_active_def)
  moreover have "length (filter (\<lambda>i. is_active i \<and> inc_screen i = Some screen \<and> inc_type i = kd) (id_incidents db))
      \<le> length (filter (active_for (dedupe_key screen kd)) (id_incidents db))"
    using k(3) by (rule screen_condition_count)
  ultimately show ?thesis
    using index_ok_count [OF k(1), of key] index_ok_count [OF k(1), of "dedupe_key screen kd"] k(2) by simp
qed


definition dropped_event :: activity_event where
  "dropped_event = \<lparr>ae_id = UUID ''e1'', ae_sequence = 1, ae_type = ''connection.lost'', ae_category = ''connectivity'',
     ae_severity = ''error'', ae_occurred = 5000, ae_elapsed = None, ae_timezone = ''UTC'', ae_manifest = None,
     ae_presentation_type = [], ae_presentation = [], ae_presentation_revision = [], ae_content_type = [], ae_content = [],
     ae_playlist_item = [], ae_placement = [], ae_session = [], ae_parent = [], ae_session_type = [], ae_terminal = [],
     ae_result = ''unknown'', ae_duration = None, ae_expected = None, ae_failure = [], ae_message = [], ae_trigger = [],
     ae_schedule = [], ae_takeover = [], ae_source = [], ae_record = [], ae_selection_date = [], ae_cached_at = None,
     ae_source_revision = [], ae_snapshot = [], ae_metadata = [], ae_priority = 5\<rparr>"

definition restored_event :: activity_event where
  "restored_event = dropped_event\<lparr>ae_id := UUID ''e2'', ae_type := ''connection.restored'', ae_occurred := 9000\<rparr>"

definition lobby_screen :: screen_row where
  "lobby_screen = \<lparr>sr_id = UUID ''s'', sr_heartbeat = Some 0, sr_enabled = True, sr_deleted = False, sr_archived = False,
     sr_credential = True, sr_location = None, sr_model = ''pi'', sr_version = ''1''\<rparr>"

definition no_incidents :: incident_db where
  "no_incidents = \<lparr>id_incidents = [], id_evidence = [], id_audit = []\<rparr>"

abbreviation report :: "string \<Rightarrow> activity_event \<Rightarrow> incident_db \<Rightarrow> incident_db" where
  "report n e db \<equiv> derive_incident (\<lambda>s. s) (UUID n) (UUID (n @ ''e'')) [lobby_screen] [] (UUID ''s'') e db"

lemma dropped_signal: "incident_signal_for dropped_event =
    Some (opens ''connectivity'' ''error'' ''Screen stopped reporting''
      ''The Player stopped reporting within the expected heartbeat window.'' [])"
  by (simp add: incident_signal_for_def dropped_event_def canonical_type_def event_aliases_def Let_def)

lemma restored_signal: "incident_signal_for restored_event = Some (ends ''connectivity'' ''Connection restored.'')"
  by (simp add: incident_signal_for_def restored_event_def dropped_event_def canonical_type_def event_aliases_def Let_def)

lemma signal_not_play: "incident_signal_for e \<noteq> None \<Longrightarrow> \<not> plays_successfully e"
proof
  assume "incident_signal_for e \<noteq> None" "plays_successfully e"
  then have "canonical_type (ae_type e) = ''content.completed''" by (simp add: plays_successfully_def split: if_splits)
  then have "incident_signal_for e = None" by (simp add: incident_signal_for_def)
  then show False using \<open>incident_signal_for e \<noteq> None\<close> by simp
qed

theorem incident_table_invariant_witness:
  "incident_history (report ''i'' dropped_event no_incidents)
     \<and> length (filter (\<lambda>i. is_active i \<and> inc_screen i = Some (UUID ''s'') \<and> inc_type i = ''connectivity'')
         (id_incidents (report ''i'' dropped_event no_incidents))) \<le> 1"
proof -
  have h: "incident_history (report ''i'' dropped_event no_incidents)"
    unfolding no_incidents_def by (intro incident_history.derived incident_history.installed)
  show ?thesis using incident_table_invariant [OF h, of "[]" "UUID ''s''" "''connectivity''"] h by blast
qed

subsection \<open>A storm of failures\<close>

definition worst :: "activity_event list \<Rightarrow> string" where
  "worst es = (let sev = List.map_filter (\<lambda>e. map_option sg_severity (incident_signal_for e)) es in
     if ''critical'' \<in> set sev then ''critical'' else if ''error'' \<in> set sev then ''error'' else ''warning'')"

definition reports_failure :: "string \<Rightarrow> activity_event \<Rightarrow> bool" where
  "reports_failure kd e \<longleftrightarrow> (case incident_signal_for e of Some sg \<Rightarrow> sg_opens sg \<and> sg_type sg = kd | None \<Rightarrow> False)"

lemma reports_failureE:
  assumes "reports_failure kd e"
  obtains sg where "incident_signal_for e = Some sg" "sg_opens sg" "sg_type sg = kd" "\<not> plays_successfully e"
    "sg_severity sg \<in> set [''warning'', ''error'', ''critical'']"
  using assms signal_not_play [of e] opening_severity [of e] by (auto simp: reports_failure_def split: option.splits)

lemma update_where_none: "\<not> list_ex P rows \<Longrightarrow> update_where P f rows = rows"
  by (induction rows) auto

lemma update_where_append: "update_where P f (rows @ rows') = update_where P f rows @ update_where P f rows'"
  by (simp add: update_where_def)

lemma worst_snoc:
  assumes "incident_signal_for e = Some sg" "sg_severity sg \<in> set [''warning'', ''error'', ''critical'']"
  shows "worst (es @ [e]) = escalate (worst es) (sg_severity sg)"
  using assms by (auto simp: worst_def escalate_def map_filter_def Let_def)

lemma first_failure:
  assumes "reports_failure kd e" "\<not> list_ex (active_for (dedupe_key screen kd)) (id_incidents db)"
    "find (\<lambda>s. sr_id s = screen) screens = Some s"
  obtains i where "id_incidents (derive_incident lw f f' screens ms screen e db) = id_incidents db @ [i]"
    "active_for (dedupe_key screen kd) i" "inc_status i = ''open''" "inc_count i = 1" "inc_opened i = micros (ae_occurred e)"
    "inc_seen i = micros (ae_occurred e)" "inc_severity i = worst [e]" "inc_screen i = Some screen"
proof -
  obtain sg where sg: "incident_signal_for e = Some sg" "sg_opens sg" "sg_type sg = kd" "\<not> plays_successfully e"
      "sg_severity sg \<in> set [''warning'', ''error'', ''critical'']"
    by (rule reports_failureE [OF assms(1)])
  have s: "sr_id s = screen" using assms(3) by (auto simp: find_Some_iff)
  let ?i = "new_incident lw f ms s (dedupe_key screen kd) e sg"
  show thesis
  proof (rule that [of ?i])
    show "id_incidents (derive_incident lw f f' screens ms screen e db) = id_incidents db @ [?i]"
      using sg(1-4) assms(2,3) by (simp add: derive_incident_def open_or_repeat_def open_incident_def new_incident_ok Let_def)
    show "inc_severity ?i = worst [e]" using sg(1,5) by (auto simp: new_incident_def worst_def map_filter_def)
  qed (use s in \<open>simp_all add: active_for_def is_active_def new_incident_def\<close>)
qed

lemma next_failure:
  assumes "reports_failure kd e" "id_incidents db = rows @ [i]" "active_for (dedupe_key screen kd) i"
    "\<not> list_ex (active_for (dedupe_key screen kd)) rows"
  obtains j where "id_incidents (derive_incident lw f f' screens ms screen e db) = rows @ [j]"
    "active_for (dedupe_key screen kd) j" "inc_status j = inc_status i" "inc_count j = inc_count i + 1"
    "inc_opened j = inc_opened i" "inc_seen j = max (inc_seen i) (micros (ae_occurred e))"
    "inc_severity i = worst es \<longrightarrow> inc_severity j = worst (es @ [e])" "inc_screen j = inc_screen i"
proof -
  obtain sg where sg: "incident_signal_for e = Some sg" "sg_opens sg" "sg_type sg = kd" "\<not> plays_successfully e"
      "sg_severity sg \<in> set [''warning'', ''error'', ''critical'']"
    by (rule reports_failureE [OF assms(1)])
  show thesis
  proof (rule that [of "repeat_incident e sg i"])
    show "id_incidents (derive_incident lw f f' screens ms screen e db) = rows @ [repeat_incident e sg i]"
      using sg(1-4) assms(2-4)
      by (simp add: derive_incident_def open_or_repeat_def Let_def update_where_append update_where_none)
    show "active_for (dedupe_key screen kd) (repeat_incident e sg i)" using assms(3) by (simp add: active_for_def)
  qed (simp_all add: repeat_incident_def worst_snoc [OF sg(1,5)])
qed

text \<open>
  Repeats of a condition are one incident: however many failures of one kind a screen reports in a row, whatever
  their order in time, they leave one new open incident that counts them all, dates from the first one reported, was
  last seen at the latest one, and carries the worst severity among them; no other incident changes.
\<close>

theorem failure_storm_is_one_incident:
  assumes "\<not> list_ex (active_for (dedupe_key screen kd)) (id_incidents db)"
    and "find (\<lambda>s. sr_id s = screen) screens = Some s"
    and "reports_failure kd e" and "\<forall>(f, f', e')\<in>set es. reports_failure kd e'"
  shows "\<exists>i. id_incidents (fold (\<lambda>(f, f', e') db. derive_incident lw f f' screens ms screen e' db) ((f0, f0', e) # es) db)
      = id_incidents db @ [i]
    \<and> inc_key i = dedupe_key screen kd \<and> inc_screen i = Some screen \<and> inc_status i = ''open''
    \<and> inc_count i = int (length es) + 1 \<and> inc_opened i = micros (ae_occurred e)
    \<and> inc_seen i = Max (set (map (\<lambda>e'. micros (ae_occurred e')) (e # map (\<lambda>(f, f', e'). e') es)))
    \<and> inc_severity i = worst (e # map (\<lambda>(f, f', e'). e') es)"
  using assms(4)
proof (induction es rule: rev_induct)
  case Nil
  show ?case by (rule first_failure [OF assms(3,1,2), of lw f0 f0' ms]) (auto simp: active_for_def)
next
  case (snoc x es)
  obtain f f' e' where x: "x = (f, f', e')" by (cases x)
  let ?db = "fold (\<lambda>(f, f', e') db. derive_incident lw f f' screens ms screen e' db) ((f0, f0', e) # es) db"
  obtain i where i: "id_incidents ?db = id_incidents db @ [i]" "inc_key i = dedupe_key screen kd" "inc_screen i = Some screen"
      "inc_status i = ''open''" "inc_count i = int (length es) + 1" "inc_opened i = micros (ae_occurred e)"
      "inc_seen i = Max (set (map (\<lambda>e'. micros (ae_occurred e')) (e # map (\<lambda>(f, f', e'). e') es)))"
      "inc_severity i = worst (e # map (\<lambda>(f, f', e'). e') es)"
    using snoc by auto
  have "reports_failure kd e'" using snoc.prems x by simp
  moreover have "active_for (dedupe_key screen kd) i" using i(2,4) by (simp add: active_for_def is_active_def)
  ultimately obtain j where j: "id_incidents (derive_incident lw f f' screens ms screen e' ?db) = id_incidents db @ [j]"
      "active_for (dedupe_key screen kd) j" "inc_status j = inc_status i" "inc_count j = inc_count i + 1"
      "inc_opened j = inc_opened i" "inc_seen j = max (inc_seen i) (micros (ae_occurred e'))"
      "inc_severity i = worst (e # map (\<lambda>(f, f', e'). e') es) \<longrightarrow> inc_severity j = worst ((e # map (\<lambda>(f, f', e'). e') es) @ [e'])"
      "inc_screen j = inc_screen i"
    by (rule next_failure [OF _ i(1) _ assms(1)])
  let ?times = "\<lambda>es. set (map (\<lambda>e'. micros (ae_occurred e')) (e # map (\<lambda>(f, f', e'). e') es))"
  have "?times (es @ [x]) = insert (micros (ae_occurred e')) (?times es)" by (auto simp: x)
  then have seen: "inc_seen j = Max (?times (es @ [x]))"
    using j(6) i(7) Max_insert [of "?times es" "micros (ae_occurred e')"] by (simp only: max.commute) simp
  show ?case
    unfolding seen [symmetric] by (rule exI [of _ j]) (use i j x in \<open>simp add: active_for_def\<close>)
qed

theorem failure_storm_is_one_incident_witness:
  "\<exists>i. id_incidents (report ''j'' (dropped_event\<lparr>ae_occurred := 3000\<rparr>) (report ''i'' dropped_event no_incidents)) = [i]
     \<and> inc_count i = 2 \<and> inc_opened i = 5000 \<and> inc_seen i = 5000 \<and> inc_severity i = ''error''"
proof -
  have later: "incident_signal_for (dropped_event\<lparr>ae_occurred := 3000\<rparr>) = incident_signal_for dropped_event"
    by (simp add: incident_signal_for_def)
  have o: "reports_failure ''connectivity'' dropped_event" "reports_failure ''connectivity'' (dropped_event\<lparr>ae_occurred := 3000\<rparr>)"
    unfolding reports_failure_def later dropped_signal by (simp_all add: opens_def)
  have n: "\<not> list_ex (active_for (dedupe_key (UUID ''s'') ''connectivity'')) (id_incidents no_incidents)"
    by (simp add: no_incidents_def)
  have f: "find (\<lambda>s. sr_id s = UUID ''s'') [lobby_screen] = Some lobby_screen" by (simp add: lobby_screen_def)
  have t: "micros (ae_occurred dropped_event) = 5000" "micros 3000 = 3000" by (simp_all add: micros_def dropped_event_def)
  have w: "worst [dropped_event, dropped_event\<lparr>ae_occurred := 3000\<rparr>] = ''error''"
    unfolding worst_def by (simp add: map_filter_def later dropped_signal) (simp add: opens_def)
  show ?thesis
    using failure_storm_is_one_incident [OF n f o(1), of "[(UUID ''j'', UUID ''je'', dropped_event\<lparr>ae_occurred := 3000\<rparr>)]"
        "\<lambda>s. s" "[]" "UUID ''i''" "UUID ''ie''"] o(2)
    by (auto simp: t w no_incidents_def)
qed

subsection \<open>The sweeps\<close>

lemma reporting_ended:
  assumes "table_kept rows" "distinct (map sr_id screens)" "now \<le> now'" "s \<in> set screens" "reporting now' s"
  shows "\<not> list_ex (active_for (dedupe_key (sr_id s) ''connectivity'')) (sync_offline fresh screens ms now now' rows)"
proof
  assume "list_ex (active_for (dedupe_key (sr_id s) ''connectivity'')) (sync_offline fresh screens ms now now' rows)"
  then obtain i where i: "i \<in> set (sync_offline fresh screens ms now now' rows)" "is_active i"
      "inc_key i = dedupe_key (sr_id s) ''connectivity''"
    by (auto simp: list_ex_iff active_for_def)
  have "keyed i" using sync_offline_kept [OF assms(1-3)] i(1) by (auto simp: table_kept_def list_all_iff)
  have scr: "inc_type i = ''connectivity'' \<and> inc_screen i = Some (sr_id s)"
  proof (cases "inc_screen i")
    case None
    then show ?thesis using \<open>keyed i\<close> i(3) by (auto simp: keyed_def dedupe_key_def has_prefix_def)
  next
    case (Some u)
    then show ?thesis
      using \<open>keyed i\<close> i(3) dedupe_key_inj [of "inc_type i" "''connectivity''" u "sr_id s"]
      by (auto simp: keyed_def screen_types_def)
  qed
  have "back_online screens (max now now') i \<noteq> None"
    using scr i(2) assms(3-5) by (auto simp: back_online_def find_None_iff max_absorb2)
  then show False
    using offline.sweep_ends i(1) sync_offline_sweep [OF assms(2,3)] by metis
qed

text \<open>
  C26. The sweeps find every outage and end every one that is over. After the offline sweep a screen in service without a
  heartbeat for the grace period has an active connectivity incident, and a screen that reported within it has none.
  After the Data Source sweep every stale source in use has one; after the playlist sweep every assigned playlist with
  nothing to play has one, and an active one is about such a playlist. Each sweep is idempotent: repeated at the same
  clock readings it changes nothing.
\<close>

theorem sweeps_settle:
  fixes fresh :: "uuid \<Rightarrow> uuid" and ms :: "(uuid \<times> uuid) list" and stale_after :: duration
    and used :: "uuid list" and content :: content_db
  assumes "incident_history db" and "distinct (map sr_id screens)" and "now \<le> now'" and "distinct (map so_id srcs)"
  defines "offline_rows \<equiv> sync_offline fresh screens ms now now' (id_incidents db)"
    and "source_rows \<equiv> sweep_data_sources fresh used srcs stale_after now (id_incidents db)"
    and "playlist_rows \<equiv> sweep_empty_playlists fresh content now now (id_incidents db)"
  shows "(\<forall>s\<in>set screens.
        (unreachable now s \<longrightarrow> list_ex (active_for (dedupe_key (sr_id s) ''connectivity'')) offline_rows)
        \<and> (reporting now' s \<longrightarrow> \<not> list_ex (active_for (dedupe_key (sr_id s) ''connectivity'')) offline_rows))
    \<and> sync_offline fresh screens ms now now' offline_rows = offline_rows
    \<and> (\<forall>s\<in>set srcs. stale_source stale_after used now s \<longrightarrow> list_ex (active_for (source_key s)) source_rows)
    \<and> sweep_data_sources fresh used srcs stale_after now source_rows = source_rows
    \<and> (\<forall>p\<in>set (cd_playlists content). empty_playlist content now p \<longrightarrow> list_ex (active_for (playlist_key p)) playlist_rows)
    \<and> (\<forall>i\<in>set playlist_rows. is_active i \<and> inc_type i = ''content'' \<longrightarrow>
         (\<exists>p\<in>set (cd_playlists content). playlist_key p = inc_key i \<and> empty_playlist content now p))
    \<and> sweep_empty_playlists fresh content now now playlist_rows = playlist_rows"
proof -
  have k: "incidents_ok (id_incidents db) \<and> list_all keyed (id_incidents db)"
    using history_kept [OF assms(1)] by (simp add: table_kept_def)
  have off: "offline_rows = offline.sweep fresh ms now screens now' screens (id_incidents db)"
    unfolding offline_rows_def by (rule sync_offline_sweep [OF assms(2,3)])
  have src: "source_rows = sources.sweep fresh stale_after now srcs used srcs (id_incidents db)"
    unfolding source_rows_def by (rule sweep_data_sources_sweep [OF assms(4)])
  have pls: "playlist_rows = playlists.sweep fresh now content (cd_playlists content) (id_incidents db)"
    unfolding playlist_rows_def by (rule sweep_empty_playlists_sweep)
  have 1: "list_ex (active_for (dedupe_key (sr_id s) ''connectivity'')) offline_rows" if "s \<in> set screens" "unreachable now s" for s
    using offline.sweep_opens [OF k that(1), of screens now fresh ms now'] that assms(2) by (simp add: off missing_def)
  have 2: "\<not> list_ex (active_for (dedupe_key (sr_id s) ''connectivity'')) offline_rows" if "s \<in> set screens" "reporting now' s" for s
    unfolding offline_rows_def
    using reporting_ended [OF history_kept [OF assms(1)] assms(2,3) that] .
  have 3: "list_ex (active_for (source_key s)) source_rows" if "s \<in> set srcs" "stale_source stale_after used now s" for s
    using sources.sweep_opens [OF k that(1), of srcs stale_after used now fresh] that assms(4) by (simp add: src stale_here_def)
  have 4: "list_ex (active_for (playlist_key p)) playlist_rows" if "p \<in> set (cd_playlists content)" "empty_playlist content now p" for p
    using playlists.sweep_opens [OF k that(1), of content now fresh] that by (simp add: pls empty_here_def)
  have 5: "\<exists>p\<in>set (cd_playlists content). playlist_key p = inc_key i \<and> empty_playlist content now p"
    if "i \<in> set playlist_rows" "is_active i" "inc_type i = ''content''" for i
    using playlists.sweep_ends [OF that(1) [unfolded pls]] that(2,3) by (auto simp: playlist_filled_def list_ex_iff)
  have idem: "sync_offline fresh screens ms now now' offline_rows = offline_rows"
    "sweep_data_sources fresh used srcs stale_after now source_rows = source_rows"
    "sweep_empty_playlists fresh content now now playlist_rows = playlist_rows"
    unfolding sync_offline_sweep [OF assms(2,3)] sweep_data_sources_sweep [OF assms(4)] sweep_empty_playlists_sweep off src pls
    by (rule offline.sweep_idempotent [OF k] sources.sweep_idempotent [OF k] playlists.sweep_idempotent [OF k])+
  show ?thesis using 1 2 3 4 5 idem by blast
qed

theorem sweeps_settle_witness:
  "list_ex (active_for (dedupe_key (UUID ''s'') ''connectivity''))
     (sync_offline id [lobby_screen] [] (hour + 1) (hour + 1) [])"
proof -
  have h: "incident_history no_incidents" unfolding no_incidents_def by (rule incident_history.installed)
  have u: "unreachable (hour + 1) lobby_screen"
    by (simp add: unreachable_def lobby_screen_def heartbeat_grace_def hour_def minute_def second_def)
  have "list_ex (active_for (dedupe_key (sr_id lobby_screen) ''connectivity''))
      (sync_offline id [lobby_screen] [] (hour + 1) (hour + 1) (id_incidents no_incidents))"
    using sweeps_settle [OF h, of "[lobby_screen]" "hour + 1" "hour + 1" "[]" id "[]"] u by simp
  then show ?thesis by (simp add: lobby_screen_def no_incidents_def)
qed

section \<open>What the table does not do\<close>

text \<open>A flapping connection is not one incident: each drop after a recovery opens another.\<close>

lemma flapping_opens_again:
  "length (id_incidents (report ''c'' dropped_event (report ''b'' restored_event (report ''a'' dropped_event no_incidents)))) = 2"
proof -
  have n: "\<not> plays_successfully dropped_event" "\<not> plays_successfully restored_event"
    using signal_not_play dropped_signal restored_signal by simp_all
  show ?thesis
    by (simp add: derive_incident_def n dropped_signal restored_signal opens_def ends_def open_or_repeat_def no_incidents_def
        lobby_screen_def open_incident_def new_incident_def is_active_def recover_incident_def recover_where_def recovered_def active_for_def Let_def)
qed

text \<open>
  Evidence goes to the incident that opened last, not to the active one: after an operator reopens an older incident, a
  repeat counts on it but its event is filed under the newer, recovered one.
\<close>

definition reopen :: action_input where
  "reopen = \<lparr>ai_action = ''reopen'', ai_assigned = [], ai_reason = [], ai_notes = []\<rparr>"

abbreviation dropped_at :: "int \<Rightarrow> activity_event" where
  "dropped_at t \<equiv> dropped_event\<lparr>ae_occurred := t\<rparr>"

abbreviation restored_at :: "int \<Rightarrow> activity_event" where
  "restored_at t \<equiv> restored_event\<lparr>ae_occurred := t\<rparr>"

abbreviation two_outages :: incident_db where
  "two_outages \<equiv> report ''d'' (restored_at 12000) (report ''c'' (dropped_at 10000)
     (report ''b'' (restored_at 9000) (report ''a'' (dropped_at 5000) no_incidents)))"

lemma evidence_misfiled:
  assumes "id_incidents db = [a, c]" "active_for (dedupe_key screen kd) a" "\<not> is_active c" "inc_key c = dedupe_key screen kd"
    "inc_opened a < inc_opened c" "reports_failure kd e"
  shows "map inc_id (filter is_active (id_incidents (derive_incident lw f f' screens ms screen e db))) = [inc_id a]
    \<and> ie_incident (last (id_evidence (derive_incident lw f f' screens ms screen e db))) = inc_id c"
proof -
  obtain sg where sg: "incident_signal_for e = Some sg" "sg_opens sg" "sg_type sg = kd" "\<not> plays_successfully e"
    by (rule reports_failureE [OF assms(6)])
  have c: "active_for (dedupe_key screen kd) c = False" "is_active a" "inc_key a = dedupe_key screen kd"
    using assms(2-4) by (simp_all add: active_for_def)
  have l: "latest_incident (dedupe_key screen kd) [repeat_incident e sg a, c] = Some c"
    using assms(4,5) c(3) by (simp add: latest_incident_def sort_by_def) (simp add: repeat_incident_def)
  have "derive_incident lw f f' screens ms screen e db
      = append_evidence f' (dedupe_key screen kd) e ''recurrence'' ''Condition reported again.''
          (db\<lparr>id_incidents := [repeat_incident e sg a, c]\<rparr>)"
    using sg assms(1,2) c(1) by (simp add: derive_incident_def open_or_repeat_def Let_def)
  then show ?thesis
    using l c(2) assms(3) by (simp add: append_evidence_def) (simp add: repeat_incident_def)
qed

text \<open>An operator cannot reopen an incident while a newer one of its condition is active.\<close>

lemma reopen_refused:
  "incident_action (\<lambda>_. None) (\<lambda>_. True) (UUID ''x'') (UUID ''y'') (UUID ''u'') 15000 (UUID ''a'') reopen
     (report ''e'' (dropped_at 13000) two_outages) = Inl DatabaseFailed"
proof -
  have sg: "incident_signal_for (dropped_at t) = incident_signal_for dropped_event"
    "incident_signal_for (restored_at t) = incident_signal_for restored_event" for t
    by (simp_all add: incident_signal_for_def)
  have n: "\<not> plays_successfully (dropped_at t)" "\<not> plays_successfully (restored_at t)" for t
    using signal_not_play sg dropped_signal restored_signal by simp_all
  show ?thesis
    by (simp add: derive_incident_def n sg dropped_signal restored_signal opens_def ends_def open_or_repeat_def no_incidents_def
        lobby_screen_def open_incident_def new_incident_def is_active_def recover_incident_def recover_where_def recovered_def
        active_for_def Let_def append_evidence_def latest_incident_def sort_by_def micros_def incident_action_def reopen_def
        check_action_def run_action_def action_rows_def action_applies_def apply_action_def index_ok_def)
qed

end
