(* ===== verification/ActivityIngest.thy ===== *)
theory ActivityIngest
  imports IncidentHistory
begin

text \<open>
  Ingestion of what players report (\<open>httpapi/activity_ingest.go\<close>): a batch of events in one transaction, each event
  normalised, stored once, and derived into state intervals, incidents and playback sessions. An error rolls the whole
  batch back.
\<close>

record server_state =
  sv_activity :: activity_db
  sv_incidents :: incident_db

text \<open>The identifiers \<open>uuid.New()\<close> gives while an event is derived.\<close>

record fresh_ids =
  fr_interval :: uuid
  fr_incident :: uuid
  fr_evidence :: uuid
  fr_session :: uuid

section \<open>Derivation\<close>

definition derive_intervals :: "uuid \<Rightarrow> uuid \<Rightarrow> activity_event \<Rightarrow> state_interval list \<Rightarrow> state_interval list" where
  "derive_intervals fresh screen e rows =
     (case screen_state_for e of None \<Rightarrow> rows | Some s \<Rightarrow> update_state_interval fresh screen e s rows)"

definition derive_activity ::
    "(string \<Rightarrow> string) \<Rightarrow> screen_row list \<Rightarrow> fresh_ids \<Rightarrow> uuid \<Rightarrow> activity_event \<Rightarrow> server_state \<Rightarrow> db_error + server_state" where
  "derive_activity lw screens ids screen e st =
     (let a = sv_activity st;
          incidents = derive_incident lw (fr_incident ids) (fr_evidence ids) screens (ad_memberships a) screen e (sv_incidents st)
      in andthen (derive_sessions (fr_session ids) screen (ad_memberships a) e (ad_sessions a)) (\<lambda>sessions.
           Inr (st\<lparr>sv_activity := a\<lparr>ad_intervals := derive_intervals (fr_interval ids) screen e (ad_intervals a),
               ad_sessions := sessions\<rparr>,
             sv_incidents := incidents\<rparr>)))"

section \<open>Storing an event\<close>

datatype ingest_error =
    BatchSizeInvalid | EventInvalid nat activity_error | StoreFailed db_error | SelectionDateInvalid

definition event_ids :: "activity_db \<Rightarrow> uuid list" where
  "event_ids a = map (\<lambda>r. ae_id (se_event r)) (ad_events a)"

definition sequence_taken :: "activity_db \<Rightarrow> uuid \<Rightarrow> int \<Rightarrow> bool" where
  "sequence_taken a screen n \<longleftrightarrow> list_ex (\<lambda>r. se_screen r = screen \<and> se_sequence r = Some n) (ad_events a)"

text \<open>\<open>INSERT ... ON CONFLICT DO NOTHING\<close>: constraints are checked first, then the two unique indexes.\<close>

definition insert_event_row ::
    "uuid \<Rightarrow> activity_event \<Rightarrow> int option \<Rightarrow> activity_db \<Rightarrow> db_error + (activity_db \<times> bool)" where
  "insert_event_row screen e sequence a =
     andthen (event_row_ok e) (\<lambda>_.
       Inr (if ae_id e \<in> set (event_ids a) \<or> (case sequence of None \<Rightarrow> False | Some n \<Rightarrow> sequence_taken a screen n)
            then (a, False) else (append_event screen e sequence ''player'' a, True)))"

definition selection_date_ok :: "string \<Rightarrow> bool" where
  "selection_date_ok s \<longleftrightarrow> s = [] \<or> parse_date s \<noteq> None"

text \<open>A new event under a sequence number already used is kept without it.\<close>

definition without_sequence :: "activity_event \<Rightarrow> activity_event" where
  "without_sequence e = e\<lparr>ae_metadata := set_key ''sequenceCollision'' (JBool True)
     (set_key ''reportedSequence'' (JInt (ae_sequence e)) (ae_metadata e))\<rparr>"

definition stored_or :: "db_error + 'a \<Rightarrow> ingest_error + 'a" where
  "stored_or r = (case r of Inl e \<Rightarrow> Inl (StoreFailed e) | Inr x \<Rightarrow> Inr x)"

definition insert_player_event :: "uuid \<Rightarrow> activity_event \<Rightarrow> activity_db \<Rightarrow> ingest_error + (activity_db \<times> bool)" where
  "insert_player_event screen e a =
     andthen (check (selection_date_ok (ae_selection_date e)) SelectionDateInvalid) (\<lambda>_.
     andthen (stored_or (insert_event_row screen e (Some (ae_sequence e)) a)) (\<lambda>(a', inserted).
       if inserted then Inr (a', True)
       else if ae_id e \<in> set (event_ids a) then Inr (a, False)
       else stored_or (insert_event_row screen (without_sequence e) None a)))"

section \<open>A batch\<close>

record batch_result =
  br_accepted :: nat
  br_duplicates :: nat
  br_highest :: int
  br_acknowledged :: "uuid list"

definition count_event :: "activity_event \<Rightarrow> bool \<Rightarrow> batch_result \<Rightarrow> batch_result" where
  "count_event e inserted r = r\<lparr>
     br_accepted := br_accepted r + (if inserted then 1 else 0), br_duplicates := br_duplicates r + (if inserted then 0 else 1),
     br_highest := (if br_highest r < ae_sequence e then ae_sequence e else br_highest r),
     br_acknowledged := br_acknowledged r @ [ae_id e]\<rparr>"

fun ingest_events ::
    "(string \<Rightarrow> string) \<Rightarrow> screen_row list \<Rightarrow> (nat \<Rightarrow> fresh_ids) \<Rightarrow> uuid \<Rightarrow> instant \<Rightarrow> nat \<Rightarrow> activity_event list \<Rightarrow>
     server_state \<times> batch_result \<Rightarrow> ingest_error + (server_state \<times> batch_result)" where
  "ingest_events lw screens ids screen now n [] sr = Inr sr"
| "ingest_events lw screens ids screen now n (e0 # es) (st, r) =
     (case normalize_activity lw now e0 of
        Inl err \<Rightarrow> Inl (EventInvalid (n + 1) err)
      | Inr e \<Rightarrow>
          andthen (insert_player_event screen e (sv_activity st)) (\<lambda>(a, inserted).
            if \<not> inserted then ingest_events lw screens ids screen now (n + 1) es (st, count_event e False r)
            else andthen (stored_or (derive_activity lw screens (ids n) screen e (st\<lparr>sv_activity := a\<rparr>))) (\<lambda>st'.
              ingest_events lw screens ids screen now (n + 1) es (st', count_event e True r))))"

definition expire_sessions :: "uuid \<Rightarrow> instant \<Rightarrow> server_state \<Rightarrow> server_state" where
  "expire_sessions screen now st =
     st\<lparr>sv_activity := (sv_activity st)\<lparr>ad_sessions := close_expired screen now (ad_sessions (sv_activity st))\<rparr>\<rparr>"

definition empty_result :: batch_result where
  "empty_result = \<lparr>br_accepted = 0, br_duplicates = 0, br_highest = 0, br_acknowledged = []\<rparr>"

definition ingest_activity ::
    "(string \<Rightarrow> string) \<Rightarrow> screen_row list \<Rightarrow> (nat \<Rightarrow> fresh_ids) \<Rightarrow> uuid \<Rightarrow> instant \<Rightarrow> activity_event list \<Rightarrow> server_state \<Rightarrow>
     ingest_error + (server_state \<times> batch_result)" where
  "ingest_activity lw screens ids screen now es st =
     (if length es = 0 \<or> 200 < length es then Inl BatchSizeInvalid
      else andthen (ingest_events lw screens ids screen now 0 es (st, empty_result)) (\<lambda>(st', r).
        Inr (expire_sessions screen now st', r)))"

section \<open>Normalised events\<close>

lemma identified:
  assumes "identify_event lw now e0 = Inr e"
  obtains t where "e = e0\<lparr>ae_type := t\<rparr>" "event_type_ok t" "ae_id e0 \<noteq> uuid_nil" "0 < ae_sequence e0"
    "now - window_past \<le> ae_occurred e0" "ae_occurred e0 \<le> now + window_future"
  using assms unfolding identify_event_def Let_def andthen_Inr check_Inr by (elim exE conjE) (rule that, auto)

lemma classified:
  assumes "classify_event lw e0 = Inr e"
  obtains c v r where "e = e0\<lparr>ae_category := c, ae_severity := v, ae_result := r\<rparr>" "v \<in> set severities" "r \<in> set results"
  using assms unfolding classify_event_def Let_def andthen_Inr check_Inr sum.inject
  by (elim exE conjE) (rule that [OF sym], assumption+)

lemma amounts_checked:
  assumes "check_amounts e0 = Inr e"
  obtains x z where "e = e0\<lparr>ae_expected := x, ae_timezone := z\<rparr>" "\<not> negative (ae_duration e0)" "\<not> negative x" "x \<noteq> Some 0"
    "\<not> negative (ae_elapsed e0)" "z \<noteq> []" "length z \<le> 80"
  using assms unfolding check_amounts_def Let_def andthen_Inr check_Inr sum.inject
  by (elim exE conjE) (rule that [OF sym], assumption, simp_all add: negative_def not_less)

lemma canonical_terminal_idem: "canonical_terminal (canonical_terminal v) = canonical_terminal v"
  by (simp add: canonical_terminal_def)

lemma words_checked:
  assumes "check_session_words lw e0 = Inr e"
  obtains w v where "e = e0\<lparr>ae_session_type := w, ae_terminal := v\<rparr>" "w = [] \<or> is_session_type w" "v = [] \<or> v \<in> set terminal_reasons"
proof -
  define v where "v = canonical_terminal (to_lower lw (trim_space (ae_terminal e0)))"
  have "is_terminal v \<longleftrightarrow> v \<in> set terminal_reasons" by (auto simp: v_def is_terminal_def list_ex_iff canonical_terminal_idem)
  then show thesis
    using assms that unfolding check_session_words_def Let_def andthen_Inr check_Inr v_def [symmetric] by auto
qed

text \<open>The types a normalised event has: every \<open>CHECK\<close> of the table but the one on terminal reasons.\<close>

definition event_typed :: "instant \<Rightarrow> activity_event \<Rightarrow> bool" where
  "event_typed now e \<longleftrightarrow> ae_id e \<noteq> uuid_nil \<and> 0 < ae_sequence e \<and> event_type_ok (ae_type e)
     \<and> now - window_past \<le> ae_occurred e \<and> ae_occurred e \<le> now + window_future
     \<and> ae_severity e \<in> set severities \<and> ae_result e \<in> set results
     \<and> \<not> negative (ae_duration e) \<and> \<not> negative (ae_expected e) \<and> ae_expected e \<noteq> Some 0 \<and> \<not> negative (ae_elapsed e)
     \<and> ae_timezone e \<noteq> [] \<and> length (ae_timezone e) \<le> 80
     \<and> (ae_session_type e = [] \<or> is_session_type (ae_session_type e))
     \<and> (ae_terminal e = [] \<or> ae_terminal e \<in> set terminal_reasons) \<and> 0 \<le> ae_priority e \<and> ae_priority e \<le> 9"

lemma normalize_steps:
  assumes "normalize_activity lw now e0 = Inr e"
  obtains e1 e2 e3 e4 where "identify_event lw now e0 = Inr e1" "classify_event lw e1 = Inr e2" "check_amounts e2 = Inr e3"
    "check_session_words lw (bound_texts e3) = Inr e4" "\<not> (ae_priority (bound_context lw e4) < 0 \<or> 9 < ae_priority (bound_context lw e4))"
    "e = (bound_context lw e4)\<lparr>ae_metadata := sanitize_map lw True (ae_metadata (bound_context lw e4))\<rparr>"
  using assms by (auto simp: normalize_activity_def Let_def)

lemma bound_texts_keeps [simp]:
  "ae_id (bound_texts e) = ae_id e" "ae_sequence (bound_texts e) = ae_sequence e" "ae_type (bound_texts e) = ae_type e"
  "ae_occurred (bound_texts e) = ae_occurred e" "ae_severity (bound_texts e) = ae_severity e" "ae_result (bound_texts e) = ae_result e"
  "ae_duration (bound_texts e) = ae_duration e" "ae_expected (bound_texts e) = ae_expected e" "ae_elapsed (bound_texts e) = ae_elapsed e"
  "ae_timezone (bound_texts e) = ae_timezone e" "ae_priority (bound_texts e) = ae_priority e" "ae_metadata (bound_texts e) = ae_metadata e"
  by (simp_all add: bound_texts_def)

lemma bound_context_keeps [simp]:
  "ae_id (bound_context lw e) = ae_id e" "ae_sequence (bound_context lw e) = ae_sequence e" "ae_type (bound_context lw e) = ae_type e"
  "ae_occurred (bound_context lw e) = ae_occurred e" "ae_severity (bound_context lw e) = ae_severity e"
  "ae_result (bound_context lw e) = ae_result e" "ae_duration (bound_context lw e) = ae_duration e"
  "ae_expected (bound_context lw e) = ae_expected e" "ae_elapsed (bound_context lw e) = ae_elapsed e"
  "ae_timezone (bound_context lw e) = ae_timezone e" "ae_priority (bound_context lw e) = ae_priority e"
  "ae_session_type (bound_context lw e) = ae_session_type e" "ae_terminal (bound_context lw e) = ae_terminal e"
  by (simp_all add: bound_context_def)

lemma normalize_typed:
  assumes "normalize_activity lw now e0 = Inr e"
  shows "event_typed now e \<and> ae_id e = ae_id e0 \<and> ae_sequence e = ae_sequence e0"
proof (rule normalize_steps [OF assms])
  fix e1 e2 e3 e4
  assume s: "identify_event lw now e0 = Inr e1" "classify_event lw e1 = Inr e2" "check_amounts e2 = Inr e3"
    "check_session_words lw (bound_texts e3) = Inr e4"
    "\<not> (ae_priority (bound_context lw e4) < 0 \<or> 9 < ae_priority (bound_context lw e4))"
    "e = (bound_context lw e4)\<lparr>ae_metadata := sanitize_map lw True (ae_metadata (bound_context lw e4))\<rparr>"
  show ?thesis
    by (rule identified [OF s(1)], rule classified [OF s(2)], rule amounts_checked [OF s(3)], rule words_checked [OF s(4)])
      (use s(5) in \<open>simp add: s(6) event_typed_def not_less\<close>)
qed

lemma event_row_ok_iff:
  "event_row_ok e = Inr u \<longleftrightarrow> list_all text_ok (event_texts e) \<and> fields_storable (ae_metadata e) \<and> reason_storable (ae_terminal e)"
  by (auto simp: event_row_ok_def)

lemma fields_storable_iff: "fields_storable m \<longleftrightarrow> list_all (\<lambda>(k, v). char_of (0 :: nat) \<notin> set k \<and> json_storable v) m"
  by (induction m) auto

lemma set_key_storable: "char_of (0 :: nat) \<notin> set k \<Longrightarrow> json_storable v \<Longrightarrow> fields_storable m \<Longrightarrow> fields_storable (set_key k v m)"
  by (auto simp: fields_storable_iff set_key_def list_all_iff)

lemma without_sequence_keeps [simp]:
  "event_texts (without_sequence e) = event_texts e" "ae_terminal (without_sequence e) = ae_terminal e"
  "ae_id (without_sequence e) = ae_id e"
  by (simp_all add: without_sequence_def event_texts_def)

lemma without_sequence_row: "event_row_ok e = Inr () \<Longrightarrow> event_row_ok (without_sequence e) = Inr ()"
proof -
  assume "event_row_ok e = Inr ()"
  moreover have "fields_storable (ae_metadata e) \<Longrightarrow> fields_storable (ae_metadata (without_sequence e))"
    by (simp add: without_sequence_def set_key_storable char_of_eq_iff)
  ultimately show ?thesis by (simp add: event_row_ok_iff)
qed

lemma stored_or_Inr [simp]: "stored_or r = Inr x \<longleftrightarrow> r = Inr x"
  by (cases r) (simp_all add: stored_or_def)

lemma insert_event_row_Inr:
  "insert_event_row screen e sequence a = Inr r \<longleftrightarrow> event_row_ok e = Inr () \<and>
     r = (if ae_id e \<in> set (event_ids a) \<or> (case sequence of None \<Rightarrow> False | Some n \<Rightarrow> sequence_taken a screen n)
       then (a, False) else (append_event screen e sequence ''player'' a, True))"
  by (auto simp: insert_event_row_def)

lemma insert_player_event_Inr:
  "(\<exists>r. insert_player_event screen e a = Inr r) \<longleftrightarrow> selection_date_ok (ae_selection_date e) \<and> event_row_ok e = Inr ()"
  using without_sequence_row [of e]
  by (auto simp: insert_player_event_def insert_event_row_Inr split: if_splits)

section \<open>Properties\<close>

text \<open>
  C36. A normalised event is well typed: identifier, sequence, name, time, severity, result, durations, time zone, session
  type, terminal reason and priority are in the ranges the event table checks. Storing it succeeds exactly if its
  selection date parses, its texts are valid UTF-8 without NUL, its metadata has no NUL, and its terminal reason is not
  \<open>empty_content\<close>, the one word of the contract the table refuses.
\<close>

theorem normalised_event_stored:
  assumes "normalize_activity lw now e0 = Inr e"
  shows "event_typed now e
    \<and> ((\<exists>r. insert_player_event screen e a = Inr r) \<longleftrightarrow>
        selection_date_ok (ae_selection_date e) \<and> list_all text_ok (event_texts e) \<and> fields_storable (ae_metadata e)
        \<and> ae_terminal e \<noteq> ''empty_content'')"
proof -
  have t: "event_typed now e" using normalize_typed [OF assms] by simp
  have split: "table_reasons = filter (\<lambda>r. r \<noteq> ''empty_content'') terminal_reasons"
    by (simp add: table_reasons_def terminal_reasons_def)
  have m: "v \<in> set table_reasons \<longleftrightarrow> v \<in> set terminal_reasons \<and> v \<noteq> ''empty_content''" for v
    unfolding split set_filter mem_Collect_eq by (rule refl)
  have "ae_terminal e = [] \<or> ae_terminal e \<in> set terminal_reasons" using t unfolding event_typed_def by blast
  then have "reason_storable (ae_terminal e) \<longleftrightarrow> ae_terminal e \<noteq> ''empty_content''"
    unfolding reason_storable_def m by auto
  then show ?thesis unfolding insert_player_event_Inr event_row_ok_iff using t by blast
qed

definition skipped_event :: activity_event where
  "skipped_event = dropped_event\<lparr>ae_type := ''content.skipped'', ae_terminal := ''empty_content'', ae_result := ''skipped'',
     ae_severity := ''info'', ae_category := ''playback''\<rparr>"

lemma graphic_not_nul: "graphic c \<Longrightarrow> c \<noteq> char_of (0 :: nat)"
  by (auto simp: graphic_def)

lemma safe_text_graphic: "list_all graphic s \<Longrightarrow> length s \<le> n \<Longrightarrow> safe_text s n = s"
  by (simp add: safe_text_def trim_space_graphic) (simp add: filter_id_conv list_all_iff graphic_not_nul)

lemma event_char_lower: "event_char c \<Longrightarrow> lower_ascii c = c \<and> (of_char c :: nat) < 128 \<and> graphic c"
proof -
  have "list_all (\<lambda>c. lower_ascii c = c \<and> (of_char c :: nat) < 128 \<and> graphic c)
      (''abcdefghijklmnopqrstuvwxyz'' @ ''0123456789'' @ ''_.-'')"
    by (simp add: lower_ascii_def less_eq_char_def graphic_def)
  then show "event_char c \<Longrightarrow> lower_ascii c = c \<and> (of_char c :: nat) < 128 \<and> graphic c"
    unfolding event_char_def alpha_lower_def numeric_def list_all_iff set_append by blast
qed

lemma to_lower_event: "list_all event_char s \<Longrightarrow> to_lower lw s = s"
  using event_char_lower by (auto simp: to_lower_def list_all_iff intro: map_idI)

lemma trim_event: "list_all event_char s \<Longrightarrow> trim_space s = s"
  using event_char_lower by (intro trim_space_graphic) (auto simp: list_all_iff)

lemma word_eval:
  "to_lower lw ''content.skipped'' = ''content.skipped''" "trim_space ''content.skipped'' = ''content.skipped''"
  "to_lower lw ''empty_content'' = ''empty_content''" "trim_space ''empty_content'' = ''empty_content''"
  "to_lower lw ''playback'' = ''playback''" "to_lower lw [] = []" "trim_space [] = []"
  by (rule to_lower_event trim_event; simp add: event_char_def alpha_lower_def)+

lemma playback_text: "safe_text ''playback'' 48 = ''playback''" "safe_text ''connectivity'' 48 = ''connectivity''" "safe_text [] n = []"
  by (rule safe_text_graphic; simp add: graphic_def)+

lemma ended_event_normal:
  assumes "v = [] \<or> v = ''empty_content''"
  shows "normalize_activity id 0 (skipped_event\<lparr>ae_terminal := v\<rparr>) = Inr (skipped_event\<lparr>ae_terminal := v\<rparr>)"
proof -
  let ?e = "skipped_event\<lparr>ae_terminal := v\<rparr>"
  have i: "identify_event id 0 ?e = Inr ?e"
    by (simp add: identify_event_def Let_def skipped_event_def dropped_event_def word_eval uuid_nil_def zero_time_def
        window_past_def window_future_def hour_def minute_def second_def event_type_ok_def event_char_def alpha_lower_def)
  have c: "classify_event id ?e = Inr ?e"
    by (simp add: classify_event_def skipped_event_def dropped_event_def severities_def results_def word_eval playback_text Let_def)
  have a: "check_amounts ?e = Inr ?e"
    by (simp add: check_amounts_def skipped_event_def dropped_event_def negative_def)
  have b: "bound_texts ?e = ?e" "bound_context id ?e = ?e"
    by (simp_all add: bound_texts_def bound_context_def skipped_event_def dropped_event_def playback_text word_eval)
  have w: "check_session_words id ?e = Inr ?e"
    using assms
    by (auto simp: check_session_words_def Let_def skipped_event_def dropped_event_def word_eval canonical_terminal_def
        is_terminal_def terminal_reasons_def)
  show ?thesis
    by (simp add: normalize_activity_def i c a b w) (simp add: skipped_event_def dropped_event_def)
qed

lemma skipped_event_normal: "normalize_activity id 0 skipped_event = Inr skipped_event"
proof -
  have "skipped_event\<lparr>ae_terminal := ''empty_content''\<rparr> = skipped_event" by (simp add: skipped_event_def)
  then show ?thesis using ended_event_normal [of "''empty_content''"] by simp
qed

definition empty_activity :: activity_db where
  "empty_activity = \<lparr>ad_events = [], ad_sessions = [], ad_intervals = [], ad_memberships = []\<rparr>"

text \<open>So an event the contract documents makes the server refuse its batch.\<close>

theorem normalised_event_stored_witness:
  "event_typed 0 skipped_event \<and> \<not> (\<exists>r. insert_player_event (UUID ''s'') skipped_event empty_activity = Inr r)"
proof -
  have "ae_terminal skipped_event = ''empty_content''" by (simp add: skipped_event_def)
  then show ?thesis using normalised_event_stored [OF skipped_event_normal, of "UUID ''s''" empty_activity] by blast
qed

subsection \<open>Retries\<close>

lemma append_event_ids [simp]: "event_ids (append_event screen e sequence origin a) = event_ids a @ [ae_id e]"
  by (simp add: append_event_def event_ids_def)

lemma insert_player_event_ids:
  assumes "insert_player_event screen e a = Inr (a', inserted)"
  shows "ae_id e \<in> set (event_ids a') \<and> set (event_ids a) \<subseteq> set (event_ids a')
    \<and> (\<not> inserted \<longrightarrow> a' = a) \<and> (inserted \<longrightarrow> ae_id e \<notin> set (event_ids a))"
  using assms by (auto simp: insert_player_event_def insert_event_row_Inr split: if_splits)

lemma derive_activity_ids: "derive_activity lw screens ids screen e st = Inr st' \<Longrightarrow> event_ids (sv_activity st') = event_ids (sv_activity st)"
  by (auto simp: derive_activity_def event_ids_def Let_def)

lemma insert_player_event_again:
  assumes "insert_player_event screen e a = Inr r" "ae_id e \<in> set (event_ids b)"
  shows "insert_player_event screen e b = Inr (b, False)"
proof -
  have "selection_date_ok (ae_selection_date e) \<and> event_row_ok e = Inr ()" using assms(1) insert_player_event_Inr by blast
  then show ?thesis using assms(2) by (simp add: insert_player_event_def insert_event_row_def stored_or_def)
qed

lemma normalize_later:
  assumes "normalize_activity lw now e0 = Inr e" "now \<le> now'" "now' - window_past \<le> ae_occurred e0"
  shows "normalize_activity lw now' e0 = Inr e"
proof -
  obtain e1 where "identify_event lw now e0 = Inr e1" using assms(1) by (auto simp: normalize_activity_def)
  moreover from this have "identify_event lw now' e0 = Inr e1"
    using assms(2,3) by (auto simp: identify_event_def Let_def)
  ultimately show ?thesis using assms(1) by (simp add: normalize_activity_def)
qed

text \<open>What a batch that went through leaves: every event is stored.\<close>

lemma ingest_events_ids:
  "ingest_events lw screens ids screen now n es (st, r) = Inr (st', r') \<Longrightarrow>
     set (event_ids (sv_activity st)) \<union> ae_id ` set es \<subseteq> set (event_ids (sv_activity st'))"
proof (induction es arbitrary: n st r)
  case (Cons e0 es)
  obtain e where e: "normalize_activity lw now e0 = Inr e"
    using Cons.prems by (auto split: sum.splits)
  obtain a inserted where a: "insert_player_event screen e (sv_activity st) = Inr (a, inserted)"
    using Cons.prems e by auto
  note i = insert_player_event_ids [OF a]
  have k: "ae_id e = ae_id e0" using normalize_typed [OF e] by simp
  show ?case
  proof (cases inserted)
    case False
    then show ?thesis using Cons.prems Cons.IH [of "n + 1" st "count_event e False r"] e a i k by auto
  next
    case True
    then obtain st1 where st1: "derive_activity lw screens (ids n) screen e (st\<lparr>sv_activity := a\<rparr>) = Inr st1"
        "ingest_events lw screens ids screen now (n + 1) es (st1, count_event e True r) = Inr (st', r')"
      using Cons.prems e a by auto
    show ?thesis using Cons.IH [OF st1(2)] derive_activity_ids [OF st1(1)] i k by auto
  qed
qed simp

text \<open>The same batch again: nothing is stored or derived.\<close>

lemma ingest_events_again:
  "ingest_events lw screens ids screen now n es (st, r) = Inr (st', r') \<Longrightarrow>
     ae_id ` set es \<subseteq> set (event_ids (sv_activity st2)) \<Longrightarrow> now \<le> now' \<Longrightarrow> \<forall>e\<in>set es. now' - window_past \<le> ae_occurred e \<Longrightarrow>
     br_highest r2 = br_highest r \<Longrightarrow>
     \<exists>r2'. ingest_events lw screens' ids' screen now' n es (st2, r2) = Inr (st2, r2') \<and> br_accepted r2' = br_accepted r2
       \<and> br_duplicates r2' = br_duplicates r2 + length es \<and> br_highest r2' = br_highest r'
       \<and> br_acknowledged r2' = br_acknowledged r2 @ map ae_id es"
proof (induction es arbitrary: n st r r2)
  case (Cons e0 es)
  obtain e where e: "normalize_activity lw now e0 = Inr e"
    using Cons.prems(1) by (auto split: sum.splits)
  have e': "normalize_activity lw now' e0 = Inr e"
    by (rule normalize_later [OF e Cons.prems(3)]) (use Cons.prems(4) in simp)
  have k: "ae_id e = ae_id e0" using normalize_typed [OF e] by simp
  obtain a inserted where a: "insert_player_event screen e (sv_activity st) = Inr (a, inserted)"
    using Cons.prems(1) e by auto
  have again: "insert_player_event screen e (sv_activity st2) = Inr (sv_activity st2, False)"
    by (rule insert_player_event_again [OF a]) (use Cons.prems(2) k in auto)
  obtain st1 where st1: "ingest_events lw screens ids screen now (n + 1) es (st1, count_event e inserted r) = Inr (st', r')"
    using Cons.prems(1) e a by (cases inserted) auto
  have h: "br_highest (count_event e False r2) = br_highest (count_event e inserted r)"
    using Cons.prems(5) by (simp add: count_event_def)
  have sub: "ae_id ` set es \<subseteq> set (event_ids (sv_activity st2))" "\<forall>e\<in>set es. now' - window_past \<le> ae_occurred e"
    using Cons.prems(2,4) by auto
  obtain r2' where r2': "ingest_events lw screens' ids' screen now' (n + 1) es (st2, count_event e False r2) = Inr (st2, r2')"
      "br_accepted r2' = br_accepted (count_event e False r2)"
      "br_duplicates r2' = br_duplicates (count_event e False r2) + length es" "br_highest r2' = br_highest r'"
      "br_acknowledged r2' = br_acknowledged (count_event e False r2) @ map ae_id es"
    using Cons.IH [OF st1 sub(1) Cons.prems(3) sub(2) h] by blast
  have "ingest_events lw screens' ids' screen now' n (e0 # es) (st2, r2) = Inr (st2, r2')"
    by (simp only: ingest_events.simps e' again sum.case andthen_simps prod.case r2'(1)) simp
  then show ?case by (intro exI [of _ r2'] conjI) (use r2'(2-5) k in \<open>simp_all add: count_event_def\<close>)
qed simp

text \<open>
  C16. Retrying a batch is harmless: if a batch was accepted, sending it again, at any later time within the reporting
  window and whatever happened since, is accepted, stores and derives nothing (only sessions that run out by then are
  closed, as with any batch), counts every event as a duplicate, and acknowledges the same events and highest sequence.
\<close>

theorem ingest_retry_harmless:
  assumes "ingest_activity lw screens ids screen now es st = Inr (st1, r1)"
    and "set (event_ids (sv_activity st1)) \<subseteq> set (event_ids (sv_activity st2))"
    and "now \<le> now'" and "\<forall>e\<in>set es. now' - window_past \<le> ae_occurred e"
  shows "\<exists>r2. ingest_activity lw screens' ids' screen now' es st2 = Inr (expire_sessions screen now' st2, r2)
    \<and> br_accepted r2 = 0 \<and> br_duplicates r2 = length es \<and> br_highest r2 = br_highest r1
    \<and> br_acknowledged r2 = map ae_id es"
proof -
  have size: "\<not> (length es = 0 \<or> 200 < length es)" using assms(1) by (auto simp: ingest_activity_def)
  obtain st' where st': "ingest_events lw screens ids screen now 0 es (st, empty_result) = Inr (st', r1)"
      "st1 = expire_sessions screen now st'"
    using assms(1) size by (auto simp: ingest_activity_def)
  have "event_ids (sv_activity st1) = event_ids (sv_activity st')"
    by (simp add: st'(2) expire_sessions_def event_ids_def)
  then have "ae_id ` set es \<subseteq> set (event_ids (sv_activity st2))"
    using ingest_events_ids [OF st'(1)] assms(2) by auto
  from ingest_events_again [OF st'(1) this assms(3,4) refl, of screens' ids']
  obtain r2 where "ingest_events lw screens' ids' screen now' 0 es (st2, empty_result) = Inr (st2, r2)"
      "br_accepted r2 = 0" "br_duplicates r2 = length es" "br_highest r2 = br_highest r1" "br_acknowledged r2 = map ae_id es"
    by (elim exE conjE) (simp add: empty_result_def)
  then show ?thesis using size by (auto simp: ingest_activity_def)
qed

definition ended_event :: activity_event where "ended_event = skipped_event\<lparr>ae_terminal := []\<rparr>"

definition empty_server :: server_state where
  "empty_server = \<lparr>sv_activity = empty_activity, sv_incidents = no_incidents\<rparr>"

definition some_ids :: fresh_ids where
  "some_ids = \<lparr>fr_interval = UUID ''1'', fr_incident = UUID ''2'', fr_evidence = UUID ''3'', fr_session = UUID ''4''\<rparr>"

lemma ended_event_accepted:
  "\<exists>st r. ingest_activity id [] (\<lambda>_. some_ids) (UUID ''s'') 0 [ended_event] empty_server = Inr (st, r)"
proof -
  have n: "normalize_activity id 0 ended_event = Inr ended_event"
    using ended_event_normal [of "[]"] by (simp add: ended_event_def)
  have t: "list_all text_ok (event_texts ended_event)"
    by (simp add: event_texts_def ended_event_def skipped_event_def dropped_event_def text_ok_def continuation_def char_of_eq_iff)
  have f: "ae_sequence ended_event = 1" "ae_selection_date ended_event = []" "ae_terminal ended_event = []" "ae_metadata ended_event = []"
    by (simp_all add: ended_event_def skipped_event_def dropped_event_def)
  have r: "insert_event_row (UUID ''s'') ended_event (Some 1) empty_activity
      = Inr (append_event (UUID ''s'') ended_event (Some 1) ''player'' empty_activity, True)"
    unfolding insert_event_row_Inr event_row_ok_iff
    by (simp add: t f reason_storable_def event_ids_def empty_activity_def sequence_taken_def)
  have "insert_player_event (UUID ''s'') ended_event empty_activity
      = Inr (append_event (UUID ''s'') ended_event (Some 1) ''player'' empty_activity, True)"
    by (simp add: insert_player_event_def f selection_date_ok_def r stored_or_def)
  moreover have "\<exists>st. derive_activity id [] some_ids (UUID ''s'') ended_event
      (empty_server\<lparr>sv_activity := append_event (UUID ''s'') ended_event (Some 1) ''player'' empty_activity\<rparr>) = Inr st"
    by (simp add: derive_activity_def derive_sessions_def is_playback_start_def is_playback_end_def canonical_type_def
        event_aliases_def end_session_def ended_event_def skipped_event_def dropped_event_def Let_def)
  ultimately show ?thesis
    using n by (auto simp: ingest_activity_def stored_or_def empty_server_def)
qed

theorem ingest_retry_harmless_witness:
  "\<exists>st r r2. ingest_activity id [] (\<lambda>_. some_ids) (UUID ''s'') 0 [ended_event] empty_server = Inr (st, r)
     \<and> ingest_activity id [] (\<lambda>_. some_ids) (UUID ''s'') 1 [ended_event] st = Inr (expire_sessions (UUID ''s'') 1 st, r2)
     \<and> br_accepted r2 = 0 \<and> br_duplicates r2 = 1"
proof -
  obtain st r where s: "ingest_activity id [] (\<lambda>_. some_ids) (UUID ''s'') 0 [ended_event] empty_server = Inr (st, r)"
    using ended_event_accepted by blast
  have "\<forall>e\<in>set [ended_event]. 1 - window_past \<le> ae_occurred e"
    by (simp add: ended_event_def skipped_event_def dropped_event_def window_past_def hour_def minute_def second_def)
  from ingest_retry_harmless [OF s subset_refl _ this, of "[]" "\<lambda>_. some_ids"] s show ?thesis by auto
qed

end
