(* ===== verification/ActivityConnectivity.thy ===== *)
theory ActivityConnectivity
  imports ActivityIngest
begin

text \<open>
  What the server derives from a heartbeat (\<open>httpapi/activity_connectivity.go\<close>): gaps, transitions between two status
  reports, recovery of playback incidents, the anchored state interval; the fleet's operational states
  (\<open>activity_fleet.go\<close>) and the status of a screen (\<open>devices/status.go\<close>). The window of expected playback that the same
  transaction maintains is in \<open>ExpectedPlayback\<close>. The text of an instant in JSON is the parameter \<open>rfc\<close>.
\<close>

section \<open>Status reports\<close>

record heartbeat_state =
  hb_manifest :: "int option"
  hb_schedule :: "uuid option"
  hb_selection :: string
  hb_command :: "uuid option"
  hb_command_state :: string
  hb_takeover :: "uuid option"
  hb_takeover_state :: string
  hb_update :: "uuid option"
  hb_update_state :: string
  hb_safe_mode :: bool
  hb_watchdog_failure :: string
  hb_watchdog_recovery :: "instant option"
  hb_foreground :: string
  hb_sleep :: string
  hb_wake :: string
  hb_playback :: string
  hb_error :: string
  hb_used :: "int option"
  hb_limit :: "int option"

definition storage_pressure :: "int option \<Rightarrow> int option \<Rightarrow> bool" where
  "storage_pressure used limit =
     (case (used, limit) of
        (Some u, Some l) \<Rightarrow> 0 < l \<and> wrap64 (l * 90) \<le> wrap64 (u * 100)
      | _ \<Rightarrow> False)"

definition confirms_healthy :: "heartbeat_state \<Rightarrow> bool" where
  "confirms_healthy s =
     (if hb_playback s \<noteq> ''playing'' \<or> hb_error s \<noteq> [] \<or> hb_safe_mode s then False
      else if hb_foreground s \<noteq> [] \<and> hb_foreground s \<noteq> ''foreground'' then False
      else \<not> storage_pressure (hb_used s) (hb_limit s))"

definition command_activity :: "string \<Rightarrow> string \<times> string \<times> string" where
  "command_activity s =
     (if s = ''acknowledged'' then (''command.acknowledged'', ''info'', ''success'')
      else if s = ''running'' then (''command.started'', ''info'', ''playing'')
      else if s = ''succeeded'' then (''command.succeeded'', ''info'', ''completed'')
      else if s = ''failed'' then (''command.failed'', ''error'', ''failed'')
      else if s = ''expired'' \<or> s = ''cancelled'' then (''command.expired'', ''warning'', ''failed'')
      else (''command.created'', ''info'', ''success''))"

definition update_activity :: "string \<Rightarrow> string \<times> string \<times> string" where
  "update_activity s =
     (if s = ''downloading'' then (''update.download_started'', ''info'', ''playing'')
      else if s = ''verifying'' \<or> s = ''ready'' then (''update.signature_verified'', ''info'', ''success'')
      else if s = ''installing'' \<or> s = ''reconnecting'' then (''update.installation_started'', ''info'', ''playing'')
      else if s = ''succeeded'' \<or> s = ''already_current'' then (''update.installation_completed'', ''info'', ''completed'')
      else if s = ''failed'' \<or> s = ''incompatible'' then (''update.installation_failed'', ''error'', ''failed'')
      else (''update.assigned'', ''info'', ''success''))"

definition takeover_activity :: "string \<Rightarrow> string \<times> string \<times> string" where
  "takeover_activity s =
     (if s = ''notified'' then (''takeover.screen_notified'', ''warning'', ''success'')
      else if s = ''preparing'' \<or> s = ''ready'' then (''takeover.content_preparing'', ''warning'', ''playing'')
      else if s = ''active'' then (''takeover.active'', ''critical'', ''playing'')
      else if s = ''failed'' \<or> s = ''offline'' then (''takeover.activation_failed'', ''critical'', ''failed'')
      else if s = ''restored'' \<or> s = ''cancelled'' \<or> s = ''expired'' then (''takeover.restored'', ''info'', ''recovered'')
      else (''takeover.assigned'', ''warning'', ''success''))"

definition activity_priority :: "string \<Rightarrow> int" where
  "activity_priority s = (if s = ''critical'' \<or> s = ''error'' then 9 else if s = ''warning'' then 8 else 6)"

definition contains_fold :: "string \<Rightarrow> string \<Rightarrow> bool" where
  "contains_fold v fragment \<longleftrightarrow> contains (map lower_ascii v) (map lower_ascii fragment)"

definition result_from_text :: "string \<Rightarrow> string" where
  "result_from_text v = (if list_ex (contains_fold v) [''failed'', ''unsupported'', ''denied'', ''error''] then ''failed'' else ''success'')"

section \<open>Server events\<close>

definition server_event :: "uuid \<Rightarrow> string \<Rightarrow> string \<Rightarrow> string \<Rightarrow> instant \<Rightarrow> string \<Rightarrow> int \<Rightarrow> activity_event" where
  "server_event i t category severity at result priority =
     \<lparr>ae_id = i, ae_sequence = 0, ae_type = t, ae_category = category, ae_severity = severity, ae_occurred = at,
       ae_elapsed = None, ae_timezone = ''UTC'', ae_manifest = None, ae_presentation_type = [], ae_presentation = [],
       ae_presentation_revision = [], ae_content_type = [], ae_content = [], ae_playlist_item = [], ae_placement = [],
       ae_session = [], ae_parent = [], ae_session_type = [], ae_terminal = [], ae_result = result, ae_duration = None,
       ae_expected = None, ae_failure = [], ae_message = [], ae_trigger = [], ae_schedule = [], ae_takeover = [],
       ae_source = [], ae_record = [], ae_selection_date = [], ae_cached_at = None, ae_source_revision = [],
       ae_snapshot = [], ae_metadata = [], ae_priority = priority\<rparr>"

text \<open>The events between two reports, in order; \<open>ids n\<close> is the identifier of the event at place \<open>n\<close>.\<close>

definition manifest_transition :: "uuid \<Rightarrow> heartbeat_state \<Rightarrow> heartbeat_state \<Rightarrow> instant \<Rightarrow> activity_event list" where
  "manifest_transition i b a now =
     (if hb_manifest b \<noteq> hb_manifest a \<and> hb_manifest a \<noteq> None
      then [(server_event i ''manifest.activated'' ''manifest'' ''info'' now ''success'' 8)\<lparr>ae_manifest := hb_manifest a\<rparr>] else [])"

definition schedule_transitions :: "uuid \<Rightarrow> uuid \<Rightarrow> heartbeat_state \<Rightarrow> heartbeat_state \<Rightarrow> instant \<Rightarrow> activity_event list" where
  "schedule_transitions i j b a now =
     (if hb_schedule b = hb_schedule a then []
      else (case hb_schedule b of None \<Rightarrow> []
            | Some s \<Rightarrow> [(server_event i ''schedule.ended'' ''scheduling'' ''info'' now ''success'' 7)\<lparr>ae_schedule := uuid_string s\<rparr>])
         @ (case hb_schedule a of
              Some s \<Rightarrow> [(server_event j ''schedule.became_active'' ''scheduling'' ''info'' now ''success'' 8)
                \<lparr>ae_schedule := uuid_string s, ae_trigger := ''schedule''\<rparr>]
            | None \<Rightarrow>
                if hb_schedule b \<noteq> None \<and> hb_selection a \<noteq> ''takeover''
                then [(server_event j ''direct_assignment.resumed'' ''scheduling'' ''info'' now ''recovered'' 7)\<lparr>ae_trigger := hb_selection a\<rparr>]
                else []))"

definition command_transition :: "uuid \<Rightarrow> heartbeat_state \<Rightarrow> heartbeat_state \<Rightarrow> instant \<Rightarrow> activity_event list" where
  "command_transition i b a now =
     (if hb_command b = hb_command a \<and> hb_command_state b = hb_command_state a then []
      else case hb_command a of
        Some c \<Rightarrow> if hb_command_state a = [] then []
          else (case command_activity (hb_command_state a) of (t, severity, result) \<Rightarrow>
            [(server_event i t ''commands'' severity now result (activity_priority severity))
              \<lparr>ae_content_type := ''command'', ae_content := uuid_string c\<rparr>])
      | None \<Rightarrow> [])"

definition takeover_transition :: "uuid \<Rightarrow> heartbeat_state \<Rightarrow> heartbeat_state \<Rightarrow> instant \<Rightarrow> activity_event list" where
  "takeover_transition i b a now =
     (if hb_takeover b = hb_takeover a \<and> hb_takeover_state b = hb_takeover_state a then []
      else case hb_takeover a of
        Some k \<Rightarrow> (case takeover_activity (hb_takeover_state a) of (t, severity, result) \<Rightarrow>
            [(server_event i t ''takeovers'' severity now result (activity_priority severity))
              \<lparr>ae_takeover := uuid_string k, ae_content_type := ''takeover'', ae_content := uuid_string k\<rparr>])
      | None \<Rightarrow> (case hb_takeover b of
          Some k \<Rightarrow> [(server_event i ''takeover.restored'' ''takeovers'' ''info'' now ''recovered'' 9)\<lparr>ae_takeover := uuid_string k\<rparr>]
        | None \<Rightarrow> []))"

definition update_transition :: "uuid \<Rightarrow> heartbeat_state \<Rightarrow> heartbeat_state \<Rightarrow> instant \<Rightarrow> activity_event list" where
  "update_transition i b a now =
     (if hb_update b = hb_update a \<and> hb_update_state b = hb_update_state a then []
      else case hb_update a of
        Some u \<Rightarrow> if hb_update_state a = [] then []
          else (case update_activity (hb_update_state a) of (t, severity, result) \<Rightarrow>
            [(server_event i t ''updates'' severity now result (activity_priority severity))
              \<lparr>ae_content_type := ''update_deployment'', ae_content := uuid_string u\<rparr>])
      | None \<Rightarrow> [])"

definition safety_transitions :: "uuid \<Rightarrow> uuid \<Rightarrow> uuid \<Rightarrow> heartbeat_state \<Rightarrow> heartbeat_state \<Rightarrow> instant \<Rightarrow> activity_event list" where
  "safety_transitions i j k b a now =
     (if hb_safe_mode b = hb_safe_mode a then []
      else if hb_safe_mode a then [server_event i ''safe_mode.entered'' ''reliability'' ''error'' now ''failed'' 9]
      else [server_event i ''safe_mode.exited'' ''reliability'' ''info'' now ''recovered'' 9])
     @ (if hb_foreground b \<noteq> hb_foreground a \<and> hb_foreground a \<noteq> [] \<and> hb_foreground a \<noteq> ''foreground'' \<and> hb_foreground a \<noteq> ''recovering''
        then [(server_event j ''foreground_playback.lost'' ''reliability'' ''warning'' now ''failed'' 8)\<lparr>ae_failure := hb_foreground a\<rparr>] else [])
     @ (case hb_watchdog_recovery a of None \<Rightarrow> []
        | Some t \<Rightarrow> if hb_watchdog_recovery b = Some t then []
            else [(server_event k ''watchdog.recovery'' ''reliability'' ''warning'' t ''recovered'' 9)\<lparr>ae_failure := hb_watchdog_failure a\<rparr>])"

definition request_transition :: "uuid \<Rightarrow> string \<Rightarrow> string \<Rightarrow> string \<Rightarrow> instant \<Rightarrow> activity_event list" where
  "request_transition i t before after now =
     (if before \<noteq> after \<and> after \<noteq> []
      then [(server_event i t ''reliability'' ''info'' now (result_from_text after) 6)\<lparr>ae_metadata := [(''result'', JStr after)]\<rparr>] else [])"

definition json_int :: "int option \<Rightarrow> json" where
  "json_int n = (case n of None \<Rightarrow> JNull | Some k \<Rightarrow> JInt k)"

definition failure_transitions :: "uuid \<Rightarrow> uuid \<Rightarrow> heartbeat_state \<Rightarrow> heartbeat_state \<Rightarrow> instant \<Rightarrow> activity_event list" where
  "failure_transitions i j b a now =
     (if hb_error b \<noteq> hb_error a \<and> hb_error a \<noteq> []
      then [(server_event i ''renderer.failure'' ''reliability'' ''error'' now ''failed'' 9)
        \<lparr>ae_failure := ''playback_error'', ae_message := safe_text (hb_error a) 240\<rparr>] else [])
     @ (if storage_pressure (hb_used a) (hb_limit a) \<and> \<not> storage_pressure (hb_used b) (hb_limit b)
        then [(server_event j ''storage.pressure'' ''reliability'' ''warning'' now ''failed'' 8)
          \<lparr>ae_failure := ''cache_pressure'', ae_metadata := [(''usedBytes'', json_int (hb_used a)), (''limitBytes'', json_int (hb_limit a))]\<rparr>]
        else [])"

definition heartbeat_transitions ::
    "(nat \<Rightarrow> uuid) \<Rightarrow> heartbeat_state \<Rightarrow> heartbeat_state \<Rightarrow> instant \<Rightarrow> activity_event list" where
  "heartbeat_transitions ids b a now =
     manifest_transition (ids 0) b a now @ schedule_transitions (ids 1) (ids 2) b a now @ command_transition (ids 3) b a now
     @ takeover_transition (ids 4) b a now @ update_transition (ids 5) b a now @ safety_transitions (ids 6) (ids 7) (ids 8) b a now
     @ request_transition (ids 9) ''sleep.request'' (hb_sleep b) (hb_sleep a) now
     @ request_transition (ids 10) ''wake.request'' (hb_wake b) (hb_wake a) now
     @ failure_transitions (ids 11) (ids 12) b a now"

section \<open>Recording a heartbeat\<close>

text \<open>\<open>insertServerActivity\<close> keeps no session columns; the row then goes through derivation in the same transaction.\<close>

definition server_row :: "(string \<Rightarrow> string) \<Rightarrow> activity_event \<Rightarrow> activity_event" where
  "server_row lw e = e\<lparr>ae_timezone := ''UTC'', ae_metadata := sanitize_map lw True (ae_metadata e),
     ae_elapsed := None, ae_playlist_item := [], ae_placement := [], ae_session := [], ae_parent := [], ae_session_type := [],
     ae_terminal := [], ae_expected := None, ae_source := [], ae_record := [], ae_selection_date := [], ae_cached_at := None,
     ae_source_revision := [], ae_snapshot := []\<rparr>"

text \<open>An event without a time takes the clock of \<open>recordServerTransition\<close>.\<close>

definition timed :: "instant \<Rightarrow> activity_event \<Rightarrow> activity_event" where
  "timed clock e = (if ae_occurred e = zero_time then e\<lparr>ae_occurred := clock\<rparr> else e)"

definition record_server_transition ::
    "(string \<Rightarrow> string) \<Rightarrow> screen_row list \<Rightarrow> instant \<Rightarrow> fresh_ids \<Rightarrow> uuid \<Rightarrow> activity_event \<Rightarrow> server_state \<Rightarrow> db_error + server_state" where
  "record_server_transition lw screens clock ids screen e0 st =
     (let e = timed clock e0 in
      andthen (event_row_ok (server_row lw e)) (\<lambda>_.
       (let a = sv_activity st;
            a' = (if ae_id e \<in> set (event_ids a) then a else append_event screen (server_row lw e) None ''server'' a)
        in derive_activity lw screens ids screen e (st\<lparr>sv_activity := a'\<rparr>))))"

fun record_transitions ::
    "(string \<Rightarrow> string) \<Rightarrow> screen_row list \<Rightarrow> instant \<Rightarrow> (nat \<Rightarrow> fresh_ids) \<Rightarrow> uuid \<Rightarrow> nat \<Rightarrow> activity_event list \<Rightarrow> server_state \<Rightarrow>
     db_error + server_state" where
  "record_transitions lw screens clock ids screen n [] st = Inr st"
| "record_transitions lw screens clock ids screen n (e # es) st =
     andthen (record_server_transition lw screens clock (ids n) screen e st) (record_transitions lw screens clock ids screen (n + 1) es)"

definition gap_limit :: duration where "gap_limit = 3 * minute"

definition milliseconds :: "duration \<Rightarrow> int" where "milliseconds d = go_div d 1000000"

definition gap_events :: "(instant \<Rightarrow> string) \<Rightarrow> uuid \<Rightarrow> uuid \<Rightarrow> instant \<Rightarrow> instant \<Rightarrow> activity_event list" where
  "gap_events rfc i j previous now =
     (let gap = time_sub now previous in
      [(server_event i ''heartbeat.gap_detected'' ''connectivity'' ''warning'' (previous + gap_limit) ''unknown'' 9)
         \<lparr>ae_duration := Some (milliseconds gap), ae_failure := ''heartbeat_gap'',
          ae_message := ''Player stopped reporting within the expected heartbeat window.'',
          ae_metadata := [(''lastHeartbeatAt'', JStr (rfc previous)), (''restoredAt'', JStr (rfc now))]\<rparr>,
       (server_event j ''connection.restored'' ''connectivity'' ''info'' now ''recovered'' 8)
         \<lparr>ae_duration := Some (milliseconds gap)\<rparr>])"

definition close_at_heartbeat :: "uuid \<Rightarrow> instant \<Rightarrow> playback_session list \<Rightarrow> playback_session list" where
  "close_at_heartbeat screen previous rows =
     update_where (\<lambda>s. ps_screen s = screen \<and> ps_ended s = None \<and> ps_started s \<le> micros previous)
       (close_session previous ''unknown'' ''heartbeat_gap'') rows"

definition gap_recorded :: "activity_db \<Rightarrow> uuid \<Rightarrow> instant \<Rightarrow> bool" where
  "gap_recorded a screen at \<longleftrightarrow> list_ex (\<lambda>r. se_screen r = screen \<and> ae_type (se_event r) = ''heartbeat.gap_detected''
     \<and> ae_occurred (se_event r) = micros at) (ad_events a)"

definition up_interval :: "uuid \<Rightarrow> state_interval \<Rightarrow> bool" where
  "up_interval screen i \<longleftrightarrow> si_screen i = screen \<and> si_ended i = None \<and> si_state i \<in> set [''online'', ''healthy'']"

text \<open>The connection part: sessions to close first, then events.\<close>

definition connection_events ::
    "(instant \<Rightarrow> string) \<Rightarrow> (nat \<Rightarrow> uuid) \<Rightarrow> uuid \<Rightarrow> instant option \<Rightarrow> instant \<Rightarrow> activity_db \<Rightarrow> activity_event list \<times> instant option" where
  "connection_events rfc ids screen previous now a =
     (let timeline = list_ex (\<lambda>i. si_screen i = screen) (ad_intervals a) in
      case previous of
        None \<Rightarrow> (if list_ex (up_interval screen) (ad_intervals a) then []
                 else [server_event (ids 13) ''player.connected'' ''connectivity'' ''info'' now ''success'' 8], None)
      | Some p \<Rightarrow>
          if \<not> timeline
          then (if list_ex (up_interval screen) (ad_intervals a) then []
                else [server_event (ids 13) ''player.connected'' ''connectivity'' ''info'' now ''success'' 8], None)
          else if gap_limit < time_sub now p \<and> \<not> gap_recorded a screen (p + gap_limit)
          then (gap_events rfc (ids 13) (ids 14) p now, Some p)
          else ([], None))"

definition reconcile_playback :: "(nat \<Rightarrow> uuid) \<Rightarrow> uuid \<Rightarrow> heartbeat_state \<Rightarrow> instant \<Rightarrow> incident_db \<Rightarrow> activity_event list" where
  "reconcile_playback ids screen after now db =
     (if confirms_healthy after \<and> list_ex (active_for (dedupe_key screen ''playback'')) (id_incidents db)
      then [server_event (ids 15) ''renderer.recovered'' ''reliability'' ''info'' now ''recovered'' 8] else [])"

definition anchor_interval :: "uuid \<Rightarrow> uuid \<Rightarrow> heartbeat_state \<Rightarrow> instant \<Rightarrow> state_interval list \<Rightarrow> state_interval list" where
  "anchor_interval fresh screen after now rows =
     (let state = (if confirms_healthy after then ''healthy'' else ''online'');
          new = \<lparr>si_id = fresh, si_screen = screen, si_state = state, si_started = micros now, si_ended = None,
            si_start_event = None, si_end_event = None, si_reason = [], si_metadata = [(''source'', JStr ''heartbeat'')]\<rparr>
      in case sort_by (\<lambda>a b. si_started b < si_started a) (filter (\<lambda>i. si_screen i = screen \<and> si_ended i = None) rows) of
        [] \<Rightarrow> insert_interval new rows
      | i # _ \<Rightarrow>
          if si_state i = ''online'' \<or> si_state i = ''healthy'' \<or> state \<noteq> ''healthy'' then rows
          else insert_interval new
            (update_where (\<lambda>i. si_screen i = screen \<and> si_ended i = None) (\<lambda>i. i\<lparr>si_ended := Some (micros now)\<rparr>) rows))"

definition close_gap_sessions :: "uuid \<Rightarrow> instant option \<Rightarrow> server_state \<Rightarrow> server_state" where
  "close_gap_sessions screen previous st =
     (case previous of None \<Rightarrow> st
      | Some p \<Rightarrow> st\<lparr>sv_activity := (sv_activity st)\<lparr>ad_sessions := close_at_heartbeat screen p (ad_sessions (sv_activity st))\<rparr>\<rparr>)"

definition anchor_state :: "uuid \<Rightarrow> uuid \<Rightarrow> heartbeat_state \<Rightarrow> instant \<Rightarrow> server_state \<Rightarrow> server_state" where
  "anchor_state fresh screen after now st =
     st\<lparr>sv_activity := (sv_activity st)\<lparr>ad_intervals := anchor_interval fresh screen after now (ad_intervals (sv_activity st))\<rparr>\<rparr>"

definition heartbeat_steps ::
    "(string \<Rightarrow> string) \<Rightarrow> (instant \<Rightarrow> string) \<Rightarrow> screen_row list \<Rightarrow> instant \<Rightarrow> (nat \<Rightarrow> uuid) \<Rightarrow> (nat \<Rightarrow> fresh_ids) \<Rightarrow> uuid \<Rightarrow>
     instant option \<Rightarrow> heartbeat_state \<Rightarrow> heartbeat_state \<Rightarrow> instant \<Rightarrow> server_state \<Rightarrow> db_error + server_state" where
  "heartbeat_steps lw rfc screens clock ids fresh screen previous before after now st =
     (case connection_events rfc ids screen previous now (sv_activity st) of (events, closing) \<Rightarrow>
        andthen (record_transitions lw screens clock fresh screen 0 events (close_gap_sessions screen closing st)) (\<lambda>st1.
        andthen (record_transitions lw screens clock fresh screen 2 (heartbeat_transitions ids before after now) st1) (\<lambda>st2.
        andthen (record_transitions lw screens clock fresh screen 20 (reconcile_playback ids screen after now (sv_incidents st2)) st2) (\<lambda>st3.
          Inr (anchor_state (ids 16) screen after now st3)))))"

text \<open>An error of the database aborts the transaction: nothing of the heartbeat is recorded.\<close>

definition record_heartbeat ::
    "(string \<Rightarrow> string) \<Rightarrow> (instant \<Rightarrow> string) \<Rightarrow> screen_row list \<Rightarrow> instant \<Rightarrow> (nat \<Rightarrow> uuid) \<Rightarrow> (nat \<Rightarrow> fresh_ids) \<Rightarrow> uuid \<Rightarrow>
     instant option \<Rightarrow> heartbeat_state \<Rightarrow> heartbeat_state \<Rightarrow> instant \<Rightarrow> server_state \<Rightarrow> server_state" where
  "record_heartbeat lw rfc screens clock ids fresh screen previous before after now st =
     (case heartbeat_steps lw rfc screens clock ids fresh screen previous before after now st of Inl _ \<Rightarrow> st | Inr st' \<Rightarrow> st')"

section \<open>Fleet states\<close>

record fleet_signals =
  fs_heartbeat :: "instant option"
  fs_status :: bool
  fs_playback :: string
  fs_error :: string
  fs_safe_mode :: bool
  fs_disabled :: bool
  fs_foreground :: string
  fs_used :: "int option"
  fs_limit :: "int option"
  fs_manifest :: "int option"
  fs_sync_error :: string

definition normalize_playback :: "(string \<Rightarrow> string) \<Rightarrow> string \<Rightarrow> string" where
  "normalize_playback lw v =
     (let n = map (\<lambda>c. if c = CHR ''-'' then CHR ''_'' else c) (to_lower lw (trim_space v)) in
      if n = ''playing'' then ''playing''
      else if n = ''safe_mode'' then ''safe_mode''
      else if n = ''off_hours'' \<or> n = ''sleep'' then ''off_hours''
      else if n = ''disabled'' then ''disabled''
      else if n = [] then []
      else ''idle'')"

definition playback_expected :: "(string \<Rightarrow> string) \<Rightarrow> fleet_signals \<Rightarrow> bool" where
  "playback_expected lw s =
     (if fs_disabled s \<or> fs_manifest s = None then False
      else normalize_playback lw (fs_playback s) \<notin> set [''off_hours'', ''disabled''])"

datatype fleet_state = FleetHealthy | FleetImpaired | FleetOffline | FleetUnmeasured

definition classify_screen :: "(string \<Rightarrow> string) \<Rightarrow> instant \<Rightarrow> fleet_signals \<Rightarrow> fleet_state \<times> string" where
  "classify_screen lw now s =
     (case fs_heartbeat s of
        None \<Rightarrow> (FleetUnmeasured, ''never_reported'')
      | Some h \<Rightarrow>
          (let state = normalize_playback lw (fs_playback s) in
           if heartbeat_grace < time_sub now h then (FleetOffline, ''heartbeat_grace_exceeded'')
           else if \<not> fs_status s then (FleetUnmeasured, ''no_player_status'')
           else if fs_safe_mode s \<or> state = ''safe_mode'' then (FleetImpaired, ''safe_mode'')
           else if fs_error s \<noteq> [] then (FleetImpaired, ''playback_error'')
           else if fs_foreground s \<noteq> [] \<and> fs_foreground s \<noteq> ''foreground'' then (FleetImpaired, ''not_in_foreground'')
           else if storage_pressure (fs_used s) (fs_limit s) then (FleetImpaired, ''storage_pressure'')
           else if fs_sync_error s \<noteq> [] then (FleetImpaired, ''synchronization_error'')
           else if \<not> playback_expected lw s then (FleetUnmeasured, ''playback_not_expected'')
           else if state \<noteq> ''playing'' then (FleetImpaired, ''playback_not_confirmed'')
           else (FleetHealthy, ''playing'')))"

record fleet_health =
  fh_measured :: nat
  fh_online :: nat
  fh_healthy :: nat
  fh_impaired :: nat
  fh_offline :: nat
  fh_unmeasured :: nat

definition count_screen :: "(string \<Rightarrow> string) \<Rightarrow> instant \<Rightarrow> fleet_signals \<Rightarrow> fleet_health \<Rightarrow> fleet_health" where
  "count_screen lw now s h =
     (let state = fst (classify_screen lw now s); h1 = h\<lparr>fh_measured := fh_measured h + 1\<rparr>;
          h2 = (case state of
            FleetHealthy \<Rightarrow> h1\<lparr>fh_healthy := fh_healthy h1 + 1\<rparr>
          | FleetImpaired \<Rightarrow> h1\<lparr>fh_impaired := fh_impaired h1 + 1\<rparr>
          | FleetOffline \<Rightarrow> h1\<lparr>fh_offline := fh_offline h1 + 1\<rparr>
          | FleetUnmeasured \<Rightarrow> h1\<lparr>fh_unmeasured := fh_unmeasured h1 + 1\<rparr>)
      in if state \<noteq> FleetOffline \<and> fs_heartbeat s \<noteq> None then h2\<lparr>fh_online := fh_online h2 + 1\<rparr> else h2)"

definition fleet_health_of :: "(string \<Rightarrow> string) \<Rightarrow> instant \<Rightarrow> fleet_signals list \<Rightarrow> fleet_health" where
  "fleet_health_of lw now rows = fold (count_screen lw now) rows
     \<lparr>fh_measured = 0, fh_online = 0, fh_healthy = 0, fh_impaired = 0, fh_offline = 0, fh_unmeasured = 0\<rparr>"

section \<open>Screen status\<close>

datatype screen_status = StatusAwaitingPlayer | StatusDisabled | StatusRevoked | StatusOnline | StatusRecent | StatusStale | StatusOffline

definition recent_threshold :: duration where "recent_threshold = 2 * minute"
definition offline_threshold :: duration where "offline_threshold = 15 * minute"

definition compute_status :: "instant \<Rightarrow> bool \<Rightarrow> bool \<Rightarrow> bool \<Rightarrow> instant option \<Rightarrow> screen_status" where
  "compute_status now socket enabled credential contact =
     (if \<not> enabled then StatusDisabled
      else if \<not> credential then StatusRevoked
      else if socket then StatusOnline
      else case contact of
        None \<Rightarrow> StatusOffline
      | Some t \<Rightarrow>
          (let age = time_sub now t in
           if age \<le> recent_threshold then StatusRecent
           else if age \<le> offline_threshold then StatusStale
           else StatusOffline))"

definition compute_screen_status :: "instant \<Rightarrow> bool \<Rightarrow> bool \<Rightarrow> bool \<Rightarrow> bool \<Rightarrow> instant option \<Rightarrow> screen_status" where
  "compute_screen_status now socket enabled credential awaiting contact =
     (if enabled \<and> \<not> credential \<and> awaiting then StatusAwaitingPlayer else compute_status now socket enabled credential contact)"

fun latest_contact :: "instant option list \<Rightarrow> instant option \<Rightarrow> instant option" where
  "latest_contact [] latest = latest"
| "latest_contact (v # vs) latest =
     latest_contact vs (case (v, latest) of
       (Some t, None) \<Rightarrow> Some t | (Some t, Some l) \<Rightarrow> if l < t then Some t else latest | (None, _) \<Rightarrow> latest)"


section \<open>The fleet and the screens list\<close>

lemma long_gap [simp]:
  "heartbeat_grace < time_sub a b \<longleftrightarrow> heartbeat_grace < a - b" "offline_threshold < time_sub a b \<longleftrightarrow> heartbeat_grace < a - b"
  "time_sub a b \<le> offline_threshold \<longleftrightarrow> a - b \<le> heartbeat_grace"
  by (auto simp: time_sub_def heartbeat_grace_def offline_threshold_def minute_def second_def)

lemma classify_offline:
  "fst (classify_screen lw now s) = FleetOffline \<longleftrightarrow> (\<exists>h. fs_heartbeat s = Some h \<and> heartbeat_grace < now - h)"
  by (cases "fs_heartbeat s") (simp_all add: classify_screen_def Let_def)

lemma classify_unmeasured: "fs_heartbeat s = None \<Longrightarrow> classify_screen lw now s = (FleetUnmeasured, ''never_reported'')"
  by (simp add: classify_screen_def)

lemma status_offline: "compute_status now False True True (Some h) = StatusOffline \<longleftrightarrow> heartbeat_grace < now - h"
proof -
  have "heartbeat_grace < now - h \<Longrightarrow> \<not> time_sub now h \<le> recent_threshold"
    by (auto simp: time_sub_def heartbeat_grace_def recent_threshold_def minute_def second_def)
  then show ?thesis by (auto simp: compute_status_def Let_def)
qed

text \<open>
  C37. The parts of the server agree on what an outage is. For a screen in service whose last contact is its heartbeat, the
  fleet page calls it offline exactly when the incident sweep opens an outage for it, exactly when the screens list
  computes the status offline, and exactly when the sweep would not end an outage of it.
\<close>

theorem outage_definitions_agree:
  assumes "fs_heartbeat signals = Some h" and "sr_heartbeat s = Some h"
    and "sr_enabled s" "sr_credential s" "\<not> sr_deleted s" "\<not> sr_archived s"
  shows "(fst (classify_screen lw now signals) = FleetOffline) = unreachable now s
    \<and> (compute_status now False True True (latest_contact [None, None, Some h] None) = StatusOffline) = unreachable now s
    \<and> reporting now s = (\<not> unreachable now s)"
  unfolding classify_offline latest_contact.simps prod.case option.case status_offline
  using assms by (auto simp: unreachable_def reporting_def)

definition quiet_signals :: "instant \<Rightarrow> fleet_signals" where
  "quiet_signals h = \<lparr>fs_heartbeat = Some h, fs_status = True, fs_playback = ''playing'', fs_error = [], fs_safe_mode = False,
     fs_disabled = False, fs_foreground = ''foreground'', fs_used = None, fs_limit = None, fs_manifest = Some 1, fs_sync_error = []\<rparr>"

definition quiet_screen :: "instant \<Rightarrow> screen_row" where
  "quiet_screen h = \<lparr>sr_id = UUID ''s'', sr_heartbeat = Some h, sr_enabled = True, sr_deleted = False, sr_archived = False,
     sr_credential = True, sr_location = None, sr_model = [], sr_version = []\<rparr>"

theorem outage_definitions_agree_witness:
  "fst (classify_screen id (16 * minute) (quiet_signals 0)) = FleetOffline \<and> unreachable (16 * minute) (quiet_screen 0)
     \<and> fst (classify_screen id (15 * minute) (quiet_signals 0)) \<noteq> FleetOffline \<and> reporting (15 * minute) (quiet_screen 0)"
proof -
  have "unreachable (16 * minute) (quiet_screen 0)" "reporting (15 * minute) (quiet_screen 0)"
    by (simp_all add: unreachable_def reporting_def quiet_screen_def heartbeat_grace_def minute_def second_def)
  then show ?thesis
    using outage_definitions_agree [of "quiet_signals 0" 0 "quiet_screen 0" id "16 * minute"]
      outage_definitions_agree [of "quiet_signals 0" 0 "quiet_screen 0" id "15 * minute"]
    by (simp add: quiet_signals_def quiet_screen_def)
qed

text \<open>
  The screens list also counts contact of the socket, so it can call a screen recent that the fleet page calls offline
  and for which an outage is open; and a screen never heard from is offline there, unmeasured here.
\<close>

lemma pages_disagree:
  "fst (classify_screen id (16 * minute) (quiet_signals 0)) = FleetOffline
     \<and> compute_status (16 * minute) False True True (latest_contact [Some (15 * minute), None, Some 0] None) = StatusRecent"
  "fst (classify_screen id now ((quiet_signals 0)\<lparr>fs_heartbeat := None\<rparr>)) = FleetUnmeasured
     \<and> compute_status now False True True (latest_contact [None, None, None] None) = StatusOffline"
proof -
  have "fst (classify_screen id (16 * minute) (quiet_signals 0)) = FleetOffline"
    unfolding classify_offline by (simp add: quiet_signals_def heartbeat_grace_def minute_def second_def)
  moreover have "compute_status (16 * minute) False True True (latest_contact [Some (15 * minute), None, Some 0] None) = StatusRecent"
    by (simp add: compute_status_def time_sub_def recent_threshold_def minute_def second_def)
  ultimately show "fst (classify_screen id (16 * minute) (quiet_signals 0)) = FleetOffline
     \<and> compute_status (16 * minute) False True True (latest_contact [Some (15 * minute), None, Some 0] None) = StatusRecent" by simp
  show "fst (classify_screen id now ((quiet_signals 0)\<lparr>fs_heartbeat := None\<rparr>)) = FleetUnmeasured
     \<and> compute_status now False True True (latest_contact [None, None, None] None) = StatusOffline"
    by (simp add: classify_unmeasured compute_status_def)
qed

text \<open>How many screens of a list are in a state.\<close>

definition in_state :: "(string \<Rightarrow> string) \<Rightarrow> instant \<Rightarrow> fleet_state \<Rightarrow> fleet_signals list \<Rightarrow> nat" where
  "in_state lw now x rows = length (filter (\<lambda>s. fst (classify_screen lw now s) = x) rows)"

lemma count_screen_fields:
  "count_screen lw now s h = \<lparr>fh_measured = fh_measured h + 1,
     fh_online = fh_online h + (if fs_heartbeat s \<noteq> None \<and> fst (classify_screen lw now s) \<noteq> FleetOffline then 1 else 0),
     fh_healthy = fh_healthy h + in_state lw now FleetHealthy [s], fh_impaired = fh_impaired h + in_state lw now FleetImpaired [s],
     fh_offline = fh_offline h + in_state lw now FleetOffline [s], fh_unmeasured = fh_unmeasured h + in_state lw now FleetUnmeasured [s]\<rparr>"
  by (cases "fst (classify_screen lw now s)") (simp_all add: count_screen_def in_state_def Let_def)

lemma in_state_Cons: "in_state lw now x (s # rows) = in_state lw now x [s] + in_state lw now x rows"
  by (simp add: in_state_def)

lemma fold_count_screen:
  "fold (count_screen lw now) rows h = \<lparr>fh_measured = fh_measured h + length rows,
     fh_online = fh_online h + length (filter (\<lambda>s. fs_heartbeat s \<noteq> None \<and> fst (classify_screen lw now s) \<noteq> FleetOffline) rows),
     fh_healthy = fh_healthy h + in_state lw now FleetHealthy rows, fh_impaired = fh_impaired h + in_state lw now FleetImpaired rows,
     fh_offline = fh_offline h + in_state lw now FleetOffline rows, fh_unmeasured = fh_unmeasured h + in_state lw now FleetUnmeasured rows\<rparr>"
proof (induction rows arbitrary: h)
  case (Cons s rows)
  show ?case
    by (simp only: fold.simps comp_apply Cons.IH in_state_Cons [of _ _ _ s rows] count_screen_fields [of lw now s]) simp
qed (simp add: in_state_def)

lemma states_partition:
  "in_state lw now FleetHealthy rows + in_state lw now FleetImpaired rows + in_state lw now FleetOffline rows
     + in_state lw now FleetUnmeasured rows = length rows"
proof (induction rows)
  case (Cons s rows)
  then show ?case by (cases "fst (classify_screen lw now s)") (simp_all add: in_state_def)
qed (simp add: in_state_def)

lemma classify_healthy:
  "fst (classify_screen lw now s) = FleetHealthy \<longleftrightarrow>
     (case fs_heartbeat s of None \<Rightarrow> False | Some h \<Rightarrow> now - h \<le> heartbeat_grace) \<and> fs_status s
     \<and> normalize_playback lw (fs_playback s) = ''playing'' \<and> fs_manifest s \<noteq> None \<and> \<not> fs_disabled s \<and> \<not> fs_safe_mode s
     \<and> fs_error s = [] \<and> fs_sync_error s = [] \<and> (fs_foreground s = [] \<or> fs_foreground s = ''foreground'')
     \<and> \<not> storage_pressure (fs_used s) (fs_limit s)"
  by (cases "fs_heartbeat s") (auto simp: classify_screen_def playback_expected_def Let_def)

lemma reported_split:
  "length (filter (\<lambda>s. fs_heartbeat s \<noteq> None \<and> fst (classify_screen lw now s) \<noteq> FleetOffline) rows) + in_state lw now FleetOffline rows
     = length (filter (\<lambda>s. fs_heartbeat s \<noteq> None) rows)"
proof (induction rows)
  case (Cons s rows)
  then show ?case
    by (cases "fst (classify_screen lw now s) = FleetOffline"; cases "fs_heartbeat s")
      (auto simp: in_state_def classify_unmeasured)
qed (simp add: in_state_def)

text \<open>
  The fleet's counters are exact: every measured screen is counted in one of the four states, the offline and the
  healthy screens are those whose signals say so, and online together with offline are the screens that ever reported.
\<close>

theorem fleet_counts_exact:
  "(let h = fleet_health_of lw now rows in
      fh_measured h = length rows
    \<and> fh_measured h = fh_healthy h + fh_impaired h + fh_offline h + fh_unmeasured h
    \<and> fh_online h + fh_offline h = length (filter (\<lambda>s. fs_heartbeat s \<noteq> None) rows)
    \<and> fh_offline h = length (filter (\<lambda>s. \<exists>t. fs_heartbeat s = Some t \<and> heartbeat_grace < now - t) rows)
    \<and> fh_healthy h = length (filter (\<lambda>s. (case fs_heartbeat s of None \<Rightarrow> False | Some t \<Rightarrow> now - t \<le> heartbeat_grace) \<and> fs_status s
         \<and> normalize_playback lw (fs_playback s) = ''playing'' \<and> fs_manifest s \<noteq> None \<and> \<not> fs_disabled s \<and> \<not> fs_safe_mode s
         \<and> fs_error s = [] \<and> fs_sync_error s = [] \<and> (fs_foreground s = [] \<or> fs_foreground s = ''foreground'')
         \<and> \<not> storage_pressure (fs_used s) (fs_limit s)) rows))"
proof -
  have f: "in_state lw now FleetOffline rows = length (filter (\<lambda>s. \<exists>t. fs_heartbeat s = Some t \<and> heartbeat_grace < now - t) rows)"
    unfolding in_state_def classify_offline ..
  show ?thesis
    unfolding fleet_health_of_def Let_def fold_count_screen fleet_health.simps add_0
    unfolding states_partition reported_split f [symmetric]
    by (simp add: in_state_def classify_healthy)
qed

end
