(* ===== verification/ActivityTables.thy ===== *)
theory ActivityTables
  imports ActivityConnectivity
begin

text \<open>
  What holds of the activity tables after any history of batches and heartbeats: the unique indexes, the shape of open and
  closed sessions, one open session per slot and one open state interval per screen.
\<close>

section \<open>Unique indexes\<close>

definition unique_on :: "('r \<Rightarrow> bool) \<Rightarrow> ('r \<Rightarrow> 'k) \<Rightarrow> 'r list \<Rightarrow> bool" where
  "unique_on P key rows \<longleftrightarrow> distinct (map key (filter P rows))"

lemma unique_on_Nil [simp]: "unique_on P key []"
  by (simp add: unique_on_def)

lemma unique_on_Cons: "unique_on P key (r # rows) \<longleftrightarrow> (P r \<longrightarrow> \<not> list_ex (\<lambda>q. P q \<and> key q = key r) rows) \<and> unique_on P key rows"
  by (auto simp: unique_on_def list_ex_iff image_iff)

lemma unique_on_snoc: "unique_on P key (rows @ [r]) \<longleftrightarrow> (P r \<longrightarrow> \<not> list_ex (\<lambda>q. P q \<and> key q = key r) rows) \<and> unique_on P key rows"
  by (auto simp: unique_on_def list_ex_iff image_iff)

lemma unique_on_map:
  assumes "\<And>r. r \<in> set rows \<Longrightarrow> P (f r) \<Longrightarrow> P r \<and> key (f r) = key r"
  shows "unique_on P key rows \<Longrightarrow> unique_on P key (map f rows)"
  using assms
proof (induction rows)
  case (Cons r rows)
  have "P (f r) \<Longrightarrow> \<not> list_ex (\<lambda>q. P q \<and> key q = key (f r)) (map f rows)"
    using Cons.prems by (fastforce simp: unique_on_Cons list_ex_iff)
  then show ?case using Cons by (simp add: unique_on_Cons)
qed simp

lemma unique_on_update:
  assumes "\<And>r. r \<in> set rows \<Longrightarrow> Q r \<Longrightarrow> P (f r) \<Longrightarrow> P r \<and> key (f r) = key r"
  shows "unique_on P key rows \<Longrightarrow> unique_on P key (update_where Q f rows)"
  unfolding update_where_def by (rule unique_on_map) (use assms in auto)

lemma unique_on_filter: "unique_on P key rows \<Longrightarrow> unique_on P key (filter Q rows)"
  by (induction rows) (auto simp: unique_on_Cons list_ex_iff)

lemma unique_on_count: "unique_on P key rows \<Longrightarrow> length (filter (\<lambda>r. P r \<and> key r = k) rows) \<le> 1"
proof (induction rows)
  case (Cons r rows)
  then show ?case by (auto simp: unique_on_Cons list_ex_iff filter_False)
qed simp

section \<open>Sessions\<close>

text \<open>An open session is playing and has no result; a closed one has a result and a length that is not negative.\<close>

definition session_ok :: "playback_session \<Rightarrow> bool" where
  "session_ok s \<longleftrightarrow>
     (case ps_ended s of
        None \<Rightarrow> ps_result s = ''playing'' \<and> ps_duration s = None \<and> ps_terminal s = None
      | Some _ \<Rightarrow> ps_result s \<noteq> ''playing'' \<and> (case ps_duration s of None \<Rightarrow> False | Some d \<Rightarrow> 0 \<le> d))"

definition session_name :: "playback_session \<Rightarrow> uuid \<times> string" where
  "session_name s = (ps_screen s, ps_key s)"

text \<open>A slot is a placement inside a running presentation.\<close>

definition in_slot :: "playback_session \<Rightarrow> bool" where
  "in_slot s \<longleftrightarrow> ps_ended s = None \<and> ps_parent s \<noteq> None"

definition slot :: "playback_session \<Rightarrow> uuid \<times> uuid option \<times> string" where
  "slot s = (ps_screen s, ps_parent s, ae_placement (ps_source s))"

definition sessions_ok :: "playback_session list \<Rightarrow> bool" where
  "sessions_ok rows \<longleftrightarrow> list_all session_ok rows \<and> unique_on (\<lambda>_. True) session_name rows \<and> unique_on in_slot slot rows"

text \<open>A change that keeps the name, and keeps a session that is still in a slot in it.\<close>

definition keeps_place :: "(playback_session \<Rightarrow> playback_session) \<Rightarrow> bool" where
  "keeps_place f \<longleftrightarrow> (\<forall>s. session_name (f s) = session_name s \<and> (in_slot (f s) \<longrightarrow> in_slot s \<and> slot (f s) = slot s))"

lemma sessions_ok_update:
  assumes "sessions_ok rows" "keeps_place f" "\<And>s. s \<in> set rows \<Longrightarrow> P s \<Longrightarrow> session_ok s \<Longrightarrow> session_ok (f s)"
  shows "sessions_ok (update_where P f rows)"
proof -
  have "list_all session_ok (update_where P f rows)"
    using assms(1,3) by (auto simp: sessions_ok_def list_all_iff update_where_def)
  moreover have "unique_on (\<lambda>_. True) session_name (update_where P f rows)" "unique_on in_slot slot (update_where P f rows)"
    using assms(1,2) by (auto simp: sessions_ok_def keeps_place_def intro!: unique_on_update)
  ultimately show ?thesis by (simp add: sessions_ok_def)
qed

lemma sessions_ok_filter: "sessions_ok rows \<Longrightarrow> sessions_ok (filter P rows)"
  by (auto simp: sessions_ok_def list_all_iff intro: unique_on_filter)

lemma elapsed_nonneg [simp]: "0 \<le> elapsed_ms a b"
  by (simp add: elapsed_ms_def pos_imp_zdiv_nonneg_iff)

lemma close_session_ok [simp]: "r \<noteq> ''playing'' \<Longrightarrow> session_ok (close_session t r w s)"
  by (simp add: session_ok_def close_session_def)

lemma closed_with_reason [simp]: "session_ok (s\<lparr>ps_terminal := r\<rparr>) \<longleftrightarrow> session_ok s" if "ps_ended s \<noteq> None" for s
  using that by (auto simp: session_ok_def)

lemma close_session_ended [simp]: "ps_ended (close_session t r w s) = Some (micros t)"
  by (simp add: close_session_def)

lemma keeps_close: "keeps_place (close_session t r w)" "keeps_place (\<lambda>s. (close_session t r w s)\<lparr>ps_terminal := m\<rparr>)"
  "keeps_place (\<lambda>s. (close_session (g s) r w s)\<lparr>ps_terminal := m\<rparr>)"
  by (simp_all add: keeps_place_def close_session_def session_name_def in_slot_def)

lemma keeps_finish: "keeps_place (finish_session e)" "keeps_place (synthesize_session e)" "keeps_place (\<lambda>s. s\<lparr>ps_parent := None\<rparr>)"
  by (simp_all add: keeps_place_def finish_session_def synthesize_session_def session_name_def in_slot_def)

lemma final_result_not_playing [simp]: "final_result r \<noteq> ''playing''"
  by (simp add: final_result_def)

lemma finish_session_ok:
  assumes "case ae_duration e of None \<Rightarrow> True | Some d \<Rightarrow> 0 \<le> d"
  shows "session_ok (finish_session e s)" "session_ok (synthesize_session e s)"
  using assms by (simp_all add: session_ok_def finish_session_def synthesize_session_def split: option.splits)

lemma restarted_ok: "sessions_ok rows \<Longrightarrow> sessions_ok (close_restarted screen e rows)"
  unfolding close_restarted_def by (simp add: sessions_ok_update keeps_close)

lemma gap_ok: "sessions_ok rows \<Longrightarrow> sessions_ok (close_gap screen e rows)"
  unfolding close_gap_def by (simp add: sessions_ok_update keeps_close)

lemma expired_ok: "sessions_ok rows \<Longrightarrow> sessions_ok (close_expired screen now rows)"
  unfolding close_expired_def by (intro sessions_ok_update keeps_close) simp_all

lemma incompatible_ok: "sessions_ok rows \<Longrightarrow> sessions_ok (close_incompatible screen e rows)"
  unfolding close_incompatible_def by (simp add: sessions_ok_update keeps_close)

lemma heartbeat_closed_ok: "sessions_ok rows \<Longrightarrow> sessions_ok (close_at_heartbeat screen p rows)"
  unfolding close_at_heartbeat_def by (simp add: sessions_ok_update keeps_close)

lemma session_ok_without_parent: "session_ok (s\<lparr>ps_parent := p\<rparr>) = session_ok s"
  by (simp add: session_ok_def split: option.split)

lemma discard_ok: "sessions_ok rows \<Longrightarrow> sessions_ok (discard_micro screen key rows)"
  unfolding discard_micro_def Let_def
  by (intro sessions_ok_update sessions_ok_filter keeps_finish) (simp_all add: session_ok_without_parent)

lemma insert_session_ok:
  assumes "sessions_ok rows" "session_ok new" "ps_ended new = None"
  shows "sessions_ok (insert_session new rows)"
proof -
  let ?closed = "update_where (replaced_by new) (close_session (ps_started new) ''partial''
    (if ps_parent new = None then ''replacement_presentation'' else ''replacement_in_slot'')) rows"
  have ok: "sessions_ok ?closed" by (intro sessions_ok_update assms(1) keeps_close) simp
  show ?thesis
  proof (cases "list_ex (\<lambda>s. ps_screen s = ps_screen new \<and> ps_key s = ps_key new) ?closed")
    case False
    have "\<not> list_ex (\<lambda>s. in_slot s \<and> slot s = slot new) ?closed" if "in_slot new"
    proof
      assume "list_ex (\<lambda>s. in_slot s \<and> slot s = slot new) ?closed"
      then obtain s where s: "s \<in> set ?closed" "in_slot s" "slot s = slot new" by (auto simp: list_ex_iff)
      then have "ps_key s \<noteq> ps_key new" using False by (auto simp: list_ex_iff slot_def)
      with s show False using that
        by (auto simp: update_where_def replaced_by_def in_slot_def slot_def split: if_splits)
    qed
    moreover have "\<not> list_ex (\<lambda>s. True \<and> session_name s = session_name new) ?closed"
      using False by (simp add: session_name_def)
    ultimately have "sessions_ok (?closed @ [new])"
      using ok assms(2) unfolding sessions_ok_def unique_on_snoc by simp
    then show ?thesis using False by (simp add: insert_session_def Let_def)
  qed (use ok in \<open>simp add: insert_session_def\<close>)
qed

lemma start_session_ok:
  assumes "sessions_ok rows" "start_session fresh screen ms e rows = Inr rows'"
  shows "sessions_ok rows'"
  using assms(2) unfolding start_session_def Let_def andthen_Inr check_Inr sum.inject
  by (elim exE conjE) (auto intro!: insert_session_ok incompatible_ok assms(1) simp: session_ok_def)

text \<open>An event that names no session ends none.\<close>

definition sound_event :: "activity_event \<Rightarrow> bool" where
  "sound_event e \<longleftrightarrow> ae_session e = [] \<or> (case ae_duration e of None \<Rightarrow> True | Some d \<Rightarrow> 0 \<le> d)"

lemma end_session_ok:
  assumes "sessions_ok rows" "sound_event e" "end_session fresh screen ms e rows = Inr rows'"
  shows "sessions_ok rows'"
proof (cases "ae_session e = []")
  case False
  then have d: "session_ok (finish_session e s) \<and> session_ok (synthesize_session e s)" for s
    using assms(2) by (simp add: sound_event_def finish_session_ok)
  have u: "sessions_ok r \<Longrightarrow> sessions_ok (update_where P (finish_session e) r) \<and> sessions_ok (update_where P (synthesize_session e) r)" for r P
    using d by (simp add: sessions_ok_update keeps_finish)
  obtain r where r: "sessions_ok r"
      "rows' = (if is_micro_play e then discard_micro screen (ae_session e) r else r)"
    using assms(3) False u assms(1)
    by (auto simp: end_session_def Let_def split: if_splits dest: start_session_ok [OF assms(1)])
  then show ?thesis using discard_ok by simp
qed (use assms in \<open>simp add: end_session_def\<close>)

lemma derive_sessions_ok:
  assumes "sessions_ok rows" "sound_event e" "derive_sessions fresh screen ms e rows = Inr rows'"
  shows "sessions_ok rows'"
  using assms(3) start_session_ok [OF gap_ok [OF assms(1)]] end_session_ok [OF gap_ok [OF assms(1)] assms(2)] gap_ok [OF assms(1)]
  by (auto simp: derive_sessions_def Let_def split: if_splits)

section \<open>Intervals and events\<close>

definition intervals_ok :: "state_interval list \<Rightarrow> bool" where
  "intervals_ok rows \<longleftrightarrow> unique_on (\<lambda>i. si_ended i = None) si_screen rows
     \<and> unique_on (\<lambda>_. True) (\<lambda>i. (si_screen i, si_started i, si_state i)) rows"

lemma insert_interval_ok: "intervals_ok rows \<Longrightarrow> intervals_ok (insert_interval i rows)"
  by (auto simp: intervals_ok_def insert_interval_def interval_conflict_def unique_on_snoc list_ex_iff)

lemma end_intervals_ok:
  assumes "intervals_ok rows" "\<And>i. si_ended (f i) = Some t" "\<And>i. si_screen (f i) = si_screen i"
    "\<And>i. si_started (f i) = si_started i" "\<And>i. si_state (f i) = si_state i"
  shows "intervals_ok (update_where P f rows)"
  using assms by (auto simp: intervals_ok_def intro!: unique_on_update)

lemma update_state_interval_ok: "intervals_ok rows \<Longrightarrow> intervals_ok (update_state_interval fresh screen e state rows)"
  unfolding update_state_interval_def Let_def by (simp add: insert_interval_ok end_intervals_ok)

lemma derive_intervals_ok: "intervals_ok rows \<Longrightarrow> intervals_ok (derive_intervals fresh screen e rows)"
  by (simp add: derive_intervals_def update_state_interval_ok split: option.split)

lemma anchor_interval_ok: "intervals_ok rows \<Longrightarrow> intervals_ok (anchor_interval fresh screen after now rows)"
  unfolding anchor_interval_def Let_def
  by (simp add: insert_interval_ok end_intervals_ok split: list.split)

definition events_ok :: "stored_event list \<Rightarrow> bool" where
  "events_ok rows \<longleftrightarrow> unique_on (\<lambda>_. True) (\<lambda>r. ae_id (se_event r)) rows
     \<and> unique_on (\<lambda>r. se_sequence r \<noteq> None) (\<lambda>r. (se_screen r, se_sequence r)) rows"

definition tables_ok :: "activity_db \<Rightarrow> bool" where
  "tables_ok a \<longleftrightarrow> events_ok (ad_events a) \<and> sessions_ok (ad_sessions a) \<and> intervals_ok (ad_intervals a)"

lemma append_event_tables:
  assumes "tables_ok a" "ae_id e \<notin> set (event_ids a)" "case sequence of None \<Rightarrow> True | Some n \<Rightarrow> \<not> sequence_taken a screen n"
  shows "tables_ok (append_event screen e sequence origin a)"
  using assms by (cases sequence)
    (auto simp: tables_ok_def append_event_def events_ok_def unique_on_snoc restarted_ok event_ids_def sequence_taken_def list_ex_iff image_iff)

lemma insert_row_tables:
  assumes "tables_ok a" "insert_event_row screen e sequence a = Inr (a', inserted)"
  shows "tables_ok a'"
  using assms by (auto simp: insert_event_row_def intro!: append_event_tables split: if_splits option.splits)

lemma insert_player_event_tables:
  assumes "tables_ok a" "insert_player_event screen e a = Inr (a', inserted)"
  shows "tables_ok a'"
proof -
  have s: "stored_or r = Inr x \<longleftrightarrow> r = Inr x" for r :: "db_error + 'x" and x
    by (cases r) (simp_all add: stored_or_def)
  show ?thesis
    using assms insert_row_tables [OF assms(1)]
    by (auto simp: insert_player_event_def s split: if_splits)
qed

lemma derive_activity_tables:
  assumes "tables_ok (sv_activity st)" "sound_event e" "derive_activity lw screens ids screen e st = Inr st'"
  shows "tables_ok (sv_activity st')"
  using assms derive_sessions_ok
  by (auto simp: derive_activity_def Let_def tables_ok_def derive_intervals_ok)

lemma normal_sound: "normalize_activity lw now e0 = Inr e \<Longrightarrow> sound_event e"
  using normalize_typed [of lw now e0 e] by (auto simp: event_typed_def sound_event_def negative_def split: option.splits)

lemma ingest_events_tables:
  "ingest_events lw screens ids screen now n es (st, r) = Inr (st', r') \<Longrightarrow> tables_ok (sv_activity st) \<Longrightarrow> tables_ok (sv_activity st')"
proof (induction es arbitrary: n st r)
  case (Cons e0 es)
  obtain e where e: "normalize_activity lw now e0 = Inr e"
    using Cons.prems by (auto split: sum.splits)
  obtain a inserted where a: "insert_player_event screen e (sv_activity st) = Inr (a, inserted)"
    using Cons.prems e by auto
  have ok: "tables_ok a" by (rule insert_player_event_tables [OF Cons.prems(2) a])
  show ?case
  proof (cases inserted)
    case True
    then obtain st1 where st1: "derive_activity lw screens (ids n) screen e (st\<lparr>sv_activity := a\<rparr>) = Inr st1"
        "ingest_events lw screens ids screen now (n + 1) es (st1, count_event e True r) = Inr (st', r')"
      using Cons.prems(1) e a by (auto simp: stored_or_def split: sum.splits)
    show ?thesis
      by (rule Cons.IH [OF st1(2)], rule derive_activity_tables [OF _ normal_sound [OF e] st1(1)]) (simp add: ok)
  qed (use Cons e a in auto)
qed simp

lemma ingest_activity_tables:
  assumes "tables_ok (sv_activity st)" "ingest_activity lw screens ids screen now es st = Inr (st', r)"
  shows "tables_ok (sv_activity st')"
proof -
  obtain st1 where "ingest_events lw screens ids screen now 0 es (st, empty_result) = Inr (st1, r)" "st' = expire_sessions screen now st1"
    using assms(2) by (auto simp: ingest_activity_def split: if_splits)
  then show ?thesis using ingest_events_tables assms(1) by (auto simp: expire_sessions_def tables_ok_def expired_ok)
qed

section \<open>Heartbeats\<close>

definition unnamed :: "activity_event \<Rightarrow> bool" where "unnamed e \<longleftrightarrow> ae_session e = []"

lemma server_event_unnamed [simp]: "ae_session (server_event i t c s now r p) = []"
  by (simp add: server_event_def)

lemma steps_unnamed [simp]:
  "list_all unnamed (manifest_transition i b a now)" "list_all unnamed (command_transition i b a now)"
  "list_all unnamed (takeover_transition i b a now)" "list_all unnamed (update_transition i b a now)"
  "list_all unnamed (request_transition i t x y now)"
  by (simp_all add: manifest_transition_def command_transition_def takeover_transition_def update_transition_def
      request_transition_def unnamed_def split: option.split prod.split)

lemma changes_unnamed [simp]:
  "list_all unnamed (schedule_transitions i j b a now)" "list_all unnamed (failure_transitions i j b a now)"
  by (simp_all add: schedule_transitions_def failure_transitions_def unnamed_def split: option.split)

lemma safety_unnamed [simp]: "list_all unnamed (safety_transitions i j k b a now)"
proof -
  have w: "list_all unnamed (case w of None \<Rightarrow> [] | Some t \<Rightarrow> if v = Some t then []
      else [(server_event k ty c s t r p)\<lparr>ae_failure := f\<rparr>])" for w v :: "instant option" and ty c s r p f
    by (cases w) (simp_all add: unnamed_def)
  show ?thesis unfolding safety_transitions_def list_all_append by (intro conjI w) (simp_all add: unnamed_def)
qed

lemma transitions_unnamed:
  "list_all unnamed (heartbeat_transitions ids b a now)"
  "list_all unnamed (reconcile_playback ids screen a now idb)"
  by (simp_all only: heartbeat_transitions_def list_all_append steps_unnamed changes_unnamed safety_unnamed)
    (simp_all add: reconcile_playback_def unnamed_def)

lemma connection_unnamed: "list_all unnamed (fst (connection_events rfc ids screen previous now db))"
  by (cases previous) (simp_all add: connection_events_def gap_events_def unnamed_def Let_def)

lemma timed_unnamed [simp]: "unnamed (timed clock e) = unnamed e"
  by (simp add: timed_def unnamed_def)

lemma record_server_transition_tables:
  assumes "tables_ok (sv_activity st)" "unnamed e0" "record_server_transition lw screens clock ids screen e0 st = Inr st'"
  shows "tables_ok (sv_activity st')"
proof -
  let ?a = "sv_activity st" and ?e = "timed clock e0"
  let ?a' = "if ae_id ?e \<in> set (event_ids ?a) then ?a else append_event screen (server_row lw ?e) None ''server'' ?a"
  have d: "derive_activity lw screens ids screen ?e (st\<lparr>sv_activity := ?a'\<rparr>) = Inr st'"
    using assms(3) by (auto simp: record_server_transition_def Let_def)
  have "tables_ok ?a'" using assms(1) by (auto intro!: append_event_tables simp: server_row_def)
  moreover have "unnamed ?e" using assms(2) by simp
  ultimately show ?thesis
    by (intro derive_activity_tables [OF _ _ d]) (simp_all add: sound_event_def unnamed_def)
qed

lemma record_transitions_tables:
  "record_transitions lw screens clock ids screen n es st = Inr st' \<Longrightarrow> list_all unnamed es \<Longrightarrow> tables_ok (sv_activity st) \<Longrightarrow>
     tables_ok (sv_activity st')"
proof (induction es arbitrary: n st)
  case (Cons e es)
  then show ?case using record_server_transition_tables by (auto 4 3)
qed simp

lemma record_heartbeat_tables:
  assumes "tables_ok (sv_activity st)"
  shows "tables_ok (sv_activity (record_heartbeat lw rfc screens clock ids fresh screen previous before after now st))"
proof (cases "heartbeat_steps lw rfc screens clock ids fresh screen previous before after now st")
  case (Inr st')
  obtain events closing where c: "connection_events rfc ids screen previous now (sv_activity st) = (events, closing)" by fastforce
  have u: "list_all unnamed events" using connection_unnamed [of rfc ids screen previous now "sv_activity st"] c by simp
  have "tables_ok (sv_activity (close_gap_sessions screen closing st))"
    using assms by (cases closing) (simp_all add: close_gap_sessions_def tables_ok_def heartbeat_closed_ok)
  note closed = this
  obtain st1 st2 st3 where r:
      "record_transitions lw screens clock fresh screen 0 events (close_gap_sessions screen closing st) = Inr st1"
      "record_transitions lw screens clock fresh screen 2 (heartbeat_transitions ids before after now) st1 = Inr st2"
      "record_transitions lw screens clock fresh screen 20 (reconcile_playback ids screen after now (sv_incidents st2)) st2 = Inr st3"
      "st' = anchor_state (ids 16) screen after now st3"
    using Inr c by (auto simp: heartbeat_steps_def)
  have "tables_ok (sv_activity st1)" by (rule record_transitions_tables [OF r(1) u closed])
  then have "tables_ok (sv_activity st2)" by (rule record_transitions_tables [OF r(2) transitions_unnamed(1)])
  then have "tables_ok (sv_activity st3)" by (rule record_transitions_tables [OF r(3) transitions_unnamed(2)])
  then have "tables_ok (sv_activity st')" by (simp add: r(4) anchor_state_def tables_ok_def anchor_interval_ok)
  then show ?thesis using Inr by (simp add: record_heartbeat_def)
qed (use assms in \<open>simp add: record_heartbeat_def\<close>)

section \<open>Histories\<close>

text \<open>
  What the server does over its life: accepted batches (a refused one changes nothing), heartbeats, changes of group
  memberships, and the sweeps and actions on incidents, which touch no activity table.
\<close>

inductive server_history :: "server_state \<Rightarrow> bool" where
  started: "server_history empty_server"
| batch: "server_history st \<Longrightarrow> ingest_activity lw screens ids screen now es st = Inr (st', r) \<Longrightarrow> server_history st'"
| beat: "server_history st \<Longrightarrow>
    server_history (record_heartbeat lw rfc screens clock eids ids screen previous before after now st)"
| regrouped: "server_history st \<Longrightarrow> server_history (st\<lparr>sv_activity := (sv_activity st)\<lparr>ad_memberships := ms\<rparr>\<rparr>)"
| incident_change: "server_history st \<Longrightarrow> server_history (st\<lparr>sv_incidents := db\<rparr>)"

lemma history_tables: "server_history st \<Longrightarrow> tables_ok (sv_activity st)"
proof (induction rule: server_history.induct)
  case started
  show ?case by (simp add: empty_server_def empty_activity_def tables_ok_def events_ok_def sessions_ok_def intervals_ok_def)
next
  case (batch st lw screens ids screen now es st' r)
  then show ?case by (blast intro: ingest_activity_tables)
next
  case (beat st lw rfc screens clock eids ids screen previous before after now)
  then show ?case by (blast intro: record_heartbeat_tables)
qed (simp_all add: tables_ok_def)

text \<open>
  C15. After any history of batches and heartbeats the activity tables are sound: every event is stored once, a session is
  playing without a length or has a result and a length that is not negative (so no constraint of the table fires), no
  screen has two sessions of one name, no slot of a presentation has two open sessions, and a screen is in at most one
  state.
\<close>

theorem activity_tables_invariant:
  assumes "server_history st"
  shows "distinct (event_ids (sv_activity st)) \<and> list_all session_ok (ad_sessions (sv_activity st))
    \<and> distinct (map session_name (ad_sessions (sv_activity st)))
    \<and> length (filter (\<lambda>s. in_slot s \<and> slot s = (screen, Some p, z)) (ad_sessions (sv_activity st))) \<le> 1
    \<and> length (filter (\<lambda>i. si_ended i = None \<and> si_screen i = screen) (ad_intervals (sv_activity st))) \<le> 1"
proof -
  have t: "tables_ok (sv_activity st)" by (rule history_tables [OF assms])
  then have "unique_on in_slot slot (ad_sessions (sv_activity st))" "unique_on (\<lambda>i. si_ended i = None) si_screen (ad_intervals (sv_activity st))"
    by (simp_all add: tables_ok_def sessions_ok_def intervals_ok_def)
  note c = this [THEN unique_on_count]
  show ?thesis
    using t c by (simp add: tables_ok_def events_ok_def sessions_ok_def unique_on_def event_ids_def)
qed

theorem activity_tables_invariant_witness:
  "\<exists>st r. ingest_activity id [] (\<lambda>_. some_ids) (UUID ''s'') 0 [ended_event] empty_server = Inr (st, r)
     \<and> ae_id ended_event \<in> set (event_ids (sv_activity st)) \<and> distinct (event_ids (sv_activity st))
     \<and> list_all session_ok (ad_sessions (sv_activity st))"
proof -
  obtain st r where s: "ingest_activity id [] (\<lambda>_. some_ids) (UUID ''s'') 0 [ended_event] empty_server = Inr (st, r)"
    using ended_event_accepted by blast
  have h: "server_history st" by (rule server_history.batch [OF server_history.started s])
  obtain st1 where i: "ingest_events id [] (\<lambda>_. some_ids) (UUID ''s'') 0 0 [ended_event] (empty_server, empty_result) = Inr (st1, r)"
      "st = expire_sessions (UUID ''s'') 0 st1"
    using s by (simp add: ingest_activity_def del: ingest_events.simps) blast
  have "ae_id ended_event \<in> set (event_ids (sv_activity st))"
    using ingest_events_ids [OF i(1)] by (simp add: i(2) expire_sessions_def event_ids_def)
  then show ?thesis using activity_tables_invariant [OF h, of "UUID ''s''" "UUID ''s''" "[]"] s by blast
qed

section \<open>Bounds\<close>

lemma micros_le: "micros t \<le> t"
  using pos_mod_sign [of 1000 t] by (simp add: micros_def minus_mod_eq_div_mult [symmetric])

lemma micros_elapsed: "elapsed_ms t (micros (t + six_hours)) = 21600000"
proof -
  let ?u = "t + six_hours"
  have "micros ?u - t = six_hours - ?u mod 1000" by (simp add: micros_def minus_mod_eq_div_mult [symmetric])
  moreover have "0 \<le> ?u mod 1000" "?u mod 1000 < 1000" by simp_all
  ultimately have "21599999999 \<le> (micros ?u - t) div 1000" "(micros ?u - t) div 1000 \<le> 21600000000" "0 \<le> micros ?u - t"
    by (simp_all add: six_hours_def hour_def minute_def second_def)
  then show ?thesis by (simp add: elapsed_ms_def)
qed

text \<open>
  C27. Proof of Play never counts a session that nobody closed for more than six hours. When the events of a batch have
  been taken in, every session of the screen that is still open although it started more than six hours ago is ended six
  hours after its start, with a length of exactly six hours and the result unknown; nothing else of it and no other session
  changes. So no session of the screen is left open that started more than six hours before.
\<close>

theorem sessions_time_out:
  assumes "ingest_activity lw screens ids screen now es st = Inr (st', r)"
  shows "\<exists>st1. ingest_events lw screens ids screen now 0 es (st, empty_result) = Inr (st1, r)
    \<and> list_all2 (\<lambda>s s'.
         if ps_screen s = screen \<and> ps_ended s = None \<and> ps_started s < micros now - six_hours
         then s' = s\<lparr>ps_ended := Some (micros (ps_started s + six_hours)), ps_duration := Some 21600000,
                   ps_result := ''unknown'', ps_terminal := Some ''bounded_timeout'',
                   ps_metadata := set_key ''closedReason'' (JStr ''bounded_timeout'') (ps_metadata s)\<rparr>
         else s' = s)
       (ad_sessions (sv_activity st1)) (ad_sessions (sv_activity st'))
    \<and> list_all (\<lambda>s. ps_screen s = screen \<longrightarrow> ps_ended s \<noteq> None \<or> micros now - six_hours \<le> ps_started s)
        (ad_sessions (sv_activity st'))"
proof -
  obtain st1 where st1: "ingest_events lw screens ids screen now 0 es (st, empty_result) = Inr (st1, r)"
    and st': "st' = expire_sessions screen now st1"
    using assms by (auto simp: ingest_activity_def split: if_splits)
  let ?old = "\<lambda>s. ps_screen s = screen \<and> ps_ended s = None \<and> ps_started s < micros now - six_hours"
  let ?rel = "\<lambda>s s'. if ?old s then s' = s\<lparr>ps_ended := Some (micros (ps_started s + six_hours)),
      ps_duration := Some 21600000, ps_result := ''unknown'', ps_terminal := Some ''bounded_timeout'',
      ps_metadata := set_key ''closedReason'' (JStr ''bounded_timeout'') (ps_metadata s)\<rparr> else s' = s"
  have closed: "(close_session (min (micros now) (ps_started s + six_hours)) ''unknown'' ''bounded_timeout'' s)
      \<lparr>ps_terminal := Some ''bounded_timeout''\<rparr>
    = s\<lparr>ps_ended := Some (micros (ps_started s + six_hours)), ps_duration := Some 21600000, ps_result := ''unknown'',
        ps_terminal := Some ''bounded_timeout'', ps_metadata := set_key ''closedReason'' (JStr ''bounded_timeout'') (ps_metadata s)\<rparr>"
    if "?old s" for s
  proof -
    have "min (micros now) (ps_started s + six_hours) = ps_started s + six_hours" using that by simp
    then show ?thesis by (simp only: close_session_def micros_elapsed) simp
  qed
  have rel: "?rel s (if ?old s then (close_session (min (micros now) (ps_started s + six_hours)) ''unknown'' ''bounded_timeout'' s)
      \<lparr>ps_terminal := Some ''bounded_timeout''\<rparr> else s)" for s
    using closed [of s] by presburger
  have "list_all2 ?rel rows (close_expired screen now rows)" for rows
    unfolding close_expired_def update_where_def list_all2_map2 list_all2_same by (rule ballI, rule rel)
  moreover have "list_all (\<lambda>s. ps_screen s = screen \<longrightarrow> ps_ended s \<noteq> None \<or> micros now - six_hours \<le> ps_started s) (close_expired screen now rows)" for rows
  proof -
    let ?new = "\<lambda>s. if ?old s then (close_session (min (micros now) (ps_started s + six_hours)) ''unknown'' ''bounded_timeout'' s)
      \<lparr>ps_terminal := Some ''bounded_timeout''\<rparr> else s"
    have new: "ps_screen (?new s) = screen \<longrightarrow> ps_ended (?new s) \<noteq> None \<or> micros now - six_hours \<le> ps_started (?new s)" for s
      by (cases "?old s") (simp_all add: close_session_def del: not_None_eq, linarith)
    show ?thesis unfolding close_expired_def update_where_def list.pred_map list_all_iff comp_def set_map ball_simps
      by (rule ballI, rule new)
  qed
  ultimately show ?thesis using st1 by (simp add: st' expire_sessions_def)
qed

text \<open>A session that started seven hours ago, and a batch with an event that does not end it.\<close>

definition old_session :: playback_session where
  "old_session = \<lparr>ps_id = UUID ''p'', ps_screen = UUID ''s'', ps_group = None, ps_parent = None, ps_key = ''k'',
     ps_start_event = None, ps_end_event = None, ps_started = - 7 * hour, ps_ended = None, ps_source = ended_event,
     ps_presentation_name = [], ps_content_name = [], ps_duration = None, ps_result = ''playing'', ps_failure = [],
     ps_metadata = [], ps_type = ''presentation'', ps_terminal = None\<rparr>"

definition old_server :: server_state where
  "old_server = empty_server\<lparr>sv_activity := empty_activity\<lparr>ad_sessions := [old_session]\<rparr>\<rparr>"

lemma old_batch:
  "\<exists>st r. ingest_events id [] (\<lambda>_. some_ids) (UUID ''s'') 0 0 [ended_event] (old_server, empty_result) = Inr (st, r)
     \<and> ad_sessions (sv_activity st) = [old_session]"
proof -
  let ?a = "empty_activity\<lparr>ad_sessions := [old_session]\<rparr>"
  have n: "normalize_activity id 0 ended_event = Inr ended_event"
    using ended_event_normal [of "[]"] by (simp add: ended_event_def)
  have t: "list_all text_ok (event_texts ended_event)"
    by (simp add: event_texts_def ended_event_def skipped_event_def dropped_event_def text_ok_def continuation_def char_of_eq_iff)
  have f: "ae_sequence ended_event = 1" "ae_selection_date ended_event = []" "ae_terminal ended_event = []" "ae_metadata ended_event = []"
    by (simp_all add: ended_event_def skipped_event_def dropped_event_def)
  have r: "insert_event_row (UUID ''s'') ended_event (Some 1) ?a
      = Inr (append_event (UUID ''s'') ended_event (Some 1) ''player'' ?a, True)"
    unfolding insert_event_row_Inr event_row_ok_iff
    by (simp add: t f reason_storable_def event_ids_def empty_activity_def sequence_taken_def)
  have "insert_player_event (UUID ''s'') ended_event ?a
      = Inr (append_event (UUID ''s'') ended_event (Some 1) ''player'' ?a, True)"
    by (simp add: insert_player_event_def f selection_date_ok_def r stored_or_def)
  moreover have "\<exists>st. derive_activity id [] some_ids (UUID ''s'') ended_event
      (old_server\<lparr>sv_activity := append_event (UUID ''s'') ended_event (Some 1) ''player'' ?a\<rparr>) = Inr st
      \<and> ad_sessions (sv_activity st) = [old_session]"
    by (simp add: derive_activity_def derive_sessions_def is_playback_start_def is_playback_end_def canonical_type_def close_gap_def
        event_aliases_def end_session_def ended_event_def skipped_event_def dropped_event_def Let_def
        append_event_def close_restarted_def restart_types_def old_session_def empty_activity_def update_where_def)
  ultimately show ?thesis
    using n by (auto simp: stored_or_def old_server_def)
qed

theorem sessions_time_out_witness:
  "\<exists>st r. ingest_activity id [] (\<lambda>_. some_ids) (UUID ''s'') 0 [ended_event] old_server = Inr (st, r)
     \<and> ad_sessions (sv_activity st) = [old_session\<lparr>ps_ended := Some (- hour), ps_duration := Some 21600000,
          ps_result := ''unknown'', ps_terminal := Some ''bounded_timeout'',
          ps_metadata := set_key ''closedReason'' (JStr ''bounded_timeout'') []\<rparr>]"
proof -
  obtain st1 r where b: "ingest_events id [] (\<lambda>_. some_ids) (UUID ''s'') 0 0 [ended_event] (old_server, empty_result) = Inr (st1, r)"
      "ad_sessions (sv_activity st1) = [old_session]"
    using old_batch by blast
  then have s: "ingest_activity id [] (\<lambda>_. some_ids) (UUID ''s'') 0 [ended_event] old_server = Inr (expire_sessions (UUID ''s'') 0 st1, r)"
    by (simp add: ingest_activity_def del: ingest_events.simps)
  have old: "ps_screen old_session = UUID ''s''" "ps_ended old_session = None" "ps_started old_session = - 7 * hour"
      "ps_metadata old_session = []"
    by (simp_all add: old_session_def)
  have t: "- 7 * hour < micros 0 - six_hours" "micros (- 7 * hour + six_hours) = - hour"
    by (simp_all add: micros_def six_hours_def hour_def minute_def second_def)
  obtain st2 where st2: "ingest_events id [] (\<lambda>_. some_ids) (UUID ''s'') 0 0 [ended_event] (old_server, empty_result) = Inr (st2, r)"
    and rel: "list_all2 (\<lambda>s s'.
         if ps_screen s = UUID ''s'' \<and> ps_ended s = None \<and> ps_started s < micros 0 - six_hours
         then s' = s\<lparr>ps_ended := Some (micros (ps_started s + six_hours)), ps_duration := Some 21600000,
                   ps_result := ''unknown'', ps_terminal := Some ''bounded_timeout'',
                   ps_metadata := set_key ''closedReason'' (JStr ''bounded_timeout'') (ps_metadata s)\<rparr>
         else s' = s)
       (ad_sessions (sv_activity st2)) (ad_sessions (sv_activity (expire_sessions (UUID ''s'') 0 st1)))"
    using sessions_time_out [OF s] by blast
  from st2 b(1) have "st2 = st1" by (simp del: ingest_events.simps)
  with rel b(2) have "ad_sessions (sv_activity (expire_sessions (UUID ''s'') 0 st1)) = [old_session\<lparr>ps_ended := Some (- hour),
      ps_duration := Some 21600000, ps_result := ''unknown'', ps_terminal := Some ''bounded_timeout'',
      ps_metadata := set_key ''closedReason'' (JStr ''bounded_timeout'') []\<rparr>]"
    by (clarsimp simp only: list_all2_Cons1 list_all2_Nil old t if_True conj_assoc simp_thms refl)
  with s show ?thesis by blast
qed

end
