(* ===== verification/ExpectedPlayback.thy ===== *)
theory ExpectedPlayback
  imports ActivityTables PlaybackPlan
begin

text \<open>
  Expected playback (\<open>httpapi/expected_playback.go\<close>): the windows a heartbeat opens and closes, and the judgement of a
  closed window against the playback sessions and the state intervals of its screen. The windows are the ones that the
  recorded history of a plan reads. Where the code divides seconds as \<open>float64\<close> the model compares exact numbers.
\<close>

section \<open>Windows\<close>

record expected_window = recorded_window +
  ew_takeover :: "uuid option"
  ew_match :: string
  ew_confirmed :: int
  ew_actual_start :: "instant option"
  ew_actual_end :: "instant option"
  ew_session :: "uuid option"
  ew_evaluated :: "instant option"

definition start_grace :: duration where "start_grace = 90 * second"
definition end_grace :: duration where "end_grace = 90 * second"
definition minimum_measurable :: duration where "minimum_measurable = 2 * minute"

definition cancelling_reasons :: "string list" where
  "cancelling_reasons = [''screen_disabled'', ''active_hours_changed'', ''deployment_suppressed_playback'', ''screen_archived'']"

record window_input =
  wi_screen :: uuid
  wi_presentation_type :: string
  wi_presentation :: string
  wi_revision :: string
  wi_manifest :: "int option"
  wi_schedule :: string
  wi_trigger :: string
  wi_timezone :: string
  wi_takeover :: "uuid option"
  wi_content_type :: string
  wi_content :: string

definition open_window :: "uuid \<Rightarrow> expected_window \<Rightarrow> bool" where
  "open_window screen w \<longleftrightarrow> rw_screen w = screen \<and> rw_superseded_at w = None \<and> rw_end w = None"

definition supersede :: "instant \<Rightarrow> string \<Rightarrow> expected_window \<Rightarrow> expected_window" where
  "supersede at reason w = w\<lparr>rw_end := Some (max (rw_start w) (micros at)), rw_superseded_at := Some (micros at),
     rw_superseded_reason := Some reason\<rparr>"

definition supersede_windows :: "uuid \<Rightarrow> instant \<Rightarrow> string \<Rightarrow> expected_window list \<Rightarrow> expected_window list" where
  "supersede_windows screen at reason rows = update_where (open_window screen) (supersede at reason) rows"

definition new_window :: "uuid \<Rightarrow> instant \<Rightarrow> window_input \<Rightarrow> expected_window" where
  "new_window fresh at i =
     \<lparr>rw_screen = wi_screen i, rw_id = fresh, rw_presentation_type = wi_presentation_type i, rw_presentation_id = wi_presentation i,
       rw_presentation_revision = wi_revision i, rw_manifest_version = wi_manifest i, rw_schedule_id = wi_schedule i,
       rw_source = or_else (wi_trigger i) ''direct'', rw_timezone = or_else (wi_timezone i) ''UTC'', rw_start = micros at,
       rw_end = None, rw_superseded_at = None, rw_superseded_reason = None, rw_content_type = wi_content_type i,
       rw_content_id = wi_content i, ew_takeover = wi_takeover i, ew_match = ''not_measurable'', ew_confirmed = 0,
       ew_actual_start = None, ew_actual_end = None, ew_session = None, ew_evaluated = None\<rparr>"

definition open_expected_window ::
    "uuid \<Rightarrow> instant \<Rightarrow> string \<Rightarrow> window_input \<Rightarrow> expected_window list \<Rightarrow> expected_window list" where
  "open_expected_window fresh at reason i rows = supersede_windows (wi_screen i) at reason rows @ [new_window fresh at i]"

section \<open>What a heartbeat expects\<close>

definition suppression_reason :: "(string \<Rightarrow> string) \<Rightarrow> heartbeat_state \<Rightarrow> string" where
  "suppression_reason lw s =
     (let p = normalize_playback lw (hb_playback s) in
      if p = ''off_hours'' then ''active_hours_changed''
      else if p = ''disabled'' then ''screen_disabled''
      else ''deployment_suppressed_playback'')"

definition change_reason :: "string \<Rightarrow> string \<Rightarrow> heartbeat_state \<Rightarrow> string" where
  "change_reason previous next_schedule s =
     (if hb_takeover s \<noteq> None then ''takeover_started''
      else if previous \<noteq> [] \<and> next_schedule = [] then ''schedule_ended''
      else if next_schedule \<noteq> [] \<and> previous \<noteq> next_schedule then ''schedule_started''
      else if previous = next_schedule \<and> next_schedule = [] then ''assignment_changed''
      else ''manifest_changed'')"

text \<open>The signals that decide whether playback is expected at all.\<close>

definition status_signals :: "heartbeat_state \<Rightarrow> fleet_signals" where
  "status_signals s = \<lparr>fs_heartbeat = None, fs_status = False, fs_playback = hb_playback s, fs_error = [], fs_safe_mode = False,
     fs_disabled = (hb_playback s = ''disabled''), fs_foreground = [], fs_used = None, fs_limit = None,
     fs_manifest = hb_manifest s, fs_sync_error = []\<rparr>"

definition schedule_text :: "heartbeat_state \<Rightarrow> string" where
  "schedule_text s = (case hb_schedule s of None \<Rightarrow> [] | Some i \<Rightarrow> uuid_string i)"

definition current_window :: "uuid \<Rightarrow> expected_window list \<Rightarrow> expected_window option" where
  "current_window screen rows =
     (case sort_by (\<lambda>a b. rw_start b < rw_start a) (filter (open_window screen) rows) of [] \<Rightarrow> None | w # _ \<Rightarrow> Some w)"

definition expectation_changed :: "heartbeat_state \<Rightarrow> expected_window option \<Rightarrow> bool" where
  "expectation_changed s current =
     (case current of None \<Rightarrow> True
      | Some w \<Rightarrow> rw_schedule_id w \<noteq> schedule_text s \<or> rw_manifest_version w \<noteq> hb_manifest s \<or> ew_takeover w \<noteq> hb_takeover s
          \<or> rw_source w \<noteq> or_else (hb_selection s) ''direct'')"

definition expected_input :: "uuid \<Rightarrow> heartbeat_state \<Rightarrow> window_input" where
  "expected_input screen s =
     \<lparr>wi_screen = screen, wi_presentation_type = (if hb_schedule s = None then [] else ''schedule''),
       wi_presentation = schedule_text s, wi_revision = [], wi_manifest = hb_manifest s, wi_schedule = schedule_text s,
       wi_trigger = or_else (hb_selection s) ''direct'', wi_timezone = [], wi_takeover = hb_takeover s,
       wi_content_type = [], wi_content = []\<rparr>"

definition sync_expected_window ::
    "(string \<Rightarrow> string) \<Rightarrow> uuid \<Rightarrow> uuid \<Rightarrow> heartbeat_state \<Rightarrow> instant \<Rightarrow> expected_window list \<Rightarrow> expected_window list" where
  "sync_expected_window lw fresh screen s now rows =
     (let current = current_window screen rows in
      if \<not> playback_expected lw (status_signals s)
      then (if current = None then rows else supersede_windows screen now (suppression_reason lw s) rows)
      else if \<not> expectation_changed s current then rows
      else open_expected_window fresh now
        (change_reason (case current of None \<Rightarrow> [] | Some w \<Rightarrow> rw_schedule_id w) (schedule_text s) s)
        (expected_input screen s) rows)"

section \<open>Judgement\<close>

text \<open>\<open>SUM(EXTRACT(EPOCH FROM ...))*1000)::bigint\<close> rounds half away from zero.\<close>

definition rounded_ms :: "duration \<Rightarrow> int" where
  "rounded_ms d = (if 0 \<le> d then (d div 1000 + 500) div 1000 else - ((- d div 1000 + 500) div 1000))"

definition clipped_end :: "instant \<Rightarrow> instant option \<Rightarrow> instant" where
  "clipped_end e ended = min (case ended of None \<Rightarrow> e | Some t \<Rightarrow> t) e"

text \<open>How much of an interval lies in the window.\<close>

definition clipped :: "instant \<Rightarrow> instant \<Rightarrow> instant \<Rightarrow> instant option \<Rightarrow> duration" where
  "clipped s e started ended = clipped_end e ended - max started s"

definition touches :: "instant \<Rightarrow> instant \<Rightarrow> instant \<Rightarrow> instant option \<Rightarrow> bool" where
  "touches s e started ended \<longleftrightarrow> started < e \<and> s < (case ended of None \<Rightarrow> e | Some t \<Rightarrow> t)"

definition matching_sessions :: "uuid \<Rightarrow> instant \<Rightarrow> instant \<Rightarrow> playback_session list \<Rightarrow> playback_session list" where
  "matching_sessions screen s e rows =
     filter (\<lambda>p. ps_screen p = screen \<and> ps_type p = ''presentation'' \<and> touches s e (ps_started p) (ps_ended p)
       \<and> ps_result p \<in> set [''playing'', ''completed'', ''recovered'', ''partial'', ''failed'']) rows"

definition confirmed_ms :: "instant \<Rightarrow> instant \<Rightarrow> playback_session list \<Rightarrow> int" where
  "confirmed_ms s e ps = rounded_ms (sum_list (map (\<lambda>p. clipped s e (ps_started p) (ps_ended p)) ps))"

definition offline_time :: "uuid \<Rightarrow> instant \<Rightarrow> instant \<Rightarrow> state_interval list \<Rightarrow> duration" where
  "offline_time screen s e rows =
     sum_list (map (\<lambda>i. clipped s e (si_started i) (si_ended i))
       (filter (\<lambda>i. si_screen i = screen \<and> si_state i \<in> set [''offline'', ''unknown''] \<and> touches s e (si_started i) (si_ended i)) rows))"

definition screen_was_offline :: "uuid \<Rightarrow> instant \<Rightarrow> instant \<Rightarrow> state_interval list \<Rightarrow> bool" where
  "screen_was_offline screen s e rows \<longleftrightarrow> time_sub e s \<le> 2 * offline_time screen s e rows"

record verdict =
  vd_status :: string
  vd_confirmed :: int
  vd_start :: "instant option"
  vd_end :: "instant option"
  vd_session :: "uuid option"

definition no_playback :: "string \<Rightarrow> verdict" where
  "no_playback status = \<lparr>vd_status = status, vd_confirmed = 0, vd_start = None, vd_end = None, vd_session = None\<rparr>"

definition first_session :: "playback_session list \<Rightarrow> uuid option" where
  "first_session ps = (case sort_by (\<lambda>a b. ps_started a < ps_started b) ps of [] \<Rightarrow> None | p # _ \<Rightarrow> Some (ps_id p))"

definition earliest_start :: "instant \<Rightarrow> playback_session list \<Rightarrow> instant option" where
  "earliest_start s ps = (if ps = [] then None else Some (Min (set (map (\<lambda>p. max (ps_started p) s) ps))))"

definition latest_end :: "instant \<Rightarrow> playback_session list \<Rightarrow> instant option" where
  "latest_end e ps = (if ps = [] then None else Some (Max (set (map (\<lambda>p. clipped_end e (ps_ended p)) ps))))"

definition coverage_status :: "instant \<Rightarrow> instant \<Rightarrow> bool \<Rightarrow> int \<Rightarrow> instant option \<Rightarrow> instant option \<Rightarrow> string" where
  "coverage_status s e failed confirmed actual_start actual_end =
     (let late = (case actual_start of None \<Rightarrow> False | Some t \<Rightarrow> start_grace < time_sub t s);
          early = (case actual_end of None \<Rightarrow> False | Some t \<Rightarrow> end_grace < time_sub e t)
      in if failed then ''failed''
         else if late \<and> early then ''partial''
         else if late then ''started_late''
         else if early then ''ended_early''
         else if wrap64 (confirmed * 100) < wrap64 (milliseconds (time_sub e s) * 95) then ''partial''
         else ''confirmed'')"

definition match_window ::
    "uuid \<Rightarrow> instant \<Rightarrow> instant \<Rightarrow> string option \<Rightarrow> uuid option \<Rightarrow> activity_db \<Rightarrow> verdict" where
  "match_window screen s e reason takeover a =
     (if takeover \<noteq> None then no_playback ''overridden_by_takeover''
      else if (case reason of None \<Rightarrow> False | Some r \<Rightarrow> r \<in> set cancelling_reasons) then no_playback ''cancelled''
      else if time_sub e s < minimum_measurable then no_playback ''not_measurable''
      else (let ps = matching_sessions screen s e (ad_sessions a); confirmed = confirmed_ms s e ps in
        if confirmed \<le> 0
        then no_playback (if screen_was_offline screen s e (ad_intervals a) then ''screen_offline'' else ''never_started'')
        else \<lparr>vd_status = coverage_status s e (list_ex (\<lambda>p. ps_result p = ''failed'') ps) confirmed (earliest_start s ps) (latest_end e ps),
          vd_confirmed = confirmed, vd_start = earliest_start s ps, vd_end = latest_end e ps, vd_session = first_session ps\<rparr>))"

definition pending :: "instant \<Rightarrow> uuid option \<Rightarrow> expected_window \<Rightarrow> bool" where
  "pending now screen w \<longleftrightarrow>
     (case rw_end w of None \<Rightarrow> False
      | Some e \<Rightarrow> e \<le> micros now \<and> (case ew_evaluated w of None \<Rightarrow> True | Some t \<Rightarrow> t < e))
     \<and> (case screen of None \<Rightarrow> True | Some s \<Rightarrow> rw_screen w = s)"

definition judge :: "(uuid \<Rightarrow> instant) \<Rightarrow> activity_db \<Rightarrow> expected_window \<Rightarrow> expected_window" where
  "judge clock a w =
     (case rw_end w of None \<Rightarrow> w
      | Some e \<Rightarrow>
          (let v = match_window (rw_screen w) (rw_start w) e (rw_superseded_reason w) (ew_takeover w) a in
           w\<lparr>ew_match := vd_status v, ew_confirmed := vd_confirmed v, ew_actual_start := vd_start v, ew_actual_end := vd_end v,
             ew_session := vd_session v, ew_evaluated := Some (clock (rw_id w))\<rparr>))"

text \<open>The oldest 2000 windows to judge; each update has its own \<open>now()\<close>.\<close>

definition to_judge :: "instant \<Rightarrow> uuid option \<Rightarrow> expected_window list \<Rightarrow> expected_window list" where
  "to_judge now screen rows = take 2000 (sort_by (\<lambda>a b. rw_start a < rw_start b) (filter (pending now screen) rows))"

definition evaluate_windows ::
    "instant \<Rightarrow> (uuid \<Rightarrow> instant) \<Rightarrow> uuid option \<Rightarrow> activity_db \<Rightarrow> expected_window list \<Rightarrow> expected_window list" where
  "evaluate_windows now clock screen a rows =
     (let ids = map rw_id (to_judge now screen rows) in update_where (\<lambda>w. rw_id w \<in> set ids) (judge clock a) rows)"

section \<open>Histories of windows\<close>

text \<open>Heartbeats under a clock that does not go back, and judgements at any time.\<close>

inductive window_history :: "instant \<Rightarrow> expected_window list \<Rightarrow> bool" where
  no_windows: "window_history c []"
| beat: "window_history c rows \<Longrightarrow> c \<le> now \<Longrightarrow> window_history now (sync_expected_window lw fresh screen s now rows)"
| judged: "window_history c rows \<Longrightarrow> window_history c (evaluate_windows now clock screen a rows)"

text \<open>A later window of the screen starts when the earlier one has ended.\<close>

definition follows :: "expected_window \<Rightarrow> expected_window \<Rightarrow> bool" where
  "follows a b \<longleftrightarrow> rw_screen a \<noteq> rw_screen b \<or> (\<exists>e. rw_end a = Some e \<and> e \<le> rw_start b)"

definition window_ok :: "instant \<Rightarrow> expected_window \<Rightarrow> bool" where
  "window_ok c w \<longleftrightarrow> rw_start w \<le> micros c \<and> (rw_end w = None \<longleftrightarrow> rw_superseded_at w = None)
     \<and> (case rw_end w of None \<Rightarrow> True | Some e \<Rightarrow> rw_start w \<le> e \<and> e \<le> micros c)"

definition windows_ok :: "instant \<Rightarrow> expected_window list \<Rightarrow> bool" where
  "windows_ok c rows \<longleftrightarrow> sorted_wrt follows rows \<and> list_all (window_ok c) rows"

lemma micros_mono: "a \<le> b \<Longrightarrow> micros a \<le> micros b"
  by (simp add: micros_def zdiv_mono1)

lemma window_ok_later: "window_ok c w \<Longrightarrow> c \<le> d \<Longrightarrow> window_ok d w"
  using micros_mono [of c d] by (auto simp: window_ok_def split: option.splits)

lemma windows_ok_later: "windows_ok c rows \<Longrightarrow> c \<le> d \<Longrightarrow> windows_ok d rows"
  by (auto simp: windows_ok_def list_all_iff intro: window_ok_later)

lemma windows_ok_map:
  assumes "\<And>a b. follows a b \<Longrightarrow> follows (f a) (f b)" "\<And>a. window_ok c a \<Longrightarrow> window_ok c (f a)"
  shows "windows_ok c rows \<Longrightarrow> windows_ok c (map f rows)"
  using assms by (auto simp: windows_ok_def list_all_iff sorted_wrt_map intro: sorted_wrt_mono_rel [rotated])

lemma supersede_fields [simp]:
  "rw_screen (supersede t r w) = rw_screen w" "rw_start (supersede t r w) = rw_start w"
  "rw_end (supersede t r w) = Some (max (rw_start w) (micros t))" "rw_superseded_at (supersede t r w) = Some (micros t)"
  by (simp_all add: supersede_def)

lemma supersede_ok: "windows_ok c rows \<Longrightarrow> windows_ok c (supersede_windows screen c reason rows)"
  unfolding supersede_windows_def update_where_def
proof (rule windows_ok_map)
  show "follows (if open_window screen a then supersede c reason a else a) (if open_window screen b then supersede c reason b else b)"
    if "follows a b" for a b
    using that by (auto simp: follows_def open_window_def)
  show "window_ok c (if open_window screen a then supersede c reason a else a)" if "window_ok c a" for a
    using that by (auto simp: window_ok_def split: option.splits)
qed

lemma superseded_closed:
  assumes "windows_ok c rows" "w \<in> set (supersede_windows screen c reason rows)" "rw_screen w = screen"
  obtains e where "rw_end w = Some e" "rw_superseded_at w \<noteq> None" "e \<le> micros c"
proof -
  obtain v where v: "v \<in> set rows" "w = (if open_window screen v then supersede c reason v else v)"
    using assms(2) by (auto simp: supersede_windows_def update_where_def)
  have "window_ok c v" using assms(1) v(1) by (simp add: windows_ok_def list_all_iff)
  with v(2) assms(3) that show thesis by (auto simp: open_window_def window_ok_def split: if_splits option.splits)
qed

lemma new_window_fields [simp]:
  "rw_screen (new_window fresh t i) = wi_screen i" "rw_start (new_window fresh t i) = micros t" "rw_end (new_window fresh t i) = None"
  "rw_superseded_at (new_window fresh t i) = None" "rw_manifest_version (new_window fresh t i) = wi_manifest i"
  "rw_schedule_id (new_window fresh t i) = wi_schedule i" "rw_source (new_window fresh t i) = or_else (wi_trigger i) ''direct''"
  "ew_takeover (new_window fresh t i) = wi_takeover i"
  by (simp_all add: new_window_def)

lemma open_ok:
  assumes "windows_ok c rows"
  shows "windows_ok c (open_expected_window fresh c reason i rows)"
proof -
  let ?rows = "supersede_windows (wi_screen i) c reason rows"
  have "\<forall>w\<in>set ?rows. follows w (new_window fresh c i)"
    using superseded_closed [OF assms, of _ "wi_screen i" reason] unfolding follows_def new_window_fields by metis
  moreover have "window_ok c (new_window fresh c i)" by (simp add: window_ok_def)
  ultimately show ?thesis
    using supersede_ok [OF assms, of "wi_screen i" reason]
    by (simp add: open_expected_window_def windows_ok_def sorted_wrt_append)
qed

lemma sync_ok: "windows_ok c rows \<Longrightarrow> windows_ok c (sync_expected_window lw fresh screen s c rows)"
  by (simp add: sync_expected_window_def Let_def supersede_ok open_ok)

lemma judge_fields [simp]:
  "rw_screen (judge clock a w) = rw_screen w" "rw_start (judge clock a w) = rw_start w" "rw_end (judge clock a w) = rw_end w"
  "rw_superseded_at (judge clock a w) = rw_superseded_at w"
  by (simp_all add: judge_def Let_def split: option.split)

lemma evaluate_ok: "windows_ok c rows \<Longrightarrow> windows_ok c (evaluate_windows now clock screen a rows)"
  unfolding evaluate_windows_def Let_def update_where_def
  by (rule windows_ok_map) (auto simp: follows_def window_ok_def split: option.splits)

lemma history_ok: "window_history c rows \<Longrightarrow> windows_ok c rows"
proof (induction rule: window_history.induct)
  case (beat c rows now lw fresh screen s)
  then show ?case by (blast intro: sync_ok windows_ok_later)
qed (simp_all add: windows_ok_def [of _ "[]"] evaluate_ok)

section \<open>The recorded history of the windows\<close>

definition recorded_history :: "uuid list \<Rightarrow> expected_window list \<Rightarrow> history_db" where
  "recorded_history screens rows = \<lparr>hd_screens = screens, hd_windows = map recorded_window.truncate rows\<rparr>"

definition covers :: "uuid \<Rightarrow> instant \<Rightarrow> expected_window \<Rightarrow> bool" where
  "covers screen t w \<longleftrightarrow> window_contains screen t (recorded_window.truncate w)"

lemma covers_iff:
  "covers screen t w \<longleftrightarrow> rw_screen w = screen \<and> rw_start w \<le> t \<and> (case rw_end w of None \<Rightarrow> True | Some e \<Rightarrow> t < e)
     \<and> (case rw_superseded_at w of None \<Rightarrow> True | Some e \<Rightarrow> t < e)"
  by (simp add: covers_def window_contains_def recorded_window.truncate_def)

lemma at_most_one_covers: "sorted_wrt follows rows \<Longrightarrow> length (filter (covers screen t) rows) \<le> 1"
proof (induction rows)
  case (Cons w rows)
  have "covers screen t w \<Longrightarrow> filter (covers screen t) rows = []"
    using Cons.prems by (fastforce simp: filter_empty_conv covers_iff follows_def)
  then show ?case using Cons by auto
qed simp

lemma recorded_at_history:
  assumes "sorted_wrt follows rows" "screen \<noteq> uuid_nil" "t \<noteq> zero_time" "screen \<in> set screens"
  shows "recorded_at (recorded_history screens rows) screen t = Inr (case find (covers screen t) rows of
      None \<Rightarrow> \<lparr>hp_screen = screen, hp_at = t, hp_basis = BasisUnavailable, hp_expectation = None\<rparr>
    | Some w \<Rightarrow> \<lparr>hp_screen = screen, hp_at = t, hp_basis = BasisRecorded, hp_expectation = Some (recorded_window.truncate w)\<rparr>)"
proof -
  have f: "filter (window_contains screen t) (hd_windows (recorded_history screens rows))
      = map recorded_window.truncate (filter (covers screen t) rows)"
    by (simp add: recorded_history_def filter_map comp_def covers_def [abs_def])
  have one: "length (filter (covers screen t) rows) \<le> 1" by (rule at_most_one_covers [OF assms(1)])
  have "find (covers screen t) rows = (case filter (covers screen t) rows of [] \<Rightarrow> None | w # _ \<Rightarrow> Some w)"
    by (induction rows) simp_all
  with one show ?thesis
    using assms(2-4) unfolding recorded_at_def
    by (cases "filter (covers screen t) rows")
      (auto simp: f recorded_history_def sort_by_def Let_def f [unfolded recorded_history_def, simplified])
qed

lemma uncovered:
  assumes "windows_ok c rows" "\<not> list_ex (open_window screen) rows" "micros c \<le> t"
  shows "find (covers screen t) rows = None"
proof -
  have "\<not> covers screen t w" if "w \<in> set rows" for w
  proof -
    have "window_ok c w" using assms(1) that by (simp add: windows_ok_def list_all_iff)
    moreover have "rw_screen w = screen \<Longrightarrow> rw_end w \<noteq> None"
      using assms(2) that calculation by (auto simp: open_window_def list_ex_iff window_ok_def)
    ultimately show ?thesis using assms(3) by (auto simp: covers_iff window_ok_def)
  qed
  then show ?thesis by (auto simp: find_None_iff)
qed

lemma superseded_none_open: "\<not> list_ex (open_window screen) (supersede_windows screen c reason rows)"
proof -
  have "\<not> open_window screen (if open_window screen v then supersede c reason v else v)" for v
    by (simp add: open_window_def)
  then show ?thesis unfolding supersede_windows_def update_where_def list_ex_iff set_map by blast
qed

lemma current_open:
  assumes "current_window screen rows = Some w"
  shows "w \<in> set rows" "open_window screen w"
proof -
  obtain ws where "sort_by (\<lambda>a b. rw_start b < rw_start a) (filter (open_window screen) rows) = w # ws"
    using assms by (auto simp: current_window_def split: list.splits)
  then have "w \<in> set (sort_by (\<lambda>a b. rw_start b < rw_start a) (filter (open_window screen) rows))"
    by (metis list.set_intros(1))
  then show "w \<in> set rows" "open_window screen w" by simp_all
qed

lemma no_current: "current_window screen rows = None \<longleftrightarrow> \<not> list_ex (open_window screen) rows"
proof (cases "sort_by (\<lambda>a b. rw_start b < rw_start a) (filter (open_window screen) rows)")
  case Nil
  then have "filter (open_window screen) rows = []" by simp
  then show ?thesis using Nil by (simp add: current_window_def filter_empty_conv list_ex_iff)
next
  case (Cons w ws)
  then have "current_window screen rows = Some w" by (simp add: current_window_def)
  then show ?thesis using current_open [of screen rows w] by (auto simp: list_ex_iff)
qed

lemma find_unique:
  assumes "length (filter P xs) \<le> 1" "x \<in> set xs" "P x"
  shows "find P xs = Some x"
proof -
  have "x \<in> set (filter P xs)" using assms(2,3) by simp
  then have "filter P xs = [x]" using assms(1) by (cases "filter P xs") auto
  moreover have "find P xs = (case filter P xs of [] \<Rightarrow> None | y # _ \<Rightarrow> Some y)" by (induction xs) simp_all
  ultimately show ?thesis by simp
qed

text \<open>What the status of a heartbeat says is to be recorded.\<close>

definition describes :: "heartbeat_state \<Rightarrow> expected_window \<Rightarrow> bool" where
  "describes s w \<longleftrightarrow> rw_schedule_id w = schedule_text s \<and> rw_manifest_version w = hb_manifest s \<and> ew_takeover w = hb_takeover s
     \<and> rw_source w = or_else (hb_selection s) ''direct''"

lemma sync_covers:
  assumes "windows_ok c rows" "micros c \<le> t"
  shows "case find (covers screen t) (sync_expected_window lw fresh screen s c rows) of
      None \<Rightarrow> \<not> playback_expected lw (status_signals s)
    | Some w \<Rightarrow> playback_expected lw (status_signals s) \<and> describes s w"
proof -
  let ?rows = "sync_expected_window lw fresh screen s c rows"
  have one: "length (filter (covers screen t) ?rows) \<le> 1"
    using sync_ok [OF assms(1)] by (intro at_most_one_covers) (simp add: windows_ok_def)
  show ?thesis
  proof (cases "playback_expected lw (status_signals s)")
    case False
    have "\<not> list_ex (open_window screen) ?rows"
      using False superseded_none_open no_current [of screen rows] by (simp add: sync_expected_window_def Let_def)
    then have "find (covers screen t) ?rows = None"
      using uncovered [OF sync_ok [OF assms(1)] _ assms(2)] by blast
    then show ?thesis using False by simp
  next
    case True
    obtain w where w: "w \<in> set ?rows" "open_window screen w" "describes s w"
    proof (cases "expectation_changed s (current_window screen rows)")
      case False
      then obtain w where w: "current_window screen rows = Some w" "describes s w"
        by (auto simp: expectation_changed_def describes_def split: option.splits)
      have "?rows = rows" using True False by (simp add: sync_expected_window_def Let_def)
      with w current_open [OF w(1)] that show thesis by simp
    next
      case changed: True
      let ?w = "new_window fresh c (expected_input screen s)"
      have "?w \<in> set ?rows" using True changed by (simp add: sync_expected_window_def Let_def open_expected_window_def)
      moreover have "open_window screen ?w" by (simp add: open_window_def expected_input_def)
      moreover have "describes s ?w" by (simp add: describes_def expected_input_def or_else_def)
      ultimately show thesis by (rule that)
    qed
    have "window_ok c w" using sync_ok [OF assms(1)] w(1) by (simp add: windows_ok_def list_all_iff)
    then have "covers screen t w" using w(2) assms(2) by (auto simp: covers_iff open_window_def window_ok_def)
    then have "find (covers screen t) ?rows = Some w" by (rule find_unique [OF one w(1)])
    then show ?thesis using True w(3) by simp
  qed
qed

text \<open>
  C28. The recorded expectation of a screen, as long as the clock of the server does not go back, is never ambiguous, and
  from a heartbeat on it is what the heartbeat's status says: the schedule, manifest and source in force if playback is
  expected, nothing if it is not.
\<close>

theorem expectation_follows_status:
  assumes "window_history c rows" "c \<le> now" "micros now \<le> t"
    and "screen \<noteq> uuid_nil" "t \<noteq> zero_time" "u \<noteq> zero_time" "screen \<in> set screens"
  shows "\<exists>p q. recorded_at (recorded_history screens (sync_expected_window lw fresh screen s now rows)) screen u = Inr p
    \<and> recorded_at (recorded_history screens (sync_expected_window lw fresh screen s now rows)) screen t = Inr q
    \<and> (case hp_expectation q of
         None \<Rightarrow> \<not> playback_expected lw (status_signals s)
       | Some w \<Rightarrow> playback_expected lw (status_signals s) \<and> rw_schedule_id w = schedule_text s
           \<and> rw_manifest_version w = hb_manifest s \<and> rw_source w = or_else (hb_selection s) ''direct'')"
proof -
  let ?rows = "sync_expected_window lw fresh screen s now rows"
  have ok: "windows_ok now rows" using history_ok [OF assms(1)] assms(2) by (rule windows_ok_later)
  have srt: "sorted_wrt follows ?rows" using sync_ok [OF ok] by (simp add: windows_ok_def)
  show ?thesis
    using sync_covers [OF ok assms(3), where screen = screen and lw = lw and fresh = fresh and s = s] recorded_at_history [OF srt assms(4) _ assms(7)] assms(5,6)
    by (auto simp: describes_def recorded_window.truncate_def split: option.splits)
qed

definition playing_status :: heartbeat_state where
  "playing_status = \<lparr>hb_manifest = Some 3, hb_schedule = None, hb_selection = ''direct'', hb_command = None, hb_command_state = [],
     hb_takeover = None, hb_takeover_state = [], hb_update = None, hb_update_state = [], hb_safe_mode = False,
     hb_watchdog_failure = [], hb_watchdog_recovery = None, hb_foreground = ''foreground'', hb_sleep = [], hb_wake = [],
     hb_playback = ''playing'', hb_error = [], hb_used = None, hb_limit = None\<rparr>"

theorem expectation_follows_status_witness:
  "\<exists>q. recorded_at (recorded_history [UUID ''s'']
      (sync_expected_window id (UUID ''w'') (UUID ''s'') playing_status 5000 [])) (UUID ''s'') 9000 = Inr q
    \<and> (case hp_expectation q of None \<Rightarrow> False | Some w \<Rightarrow> rw_manifest_version w = Some 3)"
proof -
  have e: "playback_expected id (status_signals playing_status)"
    using to_lower_event [of "''playing''" id] trim_event [of "''playing''"]
    by (simp add: playback_expected_def status_signals_def playing_status_def normalize_playback_def event_char_def alpha_lower_def)
  have n: "UUID ''s'' \<noteq> uuid_nil" "9000 \<noteq> zero_time" "micros 5000 \<le> 9000"
    by (simp_all add: uuid_nil_def zero_time_def second_def micros_def)
  have h: "window_history 0 []" by (rule no_windows)
  show ?thesis
    using expectation_follows_status [OF h, of 5000 9000 "UUID ''s''" 9000 "[UUID ''s'']" id "UUID ''w''" playing_status] e n
    by (force simp: playing_status_def split: option.splits)
qed

section \<open>Judgements\<close>

text \<open>A judged window is not judged again, whatever sessions are reported for it later.\<close>

lemma late_evidence_ignored:
  assumes "rw_end w = Some e" "e \<le> clock (rw_id w)"
  shows "\<not> pending now screen (judge clock a w)"
  using assms by (simp add: pending_def) (simp add: judge_def Let_def)

text \<open>The root sessions of a screen in order, each over before the next one starts.\<close>

definition sequential :: "playback_session list \<Rightarrow> bool" where
  "sequential ps \<longleftrightarrow> sorted_wrt (\<lambda>p q. \<exists>t. ps_ended p = Some t \<and> t \<le> ps_started q) ps
     \<and> list_all (\<lambda>p. case ps_ended p of None \<Rightarrow> True | Some t \<Rightarrow> ps_started p \<le> t) ps"

definition play_time :: "uuid \<Rightarrow> instant \<Rightarrow> instant \<Rightarrow> playback_session list \<Rightarrow> duration" where
  "play_time screen s e rows = sum_list (map (\<lambda>p. clipped s e (ps_started p) (ps_ended p)) (matching_sessions screen s e rows))"

definition root_sessions :: "uuid \<Rightarrow> playback_session list \<Rightarrow> playback_session list" where
  "root_sessions screen rows = filter (\<lambda>p. ps_screen p = screen \<and> ps_type p = ''presentation'') rows"

lemma sequential_filter: "sequential ps \<Longrightarrow> sequential (filter P ps)"
  by (auto simp: sequential_def list_all_iff sorted_wrt_filter)

lemma matching_root: "matching_sessions screen s e rows = filter (\<lambda>p. touches s e (ps_started p) (ps_ended p)
    \<and> ps_result p \<in> set [''playing'', ''completed'', ''recovered'', ''partial'', ''failed'']) (root_sessions screen rows)"
  unfolding matching_sessions_def root_sessions_def filter_filter by (intro filter_cong refl) blast

lemma clipped_nonneg:
  assumes "s \<le> e" "touches s e started ended" "case ended of None \<Rightarrow> True | Some t \<Rightarrow> started \<le> t"
  shows "0 \<le> clipped s e started ended"
  using assms by (auto simp: clipped_def clipped_end_def touches_def split: option.splits)

lemma sequential_total:
  assumes "sequential ps" "\<forall>p\<in>set ps. touches s e (ps_started p) (ps_ended p) \<and> x \<le> ps_started p" "s \<le> e"
  shows "0 \<le> sum_list (map (\<lambda>p. clipped s e (ps_started p) (ps_ended p)) ps)
    \<and> sum_list (map (\<lambda>p. clipped s e (ps_started p) (ps_ended p)) ps) \<le> max 0 (e - max s x)"
  using assms(1,2)
proof (induction ps arbitrary: x)
  case (Cons p ps)
  have c: "0 \<le> clipped s e (ps_started p) (ps_ended p)"
    using Cons.prems assms(3) by (intro clipped_nonneg) (auto simp: sequential_def)
  have seq: "sequential ps" using Cons.prems(1) by (simp add: sequential_def)
  show ?case
  proof (cases "ps_ended p")
    case None
    then have "ps = []" using Cons.prems(1) by (cases ps) (auto simp: sequential_def)
    then show ?thesis using c Cons.prems(2) assms(3) None by (auto simp: clipped_def clipped_end_def touches_def)
  next
    case (Some t)
    have "\<forall>q\<in>set ps. touches s e (ps_started q) (ps_ended q) \<and> t \<le> ps_started q"
      using Cons.prems Some by (auto simp: sequential_def)
    from Cons.IH [OF seq this] c show ?thesis
      using Cons.prems Some assms(3) by (auto simp: clipped_def clipped_end_def touches_def sequential_def)
  qed
qed simp

lemma play_time_bounds:
  assumes "sequential (root_sessions screen rows)" "s \<le> e"
  shows "0 \<le> play_time screen s e rows" "play_time screen s e rows \<le> e - s"
proof -
  let ?ps = "matching_sessions screen s e rows"
  have "sequential ?ps" unfolding matching_root by (rule sequential_filter [OF assms(1)])
  moreover obtain x where "\<forall>p\<in>set ?ps. x \<le> ps_started p" "x \<le> s"
  proof (cases "?ps = []")
    case False
    let ?x = "min s (Min (ps_started ` set ?ps))"
    have "\<forall>p\<in>set ?ps. ?x \<le> ps_started p" by (meson List.finite_set Min_le finite_imageI imageI min.coboundedI2)
    then show thesis using that [of ?x] by simp
  qed (use that [of s] in simp)
  moreover have "\<forall>p\<in>set ?ps. touches s e (ps_started p) (ps_ended p)" by (simp add: matching_sessions_def)
  ultimately have "0 \<le> play_time screen s e rows \<and> play_time screen s e rows \<le> max 0 (e - max s x)"
    using sequential_total [of ?ps s e x] assms(2) by (auto simp: play_time_def)
  then show "0 \<le> play_time screen s e rows" "play_time screen s e rows \<le> e - s"
    using \<open>x \<le> s\<close> assms(2) by (auto simp: max_def)
qed

lemma rounded_ms_bounds:
  assumes "0 \<le> d"
  shows "d - 501000 \<le> rounded_ms d * 1000000" "rounded_ms d * 1000000 \<le> d + 500000" "0 \<le> rounded_ms d"
proof -
  define u where "u = d div 1000"
  have u: "1000 * u \<le> d" "d < 1000 * u + 1000" unfolding u_def by (auto simp: minus_mod_eq_mult_div [symmetric])
  define r where "r = (u + 500) div 1000"
  have r: "1000 * r \<le> u + 500" "u + 500 < 1000 * r + 1000" unfolding r_def by (auto simp: minus_mod_eq_mult_div [symmetric])
  have "rounded_ms d = r" using assms by (simp add: rounded_ms_def u_def r_def)
  then show "d - 501000 \<le> rounded_ms d * 1000000" "rounded_ms d * 1000000 \<le> d + 500000" "0 \<le> rounded_ms d"
    using u r assms by linarith+
qed

lemma verdict_coverage:
  assumes "match_window screen s e reason takeover a = v"
    and "vd_status v \<notin> set [''overridden_by_takeover'', ''cancelled'', ''not_measurable'', ''screen_offline'', ''never_started'']"
  shows "minimum_measurable \<le> time_sub e s \<and> vd_confirmed v = confirmed_ms s e (matching_sessions screen s e (ad_sessions a))
    \<and> vd_status v = coverage_status s e (list_ex (\<lambda>p. ps_result p = ''failed'') (matching_sessions screen s e (ad_sessions a)))
        (vd_confirmed v) (earliest_start s (matching_sessions screen s e (ad_sessions a)))
        (latest_end e (matching_sessions screen s e (ad_sessions a)))"
  using assms by (auto simp: match_window_def no_playback_def Let_def split: if_splits)

lemma silent_verdict:
  assumes "match_window screen s e reason takeover a = v" "vd_status v \<in> set [''screen_offline'', ''never_started'']"
  shows "confirmed_ms s e (matching_sessions screen s e (ad_sessions a)) \<le> 0"
  using assms by (auto simp: match_window_def no_playback_def coverage_status_def Let_def split: if_splits)

lemma covered:
  assumes "coverage_status s e failed c st en = ''confirmed''"
  shows "\<not> failed" "st = Some t \<Longrightarrow> time_sub t s \<le> start_grace" "en = Some t \<Longrightarrow> time_sub e t \<le> end_grace"
    "wrap64 (milliseconds (time_sub e s) * 95) \<le> wrap64 (c * 100)"
  using assms by (auto simp: coverage_status_def Let_def not_less split: if_splits option.splits)

lemma confirmed_bounds:
  assumes "match_window screen s e reason takeover a = v" "sequential (root_sessions screen (ad_sessions a))" "s \<le> e"
  shows "0 \<le> vd_confirmed v" "vd_confirmed v * 1000000 \<le> (e - s) + 500000"
proof -
  have p: "0 \<le> play_time screen s e (ad_sessions a)" "play_time screen s e (ad_sessions a) \<le> e - s"
    using play_time_bounds assms(2,3) by blast+
  have "vd_confirmed v = 0 \<or> vd_confirmed v = rounded_ms (play_time screen s e (ad_sessions a))"
    using assms(1) by (auto simp: match_window_def no_playback_def confirmed_ms_def play_time_def Let_def split: if_splits)
  then show "0 \<le> vd_confirmed v" "vd_confirmed v * 1000000 \<le> (e - s) + 500000"
    using rounded_ms_bounds [OF p(1)] p(2) assms(3) by auto
qed

lemma confirmed_share:
  assumes "match_window screen s e reason takeover a = v" "sequential (root_sessions screen (ad_sessions a))"
    and "s \<le> e" "e - s < 2 ^ 63" "vd_status v = ''confirmed''"
  shows "95 * (e - s) \<le> 100 * play_time screen s e (ad_sessions a) + 150000000"
proof -
  let ?p = "play_time screen s e (ad_sessions a)" and ?c = "vd_confirmed v"
  note cov = verdict_coverage [OF assms(1), unfolded assms(5)]
  have c: "?c = rounded_ms ?p" using cov by (simp add: confirmed_ms_def play_time_def)
  have p: "0 \<le> ?p" "?p \<le> e - s" using play_time_bounds assms(2,3) by blast+
  note r = rounded_ms_bounds [OF p(1)]
  have t: "time_sub e s = e - s" using assms(3,4) by (simp add: time_sub_def)
  define m where "m = (e - s) div 1000000"
  have m: "1000000 * m \<le> e - s" "e - s < 1000000 * m + 1000000" unfolding m_def by (auto simp: minus_mod_eq_mult_div [symmetric])
  have "milliseconds (time_sub e s) = m" using assms(3) by (simp add: t milliseconds_def go_div_nonneg m_def)
  moreover have "int64_range (m * 95)" "int64_range (?c * 100)"
    using m r p assms(3,4) by (auto simp: int64_range_def c)
  ultimately have "m * 95 \<le> ?c * 100" using covered(4) [of s e _ ?c] cov by (simp add: wrap64_in_range)
  then show ?thesis using m r by (simp add: c)
qed


definition whole_session :: playback_session where
  "whole_session = \<lparr>ps_id = UUID ''p'', ps_screen = UUID ''s'', ps_group = None, ps_parent = None, ps_key = ''k'',
     ps_start_event = None, ps_end_event = None, ps_started = 0, ps_ended = Some (9 * minute), ps_source = dropped_event,
     ps_presentation_name = [], ps_content_name = [], ps_duration = Some 540000, ps_result = ''completed'', ps_failure = [],
     ps_metadata = [], ps_type = ''presentation'', ps_terminal = None\<rparr>"


section \<open>Sessions that end before they start\<close>

text \<open>
  \<open>startPlaybackSession\<close> closes the running sessions at the time of the new start even if they started later, so a start
  that arrives late leaves a session that ends before it starts; in a judgement it counts as negative playing time.
\<close>

definition running_session :: playback_session where
  "running_session = whole_session\<lparr>ps_started := 10 * minute, ps_ended := None, ps_result := ''playing'', ps_duration := None\<rparr>"

definition late_start :: activity_event where
  "late_start = dropped_event\<lparr>ae_type := ''presentation.started'', ae_occurred := 5 * minute, ae_session := ''new''\<rparr>"

lemma late_start_inverts:
  "map (\<lambda>p. (ps_started p, ps_ended p, clipped 0 (20 * minute) (ps_started p) (ps_ended p)))
     (close_incompatible (UUID ''s'') late_start [running_session]) = [(10 * minute, Some (5 * minute), - 5 * minute)]"
proof -
  have f: "ps_screen running_session = UUID ''s''" "ps_ended running_session = None" "ps_key running_session = ''k''"
    "ps_started running_session = 10 * minute" "ae_type late_start = ''presentation.started''" "ae_session late_start = ''new''"
    "ae_occurred late_start = 5 * minute"
    by (simp_all add: running_session_def whole_session_def late_start_def)
  have t: "canonical_type ''presentation.started'' = ''presentation.started''" by (simp add: canonical_type_def event_aliases_def)
  show ?thesis
    by (simp add: close_incompatible_def f t session_key_def close_session_def clipped_def clipped_end_def micros_def
        minute_def second_def)
qed

end
