(* ===== verification/Roles.thy ===== *)
theory Roles
  imports GoNet
begin

text \<open>
  Roles and capabilities (\<open>auth/capabilities.go\<close>, \<open>auth/roles.go\<close>): the closed vocabulary, the built-in
  roles, what a role key resolves to, what one account may grant another, and the operations on
  custom roles over the tables \<open>roles\<close>, \<open>role_capabilities\<close> and \<open>users\<close> with their constraints.
  A \<open>CapabilitySet\<close> is a set of capability keys. A transaction that fails leaves the tables as
  they were. \<open>CreateRole\<close> looks for a free key in a loop that nothing in the code bounds, so it is a
  partial function; \<open>create_role_returns\<close> shows that it always returns.
\<close>

section \<open>The vocabulary\<close>

type_synonym capability_key = string

record capability_definition =
  cd_key :: capability_key
  cd_group :: string
  cd_requires :: "capability_key list"
  cd_reserved :: bool
  cd_delegable :: bool

definition plain_capability :: "string \<Rightarrow> string \<Rightarrow> capability_key list \<Rightarrow> capability_definition" where
  "plain_capability key gr requires =
     \<lparr>cd_key = key, cd_group = gr, cd_requires = requires, cd_reserved = False, cd_delegable = True\<rparr>"

definition reserved :: "string \<Rightarrow> string \<Rightarrow> capability_definition" where
  "reserved key gr =
     \<lparr>cd_key = key, cd_group = gr, cd_requires = [], cd_reserved = True, cd_delegable = False\<rparr>"

definition access_administration :: "string \<Rightarrow> capability_definition" where
  "access_administration key =
     \<lparr>cd_key = key, cd_group = ''administration'', cd_requires = [], cd_reserved = False, cd_delegable = False\<rparr>"

definition capability_catalog :: "capability_definition list" where
  "capability_catalog =
    [plain_capability ''media.read'' ''media'' [],
     plain_capability ''media.upload'' ''media'' [''media.read''],
     plain_capability ''media.edit'' ''media'' [''media.read''],
     plain_capability ''media.organize'' ''media'' [''media.read''],
     plain_capability ''media.tags.assign'' ''media'' [''media.read''],
     plain_capability ''media.archive'' ''media'' [''media.read''],
     plain_capability ''media.delete'' ''media'' [''media.read''],
     plain_capability ''media.folders.manage'' ''media'' [''media.read''],
     plain_capability ''media.tags.manage'' ''media'' [''media.read''],
     plain_capability ''media.collections.manage'' ''media'' [''media.read''],
     plain_capability ''widget.read'' ''widgets'' [],
     plain_capability ''widget.edit'' ''widgets'' [''widget.read''],
     plain_capability ''widget.delete'' ''widgets'' [''widget.read''],
     plain_capability ''datasource.read'' ''dataSources'' [],
     plain_capability ''datasource.edit'' ''dataSources'' [''datasource.read''],
     plain_capability ''datasource.manage'' ''dataSources'' [''datasource.read''],
     plain_capability ''playlist.read'' ''playlists'' [],
     plain_capability ''playlist.edit'' ''playlists'' [''playlist.read''],
     plain_capability ''playlist.publish'' ''playlists'' [''playlist.read''],
     plain_capability ''playlist.delete'' ''playlists'' [''playlist.read''],
     plain_capability ''layout.read'' ''layouts'' [],
     plain_capability ''layout.edit'' ''layouts'' [''layout.read''],
     plain_capability ''layout.publish'' ''layouts'' [''layout.read''],
     plain_capability ''layout.delete'' ''layouts'' [''layout.read''],
     plain_capability ''campaign.read'' ''campaigns'' [],
     plain_capability ''campaign.edit'' ''campaigns'' [''campaign.read''],
     plain_capability ''campaign.publish'' ''campaigns'' [''campaign.read''],
     plain_capability ''content.review'' ''review'' [],
     plain_capability ''screen.read'' ''screens'' [],
     plain_capability ''screen.manage'' ''screens'' [''screen.read''],
     plain_capability ''screen.pair'' ''screens'' [''screen.read''],
     plain_capability ''screen.assign'' ''screens'' [''screen.read''],
     plain_capability ''screen.locations.manage'' ''screens'' [''screen.manage''],
     plain_capability ''screen.networks.manage'' ''screens'' [''screen.manage''],
     plain_capability ''schedule.read'' ''schedules'' [],
     plain_capability ''schedule.edit'' ''schedules'' [''schedule.read''],
     plain_capability ''activity.read'' ''activity'' [],
     plain_capability ''activity.audit'' ''activity'' [''activity.read''],
     plain_capability ''activity.manage'' ''activity'' [''activity.read'', ''activity.audit''],
     plain_capability ''plugins.use'' ''plugins'' [],
     plain_capability ''plugins.manage'' ''plugins'' [''plugins.use''],
     access_administration ''users.manage'',
     access_administration ''roles.manage'',
     plain_capability ''settings.manage'' ''administration'' [],
     plain_capability ''system.manage'' ''administration'' [],
     reserved ''system.backups'' ''administration'',
     reserved ''integrations.manage'' ''administration'',
     reserved ''player.releases'' ''administration'']"

definition lookup_capability :: "string \<Rightarrow> capability_definition option" where
  "lookup_capability key = find (\<lambda>d. cd_key d = key) capability_catalog"

definition known_capability :: "string \<Rightarrow> bool" where
  "known_capability key \<longleftrightarrow> lookup_capability key \<noteq> None"

section \<open>Capability sets\<close>

definition new_capability_set :: "capability_key list \<Rightarrow> capability_key set" where
  "new_capability_set values = set (filter known_capability values)"

definition set_contains :: "capability_key set \<Rightarrow> capability_key set \<Rightarrow> bool" where
  "set_contains s other \<longleftrightarrow> (\<forall>c\<in>other. c \<in> s)"

definition requires_of :: "capability_key \<Rightarrow> capability_key list" where
  "requires_of c = (case lookup_capability c of None \<Rightarrow> [] | Some d \<Rightarrow> cd_requires d)"

definition sorted_capabilities :: "capability_key set \<Rightarrow> capability_key list" where
  "sorted_capabilities s = sorted_list_of_set s"

definition missing_requirements :: "capability_key set \<Rightarrow> string list" where
  "missing_requirements s =
     concat (map (\<lambda>c. map (\<lambda>r. c @ '' needs '' @ r) (filter (\<lambda>r. r \<notin> s) (requires_of c)))
       (sorted_capabilities s))"

section \<open>Built-in roles\<close>

definition builtin_role_keys :: "string list" where
  "builtin_role_keys = [''owner'', ''administrator'', ''editor'', ''contributor'', ''viewer'']"

definition viewer_capabilities :: "capability_key list" where
  "viewer_capabilities =
     [''media.read'', ''widget.read'', ''datasource.read'', ''playlist.read'', ''layout.read'',
     ''campaign.read'', ''screen.read'', ''schedule.read'', ''activity.read'', ''plugins.use'']"

definition contributor_capabilities :: "capability_key list" where
  "contributor_capabilities = viewer_capabilities @
     [''media.upload'', ''media.edit'', ''media.organize'', ''media.tags.assign'',
     ''media.tags.manage'', ''media.folders.manage'', ''media.collections.manage'', ''widget.edit'',
     ''datasource.edit'', ''playlist.edit'', ''layout.edit'']"

definition editor_capabilities :: "capability_key list" where
  "editor_capabilities = contributor_capabilities @
     [''media.archive'', ''media.delete'', ''widget.delete'', ''datasource.manage'',
     ''playlist.publish'', ''playlist.delete'', ''layout.publish'', ''layout.delete'',
     ''campaign.edit'', ''content.review'', ''activity.audit'']"

definition builtin_capabilities :: "string \<Rightarrow> capability_key set option" where
  "builtin_capabilities role =
     (if role = ''owner'' then Some (set (map cd_key capability_catalog))
      else if role = ''administrator''
        then Some (set (map cd_key (filter (\<lambda>d. \<not> cd_reserved d) capability_catalog)))
      else if role = ''editor'' then Some (new_capability_set editor_capabilities)
      else if role = ''contributor'' then Some (new_capability_set contributor_capabilities)
      else if role = ''viewer'' then Some (new_capability_set viewer_capabilities)
      else None)"

definition is_builtin_role :: "string \<Rightarrow> bool" where
  "is_builtin_role key \<longleftrightarrow> builtin_capabilities key \<noteq> None"

definition is_custom_role_key :: "string \<Rightarrow> bool" where
  "is_custom_role_key key \<longleftrightarrow> has_prefix key ''custom.'' \<and> length ''custom.'' < length key"

section \<open>Tables\<close>

record user_row =
  u_id :: uuid
  u_name :: string
  u_username :: string
  u_password :: string
  u_role :: string
  u_active :: bool
  u_created :: int
  u_last_login :: "int option"

record role_row =
  ro_key :: string
  ro_name :: string
  ro_description :: string
  ro_builtin :: bool
  ro_sort :: int
  ro_created_by :: "uuid option"
  ro_created :: int
  ro_updated :: int

record role_db =
  rd_roles :: "role_row list"
  rd_caps :: "(string \<times> capability_key) list"
  rd_users :: "user_row list"
  rd_audit :: "(string \<times> string \<times> capability_key list) list"

datatype role_error =
    NameLength | DescriptionLength | NameBuiltin
  | UnknownCapability string | ReservedCapability string | MissingRequirements "string list"
  | RoleNotFound | RoleProtected | RoleInUse | RoleNameTaken | Delegation | Database

text \<open>The role as the API returns it.\<close>

record role_view =
  rv_key :: string
  rv_name :: string
  rv_description :: string
  rv_builtin :: bool
  rv_capabilities :: "capability_key list"
  rv_user_count :: nat
  rv_created :: int
  rv_updated :: int

definition resolve_capabilities :: "role_db \<Rightarrow> string \<Rightarrow> capability_key set" where
  "resolve_capabilities db role =
     (case builtin_capabilities role of
        Some s \<Rightarrow> s
      | None \<Rightarrow>
          if \<not> is_custom_role_key role then {}
          else Set.filter (\<lambda>c. case lookup_capability c of None \<Rightarrow> False | Some d \<Rightarrow> \<not> cd_reserved d)
            (new_capability_set (map snd (filter (\<lambda>(k, c). k = role) (rd_caps db)))))"

definition role_named :: "role_db \<Rightarrow> string \<Rightarrow> role_row option" where
  "role_named db key = find (\<lambda>r. ro_key r = key) (rd_roles db)"

definition role_view_of :: "role_db \<Rightarrow> role_row \<Rightarrow> role_view" where
  "role_view_of db r =
     \<lparr>rv_key = ro_key r, rv_name = ro_name r, rv_description = ro_description r, rv_builtin = ro_builtin r,
      rv_capabilities = sorted_capabilities (resolve_capabilities db (ro_key r)),
      rv_user_count = length (filter (\<lambda>u. u_role u = ro_key r \<and> u_active u) (rd_users db)),
      rv_created = ro_created r, rv_updated = ro_updated r\<rparr>"

definition get_role :: "role_db \<Rightarrow> string \<Rightarrow> role_error + role_view" where
  "get_role db key =
     (case role_named db key of None \<Rightarrow> Inl RoleNotFound | Some r \<Rightarrow> Inr (role_view_of db r))"

definition listed_before :: "(string \<Rightarrow> string) \<Rightarrow> role_row \<Rightarrow> role_row \<Rightarrow> bool" where
  "listed_before sql_lower a b \<longleftrightarrow>
     (\<not> ro_builtin a, ro_sort a, sql_lower (ro_name a), ro_key a)
       < (\<not> ro_builtin b, ro_sort b, sql_lower (ro_name b), ro_key b)"

definition list_roles :: "(string \<Rightarrow> string) \<Rightarrow> role_db \<Rightarrow> role_view list" where
  "list_roles sql_lower db = map (role_view_of db) (sort_by (listed_before sql_lower) (rd_roles db))"

section \<open>Delegation\<close>

record delegator =
  dg_user :: uuid
  dg_role :: string
  dg_capabilities :: "capability_key set"

definition delegable :: "capability_key \<Rightarrow> bool" where
  "delegable c \<longleftrightarrow> (case lookup_capability c of None \<Rightarrow> False | Some d \<Rightarrow> cd_delegable d)"

definition can_delegate :: "delegator \<Rightarrow> capability_key set \<Rightarrow> bool" where
  "can_delegate d s \<longleftrightarrow> dg_role d = ''owner'' \<or> (\<forall>c\<in>s. delegable c \<and> c \<in> dg_capabilities d)"

definition can_assign_role :: "delegator \<Rightarrow> string \<Rightarrow> capability_key set \<Rightarrow> bool" where
  "can_assign_role d role capabilities \<longleftrightarrow>
     dg_role d = ''owner'' \<or>
     (role \<noteq> ''owner'' \<and> role \<noteq> ''administrator'' \<and> can_delegate d capabilities)"

section \<open>Custom roles\<close>

record role_input =
  in_name :: string
  in_description :: string
  in_capabilities :: "string list"

text \<open>
  \<open>strings.EqualFold\<close> against an ASCII word: ASCII case, and the two other characters that fold to an
  ASCII letter (long s, U+017F, and the Kelvin sign, U+212A).
\<close>

fun simple_fold :: "string \<Rightarrow> string" where
  "simple_fold [] = []"
| "simple_fold (c # cs) =
     (if (of_char c :: nat) = 197 \<and> map of_char (take 1 cs) = [191 :: nat] then CHR ''s'' # simple_fold (drop 1 cs)
      else if (of_char c :: nat) = 226 \<and> map of_char (take 2 cs) = [132, 170 :: nat] then CHR ''k'' # simple_fold (drop 2 cs)
      else lower_ascii c # simple_fold cs)"

definition equal_fold :: "string \<Rightarrow> string \<Rightarrow> bool" where
  "equal_fold name word \<longleftrightarrow> simple_fold name = word"

fun collect_capabilities :: "string list \<Rightarrow> capability_key set \<Rightarrow> role_error + capability_key set" where
  "collect_capabilities [] s = Inr s"
| "collect_capabilities (raw # raws) s =
     (case lookup_capability raw of
        None \<Rightarrow> Inl (UnknownCapability raw)
      | Some d \<Rightarrow>
          if cd_reserved d then Inl (ReservedCapability raw)
          else collect_capabilities raws (insert (cd_key d) s))"

definition normalize_role_input :: "role_input \<Rightarrow> role_error + string \<times> string \<times> capability_key set" where
  "normalize_role_input input =
     (let name = trim_space (in_name input); description = trim_space (in_description input) in
      andthen (check (2 \<le> length name \<and> length name \<le> 60) NameLength) (\<lambda>_.
      andthen (check (length description \<le> 280) DescriptionLength) (\<lambda>_.
      andthen (check (\<not> list_ex (equal_fold name) builtin_role_keys) NameBuiltin) (\<lambda>_.
      andthen (collect_capabilities (in_capabilities input) {}) (\<lambda>s.
      andthen (check (missing_requirements s = []) (MissingRequirements (missing_requirements s))) (\<lambda>_.
      Inr (name, description, s)))))))"

subsection \<open>Keys\<close>

definition key_char :: "char \<Rightarrow> bool" where
  "key_char c \<longleftrightarrow> alpha_lower c \<or> numeric c"

text \<open>\<open>roleKeyCleaner.ReplaceAllString(s, "-")\<close>: every run of other characters becomes one dash.\<close>

function clean_key :: "string \<Rightarrow> string" where
  "clean_key [] = []"
| "clean_key (c # cs) =
     (if key_char c then c # clean_key cs
      else CHR ''-'' # clean_key (dropWhile (\<lambda>x. \<not> key_char x) cs))"
  by pat_completeness auto
termination
  by (relation "measure length") (auto simp: length_dropWhile_le le_imp_less_Suc)

definition trim_dashes :: "string \<Rightarrow> string" where
  "trim_dashes s = rev (dropWhile (\<lambda>c. c = CHR ''-'') (rev (dropWhile (\<lambda>c. c = CHR ''-'') s)))"

definition base_key :: "(string \<Rightarrow> string) \<Rightarrow> string \<Rightarrow> string" where
  "base_key lw name =
     (let b = trim_dashes (clean_key (to_lower lw name));
          b = (if b = [] then ''role'' else b)
      in if 40 < length b then trim_dashes (take 40 b) else b)"

definition key_taken :: "role_db \<Rightarrow> string \<Rightarrow> bool" where
  "key_taken db key \<longleftrightarrow> list_ex (\<lambda>r. ro_key r = key) (rd_roles db)"

text \<open>The loop over suffixes, which ends only at a free key.\<close>

partial_function (option) search_key :: "role_db \<Rightarrow> string \<Rightarrow> nat \<Rightarrow> string \<Rightarrow> string option" where
  "search_key db base suffix key =
     (if \<not> key_taken db key then Some key
      else search_key db base (suffix + 1) (''custom.'' @ base @ ''-'' @ nat_str suffix))"

subsection \<open>Constraints\<close>

text \<open>Characters of UTF-8 text, \<open>btrim\<close>, and the constraints of the table \<open>roles\<close>.\<close>

definition char_count :: "string \<Rightarrow> nat" where
  "char_count s = length (filter (\<lambda>c. \<not> continuation (of_char c)) s)"

definition btrim :: "string \<Rightarrow> string" where
  "btrim s = rev (dropWhile (\<lambda>c. c = CHR '' '') (rev (dropWhile (\<lambda>c. c = CHR '' '') s)))"

definition role_key_ok :: "string \<Rightarrow> bool" where
  "role_key_ok key \<longleftrightarrow>
     (case key of [] \<Rightarrow> False
      | c # cs \<Rightarrow> alpha_lower c \<and> 1 \<le> length cs \<and> length cs \<le> 63
          \<and> list_all (\<lambda>x. key_char x \<or> x = CHR ''.'' \<or> x = CHR ''-'') cs)"

definition role_text_ok :: "string \<Rightarrow> string \<Rightarrow> bool" where
  "role_text_ok name description \<longleftrightarrow>
     text_ok name \<and> text_ok description \<and> 2 \<le> char_count (btrim name) \<and> char_count (btrim name) \<le> 60
     \<and> char_count description \<le> 280"

definition role_row_ok :: "role_row \<Rightarrow> bool" where
  "role_row_ok r \<longleftrightarrow> role_key_ok (ro_key r) \<and> role_text_ok (ro_name r) (ro_description r)
     \<and> (ro_builtin r \<or> has_prefix (ro_key r) ''custom.'')"

definition name_taken :: "(string \<Rightarrow> string) \<Rightarrow> role_db \<Rightarrow> string \<Rightarrow> string \<Rightarrow> bool" where
  "name_taken sql_lower db name except \<longleftrightarrow>
     list_ex (\<lambda>r. sql_lower (ro_name r) = sql_lower name \<and> ro_key r \<noteq> except) (rd_roles db)"

definition ensure_role_name_free ::
  "(string \<Rightarrow> string) \<Rightarrow> role_db \<Rightarrow> string \<Rightarrow> string \<Rightarrow> role_error + unit" where
  "ensure_role_name_free sql_lower db name except =
     andthen (check (text_ok name) Database) (\<lambda>_.
     check (\<not> name_taken sql_lower db name except) RoleNameTaken)"

definition write_role_capabilities :: "string \<Rightarrow> capability_key set \<Rightarrow> role_db \<Rightarrow> role_db" where
  "write_role_capabilities key s db =
     db\<lparr>rd_caps := rd_caps db @ map (Pair key) (sorted_capabilities s)\<rparr>"

definition record_role :: "string \<Rightarrow> string \<Rightarrow> capability_key set \<Rightarrow> role_db \<Rightarrow> role_db" where
  "record_role action key s db = db\<lparr>rd_audit := rd_audit db @ [(action, key, sorted_capabilities s)]\<rparr>"

subsection \<open>Operations\<close>

definition new_role :: "delegator \<Rightarrow> int \<Rightarrow> string \<Rightarrow> string \<Rightarrow> string \<Rightarrow> role_row" where
  "new_role d now key name description =
     \<lparr>ro_key = key, ro_name = name, ro_description = description, ro_builtin = False, ro_sort = 1000,
      ro_created_by = Some (dg_user d), ro_created = now, ro_updated = now\<rparr>"

definition insert_role :: "delegator \<Rightarrow> int \<Rightarrow> string \<Rightarrow> string \<Rightarrow> string \<Rightarrow> capability_key set \<Rightarrow> role_db \<Rightarrow> role_error + role_db" where
  "insert_role d now key name description s db =
     andthen (check (role_row_ok (new_role d now key name description)) Database) (\<lambda>_.
     Inr (record_role ''role.created'' key s
       (write_role_capabilities key s (db\<lparr>rd_roles := rd_roles db @ [new_role d now key name description]\<rparr>))))"

text \<open>\<open>None\<close>: the call does not return.\<close>

definition create_role ::
  "(string \<Rightarrow> string) \<Rightarrow> (string \<Rightarrow> string) \<Rightarrow> delegator \<Rightarrow> int \<Rightarrow> role_input \<Rightarrow> role_db \<Rightarrow> (role_error + role_view \<times> role_db) option" where
  "create_role lw sql_lower d now input db =
     (case andthen (normalize_role_input input) (\<lambda>(name, description, s).
           andthen (check (can_delegate d s) Delegation) (\<lambda>_.
           andthen (ensure_role_name_free sql_lower db name []) (\<lambda>_. Inr (name, description, s)))) of
        Inl e \<Rightarrow> Some (Inl e)
      | Inr (name, description, s) \<Rightarrow>
          map_option (\<lambda>key.
            andthen (insert_role d now key name description s db) (\<lambda>db'.
            andthen (get_role db' key) (\<lambda>view. Inr (view, db'))))
            (search_key db (base_key lw name) 2 (''custom.'' @ base_key lw name)))"

definition custom_row :: "role_db \<Rightarrow> string \<Rightarrow> role_error + role_row" where
  "custom_row db key =
     andthen (check (\<not> is_builtin_role key) RoleProtected) (\<lambda>_.
     case role_named db key of
       None \<Rightarrow> Inl RoleNotFound
     | Some r \<Rightarrow> if ro_builtin r then Inl RoleProtected else Inr r)"

definition set_role :: "int \<Rightarrow> string \<Rightarrow> string \<Rightarrow> string \<Rightarrow> role_db \<Rightarrow> role_db" where
  "set_role now key name description db =
     db\<lparr>rd_roles := map (\<lambda>r. if ro_key r = key
        then r\<lparr>ro_name := name, ro_description := description, ro_updated := now\<rparr> else r) (rd_roles db)\<rparr>"

definition clear_role_capabilities :: "string \<Rightarrow> role_db \<Rightarrow> role_db" where
  "clear_role_capabilities key db = db\<lparr>rd_caps := filter (\<lambda>(k, c). k \<noteq> key) (rd_caps db)\<rparr>"

definition update_role ::
  "(string \<Rightarrow> string) \<Rightarrow> delegator \<Rightarrow> int \<Rightarrow> string \<Rightarrow> role_input \<Rightarrow> role_db \<Rightarrow> role_error + role_view \<times> role_db" where
  "update_role sql_lower d now key input db =
     andthen (check (\<not> is_builtin_role key) RoleProtected) (\<lambda>_.
     andthen (normalize_role_input input) (\<lambda>(name, description, s).
     andthen (custom_row db key) (\<lambda>_.
     andthen (check (can_delegate d (resolve_capabilities db key) \<and> can_delegate d s) Delegation) (\<lambda>_.
     andthen (ensure_role_name_free sql_lower db name key) (\<lambda>_.
     andthen (check (role_text_ok name description) Database) (\<lambda>_.
       let db' = record_role ''role.updated'' key s (write_role_capabilities key s
                   (clear_role_capabilities key (set_role now key name description db)))
       in andthen (get_role db' key) (\<lambda>view. Inr (view, db'))))))))"

definition delete_role :: "delegator \<Rightarrow> string \<Rightarrow> role_db \<Rightarrow> role_error + role_db" where
  "delete_role d key db =
     andthen (custom_row db key) (\<lambda>_.
     andthen (check (can_delegate d (resolve_capabilities db key)) Delegation) (\<lambda>_.
     andthen (check (\<not> list_ex (\<lambda>u. u_role u = key) (rd_users db)) RoleInUse) (\<lambda>_.
     Inr (record_role ''role.deleted'' key (resolve_capabilities db key)
       (clear_role_capabilities key (db\<lparr>rd_roles := filter (\<lambda>r. ro_key r \<noteq> key) (rd_roles db)\<rparr>))))))"

section \<open>The vocabulary is consistent\<close>

lemma catalog_keys: "distinct (map cd_key capability_catalog)"
  by code_simp

lemma reserved_not_delegable:
  "list_all (\<lambda>d. cd_reserved d \<longrightarrow> \<not> cd_delegable d) capability_catalog"
  by code_simp

lemma requirements_known:
  "list_all (\<lambda>d. list_all (\<lambda>r. known_capability r \<and> r \<noteq> cd_key d) (cd_requires d)) capability_catalog"
  by code_simp

lemma lookup_in: "lookup_capability k = Some d \<Longrightarrow> d \<in> set capability_catalog \<and> cd_key d = k"
  by (auto simp: lookup_capability_def find_Some_iff)

lemma lookup_key: "d \<in> set capability_catalog \<Longrightarrow> lookup_capability (cd_key d) = Some d"
proof -
  assume d: "d \<in> set capability_catalog"
  then obtain d' where f: "lookup_capability (cd_key d) = Some d'"
    by (cases "lookup_capability (cd_key d)") (auto simp: lookup_capability_def find_None_iff)
  from lookup_in [OF f] d catalog_keys have "d' = d" by (auto simp: distinct_map dest: inj_onD)
  with f show ?thesis by simp
qed

lemma builtin_keys: "is_builtin_role k \<longleftrightarrow> k \<in> set builtin_role_keys"
  by (auto simp: is_builtin_role_def builtin_capabilities_def builtin_role_keys_def)

lemma custom_not_builtin: "is_custom_role_key k \<Longrightarrow> \<not> is_builtin_role k"
  by (auto simp: is_custom_role_key_def builtin_keys builtin_role_keys_def has_prefix_def)

text \<open>A set of capabilities that a custom role may hold: known, not reserved, with their requirements.\<close>

definition grantable_set :: "capability_key set \<Rightarrow> bool" where
  "grantable_set s \<longleftrightarrow> (\<forall>c\<in>s. \<exists>d. lookup_capability c = Some d \<and> \<not> cd_reserved d \<and> set (cd_requires d) \<subseteq> s)"

lemma grantable_finite: "grantable_set s \<Longrightarrow> finite s"
proof -
  assume "grantable_set s"
  then have "s \<subseteq> set (map cd_key capability_catalog)"
    by (auto simp: grantable_set_def dest!: bspec lookup_in)
  then show ?thesis by (rule finite_subset) simp
qed

lemma no_missing_requirements:
  assumes "finite s"
  shows "missing_requirements s = [] \<longleftrightarrow> (\<forall>c\<in>s. set (requires_of c) \<subseteq> s)"
  using assms by (auto simp: missing_requirements_def sorted_capabilities_def filter_empty_conv)

lemma collect_capabilities_Inr:
  "collect_capabilities raws s0 = Inr s \<longleftrightarrow>
     s = s0 \<union> set raws \<and> (\<forall>c\<in>set raws. \<exists>d. lookup_capability c = Some d \<and> \<not> cd_reserved d)"
  by (induction raws arbitrary: s0) (auto split: option.splits dest: lookup_in)

lemma normalize_role_input_Inr:
  assumes "normalize_role_input input = Inr (name, description, s)"
  shows "s = set (in_capabilities input)" and "grantable_set s"
    and "2 \<le> length name" and "length name \<le> 60" and "length description \<le> 280"
    and "name = trim_space (in_name input)" and "description = trim_space (in_description input)"
    and "\<not> list_ex (equal_fold name) builtin_role_keys"
proof -
  from assms have c: "collect_capabilities (in_capabilities input) {} = Inr s"
    and m: "missing_requirements s = []"
    by (auto simp: normalize_role_input_def Let_def)
  from c have s: "s = set (in_capabilities input)"
    and l: "\<forall>c\<in>s. \<exists>d. lookup_capability c = Some d \<and> \<not> cd_reserved d"
    by (auto simp: collect_capabilities_Inr)
  then have "\<forall>c\<in>s. set (requires_of c) \<subseteq> s" using m by (simp add: no_missing_requirements)
  with l show "grantable_set s" by (fastforce simp: grantable_set_def requires_of_def)
  show "s = set (in_capabilities input)" by (rule s)
qed (use assms in \<open>auto simp: normalize_role_input_def Let_def\<close>)

section \<open>The tables\<close>

definition caps_of :: "role_db \<Rightarrow> string \<Rightarrow> capability_key set" where
  "caps_of db key = {c. (key, c) \<in> set (rd_caps db)}"

definition role_rows_ok :: "(string \<Rightarrow> string) \<Rightarrow> role_row list \<Rightarrow> bool" where
  "role_rows_ok sql_lower rs \<longleftrightarrow>
     distinct (map ro_key rs) \<and> distinct (map (\<lambda>r. sql_lower (ro_name r)) rs)
     \<and> (\<forall>r\<in>set rs. role_row_ok r)
     \<and> (\<forall>r\<in>set rs. if ro_builtin r then is_builtin_role (ro_key r) else is_custom_role_key (ro_key r))
     \<and> set builtin_role_keys \<subseteq> ro_key ` set rs"

definition roles_ok :: "(string \<Rightarrow> string) \<Rightarrow> role_db \<Rightarrow> bool" where
  "roles_ok sql_lower db \<longleftrightarrow>
     role_rows_ok sql_lower (rd_roles db) \<and> distinct (rd_caps db)
     \<and> fst ` set (rd_caps db) \<subseteq> ro_key ` {r \<in> set (rd_roles db). \<not> ro_builtin r}
     \<and> (\<forall>k. grantable_set (caps_of db k))
     \<and> u_role ` set (rd_users db) \<subseteq> ro_key ` set (rd_roles db)"

lemma roles_okD:
  assumes "roles_ok sql_lower db"
  shows "distinct (map ro_key (rd_roles db))" and "r \<in> set (rd_roles db) \<Longrightarrow> role_row_ok r"
    and "(k, c) \<in> set (rd_caps db) \<Longrightarrow> \<exists>r\<in>set (rd_roles db). ro_key r = k \<and> \<not> ro_builtin r"
    and "r \<in> set (rd_roles db) \<Longrightarrow> \<not> ro_builtin r \<Longrightarrow> is_custom_role_key (ro_key r)"
    and "r \<in> set (rd_roles db) \<Longrightarrow> ro_builtin r \<Longrightarrow> is_builtin_role (ro_key r)"
    and "grantable_set (caps_of db k)"
    and "u \<in> set (rd_users db) \<Longrightarrow> u_role u \<in> ro_key ` set (rd_roles db)"
  using assms unfolding roles_ok_def role_rows_ok_def by (force dest: bspec split: if_splits)+

lemma resolve_builtin: "builtin_capabilities k = Some s \<Longrightarrow> resolve_capabilities db k = s"
  by (simp add: resolve_capabilities_def)

lemma resolve_custom:
  assumes "roles_ok sql_lower db" and "\<not> is_builtin_role k"
  shows "resolve_capabilities db k = caps_of db k"
proof (cases "is_custom_role_key k")
  case True
  have "\<forall>c\<in>caps_of db k. \<exists>d. lookup_capability c = Some d \<and> \<not> cd_reserved d"
    using roles_okD(6) [OF assms(1)] unfolding grantable_set_def by blast
  with assms(2) True show ?thesis
    by (auto simp: resolve_capabilities_def is_builtin_role_def new_capability_set_def known_capability_def caps_of_def
        image_iff split: option.splits)
next
  case False
  then have "caps_of db k = {}"
    using roles_okD(3,4) [OF assms(1)] by (fastforce simp: caps_of_def)
  with False assms(2) show ?thesis by (simp add: resolve_capabilities_def is_builtin_role_def)
qed

section \<open>Creating a role always returns\<close>

lemma nat_str_nonempty [simp]: "nat_str n \<noteq> []" "[] \<noteq> nat_str n"
  by (subst nat_str.simps, simp)+

lemma nat_str_inj: "nat_str m = nat_str n \<Longrightarrow> m = n"
proof (induction m arbitrary: n rule: nat_str.induct)
  case (1 m)
  have d: "digit_char a = digit_char b \<Longrightarrow> a < 10 \<Longrightarrow> b < 10 \<Longrightarrow> a = b" for a b
    by (metis digit_char_props(2) of_nat_eq_iff)
  show ?case
  proof (cases "m < 10"; cases "n < 10")
    assume mn: "\<not> m < 10" "\<not> n < 10"
    with "1.prems" have "nat_str (m div 10) = nat_str (n div 10)" "digit_char (m mod 10) = digit_char (n mod 10)"
      by (simp_all add: nat_str.simps [of m] nat_str.simps [of n])
    with "1.IH" mn d have "m div 10 = n div 10" "m mod 10 = n mod 10" by auto
    then show ?thesis by (metis div_mult_mod_eq)
  qed (use "1.prems" d in \<open>auto simp: nat_str.simps [of m] nat_str.simps [of n]\<close>)
qed

lemma length_nat_str: "n < 10 ^ k \<Longrightarrow> 0 < k \<Longrightarrow> length (nat_str n) \<le> k"
proof (induction k arbitrary: n)
  case (Suc k)
  then show ?case
    by (cases "n < 10"; cases k) (auto simp: nat_str.simps [of n] div_less_iff_less_mult mult.commute)
qed simp

definition suffixed :: "string \<Rightarrow> nat \<Rightarrow> string" where
  "suffixed base n = ''custom.'' @ base @ ''-'' @ nat_str n"

lemma suffixed_inj: "inj (suffixed base)"
  by (auto simp: inj_def suffixed_def dest: nat_str_inj)

lemma some_suffix_free:
  "\<exists>n \<le> suffix + length (rd_roles db). suffix \<le> n \<and> \<not> key_taken db (suffixed base n)"
proof (rule ccontr)
  assume none: "\<not> ?thesis"
  let ?ns = "{suffix..suffix + length (rd_roles db)}"
  from none have "suffixed base ` ?ns \<subseteq> set (map ro_key (rd_roles db))"
    by (auto simp: key_taken_def list_ex_iff image_iff) (metis le_add_same_cancel1)
  from card_mono [OF _ this] have "card (suffixed base ` ?ns) \<le> length (rd_roles db)"
    by (metis List.finite_set card_length length_map le_trans)
  moreover have "card (suffixed base ` ?ns) = Suc (length (rd_roles db))"
    using card_image [OF inj_on_subset [OF suffixed_inj [of base] subset_UNIV], of ?ns] by simp
  ultimately show False by simp
qed

lemma search_key_step:
  "search_key db base suffix key =
     (if key_taken db key then search_key db base (Suc suffix) (suffixed base suffix) else Some key)"
  by (simp add: search_key.simps [of db base suffix key] suffixed_def)

lemma search_key_finds:
  assumes "suffix \<le> n" and "\<not> key_taken db (suffixed base n)"
  shows "\<exists>k. search_key db base suffix key = Some k \<and> \<not> key_taken db k
    \<and> (k = key \<or> (\<exists>j. suffix \<le> j \<and> j \<le> n \<and> k = suffixed base j))"
  using assms
proof (induction "n - suffix" arbitrary: suffix key)
  case 0
  then have n: "suffix = n" by simp
  show ?case
    by (cases "key_taken db key")
      (use 0 n in \<open>auto simp: search_key_step [of db base n key] search_key_step [of db base "Suc n"]\<close>)
next
  case (Suc m)
  then have "m = n - Suc suffix" "Suc suffix \<le> n" by simp_all
  from Suc.hyps(1) [OF this Suc.prems(2), of "suffixed base suffix"] Suc.prems(1) show ?case
    by (cases "key_taken db key") (auto simp: search_key_step [of db base suffix key] intro: Suc_leD)
qed

lemma search_key_returns:
  "\<exists>k. search_key db base 2 key = Some k \<and> \<not> key_taken db k
    \<and> (k = key \<or> (\<exists>n. 2 \<le> n \<and> n \<le> 2 + length (rd_roles db) \<and> k = suffixed base n))"
proof -
  obtain n where "n \<le> 2 + length (rd_roles db)" "2 \<le> n" "\<not> key_taken db (suffixed base n)"
    using some_suffix_free by blast
  from search_key_finds [OF this(2,3), of key] this(1) show ?thesis by (auto intro: le_trans)
qed

text \<open>The keys that are tried keep the constraint of the column.\<close>

lemma clean_key_chars: "list_all (\<lambda>c. key_char c \<or> c = CHR ''-'') (clean_key s)"
  by (induction s rule: clean_key.induct) auto

lemma trim_dashes_subset: "set (trim_dashes s) \<subseteq> set s"
  by (auto simp: trim_dashes_def dest!: set_dropWhileD)

lemma trim_dashes_length: "length (trim_dashes s) \<le> length s"
  by (simp add: trim_dashes_def) (metis le_trans length_dropWhile_le length_rev)

lemma trim_dashes_head: "trim_dashes s \<noteq> [] \<Longrightarrow> hd (trim_dashes s) \<noteq> CHR ''-''"
proof -
  assume ne: "trim_dashes s \<noteq> []"
  let ?u = "dropWhile (\<lambda>c. c = CHR ''-'') s"
  obtain v where "?u = trim_dashes s @ v"
    by (metis rev_append rev_rev_ident takeWhile_dropWhile_id trim_dashes_def)
  with ne have "hd (trim_dashes s) = hd ?u" "?u \<noteq> []" by auto
  then show ?thesis by (metis (full_types) hd_dropWhile)
qed

lemma trim_dashes_nonempty: "x \<noteq> CHR ''-'' \<Longrightarrow> x \<in> set s \<Longrightarrow> trim_dashes s \<noteq> []"
proof -
  assume x: "x \<noteq> CHR ''-''" "x \<in> set s"
  then have "hd (dropWhile (\<lambda>c. c = CHR ''-'') s) \<noteq> CHR ''-''" "dropWhile (\<lambda>c. c = CHR ''-'') s \<noteq> []"
    using hd_dropWhile [of "\<lambda>c. c = CHR ''-''" s] by (auto simp: dropWhile_eq_Nil_conv)
  then show ?thesis by (auto simp: trim_dashes_def dropWhile_eq_Nil_conv intro!: bexI [OF _ hd_in_set])
qed

lemma base_key_ok:
  "base_key lw name \<noteq> [] \<and> length (base_key lw name) \<le> 40
    \<and> list_all (\<lambda>c. key_char c \<or> c = CHR ''-'') (base_key lw name)"
proof -
  define c where "c = trim_dashes (clean_key (to_lower lw name))"
  define b where "b = (if c = [] then ''role'' else c)"
  have base: "base_key lw name = (if 40 < length b then trim_dashes (take 40 b) else b)"
    by (simp add: base_key_def b_def c_def Let_def)
  have cc: "list_all (\<lambda>c. key_char c \<or> c = CHR ''-'') c"
    using clean_key_chars trim_dashes_subset by (fastforce simp: list_all_iff c_def)
  have "key_char (CHR ''r'')" "key_char (CHR ''o'')" "key_char (CHR ''l'')" "key_char (CHR ''e'')"
    by (simp_all add: key_char_def alpha_lower_def)
  with cc have chars: "list_all (\<lambda>c. key_char c \<or> c = CHR ''-'') b" by (simp add: b_def)
  have ne: "b \<noteq> []" "hd b \<noteq> CHR ''-''"
    using trim_dashes_head [of "clean_key (to_lower lw name)"] by (auto simp: b_def c_def)
  have "hd b \<in> set (take 40 b)" using ne(1) by (cases b) auto
  then have "trim_dashes (take 40 b) \<noteq> []" using ne(2) by (blast dest: trim_dashes_nonempty)
  moreover have "length (trim_dashes (take 40 b)) \<le> 40"
    using trim_dashes_length [of "take 40 b"] by simp
  moreover have "set (trim_dashes (take 40 b)) \<subseteq> set b"
    using trim_dashes_subset [of "take 40 b"] set_take_subset by fastforce
  ultimately show ?thesis using chars ne(1) by (auto simp: base list_all_iff)
qed

section \<open>What the operations do to the tables\<close>

lemma grantable_empty [simp]: "grantable_set {}"
  by (simp add: grantable_set_def)

lemma caps_of_record [simp]: "caps_of (record_role a k s db) = caps_of db"
  by (simp add: record_role_def caps_of_def fun_eq_iff)

lemma caps_of_roles [simp]: "caps_of (db\<lparr>rd_roles := rs\<rparr>) = caps_of db"
  by (simp add: caps_of_def fun_eq_iff)

lemma caps_of_set_role [simp]: "caps_of (set_role now key name description db) = caps_of db"
  by (simp add: set_role_def)

lemma caps_of_write [simp]:
  "finite s \<Longrightarrow> caps_of (write_role_capabilities key s db) = (caps_of db)(key := caps_of db key \<union> s)"
  by (auto simp: write_role_capabilities_def caps_of_def fun_eq_iff sorted_capabilities_def)

lemma caps_of_clear [simp]: "caps_of (clear_role_capabilities key db) = (caps_of db)(key := {})"
  by (auto simp: clear_role_capabilities_def caps_of_def fun_eq_iff)

lemma no_row_no_caps:
  assumes "roles_ok sql_lower db" and "\<not> key_taken db key"
  shows "caps_of db key = {}"
  using assms(2) roles_okD(3) [OF assms(1)] by (fastforce simp: caps_of_def key_taken_def list_ex_iff)

lemma distinct_map_set:
  "distinct (map key xs) \<Longrightarrow> distinct (map f xs) \<Longrightarrow> \<forall>x\<in>set xs. key x \<noteq> k \<longrightarrow> f x \<noteq> v
    \<Longrightarrow> distinct (map (\<lambda>x. if key x = k then v else f x) xs)"
  by (induction xs) (auto simp: image_iff split: if_splits)

lemma distinct_map_Pair [simp]: "distinct (map (Pair k) ys) \<longleftrightarrow> distinct ys"
  by (simp add: distinct_map inj_on_def)

lemma distinct_pairs: "distinct (xs @ map (Pair k) ys) \<longleftrightarrow> distinct xs \<and> distinct ys \<and> (\<forall>y\<in>set ys. (k, y) \<notin> set xs)"
  by auto

lemma role_key_nonempty: "role_row_ok r \<Longrightarrow> ro_key r \<noteq> []"
  by (auto simp: role_row_ok_def role_key_ok_def)

lemma insert_role_effect:
  assumes ok: "roles_ok sql_lower db" and free: "\<not> key_taken db key" "\<not> name_taken sql_lower db name []"
    and key: "is_custom_role_key key" and s: "grantable_set s"
    and ins: "insert_role d now key name description s db = Inr db'"
  shows "roles_ok sql_lower db'" and "caps_of db' = (caps_of db)(key := s)" and "rd_users db' = rd_users db"
    and "\<exists>r. rd_roles db' = rd_roles db @ [r] \<and> ro_key r = key \<and> ro_name r = name \<and> ro_description r = description"
proof -
  note fin = grantable_finite [OF s]
  obtain r where r: "role_row_ok r" "ro_key r = key" "ro_name r = name" "ro_description r = description" "\<not> ro_builtin r"
    and db': "db' = record_role ''role.created'' key s
      (write_role_capabilities key s (db\<lparr>rd_roles := rd_roles db @ [r]\<rparr>))"
    using ins by (intro that [of "new_role d now key name description"]) (auto simp: insert_role_def new_role_def)
  show c: "caps_of db' = (caps_of db)(key := s)"
    using fin no_row_no_caps [OF ok free(1)] by (simp add: db')
  have rows: "rd_roles db' = rd_roles db @ [r]" and users: "rd_users db' = rd_users db"
    and caps: "rd_caps db' = rd_caps db @ map (Pair key) (sorted_capabilities s)"
    by (simp_all add: db' record_role_def write_role_capabilities_def)
  show "rd_users db' = rd_users db" by (rule users)
  show "\<exists>r. rd_roles db' = rd_roles db @ [r] \<and> ro_key r = key \<and> ro_name r = name \<and> ro_description r = description"
    using rows r by blast
  have "key \<notin> ro_key ` set (rd_roles db)" using free(1) by (auto simp: key_taken_def list_ex_iff)
  moreover have "sql_lower name \<notin> (\<lambda>r. sql_lower (ro_name r)) ` set (rd_roles db)"
    using free(2) role_key_nonempty roles_okD(2) [OF ok] by (fastforce simp: name_taken_def list_ex_iff)
  ultimately have "role_rows_ok sql_lower (rd_roles db')"
    using ok r key by (auto simp: roles_ok_def role_rows_ok_def rows)
  moreover have "distinct (rd_caps db')"
    using no_row_no_caps [OF ok free(1)] ok fin
    by (auto simp: caps distinct_pairs caps_of_def roles_ok_def sorted_capabilities_def)
  moreover have "fst ` set (rd_caps db') \<subseteq> ro_key ` {r \<in> set (rd_roles db'). \<not> ro_builtin r}"
    using ok r by (auto simp: caps rows roles_ok_def)
  ultimately show "roles_ok sql_lower db'"
    using roles_okD(6,7) [OF ok] s by (auto simp: roles_ok_def c users rows)
qed

lemma custom_row_Inr:
  assumes "custom_row db key = Inr r"
  shows "\<not> is_builtin_role key" and "r \<in> set (rd_roles db)" and "ro_key r = key" and "\<not> ro_builtin r"
  using assms by (auto simp: custom_row_def role_named_def find_Some_iff split: option.splits if_splits)

lemma set_role_rows:
  "rd_roles (set_role now key name description db) =
     map (\<lambda>r. if ro_key r = key then r\<lparr>ro_name := name, ro_description := description, ro_updated := now\<rparr> else r)
       (rd_roles db)"
  by (simp add: set_role_def)

lemma set_role_keys: "map ro_key (rd_roles (set_role now key name description db)) = map ro_key (rd_roles db)"
  by (simp add: set_role_rows)

lemma set_role_custom_keys:
  "map ro_key (filter (\<lambda>r. \<not> ro_builtin r) (rd_roles (set_role now key name description db)))
     = map ro_key (filter (\<lambda>r. \<not> ro_builtin r) (rd_roles db))"
proof -
  have "map ro_key (filter (\<lambda>r. \<not> ro_builtin r) (map (\<lambda>r. if ro_key r = key
      then r\<lparr>ro_name := name, ro_description := description, ro_updated := now\<rparr> else r) rs))
    = map ro_key (filter (\<lambda>r. \<not> ro_builtin r) rs)" for rs
    by (induction rs) auto
  then show ?thesis by (simp only: set_role_rows)
qed

lemma set_role_rows_ok:
  assumes ok: "role_rows_ok sql_lower rs"
    and free: "\<forall>r\<in>set rs. ro_key r \<noteq> key \<longrightarrow> sql_lower (ro_name r) \<noteq> sql_lower name"
    and t: "role_text_ok name description"
  shows "role_rows_ok sql_lower (map (\<lambda>r. if ro_key r = key
    then r\<lparr>ro_name := name, ro_description := description, ro_updated := now\<rparr> else r) rs)" (is "role_rows_ok _ (map ?f rs)")
proof -
  have k: "ro_key (?f r) = ro_key r" "ro_builtin (?f r) = ro_builtin r" for r by simp_all
  have n: "sql_lower (ro_name (?f r)) = (if ro_key r = key then sql_lower name else sql_lower (ro_name r))" for r
    by simp
  have "distinct (map (\<lambda>r. if ro_key r = key then sql_lower name else sql_lower (ro_name r)) rs)"
    by (rule distinct_map_set) (use ok free in \<open>auto simp: role_rows_ok_def\<close>)
  moreover have "role_row_ok (?f r)" if "role_row_ok r" for r
    using that t by (auto simp: role_row_ok_def)
  ultimately show ?thesis using ok
    unfolding role_rows_ok_def list.map_comp o_def n k list.set_map image_image ball_simps by simp
qed

lemma update_role_effect:
  assumes ok: "roles_ok sql_lower db" and upd: "update_role sql_lower d now key input db = Inr (view, db')"
  shows "roles_ok sql_lower db'" and "rd_users db' = rd_users db"
    and "caps_of db' = (caps_of db)(key := set (in_capabilities input))"
    and "\<not> is_builtin_role key" and "can_delegate d (caps_of db key)" and "can_delegate d (set (in_capabilities input))"
    and "get_role db' key = Inr view"
proof -
  from upd obtain name description s r where b: "\<not> is_builtin_role key"
    and n: "normalize_role_input input = Inr (name, description, s)" and r: "custom_row db key = Inr r"
    and dg: "can_delegate d (resolve_capabilities db key)" "can_delegate d s"
    and free: "\<not> name_taken sql_lower db name key" and t: "role_text_ok name description"
    and db': "db' = record_role ''role.updated'' key s (write_role_capabilities key s
                   (clear_role_capabilities key (set_role now key name description db)))"
    and v: "get_role db' key = Inr view"
    by (auto simp: update_role_def ensure_role_name_free_def Let_def)
  note s = normalize_role_input_Inr(1) [OF n] and g = normalize_role_input_Inr(2) [OF n]
  note fin = grantable_finite [OF g]
  show c: "caps_of db' = (caps_of db)(key := set (in_capabilities input))"
    using fin by (simp add: db' flip: s)
  show users: "rd_users db' = rd_users db"
    by (simp add: db' record_role_def write_role_capabilities_def clear_role_capabilities_def set_role_def)
  have rows: "rd_roles db' = rd_roles (set_role now key name description db)"
    by (simp add: db' record_role_def write_role_capabilities_def clear_role_capabilities_def)
  have caps: "rd_caps db' = filter (\<lambda>(k, c). k \<noteq> key) (rd_caps db) @ map (Pair key) (sorted_capabilities s)"
    by (simp add: db' record_role_def write_role_capabilities_def clear_role_capabilities_def set_role_def)
  have keys: "ro_key ` set (rd_roles db') = ro_key ` set (rd_roles db)"
    using arg_cong [OF set_role_keys, of set] by (simp add: rows)
  have custom: "ro_key ` {r \<in> set (rd_roles db'). \<not> ro_builtin r} = ro_key ` {r \<in> set (rd_roles db). \<not> ro_builtin r}"
    using arg_cong [OF set_role_custom_keys, of set] by (simp add: rows)
  have "role_rows_ok sql_lower (rd_roles db')"
    unfolding rows set_role_rows
    by (rule set_role_rows_ok [OF _ _ t]) (use ok free in \<open>auto simp: roles_ok_def name_taken_def list_ex_iff\<close>)
  moreover have "distinct (rd_caps db')" using ok fin by (auto simp: caps roles_ok_def sorted_capabilities_def)
  moreover have "fst ` set (rd_caps db') \<subseteq> ro_key ` {r \<in> set (rd_roles db'). \<not> ro_builtin r}"
    using ok custom_row_Inr [OF r] unfolding custom by (auto simp: caps roles_ok_def)
  ultimately show "roles_ok sql_lower db'"
    using ok g roles_okD(6) [OF ok] by (auto simp: roles_ok_def c users keys s [symmetric])
  show "can_delegate d (caps_of db key)" using dg(1) resolve_custom [OF ok b] by simp
  show "can_delegate d (set (in_capabilities input))" using dg(2) s by simp
  show "\<not> is_builtin_role key" by (rule b)
  show "get_role db' key = Inr view" by (rule v)
qed

lemma delete_role_effect:
  assumes ok: "roles_ok sql_lower db" and del: "delete_role d key db = Inr db'"
  shows "roles_ok sql_lower db'" and "rd_users db' = rd_users db" and "caps_of db' = (caps_of db)(key := {})"
    and "\<not> is_builtin_role key" and "can_delegate d (caps_of db key)"
    and "rd_roles db' = filter (\<lambda>r. ro_key r \<noteq> key) (rd_roles db)"
proof -
  from del obtain r where r: "custom_row db key = Inr r"
    and dg: "can_delegate d (resolve_capabilities db key)"
    and unused: "\<forall>u\<in>set (rd_users db). u_role u \<noteq> key"
    and db': "db' = record_role ''role.deleted'' key (resolve_capabilities db key)
       (clear_role_capabilities key (db\<lparr>rd_roles := filter (\<lambda>r. ro_key r \<noteq> key) (rd_roles db)\<rparr>))"
    by (auto simp: delete_role_def list_ex_iff)
  note b = custom_row_Inr [OF r]
  show c: "caps_of db' = (caps_of db)(key := {})" by (simp add: db')
  show rows: "rd_roles db' = filter (\<lambda>r. ro_key r \<noteq> key) (rd_roles db)"
    and users: "rd_users db' = rd_users db"
    by (simp_all add: db' record_role_def clear_role_capabilities_def)
  have caps: "rd_caps db' = filter (\<lambda>(k, c). k \<noteq> key) (rd_caps db)"
    by (simp add: db' record_role_def clear_role_capabilities_def)
  have "role_rows_ok sql_lower (rd_roles db')"
    using ok b(1) by (auto simp: rows roles_ok_def role_rows_ok_def distinct_map_filter builtin_keys)
  moreover have "fst ` set (rd_caps db') \<subseteq> ro_key ` {r \<in> set (rd_roles db'). \<not> ro_builtin r}"
    using roles_okD(3) [OF ok] by (fastforce simp: caps rows)
  ultimately show "roles_ok sql_lower db'"
    using ok roles_okD(6,7) [OF ok] unused by (fastforce simp: roles_ok_def c users caps rows)
  show "can_delegate d (caps_of db key)" using dg resolve_custom [OF ok b(1)] by simp
  show "\<not> is_builtin_role key" by (rule b(1))
qed

section \<open>What Studio is told\<close>

text \<open>
  A role with whether the caller may change and assign it (\<open>roleView\<close>), the vocabulary with what the caller
  may put into a role, and the HTTP answer of a refusal.
\<close>

record shown_role =
  sr_role :: role_view
  sr_editable :: bool
  sr_assignable :: bool

definition show_role :: "delegator \<Rightarrow> role_view \<Rightarrow> shown_role" where
  "show_role d v =
     (let s = new_capability_set (rv_capabilities v)
      in \<lparr>sr_role = v,
          sr_editable = (\<not> rv_builtin v \<and> ''roles.manage'' \<in> dg_capabilities d \<and> can_delegate d s),
          sr_assignable = (''users.manage'' \<in> dg_capabilities d \<and> can_assign_role d (rv_key v) s)\<rparr>)"

definition list_capabilities :: "delegator \<Rightarrow> (capability_definition \<times> bool) list" where
  "list_capabilities d =
     map (\<lambda>c. (c, \<not> cd_reserved c \<and> can_delegate d (new_capability_set [cd_key c]))) capability_catalog"

definition role_refusal :: "role_error \<Rightarrow> nat \<times> string" where
  "role_refusal e =
     (case e of
        RoleNotFound \<Rightarrow> (404, ''role_not_found'') | RoleProtected \<Rightarrow> (409, ''role_protected'')
      | RoleInUse \<Rightarrow> (409, ''role_in_use'') | RoleNameTaken \<Rightarrow> (409, ''role_name_taken'')
      | Delegation \<Rightarrow> (403, ''role_delegation'') | Database \<Rightarrow> (500, ''internal_error'')
      | _ \<Rightarrow> (422, ''validation_failed''))"

lemma resolve_known: "resolve_capabilities db k \<subseteq> set (map cd_key capability_catalog)"
proof -
  have known: "known_capability c \<Longrightarrow> c \<in> set (map cd_key capability_catalog)" for c
    using lookup_in by (fastforce simp: known_capability_def)
  have "s \<subseteq> set (map cd_key capability_catalog)" if "builtin_capabilities k = Some s" for s
    using that known by (auto simp: builtin_capabilities_def new_capability_set_def split: if_splits)
  with known show ?thesis
    by (auto simp: resolve_capabilities_def new_capability_set_def split: option.splits)
qed

lemma shown_capabilities:
  assumes "get_role db key = Inr v"
  shows "new_capability_set (rv_capabilities v) = resolve_capabilities db key"
proof -
  obtain r where "ro_key r = key" "v = role_view_of db r"
    using assms by (auto simp: get_role_def role_named_def find_Some_iff split: option.splits)
  moreover have "finite (resolve_capabilities db key)" by (rule finite_subset [OF resolve_known]) simp
  moreover have "known_capability c" if "c \<in> resolve_capabilities db key" for c
    using that resolve_known [of db key] lookup_key by (fastforce simp: known_capability_def)
  ultimately show ?thesis
    by (auto simp: role_view_of_def new_capability_set_def sorted_capabilities_def)
qed

text \<open>
  The flag \<open>editable\<close> is true exactly where an update with the same capabilities would not be refused
  for want of authority.
\<close>

lemma editable_exact:
  assumes "get_role db key = Inr v" and "\<not> rv_builtin v"
  shows "sr_editable (show_role d v) \<longleftrightarrow> ''roles.manage'' \<in> dg_capabilities d \<and> can_delegate d (resolve_capabilities db key)"
  using assms(2) by (simp add: show_role_def Let_def shown_capabilities [OF assms(1)])

text \<open>One request about roles, by an actor; \<open>None\<close> would be a request that never ends.\<close>

datatype role_op = CreateRole role_input | UpdateRole string role_input | DeleteRole string

definition run_role_op ::
  "(string \<Rightarrow> string) \<Rightarrow> (string \<Rightarrow> string) \<Rightarrow> delegator \<Rightarrow> int \<Rightarrow> role_op \<Rightarrow> role_db \<Rightarrow> (role_error + role_db) option" where
  "run_role_op lw sql_lower d now op db =
     (case op of
        CreateRole input \<Rightarrow> map_option (\<lambda>r. andthen r (\<lambda>(view, db'). Inr db')) (create_role lw sql_lower d now input db)
      | UpdateRole key input \<Rightarrow> Some (andthen (update_role sql_lower d now key input db) (\<lambda>(view, db'). Inr db'))
      | DeleteRole key \<Rightarrow> Some (delete_role d key db))"

lemma free_key_custom:
  assumes "search_key db (base_key lw name) 2 (''custom.'' @ base_key lw name) = Some k"
  shows "\<not> key_taken db k" and "is_custom_role_key k"
proof -
  from search_key_returns [of db "base_key lw name" "''custom.'' @ base_key lw name"] assms
  have k: "\<not> key_taken db k" "k = ''custom.'' @ base_key lw name \<or> (\<exists>n. k = suffixed (base_key lw name) n)"
    by auto
  then show "\<not> key_taken db k" by simp
  from k(2) base_key_ok [of lw name] show "is_custom_role_key k"
    by (auto simp: is_custom_role_key_def has_prefix_def suffixed_def)
qed

lemma create_role_effect:
  assumes ok: "roles_ok sql_lower db" and new: "create_role lw sql_lower d now input db = Some (Inr (view, db'))"
  shows "\<exists>key. \<not> key_taken db key \<and> is_custom_role_key key \<and> get_role db' key = Inr view
    \<and> roles_ok sql_lower db' \<and> rd_users db' = rd_users db
    \<and> caps_of db' = (caps_of db)(key := set (in_capabilities input)) \<and> can_delegate d (set (in_capabilities input))"
proof -
  from new obtain name description s key where n: "normalize_role_input input = Inr (name, description, s)"
    and dg: "can_delegate d s" and free: "\<not> name_taken sql_lower db name []"
    and k: "search_key db (base_key lw name) 2 (''custom.'' @ base_key lw name) = Some key"
    and ins: "insert_role d now key name description s db = Inr db'" and v: "get_role db' key = Inr view"
    by (auto simp: create_role_def ensure_role_name_free_def split: sum.splits)
  note key = free_key_custom [OF k] and s = normalize_role_input_Inr(1,2) [OF n]
  from insert_role_effect [OF ok key(1) free key(2) s(2) ins] key v dg s(1) show ?thesis by blast
qed

lemma role_op_effect:
  assumes ok: "roles_ok sql_lower db" and run: "run_role_op lw sql_lower d now op db = Some (Inr db')"
  shows "roles_ok sql_lower db' \<and> rd_users db' = rd_users db
    \<and> (\<exists>key s. \<not> is_builtin_role key \<and> caps_of db' = (caps_of db)(key := s)
         \<and> can_delegate d (caps_of db key) \<and> can_delegate d s)"
proof (cases op)
  case (CreateRole input)
  with run obtain view where "create_role lw sql_lower d now input db = Some (Inr (view, db'))"
    by (auto simp: run_role_op_def)
  from create_role_effect [OF ok this] obtain key where
    k: "\<not> key_taken db key" "is_custom_role_key key" "roles_ok sql_lower db'" "rd_users db' = rd_users db"
      "caps_of db' = (caps_of db)(key := set (in_capabilities input))" "can_delegate d (set (in_capabilities input))"
    by blast
  have "can_delegate d (caps_of db key)" by (simp add: no_row_no_caps [OF ok k(1)] can_delegate_def)
  with k custom_not_builtin [OF k(2)] show ?thesis by blast
next
  case (UpdateRole key input)
  with run obtain view where "update_role sql_lower d now key input db = Inr (view, db')"
    by (auto simp: run_role_op_def)
  from update_role_effect [OF ok this] show ?thesis by blast
next
  case (DeleteRole key)
  with run have "delete_role d key db = Inr db'" by (auto simp: run_role_op_def)
  moreover have "can_delegate d {}" by (simp add: can_delegate_def)
  ultimately show ?thesis using delete_role_effect [OF ok, of d key db'] by blast
qed

text \<open>The keys that the search tries satisfy the constraint of the column.\<close>

lemma nat_str_numeric: "list_all numeric (nat_str n)"
proof (induction n rule: nat_str.induct)
  case (1 n)
  have "numeric (digit_char k)" if "k < 10" for k
    using digit_less_10 [OF that] by (elim disjE; simp add: digit_char_def numeric_def)
  with 1 show ?case by (simp add: nat_str.simps [of n])
qed

lemma tried_key_ok:
  assumes "k = ''custom.'' @ base_key lw name \<or> (\<exists>n < 10 ^ 16. k = suffixed (base_key lw name) n)"
  shows "role_key_ok k"
proof -
  have b: "base_key lw name \<noteq> []" "length (base_key lw name) \<le> 40"
    and c: "list_all (\<lambda>c. key_char c \<or> c = CHR ''.'' \<or> c = CHR ''-'') (base_key lw name)"
    using base_key_ok [of lw name] by (auto simp: list_all_iff)
  have p: "list_all (\<lambda>c. key_char c \<or> c = CHR ''.'' \<or> c = CHR ''-'') ''ustom.''" "alpha_lower (CHR ''c'')"
    by (simp_all add: key_char_def alpha_lower_def)
  have d: "list_all (\<lambda>c. key_char c \<or> c = CHR ''.'' \<or> c = CHR ''-'') (nat_str n)" for n
    using nat_str_numeric [of n] by (auto simp: list_all_iff key_char_def)
  show ?thesis using assms
  proof (elim disjE exE conjE)
    fix n :: nat assume n: "n < 10 ^ 16" "k = suffixed (base_key lw name) n"
    from n(1) have "length (nat_str n) \<le> 16" by (rule length_nat_str) simp
    with n(2) b c p d show ?thesis by (simp add: role_key_ok_def suffixed_def)
  qed (use b c p in \<open>simp add: role_key_ok_def Suc_le_eq\<close>)
qed

lemma get_inserted_role:
  assumes "insert_role d now key name description s db = Inr db'" and "\<not> key_taken db key"
  shows "\<exists>view. get_role db' key = Inr view \<and> rv_key view = key"
proof -
  have "rd_roles db' = rd_roles db @ [new_role d now key name description]"
    using assms(1) by (auto simp: insert_role_def record_role_def write_role_capabilities_def)
  moreover have "ro_key (new_role d now key name description) = key" by (simp add: new_role_def)
  ultimately obtain r where r: "ro_key r = key" "rd_roles db' = rd_roles db @ [r]" by blast
  then have "role_named db' key \<noteq> None" by (auto simp: role_named_def find_None_iff)
  then obtain r' where r': "role_named db' key = Some r'" by auto
  then have "ro_key r' = key" by (auto simp: role_named_def find_Some_iff)
  with r' show ?thesis by (simp add: get_role_def role_view_of_def)
qed

text \<open>What only an Owner hands out: the administration of access, and what is reserved for the Owner.\<close>

definition access_capabilities :: "capability_key set" where
  "access_capabilities =
     {''users.manage'', ''roles.manage'', ''system.backups'', ''integrations.manage'', ''player.releases''}"

lemma access_not_delegable: "c \<in> access_capabilities \<Longrightarrow> \<not> delegable c"
proof -
  have "\<not> delegable ''users.manage''" "\<not> delegable ''roles.manage''" "\<not> delegable ''system.backups''"
    "\<not> delegable ''integrations.manage''" "\<not> delegable ''player.releases''"
    by code_simp+
  then show "c \<in> access_capabilities \<Longrightarrow> \<not> delegable c"
    unfolding access_capabilities_def by blast
qed

section \<open>Properties\<close>

definition seeded_roles :: "role_row list" where
  "seeded_roles =
     map (\<lambda>(n, key, name). \<lparr>ro_key = key, ro_name = name, ro_description = [], ro_builtin = True, ro_sort = n,
            ro_created_by = None, ro_created = 0, ro_updated = 0\<rparr>)
       [(0, ''owner'', ''Owner''), (1, ''administrator'', ''Administrator''), (2, ''editor'', ''Editor''),
        (3, ''contributor'', ''Contributor''), (4, ''viewer'', ''Viewer'')]"

definition seeded_db :: role_db where
  "seeded_db = \<lparr>rd_roles = seeded_roles, rd_caps = [], rd_users = [], rd_audit = []\<rparr>"

lemma seeded_checks:
  "list_all role_row_ok seeded_roles"
  "map ro_key seeded_roles = builtin_role_keys"
  "map (\<lambda>r. map lower_ascii (ro_name r)) seeded_roles = builtin_role_keys"
  "list_all ro_builtin seeded_roles" "distinct builtin_role_keys"
  by code_simp+

lemma seeded_rows: "role_rows_ok (map lower_ascii) seeded_roles"
proof -
  have "is_builtin_role (ro_key r)" if "r \<in> set seeded_roles" for r
    using that unfolding builtin_keys seeded_checks(2) [symmetric] by simp
  moreover have "set builtin_role_keys \<subseteq> ro_key ` set seeded_roles"
    unfolding seeded_checks(2) [symmetric] by simp
  ultimately show ?thesis
    using seeded_checks(1,4) unfolding role_rows_ok_def seeded_checks(2,3) by (simp add: list_all_iff seeded_checks(5))
qed

lemma seeded_ok: "roles_ok (map lower_ascii) seeded_db"
  by (simp add: roles_ok_def seeded_db_def caps_of_def seeded_rows)

lemma create_role_total: "\<exists>r. create_role lw sql_lower d now input db = Some r"
proof -
  have "\<exists>k. search_key db (base_key lw name) 2 (''custom.'' @ base_key lw name) = Some k" for name
    using search_key_returns by blast
  then show ?thesis by (fastforce simp: create_role_def split: sum.splits)
qed

lemma create_role_succeeds:
  assumes ok: "roles_ok sql_lower db" and n: "normalize_role_input input = Inr (name, description, s)"
    and dg: "can_delegate d s" and name: "\<not> name_taken sql_lower db name []"
    and t: "role_text_ok name description" and len: "length (rd_roles db) < 10 ^ 15"
  shows "\<exists>view db'. create_role lw sql_lower d now input db = Some (Inr (view, db'))
    \<and> (rv_key view = ''custom.'' @ base_key lw name
        \<or> (\<exists>n. 2 \<le> n \<and> n \<le> 2 + length (rd_roles db)
                \<and> rv_key view = ''custom.'' @ base_key lw name @ ''-'' @ nat_str n))
    \<and> \<not> key_taken db (rv_key view) \<and> role_key_ok (rv_key view)
    \<and> resolve_capabilities db' (rv_key view) = set (in_capabilities input)
    \<and> get_role db' (rv_key view) = Inr view"
proof -
  obtain key where k: "search_key db (base_key lw name) 2 (''custom.'' @ base_key lw name) = Some key"
    and free: "\<not> key_taken db key"
    and tried: "key = ''custom.'' @ base_key lw name
      \<or> (\<exists>n. 2 \<le> n \<and> n \<le> 2 + length (rd_roles db) \<and> key = suffixed (base_key lw name) n)"
    using search_key_returns by blast
  have "n < 10 ^ 16" if "n \<le> 2 + length (rd_roles db)" for n using that len by simp
  with tried have key: "role_key_ok key" by (intro tried_key_ok [of _ lw name]) auto
  then obtain db' where ins: "insert_role d now key name description s db = Inr db'"
    using t free_key_custom(2) [OF k]
    by (auto simp: insert_role_def new_role_def role_row_ok_def is_custom_role_key_def)
  obtain view where v: "get_role db' key = Inr view" "rv_key view = key"
    using get_inserted_role [OF ins free] by blast
  have new: "create_role lw sql_lower d now input db = Some (Inr (view, db'))"
    using n dg name t k ins v by (simp add: create_role_def ensure_role_name_free_def role_text_ok_def)
  note s = normalize_role_input_Inr(1,2) [OF n]
  note eff = insert_role_effect [OF ok free name free_key_custom(2) [OF k] s(2) ins]
  have "resolve_capabilities db' key = set (in_capabilities input)"
    using resolve_custom [OF eff(1) custom_not_builtin [OF free_key_custom(2) [OF k]]] eff(2) s(1) by simp
  with new v free key tried show ?thesis by (auto simp: suffixed_def)
qed

text \<open>
  C33. Creating a role always returns: whatever the table holds, the search for a free key ends after at
  most as many attempts as there are roles. A request that passes the checks (input, authority, a name no
  other role has, text that the columns accept) succeeds, its key is \<open>custom.\<close> followed by the base with
  the first number, if any, that makes it free, it satisfies the constraint of the key column as long as
  there are fewer than \<open>10^15\<close> roles, and the role resolves to exactly the capabilities of the request.
\<close>

theorem create_role_returns:
  "(\<exists>r. create_role lw sql_lower d now input db = Some r)
   \<and> (roles_ok sql_lower db \<and> normalize_role_input input = Inr (name, description, s) \<and> can_delegate d s
      \<and> \<not> name_taken sql_lower db name [] \<and> role_text_ok name description \<and> length (rd_roles db) < 10 ^ 15
      \<longrightarrow> (\<exists>view db'. create_role lw sql_lower d now input db = Some (Inr (view, db'))
            \<and> (rv_key view = ''custom.'' @ base_key lw name
                \<or> (\<exists>n. 2 \<le> n \<and> n \<le> 2 + length (rd_roles db)
                        \<and> rv_key view = ''custom.'' @ base_key lw name @ ''-'' @ nat_str n))
            \<and> \<not> key_taken db (rv_key view) \<and> role_key_ok (rv_key view)
            \<and> resolve_capabilities db' (rv_key view) = set (in_capabilities input)
            \<and> get_role db' (rv_key view) = Inr view))"
  using create_role_total create_role_succeeds by blast

definition example_owner :: delegator where
  "example_owner = \<lparr>dg_user = uuid_nil, dg_role = ''owner'', dg_capabilities = {}\<rparr>"

definition reception_input :: role_input where
  "reception_input = \<lparr>in_name = ''Reception'', in_description = [], in_capabilities = [''media.upload'', ''media.read'']\<rparr>"

text \<open>A role of a name whose key is taken gets the suffix 2.\<close>

definition reception_db :: role_db where
  "reception_db = seeded_db\<lparr>rd_roles := seeded_roles @
     [\<lparr>ro_key = ''custom.reception'', ro_name = ''Desk'', ro_description = [], ro_builtin = False,
       ro_sort = 1000, ro_created_by = Some uuid_nil, ro_created = 0, ro_updated = 0\<rparr>],
     rd_audit := [(''role.created'', ''custom.reception'', [])]\<rparr>"

lemma reception_ok: "roles_ok (map lower_ascii) reception_db"
proof -
  have "\<not> key_taken seeded_db ''custom.reception''" "\<not> name_taken (map lower_ascii) seeded_db ''Desk'' []"
    "is_custom_role_key ''custom.reception''"
    and "insert_role example_owner 0 ''custom.reception'' ''Desk'' [] {} seeded_db = Inr reception_db"
    by code_simp+
  from insert_role_effect(1) [OF seeded_ok this(1-3) grantable_empty this(4)] show ?thesis .
qed

lemma reception_collected:
  "collect_capabilities [''media.upload'', ''media.read''] {} = Inr {''media.read'', ''media.upload''}"
  "missing_requirements {''media.read'', ''media.upload''} = []"
  by code_simp+

lemma reception_normal:
  "normalize_role_input reception_input = Inr (''Reception'', [], {''media.read'', ''media.upload''})"
proof -
  have "trim_space ''Reception'' = ''Reception''" "trim_space [] = []"
    by (simp_all add: trim_space_graphic graphic_def)
  moreover have "\<not> list_ex (equal_fold ''Reception'') builtin_role_keys" by code_simp
  ultimately show ?thesis by (simp add: normalize_role_input_def reception_input_def Let_def reception_collected
      del: collect_capabilities.simps)
qed

lemma reception_checks:
  "\<not> name_taken (map lower_ascii) reception_db ''Reception'' []" "role_text_ok ''Reception'' []"
  "length (rd_roles reception_db) < 10 ^ 15" "key_taken reception_db ''custom.reception''"
     apply code_simp
    apply code_simp
   apply (simp add: reception_db_def seeded_roles_def)
  apply code_simp
  done

lemma create_role_returns_witness:
  "\<exists>view db'. create_role id (map lower_ascii) example_owner 0 reception_input reception_db = Some (Inr (view, db'))
     \<and> rv_key view \<noteq> ''custom.reception''
     \<and> resolve_capabilities db' (rv_key view) = {''media.read'', ''media.upload''}"
proof -
  have "can_delegate example_owner {''media.read'', ''media.upload''}"
    by (simp add: can_delegate_def example_owner_def)
  with create_role_returns [of id "map lower_ascii" example_owner 0 reception_input reception_db "''Reception''" "[]"
      "{''media.read'', ''media.upload''}"] reception_ok reception_normal reception_checks
  obtain view db' where "create_role id (map lower_ascii) example_owner 0 reception_input reception_db = Some (Inr (view, db'))"
    "\<not> key_taken reception_db (rv_key view)"
    "resolve_capabilities db' (rv_key view) = set (in_capabilities reception_input)"
    by blast
  moreover have "set (in_capabilities reception_input) = {''media.read'', ''media.upload''}"
    unfolding reception_input_def role_input.simps by (simp only: list.set insert_commute)
  ultimately show ?thesis using reception_checks(4) by metis
qed

text \<open>
  C4. Nobody but an Owner moves authority it does not hold: when a request about roles by another account
  succeeds, a capability that any role gains or loses by it is held by the account itself, is neither
  reserved for the Owner nor one that administers access, and no built-in role changes; the tables stay
  consistent and no account changes its role.
\<close>

theorem role_grants_bounded:
  assumes "roles_ok sql_lower db" and "run_role_op lw sql_lower d now op db = Some (Inr db')"
    and "dg_role d \<noteq> ''owner''"
  shows "(\<forall>k. resolve_capabilities db' k = resolve_capabilities db k
       \<or> (\<not> is_builtin_role k \<and> resolve_capabilities db k \<union> resolve_capabilities db' k
              \<subseteq> dg_capabilities d - access_capabilities))
     \<and> roles_ok sql_lower db' \<and> rd_users db' = rd_users db"
proof -
  from role_op_effect [OF assms(1,2)] obtain key s where ok: "roles_ok sql_lower db'" "rd_users db' = rd_users db"
    and key: "\<not> is_builtin_role key" and caps: "caps_of db' = (caps_of db)(key := s)"
    and dg: "can_delegate d (caps_of db key)" "can_delegate d s"
    by blast
  have held: "t \<subseteq> dg_capabilities d - access_capabilities" if "can_delegate d t" for t
    using that assms(3) access_not_delegable by (auto simp: can_delegate_def)
  have "resolve_capabilities db' k = resolve_capabilities db k" if "k \<noteq> key" for k
  proof (cases "is_builtin_role k")
    case True
    then show ?thesis by (auto simp: is_builtin_role_def dest: resolve_builtin)
  next
    case False
    with that show ?thesis using resolve_custom [OF assms(1)] resolve_custom [OF ok(1)] caps by simp
  qed
  moreover have "resolve_capabilities db key \<union> resolve_capabilities db' key \<subseteq> dg_capabilities d - access_capabilities"
    using held [OF dg(1)] held [OF dg(2)] resolve_custom [OF assms(1) key] resolve_custom [OF ok(1) key] caps by simp
  ultimately show ?thesis using ok key by metis
qed

definition reception_manager :: delegator where
  "reception_manager = \<lparr>dg_user = uuid_nil, dg_role = ''custom.managers'', dg_capabilities = {''media.read'', ''media.upload''}\<rparr>"

lemma role_grants_bounded_witness:
  "\<exists>db'. run_role_op id (map lower_ascii) reception_manager 0 (CreateRole reception_input) reception_db = Some (Inr db')
     \<and> roles_ok (map lower_ascii) db'
     \<and> (\<forall>k. resolve_capabilities db' k = resolve_capabilities reception_db k
          \<or> resolve_capabilities db' k \<subseteq> {''media.read'', ''media.upload''})"
proof -
  have "delegable ''media.read''" "delegable ''media.upload''" by code_simp+
  then have "can_delegate reception_manager {''media.read'', ''media.upload''}"
    unfolding can_delegate_def reception_manager_def by simp
  from create_role_succeeds [OF reception_ok reception_normal this reception_checks(1-3), of id 0]
  obtain view db' where "create_role id (map lower_ascii) reception_manager 0 reception_input reception_db = Some (Inr (view, db'))"
    by blast
  then have run: "run_role_op id (map lower_ascii) reception_manager 0 (CreateRole reception_input) reception_db = Some (Inr db')"
    by (simp add: run_role_op_def)
  have "dg_role reception_manager \<noteq> ''owner''" by (simp add: reception_manager_def)
  from role_grants_bounded [OF reception_ok run this] run show ?thesis
    unfolding reception_manager_def delegator.simps by blast
qed

section \<open>Names are measured in bytes\<close>

text \<open>
  The bounds of a name are those of the table, but \<open>normalizeRoleInput\<close> counts bytes and the table counts
  characters: the one-letter name U+00E9 passes the validation and fails at the table, and a name of 31
  Cyrillic letters, which the table would take, is refused as longer than 60 characters.
\<close>

definition accented :: string where
  "accented = map char_of [195, 169 :: nat]"

definition cyrillic :: string where
  "cyrillic = concat (replicate 31 (map char_of [208, 176 :: nat]))"

lemma names_counted_in_bytes:
  "length accented = 2" "char_count (btrim accented) = 1" "\<not> role_text_ok accented []"
  "length cyrillic = 62" "role_text_ok cyrillic []"
  by code_simp+

end
