(* ===== verification/ScreenAuthz.thy ===== *)
theory ScreenAuthz
  imports Roles
begin

text \<open>
  Object-level authorization (package \<open>authz\<close>): which screens, Display Groups, schedules, takeovers,
  Quick Presents, AirPlay sessions, update deployments, locations and pairing sessions an account may act
  on. The SQL predicates are functions of the policy tables (\<open>policies\<close>) and of the tables they judge
  (\<open>fleet\<close>), which are separate arguments because a policy is decided again and again against a fleet that
  changes; \<open>NULL\<close> never satisfies a comparison. A database failure is not modelled.
\<close>

section \<open>Tables\<close>

record screen_row =
  sw_id :: uuid
  sw_location :: "uuid option"
  sw_deleted :: bool
  sw_archived :: bool
  sw_installation :: string

record schedule_target =
  st_schedule :: uuid
  st_type :: string
  st_screen :: "uuid option"
  st_group :: "uuid option"

record override_row =
  or_id :: uuid
  or_type :: string
  or_target :: uuid
  or_stopped :: bool

record fleet =
  fl_screens :: "screen_row list"
  fl_groups :: "(uuid \<times> bool) list"
  fl_members :: "(uuid \<times> uuid) list"
  fl_locations :: "uuid list"
  fl_schedules :: "uuid list"
  fl_targets :: "schedule_target list"
  fl_takeovers :: "uuid list"
  fl_takeover_screens :: "(uuid \<times> uuid) list"
  fl_session_screens :: "(uuid \<times> uuid) list"
  fl_update_screens :: "(uuid \<times> uuid) list"
  fl_overrides :: "override_row list"
  fl_pairings :: "(uuid \<times> string) list"

record scope_row =
  sc_user :: uuid
  sc_type :: string
  sc_id :: uuid
  sc_by :: "uuid option"

record policies =
  po_access :: "(uuid \<times> string) list"
  po_scopes :: "scope_row list"
  po_audit :: "(uuid option \<times> uuid \<times> string \<times> nat) list"

section \<open>Actors and access\<close>

record actor =
  ac_user :: uuid
  ac_owner :: bool
  ac_capabilities :: "capability_key set"

definition actor_for :: "delegator \<Rightarrow> actor" where
  "actor_for d = \<lparr>ac_user = dg_user d, ac_owner = (dg_role d = ''owner''), ac_capabilities = dg_capabilities d\<rparr>"

datatype denial =
    Forbidden | NotFound | OutOfScope | Restricted | LocationRequired | UnknownKind | PolicyInvalid | DelegationDenied

record screen_access =
  sa_user :: uuid
  sa_all :: bool
  sa_configured :: bool

definition mode_name :: "screen_access \<Rightarrow> string" where
  "mode_name a = (if sa_all a then ''all'' else ''restricted'')"

definition require :: "actor \<Rightarrow> capability_key list \<Rightarrow> denial + unit" where
  "require a caps =
     andthen (check (ac_user a \<noteq> uuid_nil) Forbidden) (\<lambda>_.
     first_error (\<lambda>c. check (c \<in> ac_capabilities a) Forbidden) caps)"

definition access :: "policies \<Rightarrow> actor \<Rightarrow> screen_access" where
  "access p a =
     (if ac_owner a then \<lparr>sa_user = ac_user a, sa_all = True, sa_configured = True\<rparr>
      else case map_of (po_access p) (ac_user a) of
          None \<Rightarrow> \<lparr>sa_user = ac_user a, sa_all = False, sa_configured = False\<rparr>
        | Some mode \<Rightarrow> \<lparr>sa_user = ac_user a, sa_all = (mode = ''all''), sa_configured = True\<rparr>)"

definition authorize :: "policies \<Rightarrow> actor \<Rightarrow> capability_key list \<Rightarrow> denial + screen_access" where
  "authorize p a caps = andthen (require a caps) (\<lambda>_. Inr (access p a))"

text \<open>The head of every decision: stop on a refusal, allow everything to the whole fleet.\<close>

definition decide ::
  "policies \<Rightarrow> actor \<Rightarrow> capability_key list \<Rightarrow> (screen_access \<Rightarrow> denial + unit) \<Rightarrow> denial + unit" where
  "decide p a caps rest =
     andthen (authorize p a caps) (\<lambda>x. if sa_all x then Inr () else rest x)"

section \<open>Reach predicates\<close>

definition has_grant :: "policies \<Rightarrow> uuid \<Rightarrow> string \<Rightarrow> uuid \<Rightarrow> bool" where
  "has_grant p u kind i \<longleftrightarrow> list_ex (\<lambda>g. sc_user g = u \<and> sc_type g = kind \<and> sc_id g = i) (po_scopes p)"

definition granted_screen :: "policies \<Rightarrow> fleet \<Rightarrow> uuid \<Rightarrow> screen_row \<Rightarrow> bool" where
  "granted_screen p f u s \<longleftrightarrow>
     (case sw_location s of None \<Rightarrow> False | Some l \<Rightarrow> has_grant p u ''location'' l)
     \<or> list_ex (\<lambda>(g, m). m = sw_id s \<and> has_grant p u ''group'' g) (fl_members f)"

text \<open>A row of \<open>screens\<close> with this id that is out of reach.\<close>

definition ungranted :: "policies \<Rightarrow> fleet \<Rightarrow> uuid \<Rightarrow> uuid \<Rightarrow> bool" where
  "ungranted p f u i \<longleftrightarrow> list_ex (\<lambda>x. sw_id x = i \<and> \<not> granted_screen p f u x) (fl_screens f)"

definition granted_peers :: "policies \<Rightarrow> fleet \<Rightarrow> uuid \<Rightarrow> screen_row \<Rightarrow> bool" where
  "granted_peers p f u s \<longleftrightarrow> granted_screen p f u s
     \<and> \<not> list_ex (\<lambda>(g, m). m = sw_id s
            \<and> list_ex (\<lambda>(g', m'). g' = g \<and> ungranted p f u m') (fl_members f)) (fl_members f)"

text \<open>A container: at least one row of its own, and no row whose screen is out of reach.\<close>

definition granted_screen_set :: "policies \<Rightarrow> fleet \<Rightarrow> uuid \<Rightarrow> (uuid \<times> uuid) list \<Rightarrow> uuid \<Rightarrow> bool" where
  "granted_screen_set p f u rows i \<longleftrightarrow>
     list_ex (\<lambda>(k, m). k = i) rows \<and> \<not> list_ex (\<lambda>(k, m). k = i \<and> ungranted p f u m) rows"

definition granted_group :: "policies \<Rightarrow> fleet \<Rightarrow> uuid \<Rightarrow> uuid \<Rightarrow> bool" where
  "granted_group p f u g \<longleftrightarrow> has_grant p u ''group'' g
     \<or> (list_ex (\<lambda>(g', m). g' = g) (fl_members f)
        \<and> \<not> list_ex (\<lambda>(g', m). g' = g \<and> ungranted p f u m) (fl_members f))"

definition policy_sql :: "screen_access \<Rightarrow> bool \<Rightarrow> bool" where
  "policy_sql a granted \<longleftrightarrow> (if sa_all a then True else if \<not> sa_configured a then False else granted)"

definition screen_sql :: "policies \<Rightarrow> fleet \<Rightarrow> screen_access \<Rightarrow> screen_row \<Rightarrow> bool" where
  "screen_sql p f a s \<longleftrightarrow> policy_sql a (granted_screen p f (sa_user a) s)"

definition assignable_screen_sql :: "policies \<Rightarrow> fleet \<Rightarrow> screen_access \<Rightarrow> screen_row \<Rightarrow> bool" where
  "assignable_screen_sql p f a s \<longleftrightarrow> policy_sql a (granted_peers p f (sa_user a) s)"

definition group_sql :: "policies \<Rightarrow> fleet \<Rightarrow> screen_access \<Rightarrow> uuid \<Rightarrow> bool" where
  "group_sql p f a g \<longleftrightarrow> policy_sql a (granted_group p f (sa_user a) g)"

definition target_reached :: "policies \<Rightarrow> fleet \<Rightarrow> uuid \<Rightarrow> schedule_target \<Rightarrow> bool" where
  "target_reached p f u t \<longleftrightarrow>
     (st_type t = ''screen''
        \<and> list_ex (\<lambda>x. Some (sw_id x) = st_screen t \<and> granted_screen p f u x) (fl_screens f))
     \<or> (st_type t = ''group''
        \<and> list_ex (\<lambda>(g, deleted). Some g = st_group t \<and> granted_group p f u g) (fl_groups f))"

definition schedule_sql :: "policies \<Rightarrow> fleet \<Rightarrow> screen_access \<Rightarrow> uuid \<Rightarrow> bool" where
  "schedule_sql p f a i \<longleftrightarrow> policy_sql a
     (list_ex (\<lambda>t. st_schedule t = i) (fl_targets f)
      \<and> \<not> list_ex (\<lambda>t. st_schedule t = i \<and> \<not> target_reached p f (sa_user a) t) (fl_targets f))"

definition takeover_sql :: "policies \<Rightarrow> fleet \<Rightarrow> screen_access \<Rightarrow> uuid \<Rightarrow> bool" where
  "takeover_sql p f a i \<longleftrightarrow> policy_sql a (granted_screen_set p f (sa_user a) (fl_takeover_screens f) i)"

definition deployment_sql :: "policies \<Rightarrow> fleet \<Rightarrow> screen_access \<Rightarrow> uuid \<Rightarrow> bool" where
  "deployment_sql p f a i \<longleftrightarrow> policy_sql a (granted_screen_set p f (sa_user a) (fl_update_screens f) i)"

definition override_sql :: "policies \<Rightarrow> fleet \<Rightarrow> screen_access \<Rightarrow> override_row \<Rightarrow> bool" where
  "override_sql p f a r \<longleftrightarrow> policy_sql a
     ((or_type r = ''screen''
         \<and> list_ex (\<lambda>x. sw_id x = or_target r \<and> granted_peers p f (sa_user a) x) (fl_screens f))
      \<or> (or_type r = ''group''
         \<and> list_ex (\<lambda>(g, deleted). g = or_target r \<and> granted_group p f (sa_user a) g) (fl_groups f)))"

definition location_visible_sql :: "policies \<Rightarrow> fleet \<Rightarrow> screen_access \<Rightarrow> uuid \<Rightarrow> bool" where
  "location_visible_sql p f a l \<longleftrightarrow> policy_sql a
     (has_grant p (sa_user a) ''location'' l
      \<or> list_ex (\<lambda>x. sw_location x = Some l \<and> \<not> sw_deleted x \<and> granted_screen p f (sa_user a) x) (fl_screens f))"

definition direct_grant_sql :: "policies \<Rightarrow> screen_access \<Rightarrow> string \<Rightarrow> uuid \<Rightarrow> bool" where
  "direct_grant_sql p a kind i \<longleftrightarrow>
     (if kind \<noteq> ''location'' \<and> kind \<noteq> ''group'' then False else policy_sql a (has_grant p (sa_user a) kind i))"

text \<open>Screens in use that the hardware of a pairing session is paired to.\<close>

definition paired_to :: "fleet \<Rightarrow> string \<Rightarrow> (screen_row \<Rightarrow> bool) \<Rightarrow> bool" where
  "paired_to f installation P \<longleftrightarrow>
     list_ex (\<lambda>x. sw_installation x = installation \<and> \<not> sw_deleted x \<and> \<not> sw_archived x \<and> P x) (fl_screens f)"

definition pairing_session_sql :: "policies \<Rightarrow> fleet \<Rightarrow> screen_access \<Rightarrow> string \<Rightarrow> bool" where
  "pairing_session_sql p f a installation \<longleftrightarrow>
     policy_sql a (paired_to f installation (granted_screen p f (sa_user a)))"

definition pairing_code_sql :: "policies \<Rightarrow> fleet \<Rightarrow> screen_access \<Rightarrow> string \<Rightarrow> bool" where
  "pairing_code_sql p f a installation \<longleftrightarrow>
     policy_sql a (\<not> paired_to f installation (\<lambda>_. True) \<or> pairing_session_sql p f a installation)"

section \<open>Decisions\<close>

definition found :: "bool \<Rightarrow> denial + unit" where
  "found ok = check ok NotFound"

definition screen :: "policies \<Rightarrow> fleet \<Rightarrow> actor \<Rightarrow> capability_key \<Rightarrow> uuid \<Rightarrow> denial + unit" where
  "screen p f a c i = decide p a [c] (\<lambda>x.
     found (list_ex (\<lambda>s. sw_id s = i \<and> \<not> sw_deleted s \<and> screen_sql p f x s) (fl_screens f)))"

record selected =
  sl_screens :: "uuid list"
  sl_groups :: "uuid list"
  sl_peers :: bool

fun unique_from :: "uuid set \<Rightarrow> uuid list \<Rightarrow> uuid list" where
  "unique_from seen [] = []"
| "unique_from seen (i # ids) =
     (if i \<in> seen then unique_from seen ids else i # unique_from (insert i seen) ids)"

definition unique :: "uuid list \<Rightarrow> uuid list" where
  "unique ids = unique_from {} ids"

definition count_rows :: "('a \<Rightarrow> bool) \<Rightarrow> 'a list \<Rightarrow> nat" where
  "count_rows P rows = length (filter P rows)"

definition authorize_selection :: "policies \<Rightarrow> fleet \<Rightarrow> actor \<Rightarrow> capability_key \<Rightarrow> selected \<Rightarrow> denial + unit" where
  "authorize_selection p f a c sel = decide p a [c] (\<lambda>x.
     let screens = unique (sl_screens sel); groups = unique (sl_groups sel);
         within = (if sl_peers sel then assignable_screen_sql p f x else screen_sql p f x)
     in andthen (check (length screens + length groups \<noteq> 0) OutOfScope) (\<lambda>_.
        check (count_rows (\<lambda>s. sw_id s \<in> set screens \<and> \<not> sw_deleted s \<and> within s) (fl_screens f) = length screens
             \<and> count_rows (\<lambda>(g, deleted). g \<in> set groups \<and> \<not> deleted \<and> group_sql p f x g) (fl_groups f) = length groups)
          OutOfScope))"

definition screen_assignment :: "policies \<Rightarrow> fleet \<Rightarrow> actor \<Rightarrow> capability_key \<Rightarrow> uuid \<Rightarrow> denial + unit" where
  "screen_assignment p f a c i =
     andthen (screen p f a c i) (\<lambda>_.
     authorize_selection p f a c \<lparr>sl_screens = [i], sl_groups = [], sl_peers = True\<rparr>)"

definition screens :: "policies \<Rightarrow> fleet \<Rightarrow> actor \<Rightarrow> capability_key \<Rightarrow> uuid list \<Rightarrow> denial + unit" where
  "screens p f a c ids = authorize_selection p f a c \<lparr>sl_screens = ids, sl_groups = [], sl_peers = False\<rparr>"

definition group :: "policies \<Rightarrow> fleet \<Rightarrow> actor \<Rightarrow> capability_key \<Rightarrow> uuid \<Rightarrow> denial + unit" where
  "group p f a c i = decide p a [c] (\<lambda>x.
     found (list_ex (\<lambda>(g, deleted). g = i \<and> \<not> deleted \<and> group_sql p f x g) (fl_groups f)))"

definition group_member :: "policies \<Rightarrow> fleet \<Rightarrow> actor \<Rightarrow> capability_key \<Rightarrow> uuid \<Rightarrow> uuid \<Rightarrow> denial + unit" where
  "group_member p f a c g s = andthen (group p f a c g) (\<lambda>_. screen p f a c s)"

definition authorize_schedule :: "policies \<Rightarrow> fleet \<Rightarrow> actor \<Rightarrow> capability_key \<Rightarrow> uuid \<Rightarrow> denial + unit" where
  "authorize_schedule p f a c i = decide p a [c] (\<lambda>x. found (i \<in> set (fl_schedules f) \<and> schedule_sql p f x i))"

definition takeover :: "policies \<Rightarrow> fleet \<Rightarrow> actor \<Rightarrow> capability_key \<Rightarrow> uuid \<Rightarrow> denial + unit" where
  "takeover p f a c i = decide p a [c] (\<lambda>x. found (takeover_sql p f x i))"

definition authorize_override :: "policies \<Rightarrow> fleet \<Rightarrow> actor \<Rightarrow> capability_key \<Rightarrow> uuid \<Rightarrow> denial + unit" where
  "authorize_override p f a c i = decide p a [c] (\<lambda>x.
     found (list_ex (\<lambda>r. or_id r = i \<and> \<not> or_stopped r \<and> override_sql p f x r) (fl_overrides f)))"

definition airplay_session :: "policies \<Rightarrow> fleet \<Rightarrow> actor \<Rightarrow> capability_key \<Rightarrow> uuid \<Rightarrow> denial + unit" where
  "airplay_session p f a c i = decide p a [c] (\<lambda>x.
     found (policy_sql x (granted_screen_set p f (sa_user x) (fl_session_screens f) i)))"

definition deployment_read :: "policies \<Rightarrow> fleet \<Rightarrow> actor \<Rightarrow> capability_key \<Rightarrow> uuid \<Rightarrow> denial + unit" where
  "deployment_read p f a c i = decide p a [c] (\<lambda>x.
     found (list_ex (\<lambda>(d, m). d = i \<and> list_ex (\<lambda>s. sw_id s = m \<and> screen_sql p f x s) (fl_screens f))
       (fl_update_screens f)))"

definition deployment :: "policies \<Rightarrow> fleet \<Rightarrow> actor \<Rightarrow> capability_key \<Rightarrow> uuid \<Rightarrow> denial + unit" where
  "deployment p f a c i =
     andthen (deployment_read p f a c i) (\<lambda>_.
     let x = access p a
     in if sa_all x then Inr () else check (deployment_sql p f x i) OutOfScope)"

definition whole_fleet :: "policies \<Rightarrow> actor \<Rightarrow> capability_key list \<Rightarrow> denial + unit" where
  "whole_fleet p a caps = andthen (authorize p a caps) (\<lambda>x. check (sa_all x) Restricted)"

definition assign_location :: "policies \<Rightarrow> actor \<Rightarrow> capability_key \<Rightarrow> uuid option \<Rightarrow> denial + unit" where
  "assign_location p a c loc = decide p a [c] (\<lambda>x.
     if loc = None \<or> loc = Some uuid_nil then Inl LocationRequired
     else if \<not> sa_configured x then Inl NotFound
     else found (has_grant p (sa_user x) ''location'' (the loc)))"

datatype pairing_kind = PairingNew | PairingRestore | PairingRepair | PairingReplacement | OtherPairing string

definition pairing :: "policies \<Rightarrow> fleet \<Rightarrow> actor \<Rightarrow> pairing_kind \<Rightarrow> uuid \<Rightarrow> uuid option \<Rightarrow> denial + unit" where
  "pairing p f a kind s loc =
     (case kind of
        PairingNew \<Rightarrow> assign_location p a ''screen.pair'' loc
      | PairingRestore \<Rightarrow> assign_location p a ''screen.pair'' loc
      | PairingRepair \<Rightarrow> screen p f a ''screen.pair'' s
      | PairingReplacement \<Rightarrow> screen p f a ''screen.pair'' s
      | OtherPairing _ \<Rightarrow> Inl UnknownKind)"

definition pairing_session :: "policies \<Rightarrow> fleet \<Rightarrow> actor \<Rightarrow> capability_key \<Rightarrow> uuid \<Rightarrow> bool \<Rightarrow> denial + unit" where
  "pairing_session p f a c i rejection = decide p a [c] (\<lambda>x.
     found (list_ex (\<lambda>(d, installation). d = i
        \<and> (if rejection then pairing_session_sql p f x installation else pairing_code_sql p f x installation))
       (fl_pairings f)))"

record directory_target =
  dt_all :: bool
  dt_screens :: "uuid list"
  dt_groups :: "uuid list"
  dt_locations :: "uuid list"

definition count_grants :: "policies \<Rightarrow> uuid \<Rightarrow> string \<Rightarrow> uuid list \<Rightarrow> nat" where
  "count_grants p u kind ids =
     count_rows (\<lambda>g. sc_user g = u \<and> sc_type g = kind \<and> sc_id g \<in> set ids) (po_scopes p)"

definition directory :: "policies \<Rightarrow> fleet \<Rightarrow> actor \<Rightarrow> capability_key \<Rightarrow> directory_target \<Rightarrow> denial + unit" where
  "directory p f a c t = decide p a [c] (\<lambda>x.
     let screens = unique (dt_screens t); groups = unique (dt_groups t); locations = unique (dt_locations t)
     in andthen (check (\<not> dt_all t \<and> sa_configured x \<and> length screens + length groups + length locations \<noteq> 0) OutOfScope) (\<lambda>_.
        check (count_rows (\<lambda>s. sw_id s \<in> set screens \<and> \<not> sw_deleted s \<and> screen_sql p f x s) (fl_screens f) = length screens
             \<and> count_grants p (sa_user x) ''group'' groups = length groups
             \<and> count_grants p (sa_user x) ''location'' locations = length locations) OutOfScope))"

section \<open>Lists\<close>

datatype list_kind = KindScreen | KindGroup | KindSchedule | KindTakeover | KindOverride | OtherKind string

text \<open>The members of \<open>ids\<close> that the actor reaches, as a list whose order means nothing.\<close>

definition reachable :: "policies \<Rightarrow> fleet \<Rightarrow> actor \<Rightarrow> capability_key \<Rightarrow> list_kind \<Rightarrow> uuid list \<Rightarrow> denial + uuid list" where
  "reachable p f a c kind ids =
     andthen (authorize p a [c]) (\<lambda>x.
       if sa_all x then Inr ids
       else if ids = [] then Inr []
       else case kind of
          KindScreen \<Rightarrow> Inr (map sw_id (filter (\<lambda>s. sw_id s \<in> set ids \<and> screen_sql p f x s) (fl_screens f)))
        | KindGroup \<Rightarrow> Inr (filter (\<lambda>g. g \<in> set ids \<and> group_sql p f x g) (map fst (fl_groups f)))
        | KindSchedule \<Rightarrow> Inr (filter (\<lambda>i. i \<in> set ids \<and> schedule_sql p f x i) (fl_schedules f))
        | KindTakeover \<Rightarrow> Inr (filter (\<lambda>i. i \<in> set ids \<and> takeover_sql p f x i) (fl_takeovers f))
        | KindOverride \<Rightarrow> Inr (map or_id (filter (\<lambda>r. or_id r \<in> set ids \<and> override_sql p f x r) (fl_overrides f)))
        | OtherKind _ \<Rightarrow> Inl UnknownKind)"

section \<open>Policies\<close>

record grant =
  gr_type :: string
  gr_id :: uuid

record policy_input =
  pi_mode :: string
  pi_grants :: "grant list"

definition validate_policy :: "policy_input \<Rightarrow> denial + unit" where
  "validate_policy input =
     (if pi_mode input = ''all'' then check (pi_grants input = []) PolicyInvalid
      else if pi_mode input = ''restricted''
        then first_error (\<lambda>g. check ((gr_type g = ''location'' \<or> gr_type g = ''group'') \<and> gr_id g \<noteq> uuid_nil) PolicyInvalid)
               (pi_grants input)
      else Inl PolicyInvalid)"

definition delegable_policy :: "policies \<Rightarrow> actor \<Rightarrow> policy_input \<Rightarrow> denial + unit" where
  "delegable_policy p a input =
     (let x = access p a
      in if sa_all x then Inr ()
         else if pi_mode input = ''all'' \<or> (\<not> sa_configured x \<and> pi_grants input \<noteq> []) then Inl DelegationDenied
         else first_error (\<lambda>g. check (has_grant p (ac_user a) (gr_type g) (gr_id g)) DelegationDenied) (pi_grants input))"

definition nullable :: "uuid \<Rightarrow> uuid option" where
  "nullable i = (if i = uuid_nil then None else Some i)"

definition set_mode :: "uuid \<Rightarrow> string \<Rightarrow> policies \<Rightarrow> policies" where
  "set_mode u mode p =
     p\<lparr>po_access := (if u \<in> fst ` set (po_access p)
         then map (\<lambda>(k, m). if k = u then (k, mode) else (k, m)) (po_access p)
         else po_access p @ [(u, mode)])\<rparr>"

definition grant_exists :: "fleet \<Rightarrow> grant \<Rightarrow> bool" where
  "grant_exists f g \<longleftrightarrow>
     (if gr_type g = ''group'' then list_ex (\<lambda>(i, deleted). i = gr_id g \<and> \<not> deleted) (fl_groups f)
      else gr_id g \<in> set (fl_locations f))"

definition add_scope :: "uuid \<Rightarrow> uuid \<Rightarrow> grant \<Rightarrow> policies \<Rightarrow> policies" where
  "add_scope by u g p =
     (if has_grant p u (gr_type g) (gr_id g) then p
      else p\<lparr>po_scopes := po_scopes p @ [\<lparr>sc_user = u, sc_type = gr_type g, sc_id = gr_id g, sc_by = nullable by\<rparr>]\<rparr>)"

fun save_grants :: "fleet \<Rightarrow> uuid \<Rightarrow> uuid \<Rightarrow> grant list \<Rightarrow> policies \<Rightarrow> denial + policies" where
  "save_grants f by u [] p = Inr p"
| "save_grants f by u (g # gs) p =
     andthen (check (grant_exists f g) PolicyInvalid) (\<lambda>_. save_grants f by u gs (add_scope by u g p))"

definition replace_policy :: "fleet \<Rightarrow> uuid \<Rightarrow> uuid \<Rightarrow> policy_input \<Rightarrow> policies \<Rightarrow> denial + policies" where
  "replace_policy f by u input p =
     andthen (validate_policy input) (\<lambda>_.
     andthen (save_grants f by u (pi_grants input)
         (set_mode u (pi_mode input) (p\<lparr>po_scopes := filter (\<lambda>g. sc_user g \<noteq> u) (po_scopes p)\<rparr>))) (\<lambda>p'.
     Inr (p'\<lparr>po_audit := po_audit p' @ [(nullable by, u, pi_mode input, length (pi_grants input))]\<rparr>)))"

section \<open>Dashboard routes\<close>

text \<open>
  \<open>guard\<close> of \<open>httpapi/authorization.go\<close>: the rule declared for a route decides before its handler runs.
  The rules (\<open>objectRules\<close>) are an argument. A route on screens without a rule stops the server when it is
  registered (\<open>RegistrationPanics\<close>); \<open>RunHandler\<close> is a request that reaches its handler.
\<close>

datatype object_kind =
    ObjectHandler | ObjectScreen | ObjectScreenAssignment | ObjectGroup | ObjectGroupMember | ObjectSchedule
  | ObjectTakeover | ObjectPresentationOverride | ObjectAirPlaySession | ObjectDeploymentRead | ObjectDeployment
  | ObjectPairingReject | ObjectWholeFleet

record object_rule =
  ob_kind :: object_kind
  ob_capability :: capability_key

datatype guarded = RegistrationPanics | RunHandler | Refused denial | Unauthenticated

definition screen_domain_prefixes :: "string list" where
  "screen_domain_prefixes =
     [''/api/v1/screens'', ''/api/v1/screen-groups'', ''/api/v1/schedules'', ''/api/v1/takeovers'',
      ''/api/v1/presentation-overrides'', ''/api/v1/presentation-networks'', ''/api/v1/locations'',
      ''/api/v1/update-deployments'', ''/api/v1/airplay'', ''/api/v1/users/{id}/screen-scopes'']"

definition in_screen_domain :: "string \<Rightarrow> bool" where
  "in_screen_domain pattern \<longleftrightarrow>
     list_ex (\<lambda>q. pattern = q \<or> has_prefix pattern (q @ ''/'')) screen_domain_prefixes"

definition object_decision ::
  "policies \<Rightarrow> fleet \<Rightarrow> actor \<Rightarrow> object_kind \<Rightarrow> capability_key \<Rightarrow> uuid \<Rightarrow> uuid option \<Rightarrow> denial + unit" where
  "object_decision p f a kind c i member =
     (case kind of
        ObjectScreen \<Rightarrow> screen p f a c i
      | ObjectScreenAssignment \<Rightarrow> screen_assignment p f a c i
      | ObjectGroup \<Rightarrow> group p f a c i
      | ObjectGroupMember \<Rightarrow> (case member of None \<Rightarrow> Inl NotFound | Some s \<Rightarrow> group_member p f a c i s)
      | ObjectSchedule \<Rightarrow> authorize_schedule p f a c i
      | ObjectTakeover \<Rightarrow> takeover p f a c i
      | ObjectPresentationOverride \<Rightarrow> authorize_override p f a c i
      | ObjectAirPlaySession \<Rightarrow> airplay_session p f a c i
      | ObjectDeploymentRead \<Rightarrow> deployment_read p f a c i
      | ObjectDeployment \<Rightarrow> deployment p f a c i
      | ObjectPairingReject \<Rightarrow> pairing_session p f a c i True
      | ObjectWholeFleet \<Rightarrow> whole_fleet p a [c]
      | ObjectHandler \<Rightarrow> Inl UnknownKind)"

definition guard ::
  "(string \<times> object_rule) list \<Rightarrow> policies \<Rightarrow> fleet \<Rightarrow> string \<Rightarrow> string \<Rightarrow> actor option \<Rightarrow> uuid option \<Rightarrow> uuid option \<Rightarrow> guarded" where
  "guard rules p f verb pattern caller i member =
     (case map_of rules (verb @ '' '' @ pattern) of
        None \<Rightarrow> if in_screen_domain pattern then RegistrationPanics else RunHandler
      | Some r \<Rightarrow>
          if ob_kind r = ObjectHandler then RunHandler
          else case caller of
              None \<Rightarrow> Unauthenticated
            | Some a \<Rightarrow>
                if ob_kind r = ObjectWholeFleet then
                  (case whole_fleet p a [ob_capability r] of Inl e \<Rightarrow> Refused e | Inr _ \<Rightarrow> RunHandler)
                else case i of
                    None \<Rightarrow> RunHandler
                  | Some j \<Rightarrow> (case object_decision p f a (ob_kind r) (ob_capability r) j member of
                        Inl e \<Rightarrow> Refused e | Inr _ \<Rightarrow> RunHandler))"

text \<open>The answers to refusals: for an object that is not found, and for the other decisions.\<close>

definition not_found_for :: "object_kind \<Rightarrow> string" where
  "not_found_for kind =
     (case kind of
        ObjectGroup \<Rightarrow> ''schedule_not_found'' | ObjectSchedule \<Rightarrow> ''schedule_not_found''
      | ObjectGroupMember \<Rightarrow> ''screen_not_found'' | ObjectTakeover \<Rightarrow> ''takeover_not_found''
      | ObjectPresentationOverride \<Rightarrow> ''presentation_not_found''
      | ObjectAirPlaySession \<Rightarrow> ''airplay_session_not_found''
      | ObjectDeploymentRead \<Rightarrow> ''update_deployment_not_found'' | ObjectDeployment \<Rightarrow> ''update_deployment_not_found''
      | ObjectPairingReject \<Rightarrow> ''not_found'' | ObjectWholeFleet \<Rightarrow> ''not_found''
      | _ \<Rightarrow> ''screen_not_found'')"

definition refusal :: "string \<Rightarrow> denial \<Rightarrow> nat \<times> string" where
  "refusal not_found e =
     (case e of
        Forbidden \<Rightarrow> (403, ''insufficient_role'')
      | NotFound \<Rightarrow> (404, not_found)
      | OutOfScope \<Rightarrow> (403, ''out_of_scope'')
      | Restricted \<Rightarrow> (403, ''screen_access_restricted'')
      | LocationRequired \<Rightarrow> (422, ''screen_location_required'')
      | _ \<Rightarrow> (500, ''internal_error''))"

section \<open>Decisions as conditions\<close>

lemma require_Inr: "require a caps = Inr u \<longleftrightarrow> ac_user a \<noteq> uuid_nil \<and> set caps \<subseteq> ac_capabilities a"
  by (auto simp: require_def)

lemma require_Inl:
  "require a caps = Inl e \<longleftrightarrow> e = Forbidden \<and> (ac_user a = uuid_nil \<or> \<not> set caps \<subseteq> ac_capabilities a)"
proof (cases "require a caps")
  case (Inl e')
  then have "e' = Forbidden" by (auto simp: require_def dest: first_error_Inl)
  with Inl show ?thesis using require_Inr [of a caps "()"] by auto
next
  case (Inr v)
  then show ?thesis using require_Inr [of a caps v] by auto
qed

lemma decide_Inr:
  "decide p a caps rest = Inr u \<longleftrightarrow>
     ac_user a \<noteq> uuid_nil \<and> set caps \<subseteq> ac_capabilities a \<and> (sa_all (access p a) \<or> rest (access p a) = Inr ())"
  by (auto simp: decide_def authorize_def require_Inr)

lemma decide_Inl:
  "decide p a caps rest = Inl e \<longleftrightarrow>
     (if ac_user a = uuid_nil \<or> \<not> set caps \<subseteq> ac_capabilities a then e = Forbidden
      else \<not> sa_all (access p a) \<and> rest (access p a) = Inl e)"
  by (auto simp: decide_def authorize_def require_Inr require_Inl)

lemma access_user [simp]: "sa_user (access p a) = ac_user a"
  by (auto simp: access_def split: option.splits)

lemma access_owner: "ac_owner a \<Longrightarrow> sa_all (access p a)"
  by (simp add: access_def)

lemma found_Inr [simp]: "found ok = Inr u \<longleftrightarrow> ok"
  by (simp add: found_def)

lemma found_Inl [simp]: "found ok = Inl e \<longleftrightarrow> \<not> ok \<and> e = NotFound"
  by (simp add: found_def)

subsection \<open>Counting a selection\<close>

lemma unique_from_props: "set (unique_from seen ids) = set ids - seen \<and> distinct (unique_from seen ids)"
  by (induction ids arbitrary: seen) auto

lemma unique_props [simp]: "set (unique ids) = set ids" "distinct (unique ids)" "unique ids = [] \<longleftrightarrow> ids = []"
  using unique_from_props [of "{}" ids] by (simp_all add: unique_def flip: set_empty)

lemma count_rows_all:
  assumes "distinct (map key rows)" and "distinct ids"
  shows "count_rows (\<lambda>r. key r \<in> set ids \<and> P r) rows = length ids
    \<longleftrightarrow> (\<forall>i\<in>set ids. \<exists>r\<in>set rows. key r = i \<and> P r)"
proof -
  let ?rows = "filter (\<lambda>r. key r \<in> set ids \<and> P r) rows"
  have "distinct (map key ?rows)" by (rule distinct_map_filter [OF assms(1)])
  then have "length ?rows = card (key ` set ?rows)" using distinct_card [of "map key ?rows"] by simp
  moreover have "key ` set ?rows \<subseteq> set ids" by auto
  moreover have "card (set ids) = length ids" by (rule distinct_card [OF assms(2)])
  ultimately have "length ?rows = length ids \<longleftrightarrow> key ` set ?rows = set ids"
    by (metis List.finite_set card_subset_eq)
  also have "\<dots> \<longleftrightarrow> set ids \<subseteq> key ` set ?rows" using \<open>key ` set ?rows \<subseteq> set ids\<close> by blast
  also have "\<dots> \<longleftrightarrow> (\<forall>i\<in>set ids. \<exists>r\<in>set ?rows. i = key r)"
    unfolding subset_eq image_iff ..
  also have "\<dots> \<longleftrightarrow> (\<forall>i\<in>set ids. \<exists>r\<in>set rows. key r = i \<and> P r)" by (intro ball_cong refl) auto
  finally show ?thesis by (simp add: count_rows_def)
qed

section \<open>More access never decides less\<close>

text \<open>
  Policy \<open>q\<close> of account \<open>v\<close> gives at least what policy \<open>p\<close> of account \<open>u\<close> gives. Every reach
  predicate is monotone in the grants, so every decision is monotone in the policy, on any fleet.
\<close>

named_theorems reach_mono

definition grants_le :: "policies \<Rightarrow> uuid \<Rightarrow> policies \<Rightarrow> uuid \<Rightarrow> bool" where
  "grants_le p u q v \<longleftrightarrow> (\<forall>kind i. has_grant p u kind i \<longrightarrow> has_grant q v kind i)"

definition access_le :: "policies \<Rightarrow> actor \<Rightarrow> policies \<Rightarrow> actor \<Rightarrow> bool" where
  "access_le p a q b \<longleftrightarrow>
     sa_all (access q b)
     \<or> (\<not> sa_all (access p a)
        \<and> (sa_configured (access p a) \<longrightarrow> sa_configured (access q b) \<and> grants_le p (ac_user a) q (ac_user b)))"

lemma granted_screen_mono [reach_mono]:
  "grants_le p u q v \<Longrightarrow> granted_screen p f u s \<Longrightarrow> granted_screen q f v s"
  by (auto simp: granted_screen_def grants_le_def list_ex_iff split: option.splits)

lemma ungranted_mono [reach_mono]: "grants_le p u q v \<Longrightarrow> ungranted q f v i \<Longrightarrow> ungranted p f u i"
  by (auto simp: ungranted_def list_ex_iff dest: granted_screen_mono)

lemma list_ex_imp: "list_ex P xs \<Longrightarrow> (\<And>x. P x \<Longrightarrow> Q x) \<Longrightarrow> list_ex Q xs"
  by (auto simp: list_ex_iff)

lemma granted_peers_mono [reach_mono]:
  assumes le: "grants_le p u q v" and g: "granted_peers p f u s"
  shows "granted_peers q f v s"
proof -
  let ?bad = "\<lambda>ungranted_m (g, m). m = sw_id s \<and> list_ex (\<lambda>(g', m'). g' = g \<and> ungranted_m m') (fl_members f)"
  have "\<not> list_ex (?bad (ungranted p f u)) (fl_members f)" using g by (simp add: granted_peers_def)
  then have "\<not> list_ex (?bad (ungranted q f v)) (fl_members f)"
    by (rule contrapos_nn) (auto elim!: list_ex_imp intro: ungranted_mono [OF le])
  with g show ?thesis by (auto simp: granted_peers_def intro: granted_screen_mono [OF le])
qed

lemma granted_screen_set_mono [reach_mono]:
  assumes le: "grants_le p u q v" and g: "granted_screen_set p f u rows i"
  shows "granted_screen_set q f v rows i"
proof -
  have "\<not> list_ex (\<lambda>(k, m). k = i \<and> ungranted p f u m) rows" using g by (simp add: granted_screen_set_def)
  then have "\<not> list_ex (\<lambda>(k, m). k = i \<and> ungranted q f v m) rows"
    by (rule contrapos_nn) (auto elim!: list_ex_imp intro: ungranted_mono [OF le])
  with g show ?thesis by (simp add: granted_screen_set_def)
qed

lemma granted_group_mono [reach_mono]:
  assumes le: "grants_le p u q v" and g: "granted_group p f u i"
  shows "granted_group q f v i"
proof (cases "has_grant p u ''group'' i")
  case True
  with le show ?thesis by (simp add: granted_group_def grants_le_def)
next
  case False
  with g have "granted_screen_set p f u (fl_members f) i"
    by (simp add: granted_group_def granted_screen_set_def)
  with le have "granted_screen_set q f v (fl_members f) i" by (rule granted_screen_set_mono)
  then show ?thesis by (simp add: granted_group_def granted_screen_set_def)
qed

lemma target_reached_mono [reach_mono]:
  "grants_le p u q v \<Longrightarrow> target_reached p f u t \<Longrightarrow> target_reached q f v t"
  unfolding target_reached_def
  by (elim disjE conjE) (auto elim!: list_ex_imp intro: granted_screen_mono granted_group_mono)

lemma policy_sql_mono:
  assumes "access_le p a q b" and "policy_sql (access p a) g" and "grants_le p (ac_user a) q (ac_user b) \<Longrightarrow> g \<Longrightarrow> g'"
  shows "policy_sql (access q b) g'"
  using assms by (auto simp: policy_sql_def access_le_def split: if_splits)

lemma screen_sql_mono [reach_mono]:
  "access_le p a q b \<Longrightarrow> screen_sql p f (access p a) s \<Longrightarrow> screen_sql q f (access q b) s"
  unfolding screen_sql_def by (erule (1) policy_sql_mono) (auto intro: granted_screen_mono)

lemma assignable_screen_sql_mono [reach_mono]:
  "access_le p a q b \<Longrightarrow> assignable_screen_sql p f (access p a) s \<Longrightarrow> assignable_screen_sql q f (access q b) s"
  unfolding assignable_screen_sql_def by (erule (1) policy_sql_mono) (auto intro: granted_peers_mono)

lemma group_sql_mono [reach_mono]:
  "access_le p a q b \<Longrightarrow> group_sql p f (access p a) g \<Longrightarrow> group_sql q f (access q b) g"
  unfolding group_sql_def by (erule (1) policy_sql_mono) (auto intro: granted_group_mono)

lemma schedule_sql_mono [reach_mono]:
  "access_le p a q b \<Longrightarrow> schedule_sql p f (access p a) i \<Longrightarrow> schedule_sql q f (access q b) i"
  unfolding schedule_sql_def by (erule (1) policy_sql_mono) (auto simp: list_ex_iff intro: target_reached_mono)

lemma takeover_sql_mono [reach_mono]:
  "access_le p a q b \<Longrightarrow> takeover_sql p f (access p a) i \<Longrightarrow> takeover_sql q f (access q b) i"
  unfolding takeover_sql_def by (erule (1) policy_sql_mono) (auto intro: granted_screen_set_mono)

lemma deployment_sql_mono [reach_mono]:
  "access_le p a q b \<Longrightarrow> deployment_sql p f (access p a) i \<Longrightarrow> deployment_sql q f (access q b) i"
  unfolding deployment_sql_def by (erule (1) policy_sql_mono) (auto intro: granted_screen_set_mono)

lemma override_sql_mono [reach_mono]:
  "access_le p a q b \<Longrightarrow> override_sql p f (access p a) r \<Longrightarrow> override_sql q f (access q b) r"
  unfolding override_sql_def access_user
  by (erule (1) policy_sql_mono, erule disjE)
    (auto elim!: list_ex_imp intro: granted_peers_mono granted_group_mono)

lemma pairing_session_sql_mono [reach_mono]:
  "access_le p a q b \<Longrightarrow> pairing_session_sql p f (access p a) i \<Longrightarrow> pairing_session_sql q f (access q b) i"
  unfolding pairing_session_sql_def paired_to_def list_ex_iff
  by (erule (1) policy_sql_mono) (simp only: access_user, fast intro: granted_screen_mono)

text \<open>Hence every decision: what one account may do, an account with more access and the capability may.\<close>

lemma decide_mono:
  assumes "access_le p a q b" and "ac_user b \<noteq> uuid_nil" and "ac_capabilities a \<subseteq> ac_capabilities b"
    and "decide p a caps r = Inr ()"
    and "\<not> sa_all (access p a) \<Longrightarrow> \<not> sa_all (access q b) \<Longrightarrow> r (access p a) = Inr () \<Longrightarrow> r' (access q b) = Inr ()"
  shows "decide q b caps r' = Inr ()"
  using assms by (auto simp: decide_Inr access_le_def)

lemmas reach_rules = screen_sql_mono assignable_screen_sql_mono group_sql_mono schedule_sql_mono takeover_sql_mono
  deployment_sql_mono override_sql_mono pairing_session_sql_mono

text \<open>Decisions that need the grants of the account itself, not only what it reaches.\<close>

lemma found_mono: "(P \<Longrightarrow> Q) \<Longrightarrow> found P = Inr u \<Longrightarrow> found Q = Inr u"
  by simp

lemma screen_mono:
  assumes le: "access_le p a q b" "ac_user b \<noteq> uuid_nil" "ac_capabilities a \<subseteq> ac_capabilities b"
    and ok: "screen p f a c i = Inr ()"
  shows "screen q f b c i = Inr ()"
  using le ok unfolding screen_def
  by (rule decide_mono) (auto elim!: list_ex_imp intro: screen_sql_mono [OF le(1)])

lemma group_mono:
  assumes le: "access_le p a q b" "ac_user b \<noteq> uuid_nil" "ac_capabilities a \<subseteq> ac_capabilities b"
    and ok: "group p f a c i = Inr ()"
  shows "group q f b c i = Inr ()"
  using le ok unfolding group_def
  by (rule decide_mono) (auto elim!: list_ex_imp intro: group_sql_mono [OF le(1)])

text \<open>With distinct keys, a selection is decided one object at a time.\<close>

definition fleet_ok :: "fleet \<Rightarrow> bool" where
  "fleet_ok f \<longleftrightarrow> distinct (map sw_id (fl_screens f)) \<and> distinct (map fst (fl_groups f))
     \<and> distinct (map or_id (fl_overrides f))"

definition screen_within :: "policies \<Rightarrow> fleet \<Rightarrow> screen_access \<Rightarrow> bool \<Rightarrow> uuid \<Rightarrow> bool" where
  "screen_within p f x peers i \<longleftrightarrow>
     list_ex (\<lambda>s. sw_id s = i \<and> \<not> sw_deleted s
       \<and> (if peers then assignable_screen_sql p f x s else screen_sql p f x s)) (fl_screens f)"

definition group_within :: "policies \<Rightarrow> fleet \<Rightarrow> screen_access \<Rightarrow> uuid \<Rightarrow> bool" where
  "group_within p f x i \<longleftrightarrow> list_ex (\<lambda>(g, deleted). g = i \<and> \<not> deleted \<and> group_sql p f x g) (fl_groups f)"

lemma selection_Inr:
  assumes "fleet_ok f"
  shows "authorize_selection p f a c sel = Inr () \<longleftrightarrow> ac_user a \<noteq> uuid_nil \<and> c \<in> ac_capabilities a \<and>
    (sa_all (access p a)
     \<or> ((sl_screens sel \<noteq> [] \<or> sl_groups sel \<noteq> [])
        \<and> (\<forall>i\<in>set (sl_screens sel). screen_within p f (access p a) (sl_peers sel) i)
        \<and> (\<forall>i\<in>set (sl_groups sel). group_within p f (access p a) i)))"
proof -
  let ?x = "access p a"
  let ?w = "if sl_peers sel then assignable_screen_sql p f ?x else screen_sql p f ?x"
  have "count_rows (\<lambda>s. sw_id s \<in> set (unique (sl_screens sel)) \<and> (\<not> sw_deleted s \<and> ?w s)) (fl_screens f) = length (unique (sl_screens sel))
    \<longleftrightarrow> (\<forall>i\<in>set (unique (sl_screens sel)). \<exists>s\<in>set (fl_screens f). sw_id s = i \<and> (\<not> sw_deleted s \<and> ?w s))"
    by (rule count_rows_all) (use assms in \<open>simp_all add: fleet_ok_def\<close>)
  moreover have "count_rows (\<lambda>r. fst r \<in> set (unique (sl_groups sel)) \<and> (\<not> snd r \<and> group_sql p f ?x (fst r))) (fl_groups f) = length (unique (sl_groups sel))
    \<longleftrightarrow> (\<forall>i\<in>set (unique (sl_groups sel)). \<exists>r\<in>set (fl_groups f). fst r = i \<and> (\<not> snd r \<and> group_sql p f ?x (fst r)))"
    by (rule count_rows_all) (use assms in \<open>simp_all add: fleet_ok_def\<close>)
  moreover have "length (unique (sl_screens sel)) + length (unique (sl_groups sel)) \<noteq> 0 \<longleftrightarrow> sl_screens sel \<noteq> [] \<or> sl_groups sel \<noteq> []"
    by simp
  ultimately show ?thesis
    by (simp add: authorize_selection_def decide_Inr Let_def screen_within_def group_within_def list_ex_iff case_prod_unfold
        if_distribR)
qed

lemma screen_within_mono: "access_le p a q b \<Longrightarrow> screen_within p f (access p a) peers i \<Longrightarrow> screen_within q f (access q b) peers i"
  unfolding screen_within_def
  by (auto elim!: list_ex_imp intro: screen_sql_mono assignable_screen_sql_mono)

lemma peers_within: "screen_within p f x True i \<Longrightarrow> screen_within p f x False i"
  unfolding screen_within_def
  by (auto elim!: list_ex_imp simp: assignable_screen_sql_def screen_sql_def policy_sql_def granted_peers_def split: if_splits)

lemma screen_within_iff:
  "screen p f a c i = Inr () \<longleftrightarrow> ac_user a \<noteq> uuid_nil \<and> c \<in> ac_capabilities a
    \<and> (sa_all (access p a) \<or> screen_within p f (access p a) False i)"
  by (simp add: screen_def decide_Inr screen_within_def)

lemma group_within_iff:
  "group p f a c i = Inr () \<longleftrightarrow> ac_user a \<noteq> uuid_nil \<and> c \<in> ac_capabilities a
    \<and> (sa_all (access p a) \<or> group_within p f (access p a) i)"
  by (simp add: group_def decide_Inr group_within_def)

lemma screen_assignment_iff:
  assumes "fleet_ok f"
  shows "screen_assignment p f a c i = Inr () \<longleftrightarrow> ac_user a \<noteq> uuid_nil \<and> c \<in> ac_capabilities a
    \<and> (sa_all (access p a) \<or> screen_within p f (access p a) True i)"
  using peers_within by (auto simp: screen_assignment_def selection_Inr [OF assms] screen_within_iff)

lemma object_decision_mono:
  assumes le: "access_le p a q b" "ac_user b \<noteq> uuid_nil" "ac_capabilities a \<subseteq> ac_capabilities b"
    and f: "fleet_ok f" and ok: "object_decision p f a kind c i m = Inr ()"
  shows "object_decision q f b kind c i m = Inr ()"
proof -
  note mono = decide_mono [OF le]
  have read: "deployment_read q f b c i = Inr ()" if "deployment_read p f a c i = Inr ()"
    using that unfolding deployment_read_def
    by (rule mono) (auto elim!: list_ex_imp intro: screen_sql_mono [OF le(1)])
  have all: "sa_all (access q b)" if "sa_all (access p a)"
    using that le(1) by (simp add: access_le_def)
  show ?thesis
  proof (cases kind)
    case ObjectScreen
    with ok screen_mono [OF le] show ?thesis by (simp add: object_decision_def)
  next
    case ObjectScreenAssignment
    with ok le all show ?thesis
      by (auto simp: object_decision_def screen_assignment_iff [OF f] intro: screen_within_mono)
  next
    case ObjectGroup
    with ok group_mono [OF le] show ?thesis by (simp add: object_decision_def)
  next
    case ObjectGroupMember
    with ok group_mono [OF le] screen_mono [OF le] show ?thesis
      by (auto simp: object_decision_def group_member_def split: option.splits)
  next
    case ObjectSchedule
    with ok have "authorize_schedule p f a c i = Inr ()" by (simp add: object_decision_def)
    then have "authorize_schedule q f b c i = Inr ()"
      unfolding authorize_schedule_def by (rule mono) (auto intro: schedule_sql_mono [OF le(1)])
    with ObjectSchedule show ?thesis by (simp add: object_decision_def)
  next
    case ObjectTakeover
    with ok have "takeover p f a c i = Inr ()" by (simp add: object_decision_def)
    then have "takeover q f b c i = Inr ()"
      unfolding takeover_def by (rule mono) (auto intro: takeover_sql_mono [OF le(1)])
    with ObjectTakeover show ?thesis by (simp add: object_decision_def)
  next
    case ObjectPresentationOverride
    with ok have "authorize_override p f a c i = Inr ()" by (simp add: object_decision_def)
    then have "authorize_override q f b c i = Inr ()"
      unfolding authorize_override_def by (rule mono) (auto elim!: list_ex_imp intro: override_sql_mono [OF le(1)])
    with ObjectPresentationOverride show ?thesis by (simp add: object_decision_def)
  next
    case ObjectAirPlaySession
    with ok have "airplay_session p f a c i = Inr ()" by (simp add: object_decision_def)
    then have "airplay_session q f b c i = Inr ()"
      unfolding airplay_session_def
      by (rule mono) (auto intro: policy_sql_mono [OF le(1)] granted_screen_set_mono)
    with ObjectAirPlaySession show ?thesis by (simp add: object_decision_def)
  next
    case ObjectDeploymentRead
    with ok read show ?thesis by (simp add: object_decision_def)
  next
    case ObjectDeployment
    with ok read all show ?thesis
      by (auto simp: object_decision_def deployment_def Let_def intro: deployment_sql_mono [OF le(1)] split: if_splits)
  next
    case ObjectPairingReject
    with ok have "pairing_session p f a c i True = Inr ()" by (simp add: object_decision_def)
    then have "pairing_session q f b c i True = Inr ()"
      unfolding pairing_session_def by (rule mono) (auto elim!: list_ex_imp intro: pairing_session_sql_mono [OF le(1)])
    with ObjectPairingReject show ?thesis by (simp add: object_decision_def)
  next
    case ObjectWholeFleet
    with ok le all show ?thesis
      by (auto simp: object_decision_def whole_fleet_def authorize_def require_Inr)
  qed (use ok in \<open>simp add: object_decision_def\<close>)
qed

section \<open>What storing a policy does\<close>

lemma has_grant_set_mode [simp]: "has_grant (set_mode u mode p) = has_grant p"
  by (simp add: set_mode_def has_grant_def fun_eq_iff)

lemma map_of_set_mode [simp]:
  "map_of (po_access (set_mode u mode p)) = (map_of (po_access p))(u \<mapsto> mode)"
proof -
  have "map_of (map (\<lambda>(k, m). if k = u then (k, mode) else (k, m)) xs) =
      (if u \<in> fst ` set xs then (map_of xs)(u \<mapsto> mode) else map_of xs)" for xs
    by (induction xs) (auto simp: fun_eq_iff)
  moreover have "map_of (xs @ [(u, mode)]) = (map_of xs)(u \<mapsto> mode)" if "u \<notin> fst ` set xs" for xs
    using that by (induction xs) auto
  ultimately show ?thesis by (simp add: set_mode_def)
qed

lemma has_grant_add_scope:
  "has_grant (add_scope by u g p) v kind i \<longleftrightarrow> has_grant p v kind i \<or> (v = u \<and> kind = gr_type g \<and> i = gr_id g)"
  by (auto simp: add_scope_def has_grant_def)

lemma save_grants_effect:
  "save_grants f by u gs p = Inr p' \<Longrightarrow>
     po_access p' = po_access p
     \<and> (\<forall>v kind i. has_grant p' v kind i \<longleftrightarrow> has_grant p v kind i \<or> (v = u \<and> (\<exists>g\<in>set gs. kind = gr_type g \<and> i = gr_id g)))
     \<and> list_all (grant_exists f) gs"
proof (induction gs arbitrary: p)
  case (Cons g gs)
  then have "grant_exists f g" and "save_grants f by u gs (add_scope by u g p) = Inr p'" by auto
  from Cons.IH [OF this(2)] this(1) show ?case
    by (auto simp: has_grant_add_scope) (auto simp: add_scope_def split: if_splits)
qed simp

lemma replace_policy_effect:
  assumes "replace_policy f by u input p = Inr p'"
  shows "map_of (po_access p') = (map_of (po_access p))(u \<mapsto> pi_mode input)"
    and "has_grant p' v kind i \<longleftrightarrow>
      (if v = u then \<exists>g\<in>set (pi_grants input). kind = gr_type g \<and> i = gr_id g else has_grant p v kind i)"
    and "validate_policy input = Inr ()" and "list_all (grant_exists f) (pi_grants input)"
proof -
  let ?p1 = "set_mode u (pi_mode input) (p\<lparr>po_scopes := filter (\<lambda>g. sc_user g \<noteq> u) (po_scopes p)\<rparr>)"
  from assms obtain p2 where v: "validate_policy input = Inr ()"
    and s: "save_grants f by u (pi_grants input) ?p1 = Inr p2"
    and p': "po_access p' = po_access p2" "po_scopes p' = po_scopes p2"
    by (auto simp: replace_policy_def)
  note eff = save_grants_effect [OF s]
  show "validate_policy input = Inr ()" by (rule v)
  show "list_all (grant_exists f) (pi_grants input)" using eff by simp
  show "map_of (po_access p') = (map_of (po_access p))(u \<mapsto> pi_mode input)" using eff p' by simp
  have "has_grant (p\<lparr>po_scopes := filter (\<lambda>g. sc_user g \<noteq> u) (po_scopes p)\<rparr>) v kind i \<longleftrightarrow> v \<noteq> u \<and> has_grant p v kind i"
    by (auto simp: has_grant_def list_ex_iff)
  moreover have "has_grant p' v kind i \<longleftrightarrow> has_grant p2 v kind i" by (simp add: has_grant_def p')
  ultimately show "has_grant p' v kind i \<longleftrightarrow>
      (if v = u then \<exists>g\<in>set (pi_grants input). kind = gr_type g \<and> i = gr_id g else has_grant p v kind i)"
    using eff by auto
qed

lemma delegable_policy_Inr:
  "delegable_policy p a input = Inr () \<longleftrightarrow> sa_all (access p a)
     \<or> (pi_mode input \<noteq> ''all'' \<and> (sa_configured (access p a) \<or> pi_grants input = [])
        \<and> (\<forall>g\<in>set (pi_grants input). has_grant p (ac_user a) (gr_type g) (gr_id g)))"
  by (auto simp: delegable_policy_def Let_def)

section \<open>Properties\<close>

text \<open>
  C30. A selection is all or nothing, and says nothing more than it must. With distinct keys, a selection is
  allowed exactly if the account holds the capability and either reaches the whole fleet, or names at least
  one object and every object it names would be allowed alone (for an operation that a Display Group
  carries to its members, together with its peers). A refusal is \<open>Forbidden\<close> exactly where the capability is
  missing; otherwise a selection is out of scope as a whole, and a single screen or group is not found,
  the same whether it does not exist or is out of reach.
\<close>

theorem selection_all_or_nothing:
  assumes "fleet_ok f"
  shows "(authorize_selection p f a c sel = Inr () \<longleftrightarrow> require a [c] = Inr ()
       \<and> (sa_all (access p a)
          \<or> ((sl_screens sel \<noteq> [] \<or> sl_groups sel \<noteq> [])
             \<and> (\<forall>i\<in>set (sl_screens sel). (if sl_peers sel then screen_assignment p f a c i else screen p f a c i) = Inr ())
             \<and> (\<forall>g\<in>set (sl_groups sel). group p f a c g = Inr ()))))
     \<and> (\<forall>e. authorize_selection p f a c sel = Inl e \<longrightarrow> e = (if require a [c] = Inr () then OutOfScope else Forbidden))
     \<and> (\<forall>i e. screen p f a c i = Inl e \<or> group p f a c i = Inl e
          \<longrightarrow> e = (if require a [c] = Inr () then NotFound else Forbidden))"
proof (intro conjI allI impI)
  show "authorize_selection p f a c sel = Inr () \<longleftrightarrow> require a [c] = Inr ()
       \<and> (sa_all (access p a)
          \<or> ((sl_screens sel \<noteq> [] \<or> sl_groups sel \<noteq> [])
             \<and> (\<forall>i\<in>set (sl_screens sel). (if sl_peers sel then screen_assignment p f a c i else screen p f a c i) = Inr ())
             \<and> (\<forall>g\<in>set (sl_groups sel). group p f a c g = Inr ())))"
    by (cases "sl_peers sel")
      (auto simp: selection_Inr [OF assms] screen_assignment_iff [OF assms] screen_within_iff group_within_iff require_Inr)
next
  fix e assume "authorize_selection p f a c sel = Inl e"
  then show "e = (if require a [c] = Inr () then OutOfScope else Forbidden)"
    by (auto simp: authorize_selection_def decide_Inl Let_def require_Inr split: if_splits)
next
  fix i e assume "screen p f a c i = Inl e \<or> group p f a c i = Inl e"
  then show "e = (if require a [c] = Inr () then NotFound else Forbidden)"
    by (auto simp: screen_def group_def decide_Inl require_Inr split: if_splits)
qed

definition live :: "fleet \<Rightarrow> list_kind \<Rightarrow> uuid \<Rightarrow> bool" where
  "live f kind i \<longleftrightarrow>
     (case kind of
        KindScreen \<Rightarrow> list_ex (\<lambda>s. sw_id s = i \<and> \<not> sw_deleted s) (fl_screens f)
      | KindGroup \<Rightarrow> (i, False) \<in> set (fl_groups f)
      | KindSchedule \<Rightarrow> i \<in> set (fl_schedules f)
      | KindTakeover \<Rightarrow> i \<in> set (fl_takeovers f)
      | KindOverride \<Rightarrow> list_ex (\<lambda>r. or_id r = i \<and> \<not> or_stopped r) (fl_overrides f)
      | OtherKind _ \<Rightarrow> False)"

definition decision_of :: "list_kind \<Rightarrow> object_kind" where
  "decision_of kind =
     (case kind of KindScreen \<Rightarrow> ObjectScreen | KindGroup \<Rightarrow> ObjectGroup | KindSchedule \<Rightarrow> ObjectSchedule
      | KindTakeover \<Rightarrow> ObjectTakeover | KindOverride \<Rightarrow> ObjectPresentationOverride | OtherKind _ \<Rightarrow> ObjectHandler)"

lemma row_by_key:
  assumes "distinct (map key xs)" and "s \<in> set xs"
  shows "list_ex (\<lambda>x. key x = key s \<and> P x) xs \<longleftrightarrow> P s" and "key s \<in> key ` set (filter P xs) \<longleftrightarrow> P s"
proof -
  have u: "x = s" if "x \<in> set xs" "key x = key s" for x
    using assms that by (auto simp: distinct_map dest: inj_onD)
  show "list_ex (\<lambda>x. key x = key s \<and> P x) xs \<longleftrightarrow> P s" using u assms(2) unfolding list_ex_iff by blast
  show "key s \<in> key ` set (filter P xs) \<longleftrightarrow> P s" using u assms(2) by (auto simp: image_iff)
qed

text \<open>What one row of a list comes to, in a list of screens, groups and overrides.\<close>

lemma listed_screen:
  assumes "fleet_ok f" "reachable p f a c KindScreen ids = Inr reached" "i \<in> set ids" "live f KindScreen i" "\<not> sa_all (access p a)"
    and req: "ac_user a \<noteq> uuid_nil \<and> c \<in> ac_capabilities a"
  shows "i \<in> set reached \<longleftrightarrow> screen p f a c i = Inr ()"
proof -
  from assms(4) obtain s where s: "s \<in> set (fl_screens f)" "i = sw_id s" "\<not> sw_deleted s" by (auto simp: live_def list_ex_iff)
  note row = row_by_key [OF _ s(1), of sw_id]
  have "reached = map sw_id (filter (\<lambda>s. sw_id s \<in> set ids \<and> screen_sql p f (access p a) s) (fl_screens f))"
    using assms by (cases ids) (auto simp: reachable_def authorize_def)
  then have "i \<in> set reached \<longleftrightarrow> screen_sql p f (access p a) s" using row(2) assms(1,3) s(2) by (simp add: fleet_ok_def)
  also have "\<dots> \<longleftrightarrow> screen p f a c i = Inr ()" using req assms(5) row(1) assms(1) s by (simp add: screen_def decide_Inr fleet_ok_def)
  finally show ?thesis .
qed

lemma listed_group:
  assumes "fleet_ok f" "reachable p f a c KindGroup ids = Inr reached" "i \<in> set ids" "live f KindGroup i" "\<not> sa_all (access p a)"
    and req: "ac_user a \<noteq> uuid_nil \<and> c \<in> ac_capabilities a"
  shows "i \<in> set reached \<longleftrightarrow> group p f a c i = Inr ()"
proof -
  from assms(4) have g: "(i, False) \<in> set (fl_groups f)" by (simp add: live_def)
  note row = row_by_key [OF _ g, of fst]
  have "reached = filter (\<lambda>g. g \<in> set ids \<and> group_sql p f (access p a) g) (map fst (fl_groups f))"
    using assms by (cases ids) (auto simp: reachable_def authorize_def)
  moreover have "i \<in> set (map fst (fl_groups f))" using g by (auto intro: rev_image_eqI)
  ultimately have "i \<in> set reached \<longleftrightarrow> group_sql p f (access p a) i" using assms(3) by simp
  also have "\<dots> \<longleftrightarrow> group p f a c i = Inr ()"
    using req assms(5) row(1) assms(1) by (simp add: group_def decide_Inr fleet_ok_def case_prod_unfold)
  finally show ?thesis .
qed

lemma listed_override:
  assumes "fleet_ok f" "reachable p f a c KindOverride ids = Inr reached" "i \<in> set ids" "live f KindOverride i" "\<not> sa_all (access p a)"
    and req: "ac_user a \<noteq> uuid_nil \<and> c \<in> ac_capabilities a"
  shows "i \<in> set reached \<longleftrightarrow> authorize_override p f a c i = Inr ()"
proof -
  from assms(4) obtain r where o: "r \<in> set (fl_overrides f)" "i = or_id r" "\<not> or_stopped r" by (auto simp: live_def list_ex_iff)
  note row = row_by_key [OF _ o(1), of or_id]
  have "reached = map or_id (filter (\<lambda>r. or_id r \<in> set ids \<and> override_sql p f (access p a) r) (fl_overrides f))"
    using assms by (cases ids) (auto simp: reachable_def authorize_def)
  then have "i \<in> set reached \<longleftrightarrow> override_sql p f (access p a) r" using row(2) assms(1,3) o(2) by (simp add: fleet_ok_def)
  also have "\<dots> \<longleftrightarrow> authorize_override p f a c i = Inr ()"
    using req assms(5) row(1) assms(1) o by (simp add: authorize_override_def decide_Inr fleet_ok_def)
  finally show ?thesis .
qed

text \<open>
  C31. A list and a direct decision agree: of the objects that exist (a screen or group that is not deleted,
  a Quick Present that is not stopped), a list keeps exactly those that the decision for one object allows.
\<close>

theorem lists_agree_with_decisions:
  assumes f: "fleet_ok f" and r: "reachable p f a c kind ids = Inr reached"
    and i: "i \<in> set ids" "live f kind i"
  shows "i \<in> set reached \<longleftrightarrow> object_decision p f a (decision_of kind) c i m = Inr ()"
proof (cases "sa_all (access p a)")
  case True
  with r i show ?thesis
    by (cases kind) (auto simp: reachable_def authorize_def require_Inr object_decision_def decision_of_def live_def
        screen_def group_def authorize_schedule_def takeover_def authorize_override_def decide_Inr)
next
  case False
  have req: "ac_user a \<noteq> uuid_nil \<and> c \<in> ac_capabilities a"
    using r by (auto simp: reachable_def authorize_def require_Inr)
  have ids: "ids \<noteq> []" using i by auto
  note d = object_decision_def decision_of_def decide_Inr live_def reachable_def authorize_def require_Inr
  show ?thesis
  proof (cases kind)
    case KindScreen
    with listed_screen [OF f _ i(1) _ False req] r i show ?thesis by (simp add: object_decision_def decision_of_def)
  next
    case KindGroup
    with listed_group [OF f _ i(1) _ False req] r i show ?thesis by (simp add: object_decision_def decision_of_def)
  next
    case KindSchedule
    with r False ids i req show ?thesis by (auto simp: d authorize_schedule_def)
  next
    case KindTakeover
    with r False ids i req show ?thesis by (auto simp: d takeover_def)
  next
    case KindOverride
    with listed_override [OF f _ i(1) _ False req] r i show ?thesis by (simp add: object_decision_def decision_of_def)
  qed (use i in \<open>simp add: live_def\<close>)
qed

text \<open>
  C11. Delegation never widens reach. After an account has stored a policy for another account (not an
  Owner, with no capability the first one lacks), whatever that account is allowed on any fleet, now or
  later, the first one is allowed too, and the decisions for everybody else are what they were.
\<close>

theorem delegation_never_widens:
  assumes del: "delegable_policy p a input = Inr ()" and rep: "replace_policy f by (ac_user b) input p = Inr p'"
    and a: "ac_user a \<noteq> uuid_nil" "sa_configured (access p a)"
    and b: "ac_user b \<noteq> ac_user a" "\<not> ac_owner b" "ac_capabilities b \<subseteq> ac_capabilities a"
  shows "(\<forall>g kind c i m. fleet_ok g \<and> object_decision p' g b kind c i m = Inr () \<longrightarrow> object_decision p' g a kind c i m = Inr ())
     \<and> (\<forall>d. ac_user d \<noteq> ac_user b \<longrightarrow> access p' d = access p d
          \<and> (\<forall>kind i. has_grant p' (ac_user d) kind i \<longleftrightarrow> has_grant p (ac_user d) kind i))"
proof -
  note eff = replace_policy_effect [OF rep]
  have others: "access p' d = access p d \<and> (\<forall>kind i. has_grant p' (ac_user d) kind i \<longleftrightarrow> has_grant p (ac_user d) kind i)"
    if "ac_user d \<noteq> ac_user b" for d
    using that eff(1,2) by (simp add: access_def)
  have acc: "sa_all (access p' b) \<longleftrightarrow> pi_mode input = ''all''" using b(2) eff(1) by (simp add: access_def)
  have "access_le p' b p' a"
  proof (cases "sa_all (access p a)")
    case True
    then show ?thesis using others [of a] b(1) by (simp add: access_le_def)
  next
    case False
    with del have "pi_mode input \<noteq> ''all''" "\<forall>g\<in>set (pi_grants input). has_grant p (ac_user a) (gr_type g) (gr_id g)"
      by (auto simp: delegable_policy_Inr)
    with acc others [of a] b(1) a(2) eff(2) show ?thesis by (auto simp: access_le_def grants_le_def)
  qed
  then show ?thesis using others object_decision_mono a(1) b(3) by blast
qed

section \<open>Examples\<close>

text \<open>
  Two screens in two locations, a Display Group of the first one, and a deleted group; a manager who is
  granted the first location and the deleted group, and a colleague without grants.
\<close>

definition lobby_fleet :: fleet where
  "lobby_fleet =
     \<lparr>fl_screens =
        [\<lparr>sw_id = UUID ''lobby'', sw_location = Some (UUID ''ground''), sw_deleted = False, sw_archived = False, sw_installation = ''p1''\<rparr>,
         \<lparr>sw_id = UUID ''roof'', sw_location = Some (UUID ''top''), sw_deleted = False, sw_archived = False, sw_installation = ''p2''\<rparr>],
      fl_groups = [(UUID ''doors'', False), (UUID ''gone'', True)], fl_members = [(UUID ''doors'', UUID ''lobby'')],
      fl_locations = [UUID ''ground'', UUID ''top''], fl_schedules = [], fl_targets = [], fl_takeovers = [],
      fl_takeover_screens = [], fl_session_screens = [], fl_update_screens = [], fl_overrides = [], fl_pairings = []\<rparr>"

definition manager :: actor where
  "manager = \<lparr>ac_user = UUID ''manager'', ac_owner = False, ac_capabilities = {''screen.read''}\<rparr>"

definition colleague :: actor where
  "colleague = \<lparr>ac_user = UUID ''colleague'', ac_owner = False, ac_capabilities = {''screen.read''}\<rparr>"

definition lobby_policies :: policies where
  "lobby_policies =
     \<lparr>po_access = [(UUID ''manager'', ''restricted'')],
      po_scopes = [\<lparr>sc_user = UUID ''manager'', sc_type = ''location'', sc_id = UUID ''ground'', sc_by = None\<rparr>,
                   \<lparr>sc_user = UUID ''manager'', sc_type = ''group'', sc_id = UUID ''gone'', sc_by = None\<rparr>],
      po_audit = []\<rparr>"

lemma lobby_ok: "fleet_ok lobby_fleet"
  by code_simp

lemma lobby_decisions:
  "authorize_selection lobby_policies lobby_fleet manager ''screen.read''
     \<lparr>sl_screens = [UUID ''lobby''], sl_groups = [UUID ''doors''], sl_peers = False\<rparr> = Inr ()"
  "authorize_selection lobby_policies lobby_fleet manager ''screen.read''
     \<lparr>sl_screens = [UUID ''lobby'', UUID ''roof''], sl_groups = [], sl_peers = False\<rparr> = Inl OutOfScope"
  "reachable lobby_policies lobby_fleet manager ''screen.read'' KindScreen [UUID ''lobby'', UUID ''roof'']
     = Inr [UUID ''lobby'']"
  by code_simp+

lemma selection_all_or_nothing_witness:
  "screen lobby_policies lobby_fleet manager ''screen.read'' (UUID ''lobby'') = Inr ()
   \<and> group lobby_policies lobby_fleet manager ''screen.read'' (UUID ''doors'') = Inr ()"
  using selection_all_or_nothing [OF lobby_ok, of lobby_policies manager "''screen.read''"
      "\<lparr>sl_screens = [UUID ''lobby''], sl_groups = [UUID ''doors''], sl_peers = False\<rparr>"] lobby_decisions(1)
  by (simp add: access_def manager_def lobby_policies_def)

lemma lists_agree_with_decisions_witness:
  "object_decision lobby_policies lobby_fleet manager ObjectScreen ''screen.read'' (UUID ''lobby'') None = Inr ()
   \<and> object_decision lobby_policies lobby_fleet manager ObjectScreen ''screen.read'' (UUID ''roof'') None \<noteq> Inr ()"
proof -
  have "live lobby_fleet KindScreen (UUID ''lobby'')" "live lobby_fleet KindScreen (UUID ''roof'')"
    by (simp_all add: live_def lobby_fleet_def)
  with lists_agree_with_decisions [OF lobby_ok lobby_decisions(3), of "UUID ''lobby''" None]
    lists_agree_with_decisions [OF lobby_ok lobby_decisions(3), of "UUID ''roof''" None]
  show ?thesis by (simp add: decision_of_def)
qed

definition ground_policy :: policy_input where
  "ground_policy = \<lparr>pi_mode = ''restricted'', pi_grants = [\<lparr>gr_type = ''location'', gr_id = UUID ''ground''\<rparr>]\<rparr>"

lemma delegation_never_widens_witness:
  "\<exists>p'. replace_policy lobby_fleet (UUID ''manager'') (UUID ''colleague'') ground_policy lobby_policies = Inr p'
     \<and> screen p' lobby_fleet colleague ''screen.read'' (UUID ''lobby'') = Inr ()
     \<and> object_decision p' lobby_fleet manager ObjectScreen ''screen.read'' (UUID ''lobby'') None = Inr ()"
proof -
  define p' where "p' = \<lparr>po_access = [(UUID ''manager'', ''restricted''), (UUID ''colleague'', ''restricted'')],
      po_scopes = po_scopes lobby_policies
        @ [\<lparr>sc_user = UUID ''colleague'', sc_type = ''location'', sc_id = UUID ''ground'', sc_by = Some (UUID ''manager'')\<rparr>],
      po_audit = [(Some (UUID ''manager''), UUID ''colleague'', ''restricted'', 1)]\<rparr>"
  have rep: "replace_policy lobby_fleet (UUID ''manager'') (ac_user colleague) ground_policy lobby_policies = Inr p'"
    unfolding p'_def by code_simp
  have del: "delegable_policy lobby_policies manager ground_policy = Inr ()" by code_simp
  have ok: "object_decision p' lobby_fleet colleague ObjectScreen ''screen.read'' (UUID ''lobby'') None = Inr ()"
    unfolding p'_def by code_simp
  have "ac_user manager \<noteq> uuid_nil" "sa_configured (access lobby_policies manager)"
    "ac_user colleague \<noteq> ac_user manager" "\<not> ac_owner colleague" "ac_capabilities colleague \<subseteq> ac_capabilities manager"
    by (simp_all add: manager_def colleague_def uuid_nil_def access_def lobby_policies_def)
  from delegation_never_widens [OF del rep this] lobby_ok ok
  have "object_decision p' lobby_fleet manager ObjectScreen ''screen.read'' (UUID ''lobby'') None = Inr ()" by blast
  with rep ok show ?thesis by (auto simp: colleague_def object_decision_def)
qed

text \<open>
  The agreement of lists and decisions stops at deleted objects: \<open>Reachable\<close> does not look at the deletion,
  so it keeps a deleted group that is still granted, which the decision for the group does not find.
\<close>

lemma deleted_group_listed:
  "reachable lobby_policies lobby_fleet manager ''screen.read'' KindGroup [UUID ''gone''] = Inr [UUID ''gone'']"
  "group lobby_policies lobby_fleet manager ''screen.read'' (UUID ''gone'') = Inl NotFound"
  by code_simp+

end
