(* ===== verification/SyncGroups.thy ===== *)
theory SyncGroups
  imports ScreenAuthz
begin

text \<open>
  Membership of Display Groups (\<open>scheduling/service.go\<close>: \<open>CreateGroupWithScreens\<close>, \<open>AddScreen\<close>,
  \<open>RemoveScreen\<close>, \<open>DeleteGroup\<close>). A screen that joins a group gives up its own assignment and schedules to the
  group; a snapshot of them is kept and put back when it leaves. A transaction that fails changes nothing.
  Notifications and the audit rows written after the commit are left out; the serial id and \<open>updated_at\<close> of an
  assignment are not represented.
\<close>

section \<open>Tables\<close>

record assignment =
  as_key :: uuid
  as_playlist :: "uuid option"
  as_layout :: "uuid option"
  as_by :: "uuid option"
  as_at :: int

record snapshot =
  sn_screen :: uuid
  sn_playlist :: "uuid option"
  sn_layout :: "uuid option"
  sn_by :: "uuid option"
  sn_at :: "int option"

record schedule_flags =
  sf_id :: uuid
  sf_deleted :: bool
  sf_enabled :: bool
  sf_display :: bool

record group_row =
  gp_id :: uuid
  gp_name :: string
  gp_gateway :: "uuid option"
  gp_epoch :: int

record sync_db =
  sy_fleet :: fleet
  sy_platforms :: "(uuid \<times> string) list"
  sy_group_rows :: "group_row list"
  sy_playlists :: "uuid list"
  sy_layouts :: "uuid list"
  sy_schedules :: "schedule_flags list"
  sy_assigned :: "assignment list"
  sy_group_assigned :: "assignment list"
  sy_snapshots :: "snapshot list"
  sy_schedule_snapshots :: "(uuid \<times> uuid) list"
  sy_versions :: "(uuid \<times> int) list"
  sy_config :: "(uuid \<times> int) list"
  sy_alert_groups :: "uuid list"

datatype sync_error = GroupNotFound | GroupConflict | DisplayControlUnsupported | GroupNameLength | DescriptionTooLong | Denied denial

section \<open>Parts of the statements\<close>

definition group_live :: "sync_db \<Rightarrow> uuid \<Rightarrow> bool" where
  "group_live db g \<longleftrightarrow> list_ex (\<lambda>(i, deleted). i = g \<and> \<not> deleted) (fl_groups (sy_fleet db))"

definition screen_exists :: "sync_db \<Rightarrow> uuid \<Rightarrow> bool" where
  "screen_exists db s \<longleftrightarrow> list_ex (\<lambda>x. sw_id x = s) (fl_screens (sy_fleet db))"

definition not_linux :: "sync_db \<Rightarrow> uuid \<Rightarrow> bool" where
  "not_linux db s \<longleftrightarrow> list_ex (\<lambda>(i, platform). i = s \<and> platform \<noteq> ''linux'') (sy_platforms db)"

definition display_schedule :: "sync_db \<Rightarrow> uuid \<Rightarrow> bool" where
  "display_schedule db i \<longleftrightarrow> list_ex (\<lambda>r. sf_id r = i \<and> \<not> sf_deleted r \<and> sf_display r) (sy_schedules db)"

definition members_of :: "sync_db \<Rightarrow> uuid \<Rightarrow> uuid list" where
  "members_of db g = map snd (filter (\<lambda>(i, m). i = g) (fl_members (sy_fleet db)))"

definition display_unsupported :: "uuid \<Rightarrow> uuid \<Rightarrow> sync_db \<Rightarrow> bool" where
  "display_unsupported g s db \<longleftrightarrow> group_live db g \<and> screen_exists db s
     \<and> ((not_linux db s
          \<and> list_ex (\<lambda>t. st_type t = ''group'' \<and> st_group t = Some g \<and> display_schedule db (st_schedule t)) (fl_targets (sy_fleet db)))
        \<or> (list_ex (not_linux db) (members_of db g)
          \<and> list_ex (\<lambda>t. st_type t = ''screen'' \<and> st_screen t = Some s \<and> display_schedule db (st_schedule t)) (fl_targets (sy_fleet db))))"

definition screen_target :: "uuid \<Rightarrow> uuid \<Rightarrow> schedule_target" where
  "screen_target i s = \<lparr>st_schedule = i, st_type = ''screen'', st_screen = Some s, st_group = None\<rparr>"

definition group_target :: "uuid \<Rightarrow> uuid \<Rightarrow> schedule_target" where
  "group_target i g = \<lparr>st_schedule = i, st_type = ''group'', st_screen = None, st_group = Some g\<rparr>"

text \<open>The schedules that target a screen directly.\<close>

definition own_schedules :: "fleet \<Rightarrow> uuid \<Rightarrow> uuid list" where
  "own_schedules f s =
     map st_schedule (filter (\<lambda>t. st_type t = ''screen'' \<and> st_screen t = Some s) (fl_targets f))"

text \<open>\<open>INSERT \<dots> ON CONFLICT (schedule_id, \<dots>) DO NOTHING\<close>, row by row.\<close>

definition add_target :: "schedule_target \<Rightarrow> fleet \<Rightarrow> fleet" where
  "add_target t f =
     (if list_ex (\<lambda>u. st_schedule u = st_schedule t
          \<and> ((st_screen t \<noteq> None \<and> st_screen u = st_screen t) \<or> (st_group t \<noteq> None \<and> st_group u = st_group t))) (fl_targets f)
      then f else f\<lparr>fl_targets := fl_targets f @ [t]\<rparr>)"

text \<open>The upserts of the manifest version and of the configuration revision.\<close>

definition bump :: "int \<Rightarrow> uuid \<Rightarrow> (uuid \<times> int) list \<Rightarrow> (uuid \<times> int) list" where
  "bump first s vs =
     (if s \<in> fst ` set vs then map (\<lambda>(i, v). if i = s then (i, v + 1) else (i, v)) vs else vs @ [(s, first)])"

definition upsert_assignment :: "uuid \<Rightarrow> uuid option \<Rightarrow> uuid option \<Rightarrow> uuid option \<Rightarrow> int \<Rightarrow> assignment list \<Rightarrow> assignment list" where
  "upsert_assignment s playlist layout by at rows =
     (if s \<in> as_key ` set rows
      then map (\<lambda>a. if as_key a = s then a\<lparr>as_playlist := playlist, as_layout := layout, as_by := by\<rparr> else a) rows
      else rows @ [\<lparr>as_key = s, as_playlist = playlist, as_layout = layout, as_by = by, as_at = at\<rparr>])"

section \<open>Joining\<close>

definition insert_membership :: "uuid \<Rightarrow> uuid \<Rightarrow> sync_db \<Rightarrow> sync_error + sync_db" where
  "insert_membership g s db =
     andthen (check (group_live db g \<and> screen_exists db s \<and> \<not> list_ex (\<lambda>(i, m). m = s) (fl_members (sy_fleet db))) GroupConflict) (\<lambda>_.
     Inr (db\<lparr>sy_fleet := (sy_fleet db)\<lparr>fl_members := fl_members (sy_fleet db) @ [(g, s)]\<rparr>\<rparr>))"

definition assignment_of :: "uuid \<Rightarrow> assignment list \<Rightarrow> assignment option" where
  "assignment_of k rows = find (\<lambda>a. as_key a = k) rows"

definition inherit_assignment :: "uuid \<Rightarrow> uuid \<Rightarrow> uuid \<Rightarrow> sync_db \<Rightarrow> sync_db" where
  "inherit_assignment g s user db =
     (case assignment_of s (sy_assigned db) of
        None \<Rightarrow> db
      | Some a \<Rightarrow> if g \<in> as_key ` set (sy_group_assigned db) then db
          else db\<lparr>sy_group_assigned := sy_group_assigned db @ [a\<lparr>as_key := g, as_by := Some user\<rparr>]\<rparr>)"

definition take_snapshot :: "uuid \<Rightarrow> sync_db \<Rightarrow> sync_db" where
  "take_snapshot s db =
     db\<lparr>sy_snapshots := filter (\<lambda>n. sn_screen n \<noteq> s) (sy_snapshots db)
          @ [case assignment_of s (sy_assigned db) of
               None \<Rightarrow> \<lparr>sn_screen = s, sn_playlist = None, sn_layout = None, sn_by = None, sn_at = None\<rparr>
             | Some a \<Rightarrow> \<lparr>sn_screen = s, sn_playlist = as_playlist a, sn_layout = as_layout a, sn_by = as_by a, sn_at = Some (as_at a)\<rparr>],
        sy_schedule_snapshots := filter (\<lambda>(m, i). m \<noteq> s) (sy_schedule_snapshots db) @ map (Pair s) (own_schedules (sy_fleet db) s)\<rparr>"

definition hand_over :: "uuid \<Rightarrow> uuid \<Rightarrow> sync_db \<Rightarrow> sync_db" where
  "hand_over g s db =
     (let f = fold (\<lambda>i. add_target (group_target i g)) (own_schedules (sy_fleet db) s) (sy_fleet db)
      in db\<lparr>sy_assigned := filter (\<lambda>a. as_key a \<noteq> s) (sy_assigned db),
            sy_fleet := f\<lparr>fl_targets := filter (\<lambda>t. \<not> (st_type t = ''screen'' \<and> st_screen t = Some s)) (fl_targets f)\<rparr>\<rparr>)"

definition restart_group :: "uuid \<Rightarrow> int \<Rightarrow> sync_db \<Rightarrow> sync_db" where
  "restart_group g now db =
     db\<lparr>sy_group_rows := map (\<lambda>r. if gp_id r = g then r\<lparr>gp_epoch := now\<rparr> else r) (sy_group_rows db),
        sy_versions := fold (bump 1) (members_of db g) (sy_versions db)\<rparr>"

definition bump_config :: "uuid \<Rightarrow> sync_db \<Rightarrow> sync_db" where
  "bump_config s db = db\<lparr>sy_config := bump 2 s (sy_config db)\<rparr>"

definition add_screen_in_tx :: "uuid \<Rightarrow> uuid \<Rightarrow> uuid \<Rightarrow> int \<Rightarrow> sync_db \<Rightarrow> sync_error + sync_db" where
  "add_screen_in_tx g s user now db =
     andthen (check (\<not> display_unsupported g s db) DisplayControlUnsupported) (\<lambda>_.
     andthen (insert_membership g s db) (\<lambda>db1.
     Inr (bump_config s (restart_group g now (hand_over g s (take_snapshot s (inherit_assignment g s user db1)))))))"

text \<open>\<open>validateGroup\<close> counts bytes. The identifier of the new group is an argument; \<open>allow\<close> is the decision \<open>authorize\<close>, taken first.\<close>

definition validate_group :: "string \<Rightarrow> string \<Rightarrow> sync_error + unit" where
  "validate_group name description =
     andthen (check (1 \<le> length (trim_space name) \<and> length (trim_space name) \<le> 180) GroupNameLength) (\<lambda>_.
     check (length description \<le> 2000) DescriptionTooLong)"

fun add_screens :: "uuid \<Rightarrow> uuid list \<Rightarrow> uuid \<Rightarrow> int \<Rightarrow> sync_db \<Rightarrow> sync_error + sync_db" where
  "add_screens g [] user now db = Inr db"
| "add_screens g (s # ss) user now db = andthen (add_screen_in_tx g s user now db) (add_screens g ss user now)"

definition insert_group :: "uuid \<Rightarrow> string \<Rightarrow> int \<Rightarrow> sync_db \<Rightarrow> sync_db" where
  "insert_group g name now db =
     db\<lparr>sy_fleet := (sy_fleet db)\<lparr>fl_groups := fl_groups (sy_fleet db) @ [(g, False)]\<rparr>,
        sy_group_rows := sy_group_rows db @ [\<lparr>gp_id = g, gp_name = trim_space name, gp_gateway = None, gp_epoch = now\<rparr>]\<rparr>"

definition create_group ::
  "(sync_db \<Rightarrow> denial + unit) \<Rightarrow> uuid \<Rightarrow> string \<Rightarrow> string \<Rightarrow> uuid list \<Rightarrow> uuid \<Rightarrow> int \<Rightarrow> sync_db \<Rightarrow> sync_error + sync_db" where
  "create_group allow g name description new_members user now db =
     andthen (validate_group name description) (\<lambda>_.
     andthen (case allow db of Inl e \<Rightarrow> Inl (Denied e) | Inr _ \<Rightarrow> Inr ()) (\<lambda>_.
     add_screens g new_members user now (insert_group g name now db)))"

section \<open>Leaving\<close>

definition snapshot_of :: "uuid \<Rightarrow> sync_db \<Rightarrow> snapshot option" where
  "snapshot_of s db = find (\<lambda>n. sn_screen n = s) (sy_snapshots db)"

definition content_exists :: "sync_db \<Rightarrow> uuid option \<Rightarrow> uuid option \<Rightarrow> bool" where
  "content_exists db playlist layout \<longleftrightarrow> ((playlist = None) \<noteq> (layout = None))
     \<and> ((case playlist of None \<Rightarrow> False | Some p \<Rightarrow> p \<in> set (sy_playlists db))
        \<or> (case layout of None \<Rightarrow> False | Some l \<Rightarrow> l \<in> set (sy_layouts db)))"

definition restore_assignment :: "uuid \<Rightarrow> uuid \<Rightarrow> uuid \<Rightarrow> int \<Rightarrow> sync_db \<Rightarrow> sync_db" where
  "restore_assignment g s user now db =
     (case snapshot_of s db of
        Some n \<Rightarrow>
          if content_exists db (sn_playlist n) (sn_layout n)
          then db\<lparr>sy_assigned := upsert_assignment s (sn_playlist n) (sn_layout n)
                 (case sn_by n of None \<Rightarrow> Some user | Some b \<Rightarrow> Some b)
                 (case sn_at n of None \<Rightarrow> now | Some t \<Rightarrow> t) (sy_assigned db)\<rparr>
          else db
      | None \<Rightarrow>
          case assignment_of g (sy_group_assigned db) of
            None \<Rightarrow> db
          | Some a \<Rightarrow> db\<lparr>sy_assigned := upsert_assignment s (as_playlist a) (as_layout a) (Some user) now (sy_assigned db)\<rparr>)"

definition schedule_live :: "sync_db \<Rightarrow> uuid \<Rightarrow> bool" where
  "schedule_live db i \<longleftrightarrow> list_ex (\<lambda>r. sf_id r = i \<and> \<not> sf_deleted r) (sy_schedules db)"

definition restore_schedules :: "uuid \<Rightarrow> sync_db \<Rightarrow> sync_db" where
  "restore_schedules s db =
     db\<lparr>sy_fleet := fold (\<lambda>(m, i). if m = s \<and> schedule_live db i then add_target (screen_target i s) else (\<lambda>f. f))
          (sy_schedule_snapshots db) (sy_fleet db)\<rparr>"

definition drop_snapshot :: "uuid \<Rightarrow> sync_db \<Rightarrow> sync_db" where
  "drop_snapshot s db =
     db\<lparr>sy_snapshots := filter (\<lambda>n. sn_screen n \<noteq> s) (sy_snapshots db),
        sy_schedule_snapshots := filter (\<lambda>(m, i). m \<noteq> s) (sy_schedule_snapshots db)\<rparr>"

definition restore_screen_snapshot :: "uuid \<Rightarrow> uuid \<Rightarrow> uuid \<Rightarrow> int \<Rightarrow> sync_db \<Rightarrow> sync_db" where
  "restore_screen_snapshot g s user now db =
     drop_snapshot s (restore_schedules s (restore_assignment g s user now db))"

definition remove_membership :: "uuid \<Rightarrow> uuid \<Rightarrow> sync_db \<Rightarrow> sync_db" where
  "remove_membership g s db =
     db\<lparr>sy_fleet := (sy_fleet db)\<lparr>fl_members := filter (\<lambda>r. r \<noteq> (g, s)) (fl_members (sy_fleet db))\<rparr>\<rparr>"

definition clear_gateway :: "uuid \<Rightarrow> uuid \<Rightarrow> sync_db \<Rightarrow> sync_db" where
  "clear_gateway g s db =
     db\<lparr>sy_group_rows := map (\<lambda>r. if gp_id r = g \<and> gp_gateway r = Some s then r\<lparr>gp_gateway := None\<rparr> else r) (sy_group_rows db)\<rparr>"

definition remove_screen :: "uuid \<Rightarrow> uuid \<Rightarrow> uuid \<Rightarrow> int \<Rightarrow> sync_db \<Rightarrow> sync_error + sync_db" where
  "remove_screen g s user now db =
     (let db1 = restore_screen_snapshot g s user now db
      in andthen (check ((g, s) \<in> set (fl_members (sy_fleet db1))) GroupNotFound) (\<lambda>_.
         let db2 = clear_gateway g s (remove_membership g s db1)
         in Inr (bump_config s (db2\<lparr>sy_versions := bump 1 s (sy_versions db2)\<rparr>))))"

section \<open>Deleting a group\<close>

definition disable_schedules :: "uuid \<Rightarrow> sync_db \<Rightarrow> sync_db" where
  "disable_schedules g db =
     db\<lparr>sy_schedules := map (\<lambda>r. if \<not> sf_deleted r \<and> sf_enabled r
            \<and> list_ex (\<lambda>t. st_type t = ''group'' \<and> st_group t = Some g \<and> st_schedule t = sf_id r) (fl_targets (sy_fleet db))
          then r\<lparr>sf_enabled := False\<rparr> else r) (sy_schedules db)\<rparr>"

definition stop_overrides :: "uuid \<Rightarrow> sync_db \<Rightarrow> sync_db" where
  "stop_overrides g db =
     db\<lparr>sy_fleet := (sy_fleet db)\<lparr>fl_overrides := map (\<lambda>o'. if or_type o' = ''group'' \<and> or_target o' = g
          then o'\<lparr>or_stopped := True\<rparr> else o') (fl_overrides (sy_fleet db))\<rparr>\<rparr>"

definition delete_group :: "uuid \<Rightarrow> uuid \<Rightarrow> int \<Rightarrow> sync_db \<Rightarrow> sync_error + sync_db" where
  "delete_group g user now db =
     andthen (check (group_live db g) GroupNotFound) (\<lambda>_.
       let ms = members_of db g;
           db1 = db\<lparr>sy_versions := fold (bump 1) ms (sy_versions db),
                    sy_fleet := (sy_fleet db)\<lparr>fl_groups := map (\<lambda>(i, deleted). (i, deleted \<or> i = g)) (fl_groups (sy_fleet db))\<rparr>\<rparr>;
           db2 = fold (\<lambda>s. restore_screen_snapshot g s user now) ms db1;
           db3 = db2\<lparr>sy_group_assigned := filter (\<lambda>a. as_key a \<noteq> g) (sy_group_assigned db2),
                     sy_alert_groups := filter (\<lambda>i. i \<noteq> g) (sy_alert_groups db2)\<rparr>;
           db4 = fold bump_config ms db3;
           db5 = db4\<lparr>sy_fleet := (sy_fleet db4)\<lparr>fl_members := filter (\<lambda>(i, m). i \<noteq> g) (fl_members (sy_fleet db4))\<rparr>\<rparr>
       in Inr (stop_overrides g (disable_schedules g db5)))"


section \<open>Histories\<close>

text \<open>The service's operations, each a transaction: one that fails leaves the tables as they were.\<close>

datatype sync_op =
    JoinGroup uuid uuid uuid int
  | LeaveGroup uuid uuid uuid int
  | NewGroup "denial + unit" uuid string string "uuid list" uuid int
  | DropGroup uuid uuid int

fun sync_attempt :: "sync_op \<Rightarrow> sync_db \<Rightarrow> sync_error + sync_db" where
  "sync_attempt (JoinGroup g s user now) db = add_screen_in_tx g s user now db"
| "sync_attempt (LeaveGroup g s user now) db = remove_screen g s user now db"
| "sync_attempt (NewGroup decision g name description new_members user now) db =
     create_group (\<lambda>_. decision) g name description new_members user now db"
| "sync_attempt (DropGroup g user now) db = delete_group g user now db"

definition sync_step :: "sync_op \<Rightarrow> sync_db \<Rightarrow> sync_db" where
  "sync_step op db = (case sync_attempt op db of Inl _ \<Rightarrow> db | Inr db' \<Rightarrow> db')"

text \<open>Everything that leaving the group will read of a screen.\<close>

definition target_rows :: "fleet \<Rightarrow> uuid \<Rightarrow> schedule_target list" where
  "target_rows f s = filter (\<lambda>t. st_screen t = Some s) (fl_targets f)"

definition screen_view :: "uuid \<Rightarrow> sync_db \<Rightarrow> assignment option \<times> schedule_target list \<times> snapshot option \<times> uuid list" where
  "screen_view s db = (assignment_of s (sy_assigned db), target_rows (sy_fleet db) s, snapshot_of s db,
     map snd (filter (\<lambda>(m, i). m = s) (sy_schedule_snapshots db)))"

definition library_view :: "sync_db \<Rightarrow> uuid list \<times> uuid list \<times> (uuid \<Rightarrow> bool)" where
  "library_view db = (sy_playlists db, sy_layouts db, schedule_live db)"

section \<open>What a step leaves alone\<close>

named_theorems sync_frame

lemma target_rows_add_other [sync_frame]:
  "st_screen t \<noteq> Some s \<Longrightarrow> target_rows (add_target t f) s = target_rows f s"
  by (auto simp: target_rows_def add_target_def)

lemma group_target_other [sync_frame]: "target_rows (add_target (group_target i g) f) s = target_rows f s"
  by (rule target_rows_add_other) (simp add: group_target_def)

lemma screen_target_other [sync_frame]: "m \<noteq> s \<Longrightarrow> target_rows (add_target (screen_target i m) f) s = target_rows f s"
  by (rule target_rows_add_other) (simp add: screen_target_def)

lemma target_rows_fold [sync_frame]:
  assumes "\<And>x f. x \<in> set xs \<Longrightarrow> target_rows (h x f) s = target_rows f s"
  shows "target_rows (fold h xs f) s = target_rows f s"
  using assms by (induction xs arbitrary: f) simp_all

lemma target_rows_members [sync_frame]: "target_rows (f\<lparr>fl_members := ms\<rparr>) s = target_rows f s"
  by (simp add: target_rows_def)

lemma target_rows_groups [sync_frame]: "target_rows (f\<lparr>fl_groups := gs\<rparr>) s = target_rows f s"
  by (simp add: target_rows_def)

lemma target_rows_overrides [sync_frame]: "target_rows (f\<lparr>fl_overrides := os\<rparr>) s = target_rows f s"
  by (simp add: target_rows_def)

text \<open>Only target rows are touched by the folds over schedules.\<close>

definition same_rest :: "fleet \<Rightarrow> fleet \<Rightarrow> bool" where
  "same_rest f f' \<longleftrightarrow> f' = f\<lparr>fl_targets := fl_targets f'\<rparr>"

lemma same_rest_refl: "same_rest f f"
  by (simp add: same_rest_def)

lemma same_rest_add: "same_rest f (add_target t f)"
  by (simp add: same_rest_def add_target_def)

lemma same_rest_fold:
  assumes "\<And>x f. same_rest f (h x f)"
  shows "same_rest f (fold h xs f)"
proof (induction xs arbitrary: f)
  case Nil
  then show ?case by (simp add: same_rest_def)
next
  case (Cons x xs)
  from assms[of f x] Cons[of "h x f"] show ?case
    by (cases f; cases "h x f"; cases "fold h xs (h x f)") (simp add: same_rest_def)
qed

lemma same_rest_members: "same_rest f f' \<Longrightarrow> fl_members f' = fl_members f"
  by (cases f; cases f') (simp add: same_rest_def)

lemma assignment_of_filter [sync_frame]: "m \<noteq> s \<Longrightarrow> assignment_of s (filter (\<lambda>a. as_key a \<noteq> m) rows) = assignment_of s rows"
  by (induction rows) (auto simp: assignment_of_def)

lemma assignment_of_none: "assignment_of s (filter (\<lambda>a. as_key a \<noteq> s) rows) = None"
  by (auto simp: assignment_of_def find_None_iff)

lemma find_append: "find P (xs @ ys) = (case find P xs of None \<Rightarrow> find P ys | Some x \<Rightarrow> Some x)"
  by (induction xs) auto

lemma assignment_of_upsert_other [sync_frame]:
  "m \<noteq> s \<Longrightarrow> assignment_of s (upsert_assignment m p l b t rows) = assignment_of s rows"
proof -
  assume ms: "m \<noteq> s"
  have "find (\<lambda>a. as_key a = s) (map (\<lambda>a. if as_key a = m then a\<lparr>as_playlist := p, as_layout := l, as_by := b\<rparr> else a) rows)
      = find (\<lambda>a. as_key a = s) rows"
    using ms by (induction rows) auto
  with ms show ?thesis
    by (auto simp: assignment_of_def upsert_assignment_def find_append split: option.splits)
qed

lemma snapshot_filter_other [sync_frame]:
  "m \<noteq> s \<Longrightarrow> find (\<lambda>n. sn_screen n = s) (filter (\<lambda>n. sn_screen n \<noteq> m) rows) = find (\<lambda>n. sn_screen n = s) rows"
  by (induction rows) auto

lemma snapshot_filter_same: "find (\<lambda>n. sn_screen n = s) (filter (\<lambda>n. sn_screen n \<noteq> s) rows) = None"
  by (auto simp: find_None_iff)


definition undisturbed :: "uuid \<Rightarrow> sync_db \<Rightarrow> sync_db \<Rightarrow> bool" where
  "undisturbed s db db' \<longleftrightarrow> screen_view s db' = screen_view s db \<and> library_view db' = library_view db"

lemma undisturbed_trans: "undisturbed s db db' \<Longrightarrow> undisturbed s db' db'' \<Longrightarrow> undisturbed s db db''"
  by (simp add: undisturbed_def)

lemma undisturbed_fold:
  assumes "\<And>x db. x \<in> set xs \<Longrightarrow> undisturbed s db (h x db)"
  shows "undisturbed s db (fold h xs db)"
  using assms
proof (induction xs arbitrary: db)
  case Nil
  show ?case by (simp add: undisturbed_def)
next
  case (Cons x xs)
  have "undisturbed s db (h x db)" by (rule Cons.prems) simp
  moreover have "undisturbed s (h x db) (fold h xs (h x db))" by (rule Cons.IH) (rule Cons.prems, simp)
  ultimately have "undisturbed s db (fold h xs (h x db))" by (rule undisturbed_trans)
  then show ?case by simp
qed

lemmas view_defs = undisturbed_def screen_view_def library_view_def snapshot_of_def schedule_live_def[abs_def]

lemma undisturbed_inherit: "undisturbed s db (inherit_assignment g m user db)"
  by (simp add: view_defs inherit_assignment_def split: option.split)

lemma filter_pairs_append_other [sync_frame]:
  "m \<noteq> s \<Longrightarrow> filter (\<lambda>(n, i). n = s) (filter (\<lambda>(n, i). n \<noteq> m) xs @ map (Pair m) ys) = filter (\<lambda>(n, i). n = s) xs"
  by (induction xs) (auto simp: filter_empty_conv)

lemma filter_pairs_other [sync_frame]:
  "m \<noteq> s \<Longrightarrow> filter (\<lambda>(n, i). n = s) (filter (\<lambda>(n, i). n \<noteq> m) xs) = filter (\<lambda>(n, i). n = s) xs"
  by (induction xs) auto

lemma undisturbed_snapshot: "m \<noteq> s \<Longrightarrow> undisturbed s db (take_snapshot m db)"
  by (auto simp: view_defs take_snapshot_def find_append snapshot_filter_other filter_pairs_append_other[of m s, simplified]
      split: option.splits)

lemma target_rows_drop_other [sync_frame]:
  assumes "m \<noteq> s"
  shows "target_rows (f\<lparr>fl_targets := filter (\<lambda>t. \<not> (st_type t = ''screen'' \<and> st_screen t = Some m)) (fl_targets f)\<rparr>) s
    = target_rows f s"
proof -
  have "filter (\<lambda>t. st_screen t = Some s)
      (filter (\<lambda>t. \<not> (st_type t = ''screen'' \<and> st_screen t = Some m)) ts)
    = filter (\<lambda>t. st_screen t = Some s) ts" for ts :: "schedule_target list"
    using assms by (induction ts) auto
  then show ?thesis by (simp add: target_rows_def del: filter_filter)
qed

lemma undisturbed_hand_over:
  assumes "m \<noteq> s"
  shows "undisturbed s db (hand_over g m db)"
proof -
  have "target_rows (fold (\<lambda>i. add_target (group_target i g)) is (sy_fleet db)) s = target_rows (sy_fleet db) s" for "is"
    by (rule target_rows_fold) (rule group_target_other)
  with assms show ?thesis
    by (simp add: view_defs hand_over_def Let_def assignment_of_filter target_rows_drop_other[simplified])
qed

lemma undisturbed_restart: "undisturbed s db (restart_group g now db)"
  by (simp add: view_defs restart_group_def)

lemma undisturbed_config: "undisturbed s db (bump_config m db)"
  by (simp add: view_defs bump_config_def)

lemma undisturbed_restore_assignment: "m \<noteq> s \<Longrightarrow> undisturbed s db (restore_assignment g m user now db)"
  by (auto simp: view_defs restore_assignment_def assignment_of_upsert_other split: option.splits)

lemma undisturbed_restore_schedules:
  assumes "m \<noteq> s"
  shows "undisturbed s db (restore_schedules m db)"
proof -
  have "target_rows (fold (\<lambda>(n, i). if n = m \<and> schedule_live db i then add_target (screen_target i m) else (\<lambda>f. f))
      xs (sy_fleet db)) s = target_rows (sy_fleet db) s" for xs
    using assms by (intro target_rows_fold) (auto simp: screen_target_other)
  then show ?thesis by (simp add: view_defs restore_schedules_def)
qed

lemma undisturbed_drop_snapshot: "m \<noteq> s \<Longrightarrow> undisturbed s db (drop_snapshot m db)"
  by (simp add: view_defs drop_snapshot_def snapshot_filter_other filter_pairs_other del: filter_filter)

lemma undisturbed_restore: "m \<noteq> s \<Longrightarrow> undisturbed s db (restore_screen_snapshot g m user now db)"
  unfolding restore_screen_snapshot_def
  by (rule undisturbed_trans[OF undisturbed_restore_assignment
        undisturbed_trans[OF undisturbed_restore_schedules undisturbed_drop_snapshot]])

lemma schedule_live_disabled: "list_ex (\<lambda>r. sf_id r = i \<and> \<not> sf_deleted r) (map (\<lambda>r. if P r then r\<lparr>sf_enabled := False\<rparr> else r) rs)
    = list_ex (\<lambda>r. sf_id r = i \<and> \<not> sf_deleted r) rs"
  by (induction rs) auto

lemma undisturbed_disable: "undisturbed s db (disable_schedules g db)"
  by (simp add: view_defs disable_schedules_def schedule_live_disabled)

lemma undisturbed_overrides: "undisturbed s db (stop_overrides g db)"
  by (simp add: view_defs stop_overrides_def target_rows_overrides)


lemmas undisturbed_steps = undisturbed_trans[OF _ undisturbed_inherit] undisturbed_trans[OF _ undisturbed_snapshot]
  undisturbed_trans[OF _ undisturbed_hand_over] undisturbed_trans[OF _ undisturbed_restart]
  undisturbed_trans[OF _ undisturbed_config]

section \<open>Memberships\<close>

abbreviation memberships :: "sync_db \<Rightarrow> (uuid \<times> uuid) list" where
  "memberships db \<equiv> fl_members (sy_fleet db)"

lemma members_fold_targets: "fl_members (fold (\<lambda>i. add_target (h i)) xs f) = fl_members f"
  by (rule same_rest_members) (rule same_rest_fold, rule same_rest_add)

lemma memberships_inherit: "memberships (inherit_assignment g m user db) = memberships db"
  by (simp add: inherit_assignment_def split: option.split)

lemma memberships_snapshot: "memberships (take_snapshot m db) = memberships db"
  by (simp add: take_snapshot_def)

lemma memberships_hand_over: "memberships (hand_over g m db) = memberships db"
  by (simp add: hand_over_def Let_def members_fold_targets)

lemma memberships_restart: "memberships (restart_group g now db) = memberships db"
  by (simp add: restart_group_def)

lemma memberships_config: "memberships (bump_config m db) = memberships db"
  by (simp add: bump_config_def)

lemma memberships_restore_assignment: "memberships (restore_assignment g m user now db) = memberships db"
  by (simp add: restore_assignment_def split: option.split)

lemma memberships_restore_schedules: "memberships (restore_schedules m db) = memberships db"
proof -
  have "same_rest (sy_fleet db) (fold (\<lambda>(n, i). if n = m \<and> schedule_live db i then add_target (screen_target i m) else (\<lambda>f. f))
      xs (sy_fleet db))" for xs
    by (rule same_rest_fold) (simp add: same_rest_add same_rest_refl split: prod.split)
  then show ?thesis by (simp add: restore_schedules_def same_rest_members)
qed

lemma memberships_drop: "memberships (drop_snapshot m db) = memberships db"
  by (simp add: drop_snapshot_def)

lemmas memberships_simps = memberships_inherit memberships_snapshot memberships_hand_over memberships_restart
  memberships_config memberships_restore_assignment memberships_restore_schedules memberships_drop

lemma memberships_restore: "memberships (restore_screen_snapshot g m user now db) = memberships db"
  by (simp add: restore_screen_snapshot_def memberships_simps)

text \<open>The unique index: no screen is in two groups.\<close>

definition one_group :: "sync_db \<Rightarrow> bool" where
  "one_group db \<longleftrightarrow> distinct (map snd (memberships db))"

lemma add_screen_effect:
  assumes "add_screen_in_tx g m user now db = Inr db'"
  shows "memberships db' = memberships db @ [(g, m)]" "m \<notin> snd ` set (memberships db)"
    "s \<noteq> m \<Longrightarrow> undisturbed s db db'"
proof -
  define db1 where "db1 = db\<lparr>sy_fleet := (sy_fleet db)\<lparr>fl_members := memberships db @ [(g, m)]\<rparr>\<rparr>"
  have free: "\<not> list_ex (\<lambda>(i, n). n = m) (memberships db)"
    and eq: "db' = bump_config m (restart_group g now (hand_over g m (take_snapshot m (inherit_assignment g m user db1))))"
    using assms by (simp_all add: add_screen_in_tx_def insert_membership_def andthen_def check_def db1_def split: if_splits)
  show "memberships db' = memberships db @ [(g, m)]" by (simp add: eq memberships_simps db1_def)
  show "m \<notin> snd ` set (memberships db)" using free by (force simp: list_ex_iff)
  assume sm: "s \<noteq> m"
  have "undisturbed s db db1" by (simp add: view_defs db1_def target_rows_members)
  then show "undisturbed s db db'"
    unfolding eq using sm
    by (intro undisturbed_steps) simp_all
qed


lemma add_screens_effect:
  assumes "add_screens g ms user now db = Inr db'"
  shows "memberships db' = memberships db @ map (Pair g) ms" "set ms \<inter> snd ` set (memberships db) = {}" "distinct ms"
    "s \<notin> set ms \<Longrightarrow> undisturbed s db db'"
  using assms
proof (atomize (full), induction ms arbitrary: db)
  case Nil
  then show ?case by (simp add: undisturbed_def)
next
  case (Cons m ms)
  then obtain db1 where one: "add_screen_in_tx g m user now db = Inr db1" and rest: "add_screens g ms user now db1 = Inr db'"
    by (auto simp: andthen_def split: sum.splits)
  note a = add_screen_effect[OF one] and b = Cons.IH[OF rest]
  from a b show ?case
    by (auto intro: undisturbed_trans)
qed

lemma remove_screen_effect:
  assumes "remove_screen g m user now db = Inr db'"
  shows "(g, m) \<in> set (memberships db)" "memberships db' = filter (\<lambda>r. r \<noteq> (g, m)) (memberships db)"
    "s \<noteq> m \<Longrightarrow> undisturbed s db db'"
proof -
  define db1 where "db1 = restore_screen_snapshot g m user now db"
  define db2 where "db2 = clear_gateway g m (remove_membership g m db1)"
  have mem: "(g, m) \<in> set (memberships db1)"
    and eq: "db' = bump_config m (db2\<lparr>sy_versions := bump 1 m (sy_versions db2)\<rparr>)"
    using assms by (simp_all add: remove_screen_def andthen_def check_def Let_def db1_def db2_def split: if_splits)
  have db1: "memberships db1 = memberships db" by (simp add: db1_def memberships_restore)
  show "(g, m) \<in> set (memberships db)" using mem db1 by simp
  show "memberships db' = filter (\<lambda>r. r \<noteq> (g, m)) (memberships db)"
    by (simp add: eq db2_def bump_config_def clear_gateway_def remove_membership_def db1)
  assume "s \<noteq> m"
  then have "undisturbed s db db1" unfolding db1_def by (intro undisturbed_restore) simp
  moreover have "undisturbed s db1 db'"
    by (simp add: eq view_defs db2_def bump_config_def clear_gateway_def remove_membership_def target_rows_members)
  ultimately show "undisturbed s db db'" by (rule undisturbed_trans)
qed

lemma memberships_fold:
  assumes "\<And>x db. memberships (h x db) = memberships db"
  shows "memberships (fold h xs db) = memberships db"
  using assms by (induction xs arbitrary: db) simp_all

lemma delete_group_effect:
  assumes "delete_group g user now db = Inr db'"
  shows "memberships db' = filter (\<lambda>(i, m). i \<noteq> g) (memberships db)"
    "s \<notin> set (members_of db g) \<Longrightarrow> undisturbed s db db'"
proof -
  define ms where "ms = members_of db g"
  define db1 where "db1 = db\<lparr>sy_versions := fold (bump 1) ms (sy_versions db),
      sy_fleet := (sy_fleet db)\<lparr>fl_groups := map (\<lambda>(i, deleted). (i, deleted \<or> i = g)) (fl_groups (sy_fleet db))\<rparr>\<rparr>"
  define db2 where "db2 = fold (\<lambda>s. restore_screen_snapshot g s user now) ms db1"
  define db3 where "db3 = db2\<lparr>sy_group_assigned := filter (\<lambda>a. as_key a \<noteq> g) (sy_group_assigned db2),
      sy_alert_groups := filter (\<lambda>i. i \<noteq> g) (sy_alert_groups db2)\<rparr>"
  define db4 where "db4 = fold bump_config ms db3"
  define db5 where "db5 = db4\<lparr>sy_fleet := (sy_fleet db4)\<lparr>fl_members := filter (\<lambda>(i, m). i \<noteq> g) (memberships db4)\<rparr>\<rparr>"
  have eq: "db' = stop_overrides g (disable_schedules g db5)"
    using assms by (simp add: delete_group_def andthen_def check_def Let_def ms_def db1_def db2_def db3_def db4_def db5_def split: if_splits)
  have m2: "memberships db2 = memberships db1"
    unfolding db2_def by (rule memberships_fold) (rule memberships_restore)
  have m4: "memberships db4 = memberships db3"
    unfolding db4_def by (rule memberships_fold) (rule memberships_config)
  show "memberships db' = filter (\<lambda>(i, m). i \<noteq> g) (memberships db)"
    using m2 m4 by (simp add: eq stop_overrides_def disable_schedules_def db5_def db3_def db1_def)
  assume s: "s \<notin> set (members_of db g)"
  have "undisturbed s db db1" by (simp add: view_defs db1_def target_rows_groups)
  moreover have "undisturbed s db1 db2"
    unfolding db2_def using s by (intro undisturbed_fold undisturbed_restore) (auto simp: ms_def)
  moreover have "undisturbed s db2 db3" by (simp add: view_defs db3_def)
  moreover have "undisturbed s db3 db4" unfolding db4_def by (intro undisturbed_fold undisturbed_config)
  moreover have "undisturbed s db4 db5" by (simp add: view_defs db5_def target_rows_members)
  moreover have "undisturbed s db5 db'"
    unfolding eq by (rule undisturbed_trans[OF undisturbed_disable undisturbed_overrides])
  ultimately show "undisturbed s db db'" by (meson undisturbed_trans)
qed

lemma create_group_effect:
  assumes "create_group allow g name description ms user now db = Inr db'"
  shows "memberships db' = memberships db @ map (Pair g) ms" "set ms \<inter> snd ` set (memberships db) = {}" "distinct ms"
    "s \<notin> set ms \<Longrightarrow> undisturbed s db db'"
proof -
  have add: "add_screens g ms user now (insert_group g name now db) = Inr db'"
    using assms by (auto simp: create_group_def andthen_def split: sum.splits)
  have same: "memberships (insert_group g name now db) = memberships db" by (simp add: insert_group_def)
  have one: "undisturbed s db (insert_group g name now db)" by (simp add: view_defs insert_group_def target_rows_groups)
  note a = add_screens_effect[OF add, unfolded same]
  show "memberships db' = memberships db @ map (Pair g) ms" "set ms \<inter> snd ` set (memberships db) = {}" "distinct ms"
    by (fact a)+
  show "s \<notin> set ms \<Longrightarrow> undisturbed s db db'" by (rule undisturbed_trans[OF one]) (rule a(4))
qed


section \<open>Joining and leaving\<close>

lemma own_schedules_rows: "own_schedules f s = map st_schedule (filter (\<lambda>t. st_type t = ''screen'') (target_rows f s))"
  by (simp add: own_schedules_def target_rows_def conj_commute)

text \<open>What the CHECK of \<open>schedule_targets\<close> states: a row that names a screen is of the type \<open>screen\<close>.\<close>

definition targets_shaped :: "sync_db \<Rightarrow> bool" where
  "targets_shaped db \<longleftrightarrow> list_all (\<lambda>t. (st_type t = ''screen'') = (st_screen t \<noteq> None)) (fl_targets (sy_fleet db))"

definition snapshot_for :: "uuid \<Rightarrow> sync_db \<Rightarrow> snapshot" where
  "snapshot_for s db = (case assignment_of s (sy_assigned db) of
      None \<Rightarrow> \<lparr>sn_screen = s, sn_playlist = None, sn_layout = None, sn_by = None, sn_at = None\<rparr>
    | Some a \<Rightarrow> \<lparr>sn_screen = s, sn_playlist = as_playlist a, sn_layout = as_layout a, sn_by = as_by a, sn_at = Some (as_at a)\<rparr>)"

lemma snapshot_for_screen: "sn_screen (snapshot_for s db) = s"
  by (simp add: snapshot_for_def split: option.split)

text \<open>A screen that has joined has nothing of its own left, and everything it had is in its snapshot.\<close>

lemma shaped_group_targets:
  "list_all (\<lambda>t. (st_type t = ''screen'') = (st_screen t \<noteq> None)) (fl_targets f) \<Longrightarrow>
   list_all (\<lambda>t. (st_type t = ''screen'') = (st_screen t \<noteq> None)) (fl_targets (fold (\<lambda>i. add_target (group_target i g)) xs f))"
  by (induction xs arbitrary: f) (simp_all add: add_target_def group_target_def)

lemma hand_over_view:
  assumes "targets_shaped db"
  shows "assignment_of s (sy_assigned (hand_over g s db)) = None" "target_rows (sy_fleet (hand_over g s db)) s = []"
    "snapshot_of s (hand_over g s db) = snapshot_of s db"
    "sy_schedule_snapshots (hand_over g s db) = sy_schedule_snapshots db" "library_view (hand_over g s db) = library_view db"
proof -
  define f where "f = fold (\<lambda>i. add_target (group_target i g)) (own_schedules (sy_fleet db) s) (sy_fleet db)"
  have "list_all (\<lambda>t. (st_type t = ''screen'') = (st_screen t \<noteq> None)) (fl_targets f)"
    unfolding f_def using assms by (intro shaped_group_targets) (simp add: targets_shaped_def)
  then show "target_rows (sy_fleet (hand_over g s db)) s = []"
    by (auto simp: hand_over_def Let_def target_rows_def filter_empty_conv list_all_iff f_def[symmetric])
  show "assignment_of s (sy_assigned (hand_over g s db)) = None"
    by (simp add: hand_over_def Let_def assignment_of_none)
qed (simp_all add: hand_over_def Let_def snapshot_of_def library_view_def schedule_live_def[abs_def])

lemma joined_view:
  assumes "add_screen_in_tx g s user now db = Inr db'" "targets_shaped db"
  shows "assignment_of s (sy_assigned db') = None" "target_rows (sy_fleet db') s = []"
    "snapshot_of s db' = Some (snapshot_for s db)"
    "map snd (filter (\<lambda>(m, i). m = s) (sy_schedule_snapshots db')) = own_schedules (sy_fleet db) s"
    "library_view db' = library_view db"
proof -
  define db1 where "db1 = db\<lparr>sy_fleet := (sy_fleet db)\<lparr>fl_members := memberships db @ [(g, s)]\<rparr>\<rparr>"
  define db2 where "db2 = inherit_assignment g s user db1"
  define db3 where "db3 = take_snapshot s db2"
  have eq: "db' = bump_config s (restart_group g now (hand_over g s db3))"
    using assms by (simp_all add: add_screen_in_tx_def insert_membership_def andthen_def check_def db1_def db2_def db3_def split: if_splits)
  have one: "undisturbed s db db1" by (simp add: view_defs db1_def target_rows_members)
  have "undisturbed s db db2" unfolding db2_def by (rule undisturbed_trans[OF one undisturbed_inherit])
  then have two: "assignment_of s (sy_assigned db2) = assignment_of s (sy_assigned db)"
    "own_schedules (sy_fleet db2) s = own_schedules (sy_fleet db) s" "library_view db2 = library_view db"
    by (simp_all add: undisturbed_def screen_view_def own_schedules_rows)
  have targets: "fl_targets (sy_fleet db2) = fl_targets (sy_fleet db)"
    by (simp add: db2_def inherit_assignment_def db1_def split: option.split)
  have three: "snapshot_of s db3 = Some (snapshot_for s db)" "library_view db3 = library_view db"
    "map snd (filter (\<lambda>(m, i). m = s) (sy_schedule_snapshots db3)) = own_schedules (sy_fleet db) s"
    using two by (auto simp: db3_def take_snapshot_def snapshot_of_def snapshot_for_def find_append snapshot_filter_same
        library_view_def schedule_live_def[abs_def] o_def filter_empty_conv split: option.split)
  have shaped: "targets_shaped db3" using assms(2) targets by (simp add: db3_def take_snapshot_def targets_shaped_def)
  note h = hand_over_view[OF shaped, where s = s and g = g]
  have views: "screen_view s db' = screen_view s (hand_over g s db3)" "library_view db' = library_view (hand_over g s db3)"
    unfolding eq using undisturbed_trans[OF undisturbed_restart undisturbed_config] by (auto simp: undisturbed_def)
  show "assignment_of s (sy_assigned db') = None" "target_rows (sy_fleet db') s = []"
    "snapshot_of s db' = Some (snapshot_for s db)" "library_view db' = library_view db"
    "map snd (filter (\<lambda>(m, i). m = s) (sy_schedule_snapshots db')) = own_schedules (sy_fleet db) s"
    using views h three by (simp_all add: screen_view_def)
qed


text \<open>What a snapshot gives back: the assignment when its playlist or layout is still in the library, and the
  schedules that still exist.\<close>

lemma content_exists_cong: "library_view db = library_view db0 \<Longrightarrow> content_exists db = content_exists db0"
proof -
  assume "library_view db = library_view db0"
  then have same: "sy_playlists db = sy_playlists db0" "sy_layouts db = sy_layouts db0" by (simp_all add: library_view_def)
  show ?thesis unfolding content_exists_def[abs_def] same ..
qed

lemma restored_assignment:
  assumes "snapshot_of s db = Some (snapshot_for s db0)" "assignment_of s (sy_assigned db) = None"
    "library_view db = library_view db0"
  shows "assignment_of s (sy_assigned (restore_assignment g s user now db)) =
    (case assignment_of s (sy_assigned db0) of
       None \<Rightarrow> None
     | Some a \<Rightarrow> if content_exists db0 (as_playlist a) (as_layout a) then Some (a\<lparr>as_key := s, as_by := Some (case as_by a of None \<Rightarrow> user | Some b \<Rightarrow> b)\<rparr>) else None)"
proof -
  have "s \<notin> as_key ` set (sy_assigned db)" using assms(2) by (auto simp: assignment_of_def find_None_iff)
  moreover have "find (\<lambda>a. as_key a = s) (sy_assigned db) = None" using assms(2) by (simp add: assignment_of_def)
  ultimately have insert: "assignment_of s (upsert_assignment s p l b t (sy_assigned db)) =
      Some \<lparr>as_key = s, as_playlist = p, as_layout = l, as_by = b, as_at = t\<rparr>" for p l b t
    by (simp add: upsert_assignment_def assignment_of_def find_append)
  show ?thesis
  proof (cases "assignment_of s (sy_assigned db0)")
    case None
    then show ?thesis using assms by (simp add: restore_assignment_def snapshot_for_def content_exists_def)
  next
    case (Some a)
    show ?thesis
      using insert Some assms(1,2) content_exists_cong[OF assms(3)]
      by (cases a) (auto simp: restore_assignment_def snapshot_for_def split: option.split)
  qed
qed

lemma targets_after_restore:
  assumes "target_rows f s = []"
  shows "set (own_schedules (fold (\<lambda>(m, i). if m = s \<and> ok i then add_target (screen_target i s) else (\<lambda>f. f)) xs f) s)
    = {i. (s, i) \<in> set xs \<and> ok i}"
proof -
  have step: "list_all (\<lambda>t. st_type t = ''screen'') (target_rows (add_target (screen_target i s) f) s)
      \<and> set (own_schedules (add_target (screen_target i s) f) s) = insert i (set (own_schedules f s))"
    if "list_all (\<lambda>t. st_type t = ''screen'') (target_rows f s)" for f i
  proof (cases "list_ex (\<lambda>u. st_schedule u = i \<and> st_screen u = Some s) (fl_targets f)")
    case True
    then have "add_target (screen_target i s) f = f" by (simp add: add_target_def screen_target_def)
    moreover have "i \<in> set (own_schedules f s)"
      using True that by (auto simp: own_schedules_def target_rows_def list_all_iff list_ex_iff)
    ultimately show ?thesis using that by auto
  next
    case False
    then have "add_target (screen_target i s) f = f\<lparr>fl_targets := fl_targets f @ [screen_target i s]\<rparr>"
      by (simp add: add_target_def screen_target_def)
    then show ?thesis using that by (simp add: own_schedules_def target_rows_def screen_target_def)
  qed
  have "set (own_schedules (fold (\<lambda>(m, i). if m = s \<and> ok i then add_target (screen_target i s) else (\<lambda>f. f)) xs f) s)
    = set (own_schedules f s) \<union> {i. (s, i) \<in> set xs \<and> ok i}"
    if "list_all (\<lambda>t. st_type t = ''screen'') (target_rows f s)" for f
    using that
  proof (induction xs arbitrary: f)
    case (Cons x xs)
    show ?case
    proof (cases x)
      case (Pair m i)
      with Cons.IH[of "add_target (screen_target i s) f"] Cons.IH[of f] Cons.prems step[OF Cons.prems, of i] show ?thesis by auto
    qed
  qed simp
  with assms show ?thesis by (simp add: own_schedules_rows)
qed


text \<open>Leaving succeeds for a member and puts back what the snapshot holds.\<close>

lemma leaving_restores:
  assumes "(g, s) \<in> set (memberships db)" "assignment_of s (sy_assigned db) = None" "target_rows (sy_fleet db) s = []"
    "snapshot_of s db = Some (snapshot_for s db0)"
    "map snd (filter (\<lambda>(m, i). m = s) (sy_schedule_snapshots db)) = own_schedules (sy_fleet db0) s"
    "library_view db = library_view db0"
  obtains db' where "remove_screen g s user now db = Inr db'"
    "assignment_of s (sy_assigned db') = (case assignment_of s (sy_assigned db0) of
       None \<Rightarrow> None
     | Some a \<Rightarrow> if content_exists db0 (as_playlist a) (as_layout a) then Some (a\<lparr>as_key := s, as_by := Some (case as_by a of None \<Rightarrow> user | Some b \<Rightarrow> b)\<rparr>) else None)"
    "set (own_schedules (sy_fleet db') s) = {i \<in> set (own_schedules (sy_fleet db0) s). schedule_live db0 i}"
proof -
  define db1 where "db1 = restore_assignment g s user now db"
  define db2 where "db2 = restore_schedules s db1"
  define db3 where "db3 = clear_gateway g s (remove_membership g s (drop_snapshot s db2))"
  define db4 where "db4 = bump_config s (db3\<lparr>sy_versions := bump 1 s (sy_versions db3)\<rparr>)"
  have mem: "memberships (drop_snapshot s db2) = memberships db"
    by (simp add: db1_def db2_def memberships_simps)
  have run: "remove_screen g s user now db = Inr db4"
    using assms(1) mem
    by (simp add: remove_screen_def restore_screen_snapshot_def andthen_def check_def Let_def db1_def db2_def db3_def db4_def)
  have rest1: "sy_fleet db1 = sy_fleet db" "sy_schedule_snapshots db1 = sy_schedule_snapshots db" "sy_schedules db1 = sy_schedules db"
    by (simp_all add: db1_def restore_assignment_def split: option.split)
  have assigned: "sy_assigned db4 = sy_assigned db1"
    by (simp add: db4_def db3_def db2_def bump_config_def clear_gateway_def remove_membership_def drop_snapshot_def restore_schedules_def)
  have "own_schedules (sy_fleet db4) s = own_schedules (sy_fleet db2) s"
    by (simp add: db4_def db3_def bump_config_def clear_gateway_def remove_membership_def drop_snapshot_def own_schedules_def)
  moreover have "set (own_schedules (sy_fleet db2) s) = {i. (s, i) \<in> set (sy_schedule_snapshots db) \<and> schedule_live db1 i}"
    using targets_after_restore[of "sy_fleet db" s "schedule_live db1" "sy_schedule_snapshots db"] assms(3)
    by (simp add: db2_def restore_schedules_def rest1)
  moreover have "schedule_live db1 = schedule_live db0"
    using assms(6) rest1(3) by (simp add: library_view_def schedule_live_def[abs_def])
  moreover have "(s, i) \<in> set (sy_schedule_snapshots db) \<longleftrightarrow> i \<in> set (own_schedules (sy_fleet db0) s)" for i
    using assms(5)[symmetric] by force
  ultimately have targets: "set (own_schedules (sy_fleet db4) s) = {i \<in> set (own_schedules (sy_fleet db0) s). schedule_live db0 i}"
    by auto
  show ?thesis
    by (rule that[OF run _ targets]) (simp only: assigned db1_def restored_assignment[OF assms(4,2,6)])
qed

text \<open>The operations that take a screen out of its group.\<close>

fun takes_out :: "uuid \<Rightarrow> uuid \<Rightarrow> sync_op \<Rightarrow> bool" where
  "takes_out g s (LeaveGroup g' m user now) = (g' = g \<and> m = s)"
| "takes_out g s (DropGroup g' user now) = (g' = g)"
| "takes_out g s _ = False"

lemma one_group_step: "one_group db \<Longrightarrow> one_group (sync_step op db)"
proof (cases "sync_attempt op db")
  case (Inr db')
  assume one: "one_group db"
  from Inr have "one_group db'"
  proof (cases op)
    case (JoinGroup g s user now)
    with Inr one add_screen_effect(1,2)[of g s user now db db'] show ?thesis by (auto simp: one_group_def)
  next
    case (LeaveGroup g s user now)
    with Inr one remove_screen_effect(2)[of g s user now db db'] show ?thesis by (simp add: one_group_def distinct_map_filter)
  next
    case (NewGroup decision g name description ms user now)
    with Inr one create_group_effect(1-3)[of "\<lambda>_. decision" g name description ms user now db db'] show ?thesis
      by (auto simp: one_group_def o_def)
  next
    case (DropGroup g user now)
    with Inr one delete_group_effect(1)[of g user now db db'] show ?thesis by (simp add: one_group_def distinct_map_filter)
  qed
  with Inr show ?thesis by (simp add: sync_step_def)
qed (simp add: sync_step_def)

lemma one_group_unique: "one_group db \<Longrightarrow> (g, s) \<in> set (memberships db) \<Longrightarrow> (g', s) \<in> set (memberships db) \<Longrightarrow> g' = g"
  by (force simp: one_group_def distinct_map inj_on_def)

lemma member_kept:
  assumes "one_group db" "(g, s) \<in> set (memberships db)" "\<not> takes_out g s op"
  shows "(g, s) \<in> set (memberships (sync_step op db)) \<and> undisturbed s db (sync_step op db)"
proof (cases "sync_attempt op db")
  case (Inl e)
  with assms show ?thesis by (simp add: sync_step_def undisturbed_def)
next
  case (Inr db')
  have taken: "s \<in> snd ` set (memberships db)" using assms(2) by force
  have "(g, s) \<in> set (memberships db') \<and> undisturbed s db db'"
  proof (cases op)
    case (JoinGroup g' m user now)
    then have "add_screen_in_tx g' m user now db = Inr db'" using Inr by simp
    note eff = add_screen_effect[OF this]
    from eff(2) taken have "s \<noteq> m" by blast
    with eff(1,3) assms(2) show ?thesis by simp
  next
    case (LeaveGroup g' m user now)
    then have "remove_screen g' m user now db = Inr db'" using Inr by simp
    note eff = remove_screen_effect[OF this]
    have "s \<noteq> m" using one_group_unique[OF assms(1,2)] eff(1) assms(3) LeaveGroup by auto
    with eff(2,3) assms(2) show ?thesis by simp
  next
    case (NewGroup decision g' name description ms user now)
    then have "create_group (\<lambda>_. decision) g' name description ms user now db = Inr db'" using Inr by simp
    note eff = create_group_effect[OF this]
    from eff(2) taken have "s \<notin> set ms" by blast
    with eff(1,4) assms(2) show ?thesis by simp
  next
    case (DropGroup g' user now)
    then have "delete_group g' user now db = Inr db'" using Inr by simp
    note eff = delete_group_effect[OF this]
    have "g' \<noteq> g" using assms(3) DropGroup by simp
    moreover from this have "s \<notin> set (members_of db g')" using one_group_unique[OF assms(1,2)] by (auto simp: members_of_def)
    ultimately show ?thesis using eff assms(2) by auto
  qed
  with Inr show ?thesis by (simp add: sync_step_def)
qed

lemma member_kept_history:
  "one_group db \<Longrightarrow> (g, s) \<in> set (memberships db) \<Longrightarrow> \<forall>op\<in>set ops. \<not> takes_out g s op \<Longrightarrow>
   (g, s) \<in> set (memberships (fold sync_step ops db)) \<and> undisturbed s db (fold sync_step ops db)"
proof (induction ops arbitrary: db)
  case (Cons op ops)
  from member_kept[OF Cons.prems(1,2), of op] Cons.prems(3)
  have step: "(g, s) \<in> set (memberships (sync_step op db))" "undisturbed s db (sync_step op db)" by simp_all
  from Cons.IH[OF one_group_step[OF Cons.prems(1)] step(1)] Cons.prems(3) undisturbed_trans[OF step(2)]
  show ?case by simp
qed (simp add: undisturbed_def)

text \<open>C9. A screen that joins a group, and is then neither taken out nor loses the group, can leave it whatever else
  happened to groups meanwhile (screens joining and leaving, groups made and deleted, refused operations): it has its
  own playlist or layout back if that is still in the library, with the time it was assigned, and is targeted by
  exactly those of its own schedules that still exist. In between it has neither.\<close>

theorem leaving_gives_back:
  assumes "one_group db" "targets_shaped db" "add_screen_in_tx g s user now db = Inr joined"
    "\<forall>op\<in>set ops. \<not> takes_out g s op"
  defines "later \<equiv> fold sync_step ops joined"
  shows "assignment_of s (sy_assigned later) = None \<and> own_schedules (sy_fleet later) s = []
    \<and> (\<exists>left. remove_screen g s user' now' later = Inr left
        \<and> assignment_of s (sy_assigned left) = (case assignment_of s (sy_assigned db) of
            None \<Rightarrow> None
          | Some a \<Rightarrow> if content_exists db (as_playlist a) (as_layout a)
              then Some (a\<lparr>as_key := s, as_by := Some (case as_by a of None \<Rightarrow> user' | Some b \<Rightarrow> b)\<rparr>) else None)
        \<and> set (own_schedules (sy_fleet left) s) = {i \<in> set (own_schedules (sy_fleet db) s). schedule_live db i})"
proof -
  note joined = joined_view[OF assms(3,2)]
  note eff = add_screen_effect(1,2)[OF assms(3)]
  have one: "one_group joined" using assms(1) eff by (auto simp: one_group_def)
  have mem: "(g, s) \<in> set (memberships joined)" using eff by simp
  have kept: "(g, s) \<in> set (memberships later)" "undisturbed s joined later"
    using member_kept_history[OF one mem assms(4)] by (simp_all add: later_def)
  have view: "assignment_of s (sy_assigned later) = None" "target_rows (sy_fleet later) s = []"
    "snapshot_of s later = Some (snapshot_for s db)"
    "map snd (filter (\<lambda>(m, i). m = s) (sy_schedule_snapshots later)) = own_schedules (sy_fleet db) s"
    "library_view later = library_view db"
    using kept(2) joined by (simp_all add: undisturbed_def screen_view_def)
  have none: "own_schedules (sy_fleet later) s = []" using view(2) by (simp add: own_schedules_rows)
  obtain left where left: "remove_screen g s user' now' later = Inr left"
    "assignment_of s (sy_assigned left) = (case assignment_of s (sy_assigned db) of
       None \<Rightarrow> None
     | Some a \<Rightarrow> if content_exists db (as_playlist a) (as_layout a)
         then Some (a\<lparr>as_key := s, as_by := Some (case as_by a of None \<Rightarrow> user' | Some b \<Rightarrow> b)\<rparr>) else None)"
    "set (own_schedules (sy_fleet left) s) = {i \<in> set (own_schedules (sy_fleet db) s). schedule_live db i}"
    by (rule leaving_restores[OF kept(1) view])
  from view(1) none left show ?thesis by (intro conjI exI[of _ left])
qed

text \<open>The operations keep the unique index on the members, whatever they are asked.\<close>

lemma one_group_history: "one_group db \<Longrightarrow> one_group (fold sync_step ops db)"
  by (induction ops arbitrary: db) (simp_all add: one_group_step)

section \<open>An example\<close>

definition lobby_screen :: "uuid \<Rightarrow> screen_row" where
  "lobby_screen i = \<lparr>sw_id = i, sw_location = None, sw_deleted = False, sw_archived = False, sw_installation = []\<rparr>"

definition lobby_db :: sync_db where
  "lobby_db = \<lparr>
     sy_fleet = \<lparr>fl_screens = [lobby_screen (UUID ''left''), lobby_screen (UUID ''right'')], fl_groups = [((UUID ''wall''), False), ((UUID ''row''), False)],
       fl_members = [], fl_locations = [], fl_schedules = [(UUID ''morning'')], fl_targets = [screen_target (UUID ''morning'') (UUID ''left'')],
       fl_takeovers = [], fl_takeover_screens = [], fl_session_screens = [], fl_update_screens = [], fl_overrides = [],
       fl_pairings = []\<rparr>,
     sy_platforms = [((UUID ''left''), ''linux''), ((UUID ''right''), ''android'')],
     sy_group_rows = [\<lparr>gp_id = (UUID ''wall''), gp_name = ''Wall'', gp_gateway = None, gp_epoch = 0\<rparr>],
     sy_playlists = [(UUID ''menu'')], sy_layouts = [],
     sy_schedules = [\<lparr>sf_id = (UUID ''morning''), sf_deleted = False, sf_enabled = True, sf_display = False\<rparr>],
     sy_assigned = [\<lparr>as_key = (UUID ''left''), as_playlist = Some (UUID ''menu''), as_layout = None, as_by = Some (UUID ''ann''), as_at = 5\<rparr>],
     sy_group_assigned = [], sy_snapshots = [], sy_schedule_snapshots = [], sy_versions = [], sy_config = [],
     sy_alert_groups = []\<rparr>"

definition left_joins :: "sync_error + sync_db" where
  "left_joins = add_screen_in_tx (UUID ''wall'') (UUID ''left'') (UUID ''bob'') 10 lobby_db"

definition left_joined :: sync_db where
  "left_joined = (case left_joins of Inl _ \<Rightarrow> lobby_db | Inr db \<Rightarrow> db)"

lemma left_joins_eval: "\<not> isl left_joins"
  by code_simp

lemma left_joins_ok: "add_screen_in_tx (UUID ''wall'') (UUID ''left'') (UUID ''bob'') 10 lobby_db = Inr left_joined"
  using left_joins_eval by (auto simp: left_joined_def left_joins_def split: sum.split)

definition left_ops :: "sync_op list" where
  "left_ops = [JoinGroup (UUID ''row'') (UUID ''left'') (UUID ''bob'') 11, JoinGroup (UUID ''wall'') (UUID ''right'') (UUID ''bob'') 12, LeaveGroup (UUID ''wall'') (UUID ''right'') (UUID ''bob'') 13,
     DropGroup (UUID ''row'') (UUID ''bob'') 14]"

text \<open>Deleting the group gives the screen its schedule back and disables it in the same transaction: the group's target
  row, copied when the screen joined, still names the schedule.\<close>

definition left_after_deletion :: "sync_db option" where
  "left_after_deletion = (case left_joins of Inl _ \<Rightarrow> None | Inr db \<Rightarrow>
     (case delete_group (UUID ''wall'') (UUID ''bob'') 20 db of Inl _ \<Rightarrow> None | Inr db' \<Rightarrow> Some db'))"

lemma delete_group_disables_restored:
  "map_option (\<lambda>db. (own_schedules (sy_fleet db) (UUID ''left''), map sf_enabled (sy_schedules db))) left_after_deletion
   = Some ([(UUID ''morning'')], [False])"
  by code_simp


theorem leaving_gives_back_witness:
  "\<exists>left. remove_screen (UUID ''wall'') (UUID ''left'') (UUID ''eve'') 30 (fold sync_step left_ops left_joined) = Inr left
    \<and> assignment_of (UUID ''left'') (sy_assigned left)
      = Some \<lparr>as_key = UUID ''left'', as_playlist = Some (UUID ''menu''), as_layout = None, as_by = Some (UUID ''ann''), as_at = 5\<rparr>
    \<and> set (own_schedules (sy_fleet left) (UUID ''left'')) = {UUID ''morning''}"
proof -
  have one: "one_group lobby_db" by (simp add: one_group_def lobby_db_def)
  have shaped: "targets_shaped lobby_db" by (simp add: targets_shaped_def lobby_db_def screen_target_def)
  have stays: "\<forall>op\<in>set left_ops. \<not> takes_out (UUID ''wall'') (UUID ''left'') op" by (simp add: left_ops_def)
  have old: "assignment_of (UUID ''left'') (sy_assigned lobby_db)
      = Some \<lparr>as_key = UUID ''left'', as_playlist = Some (UUID ''menu''), as_layout = None, as_by = Some (UUID ''ann''), as_at = 5\<rparr>"
    "content_exists lobby_db (Some (UUID ''menu'')) None"
    "{i \<in> set (own_schedules (sy_fleet lobby_db) (UUID ''left'')). schedule_live lobby_db i} = {UUID ''morning''}"
    by (auto simp: assignment_of_def lobby_db_def content_exists_def own_schedules_def screen_target_def schedule_live_def)
  from leaving_gives_back [OF one shaped left_joins_ok stays, of "UUID ''eve''" 30] old show ?thesis by auto
qed

end
