(* ===== verification/ContentAccess.thy ===== *)
theory ContentAccess
  imports ScreenAuthz
begin

text \<open>
  Content access (\<open>media/access.go\<close>, \<open>httpapi/content_access.go\<close>): which part of the Media library an
  account reaches. A policy is the whole library, or the granted folders with everything beneath them; tags are a
  policy of their own. The tables are lists of rows. \<open>WITH RECURSIVE \<dots> UNION\<close> is the evaluation by
  working tables that PostgreSQL documents. The current time is an argument.
\<close>

section \<open>The library\<close>

record folder_row =
  fo_id :: uuid
  fo_parent :: "uuid option"
  fo_name :: string
  fo_description :: string

record asset_row =
  ast_id :: uuid
  ast_type :: string
  ast_folder :: "uuid option"
  ast_origin :: string
  ast_system :: bool
  ast_deleted :: bool
  ast_archived :: bool
  ast_expires :: "int option"

record tag_row =
  tg_id :: uuid
  tg_name :: string
  tg_color :: string

record collection_row =
  co_id :: uuid
  co_name :: string
  co_description :: string

record content_policy =
  cp_user :: uuid
  cp_library :: string
  cp_tags :: string

record content_db =
  ct_folders :: "folder_row list"
  ct_assets :: "asset_row list"
  ct_tags :: "tag_row list"
  ct_collections :: "collection_row list"
  ct_asset_tags :: "(uuid \<times> uuid) list"
  ct_collection_assets :: "(uuid \<times> uuid) list"
  ct_playlist_tags :: "(uuid \<times> string \<times> bool \<times> uuid) list"
  ct_draft_tags :: "(uuid \<times> uuid) list"
  ct_policies :: "content_policy list"
  ct_folder_grants :: "(uuid \<times> uuid) list"
  ct_tag_grants :: "(uuid \<times> uuid) list"
  ct_audit :: "(uuid \<times> string \<times> uuid) list"

datatype content_error =
    OutOfScopeContent | ScopeRestricted | TagNotAssignable | ContentNotFound | LibraryModeInvalid | TagModeInvalid
  | TooManyGrants | LibraryDelegation | TagsDelegation | FolderDelegation | TagDelegation | ContentConstraint
  | OrganizationName nat | OrganizationDescription | FolderInItself | FolderCycle | TagColor | TagInUse "string list"
  | BatchSize | BatchDuplicates | OrganizeCapability | RoleNotAllowed | ScopeSelf | OwnerNotScopable

section \<open>Access\<close>

record content_access =
  ca_user :: uuid
  ca_library :: bool
  ca_tags :: bool

definition full_access :: "uuid \<Rightarrow> content_access" where
  "full_access user = \<lparr>ca_user = user, ca_library = True, ca_tags = True\<rparr>"

definition stored_access :: "content_db \<Rightarrow> uuid \<Rightarrow> content_access" where
  "stored_access db user =
     (case find (\<lambda>p. cp_user p = user) (ct_policies db) of
        None \<Rightarrow> \<lparr>ca_user = user, ca_library = False, ca_tags = False\<rparr>
      | Some p \<Rightarrow> \<lparr>ca_user = user, ca_library = (cp_library p = ''all''), ca_tags = (cp_tags p = ''all'')\<rparr>)"

definition access_for :: "content_db \<Rightarrow> uuid \<Rightarrow> bool \<Rightarrow> content_access" where
  "access_for db user owner = (if owner then full_access user else stored_access db user)"

text \<open>
  One round of the recursive query: the folders beneath the working table that the result does not hold yet. Each
  round adds a row of the table or is the last.
\<close>

definition folders_below :: "folder_row list \<Rightarrow> uuid list \<Rightarrow> uuid list \<Rightarrow> uuid list" where
  "folders_below fs seen work =
     remdups (filter (\<lambda>i. i \<notin> set seen)
       (map fo_id (filter (\<lambda>f. case fo_parent f of None \<Rightarrow> False | Some p \<Rightarrow> p \<in> set work) fs)))"

function folders_from :: "folder_row list \<Rightarrow> uuid list \<Rightarrow> uuid list \<Rightarrow> uuid list" where
  "folders_from fs seen work =
     (if folders_below fs seen work = [] then seen
      else folders_from fs (seen @ folders_below fs seen work) (folders_below fs seen work))"
  by pat_completeness auto

termination
proof (relation "measure (\<lambda>(fs, seen, work). card (fo_id ` set fs - set seen))")
  fix fs seen work
  assume more: "folders_below fs seen work \<noteq> []"
  then obtain i where i: "i \<in> set (folders_below fs seen work)" by (cases "folders_below fs seen work") auto
  then have "i \<in> fo_id ` set fs - set seen" by (auto simp: folders_below_def)
  with i have "fo_id ` set fs - set (seen @ folders_below fs seen work) \<subset> fo_id ` set fs - set seen" by auto
  then have "card (fo_id ` set fs - set (seen @ folders_below fs seen work)) < card (fo_id ` set fs - set seen)"
    by (intro psubset_card_mono) auto
  then show "((fs, seen @ folders_below fs seen work, folders_below fs seen work), fs, seen, work)
      \<in> measure (\<lambda>(fs, seen, work). card (fo_id ` set fs - set seen))" by simp
qed simp

declare folders_from.simps [simp del]

definition granted_folders :: "content_db \<Rightarrow> uuid \<Rightarrow> uuid list" where
  "granted_folders db user = remdups (map snd (filter (\<lambda>(u, f). u = user) (ct_folder_grants db)))"

definition accessible_folders :: "content_db \<Rightarrow> uuid \<Rightarrow> uuid list" where
  "accessible_folders db user = folders_from (ct_folders db) (granted_folders db user) (granted_folders db user)"

definition folder_in_scope :: "content_db \<Rightarrow> content_access \<Rightarrow> uuid option \<Rightarrow> bool" where
  "folder_in_scope db a folder \<longleftrightarrow>
     (case folder of None \<Rightarrow> False | Some f \<Rightarrow> f \<in> set (accessible_folders db (ca_user a)))"

definition asset_in_scope :: "content_db \<Rightarrow> content_access \<Rightarrow> asset_row \<Rightarrow> bool" where
  "asset_in_scope db a x \<longleftrightarrow> ca_library a \<or> folder_in_scope db a (ast_folder x)"

record content_view =
  vw_access :: content_access
  vw_types :: "string list option"

definition asset_in_view :: "content_db \<Rightarrow> content_view \<Rightarrow> asset_row \<Rightarrow> bool" where
  "asset_in_view db v x \<longleftrightarrow> asset_in_scope db (vw_access v) x
     \<and> (case vw_types v of None \<Rightarrow> True | Some ts \<Rightarrow> ast_type x \<in> set ts)"

definition folder_exists :: "content_db \<Rightarrow> uuid \<Rightarrow> bool" where
  "folder_exists db i \<longleftrightarrow> list_ex (\<lambda>f. fo_id f = i) (ct_folders db)"

definition folder_writable :: "content_db \<Rightarrow> content_access \<Rightarrow> uuid option \<Rightarrow> content_error + unit" where
  "folder_writable db a folder =
     (case folder of
        None \<Rightarrow> check (ca_library a) OutOfScopeContent
      | Some f \<Rightarrow> check (folder_exists db f \<and> (ca_library a \<or> f \<in> set (accessible_folders db (ca_user a)))) OutOfScopeContent)"

definition tags_assignable :: "content_db \<Rightarrow> content_access \<Rightarrow> uuid list \<Rightarrow> content_error + unit" where
  "tags_assignable db a ids =
     (if unique ids = [] then Inr ()
      else check (length (filter (\<lambda>t. tg_id t \<in> set (unique ids) \<and> (ca_tags a \<or> (ca_user a, tg_id t) \<in> set (ct_tag_grants db)))
             (ct_tags db)) = length (unique ids)) TagNotAssignable)"

record asset_ref =
  ar_id :: uuid
  ar_type :: string

definition asset_expired :: "int \<Rightarrow> asset_row \<Rightarrow> bool" where
  "asset_expired now x \<longleftrightarrow> (case ast_expires x of None \<Rightarrow> False | Some t \<Rightarrow> t \<le> now)"

definition authorize_assets ::
  "int \<Rightarrow> content_db \<Rightarrow> content_access \<Rightarrow> uuid list \<Rightarrow> bool \<Rightarrow> content_error + asset_ref list" where
  "authorize_assets now db a ids include_archived =
     (if unique ids = [] then Inr []
      else let refs = map (\<lambda>x. \<lparr>ar_id = ast_id x, ar_type = ast_type x\<rparr>)
                 (filter (\<lambda>x. ast_id x \<in> set (unique ids) \<and> \<not> ast_deleted x \<and> ast_origin x = ''library''
                    \<and> (include_archived \<or> (\<not> ast_archived x \<and> \<not> asset_expired now x)) \<and> asset_in_scope db a x) (ct_assets db))
           in andthen (check (length refs = length (unique ids)) ContentNotFound) (\<lambda>_. Inr refs))"

definition writable_folders :: "content_db \<Rightarrow> content_access \<Rightarrow> uuid list option" where
  "writable_folders db a = (if ca_library a then None else Some (accessible_folders db (ca_user a)))"

section \<open>Policies\<close>

record content_access_input =
  ci_library :: string
  ci_tags :: string
  ci_folder_ids :: "uuid list"
  ci_tag_ids :: "uuid list"

definition set_policy :: "uuid \<Rightarrow> string \<Rightarrow> string \<Rightarrow> content_policy list \<Rightarrow> content_policy list" where
  "set_policy user library tags ps =
     (if user \<in> cp_user ` set ps
      then map (\<lambda>p. if cp_user p = user then p\<lparr>cp_library := library, cp_tags := tags\<rparr> else p) ps
      else ps @ [\<lparr>cp_user = user, cp_library = library, cp_tags = tags\<rparr>])"

definition delegable_content :: "content_db \<Rightarrow> content_access \<Rightarrow> content_access_input \<Rightarrow> content_error + uuid list \<times> uuid list" where
  "delegable_content db actor_access input =
     andthen (check (ci_library input = ''all'' \<or> ci_library input = ''restricted'') LibraryModeInvalid) (\<lambda>_.
     andthen (check (ci_tags input = ''all'' \<or> ci_tags input = ''restricted'') TagModeInvalid) (\<lambda>_.
     let folders = (if ci_library input = ''all'' then [] else unique (ci_folder_ids input));
         tags = (if ci_tags input = ''all'' then [] else unique (ci_tag_ids input))
     in andthen (check (length folders \<le> 200 \<and> length tags \<le> 200) TooManyGrants) (\<lambda>_.
        andthen (check (\<not> (ci_library input = ''all'' \<and> \<not> ca_library actor_access)) LibraryDelegation) (\<lambda>_.
        andthen (check (\<not> (ci_tags input = ''all'' \<and> \<not> ca_tags actor_access)) TagsDelegation) (\<lambda>_.
        andthen (first_error (\<lambda>f. case folder_writable db actor_access (Some f) of
                   Inl _ \<Rightarrow> Inl FolderDelegation | Inr _ \<Rightarrow> Inr ()) folders) (\<lambda>_.
        andthen (case tags_assignable db actor_access tags of Inl _ \<Rightarrow> Inl TagDelegation | Inr _ \<Rightarrow> Inr ()) (\<lambda>_.
        Inr (folders, tags))))))))"

definition replace_content_access ::
  "uuid \<Rightarrow> content_access \<Rightarrow> uuid \<Rightarrow> content_access_input \<Rightarrow> content_db \<Rightarrow> content_error + content_db" where
  "replace_content_access actor actor_access user input db =
     andthen (delegable_content db actor_access input) (\<lambda>(folders, tags).
     Inr (db\<lparr>ct_policies := set_policy user (ci_library input) (ci_tags input) (ct_policies db),
             ct_folder_grants := filter (\<lambda>(u, f). u \<noteq> user) (ct_folder_grants db) @ map (Pair user) folders,
             ct_tag_grants := filter (\<lambda>(u, t). u \<noteq> user) (ct_tag_grants db) @ map (Pair user) tags,
             ct_audit := ct_audit db @ [(actor, ''user.content_access_changed'', user)]\<rparr>))"

text \<open>The path of a folder in the policy editor: its ancestry, cut after 33 names.\<close>

fun folder_chain :: "nat \<Rightarrow> folder_row list \<Rightarrow> uuid \<Rightarrow> string list" where
  "folder_chain n fs i =
     (case find (\<lambda>f. fo_id f = i) fs of
        None \<Rightarrow> []
      | Some f \<Rightarrow> (case n of 0 \<Rightarrow> [fo_name f]
          | Suc m \<Rightarrow> (case fo_parent f of None \<Rightarrow> [fo_name f] | Some p \<Rightarrow> folder_chain m fs p @ [fo_name f])))"

fun join_path :: "string list \<Rightarrow> string" where
  "join_path [] = []"
| "join_path [s] = s"
| "join_path (s # ss) = s @ '' / '' @ join_path ss"

record grant_name =
  gn_id :: uuid
  gn_name :: string
  gn_path :: string

record content_policy_view =
  pv_library :: string
  pv_tags :: string
  pv_folders :: "grant_name list"
  pv_tag_names :: "grant_name list"
  pv_configured :: bool

definition content_policy_for :: "(string \<Rightarrow> string) \<Rightarrow> content_db \<Rightarrow> uuid \<Rightarrow> content_policy_view" where
  "content_policy_for sql_lower db user =
     (let p = find (\<lambda>p. cp_user p = user) (ct_policies db);
          granted = filter (\<lambda>f. (user, fo_id f) \<in> set (ct_folder_grants db)) (ct_folders db);
          tagged = filter (\<lambda>t. (user, tg_id t) \<in> set (ct_tag_grants db)) (ct_tags db)
      in \<lparr>pv_library = (case p of None \<Rightarrow> ''restricted'' | Some r \<Rightarrow> cp_library r),
          pv_tags = (case p of None \<Rightarrow> ''restricted'' | Some r \<Rightarrow> cp_tags r),
          pv_folders = sort_by (\<lambda>a b. gn_path a < gn_path b)
            (map (\<lambda>f. \<lparr>gn_id = fo_id f, gn_name = fo_name f, gn_path = join_path (folder_chain 32 (ct_folders db) (fo_id f))\<rparr>) granted),
          pv_tag_names = sort_by (\<lambda>a b. (sql_lower (gn_name a), gn_id a) < (sql_lower (gn_name b), gn_id b))
            (map (\<lambda>t. \<lparr>gn_id = tg_id t, gn_name = tg_name t, gn_path = []\<rparr>) tagged),
          pv_configured = (p \<noteq> None)\<rparr>)"

section \<open>Requests about assets\<close>

datatype asset_action = AssetRead | AssetEdit | AssetOrganize | AssetArchive | AssetDelete

definition asset_capability :: "string \<Rightarrow> asset_action \<Rightarrow> capability_key" where
  "asset_capability asset_type action =
     (if asset_type = ''widget''
      then (case action of AssetRead \<Rightarrow> ''widget.read'' | AssetEdit \<Rightarrow> ''widget.edit'' | AssetOrganize \<Rightarrow> ''widget.edit''
              | _ \<Rightarrow> ''widget.delete'')
      else (case action of AssetRead \<Rightarrow> ''media.read'' | AssetEdit \<Rightarrow> ''media.edit'' | AssetOrganize \<Rightarrow> ''media.organize''
              | AssetArchive \<Rightarrow> ''media.archive'' | AssetDelete \<Rightarrow> ''media.delete''))"

definition caller_access :: "content_db \<Rightarrow> delegator \<Rightarrow> content_access" where
  "caller_access db d = access_for db (dg_user d) (dg_role d = ''owner'')"

definition caller_view :: "content_db \<Rightarrow> delegator \<Rightarrow> content_view" where
  "caller_view db d =
     \<lparr>vw_access = caller_access db d,
      vw_types = Some ((if ''media.read'' \<in> dg_capabilities d then [''image'', ''video''] else [])
        @ (if ''widget.read'' \<in> dg_capabilities d then [''widget''] else []))\<rparr>"

definition request_assets ::
  "int \<Rightarrow> content_db \<Rightarrow> delegator \<Rightarrow> uuid list \<Rightarrow> asset_action \<Rightarrow> bool \<Rightarrow> content_error + asset_ref list" where
  "request_assets now db d ids action include_archived =
     andthen (authorize_assets now db (caller_access db d) ids include_archived) (\<lambda>refs.
     andthen (first_error (\<lambda>r. check (asset_capability (ar_type r) AssetRead \<in> dg_capabilities d) ContentNotFound) refs) (\<lambda>_.
     andthen (first_error (\<lambda>r. check (asset_capability (ar_type r) action \<in> dg_capabilities d) RoleNotAllowed) refs) (\<lambda>_.
     Inr refs)))"

definition request_references :: "int \<Rightarrow> content_db \<Rightarrow> delegator \<Rightarrow> uuid list \<Rightarrow> content_error + unit" where
  "request_references now db d ids =
     (if ids = [] \<or> ca_library (caller_access db d) then Inr ()
      else andthen (request_assets now db d ids AssetRead False) (\<lambda>_. Inr ()))"

text \<open>The destination of an upload, decided again when the asset is registered, on the account as it then is.\<close>

definition authorize_upload_destination :: "role_db \<Rightarrow> content_db \<Rightarrow> uuid \<Rightarrow> uuid option \<Rightarrow> content_error + unit" where
  "authorize_upload_destination roles db user folder =
     (case find (\<lambda>u. u_id u = user) (rd_users roles) of
        None \<Rightarrow> Inl OutOfScopeContent
      | Some u \<Rightarrow>
          andthen (check (u_active u) OutOfScopeContent) (\<lambda>_.
          andthen (check (''media.upload'' \<in> resolve_capabilities roles (u_role u)) OutOfScopeContent) (\<lambda>_.
          folder_writable db (if u_role u = ''owner'' then full_access user else stored_access db user) folder)))"

definition put_user_content_access ::
  "role_db \<Rightarrow> delegator \<Rightarrow> uuid \<Rightarrow> content_access_input \<Rightarrow> content_db \<Rightarrow> content_error + content_db" where
  "put_user_content_access roles d user input db =
     andthen (check (dg_user d \<noteq> user) ScopeSelf) (\<lambda>_.
     case find (\<lambda>u. u_id u = user) (rd_users roles) of
       None \<Rightarrow> Inl ContentNotFound
     | Some u \<Rightarrow>
         andthen (check (''users.manage'' \<in> dg_capabilities d \<and> can_assign_role d (u_role u) (resolve_capabilities roles (u_role u)))
            RoleNotAllowed) (\<lambda>_.
         andthen (check (u_role u \<noteq> ''owner'') OwnerNotScopable) (\<lambda>_.
         replace_content_access (dg_user d) (caller_access db d) user input db)))"

section \<open>The folders an account reaches\<close>

definition below :: "folder_row list \<Rightarrow> (uuid \<times> uuid) set" where
  "below fs = {(p, i). \<exists>f\<in>set fs. fo_parent f = Some p \<and> fo_id f = i}"

lemma folders_below_set: "set (folders_below fs seen work) = below fs `` set work - set seen"
  by (auto simp: folders_below_def below_def split: option.splits)

lemma folders_from_distinct: "distinct seen \<Longrightarrow> distinct (folders_from fs seen work)"
proof (induction fs seen work rule: folders_from.induct)
  case (1 fs seen work)
  show ?case
  proof (cases "folders_below fs seen work = []")
    case True
    with 1(2) show ?thesis by (simp add: folders_from.simps)
  next
    case False
    have "distinct (seen @ folders_below fs seen work)" using 1(2) by (auto simp: folders_below_def)
    with 1(1)[OF False] False show ?thesis by (simp add: folders_from.simps[of fs seen work])
  qed
qed

text \<open>The recursive query computes the reflexive and transitive closure.\<close>

lemma folders_from_closure:
  "set work \<subseteq> set seen \<Longrightarrow> below fs `` (set seen - set work) \<subseteq> set seen \<Longrightarrow>
   set (folders_from fs seen work) = (below fs)\<^sup>* `` set seen"
proof (induction fs seen work rule: folders_from.induct)
  case (1 fs seen work)
  show ?case
  proof (cases "folders_below fs seen work = []")
    case True
    then have "below fs `` set work \<subseteq> set seen" using folders_below_set[of fs seen work] by auto
    with 1(3) have "below fs `` set seen \<subseteq> set seen" by blast
    then have "(below fs)\<^sup>* `` set seen = set seen" by (rule Image_closed_trancl)
    with True show ?thesis by (simp add: folders_from.simps)
  next
    case False
    let ?new = "folders_below fs seen work"
    have new: "set ?new = below fs `` set work - set seen" by (rule folders_below_set)
    have "below fs `` set seen \<subseteq> set seen \<union> below fs `` set work" using 1(3) by blast
    then have "below fs `` set seen \<subseteq> set (seen @ ?new)" using new by auto
    then have "below fs `` (set (seen @ ?new) - set ?new) \<subseteq> set (seen @ ?new)" by auto
    with 1(1)[OF False] have step: "set (folders_from fs (seen @ ?new) ?new) = (below fs)\<^sup>* `` set (seen @ ?new)" by simp
    have "set ?new \<subseteq> (below fs)\<^sup>* `` set seen" using new 1(2) by blast
    then have "(below fs)\<^sup>* `` set (seen @ ?new) = (below fs)\<^sup>* `` set seen" by (auto intro: rtrancl_trans)
    with step False show ?thesis by (simp add: folders_from.simps[of fs seen work])
  qed
qed

theorem accessible_folders_closure:
  "set (accessible_folders db user) = (below (ct_folders db))\<^sup>* `` {f. (user, f) \<in> set (ct_folder_grants db)}"
proof -
  have "set (granted_folders db user) = {f. (user, f) \<in> set (ct_folder_grants db)}"
    by (force simp: granted_folders_def)
  then show ?thesis by (simp add: accessible_folders_def folders_from_closure)
qed

lemma folder_in_scope_below:
  "folder_in_scope db a (Some p) \<Longrightarrow> (p, i) \<in> below (ct_folders db) \<Longrightarrow> folder_in_scope db a (Some i)"
  by (auto simp: folder_in_scope_def accessible_folders_closure intro: rtrancl_into_rtrancl)

text \<open>What a saved policy is read back as.\<close>

lemma find_policy_updated:
  "find (\<lambda>p. cp_user p = u) (map (\<lambda>p. if cp_user p = user then p\<lparr>cp_library := l, cp_tags := t\<rparr> else p) ps)
   = map_option (\<lambda>p. if cp_user p = user then p\<lparr>cp_library := l, cp_tags := t\<rparr> else p) (find (\<lambda>p. cp_user p = u) ps)"
  by (induction ps) auto

lemma find_policy_appended:
  "find P (ps @ [p]) = (case find P ps of None \<Rightarrow> if P p then Some p else None | Some x \<Rightarrow> Some x)" for p :: content_policy
  by (induction ps) auto

lemma stored_access_set_policy:
  assumes "ct_policies db' = set_policy user library tags (ct_policies db)"
  shows "stored_access db' u =
    (if u = user then \<lparr>ca_user = u, ca_library = (library = ''all''), ca_tags = (tags = ''all'')\<rparr> else stored_access db u)"
proof (cases "user \<in> cp_user ` set (ct_policies db)")
  case True
  then have found: "find (\<lambda>p. cp_user p = user) (ct_policies db) \<noteq> None" by (auto simp: find_None_iff)
  show ?thesis
  proof (cases "u = user")
    case u: True
    from found obtain q where q: "find (\<lambda>p. cp_user p = user) (ct_policies db) = Some q" by blast
    then have "cp_user q = user" by (auto simp: find_Some_iff)
    with u q True assms show ?thesis by (simp add: stored_access_def set_policy_def find_policy_updated)
  next
    case False
    show ?thesis
    proof (cases "find (\<lambda>p. cp_user p = u) (ct_policies db)")
      case None
      with False True assms show ?thesis by (simp add: stored_access_def set_policy_def find_policy_updated)
    next
      case (Some p)
      then have "cp_user p = u" by (auto simp: find_Some_iff)
      with Some False True assms show ?thesis by (simp add: stored_access_def set_policy_def find_policy_updated)
    qed
  qed
next
  case False
  then have "find (\<lambda>p. cp_user p = user) (ct_policies db) = None" by (auto simp: find_None_iff)
  with False assms show ?thesis
    by (auto simp: stored_access_def set_policy_def find_policy_appended split: option.split)
qed

section \<open>Decisions about assets\<close>

lemma unique_from_spec: "set (unique_from seen ids) = set ids - seen \<and> distinct (unique_from seen ids)"
  by (induction ids arbitrary: seen) auto

lemma set_unique [simp]: "set (unique ids) = set ids"
  by (simp add: unique_def unique_from_spec)

lemma distinct_unique [simp]: "distinct (unique ids)"
  by (simp add: unique_def unique_from_spec)

lemma unique_Nil [simp]: "unique ids = [] \<longleftrightarrow> ids = []"
  by (metis set_unique set_empty)

text \<open>Counting matches against a duplicate-free list of ids decides whether every id has one.\<close>

lemma count_decides:
  assumes "distinct (map f xs)" "distinct ids"
  shows "length (filter (\<lambda>x. f x \<in> set ids \<and> P x) xs) = length ids \<longleftrightarrow> (\<forall>i\<in>set ids. \<exists>x\<in>set xs. f x = i \<and> P x)"
proof -
  let ?m = "map f (filter (\<lambda>x. f x \<in> set ids \<and> P x) xs)"
  have d: "distinct ?m" using assms(1) by (simp add: distinct_map_filter)
  have sub: "set ?m \<subseteq> set ids" by auto
  have "length ?m = length ids \<longleftrightarrow> set ?m = set ids"
  proof
    assume "length ?m = length ids"
    then have "card (set ?m) = card (set ids)" using distinct_card[OF d] distinct_card[OF assms(2)] by simp
    with sub show "set ?m = set ids" by (intro card_subset_eq) auto
  next
    assume "set ?m = set ids"
    then show "length ?m = length ids" using distinct_card[OF d] distinct_card[OF assms(2)] by simp
  qed
  also have "\<dots> \<longleftrightarrow> (\<forall>i\<in>set ids. i \<in> set ?m)" using sub by blast
  also have "\<dots> \<longleftrightarrow> (\<forall>i\<in>set ids. \<exists>x\<in>set xs. f x = i \<and> P x)"
    by (rule ball_cong[OF refl]) (auto simp: image_iff)
  finally show ?thesis by simp
qed

definition asset_visible :: "int \<Rightarrow> content_db \<Rightarrow> content_access \<Rightarrow> bool \<Rightarrow> asset_row \<Rightarrow> bool" where
  "asset_visible now db a include_archived x \<longleftrightarrow> \<not> ast_deleted x \<and> ast_origin x = ''library''
     \<and> (include_archived \<or> (\<not> ast_archived x \<and> \<not> asset_expired now x)) \<and> asset_in_scope db a x"

lemma authorize_assets_Inr:
  assumes "distinct (map ast_id (ct_assets db))"
  shows "(\<exists>refs. authorize_assets now db a ids arch = Inr refs)
    \<longleftrightarrow> (\<forall>i\<in>set ids. \<exists>x\<in>set (ct_assets db). ast_id x = i \<and> asset_visible now db a arch x)"
proof (cases "ids = []")
  case False
  have "(\<exists>refs. authorize_assets now db a ids arch = Inr refs) \<longleftrightarrow>
    length (filter (\<lambda>x. ast_id x \<in> set (unique ids) \<and> asset_visible now db a arch x) (ct_assets db)) = length (unique ids)"
    using False by (simp add: authorize_assets_def Let_def asset_visible_def)
  then show ?thesis by (simp add: count_decides[OF assms distinct_unique] del: set_unique) simp
qed (simp add: authorize_assets_def)

lemma authorize_assets_refs:
  assumes "authorize_assets now db a ids arch = Inr refs" "r \<in> set refs"
  obtains x where "x \<in> set (ct_assets db)" "ast_id x = ar_id r" "ast_type x = ar_type r" "ar_id r \<in> set ids"
    "asset_visible now db a arch x"
  using assms by (auto simp: authorize_assets_def Let_def asset_visible_def split: if_splits)

lemma authorize_assets_error: "authorize_assets now db a ids arch = Inl e \<Longrightarrow> e = ContentNotFound"
  by (auto simp: authorize_assets_def Let_def split: if_splits)

lemma tags_assignable_Inr:
  assumes "distinct (map tg_id (ct_tags db))"
  shows "tags_assignable db a ids = Inr () \<longleftrightarrow>
    (\<forall>i\<in>set ids. i \<in> tg_id ` set (ct_tags db) \<and> (ca_tags a \<or> (ca_user a, i) \<in> set (ct_tag_grants db)))"
  using count_decides[OF assms distinct_unique[of ids], of "\<lambda>t. ca_tags a \<or> (ca_user a, tg_id t) \<in> set (ct_tag_grants db)"]
  by (auto simp: tags_assignable_def)

end
