(* ===== verification/ContentOrganization.thy ===== *)
theory ContentOrganization
  imports ContentAccess
begin

text \<open>
  The structure of the Media library (\<open>media/organization.go\<close>, \<open>httpapi/content_organization.go\<close>):
  folders, collections, tags, and the bulk change that moves assets and tags them. New identifiers are arguments;
  \<open>sql_lower\<close> is PostgreSQL's \<open>lower\<close>. A statement that violates a constraint fails with
  \<open>ContentConstraint\<close> and its transaction changes nothing. Manifest invalidation is left out.
\<close>

definition clean_organization_name :: "string \<Rightarrow> nat \<Rightarrow> content_error + string" where
  "clean_organization_name name max_length =
     andthen (check (trim_space name \<noteq> [] \<and> length (trim_space name) \<le> max_length) (OrganizationName max_length)) (\<lambda>_.
     Inr (trim_space name))"

definition live_asset :: "int \<Rightarrow> asset_row \<Rightarrow> bool" where
  "live_asset now x \<longleftrightarrow> \<not> ast_deleted x \<and> \<not> ast_archived x \<and> \<not> asset_expired now x \<and> ast_origin x = ''library'' \<and> \<not> ast_system x"

section \<open>Folders\<close>

record folder_view =
  fv_id :: uuid
  fv_parent :: "uuid option"
  fv_name :: string
  fv_description :: string
  fv_count :: nat

definition listed_parent :: "content_db \<Rightarrow> content_access \<Rightarrow> folder_row \<Rightarrow> uuid option" where
  "listed_parent db a f =
     (if ca_library a then fo_parent f
      else case fo_parent f of None \<Rightarrow> None
        | Some p \<Rightarrow> if p \<in> set (accessible_folders db (ca_user a)) then Some p else None)"

definition list_folders :: "(string \<Rightarrow> string) \<Rightarrow> int \<Rightarrow> content_db \<Rightarrow> content_view \<Rightarrow> folder_view list" where
  "list_folders sql_lower now db v =
     (let a = vw_access v
      in sort_by (\<lambda>x y. (sql_lower (fv_name x), fv_id x) < (sql_lower (fv_name y), fv_id y))
           (map (\<lambda>f. \<lparr>fv_id = fo_id f, fv_parent = listed_parent db a f, fv_name = fo_name f, fv_description = fo_description f,
                  fv_count = length (filter (\<lambda>x. ast_folder x = Some (fo_id f) \<and> live_asset now x \<and> asset_in_view db v x) (ct_assets db))\<rparr>)
              (filter (\<lambda>f. ca_library a \<or> fo_id f \<in> set (accessible_folders db (ca_user a))) (ct_folders db))))"

definition coalesce_parent :: "uuid option \<Rightarrow> uuid" where
  "coalesce_parent p = (case p of None \<Rightarrow> uuid_nil | Some i \<Rightarrow> i)"

text \<open>The constraints of \<open>content_folders\<close>: the CHECKs, the reference to the parent and the unique index.\<close>

definition folder_row_ok :: "(string \<Rightarrow> string) \<Rightarrow> folder_row list \<Rightarrow> folder_row \<Rightarrow> bool" where
  "folder_row_ok sql_lower others f \<longleftrightarrow>
     text_ok (fo_name f) \<and> text_ok (fo_description f)
     \<and> 1 \<le> char_count (fo_name f) \<and> char_count (fo_name f) \<le> 120 \<and> char_count (fo_description f) \<le> 500
     \<and> (case fo_parent f of None \<Rightarrow> True | Some p \<Rightarrow> p \<noteq> fo_id f \<and> p \<in> fo_id ` set others)
     \<and> \<not> list_ex (\<lambda>g. coalesce_parent (fo_parent g) = coalesce_parent (fo_parent f) \<and> sql_lower (fo_name g) = sql_lower (fo_name f)) others"

definition create_folder ::
  "(string \<Rightarrow> string) \<Rightarrow> uuid \<Rightarrow> uuid option \<Rightarrow> string \<Rightarrow> string \<Rightarrow> content_db \<Rightarrow> content_error + content_db" where
  "create_folder sql_lower i parent name description db =
     andthen (clean_organization_name name 120) (\<lambda>name'.
     andthen (check (length (trim_space description) \<le> 500) OrganizationDescription) (\<lambda>_.
     let f = \<lparr>fo_id = i, fo_parent = parent, fo_name = name', fo_description = trim_space description\<rparr>
     in andthen (check (\<not> folder_exists db i \<and> folder_row_ok sql_lower (ct_folders db) f) ContentConstraint) (\<lambda>_.
        Inr (db\<lparr>ct_folders := ct_folders db @ [f]\<rparr>))))"

text \<open>
  The folder itself and its ancestors, as the recursive query of \<open>UpdateFolder\<close> finds them. It is
  \<open>UNION ALL\<close>: on a cycle it does not end, which is \<open>None\<close>.
\<close>

partial_function (option) ancestors :: "folder_row list \<Rightarrow> uuid \<Rightarrow> uuid list option" where
  "ancestors fs i =
     (case find (\<lambda>f. fo_id f = i) fs of
        None \<Rightarrow> Some []
      | Some f \<Rightarrow> (case fo_parent f of
            None \<Rightarrow> Some [i]
          | Some p \<Rightarrow> Option.bind (ancestors fs p) (\<lambda>is. Some (i # is))))"

definition check_move :: "uuid \<Rightarrow> uuid option \<Rightarrow> content_db \<Rightarrow> (content_error + unit) option" where
  "check_move i parent db =
     (case parent of
        None \<Rightarrow> Some (Inr ())
      | Some p \<Rightarrow>
          if p = i then Some (Inl FolderInItself)
          else map_option (\<lambda>is. check (i \<notin> set is) FolderCycle) (ancestors (ct_folders db) p))"

definition write_folder ::
  "(string \<Rightarrow> string) \<Rightarrow> uuid \<Rightarrow> uuid option \<Rightarrow> string \<Rightarrow> string \<Rightarrow> content_db \<Rightarrow> content_error + content_db" where
  "write_folder sql_lower i parent name description db =
     andthen (check (folder_exists db i) ContentNotFound) (\<lambda>_.
     andthen (check (folder_row_ok sql_lower (filter (\<lambda>f. fo_id f \<noteq> i) (ct_folders db))
        \<lparr>fo_id = i, fo_parent = parent, fo_name = name, fo_description = trim_space description\<rparr>) ContentConstraint) (\<lambda>_.
     Inr (db\<lparr>ct_folders := map (\<lambda>f. if fo_id f = i
        then f\<lparr>fo_parent := parent, fo_name := name, fo_description := trim_space description\<rparr> else f) (ct_folders db)\<rparr>)))"

text \<open>The check and the update are two statements outside a transaction; here nothing runs between them.\<close>

definition update_folder ::
  "(string \<Rightarrow> string) \<Rightarrow> uuid \<Rightarrow> uuid option \<Rightarrow> string \<Rightarrow> string \<Rightarrow> content_db \<Rightarrow> (content_error + content_db) option" where
  "update_folder sql_lower i parent name description db =
     (case clean_organization_name name 120 of
        Inl e \<Rightarrow> Some (Inl e)
      | Inr name' \<Rightarrow> map_option (\<lambda>r. andthen r (\<lambda>_. write_folder sql_lower i parent name' description db)) (check_move i parent db))"

text \<open>The children become top-level folders before the folder is gone; its grants go with it.\<close>

definition delete_folder :: "(string \<Rightarrow> string) \<Rightarrow> uuid \<Rightarrow> uuid \<Rightarrow> content_db \<Rightarrow> content_error + content_db" where
  "delete_folder sql_lower i user db =
     andthen (check (\<not> list_ex (\<lambda>c. fo_parent c = Some i \<and>
          list_ex (\<lambda>g. coalesce_parent (fo_parent g) = uuid_nil \<and> sql_lower (fo_name g) = sql_lower (fo_name c)) (ct_folders db))
        (ct_folders db)) ContentConstraint) (\<lambda>_.
     andthen (check (folder_exists db i) ContentNotFound) (\<lambda>_.
     Inr (db\<lparr>ct_folders := filter (\<lambda>f. fo_id f \<noteq> i)
            (map (\<lambda>f. if fo_parent f = Some i then f\<lparr>fo_parent := None\<rparr> else f) (ct_folders db)),
          ct_assets := map (\<lambda>x. if ast_folder x = Some i then x\<lparr>ast_folder := None\<rparr> else x) (ct_assets db),
          ct_folder_grants := filter (\<lambda>(u, f). f \<noteq> i) (ct_folder_grants db),
          ct_audit := ct_audit db @ [(user, ''content.folder_deleted'', i)]\<rparr>)))"

section \<open>Collections\<close>

record collection_view =
  cv_id :: uuid
  cv_name :: string
  cv_description :: string
  cv_count :: nat

definition list_collections :: "(string \<Rightarrow> string) \<Rightarrow> int \<Rightarrow> content_db \<Rightarrow> content_view \<Rightarrow> collection_view list" where
  "list_collections sql_lower now db v =
     sort_by (\<lambda>x y. (sql_lower (cv_name x), cv_id x) < (sql_lower (cv_name y), cv_id y))
       (filter (\<lambda>c. ca_library (vw_access v) \<or> 0 < cv_count c)
         (map (\<lambda>c. \<lparr>cv_id = co_id c, cv_name = co_name c, cv_description = co_description c,
                cv_count = length (filter (\<lambda>x. (co_id c, ast_id x) \<in> set (ct_collection_assets db) \<and> live_asset now x \<and> asset_in_view db v x)
                  (ct_assets db))\<rparr>) (ct_collections db)))"

definition collection_row_ok :: "(string \<Rightarrow> string) \<Rightarrow> collection_row list \<Rightarrow> collection_row \<Rightarrow> bool" where
  "collection_row_ok sql_lower others c \<longleftrightarrow>
     text_ok (co_name c) \<and> text_ok (co_description c) \<and> 1 \<le> char_count (co_name c) \<and> char_count (co_name c) \<le> 120
     \<and> char_count (co_description c) \<le> 500 \<and> \<not> list_ex (\<lambda>o'. sql_lower (co_name o') = sql_lower (co_name c)) others"

definition create_collection ::
  "(string \<Rightarrow> string) \<Rightarrow> uuid \<Rightarrow> string \<Rightarrow> string \<Rightarrow> content_db \<Rightarrow> content_error + content_db" where
  "create_collection sql_lower i name description db =
     andthen (clean_organization_name name 120) (\<lambda>name'.
     andthen (check (length (trim_space description) \<le> 500) OrganizationDescription) (\<lambda>_.
     let c = \<lparr>co_id = i, co_name = name', co_description = trim_space description\<rparr>
     in andthen (check (i \<notin> co_id ` set (ct_collections db) \<and> collection_row_ok sql_lower (ct_collections db) c) ContentConstraint) (\<lambda>_.
        Inr (db\<lparr>ct_collections := ct_collections db @ [c]\<rparr>))))"

definition update_collection ::
  "(string \<Rightarrow> string) \<Rightarrow> uuid \<Rightarrow> string \<Rightarrow> string \<Rightarrow> content_db \<Rightarrow> content_error + content_db" where
  "update_collection sql_lower i name description db =
     andthen (clean_organization_name name 120) (\<lambda>name'.
     andthen (check (length (trim_space description) \<le> 500) OrganizationDescription) (\<lambda>_.
     andthen (check (i \<in> co_id ` set (ct_collections db)) ContentNotFound) (\<lambda>_.
     let c = \<lparr>co_id = i, co_name = name', co_description = trim_space description\<rparr>
     in andthen (check (collection_row_ok sql_lower (filter (\<lambda>o'. co_id o' \<noteq> i) (ct_collections db)) c) ContentConstraint) (\<lambda>_.
        Inr (db\<lparr>ct_collections := map (\<lambda>o'. if co_id o' = i then c else o') (ct_collections db)\<rparr>)))))"

definition delete_collection :: "uuid \<Rightarrow> content_db \<Rightarrow> content_error + content_db" where
  "delete_collection i db =
     andthen (check (i \<in> co_id ` set (ct_collections db)) ContentNotFound) (\<lambda>_.
     Inr (db\<lparr>ct_collections := filter (\<lambda>c. co_id c \<noteq> i) (ct_collections db),
            ct_collection_assets := filter (\<lambda>(c, x). c \<noteq> i) (ct_collection_assets db)\<rparr>))"

section \<open>Tags\<close>

record tag_view =
  tv_id :: uuid
  tv_name :: string
  tv_color :: string
  tv_count :: nat
  tv_assignable :: bool

definition list_tags :: "(string \<Rightarrow> string) \<Rightarrow> int \<Rightarrow> content_db \<Rightarrow> content_view \<Rightarrow> tag_view list" where
  "list_tags sql_lower now db v =
     (let a = vw_access v
      in sort_by (\<lambda>x y. (sql_lower (tv_name x), tv_id x) < (sql_lower (tv_name y), tv_id y))
           (filter (\<lambda>t. ca_library a \<or> 0 < tv_count t \<or> tv_assignable t)
             (map (\<lambda>t. \<lparr>tv_id = tg_id t, tv_name = tg_name t, tv_color = tg_color t,
                    tv_count = length (filter (\<lambda>x. (ast_id x, tg_id t) \<in> set (ct_asset_tags db) \<and> live_asset now x \<and> asset_in_view db v x)
                      (ct_assets db)),
                    tv_assignable = (ca_tags a \<or> (ca_user a, tg_id t) \<in> set (ct_tag_grants db))\<rparr>) (ct_tags db))))"

definition hex_digit :: "char \<Rightarrow> bool" where
  "hex_digit c \<longleftrightarrow> (CHR ''0'' \<le> c \<and> c \<le> CHR ''9'') \<or> (CHR ''A'' \<le> c \<and> c \<le> CHR ''F'') \<or> (CHR ''a'' \<le> c \<and> c \<le> CHR ''f'')"

definition color_ok :: "string \<Rightarrow> bool" where
  "color_ok s \<longleftrightarrow> (case s of [] \<Rightarrow> False | c # cs \<Rightarrow> c = CHR ''#'' \<and> length cs = 6 \<and> list_all hex_digit cs)"

definition tag_color :: "string \<Rightarrow> content_error + string" where
  "tag_color color =
     (let c = (if color = [] then ''#64748b'' else color) in andthen (check (color_ok c) TagColor) (\<lambda>_. Inr c))"

definition tag_row_ok :: "(string \<Rightarrow> string) \<Rightarrow> tag_row list \<Rightarrow> tag_row \<Rightarrow> bool" where
  "tag_row_ok sql_lower others t \<longleftrightarrow>
     text_ok (tg_name t) \<and> 1 \<le> char_count (tg_name t) \<and> char_count (tg_name t) \<le> 60 \<and> color_ok (tg_color t)
     \<and> \<not> list_ex (\<lambda>o'. sql_lower (tg_name o') = sql_lower (tg_name t)) others"

definition create_tag :: "(string \<Rightarrow> string) \<Rightarrow> uuid \<Rightarrow> string \<Rightarrow> string \<Rightarrow> content_db \<Rightarrow> content_error + content_db" where
  "create_tag sql_lower i name color db =
     andthen (clean_organization_name name 60) (\<lambda>name'.
     andthen (tag_color color) (\<lambda>color'.
     let t = \<lparr>tg_id = i, tg_name = name', tg_color = color'\<rparr>
     in andthen (check (i \<notin> tg_id ` set (ct_tags db) \<and> tag_row_ok sql_lower (ct_tags db) t) ContentConstraint) (\<lambda>_.
        Inr (db\<lparr>ct_tags := ct_tags db @ [t]\<rparr>))))"

definition update_tag :: "(string \<Rightarrow> string) \<Rightarrow> uuid \<Rightarrow> string \<Rightarrow> string \<Rightarrow> content_db \<Rightarrow> content_error + content_db" where
  "update_tag sql_lower i name color db =
     andthen (clean_organization_name name 60) (\<lambda>name'.
     andthen (tag_color color) (\<lambda>color'.
     andthen (check (i \<in> tg_id ` set (ct_tags db)) ContentNotFound) (\<lambda>_.
     let t = \<lparr>tg_id = i, tg_name = name', tg_color = color'\<rparr>
     in andthen (check (tag_row_ok sql_lower (filter (\<lambda>o'. tg_id o' \<noteq> i) (ct_tags db)) t) ContentConstraint) (\<lambda>_.
        Inr (db\<lparr>ct_tags := map (\<lambda>o'. if tg_id o' = i then t else o') (ct_tags db)\<rparr>)))))"

text \<open>Playlist rows are the playlist, its name, whether it is deleted, and the tag; both tables restrict the deletion.\<close>

definition tag_used_by :: "uuid \<Rightarrow> content_db \<Rightarrow> string list" where
  "tag_used_by i db =
     map (\<lambda>name. ''playlist '' @ name) (take 10 (sort_by (<)
       (map (\<lambda>(p, name, deleted, t). name) (filter (\<lambda>(p, name, deleted, t). t = i \<and> \<not> deleted) (ct_playlist_tags db)))))"

definition delete_tag :: "uuid \<Rightarrow> content_db \<Rightarrow> content_error + content_db" where
  "delete_tag i db =
     andthen (check (tag_used_by i db = []) (TagInUse (tag_used_by i db))) (\<lambda>_.
     andthen (check (i \<in> tg_id ` set (ct_tags db)) ContentNotFound) (\<lambda>_.
     andthen (check (\<not> list_ex (\<lambda>(p, name, deleted, t). t = i) (ct_playlist_tags db) \<and> \<not> list_ex (\<lambda>(p, t). t = i) (ct_draft_tags db))
        ContentConstraint) (\<lambda>_.
     Inr (db\<lparr>ct_tags := filter (\<lambda>t. tg_id t \<noteq> i) (ct_tags db),
            ct_asset_tags := filter (\<lambda>(x, t). t \<noteq> i) (ct_asset_tags db),
            ct_tag_grants := filter (\<lambda>(u, t). t \<noteq> i) (ct_tag_grants db)\<rparr>))))"

section \<open>The bulk change\<close>

record bulk_input =
  bi_assets :: "uuid list"
  bi_set_folder :: bool
  bi_folder :: "uuid option"
  bi_add_tags :: "uuid list"
  bi_remove_tags :: "uuid list"
  bi_add_collections :: "uuid list"
  bi_remove_collections :: "uuid list"

definition organization_ids_known :: "uuid list \<Rightarrow> uuid list \<Rightarrow> content_error + unit" where
  "organization_ids_known known ids =
     (if unique ids = [] then Inr ()
      else check (length (filter (\<lambda>i. i \<in> set (unique ids)) known) = length (unique ids)) ContentNotFound)"

text \<open>\<open>INSERT \<dots> ON CONFLICT DO NOTHING\<close> and \<open>DELETE\<close> on the pairs of a relation.\<close>

definition add_pairs :: "(uuid \<times> uuid) list \<Rightarrow> (uuid \<times> uuid) list \<Rightarrow> (uuid \<times> uuid) list" where
  "add_pairs new rows = fold (\<lambda>r rows. if r \<in> set rows then rows else rows @ [r]) new rows"

definition remove_pairs :: "(uuid \<times> uuid) list \<Rightarrow> (uuid \<times> uuid) list \<Rightarrow> (uuid \<times> uuid) list" where
  "remove_pairs old rows = filter (\<lambda>r. r \<notin> set old) rows"

definition pairs_with :: "uuid list \<Rightarrow> uuid list \<Rightarrow> (uuid \<times> uuid) list" where
  "pairs_with xs ys = concat (map (\<lambda>y. map (\<lambda>x. (x, y)) xs) ys)"

definition move_assets :: "uuid list \<Rightarrow> uuid option \<Rightarrow> content_db \<Rightarrow> content_db" where
  "move_assets ids folder db =
     db\<lparr>ct_assets := map (\<lambda>x. if ast_id x \<in> set ids then x\<lparr>ast_folder := folder\<rparr> else x) (ct_assets db)\<rparr>"

definition bulk_authorized ::
  "int \<Rightarrow> (asset_ref list \<Rightarrow> content_error + unit) \<Rightarrow> content_access \<Rightarrow> bulk_input \<Rightarrow> content_db \<Rightarrow> content_error + unit" where
  "bulk_authorized now allow a b db =
     (let tags = bi_add_tags b @ bi_remove_tags b; collections = bi_add_collections b @ bi_remove_collections b
      in andthen (check (bi_assets b \<noteq> [] \<and> length (bi_assets b) \<le> 250) BatchSize) (\<lambda>_.
         andthen (check (distinct (bi_assets b)) BatchDuplicates) (\<lambda>_.
         andthen (authorize_assets now db a (bi_assets b) False) (\<lambda>refs.
         andthen (allow refs) (\<lambda>_.
         andthen (organization_ids_known (map tg_id (ct_tags db)) tags) (\<lambda>_.
         andthen (tags_assignable db a tags) (\<lambda>_.
         andthen (organization_ids_known (map co_id (ct_collections db)) collections) (\<lambda>_.
         andthen (check (collections = [] \<or> ca_library a) ScopeRestricted) (\<lambda>_.
         if \<not> bi_set_folder b then Inr ()
         else andthen (case bi_folder b of None \<Rightarrow> Inr () | Some f \<Rightarrow> check (folder_exists db f) ContentNotFound) (\<lambda>_.
           folder_writable db a (bi_folder b)))))))))))"

definition bulk_organize ::
  "int \<Rightarrow> (asset_ref list \<Rightarrow> content_error + unit) \<Rightarrow> content_access \<Rightarrow> uuid \<Rightarrow> bulk_input \<Rightarrow> content_db \<Rightarrow> content_error + content_db" where
  "bulk_organize now allow a batch b db =
     andthen (bulk_authorized now allow a b db) (\<lambda>_.
       let db1 = (if bi_set_folder b then move_assets (bi_assets b) (bi_folder b) db else db)
       in Inr (db1\<lparr>ct_asset_tags := remove_pairs (pairs_with (bi_assets b) (bi_remove_tags b))
                 (add_pairs (pairs_with (bi_assets b) (bi_add_tags b)) (ct_asset_tags db1)),
               ct_collection_assets := remove_pairs (map prod.swap (pairs_with (bi_assets b) (bi_remove_collections b)))
                 (add_pairs (map prod.swap (pairs_with (bi_assets b) (bi_add_collections b))) (ct_collection_assets db1)),
               ct_audit := ct_audit db1 @ [(ca_user a, ''content.bulk_organized'', batch)]\<rparr>))"

section \<open>Requests\<close>

definition require_whole_library :: "content_db \<Rightarrow> delegator \<Rightarrow> content_error + unit" where
  "require_whole_library db d = check (ca_library (caller_access db d)) ScopeRestricted"

definition require_all_tags :: "content_db \<Rightarrow> delegator \<Rightarrow> content_error + unit" where
  "require_all_tags db d = check (ca_tags (caller_access db d)) ScopeRestricted"

definition require_delete_too :: "delegator \<Rightarrow> content_error + unit" where
  "require_delete_too d = check (''media.delete'' \<in> dg_capabilities d) RoleNotAllowed"

definition changes_tags :: "bulk_input \<Rightarrow> bool" where
  "changes_tags b \<longleftrightarrow> bi_add_tags b \<noteq> [] \<or> bi_remove_tags b \<noteq> []"

definition changes_placement :: "bulk_input \<Rightarrow> bool" where
  "changes_placement b \<longleftrightarrow> bi_set_folder b \<or> bi_add_collections b \<noteq> [] \<or> bi_remove_collections b \<noteq> []"

definition organize_allowed :: "delegator \<Rightarrow> bulk_input \<Rightarrow> asset_ref list \<Rightarrow> content_error + unit" where
  "organize_allowed d b refs =
     andthen (first_error (\<lambda>r. check (asset_capability (ar_type r) AssetRead \<in> dg_capabilities d) ContentNotFound) refs) (\<lambda>_.
     first_error (\<lambda>r.
       andthen (check (\<not> (changes_placement b \<and> asset_capability (ar_type r) AssetOrganize \<notin> dg_capabilities d)) OrganizeCapability) (\<lambda>_.
       check (\<not> (changes_tags b \<and> ar_type r = ''widget'' \<and> ''widget.edit'' \<notin> dg_capabilities d)) OrganizeCapability)) refs)"

definition bulk_organize_content :: "int \<Rightarrow> delegator \<Rightarrow> uuid \<Rightarrow> bulk_input \<Rightarrow> content_db \<Rightarrow> content_error + content_db" where
  "bulk_organize_content now d batch b db =
     andthen (check (\<not> (changes_tags b \<and> ''media.tags.assign'' \<notin> dg_capabilities d)) RoleNotAllowed) (\<lambda>_.
     bulk_organize now (organize_allowed d b) (caller_access db d) batch b db)"

text \<open>The registration of a finished upload, as far as the library sees it.\<close>

definition register_upload :: "role_db \<Rightarrow> uuid \<Rightarrow> uuid \<Rightarrow> string \<Rightarrow> uuid option \<Rightarrow> content_db \<Rightarrow> content_error + content_db" where
  "register_upload roles user i asset_type destination db =
     andthen (authorize_upload_destination roles db user destination) (\<lambda>_.
     Inr (if i \<in> ast_id ` set (ct_assets db) then db
          else db\<lparr>ct_assets := ct_assets db @ [\<lparr>ast_id = i, ast_type = asset_type, ast_folder = destination, ast_origin = ''library'',
                 ast_system = False, ast_deleted = False, ast_archived = False, ast_expires = None\<rparr>]\<rparr>))"

datatype content_op =
    NewFolder uuid "uuid option" string string
  | EditFolder uuid "uuid option" string string
  | DropFolder uuid
  | NewCollection uuid string string
  | EditCollection uuid string string
  | DropCollection uuid
  | NewTag uuid string string
  | EditTag uuid string string
  | DropTag uuid
  | Organize uuid bulk_input
  | SetContentAccess uuid content_access_input
  | NewAccountAccess uuid content_access_input
  | FinishUpload uuid string "uuid option"

text \<open>A request by an account: \<open>None\<close> is a request that never ends.\<close>

definition request_content ::
  "(string \<Rightarrow> string) \<Rightarrow> int \<Rightarrow> role_db \<Rightarrow> delegator \<Rightarrow> content_op \<Rightarrow> content_db \<Rightarrow> (content_error + content_db) option" where
  "request_content sql_lower now roles d op db =
     (case op of
        NewFolder i parent name description \<Rightarrow>
          Some (andthen (require_whole_library db d) (\<lambda>_. create_folder sql_lower i parent name description db))
      | EditFolder i parent name description \<Rightarrow>
          (case require_whole_library db d of Inl e \<Rightarrow> Some (Inl e) | Inr _ \<Rightarrow> update_folder sql_lower i parent name description db)
      | DropFolder i \<Rightarrow>
          Some (andthen (require_delete_too d) (\<lambda>_. andthen (require_whole_library db d) (\<lambda>_. delete_folder sql_lower i (dg_user d) db)))
      | NewCollection i name description \<Rightarrow>
          Some (andthen (require_whole_library db d) (\<lambda>_. create_collection sql_lower i name description db))
      | EditCollection i name description \<Rightarrow>
          Some (andthen (require_whole_library db d) (\<lambda>_. update_collection sql_lower i name description db))
      | DropCollection i \<Rightarrow>
          Some (andthen (require_delete_too d) (\<lambda>_. andthen (require_whole_library db d) (\<lambda>_. delete_collection i db)))
      | NewTag i name color \<Rightarrow> Some (andthen (require_all_tags db d) (\<lambda>_. create_tag sql_lower i name color db))
      | EditTag i name color \<Rightarrow> Some (andthen (require_all_tags db d) (\<lambda>_. update_tag sql_lower i name color db))
      | DropTag i \<Rightarrow> Some (andthen (require_delete_too d) (\<lambda>_. andthen (require_all_tags db d) (\<lambda>_. delete_tag i db)))
      | Organize batch b \<Rightarrow> Some (bulk_organize_content now d batch b db)
      | SetContentAccess user input \<Rightarrow> Some (put_user_content_access roles d user input db)
      | NewAccountAccess user input \<Rightarrow> Some (replace_content_access (dg_user d) (caller_access db d) user input db)
      | FinishUpload i asset_type destination \<Rightarrow> Some (register_upload roles (dg_user d) i asset_type destination db))"

definition content_step ::
  "(string \<Rightarrow> string) \<Rightarrow> int \<Rightarrow> role_db \<Rightarrow> delegator \<Rightarrow> content_op \<Rightarrow> content_db \<Rightarrow> content_db option" where
  "content_step sql_lower now roles d op db =
     map_option (\<lambda>r. case r of Inl _ \<Rightarrow> db | Inr db' \<Rightarrow> db') (request_content sql_lower now roles d op db)"

section \<open>The folders form a forest\<close>

definition folders_ok :: "folder_row list \<Rightarrow> bool" where
  "folders_ok fs \<longleftrightarrow> distinct (map fo_id fs) \<and> (\<forall>f\<in>set fs. \<forall>p. fo_parent f = Some p \<longrightarrow> p \<in> fo_id ` set fs) \<and> acyclic (below fs)"

lemma below_finite: "finite (below fs)"
proof (rule finite_subset)
  show "below fs \<subseteq> (\<lambda>f. (the (fo_parent f), fo_id f)) ` set fs" by (force simp: below_def)
qed simp

lemma find_row: "distinct (map fo_id fs) \<Longrightarrow> f \<in> set fs \<Longrightarrow> find (\<lambda>g. fo_id g = fo_id f) fs = Some f"
  by (induction fs) (auto simp: image_iff)

text \<open>In a forest the recursive query of the cycle check ends, with the folder and all its ancestors.\<close>

lemma ancestors_forest:
  assumes "folders_ok fs" "i \<in> fo_id ` set fs"
  shows "\<exists>is. ancestors fs i = Some is \<and> set is = {a. (a, i) \<in> (below fs)\<^sup>*}"
proof -
  have "wf (below fs)" using assms(1) by (simp add: finite_acyclic_wf[OF below_finite] folders_ok_def)
  then show ?thesis using assms(2)
  proof (induction i rule: wf_induct_rule)
    case (less i)
    then obtain f where f: "f \<in> set fs" "fo_id f = i" by auto
    have row: "find (\<lambda>g. fo_id g = i) fs = Some f"
      using find_row[OF _ f(1)] assms(1) f(2) by (simp add: folders_ok_def)
    have only: "g = f" if "g \<in> set fs" "fo_id g = i" for g
      using that f assms(1) by (auto simp: folders_ok_def distinct_map inj_on_def)
    show ?case
    proof (cases "fo_parent f")
      case None
      then have "(a, i) \<in> (below fs)\<^sup>* \<longleftrightarrow> a = i" for a
        using only by (auto simp: below_def elim: rtranclE)
      with None row show ?thesis by (simp add: ancestors.simps)
    next
      case (Some p)
      then have edge: "(p, i) \<in> below fs" and p: "p \<in> fo_id ` set fs"
        using f assms(1) by (auto simp: below_def folders_ok_def)
      from less.IH[OF edge p] obtain ps where ps: "ancestors fs p = Some ps" "set ps = {a. (a, p) \<in> (below fs)\<^sup>*}" by blast
      have "(a, i) \<in> (below fs)\<^sup>* \<longleftrightarrow> a = i \<or> (a, p) \<in> (below fs)\<^sup>*" for a
      proof
        assume "(a, i) \<in> (below fs)\<^sup>*"
        then show "a = i \<or> (a, p) \<in> (below fs)\<^sup>*"
        proof (cases rule: rtranclE)
          case (step q)
          with only Some have "q = p" by (auto simp: below_def)
          with step show ?thesis by simp
        qed simp
      qed (use edge in \<open>auto intro: rtrancl_into_rtrancl\<close>)
      with ps row Some show ?thesis by (auto simp: ancestors.simps[of fs i])
    qed
  qed
qed

lemma ancestors_unknown: "i \<notin> fo_id ` set fs \<Longrightarrow> ancestors fs i = Some []"
proof -
  assume "i \<notin> fo_id ` set fs"
  then have "find (\<lambda>f. fo_id f = i) fs = None" by (auto simp: find_None_iff)
  then show ?thesis by (simp add: ancestors.simps[of fs i])
qed

lemma check_move_returns:
  assumes "folders_ok (ct_folders db)"
  obtains r where "check_move i parent db = Some r"
    "r = Inr () \<Longrightarrow> p \<in> fo_id ` set (ct_folders db) \<Longrightarrow> parent = Some p \<Longrightarrow> (i, p) \<notin> (below (ct_folders db))\<^sup>*"
proof (cases parent)
  case None
  then show ?thesis using that by (simp add: check_move_def)
next
  case (Some q)
  show ?thesis
  proof (cases "q \<in> fo_id ` set (ct_folders db)")
    case True
    from ancestors_forest[OF assms True] obtain "is" where
      "ancestors (ct_folders db) q = Some is" "set is = {a. (a, q) \<in> (below (ct_folders db))\<^sup>*}" by blast
    with Some show ?thesis by (cases "q = i") (auto intro!: that simp: check_move_def)
  next
    case False
    with Some ancestors_unknown[OF False] show ?thesis by (cases "q = i") (auto intro!: that simp: check_move_def)
  qed
qed

lemma below_append: "below (fs @ gs) = below fs \<union> below gs"
  by (auto simp: below_def)

lemma folders_ok_new:
  assumes "folders_ok fs" "fo_id f \<notin> fo_id ` set fs" "\<And>p. fo_parent f = Some p \<Longrightarrow> p \<noteq> fo_id f \<and> p \<in> fo_id ` set fs"
  shows "folders_ok (fs @ [f])"
proof -
  have "acyclic (below (fs @ [f]))"
  proof (cases "fo_parent f")
    case None
    then have "below (fs @ [f]) = below fs" by (auto simp: below_def)
    with assms(1) show ?thesis by (simp add: folders_ok_def)
  next
    case (Some p)
    then have new: "below (fs @ [f]) = insert (p, fo_id f) (below fs)" by (auto simp: below_def)
    have "(fo_id f, p) \<notin> (below fs)\<^sup>*"
    proof
      assume "(fo_id f, p) \<in> (below fs)\<^sup>*"
      then show False
      proof (cases rule: converse_rtranclE)
        case base
        with assms(3)[OF Some] show ?thesis by simp
      next
        case (step q)
        then have "fo_id f \<in> fo_id ` set fs" using assms(1) by (auto simp: below_def folders_ok_def)
        with assms(2) show ?thesis by simp
      qed
    qed
    with new assms(1) show ?thesis by (simp add: folders_ok_def)
  qed
  with assms show ?thesis by (auto simp: folders_ok_def)
qed

lemma folders_ok_moved:
  assumes "folders_ok fs" "\<And>f. fo_id (h f) = fo_id f" "\<And>f. fo_id f \<noteq> i \<Longrightarrow> fo_parent (h f) = fo_parent f"
    "\<And>f. fo_id f = i \<Longrightarrow> fo_parent (h f) = parent"
    "\<And>p. parent = Some p \<Longrightarrow> p \<in> fo_id ` set fs \<and> (i, p) \<notin> (below fs)\<^sup>*"
  shows "folders_ok (map h fs)"
proof -
  have ids: "fo_id ` set (map h fs) = fo_id ` set fs" using assms(2) by (auto simp: image_image)
  have "below (map h fs) \<subseteq> below fs \<union> {(p, i) | p. parent = Some p}"
    using assms(2-4) by (auto simp: below_def) metis+
  moreover have "acyclic (below fs \<union> {(p, i) | p. parent = Some p})"
  proof (cases parent)
    case (Some p)
    then have "below fs \<union> {(p, i) | p. parent = Some p} = insert (p, i) (below fs)" by auto
    with assms(1) assms(5)[OF Some] show ?thesis by (simp add: folders_ok_def)
  qed (use assms(1) in \<open>simp add: folders_ok_def\<close>)
  ultimately have "acyclic (below (map h fs))" by (rule acyclic_subset[rotated])
  moreover have "distinct (map fo_id (map h fs))" using assms(1,2) by (simp add: o_def folders_ok_def)
  moreover have "p \<in> fo_id ` set fs" if "f \<in> set fs" "fo_parent (h f) = Some p" for f p
    using that assms(1,3,4,5) by (cases "fo_id f = i") (auto simp: folders_ok_def)
  ultimately show ?thesis unfolding folders_ok_def ids by auto
qed

lemma folders_ok_deleted:
  assumes "folders_ok fs"
  shows "folders_ok (filter (\<lambda>f. fo_id f \<noteq> i) (map (\<lambda>f. if fo_parent f = Some i then f\<lparr>fo_parent := None\<rparr> else f) fs))"
    (is "folders_ok ?gs")
proof -
  have "below ?gs \<subseteq> below fs" by (auto simp: below_def split: if_splits)
  then have "acyclic (below ?gs)" using assms acyclic_subset by (auto simp: folders_ok_def)
  moreover have "distinct (map fo_id ?gs)"
  proof -
    have same: "map fo_id (map (\<lambda>f. if fo_parent f = Some i then f\<lparr>fo_parent := None\<rparr> else f) fs) = map fo_id fs" by simp
    have "distinct (map fo_id fs)" using assms by (simp add: folders_ok_def)
    then show ?thesis by (intro distinct_map_filter) (simp only: same)
  qed
  moreover have "p \<in> fo_id ` set ?gs" if "g \<in> set ?gs" "fo_parent g = Some p" for g p
  proof -
    from that obtain f where "f \<in> set fs" "fo_parent f = Some p" "p \<noteq> i" by (auto split: if_splits)
    moreover from this(1,2) assms obtain h where "h \<in> set fs" "fo_id h = p" unfolding folders_ok_def by blast
    ultimately have "fo_id (if fo_parent h = Some i then h\<lparr>fo_parent := None\<rparr> else h) = p \<and> (if fo_parent h = Some i then h\<lparr>fo_parent := None\<rparr> else h) \<in> set ?gs"
      by simp
    then show ?thesis by blast
  qed
  ultimately show ?thesis unfolding folders_ok_def by blast
qed

lemma folder_row_ok_parent:
  "folder_row_ok sql_lower others f \<Longrightarrow> fo_parent f = Some p \<Longrightarrow> p \<noteq> fo_id f \<and> p \<in> fo_id ` set others"
  by (simp add: folder_row_ok_def)

lemma write_folder_ok:
  assumes "folders_ok (ct_folders db)" "write_folder sql_lower i parent name description db = Inr db'"
    "\<And>p. parent = Some p \<Longrightarrow> p \<in> fo_id ` set (ct_folders db) \<Longrightarrow> (i, p) \<notin> (below (ct_folders db))\<^sup>*"
  shows "folders_ok (ct_folders db')"
proof -
  have rows: "ct_folders db' = map (\<lambda>f. if fo_id f = i
      then f\<lparr>fo_parent := parent, fo_name := name, fo_description := trim_space description\<rparr> else f) (ct_folders db)"
    and parent: "\<And>p. parent = Some p \<Longrightarrow> p \<in> fo_id ` set (ct_folders db)"
    using assms(2) by (auto simp: write_folder_def folder_row_ok_def)
  show ?thesis
    unfolding rows by (rule folders_ok_moved[OF assms(1), where i = i and parent = parent]) (use parent assms(3) in auto)
qed

lemma update_folder_ok:
  assumes "folders_ok (ct_folders db)"
  obtains r where "update_folder sql_lower i parent name description db = Some r"
    "\<And>db'. r = Inr db' \<Longrightarrow> folders_ok (ct_folders db')"
proof (cases "clean_organization_name name 120")
  case (Inl e)
  then show ?thesis using that by (simp add: update_folder_def)
next
  case (Inr name')
  obtain r where r: "check_move i parent db = Some r"
    "\<And>p. r = Inr () \<Longrightarrow> p \<in> fo_id ` set (ct_folders db) \<Longrightarrow> parent = Some p \<Longrightarrow> (i, p) \<notin> (below (ct_folders db))\<^sup>*"
    using check_move_returns[OF assms, of i parent] by metis
  show ?thesis
  proof (rule that)
    show "update_folder sql_lower i parent name description db
        = Some (andthen r (\<lambda>_. write_folder sql_lower i parent name' description db))"
      using Inr r(1) by (simp add: update_folder_def)
    fix db'
    assume "andthen r (\<lambda>_. write_folder sql_lower i parent name' description db) = Inr db'"
    then have ok: "r = Inr ()" "write_folder sql_lower i parent name' description db = Inr db'" by auto
    show "folders_ok (ct_folders db')" by (rule write_folder_ok[OF assms ok(2)]) (use r(2)[OF ok(1)] in simp)
  qed
qed

lemma create_folder_ok:
  assumes "folders_ok (ct_folders db)" "create_folder sql_lower i parent name description db = Inr db'"
  shows "folders_ok (ct_folders db')"
proof -
  from assms(2) obtain f where rows: "ct_folders db' = ct_folders db @ [f]"
    and new: "\<not> folder_exists db (fo_id f)" and ok: "folder_row_ok sql_lower (ct_folders db) f"
    by (auto simp: create_folder_def Let_def)
  show ?thesis
    unfolding rows using new folder_row_ok_parent[OF ok]
    by (intro folders_ok_new[OF assms(1)]) (auto simp: folder_exists_def list_ex_iff)
qed

lemma delete_folder_ok:
  "folders_ok (ct_folders db) \<Longrightarrow> delete_folder sql_lower i user db = Inr db' \<Longrightarrow> folders_ok (ct_folders db')"
  using folders_ok_deleted[of "ct_folders db" i] by (auto simp: delete_folder_def)

text \<open>The other requests leave the folders alone.\<close>

lemma bulk_organize_folders: "bulk_organize now allow a batch b db = Inr db' \<Longrightarrow> ct_folders db' = ct_folders db"
  by (auto simp: bulk_organize_def Let_def move_assets_def)

lemma replace_access_folders: "replace_content_access actor a user input db = Inr db' \<Longrightarrow> ct_folders db' = ct_folders db"
  by (auto simp: replace_content_access_def)

lemma put_access_folders: "put_user_content_access roles d user input db = Inr db' \<Longrightarrow> ct_folders db' = ct_folders db"
  by (auto simp: put_user_content_access_def replace_access_folders split: option.splits)

lemma organization_folders:
  "create_collection sql_lower i name description db = Inr db' \<Longrightarrow> ct_folders db' = ct_folders db"
  "update_collection sql_lower i name description db = Inr db' \<Longrightarrow> ct_folders db' = ct_folders db"
  "delete_collection i db = Inr db' \<Longrightarrow> ct_folders db' = ct_folders db"
  "create_tag sql_lower i name color db = Inr db' \<Longrightarrow> ct_folders db' = ct_folders db"
  "update_tag sql_lower i name color db = Inr db' \<Longrightarrow> ct_folders db' = ct_folders db"
  "delete_tag i db = Inr db' \<Longrightarrow> ct_folders db' = ct_folders db"
  "register_upload roles user i asset_type destination db = Inr db' \<Longrightarrow> ct_folders db' = ct_folders db"
  by (auto simp: create_collection_def update_collection_def delete_collection_def create_tag_def update_tag_def
      delete_tag_def register_upload_def Let_def)

lemma request_content_ok:
  assumes "folders_ok (ct_folders db)"
  obtains r where "request_content sql_lower now roles d op db = Some r" "\<And>db'. r = Inr db' \<Longrightarrow> folders_ok (ct_folders db')"
proof (cases "\<exists>i parent name description. op = EditFolder i parent name description")
  case True
  then obtain i parent name description where op: "op = EditFolder i parent name description" by blast
  show ?thesis
  proof (cases "require_whole_library db d")
    case (Inl e)
    with op that show ?thesis by (simp add: request_content_def)
  next
    case (Inr u)
    with op update_folder_ok[OF assms, of sql_lower i parent name description] that show ?thesis
      by (auto simp: request_content_def)
  qed
next
  case False
  then obtain r where r: "request_content sql_lower now roles d op db = Some r"
    by (cases op) (simp_all add: request_content_def)
  have "folders_ok (ct_folders db')" if "r = Inr db'" for db'
  proof -
    have "folders_ok (ct_folders db') \<or> ct_folders db' = ct_folders db"
      using that r False
      by (cases op) (auto simp: request_content_def bulk_organize_content_def
          dest: create_folder_ok[OF assms] delete_folder_ok[OF assms] bulk_organize_folders put_access_folders
            replace_access_folders organization_folders)
    with assms show ?thesis by auto
  qed
  with r show ?thesis by (rule that)
qed

fun run_content ::
  "(string \<Rightarrow> string) \<Rightarrow> role_db \<Rightarrow> (delegator \<times> int \<times> content_op) list \<Rightarrow> content_db \<Rightarrow> content_db option" where
  "run_content sql_lower roles [] db = Some db"
| "run_content sql_lower roles ((d, now, op) # reqs) db =
     (case content_step sql_lower now roles d op db of None \<Rightarrow> None | Some db' \<Rightarrow> run_content sql_lower roles reqs db')"

text \<open>C32. Whatever the library is asked for, one request after the other, every request returns: the folders stay
  a forest, on which the recursive query of the cycle check ends.\<close>

theorem library_requests_return:
  "folders_ok (ct_folders db) \<Longrightarrow> \<exists>db'. run_content sql_lower roles reqs db = Some db' \<and> folders_ok (ct_folders db')"
proof (induction reqs arbitrary: db)
  case (Cons req reqs)
  obtain d now op where req: "req = (d, now, op)" by (cases req)
  obtain r where r: "request_content sql_lower now roles d op db = Some r" "\<And>db'. r = Inr db' \<Longrightarrow> folders_ok (ct_folders db')"
    using request_content_ok[OF Cons.prems, of sql_lower now roles d op] by metis
  have "folders_ok (ct_folders (case r of Inl _ \<Rightarrow> db | Inr db' \<Rightarrow> db'))"
    using r(2) Cons.prems by (cases r) simp_all
  from Cons.IH[OF this] r(1) req show ?case by (simp add: content_step_def)
qed simp

text \<open>
  With a request of another account between the check and the update, this fails: each of two moves passes its
  check, together they make a cycle, and from then on a check above the cycle does not end.
\<close>

lemma sample_texts: "list_all text_ok [''Lobby'', ''Office'', []]"
  by code_simp

lemma sample_counts: "char_count ''Lobby'' = 5" "char_count ''Office'' = 6" "char_count [] = 0"
  by code_simp+

lemma sample_names: "map lower_ascii ''Lobby'' \<noteq> map lower_ascii ''Office''" "map lower_ascii ''Office'' \<noteq> map lower_ascii ''Lobby''"
  "trim_space [] = []"
  by code_simp+

lemma concurrent_moves_make_a_cycle:
  fixes a b :: uuid
  assumes "a \<noteq> b"
  defines "row \<equiv> \<lambda>i parent name. \<lparr>fo_id = i, fo_parent = parent, fo_name = name, fo_description = ''''\<rparr>"
  assumes "ct_folders db = [row a None ''Lobby'', row b None ''Office'']"
  shows "check_move a (Some b) db = Some (Inr ()) \<and> check_move b (Some a) db = Some (Inr ())
    \<and> (\<exists>db1 db2. write_folder (map lower_ascii) a (Some b) ''Lobby'' [] db = Inr db1
        \<and> write_folder (map lower_ascii) b (Some a) ''Office'' [] db1 = Inr db2
        \<and> check_move c (Some a) db2 = (if c = a then Some (Inl FolderInItself) else None))"
proof -
  note texts = sample_texts[simplified] sample_counts sample_names
  define db1 where "db1 = db\<lparr>ct_folders := [row a (Some b) ''Lobby'', row b None ''Office'']\<rparr>"
  define db2 where "db2 = db\<lparr>ct_folders := [row a (Some b) ''Lobby'', row b (Some a) ''Office'']\<rparr>"
  have one: "write_folder (map lower_ascii) a (Some b) ''Lobby'' [] db = Inr db1"
    using assms texts
    by (simp add: write_folder_def folder_exists_def folder_row_ok_def coalesce_parent_def db1_def)
  have two: "write_folder (map lower_ascii) b (Some a) ''Office'' [] db1 = Inr db2"
    using assms texts
    by (simp add: write_folder_def folder_exists_def folder_row_ok_def coalesce_parent_def db1_def db2_def)
  have rows: "ct_folders db2 = [row a (Some b) ''Lobby'', row b (Some a) ''Office'']" by (simp add: db2_def)
  have "fs = ct_folders db2 \<longrightarrow> i \<noteq> a \<and> i \<noteq> b" if "ancestors fs i = Some is" for fs i "is"
  proof (rule ancestors.raw_induct[where P = "\<lambda>fs i is. fs = ct_folders db2 \<longrightarrow> i \<noteq> a \<and> i \<noteq> b", OF _ that])
    fix anc :: "folder_row list \<Rightarrow> uuid \<Rightarrow> uuid list option" and fs i "is"
    assume IH: "\<And>fs i is. anc fs i = Some is \<Longrightarrow> fs = ct_folders db2 \<longrightarrow> i \<noteq> a \<and> i \<noteq> b"
    assume eq: "(case find (\<lambda>f. fo_id f = i) fs of None \<Rightarrow> Some []
       | Some f \<Rightarrow> (case fo_parent f of None \<Rightarrow> Some [i] | Some p \<Rightarrow> Option.bind (anc fs p) (\<lambda>is. Some (i # is)))) = Some is"
    show "fs = ct_folders db2 \<longrightarrow> i \<noteq> a \<and> i \<noteq> b"
    proof
      assume fs: "fs = ct_folders db2"
      show "i \<noteq> a \<and> i \<noteq> b"
      proof (rule ccontr)
        assume "\<not> (i \<noteq> a \<and> i \<noteq> b)"
        then consider "i = a" | "i = b" by blast
        then show False
        proof cases
          case 1
          with eq fs rows assms(1) obtain js where "anc fs b = Some js"
            by (auto simp: row_def split: Option.bind_splits)
          with IH fs show False by blast
        next
          case 2
          with eq fs rows assms(1) obtain js where "anc fs a = Some js"
            by (auto simp: row_def split: Option.bind_splits)
          with IH fs show False by blast
        qed
      qed
    qed
  qed
  then have "ancestors (ct_folders db2) a = None" by (cases "ancestors (ct_folders db2) a") auto
  then have "check_move c (Some a) db2 = (if c = a then Some (Inl FolderInItself) else None)"
    by (auto simp: check_move_def)
  moreover have "check_move a (Some b) db = Some (Inr ())" "check_move b (Some a) db = Some (Inr ())"
    using assms by (simp_all add: check_move_def ancestors.simps)
  ultimately show ?thesis using one two by blast
qed

text \<open>A top-level folder with a subfolder of its own name cannot be deleted.\<close>

lemma delete_folder_same_name:
  assumes "a \<noteq> b" "sql_lower n = sql_lower m"
    "ct_folders db = [\<lparr>fo_id = a, fo_parent = None, fo_name = n, fo_description = []\<rparr>,
      \<lparr>fo_id = b, fo_parent = Some a, fo_name = m, fo_description = []\<rparr>]"
  shows "delete_folder sql_lower a user db = Inl ContentConstraint"
  using assms by (simp add: delete_folder_def coalesce_parent_def check_def andthen_def)

text \<open>Nor can a tag that only a deleted playlist or a draft still names, though nothing is reported to use it.\<close>

lemma delete_tag_of_deleted_playlist:
  assumes "i \<in> tg_id ` set (ct_tags db)" "ct_playlist_tags db = [(p, name, True, i)]"
  shows "tag_used_by i db = [] \<and> delete_tag i db = Inl ContentConstraint"
  using assms by (simp add: tag_used_by_def delete_tag_def check_def andthen_def sort_by_def)

section \<open>Restricted accounts\<close>

text \<open>What a set of accounts reaches together.\<close>

definition team_folders :: "content_db \<Rightarrow> uuid set \<Rightarrow> uuid set" where
  "team_folders db team = (\<Union>u\<in>team. set (accessible_folders db u))"

definition team_assets :: "content_db \<Rightarrow> uuid set \<Rightarrow> uuid set" where
  "team_assets db team = {ast_id x | x. x \<in> set (ct_assets db) \<and> (\<exists>f\<in>team_folders db team. ast_folder x = Some f)}"

text \<open>None of the accounts has the whole library, and the ids of the assets are a key.\<close>

definition team_restricted :: "content_db \<Rightarrow> uuid set \<Rightarrow> bool" where
  "team_restricted db team \<longleftrightarrow> (\<forall>u\<in>team. \<not> ca_library (stored_access db u)) \<and> distinct (map ast_id (ct_assets db))"

definition asset_ids :: "content_db \<Rightarrow> uuid set" where
  "asset_ids db = ast_id ` set (ct_assets db)"

lemma team_folders_closed:
  "f \<in> team_folders db team \<Longrightarrow> (f, g) \<in> (below (ct_folders db))\<^sup>* \<Longrightarrow> g \<in> team_folders db team"
  by (auto simp: team_folders_def accessible_folders_closure intro: rtrancl_trans)

text \<open>A change that keeps the folders and grants the accounts nothing new does not widen what they reach.\<close>

lemma team_folders_mono:
  assumes "ct_folders db' = ct_folders db"
    "\<And>u f. u \<in> team \<Longrightarrow> (u, f) \<in> set (ct_folder_grants db') \<Longrightarrow> f \<in> team_folders db team"
  shows "team_folders db' team \<subseteq> team_folders db team"
proof
  fix g
  assume "g \<in> team_folders db' team"
  then obtain u f where "u \<in> team" "(u, f) \<in> set (ct_folder_grants db')" "(f, g) \<in> (below (ct_folders db))\<^sup>*"
    by (auto simp: team_folders_def accessible_folders_closure assms(1))
  with assms(2) show "g \<in> team_folders db team" by (blast intro: team_folders_closed)
qed

lemma granted_in_team: "u \<in> team \<Longrightarrow> (u, f) \<in> set (ct_folder_grants db) \<Longrightarrow> f \<in> team_folders db team"
  by (auto simp: team_folders_def accessible_folders_closure)

text \<open>One step inside the confines.\<close>

definition confined_step :: "uuid set \<Rightarrow> uuid set \<Rightarrow> content_db \<Rightarrow> content_db \<Rightarrow> bool" where
  "confined_step team new db db' \<longleftrightarrow>
     team_restricted db' team \<and> team_folders db' team \<subseteq> team_folders db team
     \<and> team_assets db' team \<subseteq> team_assets db team \<union> (new - asset_ids db) \<and> asset_ids db \<subseteq> asset_ids db'"

lemma confined_refl: "team_restricted db team \<Longrightarrow> confined_step team {} db db"
  by (simp add: confined_step_def)

lemma confined_trans:
  "confined_step team new db db' \<Longrightarrow> confined_step team later db' db'' \<Longrightarrow> confined_step team (new \<union> later) db db''"
  by (auto simp: confined_step_def)

lemma stored_access_cong: "ct_policies db' = ct_policies db \<Longrightarrow> stored_access db' = stored_access db"
  by (simp add: stored_access_def fun_eq_iff)

lemma confined_same:
  assumes "team_restricted db team" "ct_folders db' = ct_folders db" "ct_folder_grants db' = ct_folder_grants db"
    "ct_policies db' = ct_policies db" "ct_assets db' = ct_assets db"
  shows "confined_step team {} db db'"
proof -
  have "team_folders db' team = team_folders db team"
    using assms by (simp add: team_folders_def accessible_folders_def granted_folders_def)
  with assms stored_access_cong[OF assms(4)] show ?thesis
    by (simp add: confined_step_def team_restricted_def team_assets_def asset_ids_def)
qed

lemma caller_restricted:
  "team_restricted db team \<Longrightarrow> dg_user d \<in> team \<Longrightarrow> dg_role d \<noteq> ''owner'' \<Longrightarrow>
   \<not> ca_library (caller_access db d) \<and> ca_user (caller_access db d) = dg_user d"
  by (auto simp: team_restricted_def caller_access_def access_for_def stored_access_def split: option.splits)

lemma confined_policy:
  assumes "team_restricted db team" "actor \<in> team" "\<not> ca_library a" "ca_user a = actor"
    "replace_content_access actor a user input db = Inr db'"
  shows "confined_step team {} db db'"
proof -
  from assms(5) obtain folders tags where ok: "delegable_content db a input = Inr (folders, tags)"
    and db': "ct_policies db' = set_policy user (ci_library input) (ci_tags input) (ct_policies db)"
      "ct_folder_grants db' = filter (\<lambda>(u, f). u \<noteq> user) (ct_folder_grants db) @ map (Pair user) folders"
      "ct_folders db' = ct_folders db" "ct_assets db' = ct_assets db"
    by (auto simp: replace_content_access_def)
  from ok assms(3) have library: "ci_library input \<noteq> ''all''"
    by (auto simp: delegable_content_def Let_def)
  have writable: "folder_writable db a (Some f) = Inr ()" if "f \<in> set folders" for f
    using ok that library
    by (cases "folder_writable db a (Some f)") (auto simp: delegable_content_def Let_def split: sum.splits)
  then have folders: "f \<in> team_folders db team" if "f \<in> set folders" for f
    using that assms(2-4) by (force simp: folder_writable_def team_folders_def)
  have "\<not> ca_library (stored_access db' u)" if "u \<in> team" for u
    using that assms(1) library by (simp add: stored_access_set_policy[OF db'(1)] team_restricted_def)
  then have "team_restricted db' team" using assms(1) db'(4) by (simp add: team_restricted_def)
  moreover have "team_folders db' team \<subseteq> team_folders db team"
    by (rule team_folders_mono[OF db'(3)]) (auto simp: db'(2) granted_in_team folders)
  ultimately show ?thesis using db'(4) by (auto simp: confined_step_def team_assets_def asset_ids_def)
qed

lemma moved_assets_confined:
  assumes "team_restricted db team" "f \<in> team_folders db team"
    "\<And>i. i \<in> set ids \<Longrightarrow> i \<in> team_assets db team"
  shows "confined_step team {} db (move_assets ids (Some f) db)"
proof -
  let ?db = "move_assets ids (Some f) db"
  have "team_folders ?db team = team_folders db team"
    by (simp add: team_folders_def accessible_folders_def granted_folders_def move_assets_def)
  moreover have "team_restricted ?db team"
    using assms(1) by (simp add: team_restricted_def stored_access_def move_assets_def o_def if_distrib[of ast_id] cong: if_cong)
  moreover have "team_assets ?db team \<subseteq> team_assets db team"
  proof
    fix i
    assume "i \<in> team_assets ?db team"
    then obtain x g where x: "x \<in> set (ct_assets db)" "i = ast_id x" "i \<in> set ids \<or> ast_folder x = Some g" "g \<in> team_folders db team"
      using calculation(1) by (auto simp: team_assets_def move_assets_def split: if_splits)
    then show "i \<in> team_assets db team" using assms(3) by (auto simp: team_assets_def)
  qed
  moreover have "asset_ids ?db = asset_ids db"
  proof -
    have "map ast_id (ct_assets ?db) = map ast_id (ct_assets db)" by (simp add: move_assets_def)
    then have "set (map ast_id (ct_assets ?db)) = set (map ast_id (ct_assets db))" by (rule arg_cong)
    then show ?thesis by (simp only: asset_ids_def set_map)
  qed
  ultimately show ?thesis by (simp add: confined_step_def)
qed

lemma organize_confined:
  assumes "team_restricted db team" "ca_user a \<in> team" "\<not> ca_library a"
    "bulk_organize now allow a batch b db = Inr db'"
  shows "confined_step team {} db db'"
proof -
  define db1 where "db1 = (if bi_set_folder b then move_assets (bi_assets b) (bi_folder b) db else db)"
  have ok: "bulk_authorized now allow a b db = Inr ()"
    and db': "ct_folders db' = ct_folders db1" "ct_folder_grants db' = ct_folder_grants db1" "ct_policies db' = ct_policies db1"
      "ct_assets db' = ct_assets db1"
    using assms(4) by (auto simp: bulk_organize_def Let_def db1_def)
  have "confined_step team {} db db1"
  proof (cases "bi_set_folder b")
    case True
    obtain refs where refs: "authorize_assets now db a (bi_assets b) False = Inr refs"
      using ok by (auto simp: bulk_authorized_def Let_def)
    have writable: "folder_writable db a (bi_folder b) = Inr ()" using ok True by (auto simp: bulk_authorized_def Let_def)
    then obtain f where f: "bi_folder b = Some f" "f \<in> set (accessible_folders db (ca_user a))"
      using assms(3) by (auto simp: folder_writable_def split: option.splits)
    have "i \<in> team_assets db team" if i: "i \<in> set (bi_assets b)" for i
    proof -
      have "distinct (map ast_id (ct_assets db))" using assms(1) by (simp add: team_restricted_def)
      from authorize_assets_Inr[OF this, of now a "bi_assets b" False] refs i
      obtain x where "x \<in> set (ct_assets db)" "ast_id x = i" "asset_in_scope db a x"
        unfolding asset_visible_def by blast
      with assms(2,3) show ?thesis
        by (auto simp: team_assets_def asset_in_scope_def folder_in_scope_def team_folders_def split: option.splits)
    qed
    moreover have "f \<in> team_folders db team" using f assms(2) by (auto simp: team_folders_def)
    ultimately show ?thesis using True f(1) moved_assets_confined[OF assms(1)] by (simp add: db1_def)
  next
    case False
    then show ?thesis by (simp add: db1_def confined_refl assms(1))
  qed
  moreover from this have "confined_step team {} db1 db'" by (intro confined_same db') (simp add: confined_step_def)
  ultimately show ?thesis using confined_trans by fastforce
qed

lemma upload_confined:
  assumes "team_restricted db team" "user \<in> team" "\<And>u. u \<in> set (rd_users roles) \<Longrightarrow> u_id u \<in> team \<Longrightarrow> u_role u \<noteq> ''owner''"
    "register_upload roles user i asset_type destination db = Inr db'"
  shows "confined_step team {i} db db'"
proof -
  have ok: "authorize_upload_destination roles db user destination = Inr ()"
    and db': "db' = (if i \<in> ast_id ` set (ct_assets db) then db
          else db\<lparr>ct_assets := ct_assets db @ [\<lparr>ast_id = i, ast_type = asset_type, ast_folder = destination, ast_origin = ''library'',
                 ast_system = False, ast_deleted = False, ast_archived = False, ast_expires = None\<rparr>]\<rparr>)"
    using assms(4) by (auto simp: register_upload_def)
  have same: "team_folders db' team = team_folders db team"
    by (simp add: db' team_folders_def accessible_folders_def granted_folders_def)
  moreover have "team_restricted db' team" using assms(1) by (simp add: db' team_restricted_def stored_access_def)
  moreover have "team_assets db' team \<subseteq> team_assets db team \<union> ({i} - asset_ids db)"
    using same by (auto simp: db' team_assets_def asset_ids_def)
  moreover have "asset_ids db \<subseteq> asset_ids db'" by (auto simp: db' asset_ids_def)
  ultimately show ?thesis by (simp add: confined_step_def)
qed

definition uploads_of :: "content_op \<Rightarrow> uuid set" where
  "uploads_of op = (case op of FinishUpload i asset_type destination \<Rightarrow> {i} | _ \<Rightarrow> {})"

lemma tag_ops_confined:
  assumes "team_restricted db team"
  shows "create_tag sql_lower i name color db = Inr db' \<Longrightarrow> confined_step team {} db db'"
    "update_tag sql_lower i name color db = Inr db' \<Longrightarrow> confined_step team {} db db'"
    "delete_tag i db = Inr db' \<Longrightarrow> confined_step team {} db db'"
  by (rule confined_same[OF assms]; auto simp: create_tag_def update_tag_def delete_tag_def Let_def)+

lemma request_confined:
  assumes "team_restricted db team" "dg_user d \<in> team" "dg_role d \<noteq> ''owner''"
    "\<And>u. u \<in> set (rd_users roles) \<Longrightarrow> u_id u \<in> team \<Longrightarrow> u_role u \<noteq> ''owner''"
    "request_content sql_lower now roles d op db = Some (Inr db')"
  shows "confined_step team (uploads_of op) db db'"
proof -
  note c = caller_restricted[OF assms(1-3)]
  have refused: "require_whole_library db d = Inl ScopeRestricted" using c by (simp add: require_whole_library_def)
  show ?thesis
  proof (cases op)
    case (Organize batch b)
    with assms(5) have "bulk_organize now (organize_allowed d b) (caller_access db d) batch b db = Inr db'"
      by (auto simp: request_content_def bulk_organize_content_def)
    from organize_confined[OF assms(1) _ _ this] c assms(2) have "confined_step team {} db db'" by simp
    with Organize show ?thesis by (simp add: uploads_of_def)
  next
    case (SetContentAccess user input)
    with assms(5) have "replace_content_access (dg_user d) (caller_access db d) user input db = Inr db'"
      by (auto simp: request_content_def put_user_content_access_def split: option.splits)
    from confined_policy[OF assms(1,2) _ _ this] c have "confined_step team {} db db'" by simp
    with SetContentAccess show ?thesis by (simp add: uploads_of_def)
  next
    case (NewAccountAccess user input)
    with assms(5) have "replace_content_access (dg_user d) (caller_access db d) user input db = Inr db'"
      by (auto simp: request_content_def)
    from confined_policy[OF assms(1,2) _ _ this] c have "confined_step team {} db db'" by simp
    with NewAccountAccess show ?thesis by (simp add: uploads_of_def)
  next
    case (FinishUpload i asset_type destination)
    with assms(5) have "register_upload roles (dg_user d) i asset_type destination db = Inr db'"
      by (auto simp: request_content_def)
    from upload_confined[OF assms(1,2,4) this] FinishUpload show ?thesis by (simp add: uploads_of_def)
  qed (use assms(5) refused tag_ops_confined[OF assms(1)] in \<open>auto simp: request_content_def uploads_of_def\<close>)
qed

text \<open>C2. Accounts that do not have the whole library, none of them an Owner, cannot together reach any asset that
  they did not reach before, apart from what they upload themselves: not by filing assets, not by making accounts,
  not by setting the policies of others, in any order. Nor do they come to reach a folder.\<close>

theorem restricted_accounts_confined:
  assumes "team_restricted db team" "\<forall>(d, now, op)\<in>set reqs. dg_user d \<in> team \<and> dg_role d \<noteq> ''owner''"
    "\<forall>u\<in>set (rd_users roles). u_id u \<in> team \<longrightarrow> u_role u \<noteq> ''owner''" "run_content sql_lower roles reqs db = Some db'"
  shows "team_folders db' team \<subseteq> team_folders db team
    \<and> team_assets db' team \<subseteq> team_assets db team \<union> ((\<Union>(d, now, op)\<in>set reqs. uploads_of op) - asset_ids db)"
proof -
  have "confined_step team (\<Union>(d, now, op)\<in>set reqs. uploads_of op) db db'"
    using assms(1,2,4)
  proof (induction reqs arbitrary: db)
    case Nil
    then show ?case by (simp add: confined_refl)
  next
    case (Cons req reqs)
    obtain d now op where req: "req = (d, now, op)" by (cases req)
    from Cons.prems(3) req obtain db1 where one: "content_step sql_lower now roles d op db = Some db1"
      and rest: "run_content sql_lower roles reqs db1 = Some db'" by (auto split: option.splits)
    from one obtain r where r: "request_content sql_lower now roles d op db = Some r" "db1 = (case r of Inl _ \<Rightarrow> db | Inr x \<Rightarrow> x)"
      by (auto simp: content_step_def)
    have step: "confined_step team (uploads_of op) db db1"
    proof (cases r)
      case (Inl e)
      with r Cons.prems(1) show ?thesis by (auto simp: confined_step_def)
    next
      case (Inr x)
      with r Cons.prems(1,2) assms(3) req show ?thesis
        by (auto intro!: request_confined[where roles = roles and d = d and now = now and sql_lower = sql_lower])
    qed
    then have "team_restricted db1 team" by (simp add: confined_step_def)
    from Cons.IH[OF this _ rest] Cons.prems(2)
    have "confined_step team (\<Union>(d, now, op)\<in>set reqs. uploads_of op) db1 db'" by simp
    from confined_trans[OF step this] req show ?case by simp
  qed
  then show ?thesis by (simp add: confined_step_def)
qed

text \<open>The folders listed for an account without the whole library are those granted to it and every folder
  beneath them, and a parent is named only if it is in the list: the tree shown never mentions another folder.\<close>

theorem folder_listing_exact:
  fixes sql_lower :: "string \<Rightarrow> string" and now :: int
  assumes "folders_ok (ct_folders db)" "\<not> ca_library (vw_access v)"
  defines "listed \<equiv> set (list_folders sql_lower now db v)"
  shows "fv_id ` listed = {i \<in> fo_id ` set (ct_folders db).
      \<exists>g. (ca_user (vw_access v), g) \<in> set (ct_folder_grants db) \<and> (g, i) \<in> (below (ct_folders db))\<^sup>*}
    \<and> (\<forall>x\<in>listed. \<forall>p. fv_parent x = Some p \<longrightarrow> p \<in> fv_id ` listed)"
proof -
  let ?reach = "set (accessible_folders db (ca_user (vw_access v)))"
  have ids: "fv_id ` listed = {i \<in> fo_id ` set (ct_folders db). i \<in> ?reach}"
    using assms(2) by (force simp: listed_def list_folders_def Let_def image_iff)
  have "p \<in> ?reach \<and> p \<in> fo_id ` set (ct_folders db)" if "x \<in> listed" "fv_parent x = Some p" for x p
  proof -
    from that(1) obtain f where f: "f \<in> set (ct_folders db)" "fv_parent x = listed_parent db (vw_access v) f"
      by (auto simp: listed_def list_folders_def Let_def)
    with that(2) assms(2) have "fo_parent f = Some p" "p \<in> ?reach"
      by (auto simp: listed_parent_def split: option.splits if_splits)
    with f(1) assms(1) show ?thesis by (auto simp: folders_ok_def)
  qed
  with ids show ?thesis by (auto simp: accessible_folders_closure)
qed

section \<open>An example\<close>

definition office_row :: "string \<Rightarrow> string option \<Rightarrow> folder_row" where
  "office_row i parent = \<lparr>fo_id = UUID i, fo_parent = map_option UUID parent, fo_name = i, fo_description = []\<rparr>"

definition office_asset :: "string \<Rightarrow> string option \<Rightarrow> asset_row" where
  "office_asset i folder = \<lparr>ast_id = UUID i, ast_type = ''image'', ast_folder = map_option UUID folder, ast_origin = ''library'',
     ast_system = False, ast_deleted = False, ast_archived = False, ast_expires = None\<rparr>"

definition office_db :: content_db where
  "office_db = \<lparr>ct_folders = [office_row ''shop'' None, office_row ''sale'' (Some ''shop''), office_row ''board'' None],
     ct_assets = [office_asset ''poster'' (Some ''shop''), office_asset ''memo'' (Some ''board'')],
     ct_tags = [], ct_collections = [], ct_asset_tags = [], ct_collection_assets = [], ct_playlist_tags = [], ct_draft_tags = [],
     ct_policies = [\<lparr>cp_user = UUID ''ann'', cp_library = ''restricted'', cp_tags = ''restricted''\<rparr>],
     ct_folder_grants = [(UUID ''ann'', UUID ''shop'')], ct_tag_grants = [], ct_audit = []\<rparr>"

definition office_roles :: role_db where
  "office_roles = \<lparr>rd_roles = [], rd_caps = [],
     rd_users = [\<lparr>u_id = UUID ''ann'', u_name = ''Ann'', u_username = ''ann'', u_password = [], u_role = ''administrator'',
        u_active = True, u_created = 0, u_last_login = None\<rparr>], rd_audit = []\<rparr>"

definition ann :: delegator where
  "ann = \<lparr>dg_user = UUID ''ann'', dg_role = ''administrator'',
     dg_capabilities = {''media.read'', ''media.organize'', ''media.upload'', ''users.manage''}\<rparr>"

definition poster_to_sale :: content_op where
  "poster_to_sale = Organize (UUID ''batch'') \<lparr>bi_assets = [UUID ''poster''], bi_set_folder = True, bi_folder = Some (UUID ''sale''),
     bi_add_tags = [], bi_remove_tags = [], bi_add_collections = [], bi_remove_collections = []\<rparr>"

definition bob_gets_sale :: content_op where
  "bob_gets_sale = NewAccountAccess (UUID ''bob'') \<lparr>ci_library = ''restricted'', ci_tags = ''restricted'',
     ci_folder_ids = [UUID ''sale''], ci_tag_ids = []\<rparr>"

definition office_requests :: "(delegator \<times> int \<times> content_op) list" where
  "office_requests = [(ann, 0, poster_to_sale), (ann, 1, bob_gets_sale), (ann, 2, FinishUpload (UUID ''photo'') ''image'' (Some (UUID ''shop'')))]"

definition office_after :: content_db where
  "office_after = (case run_content id office_roles office_requests office_db of None \<Rightarrow> office_db | Some db \<Rightarrow> db)"

lemma office_forest: "folders_ok (ct_folders office_db)"
proof -
  have "below (ct_folders office_db) = {(UUID ''shop'', UUID ''sale'')}"
    by (auto simp: below_def office_db_def office_row_def)
  moreover have "acyclic {(UUID ''shop'', UUID ''sale'')}" by (auto simp: acyclic_def trancl_insert)
  ultimately have "acyclic (below (ct_folders office_db))" by simp
  then show ?thesis by (simp add: folders_ok_def) (simp add: office_db_def office_row_def)
qed

lemma office_runs: "run_content id office_roles office_requests office_db = Some office_after"
proof -
  have "\<not> Option.is_none (run_content id office_roles office_requests office_db)" by code_simp
  then show ?thesis by (auto simp: office_after_def Option.is_none_def)
qed

lemma office_team: "accessible_folders office_db (UUID ''ann'') = [UUID ''shop'', UUID ''sale'']"
  "accessible_folders office_db (UUID ''bob'') = []"
  "accessible_folders office_after (UUID ''bob'') = [UUID ''sale'']"
  by code_simp+

theorem restricted_accounts_confined_witness:
  "UUID ''memo'' \<notin> team_assets office_after {UUID ''ann'', UUID ''bob''}
   \<and> set (accessible_folders office_after (UUID ''bob'')) = {UUID ''sale''}"
proof -
  let ?team = "{UUID ''ann'', UUID ''bob''}"
  have policies: "team_restricted office_db ?team"
    by (simp add: team_restricted_def stored_access_def office_db_def office_asset_def)
  have callers: "\<forall>(d, now, op)\<in>set office_requests. dg_user d \<in> ?team \<and> dg_role d \<noteq> ''owner''"
    by (simp add: office_requests_def ann_def)
  have roles: "\<forall>u\<in>set (rd_users office_roles). u_id u \<in> ?team \<longrightarrow> u_role u \<noteq> ''owner''"
    by (simp add: office_roles_def)
  have uploads: "(\<Union>(d, now, op)\<in>set office_requests. uploads_of op) = {UUID ''photo''}"
    by (simp add: office_requests_def poster_to_sale_def bob_gets_sale_def uploads_of_def)
  have "team_assets office_db ?team \<subseteq> {UUID ''poster''}"
    by (auto simp: team_assets_def team_folders_def office_team) (auto simp: office_db_def office_asset_def)
  with restricted_accounts_confined [OF policies callers roles office_runs] uploads
  show ?thesis by (auto simp: office_team)
qed

definition root_account :: delegator where
  "root_account = \<lparr>dg_user = UUID ''root'', dg_role = ''owner'', dg_capabilities = {''media.folders.manage''}\<rparr>"

theorem library_requests_return_witness:
  "\<exists>db'. run_content id office_roles
      [(root_account, 0, EditFolder (UUID ''shop'') (Some (UUID ''board'')) ''shop'' []),
       (root_account, 1, EditFolder (UUID ''board'') (Some (UUID ''sale'')) ''board'' [])] office_db = Some db'
    \<and> acyclic (below (ct_folders db'))"
  using library_requests_return [OF office_forest] unfolding folders_ok_def by blast


theorem folder_listing_exact_witness:
  "fv_id ` set (list_folders id 0 office_db (caller_view office_db ann)) = {UUID ''shop'', UUID ''sale''}"
proof -
  have restricted: "\<not> ca_library (vw_access (caller_view office_db ann))"
    by (simp add: caller_view_def caller_access_def access_for_def stored_access_def office_db_def ann_def)
  have user: "ca_user (vw_access (caller_view office_db ann)) = UUID ''ann''"
    by (simp add: caller_view_def caller_access_def access_for_def stored_access_def office_db_def ann_def)
  have split: "{i \<in> A. \<exists>g. (u, g) \<in> G \<and> (g, i) \<in> R} = A \<inter> R `` {f. (u, f) \<in> G}"
    for A :: "uuid set" and G R :: "(uuid \<times> uuid) set" and u
    by auto
  have "(below (ct_folders office_db))\<^sup>* `` {f. (UUID ''ann'', f) \<in> set (ct_folder_grants office_db)}
      = {UUID ''shop'', UUID ''sale''}"
    by (simp add: accessible_folders_closure[symmetric] office_team)
  moreover have "fo_id ` set (ct_folders office_db) = {UUID ''shop'', UUID ''sale'', UUID ''board''}"
    by (auto simp: office_db_def office_row_def)
  ultimately show ?thesis
    using conjunct1 [OF folder_listing_exact [OF office_forest restricted, of id 0]] unfolding user split by simp
qed

end
