(* ===== verification/Totp.thy ===== *)
theory Totp
  imports GoTime GoValues "HOL-Library.Word"
begin

text \<open>
  Time-based one-time codes (\<open>auth/totp.go\<close>), with the SHA-1 and HMAC of Go's standard library that they
  are made of. Bytes are naturals below 256; the words of SHA-1 have 32 bits.
\<close>

unbundle bit_operations_syntax

section \<open>SHA-1\<close>

type_synonym bytes = "nat list"

definition be_word :: "bytes \<Rightarrow> 32 word" where
  "be_word bs = of_nat (foldl (\<lambda>n b. 256 * n + b) 0 bs)"

definition word_bytes :: "32 word \<Rightarrow> bytes" where
  "word_bytes w = map (\<lambda>k. unat w div 256 ^ k mod 256) [3, 2, 1, 0]"

text \<open>\<open>binary.BigEndian.PutUint64\<close>, on the two's complement of a 64-bit integer.\<close>

definition be_uint64 :: "int \<Rightarrow> bytes" where
  "be_uint64 n = map (\<lambda>k. nat (n div 256 ^ k mod 256)) [7, 6, 5, 4, 3, 2, 1, 0]"

definition rotl32 :: "nat \<Rightarrow> 32 word \<Rightarrow> 32 word" where
  "rotl32 n w = (push_bit n w) OR (drop_bit (32 - n) w)"

definition sha1_pad :: "bytes \<Rightarrow> bytes" where
  "sha1_pad m = m @ 128 # replicate ((119 - length m mod 64) mod 64) 0 @ be_uint64 (8 * int (length m))"

text \<open>The message schedule, newest word first.\<close>

fun sha1_schedule :: "nat \<Rightarrow> 32 word list \<Rightarrow> 32 word list" where
  "sha1_schedule 0 ws = rev ws"
| "sha1_schedule (Suc n) ws = sha1_schedule n (rotl32 1 (ws ! 2 XOR ws ! 7 XOR ws ! 13 XOR ws ! 15) # ws)"

fun words_of :: "nat \<Rightarrow> bytes \<Rightarrow> 32 word list" where
  "words_of 0 bs = []"
| "words_of (Suc n) bs = be_word (take 4 bs) # words_of n (drop 4 bs)"

type_synonym sha1_state = "32 word \<times> 32 word \<times> 32 word \<times> 32 word \<times> 32 word"

definition sha1_start :: sha1_state where
  "sha1_start = (0x67452301, 0xEFCDAB89, 0x98BADCFE, 0x10325476, 0xC3D2E1F0)"

definition sha1_mix :: "nat \<Rightarrow> 32 word \<Rightarrow> 32 word \<Rightarrow> 32 word \<Rightarrow> 32 word \<times> 32 word" where
  "sha1_mix i b c d =
     (if i < 20 then ((b AND c) OR (NOT b AND d), 0x5A827999)
      else if i < 40 then (b XOR c XOR d, 0x6ED9EBA1)
      else if i < 60 then ((b AND c) OR (b AND d) OR (c AND d), 0x8F1BBCDC)
      else (b XOR c XOR d, 0xCA62C1D6))"

definition sha1_round :: "nat \<times> 32 word \<Rightarrow> sha1_state \<Rightarrow> sha1_state" where
  "sha1_round iw s =
     (case s of (a, b, c, d, e) \<Rightarrow>
      case sha1_mix (fst iw) b c d of (f, k) \<Rightarrow> (rotl32 5 a + f + e + k + snd iw, a, rotl32 30 b, c, d))"

definition sha1_block :: "sha1_state \<Rightarrow> bytes \<Rightarrow> sha1_state" where
  "sha1_block s chunk =
     (case s of (a, b, c, d, e) \<Rightarrow>
      case fold sha1_round (enumerate 0 (sha1_schedule 64 (rev (words_of 16 chunk)))) s of (a', b', c', d', e') \<Rightarrow>
        (a + a', b + b', c + c', d + d', e + e'))"

fun sha1_blocks :: "nat \<Rightarrow> bytes \<Rightarrow> sha1_state \<Rightarrow> sha1_state" where
  "sha1_blocks 0 bs s = s"
| "sha1_blocks (Suc n) bs s = sha1_blocks n (drop 64 bs) (sha1_block s (take 64 bs))"

definition sha1 :: "bytes \<Rightarrow> bytes" where
  "sha1 m =
     (case sha1_blocks (length (sha1_pad m) div 64) (sha1_pad m) sha1_start of (a, b, c, d, e) \<Rightarrow>
        concat (map word_bytes [a, b, c, d, e]))"

text \<open>HMAC with the block size of SHA-1; a longer key is hashed first.\<close>

definition hmac_key :: "bytes \<Rightarrow> bytes" where
  "hmac_key key = (let k = (if 64 < length key then sha1 key else key) in k @ replicate (64 - length k) 0)"

definition hmac_sha1 :: "bytes \<Rightarrow> bytes \<Rightarrow> bytes" where
  "hmac_sha1 key m =
     (let k = hmac_key key
      in sha1 (map (\<lambda>b. b XOR 92) k @ sha1 (map (\<lambda>b. b XOR 54) k @ m)))"

lemma length_word_bytes [simp]: "length (word_bytes w) = 4"
  by (simp add: word_bytes_def)

lemma length_sha1 [simp]: "length (sha1 m) = 20"
  by (simp add: sha1_def split: prod.split)

lemma length_hmac [simp]: "length (hmac_sha1 key m) = 20"
  by (simp add: hmac_sha1_def Let_def)

section \<open>Codes\<close>

definition totp_code :: "bytes \<Rightarrow> int \<Rightarrow> string" where
  "totp_code secret step =
     (let sum = hmac_sha1 secret (be_uint64 step);
          offset = last sum AND 15;
          v = foldl (\<lambda>n b. 256 * n + b) 0 (take 4 (drop offset sum)) AND 0x7FFFFFFF
      in digits_fixed 6 (v mod 1000000))"

definition normalize_totp_code :: "string \<Rightarrow> string" where
  "normalize_totp_code code = filter numeric code"

text \<open>The steps tried, in order: the previous, the current and the next.\<close>

definition verify_totp :: "bytes \<Rightarrow> string \<Rightarrow> instant \<Rightarrow> int option \<Rightarrow> int option" where
  "verify_totp secret code at last_used =
     (let c = normalize_totp_code code; current = go_div (unix at) 30
      in if length c \<noteq> 6 then None
         else case find (\<lambda>step. totp_code secret step = c) [current - 1, current, current + 1] of
           None \<Rightarrow> None
         | Some step \<Rightarrow> (case last_used of None \<Rightarrow> Some step | Some l \<Rightarrow> if step \<le> l then None else Some step))"

definition base32_alphabet :: string where
  "base32_alphabet = ''ABCDEFGHIJKLMNOPQRSTUVWXYZ234567''"

text \<open>Base32 without padding: groups of five bits, the last filled up with zeros.\<close>

definition byte_bits :: "nat \<Rightarrow> bool list" where
  "byte_bits b = map (\<lambda>k. odd (b div 2 ^ k)) [7, 6, 5, 4, 3, 2, 1, 0]"

fun quintets :: "bool list \<Rightarrow> nat list" where
  "quintets [] = []"
| "quintets (b # bs) =
     foldl (\<lambda>n x. 2 * n + (if x then 1 else 0)) 0 (take 5 ((b # bs) @ replicate 4 False)) # quintets (drop 4 bs)"

definition totp_secret_key :: "bytes \<Rightarrow> string" where
  "totp_secret_key secret = map (\<lambda>q. base32_alphabet ! q) (quintets (concat (map byte_bits secret)))"

lemma digits_fixed_numeric: "list_all numeric (digits_fixed w n)"
proof (induction w arbitrary: n)
  case (Suc w)
  have "numeric (digit_char d)" if "d < 10" for d
  proof -
    from that have "d \<in> set [0 ..< 10]" by simp
    then show ?thesis by (simp add: upt_rec) (elim disjE; simp; code_simp)
  qed
  with Suc show ?case by simp
qed simp

text \<open>A code is always six digits, and written as it is normalized.\<close>

lemma totp_code_digits: "length (totp_code secret step) = 6" "list_all numeric (totp_code secret step)"
  by (simp_all add: totp_code_def Let_def digits_fixed_numeric)

lemma normalize_totp_code_own: "normalize_totp_code (totp_code secret step) = totp_code secret step"
  using totp_code_digits(2)[of secret step] by (simp add: normalize_totp_code_def filter_id_conv list_all_iff)

text \<open>What an accepted code proves: it is the code of a step next to the present one, and a later one than the last
  that was accepted.\<close>

lemma verify_totp_sound:
  assumes "verify_totp secret code at last_used = Some step"
  shows "\<bar>step - go_div (unix at) 30\<bar> \<le> 1" "normalize_totp_code code = totp_code secret step"
    "last_used = Some l \<Longrightarrow> l < step"
  using assms by (auto simp: verify_totp_def Let_def find_Some_iff less_Suc_eq nth_Cons' split: if_splits option.splits)

text \<open>A step's code is accepted in its window, unless the code of an earlier step of the window is the same.\<close>

lemma verify_totp_accepts:
  assumes "normalize_totp_code code = totp_code secret step" "\<bar>step - go_div (unix at) 30\<bar> \<le> 1"
    "\<And>l. last_used = Some l \<Longrightarrow> l < step" "\<And>s. go_div (unix at) 30 - 1 \<le> s \<Longrightarrow> s < step \<Longrightarrow> totp_code secret s \<noteq> totp_code secret step"
  shows "verify_totp secret code at last_used = Some step"
proof -
  let ?n = "go_div (unix at) 30"
  have step: "step = ?n - 1 \<or> step = ?n \<or> step = ?n + 1" using assms(2) by linarith
  have "find (\<lambda>s. totp_code secret s = totp_code secret step) [?n - 1, ?n, ?n + 1] = Some step"
    using step assms(4)[of "?n - 1"] assms(4)[of ?n] by auto
  then show ?thesis using assms(1,3)
    by (auto simp: verify_totp_def Let_def totp_code_digits(1) not_less[symmetric] split: option.split)
qed

end
