(* ===== verification/SignIn.thy ===== *)
theory SignIn
  imports Roles Totp
begin

text \<open>
  Signing in (\<open>auth/service.go\<close>, \<open>auth/mfa.go\<close>): accounts, second factors, pending challenges and
  sessions. Passwords are hashed with argon2 and tokens with SHA-256: \<open>verify\<close> (encoded hash, password) and
  \<open>digest\<close> are parameters, random tokens and new identifiers are arguments, and a Go error that comes with
  changed tables is a result paired with the new state. Passkeys occur as the rows that count as factors; the
  WebAuthn ceremonies are not modelled.
\<close>

section \<open>Tables\<close>

record totp_row =
  tf_user :: uuid
  tf_secret :: bytes
  tf_confirmed :: "instant option"
  tf_last_step :: "int option"

record recovery_row =
  rc_id :: uuid
  rc_user :: uuid
  rc_hash :: string
  rc_used :: bool

record challenge_row =
  ch_id :: uuid
  ch_user :: "uuid option"
  ch_hash :: string
  ch_purpose :: string
  ch_attempts :: nat
  ch_expires :: instant

record session_row =
  se_id :: uuid
  se_user :: uuid
  se_hash :: string
  se_csrf :: string
  se_expires :: instant
  se_method :: string
  se_pending :: bool
  se_grant :: "uuid option"
  se_seen :: instant

record grant_row =
  og_id :: uuid
  og_user :: uuid
  og_client :: "string option"
  og_revoked :: bool

record auth_db =
  au_users :: "user_row list"
  au_totp :: "totp_row list"
  au_passkeys :: "(uuid \<times> uuid) list"
  au_recovery :: "recovery_row list"
  au_challenges :: "challenge_row list"
  au_sessions :: "session_row list"
  au_grants :: "grant_row list"
  au_organization :: "string option"
  au_content_all :: "uuid list"
  au_screens_all :: "uuid list"
  au_audit :: "(uuid option \<times> string) list"

datatype auth_error =
    InvalidCredentials | SetupComplete | Unauthenticated | Inactive | InvalidChallenge | InvalidCode | NoFactor
  | FactorExists | LastFactor | ChallengeExhausted | NoUsableFactor | AuthConstraint
  | OrganizationNameLength | OwnerNameLength | UsernamePattern | PasswordLength

record fresh =
  fr_id :: uuid
  fr_token :: string
  fr_csrf :: string

section \<open>The policy\<close>

datatype mfa_policy = PolicyNone | PolicyAdministrators | PolicyAll

definition parse_mfa_policy :: "string \<Rightarrow> mfa_policy" where
  "parse_mfa_policy v =
     (if trim_space v = ''administrators'' then PolicyAdministrators else if trim_space v = ''all'' then PolicyAll else PolicyNone)"

definition applies_to :: "mfa_policy \<Rightarrow> string \<Rightarrow> bool" where
  "applies_to p role =
     (case p of PolicyAll \<Rightarrow> True | PolicyAdministrators \<Rightarrow> role = ''owner'' \<or> role = ''administrator'' | PolicyNone \<Rightarrow> False)"

section \<open>Factors\<close>

record factor_summary =
  fs_totp :: bool
  fs_passkeys :: "uuid list"
  fs_remaining :: nat
  fs_enrolled :: bool

definition confirmed_totp :: "auth_db \<Rightarrow> uuid \<Rightarrow> totp_row option" where
  "confirmed_totp db user = find (\<lambda>t. tf_user t = user \<and> tf_confirmed t \<noteq> None) (au_totp db)"

definition unused_codes :: "auth_db \<Rightarrow> uuid \<Rightarrow> recovery_row list" where
  "unused_codes db user = filter (\<lambda>r. rc_user r = user \<and> \<not> rc_used r) (au_recovery db)"

definition factors :: "auth_db \<Rightarrow> uuid \<Rightarrow> factor_summary" where
  "factors db user =
     (let totp = confirmed_totp db user \<noteq> None; keys = map snd (filter (\<lambda>(u, k). u = user) (au_passkeys db))
      in \<lparr>fs_totp = totp, fs_passkeys = keys, fs_remaining = length (unused_codes db user), fs_enrolled = (totp \<or> keys \<noteq> [])\<rparr>)"

definition enrolled_user_ids :: "auth_db \<Rightarrow> uuid list" where
  "enrolled_user_ids db =
     remdups (map tf_user (filter (\<lambda>t. tf_confirmed t \<noteq> None) (au_totp db)) @ map fst (au_passkeys db))"

definition auth_record :: "uuid option \<Rightarrow> string \<Rightarrow> auth_db \<Rightarrow> auth_db" where
  "auth_record user action db = db\<lparr>au_audit := au_audit db @ [(user, action)]\<rparr>"

definition begin_totp :: "uuid \<Rightarrow> bytes \<Rightarrow> auth_db \<Rightarrow> (auth_error + string) \<times> auth_db" where
  "begin_totp user secret db =
     (case find (\<lambda>t. tf_user t = user) (au_totp db) of
        None \<Rightarrow> (Inr (totp_secret_key secret), db\<lparr>au_totp := au_totp db @ [\<lparr>tf_user = user, tf_secret = secret, tf_confirmed = None, tf_last_step = None\<rparr>]\<rparr>)
      | Some t \<Rightarrow>
          if tf_confirmed t \<noteq> None then (Inl FactorExists, db)
          else (Inr (totp_secret_key secret), db\<lparr>au_totp := map (\<lambda>r. if tf_user r = user then r\<lparr>tf_secret := secret, tf_last_step := None\<rparr> else r) (au_totp db)\<rparr>))"

definition confirm_totp :: "uuid \<Rightarrow> string \<Rightarrow> instant \<Rightarrow> auth_db \<Rightarrow> (auth_error + unit) \<times> auth_db" where
  "confirm_totp user code now db =
     (case find (\<lambda>t. tf_user t = user) (au_totp db) of
        None \<Rightarrow> (Inl NoFactor, db)
      | Some t \<Rightarrow>
          if tf_confirmed t \<noteq> None then (Inl FactorExists, db)
          else (case verify_totp (tf_secret t) code now None of
              None \<Rightarrow> (Inl InvalidCode, db)
            | Some step \<Rightarrow> (Inr (), auth_record (Some user) ''auth.mfa.totp_enrolled''
                (db\<lparr>au_totp := map (\<lambda>r. if tf_user r = user then r\<lparr>tf_confirmed := Some now, tf_last_step := Some step\<rparr> else r) (au_totp db)\<rparr>))))"

definition disable_totp :: "uuid \<Rightarrow> mfa_policy \<Rightarrow> string \<Rightarrow> auth_db \<Rightarrow> (auth_error + unit) \<times> auth_db" where
  "disable_totp user policy role db =
     (let s = factors db user
      in if \<not> fs_totp s then (Inl NoFactor, db)
         else if applies_to policy role \<and> fs_passkeys s = [] then (Inl LastFactor, db)
         else (Inr (), auth_record (Some user) ''auth.mfa.totp_removed'' (db\<lparr>au_totp := filter (\<lambda>t. tf_user t \<noteq> user) (au_totp db)\<rparr>)))"

definition recovery_alphabet :: string where
  "recovery_alphabet = ''abcdefghijkmnpqrstuvwxyz23456789''"

definition recovery_code :: "nat list \<Rightarrow> string" where
  "recovery_code is =
     (let g = map (\<lambda>i. recovery_alphabet ! i) is in take 4 g @ ''-'' @ take 4 (drop 4 g) @ ''-'' @ take 4 (drop 8 g))"

definition normalize_recovery_code :: "string \<Rightarrow> string" where
  "normalize_recovery_code code = map lower_ascii (filter (\<lambda>c. alpha_lower c \<or> alpha_upper c \<or> numeric c) code)"

text \<open>Each code comes with the identifier of its row, the twelve letters drawn for it and the salt of its hash; the plain
  codes are returned once.\<close>

type_synonym code_draw = "uuid \<times> nat list \<times> string"

definition generate_recovery_codes ::
  "(string \<Rightarrow> string \<Rightarrow> string) \<Rightarrow> uuid \<Rightarrow> code_draw list \<Rightarrow> auth_db \<Rightarrow> (auth_error + string list) \<times> auth_db" where
  "generate_recovery_codes hash user draws db =
     (Inr (map (\<lambda>(i, letters, salt). recovery_code letters) draws), auth_record (Some user) ''auth.mfa.recovery_codes_generated''
       (db\<lparr>au_recovery := filter (\<lambda>r. rc_user r \<noteq> user) (au_recovery db)
          @ map (\<lambda>(i, letters, salt). \<lparr>rc_id = i, rc_user = user, rc_hash = hash salt (normalize_recovery_code (recovery_code letters)),
              rc_used = False\<rparr>) draws\<rparr>))"

section \<open>Sessions\<close>

definition revoke_user_sessions :: "uuid \<Rightarrow> auth_db \<Rightarrow> auth_db" where
  "revoke_user_sessions user db =
     db\<lparr>au_grants := map (\<lambda>g. if list_ex (\<lambda>s. se_user s = user \<and> se_grant s = Some (og_id g)) (au_sessions db)
            \<or> (og_user g = user \<and> og_client g = Some ''tilecast-ios'') then g\<lparr>og_revoked := True\<rparr> else g) (au_grants db),
        au_sessions := filter (\<lambda>s. se_user s \<noteq> user) (au_sessions db)\<rparr>"

definition reset_factors :: "uuid \<Rightarrow> uuid option \<Rightarrow> auth_db \<Rightarrow> (auth_error + unit) \<times> auth_db" where
  "reset_factors user actor db =
     (Inr (), auth_record actor ''auth.mfa.reset'' (revoke_user_sessions user
       (db\<lparr>au_totp := filter (\<lambda>t. tf_user t \<noteq> user) (au_totp db),
          au_passkeys := filter (\<lambda>(u, k). u \<noteq> user) (au_passkeys db),
          au_recovery := filter (\<lambda>r. rc_user r \<noteq> user) (au_recovery db),
          au_challenges := filter (\<lambda>c. ch_user c \<noteq> Some user) (au_challenges db)\<rparr>)))"

definition mark_enrollment_satisfied :: "uuid \<Rightarrow> auth_db \<Rightarrow> auth_db" where
  "mark_enrollment_satisfied user db =
     db\<lparr>au_sessions := map (\<lambda>s. if se_user s = user \<and> se_pending s then s\<lparr>se_pending := False\<rparr> else s) (au_sessions db)\<rparr>"

definition purge_sessions :: "instant \<Rightarrow> auth_db \<Rightarrow> auth_db" where
  "purge_sessions now db = db\<lparr>au_sessions := filter (\<lambda>s. \<not> se_expires s < now) (au_sessions db)\<rparr>"

definition purge_challenges :: "instant \<Rightarrow> auth_db \<Rightarrow> auth_db" where
  "purge_challenges now db = db\<lparr>au_challenges := filter (\<lambda>c. \<not> ch_expires c < now) (au_challenges db)\<rparr>"

record issued =
  is_user :: user_row
  is_token :: string
  is_csrf :: string
  is_expires :: instant
  is_method :: string
  is_pending :: bool

definition create_grant_session ::
  "(string \<Rightarrow> string) \<Rightarrow> duration \<Rightarrow> fresh \<Rightarrow> instant \<Rightarrow> user_row \<Rightarrow> uuid option \<Rightarrow> string \<Rightarrow> bool \<Rightarrow> auth_db \<Rightarrow> (auth_error + issued) \<times> auth_db" where
  "create_grant_session digest ttl fr now u grant how pending db =
     (if list_ex (\<lambda>s. se_id s = fr_id fr \<or> se_hash s = digest (fr_token fr)) (au_sessions db)
         \<or> (case grant of None \<Rightarrow> False | Some g \<Rightarrow> g \<notin> og_id ` set (au_grants db))
      then (Inl AuthConstraint, db)
      else (Inr \<lparr>is_user = u, is_token = fr_token fr, is_csrf = fr_csrf fr, is_expires = now + ttl, is_method = how, is_pending = pending\<rparr>,
        db\<lparr>au_sessions := au_sessions db @ [\<lparr>se_id = fr_id fr, se_user = u_id u, se_hash = digest (fr_token fr), se_csrf = fr_csrf fr,
             se_expires = now + ttl, se_method = how, se_pending = pending, se_grant = grant, se_seen = now\<rparr>]\<rparr>))"

definition user_named :: "auth_db \<Rightarrow> uuid \<Rightarrow> user_row option" where
  "user_named db user = find (\<lambda>u. u_id u = user) (au_users db)"

definition session_user :: "auth_db \<Rightarrow> uuid \<Rightarrow> auth_error + user_row" where
  "session_user db user =
     (case user_named db user of None \<Rightarrow> Inl Unauthenticated | Some u \<Rightarrow> if u_active u then Inr u else Inl Inactive)"

definition issue_session ::
  "(string \<Rightarrow> string) \<Rightarrow> duration \<Rightarrow> fresh \<Rightarrow> instant \<Rightarrow> uuid \<Rightarrow> string \<Rightarrow> bool \<Rightarrow> auth_db \<Rightarrow> (auth_error + issued) \<times> auth_db" where
  "issue_session digest ttl fr now user how pending db =
     (case session_user db user of
        Inl e \<Rightarrow> (Inl e, db)
      | Inr u \<Rightarrow> create_grant_session digest ttl fr now u None how pending db)"

text \<open>One transaction: the session that the grant had before is gone only if the new one was stored.\<close>

definition issue_grant_session ::
  "(string \<Rightarrow> string) \<Rightarrow> duration \<Rightarrow> fresh \<Rightarrow> instant \<Rightarrow> uuid \<Rightarrow> uuid \<Rightarrow> string \<Rightarrow> bool \<Rightarrow> auth_db \<Rightarrow> (auth_error + issued) \<times> auth_db" where
  "issue_grant_session digest ttl fr now user grant how pending db =
     (case session_user db user of
        Inl e \<Rightarrow> (Inl e, db)
      | Inr u \<Rightarrow>
          (case create_grant_session digest ttl fr now u (Some grant) how pending
                  (db\<lparr>au_sessions := filter (\<lambda>s. se_grant s \<noteq> Some grant) (au_sessions db)\<rparr>) of
             (Inl e, _) \<Rightarrow> (Inl e, db)
           | (Inr s, db') \<Rightarrow> (Inr s, db')))"

definition session_live :: "auth_db \<Rightarrow> instant \<Rightarrow> session_row \<Rightarrow> bool" where
  "session_live db now s \<longleftrightarrow> now < se_expires s
     \<and> \<not> (case se_grant s of None \<Rightarrow> False | Some g \<Rightarrow> list_ex (\<lambda>r. og_id r = g \<and> og_revoked r) (au_grants db))"

definition authenticate :: "(string \<Rightarrow> string) \<Rightarrow> instant \<Rightarrow> string \<Rightarrow> auth_db \<Rightarrow> (auth_error + issued) \<times> auth_db" where
  "authenticate digest now token db =
     (if token = [] then (Inl Unauthenticated, db)
      else case find (\<lambda>s. se_hash s = digest token \<and> session_live db now s \<and> user_named db (se_user s) \<noteq> None) (au_sessions db) of
        None \<Rightarrow> (Inl Unauthenticated, db)
      | Some s \<Rightarrow>
          (case user_named db (se_user s) of
             None \<Rightarrow> (Inl Unauthenticated, db)
           | Some u \<Rightarrow>
               if \<not> u_active u then (Inl Inactive, db)
               else (Inr \<lparr>is_user = u, is_token = token, is_csrf = se_csrf s, is_expires = se_expires s, is_method = se_method s,
                      is_pending = se_pending s\<rparr>,
                 db\<lparr>au_sessions := map (\<lambda>r. if se_hash r = digest token \<and> se_seen r < now - 5 * minute then r\<lparr>se_seen := now\<rparr> else r)
                   (au_sessions db)\<rparr>)))"

definition logout :: "(string \<Rightarrow> string) \<Rightarrow> string \<Rightarrow> uuid \<Rightarrow> auth_db \<Rightarrow> auth_db" where
  "logout digest token user db =
     (let gone = find (\<lambda>s. se_hash s = digest token) (au_sessions db);
          db1 = db\<lparr>au_sessions := filter (\<lambda>s. se_hash s \<noteq> digest token) (au_sessions db)\<rparr>;
          db2 = (case gone of None \<Rightarrow> db1
            | Some s \<Rightarrow> (case se_grant s of None \<Rightarrow> db1
                | Some g \<Rightarrow>
                    if list_ex (\<lambda>r. og_id r = g \<and> \<not> og_revoked r) (au_grants db1)
                    then auth_record (Some user) ''oauth.grant_revoked''
                      (db1\<lparr>au_grants := map (\<lambda>r. if og_id r = g then r\<lparr>og_revoked := True\<rparr> else r) (au_grants db1)\<rparr>)
                    else db1))
      in auth_record (Some user) ''auth.logout'' db2)"

section \<open>Signing in\<close>

definition challenge_ttl :: duration where "challenge_ttl = 10 * minute"

definition challenge_max_tries :: nat where "challenge_max_tries = 5"

definition create_challenge ::
  "(string \<Rightarrow> string) \<Rightarrow> fresh \<Rightarrow> instant \<Rightarrow> uuid option \<Rightarrow> string \<Rightarrow> auth_db \<Rightarrow> (auth_error + string) \<times> auth_db" where
  "create_challenge digest fr now user purpose db =
     (if list_ex (\<lambda>c. ch_id c = fr_id fr \<or> ch_hash c = digest (fr_token fr)) (au_challenges db) then (Inl AuthConstraint, db)
      else (Inr (fr_token fr), db\<lparr>au_challenges := au_challenges db @ [\<lparr>ch_id = fr_id fr, ch_user = user,
             ch_hash = digest (fr_token fr), ch_purpose = purpose, ch_attempts = 0, ch_expires = now + challenge_ttl\<rparr>]\<rparr>))"

definition delete_challenge :: "uuid \<Rightarrow> auth_db \<Rightarrow> auth_db" where
  "delete_challenge i db = db\<lparr>au_challenges := filter (\<lambda>c. ch_id c \<noteq> i) (au_challenges db)\<rparr>"

definition fail_challenge :: "uuid \<Rightarrow> auth_db \<Rightarrow> auth_db" where
  "fail_challenge i db =
     db\<lparr>au_challenges := map (\<lambda>c. if ch_id c = i then c\<lparr>ch_attempts := ch_attempts c + 1\<rparr> else c) (au_challenges db)\<rparr>"

definition load_challenge ::
  "(string \<Rightarrow> string) \<Rightarrow> instant \<Rightarrow> string \<Rightarrow> string \<Rightarrow> auth_db \<Rightarrow> (auth_error + challenge_row) \<times> auth_db" where
  "load_challenge digest now token purpose db =
     (if token = [] then (Inl InvalidChallenge, db)
      else case find (\<lambda>c. ch_hash c = digest token \<and> now < ch_expires c) (au_challenges db) of
        None \<Rightarrow> (Inl InvalidChallenge, db)
      | Some c \<Rightarrow>
          if ch_purpose c \<noteq> purpose then (Inl InvalidChallenge, db)
          else if challenge_max_tries \<le> ch_attempts c then (Inl ChallengeExhausted, delete_challenge (ch_id c) db)
          else (Inr c, db))"

definition complete_login ::
  "(string \<Rightarrow> string) \<Rightarrow> duration \<Rightarrow> mfa_policy \<Rightarrow> fresh \<Rightarrow> instant \<Rightarrow> user_row \<Rightarrow> string \<Rightarrow> auth_db \<Rightarrow> (auth_error + issued) \<times> auth_db" where
  "complete_login digest ttl policy fr now u how db =
     (let pending = (applies_to policy (u_role u) \<and> \<not> fs_enrolled (factors db (u_id u)))
      in create_grant_session digest ttl fr now (u\<lparr>u_last_login := Some now\<rparr>) None how pending
           (db\<lparr>au_users := map (\<lambda>r. if u_id r = u_id u then r\<lparr>u_last_login := Some now\<rparr> else r) (au_users db)\<rparr>))"

datatype login_result = SignedIn issued | Challenged string "string list" instant

definition login_methods :: "bool \<Rightarrow> factor_summary \<Rightarrow> string list" where
  "login_methods webauthn f =
     (if fs_totp f then [''totp''] else []) @ (if fs_passkeys f \<noteq> [] \<and> webauthn then [''passkey''] else [])
     @ (if 0 < fs_remaining f then [''recovery_code''] else [])"

definition find_login :: "(string \<Rightarrow> string) \<Rightarrow> string \<Rightarrow> auth_db \<Rightarrow> user_row option" where
  "find_login sql_lower username db = find (\<lambda>u. sql_lower (u_username u) = username) (au_users db)"

definition login ::
  "(string \<Rightarrow> string) \<Rightarrow> (string \<Rightarrow> string) \<Rightarrow> (string \<Rightarrow> string \<Rightarrow> bool) \<Rightarrow> (string \<Rightarrow> string) \<Rightarrow> bool \<Rightarrow> duration \<Rightarrow> mfa_policy \<Rightarrow>
   fresh \<Rightarrow> instant \<Rightarrow> string \<Rightarrow> string \<Rightarrow> auth_db \<Rightarrow> (auth_error + login_result) \<times> auth_db" where
  "login lw sql_lower verify digest webauthn ttl policy fr now username password db =
     (case find_login sql_lower (lw (trim_space username)) db of
        None \<Rightarrow> (Inl InvalidCredentials, db)
      | Some u \<Rightarrow>
          if \<not> verify (u_password u) password then (Inl InvalidCredentials, db)
          else if \<not> u_active u then (Inl Inactive, db)
          else let f = factors db (u_id u) in
            if fs_enrolled f then
              (if login_methods webauthn f = [] then (Inl NoUsableFactor, db)
               else case create_challenge digest fr now (Some (u_id u)) ''login'' db of
                 (Inl e, db') \<Rightarrow> (Inl e, db')
               | (Inr token, db') \<Rightarrow> (Inr (Challenged token (login_methods webauthn f) (now + challenge_ttl)), db'))
            else (case complete_login digest ttl policy fr now u ''password'' db of
                 (Inl e, db') \<Rightarrow> (Inl e, db')
               | (Inr s, db') \<Rightarrow> (Inr (SignedIn s), db')))"

definition verify_current_password :: "(string \<Rightarrow> string \<Rightarrow> bool) \<Rightarrow> uuid \<Rightarrow> string \<Rightarrow> auth_db \<Rightarrow> bool" where
  "verify_current_password verify user password db =
     (case find (\<lambda>u. u_id u = user \<and> u_active u) (au_users db) of None \<Rightarrow> False | Some u \<Rightarrow> verify (u_password u) password)"

section \<open>Second factors\<close>

definition looks_like_totp :: "string \<Rightarrow> bool" where
  "looks_like_totp code \<longleftrightarrow> length (normalize_totp_code code) = 6
     \<and> \<not> list_ex (\<lambda>c. c = CHR ''-'' \<or> alpha_lower c \<or> alpha_upper c) code"

text \<open>How the code was satisfied, if it was, and the tables with the code used up.\<close>

definition consume_code :: "(string \<Rightarrow> string \<Rightarrow> bool) \<Rightarrow> instant \<Rightarrow> uuid \<Rightarrow> string \<Rightarrow> auth_db \<Rightarrow> string option \<times> auth_db" where
  "consume_code verify now user code db =
     (let trimmed = trim_space code
      in if looks_like_totp trimmed then
           (case confirmed_totp db user of
              None \<Rightarrow> (None, db)
            | Some t \<Rightarrow> (case verify_totp (tf_secret t) trimmed now (tf_last_step t) of
                None \<Rightarrow> (None, db)
              | Some step \<Rightarrow> (Some ''totp'',
                  db\<lparr>au_totp := map (\<lambda>r. if tf_user r = user then r\<lparr>tf_last_step := Some step\<rparr> else r) (au_totp db)\<rparr>)))
         else if normalize_recovery_code trimmed = [] then (None, db)
         else (case find (\<lambda>r. verify (rc_hash r) (normalize_recovery_code trimmed)) (unused_codes db user) of
              None \<Rightarrow> (None, db)
            | Some r \<Rightarrow> (Some ''recovery_code'',
                db\<lparr>au_recovery := map (\<lambda>x. if rc_id x = rc_id r \<and> \<not> rc_used x then x\<lparr>rc_used := True\<rparr> else x) (au_recovery db)\<rparr>)))"

definition load_user :: "auth_db \<Rightarrow> uuid \<Rightarrow> auth_error + user_row" where
  "load_user db user =
     (case user_named db user of None \<Rightarrow> Inl InvalidCredentials | Some u \<Rightarrow> if u_active u then Inr u else Inl Inactive)"

definition complete_challenge ::
  "(string \<Rightarrow> string \<Rightarrow> bool) \<Rightarrow> (string \<Rightarrow> string) \<Rightarrow> duration \<Rightarrow> mfa_policy \<Rightarrow> fresh \<Rightarrow> instant \<Rightarrow> string \<Rightarrow> string \<Rightarrow>
   auth_db \<Rightarrow> (auth_error + issued) \<times> auth_db" where
  "complete_challenge verify digest ttl policy fr now token code db =
     (case load_challenge digest now token ''login'' db of
        (Inl e, db') \<Rightarrow> (Inl e, db')
      | (Inr c, db') \<Rightarrow>
          (case ch_user c of
             None \<Rightarrow> (Inl InvalidChallenge, db')
           | Some user \<Rightarrow>
               (case load_user db' user of
                  Inl e \<Rightarrow> (Inl e, db')
                | Inr u \<Rightarrow>
                    (case consume_code verify now (u_id u) code db' of
                       (None, db'') \<Rightarrow> (Inl InvalidCode, fail_challenge (ch_id c) db'')
                     | (Some how, db'') \<Rightarrow>
                         complete_login digest ttl policy fr now u how (delete_challenge (ch_id c) db'')))))"

section \<open>Initial setup\<close>

definition username_char :: "char \<Rightarrow> bool" where
  "username_char c \<longleftrightarrow> alpha_lower c \<or> alpha_upper c \<or> numeric c \<or> c \<in> set ''._@+-''"

definition username_ok :: "string \<Rightarrow> bool" where
  "username_ok s \<longleftrightarrow> 3 \<le> length s \<and> length s \<le> 254 \<and> list_all username_char s"

record setup_input =
  si_organization :: string
  si_owner :: string
  si_username :: string
  si_password :: string

definition validate_setup :: "setup_input \<Rightarrow> auth_error + unit" where
  "validate_setup i =
     andthen (check (2 \<le> length (si_organization i) \<and> length (si_organization i) \<le> 120) OrganizationNameLength) (\<lambda>_.
     andthen (check (2 \<le> length (si_owner i) \<and> length (si_owner i) \<le> 120) OwnerNameLength) (\<lambda>_.
     andthen (check (username_ok (si_username i)) UsernamePattern) (\<lambda>_.
     check (12 \<le> length (si_password i) \<and> length (si_password i) \<le> 1024) PasswordLength)))"

definition clean_setup :: "(string \<Rightarrow> string) \<Rightarrow> setup_input \<Rightarrow> setup_input" where
  "clean_setup lw i = i\<lparr>si_organization := trim_space (si_organization i), si_owner := trim_space (si_owner i),
     si_username := lw (trim_space (si_username i))\<rparr>"

text \<open>\<open>hash\<close> hashes a password with the salt that was drawn; \<open>user\<close> is the new identifier.\<close>

definition first_setup ::
  "(string \<Rightarrow> string) \<Rightarrow> (string \<Rightarrow> string) \<Rightarrow> (string \<Rightarrow> string) \<Rightarrow> duration \<Rightarrow> fresh \<Rightarrow> uuid \<Rightarrow> instant \<Rightarrow> setup_input \<Rightarrow>
   auth_db \<Rightarrow> (auth_error + issued) \<times> auth_db" where
  "first_setup lw hash digest ttl fr user now input db =
     (let i = clean_setup lw input
      in case validate_setup i of
        Inl e \<Rightarrow> (Inl e, db)
      | Inr _ \<Rightarrow>
          if au_users db \<noteq> [] then (Inl SetupComplete, db)
          else if au_organization db \<noteq> None \<or> \<not> (text_ok (si_organization i) \<and> text_ok (si_owner i)) then (Inl AuthConstraint, db)
          else let u = \<lparr>u_id = user, u_name = si_owner i, u_username = si_username i, u_password = hash (si_password i),
                     u_role = ''owner'', u_active = True, u_created = now, u_last_login = Some now\<rparr>
               in (case create_grant_session digest ttl fr now u None ''password'' False
                      (db\<lparr>au_organization := Some (si_organization i), au_users := [u],
                         au_content_all := au_content_all db @ [user], au_screens_all := au_screens_all db @ [user]\<rparr>) of
                     (Inl e, _) \<Rightarrow> (Inl e, db)
                   | (Inr s, db') \<Rightarrow> (Inr s, auth_record (Some user) ''organization.setup'' db')))"

definition setup_required :: "auth_db \<Rightarrow> bool" where
  "setup_required db \<longleftrightarrow> au_users db = []"

section \<open>Histories\<close>

record auth_env =
  ev_lw :: "string \<Rightarrow> string"
  ev_sql_lower :: "string \<Rightarrow> string"
  ev_hash :: "string \<Rightarrow> string \<Rightarrow> string"
  ev_verify :: "string \<Rightarrow> string \<Rightarrow> bool"
  ev_digest :: "string \<Rightarrow> string"
  ev_webauthn :: bool
  ev_ttl :: duration
  ev_policy :: mfa_policy

datatype auth_op =
    Login fresh instant string string
  | AnswerChallenge fresh instant string string
  | Authenticate instant string
  | Logout string uuid
  | IssueSession fresh instant uuid string bool
  | IssueGrantSession fresh instant uuid uuid string bool
  | RevokeSessions uuid
  | BeginTotp uuid bytes
  | ConfirmTotp uuid string instant
  | DisableTotp uuid string
  | RenewRecoveryCodes uuid "code_draw list"
  | ResetFactors uuid "uuid option"
  | EnrollmentSatisfied uuid
  | PurgeSessions instant
  | PurgeChallenges instant

definition answer :: "auth_env \<Rightarrow> fresh \<Rightarrow> instant \<Rightarrow> string \<Rightarrow> string \<Rightarrow> auth_db \<Rightarrow> (auth_error + issued) \<times> auth_db" where
  "answer v fr now token code db =
     complete_challenge (ev_verify v) (ev_digest v) (ev_ttl v) (ev_policy v) fr now token code db"

definition auth_step :: "auth_env \<Rightarrow> auth_op \<Rightarrow> auth_db \<Rightarrow> auth_db" where
  "auth_step v op db =
     (case op of
        Login fr now username password \<Rightarrow>
          snd (login (ev_lw v) (ev_sql_lower v) (ev_verify v) (ev_digest v) (ev_webauthn v) (ev_ttl v) (ev_policy v) fr now username password db)
      | AnswerChallenge fr now token code \<Rightarrow> snd (answer v fr now token code db)
      | Authenticate now token \<Rightarrow> snd (authenticate (ev_digest v) now token db)
      | Logout token user \<Rightarrow> logout (ev_digest v) token user db
      | IssueSession fr now user how pending \<Rightarrow> snd (issue_session (ev_digest v) (ev_ttl v) fr now user how pending db)
      | IssueGrantSession fr now user grant how pending \<Rightarrow>
          snd (issue_grant_session (ev_digest v) (ev_ttl v) fr now user grant how pending db)
      | RevokeSessions user \<Rightarrow> revoke_user_sessions user db
      | BeginTotp user secret \<Rightarrow> snd (begin_totp user secret db)
      | ConfirmTotp user code now \<Rightarrow> snd (confirm_totp user code now db)
      | DisableTotp user role \<Rightarrow> snd (disable_totp user (ev_policy v) role db)
      | RenewRecoveryCodes user draws \<Rightarrow> snd (generate_recovery_codes (ev_hash v) user draws db)
      | ResetFactors user actor \<Rightarrow> snd (reset_factors user actor db)
      | EnrollmentSatisfied user \<Rightarrow> mark_enrollment_satisfied user db
      | PurgeSessions now \<Rightarrow> purge_sessions now db
      | PurgeChallenges now \<Rightarrow> purge_challenges now db)"

text \<open>The random token of an operation that draws one.\<close>

fun drawn_token :: "auth_op \<Rightarrow> string option" where
  "drawn_token (Login fr now username password) = Some (fr_token fr)"
| "drawn_token (AnswerChallenge fr now token code) = Some (fr_token fr)"
| "drawn_token (IssueSession fr now user how pending) = Some (fr_token fr)"
| "drawn_token (IssueGrantSession fr now user grant how pending) = Some (fr_token fr)"
| "drawn_token _ = None"

definition draws :: "auth_env \<Rightarrow> string \<Rightarrow> auth_op \<Rightarrow> bool" where
  "draws v h op \<longleftrightarrow> (case drawn_token op of None \<Rightarrow> False | Some t \<Rightarrow> ev_digest v t = h)"

text \<open>The answers to the challenge with a given token, over a history.\<close>

fun answers :: "auth_env \<Rightarrow> string \<Rightarrow> auth_op list \<Rightarrow> auth_db \<Rightarrow> (auth_error + issued) list" where
  "answers v token [] db = []"
| "answers v token (op # ops) db =
     (case op of AnswerChallenge fr now t code \<Rightarrow> if t = token then [fst (answer v fr now t code db)] else [] | _ \<Rightarrow> [])
     @ answers v token ops (auth_step v op db)"

section \<open>Pieces of a step\<close>

named_theorems auth_frame

lemma create_session_frame [auth_frame]:
  assumes "create_grant_session digest ttl fr now u grant how pending db = (r, db')"
  shows "au_challenges db' = au_challenges db" "au_totp db' = au_totp db" "au_recovery db' = au_recovery db"
    "au_passkeys db' = au_passkeys db" "au_users db' = au_users db"
  using assms by (auto simp: create_grant_session_def split: if_splits)

lemma complete_login_frame [auth_frame]:
  assumes "complete_login digest ttl policy fr now u how db = (r, db')"
  shows "au_challenges db' = au_challenges db" "au_totp db' = au_totp db" "au_recovery db' = au_recovery db"
    "au_passkeys db' = au_passkeys db"
  using create_session_frame[OF assms[unfolded complete_login_def Let_def]] by simp_all

lemma consume_code_frame [auth_frame]:
  assumes "consume_code verify now user code db = (r, db')"
  shows "au_challenges db' = au_challenges db" "au_sessions db' = au_sessions db" "au_users db' = au_users db"
    "au_passkeys db' = au_passkeys db" "r = None \<Longrightarrow> db' = db"
  using assms by (auto simp: consume_code_def Let_def split: if_splits option.splits)

lemma load_challenge_Inr:
  assumes "load_challenge digest now token purpose db = (Inr c, db')"
  shows "db' = db" "c \<in> set (au_challenges db)" "ch_hash c = digest token" "ch_purpose c = purpose"
    "ch_attempts c < challenge_max_tries" "now < ch_expires c"
  using assms by (auto simp: load_challenge_def find_Some_iff split: if_splits option.splits)

text \<open>The challenges after an operation: fewer rows, a failed attempt counted, or a row for a drawn token.\<close>

inductive challenges_step :: "auth_env \<Rightarrow> auth_op \<Rightarrow> challenge_row list \<Rightarrow> challenge_row list \<Rightarrow> bool" for v op where
  fewer: "challenges_step v op cs (filter P cs)"
| failed: "challenges_step v op cs (map (\<lambda>c. if ch_id c = i then c\<lparr>ch_attempts := ch_attempts c + 1\<rparr> else c) cs)"
| opened: "draws v (ch_hash c) op \<Longrightarrow> ch_id c \<notin> ch_id ` set cs \<Longrightarrow> ch_hash c \<notin> ch_hash ` set cs \<Longrightarrow> challenges_step v op cs (cs @ [c])"

lemma challenges_same: "challenges_step v op cs cs"
  using fewer[of v op cs "\<lambda>_. True"] by simp

lemma login_challenges:
  "challenges_step v (Login fr now username password) (au_challenges db) (au_challenges (auth_step v (Login fr now username password) db))"
proof -
  obtain r db' where run: "login (ev_lw v) (ev_sql_lower v) (ev_verify v) (ev_digest v) (ev_webauthn v) (ev_ttl v) (ev_policy v)
      fr now username password db = (r, db')" by (cases "login (ev_lw v) (ev_sql_lower v) (ev_verify v) (ev_digest v) (ev_webauthn v) (ev_ttl v) (ev_policy v)
      fr now username password db")
  have "au_challenges db' = au_challenges db \<or> (\<exists>user. create_challenge (ev_digest v) fr now user ''login'' db = (Inr (fr_token fr), db'))"
    using run
    by (auto simp: login_def Let_def create_challenge_def dest: complete_login_frame(1) split: option.splits if_splits prod.splits sum.splits)
  then show ?thesis
  proof
    assume "au_challenges db' = au_challenges db"
    then show ?thesis using run by (simp add: auth_step_def challenges_same)
  next
    assume "\<exists>user. create_challenge (ev_digest v) fr now user ''login'' db = (Inr (fr_token fr), db')"
    then obtain c where "au_challenges db' = au_challenges db @ [c]" "ch_hash c = ev_digest v (fr_token fr)"
      "ch_id c \<notin> ch_id ` set (au_challenges db)" "ch_hash c \<notin> ch_hash ` set (au_challenges db)"
      by (fastforce simp: create_challenge_def list_ex_iff split: if_splits)
    then show ?thesis using run by (simp add: auth_step_def) (rule challenges_step.opened, simp_all add: draws_def)
  qed
qed

text \<open>The three ways in which an answer ends: refused, wrong, or used up together with its challenge.\<close>

lemma answer_cases:
  assumes "answer v fr now token code db = (r, db')"
  obtains
    (refused) e P where "r = Inl e" "e \<noteq> InvalidCode" "au_challenges db' = filter P (au_challenges db)"
      "au_sessions db' = au_sessions db" "au_totp db' = au_totp db" "au_recovery db' = au_recovery db" "au_passkeys db' = au_passkeys db"
  | (wrong) c where "r = Inl InvalidCode" "c \<in> set (au_challenges db)" "ch_hash c = ev_digest v token" "ch_attempts c < challenge_max_tries"
      "db' = fail_challenge (ch_id c) db"
  | (used) c u how db1 where "c \<in> set (au_challenges db)" "ch_hash c = ev_digest v token" "now < ch_expires c"
      "ch_user c = Some (u_id u)" "user_named db (u_id u) = Some u" "u_active u"
      "consume_code (ev_verify v) now (u_id u) code db = (Some how, db1)"
      "complete_login (ev_digest v) (ev_ttl v) (ev_policy v) fr now u how (delete_challenge (ch_id c) db1) = (r, db')"
proof -
  obtain l dbl where load: "load_challenge (ev_digest v) now token ''login'' db = (l, dbl)"
    by (cases "load_challenge (ev_digest v) now token ''login'' db")
  show ?thesis
  proof (cases l)
    case (Inl e)
    have "e \<noteq> InvalidCode \<and> (\<exists>P. dbl = db\<lparr>au_challenges := filter P (au_challenges db)\<rparr>)"
    proof -
      have same: "\<exists>P. d = d\<lparr>au_challenges := filter P (au_challenges d)\<rparr>" for d :: auth_db
        by (rule exI[of _ "\<lambda>_. True"]) simp
      with load Inl show ?thesis
        by (auto simp: load_challenge_def delete_challenge_def same split: if_splits option.splits)
    qed
    moreover have "(r, db') = (Inl e, dbl)" using assms load Inl by (simp add: answer_def complete_challenge_def)
    ultimately show ?thesis using refused by fastforce
  next
    case (Inr c)
    note c = load_challenge_Inr[OF load[unfolded Inr]]
    show ?thesis
    proof (cases "ch_user c")
      case None
      then have "(r, db') = (Inl InvalidChallenge, db)"
        using assms load Inr c(1) by (simp add: answer_def complete_challenge_def)
      then show ?thesis using refused[where P = "\<lambda>_. True"] by simp
    next
      case (Some user)
      show ?thesis
      proof (cases "load_user db user")
        case (Inl e)
        then have "(r, db') = (Inl e, db)" "e \<noteq> InvalidCode"
          using assms load Inr c(1) Some
          by (auto simp: answer_def complete_challenge_def load_user_def split: option.splits if_splits)
        then show ?thesis using refused[where P = "\<lambda>_. True"] by simp
      next
        case (Inr u)
        then have u: "user_named db user = Some u" "u_active u" "u_id u = user"
          by (auto simp: load_user_def user_named_def find_Some_iff split: option.splits if_splits)
        obtain m db1 where code: "consume_code (ev_verify v) now (u_id u) code db = (m, db1)"
          by (cases "consume_code (ev_verify v) now (u_id u) code db")
        show ?thesis
        proof (cases m)
          case None
          then have "(r, db') = (Inl InvalidCode, fail_challenge (ch_id c) db)"
            using assms load \<open>l = Inr c\<close> c(1) Some Inr code consume_code_frame(5)[OF code]
            by (simp add: answer_def complete_challenge_def)
          then show ?thesis using wrong c(2,3,5) by blast
        next
          case (Some how)
          then have "(r, db') = complete_login (ev_digest v) (ev_ttl v) (ev_policy v) fr now u how (delete_challenge (ch_id c) db1)"
            using assms load \<open>l = Inr c\<close> c(1) \<open>ch_user c = Some user\<close> Inr code
            by (simp add: answer_def complete_challenge_def)
          then show ?thesis
            using used[OF c(2,3,6) _ _ u(2)] u(1,3) \<open>ch_user c = Some user\<close> code Some by metis
        qed
      qed
    qed
  qed
qed

lemma answer_challenges:
  "challenges_step v (AnswerChallenge fr now token code) (au_challenges db) (au_challenges (auth_step v (AnswerChallenge fr now token code) db))"
proof -
  obtain r db' where run: "answer v fr now token code db = (r, db')" by (cases "answer v fr now token code db")
  have "challenges_step v (AnswerChallenge fr now token code) (au_challenges db) (au_challenges db')"
    using run
  proof (cases rule: answer_cases)
    case (refused e P)
    then show ?thesis by (simp add: challenges_step.fewer)
  next
    case (wrong c)
    then show ?thesis by (simp add: fail_challenge_def challenges_step.failed)
  next
    case (used c u how db1)
    have "au_challenges db' = filter (\<lambda>x. ch_id x \<noteq> ch_id c) (au_challenges db)"
      using complete_login_frame(1)[OF used(8)] consume_code_frame(1)[OF used(7)] by (simp add: delete_challenge_def)
    then show ?thesis by (simp add: challenges_step.fewer)
  qed
  with run show ?thesis by (simp add: auth_step_def)
qed

lemma auth_step_challenges: "challenges_step v op (au_challenges db) (au_challenges (auth_step v op db))"
proof (cases op)
  case (Login fr now username password)
  then show ?thesis using login_challenges by simp
next
  case (AnswerChallenge fr now token code)
  then show ?thesis using answer_challenges by simp
next
  case (IssueSession fr now user how pending)
  then have "au_challenges (auth_step v op db) = au_challenges db"
    by (auto simp: auth_step_def issue_session_def create_grant_session_def split: sum.split if_split)
  then show ?thesis by (simp add: challenges_same)
next
  case (IssueGrantSession fr now user grant how pending)
  then have "au_challenges (auth_step v op db) = au_challenges db"
    by (auto simp: auth_step_def issue_grant_session_def create_grant_session_def split: sum.split if_split prod.split)
  then show ?thesis by (simp add: challenges_same)
next
  case (Logout token user)
  then have "au_challenges (auth_step v op db) = au_challenges db"
    by (simp add: auth_step_def logout_def Let_def auth_record_def split: option.split)
  then show ?thesis by (simp add: challenges_same)
qed (auto simp: auth_step_def authenticate_def revoke_user_sessions_def begin_totp_def confirm_totp_def disable_totp_def Let_def
    generate_recovery_codes_def reset_factors_def auth_record_def mark_enrollment_satisfied_def purge_sessions_def purge_challenges_def
    challenges_same challenges_step.fewer split: option.split)

section \<open>Guessing codes\<close>

definition challenge_keys :: "challenge_row list \<Rightarrow> bool" where
  "challenge_keys cs \<longleftrightarrow> distinct (map ch_id cs) \<and> distinct (map ch_hash cs)"

definition tries_left :: "string \<Rightarrow> challenge_row list \<Rightarrow> nat" where
  "tries_left h cs = (case find (\<lambda>c. ch_hash c = h) cs of None \<Rightarrow> 0 | Some c \<Rightarrow> challenge_max_tries - ch_attempts c)"

lemma find_by_hash: "challenge_keys cs \<Longrightarrow> c \<in> set cs \<Longrightarrow> find (\<lambda>x. ch_hash x = ch_hash c) cs = Some c"
  by (induction cs) (auto simp: challenge_keys_def image_iff)

lemma tries_left_of: "challenge_keys cs \<Longrightarrow> c \<in> set cs \<Longrightarrow> tries_left (ch_hash c) cs = challenge_max_tries - ch_attempts c"
  by (simp add: tries_left_def find_by_hash)

lemma tries_left_absent: "h \<notin> ch_hash ` set cs \<Longrightarrow> tries_left h cs = 0"
  by (auto simp: tries_left_def find_Some_iff split: option.split)

lemma failed_maps:
  "map ch_id (map (\<lambda>c. if ch_id c = i then c\<lparr>ch_attempts := ch_attempts c + 1\<rparr> else c) cs) = map ch_id cs"
  "map ch_hash (map (\<lambda>c. if ch_id c = i then c\<lparr>ch_attempts := ch_attempts c + 1\<rparr> else c) cs) = map ch_hash cs"
  by (induction cs) auto

lemma challenges_step_keys: "challenges_step v op cs cs' \<Longrightarrow> challenge_keys cs \<Longrightarrow> challenge_keys cs'"
proof (induction rule: challenges_step.induct)
  case (fewer cs P)
  then show ?case by (simp add: challenge_keys_def distinct_map_filter)
next
  case (failed cs i)
  then show ?case by (simp only: challenge_keys_def failed_maps)
next
  case (opened c cs)
  then show ?case by (auto simp: challenge_keys_def)
qed

lemma challenges_step_tries:
  assumes "challenges_step v op cs cs'" "challenge_keys cs" "\<not> draws v h op"
  shows "tries_left h cs' \<le> tries_left h cs" "h \<notin> ch_hash ` set cs \<Longrightarrow> h \<notin> ch_hash ` set cs'"
proof -
  have hashes: "h \<notin> ch_hash ` set cs'" if absent: "h \<notin> ch_hash ` set cs"
    using assms(1)
  proof cases
    case (failed i)
    have "set (map ch_hash cs') = set (map ch_hash cs)" unfolding failed failed_maps ..
    then show ?thesis using absent unfolding set_map by blast
  next
    case (opened c)
    with assms(3) absent show ?thesis by auto
  qed (use absent in auto)
  show "h \<notin> ch_hash ` set cs \<Longrightarrow> h \<notin> ch_hash ` set cs'" by (rule hashes)
  show "tries_left h cs' \<le> tries_left h cs"
  proof (cases "h \<in> ch_hash ` set cs'")
    case False
    then show ?thesis by (simp add: tries_left_absent)
  next
    case True
    then obtain c' where c': "c' \<in> set cs'" "h = ch_hash c'" by blast
    have "\<exists>c\<in>set cs. ch_hash c = h \<and> ch_attempts c \<le> ch_attempts c'"
      using assms(1)
    proof cases
      case (opened c)
      with c' assms(3) show ?thesis by auto
    qed (use c' in \<open>auto split: if_splits\<close>)
    then obtain c where c: "c \<in> set cs" "ch_hash c = h" "ch_attempts c \<le> ch_attempts c'" by blast
    then show ?thesis
      using tries_left_of[OF assms(2) c(1)] tries_left_of[OF challenges_step_keys[OF assms(1,2)] c'(1)] c'(2) by simp
  qed
qed

definition wrong_answer :: "auth_error + issued \<Rightarrow> bool" where
  "wrong_answer r \<longleftrightarrow> (case r of Inl InvalidCode \<Rightarrow> True | _ \<Rightarrow> False)"

definition signed_in :: "auth_error + issued \<Rightarrow> bool" where
  "signed_in r \<longleftrightarrow> (case r of Inl _ \<Rightarrow> False | Inr _ \<Rightarrow> True)"

text \<open>What one answer does to the tries that are left for its token.\<close>

lemma answer_tries:
  assumes "answer v fr now token code db = (r, db')" "challenge_keys (au_challenges db)"
  shows "wrong_answer r \<Longrightarrow> tries_left (ev_digest v token) (au_challenges db') + 1 = tries_left (ev_digest v token) (au_challenges db)"
    "signed_in r \<Longrightarrow> ev_digest v token \<in> ch_hash ` set (au_challenges db) \<and> ev_digest v token \<notin> ch_hash ` set (au_challenges db')"
  using assms(1)
proof (atomize (full), cases rule: answer_cases)
  case (refused e P)
  then show "(wrong_answer r \<longrightarrow> tries_left (ev_digest v token) (au_challenges db') + 1 = tries_left (ev_digest v token) (au_challenges db))
    \<and> (signed_in r \<longrightarrow> ev_digest v token \<in> ch_hash ` set (au_challenges db) \<and> ev_digest v token \<notin> ch_hash ` set (au_challenges db'))"
    by (cases e) (simp_all add: wrong_answer_def signed_in_def)
next
  case (wrong c)
  let ?cs = "map (\<lambda>x. if ch_id x = ch_id c then x\<lparr>ch_attempts := ch_attempts x + 1\<rparr> else x) (au_challenges db)"
  have keys: "challenge_keys ?cs" using assms(2) by (simp only: challenge_keys_def failed_maps)
  have "c\<lparr>ch_attempts := ch_attempts c + 1\<rparr> \<in> set ?cs" using wrong(2) by force
  from tries_left_of[OF keys this] tries_left_of[OF assms(2) wrong(2)] wrong
  show "(wrong_answer r \<longrightarrow> tries_left (ev_digest v token) (au_challenges db') + 1 = tries_left (ev_digest v token) (au_challenges db))
    \<and> (signed_in r \<longrightarrow> ev_digest v token \<in> ch_hash ` set (au_challenges db) \<and> ev_digest v token \<notin> ch_hash ` set (au_challenges db'))"
    by (simp add: fail_challenge_def signed_in_def Suc_diff_Suc)
next
  case (used c u how db1)
  have left: "au_challenges db' = filter (\<lambda>x. ch_id x \<noteq> ch_id c) (au_challenges db)"
    using complete_login_frame(1)[OF used(8)] consume_code_frame(1)[OF used(7)] by (simp add: delete_challenge_def)
  have only: "ch_id x = ch_id c" if "x \<in> set (au_challenges db)" "ch_hash x = ev_digest v token" for x
    using that used(1,2) assms(2) by (auto simp: challenge_keys_def distinct_map inj_on_def)
  have "ev_digest v token \<in> ch_hash ` set (au_challenges db)" using used(1,2) by (metis imageI)
  moreover have "ev_digest v token \<notin> ch_hash ` set (au_challenges db')"
  proof
    assume "ev_digest v token \<in> ch_hash ` set (au_challenges db')"
    then obtain x where "x \<in> set (au_challenges db)" "ch_id x \<noteq> ch_id c" "ch_hash x = ev_digest v token" unfolding left by auto
    with only[of x] show False by simp
  qed
  moreover have "\<not> wrong_answer r"
    using used(8) by (auto simp: complete_login_def create_grant_session_def Let_def wrong_answer_def split: if_splits)
  ultimately show "(wrong_answer r \<longrightarrow> tries_left (ev_digest v token) (au_challenges db') + 1 = tries_left (ev_digest v token) (au_challenges db))
    \<and> (signed_in r \<longrightarrow> ev_digest v token \<in> ch_hash ` set (au_challenges db) \<and> ev_digest v token \<notin> ch_hash ` set (au_challenges db'))"
    by simp
qed

text \<open>C10. Whatever requests follow each other, at most five wrong codes are heard for one challenge, and at most one
  right one: after that the token is worthless. No operation may draw a token with the same hash again.\<close>

theorem guesses_bounded:
  assumes "challenge_keys (au_challenges db)" "\<forall>op\<in>set ops. \<not> draws v (ev_digest v token) op"
  shows "length (filter wrong_answer (answers v token ops db)) \<le> 5 \<and> length (filter signed_in (answers v token ops db)) \<le> 1"
proof -
  let ?h = "ev_digest v token"
  have "length (filter wrong_answer (answers v token ops db)) \<le> tries_left ?h (au_challenges db)
    \<and> length (filter signed_in (answers v token ops db)) \<le> (if ?h \<in> ch_hash ` set (au_challenges db) then 1 else 0)"
    using assms
  proof (induction ops arbitrary: db)
    case (Cons op ops)
    let ?db = "auth_step v op db"
    have step: "challenges_step v op (au_challenges db) (au_challenges ?db)" by (rule auth_step_challenges)
    have fresh: "\<not> draws v ?h op" using Cons.prems(2) by simp
    note keys = challenges_step_keys[OF step Cons.prems(1)] and tries = challenges_step_tries[OF step Cons.prems(1) fresh]
    have IH: "length (filter wrong_answer (answers v token ops ?db)) \<le> tries_left ?h (au_challenges ?db)"
      "length (filter signed_in (answers v token ops ?db)) \<le> (if ?h \<in> ch_hash ` set (au_challenges ?db) then 1 else 0)"
      using Cons.IH[OF keys] Cons.prems(2) by simp_all
    show ?case
    proof (cases "\<exists>fr now code. op = AnswerChallenge fr now token code")
      case True
      then obtain fr now code where op: "op = AnswerChallenge fr now token code" by blast
      obtain r db' where r: "answer v fr now token code db = (r, db')" by (cases "answer v fr now token code db")
      have db': "?db = db'" by (simp add: op auth_step_def r)
      have list: "answers v token (op # ops) db = r # answers v token ops db'" by (simp add: op r auth_step_def)
      have "\<not> (wrong_answer r \<and> signed_in r)" by (auto simp: wrong_answer_def signed_in_def split: sum.splits)
      with answer_tries[OF r Cons.prems(1)] IH tries show ?thesis
        unfolding list db' by (cases "wrong_answer r"; cases "signed_in r") (auto split: if_splits)
    next
      case False
      then have "answers v token (op # ops) db = answers v token ops ?db" by (cases op) auto
      with IH tries show ?thesis by (auto split: if_splits)
    qed
  qed simp
  moreover have "tries_left ?h (au_challenges db) \<le> 5" by (simp add: tries_left_def challenge_max_tries_def split: option.split)
  ultimately show ?thesis by (auto split: if_splits)
qed

section \<open>Sessions that have ended\<close>

definition same_session :: "session_row \<Rightarrow> session_row \<Rightarrow> bool" where
  "same_session s s' \<longleftrightarrow> se_id s' = se_id s \<and> se_user s' = se_user s \<and> se_hash s' = se_hash s \<and> se_method s' = se_method s
     \<and> se_expires s' = se_expires s \<and> se_grant s' = se_grant s"

text \<open>The sessions after an operation: rows that were there, and at most one that it drew a token for.\<close>

definition opens_session :: "auth_env \<Rightarrow> auth_op \<Rightarrow> auth_db \<Rightarrow> session_row \<Rightarrow> bool" where
  "opens_session v op db s \<longleftrightarrow> draws v (se_hash s) op \<and>
     (case op of
        Login fr now username password \<Rightarrow> se_method s = ''password'' \<and> \<not> fs_enrolled (factors db (se_user s))
          \<and> (\<exists>u\<in>set (au_users db). u_id u = se_user s \<and> u_active u \<and> ev_verify v (u_password u) password)
      | AnswerChallenge fr now token code \<Rightarrow>
          (\<exists>db1. consume_code (ev_verify v) now (se_user s) code db = (Some (se_method s), db1))
      | IssueSession fr now user how pending \<Rightarrow> se_user s = user
      | IssueGrantSession fr now user grant how pending \<Rightarrow> se_user s = user
      | _ \<Rightarrow> False)"

definition sessions_from :: "auth_env \<Rightarrow> auth_op \<Rightarrow> auth_db \<Rightarrow> session_row list \<Rightarrow> bool" where
  "sessions_from v op db ss \<longleftrightarrow> (\<forall>s'\<in>set ss. (\<exists>s\<in>set (au_sessions db). same_session s s') \<or> opens_session v op db s')"

lemma same_session_refl: "same_session s s"
  by (simp add: same_session_def)

lemma create_session_rows:
  assumes "create_grant_session digest ttl fr now u grant how pending db = (r, db')" "s' \<in> set (au_sessions db')"
  shows "s' \<in> set (au_sessions db) \<or> (se_hash s' = digest (fr_token fr) \<and> se_user s' = u_id u \<and> se_method s' = how)"
  using assms by (auto simp: create_grant_session_def split: if_splits)

lemma complete_login_rows:
  assumes "complete_login digest ttl policy fr now u how db = (r, db')" "s' \<in> set (au_sessions db')"
  shows "s' \<in> set (au_sessions db) \<or> (se_hash s' = digest (fr_token fr) \<and> se_user s' = u_id u \<and> se_method s' = how)"
  using create_session_rows[OF assms(1)[unfolded complete_login_def Let_def] assms(2)] by simp

lemma sessions_fewer: "set ss \<subseteq> set (au_sessions db) \<Longrightarrow> sessions_from v op db ss"
  by (auto simp: sessions_from_def intro: same_session_refl)

lemma find_SomeD: "find P xs = Some x \<Longrightarrow> x \<in> set xs \<and> P x"
  by (auto simp: find_Some_iff)

lemma login_sessions: "sessions_from v (Login fr now username password) db (au_sessions (auth_step v (Login fr now username password) db))"
proof -
  let ?login = "login (ev_lw v) (ev_sql_lower v) (ev_verify v) (ev_digest v) (ev_webauthn v) (ev_ttl v) (ev_policy v) fr now username password db"
  obtain r db' where run: "?login = (r, db')" by (cases ?login)
  consider "au_sessions db' = au_sessions db"
    | u r' where "u \<in> set (au_users db)" "ev_verify v (u_password u) password" "u_active u" "\<not> fs_enrolled (factors db (u_id u))"
      "complete_login (ev_digest v) (ev_ttl v) (ev_policy v) fr now u ''password'' db = (r', db')"
    using run
    by (auto simp: login_def Let_def create_challenge_def find_login_def dest!: find_SomeD
        split: option.splits if_splits prod.splits sum.splits)
  then have "sessions_from v (Login fr now username password) db (au_sessions db')"
  proof cases
    case 1
    then show ?thesis by (simp add: sessions_fewer)
  next
    case 2
    from complete_login_rows[OF 2(5)] 2(1-4) show ?thesis
      by (fastforce simp: sessions_from_def opens_session_def draws_def intro: same_session_refl)
  qed
  with run show ?thesis by (simp add: auth_step_def)
qed

lemma answer_sessions:
  "sessions_from v (AnswerChallenge fr now token code) db (au_sessions (auth_step v (AnswerChallenge fr now token code) db))"
proof -
  obtain r db' where run: "answer v fr now token code db = (r, db')" by (cases "answer v fr now token code db")
  have "sessions_from v (AnswerChallenge fr now token code) db (au_sessions db')"
    using run
  proof (cases rule: answer_cases)
    case (refused e P)
    then show ?thesis by (simp add: sessions_fewer)
  next
    case (wrong c)
    then show ?thesis by (simp add: sessions_fewer fail_challenge_def)
  next
    case (used c u how db1)
    have "au_sessions (delete_challenge (ch_id c) db1) = au_sessions db"
      using consume_code_frame(2)[OF used(7)] by (simp add: delete_challenge_def)
    with complete_login_rows[OF used(8)] used(7) show ?thesis
      by (fastforce simp: sessions_from_def opens_session_def draws_def intro: same_session_refl)
  qed
  with run show ?thesis by (simp add: auth_step_def)
qed

lemma issue_sessions:
  "sessions_from v (IssueSession fr now user how pending) db (au_sessions (auth_step v (IssueSession fr now user how pending) db))"
proof -
  let ?run = "issue_session (ev_digest v) (ev_ttl v) fr now user how pending db"
  have "(s' \<in> set (au_sessions db) \<or> (se_hash s' = ev_digest v (fr_token fr) \<and> se_user s' = user))"
    if "s' \<in> set (au_sessions (snd ?run))" for s'
    using that
    by (auto simp: issue_session_def session_user_def user_named_def create_grant_session_def find_Some_iff
        split: option.splits if_splits sum.splits)
  then show ?thesis
    by (fastforce simp: auth_step_def sessions_from_def opens_session_def draws_def intro: same_session_refl)
qed

lemma issue_grant_sessions:
  "sessions_from v (IssueGrantSession fr now user grant how pending) db
     (au_sessions (auth_step v (IssueGrantSession fr now user grant how pending) db))"
proof -
  let ?run = "issue_grant_session (ev_digest v) (ev_ttl v) fr now user grant how pending db"
  have "(s' \<in> set (au_sessions db) \<or> (se_hash s' = ev_digest v (fr_token fr) \<and> se_user s' = user))"
    if "s' \<in> set (au_sessions (snd ?run))" for s'
    using that
    by (auto simp: issue_grant_session_def session_user_def user_named_def create_grant_session_def find_Some_iff
        split: option.splits if_splits sum.splits prod.splits)
  then show ?thesis
    by (fastforce simp: auth_step_def sessions_from_def opens_session_def draws_def intro: same_session_refl)
qed

lemma mapped_sessions:
  "(\<And>s. same_session s (h s)) \<Longrightarrow> sessions_from v op db (map h (au_sessions db))"
  by (auto simp: sessions_from_def)

lemma auth_step_sessions: "sessions_from v op db (au_sessions (auth_step v op db))"
proof (cases op)
  case (Authenticate now token)
  then show ?thesis
    by (auto simp: auth_step_def authenticate_def sessions_fewer same_session_def intro!: mapped_sessions split: option.split if_split)
next
  case (EnrollmentSatisfied user)
  then show ?thesis
    by (auto simp: auth_step_def mark_enrollment_satisfied_def same_session_def intro!: mapped_sessions)
next
  case (Logout token user)
  then show ?thesis
    by (auto simp: auth_step_def logout_def Let_def auth_record_def intro!: sessions_fewer split: option.split if_split)
qed (auto simp: auth_step_def begin_totp_def confirm_totp_def disable_totp_def Let_def generate_recovery_codes_def reset_factors_def
    revoke_user_sessions_def auth_record_def purge_sessions_def purge_challenges_def login_sessions answer_sessions issue_sessions
    issue_grant_sessions sessions_fewer login_sessions[unfolded auth_step_def, simplified] answer_sessions[unfolded auth_step_def, simplified]
    issue_sessions[unfolded auth_step_def, simplified] issue_grant_sessions[unfolded auth_step_def, simplified] split: option.split)

lemma absent_stays_absent:
  assumes "h \<notin> se_hash ` set (au_sessions db)" "\<not> draws v h op"
  shows "h \<notin> se_hash ` set (au_sessions (auth_step v op db))"
proof
  assume "h \<in> se_hash ` set (au_sessions (auth_step v op db))"
  then obtain s' where s': "s' \<in> set (au_sessions (auth_step v op db))" "se_hash s' = h" by blast
  with auth_step_sessions[of v op db] have "(\<exists>s\<in>set (au_sessions db). same_session s s') \<or> opens_session v op db s'"
    by (simp add: sessions_from_def)
  with s' assms show False by (auto simp: same_session_def opens_session_def image_iff)
qed

lemma absent_stays_absent_history:
  "h \<notin> se_hash ` set (au_sessions db) \<Longrightarrow> \<forall>op\<in>set ops. \<not> draws v h op \<Longrightarrow>
   h \<notin> se_hash ` set (au_sessions (fold (auth_step v) ops db))"
  by (induction ops arbitrary: db) (simp_all add: absent_stays_absent)

text \<open>C21. A session that has been ended, by signing out or because every session of the account was revoked or its
  factors were reset, is not authenticated again at any later time, whatever happens, unless a new token of the same
  hash is drawn.\<close>

theorem ended_session_stays_out:
  assumes "distinct (map se_hash (au_sessions db))" "fst (authenticate (ev_digest v) now token db) = Inr s"
    "ending \<in> {Logout token caller, RevokeSessions (u_id (is_user s)), ResetFactors (u_id (is_user s)) actor}"
    "\<forall>op\<in>set ops. \<not> draws v (ev_digest v token) op"
  shows "fst (authenticate (ev_digest v) later token (fold (auth_step v) ops (auth_step v ending db))) = Inl Unauthenticated"
proof -
  let ?h = "ev_digest v token"
  from assms(2) obtain r u where "find (\<lambda>s. se_hash s = ?h \<and> session_live db now s \<and> user_named db (se_user s) \<noteq> None) (au_sessions db) = Some r"
    "user_named db (se_user r) = Some u" "is_user s = u"
    by (auto simp: authenticate_def split: if_splits option.splits)
  then have r: "r \<in> set (au_sessions db)" "se_hash r = ?h" "se_user r = u_id (is_user s)"
    by (auto simp: user_named_def dest!: find_SomeD)
  have only: "x = r" if "x \<in> set (au_sessions db)" "se_hash x = ?h" for x
    using that r(1,2) assms(1) by (auto simp: distinct_map inj_on_def)
  have "?h \<notin> se_hash ` set (au_sessions (auth_step v ending db))"
  proof -
    have "ending = Logout token caller \<or> ending = RevokeSessions (se_user r) \<or> ending = ResetFactors (se_user r) actor"
      using assms(3) r(3) by auto
    then have "set (au_sessions (auth_step v ending db)) \<subseteq> {x \<in> set (au_sessions db). se_hash x \<noteq> ?h \<or> se_user x \<noteq> se_user r}"
      by (auto simp: auth_step_def logout_def Let_def auth_record_def revoke_user_sessions_def reset_factors_def
          split: option.splits if_splits)
    then show ?thesis using only by auto
  qed
  then have "?h \<notin> se_hash ` set (au_sessions (fold (auth_step v) ops (auth_step v ending db)))"
    using assms(4) by (rule absent_stays_absent_history)
  then have "find (\<lambda>s. se_hash s = ?h \<and> P s) (au_sessions (fold (auth_step v) ops (auth_step v ending db))) = None" for P
    by (auto simp: find_None_iff image_iff)
  then show ?thesis by (simp add: authenticate_def)
qed

section \<open>Accounts with a second factor\<close>

fun removes_factors :: "uuid \<Rightarrow> auth_op \<Rightarrow> bool" where
  "removes_factors user (DisableTotp u role) = (u = user)"
| "removes_factors user (ResetFactors u actor) = (u = user)"
| "removes_factors user _ = False"

fun issues_for :: "uuid \<Rightarrow> auth_op \<Rightarrow> bool" where
  "issues_for user (IssueSession fr now u how pending) = (u = user)"
| "issues_for user (IssueGrantSession fr now u grant how pending) = (u = user)"
| "issues_for user _ = False"

lemma enrolled_iff:
  "fs_enrolled (factors db user) \<longleftrightarrow>
     (\<exists>t\<in>set (au_totp db). tf_user t = user \<and> tf_confirmed t \<noteq> None) \<or> user \<in> fst ` set (au_passkeys db)"
proof -
  have "confirmed_totp db user \<noteq> None \<longleftrightarrow> (\<exists>t\<in>set (au_totp db). tf_user t = user \<and> tf_confirmed t \<noteq> None)"
    by (auto simp: confirmed_totp_def find_None_iff simp del: not_None_eq)
  moreover have "map snd (filter (\<lambda>(u, k). u = user) (au_passkeys db)) \<noteq> [] \<longleftrightarrow> user \<in> fst ` set (au_passkeys db)"
    by (force simp: filter_empty_conv)
  ultimately show ?thesis by (simp add: factors_def Let_def)
qed

text \<open>What may happen to the rows of factors: confirmed rows stay confirmed, passkeys stay.\<close>

definition factors_kept :: "uuid \<Rightarrow> auth_db \<Rightarrow> auth_db \<Rightarrow> bool" where
  "factors_kept user db db' \<longleftrightarrow> (\<forall>t\<in>set (au_totp db). tf_user t = user \<and> tf_confirmed t \<noteq> None \<longrightarrow>
       (\<exists>t'\<in>set (au_totp db'). tf_user t' = user \<and> tf_confirmed t' \<noteq> None))
     \<and> (user \<in> fst ` set (au_passkeys db) \<longrightarrow> user \<in> fst ` set (au_passkeys db'))"

lemma factors_kept_enrolled: "factors_kept user db db' \<Longrightarrow> fs_enrolled (factors db user) \<Longrightarrow> fs_enrolled (factors db' user)"
  unfolding enrolled_iff factors_kept_def by blast

lemma factors_kept_rows:
  "au_totp db' = au_totp db \<Longrightarrow> au_passkeys db' = au_passkeys db \<Longrightarrow> factors_kept user db db'"
  by (auto simp: factors_kept_def)

lemma factors_kept_map:
  "au_totp db' = map h (au_totp db) \<Longrightarrow> (\<And>t. tf_user (h t) = tf_user t \<and> (tf_confirmed t \<noteq> None \<longrightarrow> tf_confirmed (h t) \<noteq> None)) \<Longrightarrow>
   au_passkeys db' = au_passkeys db \<Longrightarrow> factors_kept user db db'"
  by (auto simp: factors_kept_def)

lemma consume_code_methods:
  "consume_code verify now user code db = (Some how, db') \<Longrightarrow> how = ''totp'' \<or> how = ''recovery_code''"
  by (auto simp: consume_code_def Let_def split: if_splits option.splits)

lemma consume_code_factors: "consume_code verify now u code db = (r, db') \<Longrightarrow> factors_kept user db db'"
  unfolding consume_code_def Let_def
  by (auto intro: factors_kept_rows split: if_splits option.splits)
    (rule factors_kept_map[of _ "\<lambda>r. if tf_user r = u then r\<lparr>tf_last_step := Some step\<rparr> else r" for step], auto)+

lemma auth_step_factors:
  assumes "\<not> removes_factors user op"
  shows "factors_kept user db (auth_step v op db)"
proof (cases op)
  case (Login fr now username password)
  let ?login = "login (ev_lw v) (ev_sql_lower v) (ev_verify v) (ev_digest v) (ev_webauthn v) (ev_ttl v) (ev_policy v) fr now username password db"
  obtain r db' where run: "?login = (r, db')" by (cases ?login)
  then have "au_totp db' = au_totp db \<and> au_passkeys db' = au_passkeys db"
    by (auto simp: login_def Let_def create_challenge_def dest: complete_login_frame
        split: option.splits if_splits prod.splits sum.splits)
  with run Login show ?thesis by (auto simp: auth_step_def intro: factors_kept_rows)
next
  case (AnswerChallenge fr now token code)
  obtain r db' where run: "answer v fr now token code db = (r, db')" by (cases "answer v fr now token code db")
  have "factors_kept user db db'"
    using run
  proof (cases rule: answer_cases)
    case (refused e P)
    then show ?thesis by (simp add: factors_kept_rows)
  next
    case (wrong c)
    then show ?thesis by (simp add: factors_kept_rows fail_challenge_def)
  next
    case (used c u how db1)
    from consume_code_factors[OF used(7)] complete_login_frame(2,4)[OF used(8)] show ?thesis
      by (simp add: factors_kept_def delete_challenge_def)
  qed
  with run AnswerChallenge show ?thesis by (simp add: auth_step_def)
next
  case (Authenticate now token)
  then show ?thesis
    by (auto simp: auth_step_def authenticate_def intro!: factors_kept_rows split: option.split)
next
  case (Logout token caller)
  then show ?thesis
    by (auto simp: auth_step_def logout_def Let_def auth_record_def intro!: factors_kept_rows split: option.split)
next
  case (IssueSession fr now u how pending)
  then show ?thesis
    by (auto simp: auth_step_def issue_session_def create_grant_session_def intro!: factors_kept_rows split: sum.split)
next
  case (IssueGrantSession fr now u grant how pending)
  then show ?thesis
    by (auto simp: auth_step_def issue_grant_session_def create_grant_session_def intro!: factors_kept_rows split: sum.split prod.split)
next
  case (BeginTotp u secret)
  show ?thesis
  proof (cases "find (\<lambda>t. tf_user t = u) (au_totp db)")
    case None
    then show ?thesis using BeginTotp by (auto simp: auth_step_def begin_totp_def factors_kept_def)
  next
    case (Some t)
    show ?thesis
      using BeginTotp Some by (cases "tf_confirmed t = None")
        (auto simp: auth_step_def begin_totp_def factors_kept_rows
          intro!: factors_kept_map[of _ "\<lambda>r. if tf_user r = u then r\<lparr>tf_secret := secret, tf_last_step := None\<rparr> else r"])
  qed
next
  case (ConfirmTotp u code now)
  have confirmed: "factors_kept user db (db\<lparr>au_totp := map (\<lambda>r. if tf_user r = u then r\<lparr>tf_confirmed := Some now, tf_last_step := st\<rparr> else r)
      (au_totp db), au_audit := a\<rparr>)" for st a
    by (rule factors_kept_map[of _ "\<lambda>r. if tf_user r = u then r\<lparr>tf_confirmed := Some now, tf_last_step := st\<rparr> else r"]) auto
  have same: "factors_kept user db db" by (simp add: factors_kept_rows)
  from ConfirmTotp show ?thesis
    by (auto simp: auth_step_def confirm_totp_def auth_record_def confirmed same split: option.split)
next
  case (DisableTotp u role)
  with assms show ?thesis
    by (auto simp: auth_step_def disable_totp_def Let_def auth_record_def factors_kept_def)
next
  case (ResetFactors u actor)
  with assms show ?thesis
    by (force simp: auth_step_def reset_factors_def auth_record_def revoke_user_sessions_def factors_kept_def)
qed (auto simp: auth_step_def revoke_user_sessions_def generate_recovery_codes_def auth_record_def mark_enrollment_satisfied_def
    purge_sessions_def purge_challenges_def intro!: factors_kept_rows)


section \<open>Witnesses\<close>

definition demo_env :: auth_env where
  "demo_env = \<lparr>ev_lw = id, ev_sql_lower = id, ev_hash = (\<lambda>salt p. p), ev_verify = (=), ev_digest = id, ev_webauthn = False, ev_ttl = hour,
     ev_policy = PolicyAdministrators\<rparr>"

definition demo_user :: user_row where
  "demo_user = \<lparr>u_id = UUID ''ana'', u_name = ''Ana'', u_username = ''ana'', u_password = ''pw'', u_role = ''owner'', u_active = True,
     u_created = 0, u_last_login = None\<rparr>"

definition demo_db :: auth_db where
  "demo_db = \<lparr>au_users = [demo_user],
     au_totp = [\<lparr>tf_user = UUID ''ana'', tf_secret = [1, 2, 3], tf_confirmed = Some 0, tf_last_step = None\<rparr>], au_passkeys = [],
     au_recovery = [\<lparr>rc_id = UUID ''r'', rc_user = UUID ''ana'', rc_hash = ''abcd'', rc_used = False\<rparr>],
     au_challenges = [\<lparr>ch_id = UUID ''c'', ch_user = Some (UUID ''ana''), ch_hash = ''tok'', ch_purpose = ''login'', ch_attempts = 0,
       ch_expires = hour\<rparr>],
     au_sessions = [\<lparr>se_id = UUID ''s'', se_user = UUID ''ana'', se_hash = ''cookie'', se_csrf = ''x'', se_expires = hour,
       se_method = ''password'', se_pending = False, se_grant = None, se_seen = 0\<rparr>],
     au_grants = [], au_organization = Some ''Org'', au_content_all = [], au_screens_all = [], au_audit = []\<rparr>"

definition demo_fresh :: fresh where
  "demo_fresh = \<lparr>fr_id = UUID ''n'', fr_token = ''new'', fr_csrf = ''y''\<rparr>"

lemmas demo_defs = demo_env_def demo_user_def demo_db_def demo_fresh_def

definition demo_ops :: "auth_op list" where
  "demo_ops = replicate 3 (AnswerChallenge demo_fresh 1 ''tok'' ''nope'') @ [AnswerChallenge demo_fresh 1 ''tok'' ''ABCD'',
     AnswerChallenge demo_fresh 1 ''tok'' ''ABCD'']"

lemma guesses_bounded_witness:
  "length (filter wrong_answer (answers demo_env ''tok'' demo_ops demo_db)) \<le> 5 \<and>
   length (filter signed_in (answers demo_env ''tok'' demo_ops demo_db)) \<le> 1"
proof -
  have "challenge_keys (au_challenges demo_db)" by code_simp
  moreover have "\<forall>op\<in>set demo_ops. \<not> draws demo_env (ev_digest demo_env ''tok'') op" by code_simp
  ultimately show ?thesis using guesses_bounded[of demo_db demo_ops demo_env "''tok''"] by blast
qed

lemma ended_session_stays_out_witness:
  "fst (authenticate (ev_digest demo_env) 2 ''cookie''
     (fold (auth_step demo_env) demo_ops (auth_step demo_env (RevokeSessions (UUID ''ana'')) demo_db))) = Inl Unauthenticated"
proof -
  have "distinct (map se_hash (au_sessions demo_db))" by code_simp
  moreover obtain s where s: "fst (authenticate (ev_digest demo_env) 1 ''cookie'' demo_db) = Inr s" "u_id (is_user s) = UUID ''ana''"
    by (simp add: authenticate_def demo_defs session_live_def user_named_def hour_def minute_def second_def)
  moreover have "\<forall>op\<in>set demo_ops. \<not> draws demo_env (ev_digest demo_env ''cookie'') op" by code_simp
  ultimately show ?thesis
    using ended_session_stays_out[of demo_db demo_env 1 "''cookie''" s "RevokeSessions (UUID ''ana'')" "UUID ''ana''" None demo_ops 2] by simp
qed


end
