(* ===== verification/Editorial.thy ===== *)
theory Editorial
  imports GoValues Roles
begin

text \<open>
  The editorial workflow (\<open>approvals/approvals.go\<close>, \<open>editorial/provider.go\<close>): a draft is frozen into a submission,
  reviewed, and published, now or at a time. The services that own the content implement \<open>editorial.Provider\<close>; they
  are a record of functions on the state of the content (\<open>'s\<close>) and its documents (\<open>'d\<close>), as the interface is. A
  transaction that fails leaves the tables alone, so an operation returns an error or a result with the new tables.
  New identifiers and the clock are arguments. The text that explains an error to the reader is not modelled.
\<close>

section \<open>Settings\<close>

datatype setting = SettingText string | SettingBool bool | OtherSetting

text \<open>The document of the organization, or that it could not be read.\<close>

type_synonym settings_doc = "(string \<times> setting) list option"

datatype review_policy = PolicyOff | PolicyContributors | PolicyEveryone

definition review_policy_of :: "settings_doc \<Rightarrow> review_policy" where
  "review_policy_of doc =
     (case doc of
        None \<Rightarrow> PolicyOff
      | Some vs \<Rightarrow>
          let old = (if map_of vs ''content.approval_required'' = Some (SettingBool True) then PolicyEveryone else PolicyOff)
          in case map_of vs ''content.review_policy'' of
               Some (SettingText v) \<Rightarrow>
                 if v = ''contributors'' then PolicyContributors
                 else if v = ''everyone'' then PolicyEveryone
                 else if v = ''off'' then PolicyOff
                 else old
             | _ \<Rightarrow> old)"

definition review_enabled :: "settings_doc \<Rightarrow> bool" where
  "review_enabled doc \<longleftrightarrow> review_policy_of doc \<noteq> PolicyOff"

definition allow_self_approval :: "settings_doc \<Rightarrow> bool" where
  "allow_self_approval doc =
     (case doc of
        None \<Rightarrow> True
      | Some vs \<Rightarrow> (case map_of vs ''content.allow_self_approval'' of Some (SettingBool b) \<Rightarrow> b | _ \<Rightarrow> True))"

definition auto_publish_on_approval :: "settings_doc \<Rightarrow> bool" where
  "auto_publish_on_approval doc =
     (case doc of
        None \<Rightarrow> False
      | Some vs \<Rightarrow> (case map_of vs ''content.auto_publish_on_approval'' of Some (SettingBool b) \<Rightarrow> b | _ \<Rightarrow> False))"

section \<open>Authority\<close>

datatype content_kind = TypePlaylist | TypeLayout | TypeCampaign | OtherType string

definition edit_capability :: "content_kind \<Rightarrow> capability_key" where
  "edit_capability k = (case k of TypeCampaign \<Rightarrow> ''campaign.edit'' | TypeLayout \<Rightarrow> ''layout.edit'' | _ \<Rightarrow> ''playlist.edit'')"

definition publish_capability :: "content_kind \<Rightarrow> capability_key" where
  "publish_capability k =
     (case k of TypeCampaign \<Rightarrow> ''campaign.publish'' | TypeLayout \<Rightarrow> ''layout.publish'' | _ \<Rightarrow> ''playlist.publish'')"

type_synonym authority = "capability_key set"

definition review_required_for :: "review_policy \<Rightarrow> authority \<Rightarrow> content_kind \<Rightarrow> bool" where
  "review_required_for p a k \<longleftrightarrow> p = PolicyEveryone \<or> (p = PolicyContributors \<and> publish_capability k \<notin> a)"

definition can_publish_any :: "authority \<Rightarrow> bool" where
  "can_publish_any a \<longleftrightarrow> ''playlist.publish'' \<in> a \<or> ''layout.publish'' \<in> a \<or> ''campaign.publish'' \<in> a"

definition can_review :: "authority \<Rightarrow> bool" where
  "can_review a \<longleftrightarrow> ''content.review'' \<in> a"

definition can_author :: "content_kind \<Rightarrow> authority \<Rightarrow> bool" where
  "can_author k a \<longleftrightarrow> edit_capability k \<in> a"

definition can_publish :: "content_kind \<Rightarrow> authority \<Rightarrow> bool" where
  "can_publish k a \<longleftrightarrow> publish_capability k \<in> a"

section \<open>Providers\<close>

datatype provider_error = ContentMissing | InvalidDocument string | ProviderFailure string

record 'd content_snapshot =
  sn_working :: int
  sn_published :: "int option"
  sn_published_id :: "uuid option"
  sn_document :: 'd
  sn_digest :: string

record published =
  pu_revision :: int
  pu_revision_id :: "uuid option"
  pu_screens :: nat

text \<open>The identifiers drawn for one transaction.\<close>

record drawn_ids =
  di_submission :: uuid
  di_publication :: uuid
  di_native :: uuid
  di_items :: "nat \<Rightarrow> uuid"

record ('s, 'd) provider =
  pv_snapshot :: "uuid \<Rightarrow> 's \<Rightarrow> provider_error + 'd content_snapshot \<times> 's"
  pv_validate :: "uuid \<Rightarrow> 'd \<Rightarrow> 's \<Rightarrow> provider_error + unit"
  pv_publish :: "(uuid \<Rightarrow> int \<Rightarrow> bool) \<Rightarrow> uuid \<Rightarrow> uuid \<Rightarrow> 'd \<Rightarrow> int \<Rightarrow> uuid \<Rightarrow> 's \<Rightarrow> provider_error + published \<times> 's"
  pv_restore :: "uuid \<Rightarrow> 'd \<Rightarrow> uuid \<Rightarrow> 's \<Rightarrow> provider_error + 's"

text \<open>
  What the workflow reads of the content itself: the providers, whether a draft is there to be locked, the current
  runtime revision, the stored revisions and the releases of campaigns, and the digest of a document.
\<close>

record ('s, 'd) content_store =
  cs_provider :: "content_kind \<Rightarrow> ('s, 'd) provider option"
  cs_draft :: "content_kind \<Rightarrow> uuid \<Rightarrow> 's \<Rightarrow> bool"
  cs_current :: "content_kind \<Rightarrow> uuid \<Rightarrow> 's \<Rightarrow> int option"
  cs_native :: "(nat \<Rightarrow> uuid) \<Rightarrow> content_kind \<Rightarrow> uuid \<Rightarrow> 's \<Rightarrow> 'd option"
  cs_release :: "uuid \<Rightarrow> 's \<Rightarrow> 'd option"
  cs_digest :: "'d \<Rightarrow> string"

section \<open>Tables\<close>

datatype submission_status =
  InReview | ChangesRequested | Approved | Scheduled | Published | Superseded | Cancelled | PublicationFailed

datatype edit_error =
    EditNotFound | NotApproved | ReviewRequired
  | RoleMayNot | InvalidContent provider_error | UnknownContentType | SelfApproval | NoteRequired | NotInFuture | RevisionSeen
  | DraftChanged | ActiveSubmission | NotAwaiting | OnlyApproved | NotScheduled | OtherContent
  | ProviderError provider_error | EditConstraint

record 'd submission =
  sb_id :: uuid
  sb_kind :: content_kind
  sb_content :: uuid
  sb_working :: int
  sb_document :: 'd
  sb_digest :: string
  sb_by :: "uuid option"
  sb_at :: instant
  sb_based :: "int option"
  sb_based_id :: "uuid option"
  sb_status :: submission_status
  sb_review :: bool
  sb_self :: bool
  sb_note :: string
  sb_reviewer :: "uuid option"
  sb_reviewed_at :: "instant option"
  sb_requested :: "instant option"
  sb_failure :: "edit_error option"
  sb_published_at :: "instant option"

record publication =
  pb_id :: uuid
  pb_kind :: content_kind
  pb_content :: uuid
  pb_revision :: int
  pb_native :: "uuid option"
  pb_submission :: "uuid option"
  pb_release :: "uuid option"
  pb_by :: "uuid option"
  pb_at :: instant
  pb_supersedes :: "uuid option"
  pb_method :: string
  pb_screens :: nat
  pb_digest :: "string option"

record review =
  rw_id :: uuid
  rw_kind :: content_kind
  rw_content :: uuid
  rw_revision :: int
  rw_approved :: bool
  rw_note :: string
  rw_by :: "uuid option"
  rw_at :: instant

record ('s, 'd) editorial_db =
  ed_submissions :: "'d submission list"
  ed_history :: "publication list"
  ed_reviews :: "review list"
  ed_audit :: "(uuid \<times> string \<times> content_kind \<times> uuid) list"
  ed_users :: "uuid list"
  ed_content :: 's

definition active_status :: "submission_status \<Rightarrow> bool" where
  "active_status s \<longleftrightarrow> s \<in> {InReview, Approved, Scheduled}"

definition active_submission :: "'d submission list \<Rightarrow> content_kind \<Rightarrow> uuid \<Rightarrow> bool" where
  "active_submission ss k i \<longleftrightarrow> list_ex (\<lambda>b. sb_kind b = k \<and> sb_content b = i \<and> active_status (sb_status b)) ss"

definition sha_hex :: "string \<Rightarrow> bool" where
  "sha_hex s \<longleftrightarrow> length s = 64 \<and> list_all (\<lambda>c. c \<in> set ''0123456789abcdef'') s"

text \<open>\<open>INSERT INTO content_submissions\<close> with the constraints of the table and its unique index on active rows.\<close>

definition insert_submission :: "'d submission \<Rightarrow> ('s, 'd) editorial_db \<Rightarrow> edit_error + ('s, 'd) editorial_db" where
  "insert_submission b db =
     andthen (check (sb_id b \<notin> sb_id ` set (ed_submissions db) \<and> 0 < sb_working b \<and> sha_hex (sb_digest b)
         \<and> (case sb_kind b of OtherType _ \<Rightarrow> False | _ \<Rightarrow> True)
         \<and> (case sb_by b of None \<Rightarrow> True | Some u \<Rightarrow> u \<in> set (ed_users db))
         \<and> \<not> (active_status (sb_status b) \<and> active_submission (ed_submissions db) (sb_kind b) (sb_content b))) EditConstraint) (\<lambda>_.
     Inr (db\<lparr>ed_submissions := ed_submissions db @ [b]\<rparr>))"

definition update_submission ::
  "uuid \<Rightarrow> ('d submission \<Rightarrow> 'd submission) \<Rightarrow> ('s, 'd) editorial_db \<Rightarrow> ('s, 'd) editorial_db" where
  "update_submission i f db = db\<lparr>ed_submissions := map (\<lambda>b. if sb_id b = i then f b else b) (ed_submissions db)\<rparr>"

definition scan_submission :: "('s, 'd) editorial_db \<Rightarrow> uuid \<Rightarrow> edit_error + 'd submission" where
  "scan_submission db i = (case find (\<lambda>b. sb_id b = i) (ed_submissions db) of None \<Rightarrow> Inl EditNotFound | Some b \<Rightarrow> Inr b)"

definition audit_edit :: "uuid \<Rightarrow> string \<Rightarrow> content_kind \<Rightarrow> uuid \<Rightarrow> ('s, 'd) editorial_db \<Rightarrow> edit_error + ('s, 'd) editorial_db" where
  "audit_edit user action k i db =
     andthen (check (user \<in> set (ed_users db)) EditConstraint) (\<lambda>_. Inr (db\<lparr>ed_audit := ed_audit db @ [(user, action, k, i)]\<rparr>))"

definition provider_of :: "('s, 'd) content_store \<Rightarrow> content_kind \<Rightarrow> edit_error + ('s, 'd) provider" where
  "provider_of cs k = (case cs_provider cs k of None \<Rightarrow> Inl EditNotFound | Some p \<Rightarrow> Inr p)"

definition lock_draft :: "('s, 'd) content_store \<Rightarrow> content_kind \<Rightarrow> uuid \<Rightarrow> ('s, 'd) editorial_db \<Rightarrow> edit_error + unit" where
  "lock_draft cs k i db =
     (case k of OtherType _ \<Rightarrow> Inl UnknownContentType | _ \<Rightarrow> check (cs_draft cs k i (ed_content db)) EditNotFound)"

text \<open>An error of a provider is passed on, except that of a validation, which is wrapped.\<close>

definition provided :: "provider_error + 'a \<Rightarrow> edit_error + 'a" where
  "provided r = (case r of Inl e \<Rightarrow> Inl (ProviderError e) | Inr x \<Rightarrow> Inr x)"

definition validated :: "provider_error + 'a \<Rightarrow> edit_error + 'a" where
  "validated r = (case r of Inl e \<Rightarrow> Inl (InvalidContent e) | Inr x \<Rightarrow> Inr x)"

lemma provided_Inr [simp]: "provided r = Inr x \<longleftrightarrow> r = Inr x"
  by (auto simp: provided_def split: sum.splits)

lemma validated_Inr [simp]: "validated r = Inr x \<longleftrightarrow> r = Inr x"
  by (auto simp: validated_def split: sum.splits)

section \<open>Publication\<close>

text \<open>The latest publication: \<open>ORDER BY published_at DESC, id DESC LIMIT 1\<close>.\<close>

definition latest_publication :: "publication list \<Rightarrow> content_kind \<Rightarrow> uuid \<Rightarrow> uuid option" where
  "latest_publication ps k i =
     (case sort_by (\<lambda>a b. (pb_at b, pb_id b) < (pb_at a, pb_id a)) (filter (\<lambda>p. pb_kind p = k \<and> pb_content p = i) ps) of
        [] \<Rightarrow> None
      | p # _ \<Rightarrow> Some (pb_id p))"

definition insert_publication :: "publication \<Rightarrow> ('s, 'd) editorial_db \<Rightarrow> edit_error + ('s, 'd) editorial_db" where
  "insert_publication p db =
     andthen (check (pb_id p \<notin> pb_id ` set (ed_history db) \<and> 0 < pb_revision p
         \<and> (case pb_by p of None \<Rightarrow> True | Some u \<Rightarrow> u \<in> set (ed_users db))) EditConstraint) (\<lambda>_.
     Inr (db\<lparr>ed_history := ed_history db @ [p]\<rparr>))"

text \<open>Every other submission of the content that is not final makes way.\<close>

definition supersede_others :: "content_kind \<Rightarrow> uuid \<Rightarrow> uuid \<Rightarrow> ('s, 'd) editorial_db \<Rightarrow> ('s, 'd) editorial_db" where
  "supersede_others k i keep db =
     db\<lparr>ed_submissions := map (\<lambda>b. if sb_kind b = k \<and> sb_content b = i \<and> sb_id b \<noteq> keep
          \<and> sb_status b \<in> {InReview, ChangesRequested, Approved, Scheduled} then b\<lparr>sb_status := Superseded\<rparr> else b) (ed_submissions db)\<rparr>"

definition publication_row ::
  "drawn_ids \<Rightarrow> instant \<Rightarrow> uuid \<Rightarrow> string \<Rightarrow> 'd submission \<Rightarrow> published \<Rightarrow> publication list \<Rightarrow> publication" where
  "publication_row ids now user how b p past =
     \<lparr>pb_id = di_publication ids, pb_kind = sb_kind b, pb_content = sb_content b, pb_revision = pu_revision p,
      pb_native = pu_revision_id p, pb_submission = Some (sb_id b),
      pb_release = (if sb_kind b = TypeCampaign then pu_revision_id p else None), pb_by = Some user, pb_at = now,
      pb_supersedes = latest_publication past (sb_kind b) (sb_content b), pb_method = how,
      pb_screens = pu_screens p, pb_digest = Some (sb_digest b)\<rparr>"

text \<open>A stored revision that the history names, or whose number an unpublished submission was taken at, is not trimmed.\<close>

definition cited_revision :: "('s, 'd) editorial_db \<Rightarrow> content_kind \<Rightarrow> uuid \<Rightarrow> uuid \<Rightarrow> int \<Rightarrow> bool" where
  "cited_revision db k i rid n \<longleftrightarrow>
     list_ex (\<lambda>h. pb_native h = Some rid) (ed_history db)
     \<or> list_ex (\<lambda>b. sb_kind b = k \<and> sb_content b = i \<and> sb_working b = n
         \<and> sb_status b \<in> {InReview, ChangesRequested, Approved, Scheduled}) (ed_submissions db)"

text \<open>A submission becomes the runtime content: validated again, published by the provider, recorded.\<close>

definition publish_locked ::
  "('s, 'd) provider \<Rightarrow> drawn_ids \<Rightarrow> instant \<Rightarrow> uuid \<Rightarrow> uuid \<Rightarrow> string \<Rightarrow> bool \<Rightarrow> ('s, 'd) editorial_db \<Rightarrow>
   edit_error + published \<times> ('s, 'd) editorial_db" where
  "publish_locked pv ids now i user how preserve_draft db =
     andthen (scan_submission db i) (\<lambda>b.
     andthen (validated (pv_validate pv (sb_content b) (sb_document b) (ed_content db))) (\<lambda>_.
     andthen (provided (pv_publish pv (cited_revision db (sb_kind b) (sb_content b)) (di_native ids) (sb_content b) (sb_document b)
         (if preserve_draft then 0 else sb_working b) user (ed_content db))) (\<lambda>(p, s).
     andthen (insert_publication (publication_row ids now user how b p (ed_history db)) (db\<lparr>ed_content := s\<rparr>)) (\<lambda>db1.
     Inr (p, supersede_others (sb_kind b) (sb_content b) i
       (update_submission i (\<lambda>x. x\<lparr>sb_status := Published, sb_published_at := Some now, sb_requested := None, sb_failure := None\<rparr>) db1))))))"

definition content_published_action :: "content_kind \<Rightarrow> string" where
  "content_published_action k =
     (case k of TypePlaylist \<Rightarrow> ''playlist.published'' | TypeLayout \<Rightarrow> ''layout.published'' | TypeCampaign \<Rightarrow> ''campaign.published''
      | OtherType _ \<Rightarrow> ''content.published'')"

definition rollback_published_action :: "content_kind \<Rightarrow> string" where
  "rollback_published_action k =
     (case k of TypePlaylist \<Rightarrow> ''playlist.rolled_back'' | TypeLayout \<Rightarrow> ''layout.rolled_back'' | TypeCampaign \<Rightarrow> ''campaign.rolled_back''
      | OtherType _ \<Rightarrow> ''content.published'')"

section \<open>Operations\<close>

definition fresh_submission ::
  "drawn_ids \<Rightarrow> instant \<Rightarrow> content_kind \<Rightarrow> uuid \<Rightarrow> 'd content_snapshot \<Rightarrow> uuid \<Rightarrow> submission_status \<Rightarrow> bool \<Rightarrow> bool \<Rightarrow> instant option \<Rightarrow> 'd submission" where
  "fresh_submission ids now k i sn user status review self requested =
     \<lparr>sb_id = di_submission ids, sb_kind = k, sb_content = i, sb_working = sn_working sn, sb_document = sn_document sn,
      sb_digest = sn_digest sn, sb_by = Some user, sb_at = now, sb_based = sn_published sn, sb_based_id = sn_published_id sn,
      sb_status = status, sb_review = review, sb_self = self, sb_note = [], sb_reviewer = None, sb_reviewed_at = None,
      sb_requested = requested, sb_failure = None, sb_published_at = None\<rparr>"

text \<open>The draft as the provider gives it, if it is the expected one and valid.\<close>

definition take_snapshot ::
  "('s, 'd) provider \<Rightarrow> uuid \<Rightarrow> int \<Rightarrow> ('s, 'd) editorial_db \<Rightarrow> edit_error + 'd content_snapshot \<times> ('s, 'd) editorial_db" where
  "take_snapshot pv i expected db =
     andthen (provided (pv_snapshot pv i (ed_content db))) (\<lambda>(sn, s).
     andthen (check (\<not> (0 < expected \<and> sn_working sn \<noteq> expected)) DraftChanged) (\<lambda>_.
     andthen (validated (pv_validate pv i (sn_document sn) s)) (\<lambda>_.
     Inr (sn, db\<lparr>ed_content := s\<rparr>))))"

definition submit ::
  "('s, 'd) content_store \<Rightarrow> settings_doc \<Rightarrow> drawn_ids \<Rightarrow> instant \<Rightarrow> uuid \<Rightarrow> authority \<Rightarrow> content_kind \<Rightarrow> uuid \<Rightarrow> instant option \<Rightarrow> int \<Rightarrow>
   ('s, 'd) editorial_db \<Rightarrow> edit_error + 'd submission \<times> ('s, 'd) editorial_db" where
  "submit cs doc ids now user a k i requested expected db =
     andthen (check (can_author k a) RoleMayNot) (\<lambda>_.
     andthen (provider_of cs k) (\<lambda>pv.
     andthen (take_snapshot pv i expected db) (\<lambda>(sn, db1).
     andthen (lock_draft cs k i db1) (\<lambda>_.
     andthen (check (\<not> active_submission (ed_submissions db1) k i) ActiveSubmission) (\<lambda>_.
     let review = review_required_for (review_policy_of doc) a k;
         db2 = db1\<lparr>ed_submissions := map (\<lambda>b. if sb_kind b = k \<and> sb_content b = i \<and> sb_status b = ChangesRequested
           then b\<lparr>sb_status := Superseded\<rparr> else b) (ed_submissions db1)\<rparr>;
         b = fresh_submission ids now k i sn user (if review then InReview else Approved) review (allow_self_approval doc) requested
     in andthen (insert_submission b db2) (\<lambda>db3.
        andthen (audit_edit user ''content.submitted'' k i db3) (\<lambda>db4. Inr (b, db4))))))))"

definition submit_and_publish ::
  "('s, 'd) content_store \<Rightarrow> settings_doc \<Rightarrow> drawn_ids \<Rightarrow> instant \<Rightarrow> uuid \<Rightarrow> authority \<Rightarrow> content_kind \<Rightarrow> uuid \<Rightarrow> int \<Rightarrow>
   ('s, 'd) editorial_db \<Rightarrow> edit_error + published \<times> ('s, 'd) editorial_db" where
  "submit_and_publish cs doc ids now user a k i expected db =
     andthen (check (can_publish k a) RoleMayNot) (\<lambda>_.
     andthen (check (\<not> review_required_for (review_policy_of doc) a k) ReviewRequired) (\<lambda>_.
     andthen (provider_of cs k) (\<lambda>pv.
     andthen (take_snapshot pv i expected db) (\<lambda>(sn, db1).
     andthen (insert_submission (fresh_submission ids now k i sn user Approved False (allow_self_approval doc) None) db1) (\<lambda>db2.
     andthen (publish_locked pv ids now (di_submission ids) user ''manual'' False db2) (\<lambda>(p, db3).
     andthen (audit_edit user (content_published_action k) k i db3) (\<lambda>db4. Inr (p, db4))))))))"

definition approve ::
  "('s, 'd) content_store \<Rightarrow> settings_doc \<Rightarrow> drawn_ids \<Rightarrow> instant \<Rightarrow> uuid \<Rightarrow> authority \<Rightarrow> uuid \<Rightarrow> string \<Rightarrow>
   ('s, 'd) editorial_db \<Rightarrow> edit_error + published option \<times> ('s, 'd) editorial_db" where
  "approve cs doc ids now reviewer a i note db =
     andthen (check (can_review a) RoleMayNot) (\<lambda>_.
     andthen (scan_submission db i) (\<lambda>b.
     andthen (check (sb_status b = InReview) NotAwaiting) (\<lambda>_.
     andthen (check (\<not> (\<not> sb_self b \<and> sb_by b = Some reviewer)) SelfApproval) (\<lambda>_.
     andthen (provider_of cs (sb_kind b)) (\<lambda>pv.
     let auto = (auto_publish_on_approval doc \<and> can_publish (sb_kind b) a);
         later = (if auto then (case sb_requested b of Some t \<Rightarrow> now < t | None \<Rightarrow> False) else False);
         db1 = update_submission i (\<lambda>x. x\<lparr>sb_status := (if later then Scheduled else Approved), sb_note := trim_space note,
           sb_reviewer := Some reviewer, sb_reviewed_at := Some now\<rparr>) db
     in andthen (check (reviewer \<in> set (ed_users db)) EditConstraint) (\<lambda>_.
        andthen (audit_edit reviewer ''content.review_approved'' (sb_kind b) (sb_content b) db1) (\<lambda>db2.
        if auto \<and> \<not> later
        then andthen (publish_locked pv ids now i reviewer ''automatic_after_approval'' False db2) (\<lambda>(p, db3). Inr (Some p, db3))
        else Inr (None, db2))))))))"

definition request_changes ::
  "instant \<Rightarrow> uuid \<Rightarrow> authority \<Rightarrow> uuid \<Rightarrow> string \<Rightarrow> ('s, 'd) editorial_db \<Rightarrow> edit_error + ('s, 'd) editorial_db" where
  "request_changes now reviewer a i note db =
     andthen (check (can_review a) RoleMayNot) (\<lambda>_.
     andthen (check (trim_space note \<noteq> []) NoteRequired) (\<lambda>_.
     andthen (scan_submission db i) (\<lambda>b.
     andthen (check (sb_status b = InReview) NotAwaiting) (\<lambda>_.
     andthen (check (reviewer \<in> set (ed_users db)) EditConstraint) (\<lambda>_.
     audit_edit reviewer ''content.changes_requested'' (sb_kind b) (sb_content b)
       (update_submission i (\<lambda>x. x\<lparr>sb_status := ChangesRequested, sb_note := trim_space note, sb_reviewer := Some reviewer,
          sb_reviewed_at := Some now\<rparr>) db))))))"

definition schedule_publication ::
  "instant \<Rightarrow> uuid \<Rightarrow> authority \<Rightarrow> uuid \<Rightarrow> instant \<Rightarrow> ('s, 'd) editorial_db \<Rightarrow> edit_error + ('s, 'd) editorial_db" where
  "schedule_publication now user a i at db =
     andthen (check (can_publish_any a) RoleMayNot) (\<lambda>_.
     andthen (check (now < at) NotInFuture) (\<lambda>_.
     andthen (scan_submission db i) (\<lambda>b.
     andthen (check (can_publish (sb_kind b) a) RoleMayNot) (\<lambda>_.
     andthen (check (sb_status b = Approved) OnlyApproved) (\<lambda>_.
     audit_edit user ''content.publication_scheduled'' (sb_kind b) (sb_content b)
       (update_submission i (\<lambda>x. x\<lparr>sb_status := Scheduled, sb_requested := Some at, sb_failure := None\<rparr>) db))))))"

definition cancel_schedule ::
  "uuid \<Rightarrow> authority \<Rightarrow> uuid \<Rightarrow> ('s, 'd) editorial_db \<Rightarrow> edit_error + ('s, 'd) editorial_db" where
  "cancel_schedule user a i db =
     andthen (check (can_publish_any a) RoleMayNot) (\<lambda>_.
     andthen (scan_submission db i) (\<lambda>b.
     andthen (check (can_publish (sb_kind b) a) RoleMayNot) (\<lambda>_.
     andthen (check (sb_status b = Scheduled) NotScheduled) (\<lambda>_.
     audit_edit user ''content.publication_cancelled'' (sb_kind b) (sb_content b)
       (update_submission i (\<lambda>x. x\<lparr>sb_status := Approved, sb_requested := None\<rparr>) db)))))"

definition publish_submission ::
  "('s, 'd) content_store \<Rightarrow> drawn_ids \<Rightarrow> instant \<Rightarrow> uuid \<Rightarrow> authority \<Rightarrow> uuid \<Rightarrow>
   ('s, 'd) editorial_db \<Rightarrow> edit_error + published \<times> ('s, 'd) editorial_db" where
  "publish_submission cs ids now user a i db =
     andthen (check (can_publish_any a) RoleMayNot) (\<lambda>_.
     andthen (scan_submission db i) (\<lambda>b.
     andthen (check (sb_status b = Approved \<or> sb_status b = Scheduled) ReviewRequired) (\<lambda>_.
     andthen (check (\<not> (sb_review b \<and> \<not> can_publish (sb_kind b) a)) RoleMayNot) (\<lambda>_.
     andthen (provider_of cs (sb_kind b)) (\<lambda>pv.
     andthen (publish_locked pv ids now i user ''manual'' False db) (\<lambda>(p, db1).
     andthen (audit_edit user (content_published_action (sb_kind b)) (sb_kind b) (sb_content b) db1) (\<lambda>db2. Inr (p, db2))))))))"

text \<open>The account a scheduled publication is attributed to: the reviewer, else the author, else the nil identifier.\<close>

definition scheduled_publisher :: "'d submission \<Rightarrow> uuid" where
  "scheduled_publisher b =
     (case sb_reviewer b of Some u \<Rightarrow> u | None \<Rightarrow> (case sb_by b of Some u \<Rightarrow> u | None \<Rightarrow> uuid_nil))"

definition publish_scheduled ::
  "('s, 'd) content_store \<Rightarrow> drawn_ids \<Rightarrow> instant \<Rightarrow> uuid \<Rightarrow> ('s, 'd) editorial_db \<Rightarrow> edit_error + ('s, 'd) editorial_db" where
  "publish_scheduled cs ids now i db =
     andthen (scan_submission db i) (\<lambda>b.
     if sb_status b \<noteq> Scheduled \<or> (case sb_requested b of None \<Rightarrow> True | Some t \<Rightarrow> now < t) then Inr db
     else andthen (provider_of cs (sb_kind b)) (\<lambda>pv.
       andthen (publish_locked pv ids now i (scheduled_publisher b) ''scheduled'' False db) (\<lambda>(p, db1).
       audit_edit (scheduled_publisher b) (content_published_action (sb_kind b)) (sb_kind b) (sb_content b) db1)))"

definition due_submissions :: "instant \<Rightarrow> 'd submission list \<Rightarrow> uuid list" where
  "due_submissions now ss =
     take 50 (map snd (sort_by (<) (map (\<lambda>b. (the (sb_requested b), sb_id b))
       (filter (\<lambda>b. sb_status b = Scheduled \<and> (case sb_requested b of None \<Rightarrow> False | Some t \<Rightarrow> t \<le> now)) ss))))"

text \<open>A due submission that cannot be published is marked as failed, with the reason.\<close>

definition reconcile_one ::
  "('s, 'd) content_store \<Rightarrow> instant \<Rightarrow> uuid \<times> drawn_ids \<Rightarrow> ('s, 'd) editorial_db \<Rightarrow> ('s, 'd) editorial_db" where
  "reconcile_one cs now d db =
     (case publish_scheduled cs (snd d) now (fst d) db of
        Inr db' \<Rightarrow> db'
      | Inl e \<Rightarrow> update_submission (fst d)
          (\<lambda>b. if sb_status b = Scheduled then b\<lparr>sb_status := PublicationFailed, sb_failure := Some e\<rparr> else b) db)"

definition reconcile_scheduled ::
  "('s, 'd) content_store \<Rightarrow> (uuid \<Rightarrow> drawn_ids) \<Rightarrow> instant \<Rightarrow> ('s, 'd) editorial_db \<Rightarrow> ('s, 'd) editorial_db" where
  "reconcile_scheduled cs draw now db =
     fold (\<lambda>i. reconcile_one cs now (i, draw i)) (due_submissions now (ed_submissions db)) db"

section \<open>Earlier publications\<close>

text \<open>The document a publication stands for: of its submission, its campaign release, or its native revision.\<close>

definition publication_document ::
  "('s, 'd) content_store \<Rightarrow> (nat \<Rightarrow> uuid) \<Rightarrow> content_kind \<Rightarrow> publication \<Rightarrow> ('s, 'd) editorial_db \<Rightarrow> edit_error + 'd" where
  "publication_document cs fresh k p db =
     (let native = (case pb_native p of
            None \<Rightarrow> Inl EditNotFound
          | Some n \<Rightarrow> (case cs_native cs fresh k n (ed_content db) of None \<Rightarrow> Inl EditNotFound | Some d \<Rightarrow> Inr d));
          released = (case pb_release p of
            None \<Rightarrow> native
          | Some r \<Rightarrow> (case cs_release cs r (ed_content db) of None \<Rightarrow> native | Some d \<Rightarrow> Inr d))
      in case pb_submission p of
           None \<Rightarrow> released
         | Some i \<Rightarrow> (case find (\<lambda>b. sb_id b = i) (ed_submissions db) of None \<Rightarrow> released | Some b \<Rightarrow> Inr (sb_document b)))"

definition publication_of ::
  "('s, 'd) editorial_db \<Rightarrow> content_kind \<Rightarrow> uuid \<Rightarrow> uuid \<Rightarrow> edit_error + publication" where
  "publication_of db k i pub =
     (case find (\<lambda>p. pb_id p = pub) (ed_history db) of
        None \<Rightarrow> Inl EditNotFound
      | Some p \<Rightarrow> andthen (check (pb_kind p = k \<and> pb_content p = i) OtherContent) (\<lambda>_. Inr p))"

definition rollback_row ::
  "drawn_ids \<Rightarrow> instant \<Rightarrow> content_kind \<Rightarrow> uuid \<Rightarrow> 'd content_snapshot \<Rightarrow> uuid \<Rightarrow> bool \<Rightarrow> bool \<Rightarrow> uuid \<Rightarrow> 'd submission" where
  "rollback_row ids now k i sn user review self pub =
     (fresh_submission ids now k i sn user (if review then InReview else Approved) review self None)
       \<lparr>sb_note := ''Rollback requested from publication '' @ uuid_string pub\<rparr>"

definition finish_rollback ::
  "('s, 'd) provider \<Rightarrow> drawn_ids \<Rightarrow> instant \<Rightarrow> uuid \<Rightarrow> content_kind \<Rightarrow> uuid \<Rightarrow> bool \<Rightarrow> ('s, 'd) editorial_db \<Rightarrow>
   edit_error + published option \<times> ('s, 'd) editorial_db" where
  "finish_rollback pv ids now user k i review db =
     (if review then andthen (audit_edit user ''content.rollback_submitted'' k i db) (\<lambda>db1. Inr (None, db1))
      else andthen (publish_locked pv ids now (di_submission ids) user ''rollback'' True db) (\<lambda>(q, db1).
           andthen (audit_edit user (rollback_published_action k) k i db1) (\<lambda>db2. Inr (Some q, db2))))"

definition rollback ::
  "('s, 'd) content_store \<Rightarrow> settings_doc \<Rightarrow> drawn_ids \<Rightarrow> instant \<Rightarrow> uuid \<Rightarrow> authority \<Rightarrow> content_kind \<Rightarrow> uuid \<Rightarrow> uuid \<Rightarrow>
   ('s, 'd) editorial_db \<Rightarrow> edit_error + published option \<times> ('s, 'd) editorial_db" where
  "rollback cs doc ids now user a k i pub db =
     andthen (check (can_publish k a) RoleMayNot) (\<lambda>_.
     andthen (provider_of cs k) (\<lambda>pv.
     andthen (publication_of db k i pub) (\<lambda>p.
     andthen (publication_document cs (di_items ids) k p db) (\<lambda>d.
     andthen (provided (pv_snapshot pv i (ed_content db))) (\<lambda>(current, s).
     let db1 = db\<lparr>ed_content := s\<rparr>
     in andthen (validated (pv_validate pv i d s)) (\<lambda>_.
        andthen (lock_draft cs k i db1) (\<lambda>_.
        andthen (check (\<not> active_submission (ed_submissions db1) k i) ActiveSubmission) (\<lambda>_.
        let digest = (case pb_digest p of Some g \<Rightarrow> if g = [] then cs_digest cs d else g | None \<Rightarrow> cs_digest cs d);
            review = review_required_for (review_policy_of doc) a k;
            b = rollback_row ids now k i (current\<lparr>sn_document := d, sn_digest := digest\<rparr>) user review (allow_self_approval doc) pub
        in andthen (insert_submission b db1) (\<lambda>db2.
           finish_rollback pv ids now user k i review db2)))))))))"

definition restore_publication ::
  "('s, 'd) content_store \<Rightarrow> (nat \<Rightarrow> uuid) \<Rightarrow> uuid \<Rightarrow> authority \<Rightarrow> content_kind \<Rightarrow> uuid \<Rightarrow> uuid \<Rightarrow>
   ('s, 'd) editorial_db \<Rightarrow> edit_error + ('s, 'd) editorial_db" where
  "restore_publication cs fresh user a k i pub db =
     andthen (check (can_author k a) RoleMayNot) (\<lambda>_.
     andthen (provider_of cs k) (\<lambda>pv.
     andthen (publication_of db k i pub) (\<lambda>p.
     andthen (lock_draft cs k i db) (\<lambda>_.
     andthen (publication_document cs fresh k p db) (\<lambda>d.
     andthen (validated (pv_validate pv i d (ed_content db))) (\<lambda>_.
     andthen (provided (pv_restore pv i d user (ed_content db))) (\<lambda>s.
     audit_edit user ''content.version_restored_to_draft'' k i (db\<lparr>ed_content := s\<rparr>))))))))"

section \<open>The gate on assignments\<close>

definition current_revision :: "('s, 'd) content_store \<Rightarrow> content_kind \<Rightarrow> uuid \<Rightarrow> ('s, 'd) editorial_db \<Rightarrow> edit_error + int" where
  "current_revision cs k i db =
     (case k of
        TypePlaylist \<Rightarrow> (case cs_current cs k i (ed_content db) of None \<Rightarrow> Inl EditNotFound | Some r \<Rightarrow> Inr r)
      | TypeLayout \<Rightarrow> (case cs_current cs k i (ed_content db) of None \<Rightarrow> Inl EditNotFound | Some r \<Rightarrow> Inr r)
      | _ \<Rightarrow> Inl UnknownContentType)"

definition revision_approved :: "('s, 'd) editorial_db \<Rightarrow> content_kind \<Rightarrow> uuid \<Rightarrow> int \<Rightarrow> bool" where
  "revision_approved db k i r \<longleftrightarrow>
     list_ex (\<lambda>p. pb_kind p = k \<and> pb_content p = i \<and> pb_revision p = r) (ed_history db)
     \<or> list_ex (\<lambda>w. rw_kind w = k \<and> rw_content w = i \<and> rw_revision w = r \<and> rw_approved w) (ed_reviews db)"

definition gate :: "('s, 'd) content_store \<Rightarrow> settings_doc \<Rightarrow> content_kind \<Rightarrow> uuid \<Rightarrow> ('s, 'd) editorial_db \<Rightarrow> edit_error + unit" where
  "gate cs doc k i db =
     (if \<not> review_enabled doc then Inr ()
      else case current_revision cs k i db of
        Inl EditNotFound \<Rightarrow> Inr ()
      | Inl e \<Rightarrow> Inl e
      | Inr r \<Rightarrow> check (revision_approved db k i r) NotApproved)"

text \<open>The older way to review: a decision on the current revision, with no submission.\<close>

definition review_row :: "uuid \<Rightarrow> instant \<Rightarrow> uuid \<Rightarrow> content_kind \<Rightarrow> uuid \<Rightarrow> int \<Rightarrow> bool \<Rightarrow> string \<Rightarrow> review" where
  "review_row new now reviewer k i r yes note =
     \<lparr>rw_id = new, rw_kind = k, rw_content = i, rw_revision = r, rw_approved = yes, rw_note = trim_space note,
      rw_by = Some reviewer, rw_at = now\<rparr>"

text \<open>\<open>ON CONFLICT (content_type, content_id, content_revision) DO UPDATE\<close>.\<close>

definition upsert_review :: "review \<Rightarrow> review list \<Rightarrow> edit_error + review list" where
  "upsert_review w rs =
     (let same = (\<lambda>x. rw_kind x = rw_kind w \<and> rw_content x = rw_content w \<and> rw_revision x = rw_revision w)
      in if list_ex same rs then Inr (map (\<lambda>x. if same x then w\<lparr>rw_id := rw_id x\<rparr> else x) rs)
         else andthen (check (rw_id w \<notin> rw_id ` set rs) EditConstraint) (\<lambda>_. Inr (rs @ [w])))"

definition decide ::
  "('s, 'd) content_store \<Rightarrow> uuid \<Rightarrow> instant \<Rightarrow> uuid \<Rightarrow> content_kind \<Rightarrow> uuid \<Rightarrow> bool \<Rightarrow> string \<Rightarrow> int \<Rightarrow>
   ('s, 'd) editorial_db \<Rightarrow> edit_error + review \<times> ('s, 'd) editorial_db" where
  "decide cs new now reviewer k i yes note expected db =
     andthen (current_revision cs k i db) (\<lambda>r.
     andthen (check (\<not> (0 < expected \<and> expected \<noteq> r)) RevisionSeen) (\<lambda>_.
     andthen (check (\<not> (\<not> yes \<and> trim_space note = [])) NoteRequired) (\<lambda>_.
     andthen (check (0 < r \<and> reviewer \<in> set (ed_users db)) EditConstraint) (\<lambda>_.
     andthen (upsert_review (review_row new now reviewer k i r yes note) (ed_reviews db)) (\<lambda>rs.
     Inr (review_row new now reviewer k i r yes note, db\<lparr>ed_reviews := rs\<rparr>))))))"

lemma decide_changes: "decide cs new now reviewer k i yes note expected db = Inr (w, db') \<Longrightarrow> \<exists>rs. db' = db\<lparr>ed_reviews := rs\<rparr>"
  by (auto simp: decide_def)

section \<open>Reading\<close>

definition list_submissions :: "submission_status option \<Rightarrow> ('s, 'd) editorial_db \<Rightarrow> 'd submission list" where
  "list_submissions state db =
     take 200 (sort_by (\<lambda>a b. sb_at b < sb_at a)
       (filter (\<lambda>b. case state of None \<Rightarrow> True | Some s \<Rightarrow> sb_status b = s) (ed_submissions db)))"

definition publication_history :: "content_kind \<Rightarrow> uuid \<Rightarrow> ('s, 'd) editorial_db \<Rightarrow> publication list" where
  "publication_history k i db =
     sort_by (\<lambda>a b. (pb_at b, pb_id b) < (pb_at a, pb_id a)) (filter (\<lambda>p. pb_kind p = k \<and> pb_content p = i) (ed_history db))"

text \<open>The answer of the server to an error of the workflow.\<close>

definition edit_refusal :: "edit_error \<Rightarrow> nat \<times> string" where
  "edit_refusal e =
     (if e = EditNotFound then (404, ''submission_not_found'')
      else if e = ReviewRequired then (409, ''review_required'')
      else if e \<in> {DraftChanged, ActiveSubmission, NotAwaiting, OnlyApproved, NotScheduled, OtherContent} then (409, ''editorial_conflict'')
      else case e of
        ProviderError _ \<Rightarrow> (500, ''internal_error'')
      | EditConstraint \<Rightarrow> (500, ''internal_error'')
      | NotApproved \<Rightarrow> (500, ''internal_error'')
      | _ \<Rightarrow> (422, ''editorial_validation_failed''))"

section \<open>Histories\<close>

text \<open>
  Operations as data. \<open>EditContent\<close> is anything that the content services do outside the workflow; \<open>DeleteAccount\<close>
  clears the account from the rows that name it, as the foreign keys do.
\<close>

datatype 's edit_op =
    Submit settings_doc drawn_ids instant uuid authority content_kind uuid "instant option" int
  | SubmitAndPublish settings_doc drawn_ids instant uuid authority content_kind uuid int
  | Approve settings_doc drawn_ids instant uuid authority uuid string
  | RequestChanges instant uuid authority uuid string
  | SchedulePublication instant uuid authority uuid instant
  | CancelSchedule uuid authority uuid
  | PublishSubmission drawn_ids instant uuid authority uuid
  | Reconcile "uuid \<Rightarrow> drawn_ids" instant
  | Rollback settings_doc drawn_ids instant uuid authority content_kind uuid uuid
  | RestorePublication "nat \<Rightarrow> uuid" uuid authority content_kind uuid uuid
  | Decide uuid instant uuid content_kind uuid bool string int
  | EditContent "'s \<Rightarrow> 's"
  | DeleteAccount uuid

definition clear_user :: "uuid \<Rightarrow> uuid option \<Rightarrow> uuid option" where
  "clear_user u x = (if x = Some u then None else x)"

definition delete_account :: "uuid \<Rightarrow> ('s, 'd) editorial_db \<Rightarrow> ('s, 'd) editorial_db" where
  "delete_account u db =
     db\<lparr>ed_submissions := map (\<lambda>b. b\<lparr>sb_by := clear_user u (sb_by b), sb_reviewer := clear_user u (sb_reviewer b)\<rparr>) (ed_submissions db),
        ed_history := map (\<lambda>p. p\<lparr>pb_by := clear_user u (pb_by p)\<rparr>) (ed_history db),
        ed_reviews := map (\<lambda>w. w\<lparr>rw_by := clear_user u (rw_by w)\<rparr>) (ed_reviews db),
        ed_users := filter (\<lambda>x. x \<noteq> u) (ed_users db)\<rparr>"

text \<open>A failed transaction leaves the tables alone.\<close>

definition committed :: "'b \<Rightarrow> 'e + 'b \<Rightarrow> 'b" where
  "committed db r = (case r of Inl _ \<Rightarrow> db | Inr db' \<Rightarrow> db')"

definition tables :: "'e + 'a \<times> 'b \<Rightarrow> 'e + 'b" where
  "tables r = (case r of Inl e \<Rightarrow> Inl e | Inr (_, db) \<Rightarrow> Inr db)"

definition edit_outcome :: "('s, 'd) content_store \<Rightarrow> 's edit_op \<Rightarrow> ('s, 'd) editorial_db \<Rightarrow> edit_error + ('s, 'd) editorial_db" where
  "edit_outcome cs op db =
     (case op of
        Submit doc ids now user a k i requested expected \<Rightarrow> tables (submit cs doc ids now user a k i requested expected db)
      | SubmitAndPublish doc ids now user a k i expected \<Rightarrow> tables (submit_and_publish cs doc ids now user a k i expected db)
      | Approve doc ids now reviewer a i note \<Rightarrow> tables (approve cs doc ids now reviewer a i note db)
      | RequestChanges now reviewer a i note \<Rightarrow> request_changes now reviewer a i note db
      | SchedulePublication now user a i at \<Rightarrow> schedule_publication now user a i at db
      | CancelSchedule user a i \<Rightarrow> cancel_schedule user a i db
      | PublishSubmission ids now user a i \<Rightarrow> tables (publish_submission cs ids now user a i db)
      | Reconcile draw now \<Rightarrow> Inr (reconcile_scheduled cs draw now db)
      | Rollback doc ids now user a k i pub \<Rightarrow> tables (rollback cs doc ids now user a k i pub db)
      | RestorePublication fresh user a k i pub \<Rightarrow> restore_publication cs fresh user a k i pub db
      | Decide new now reviewer k i yes note expected \<Rightarrow> tables (decide cs new now reviewer k i yes note expected db)
      | EditContent f \<Rightarrow> Inr (db\<lparr>ed_content := f (ed_content db)\<rparr>)
      | DeleteAccount u \<Rightarrow> Inr (delete_account u db))"

definition edit_step :: "('s, 'd) content_store \<Rightarrow> 's edit_op \<Rightarrow> ('s, 'd) editorial_db \<Rightarrow> ('s, 'd) editorial_db" where
  "edit_step cs op db = committed db (edit_outcome cs op db)"

text \<open>What an observer of the successful requests sees: who submitted under which policy, and who approved.\<close>

datatype edit_event = Submitted uuid uuid authority settings_doc content_kind | ApprovedBy uuid uuid authority

definition edit_events :: "('s, 'd) content_store \<Rightarrow> 's edit_op \<Rightarrow> ('s, 'd) editorial_db \<Rightarrow> edit_event list" where
  "edit_events cs op db =
     (case edit_outcome cs op db of
        Inl _ \<Rightarrow> []
      | Inr _ \<Rightarrow>
          (case op of
             Submit doc ids now user a k i requested expected \<Rightarrow> [Submitted (di_submission ids) user a doc k]
           | SubmitAndPublish doc ids now user a k i expected \<Rightarrow> [Submitted (di_submission ids) user a doc k]
           | Rollback doc ids now user a k i pub \<Rightarrow> [Submitted (di_submission ids) user a doc k]
           | Approve doc ids now reviewer a i note \<Rightarrow> [ApprovedBy i reviewer a]
           | _ \<Rightarrow> []))"

fun edit_trace :: "('s, 'd) content_store \<Rightarrow> 's edit_op list \<Rightarrow> ('s, 'd) editorial_db \<Rightarrow> edit_event list" where
  "edit_trace cs [] db = []"
| "edit_trace cs (op # ops) db = edit_events cs op db @ edit_trace cs ops (edit_step cs op db)"

section \<open>Steps of the submission table\<close>

inductive status_move :: "submission_status \<Rightarrow> submission_status \<Rightarrow> bool" where
  "status_move InReview Approved"
| "status_move InReview Scheduled"
| "status_move InReview ChangesRequested"
| "status_move Approved Scheduled"
| "status_move Scheduled Approved"
| "s \<in> {Approved, Scheduled} \<Longrightarrow> status_move s Published"
| "status_move Scheduled PublicationFailed"
| "s \<in> {InReview, ChangesRequested, Approved, Scheduled} \<Longrightarrow> status_move s Superseded"

inductive_cases status_move_to: "status_move s t"

text \<open>What a reviewer saw: the columns that no operation changes.\<close>

definition frozen :: "'d submission \<Rightarrow> 'd submission \<Rightarrow> bool" where
  "frozen b b' \<longleftrightarrow> sb_id b' = sb_id b \<and> sb_kind b' = sb_kind b \<and> sb_content b' = sb_content b \<and> sb_working b' = sb_working b
     \<and> sb_document b' = sb_document b \<and> sb_digest b' = sb_digest b \<and> sb_at b' = sb_at b \<and> sb_based b' = sb_based b
     \<and> sb_based_id b' = sb_based_id b \<and> sb_review b' = sb_review b \<and> sb_self b' = sb_self b"

definition row_step :: "edit_event set \<Rightarrow> uuid list \<Rightarrow> 'd submission \<Rightarrow> 'd submission \<Rightarrow> bool" where
  "row_step ev users b b' \<longleftrightarrow> frozen b b' \<and> sb_by b' = sb_by b
     \<and> (sb_status b' = sb_status b \<or> status_move (sb_status b) (sb_status b'))
     \<and> (sb_status b = InReview \<and> sb_status b' \<in> {Approved, Scheduled} \<longrightarrow>
          (\<exists>r a. ApprovedBy (sb_id b) r a \<in> ev \<and> can_review a \<and> r \<in> set users \<and> (sb_self b \<or> sb_by b \<noteq> Some r)))"

inductive table_step :: "edit_event set \<Rightarrow> uuid list \<Rightarrow> 'd submission list \<Rightarrow> 'd submission list \<Rightarrow> bool" for ev users where
  added: "sb_id b \<notin> sb_id ` set ss \<Longrightarrow> \<not> (active_status (sb_status b) \<and> active_submission ss (sb_kind b) (sb_content b)) \<Longrightarrow>
    Submitted (sb_id b) u a p (sb_kind b) \<in> ev \<Longrightarrow> sb_by b = Some u \<Longrightarrow> u \<in> set users \<Longrightarrow>
    sb_review b = review_required_for (review_policy_of p) a (sb_kind b) \<Longrightarrow> sb_self b = allow_self_approval p \<Longrightarrow> sb_status b = (if sb_review b then InReview else Approved) \<Longrightarrow>
    table_step ev users ss (ss @ [b])"
| moved: "(\<And>b. b \<in> set ss \<Longrightarrow> row_step ev users b (f b)) \<Longrightarrow> table_step ev users ss (map f ss)"

lemma frozen_refl [simp]: "frozen b b"
  by (simp add: frozen_def)

lemma row_step_refl [simp]: "row_step ev users b b"
  by (cases "sb_status b") (simp_all add: row_step_def)

text \<open>Updating the rows of one identifier, or of one content, is a step if it is one for each row.\<close>

lemma moved_if:
  "(\<And>b. b \<in> set ss \<Longrightarrow> P b \<Longrightarrow> row_step ev users b (f b)) \<Longrightarrow> table_step ev users ss (map (\<lambda>b. if P b then f b else b) ss)"
  by (rule moved) simp

lemma supersede_step: "table_step ev users (ed_submissions db) (ed_submissions (supersede_others k i keep db))"
  by (auto simp: supersede_others_def row_step_def frozen_def intro!: moved_if status_move.intros)

lemma scan_Inr:
  assumes "scan_submission db i = Inr b"
  shows "b \<in> set (ed_submissions db)" "sb_id b = i"
  using assms by (auto simp: scan_submission_def find_Some_iff split: option.splits)

lemma scan_only:
  assumes "scan_submission db i = Inr b" "distinct (map sb_id (ed_submissions db))" "x \<in> set (ed_submissions db)" "sb_id x = i"
  shows "x = b"
  using scan_Inr[OF assms(1)] assms(2-4) by (auto simp: distinct_map inj_on_def)

lemma update_step:
  assumes "scan_submission db i = Inr b" "distinct (map sb_id (ed_submissions db))" "row_step ev users b (f b)"
  shows "table_step ev users (ed_submissions db) (ed_submissions (update_submission i f db))"
  unfolding update_submission_def using scan_only[OF assms(1,2)] assms(3) by (auto intro!: moved_if)

definition table_steps :: "edit_event set \<Rightarrow> uuid list \<Rightarrow> 'd submission list \<Rightarrow> 'd submission list \<Rightarrow> bool" where
  "table_steps ev users = (table_step ev users)\<^sup>*\<^sup>*"

lemma steps_none [simp]: "table_steps ev users ss ss"
  by (simp add: table_steps_def)

lemma steps_one: "table_step ev users ss ss' \<Longrightarrow> table_steps ev users ss ss'"
  by (simp add: table_steps_def)

lemma steps_trans: "table_steps ev users ss ss' \<Longrightarrow> table_steps ev users ss' ss'' \<Longrightarrow> table_steps ev users ss ss''"
  unfolding table_steps_def by (rule rtranclp_trans)

lemma steps_keep_ids:
  assumes "table_steps ev users ss ss'" "distinct (map sb_id ss)"
  shows "distinct (map sb_id ss')"
  using assms unfolding table_steps_def
proof (induction rule: rtranclp_induct)
  case (step y z)
  from step.hyps(2) show ?case
  proof cases
    case (added b)
    with step show ?thesis by simp
  next
    case (moved f)
    then have "map sb_id z = map sb_id y" by (auto simp: row_step_def frozen_def)
    with step show ?thesis by simp
  qed
qed simp

lemma steps_row:
  assumes "table_steps ev users ss ss'" "b \<in> set ss"
  shows "\<exists>b'\<in>set ss'. frozen b b' \<and> sb_by b' = sb_by b \<and> status_move\<^sup>*\<^sup>* (sb_status b) (sb_status b')"
  using assms unfolding table_steps_def
proof (induction rule: rtranclp_induct)
  case (step y z)
  then obtain c where c: "c \<in> set y" "frozen b c" "sb_by c = sb_by b" "status_move\<^sup>*\<^sup>* (sb_status b) (sb_status c)" by blast
  from step.hyps(2) show ?case
  proof cases
    case (added x)
    with c show ?thesis by auto
  next
    case (moved f)
    from moved(2)[OF c(1)] have "frozen b (f c)" "sb_by (f c) = sb_by b" "status_move\<^sup>*\<^sup>* (sb_status b) (sb_status (f c))"
      using c(2-4) by (auto simp: row_step_def frozen_def intro: rtranclp.rtrancl_into_rtrancl)
    with moved(1) c(1) show ?thesis by auto
  qed
qed (auto intro!: bexI)

lemma published_final: "status_move\<^sup>*\<^sup>* Published s \<Longrightarrow> s = Published"
  by (induction rule: rtranclp_induct) (auto elim: status_move_to)

text \<open>Each new publication belongs to a submission that is published, and carries its digest.\<close>

definition published_row :: "'d submission list \<Rightarrow> publication \<Rightarrow> bool" where
  "published_row ss h \<longleftrightarrow> (\<exists>b\<in>set ss. pb_submission h = Some (sb_id b) \<and> pb_kind h = sb_kind b \<and> pb_content h = sb_content b
     \<and> pb_digest h = Some (sb_digest b) \<and> sb_status b = Published)"

definition edit_moves :: "edit_event set \<Rightarrow> ('s, 'd) editorial_db \<Rightarrow> ('s, 'd) editorial_db \<Rightarrow> bool" where
  "edit_moves ev db db' \<longleftrightarrow> ed_users db' = ed_users db \<and> table_steps ev (ed_users db) (ed_submissions db) (ed_submissions db')
     \<and> (\<exists>hs. ed_history db' = ed_history db @ hs \<and> (\<forall>h\<in>set hs. published_row (ed_submissions db') h))"

lemma published_row_kept:
  assumes "table_steps ev users ss ss'" "published_row ss h"
  shows "published_row ss' h"
proof -
  from assms(2) obtain b where b: "b \<in> set ss" "pb_submission h = Some (sb_id b)" "pb_kind h = sb_kind b" "pb_content h = sb_content b"
    "pb_digest h = Some (sb_digest b)" "sb_status b = Published" by (auto simp: published_row_def)
  from steps_row[OF assms(1) b(1)] b(6) obtain b' where "b' \<in> set ss'" "frozen b b'" "sb_status b' = Published"
    by (auto dest: published_final)
  with b show ?thesis by (auto simp: published_row_def frozen_def intro!: bexI[of _ b'])
qed

lemma edit_moves_refl [simp]: "edit_moves ev db db"
  by (simp add: edit_moves_def)

lemma edit_moves_trans:
  assumes "edit_moves ev db db1" "edit_moves ev db1 db2"
  shows "edit_moves ev db db2"
proof -
  from assms(1) obtain h1 where h1: "ed_users db1 = ed_users db" "table_steps ev (ed_users db) (ed_submissions db) (ed_submissions db1)"
    "ed_history db1 = ed_history db @ h1" "\<forall>h\<in>set h1. published_row (ed_submissions db1) h" by (auto simp: edit_moves_def)
  from assms(2) h1(1) obtain h2 where h2: "ed_users db2 = ed_users db" "table_steps ev (ed_users db) (ed_submissions db1) (ed_submissions db2)"
    "ed_history db2 = ed_history db1 @ h2" "\<forall>h\<in>set h2. published_row (ed_submissions db2) h" by (auto simp: edit_moves_def)
  have "\<forall>h\<in>set (h1 @ h2). published_row (ed_submissions db2) h"
    using h1(4) h2(4) published_row_kept[OF h2(2)] by auto
  with h1 h2 steps_trans[OF h1(2) h2(2)] show ?thesis by (auto simp: edit_moves_def)
qed

lemma moves_of_steps:
  "table_steps ev (ed_users db) (ed_submissions db) (ed_submissions db') \<Longrightarrow> ed_users db' = ed_users db \<Longrightarrow> ed_history db' = ed_history db \<Longrightarrow>
   edit_moves ev db db'"
  by (simp add: edit_moves_def)

section \<open>What each operation does to the tables\<close>

lemma insert_submission_Inr:
  assumes "insert_submission b db = Inr db'"
  shows "db' = db\<lparr>ed_submissions := ed_submissions db @ [b]\<rparr>" "sb_id b \<notin> sb_id ` set (ed_submissions db)"
    "\<not> (active_status (sb_status b) \<and> active_submission (ed_submissions db) (sb_kind b) (sb_content b))"
    "case sb_by b of None \<Rightarrow> True | Some u \<Rightarrow> u \<in> set (ed_users db)"
  using assms by (auto simp: insert_submission_def)

lemma audit_edit_Inr:
  assumes "audit_edit user action k i db = Inr db'"
  shows "db' = db\<lparr>ed_audit := ed_audit db @ [(user, action, k, i)]\<rparr>" "user \<in> set (ed_users db)"
  using assms by (auto simp: audit_edit_def)

lemma publish_locked_moves:
  fixes db :: "('s, 'd) editorial_db"
  assumes run: "publish_locked pv ids now i user how preserve db = Inr (p, db')"
    and scan: "scan_submission db i = Inr b" and status: "sb_status b \<in> {Approved, Scheduled}"
    and ids: "distinct (map sb_id (ed_submissions db))"
  shows "edit_moves ev db db'"
proof -
  define f :: "'d submission \<Rightarrow> 'd submission" where
    "f = (\<lambda>x. x\<lparr>sb_status := Published, sb_published_at := Some now, sb_requested := None, sb_failure := None\<rparr>)"
  let ?h = "publication_row ids now user how b p (ed_history db)"
  from run scan obtain s where
    "db' = supersede_others (sb_kind b) (sb_content b) i (update_submission i f (db\<lparr>ed_content := s, ed_history := ed_history db @ [?h]\<rparr>))"
    by (auto simp: publish_locked_def insert_publication_def f_def split: prod.splits)
  then obtain h where row: "h = ?h"
    and db': "db' = supersede_others (sb_kind b) (sb_content b) i (update_submission i f (db\<lparr>ed_content := s, ed_history := ed_history db @ [h]\<rparr>))"
    by blast
  have h: "pb_submission h = Some i" "pb_kind h = sb_kind b" "pb_content h = sb_content b" "pb_digest h = Some (sb_digest b)"
    using scan_Inr(2)[OF scan] by (simp_all add: row publication_row_def)
  let ?db1 = "update_submission i f (db\<lparr>ed_content := s, ed_history := ed_history db @ [h]\<rparr>)"
  have f: "row_step ev (ed_users db) b (f b)"
    using status by (auto simp: f_def row_step_def frozen_def intro: status_move.intros)
  have one: "table_step ev (ed_users db) (ed_submissions db) (ed_submissions ?db1)"
    using update_step[OF scan ids, where f = f, OF f] by (simp add: update_submission_def)
  then have steps: "table_steps ev (ed_users db) (ed_submissions db) (ed_submissions db')"
    unfolding db' by (rule steps_trans[OF steps_one steps_one[OF supersede_step]])
  have fb: "f b \<in> set (ed_submissions ?db1)" "sb_status (f b) = Published" "frozen b (f b)"
    using scan_Inr[OF scan] by (auto simp: update_submission_def f_def frozen_def)
  have "published_row (ed_submissions ?db1) h"
    using fb h scan_Inr(2)[OF scan] by (auto simp: published_row_def frozen_def intro!: bexI[of _ "f b"])
  then have "published_row (ed_submissions db') h"
    unfolding db' by (rule published_row_kept[OF steps_one[OF supersede_step]])
  moreover have "ed_history db' = ed_history db @ [h]" "ed_users db' = ed_users db"
    by (simp_all add: db' supersede_others_def update_submission_def)
  ultimately show ?thesis using steps by (auto simp: edit_moves_def)
qed

lemma take_snapshot_Inr:
  assumes "take_snapshot pv i expected db = Inr (sn, db')"
  shows "\<exists>s. db' = db\<lparr>ed_content := s\<rparr>"
  using assms by (auto simp: take_snapshot_def)

lemma inserted_step:
  assumes "insert_submission b db = Inr db'" "sb_by b = Some u" "sb_review b = review_required_for (review_policy_of p) a (sb_kind b)"
    "sb_self b = allow_self_approval p" "sb_status b = (if sb_review b then InReview else Approved)" "Submitted (sb_id b) u a p (sb_kind b) \<in> ev"
  shows "table_step ev (ed_users db) (ed_submissions db) (ed_submissions db')"
  using insert_submission_Inr[OF assms(1)] assms(2-6) by (auto intro!: table_step.added)

lemma inserted_scan:
  assumes "insert_submission b db = Inr db'"
  shows "scan_submission db' (sb_id b) = Inr b"
proof -
  have "find (\<lambda>x. sb_id x = sb_id b) (ss @ [b]) = Some b" if "sb_id b \<notin> sb_id ` set ss" for ss
    using that by (induction ss) auto
  then show ?thesis using insert_submission_Inr(1,2)[OF assms] by (simp add: scan_submission_def)
qed

definition events_in :: "('s, 'd) content_store \<Rightarrow> 's edit_op \<Rightarrow> ('s, 'd) editorial_db \<Rightarrow> edit_event set" where
  "events_in cs op db = set (edit_events cs op db)"

lemma moves_content [simp]:
  "edit_moves ev (db\<lparr>ed_content := s\<rparr>) db' \<longleftrightarrow> edit_moves ev db db'"
  "edit_moves ev db (db'\<lparr>ed_content := s\<rparr>) \<longleftrightarrow> edit_moves ev db db'"
  by (simp_all add: edit_moves_def)

lemma moves_audit [simp]: "edit_moves ev db (db'\<lparr>ed_audit := x\<rparr>) \<longleftrightarrow> edit_moves ev db db'"
  by (simp add: edit_moves_def)

lemma ids_kept: "edit_moves ev db db' \<Longrightarrow> distinct (map sb_id (ed_submissions db)) \<Longrightarrow> distinct (map sb_id (ed_submissions db'))"
  by (auto simp: edit_moves_def intro: steps_keep_ids)

lemma audited: "audit_edit user action k i db1 = Inr db' \<Longrightarrow> edit_moves ev db db1 \<Longrightarrow> edit_moves ev db db'"
  by (auto dest!: audit_edit_Inr(1))

lemma inserted_moves:
  assumes "insert_submission b db = Inr db'" "sb_by b = Some u" "sb_review b = review_required_for (review_policy_of p) a (sb_kind b)"
    "sb_self b = allow_self_approval p" "sb_status b = (if sb_review b then InReview else Approved)" "Submitted (sb_id b) u a p (sb_kind b) \<in> ev"
  shows "edit_moves ev db db'"
  using inserted_step[OF assms] insert_submission_Inr(1)[OF assms(1)] by (auto intro!: moves_of_steps steps_one)

lemma submit_moves:
  assumes "submit cs doc ids now user a k i requested expected db = Inr (b, db')"
    "Submitted (di_submission ids) user a doc k \<in> ev"
  shows "edit_moves ev db db'"
proof -
  let ?review = "review_required_for (review_policy_of doc) a k"
  let ?old = "\<lambda>ss. map (\<lambda>b. if sb_kind b = k \<and> sb_content b = i \<and> sb_status b = ChangesRequested then b\<lparr>sb_status := Superseded\<rparr> else b) ss"
  from assms(1) obtain sn db1 db2 where run: "take_snapshot (the (cs_provider cs k)) i expected db = Inr (sn, db1)"
    "insert_submission b (db1\<lparr>ed_submissions := ?old (ed_submissions db1)\<rparr>) = Inr db2"
    "audit_edit user ''content.submitted'' k i db2 = Inr db'"
    and b: "b = fresh_submission ids now k i sn user (if ?review then InReview else Approved) ?review (allow_self_approval doc) requested"
    by (auto simp: submit_def Let_def provider_of_def split: option.splits)
  have "table_step ev (ed_users db1) (ed_submissions db1) (?old (ed_submissions db1))"
    by (auto simp: row_step_def frozen_def intro!: moved_if status_move.intros)
  then have "edit_moves ev db1 (db1\<lparr>ed_submissions := ?old (ed_submissions db1)\<rparr>)"
    by (auto intro!: moves_of_steps steps_one)
  moreover have "edit_moves ev (db1\<lparr>ed_submissions := ?old (ed_submissions db1)\<rparr>) db2"
    using assms(2) by (intro inserted_moves[OF run(2)]) (auto simp: b fresh_submission_def)
  ultimately have "edit_moves ev db1 db2" by (rule edit_moves_trans)
  with take_snapshot_Inr[OF run(1)] have "edit_moves ev db db2" by auto
  with run(3) show ?thesis by (rule audited)
qed

text \<open>A submission that needs no review, published by the same request.\<close>

lemma insert_and_publish_moves:
  assumes "insert_submission b db = Inr db1" "publish_locked pv ids now (sb_id b) user how preserve db1 = Inr (p, db')"
    "sb_by b = Some u" "\<not> sb_review b" "\<not> review_required_for (review_policy_of pol) a (sb_kind b)" "sb_status b = Approved"
    "Submitted (sb_id b) u a pol (sb_kind b) \<in> ev" "distinct (map sb_id (ed_submissions db))" "sb_self b = allow_self_approval pol"
  shows "edit_moves ev db db'"
proof -
  have one: "edit_moves ev db db1"
    using assms(3-7,9) by (intro inserted_moves[OF assms(1)]) auto
  have "edit_moves ev db1 db'"
    using assms(6) by (intro publish_locked_moves[OF assms(2) inserted_scan[OF assms(1)] _ ids_kept[OF one assms(8)]]) simp
  with one show ?thesis by (rule edit_moves_trans)
qed

lemma submit_and_publish_moves:
  assumes "submit_and_publish cs doc ids now user a k i expected db = Inr (p, db')"
    "Submitted (di_submission ids) user a doc k \<in> ev" "distinct (map sb_id (ed_submissions db))"
  shows "edit_moves ev db db'"
proof -
  from assms(1) obtain sn db1 db2 db3 where run: "take_snapshot (the (cs_provider cs k)) i expected db = Inr (sn, db1)"
    "insert_submission (fresh_submission ids now k i sn user Approved False (allow_self_approval doc) None) db1 = Inr db2"
    "publish_locked (the (cs_provider cs k)) ids now (di_submission ids) user ''manual'' False db2 = Inr (p, db3)"
    "audit_edit user (content_published_action k) k i db3 = Inr db'" and free: "\<not> review_required_for (review_policy_of doc) a k"
    by (auto simp: submit_and_publish_def provider_of_def split: option.splits)
  obtain s where db1: "db1 = db\<lparr>ed_content := s\<rparr>" using take_snapshot_Inr[OF run(1)] by blast
  have "edit_moves ev db1 db3"
    using assms(2,3) free run(3)
    by (intro insert_and_publish_moves[OF run(2), where u = user and a = a and pol = doc])
      (auto simp: fresh_submission_def db1)
  with run(4) show ?thesis unfolding db1 by (auto intro: audited)
qed

lemma approve_moves:
  assumes "approve cs doc ids now reviewer a i note db = Inr (r, db')" "ApprovedBy i reviewer a \<in> ev"
    "distinct (map sb_id (ed_submissions db))"
  shows "edit_moves ev db db'"
proof -
  from assms(1) obtain b where b: "scan_submission db i = Inr b" "sb_status b = InReview" "can_review a"
    "sb_self b \<or> sb_by b \<noteq> Some reviewer" "reviewer \<in> set (ed_users db)"
    by (auto simp: approve_def Let_def)
  define auto where "auto = (auto_publish_on_approval doc \<and> can_publish (sb_kind b) a)"
  define later where "later = (if auto then (case sb_requested b of Some t \<Rightarrow> now < t | None \<Rightarrow> False) else False)"
  define f where "f = (\<lambda>x::'b submission. x\<lparr>sb_status := (if later then Scheduled else Approved), sb_note := trim_space note,
           sb_reviewer := Some reviewer, sb_reviewed_at := Some now\<rparr>)"
  from assms(1) b obtain pv db2 where run: "audit_edit reviewer ''content.review_approved'' (sb_kind b) (sb_content b) (update_submission i f db) = Inr db2"
    "(if auto \<and> \<not> later then andthen (publish_locked pv ids now i reviewer ''automatic_after_approval'' False db2) (\<lambda>(p, db3). Inr (Some p, db3))
      else Inr (None, db2)) = Inr (r, db')"
    by (auto simp: approve_def Let_def auto_def later_def f_def)
  have row: "row_step ev (ed_users db) b (f b)"
    using b assms(2) scan_Inr[OF b(1)] by (auto simp: row_step_def frozen_def f_def intro: status_move.intros)
  have "table_step ev (ed_users db) (ed_submissions db) (ed_submissions (update_submission i f db))"
    by (rule update_step[OF b(1) assms(3), where f = f, OF row])
  then have one: "edit_moves ev db (update_submission i f db)"
    by (auto simp: update_submission_def intro!: moves_of_steps steps_one)
  with run(1) have two: "edit_moves ev db db2" by (rule audited)
  show ?thesis
  proof (cases "auto \<and> \<not> later")
    case False
    with run(2) two show ?thesis by auto
  next
    case True
    then obtain p where p: "publish_locked pv ids now i reviewer ''automatic_after_approval'' False db2 = Inr (p, db')"
      using run(2) by auto
    have "find (\<lambda>x. sb_id x = i) (map (\<lambda>x. if sb_id x = i then f x else x) ss) = map_option f (find (\<lambda>x. sb_id x = i) ss)" for ss
      by (induction ss) (auto simp: f_def)
    then have "scan_submission db2 i = Inr (f b)"
      using b(1) audit_edit_Inr(1)[OF run(1)] by (auto simp: scan_submission_def update_submission_def split: option.splits)
    moreover have "sb_status (f b) \<in> {Approved, Scheduled}" by (simp add: f_def)
    ultimately have "edit_moves ev db2 db'" by (rule publish_locked_moves[OF p _ _ ids_kept[OF two assms(3)]])
    with two show ?thesis by (rule edit_moves_trans)
  qed
qed

text \<open>The operations that change the status of one row.\<close>

lemma one_row_moves:
  assumes "scan_submission db i = Inr b" "audit_edit user action k c (update_submission i f db) = Inr db'"
    "row_step ev (ed_users db) b (f b)" "distinct (map sb_id (ed_submissions db))"
  shows "edit_moves ev db db'"
proof -
  have "edit_moves ev db (update_submission i f db)"
    using update_step[OF assms(1,4), where f = f, OF assms(3)] by (auto simp: update_submission_def intro!: moves_of_steps steps_one)
  with assms(2) show ?thesis by (rule audited)
qed

lemma status_changes_move:
  assumes "distinct (map sb_id (ed_submissions db))"
  shows "request_changes now reviewer a i note db = Inr db' \<Longrightarrow> edit_moves ev db db'"
    "schedule_publication now user a i at db = Inr db' \<Longrightarrow> edit_moves ev db db'"
    "cancel_schedule user a i db = Inr db' \<Longrightarrow> edit_moves ev db db'"
  using assms
  by (auto simp: request_changes_def schedule_publication_def cancel_schedule_def row_step_def frozen_def
      intro!: status_move.intros elim!: one_row_moves)

lemma publish_submission_moves:
  assumes "publish_submission cs ids now user a i db = Inr (p, db')" "distinct (map sb_id (ed_submissions db))"
  shows "edit_moves ev db db'"
proof -
  from assms(1) obtain b pv db1 where b: "scan_submission db i = Inr b" "sb_status b \<in> {Approved, Scheduled}"
    and p: "publish_locked pv ids now i user ''manual'' False db = Inr (p, db1)"
      "audit_edit user (content_published_action (sb_kind b)) (sb_kind b) (sb_content b) db1 = Inr db'"
    by (auto simp: publish_submission_def)
  from publish_locked_moves[OF p(1) b assms(2)] show ?thesis by (rule audited[OF p(2)])
qed

lemma publish_scheduled_moves:
  assumes "publish_scheduled cs ids now i db = Inr db'" "distinct (map sb_id (ed_submissions db))"
  shows "edit_moves ev db db'"
proof -
  from assms(1) obtain b where b: "scan_submission db i = Inr b" by (auto simp: publish_scheduled_def)
  show ?thesis
  proof (cases "sb_status b \<noteq> Scheduled \<or> (case sb_requested b of None \<Rightarrow> True | Some t \<Rightarrow> now < t)")
    case True
    with assms(1) b show ?thesis by (simp add: publish_scheduled_def)
  next
    case False
    with assms(1) b obtain pv p db1 where p: "publish_locked pv ids now i (scheduled_publisher b) ''scheduled'' False db = Inr (p, db1)"
      "audit_edit (scheduled_publisher b) (content_published_action (sb_kind b)) (sb_kind b) (sb_content b) db1 = Inr db'"
      by (auto simp: publish_scheduled_def)
    have "sb_status b \<in> {Approved, Scheduled}" using False by simp
    from publish_locked_moves[OF p(1) b this assms(2)] show ?thesis by (rule audited[OF p(2)])
  qed
qed

lemma reconcile_one_moves:
  assumes "distinct (map sb_id (ed_submissions db))"
  shows "edit_moves ev db (reconcile_one cs now d db)"
proof (cases "publish_scheduled cs (snd d) now (fst d) db")
  case (Inr db')
  with assms show ?thesis by (simp add: reconcile_one_def publish_scheduled_moves)
next
  case (Inl e)
  have "edit_moves ev db (update_submission (fst d)
          (\<lambda>b. if sb_status b = Scheduled then b\<lparr>sb_status := PublicationFailed, sb_failure := Some e\<rparr> else b) db)"
    by (auto simp: update_submission_def row_step_def frozen_def intro!: moves_of_steps steps_one moved_if status_move.intros)
  with Inl show ?thesis by (simp add: reconcile_one_def)
qed

lemma reconcile_moves:
  assumes "distinct (map sb_id (ed_submissions db))"
  shows "edit_moves ev db (reconcile_scheduled cs draw now db)"
proof -
  have "edit_moves ev d (fold (\<lambda>i. reconcile_one cs now (i, draw i)) is d)" if "distinct (map sb_id (ed_submissions d))" for "is" d
    using that
  proof (induction "is" arbitrary: d)
    case (Cons i "is")
    note one = reconcile_one_moves[OF Cons.prems, of ev cs now "(i, draw i)"]
    from edit_moves_trans[OF one Cons.IH[OF ids_kept[OF one Cons.prems]]] show ?case by simp
  qed simp
  then show ?thesis using assms by (simp add: reconcile_scheduled_def)
qed

lemma rollback_moves:
  assumes "rollback cs doc ids now user a k i pub db = Inr (q, db')"
    "Submitted (di_submission ids) user a doc k \<in> ev" "distinct (map sb_id (ed_submissions db))"
  shows "edit_moves ev db db'"
proof -
  let ?review = "review_required_for (review_policy_of doc) a k"
  from assms(1) obtain pv s sn db2 where
      "insert_submission (rollback_row ids now k i sn user ?review (allow_self_approval doc) pub) (db\<lparr>ed_content := s\<rparr>) = Inr db2"
    and run2: "finish_rollback pv ids now user k i ?review db2 = Inr (q, db')"
    by (auto simp: rollback_def Let_def)
  then obtain b where run: "insert_submission b (db\<lparr>ed_content := s\<rparr>) = Inr db2"
    and b: "sb_id b = di_submission ids" "sb_kind b = k" "sb_by b = Some user" "sb_review b = ?review"
      "sb_self b = allow_self_approval doc" "sb_status b = (if ?review then InReview else Approved)"
    by (auto simp: rollback_row_def fresh_submission_def)
  show ?thesis
  proof (cases ?review)
    case True
    have "edit_moves ev (db\<lparr>ed_content := s\<rparr>) db2"
      using b assms(2) True by (intro inserted_moves[OF run]) auto
    with run2 True show ?thesis by (auto simp: finish_rollback_def intro: audited)
  next
    case False
    with run2 obtain p db3 where p: "publish_locked pv ids now (sb_id b) user ''rollback'' True db2 = Inr (p, db3)"
      "audit_edit user (rollback_published_action k) k i db3 = Inr db'" by (auto simp: b finish_rollback_def)
    have "edit_moves ev (db\<lparr>ed_content := s\<rparr>) db3"
      using b assms(2,3) False by (intro insert_and_publish_moves[OF run p(1)]) auto
    with p(2) show ?thesis by (auto intro: audited)
  qed
qed

lemma other_operations_move:
  "restore_publication cs fresh user a k i pub db = Inr db' \<Longrightarrow> edit_moves ev db db'"
  "decide cs new now reviewer k i yes note expected db = Inr (w, db') \<Longrightarrow> edit_moves ev db db'"
  by (auto simp: restore_publication_def edit_moves_def audit_edit_def dest!: decide_changes)

lemma tables_Inr: "tables r = Inr db' \<longleftrightarrow> (\<exists>x. r = Inr (x, db'))"
  by (auto simp: tables_def split: sum.splits)

lemmas operations_move = submit_moves submit_and_publish_moves approve_moves status_changes_move publish_submission_moves
  reconcile_moves rollback_moves other_operations_move

theorem outcome_moves:
  assumes "edit_outcome cs op db = Inr db'" "distinct (map sb_id (ed_submissions db))" "\<And>u. op \<noteq> DeleteAccount u"
  shows "edit_moves (set (edit_events cs op db)) db db'"
proof -
  let ?ev = "set (edit_events cs op db)"
  have ev: "?ev = set (case op of
             Submit doc ids now user a k i requested expected \<Rightarrow> [Submitted (di_submission ids) user a doc k]
           | SubmitAndPublish doc ids now user a k i expected \<Rightarrow> [Submitted (di_submission ids) user a doc k]
           | Rollback doc ids now user a k i pub \<Rightarrow> [Submitted (di_submission ids) user a doc k]
           | Approve doc ids now reviewer a i note \<Rightarrow> [ApprovedBy i reviewer a]
           | _ \<Rightarrow> [])"
    using assms(1) by (simp add: edit_events_def)
  show ?thesis
    using assms unfolding ev by (cases op) (auto simp: edit_outcome_def tables_Inr intro: operations_move)
qed

section \<open>What reviewers can rely on\<close>

text \<open>At most one submission of a content is waiting, approved or scheduled, and identifiers are unique.\<close>

definition one_active :: "'d submission list \<Rightarrow> bool" where
  "one_active ss \<longleftrightarrow> distinct (map sb_id ss) \<and> (\<forall>b\<in>set ss. \<forall>c\<in>set ss. active_status (sb_status b) \<and> active_status (sb_status c)
     \<and> sb_kind b = sb_kind c \<and> sb_content b = sb_content c \<longrightarrow> sb_id b = sb_id c)"

lemma one_activeD:
  "one_active ss \<Longrightarrow> b \<in> set ss \<Longrightarrow> c \<in> set ss \<Longrightarrow> active_status (sb_status b) \<Longrightarrow> active_status (sb_status c) \<Longrightarrow>
   sb_kind b = sb_kind c \<Longrightarrow> sb_content b = sb_content c \<Longrightarrow> sb_id b = sb_id c"
  unfolding one_active_def by blast

lemma one_activeI:
  "distinct (map sb_id ss) \<Longrightarrow> (\<And>b c. b \<in> set ss \<Longrightarrow> c \<in> set ss \<Longrightarrow> active_status (sb_status b) \<Longrightarrow> active_status (sb_status c) \<Longrightarrow>
   sb_kind b = sb_kind c \<Longrightarrow> sb_content b = sb_content c \<Longrightarrow> sb_id b = sb_id c) \<Longrightarrow> one_active ss"
  unfolding one_active_def by blast

lemma one_active_distinct: "one_active ss \<Longrightarrow> distinct (map sb_id ss)"
  by (simp add: one_active_def)

lemma active_back: "row_step ev users b b' \<Longrightarrow> active_status (sb_status b') \<Longrightarrow> active_status (sb_status b)"
  by (auto simp: row_step_def active_status_def elim: status_move_to)

lemma one_active_step: "table_step ev users ss ss' \<Longrightarrow> one_active ss \<Longrightarrow> one_active ss'"
proof (induction rule: table_step.induct)
  case (added b ss u a p)
  from added.hyps(2) have no: "\<not> active_status (sb_status b)"
    if "c \<in> set ss" "active_status (sb_status c)" "sb_kind c = sb_kind b" "sb_content c = sb_content b" for c
    using that by (auto simp: active_submission_def list_ex_iff)
  show ?case
  proof (rule one_activeI)
    show "distinct (map sb_id (ss @ [b]))" using added.hyps(1) one_active_distinct[OF added.prems] by simp
    fix c d assume "c \<in> set (ss @ [b])" "d \<in> set (ss @ [b])" "active_status (sb_status c)" "active_status (sb_status d)"
      "sb_kind c = sb_kind d" "sb_content c = sb_content d"
    then show "sb_id c = sb_id d"
      using no[of c] no[of d] one_activeD[OF added.prems, of c d] by (cases "c = b"; cases "d = b") auto
  qed
next
  case (moved ss f)
  have ids: "map sb_id (map f ss) = map sb_id ss"
    using moved.hyps by (auto simp: row_step_def frozen_def)
  have keeps: "sb_kind (f b) = sb_kind b" "sb_content (f b) = sb_content b" "sb_id (f b) = sb_id b"
    "active_status (sb_status (f b)) \<Longrightarrow> active_status (sb_status b)" if "b \<in> set ss" for b
    using moved.hyps[OF that] active_back[OF moved.hyps[OF that]] by (simp_all add: row_step_def frozen_def)
  show ?case
  proof (rule one_activeI)
    show "distinct (map sb_id (map f ss))" unfolding ids by (rule one_active_distinct[OF moved.prems])
    fix c d assume "c \<in> set (map f ss)" "d \<in> set (map f ss)" and same: "active_status (sb_status c)" "active_status (sb_status d)"
      "sb_kind c = sb_kind d" "sb_content c = sb_content d"
    then obtain c0 d0 where cd: "c0 \<in> set ss" "d0 \<in> set ss" "c = f c0" "d = f d0" by auto
    show "sb_id c = sb_id d"
      using one_activeD[OF moved.prems cd(1,2)] keeps[OF cd(1)] keeps[OF cd(2)] same unfolding cd(3,4) by simp
  qed
qed

lemma one_active_steps: "table_steps ev users ss ss' \<Longrightarrow> one_active ss \<Longrightarrow> one_active ss'"
  unfolding table_steps_def by (induction rule: rtranclp_induct) (auto intro: one_active_step)

definition submission_kept :: "'d submission list \<Rightarrow> 'd submission \<Rightarrow> bool" where
  "submission_kept ss b \<longleftrightarrow> (\<exists>b'\<in>set ss. frozen b b' \<and> status_move\<^sup>*\<^sup>* (sb_status b) (sb_status b'))"

lemma deleted_rows:
  "ed_submissions (delete_account u db)
     = map (\<lambda>b. b\<lparr>sb_by := clear_user u (sb_by b), sb_reviewer := clear_user u (sb_reviewer b)\<rparr>) (ed_submissions db)"
  by (simp add: delete_account_def)

lemma one_active_map:
  assumes "one_active ss" "\<And>b. sb_id (f b) = sb_id b" "\<And>b. sb_kind (f b) = sb_kind b" "\<And>b. sb_content (f b) = sb_content b"
    "\<And>b. sb_status (f b) = sb_status b"
  shows "one_active (map f ss)"
proof (rule one_activeI)
  have "map sb_id (map f ss) = map sb_id ss" using assms(2) by simp
  then show "distinct (map sb_id (map f ss))" using one_active_distinct[OF assms(1)] by (simp only:)
  fix c d assume "c \<in> set (map f ss)" "d \<in> set (map f ss)" and same: "active_status (sb_status c)" "active_status (sb_status d)"
    "sb_kind c = sb_kind d" "sb_content c = sb_content d"
  then obtain c0 d0 where cd: "c0 \<in> set ss" "d0 \<in> set ss" "c = f c0" "d = f d0" by auto
  show "sb_id c = sb_id d"
    using one_activeD[OF assms(1) cd(1,2)] same unfolding cd(3,4) assms(2-5) by blast
qed

lemma edit_step_kept:
  assumes "one_active (ed_submissions db)"
  shows "one_active (ed_submissions (edit_step cs op db))"
    "b \<in> set (ed_submissions db) \<Longrightarrow> submission_kept (ed_submissions (edit_step cs op db)) b"
proof -
  have "one_active (ed_submissions (edit_step cs op db))
     \<and> (\<forall>b\<in>set (ed_submissions db). submission_kept (ed_submissions (edit_step cs op db)) b)"
  proof (cases "\<exists>u. op = DeleteAccount u")
    case True
    then obtain u where u: "op = DeleteAccount u" by blast
    have "one_active (ed_submissions (delete_account u db))"
      using assms unfolding deleted_rows by (intro one_active_map) simp_all
    moreover have "submission_kept (ed_submissions (delete_account u db)) b" if "b \<in> set (ed_submissions db)" for b
      using that by (auto simp: submission_kept_def deleted_rows frozen_def intro!: bexI[of _ b])
    ultimately show ?thesis by (simp add: u edit_step_def edit_outcome_def committed_def)
  next
    case other: False
    show ?thesis
    proof (cases "edit_outcome cs op db")
      case (Inl e)
      then show ?thesis using assms by (auto simp: edit_step_def committed_def submission_kept_def intro!: bexI)
    next
      case (Inr db')
      with outcome_moves[OF Inr one_active_distinct[OF assms]] other
      have steps: "table_steps (set (edit_events cs op db)) (ed_users db) (ed_submissions db) (ed_submissions db')"
        by (auto simp: edit_moves_def)
      from one_active_steps[OF steps assms] steps_row[OF steps] show ?thesis
        by (fastforce simp: Inr edit_step_def committed_def submission_kept_def)
    qed
  qed
  then show "one_active (ed_submissions (edit_step cs op db))"
    "b \<in> set (ed_submissions db) \<Longrightarrow> submission_kept (ed_submissions (edit_step cs op db)) b" by auto
qed

lemma submission_kept_trans:
  assumes "submission_kept ss b" "\<And>c. c \<in> set ss \<Longrightarrow> submission_kept ss' c"
  shows "submission_kept ss' b"
proof -
  from assms(1) obtain c where c: "c \<in> set ss" "frozen b c" "status_move\<^sup>*\<^sup>* (sb_status b) (sb_status c)" by (auto simp: submission_kept_def)
  from assms(2)[OF c(1)] obtain d where "d \<in> set ss'" "frozen c d" "status_move\<^sup>*\<^sup>* (sb_status c) (sb_status d)" by (auto simp: submission_kept_def)
  with c show ?thesis by (auto simp: submission_kept_def frozen_def intro!: bexI[of _ d] intro: rtranclp_trans)
qed

text \<open>C8. Whatever requests, deletions of accounts and edits of content follow each other, a submission stays exactly what
  was submitted: no column that a reviewer saw changes, it moves only along the arrows of the workflow, and a content
  never has two submissions that are waiting, approved or scheduled.\<close>

theorem submissions_frozen:
  assumes "one_active (ed_submissions db)"
  shows "one_active (ed_submissions (fold (edit_step cs) ops db))
    \<and> (\<forall>b\<in>set (ed_submissions db). submission_kept (ed_submissions (fold (edit_step cs) ops db)) b)"
  using assms
proof (induction ops arbitrary: db)
  case (Cons op ops)
  let ?db = "edit_step cs op db"
  from Cons.IH[OF edit_step_kept(1)[OF Cons.prems, of cs op]]
  have IH: "one_active (ed_submissions (fold (edit_step cs) ops ?db))"
    "\<And>c. c \<in> set (ed_submissions ?db) \<Longrightarrow> submission_kept (ed_submissions (fold (edit_step cs) ops ?db)) c" by auto
  from submission_kept_trans[OF edit_step_kept(2)[OF Cons.prems] IH(2)] IH(1) show ?case by simp
qed (auto simp: submission_kept_def intro!: bexI)

text \<open>What is known of a submission: who handed it in under which policy, and, if it had to be reviewed, who approved it.\<close>

definition reviewed_row :: "edit_event set \<Rightarrow> uuid list \<Rightarrow> 'd submission \<Rightarrow> bool" where
  "reviewed_row E users b \<longleftrightarrow> (\<exists>u a p. Submitted (sb_id b) u a p (sb_kind b) \<in> E \<and> sb_review b = review_required_for (review_policy_of p) a (sb_kind b)
     \<and> sb_self b = allow_self_approval p \<and> (sb_by b = Some u \<or> (sb_by b = None \<and> u \<notin> set users))
     \<and> (sb_review b \<and> sb_status b \<in> {Approved, Scheduled, Published, PublicationFailed} \<longrightarrow>
          (\<exists>r a'. ApprovedBy (sb_id b) r a' \<in> E \<and> can_review a' \<and> (sb_self b \<or> r \<noteq> u))))"

lemma reviewed_row_step:
  assumes "row_step ev users b b'" "reviewed_row E users b"
  shows "reviewed_row (E \<union> ev) users b'"
proof -
  from assms(2) obtain u a p where u: "Submitted (sb_id b) u a p (sb_kind b) \<in> E" "sb_review b = review_required_for (review_policy_of p) a (sb_kind b)"
    "sb_by b = Some u \<or> (sb_by b = None \<and> u \<notin> set users)" "sb_self b = allow_self_approval p"
    and old: "sb_review b \<Longrightarrow> sb_status b \<in> {Approved, Scheduled, Published, PublicationFailed} \<Longrightarrow>
          \<exists>r a'. ApprovedBy (sb_id b) r a' \<in> E \<and> can_review a' \<and> (sb_self b \<or> r \<noteq> u)"
    unfolding reviewed_row_def by blast
  from assms(1) have b': "frozen b b'" "sb_by b' = sb_by b" "sb_status b' = sb_status b \<or> status_move (sb_status b) (sb_status b')"
    and new: "sb_status b = InReview \<Longrightarrow> sb_status b' \<in> {Approved, Scheduled} \<Longrightarrow>
          \<exists>r a. ApprovedBy (sb_id b) r a \<in> ev \<and> can_review a \<and> r \<in> set users \<and> (sb_self b \<or> sb_by b \<noteq> Some r)"
    by (auto simp: row_step_def)
  have "\<exists>r a'. ApprovedBy (sb_id b) r a' \<in> E \<union> ev \<and> can_review a' \<and> (sb_self b \<or> r \<noteq> u)"
    if "sb_review b" "sb_status b' \<in> {Approved, Scheduled, Published, PublicationFailed}"
  proof (cases "sb_status b = InReview")
    case True
    with b'(3) that(2) have "sb_status b' \<in> {Approved, Scheduled}" by (auto elim: status_move_to)
    from new[OF True this] u(3) show ?thesis by blast
  next
    case False
    with b'(3) that(2) have "sb_status b \<in> {Approved, Scheduled, Published, PublicationFailed}" by (auto elim: status_move_to)
    from old[OF that(1) this] show ?thesis by blast
  qed
  with u b'(1,2) show ?thesis unfolding reviewed_row_def frozen_def by (intro exI[of _ u] exI[of _ a] exI[of _ p]) auto
qed

lemma reviewed_row_mono: "reviewed_row E users b \<Longrightarrow> reviewed_row (E \<union> ev) users b"
  using reviewed_row_step[OF row_step_refl] .

lemma reviewed_step:
  assumes "table_step ev users ss ss'" "\<forall>b\<in>set ss. reviewed_row (E \<union> ev) users b"
  shows "\<forall>b\<in>set ss'. reviewed_row (E \<union> ev) users b"
  using assms(1)
proof cases
  case (added b u a p)
  have "reviewed_row (E \<union> ev) users b"
    unfolding reviewed_row_def by (intro exI[of _ u] exI[of _ a] exI[of _ p]) (use added in auto)
  with added(1) assms(2) show ?thesis by auto
next
  case (moved f)
  have "reviewed_row (E \<union> ev) users (f b)" if "b \<in> set ss" for b
    using reviewed_row_step[OF moved(2)[OF that], of "E \<union> ev"] assms(2) that by simp
  with moved(1) show ?thesis by simp
qed

lemma reviewed_steps:
  assumes "table_steps ev users ss ss'" "\<forall>b\<in>set ss. reviewed_row E users b"
  shows "\<forall>b\<in>set ss'. reviewed_row (E \<union> ev) users b"
  using assms(1) unfolding table_steps_def
  by (induction rule: rtranclp_induct) (use assms(2) reviewed_row_mono in blast, rule reviewed_step)

definition editorial_inv :: "edit_event set \<Rightarrow> ('s, 'd) editorial_db \<Rightarrow> bool" where
  "editorial_inv E db \<longleftrightarrow> distinct (map sb_id (ed_submissions db)) \<and> (\<forall>b\<in>set (ed_submissions db). reviewed_row E (ed_users db) b)
     \<and> (\<forall>h\<in>set (ed_history db). pb_submission h = None \<or> published_row (ed_submissions db) h)"

lemma editorial_inv_delete: "editorial_inv E db \<Longrightarrow> editorial_inv E (delete_account u db)"
  unfolding editorial_inv_def published_row_def reviewed_row_def
  by (fastforce simp: delete_account_def clear_user_def comp_def)

lemma editorial_inv_step:
  assumes "editorial_inv E db"
  shows "editorial_inv (E \<union> set (edit_events cs op db)) (edit_step cs op db)"
proof (cases "edit_outcome cs op db")
  case (Inl e)
  with assms show ?thesis by (simp add: edit_step_def committed_def edit_events_def)
next
  case (Inr db')
  show ?thesis
  proof (cases "\<exists>u. op = DeleteAccount u")
    case True
    with assms editorial_inv_delete show ?thesis
      by (auto simp: edit_step_def committed_def edit_events_def edit_outcome_def)
  next
    case False
    let ?ev = "set (edit_events cs op db)"
    have "edit_moves ?ev db db'"
      using outcome_moves[OF Inr] assms False by (auto simp: editorial_inv_def)
    then obtain hs where m: "ed_users db' = ed_users db" "table_steps ?ev (ed_users db) (ed_submissions db) (ed_submissions db')"
      "ed_history db' = ed_history db @ hs" "\<forall>h\<in>set hs. published_row (ed_submissions db') h" by (auto simp: edit_moves_def)
    have "editorial_inv (E \<union> ?ev) db'"
      using assms m steps_keep_ids[OF m(2)] reviewed_steps[OF m(2), of E] published_row_kept[OF m(2)]
      unfolding editorial_inv_def by auto
    with Inr show ?thesis by (simp add: edit_step_def committed_def)
  qed
qed

lemma editorial_inv_history:
  "editorial_inv E db \<Longrightarrow> editorial_inv (E \<union> set (edit_trace cs ops db)) (fold (edit_step cs) ops db)"
proof (induction ops arbitrary: E db)
  case (Cons op ops)
  from Cons.IH[OF editorial_inv_step[OF Cons.prems, of cs op]] show ?case by (simp add: Un_assoc)
qed simp

text \<open>Nothing is published around the review: behind every publication of the workflow stands a submission of exactly
  this document, and if the policy at its submission required a review of this author, somebody with the right to
  review has approved it, and not the author, unless self-approval was allowed. The history starts before the first
  submission.\<close>

lemma published_after_review:
  assumes "ed_submissions db = []" "\<forall>h\<in>set (ed_history db). pb_submission h = None"
    "h \<in> set (ed_history (fold (edit_step cs) ops db))" "pb_submission h = Some i"
  shows "\<exists>b\<in>set (ed_submissions (fold (edit_step cs) ops db)). sb_id b = i \<and> pb_kind h = sb_kind b \<and> pb_content h = sb_content b
    \<and> pb_digest h = Some (sb_digest b)
    \<and> (\<exists>u a p. Submitted i u a p (pb_kind h) \<in> set (edit_trace cs ops db)
         \<and> (review_required_for (review_policy_of p) a (pb_kind h) \<longrightarrow>
              (\<exists>r a'. ApprovedBy i r a' \<in> set (edit_trace cs ops db) \<and> can_review a' \<and> (allow_self_approval p \<or> r \<noteq> u))))"
proof -
  have "editorial_inv {} db" using assms(1,2) by (simp add: editorial_inv_def)
  from editorial_inv_history[OF this, of cs ops]
  have inv: "editorial_inv (set (edit_trace cs ops db)) (fold (edit_step cs) ops db)" by simp
  with assms(3,4) obtain b where b: "b \<in> set (ed_submissions (fold (edit_step cs) ops db))" "sb_id b = i" "pb_kind h = sb_kind b"
    "pb_content h = sb_content b" "pb_digest h = Some (sb_digest b)" "sb_status b = Published"
    by (fastforce simp: editorial_inv_def published_row_def)
  from inv b(1) have "reviewed_row (set (edit_trace cs ops db)) (ed_users (fold (edit_step cs) ops db)) b"
    by (simp add: editorial_inv_def)
  then obtain u a p where u: "Submitted (sb_id b) u a p (sb_kind b) \<in> set (edit_trace cs ops db)"
    "sb_review b = review_required_for (review_policy_of p) a (sb_kind b)" "sb_self b = allow_self_approval p"
    "sb_review b \<longrightarrow> (\<exists>r a'. ApprovedBy (sb_id b) r a' \<in> set (edit_trace cs ops db) \<and> can_review a' \<and> (sb_self b \<or> r \<noteq> u))"
    using b(6) unfolding reviewed_row_def by blast
  then have "Submitted i u a p (pb_kind h) \<in> set (edit_trace cs ops db) \<and> (review_required_for (review_policy_of p) a (pb_kind h) \<longrightarrow>
      (\<exists>r a'. ApprovedBy i r a' \<in> set (edit_trace cs ops db) \<and> can_review a' \<and> (allow_self_approval p \<or> r \<noteq> u)))"
    using b(2,3) by simp
  with b show ?thesis by blast
qed

section \<open>The runtime follows the publications\<close>

text \<open>
  What the workflow relies on. \<open>shown\<close> is the document that the runtime of a content stands for, \<open>stored\<close> the form in
  which a document is kept there. Taking a snapshot of a draft and restoring one leave the runtime alone; publishing
  makes the returned revision the current one, later than the one before, and shows the document, in that content only.
\<close>

locale runtime_content =
  fixes cs :: "('s, 'd) content_store"
    and shown :: "content_kind \<Rightarrow> uuid \<Rightarrow> 's \<Rightarrow> 'd option"
    and stored :: "'d \<Rightarrow> 'd"
  assumes snapshot_runtime: "cs_provider cs k = Some pv \<Longrightarrow> pv_snapshot pv i s = Inr (sn, s') \<Longrightarrow>
      cs_current cs k' j s' = cs_current cs k' j s \<and> shown k' j s' = shown k' j s \<and> (cs_draft cs k' j s \<longrightarrow> cs_draft cs k' j s')"
    and restore_runtime: "cs_provider cs k = Some pv \<Longrightarrow> pv_restore pv i d u s = Inr s' \<Longrightarrow>
      cs_current cs k' j s' = cs_current cs k' j s \<and> shown k' j s' = shown k' j s \<and> (cs_draft cs k' j s \<longrightarrow> cs_draft cs k' j s')"
    and publish_others: "cs_provider cs k = Some pv \<Longrightarrow> pv_publish pv c n i d w u s = Inr (p, s') \<Longrightarrow> (k', j) \<noteq> (k, i) \<Longrightarrow>
      cs_current cs k' j s' = cs_current cs k' j s \<and> shown k' j s' = shown k' j s"
    and publish_runtime: "cs_provider cs k = Some pv \<Longrightarrow> pv_publish pv c n i d w u s = Inr (p, s') \<Longrightarrow>
      cs_current cs k i s' = Some (pu_revision p) \<and> shown k i s' = Some (stored d)"
    and publish_later: "cs_provider cs k = Some pv \<Longrightarrow> pv_publish pv c n i d w u s = Inr (p, s') \<Longrightarrow>
      \<exists>r. cs_current cs k i s = Some r \<and> r < pu_revision p"
    and publish_draft: "cs_provider cs k = Some pv \<Longrightarrow> pv_publish pv c n i d w u s = Inr (p, s') \<Longrightarrow> cs_draft cs k' j s \<Longrightarrow> cs_draft cs k' j s'"
begin

definition recorded :: "content_kind \<Rightarrow> uuid \<Rightarrow> int \<Rightarrow> ('s, 'd) editorial_db \<Rightarrow> bool" where
  "recorded k i r db \<longleftrightarrow> (\<exists>h\<in>set (ed_history db). pb_kind h = k \<and> pb_content h = i \<and> pb_revision h = r)"

definition submitted_as :: "uuid \<Rightarrow> 'd option \<Rightarrow> ('s, 'd) editorial_db \<Rightarrow> bool" where
  "submitted_as sid d db \<longleftrightarrow> (\<exists>b\<in>set (ed_submissions db). sb_id b = sid \<and> d = Some (stored (sb_document b)))"

text \<open>
  The current revision of a content is a recorded one, the latest, and if it went through a submission, what is shown is
  the document of that submission.
\<close>

definition sound_at :: "content_kind \<Rightarrow> uuid \<Rightarrow> ('s, 'd) editorial_db \<Rightarrow> bool" where
  "sound_at k i db \<longleftrightarrow> cs_draft cs k i (ed_content db)
     \<and> (\<forall>r. cs_current cs k i (ed_content db) = Some r \<longrightarrow> recorded k i r db)
     \<and> (\<forall>h\<in>set (ed_history db). \<forall>r. pb_kind h = k \<longrightarrow> pb_content h = i \<longrightarrow> cs_current cs k i (ed_content db) = Some r \<longrightarrow>
          pb_revision h \<le> r \<and> (pb_revision h = r \<longrightarrow>
            (\<forall>sid. pb_submission h = Some sid \<longrightarrow> submitted_as sid (shown k i (ed_content db)) db)))"

definition carries :: "content_kind \<Rightarrow> uuid \<Rightarrow> ('s, 'd) editorial_db \<Rightarrow> ('s, 'd) editorial_db \<Rightarrow> bool" where
  "carries k i db db' \<longleftrightarrow> (sound_at k i db \<longrightarrow> sound_at k i db')"

lemma carries_trans: "carries k i db db1 \<Longrightarrow> carries k i db1 db2 \<Longrightarrow> carries k i db db2"
  by (simp add: carries_def)

lemma carries_refl [simp]: "carries k i db db"
  by (simp add: carries_def)

definition documents_kept :: "'d submission list \<Rightarrow> 'd submission list \<Rightarrow> bool" where
  "documents_kept ss ss' \<longleftrightarrow> (\<forall>b\<in>set ss. \<exists>b'\<in>set ss'. sb_id b' = sb_id b \<and> sb_document b' = sb_document b)"

lemma documents_kept_refl [simp]: "documents_kept ss ss"
  by (auto simp: documents_kept_def)

lemma documents_kept_map: "(\<And>b. sb_id (f b) = sb_id b \<and> sb_document (f b) = sb_document b) \<Longrightarrow> documents_kept ss (map f ss)"
  by (auto simp: documents_kept_def)

lemma submitted_as_mono: "submitted_as sid d db \<Longrightarrow> documents_kept (ed_submissions db) (ed_submissions db') \<Longrightarrow> submitted_as sid d db'"
  unfolding submitted_as_def documents_kept_def by metis

text \<open>Steps that do not publish.\<close>

lemma carries_quiet:
  assumes "ed_history db' = ed_history db" "documents_kept (ed_submissions db) (ed_submissions db')"
    "cs_current cs k i (ed_content db') = cs_current cs k i (ed_content db)" "shown k i (ed_content db') = shown k i (ed_content db)"
    "cs_draft cs k i (ed_content db) \<longrightarrow> cs_draft cs k i (ed_content db')"
  shows "carries k i db db'"
  using assms submitted_as_mono[OF _ assms(2)] unfolding carries_def sound_at_def recorded_def by auto

lemma carries_rows:
  assumes "carries k i db db1" "ed_history db' = ed_history db1" "documents_kept (ed_submissions db1) (ed_submissions db')"
    "ed_content db' = ed_content db1"
  shows "carries k i db db'"
  by (rule carries_trans[OF assms(1) carries_quiet]) (simp_all add: assms)

lemma audit_carries: "audit_edit user action j c db1 = Inr db' \<Longrightarrow> carries k i db db1 \<Longrightarrow> carries k i db db'"
  by (auto dest!: audit_edit_Inr(1) intro: carries_rows)

lemma insert_carries: "insert_submission b db = Inr db' \<Longrightarrow> carries k i db db'"
  by (auto dest!: insert_submission_Inr(1) intro!: carries_quiet simp: documents_kept_def)

lemma update_carries:
  "(\<And>b. sb_id (f b) = sb_id b \<and> sb_document (f b) = sb_document b) \<Longrightarrow> carries k i db (update_submission j f db)"
  by (auto simp: update_submission_def intro!: carries_quiet documents_kept_map)

lemma snapshot_carries:
  assumes "take_snapshot pv c expected db = Inr (sn, db')" "cs_provider cs t = Some pv"
  shows "carries k i db db'"
proof -
  from assms(1) obtain s where "pv_snapshot pv c (ed_content db) = Inr (sn, s)" "db' = db\<lparr>ed_content := s\<rparr>"
    by (auto simp: take_snapshot_def)
  with snapshot_runtime[OF assms(2)] show ?thesis by (intro carries_quiet) auto
qed

lemma publish_carries:
  assumes "publish_locked pv ids now c user how preserve db = Inr (p, db')" "scan_submission db c = Inr b"
    "cs_provider cs (sb_kind b) = Some pv"
  shows "carries k i db db'"
proof -
  let ?h = "publication_row ids now user how b p (ed_history db)"
  from assms(1,2) obtain s where s: "pv_publish pv (cited_revision db (sb_kind b) (sb_content b)) (di_native ids) (sb_content b) (sb_document b)
        (if preserve then 0 else sb_working b) user (ed_content db) = Inr (p, s)"
    and db': "ed_history db' = ed_history db @ [?h]" "ed_content db' = s"
    by (auto simp: publish_locked_def insert_publication_def supersede_others_def update_submission_def)
  have kept: "documents_kept (ed_submissions db) (ed_submissions db')"
    using assms(1) by (auto simp: publish_locked_def insert_publication_def supersede_others_def update_submission_def intro!: documents_kept_map)
  have b: "b \<in> set (ed_submissions db)" "sb_id b = c"
    using assms(2) by (auto simp: scan_submission_def find_Some_iff split: option.splits)
  note rt = publish_runtime[OF assms(3) s] and others = publish_others[OF assms(3) s] and draft = publish_draft[OF assms(3) s]
  obtain r0 where r0: "cs_current cs (sb_kind b) (sb_content b) (ed_content db) = Some r0" "r0 < pu_revision p"
    using publish_later[OF assms(3) s] by blast
  have row: "pb_kind ?h = sb_kind b" "pb_content ?h = sb_content b" "pb_revision ?h = pu_revision p" "pb_submission ?h = Some c"
    using b(2) by (simp_all add: publication_row_def)
  show ?thesis
    unfolding carries_def
  proof
    assume old: "sound_at k i db"
    show "sound_at k i db'"
    proof (cases "(k, i) = (sb_kind b, sb_content b)")
      case True
      have new: "submitted_as c (shown k i s) db'"
        using submitted_as_mono[OF _ kept, of c "Some (stored (sb_document b))"] rt b True by (auto simp: submitted_as_def)
      have above: "pb_revision h < pu_revision p" if "h \<in> set (ed_history db)" "pb_kind h = k" "pb_content h = i" for h
      proof -
        from old that r0(1) True have "pb_revision h \<le> r0" by (auto simp: sound_at_def)
        with r0(2) show ?thesis by simp
      qed
      show ?thesis
        using old rt True row new draft[of k i] above unfolding sound_at_def recorded_def db' by fastforce
    next
      case False
      then have same: "cs_current cs k i s = cs_current cs k i (ed_content db)" "shown k i s = shown k i (ed_content db)"
        using others by auto
      show ?thesis
        using old False row draft[of k i] submitted_as_mono[OF _ kept] unfolding sound_at_def recorded_def db' same by auto
    qed
  qed
qed

lemma provider_Inr: "provider_of cs k = Inr pv \<Longrightarrow> cs_provider cs k = Some pv"
  by (simp add: provider_of_def split: option.splits)

lemma submit_carry:
  assumes "submit cs doc ids now user a k i requested expected db = Inr (b, db')"
  shows "carries c t db db'"
proof -
  let ?g = "\<lambda>b. if sb_kind b = k \<and> sb_content b = i \<and> sb_status b = ChangesRequested then b\<lparr>sb_status := Superseded\<rparr> else b"
  from assms obtain pv sn db1 db3 where run: "provider_of cs k = Inr pv" "take_snapshot pv i expected db = Inr (sn, db1)"
    "insert_submission b (db1\<lparr>ed_submissions := map ?g (ed_submissions db1)\<rparr>) = Inr db3"
    "audit_edit user ''content.submitted'' k i db3 = Inr db'"
    by (auto simp: submit_def Let_def)
  have "carries c t db1 (db1\<lparr>ed_submissions := map ?g (ed_submissions db1)\<rparr>)"
    by (rule carries_rows[OF carries_refl]) (auto intro: documents_kept_map)
  with insert_carries[OF run(3)] snapshot_carries[OF run(2) provider_Inr[OF run(1)]] have "carries c t db db3"
    by (blast intro: carries_trans)
  with run(4) show ?thesis by (rule audit_carries)
qed

lemma submit_and_publish_carries:
  assumes "submit_and_publish cs doc ids now user a k i expected db = Inr (p, db')"
  shows "carries c t db db'"
proof -
  from assms obtain pv sn db1 db2 db3 where run: "provider_of cs k = Inr pv" "take_snapshot pv i expected db = Inr (sn, db1)"
    "insert_submission (fresh_submission ids now k i sn user Approved False (allow_self_approval doc) None) db1 = Inr db2"
    "publish_locked pv ids now (di_submission ids) user ''manual'' False db2 = Inr (p, db3)"
    "audit_edit user (content_published_action k) k i db3 = Inr db'"
    by (auto simp: submit_and_publish_def)
  note pv = provider_Inr[OF run(1)]
  have "carries c t db2 db3"
    using inserted_scan[OF run(3)] pv by (intro publish_carries[OF run(4)]) (auto simp: fresh_submission_def)
  with snapshot_carries[OF run(2) pv] insert_carries[OF run(3)] have "carries c t db db3" by (blast intro: carries_trans)
  with run(5) show ?thesis by (rule audit_carries)
qed

lemma approve_carry:
  assumes "approve cs doc ids now reviewer a i note db = Inr (r, db')"
  shows "carries c t db db'"
proof -
  from assms obtain b pv f db2 where run: "scan_submission db i = Inr b" "provider_of cs (sb_kind b) = Inr pv"
    "audit_edit reviewer ''content.review_approved'' (sb_kind b) (sb_content b) (update_submission i f db) = Inr db2"
    "db' = db2 \<or> (\<exists>p. publish_locked pv ids now i reviewer ''automatic_after_approval'' False db2 = Inr (p, db'))"
    and f: "\<And>x. sb_id (f x) = sb_id x" "\<And>x. sb_kind (f x) = sb_kind x" "\<And>x. sb_document (f x) = sb_document x"
    unfolding approve_def Let_def by (force split: if_splits)
  have two: "carries c t db db2" by (rule audit_carries[OF run(3) update_carries]) (simp add: f)
  from run(4) show ?thesis
  proof
    assume "\<exists>p. publish_locked pv ids now i reviewer ''automatic_after_approval'' False db2 = Inr (p, db')"
    then obtain p where p: "publish_locked pv ids now i reviewer ''automatic_after_approval'' False db2 = Inr (p, db')" ..
    have "find (\<lambda>x. sb_id x = i) (map (\<lambda>x. if sb_id x = i then f x else x) ss) = map_option f (find (\<lambda>x. sb_id x = i) ss)" for ss
      by (induction ss) (auto simp: f)
    then have scan: "scan_submission db2 i = Inr (f b)"
      using run(1) audit_edit_Inr(1)[OF run(3)] by (auto simp: scan_submission_def update_submission_def split: option.splits)
    have "carries c t db2 db'" using publish_carries[OF p scan] provider_Inr[OF run(2)] f(2) by simp
    with two show ?thesis by (rule carries_trans)
  qed (use two in simp)
qed

lemma status_changes_carry:
  "request_changes now reviewer a i note db = Inr db' \<Longrightarrow> carries c t db db'"
  "schedule_publication now user a i at db = Inr db' \<Longrightarrow> carries c t db db'"
  "cancel_schedule user a i db = Inr db' \<Longrightarrow> carries c t db db'"
  by (auto simp: request_changes_def schedule_publication_def cancel_schedule_def elim!: audit_carries intro: update_carries)

lemma publish_submission_carry: "publish_submission cs ids now user a i db = Inr (p, db') \<Longrightarrow> carries c t db db'"
  by (auto simp: publish_submission_def dest!: provider_Inr dest: publish_carries elim!: audit_carries)

lemma publish_scheduled_carry: "publish_scheduled cs ids now i db = Inr db' \<Longrightarrow> carries c t db db'"
  by (auto simp: publish_scheduled_def dest!: provider_Inr dest: publish_carries elim!: audit_carries split: if_splits)

lemma reconcile_one_carry: "carries c t db (reconcile_one cs now d db)"
  by (cases "publish_scheduled cs (snd d) now (fst d) db") (auto simp: reconcile_one_def publish_scheduled_carry intro: update_carries)

lemma reconcile_carry: "carries c t db (reconcile_scheduled cs draw now db)"
proof -
  have "carries c t d (fold (\<lambda>i. reconcile_one cs now (i, draw i)) is d)" for d "is"
    by (induction "is" arbitrary: d) (auto intro: carries_trans reconcile_one_carry)
  then show ?thesis by (simp add: reconcile_scheduled_def)
qed

lemma rollback_carry:
  assumes "rollback cs doc ids now user a k i pub db = Inr (q, db')"
  shows "carries c t db db'"
proof -
  from assms obtain pv current s sn db2 where run: "provider_of cs k = Inr pv" "pv_snapshot pv i (ed_content db) = Inr (current, s)"
    "insert_submission (rollback_row ids now k i sn user (review_required_for (review_policy_of doc) a k) (allow_self_approval doc) pub)
       (db\<lparr>ed_content := s\<rparr>) = Inr db2"
    "finish_rollback pv ids now user k i (review_required_for (review_policy_of doc) a k) db2 = Inr (q, db')"
    by (auto simp: rollback_def Let_def)
  note pv = provider_Inr[OF run(1)]
  have "carries c t db (db\<lparr>ed_content := s\<rparr>)" using snapshot_runtime[OF pv run(2)] by (intro carries_quiet) simp_all
  with insert_carries[OF run(3)] have two: "carries c t db db2" by (blast intro: carries_trans)
  show ?thesis
  proof (cases "review_required_for (review_policy_of doc) a k")
    case True
    with run(4) two show ?thesis by (auto simp: finish_rollback_def elim: audit_carries)
  next
    case False
    with run(4) obtain p db3 where p: "publish_locked pv ids now (di_submission ids) user ''rollback'' True db2 = Inr (p, db3)"
      "audit_edit user (rollback_published_action k) k i db3 = Inr db'" by (auto simp: finish_rollback_def)
    have "carries c t db2 db3" using inserted_scan[OF run(3)] pv
      by (intro publish_carries[OF p(1)]) (auto simp: rollback_row_def fresh_submission_def)
    with two have "carries c t db db3" by (rule carries_trans)
    with p(2) show ?thesis by (rule audit_carries)
  qed
qed

lemma other_operations_carry:
  "restore_publication cs fresh user a k i pub db = Inr db' \<Longrightarrow> carries c t db db'"
  "decide cs new now reviewer k i yes note expected db = Inr (w, db') \<Longrightarrow> carries c t db db'"
proof -
  show "carries c t db db'" if r: "restore_publication cs fresh user a k i pub db = Inr db'"
  proof -
    from r obtain pv d s where run: "provider_of cs k = Inr pv" "pv_restore pv i d user (ed_content db) = Inr s"
      "audit_edit user ''content.version_restored_to_draft'' k i (db\<lparr>ed_content := s\<rparr>) = Inr db'"
      by (auto simp: restore_publication_def)
    have "carries c t db (db\<lparr>ed_content := s\<rparr>)"
      using restore_runtime[OF provider_Inr[OF run(1)] run(2)] by (intro carries_quiet) simp_all
    with run(3) show ?thesis by (rule audit_carries)
  qed
next
  show "carries c t db db'" if d: "decide cs new now reviewer k i yes note expected db = Inr (w, db')"
    using decide_changes[OF d] by (auto intro!: carries_quiet)
qed

text \<open>Edits outside the workflow may delete content, but not bring another revision or document to the screens.\<close>

definition harmless :: "('s \<Rightarrow> 's) \<Rightarrow> bool" where
  "harmless f \<longleftrightarrow> (\<forall>k i s. cs_draft cs k i s \<longrightarrow> cs_draft cs k i (f s) \<and> (cs_current cs k i (f s) = None
     \<or> cs_current cs k i (f s) = cs_current cs k i s \<and> shown k i (f s) = shown k i s))"

lemma edit_carries:
  assumes "harmless f"
  shows "carries k i db (db\<lparr>ed_content := f (ed_content db)\<rparr>)"
  unfolding carries_def
proof
  assume old: "sound_at k i db"
  then have "cs_draft cs k i (ed_content db)" by (simp add: sound_at_def)
  with assms have f: "cs_draft cs k i (f (ed_content db))" "cs_current cs k i (f (ed_content db)) = None
     \<or> cs_current cs k i (f (ed_content db)) = cs_current cs k i (ed_content db) \<and> shown k i (f (ed_content db)) = shown k i (ed_content db)"
    unfolding harmless_def by blast+
  from f(2) show "sound_at k i (db\<lparr>ed_content := f (ed_content db)\<rparr>)"
  proof
    assume "cs_current cs k i (f (ed_content db)) = None"
    with f(1) show ?thesis by (simp add: sound_at_def)
  next
    assume "cs_current cs k i (f (ed_content db)) = cs_current cs k i (ed_content db) \<and> shown k i (f (ed_content db)) = shown k i (ed_content db)"
    with f(1) old show ?thesis by (simp add: sound_at_def recorded_def submitted_as_def)
  qed
qed

lemma delete_account_carries: "carries k i db (delete_account u db)"
proof -
  have "documents_kept (ed_submissions db) (ed_submissions (delete_account u db))"
    by (simp add: delete_account_def) (rule documents_kept_map, simp)
  then have "submitted_as sid d db \<Longrightarrow> submitted_as sid d (delete_account u db)" for sid d by (rule submitted_as_mono[rotated])
  then show ?thesis unfolding carries_def sound_at_def recorded_def by (auto simp: delete_account_def)
qed

lemmas operations_carry = submit_carry submit_and_publish_carries approve_carry status_changes_carry publish_submission_carry
  reconcile_carry rollback_carry other_operations_carry

lemma step_carries:
  assumes "\<And>f. op = EditContent f \<Longrightarrow> harmless f"
  shows "carries k i db (edit_step cs op db)"
proof (cases "edit_outcome cs op db")
  case (Inl e)
  then show ?thesis by (simp add: edit_step_def committed_def)
next
  case (Inr db')
  then have "carries k i db db'"
    by (cases op) (auto simp: edit_outcome_def tables_Inr intro: operations_carry edit_carries[OF assms] delete_account_carries)
  with Inr show ?thesis by (simp add: edit_step_def committed_def)
qed

lemma history_carries:
  "(\<And>f. EditContent f \<in> set ops \<Longrightarrow> harmless f) \<Longrightarrow> carries k i db (fold (edit_step cs) ops db)"
proof (induction ops arbitrary: db)
  case (Cons op ops)
  have "carries k i db (edit_step cs op db)" by (rule step_carries) (use Cons.prems in auto)
  with Cons.IH[of "edit_step cs op db"] Cons.prems show ?case by (auto intro: carries_trans)
qed simp

text \<open>Content that is on the screens as published passes the gate, under any policy.\<close>

lemma sound_passes: "sound_at k i db \<Longrightarrow> k = TypePlaylist \<or> k = TypeLayout \<Longrightarrow> gate cs doc k i db = Inr ()"
  by (auto simp: gate_def current_revision_def revision_approved_def recorded_def sound_at_def list_ex_iff split: option.split)

end

section \<open>A concrete history\<close>

definition sample_store :: "(unit, string) content_store" where
  "sample_store = \<lparr>cs_provider = (\<lambda>_. None), cs_draft = (\<lambda>_ _ _. True), cs_current = (\<lambda>_ _ _. None),
     cs_native = (\<lambda>_ _ _ _. None), cs_release = (\<lambda>_ _. None), cs_digest = (\<lambda>_. [])\<rparr>"

definition sample_row :: "string submission" where
  "sample_row = \<lparr>sb_id = UUID ''s'', sb_kind = TypePlaylist, sb_content = UUID ''p'', sb_working = 1, sb_document = ''{}'', sb_digest = [],
     sb_by = Some (UUID ''u''), sb_at = 0, sb_based = None, sb_based_id = None, sb_status = Scheduled, sb_review = True, sb_self = False,
     sb_note = [], sb_reviewer = None, sb_reviewed_at = None, sb_requested = Some 5, sb_failure = None, sb_published_at = None\<rparr>"

definition sample_db :: "(unit, string) editorial_db" where
  "sample_db = \<lparr>ed_submissions = [sample_row], ed_history = [], ed_reviews = [], ed_audit = [], ed_users = [UUID ''u'', UUID ''v''],
     ed_content = ()\<rparr>"

definition sample_ops :: "unit edit_op list" where
  "sample_ops = [CancelSchedule (UUID ''v'') {''playlist.publish''} (UUID ''s''), DeleteAccount (UUID ''u'')]"

theorem submissions_frozen_witness:
  "submission_kept (ed_submissions (fold (edit_step sample_store) sample_ops sample_db)) sample_row
   \<and> map sb_status (ed_submissions (fold (edit_step sample_store) sample_ops sample_db)) = [Approved]"
proof -
  have "one_active (ed_submissions sample_db)" by (simp add: one_active_def sample_db_def)
  from submissions_frozen[OF this, of sample_store sample_ops]
  have "submission_kept (ed_submissions (fold (edit_step sample_store) sample_ops sample_db)) sample_row" by (simp add: sample_db_def)
  moreover have "map sb_status (ed_submissions (fold (edit_step sample_store) sample_ops sample_db)) = [Approved]"
    by (simp add: sample_ops_def sample_db_def sample_row_def edit_step_def edit_outcome_def committed_def cancel_schedule_def can_publish_any_def
        can_publish_def publish_capability_def scan_submission_def update_submission_def audit_edit_def delete_account_def)
  ultimately show ?thesis by simp
qed

end
