(* ===== verification/PlaylistDrafts.thy ===== *)
theory PlaylistDrafts
  imports GoValues Complex_Main
begin

text \<open>
  Playlists and their drafts (\<open>playlists/drafts.go\<close>, \<open>revisions.go\<close>, and the authoring operations of \<open>service.go\<close>):
  the published rows that manifests are built from, the working copy that people edit, and the stored revisions. Tables
  are lists of rows with their constraints; a statement that violates one fails with \<open>PlaylistConstraint\<close>, and a failed
  transaction changes nothing. New identifiers are arguments. Volumes are the numbers their column holds; the columns
  that report times of change are left out, and the account of a request is taken to exist. Which screens an
  invalidation names (\<open>invalidation.go\<close>) is an argument.
\<close>

section \<open>Data\<close>

text \<open>The columns of an item, in a document, a draft and the published rows. An item of a stored revision has no identifier.\<close>

record playlist_item =
  pi_id :: uuid
  pi_asset :: "uuid option"
  pi_layout :: "uuid option"
  pi_position :: int
  pi_duration :: "int option"
  pi_fit :: string
  pi_transition :: string
  pi_audio :: bool
  pi_volume :: rat
  pi_start :: "int option"
  pi_end :: "int option"
  pi_delivery :: string
  pi_defaults :: bool

record details =
  de_name :: string
  de_description :: string
  de_source :: string
  de_match :: string
  de_image_ms :: int

record playlist_doc =
  pd_details :: details
  pd_items :: "playlist_item list"
  pd_tags :: "uuid list"

record playlist_row =
  pl_id :: uuid
  pl_details :: details
  pl_revision :: int
  pl_by :: "uuid option"
  pl_deleted :: bool

record draft_row =
  dr_playlist :: uuid
  dr_details :: details
  dr_revision :: int
  dr_published :: int
  dr_by :: "uuid option"

record revision_row =
  rv_id :: uuid
  rv_playlist :: uuid
  rv_revision :: int
  rv_details :: details
  rv_items :: "playlist_item list"
  rv_tags :: "uuid list"
  rv_by :: "uuid option"

text \<open>What the queries read of the Media library: an asset with its provider and whether a playable variant exists.\<close>

record media_row =
  mr_id :: uuid
  mr_type :: string
  mr_provider :: string
  mr_seconds :: "rat option"
  mr_ready :: bool
  mr_variant :: bool
  mr_deleted :: bool

record layout_ref =
  lr_id :: uuid
  lr_published :: "uuid option"
  lr_deleted :: bool

record playlist_db =
  pt_playlists :: "playlist_row list"
  pt_items :: "(uuid \<times> playlist_item) list"
  pt_tags :: "(uuid \<times> uuid) list"
  pt_drafts :: "draft_row list"
  pt_draft_items :: "(uuid \<times> playlist_item) list"
  pt_draft_tags :: "(uuid \<times> uuid) list"
  pt_revisions :: "revision_row list"
  pt_media :: "media_row list"
  pt_layouts :: "layout_ref list"
  pt_layout_uses :: "(uuid \<times> uuid) list"
  pt_known_tags :: "uuid list"
  pt_settings :: "(string \<times> string) list"
  pt_image_ms :: "int option"
  pt_manifests :: "(uuid \<times> int) list"
  pt_audit :: "(uuid \<times> string \<times> uuid) list"

datatype playlist_error =
    PlaylistNotFound | PlaylistConflict | AssetNotReady | ItemInvalid | PlaylistConstraint | NoRows
  | NameLength | DescriptionLength | SourceTypeInvalid | TagMatchInvalid | ImageDurationInvalid | ImageDurationRange
  | TagRequired | TagCount | TagDuplicates | TagMissing uuid | DuplicateItemIds
  | ExactlyOneReference | LayoutNotPublished | LayoutDuration | FitModeInvalid | TransitionInvalid | DeliveryInvalid
  | VolumeRange | ItemImageDuration | WebsiteDuration | VideoStart | VideoEnd | LayoutContainsPlaylist
  | BulkOneField | BulkItemId | BulkDuplicate | BulkUnknown | OrderIncomplete | OrderDuplicate | OrderUnknown

section \<open>Tables\<close>

definition live_playlist :: "playlist_db \<Rightarrow> uuid \<Rightarrow> playlist_row option" where
  "live_playlist db i = find (\<lambda>p. pl_id p = i \<and> \<not> pl_deleted p) (pt_playlists db)"

definition draft_of :: "playlist_db \<Rightarrow> uuid \<Rightarrow> draft_row option" where
  "draft_of db i = find (\<lambda>d. dr_playlist d = i) (pt_drafts db)"

definition rows_of :: "uuid \<Rightarrow> (uuid \<times> 'a) list \<Rightarrow> 'a list" where
  "rows_of i xs = map snd (filter (\<lambda>x. fst x = i) xs)"

definition delete_rows :: "uuid \<Rightarrow> (uuid \<times> 'a) list \<Rightarrow> (uuid \<times> 'a) list" where
  "delete_rows i xs = filter (\<lambda>x. fst x \<noteq> i) xs"

text \<open>\<open>ORDER BY position, id\<close> and \<open>ORDER BY tag_id\<close>.\<close>

definition item_before :: "playlist_item \<Rightarrow> playlist_item \<Rightarrow> bool" where
  "item_before a b \<longleftrightarrow> (pi_position a, uuid_string (pi_id a)) < (pi_position b, uuid_string (pi_id b))"

definition source_ok :: "string \<Rightarrow> bool" where
  "source_ok s \<longleftrightarrow> s = ''static'' \<or> s = ''tag''"

definition match_ok :: "string \<Rightarrow> bool" where
  "match_ok s \<longleftrightarrow> s = ''any'' \<or> s = ''all''"

definition image_ms_ok :: "int \<Rightarrow> bool" where
  "image_ms_ok n \<longleftrightarrow> 1000 \<le> n \<and> n \<le> 86400000"

definition fit_ok :: "string \<Rightarrow> bool" where
  "fit_ok s \<longleftrightarrow> s \<in> {''contain'', ''cover'', ''stretch''}"

definition transition_ok :: "string \<Rightarrow> bool" where
  "transition_ok s \<longleftrightarrow> s \<in> {''none'', ''fade'', ''crossfade''}"

definition delivery_ok :: "string \<Rightarrow> bool" where
  "delivery_ok s \<longleftrightarrow> s \<in> {''download'', ''stream'', ''automatic''}"

text \<open>The checks of both item tables, and their foreign keys, which find deleted rows too.\<close>

definition item_row_ok :: "playlist_db \<Rightarrow> playlist_item \<Rightarrow> bool" where
  "item_row_ok db x \<longleftrightarrow>
     0 \<le> pi_position x \<and> (case pi_duration x of None \<Rightarrow> True | Some n \<Rightarrow> 0 < n) \<and> fit_ok (pi_fit x) \<and> transition_ok (pi_transition x)
     \<and> 0 \<le> pi_volume x \<and> pi_volume x \<le> 1 \<and> (case pi_start x of None \<Rightarrow> True | Some n \<Rightarrow> 0 \<le> n)
     \<and> (case pi_end x of None \<Rightarrow> True | Some n \<Rightarrow> 0 < n) \<and> delivery_ok (pi_delivery x)
     \<and> (pi_asset x = None) \<noteq> (pi_layout x = None)
     \<and> (case pi_asset x of None \<Rightarrow> True | Some a \<Rightarrow> a \<in> mr_id ` set (pt_media db))
     \<and> (case pi_layout x of None \<Rightarrow> True | Some l \<Rightarrow> l \<in> lr_id ` set (pt_layouts db))"

text \<open>One \<open>INSERT\<close>: the identifier is new in the table and the position new in the playlist.\<close>

definition insert_item ::
  "playlist_db \<Rightarrow> uuid \<Rightarrow> playlist_item \<Rightarrow> (uuid \<times> playlist_item) list \<Rightarrow> playlist_error + (uuid \<times> playlist_item) list" where
  "insert_item db i x xs =
     andthen (check (item_row_ok db x \<and> pi_id x \<notin> set (map (pi_id \<circ> snd) xs)
         \<and> pi_position x \<notin> set (map pi_position (rows_of i xs))) PlaylistConstraint) (\<lambda>_.
     Inr (xs @ [(i, x)]))"

fun insert_items ::
  "playlist_db \<Rightarrow> uuid \<Rightarrow> playlist_item list \<Rightarrow> (uuid \<times> playlist_item) list \<Rightarrow> playlist_error + (uuid \<times> playlist_item) list" where
  "insert_items db i [] xs = Inr xs"
| "insert_items db i (y # ys) xs = andthen (insert_item db i y xs) (insert_items db i ys)"

fun insert_tags :: "playlist_db \<Rightarrow> uuid \<Rightarrow> uuid list \<Rightarrow> (uuid \<times> uuid) list \<Rightarrow> playlist_error + (uuid \<times> uuid) list" where
  "insert_tags db i [] xs = Inr xs"
| "insert_tags db i (t # ts) xs =
     andthen (check (t \<in> set (pt_known_tags db) \<and> (i, t) \<notin> set xs) PlaylistConstraint) (\<lambda>_. insert_tags db i ts (xs @ [(i, t)]))"

text \<open>The items of a document are stored at the positions of the list.\<close>

definition numbered :: "playlist_item list \<Rightarrow> playlist_item list" where
  "numbered xs = map (\<lambda>(n, x). x\<lparr>pi_position := int n\<rparr>) (enumerate 0 xs)"

definition update_draft :: "uuid \<Rightarrow> (draft_row \<Rightarrow> draft_row) \<Rightarrow> playlist_db \<Rightarrow> playlist_db" where
  "update_draft i f db = db\<lparr>pt_drafts := map (\<lambda>d. if dr_playlist d = i then f d else d) (pt_drafts db)\<rparr>"

definition edited :: "uuid \<Rightarrow> draft_row \<Rightarrow> draft_row" where
  "edited user d = d\<lparr>dr_revision := dr_revision d + 1, dr_by := Some user\<rparr>"

definition audit_playlist :: "uuid \<Rightarrow> string \<Rightarrow> uuid \<Rightarrow> playlist_db \<Rightarrow> playlist_db" where
  "audit_playlist user action i db = db\<lparr>pt_audit := pt_audit db @ [(user, action, i)]\<rparr>"

section \<open>Drafts\<close>

text \<open>A playlist of before drafts existed gets one from its published rows. An identifier in use is skipped.\<close>

definition copied_items :: "uuid \<Rightarrow> playlist_db \<Rightarrow> (uuid \<times> playlist_item) list" where
  "copied_items i db = filter (\<lambda>x. fst x = i \<and> pi_id (snd x) \<notin> set (map (pi_id \<circ> snd) (pt_draft_items db))) (pt_items db)"

definition copied_tags :: "uuid \<Rightarrow> playlist_db \<Rightarrow> (uuid \<times> uuid) list" where
  "copied_tags i db = filter (\<lambda>x. fst x = i \<and> x \<notin> set (pt_draft_tags db)) (pt_tags db)"

definition ensure_draft :: "uuid \<Rightarrow> playlist_db \<Rightarrow> playlist_db" where
  "ensure_draft i db =
     (case (live_playlist db i, draft_of db i) of
        (Some p, None) \<Rightarrow>
          db\<lparr>pt_drafts := pt_drafts db @ [\<lparr>dr_playlist = i, dr_details = pl_details p, dr_revision = pl_revision p,
                dr_published = pl_revision p, dr_by = pl_by p\<rparr>],
             pt_draft_items := pt_draft_items db @ copied_items i db,
             pt_draft_tags := pt_draft_tags db @ copied_tags i db\<rparr>
      | _ \<Rightarrow> db)"

definition bump_draft :: "uuid \<Rightarrow> uuid \<Rightarrow> playlist_db \<Rightarrow> playlist_error + playlist_db" where
  "bump_draft i user db =
     (let db1 = ensure_draft i db
      in andthen (check (draft_of db1 i \<noteq> None) PlaylistNotFound) (\<lambda>_. Inr (update_draft i (edited user) db1)))"

definition draft_document :: "playlist_db \<Rightarrow> draft_row \<Rightarrow> playlist_doc" where
  "draft_document db d =
     \<lparr>pd_details = dr_details d, pd_items = sort_by item_before (rows_of (dr_playlist d) (pt_draft_items db)),
      pd_tags = sort_by (<) (rows_of (dr_playlist d) (pt_draft_tags db))\<rparr>"

record draft_snapshot =
  ds_working :: int
  ds_published :: int
  ds_published_id :: "uuid option"
  ds_document :: playlist_doc

definition revision_id :: "playlist_db \<Rightarrow> uuid \<Rightarrow> int \<Rightarrow> uuid option" where
  "revision_id db i n = map_option rv_id (find (\<lambda>r. rv_playlist r = i \<and> rv_revision r = n) (pt_revisions db))"

definition snapshot_draft :: "uuid \<Rightarrow> playlist_db \<Rightarrow> playlist_error + draft_snapshot \<times> playlist_db" where
  "snapshot_draft i db =
     (let db1 = ensure_draft i db
      in case (draft_of db1 i, live_playlist db1 i) of
           (Some d, Some p) \<Rightarrow> Inr (\<lparr>ds_working = dr_revision d, ds_published = pl_revision p,
               ds_published_id = revision_id db1 i (pl_revision p), ds_document = draft_document db1 d\<rparr>, db1)
         | _ \<Rightarrow> Inl PlaylistNotFound)"

section \<open>Validation\<close>

record item_input =
  ii_asset :: uuid
  ii_layout :: "uuid option"
  ii_duration :: "int option"
  ii_fit :: string
  ii_transition :: string
  ii_audio :: "bool option"
  ii_volume :: "rat option"
  ii_start :: "int option"
  ii_end :: "int option"
  ii_delivery :: string
  ii_defaults :: bool

definition validate_details :: "string \<Rightarrow> string \<Rightarrow> playlist_error + unit" where
  "validate_details name description =
     andthen (check (1 \<le> length name \<and> length name \<le> 180) NameLength) (\<lambda>_.
     check (length description \<le> 2000) DescriptionLength)"

definition normalize_source_type :: "string \<Rightarrow> playlist_error + string" where
  "normalize_source_type s =
     (let t = trim_space s
      in if t = [] then Inr ''static'' else andthen (check (source_ok t) SourceTypeInvalid) (\<lambda>_. Inr t))"

text \<open>\<open>strconv.ParseBool\<close> accepts these texts.\<close>

definition bool_text :: "string \<Rightarrow> bool" where
  "bool_text s \<longleftrightarrow> s \<in> {''1'', ''t'', ''T'', ''TRUE'', ''true'', ''True'', ''0'', ''f'', ''F'', ''FALSE'', ''false'', ''False''}"

definition organization_setting_text :: "playlist_db \<Rightarrow> string \<Rightarrow> string \<Rightarrow> string" where
  "organization_setting_text db key fallback =
     (case map_of (pt_settings db) key of
        None \<Rightarrow> fallback
      | Some v \<Rightarrow>
          if v = [] then fallback
          else if key = ''player.playback.default_audio_enabled'' \<and> \<not> bool_text v then fallback
          else v)"

definition normalize_item_defaults :: "string \<Rightarrow> item_input \<Rightarrow> item_input" where
  "normalize_item_defaults kind x =
     x\<lparr>ii_fit := (if ii_fit x = [] then ''contain'' else ii_fit x),
       ii_transition := (if ii_transition x = [] then ''none'' else ii_transition x),
       ii_delivery := (if ii_delivery x = [] then ''download'' else ii_delivery x),
       ii_audio := (case ii_audio x of None \<Rightarrow> Some True | a \<Rightarrow> a),
       ii_volume := (case ii_volume x of None \<Rightarrow> Some 1 | v \<Rightarrow> v),
       ii_defaults := (ii_defaults x \<and> kind \<in> {''image'', ''video''})\<rparr>"

definition fit_setting :: "string \<Rightarrow> string option" where
  "fit_setting kind =
     (if kind = ''image'' then Some ''media.image.default_fit_mode''
      else if kind = ''video'' then Some ''media.video.default_fit_mode'' else None)"

definition normalize_with_organization :: "playlist_db \<Rightarrow> string \<Rightarrow> item_input \<Rightarrow> item_input" where
  "normalize_with_organization db kind x =
     (let y = normalize_item_defaults kind x;
          fit = (if ii_fit x = [] then (case fit_setting kind of None \<Rightarrow> ii_fit y | Some key \<Rightarrow> organization_setting_text db key (ii_fit y))
                 else ii_fit y);
          transition = (if ii_transition x = [] then organization_setting_text db ''player.playback.default_transition'' (ii_transition y)
                        else ii_transition y);
          delivery = (if ii_delivery x = [] \<and> kind = ''video'' then
                        organization_setting_text db ''media.video.default_delivery_policy'' (ii_delivery y) else ii_delivery y);
          audio = (if ii_audio x = None then
                     Some (organization_setting_text db ''player.playback.default_audio_enabled'' ''true'' = ''true'') else ii_audio y);
          duration = (if kind = ''image'' \<and> ii_duration y = None \<and> \<not> ii_defaults y then
                        Some (case pt_image_ms db of None \<Rightarrow> 10000 | Some n \<Rightarrow> n) else ii_duration y)
      in y\<lparr>ii_fit := fit, ii_transition := transition, ii_delivery := delivery, ii_audio := audio, ii_duration := duration\<rparr>)"

definition positive :: "int option \<Rightarrow> bool" where
  "positive n = (case n of None \<Rightarrow> False | Some k \<Rightarrow> 0 < k)"

text \<open>\<open>int64(seconds * 1000)\<close> truncates.\<close>

definition millis_of :: "rat \<Rightarrow> int" where
  "millis_of s = (if 0 \<le> s then \<lfloor>s * 1000\<rfloor> else - \<lfloor>- s * 1000\<rfloor>)"

definition validate_video_range :: "media_row \<Rightarrow> item_input \<Rightarrow> playlist_error + unit" where
  "validate_video_range a x =
     (let total = (case mr_seconds a of None \<Rightarrow> 0 | Some s \<Rightarrow> millis_of s);
          start = (case ii_start x of None \<Rightarrow> 0 | Some s \<Rightarrow> s)
      in andthen (check (0 \<le> start \<and> \<not> (0 < total \<and> total \<le> start)) VideoStart) (\<lambda>_.
         case ii_end x of
           None \<Rightarrow> Inr ()
         | Some e \<Rightarrow> check (start < e \<and> \<not> (0 < total \<and> total < e)) VideoEnd))"

definition playable_media :: "playlist_db \<Rightarrow> uuid \<Rightarrow> media_row option" where
  "playable_media db i = find (\<lambda>a. mr_id a = i \<and> \<not> mr_deleted a \<and> mr_ready a \<and> (mr_type a = ''widget'' \<or> mr_variant a)) (pt_media db)"

definition published_layout :: "playlist_db \<Rightarrow> uuid \<Rightarrow> bool" where
  "published_layout db i =
     (case find (\<lambda>l. lr_id l = i \<and> \<not> lr_deleted l) (pt_layouts db) of None \<Rightarrow> False | Some l \<Rightarrow> lr_published l \<noteq> None)"

definition silenced :: "item_input \<Rightarrow> item_input" where
  "silenced x = x\<lparr>ii_delivery := ''stream'', ii_start := None, ii_end := None, ii_audio := Some False, ii_volume := Some 0, ii_defaults := False\<rparr>"

definition validate_layout_item :: "playlist_db \<Rightarrow> uuid \<Rightarrow> item_input \<Rightarrow> playlist_error + item_input" where
  "validate_layout_item db l x =
     (let y = normalize_item_defaults ''layout'' x
      in andthen (check (published_layout db l) LayoutNotPublished) (\<lambda>_.
         andthen (check (positive (ii_duration y)) LayoutDuration) (\<lambda>_. Inr (silenced y))))"

definition validate_media_item :: "playlist_db \<Rightarrow> item_input \<Rightarrow> playlist_error + item_input" where
  "validate_media_item db x =
     (case playable_media db (ii_asset x) of
        None \<Rightarrow> Inl AssetNotReady
      | Some a \<Rightarrow>
          (let y = normalize_with_organization db (mr_type a) x
           in andthen (check (fit_ok (ii_fit y)) FitModeInvalid) (\<lambda>_.
              andthen (check (transition_ok (ii_transition y)) TransitionInvalid) (\<lambda>_.
              andthen (check (delivery_ok (ii_delivery y)) DeliveryInvalid) (\<lambda>_.
              andthen (check (case ii_volume y of None \<Rightarrow> False | Some v \<Rightarrow> 0 \<le> v \<and> v \<le> 1) VolumeRange) (\<lambda>_.
              andthen (check (\<not> (mr_type a = ''image'' \<and> \<not> positive (ii_duration y) \<and> \<not> ii_defaults y)) ItemImageDuration) (\<lambda>_.
              andthen (check (\<not> (mr_type a = ''widget'' \<and> \<not> positive (ii_duration y) \<and> mr_provider a = ''website'')) WebsiteDuration) (\<lambda>_.
              let z = (if mr_type a = ''widget'' then silenced y else y)
              in andthen (if mr_type a = ''video'' then validate_video_range a z else Inr ()) (\<lambda>_. Inr z)))))))))"

definition validate_item :: "playlist_db \<Rightarrow> item_input \<Rightarrow> playlist_error + item_input" where
  "validate_item db x =
     andthen (check ((ii_asset x = uuid_nil) \<noteq> (ii_layout x = None)) ExactlyOneReference) (\<lambda>_.
     case ii_layout x of Some l \<Rightarrow> validate_layout_item db l x | None \<Rightarrow> validate_media_item db x)"

definition input_of_item :: "playlist_item \<Rightarrow> item_input" where
  "input_of_item x =
     \<lparr>ii_asset = (case pi_asset x of None \<Rightarrow> uuid_nil | Some a \<Rightarrow> a), ii_layout = pi_layout x, ii_duration = pi_duration x,
      ii_fit = pi_fit x, ii_transition = pi_transition x, ii_audio = Some (pi_audio x), ii_volume = Some (pi_volume x),
      ii_start = pi_start x, ii_end = pi_end x, ii_delivery = pi_delivery x, ii_defaults = pi_defaults x\<rparr>"

fun validate_doc_items :: "playlist_db \<Rightarrow> uuid list \<Rightarrow> playlist_item list \<Rightarrow> playlist_error + unit" where
  "validate_doc_items db seen [] = Inr ()"
| "validate_doc_items db seen (x # xs) =
     andthen (check (pi_id x \<noteq> uuid_nil \<and> pi_id x \<notin> set seen) DuplicateItemIds) (\<lambda>_.
     andthen (validate_item db (input_of_item x)) (\<lambda>_. validate_doc_items db (pi_id x # seen) xs))"

definition validate_snapshot :: "playlist_db \<Rightarrow> playlist_doc \<Rightarrow> playlist_error + unit" where
  "validate_snapshot db d =
     (let e = pd_details d
      in andthen (validate_details (de_name e) (de_description e)) (\<lambda>_.
         andthen (check (source_ok (de_source e)) SourceTypeInvalid) (\<lambda>_.
         andthen (check (match_ok (de_match e)) TagMatchInvalid) (\<lambda>_.
         andthen (check (image_ms_ok (de_image_ms e)) ImageDurationInvalid) (\<lambda>_.
         andthen (check (\<not> (de_source e = ''tag'' \<and> pd_tags d = [])) TagRequired) (\<lambda>_.
         andthen (first_error (\<lambda>t. check (t \<in> set (pt_known_tags db)) (TagMissing t)) (pd_tags d)) (\<lambda>_.
         validate_doc_items db [] (pd_items d))))))))"

section \<open>Publishing\<close>

definition runtime_items :: "uuid \<Rightarrow> playlist_db \<Rightarrow> playlist_item list" where
  "runtime_items i db = sort_by item_before (rows_of i (pt_items db))"

text \<open>The published rows of a playlist become a stored revision, unless that number is stored already.\<close>

definition record_revision :: "uuid \<Rightarrow> uuid \<Rightarrow> uuid option \<Rightarrow> playlist_db \<Rightarrow> playlist_error + playlist_db" where
  "record_revision new i user db =
     (case find (\<lambda>p. pl_id p = i) (pt_playlists db) of
        None \<Rightarrow> Inr db
      | Some p \<Rightarrow>
          if list_ex (\<lambda>r. rv_playlist r = i \<and> rv_revision r = pl_revision p) (pt_revisions db) then Inr db
          else andthen (check (new \<notin> rv_id ` set (pt_revisions db)) PlaylistConstraint) (\<lambda>_.
            Inr (db\<lparr>pt_revisions := pt_revisions db @
              [\<lparr>rv_id = new, rv_playlist = i, rv_revision = pl_revision p, rv_details = pl_details p,
                rv_items = map (\<lambda>x. x\<lparr>pi_id := uuid_nil\<rparr>) (runtime_items i db), rv_tags = rows_of i (pt_tags db), rv_by = user\<rparr>]\<rparr>)))"

definition revisions_to_keep :: nat where
  "revisions_to_keep = 30"

definition newer_revision :: "revision_row \<Rightarrow> revision_row \<Rightarrow> bool" where
  "newer_revision a b \<longleftrightarrow> rv_revision b < rv_revision a"

definition trimmed :: "(uuid \<Rightarrow> int \<Rightarrow> bool) \<Rightarrow> uuid \<Rightarrow> playlist_db \<Rightarrow> uuid list" where
  "trimmed cited i db =
     map rv_id (drop revisions_to_keep (sort_by newer_revision
       (filter (\<lambda>r. rv_playlist r = i \<and> \<not> cited (rv_id r) (rv_revision r)) (pt_revisions db))))"

definition trim_revisions :: "(uuid \<Rightarrow> int \<Rightarrow> bool) \<Rightarrow> uuid \<Rightarrow> playlist_db \<Rightarrow> playlist_db" where
  "trim_revisions cited i db = db\<lparr>pt_revisions := filter (\<lambda>r. rv_id r \<notin> set (trimmed cited i db)) (pt_revisions db)\<rparr>"

definition snapshot_revision ::
  "(uuid \<Rightarrow> int \<Rightarrow> bool) \<Rightarrow> uuid \<Rightarrow> uuid \<Rightarrow> uuid option \<Rightarrow> playlist_db \<Rightarrow> playlist_error + playlist_db" where
  "snapshot_revision cited new i user db = andthen (record_revision new i user db) (\<lambda>db1. Inr (trim_revisions cited i db1))"

definition next_revision :: "uuid \<Rightarrow> int \<Rightarrow> playlist_db \<Rightarrow> int" where
  "next_revision i current db = Max (insert current (insert 0 (rv_revision ` {r \<in> set (pt_revisions db). rv_playlist r = i}))) + 1"

definition update_playlist :: "uuid \<Rightarrow> (playlist_row \<Rightarrow> playlist_row) \<Rightarrow> playlist_db \<Rightarrow> playlist_db" where
  "update_playlist i f db = db\<lparr>pt_playlists := map (\<lambda>p. if pl_id p = i then f p else p) (pt_playlists db)\<rparr>"

definition bump_manifests :: "uuid list \<Rightarrow> (uuid \<times> int) list \<Rightarrow> (uuid \<times> int) list" where
  "bump_manifests ss ms =
     map (\<lambda>(s, v). (s, if s \<in> set ss then v + 1 else v)) ms @ map (\<lambda>s. (s, 1)) (filter (\<lambda>s. s \<notin> fst ` set ms) (remdups ss))"

text \<open>The published rows are replaced by the document.\<close>

definition replace_runtime :: "uuid \<Rightarrow> playlist_doc \<Rightarrow> int \<Rightarrow> playlist_db \<Rightarrow> playlist_error + playlist_db" where
  "replace_runtime i d revision db =
     andthen (insert_items db i (numbered (pd_items d)) (delete_rows i (pt_items db))) (\<lambda>items.
     andthen (insert_tags db i (pd_tags d) (delete_rows i (pt_tags db))) (\<lambda>tags.
     Inr (update_playlist i (\<lambda>p. p\<lparr>pl_details := pd_details d, pl_revision := revision\<rparr>) (db\<lparr>pt_items := items, pt_tags := tags\<rparr>))))"

definition close_draft :: "uuid \<Rightarrow> int \<Rightarrow> playlist_db \<Rightarrow> playlist_db" where
  "close_draft i working db =
     (if 0 < working then update_draft i (\<lambda>r. if dr_revision r = working then r\<lparr>dr_published := working\<rparr> else r) db else db)"

record playlist_published =
  pp_revision :: int
  pp_revision_id :: uuid
  pp_screens :: nat

definition publish_snapshot ::
  "(playlist_db \<Rightarrow> uuid \<Rightarrow> uuid list) \<Rightarrow> (uuid \<Rightarrow> int \<Rightarrow> bool) \<Rightarrow> uuid \<Rightarrow> uuid \<Rightarrow> playlist_doc \<Rightarrow> int \<Rightarrow> uuid \<Rightarrow> playlist_db \<Rightarrow>
   playlist_error + playlist_published \<times> playlist_db" where
  "publish_snapshot affected cited new i d working user db =
     andthen (validate_snapshot db d) (\<lambda>_.
     case live_playlist db i of
       None \<Rightarrow> Inl PlaylistNotFound
     | Some p \<Rightarrow>
         (let revision = next_revision i (pl_revision p) db
          in andthen (replace_runtime i d revision db) (\<lambda>db1.
             andthen (snapshot_revision cited new i (Some user) db1) (\<lambda>db2.
             case revision_id db2 i revision of
               None \<Rightarrow> Inl NoRows
             | Some rid \<Rightarrow>
                 (let db3 = close_draft i working (ensure_draft i db2);
                      screens = remdups (affected db3 i)
                  in Inr (\<lparr>pp_revision = revision, pp_revision_id = rid, pp_screens = length screens\<rparr>,
                          db3\<lparr>pt_manifests := bump_manifests screens (pt_manifests db3)\<rparr>))))))"

text \<open>A document becomes the working copy.\<close>

definition replace_draft :: "uuid \<Rightarrow> playlist_doc \<Rightarrow> uuid \<Rightarrow> playlist_db \<Rightarrow> playlist_error + playlist_db" where
  "replace_draft i d user db =
     andthen (check (draft_of db i \<noteq> None \<or> pd_items d = []) PlaylistConstraint) (\<lambda>_.
     andthen (insert_items db i (numbered (pd_items d)) (delete_rows i (pt_draft_items db))) (\<lambda>items.
     andthen (check (draft_of db i \<noteq> None \<or> pd_tags d = []) PlaylistConstraint) (\<lambda>_.
     andthen (insert_tags db i (pd_tags d) (delete_rows i (pt_draft_tags db))) (\<lambda>tags.
     Inr (update_draft i (\<lambda>r. edited user (r\<lparr>dr_details := pd_details d\<rparr>)) (db\<lparr>pt_draft_items := items, pt_draft_tags := tags\<rparr>))))))"

definition restore_draft :: "uuid \<Rightarrow> playlist_doc \<Rightarrow> uuid \<Rightarrow> playlist_db \<Rightarrow> playlist_error + playlist_db" where
  "restore_draft i d user db =
     andthen (validate_snapshot db d) (\<lambda>_. replace_draft i d user (ensure_draft i db))"

section \<open>Authoring\<close>

definition create_playlist :: "uuid \<Rightarrow> uuid \<Rightarrow> string \<Rightarrow> string \<Rightarrow> string \<Rightarrow> playlist_db \<Rightarrow> playlist_error + playlist_db" where
  "create_playlist new user name description source db =
     (let n = trim_space name; e = trim_space description
      in andthen (validate_details n e) (\<lambda>_.
         andthen (normalize_source_type source) (\<lambda>s.
         andthen (check (new \<notin> pl_id ` set (pt_playlists db) \<and> draft_of db new = None) PlaylistConstraint) (\<lambda>_.
         let d = \<lparr>de_name = n, de_description = e, de_source = s, de_match = ''any'', de_image_ms = 10000\<rparr>
         in Inr (audit_playlist user ''playlist.created'' new
              (db\<lparr>pt_playlists := pt_playlists db @ [\<lparr>pl_id = new, pl_details = d, pl_revision = 1, pl_by = Some user, pl_deleted = False\<rparr>],
                  pt_drafts := pt_drafts db @ [\<lparr>dr_playlist = new, dr_details = d, dr_revision = 1, dr_published = 1, dr_by = Some user\<rparr>]\<rparr>))))))"

definition update_details :: "uuid \<Rightarrow> uuid \<Rightarrow> string \<Rightarrow> string \<Rightarrow> playlist_db \<Rightarrow> playlist_error + playlist_db" where
  "update_details i user name description db =
     (let n = trim_space name; e = trim_space description; db1 = ensure_draft i db
      in andthen (validate_details n e) (\<lambda>_.
         andthen (check (draft_of db1 i \<noteq> None) PlaylistNotFound) (\<lambda>_.
         Inr (audit_playlist user ''playlist.draft.updated'' i
           (update_draft i (\<lambda>d. edited user (d\<lparr>dr_details := (dr_details d)\<lparr>de_name := n, de_description := e\<rparr>\<rparr>)) db1)))))"

record tag_rule =
  tr_enabled :: bool
  tr_match :: string
  tr_image_ms :: int
  tr_tags :: "uuid list"

definition unique_uuids :: "uuid list \<Rightarrow> uuid list" where
  "unique_uuids xs = rev (remdups (rev (filter (\<lambda>i. i \<noteq> uuid_nil) xs)))"

definition set_tag_rule :: "uuid \<Rightarrow> uuid \<Rightarrow> tag_rule \<Rightarrow> playlist_db \<Rightarrow> playlist_error + playlist_db" where
  "set_tag_rule i user r db =
     (let m = (if tr_match r = [] then ''any'' else tr_match r);
          ms = (if tr_image_ms r = 0 then 10000 else tr_image_ms r);
          tags = unique_uuids (tr_tags r);
          db1 = ensure_draft i db
      in andthen (check (match_ok m) TagMatchInvalid) (\<lambda>_.
         andthen (check (image_ms_ok ms) ImageDurationRange) (\<lambda>_.
         andthen (check (tr_enabled r \<longrightarrow> 1 \<le> length (tr_tags r) \<and> length (tr_tags r) \<le> 20) TagCount) (\<lambda>_.
         andthen (check (tr_enabled r \<longrightarrow> length tags = length (tr_tags r)) TagDuplicates) (\<lambda>_.
         andthen (check (tr_enabled r \<longrightarrow> set tags \<subseteq> set (pt_known_tags db)) ItemInvalid) (\<lambda>_.
         andthen (check (draft_of db1 i \<noteq> None) PlaylistNotFound) (\<lambda>_.
         andthen (insert_tags db1 i tags (delete_rows i (pt_draft_tags db1))) (\<lambda>rows.
         Inr (audit_playlist user ''playlist.draft.tag_rule_updated'' i
           (update_draft i (\<lambda>d. edited user (d\<lparr>dr_details := (dr_details d)
               \<lparr>de_source := (if tr_enabled r then ''tag'' else ''static''), de_match := m, de_image_ms := ms\<rparr>\<rparr>))
             (db1\<lparr>pt_draft_tags := rows\<rparr>)))))))))))"

definition require_static :: "uuid \<Rightarrow> playlist_db \<Rightarrow> playlist_error + unit" where
  "require_static i db =
     (case (draft_of db i, live_playlist db i) of
        (Some d, Some _) \<Rightarrow> check (de_source (dr_details d) = ''static'') PlaylistConflict
      | _ \<Rightarrow> Inl PlaylistNotFound)"

text \<open>
  The check against cycles: what a Layout reaches through the playlists of its published revision and the Layouts in
  their drafts. Each round of the recursive query adds the references that the result does not hold yet.
\<close>

datatype content_ref = LayoutRef uuid | PlaylistRef uuid

fun refs_next :: "playlist_db \<Rightarrow> content_ref \<Rightarrow> content_ref list" where
  "refs_next db (LayoutRef l) =
     [PlaylistRef p. x \<leftarrow> pt_layouts db, lr_id x = l, (v, p) \<leftarrow> pt_layout_uses db, lr_published x = Some v]"
| "refs_next db (PlaylistRef p) = [LayoutRef l. x \<leftarrow> rows_of p (pt_draft_items db), Some l \<leftarrow> [pi_layout x]]"

definition refs_round :: "playlist_db \<Rightarrow> content_ref list \<Rightarrow> content_ref list \<Rightarrow> content_ref list" where
  "refs_round db seen work = remdups (filter (\<lambda>r. r \<notin> set seen) (concat (map (refs_next db) work)))"

function refs_from :: "playlist_db \<Rightarrow> content_ref list \<Rightarrow> content_ref list \<Rightarrow> content_ref list" where
  "refs_from db seen work =
     (if refs_round db seen work = [] then seen
      else refs_from db (seen @ refs_round db seen work) (refs_round db seen work))"
  by pat_completeness auto

definition all_refs :: "playlist_db \<Rightarrow> content_ref set" where
  "all_refs db = PlaylistRef ` snd ` set (pt_layout_uses db) \<union> LayoutRef ` {l. Some l \<in> pi_layout ` snd ` set (pt_draft_items db)}"

lemma finite_all_refs: "finite (all_refs db)"
proof -
  have "{l. Some l \<in> pi_layout ` snd ` set (pt_draft_items db)} = Some -` (pi_layout ` snd ` set (pt_draft_items db))" by auto
  then show ?thesis by (simp add: all_refs_def finite_vimageI)
qed

lemma refs_next_all: "set (refs_next db r) \<subseteq> all_refs db"
proof (cases r)
  case (PlaylistRef p)
  have "LayoutRef l \<in> all_refs db" if "x \<in> set (rows_of p (pt_draft_items db))" "pi_layout x = Some l" for x l
  proof -
    from that(1) have "x \<in> snd ` set (pt_draft_items db)" by (auto simp: rows_of_def)
    with that(2) show ?thesis unfolding all_refs_def by (metis (mono_tags, lifting) UnI2 image_eqI mem_Collect_eq)
  qed
  then show ?thesis using PlaylistRef by (auto split: option.splits)
qed (force simp: all_refs_def)

lemma refs_round_new: "set (refs_round db seen work) \<subseteq> all_refs db - set seen"
  using refs_next_all by (fastforce simp: refs_round_def)

termination refs_from
proof (relation "measure (\<lambda>(db, seen, work). card (all_refs db - set seen))")
  fix db seen work
  assume new: "refs_round db seen work \<noteq> []"
  then obtain r where r: "r \<in> set (refs_round db seen work)" by (cases "refs_round db seen work") auto
  with refs_round_new[of db seen work]
  have "all_refs db - set (seen @ refs_round db seen work) \<subset> all_refs db - set seen" by auto
  then show "((db, seen @ refs_round db seen work, refs_round db seen work), (db, seen, work)) \<in> measure (\<lambda>(db, seen, work). card (all_refs db - set seen))"
    by (simp add: psubset_card_mono finite_all_refs)
qed simp

declare refs_from.simps [simp del]

definition layout_reaches :: "playlist_db \<Rightarrow> uuid \<Rightarrow> uuid \<Rightarrow> bool" where
  "layout_reaches db l p \<longleftrightarrow> PlaylistRef p \<in> set (refs_from db [LayoutRef l] [LayoutRef l])"

definition validate_layout_cycle :: "playlist_db \<Rightarrow> uuid \<Rightarrow> uuid option \<Rightarrow> playlist_error + unit" where
  "validate_layout_cycle db p l =
     (case l of None \<Rightarrow> Inr () | Some i \<Rightarrow> check (\<not> layout_reaches db i p) LayoutContainsPlaylist)"

text \<open>The row of a validated input; \<open>AudioEnabled\<close> and \<open>Volume\<close> are set by then.\<close>

definition stored_item :: "uuid \<Rightarrow> int \<Rightarrow> item_input \<Rightarrow> playlist_item" where
  "stored_item new pos x =
     \<lparr>pi_id = new, pi_asset = (if ii_layout x = None then Some (ii_asset x) else None), pi_layout = ii_layout x, pi_position = pos,
      pi_duration = ii_duration x, pi_fit = ii_fit x, pi_transition = ii_transition x, pi_audio = the (ii_audio x),
      pi_volume = the (ii_volume x), pi_start = ii_start x, pi_end = ii_end x, pi_delivery = ii_delivery x, pi_defaults = ii_defaults x\<rparr>"

definition next_position :: "uuid \<Rightarrow> playlist_db \<Rightarrow> int" where
  "next_position i db = (case rows_of i (pt_draft_items db) of [] \<Rightarrow> 0 | x # xs \<Rightarrow> Max (set (map pi_position (x # xs))) + 1)"

definition add_item :: "uuid \<Rightarrow> uuid \<Rightarrow> uuid \<Rightarrow> item_input \<Rightarrow> playlist_db \<Rightarrow> playlist_error + playlist_db" where
  "add_item new i user x db =
     andthen (require_static i db) (\<lambda>_.
     andthen (validate_layout_cycle db i (ii_layout x)) (\<lambda>_.
     andthen (validate_item db x) (\<lambda>y.
     let db1 = ensure_draft i db
     in andthen (check (draft_of db1 i \<noteq> None) NoRows) (\<lambda>_.
        andthen (insert_item db1 i (stored_item new (next_position i db1) y) (pt_draft_items db1)) (\<lambda>items.
        Inr (audit_playlist user ''playlist.draft.item_added'' i (update_draft i (edited user) (db1\<lparr>pt_draft_items := items\<rparr>))))))))"

text \<open>An \<open>UPDATE\<close> of the draft items of a playlist: the rows chosen change, and the checks hold of what they become.\<close>

definition change_items ::
  "uuid \<Rightarrow> (playlist_item \<Rightarrow> bool) \<Rightarrow> (playlist_item \<Rightarrow> playlist_item) \<Rightarrow> playlist_db \<Rightarrow> playlist_error + playlist_db" where
  "change_items i chosen f db =
     andthen (check (list_all (\<lambda>x. chosen x \<longrightarrow> item_row_ok db (f x)) (rows_of i (pt_draft_items db))) PlaylistConstraint) (\<lambda>_.
     Inr (db\<lparr>pt_draft_items := map (\<lambda>(j, x). (j, if j = i \<and> chosen x then f x else x)) (pt_draft_items db)\<rparr>))"

definition has_item :: "uuid \<Rightarrow> uuid \<Rightarrow> playlist_db \<Rightarrow> bool" where
  "has_item i item db \<longleftrightarrow> item \<in> set (map pi_id (rows_of i (pt_draft_items db)))"

definition update_item :: "uuid \<Rightarrow> uuid \<Rightarrow> uuid \<Rightarrow> item_input \<Rightarrow> playlist_db \<Rightarrow> playlist_error + playlist_db" where
  "update_item i item user x db =
     andthen (require_static i db) (\<lambda>_.
     andthen (validate_item db x) (\<lambda>y.
     andthen (validate_layout_cycle db i (ii_layout y)) (\<lambda>_.
     andthen (change_items i (\<lambda>z. pi_id z = item) (\<lambda>z. stored_item (pi_id z) (pi_position z) y) db) (\<lambda>db1.
     andthen (check (has_item i item db) PlaylistNotFound) (\<lambda>_.
     andthen (bump_draft i user db1) (\<lambda>db2.
     Inr (audit_playlist user ''playlist.draft.item_updated'' i db2)))))))"

text \<open>\<open>row_number() OVER (ORDER BY position) - 1\<close>: the number of rows before.\<close>

definition rank_in :: "playlist_item list \<Rightarrow> playlist_item \<Rightarrow> int" where
  "rank_in xs x = int (length (filter (\<lambda>y. pi_position y < pi_position x) xs))"

definition close_gaps :: "uuid \<Rightarrow> (uuid \<times> playlist_item) list \<Rightarrow> (uuid \<times> playlist_item) list" where
  "close_gaps i xs = map (\<lambda>(j, x). (j, if j = i then x\<lparr>pi_position := rank_in (rows_of i xs) x\<rparr> else x)) xs"

definition delete_item :: "uuid \<Rightarrow> uuid \<Rightarrow> uuid \<Rightarrow> playlist_db \<Rightarrow> playlist_error + playlist_db" where
  "delete_item i item user db =
     andthen (require_static i db) (\<lambda>_.
     andthen (check (has_item i item db) PlaylistNotFound) (\<lambda>_.
     let items = filter (\<lambda>(j, x). \<not> (j = i \<and> pi_id x = item)) (pt_draft_items db)
     in andthen (bump_draft i user (db\<lparr>pt_draft_items := close_gaps i items\<rparr>)) (\<lambda>db1.
        Inr (audit_playlist user ''playlist.draft.item_deleted'' i db1))))"

fun index_from :: "nat \<Rightarrow> 'a list \<Rightarrow> 'a \<Rightarrow> nat" where
  "index_from n [] y = n"
| "index_from n (x # xs) y = (if x = y then n else index_from (Suc n) xs y)"

definition reorder :: "uuid \<Rightarrow> uuid \<Rightarrow> uuid list \<Rightarrow> playlist_db \<Rightarrow> playlist_error + playlist_db" where
  "reorder i user order db =
     andthen (require_static i db) (\<lambda>_.
     andthen (check (length order = length (rows_of i (pt_draft_items db))) OrderIncomplete) (\<lambda>_.
     andthen (check (distinct order) OrderDuplicate) (\<lambda>_.
     andthen (check (list_all (\<lambda>item. has_item i item db) order) OrderUnknown) (\<lambda>_.
     let items = map (\<lambda>(j, x). (j, if j = i then x\<lparr>pi_position := int (index_from 0 order (pi_id x))\<rparr> else x)) (pt_draft_items db)
     in andthen (bump_draft i user (db\<lparr>pt_draft_items := items\<rparr>)) (\<lambda>db1.
        Inr (audit_playlist user ''playlist.draft.reordered'' i db1))))))"

record bulk_input =
  bi_items :: "uuid list"
  bi_transition :: "string option"
  bi_duration :: "int option"

definition validate_bulk :: "bulk_input \<Rightarrow> playlist_error + unit" where
  "validate_bulk x =
     andthen (check ((bi_transition x = None) \<noteq> (bi_duration x = None)) BulkOneField) (\<lambda>_.
     andthen (check (case bi_transition x of None \<Rightarrow> True | Some t \<Rightarrow> transition_ok t) TransitionInvalid) (\<lambda>_.
     andthen (check (bi_duration x = None \<or> positive (bi_duration x)) ItemImageDuration) (\<lambda>_.
     andthen (check (uuid_nil \<notin> set (bi_items x)) BulkItemId) (\<lambda>_.
     check (distinct (bi_items x)) BulkDuplicate))))"

definition is_image :: "playlist_db \<Rightarrow> playlist_item \<Rightarrow> bool" where
  "is_image db x \<longleftrightarrow> (case pi_asset x of None \<Rightarrow> False | Some a \<Rightarrow> list_ex (\<lambda>r. mr_id r = a \<and> mr_type r = ''image'') (pt_media db))"

definition bulk_chosen :: "playlist_db \<Rightarrow> bulk_input \<Rightarrow> playlist_item \<Rightarrow> bool" where
  "bulk_chosen db b x \<longleftrightarrow> (bi_items b = [] \<or> pi_id x \<in> set (bi_items b)) \<and> (bi_transition b = None \<longrightarrow> is_image db x)"

definition bulk_change :: "playlist_db \<Rightarrow> bulk_input \<Rightarrow> playlist_item \<Rightarrow> playlist_item" where
  "bulk_change db b x =
     (case bi_transition b of
        Some t \<Rightarrow> x\<lparr>pi_transition := t, pi_defaults := False,
          pi_duration := (if pi_duration x = None \<and> is_image db x then Some (case pt_image_ms db of None \<Rightarrow> 10000 | Some n \<Rightarrow> n) else pi_duration x)\<rparr>
      | None \<Rightarrow> x\<lparr>pi_duration := bi_duration b, pi_defaults := False\<rparr>)"

definition bulk_update :: "uuid \<Rightarrow> uuid \<Rightarrow> bulk_input \<Rightarrow> playlist_db \<Rightarrow> playlist_error + playlist_db" where
  "bulk_update i user b db =
     andthen (require_static i db) (\<lambda>_.
     andthen (validate_bulk b) (\<lambda>_.
     andthen (check (list_all (\<lambda>item. has_item i item db) (bi_items b)) BulkUnknown) (\<lambda>_.
     andthen (change_items i (bulk_chosen db b) (bulk_change db b) db) (\<lambda>db1.
     if list_ex (bulk_chosen db b) (rows_of i (pt_draft_items db)) then
       andthen (bump_draft i user db1) (\<lambda>db2. Inr (audit_playlist user ''playlist.draft.items_bulk_updated'' i db2))
     else Inr db1))))"

text \<open>The number of assignments, schedules, takeovers, overrides and Layouts that use the playlist is an argument.\<close>

definition delete_playlist :: "nat \<Rightarrow> uuid \<Rightarrow> uuid \<Rightarrow> playlist_db \<Rightarrow> playlist_error + playlist_db" where
  "delete_playlist uses i user db =
     andthen (check (uses = 0) PlaylistConflict) (\<lambda>_.
     andthen (check (live_playlist db i \<noteq> None) PlaylistNotFound) (\<lambda>_.
     Inr (audit_playlist user ''playlist.deleted'' i (update_playlist i (\<lambda>p. p\<lparr>pl_deleted := True\<rparr>) db))))"

text \<open>
  Duplicating creates a playlist in one transaction and fills its draft in a second: when that fails, the empty copy
  stays.
\<close>

definition authored_details :: "uuid \<Rightarrow> playlist_db \<Rightarrow> details option" where
  "authored_details i db =
     (case live_playlist db i of
        None \<Rightarrow> None
      | Some p \<Rightarrow> (case draft_of db i of None \<Rightarrow> Some (pl_details p) | Some d \<Rightarrow> Some (dr_details d)))"

definition copy_items :: "(nat \<Rightarrow> uuid) \<Rightarrow> playlist_item list \<Rightarrow> playlist_item list" where
  "copy_items fresh xs = map (\<lambda>(n, x). x\<lparr>pi_id := fresh n\<rparr>) (enumerate 0 xs)"

definition fill_copy :: "(nat \<Rightarrow> uuid) \<Rightarrow> uuid \<Rightarrow> uuid \<Rightarrow> uuid \<Rightarrow> details \<Rightarrow> playlist_db \<Rightarrow> playlist_error + playlist_db" where
  "fill_copy fresh new user i e db =
     (let tagged = de_source e = ''tag'';
          db1 = update_draft new (\<lambda>d. edited user (d\<lparr>dr_details := (dr_details d)
            \<lparr>de_source := de_source e, de_match := (if tagged then de_match e else ''any''),
             de_image_ms := (if tagged then de_image_ms e else 10000)\<rparr>\<rparr>)) db
      in andthen (insert_items db1 new (copy_items fresh (rows_of i (pt_draft_items db1))) (pt_draft_items db1)) (\<lambda>items.
         andthen (insert_tags db1 new (rows_of i (pt_draft_tags db1)) (pt_draft_tags db1)) (\<lambda>tags.
         Inr (db1\<lparr>pt_draft_items := items, pt_draft_tags := tags\<rparr>))))"

definition duplicate :: "(nat \<Rightarrow> uuid) \<Rightarrow> uuid \<Rightarrow> uuid \<Rightarrow> uuid \<Rightarrow> playlist_db \<Rightarrow> (playlist_error + uuid) \<times> playlist_db" where
  "duplicate fresh new i user db =
     (case authored_details i db of
        None \<Rightarrow> (Inl PlaylistNotFound, db)
      | Some e \<Rightarrow>
          (case create_playlist new user (de_name e @ '' copy'') (de_description e) (de_source e) db of
             Inl err \<Rightarrow> (Inl err, db)
           | Inr db1 \<Rightarrow> (case fill_copy fresh new user i e db1 of Inl err \<Rightarrow> (Inl err, db1) | Inr db2 \<Rightarrow> (Inr new, db2))))"

section \<open>Stored revisions\<close>

definition content_present :: "playlist_db \<Rightarrow> playlist_item \<Rightarrow> bool" where
  "content_present db x =
     (case pi_asset x of
        Some a \<Rightarrow> list_ex (\<lambda>r. mr_id r = a \<and> \<not> mr_deleted r \<and> mr_ready r) (pt_media db)
      | None \<Rightarrow> (case pi_layout x of
          None \<Rightarrow> False
        | Some l \<Rightarrow> list_ex (\<lambda>r. lr_id r = l \<and> \<not> lr_deleted r \<and> lr_published r \<noteq> None) (pt_layouts db)))"

fun insert_known_tags :: "playlist_db \<Rightarrow> uuid \<Rightarrow> uuid list \<Rightarrow> (uuid \<times> uuid) list \<Rightarrow> (uuid \<times> uuid) list" where
  "insert_known_tags db i [] xs = xs"
| "insert_known_tags db i (t # ts) xs =
     insert_known_tags db i ts (if t \<in> set (pt_known_tags db) \<and> (i, t) \<notin> set xs then xs @ [(i, t)] else xs)"

definition restored_items :: "(nat \<Rightarrow> uuid) \<Rightarrow> playlist_db \<Rightarrow> revision_row \<Rightarrow> playlist_item list" where
  "restored_items fresh db r = numbered (copy_items fresh (filter (content_present db) (sort_key pi_position (rv_items r))))"

definition restore_revision ::
  "(nat \<Rightarrow> uuid) \<Rightarrow> uuid \<Rightarrow> int \<Rightarrow> uuid \<Rightarrow> playlist_db \<Rightarrow> playlist_error + (int \<times> nat) \<times> playlist_db" where
  "restore_revision fresh i n user db =
     (let db1 = ensure_draft i db
      in case find (\<lambda>r. rv_playlist r = i \<and> rv_revision r = n) (pt_revisions db1) of
           None \<Rightarrow> Inl PlaylistNotFound
         | Some r \<Rightarrow>
             (let db2 = db1\<lparr>pt_items := delete_rows i (pt_items db1)\<rparr>; xs = restored_items fresh db2 r
              in andthen (check (draft_of db2 i \<noteq> None \<or> xs = []) PlaylistConstraint) (\<lambda>_.
                 andthen (insert_items db2 i xs (delete_rows i (pt_draft_items db2))) (\<lambda>items.
                 case draft_of db2 i of
                   None \<Rightarrow> Inl PlaylistNotFound
                 | Some d \<Rightarrow> Inr ((dr_revision d + 1, length (rv_items r) - length xs),
                     audit_playlist user ''playlist.version_restored_to_draft'' i
                       (update_draft i (\<lambda>d. edited user (d\<lparr>dr_details := rv_details r\<rparr>))
                         (db2\<lparr>pt_draft_items := items,
                              pt_draft_tags := insert_known_tags db2 i (rv_tags r) (delete_rows i (pt_draft_tags db2))\<rparr>)))))))"

text \<open>Listing the revisions stores the current one first, if it is missing.\<close>

record revision_summary =
  rs_revision :: int
  rs_name :: string
  rs_count :: nat
  rs_source :: string
  rs_current :: bool
  rs_missing :: nat
  rs_restorable :: bool

definition summary_of :: "playlist_db \<Rightarrow> int \<Rightarrow> revision_row \<Rightarrow> revision_summary" where
  "summary_of db current r =
     (let n = length (rv_items r);
          missing = length (filter (\<lambda>x. (pi_asset x \<noteq> None \<and> \<not> content_present db (x\<lparr>pi_layout := None\<rparr>))
              \<or> (pi_layout x \<noteq> None \<and> \<not> content_present db (x\<lparr>pi_asset := None\<rparr>))) (rv_items r))
      in \<lparr>rs_revision = rv_revision r, rs_name = de_name (rv_details r), rs_count = n, rs_source = de_source (rv_details r),
          rs_current = (rv_revision r = current), rs_missing = missing,
          rs_restorable = (rv_revision r \<noteq> current \<and> (n = 0 \<or> missing < n))\<rparr>)"

definition list_revisions ::
  "(uuid \<Rightarrow> int \<Rightarrow> bool) \<Rightarrow> uuid \<Rightarrow> uuid \<Rightarrow> playlist_db \<Rightarrow> playlist_error + revision_summary list \<times> playlist_db" where
  "list_revisions cited new i db =
     (case live_playlist db i of
        None \<Rightarrow> Inl PlaylistNotFound
      | Some p \<Rightarrow> andthen (snapshot_revision cited new i None db) (\<lambda>db1.
          Inr (map (summary_of db1 (pl_revision p)) (sort_by newer_revision (filter (\<lambda>r. rv_playlist r = i) (pt_revisions db1))), db1)))"

section \<open>Histories\<close>

datatype playlist_op =
    PlCreate uuid uuid string string string
  | PlUpdate uuid uuid string string
  | PlTagRule uuid uuid tag_rule
  | PlAdd uuid uuid uuid item_input
  | PlChange uuid uuid uuid item_input
  | PlRemove uuid uuid uuid
  | PlReorder uuid uuid "uuid list"
  | PlBulk uuid uuid bulk_input
  | PlDuplicate "nat \<Rightarrow> uuid" uuid uuid uuid
  | PlDelete nat uuid uuid
  | PlSnapshot uuid
  | PlPublish "uuid \<Rightarrow> int \<Rightarrow> bool" uuid uuid playlist_doc int uuid
  | PlRestore uuid playlist_doc uuid
  | PlRestoreRevision "nat \<Rightarrow> uuid" uuid int uuid
  | PlListRevisions "uuid \<Rightarrow> int \<Rightarrow> bool" uuid uuid
  | PlLibrary "media_row list" "layout_ref list" "(uuid \<times> uuid) list" "uuid list" "(string \<times> string) list" "int option"

definition settled :: "playlist_db \<Rightarrow> playlist_error + playlist_db \<Rightarrow> playlist_db" where
  "settled db r = (case r of Inl _ \<Rightarrow> db | Inr db' \<Rightarrow> db')"

definition settled_with :: "playlist_db \<Rightarrow> playlist_error + 'a \<times> playlist_db \<Rightarrow> playlist_db" where
  "settled_with db r = (case r of Inl _ \<Rightarrow> db | Inr (_, db') \<Rightarrow> db')"

definition playlist_step :: "(playlist_db \<Rightarrow> uuid \<Rightarrow> uuid list) \<Rightarrow> playlist_op \<Rightarrow> playlist_db \<Rightarrow> playlist_db" where
  "playlist_step affected op db =
     (case op of
        PlCreate new user name description source \<Rightarrow> settled db (create_playlist new user name description source db)
      | PlUpdate i user name description \<Rightarrow> settled db (update_details i user name description db)
      | PlTagRule i user r \<Rightarrow> settled db (set_tag_rule i user r db)
      | PlAdd new i user x \<Rightarrow> settled db (add_item new i user x db)
      | PlChange i item user x \<Rightarrow> settled db (update_item i item user x db)
      | PlRemove i item user \<Rightarrow> settled db (delete_item i item user db)
      | PlReorder i user order \<Rightarrow> settled db (reorder i user order db)
      | PlBulk i user b \<Rightarrow> settled db (bulk_update i user b db)
      | PlDuplicate fresh new i user \<Rightarrow> snd (duplicate fresh new i user db)
      | PlDelete uses i user \<Rightarrow> settled db (delete_playlist uses i user db)
      | PlSnapshot i \<Rightarrow> settled_with db (snapshot_draft i db)
      | PlPublish cited new i d working user \<Rightarrow> settled_with db (publish_snapshot affected cited new i d working user db)
      | PlRestore i d user \<Rightarrow> settled db (restore_draft i d user db)
      | PlRestoreRevision fresh i n user \<Rightarrow> settled_with db (restore_revision fresh i n user db)
      | PlListRevisions cited new i \<Rightarrow> settled_with db (list_revisions cited new i db)
      | PlLibrary media layouts uses tags settings ms \<Rightarrow>
          db\<lparr>pt_media := media, pt_layouts := layouts, pt_layout_uses := uses, pt_known_tags := tags, pt_settings := settings, pt_image_ms := ms\<rparr>)"

section \<open>Rows\<close>

lemma rows_of_simps [simp]:
  "rows_of i [] = []" "rows_of i ((j, x) # xs) = (if j = i then x # rows_of i xs else rows_of i xs)"
  "rows_of i (xs @ ys) = rows_of i xs @ rows_of i ys"
  by (simp_all add: rows_of_def)

lemma rows_of_delete [simp]: "rows_of j (delete_rows i xs) = (if j = i then [] else rows_of j xs)"
  by (induction xs) (auto simp: delete_rows_def rows_of_def)

lemma rows_of_map: "rows_of j (map (\<lambda>(k, x). (k, f k x)) xs) = map (f j) (rows_of j xs)"
  by (induction xs) auto

lemma insert_item_Inr: "insert_item db i x xs = Inr ys \<longleftrightarrow>
    item_row_ok db x \<and> pi_id x \<notin> set (map (pi_id \<circ> snd) xs) \<and> pi_position x \<notin> set (map pi_position (rows_of i xs)) \<and> ys = xs @ [(i, x)]"
  by (auto simp: insert_item_def)

lemma insert_items_append: "insert_items db i ys xs = Inr zs \<Longrightarrow> zs = xs @ map (Pair i) ys"
  by (induction ys arbitrary: xs) (fastforce simp: insert_item_Inr)+

lemma insert_tags_append: "insert_tags db i ts xs = Inr zs \<Longrightarrow> zs = xs @ map (Pair i) ts"
  by (induction ts arbitrary: xs) fastforce+

lemma rows_of_pairs [simp]: "rows_of j (map (Pair i) xs) = (if j = i then xs else [])"
  by (induction xs) auto

lemma insert_items_rows: "insert_items db i ys xs = Inr zs \<Longrightarrow> rows_of j zs = rows_of j xs @ (if j = i then ys else [])"
  by (drule insert_items_append) auto

lemma insert_tags_rows: "insert_tags db i ts xs = Inr zs \<Longrightarrow> rows_of j zs = rows_of j xs @ (if j = i then ts else [])"
  by (drule insert_tags_append) auto

lemma insert_known_tags_rows: "j \<noteq> i \<Longrightarrow> rows_of j (insert_known_tags db i ts xs) = rows_of j xs"
  by (induction ts arbitrary: xs) auto

lemma copied_rows:
  "j \<noteq> i \<Longrightarrow> rows_of j (copied_items i db) = []" "j \<noteq> i \<Longrightarrow> rows_of j (copied_tags i db) = []"
  by (auto simp: rows_of_def copied_items_def copied_tags_def filter_empty_conv)

lemma draft_of_update:
  "(\<And>d. dr_playlist (f d) = dr_playlist d) \<Longrightarrow> draft_of (update_draft i f db) j = map_option (\<lambda>d. if j = i then f d else d) (draft_of db j)"
proof -
  assume f: "\<And>d. dr_playlist (f d) = dr_playlist d"
  have "find (\<lambda>d. dr_playlist d = j) (map (\<lambda>d. if dr_playlist d = i then f d else d) ds) =
      map_option (\<lambda>d. if j = i then f d else d) (find (\<lambda>d. dr_playlist d = j) ds)" for ds
    by (induction ds) (auto simp: f)
  then show ?thesis by (simp add: draft_of_def update_draft_def)
qed

lemma draft_of_append: "draft_of (db\<lparr>pt_drafts := pt_drafts db @ [d]\<rparr>) j =
    (case draft_of db j of None \<Rightarrow> (if dr_playlist d = j then Some d else None) | x \<Rightarrow> x)"
proof -
  have "find (\<lambda>d. dr_playlist d = j) (ds @ [d]) =
      (case find (\<lambda>d. dr_playlist d = j) ds of None \<Rightarrow> (if dr_playlist d = j then Some d else None) | x \<Rightarrow> x)" for ds
    by (induction ds) auto
  then show ?thesis by (simp add: draft_of_def)
qed

lemma draft_of_playlist: "draft_of db i = Some d \<Longrightarrow> dr_playlist d = i"
  by (auto simp: draft_of_def find_Some_iff)

lemma update_draft_simps [simp]:
  "pt_playlists (update_draft i f db) = pt_playlists db" "pt_items (update_draft i f db) = pt_items db"
  "pt_tags (update_draft i f db) = pt_tags db" "pt_manifests (update_draft i f db) = pt_manifests db"
  "pt_draft_items (update_draft i f db) = pt_draft_items db" "pt_draft_tags (update_draft i f db) = pt_draft_tags db"
  "pt_revisions (update_draft i f db) = pt_revisions db"
  by (simp_all add: update_draft_def)

lemma audit_playlist_simps [simp]:
  "pt_playlists (audit_playlist u a i db) = pt_playlists db" "pt_items (audit_playlist u a i db) = pt_items db"
  "pt_tags (audit_playlist u a i db) = pt_tags db" "pt_manifests (audit_playlist u a i db) = pt_manifests db"
  "pt_draft_items (audit_playlist u a i db) = pt_draft_items db" "pt_draft_tags (audit_playlist u a i db) = pt_draft_tags db"
  "pt_drafts (audit_playlist u a i db) = pt_drafts db" "pt_revisions (audit_playlist u a i db) = pt_revisions db"
  by (simp_all add: audit_playlist_def)

lemma ensure_draft_simps [simp]:
  "pt_playlists (ensure_draft i db) = pt_playlists db" "pt_items (ensure_draft i db) = pt_items db"
  "pt_tags (ensure_draft i db) = pt_tags db" "pt_manifests (ensure_draft i db) = pt_manifests db"
  "pt_revisions (ensure_draft i db) = pt_revisions db" "live_playlist (ensure_draft i db) j = live_playlist db j"
  by (simp_all add: ensure_draft_def live_playlist_def split: option.splits)

section \<open>Editing leaves the published playlist alone\<close>

definition published_kept :: "playlist_db \<Rightarrow> playlist_db \<Rightarrow> bool" where
  "published_kept db db' \<longleftrightarrow> pt_items db' = pt_items db \<and> pt_tags db' = pt_tags db \<and> pt_manifests db' = pt_manifests db
     \<and> (\<exists>new. pt_playlists db' = pt_playlists db @ new)"

lemma published_kept_refl [simp]: "published_kept db db"
  by (simp add: published_kept_def)

lemma published_kept_trans: "published_kept db db1 \<Longrightarrow> published_kept db1 db2 \<Longrightarrow> published_kept db db2"
  by (auto simp: published_kept_def)

lemma published_kept_simps [simp]:
  "published_kept db (update_draft i f db') \<longleftrightarrow> published_kept db db'" "published_kept db (audit_playlist u a i db') \<longleftrightarrow> published_kept db db'"
  "published_kept db (ensure_draft i db') \<longleftrightarrow> published_kept db db'"
  "published_kept db (db'\<lparr>pt_draft_items := x\<rparr>) \<longleftrightarrow> published_kept db db'" "published_kept db (db'\<lparr>pt_draft_tags := y\<rparr>) \<longleftrightarrow> published_kept db db'"
  "published_kept db (db'\<lparr>pt_media := m, pt_layouts := l, pt_layout_uses := w, pt_known_tags := t, pt_settings := g, pt_image_ms := n\<rparr>) \<longleftrightarrow> published_kept db db'"
  by (simp_all add: published_kept_def)

lemma bump_draft_kept: "bump_draft i user db1 = Inr db' \<Longrightarrow> published_kept db db1 \<Longrightarrow> published_kept db db'"
  by (auto simp: bump_draft_def Let_def)

lemma change_items_kept: "change_items i c f db = Inr db' \<Longrightarrow> published_kept db db'"
  by (auto simp: change_items_def)

lemma create_kept: "create_playlist new user n e s db = Inr db' \<Longrightarrow> published_kept db db'"
  by (auto simp: create_playlist_def Let_def published_kept_def)

lemma fill_copy_kept: "fill_copy fresh new user i e db = Inr db' \<Longrightarrow> published_kept db db'"
  by (auto simp: fill_copy_def Let_def)

lemma duplicate_kept: "published_kept db (snd (duplicate fresh new i user db))"
  by (auto simp: duplicate_def split: option.splits sum.splits dest!: create_kept fill_copy_kept intro: published_kept_trans)

lemma item_edits_kept:
  "update_details i user n e db = Inr db' \<Longrightarrow> published_kept db db'"
  "set_tag_rule i user r db = Inr db' \<Longrightarrow> published_kept db db'"
  "add_item new i user x db = Inr db' \<Longrightarrow> published_kept db db'"
  "update_item i item user x db = Inr db' \<Longrightarrow> published_kept db db'"
  "delete_item i item user db = Inr db' \<Longrightarrow> published_kept db db'"
  "reorder i user order db = Inr db' \<Longrightarrow> published_kept db db'"
  "bulk_update i user b db = Inr db' \<Longrightarrow> published_kept db db'"
  by (auto simp: update_details_def set_tag_rule_def add_item_def update_item_def delete_item_def reorder_def bulk_update_def Let_def
      dest: bump_draft_kept[where db = db] change_items_kept split: if_splits)

lemma document_edits_kept:
  "snapshot_draft i db = Inr (sn, db') \<Longrightarrow> published_kept db db'"
  "restore_draft i d user db = Inr db' \<Longrightarrow> published_kept db db'"
  "list_revisions cited new i db = Inr (rs, db') \<Longrightarrow> published_kept db db'"
  by (auto simp: snapshot_draft_def restore_draft_def replace_draft_def list_revisions_def snapshot_revision_def record_revision_def
      trim_revisions_def Let_def published_kept_def split: option.splits if_splits)

text \<open>The operations of authors: everything but publishing, deleting, and putting a stored revision back.\<close>

definition authoring :: "playlist_op \<Rightarrow> bool" where
  "authoring op = (case op of PlPublish _ _ _ _ _ _ \<Rightarrow> False | PlDelete _ _ _ \<Rightarrow> False | PlRestoreRevision _ _ _ _ \<Rightarrow> False | _ \<Rightarrow> True)"

lemma settled_kept: "(\<And>db'. r = Inr db' \<Longrightarrow> published_kept db db') \<Longrightarrow> published_kept db (settled db r)"
  by (cases r) (auto simp: settled_def)

lemma settled_with_kept: "(\<And>x db'. r = Inr (x, db') \<Longrightarrow> published_kept db db') \<Longrightarrow> published_kept db (settled_with db r)"
  by (cases r) (auto simp: settled_with_def)

lemma step_kept: "authoring op \<Longrightarrow> published_kept db (playlist_step affected op db)"
  by (cases op) (auto simp: playlist_step_def authoring_def duplicate_kept
      intro!: settled_kept settled_with_kept intro: create_kept item_edits_kept document_edits_kept)

lemma edits_kept: "list_all authoring ops \<Longrightarrow> published_kept db (fold (playlist_step affected) ops db)"
  by (induction ops arbitrary: db) (auto intro: published_kept_trans step_kept)

text \<open>With putting a stored revision back, some playlists lose all their published items; nothing else happens to the rows.\<close>

definition private_op :: "playlist_op \<Rightarrow> bool" where
  "private_op op = (case op of PlPublish _ _ _ _ _ _ \<Rightarrow> False | PlDelete _ _ _ \<Rightarrow> False | _ \<Rightarrow> True)"

definition puts_back :: "uuid \<Rightarrow> playlist_op \<Rightarrow> bool" where
  "puts_back i op = (case op of PlRestoreRevision _ j _ _ \<Rightarrow> j = i | _ \<Rightarrow> False)"

definition emptied :: "uuid set \<Rightarrow> playlist_db \<Rightarrow> playlist_db \<Rightarrow> bool" where
  "emptied is db db' \<longleftrightarrow> pt_items db' = filter (\<lambda>r. fst r \<notin> is) (pt_items db) \<and> pt_tags db' = pt_tags db
     \<and> pt_manifests db' = pt_manifests db \<and> (\<exists>new. pt_playlists db' = pt_playlists db @ new)"

lemma emptied_none: "published_kept db db' \<Longrightarrow> emptied {} db db'"
  by (simp add: emptied_def published_kept_def)

lemma emptied_trans: "emptied is db db1 \<Longrightarrow> emptied js db1 db2 \<Longrightarrow> emptied (is \<union> js) db db2"
  by (auto simp: emptied_def intro!: filter_cong)

lemma restore_revision_emptied: "restore_revision fresh i n user db = Inr (r, db') \<Longrightarrow> emptied {i} db db'"
  by (auto simp: restore_revision_def Let_def emptied_def delete_rows_def case_prod_beta split: option.splits)

lemma private_step:
  assumes "private_op op"
  shows "\<exists>is. emptied is db (playlist_step affected op db) \<and> (\<forall>i\<in>is. puts_back i op)"
proof (cases "authoring op")
  case True
  then show ?thesis using emptied_none step_kept by blast
next
  case False
  then obtain fresh i n user where op: "op = PlRestoreRevision fresh i n user"
    using assms by (cases op) (auto simp: authoring_def private_op_def)
  show ?thesis
  proof (cases "restore_revision fresh i n user db")
    case (Inl e)
    then show ?thesis using emptied_none [of db db] by (auto simp: op playlist_step_def settled_with_def)
  next
    case (Inr x)
    then have "emptied {i} db (playlist_step affected op db)"
      using restore_revision_emptied by (cases x) (auto simp: op playlist_step_def settled_with_def)
    then show ?thesis by (auto simp: op puts_back_def)
  qed
qed

lemma private_history:
  "list_all private_op ops \<Longrightarrow>
     \<exists>is. emptied is db (fold (playlist_step affected) ops db) \<and> (\<forall>i\<in>is. list_ex (puts_back i) ops)"
proof (induction ops arbitrary: db)
  case Nil
  then show ?case using emptied_none [of db db] by auto
next
  case (Cons op ops)
  obtain xs where x: "emptied xs db (playlist_step affected op db)" "\<forall>i\<in>xs. puts_back i op"
    using private_step Cons.prems by force
  obtain ys where y: "emptied ys (playlist_step affected op db) (fold (playlist_step affected) ops (playlist_step affected op db))"
      "\<forall>i\<in>ys. list_ex (puts_back i) ops"
    using Cons by force
  from emptied_trans [OF x(1) y(1)] x(2) y(2) show ?case by (intro exI [of _ "xs \<union> ys"]) auto
qed


text \<open>
  The exception is a flaw: \<open>RestoreRevision\<close> says that it never touches the published rows, but its first statement
  deletes the published items. The playlist is empty for every manifest built from then on.
\<close>

theorem restore_revision_empties_published:
  assumes "restore_revision fresh i n user db = Inr (r, db')"
  shows "runtime_items i db' = [] \<and> find (\<lambda>p. pl_id p = i) (pt_playlists db') = find (\<lambda>p. pl_id p = i) (pt_playlists db)"
  using assms by (auto simp: restore_revision_def Let_def runtime_items_def split: option.splits)

section \<open>A working revision identifies a draft\<close>

definition draft_moves :: "playlist_db \<Rightarrow> playlist_db \<Rightarrow> bool" where
  "draft_moves db db' \<longleftrightarrow> (\<forall>j d. draft_of db j = Some d \<longrightarrow> (\<exists>d'. draft_of db' j = Some d' \<and> (dr_revision d < dr_revision d'
     \<or> dr_revision d' = dr_revision d \<and> draft_document db' d' = draft_document db d)))"

lemma draft_moves_refl [simp]: "draft_moves db db"
  by (simp add: draft_moves_def)

lemma draft_moves_trans:
  assumes "draft_moves db db1" "draft_moves db1 db2"
  shows "draft_moves db db2"
  unfolding draft_moves_def
proof (intro allI impI)
  fix j d
  assume "draft_of db j = Some d"
  with assms(1) obtain d1 where d1: "draft_of db1 j = Some d1"
    "dr_revision d < dr_revision d1 \<or> dr_revision d1 = dr_revision d \<and> draft_document db1 d1 = draft_document db d"
    unfolding draft_moves_def by blast
  with assms(2) obtain d2 where "draft_of db2 j = Some d2"
    "dr_revision d1 < dr_revision d2 \<or> dr_revision d2 = dr_revision d1 \<and> draft_document db2 d2 = draft_document db1 d1"
    unfolding draft_moves_def by blast
  with d1 show "\<exists>d'. draft_of db2 j = Some d' \<and> (dr_revision d < dr_revision d'
     \<or> dr_revision d' = dr_revision d \<and> draft_document db2 d' = draft_document db d)" by auto
qed

text \<open>Statements that leave the drafts alone, and statements on one draft that end with a new number for it.\<close>

lemma draft_moves_same:
  "pt_drafts db' = pt_drafts db \<Longrightarrow> pt_draft_items db' = pt_draft_items db \<Longrightarrow> pt_draft_tags db' = pt_draft_tags db \<Longrightarrow> draft_moves db db'"
  by (simp add: draft_moves_def draft_of_def draft_document_def)

definition only_rows :: "uuid \<Rightarrow> playlist_db \<Rightarrow> playlist_db \<Rightarrow> bool" where
  "only_rows i db db' \<longleftrightarrow> pt_drafts db' = pt_drafts db
     \<and> (\<forall>j. j \<noteq> i \<longrightarrow> rows_of j (pt_draft_items db') = rows_of j (pt_draft_items db) \<and> rows_of j (pt_draft_tags db') = rows_of j (pt_draft_tags db))"

lemma renumbered_moves:
  assumes "only_rows i db db1" "\<And>d. dr_playlist (f d) = dr_playlist d" "\<And>d. dr_revision d < dr_revision (f d)"
  shows "draft_moves db (update_draft i f db1)"
  unfolding draft_moves_def
proof (intro allI impI)
  fix j d
  assume d: "draft_of db j = Some d"
  have now: "draft_of (update_draft i f db1) j = Some (if j = i then f d else d)"
  proof -
    have "draft_of db1 j = Some d" using d assms(1) by (simp add: only_rows_def draft_of_def)
    then show ?thesis by (simp add: draft_of_update[OF assms(2)])
  qed
  show "\<exists>d'. draft_of (update_draft i f db1) j = Some d' \<and> (dr_revision d < dr_revision d'
     \<or> dr_revision d' = dr_revision d \<and> draft_document (update_draft i f db1) d' = draft_document db d)"
  proof (cases "j = i")
    case True
    with now assms(3) show ?thesis by simp
  next
    case False
    with now assms(1) draft_of_playlist[OF d] show ?thesis by (auto simp: only_rows_def draft_document_def)
  qed
qed

lemma edited_numbers [simp]: "dr_playlist (edited u d) = dr_playlist d" "dr_revision (edited u d) = dr_revision d + 1"
  by (simp_all add: edited_def)

lemma draft_moves_simps [simp]:
  "draft_moves db (audit_playlist u a i db') \<longleftrightarrow> draft_moves db db'" "draft_moves db (update_playlist i g db') \<longleftrightarrow> draft_moves db db'"
  "draft_moves db (db'\<lparr>pt_manifests := ms\<rparr>) \<longleftrightarrow> draft_moves db db'" "draft_moves db (db'\<lparr>pt_revisions := rs\<rparr>) \<longleftrightarrow> draft_moves db db'"
  by (simp_all add: draft_moves_def draft_of_def draft_document_def audit_playlist_def update_playlist_def)

lemma ensure_moves: "draft_moves db (ensure_draft i db)"
proof (cases "draft_of db i = None \<and> live_playlist db i \<noteq> None")
  case True
  then obtain p where p: "live_playlist db i = Some p" by auto
  let ?db = "ensure_draft i db"
  have e: "pt_drafts ?db = pt_drafts db @ [\<lparr>dr_playlist = i, dr_details = pl_details p, dr_revision = pl_revision p,
                dr_published = pl_revision p, dr_by = pl_by p\<rparr>]"
    "pt_draft_items ?db = pt_draft_items db @ copied_items i db" "pt_draft_tags ?db = pt_draft_tags db @ copied_tags i db"
    using True p by (simp_all add: ensure_draft_def)
  show ?thesis
    unfolding draft_moves_def
  proof (intro allI impI)
    fix j d
    assume d: "draft_of db j = Some d"
    with True have j: "j \<noteq> i" by auto
    have "draft_of ?db j = Some d"
      using draft_of_append[of db _ j] d by (simp add: draft_of_def e)
    moreover have "draft_document ?db d = draft_document db d"
      using draft_of_playlist[OF d] j by (simp add: draft_document_def e copied_rows)
    ultimately show "\<exists>d'. draft_of ?db j = Some d' \<and> (dr_revision d < dr_revision d'
     \<or> dr_revision d' = dr_revision d \<and> draft_document ?db d' = draft_document db d)" by simp
  qed
next
  case False
  then have "ensure_draft i db = db" by (auto simp: ensure_draft_def split: option.splits)
  then show ?thesis by simp
qed

lemma ensure_edit_moves:
  assumes "only_rows i (ensure_draft i db) db1" "\<And>d. dr_playlist (f d) = dr_playlist d" "\<And>d. dr_revision d < dr_revision (f d)"
  shows "draft_moves db (update_draft i f db1)"
  by (rule draft_moves_trans[OF ensure_moves renumbered_moves[OF assms]])

lemma ensure_id: "draft_of db i \<noteq> None \<Longrightarrow> ensure_draft i db = db"
  by (auto simp: ensure_draft_def split: option.splits)

lemma bump_moves:
  assumes "bump_draft i user db1 = Inr db'" "only_rows i db db1" "draft_of db i \<noteq> None"
  shows "draft_moves db db'"
proof -
  have "draft_of db1 i \<noteq> None" using assms(2,3) by (simp add: only_rows_def draft_of_def)
  with assms(1) have "db' = update_draft i (edited user) db1" by (simp add: bump_draft_def ensure_id)
  with renumbered_moves[OF assms(2), of "edited user"] show ?thesis by simp
qed

lemma only_rows_refl [simp]: "only_rows i db db"
  by (simp add: only_rows_def)

lemma static_draft: "require_static i db = Inr u \<Longrightarrow> draft_of db i \<noteq> None"
  by (auto simp: require_static_def split: option.splits)

lemma change_items_only:
  "change_items i c f db = Inr db' \<Longrightarrow> only_rows i db db'"
  by (auto simp: change_items_def only_rows_def rows_of_map[of _ "\<lambda>j x. if j = i \<and> c x then f x else x"])

lemma change_items_none:
  assumes "change_items i c f db = Inr db'" "\<not> list_ex c (rows_of i (pt_draft_items db))"
  shows "db' = db"
proof -
  have "map (\<lambda>(j, x). (j, if j = i \<and> c x then f x else x)) xs = xs" if "\<not> list_ex c (rows_of i xs)" for xs
    using that by (induction xs) (auto split: if_splits)
  with assms show ?thesis by (auto simp: change_items_def)
qed

lemma rows_of_filter_item: "j \<noteq> i \<Longrightarrow> rows_of j (filter (\<lambda>(k, x). k = i \<longrightarrow> pi_id x \<noteq> item) xs) = rows_of j xs"
  by (induction xs) auto

lemma close_gaps_rows: "j \<noteq> i \<Longrightarrow> rows_of j (close_gaps i xs) = rows_of j xs"
  unfolding close_gaps_def by (subst rows_of_map[of _ "\<lambda>j x. if j = i then x\<lparr>pi_position := rank_in (rows_of i xs) x\<rparr> else x"]) simp

lemma create_moves:
  assumes "create_playlist new user n e s db = Inr db'"
  shows "draft_moves db db'"
proof -
  from assms obtain d where d: "draft_of db new = None" "pt_drafts db' = pt_drafts db @ [d]" "dr_playlist d = new"
    "pt_draft_items db' = pt_draft_items db" "pt_draft_tags db' = pt_draft_tags db"
    by (auto simp: create_playlist_def Let_def)
  have "draft_of db' j = Some x" if "draft_of db j = Some x" for j x
    using that draft_of_append[of db d j] by (simp add: draft_of_def d(2))
  then show ?thesis by (simp add: draft_moves_def draft_document_def d)
qed

lemma fill_copy_moves:
  assumes "fill_copy fresh new user i e db = Inr db'"
  shows "draft_moves db db'"
proof -
  let ?f = "\<lambda>d. edited user (d\<lparr>dr_details := (dr_details d)
      \<lparr>de_source := de_source e, de_match := (if de_source e = ''tag'' then de_match e else ''any''),
       de_image_ms := (if de_source e = ''tag'' then de_image_ms e else 10000)\<rparr>\<rparr>)"
  from assms obtain items tags where
    "insert_items (update_draft new ?f db) new (copy_items fresh (rows_of i (pt_draft_items db))) (pt_draft_items db) = Inr items"
    "insert_tags (update_draft new ?f db) new (rows_of i (pt_draft_tags db)) (pt_draft_tags db) = Inr tags"
    and db': "db' = update_draft new ?f (db\<lparr>pt_draft_items := items, pt_draft_tags := tags\<rparr>)"
    by (auto simp: fill_copy_def Let_def update_draft_def)
  then have "only_rows new db (db\<lparr>pt_draft_items := items, pt_draft_tags := tags\<rparr>)"
    by (simp add: only_rows_def insert_items_rows insert_tags_rows)
  then show ?thesis unfolding db' by (rule renumbered_moves) simp_all
qed

lemma duplicate_moves: "draft_moves db (snd (duplicate fresh new i user db))"
  by (auto simp: duplicate_def split: option.splits sum.splits dest!: create_moves fill_copy_moves intro: draft_moves_trans)

lemma update_details_moves:
  assumes "update_details i user n e db = Inr db'"
  shows "draft_moves db db'"
  using assms by (auto simp: update_details_def Let_def intro!: ensure_edit_moves)

lemma set_tag_rule_moves:
  assumes "set_tag_rule i user r db = Inr db'"
  shows "draft_moves db db'"
  using assms by (auto simp: set_tag_rule_def Let_def only_rows_def insert_tags_rows intro!: ensure_edit_moves)

lemma add_item_moves:
  assumes "add_item new i user x db = Inr db'"
  shows "draft_moves db db'"
  using assms by (auto simp: add_item_def Let_def only_rows_def insert_item_Inr intro!: ensure_edit_moves)

lemma item_edits_move:
  "update_item i item user x db = Inr db' \<Longrightarrow> draft_moves db db'"
  "delete_item i item user db = Inr db' \<Longrightarrow> draft_moves db db'"
  "reorder i user order db = Inr db' \<Longrightarrow> draft_moves db db'"
proof -
  show "draft_moves db db'" if u: "update_item i item user x db = Inr db'"
  proof -
    from u obtain y db1 db2 where "require_static i db = Inr ()" "change_items i (\<lambda>z. pi_id z = item) (\<lambda>z. stored_item (pi_id z) (pi_position z) y) db = Inr db1"
      "bump_draft i user db1 = Inr db2" "db' = audit_playlist user ''playlist.draft.item_updated'' i db2"
      by (auto simp: update_item_def)
    then show ?thesis using bump_moves[OF _ change_items_only static_draft] by simp
  qed
next
  show "draft_moves db db'" if u: "delete_item i item user db = Inr db'"
  proof -
    let ?db = "db\<lparr>pt_draft_items := close_gaps i (filter (\<lambda>(j, x). \<not> (j = i \<and> pi_id x = item)) (pt_draft_items db))\<rparr>"
    from u obtain db1 where "require_static i db = Inr ()" "bump_draft i user ?db = Inr db1"
      "db' = audit_playlist user ''playlist.draft.item_deleted'' i db1" by (auto simp: delete_item_def Let_def)
    moreover have "only_rows i db ?db" by (simp add: only_rows_def close_gaps_rows rows_of_filter_item)
    ultimately show ?thesis using bump_moves[OF _ _ static_draft] by simp
  qed
next
  show "draft_moves db db'" if u: "reorder i user order db = Inr db'"
  proof -
    let ?items = "map (\<lambda>(j, x). (j, if j = i then x\<lparr>pi_position := int (index_from 0 order (pi_id x))\<rparr> else x)) (pt_draft_items db)"
    from u obtain db1 where "require_static i db = Inr ()" "bump_draft i user (db\<lparr>pt_draft_items := ?items\<rparr>) = Inr db1"
      "db' = audit_playlist user ''playlist.draft.reordered'' i db1" by (auto simp: reorder_def Let_def)
    moreover have "only_rows i db (db\<lparr>pt_draft_items := ?items\<rparr>)"
      by (simp add: only_rows_def rows_of_map[of _ "\<lambda>j x. if j = i then x\<lparr>pi_position := int (index_from 0 order (pi_id x))\<rparr> else x"])
    ultimately show ?thesis using bump_moves[OF _ _ static_draft] by simp
  qed
qed

lemma bulk_update_moves:
  assumes "bulk_update i user b db = Inr db'"
  shows "draft_moves db db'"
proof -
  from assms obtain db1 where run: "require_static i db = Inr ()" "change_items i (bulk_chosen db b) (bulk_change db b) db = Inr db1"
    "if list_ex (bulk_chosen db b) (rows_of i (pt_draft_items db)) then
       andthen (bump_draft i user db1) (\<lambda>db2. Inr (audit_playlist user ''playlist.draft.items_bulk_updated'' i db2)) = Inr db'
     else db' = db1"
    by (auto simp: bulk_update_def split: if_splits)
  show ?thesis
  proof (cases "list_ex (bulk_chosen db b) (rows_of i (pt_draft_items db))")
    case True
    with run(3) bump_moves[OF _ change_items_only[OF run(2)] static_draft[OF run(1)]] show ?thesis by auto
  next
    case False
    with run(3) change_items_none[OF run(2)] show ?thesis by simp
  qed
qed

lemma replace_draft_moves:
  assumes "replace_draft i d user db = Inr db'"
  shows "draft_moves db db'"
  using assms by (auto simp: replace_draft_def only_rows_def insert_items_rows insert_tags_rows intro!: renumbered_moves[where i = i])

lemma restore_draft_moves: "restore_draft i d user db = Inr db' \<Longrightarrow> draft_moves db db'"
  by (auto simp: restore_draft_def intro: draft_moves_trans[OF ensure_moves] replace_draft_moves)

lemma restore_revision_moves:
  assumes "restore_revision fresh i n user db = Inr (r, db')"
  shows "draft_moves db db'"
  using assms by (auto simp: restore_revision_def Let_def only_rows_def insert_items_rows insert_known_tags_rows draft_of_def
      split: option.splits intro!: ensure_edit_moves)

lemma snapshot_moves: "snapshot_draft i db = Inr (sn, db') \<Longrightarrow> draft_moves db db'"
  by (auto simp: snapshot_draft_def Let_def ensure_moves split: option.splits)

lemma snapshot_revision_moves: "snapshot_revision cited new i user db = Inr db' \<Longrightarrow> draft_moves db db'"
  by (auto simp: snapshot_revision_def record_revision_def trim_revisions_def split: option.splits if_splits intro!: draft_moves_same)

lemma replace_runtime_moves: "replace_runtime i d n db = Inr db' \<Longrightarrow> draft_moves db db'"
  by (auto simp: replace_runtime_def update_playlist_def intro!: draft_moves_same)

lemma close_draft_moves: "draft_moves db (close_draft i working db)"
proof -
  have "draft_of (close_draft i working db) j = (if 0 < working then map_option (\<lambda>d. if j = i then
      if dr_revision d = working then d\<lparr>dr_published := working\<rparr> else d else d) (draft_of db j) else draft_of db j)" for j
    by (simp add: close_draft_def draft_of_update)
  then show ?thesis by (auto simp: draft_moves_def draft_document_def close_draft_def)
qed

lemma publish_moves:
  assumes "publish_snapshot affected cited new i d working user db = Inr (p, db')"
  shows "draft_moves db db'"
proof -
  from assms obtain n db1 db2 ms where run: "replace_runtime i d n db = Inr db1" "snapshot_revision cited new i (Some user) db1 = Inr db2"
    "db' = (close_draft i working (ensure_draft i db2))\<lparr>pt_manifests := ms\<rparr>"
    by (auto simp: publish_snapshot_def Let_def split: option.splits)
  have "draft_moves db db2"
    by (rule draft_moves_trans[OF replace_runtime_moves[OF run(1)] snapshot_revision_moves[OF run(2)]])
  then have "draft_moves db (close_draft i working (ensure_draft i db2))"
    by (blast intro: draft_moves_trans ensure_moves close_draft_moves)
  then show ?thesis by (simp add: run(3))
qed

lemmas operations_move = create_moves update_details_moves set_tag_rule_moves add_item_moves item_edits_move bulk_update_moves
  restore_draft_moves restore_revision_moves snapshot_moves publish_moves

lemma settled_moves: "(\<And>db'. r = Inr db' \<Longrightarrow> draft_moves db db') \<Longrightarrow> draft_moves db (settled db r)"
  by (cases r) (auto simp: settled_def)

lemma settled_with_moves: "(\<And>x db'. r = Inr (x, db') \<Longrightarrow> draft_moves db db') \<Longrightarrow> draft_moves db (settled_with db r)"
  by (cases r) (auto simp: settled_with_def)

lemma delete_playlist_moves: "delete_playlist uses i user db = Inr db' \<Longrightarrow> draft_moves db db'"
  by (auto simp: delete_playlist_def)

lemma list_revisions_moves: "list_revisions cited new i db = Inr (rs, db') \<Longrightarrow> draft_moves db db'"
  by (auto simp: list_revisions_def dest: snapshot_revision_moves split: option.splits)

lemma step_moves: "draft_moves db (playlist_step affected op db)"
  by (cases op) (auto simp: playlist_step_def duplicate_moves intro!: settled_moves settled_with_moves
      intro: operations_move delete_playlist_moves list_revisions_moves draft_moves_same)

lemma history_moves: "draft_moves db (fold (playlist_step affected) ops db)"
  by (induction ops arbitrary: db) (auto intro: draft_moves_trans step_moves)

text \<open>C19. The number of a working copy stands for its content: two snapshots of a playlist with the same working revision
  hold the same document, whatever was edited, restored, published or deleted between them.\<close>

theorem revision_identifies_draft:
  assumes "snapshot_draft i db = Inr (sn, db1)" "snapshot_draft i (fold (playlist_step affected) ops db1) = Inr (sn', db2)"
    "ds_working sn = ds_working sn'"
  shows "ds_document sn = ds_document sn'"
proof -
  let ?db = "fold (playlist_step affected) ops db1"
  from assms(1) obtain d where d: "draft_of db1 i = Some d" "ds_working sn = dr_revision d" "ds_document sn = draft_document db1 d"
    by (auto simp: snapshot_draft_def Let_def split: option.splits)
  from assms(2) obtain d' where d': "draft_of db2 i = Some d'" "ds_working sn' = dr_revision d'" "ds_document sn' = draft_document db2 d'"
    by (auto simp: snapshot_draft_def Let_def split: option.splits)
  have "draft_moves db1 db2" by (rule draft_moves_trans[OF history_moves snapshot_moves[OF assms(2)]])
  with d(1) d'(1) have "dr_revision d < dr_revision d' \<or> draft_document db2 d' = draft_document db1 d"
    unfolding draft_moves_def by fastforce
  with assms(3) d d' show ?thesis by simp
qed

section \<open>Documents survive publishing and restoring\<close>

interpretation item_order: ranking item_before "\<lambda>x. (pi_position x, uuid_string (pi_id x))"
  by unfold_locales (simp add: item_before_def)

interpretation revision_order: ranking newer_revision "\<lambda>r. - rv_revision r"
  by unfold_locales (simp add: newer_revision_def)

text \<open>What a document looks like once it is stored: numbered items, and tags in the order of the table.\<close>

definition stored_document :: "playlist_doc \<Rightarrow> playlist_doc" where
  "stored_document d = d\<lparr>pd_items := numbered (pd_items d), pd_tags := sort_by (<) (pd_tags d)\<rparr>"

definition runtime_document :: "uuid \<Rightarrow> playlist_db \<Rightarrow> playlist_doc option" where
  "runtime_document i db = map_option (\<lambda>p. \<lparr>pd_details = pl_details p, pd_items = runtime_items i db,
     pd_tags = sort_by (<) (rows_of i (pt_tags db))\<rparr>) (live_playlist db i)"

text \<open>The document of a stored revision, with new identifiers for its items.\<close>

definition native_document :: "(nat \<Rightarrow> uuid) \<Rightarrow> uuid \<Rightarrow> playlist_db \<Rightarrow> playlist_doc option" where
  "native_document fresh rid db = map_option (\<lambda>r. \<lparr>pd_details = rv_details r, pd_items = copy_items fresh (rv_items r), pd_tags = rv_tags r\<rparr>)
     (find (\<lambda>r. rv_id r = rid) (pt_revisions db))"

definition anonymous :: "playlist_doc \<Rightarrow> playlist_doc" where
  "anonymous d = d\<lparr>pd_items := map (\<lambda>x. x\<lparr>pi_id := uuid_nil\<rparr>) (pd_items d)\<rparr>"

lemma length_numbered [simp]: "length (numbered xs) = length xs"
  by (simp add: numbered_def)

lemma nth_numbered: "k < length xs \<Longrightarrow> numbered xs ! k = (xs ! k)\<lparr>pi_position := int k\<rparr>"
  by (simp add: numbered_def nth_enumerate_eq)

lemma sort_numbered [simp]: "sort_by item_before (numbered xs) = numbered xs"
proof -
  let ?key = "\<lambda>x. (pi_position x, uuid_string (pi_id x))"
  have "distinct (map ?key (numbered xs))" by (auto simp: distinct_conv_nth nth_numbered)
  moreover have "sorted (map ?key (numbered xs))" by (auto simp: sorted_iff_nth_mono_less nth_numbered)
  ultimately show ?thesis using item_order.sort_unique[of "numbered xs" "numbered xs"] by simp
qed

lemma numbered_idem [simp]: "numbered (numbered xs) = numbered xs"
  by (rule nth_equalityI) (simp_all add: nth_numbered)

lemma numbered_copy: "map (\<lambda>x. x\<lparr>pi_id := uuid_nil\<rparr>) (numbered (copy_items fresh (map (\<lambda>x. x\<lparr>pi_id := uuid_nil\<rparr>) (numbered xs))))
    = map (\<lambda>x. x\<lparr>pi_id := uuid_nil\<rparr>) (numbered xs)"
proof (rule nth_equalityI)
  show "length (map (\<lambda>x. x\<lparr>pi_id := uuid_nil\<rparr>) (numbered (copy_items fresh (map (\<lambda>x. x\<lparr>pi_id := uuid_nil\<rparr>) (numbered xs)))))
      = length (map (\<lambda>x. x\<lparr>pi_id := uuid_nil\<rparr>) (numbered xs))" by (simp add: copy_items_def)
next
  fix k
  assume "k < length (map (\<lambda>x. x\<lparr>pi_id := uuid_nil\<rparr>) (numbered (copy_items fresh (map (\<lambda>x. x\<lparr>pi_id := uuid_nil\<rparr>) (numbered xs)))))"
  then have k: "k < length xs" by (simp add: copy_items_def)
  then show "map (\<lambda>x. x\<lparr>pi_id := uuid_nil\<rparr>) (numbered (copy_items fresh (map (\<lambda>x. x\<lparr>pi_id := uuid_nil\<rparr>) (numbered xs)))) ! k
      = map (\<lambda>x. x\<lparr>pi_id := uuid_nil\<rparr>) (numbered xs) ! k"
    by (simp add: nth_numbered copy_items_def nth_enumerate_eq)
qed

lemma nothing_before: "rows_of i (delete_rows i xs) = []"
  by simp

lemma replace_draft_document:
  assumes "replace_draft i d user db = Inr db'" "draft_of db i = Some r"
  obtains r' where "draft_of db' i = Some r'" "dr_revision r' = dr_revision r + 1" "draft_document db' r' = stored_document d"
proof -
  let ?f = "\<lambda>x. edited user (x\<lparr>dr_details := pd_details d\<rparr>)"
  from assms obtain items tags where run: "insert_items db i (numbered (pd_items d)) (delete_rows i (pt_draft_items db)) = Inr items"
    "insert_tags db i (pd_tags d) (delete_rows i (pt_draft_tags db)) = Inr tags"
    "db' = update_draft i ?f (db\<lparr>pt_draft_items := items, pt_draft_tags := tags\<rparr>)"
    by (auto simp: replace_draft_def)
  have "draft_of (db\<lparr>pt_draft_items := items, pt_draft_tags := tags\<rparr>) i = Some r" using assms(2) by (simp add: draft_of_def)
  then have now: "draft_of db' i = Some (?f r)" by (simp add: run(3) draft_of_update)
  moreover have "draft_document db' (?f r) = stored_document d"
    using insert_items_rows[OF run(1), of i] insert_tags_rows[OF run(2), of i] draft_of_playlist[OF assms(2)]
    by (simp add: draft_document_def stored_document_def run(3) edited_def)
  ultimately show ?thesis using that by simp
qed

lemma replace_draft_live: "replace_draft i d user db = Inr db' \<Longrightarrow> live_playlist db' j = live_playlist db j"
  by (auto simp: replace_draft_def live_playlist_def)

lemma ensured_draft: "live_playlist db i = Some p \<Longrightarrow> draft_of (ensure_draft i db) i \<noteq> None"
  using draft_of_append[of db "\<lparr>dr_playlist = i, dr_details = pl_details p, dr_revision = pl_revision p,
                dr_published = pl_revision p, dr_by = pl_by p\<rparr>" i]
  by (auto simp: ensure_draft_def draft_of_def split: option.splits)

text \<open>A restored draft is snapshotted as the document that was restored.\<close>

lemma restored_snapshot:
  assumes "restore_draft i d user db = Inr db'" "live_playlist db i = Some p"
  shows "\<exists>sn. snapshot_draft i db' = Inr (sn, db') \<and> ds_document sn = stored_document d"
proof -
  from assms(1) have rep: "replace_draft i d user (ensure_draft i db) = Inr db'" by (auto simp: restore_draft_def)
  from ensured_draft[OF assms(2)] obtain r where r: "draft_of (ensure_draft i db) i = Some r" by auto
  from replace_draft_document[OF rep r] obtain r' where r': "draft_of db' i = Some r'" "draft_document db' r' = stored_document d" by blast
  have "live_playlist db' i = Some p" using replace_draft_live[OF rep] assms(2) by simp
  with r' show ?thesis by (simp add: snapshot_draft_def Let_def ensure_id)
qed

section \<open>What publishing leaves behind\<close>

lemma find_all_update:
  "(\<And>p. pl_id (f p) = pl_id p) \<Longrightarrow> (\<And>p. pl_deleted (f p) = pl_deleted p) \<Longrightarrow>
   live_playlist (update_playlist i f db) j = map_option (\<lambda>p. if j = i then f p else p) (live_playlist db j)"
proof -
  assume f: "\<And>p. pl_id (f p) = pl_id p" "\<And>p. pl_deleted (f p) = pl_deleted p"
  have "find (\<lambda>p. pl_id p = j \<and> \<not> pl_deleted p) (map (\<lambda>p. if pl_id p = i then f p else p) ps) =
      map_option (\<lambda>p. if j = i then f p else p) (find (\<lambda>p. pl_id p = j \<and> \<not> pl_deleted p) ps)" for ps
    by (induction ps) (auto simp: f)
  then show ?thesis by (simp add: live_playlist_def update_playlist_def)
qed

lemma replace_runtime_Inr:
  assumes "replace_runtime i d n db = Inr db'" "live_playlist db i = Some p"
  shows "runtime_items i db' = numbered (pd_items d)" "rows_of i (pt_tags db') = pd_tags d"
    "live_playlist db' i = Some (p\<lparr>pl_details := pd_details d, pl_revision := n\<rparr>)" "pt_revisions db' = pt_revisions db"
    "j \<noteq> i \<Longrightarrow> runtime_document j db' = runtime_document j db" "j \<noteq> i \<Longrightarrow> live_playlist db' j = live_playlist db j"
proof -
  from assms(1) obtain items tags where run: "insert_items db i (numbered (pd_items d)) (delete_rows i (pt_items db)) = Inr items"
    "insert_tags db i (pd_tags d) (delete_rows i (pt_tags db)) = Inr tags"
    and db': "db' = update_playlist i (\<lambda>p. p\<lparr>pl_details := pd_details d, pl_revision := n\<rparr>) (db\<lparr>pt_items := items, pt_tags := tags\<rparr>)"
    by (auto simp: replace_runtime_def)
  note rows = insert_items_rows[OF run(1)] insert_tags_rows[OF run(2)]
  have live: "live_playlist db' k = map_option (\<lambda>p. if k = i then p\<lparr>pl_details := pd_details d, pl_revision := n\<rparr> else p) (live_playlist db k)" for k
    unfolding db' by (subst find_all_update) (simp_all add: live_playlist_def)
  show "runtime_items i db' = numbered (pd_items d)" "rows_of i (pt_tags db') = pd_tags d" "pt_revisions db' = pt_revisions db"
    by (simp_all add: runtime_items_def db' update_playlist_def rows)
  show "live_playlist db' i = Some (p\<lparr>pl_details := pd_details d, pl_revision := n\<rparr>)" using assms(2) by (simp add: live)
  have other: "live_playlist db' j = live_playlist db j" "rows_of j (pt_items db') = rows_of j (pt_items db)"
    "rows_of j (pt_tags db') = rows_of j (pt_tags db)" if "j \<noteq> i"
    using that live[of j] by (simp_all add: option.map_ident) (simp_all add: db' update_playlist_def rows)
  show "runtime_document j db' = runtime_document j db" "live_playlist db' j = live_playlist db j" if "j \<noteq> i"
    using other[OF that] by (simp_all add: runtime_document_def runtime_items_def)
qed

lemma next_revision_above:
  assumes "r \<in> set (pt_revisions db)" "rv_playlist r = i"
  shows "rv_revision r < next_revision i n db"
proof -
  have "rv_revision r \<le> Max (insert n (insert 0 (rv_revision ` {r \<in> set (pt_revisions db). rv_playlist r = i})))"
    by (rule Max_ge) (use assms in auto)
  then show ?thesis by (simp add: next_revision_def)
qed

text \<open>The newest revision of a playlist is never trimmed.\<close>

lemma newest_kept:
  assumes "pt_revisions db = rs @ [r]" "rv_playlist r = i" "rv_id r \<notin> rv_id ` set rs"
    "\<And>x. x \<in> set rs \<Longrightarrow> rv_playlist x = i \<Longrightarrow> rv_revision x < rv_revision r"
  shows "rv_id r \<notin> set (trimmed cited i db)"
proof -
  have only_r: "x = r" if "x \<in> set (pt_revisions db)" "rv_id x = rv_id r" for x
  proof (rule ccontr)
    assume "x \<noteq> r"
    with that(1) assms(1) have "x \<in> set rs" by simp
    with assms(3) that(2) show False by (metis image_eqI)
  qed
  show ?thesis
  proof (cases "cited (rv_id r) (rv_revision r)")
    case True
    have "r \<notin> set (sort_by newer_revision (filter (\<lambda>r. rv_playlist r = i \<and> \<not> cited (rv_id r) (rv_revision r)) (pt_revisions db)))"
      using True by simp
    then show ?thesis unfolding trimmed_def using only_r by (auto dest!: in_set_dropD)
  next
    case False
    let ?xs = "filter (\<lambda>r. rv_playlist r = i \<and> \<not> cited (rv_id r) (rv_revision r)) (pt_revisions db)"
    have mem: "r \<in> set ?xs" using False assms(1,2) by simp
    then have ne: "?xs \<noteq> []" by (metis empty_iff list.set(1))
    have top: "hd (sort_by newer_revision ?xs) = r"
    proof (rule ccontr)
      assume other: "hd (sort_by newer_revision ?xs) \<noteq> r"
      have "hd (sort_by newer_revision ?xs) \<in> set ?xs" by (rule revision_order.sort_head_mem[OF ne])
      with other have "rv_revision (hd (sort_by newer_revision ?xs)) < rv_revision r" using assms(1,4) by auto
      with revision_order.sort_head_least[OF ne mem] show False by (simp add: newer_revision_def)
    qed
    obtain rest where rest: "sort_by newer_revision ?xs = r # rest"
      using top ne by (cases "sort_by newer_revision ?xs") auto
    have "r \<notin> set rs" using assms(3) by blast
    have "add_mset r (mset rest) = mset ?xs" using rest by (metis mset.simps(2) mset_sort_by)
    moreover have "count (mset ?xs) r = 1" using \<open>r \<notin> set rs\<close> False assms(2) by (simp add: assms(1) count_eq_zero_iff)
    ultimately have "count (mset rest) r = 0" by (metis One_nat_def add_mset_remove_trivial count_single diff_Suc_Suc diff_zero count_add_mset nat.inject)
    then have fresh: "r \<notin> set rest" by (simp add: count_eq_zero_iff)
    have rest_in: "set rest \<subseteq> set (pt_revisions db)" using rest set_sort_by[of newer_revision ?xs] by auto
    have "rv_id x \<noteq> rv_id r" if "x \<in> set (drop revisions_to_keep (r # rest))" for x
    proof -
      have "x \<in> set rest" using that set_drop_subset[of 29 rest] by (auto simp: revisions_to_keep_def)
      with fresh rest_in only_r show ?thesis by blast
    qed
    then show ?thesis unfolding trimmed_def rest by (metis imageE list.set_map)
  qed
qed

lemma publish_records:
  assumes "snapshot_revision cited new i user db = Inr db'" "live_playlist db i = Some p" "distinct (map pl_id (pt_playlists db))"
    "\<And>x. x \<in> set (pt_revisions db) \<Longrightarrow> rv_playlist x = i \<Longrightarrow> rv_revision x < pl_revision p"
  obtains r where "find (\<lambda>r. rv_id r = new) (pt_revisions db') = Some r" "rv_id r = new" "rv_playlist r = i" "rv_revision r = pl_revision p"
    "rv_details r = pl_details p" "rv_items r = map (\<lambda>x. x\<lparr>pi_id := uuid_nil\<rparr>) (runtime_items i db)" "rv_tags r = rows_of i (pt_tags db)"
    "revision_id db' i (pl_revision p) = Some new"
proof -
  have mem: "p \<in> set (pt_playlists db)" "pl_id p = i"
    using assms(2) by (auto simp: live_playlist_def find_Some_iff)
  have p: "find (\<lambda>q. pl_id q = i) (pt_playlists db) = Some p"
    using assms(3) mem by (induction "pt_playlists db") (auto simp: find_Some_iff distinct_conv_nth in_set_conv_nth)
  let ?r = "\<lparr>rv_id = new, rv_playlist = i, rv_revision = pl_revision p, rv_details = pl_details p,
      rv_items = map (\<lambda>x. x\<lparr>pi_id := uuid_nil\<rparr>) (runtime_items i db), rv_tags = rows_of i (pt_tags db), rv_by = user\<rparr>"
  let ?db1 = "db\<lparr>pt_revisions := pt_revisions db @ [?r]\<rparr>"
  have "\<not> list_ex (\<lambda>r. rv_playlist r = i \<and> rv_revision r = pl_revision p) (pt_revisions db)"
    using assms(4) by (force simp: list_ex_iff)
  with assms(1) p have run: "new \<notin> rv_id ` set (pt_revisions db)" "db' = trim_revisions cited i ?db1"
    by (auto simp: snapshot_revision_def record_revision_def split: if_splits)
  have kept: "new \<notin> set (trimmed cited i ?db1)"
    using newest_kept[of ?db1 "pt_revisions db" ?r i cited] run(1) assms(4) by simp
  have revs: "pt_revisions db' = filter (\<lambda>r. rv_id r \<notin> set (trimmed cited i ?db1)) (pt_revisions db) @ [?r]"
    using kept by (simp add: run(2) trim_revisions_def)
  have last: "find P (xs @ [?r]) = Some ?r" if "\<And>x. x \<in> set xs \<Longrightarrow> \<not> P x" "P ?r" for P xs
    using that by (induction xs) auto
  have "find (\<lambda>r. rv_id r = new) (pt_revisions db') = Some ?r"
    unfolding revs by (rule last) (use run(1) in auto)
  moreover have "revision_id db' i (pl_revision p) = Some new"
  proof -
    have "find (\<lambda>r. rv_playlist r = i \<and> rv_revision r = pl_revision p) (pt_revisions db') = Some ?r"
      unfolding revs by (rule last) (use assms(4) in fastforce)+
    then show ?thesis by (simp add: revision_id_def)
  qed
  ultimately show ?thesis using that[of ?r] by simp
qed

text \<open>Publishing a document: the published playlist is that document, and the stored revision holds it.\<close>

lemma published_run:
  assumes "publish_snapshot affected cited new i d working user db = Inr (p, db')"
  obtains q db1 db2 where "live_playlist db i = Some q" "pl_revision q < pp_revision p"
    "pp_revision p = next_revision i (pl_revision q) db"
    "replace_runtime i d (pp_revision p) db = Inr db1" "snapshot_revision cited new i (Some user) db1 = Inr db2"
    "revision_id db2 i (pp_revision p) = Some (pp_revision_id p)" "pt_revisions db' = pt_revisions db2"
    "\<And>j. live_playlist db' j = live_playlist db1 j" "\<And>j. runtime_document j db' = runtime_document j db1"
proof -
  from assms(1) obtain q db1 db2 rid ms where run: "live_playlist db i = Some q"
    "replace_runtime i d (next_revision i (pl_revision q) db) db = Inr db1" "snapshot_revision cited new i (Some user) db1 = Inr db2"
    "revision_id db2 i (next_revision i (pl_revision q) db) = Some rid"
    "db' = (close_draft i working (ensure_draft i db2))\<lparr>pt_manifests := ms\<rparr>"
    and p: "pp_revision p = next_revision i (pl_revision q) db" "pp_revision_id p = rid"
    by (auto simp: publish_snapshot_def Let_def split: option.splits)
  have same: "pt_playlists db2 = pt_playlists db1" "pt_items db2 = pt_items db1" "pt_tags db2 = pt_tags db1"
    using run(3) by (auto simp: snapshot_revision_def record_revision_def trim_revisions_def split: option.splits if_splits)
  have ends: "pt_playlists db' = pt_playlists db2" "pt_items db' = pt_items db2" "pt_tags db' = pt_tags db2" "pt_revisions db' = pt_revisions db2"
    by (simp_all add: run(5) close_draft_def)
  have live: "live_playlist db' j = live_playlist db1 j" "runtime_document j db' = runtime_document j db1" for j
    by (simp_all add: live_playlist_def runtime_document_def runtime_items_def ends same)
  have "pl_revision q < next_revision i (pl_revision q) db"
    by (auto simp: next_revision_def intro: le_imp_less_Suc Max_ge zle_add1_eq_le[THEN iffD2])
  with run(1-4) p ends(4) live show ?thesis using that[of q db1 db2] by simp
qed

lemma publish_live:
  assumes "publish_snapshot affected cited new i d working user db = Inr (p, db')"
  obtains q where "live_playlist db i = Some q" "pl_revision q < pp_revision p"
    "live_playlist db' i = Some (q\<lparr>pl_details := pd_details d, pl_revision := pp_revision p\<rparr>)"
    "runtime_document i db' = Some (stored_document d)"
    "\<And>j. j \<noteq> i \<Longrightarrow> live_playlist db' j = live_playlist db j \<and> runtime_document j db' = runtime_document j db"
proof -
  obtain q db1 db2 where run: "live_playlist db i = Some q" "pl_revision q < pp_revision p" "replace_runtime i d (pp_revision p) db = Inr db1"
    "\<And>j. live_playlist db' j = live_playlist db1 j" "\<And>j. runtime_document j db' = runtime_document j db1"
    using published_run[OF assms] by metis
  note rt = replace_runtime_Inr[OF run(3,1)]
  have "runtime_document i db1 = Some (stored_document d)"
    using rt(1-3) by (cases d) (simp add: runtime_document_def stored_document_def)
  with run(1,2,4,5) rt(3,5,6) show ?thesis using that[of q] by simp
qed

lemma publish_snapshot_Inr:
  assumes "publish_snapshot affected cited new i d working user db = Inr (p, db')" "distinct (map pl_id (pt_playlists db))"
  obtains q r where "live_playlist db' i = Some q" "runtime_document i db' = Some (stored_document d)"
    "pp_revision_id p = new" "find (\<lambda>r. rv_id r = new) (pt_revisions db') = Some r" "rv_details r = pd_details d"
    "rv_items r = map (\<lambda>x. x\<lparr>pi_id := uuid_nil\<rparr>) (numbered (pd_items d))" "rv_tags r = pd_tags d"
proof -
  obtain q db1 db2 where run: "live_playlist db i = Some q" "pp_revision p = next_revision i (pl_revision q) db"
    "replace_runtime i d (pp_revision p) db = Inr db1" "snapshot_revision cited new i (Some user) db1 = Inr db2"
    "revision_id db2 i (pp_revision p) = Some (pp_revision_id p)" "pt_revisions db' = pt_revisions db2"
    using published_run[OF assms(1)] by metis
  note rt = replace_runtime_Inr[OF run(3,1)]
  have keys: "map pl_id (pt_playlists db1) = map pl_id (pt_playlists db)"
    using run(3) by (auto simp: replace_runtime_def update_playlist_def comp_def)
  have above: "rv_revision x < pl_revision (q\<lparr>pl_details := pd_details d, pl_revision := pp_revision p\<rparr>)"
    if "x \<in> set (pt_revisions db1)" "rv_playlist x = i" for x
    using next_revision_above[OF _ that(2)] that(1) rt(4) by (simp add: run(2))
  obtain r where r: "find (\<lambda>r. rv_id r = new) (pt_revisions db2) = Some r" "rv_details r = pd_details d"
    "rv_items r = map (\<lambda>x. x\<lparr>pi_id := uuid_nil\<rparr>) (numbered (pd_items d))" "rv_tags r = pd_tags d"
    "revision_id db2 i (pp_revision p) = Some new"
    by (rule publish_records[OF run(4) rt(3) _ above]) (use assms(2) keys rt in auto)
  obtain q' where "live_playlist db' i = Some q'" "runtime_document i db' = Some (stored_document d)"
    using publish_live[OF assms(1)] by metis
  with run(5,6) r show ?thesis using that[of q' r] by simp
qed

text \<open>C20. A published document is what the playlist then shows, and it comes back: restoring the stored revision of a
  publication into the draft, at any time before it is trimmed, and submitting the draft gives the same document up to
  the identifiers of its items.\<close>

theorem publication_round_trip:
  assumes "distinct (map pl_id (pt_playlists db))"
    and "publish_snapshot affected cited new i d working user db = Inr (p, db1)"
    and "native_document fresh (pp_revision_id p) db1 = Some e" "restore_draft i e user' db1 = Inr db2"
  shows "runtime_document i db1 = Some (stored_document d)
    \<and> (\<exists>sn. snapshot_draft i db2 = Inr (sn, db2) \<and> anonymous (ds_document sn) = anonymous (stored_document d))"
proof -
  obtain q r where pub: "live_playlist db1 i = Some q" "runtime_document i db1 = Some (stored_document d)"
    "pp_revision_id p = new" "find (\<lambda>r. rv_id r = new) (pt_revisions db1) = Some r" "rv_details r = pd_details d"
    "rv_items r = map (\<lambda>x. x\<lparr>pi_id := uuid_nil\<rparr>) (numbered (pd_items d))" "rv_tags r = pd_tags d"
    using publish_snapshot_Inr[OF assms(2,1)] by metis
  from assms(3) pub have e: "e = \<lparr>pd_details = pd_details d,
      pd_items = copy_items fresh (map (\<lambda>x. x\<lparr>pi_id := uuid_nil\<rparr>) (numbered (pd_items d))), pd_tags = pd_tags d\<rparr>"
    by (simp add: native_document_def)
  from restored_snapshot[OF assms(4) pub(1)] obtain sn where sn: "snapshot_draft i db2 = Inr (sn, db2)" "ds_document sn = stored_document e"
    by blast
  have "anonymous (stored_document e) = anonymous (stored_document d)"
    using numbered_copy[of fresh "pd_items d"] by (simp add: anonymous_def stored_document_def e)
  with pub(2) sn show ?thesis by simp
qed

section \<open>Witnesses\<close>

definition demo_item :: playlist_item where
  "demo_item = \<lparr>pi_id = UUID ''x'', pi_asset = Some (UUID ''a''), pi_layout = None, pi_position = 0, pi_duration = Some 5000,
     pi_fit = ''contain'', pi_transition = ''none'', pi_audio = True, pi_volume = 1, pi_start = None, pi_end = None,
     pi_delivery = ''download'', pi_defaults = False\<rparr>"

definition demo_details :: details where
  "demo_details = \<lparr>de_name = ''Lobby'', de_description = [], de_source = ''static'', de_match = ''any'', de_image_ms = 10000\<rparr>"

definition demo_doc :: playlist_doc where
  "demo_doc = \<lparr>pd_details = demo_details, pd_items = [demo_item], pd_tags = []\<rparr>"

definition demo_playlists :: playlist_db where
  "demo_playlists =
     \<lparr>pt_playlists = [\<lparr>pl_id = UUID ''p'', pl_details = demo_details, pl_revision = 1, pl_by = None, pl_deleted = False\<rparr>],
      pt_items = [(UUID ''p'', demo_item)], pt_tags = [],
      pt_drafts = [\<lparr>dr_playlist = UUID ''p'', dr_details = demo_details, dr_revision = 1, dr_published = 1, dr_by = None\<rparr>],
      pt_draft_items = [(UUID ''p'', demo_item)], pt_draft_tags = [], pt_revisions = [],
      pt_media = [\<lparr>mr_id = UUID ''a'', mr_type = ''image'', mr_provider = [], mr_seconds = None, mr_ready = True, mr_variant = True, mr_deleted = False\<rparr>],
      pt_layouts = [], pt_layout_uses = [], pt_known_tags = [], pt_settings = [], pt_image_ms = None,
      pt_manifests = [], pt_audit = []\<rparr>"

abbreviation demo_step :: "playlist_op \<Rightarrow> playlist_db \<Rightarrow> playlist_db" where
  "demo_step \<equiv> playlist_step (\<lambda>_ _. [UUID ''s''])"

definition demo_edits :: "playlist_op list" where
  "demo_edits = [PlBulk (UUID ''p'') (UUID ''u'') \<lparr>bi_items = [], bi_transition = Some ''fade'', bi_duration = None\<rparr>,
     PlRemove (UUID ''p'') (UUID ''x'') (UUID ''u'')]"

lemma demo_private: "list_all private_op demo_edits" "\<not> list_ex (puts_back i) demo_edits"
  by (simp_all add: demo_edits_def private_op_def puts_back_def)


lemma success_pair: "\<not> isl r \<Longrightarrow> r = Inr (fst (projr r), snd (projr r))"
  by (cases r) simp_all

definition demo_publication :: "playlist_error + playlist_published \<times> playlist_db" where
  "demo_publication = publish_snapshot (\<lambda>_ _. [UUID ''s'']) (\<lambda>_ _. False) (UUID ''r'') (UUID ''p'') demo_doc 1 (UUID ''u'') demo_playlists"

definition demo_native :: playlist_doc where
  "demo_native = the (native_document (\<lambda>n. UUID (replicate (Suc n) CHR ''i'')) (UUID ''r'') (snd (projr demo_publication)))"

definition demo_restored :: "playlist_error + playlist_db" where
  "demo_restored = restore_draft (UUID ''p'') demo_native (UUID ''u'') (snd (projr demo_publication))"

theorem publication_round_trip_witness:
  "\<exists>sn. snapshot_draft (UUID ''p'') (projr demo_restored) = Inr (sn, projr demo_restored)
     \<and> anonymous (ds_document sn) = anonymous (stored_document demo_doc)"
proof -
  have "distinct (map pl_id (pt_playlists demo_playlists))" by (simp add: demo_playlists_def)
  moreover have "publish_snapshot (\<lambda>_ _. [UUID ''s'']) (\<lambda>_ _. False) (UUID ''r'') (UUID ''p'') demo_doc 1 (UUID ''u'') demo_playlists
      = Inr (fst (projr demo_publication), snd (projr demo_publication))"
  proof -
    have "\<not> isl demo_publication" by code_simp
    from success_pair[OF this] show ?thesis by (simp only: demo_publication_def)
  qed
  moreover have "native_document (\<lambda>n. UUID (replicate (Suc n) CHR ''i'')) (pp_revision_id (fst (projr demo_publication))) (snd (projr demo_publication))
      = Some demo_native"
  proof -
    have "pp_revision_id (fst (projr demo_publication)) = UUID ''r''" by code_simp
    moreover have "native_document (\<lambda>n. UUID (replicate (Suc n) CHR ''i'')) (UUID ''r'') (snd (projr demo_publication)) \<noteq> None" by code_simp
    ultimately show ?thesis by (simp add: demo_native_def)
  qed
  moreover have "restore_draft (UUID ''p'') demo_native (UUID ''u'') (snd (projr demo_publication)) = Inr (projr demo_restored)"
  proof -
    have "\<not> isl demo_restored" by code_simp
    then show ?thesis by (simp add: demo_restored_def)
  qed
  ultimately show ?thesis using publication_round_trip by blast
qed

definition demo_snapshot :: "playlist_error + draft_snapshot \<times> playlist_db" where
  "demo_snapshot = snapshot_draft (UUID ''p'') demo_playlists"

definition demo_resubmission :: "playlist_error + draft_snapshot \<times> playlist_db" where
  "demo_resubmission = snapshot_draft (UUID ''p'') (fold demo_step [PlDelete 1 (UUID ''p'') (UUID ''u''),
     PlPublish (\<lambda>_ _. False) (UUID ''r'') (UUID ''p'') demo_doc 1 (UUID ''u'')] (snd (projr demo_snapshot)))"

theorem revision_identifies_draft_witness:
  "ds_document (fst (projr demo_snapshot)) = ds_document (fst (projr demo_resubmission))
   \<and> ds_published (fst (projr demo_resubmission)) = 2"
proof -
  have "\<not> isl demo_snapshot" by code_simp
  from success_pair[OF this] have one: "snapshot_draft (UUID ''p'') demo_playlists = Inr (fst (projr demo_snapshot), snd (projr demo_snapshot))"
    by (simp only: demo_snapshot_def)
  have "\<not> isl demo_resubmission" by code_simp
  from success_pair[OF this] have two: "snapshot_draft (UUID ''p'') (fold demo_step [PlDelete 1 (UUID ''p'') (UUID ''u''),
     PlPublish (\<lambda>_ _. False) (UUID ''r'') (UUID ''p'') demo_doc 1 (UUID ''u'')] (snd (projr demo_snapshot)))
      = Inr (fst (projr demo_resubmission), snd (projr demo_resubmission))"
    by (simp only: demo_resubmission_def)
  have "ds_working (fst (projr demo_snapshot)) = ds_working (fst (projr demo_resubmission))" by code_simp
  from revision_identifies_draft[OF one two this] show ?thesis
    by (rule conjI) code_simp
qed

definition demo_put_back :: "playlist_error + (int \<times> nat) \<times> playlist_db" where
  "demo_put_back = restore_revision (\<lambda>n. UUID (replicate (Suc n) CHR ''i'')) (UUID ''p'') 2 (UUID ''u'') (snd (projr demo_publication))"

theorem restore_revision_empties_published_witness:
  "runtime_items (UUID ''p'') (snd (projr demo_publication)) = [demo_item] \<and> runtime_items (UUID ''p'') (snd (projr demo_put_back)) = []"
proof -
  have "\<not> isl demo_put_back" by code_simp
  from success_pair[OF this] have "restore_revision (\<lambda>n. UUID (replicate (Suc n) CHR ''i'')) (UUID ''p'') 2 (UUID ''u'') (snd (projr demo_publication))
      = Inr (fst (projr demo_put_back), snd (projr demo_put_back))" by (simp only: demo_put_back_def)
  from restore_revision_empties_published[OF this] have "runtime_items (UUID ''p'') (snd (projr demo_put_back)) = []" by simp
  moreover have "runtime_items (UUID ''p'') (snd (projr demo_publication)) = [demo_item]" by code_simp
  ultimately show ?thesis by simp
qed

end
