(* ===== verification/PlaylistReview.thy ===== *)
theory PlaylistReview
  imports Editorial PlaylistDrafts
begin

text \<open>
  Playlists under review: the provider that \<open>playlists/drafts.go\<close> gives the review workflow (\<open>editorial/provider.go\<close>),
  and what holds of both together. The digests of a document (the encoding of \<open>playlists\<close> and that of \<open>approvals\<close>
  differ) and the screens that an invalidation names are arguments. Layouts and campaigns have no provider here.
\<close>

section \<open>The provider\<close>

fun playlist_message :: "playlist_error \<Rightarrow> string" where
  "playlist_message AssetNotReady = ''asset is not ready for playback''"
| "playlist_message NameLength = ''playlist name must be between 1 and 180 characters''"
| "playlist_message DescriptionLength = ''playlist description must be at most 2000 characters''"
| "playlist_message SourceTypeInvalid = ''playlist sourceType must be static or tag''"
| "playlist_message TagMatchInvalid = ''tag match must be any or all''"
| "playlist_message ImageDurationInvalid = ''tag playlist image duration is invalid''"
| "playlist_message TagRequired = ''tag playlist must select at least one tag''"
| "playlist_message (TagMissing t) = ''tag '' @ uuid_string t @ '' is missing''"
| "playlist_message DuplicateItemIds = ''playlist snapshot contains duplicate item ids''"
| "playlist_message ExactlyOneReference = ''playlist item must reference exactly one asset or Layout''"
| "playlist_message LayoutNotPublished = ''Layout must be published before it can be added''"
| "playlist_message LayoutDuration = ''Layout durationMs must be positive''"
| "playlist_message FitModeInvalid = ''fitMode must be contain, cover, or stretch''"
| "playlist_message TransitionInvalid = ''transition must be none, fade, or crossfade''"
| "playlist_message DeliveryInvalid = ''deliveryPolicy must be download, stream, or automatic''"
| "playlist_message VolumeRange = ''volume must be between 0 and 1''"
| "playlist_message ItemImageDuration = ''image durationMs must be positive''"
| "playlist_message WebsiteDuration = ''website source durationMs must be positive''"
| "playlist_message VideoStart = ''video start offset is outside the asset duration''"
| "playlist_message VideoEnd = ''video end offset must be after the start and within the asset duration''"
| "playlist_message _ = []"

definition provider_failure :: "playlist_error \<Rightarrow> provider_error" where
  "provider_failure e =
     (case e of
        PlaylistNotFound \<Rightarrow> ContentMissing
      | PlaylistConstraint \<Rightarrow> ProviderFailure ''constraint''
      | NoRows \<Rightarrow> ProviderFailure ''no rows in result set''
      | _ \<Rightarrow> InvalidDocument (playlist_message e))"

definition passed_on :: "playlist_error + 'a \<Rightarrow> provider_error + 'a" where
  "passed_on r = (case r of Inl e \<Rightarrow> Inl (provider_failure e) | Inr x \<Rightarrow> Inr x)"

definition content_snapshot_of :: "(playlist_doc \<Rightarrow> string) \<Rightarrow> draft_snapshot \<Rightarrow> playlist_doc content_snapshot" where
  "content_snapshot_of digest ds =
     \<lparr>sn_working = ds_working ds, sn_published = Some (ds_published ds), sn_published_id = ds_published_id ds,
      sn_document = ds_document ds, sn_digest = digest (ds_document ds)\<rparr>"

definition playlist_provider ::
  "(playlist_db \<Rightarrow> uuid \<Rightarrow> uuid list) \<Rightarrow> (playlist_doc \<Rightarrow> string) \<Rightarrow> (playlist_db, playlist_doc) provider" where
  "playlist_provider affected digest =
     \<lparr>pv_snapshot = (\<lambda>i s. andthen (passed_on (snapshot_draft i s)) (\<lambda>(ds, s'). Inr (content_snapshot_of digest ds, s'))),
      pv_validate = (\<lambda>i d s. passed_on (validate_snapshot s d)),
      pv_publish = (\<lambda>cited n i d w u s. andthen (passed_on (publish_snapshot affected cited n i d w u s)) (\<lambda>(p, s').
        Inr (\<lparr>pu_revision = pp_revision p, pu_revision_id = Some (pp_revision_id p), pu_screens = pp_screens p\<rparr>, s'))),
      pv_restore = (\<lambda>i d u s. passed_on (restore_draft i d u s))\<rparr>"

definition runtime_revision :: "content_kind \<Rightarrow> uuid \<Rightarrow> playlist_db \<Rightarrow> int option" where
  "runtime_revision k i s = (if k = TypePlaylist then map_option pl_revision (live_playlist s i) else None)"

definition has_draft :: "content_kind \<Rightarrow> uuid \<Rightarrow> playlist_db \<Rightarrow> bool" where
  "has_draft k i s \<longleftrightarrow> k = TypePlaylist \<and> draft_of s i \<noteq> None"

definition playlist_store ::
  "(playlist_db \<Rightarrow> uuid \<Rightarrow> uuid list) \<Rightarrow> (playlist_doc \<Rightarrow> string) \<Rightarrow> (playlist_doc \<Rightarrow> string) \<Rightarrow> (playlist_db, playlist_doc) content_store" where
  "playlist_store affected digest canonical =
     \<lparr>cs_provider = (\<lambda>k. if k = TypePlaylist then Some (playlist_provider affected digest) else None),
      cs_draft = has_draft, cs_current = runtime_revision,
      cs_native = (\<lambda>fresh k n s. if k = TypePlaylist then native_document fresh n s else None),
      cs_release = (\<lambda>_ _. None), cs_digest = canonical\<rparr>"

definition shown_document :: "content_kind \<Rightarrow> uuid \<Rightarrow> playlist_db \<Rightarrow> playlist_doc option" where
  "shown_document k i s = (if k = TypePlaylist then runtime_document i s else None)"

section \<open>The provider keeps its contract\<close>

lemma passed_on_Inr [simp]: "passed_on r = Inr x \<longleftrightarrow> r = Inr x"
  by (auto simp: passed_on_def split: sum.splits)

lemma kept_published:
  assumes "published_kept s s'" "live_playlist s j = Some p"
  shows "live_playlist s' j = Some p"
proof -
  from assms(1) obtain new where "pt_playlists s' = pt_playlists s @ new" by (auto simp: published_kept_def)
  moreover have "find P (xs @ new) = Some p" if "find P xs = Some p" for P xs using that by (induction xs) (auto split: if_splits)
  ultimately show ?thesis using assms(2) by (simp add: live_playlist_def)
qed

lemma draft_kept: "draft_moves s s' \<Longrightarrow> has_draft k j s \<Longrightarrow> has_draft k j s'"
  by (auto simp: has_draft_def draft_moves_def)

lemma snapshot_same:
  assumes "snapshot_draft i s = Inr (ds, s')"
  shows "live_playlist s' j = live_playlist s j" "runtime_document j s' = runtime_document j s"
  using assms by (auto simp: snapshot_draft_def Let_def runtime_document_def runtime_items_def split: option.splits)

lemma restore_same:
  assumes "restore_draft i d u s = Inr s'"
  shows "live_playlist s' j = live_playlist s j" "runtime_document j s' = runtime_document j s"
proof -
  from assms have r: "replace_draft i d u (ensure_draft i s) = Inr s'" by (auto simp: restore_draft_def)
  show "live_playlist s' j = live_playlist s j" using replace_draft_live[OF r] by simp
  moreover have "pt_items s' = pt_items s" "pt_tags s' = pt_tags s"
    using document_edits_kept(2)[OF assms] by (simp_all add: published_kept_def)
  ultimately show "runtime_document j s' = runtime_document j s" by (simp add: runtime_document_def runtime_items_def)
qed

lemma provider_is: "cs_provider (playlist_store affected digest canonical) k = Some pv \<longleftrightarrow> k = TypePlaylist \<and> pv = playlist_provider affected digest"
  by (auto simp: playlist_store_def)

interpretation review: runtime_content "playlist_store affected digest canonical" shown_document stored_document
  for affected digest canonical
proof (unfold_locales, goal_cases)
  case (1 k pv i s sn s' k' j)
  then obtain ds where ds: "snapshot_draft i s = Inr (ds, s')" by (auto simp: provider_is playlist_provider_def)
  show ?case
    using draft_kept[OF snapshot_moves[OF ds]] snapshot_same[OF ds] by (auto simp: playlist_store_def runtime_revision_def shown_document_def)
next
  case (2 k pv i d u s s' k' j)
  then have r: "restore_draft i d u s = Inr s'" by (auto simp: provider_is playlist_provider_def)
  show ?case
    using draft_kept[OF restore_draft_moves[OF r]] restore_same[OF r] by (auto simp: playlist_store_def runtime_revision_def shown_document_def)
next
  case (3 k pv c n i d w u s p s' k' j)
  then obtain p' where pub: "publish_snapshot affected c n i d w u s = Inr (p', s')" and k: "k = TypePlaylist"
    by (auto simp: provider_is playlist_provider_def)
  have "live_playlist s' j = live_playlist s j \<and> runtime_document j s' = runtime_document j s" if "j \<noteq> i"
    using publish_live[OF pub] that by metis
  with 3(3) k show ?case by (simp add: playlist_store_def runtime_revision_def shown_document_def)
next
  case (4 k pv c n i d w u s p s')
  then obtain p' where pub: "publish_snapshot affected c n i d w u s = Inr (p', s')" and k: "k = TypePlaylist" "pu_revision p = pp_revision p'"
    by (auto simp: provider_is playlist_provider_def)
  obtain q where "live_playlist s' i = Some (q\<lparr>pl_details := pd_details d, pl_revision := pp_revision p'\<rparr>)"
    "runtime_document i s' = Some (stored_document d)" using publish_live[OF pub] by metis
  with k show ?case by (simp add: playlist_store_def runtime_revision_def shown_document_def)
next
  case (5 k pv c n i d w u s p s')
  then obtain p' where pub: "publish_snapshot affected c n i d w u s = Inr (p', s')" and k: "k = TypePlaylist" "pu_revision p = pp_revision p'"
    by (auto simp: provider_is playlist_provider_def)
  obtain q where "live_playlist s i = Some q" "pl_revision q < pp_revision p'" using publish_live[OF pub] by metis
  with k show ?case by (simp add: playlist_store_def runtime_revision_def)
next
  case (6 k pv c n i d w u s p s' k' j)
  then obtain p' where pub: "publish_snapshot affected c n i d w u s = Inr (p', s')" by (auto simp: provider_is playlist_provider_def)
  from draft_kept[OF publish_moves[OF pub]] 6(3) show ?case by (simp add: playlist_store_def)
qed

section \<open>Edits of playlists are harmless to what is shown\<close>

lemma bump_draft_rows: "bump_draft i user db = Inr db' \<Longrightarrow> pt_playlists db' = pt_playlists db"
  by (auto simp: bump_draft_def Let_def)

lemma change_items_rows: "change_items i c f db = Inr db' \<Longrightarrow> pt_playlists db' = pt_playlists db"
  by (auto simp: change_items_def)

lemma edits_keep_rows:
  "update_details i user n e db = Inr db' \<Longrightarrow> pt_playlists db' = pt_playlists db"
  "set_tag_rule i user r db = Inr db' \<Longrightarrow> pt_playlists db' = pt_playlists db"
  "add_item new i user x db = Inr db' \<Longrightarrow> pt_playlists db' = pt_playlists db"
  "update_item i item user x db = Inr db' \<Longrightarrow> pt_playlists db' = pt_playlists db"
  "delete_item i item user db = Inr db' \<Longrightarrow> pt_playlists db' = pt_playlists db"
  "reorder i user order db = Inr db' \<Longrightarrow> pt_playlists db' = pt_playlists db"
  "bulk_update i user b db = Inr db' \<Longrightarrow> pt_playlists db' = pt_playlists db"
  "snapshot_draft i db = Inr (sn, db') \<Longrightarrow> pt_playlists db' = pt_playlists db"
  "restore_draft i d user db = Inr db' \<Longrightarrow> pt_playlists db' = pt_playlists db"
  "list_revisions cited new i db = Inr (rs, db') \<Longrightarrow> pt_playlists db' = pt_playlists db"
  by (auto simp: update_details_def set_tag_rule_def add_item_def update_item_def delete_item_def reorder_def bulk_update_def Let_def
      snapshot_draft_def restore_draft_def replace_draft_def list_revisions_def snapshot_revision_def record_revision_def trim_revisions_def
      dest!: bump_draft_rows change_items_rows split: if_splits option.splits)

lemma create_live:
  assumes "create_playlist new user n e s db = Inr db'" "draft_of db i \<noteq> None"
  shows "live_playlist db' i = live_playlist db i"
proof -
  from assms(1) obtain p where p: "pt_playlists db' = pt_playlists db @ [p]" "pl_id p = new" "draft_of db new = None"
    by (auto simp: create_playlist_def Let_def)
  with assms(2) have "pt_playlists db' = pt_playlists db @ [p]" "pl_id p \<noteq> i" by auto
  moreover have "find P (xs @ [p]) = find P xs" if "\<not> P p" for P xs using that by (induction xs) auto
  ultimately show ?thesis by (simp add: live_playlist_def)
qed

lemma duplicate_live:
  assumes "draft_of db i \<noteq> None"
  shows "live_playlist (snd (duplicate fresh new j user db)) i = live_playlist db i"
proof -
  have "live_playlist db2 i = live_playlist db1 i" if "fill_copy fresh new user j e db1 = Inr db2" for db1 db2 e
    using that by (auto simp: fill_copy_def Let_def live_playlist_def)
  then show ?thesis
    using create_live[OF _ assms] by (auto simp: duplicate_def split: option.splits sum.splits)
qed

lemma authoring_live:
  assumes "authoring op" "draft_of db i \<noteq> None"
  shows "live_playlist (playlist_step affected op db) i = live_playlist db i"
proof -
  have quiet: "live_playlist (settled db r) i = live_playlist db i" if "\<And>db'. r = Inr db' \<Longrightarrow> pt_playlists db' = pt_playlists db" for r
    using that by (cases r) (auto simp: settled_def live_playlist_def)
  have quiet_with: "live_playlist (settled_with db r) i = live_playlist db i"
    if "\<And>x db'. r = Inr (x, db') \<Longrightarrow> pt_playlists db' = pt_playlists db" for r :: "playlist_error + 'x \<times> playlist_db"
    using that by (cases r) (auto simp: settled_with_def live_playlist_def)
  show ?thesis
  proof (cases op)
    case (PlCreate new user n e s)
    then show ?thesis
      using create_live[OF _ assms(2)] by (cases "create_playlist new user n e s db") (auto simp: playlist_step_def settled_def)
  next
    case (PlDuplicate fresh new j user)
    then show ?thesis by (simp add: playlist_step_def duplicate_live[OF assms(2)])
  next
    case (PlLibrary media layouts uses tags settings ms)
    then show ?thesis by (simp add: playlist_step_def live_playlist_def)
  qed (use assms(1) in \<open>auto simp: playlist_step_def authoring_def intro!: quiet quiet_with dest: edits_keep_rows\<close>)
qed

text \<open>Everything that happens to playlists outside the workflow, except putting a stored revision back.\<close>

definition editing :: "playlist_op \<Rightarrow> bool" where
  "editing op \<longleftrightarrow> authoring op \<or> (case op of PlDelete _ _ _ \<Rightarrow> True | _ \<Rightarrow> False)"

lemma editing_shows:
  assumes "editing op" "draft_of db i \<noteq> None"
  shows "live_playlist (playlist_step affected op db) i = None
    \<or> live_playlist (playlist_step affected op db) i = live_playlist db i
      \<and> runtime_document i (playlist_step affected op db) = runtime_document i db"
proof (cases "authoring op")
  case True
  with step_kept[OF True, of db affected] authoring_live[OF True assms(2), of affected]
  show ?thesis by (simp add: runtime_document_def runtime_items_def published_kept_def)
next
  case False
  with assms(1) obtain uses j user where op: "op = PlDelete uses j user" by (cases op) (auto simp: editing_def)
  have gone: "find (\<lambda>p. pl_id p = i \<and> \<not> pl_deleted p) (map (\<lambda>p. if pl_id p = j then p\<lparr>pl_deleted := True\<rparr> else p) ps)
      = (if i = j then None else find (\<lambda>p. pl_id p = i \<and> \<not> pl_deleted p) ps)" for ps
    by (induction ps) auto
  show ?thesis
    by (cases "delete_playlist uses j user db")
      (auto simp: op playlist_step_def settled_def delete_playlist_def live_playlist_def update_playlist_def runtime_document_def
        runtime_items_def gone)
qed

lemma editing_harmless:
  assumes "list_all editing pops"
  shows "review.harmless affected digest canonical (fold (playlist_step affected) pops)"
  unfolding review.harmless_def
proof (intro allI impI)
  fix k i s
  assume d: "cs_draft (playlist_store affected digest canonical) k i s"
  then have k: "k = TypePlaylist" and "draft_of s i \<noteq> None" by (simp_all add: playlist_store_def has_draft_def)
  note this(2)
  then have "draft_of (fold (playlist_step affected) pops s) i \<noteq> None \<and>
      (live_playlist (fold (playlist_step affected) pops s) i = None
       \<or> live_playlist (fold (playlist_step affected) pops s) i = live_playlist s i
         \<and> runtime_document i (fold (playlist_step affected) pops s) = runtime_document i s)"
    using assms
  proof (induction pops arbitrary: s)
    case (Cons op pops)
    let ?s = "playlist_step affected op s"
    have d: "draft_of ?s i \<noteq> None" using step_moves[of s affected op] Cons.prems(1) by (auto simp: draft_moves_def)
    have e: "live_playlist ?s i = None \<or> live_playlist ?s i = live_playlist s i \<and> runtime_document i ?s = runtime_document i s"
      using editing_shows[of op s i affected] Cons.prems by simp
    from Cons.IH[OF d] Cons.prems(2) e show ?case by auto
  qed simp
  then show "cs_draft (playlist_store affected digest canonical) k i (fold (playlist_step affected) pops s) \<and>
      (cs_current (playlist_store affected digest canonical) k i (fold (playlist_step affected) pops s) = None \<or>
       cs_current (playlist_store affected digest canonical) k i (fold (playlist_step affected) pops s) = cs_current (playlist_store affected digest canonical) k i s \<and>
       shown_document k i (fold (playlist_step affected) pops s) = shown_document k i s)"
    by (auto simp: k playlist_store_def has_draft_def runtime_revision_def shown_document_def)
qed

section \<open>Screens show what was reviewed\<close>

text \<open>The publication \<open>h\<close> went through the review that the policy of its submission asked for.\<close>

definition reviewed_publication :: "edit_event list \<Rightarrow> publication \<Rightarrow> uuid \<Rightarrow> bool" where
  "reviewed_publication trace h sid \<longleftrightarrow>
     (\<exists>u a p. Submitted sid u a p (pb_kind h) \<in> set trace
        \<and> (review_required_for (review_policy_of p) a (pb_kind h) \<longrightarrow>
             (\<exists>r a'. ApprovedBy sid r a' \<in> set trace \<and> can_review a' \<and> (allow_self_approval p \<or> r \<noteq> u))))"

definition published_as :: "uuid \<Rightarrow> int \<Rightarrow> publication list \<Rightarrow> bool" where
  "published_as i r hs \<longleftrightarrow> (\<exists>h\<in>set hs. pb_kind h = TypePlaylist \<and> pb_content h = i \<and> pb_revision h = r)"


section \<open>Witnesses\<close>

definition demo_policy :: settings_doc where
  "demo_policy = Some [(''content.review_policy'', SettingText ''everyone''), (''content.allow_self_approval'', SettingBool False),
     (''content.auto_publish_on_approval'', SettingBool True)]"

definition demo_db :: "(playlist_db, playlist_doc) editorial_db" where
  "demo_db = \<lparr>ed_submissions = [],
     ed_history = [\<lparr>pb_id = UUID ''h'', pb_kind = TypePlaylist, pb_content = UUID ''p'', pb_revision = 1, pb_native = None,
        pb_submission = None, pb_release = None, pb_by = None, pb_at = 0, pb_supersedes = None, pb_method = ''migration'',
        pb_screens = 1, pb_digest = None\<rparr>],
     ed_reviews = [], ed_audit = [], ed_users = [UUID ''u'', UUID ''v''], ed_content = demo_playlists\<rparr>"

definition demo_ids :: drawn_ids where
  "demo_ids = \<lparr>di_submission = UUID ''sub'', di_publication = UUID ''pub'', di_native = UUID ''nat'', di_items = (\<lambda>n. UUID (replicate (Suc n) CHR ''i''))\<rparr>"

definition demo_edit :: playlist_op where
  "demo_edit = PlBulk (UUID ''p'') (UUID ''u'') \<lparr>bi_items = [], bi_transition = Some ''fade'', bi_duration = None\<rparr>"

definition demo_submit :: "playlist_db edit_op" where
  "demo_submit = Submit demo_policy demo_ids 1 (UUID ''u'') {''playlist.edit''} TypePlaylist (UUID ''p'') None 0"

definition demo_approve :: "playlist_db edit_op" where
  "demo_approve = Approve demo_policy demo_ids 3 (UUID ''v'') {''content.review'', ''playlist.publish''} (UUID ''sub'') []"

text \<open>The tables after each step.\<close>

definition demo_digest :: string where
  "demo_digest = replicate 64 CHR ''0''"

abbreviation demo_store :: "(playlist_db, playlist_doc) content_store" where
  "demo_store \<equiv> playlist_store (\<lambda>_ _. [UUID ''s'']) (\<lambda>_. demo_digest) (\<lambda>_. demo_digest)"

definition demo_edited :: "(playlist_db, playlist_doc) editorial_db" where
  "demo_edited = demo_db\<lparr>ed_content := demo_playlists
     \<lparr>pt_drafts := [\<lparr>dr_playlist = UUID ''p'', dr_details = demo_details, dr_revision = 2, dr_published = 1, dr_by = Some (UUID ''u'')\<rparr>],
      pt_draft_items := [(UUID ''p'', demo_item\<lparr>pi_transition := ''fade''\<rparr>)],
      pt_audit := [(UUID ''u'', ''playlist.draft.items_bulk_updated'', UUID ''p'')]\<rparr>\<rparr>"

definition demo_row :: "playlist_doc submission" where
  "demo_row = \<lparr>sb_id = UUID ''sub'', sb_kind = TypePlaylist, sb_content = UUID ''p'', sb_working = 2,
     sb_document = demo_doc\<lparr>pd_items := [demo_item\<lparr>pi_transition := ''fade''\<rparr>]\<rparr>, sb_digest = demo_digest, sb_by = Some (UUID ''u''),
     sb_at = 1, sb_based = Some 1, sb_based_id = None, sb_status = InReview, sb_review = True, sb_self = False, sb_note = [],
     sb_reviewer = None, sb_reviewed_at = None, sb_requested = None, sb_failure = None, sb_published_at = None\<rparr>"

definition demo_submitted :: "(playlist_db, playlist_doc) editorial_db" where
  "demo_submitted = demo_edited\<lparr>ed_submissions := [demo_row],
     ed_audit := [(UUID ''u'', ''content.submitted'', TypePlaylist, UUID ''p'')]\<rparr>"

lemma demo_step1: "edit_step demo_store (EditContent (fold demo_step [demo_edit])) demo_db = demo_edited"
  by code_simp

lemma demo_step2: "edit_step demo_store demo_submit demo_edited = demo_submitted"
  by code_simp

definition demo_end :: "(playlist_db, playlist_doc) editorial_db" where
  "demo_end = edit_step demo_store demo_approve demo_submitted"

lemma demo_end_live: "map_option pl_revision (live_playlist (ed_content demo_end) (UUID ''p'')) = Some 2"
  by code_simp

abbreviation demo_ops :: "playlist_db edit_op list" where
  "demo_ops \<equiv> [EditContent (fold demo_step [demo_edit]), demo_submit, demo_approve]"

lemma demo_run: "fold (edit_step demo_store) demo_ops demo_db = demo_end"
  by (simp only: fold_simps demo_step1 demo_step2 demo_end_def)


end
