(* ===== verification/Spec2Isabelle.thy ===== *)
theory Spec2Isabelle
  imports PlayerCaps Preflight Agenda SpanWall Targeting LiveStream JobScheduler Notify AirPlay GuestStorage ActivityTables ExpectedPlayback Roles ScreenAuthz SyncGroups ContentOrganization SignIn PlaylistReview
begin

text \<open>
  Tilecast server: a verification library.

  Tilecast is a self-hosted digital signage system. Its Go server (\<open>apps/server\<close>) keeps the content, the schedules and
  the screens of one organization in PostgreSQL; players poll manifests, send heartbeats and report what they show;
  people work in a dashboard whose requests pass an authorization layer. The library models the server's own decisions
  and the tables they change. Paths below are relative to \<open>apps/server/internal\<close>.

  \<^bold>\<open>What a screen shows.\<close>
  \<^item> \<open>Scheduling\<close> (\<open>scheduling/engine.go\<close>, \<open>explain.go\<close>) evaluates schedules over \<open>GoTime\<close>, the part of Go's package
    \<open>time\<close> that the server uses; \<open>SchedulingProperties\<close> shows that the winner is the maximal applicable schedule, when a
    weekly schedule is active, that validated schedules never panic, that the next transition is the earliest within a
    week, and that nothing changes before it.
  \<^item> \<open>Preflight\<close> (\<open>scheduling/preflight.go\<close>) predicts where a draft would win.
  \<^item> \<open>PlaybackPlan\<close> (\<open>playbackplan/current.go\<close>, \<open>history.go\<close>, \<open>inspection.go\<close>, \<open>response.go\<close>) puts takeovers, overrides,
    schedules and assignments in order; \<open>SelectionReaders\<close> (\<open>playlists/takeover_selection.go\<close>, the query of
    \<open>presentations/service.go\<close>) reads the running Takeover and Quick Present; \<open>Agenda\<close> (\<open>snapshot.go\<close>, \<open>agenda.go\<close>)
    forecasts a range and is shown to agree with the selection at every instant of it.
  \<^item> \<open>Targeting\<close>, \<open>SyncGroups\<close> and \<open>SpanWall\<close> say which screens a definition reaches, how a screen joins and leaves a
    Display Group, and which walls of panels are valid.
  \<^item> \<open>DisplayControl\<close>, \<open>PlayerCaps\<close> and \<open>Capabilities\<close> (\<open>displaycontrol\<close>, \<open>playercaps\<close>, \<open>playlists/capabilities.go\<close>)
    decide which commands and presentations a player supports. \<open>LiveStream\<close> and \<open>AirPlay\<close> hold the state machine of Watch
    Live and the AirPlay policy, over \<open>GoNet\<close>.

  \<^bold>\<open>What a screen reported.\<close>
  \<^item> \<open>ActivityContract\<close>, \<open>ActivitySessions\<close>, \<open>Incidents\<close>, \<open>ContentHealth\<close>, \<open>IncidentHistory\<close> and \<open>ActivityIngest\<close>
    (\<open>httpapi/activity_*.go\<close>, \<open>incident_*.go\<close>, \<open>contenthealth\<close>): a batch of events is normalised, stored once and
    derived into state intervals, playback sessions and incidents; operators and sweeps act on incidents.
  \<^item> \<open>ActivityConnectivity\<close> and \<open>ActivityTables\<close>: heartbeats, the operational states of the fleet, and the invariant of
    the tables after any history of batches and heartbeats. \<open>ExpectedPlayback\<close> judges what was expected against what was
    reported.
  \<^item> \<open>Notify\<close> (\<open>notify/notify.go\<close>) decides what is sent to whom and when.

  \<^bold>\<open>What people edit.\<close>
  \<^item> \<open>PlaylistDrafts\<close> (\<open>playlists/drafts.go\<close>, \<open>revisions.go\<close> and the authoring part of \<open>service.go\<close>): the published rows
    of a playlist, its working copy and its stored revisions, with every operation on them. Shown: editing changes no
    published row and no manifest, a working revision stands for one document, and a published document can be restored.
  \<^item> \<open>Editorial\<close> (\<open>approvals/approvals.go\<close>, \<open>editorial/provider.go\<close>): drafts are frozen into submissions, reviewed, and
    published now or at a time, rolled back or restored; the content behind them is a record of functions, as the
    interface \<open>Provider\<close> is. Shown: a submission stays what the reviewer saw and moves only along the workflow.
  \<^item> \<open>PlaylistReview\<close> puts both together: the provider of playlists keeps the contract \<open>runtime_content\<close>, and what screens
    show of a playlist is a document that went through the review its policy asked for.

  \<^bold>\<open>Who may do what.\<close>
  \<^item> \<open>SignIn\<close> with \<open>Totp\<close> (\<open>auth/service.go\<close>, \<open>mfa.go\<close>, \<open>totp.go\<close>): accounts, factors, challenges and sessions; codes
    down to the bytes of SHA-1.
  \<^item> \<open>Roles\<close> (\<open>auth/capabilities.go\<close>, \<open>roles.go\<close>, \<open>httpapi/roles.go\<close>): what a role may do and who may define one.
  \<^item> \<open>ScreenAuthz\<close> (package \<open>authz\<close>): which screens and objects around them an account reaches. \<open>ContentAccess\<close> and
    \<open>ContentOrganization\<close> (\<open>media/access.go\<close>, \<open>organization.go\<close>) do the same for the Media library, and hold every request
    about its folders, collections and tags.

  \<^bold>\<open>Packages.\<close> \<open>JobScheduler\<close> and \<open>GuestStorage\<close> (\<open>extensions/wasm\<close>): the claims on background jobs under any interleaving
  of schedulers, and the storage that a guest program uses through its host functions.

  \<open>Prelude\<close> and \<open>GoValues\<close> hold what the components share: identifiers, results of fallible operations, lemmas on lists,
  association lists and sorting, the functions of package \<open>strings\<close>, and decoded JSON.

  \<^bold>\<open>How Go and PostgreSQL are represented.\<close> A UUID is its canonical text. A Go map is an association list, a pointer that
  may be nil an option. A returned error is the left of a sum, in an error type of each component; where a failing call
  leaves changed tables the result is a pair. A panic is \<open>None\<close> or an error of its own. A SQL table is a list of rows of
  the one organization; unique indexes, checks, foreign keys, \<open>ON CONFLICT\<close> and triggers are written out, and a
  transaction that fails leaves the state as it was. \<open>WITH RECURSIVE \<dots> UNION\<close> is the evaluation by working tables;
  \<open>UNION ALL\<close>, which may not end, and the search for a free role key are partial functions whose termination is a
  property. Text is ordered by bytes. Instants and durations are integers of nanoseconds; machine integers are kept at
  64 bits where sums may wrap. A component's operations are atomic: races between concurrent transactions are outside
  the model except in \<open>JobScheduler\<close>, where schedulers interleave, and \<open>LiveStream\<close>, whose steps are those of the lock.

  \<^bold>\<open>What is an argument.\<close> The time zone database, clock readings, random bytes, identifiers and tokens, argon2 and the
  SHA-256 of tokens, \<open>uuid.Parse\<close>, the texts of instants in JSON, Unicode case mapping (\<open>lw\<close>) and PostgreSQL's \<open>lower\<close>,
  the release catalog, and the services behind Go interfaces. Hypotheses about them state documented behaviour and have
  witnesses on concrete functions.

  \<^bold>\<open>Interfaces.\<close> Contracts between components are locales, interpreted on the model's definitions in the theory of the
  provider: \<open>package_store\<close> by both stores of packages, \<open>condition_sweep\<close> by the three sweeps over conditions,
  \<open>runtime_content\<close> by the provider of playlists, and \<open>ranking\<close> (\<open>Prelude\<close>), an order given by a key, by the orders
  of schedules and their traces, gateways, resolution windows, UUIDs, panels, jobs, playlist items and revisions.

  \<^bold>\<open>Bounds.\<close> The recursions with fuel or a bound of the code: an agenda has at most 512 segments; the scan for a local time
  looks 840 minutes to each side and advances at most 180 minutes over a gap, which covers every offset; the horizon of the
  next occurrence is 400 days; batches have 200 events; a session lasts six hours; a sweep judges 2000 windows; the
  heartbeat grace is 15 minutes and a gap 3; a role key has at most 64 characters, and the search for a free one ends
  because the table is finite; a challenge lives ten minutes and hears five tries; 200 grants, 250 assets per bulk change,
  32 levels of folders; 30 stored revisions of a playlist, 20 tags of a tag rule, 50 due submissions per round of the
  scheduler of publications. The volumes and lengths of media are rational numbers, which hold every value of their columns.

  \<^bold>\<open>Not modelled.\<close> The HTTP handlers and routes beyond the guards and request rules, read-only reports, manifest
  building, media ingest, data sources and widgets, layouts and campaigns (nor their providers for the review workflow),
  plugins and package installation, updates, backups, pairing, and everything that only speaks to another system (mail,
  webhooks, OCI, GitHub, ffmpeg, mDNS). They are mostly input and output, or JSON documents passed on. WebAuthn is a
  third-party package. The generated API client, the command line and the players are other programs.
\<close>

end
